(* ===== verification/Prelude.thy ===== *)
theory Prelude
  imports Main "HOL-Library.Word" "HOL-Library.Monad_Syntax"
begin

text \<open>
  Shared vocabulary of the development: the machine types of the C sources, the named
  collections that carry the component proofs, and the generic facts on byte lists and
  words that more than one component needs.
\<close>

unbundle bit_operations_syntax

type_synonym u8 = "8 word"
type_synonym u16 = "16 word"
type_synonym u32 = "32 word"

text \<open>
  Collections: \<open>proto_const\<close> holds the unfolded values of the protocol's numeric
  constants, \<open>wp\<close> the rewrite rules of the weakest-precondition reading of functions
  that may not return, \<open>fifo_abs\<close> the abstraction equations of the bounded queues.
\<close>

named_theorems proto_const "values of the preprocessor constants"
named_theorems wp "weakest preconditions of state-passing functions"
named_theorems fifo_abs "list views of bounded queues"

subsection \<open>Memory blocks as lists\<close>

text \<open>
  A C array is a list of fixed length. \<open>memcpy_at dst off src n\<close> is
  \<^verbatim>\<open>memcpy(&dst[off], src, n)\<close>; the two byte stores of \<^verbatim>\<open>write_u16_be\<close> and the
  four of \<^verbatim>\<open>write_u32_be\<close> are list updates at the offset.
\<close>

definition memcpy_at :: "'a list \<Rightarrow> nat \<Rightarrow> 'a list \<Rightarrow> nat \<Rightarrow> 'a list" where
  "memcpy_at dst off src n = take off dst @ take n src @ drop (off + n) dst"

lemma length_memcpy_at [simp]:
  "off + n \<le> length dst \<Longrightarrow> n \<le> length src \<Longrightarrow> length (memcpy_at dst off src n) = length dst"
  by (simp add: memcpy_at_def)

lemma memcpy_at_none [simp]: "memcpy_at dst off src 0 = dst"
  by (simp add: memcpy_at_def)

lemma memcpy_at_0 [simp]: "n \<le> length src \<Longrightarrow> take n (memcpy_at dst 0 src n) = take n src"
  by (simp add: memcpy_at_def)

lemma take_list_update_ge [simp]: "n \<le> i \<Longrightarrow> take n (xs[i := x]) = take n xs"
  by (simp add: list_eq_iff_nth_eq)

lemma take_Suc_update [simp]:
  "n < length xs \<Longrightarrow> take (Suc n) (xs[n := x]) = take n xs @ [x]"
  by (simp add: take_Suc_conv_app_nth)

lemma map_nth_upt: "n \<le> length xs \<Longrightarrow> map ((!) xs) [0..<n] = take n xs"
  by (rule nth_equalityI) auto

lemma split_at_two: "2 \<le> length xs \<Longrightarrow> xs = xs ! 0 # xs ! 1 # drop 2 xs"
  by (cases xs; cases "tl xs") (auto simp: numeral_2_eq_2)

subsection \<open>Big-endian halves of a 16-bit word\<close>

definition hi8 :: "u16 \<Rightarrow> u8" where
  "hi8 v = ucast (drop_bit 8 v AND 0xFF)"

definition lo8 :: "u16 \<Rightarrow> u8" where
  "lo8 v = ucast (v AND 0xFF)"

definition be16 :: "u8 \<Rightarrow> u8 \<Rightarrow> u16" where
  "be16 h l = push_bit 8 (ucast h) OR ucast l"

lemma bit_255 [simp]: "bit (255 :: int) n \<longleftrightarrow> n < 8"
proof -
  have "(255 :: int) = mask 8" by (simp add: mask_eq_exp_minus_1)
  then show ?thesis unfolding \<open>255 = mask 8\<close> by (simp only: bit_mask_iff) simp
qed

lemma be16_hi_lo [simp]: "be16 (hi8 v) (lo8 v) = v"
  by (rule bit_word_eqI) (auto simp: be16_def hi8_def lo8_def bit_simps)

lemma hi8_be16 [simp]: "hi8 (be16 h l) = h"
  by (rule bit_word_eqI) (auto simp: be16_def hi8_def bit_simps dest: bit_imp_le_length)

lemma lo8_be16 [simp]: "lo8 (be16 h l) = l"
  by (rule bit_word_eqI) (auto simp: be16_def lo8_def bit_simps)

lemma be16_inject [simp]: "be16 h l = be16 h' l' \<longleftrightarrow> h = h' \<and> l = l'"
  by (metis hi8_be16 lo8_be16)

subsection \<open>Functions that may not return\<close>

text \<open>
  A function whose loop waits for the outside world has type
  \<open>'s \<Rightarrow> ('a \<times> 's) option\<close>, with \<open>None\<close> for a loop that never ends.
  \<open>post Q m\<close> says that \<open>m\<close>, if it returns, returns values satisfying \<open>Q\<close>;
  \<open>returns Q m\<close> says that it returns and they do.
\<close>

definition post :: "('a \<Rightarrow> 's \<Rightarrow> bool) \<Rightarrow> ('a \<times> 's) option \<Rightarrow> bool" where
  "post Q m \<longleftrightarrow> (case m of None \<Rightarrow> True | Some (r, s) \<Rightarrow> Q r s)"

definition returns :: "('a \<Rightarrow> 's \<Rightarrow> bool) \<Rightarrow> ('a \<times> 's) option \<Rightarrow> bool" where
  "returns Q m \<longleftrightarrow> (case m of None \<Rightarrow> False | Some (r, s) \<Rightarrow> Q r s)"

lemma post_simps [wp]:
  "post Q None = True"
  "post Q (Some (r, s)) = Q r s"
  "post Q (Option.bind m (\<lambda>(x, t). k x t)) = post (\<lambda>x t. post Q (k x t)) m"
  by (auto simp: post_def split: option.splits prod.splits)

lemma returns_simps [wp]:
  "returns Q None = False"
  "returns Q (Some (r, s)) = Q r s"
  "returns Q (Option.bind m (\<lambda>(x, t). k x t)) = returns (\<lambda>x t. returns Q (k x t)) m"
  by (auto simp: returns_def split: option.splits prod.splits)

lemma post_if [wp]: "post Q (if b then m else n) = (if b then post Q m else post Q n)"
  by simp

lemma returns_if [wp]: "returns Q (if b then m else n) = (if b then returns Q m else returns Q n)"
  by simp

lemma post_mono: "post P m \<Longrightarrow> (\<And>r s. P r s \<Longrightarrow> Q r s) \<Longrightarrow> post Q m"
  by (auto simp: post_def split: option.splits)

lemma returns_mono: "returns P m \<Longrightarrow> (\<And>r s. P r s \<Longrightarrow> Q r s) \<Longrightarrow> returns Q m"
  by (auto simp: returns_def split: option.splits)

lemma returns_conj_post: "returns P m \<Longrightarrow> post Q m \<Longrightarrow> returns (\<lambda>r s. P r s \<and> Q r s) m"
  by (auto simp: returns_def post_def split: option.splits)

lemma returns_post: "returns Q m \<Longrightarrow> post Q m"
  by (auto simp: returns_def post_def split: option.splits)

lemma returns_iff: "returns Q m \<longleftrightarrow> (\<exists>r s. m = Some (r, s) \<and> Q r s)"
  by (auto simp: returns_def split: option.splits)

end
