(* ===== verification/KernelList.thy ===== *)
theory KernelList
  imports Prelude
begin

text \<open>
  The kernel's doubly linked lists (\<^verbatim>\<open>list.c\<close>, and the macros of \<^verbatim>\<open>list.h\<close> that the scheduler uses). A
  list is a ring of items through its end marker, with an index that walks round it. The items
  and lists live in memory by address; the specification sees a list of item addresses and the
  position of the index.
\<close>

record ListItem_t =
  xItemValue :: u32
  pxNext :: u32
  pxPrevious :: u32
  pvOwner :: u32
  pxContainer :: u32

record List_t =
  uxNumberOfItems :: u32
  pxIndex :: u32

text \<open>The marker is an item at a fixed offset in the list; its owner and container do not exist and are never read.\<close>

record list_mem =
  item_at :: "u32 \<Rightarrow> ListItem_t"
  list_at :: "u32 \<Rightarrow> List_t"

definition xListEnd :: "u32 \<Rightarrow> u32" where
  "xListEnd pxList = pxList + 8"

definition set_item :: "u32 \<Rightarrow> (ListItem_t \<Rightarrow> ListItem_t) \<Rightarrow> list_mem \<Rightarrow> list_mem" where
  "set_item x f m = m\<lparr>item_at := (item_at m)(x := f (item_at m x))\<rparr>"

definition set_list :: "u32 \<Rightarrow> (List_t \<Rightarrow> List_t) \<Rightarrow> list_mem \<Rightarrow> list_mem" where
  "set_list p f m = m\<lparr>list_at := (list_at m)(p := f (list_at m p))\<rparr>"

subsection \<open>Operations\<close>

definition vListInitialise :: "u32 \<Rightarrow> list_mem \<Rightarrow> list_mem" where
  "vListInitialise pxList m =
     (let m = set_list pxList (\<lambda>l. l\<lparr>pxIndex := xListEnd pxList\<rparr>) m;
          m = set_item (xListEnd pxList) (\<lambda>i. i\<lparr>xItemValue := 0xffffffff\<rparr>) m;
          m = set_item (xListEnd pxList) (\<lambda>i. i\<lparr>pxNext := xListEnd pxList\<rparr>) m;
          m = set_item (xListEnd pxList) (\<lambda>i. i\<lparr>pxPrevious := xListEnd pxList\<rparr>) m
      in set_list pxList (\<lambda>l. l\<lparr>uxNumberOfItems := 0\<rparr>) m)"

definition vListInitialiseItem :: "u32 \<Rightarrow> list_mem \<Rightarrow> list_mem" where
  "vListInitialiseItem pxItem m = set_item pxItem (\<lambda>i. i\<lparr>pxContainer := 0\<rparr>) m"

definition vListInsertEnd :: "u32 \<Rightarrow> u32 \<Rightarrow> list_mem \<Rightarrow> list_mem" where
  "vListInsertEnd pxList pxNewListItem m =
     (let idx = pxIndex (list_at m pxList);
          m = set_item pxNewListItem (\<lambda>i. i\<lparr>pxNext := idx\<rparr>) m;
          m = set_item pxNewListItem (\<lambda>i. i\<lparr>pxPrevious := pxPrevious (item_at m idx)\<rparr>) m;
          m = set_item (pxPrevious (item_at m idx)) (\<lambda>i. i\<lparr>pxNext := pxNewListItem\<rparr>) m;
          m = set_item idx (\<lambda>i. i\<lparr>pxPrevious := pxNewListItem\<rparr>) m;
          m = set_item pxNewListItem (\<lambda>i. i\<lparr>pxContainer := pxList\<rparr>) m
      in set_list pxList (\<lambda>l. l\<lparr>uxNumberOfItems := uxNumberOfItems l + 1\<rparr>) m)"

partial_function (option) insert_walk :: "list_mem \<Rightarrow> u32 \<Rightarrow> u32 \<Rightarrow> u32 option" where
  "insert_walk m xValueOfInsertion pxIterator =
     (if xItemValue (item_at m (pxNext (item_at m pxIterator))) \<le> xValueOfInsertion
      then insert_walk m xValueOfInsertion (pxNext (item_at m pxIterator)) else Some pxIterator)"

definition link_after :: "u32 \<Rightarrow> u32 \<Rightarrow> u32 \<Rightarrow> list_mem \<Rightarrow> list_mem" where
  "link_after pxList pxNewListItem pxIterator m =
     (let m = set_item pxNewListItem (\<lambda>i. i\<lparr>pxNext := pxNext (item_at m pxIterator)\<rparr>) m;
          m = set_item (pxNext (item_at m pxNewListItem)) (\<lambda>i. i\<lparr>pxPrevious := pxNewListItem\<rparr>) m;
          m = set_item pxNewListItem (\<lambda>i. i\<lparr>pxPrevious := pxIterator\<rparr>) m;
          m = set_item pxIterator (\<lambda>i. i\<lparr>pxNext := pxNewListItem\<rparr>) m;
          m = set_item pxNewListItem (\<lambda>i. i\<lparr>pxContainer := pxList\<rparr>) m
      in set_list pxList (\<lambda>l. l\<lparr>uxNumberOfItems := uxNumberOfItems l + 1\<rparr>) m)"

definition vListInsert :: "u32 \<Rightarrow> u32 \<Rightarrow> list_mem \<Rightarrow> list_mem option" where
  "vListInsert pxList pxNewListItem m =
     (let xValueOfInsertion = xItemValue (item_at m pxNewListItem)
      in do {
        pxIterator \<leftarrow> (if xValueOfInsertion = 0xffffffff then Some (pxPrevious (item_at m (xListEnd pxList)))
                     else insert_walk m xValueOfInsertion (xListEnd pxList));
        Some (link_after pxList pxNewListItem pxIterator m)
      })"

definition uxListRemove :: "u32 \<Rightarrow> list_mem \<Rightarrow> u32 \<times> list_mem" where
  "uxListRemove pxItemToRemove m =
     (let pxList = pxContainer (item_at m pxItemToRemove);
          m = set_item (pxNext (item_at m pxItemToRemove)) (\<lambda>i. i\<lparr>pxPrevious := pxPrevious (item_at m pxItemToRemove)\<rparr>) m;
          m = set_item (pxPrevious (item_at m pxItemToRemove)) (\<lambda>i. i\<lparr>pxNext := pxNext (item_at m pxItemToRemove)\<rparr>) m;
          m = (if pxIndex (list_at m pxList) = pxItemToRemove
               then set_list pxList (\<lambda>l. l\<lparr>pxIndex := pxPrevious (item_at m pxItemToRemove)\<rparr>) m else m);
          m = set_item pxItemToRemove (\<lambda>i. i\<lparr>pxContainer := 0\<rparr>) m;
          m = set_list pxList (\<lambda>l. l\<lparr>uxNumberOfItems := uxNumberOfItems l - 1\<rparr>) m
      in (uxNumberOfItems (list_at m pxList), m))"

definition listGET_OWNER_OF_NEXT_ENTRY :: "u32 \<Rightarrow> list_mem \<Rightarrow> u32 \<times> list_mem" where
  "listGET_OWNER_OF_NEXT_ENTRY pxConstList m =
     (let m = set_list pxConstList (\<lambda>l. l\<lparr>pxIndex := pxNext (item_at m (pxIndex l))\<rparr>) m;
          m = (if pxIndex (list_at m pxConstList) = xListEnd pxConstList
               then set_list pxConstList (\<lambda>l. l\<lparr>pxIndex := pxNext (item_at m (pxIndex l))\<rparr>) m else m)
      in (pvOwner (item_at m (pxIndex (list_at m pxConstList))), m))"

definition listGET_OWNER_OF_HEAD_ENTRY :: "u32 \<Rightarrow> list_mem \<Rightarrow> u32" where
  "listGET_OWNER_OF_HEAD_ENTRY pxList m = pvOwner (item_at m (pxNext (item_at m (xListEnd pxList))))"

definition listLIST_IS_EMPTY :: "u32 \<Rightarrow> list_mem \<Rightarrow> bool" where
  "listLIST_IS_EMPTY pxList m \<longleftrightarrow> uxNumberOfItems (list_at m pxList) = 0"

subsection \<open>Abstract lists\<close>

text \<open>The items in ring order from the marker, and the item the index is at, \<open>None\<close> for the marker.\<close>

record 'a klist =
  kl_items :: "'a list"
  kl_index :: "'a option"

definition kl_empty :: "'a klist" where
  "kl_empty = \<lparr>kl_items = [], kl_index = None\<rparr>"

definition kl_insert_end :: "'a \<Rightarrow> 'a klist \<Rightarrow> 'a klist" where
  "kl_insert_end x l = l\<lparr>kl_items := (case kl_index l of None \<Rightarrow> kl_items l @ [x]
     | Some i \<Rightarrow> takeWhile (\<lambda>y. y \<noteq> i) (kl_items l) @ x # dropWhile (\<lambda>y. y \<noteq> i) (kl_items l))\<rparr>"

definition kl_insert :: "('a \<Rightarrow> u32) \<Rightarrow> 'a \<Rightarrow> 'a klist \<Rightarrow> 'a klist" where
  "kl_insert val x l =
     l\<lparr>kl_items := takeWhile (\<lambda>y. val y \<le> val x) (kl_items l) @ x # dropWhile (\<lambda>y. val y \<le> val x) (kl_items l)\<rparr>"

definition before_in :: "'a \<Rightarrow> 'a list \<Rightarrow> 'a option" where
  "before_in x xs = (case takeWhile (\<lambda>y. y \<noteq> x) xs of [] \<Rightarrow> None | ys \<Rightarrow> Some (last ys))"

definition kl_remove :: "'a \<Rightarrow> 'a klist \<Rightarrow> 'a klist" where
  "kl_remove x l = \<lparr>kl_items = filter (\<lambda>y. y \<noteq> x) (kl_items l),
     kl_index = (if kl_index l = Some x then before_in x (kl_items l) else kl_index l)\<rparr>"

text \<open>The item after the index, skipping the marker.\<close>

definition kl_next :: "'a klist \<Rightarrow> 'a" where
  "kl_next l = (case kl_index l of None \<Rightarrow> hd (kl_items l)
     | Some i \<Rightarrow> (case tl (dropWhile (\<lambda>y. y \<noteq> i) (kl_items l)) of [] \<Rightarrow> hd (kl_items l) | y # _ \<Rightarrow> y))"

definition kl_advance :: "'a klist \<Rightarrow> 'a klist" where
  "kl_advance l = l\<lparr>kl_index := Some (kl_next l)\<rparr>"

definition kl_ok :: "'a klist \<Rightarrow> bool" where
  "kl_ok l \<longleftrightarrow> distinct (kl_items l) \<and> (case kl_index l of None \<Rightarrow> True | Some i \<Rightarrow> i \<in> set (kl_items l))"

subsection \<open>Refinement\<close>

definition ring :: "list_mem \<Rightarrow> u32 list \<Rightarrow> bool" where
  "ring m path \<longleftrightarrow> successively (\<lambda>x y. pxNext (item_at m x) = y) path \<and> successively (\<lambda>x y. pxPrevious (item_at m y) = x) path"

definition list_rep :: "list_mem \<Rightarrow> u32 \<Rightarrow> u32 klist \<Rightarrow> bool" where
  "list_rep m p l \<longleftrightarrow> distinct (xListEnd p # kl_items l) \<and> ring m (xListEnd p # kl_items l @ [xListEnd p]) \<and>
     xItemValue (item_at m (xListEnd p)) = 0xffffffff \<and> uxNumberOfItems (list_at m p) = of_nat (length (kl_items l)) \<and>
     (case kl_index l of None \<Rightarrow> pxIndex (list_at m p) = xListEnd p
      | Some i \<Rightarrow> pxIndex (list_at m p) = i \<and> i \<in> set (kl_items l)) \<and>
     (\<forall>x \<in> set (kl_items l). pxContainer (item_at m x) = p)"

text \<open>Linking \<open>n\<close> between the neighbours \<open>a\<close> and \<open>b\<close> of a path, and unlinking it.\<close>

lemma next_cong: "(\<And>x. x \<in> set (butlast path) \<Longrightarrow> f x = g x) \<Longrightarrow> successively (\<lambda>x y. f x = y) path = successively (\<lambda>x y. g x = y) path"
  by (induction path) (auto simp: successively_Cons)

lemma next_link:
  assumes "successively (\<lambda>x y. f x = y) (us @ a # b # vs)" "distinct (butlast (us @ a # b # vs))" "n \<notin> set (us @ a # b # vs)"
    and g: "g a = n" "g n = b" "\<And>x. x \<noteq> a \<Longrightarrow> x \<noteq> n \<Longrightarrow> g x = f x"
  shows "successively (\<lambda>x y. g x = y) (us @ a # n # b # vs)"
  using assms(1-3)
proof (induction us)
  case Nil
  have "x \<noteq> a \<and> x \<noteq> n" if "x \<in> set (butlast (b # vs))" for x using that Nil(2,3) in_set_butlastD [OF that] by auto
  then have "successively (\<lambda>x y. g x = y) (b # vs) = successively (\<lambda>x y. f x = y) (b # vs)"
    by (intro next_cong) (simp add: g)
  moreover have "successively (\<lambda>x y. f x = y) (b # vs)" using Nil(1) by simp
  ultimately show ?case using g(1,2) by simp
next
  case (Cons u us)
  have "g u = f u" using Cons.prems(2,3) by (intro g) (auto simp: butlast_append)
  moreover have "hd (us @ a # b # vs) = hd (us @ a # n # b # vs)" by (cases us) auto
  ultimately show ?case using Cons by (auto simp: successively_Cons)
qed

lemma next_unlink:
  assumes "successively (\<lambda>x y. f x = y) (us @ a # n # b # vs)" "distinct (butlast (us @ a # n # b # vs))"
    and g: "g a = b" "\<And>x. x \<noteq> a \<Longrightarrow> g x = f x"
  shows "successively (\<lambda>x y. g x = y) (us @ a # b # vs)"
  using assms(1,2)
proof (induction us)
  case Nil
  have "x \<noteq> a" if "x \<in> set (butlast (b # vs))" for x using that Nil(2) by auto
  then have "successively (\<lambda>x y. g x = y) (b # vs) = successively (\<lambda>x y. f x = y) (b # vs)"
    by (intro next_cong) (simp add: g)
  moreover have "successively (\<lambda>x y. f x = y) (b # vs)" using Nil(1) by simp
  ultimately show ?case using g(1) by simp
next
  case (Cons u us)
  have "g u = f u" using Cons.prems(2) by (intro g) (auto simp: butlast_append)
  moreover have "hd (us @ a # n # b # vs) = hd (us @ a # b # vs)" by (cases us) auto
  ultimately show ?case using Cons by (auto simp: successively_Cons)
qed

text \<open>The backward links form the reversed path.\<close>

lemma prev_rev: "successively (\<lambda>x y. g y = x) path = successively (\<lambda>x y. g x = y) (rev path)"
  by simp

lemma prev_link:
  assumes "successively (\<lambda>x y. f y = x) (us @ a # b # vs)" "distinct (tl (us @ a # b # vs))" "n \<notin> set (us @ a # b # vs)"
    and "g b = n" "g n = a" "\<And>x. x \<noteq> b \<Longrightarrow> x \<noteq> n \<Longrightarrow> g x = f x"
  shows "successively (\<lambda>x y. g y = x) (us @ a # n # b # vs)"
  using next_link [of f "rev vs" b a "rev us" n g] assms butlast_rev [of "us @ a # b # vs"] unfolding prev_rev by simp

lemma prev_unlink:
  assumes "successively (\<lambda>x y. f y = x) (us @ a # n # b # vs)" "distinct (tl (us @ a # n # b # vs))"
    and "g b = a" "\<And>x. x \<noteq> b \<Longrightarrow> g x = f x"
  shows "successively (\<lambda>x y. g y = x) (us @ a # b # vs)"
  using next_unlink [of f "rev vs" b n a "rev us" g] assms butlast_rev [of "us @ a # n # b # vs"] unfolding prev_rev by simp

lemma ring_neighbours: "ring m (us @ a # b # vs) \<Longrightarrow> pxNext (item_at m a) = b \<and> pxPrevious (item_at m b) = a"
  by (auto simp: ring_def successively_append_iff)

text \<open>The item before and the item after a position of the list.\<close>

lemma cons_snoc: "e # ys @ zs = butlast (e # ys) @ last (e # ys) # zs"
proof -
  have "(e # ys) @ zs = (butlast (e # ys) @ [last (e # ys)]) @ zs" by (subst append_butlast_last_id) simp_all
  then show ?thesis by (simp del: butlast.simps last.simps)
qed

lemma ring_split: "e # (ys @ zs) @ [e] = butlast (e # ys) @ last (e # ys) # hd (zs @ [e]) # tl (zs @ [e])"
  using cons_snoc [of e ys "zs @ [e]"] by (cases zs) (simp_all del: butlast.simps last.simps)

lemma ring_insert: "e # (ys @ n # zs) @ [e] = butlast (e # ys) @ last (e # ys) # n # hd (zs @ [e]) # tl (zs @ [e])"
  using cons_snoc [of e ys "n # zs @ [e]"] by (cases zs) (simp_all del: butlast.simps last.simps)

definition items_ok :: "list_mem \<Rightarrow> u32 \<Rightarrow> u32 list \<Rightarrow> bool" where
  "items_ok m p xs \<longleftrightarrow> distinct (xListEnd p # xs) \<and> ring m (xListEnd p # xs @ [xListEnd p]) \<and>
     xItemValue (item_at m (xListEnd p)) = 0xffffffff \<and> (\<forall>x \<in> set xs. pxContainer (item_at m x) = p)"

lemma link_items:
  assumes ok: "items_ok m p (ys @ zs)" and n: "n \<notin> set (xListEnd p # ys @ zs)"
    and a: "a = last (xListEnd p # ys)" and b: "b = hd (zs @ [xListEnd p])"
    and m': "\<And>x. pxNext (item_at m' x) = (if x = a then n else if x = n then b else pxNext (item_at m x))"
      "\<And>x. pxPrevious (item_at m' x) = (if x = b then n else if x = n then a else pxPrevious (item_at m x))"
      "\<And>x. pxContainer (item_at m' x) = (if x = n then p else pxContainer (item_at m x))"
      "\<And>x. xItemValue (item_at m' x) = xItemValue (item_at m x)"
  shows "items_ok m' p (ys @ n # zs)"
proof -
  define e us vs where "e = xListEnd p" and "us = butlast (e # ys)" and "vs = tl (zs @ [e])"
  have path: "e # (ys @ zs) @ [e] = us @ a # b # vs" "e # (ys @ n # zs) @ [e] = us @ a # n # b # vs"
    unfolding us_def vs_def a b e_def by (rule ring_split, rule ring_insert)
  have d: "distinct (butlast (us @ a # b # vs))" "distinct (tl (us @ a # b # vs))" "n \<notin> set (us @ a # b # vs)"
    unfolding path(1) [symmetric] using ok n by (auto simp: items_ok_def e_def butlast_append)
  have r: "successively (\<lambda>x y. pxNext (item_at m x) = y) (us @ a # b # vs)" "successively (\<lambda>x y. pxPrevious (item_at m y) = x) (us @ a # b # vs)"
    using ok unfolding path(1) [symmetric] by (simp_all add: items_ok_def ring_def e_def)
  have an: "a \<noteq> n" "b \<noteq> n" using d(3) by auto
  have "ring m' (us @ a # n # b # vs)" unfolding ring_def
    by (intro conjI next_link [OF r(1) d(1,3)] prev_link [OF r(2) d(2,3)]) (use an in \<open>simp_all add: m'(1,2)\<close>)
  then have "ring m' (e # (ys @ n # zs) @ [e])" by (simp only: path(2))
  moreover have "distinct (e # ys @ n # zs)" "xItemValue (item_at m' e) = 0xffffffff" using ok n by (auto simp: items_ok_def e_def m'(4))
  moreover have "\<forall>x \<in> set (ys @ n # zs). pxContainer (item_at m' x) = p" using ok by (auto simp: items_ok_def m'(3))
  ultimately show ?thesis by (simp add: items_ok_def e_def)
qed

lemma unlink_items:
  assumes ok: "items_ok m p (ys @ n # zs)" and a: "a = last (xListEnd p # ys)" and b: "b = hd (zs @ [xListEnd p])"
    and m': "\<And>x. pxNext (item_at m' x) = (if x = a then b else pxNext (item_at m x))"
      "\<And>x. pxPrevious (item_at m' x) = (if x = b then a else pxPrevious (item_at m x))"
      "\<And>x. x \<noteq> n \<Longrightarrow> pxContainer (item_at m' x) = pxContainer (item_at m x)"
      "\<And>x. xItemValue (item_at m' x) = xItemValue (item_at m x)"
  shows "items_ok m' p (ys @ zs)"
proof -
  define e us vs where "e = xListEnd p" and "us = butlast (e # ys)" and "vs = tl (zs @ [e])"
  have path: "e # (ys @ zs) @ [e] = us @ a # b # vs" "e # (ys @ n # zs) @ [e] = us @ a # n # b # vs"
    unfolding us_def vs_def a b e_def by (rule ring_split, rule ring_insert)
  have dist: "distinct (e # ys @ n # zs)" using ok by (simp add: items_ok_def e_def)
  then have d: "distinct (butlast (us @ a # n # b # vs))" "distinct (tl (us @ a # n # b # vs))"
    unfolding path(2) [symmetric] using dist by (auto simp: butlast_append)
  have r: "successively (\<lambda>x y. pxNext (item_at m x) = y) (us @ a # n # b # vs)" "successively (\<lambda>x y. pxPrevious (item_at m y) = x) (us @ a # n # b # vs)"
    using ok unfolding path(2) [symmetric] by (simp_all add: items_ok_def ring_def e_def)
  have "ring m' (us @ a # b # vs)" unfolding ring_def
    by (intro conjI next_unlink [OF r(1) d(1)] prev_unlink [OF r(2) d(2)]) (simp_all add: m'(1,2))
  then have "ring m' (e # (ys @ zs) @ [e])" by (simp only: path(1))
  moreover have "distinct (e # ys @ zs)" "n \<notin> set (ys @ zs)" using dist by auto
  moreover have "xItemValue (item_at m' e) = 0xffffffff" using ok by (simp add: items_ok_def e_def m'(4))
  moreover have "\<forall>x \<in> set (ys @ zs). pxContainer (item_at m x) = p" using ok by (simp add: items_ok_def)
  then have "\<forall>x \<in> set (ys @ zs). pxContainer (item_at m' x) = p" using \<open>n \<notin> set (ys @ zs)\<close> m'(3) by metis
  ultimately show ?thesis by (simp add: items_ok_def e_def)
qed


text \<open>The sorted insertion stops behind the last item that is not greater, at the marker at the latest.\<close>

lemma items_next: "items_ok m p (ys @ zs) \<Longrightarrow> pxNext (item_at m (last (xListEnd p # ys))) = hd (zs @ [xListEnd p])"
  "items_ok m p (ys @ zs) \<Longrightarrow> pxPrevious (item_at m (hd (zs @ [xListEnd p]))) = last (xListEnd p # ys)"
proof -
  assume "items_ok m p (ys @ zs)"
  then have "ring m (xListEnd p # (ys @ zs) @ [xListEnd p])" by (simp add: items_ok_def)
  then show "pxNext (item_at m (last (xListEnd p # ys))) = hd (zs @ [xListEnd p])"
    "pxPrevious (item_at m (hd (zs @ [xListEnd p]))) = last (xListEnd p # ys)"
    using ring_neighbours unfolding ring_split by blast+
qed

lemma max_u32: "(- 1 :: u32) = 0xffffffff"
  by simp

lemma u32_le_max: "(v :: u32) \<le> 0xffffffff"
  using word_order.extremum [of v] by (simp add: max_u32)

lemma insert_walk_ends:
  "items_ok m p (ys @ zs) \<Longrightarrow> v \<noteq> 0xffffffff \<Longrightarrow>
   insert_walk m v (last (xListEnd p # ys)) = Some (last (xListEnd p # ys @ takeWhile (\<lambda>x. xItemValue (item_at m x) \<le> v) zs))"
proof (induction zs arbitrary: ys)
  case Nil
  have "\<not> 0xffffffff \<le> v" using Nil.prems(2) word_order.extremum_unique [of v] by (simp add: max_u32)
  moreover have "xItemValue (item_at m (xListEnd p)) = 0xffffffff" using Nil.prems by (simp add: items_ok_def)
  ultimately show ?case using items_next(1) [OF Nil.prems(1)] by (subst insert_walk.simps) simp
next
  case (Cons z zs)
  have "insert_walk m v z = Some (last (xListEnd p # (ys @ [z]) @ takeWhile (\<lambda>x. xItemValue (item_at m x) \<le> v) zs))"
    using Cons.IH [of "ys @ [z]"] Cons.prems by simp
  then show ?case using items_next(1) [OF Cons.prems(1)] by (subst insert_walk.simps) simp
qed

lemma list_rep_items:
  "list_rep m p l \<longleftrightarrow> items_ok m p (kl_items l) \<and> uxNumberOfItems (list_at m p) = of_nat (length (kl_items l)) \<and>
     pxIndex (list_at m p) = (case kl_index l of None \<Rightarrow> xListEnd p | Some i \<Rightarrow> i) \<and>
     (case kl_index l of None \<Rightarrow> True | Some i \<Rightarrow> i \<in> set (kl_items l))"
  by (auto simp: list_rep_def items_ok_def split: option.splits)

lemmas list_ops = set_item_def set_list_def Let_def

lemma item_at_set [simp]:
  "item_at (set_item x f m) = (item_at m)(x := f (item_at m x))" "list_at (set_item x f m) = list_at m"
  "item_at (set_list p g m) = item_at m" "list_at (set_list p g m) = (list_at m)(p := g (list_at m p))"
  by (simp_all add: set_item_def set_list_def)

subsection \<open>One list\<close>

lemma split_at_item: "x \<in> set xs \<Longrightarrow> xs = takeWhile (\<lambda>y. y \<noteq> x) xs @ x # tl (dropWhile (\<lambda>y. y \<noteq> x) xs)"
  by (induction xs) auto

lemma dropWhile_item: "x \<in> set xs \<Longrightarrow> dropWhile (\<lambda>y. y \<noteq> x) xs = x # tl (dropWhile (\<lambda>y. y \<noteq> x) xs)"
  by (induction xs) auto

text \<open>Where \<open>vListInsertEnd\<close> links: before the index.\<close>

lemma insert_end_items:
  assumes ok: "items_ok m p (ys @ zs)" and n: "n \<notin> set (xListEnd p # ys @ zs)" and idx: "pxIndex (list_at m p) = hd (zs @ [xListEnd p])"
  shows "items_ok (vListInsertEnd p n m) p (ys @ n # zs)"
proof -
  define a b where "a = last (xListEnd p # ys)" and "b = hd (zs @ [xListEnd p])"
  have an: "a \<noteq> n" "b \<noteq> n" using n by (auto simp: a_def b_def hd_append split: if_splits)
  have prev: "pxPrevious (item_at m b) = a" unfolding a_def b_def by (rule items_next(2) [OF ok])
  show ?thesis by (rule link_items [OF ok n a_def b_def]) (use an prev idx in \<open>auto simp: vListInsertEnd_def Let_def b_def [symmetric]\<close>)
qed

lemma link_after_items:
  assumes ok: "items_ok m p (ys @ zs)" and n: "n \<notin> set (xListEnd p # ys @ zs)" and a: "a = last (xListEnd p # ys)"
  shows "items_ok (link_after p n a m) p (ys @ n # zs)"
proof -
  define b where "b = hd (zs @ [xListEnd p])"
  have an: "a \<noteq> n" "b \<noteq> n" using n by (auto simp: a b_def hd_append split: if_splits)
  have nxt: "pxNext (item_at m a) = b" unfolding a b_def by (rule items_next(1) [OF ok])
  show ?thesis by (rule link_items [OF ok n a b_def]) (use an nxt in \<open>auto simp: link_after_def Let_def\<close>)
qed

lemma remove_items:
  assumes ok: "items_ok m p (ys @ x # zs)"
  shows "items_ok (snd (uxListRemove x m)) p (ys @ zs)"
proof -
  define a b where "a = last (xListEnd p # ys)" and "b = hd (zs @ [xListEnd p])"
  have d: "distinct (xListEnd p # ys @ x # zs)" using ok by (simp add: items_ok_def)
  then have an: "a \<noteq> x" "b \<noteq> x" by (auto simp: a_def b_def hd_append split: if_splits)
  have prev: "pxPrevious (item_at m x) = a" using items_next(2) [OF ok] by (simp add: a_def)
  have nxt: "pxNext (item_at m x) = b" using items_next(1) [of m p "ys @ [x]" zs] ok by (simp add: b_def)
  show ?thesis by (rule unlink_items [OF ok a_def b_def]) (use an prev nxt in \<open>auto simp: uxListRemove_def Let_def\<close>)
qed


lemma item_count: assumes "distinct ((e :: u32) # xs)" shows "length xs < 2 ^ 32"
proof -
  have "length (e # xs) = card (set (e # xs))" using assms by (simp only: distinct_card)
  also have "\<dots> \<le> card (UNIV :: u32 set)" by (rule card_mono) simp_all
  finally show ?thesis by (simp add: card_word)
qed

lemma list_rep_length: "list_rep m p l \<Longrightarrow> length (kl_items l) < 2 ^ 32"
  unfolding list_rep_def using item_count by blast

lemma list_rep_empty: "list_rep m p l \<Longrightarrow> listLIST_IS_EMPTY p m \<longleftrightarrow> kl_items l = []"
  using list_rep_length [of m p l] by (auto simp: list_rep_items listLIST_IS_EMPTY_def word_of_nat_eq_0_iff dvd_def)


text \<open>What the operations do to the list's record, and that they keep values and owners.\<close>

lemma list_at_ops [simp]:
  "list_at (vListInsertEnd p n m) = (list_at m)(p := (list_at m p)\<lparr>uxNumberOfItems := uxNumberOfItems (list_at m p) + 1\<rparr>)"
  "list_at (link_after p n a m) = (list_at m)(p := (list_at m p)\<lparr>uxNumberOfItems := uxNumberOfItems (list_at m p) + 1\<rparr>)"
  by (simp_all add: vListInsertEnd_def link_after_def Let_def fun_eq_iff)

lemma value_ops [simp]:
  "xItemValue (item_at (vListInsertEnd p n m) y) = xItemValue (item_at m y)"
  "pvOwner (item_at (vListInsertEnd p n m) y) = pvOwner (item_at m y)"
  "xItemValue (item_at (link_after p n a m) y) = xItemValue (item_at m y)"
  "pvOwner (item_at (link_after p n a m) y) = pvOwner (item_at m y)"
  "xItemValue (item_at (snd (uxListRemove x m)) y) = xItemValue (item_at m y)"
  "pvOwner (item_at (snd (uxListRemove x m)) y) = pvOwner (item_at m y)"
  by (simp_all add: vListInsertEnd_def link_after_def uxListRemove_def Let_def)

lemma list_rep_insert_end:
  assumes r: "list_rep m p l" and n: "n \<notin> set (xListEnd p # kl_items l)"
  shows "list_rep (vListInsertEnd p n m) p (kl_insert_end n l)"
proof (cases "kl_index l")
  case None
  have "items_ok (vListInsertEnd p n m) p (kl_items l @ n # [])"
    using r n None by (intro insert_end_items) (simp_all add: list_rep_items)
  then show ?thesis using r None by (simp add: list_rep_items kl_insert_end_def)
next
  case (Some i)
  define ys zs where "ys = takeWhile (\<lambda>y. y \<noteq> i) (kl_items l)" and "zs = dropWhile (\<lambda>y. y \<noteq> i) (kl_items l)"
  have i: "i \<in> set (kl_items l)" using r Some by (simp add: list_rep_items)
  have xs: "kl_items l = ys @ zs" "zs = i # tl zs" using dropWhile_item [OF i] by (simp_all add: ys_def zs_def)
  have idx: "pxIndex (list_at m p) = hd (zs @ [xListEnd p])" using r Some by (subst xs(2)) (simp add: list_rep_items)
  have "items_ok (vListInsertEnd p n m) p (ys @ n # zs)"
    by (rule insert_end_items [OF _ _ idx]) (use r n in \<open>simp_all add: list_rep_items xs(1)\<close>)
  moreover have "kl_insert_end n l = l\<lparr>kl_items := ys @ n # zs\<rparr>" by (simp add: kl_insert_end_def Some ys_def zs_def)
  ultimately show ?thesis using r Some xs(1) by (auto simp: list_rep_items)
qed

lemma last_takeWhile_all: "(\<And>x. x \<in> set xs \<Longrightarrow> P x) \<Longrightarrow> takeWhile P xs = xs \<and> dropWhile P xs = []"
  by (simp add: takeWhile_eq_all_conv dropWhile_eq_Nil_conv)

lemma list_rep_insert:
  assumes r: "list_rep m p l" and n: "n \<notin> set (xListEnd p # kl_items l)"
  shows "\<exists>m'. vListInsert p n m = Some m' \<and> list_rep m' p (kl_insert (\<lambda>x. xItemValue (item_at m x)) n l)"
proof -
  let ?v = "xItemValue (item_at m n)"
  define ys zs where "ys = takeWhile (\<lambda>x. xItemValue (item_at m x) \<le> ?v) (kl_items l)"
    and "zs = dropWhile (\<lambda>x. xItemValue (item_at m x) \<le> ?v) (kl_items l)"
  have xs: "kl_items l = ys @ zs" by (simp add: ys_def zs_def)
  have ok: "items_ok m p (ys @ zs)" using r by (simp add: list_rep_items xs)
  have "vListInsert p n m = Some (link_after p n (last (xListEnd p # ys)) m)"
  proof (cases "?v = 0xffffffff")
    case True
    then have "ys = kl_items l" "zs = []" using last_takeWhile_all [of "kl_items l" "\<lambda>x. xItemValue (item_at m x) \<le> ?v"]
      by (simp_all add: ys_def zs_def u32_le_max)
    then show ?thesis using True items_next(2) [OF ok] by (simp add: vListInsert_def)
  next
    case False
    have "insert_walk m ?v (xListEnd p) = Some (last (xListEnd p # ys))"
      using insert_walk_ends [of m p "[]" "kl_items l" ?v] ok False by (simp add: xs [symmetric]) (simp add: ys_def)
    then show ?thesis using False by (simp add: vListInsert_def)
  qed
  moreover have "items_ok (link_after p n (last (xListEnd p # ys)) m) p (ys @ n # zs)"
    by (rule link_after_items [OF ok _ refl]) (use n in \<open>simp add: xs\<close>)
  moreover have "kl_insert (\<lambda>x. xItemValue (item_at m x)) n l = l\<lparr>kl_items := ys @ n # zs\<rparr>"
    by (simp add: kl_insert_def ys_def zs_def)
  ultimately show ?thesis using r xs by (auto simp: list_rep_items split: option.splits)
qed


text \<open>Removal: the index steps back when it was at the removed item, and the new count is the result.\<close>

lemma remove_list_at:
  assumes "pxContainer (item_at m x) = p" "x \<noteq> pxPrevious (item_at m x)" "x \<noteq> pxNext (item_at m x)"
  shows "fst (uxListRemove x m) = uxNumberOfItems (list_at m p) - 1"
    "list_at (snd (uxListRemove x m)) = (list_at m)(p := \<lparr>uxNumberOfItems = uxNumberOfItems (list_at m p) - 1,
       pxIndex = (if pxIndex (list_at m p) = x then pxPrevious (item_at m x) else pxIndex (list_at m p))\<rparr>)"
  using assms by (simp_all add: uxListRemove_def Let_def fun_eq_iff)

lemma filter_item: "distinct (ys @ x # zs) \<Longrightarrow> filter (\<lambda>y. y \<noteq> x) (ys @ x # zs) = ys @ zs"
  by (auto simp: filter_id_conv intro!: arg_cong2 [where f = append])

lemma takeWhile_item: "x \<notin> set ys \<Longrightarrow> takeWhile (\<lambda>y. y \<noteq> x) (ys @ x # zs) = ys"
  by (induction ys) auto

lemma dropWhile_item_eq: "x \<notin> set ys \<Longrightarrow> dropWhile (\<lambda>y. y \<noteq> x) (ys @ x # zs) = x # zs"
  by (induction ys) auto

lemma before_in_eq: "x \<notin> set ys \<Longrightarrow> before_in x (ys @ x # zs) = (if ys = [] then None else Some (last ys))"
  by (cases ys) (auto simp: before_in_def takeWhile_item split: list.splits)

lemma list_rep_remove:
  assumes r: "list_rep m p l" and x: "x \<in> set (kl_items l)"
  shows "fst (uxListRemove x m) = of_nat (length (kl_items l) - 1) \<and> list_rep (snd (uxListRemove x m)) p (kl_remove x l)"
proof -
  obtain ys zs where xs: "kl_items l = ys @ x # zs" using split_list [OF x] by blast
  have ok: "items_ok m p (ys @ x # zs)" using r by (simp add: list_rep_items xs)
  have d: "distinct (xListEnd p # ys @ x # zs)" and c: "pxContainer (item_at m x) = p" using ok by (auto simp: items_ok_def)
  have dx: "x \<notin> set ys" "x \<notin> set zs" "x \<noteq> xListEnd p" using d by auto
  have prev: "pxPrevious (item_at m x) = last (xListEnd p # ys)" using items_next(2) [OF ok] by simp
  have nxt: "pxNext (item_at m x) = hd (zs @ [xListEnd p])" using items_next(1) [of m p "ys @ [x]" zs] ok by simp
  have ne: "x \<noteq> pxPrevious (item_at m x)" "x \<noteq> pxNext (item_at m x)" using dx by (auto simp: prev nxt hd_append)
  have l: "kl_remove x l = \<lparr>kl_items = ys @ zs, kl_index = if kl_index l = Some x then (if ys = [] then None else Some (last ys)) else kl_index l\<rparr>"
    using filter_item [of ys x zs] before_in_eq [of x ys zs] d by (auto simp: kl_remove_def xs)
  have "list_rep (snd (uxListRemove x m)) p (kl_remove x l)"
    unfolding list_rep_items l remove_list_at(2) [OF c ne]
    using remove_items [OF ok] r dx prev by (auto simp: list_rep_items xs split: option.splits)
  moreover have "fst (uxListRemove x m) = of_nat (length (kl_items l) - 1)"
    using r by (simp add: remove_list_at(1) [OF c ne] list_rep_items xs)
  ultimately show ?thesis by simp
qed

text \<open>The next entry, from any position of the index.\<close>

lemma kl_next_eq: "i \<notin> set ys \<Longrightarrow> kl_items l = ys @ i # zs \<Longrightarrow> kl_index l = Some i \<Longrightarrow> kl_next l = (case zs of [] \<Rightarrow> hd (kl_items l) | z # _ \<Rightarrow> z)"
  by (simp add: kl_next_def dropWhile_item_eq)

lemma kl_next_in: "kl_ok l \<Longrightarrow> kl_items l \<noteq> [] \<Longrightarrow> kl_next l \<in> set (kl_items l)"
proof (cases "kl_index l")
  case None
  assume "kl_items l \<noteq> []"
  then show ?thesis using None by (simp add: kl_next_def)
next
  case (Some i)
  assume l: "kl_ok l" "kl_items l \<noteq> []"
  then obtain ys zs where "kl_items l = ys @ i # zs" using split_list [of i "kl_items l"] Some by (auto simp: kl_ok_def)
  moreover from this have "kl_next l = (case zs of [] \<Rightarrow> hd (kl_items l) | z # _ \<Rightarrow> z)"
    using l by (intro kl_next_eq [OF _ _ Some]) (auto simp: kl_ok_def)
  ultimately show ?thesis using hd_in_set [OF l(2)] by (cases zs) auto
qed

lemma index_next:
  assumes r: "list_rep m p l" and ne: "kl_items l \<noteq> []"
  shows "(let n = pxNext (item_at m (pxIndex (list_at m p))) in if n = xListEnd p then pxNext (item_at m n) else n) = kl_next l"
proof -
  have ok: "items_ok m p (kl_items l)" and d: "distinct (xListEnd p # kl_items l)" using r by (simp_all add: list_rep_items items_ok_def)
  have first: "pxNext (item_at m (xListEnd p)) = hd (kl_items l)" "hd (kl_items l) \<noteq> xListEnd p"
    using items_next(1) [of m p "[]" "kl_items l"] ok ne d by (auto dest: hd_in_set)
  show ?thesis
  proof (cases "kl_index l")
    case None
    then show ?thesis using r first by (simp add: list_rep_items kl_next_def)
  next
    case (Some i)
    then have i: "i \<in> set (kl_items l)" "pxIndex (list_at m p) = i" using r by (auto simp: list_rep_items)
    obtain ys zs where xs: "kl_items l = ys @ i # zs" using split_list [OF i(1)] by blast
    have "pxNext (item_at m i) = hd (zs @ [xListEnd p])" using items_next(1) [of m p "ys @ [i]" zs] ok by (simp add: xs)
    moreover have "kl_next l = (case zs of [] \<Rightarrow> hd (kl_items l) | z # _ \<Rightarrow> z)" using d xs by (intro kl_next_eq [OF _ xs Some]) simp
    moreover have "z \<noteq> xListEnd p" if "zs = z # zs'" for z zs' using d xs that by auto
    ultimately show ?thesis using first(1) by (cases zs) (simp_all add: i(2))
  qed
qed

lemma list_rep_next:
  assumes r: "list_rep m p l" and ne: "kl_items l \<noteq> []"
  shows "fst (listGET_OWNER_OF_NEXT_ENTRY p m) = pvOwner (item_at m (kl_next l)) \<and>
    list_rep (snd (listGET_OWNER_OF_NEXT_ENTRY p m)) p (kl_advance l)"
proof -
  have idx: "pxIndex (list_at (snd (listGET_OWNER_OF_NEXT_ENTRY p m)) p) = kl_next l"
    using index_next [OF r ne] by (auto simp: listGET_OWNER_OF_NEXT_ENTRY_def Let_def)
  have "kl_ok l" using r by (auto simp: list_rep_items kl_ok_def items_ok_def split: option.splits)
  then have "kl_next l \<in> set (kl_items l)" by (rule kl_next_in [OF _ ne])
  moreover have "item_at (snd (listGET_OWNER_OF_NEXT_ENTRY p m)) = item_at m"
    "uxNumberOfItems (list_at (snd (listGET_OWNER_OF_NEXT_ENTRY p m)) p) = uxNumberOfItems (list_at m p)"
    "fst (listGET_OWNER_OF_NEXT_ENTRY p m) = pvOwner (item_at m (pxIndex (list_at (snd (listGET_OWNER_OF_NEXT_ENTRY p m)) p)))"
    by (auto simp: listGET_OWNER_OF_NEXT_ENTRY_def Let_def)
  ultimately show ?thesis using r idx by (simp add: list_rep_items items_ok_def ring_def kl_advance_def)
qed

lemma list_rep_head: "list_rep m p l \<Longrightarrow> kl_items l \<noteq> [] \<Longrightarrow> listGET_OWNER_OF_HEAD_ENTRY p m = pvOwner (item_at m (hd (kl_items l)))"
  using items_next(1) [of m p "[]" "kl_items l"] by (simp add: listGET_OWNER_OF_HEAD_ENTRY_def list_rep_items)

lemma list_rep_initialise: "list_rep (vListInitialise p m) p kl_empty"
  by (simp add: list_rep_def kl_empty_def ring_def vListInitialise_def Let_def)


subsection \<open>Several lists\<close>

definition ring_items :: "u32 \<Rightarrow> u32 klist \<Rightarrow> u32 set" where
  "ring_items p l = insert (xListEnd p) (set (kl_items l))"

definition lists_rep :: "list_mem \<Rightarrow> u32 set \<Rightarrow> (u32 \<Rightarrow> u32 klist) \<Rightarrow> bool" where
  "lists_rep m D A \<longleftrightarrow> (\<forall>p \<in> D. list_rep m p (A p)) \<and> (\<forall>p \<in> D. \<forall>q \<in> D. p \<noteq> q \<longrightarrow> ring_items p (A p) \<inter> ring_items q (A q) = {})"

lemma ring_cong:
  assumes "\<And>x. x \<in> set (e # xs) \<Longrightarrow> item_at m' x = item_at m x"
  shows "ring m' (e # xs @ [e]) = ring m (e # xs @ [e])"
proof -
  have "successively (\<lambda>x y. pxNext (item_at m' x) = y) (e # xs @ [e]) = successively (\<lambda>x y. pxNext (item_at m x) = y) (e # xs @ [e])"
    by (rule next_cong) (use assms in \<open>auto simp: butlast_append\<close>)
  moreover have "successively (\<lambda>x y. pxPrevious (item_at m' x) = y) (rev (e # xs @ [e])) = successively (\<lambda>x y. pxPrevious (item_at m x) = y) (rev (e # xs @ [e]))"
    by (rule next_cong) (use assms in \<open>auto simp: butlast_append\<close>)
  ultimately show ?thesis unfolding ring_def prev_rev by blast
qed

lemma list_rep_cong:
  assumes "list_rep m q l" "\<And>x. x \<in> ring_items q l \<Longrightarrow> item_at m' x = item_at m x" "list_at m' q = list_at m q"
  shows "list_rep m' q l"
proof -
  have "ring m' (xListEnd q # kl_items l @ [xListEnd q])"
    using assms(1,2) by (subst ring_cong) (auto simp: list_rep_def ring_items_def)
  then show ?thesis using assms by (auto simp: list_rep_def ring_items_def split: option.splits)
qed

text \<open>The operations write only to the ring of their list and to the item.\<close>

lemma ring_ends: "items_ok m p (ys @ zs) \<Longrightarrow> last (xListEnd p # ys) \<in> insert (xListEnd p) (set (ys @ zs))"
  "items_ok m p (ys @ zs) \<Longrightarrow> hd (zs @ [xListEnd p]) \<in> insert (xListEnd p) (set (ys @ zs))"
  by (auto simp: hd_append)

lemma list_rep_neighbours:
  assumes r: "list_rep m p l" and x: "x \<in> ring_items p l"
  shows "pxNext (item_at m x) \<in> ring_items p l \<and> pxPrevious (item_at m x) \<in> ring_items p l"
proof (cases "x = xListEnd p")
  case True
  have ok: "items_ok m p (kl_items l)" using r by (simp add: list_rep_items)
  then have "pxNext (item_at m x) = hd (kl_items l @ [xListEnd p])" "pxPrevious (item_at m x) = last (xListEnd p # kl_items l)"
    using items_next(1) [of m p "[]" "kl_items l"] items_next(2) [of m p "kl_items l" "[]"] True by simp_all
  then show ?thesis by (auto simp: ring_items_def hd_append)
next
  case False
  then have "x \<in> set (kl_items l)" using x by (simp add: ring_items_def)
  then obtain ys zs where xs: "kl_items l = ys @ x # zs" by (blast dest: split_list)
  have ok: "items_ok m p (ys @ x # zs)" using r by (simp add: list_rep_items xs)
  then have "pxNext (item_at m x) = hd (zs @ [xListEnd p])" "pxPrevious (item_at m x) = last (xListEnd p # ys)"
    using items_next(1) [of m p "ys @ [x]" zs] items_next(2) [of m p ys "x # zs"] by simp_all
  then show ?thesis by (auto simp: ring_items_def xs hd_append)
qed

lemma list_rep_index: "list_rep m p l \<Longrightarrow> pxIndex (list_at m p) \<in> ring_items p l"
  by (auto simp: list_rep_items ring_items_def split: option.splits)

lemma insert_end_local: "list_rep m p l \<Longrightarrow> y \<notin> insert n (ring_items p l) \<Longrightarrow> item_at (vListInsertEnd p n m) y = item_at m y"
  using list_rep_index [of m p l] list_rep_neighbours [of m p l "pxIndex (list_at m p)"]
  by (auto simp: vListInsertEnd_def Let_def)

lemma link_after_local:
  "list_rep m p l \<Longrightarrow> a \<in> ring_items p l \<Longrightarrow> y \<notin> insert n (ring_items p l) \<Longrightarrow> item_at (link_after p n a m) y = item_at m y"
  using list_rep_neighbours [of m p l a] by (auto simp: link_after_def Let_def)

lemma remove_local:
  "list_rep m p l \<Longrightarrow> x \<in> set (kl_items l) \<Longrightarrow> y \<notin> ring_items p l \<Longrightarrow> item_at (snd (uxListRemove x m)) y = item_at m y"
  using list_rep_neighbours [of m p l x] by (auto simp: uxListRemove_def Let_def ring_items_def)

text \<open>An operation on one list leaves the others as they were.\<close>

lemma lists_rep_step:
  assumes r: "lists_rep m D A" "p \<in> D" and l: "list_rep m' p l'"
    and sub: "ring_items p l' \<subseteq> insert n (ring_items p (A p))" "\<forall>q \<in> D. q \<noteq> p \<longrightarrow> n \<notin> ring_items q (A q)"
    and eq: "\<And>y. y \<notin> insert n (ring_items p (A p)) \<Longrightarrow> item_at m' y = item_at m y"
      "\<And>q. q \<noteq> p \<Longrightarrow> list_at m' q = list_at m q"
  shows "lists_rep m' D (A(p := l'))"
proof -
  have dis: "ring_items p (A p) \<inter> ring_items q (A q) = {}" if "q \<in> D" "q \<noteq> p" for q
    using r that unfolding lists_rep_def by blast
  have dis': "ring_items p l' \<inter> ring_items q (A q) = {}" if "q \<in> D" "q \<noteq> p" for q
    using dis [OF that] sub that by blast
  have "list_rep m' q (A q)" if q: "q \<in> D" "q \<noteq> p" for q
  proof (rule list_rep_cong)
    show "list_rep m q (A q)" using r q unfolding lists_rep_def by blast
    show "item_at m' x = item_at m x" if "x \<in> ring_items q (A q)" for x
      by (rule eq(1)) (use that dis [OF q] sub(2) q in blast)
    show "list_at m' q = list_at m q" by (rule eq(2) [OF q(2)])
  qed
  then show ?thesis using r l dis' unfolding lists_rep_def by auto
qed


lemma klist_sub:
  "ring_items p (kl_insert_end n l) = insert n (ring_items p l)" "ring_items p (kl_insert f n l) = insert n (ring_items p l)"
  "ring_items p (kl_remove x l) \<subseteq> ring_items p l" "ring_items p (kl_advance l) = ring_items p l"
  by (auto simp: ring_items_def kl_insert_end_def kl_insert_def kl_remove_def kl_advance_def split: option.splits
      dest: set_takeWhileD set_dropWhileD)
    (metis Un_iff set_append takeWhile_dropWhile_id)+

lemma link_after_insert: "vListInsert p n m = Some m' \<Longrightarrow> list_rep m p l \<Longrightarrow> \<exists>a. m' = link_after p n a m \<and> a \<in> ring_items p l"
proof -
  assume v: "vListInsert p n m = Some m'" and r: "list_rep m p l"
  then have ok: "items_ok m p (kl_items l @ [])" by (simp add: list_rep_items)
  show ?thesis
  proof (cases "xItemValue (item_at m n) = 0xffffffff")
    case True
    then show ?thesis using v items_next(2) [OF ok] ring_ends(1) [OF ok] by (auto simp: vListInsert_def ring_items_def)
  next
    case False
    let ?ys = "takeWhile (\<lambda>x. xItemValue (item_at m x) \<le> xItemValue (item_at m n)) (kl_items l)"
    have "last (xListEnd p # ?ys) \<in> ring_items p l"
      using last_in_set [of "xListEnd p # ?ys"] by (auto simp: ring_items_def dest: set_takeWhileD simp del: last.simps)
    then show ?thesis using v insert_walk_ends [of m p "[]" "kl_items l", OF _ False] ok False by (auto simp: vListInsert_def)
  qed
qed


text \<open>What the scheduler relies on: every operation on one of several lists is the abstract operation, and keeps the others.\<close>

lemma lists_insert_end:
  assumes r: "lists_rep m D A" and p: "p \<in> D" and n: "\<forall>q \<in> D. n \<notin> ring_items q (A q)"
  shows "lists_rep (vListInsertEnd p n m) D (A(p := kl_insert_end n (A p)))"
proof -
  have l: "list_rep m p (A p)" using r p by (simp add: lists_rep_def)
  have "n \<notin> set (xListEnd p # kl_items (A p))" using n p by (auto simp: ring_items_def)
  note ins = list_rep_insert_end [OF l this]
  show ?thesis by (rule lists_rep_step [OF r p ins, where n = n])
      (use n in \<open>auto simp: klist_sub insert_end_local [OF l]\<close>)
qed

lemma lists_insert:
  assumes r: "lists_rep m D A" and p: "p \<in> D" and n: "\<forall>q \<in> D. n \<notin> ring_items q (A q)"
  shows "\<exists>m'. vListInsert p n m = Some m' \<and> (\<forall>x. xItemValue (item_at m' x) = xItemValue (item_at m x)) \<and>
    lists_rep m' D (A(p := kl_insert (\<lambda>x. xItemValue (item_at m x)) n (A p)))"
proof -
  have l: "list_rep m p (A p)" using r p by (simp add: lists_rep_def)
  have "n \<notin> set (xListEnd p # kl_items (A p))" using n p by (auto simp: ring_items_def)
  then obtain m' where m': "vListInsert p n m = Some m'" "list_rep m' p (kl_insert (\<lambda>x. xItemValue (item_at m x)) n (A p))"
    using list_rep_insert [OF l] by blast
  obtain a where a: "m' = link_after p n a m" "a \<in> ring_items p (A p)" using link_after_insert [OF m'(1) l] by blast
  have "lists_rep m' D (A(p := kl_insert (\<lambda>x. xItemValue (item_at m x)) n (A p)))"
    by (rule lists_rep_step [OF r p m'(2), where n = n])
      (use n in \<open>auto simp: klist_sub link_after_local [OF l a(2)] a(1) [symmetric], auto simp: a(1) link_after_local [OF l a(2)]\<close>)
  then show ?thesis using m'(1) by (simp add: a(1))
qed

lemma lists_remove:
  assumes r: "lists_rep m D A" and p: "p \<in> D" and x: "x \<in> set (kl_items (A p))"
  shows "fst (uxListRemove x m) = of_nat (length (kl_items (A p)) - 1) \<and> lists_rep (snd (uxListRemove x m)) D (A(p := kl_remove x (A p)))"
proof -
  have l: "list_rep m p (A p)" using r p by (simp add: lists_rep_def)
  note rem = list_rep_remove [OF l x]
  have c: "pxContainer (item_at m x) = p" using l x by (simp add: list_rep_def)
  have xin: "x \<in> ring_items p (A p)" using x by (simp add: ring_items_def)
  have "lists_rep (snd (uxListRemove x m)) D (A(p := kl_remove x (A p)))"
  proof (rule lists_rep_step [OF r p _, where n = x])
    show "list_rep (snd (uxListRemove x m)) p (kl_remove x (A p))" using rem by blast
    show "ring_items p (kl_remove x (A p)) \<subseteq> insert x (ring_items p (A p))" using klist_sub(3) by blast
    show "\<forall>q \<in> D. q \<noteq> p \<longrightarrow> x \<notin> ring_items q (A q)" using r p xin unfolding lists_rep_def by blast
    show "item_at (snd (uxListRemove x m)) y = item_at m y" if "y \<notin> insert x (ring_items p (A p))" for y
      using remove_local [OF l x] that by blast
    show "list_at (snd (uxListRemove x m)) q = list_at m q" if "q \<noteq> p" for q
      using that c by (simp add: uxListRemove_def Let_def)
  qed
  then show ?thesis using rem by blast
qed

lemma lists_next:
  assumes r: "lists_rep m D A" and p: "p \<in> D" and ne: "kl_items (A p) \<noteq> []"
  shows "fst (listGET_OWNER_OF_NEXT_ENTRY p m) = pvOwner (item_at m (kl_next (A p))) \<and>
    lists_rep (snd (listGET_OWNER_OF_NEXT_ENTRY p m)) D (A(p := kl_advance (A p)))"
proof -
  have l: "list_rep m p (A p)" using r p by (simp add: lists_rep_def)
  note nx = list_rep_next [OF l ne]
  have "lists_rep (snd (listGET_OWNER_OF_NEXT_ENTRY p m)) D (A(p := kl_advance (A p)))"
  proof (rule lists_rep_step [OF r p _, where n = "xListEnd p"])
    show "list_rep (snd (listGET_OWNER_OF_NEXT_ENTRY p m)) p (kl_advance (A p))" using nx by blast
    show "\<forall>q \<in> D. q \<noteq> p \<longrightarrow> xListEnd p \<notin> ring_items q (A q)" using r p unfolding lists_rep_def ring_items_def by blast
  qed (auto simp: klist_sub listGET_OWNER_OF_NEXT_ENTRY_def Let_def)
  then show ?thesis using nx by blast
qed

text \<open>C27: the kernel's linked lists implement sequences. On memory holding any number of separate lists, the empty ones
  included, inserting at the end and inserting in value order (whose search always ends) do what the
  specification says to the list they are called on and leave every other list as it was; so do removing any of its items
  and, when it has one, moving to the next entry. The count that a removal returns, the empty test and the
  owners read are those of the specification. Item values never change.\<close>

theorem kernel_lists_refine:
  assumes "lists_rep m D A" "p \<in> D" "\<forall>q \<in> D. n \<notin> ring_items q (A q)"
  shows "lists_rep (vListInsertEnd p n m) D (A(p := kl_insert_end n (A p))) \<and>
    (\<exists>m'. vListInsert p n m = Some m' \<and> (\<forall>y. xItemValue (item_at m' y) = xItemValue (item_at m y)) \<and>
       lists_rep m' D (A(p := kl_insert (\<lambda>y. xItemValue (item_at m y)) n (A p)))) \<and>
    (\<forall>x \<in> set (kl_items (A p)). fst (uxListRemove x m) = of_nat (length (kl_items (A p)) - 1) \<and>
       lists_rep (snd (uxListRemove x m)) D (A(p := kl_remove x (A p)))) \<and>
    (kl_items (A p) \<noteq> [] \<longrightarrow>
       fst (listGET_OWNER_OF_NEXT_ENTRY p m) = pvOwner (item_at m (kl_next (A p))) \<and>
       lists_rep (snd (listGET_OWNER_OF_NEXT_ENTRY p m)) D (A(p := kl_advance (A p))) \<and>
       listGET_OWNER_OF_HEAD_ENTRY p m = pvOwner (item_at m (hd (kl_items (A p))))) \<and>
    (\<forall>q \<in> D. listLIST_IS_EMPTY q m \<longleftrightarrow> kl_items (A q) = []) \<and>
    list_rep (vListInitialise r m) r kl_empty"
proof -
  have l: "list_rep m q (A q)" if "q \<in> D" for q using assms(1) that by (simp add: lists_rep_def)
  have "fst (uxListRemove x m) = of_nat (length (kl_items (A p)) - 1) \<and> lists_rep (snd (uxListRemove x m)) D (A(p := kl_remove x (A p)))"
    if "x \<in> set (kl_items (A p))" for x using lists_remove [OF assms(1,2) that] by blast
  moreover have "fst (listGET_OWNER_OF_NEXT_ENTRY p m) = pvOwner (item_at m (kl_next (A p))) \<and>
      lists_rep (snd (listGET_OWNER_OF_NEXT_ENTRY p m)) D (A(p := kl_advance (A p))) \<and>
      listGET_OWNER_OF_HEAD_ENTRY p m = pvOwner (item_at m (hd (kl_items (A p))))" if "kl_items (A p) \<noteq> []"
    using lists_next [OF assms(1,2) that] list_rep_head [OF l [OF assms(2)] that] by blast
  ultimately show ?thesis
    using lists_insert_end [OF assms] lists_insert [OF assms] list_rep_empty [OF l] list_rep_initialise by blast
qed

text \<open>Two lists, one holding an item.\<close>

definition two_lists :: list_mem where
  "two_lists = vListInsertEnd 0x100 0x200 (vListInitialise 0x150 (vListInitialise 0x100
     \<lparr>item_at = \<lambda>_. \<lparr>xItemValue = 7, pxNext = 0, pxPrevious = 0, pvOwner = 0x1F0, pxContainer = 0\<rparr>,
      list_at = \<lambda>_. \<lparr>uxNumberOfItems = 0, pxIndex = 0\<rparr>\<rparr>))"

lemma two_lists_rep: "lists_rep two_lists {0x100, 0x150} ((\<lambda>_. kl_empty)(0x100 := \<lparr>kl_items = [0x200], kl_index = None\<rparr>))"
  by (simp add: lists_rep_def list_rep_def ring_def ring_items_def kl_empty_def two_lists_def vListInsertEnd_def vListInitialise_def
      Let_def xListEnd_def)

text \<open>Inserting into the list that holds an item and into the empty one.\<close>

theorem kernel_lists_refine_witness:
  "(\<exists>m'. vListInsert 0x100 0x300 two_lists = Some m' \<and> lists_rep m' {0x100, 0x150}
      ((\<lambda>_. kl_empty)(0x100 := \<lparr>kl_items = [0x200, 0x300], kl_index = None\<rparr>))) \<and>
   (\<exists>m'. vListInsert 0x150 0x300 two_lists = Some m' \<and> lists_rep m' {0x100, 0x150}
      ((\<lambda>_. kl_empty)(0x100 := \<lparr>kl_items = [0x200], kl_index = None\<rparr>, 0x150 := \<lparr>kl_items = [0x300], kl_index = None\<rparr>))) \<and>
   fst (listGET_OWNER_OF_NEXT_ENTRY 0x100 two_lists) = 0x1F0"
proof -
  note t = kernel_lists_refine [OF two_lists_rep, of "0x100" "0x300"] and u = kernel_lists_refine [OF two_lists_rep, of "0x150" "0x300"]
  have "xItemValue (item_at two_lists x) = 7" if "x \<in> {0x200, 0x300}" for x
    using that by (auto simp: two_lists_def vListInsertEnd_def vListInitialise_def Let_def xListEnd_def)
  moreover have "pvOwner (item_at two_lists 0x200) = 0x1F0"
    by (simp add: two_lists_def vListInsertEnd_def vListInitialise_def Let_def xListEnd_def)
  moreover have "\<exists>m'. vListInsert 0x150 0x300 two_lists = Some m' \<and> lists_rep m' {0x100, 0x150}
      ((\<lambda>_. kl_empty)(0x100 := \<lparr>kl_items = [0x200], kl_index = None\<rparr>, 0x150 := \<lparr>kl_items = [0x300], kl_index = None\<rparr>))"
    using u by (simp add: ring_items_def kl_empty_def xListEnd_def kl_insert_def) blast
  ultimately show ?thesis using t by (simp add: ring_items_def kl_empty_def xListEnd_def kl_insert_def kl_next_def) blast
qed

end
