(* ===== verification/KernelSched.thy ===== *)
theory KernelSched
  imports KernelList
begin

text \<open>
  The kernel's scheduler (\<^verbatim>\<open>tasks.c\<close>) for this configuration: preemption, time slicing and 56 priorities,
  the generic task selection, 32-bit ticks, no tick hook. A task is named by the address of its TCB. The state lists and the
  event lists are sequences of tasks, which \<^verbatim>\<open>list.c\<close> implements (theory KernelList); the list that
  an item is on is its container. \<open>None\<close> is a failed \<^verbatim>\<open>configASSERT\<close>, which never returns, or
  the removal of an item that is on no list.
\<close>

datatype klist_id = ReadyTasksLists u32 | DelayedTaskList1 | DelayedTaskList2 | PendingReadyList
  | TasksWaitingTermination | SuspendedTaskList | EventList u32

record TCB_t =
  uxPriority :: u32
  state_value :: u32
  state_container :: "klist_id option"
  event_value :: u32
  event_container :: "klist_id option"
  ulNotifiedValue :: u32
  ucNotifyState :: u8

record kernel =
  tcb :: "u32 \<Rightarrow> TCB_t"
  klists :: "klist_id \<Rightarrow> u32 klist"
  pxCurrentTCB :: u32
  pxDelayedTaskList :: klist_id
  pxOverflowDelayedTaskList :: klist_id
  uxCurrentNumberOfTasks :: u32
  xTickCount :: u32
  uxTopReadyPriority :: u32
  xSchedulerRunning :: bool
  xPendedTicks :: u32
  xYieldPending :: bool
  xNumOfOverflows :: u32
  uxTaskNumber :: u32
  xNextTaskUnblockTime :: u32
  uxSchedulerSuspended :: u32
  PENDSVSET :: bool

definition configMAX_PRIORITIES :: u32 where "configMAX_PRIORITIES = 56"
definition portMAX_DELAY :: u32 where "portMAX_DELAY = 0xffffffff"
definition taskNOT_WAITING_NOTIFICATION :: u8 where "taskNOT_WAITING_NOTIFICATION = 0"
definition taskWAITING_NOTIFICATION :: u8 where "taskWAITING_NOTIFICATION = 1"
definition taskNOTIFICATION_RECEIVED :: u8 where "taskNOTIFICATION_RECEIVED = 2"

subsection \<open>List items of a task\<close>

definition list_items :: "klist_id \<Rightarrow> kernel \<Rightarrow> u32 list" where
  "list_items L k = kl_items (klists k L)"

definition upd_list :: "klist_id \<Rightarrow> (u32 klist \<Rightarrow> u32 klist) \<Rightarrow> kernel \<Rightarrow> kernel" where
  "upd_list L f k = k\<lparr>klists := (klists k)(L := f (klists k L))\<rparr>"

definition upd_tcb :: "u32 \<Rightarrow> (TCB_t \<Rightarrow> TCB_t) \<Rightarrow> kernel \<Rightarrow> kernel" where
  "upd_tcb t f k = k\<lparr>tcb := (tcb k)(t := f (tcb k t))\<rparr>"

text \<open>The list operations on \<^verbatim>\<open>xStateListItem\<close> and on \<^verbatim>\<open>xEventListItem\<close>, with the container each writes.\<close>

definition state_insert_end :: "klist_id \<Rightarrow> u32 \<Rightarrow> kernel \<Rightarrow> kernel" where
  "state_insert_end L t k = upd_tcb t (\<lambda>c. c\<lparr>state_container := Some L\<rparr>) (upd_list L (kl_insert_end t) k)"

definition state_insert :: "klist_id \<Rightarrow> u32 \<Rightarrow> kernel \<Rightarrow> kernel" where
  "state_insert L t k = upd_tcb t (\<lambda>c. c\<lparr>state_container := Some L\<rparr>) (upd_list L (kl_insert (\<lambda>x. state_value (tcb k x)) t) k)"

definition event_insert_end :: "klist_id \<Rightarrow> u32 \<Rightarrow> kernel \<Rightarrow> kernel" where
  "event_insert_end L t k = upd_tcb t (\<lambda>c. c\<lparr>event_container := Some L\<rparr>) (upd_list L (kl_insert_end t) k)"

definition event_insert :: "klist_id \<Rightarrow> u32 \<Rightarrow> kernel \<Rightarrow> kernel" where
  "event_insert L t k = upd_tcb t (\<lambda>c. c\<lparr>event_container := Some L\<rparr>) (upd_list L (kl_insert (\<lambda>x. event_value (tcb k x)) t) k)"

definition state_remove :: "u32 \<Rightarrow> kernel \<Rightarrow> kernel option" where
  "state_remove t k = (case state_container (tcb k t) of None \<Rightarrow> None
     | Some L \<Rightarrow> Some (upd_tcb t (\<lambda>c. c\<lparr>state_container := None\<rparr>) (upd_list L (kl_remove t) k)))"

definition event_remove :: "u32 \<Rightarrow> kernel \<Rightarrow> kernel option" where
  "event_remove t k = (case event_container (tcb k t) of None \<Rightarrow> None
     | Some L \<Rightarrow> Some (upd_tcb t (\<lambda>c. c\<lparr>event_container := None\<rparr>) (upd_list L (kl_remove t) k)))"

subsection \<open>Ready and delayed lists\<close>

definition prvAddTaskToReadyList :: "u32 \<Rightarrow> kernel \<Rightarrow> kernel" where
  "prvAddTaskToReadyList t k =
     (let k = (if uxPriority (tcb k t) > uxTopReadyPriority k then k\<lparr>uxTopReadyPriority := uxPriority (tcb k t)\<rparr> else k)
      in state_insert_end (ReadyTasksLists (uxPriority (tcb k t))) t k)"

definition prvResetNextTaskUnblockTime :: "kernel \<Rightarrow> kernel" where
  "prvResetNextTaskUnblockTime k = k\<lparr>xNextTaskUnblockTime :=
     (case list_items (pxDelayedTaskList k) k of [] \<Rightarrow> portMAX_DELAY | t # _ \<Rightarrow> state_value (tcb k t))\<rparr>"

definition taskSWITCH_DELAYED_LISTS :: "kernel \<Rightarrow> kernel option" where
  "taskSWITCH_DELAYED_LISTS k =
     (if list_items (pxDelayedTaskList k) k \<noteq> [] then None
      else Some (prvResetNextTaskUnblockTime (k\<lparr>pxDelayedTaskList := pxOverflowDelayedTaskList k,
             pxOverflowDelayedTaskList := pxDelayedTaskList k, xNumOfOverflows := xNumOfOverflows k + 1\<rparr>)))"

definition prvAddCurrentTaskToDelayedList :: "u32 \<Rightarrow> bool \<Rightarrow> kernel \<Rightarrow> kernel option" where
  "prvAddCurrentTaskToDelayedList xTicksToWait xCanBlockIndefinitely k =
     (let t = pxCurrentTCB k; xConstTickCount = xTickCount k; xTimeToWake = xConstTickCount + xTicksToWait in do {
        k \<leftarrow> state_remove t k;
        Some (if xTicksToWait = portMAX_DELAY \<and> xCanBlockIndefinitely then state_insert_end SuspendedTaskList t k
          else
            (let k = upd_tcb t (\<lambda>c. c\<lparr>state_value := xTimeToWake\<rparr>) k
             in if xTimeToWake < xConstTickCount then state_insert (pxOverflowDelayedTaskList k) t k
                else
                  (let k = state_insert (pxDelayedTaskList k) t k
                   in if xTimeToWake < xNextTaskUnblockTime k then k\<lparr>xNextTaskUnblockTime := xTimeToWake\<rparr> else k)))
      })"

subsection \<open>Ticks\<close>

partial_function (option) unblock_expired :: "u32 \<Rightarrow> bool \<Rightarrow> kernel \<Rightarrow> (bool \<times> kernel) option" where
  "unblock_expired xConstTickCount xSwitchRequired k =
     (case list_items (pxDelayedTaskList k) k of [] \<Rightarrow> Some (xSwitchRequired, k\<lparr>xNextTaskUnblockTime := portMAX_DELAY\<rparr>)
      | t # _ \<Rightarrow>
        if xConstTickCount < state_value (tcb k t) then Some (xSwitchRequired, k\<lparr>xNextTaskUnblockTime := state_value (tcb k t)\<rparr>)
        else do {
          k \<leftarrow> state_remove t k;
          k \<leftarrow> (if event_container (tcb k t) \<noteq> None then event_remove t k else Some k);
          unblock_expired xConstTickCount (if uxPriority (tcb k t) \<ge> uxPriority (tcb k (pxCurrentTCB k)) then True else xSwitchRequired)
            (prvAddTaskToReadyList t k)
        })"

definition xTaskIncrementTick :: "kernel \<Rightarrow> (bool \<times> kernel) option" where
  "xTaskIncrementTick k =
     (if uxSchedulerSuspended k = 0 then
        (let xConstTickCount = xTickCount k + 1; k = k\<lparr>xTickCount := xConstTickCount\<rparr> in do {
           k \<leftarrow> (if xConstTickCount = 0 then taskSWITCH_DELAYED_LISTS k else Some k);
           (xSwitchRequired, k) \<leftarrow> (if xConstTickCount \<ge> xNextTaskUnblockTime k then unblock_expired xConstTickCount False k else Some (False, k));
           let xSwitchRequired = (if length (list_items (ReadyTasksLists (uxPriority (tcb k (pxCurrentTCB k)))) k) > 1 then True else xSwitchRequired);
           Some (if xYieldPending k then True else xSwitchRequired, k)
         })
      else Some (False, k\<lparr>xPendedTicks := xPendedTicks k + 1\<rparr>))"

definition portYIELD :: "kernel \<Rightarrow> kernel" where
  "portYIELD k = k\<lparr>PENDSVSET := True\<rparr>"

definition xPortSysTickHandler :: "kernel \<Rightarrow> kernel option" where
  "xPortSysTickHandler k = do { (sw, k) \<leftarrow> xTaskIncrementTick k; Some (if sw then portYIELD k else k) }"

text \<open>The handler of \<^verbatim>\<open>cmsis_os2.c\<close>; the scheduler's state is \<^verbatim>\<open>NOT_STARTED\<close> until it runs.\<close>

definition SysTick_Handler :: "kernel \<Rightarrow> kernel option" where
  "SysTick_Handler k = (if xSchedulerRunning k then xPortSysTickHandler k else Some k)"

subsection \<open>Task selection\<close>

partial_function (option) highest_ready :: "kernel \<Rightarrow> u32 \<Rightarrow> u32 option" where
  "highest_ready k uxTopPriority =
     (if list_items (ReadyTasksLists uxTopPriority) k = [] then
        (if uxTopPriority = 0 then None else highest_ready k (uxTopPriority - 1))
      else Some uxTopPriority)"

definition taskSELECT_HIGHEST_PRIORITY_TASK :: "kernel \<Rightarrow> kernel option" where
  "taskSELECT_HIGHEST_PRIORITY_TASK k = do {
     uxTopPriority \<leftarrow> highest_ready k (uxTopReadyPriority k);
     let L = ReadyTasksLists uxTopPriority;
     Some ((upd_list L kl_advance k)\<lparr>pxCurrentTCB := kl_next (klists k L), uxTopReadyPriority := uxTopPriority\<rparr>)
   }"

definition vTaskSwitchContext :: "kernel \<Rightarrow> kernel option" where
  "vTaskSwitchContext k =
     (if uxSchedulerSuspended k \<noteq> 0 then Some (k\<lparr>xYieldPending := True\<rparr>)
      else taskSELECT_HIGHEST_PRIORITY_TASK (k\<lparr>xYieldPending := False\<rparr>))"

text \<open>The exception: taking it clears the request.\<close>

definition xPortPendSVHandler :: "kernel \<Rightarrow> kernel option" where
  "xPortPendSVHandler k = vTaskSwitchContext (k\<lparr>PENDSVSET := False\<rparr>)"

subsection \<open>Suspending and resuming the scheduler\<close>

definition vTaskSuspendAll :: "kernel \<Rightarrow> kernel" where
  "vTaskSuspendAll k = k\<lparr>uxSchedulerSuspended := uxSchedulerSuspended k + 1\<rparr>"

text \<open>The flag says that a task was moved (\<^verbatim>\<open>pxTCB != NULL\<close>).\<close>

partial_function (option) move_pended :: "bool \<Rightarrow> kernel \<Rightarrow> (bool \<times> kernel) option" where
  "move_pended moved k =
     (case list_items PendingReadyList k of [] \<Rightarrow> Some (moved, k)
      | t # _ \<Rightarrow> do {
          k \<leftarrow> event_remove t k;
          k \<leftarrow> state_remove t k;
          let k = prvAddTaskToReadyList t k;
          move_pended True (if uxPriority (tcb k t) \<ge> uxPriority (tcb k (pxCurrentTCB k)) then k\<lparr>xYieldPending := True\<rparr> else k)
        })"

fun pended_ticks :: "nat \<Rightarrow> kernel \<Rightarrow> kernel option" where
  "pended_ticks 0 k = Some k"
| "pended_ticks (Suc n) k = do {
     (sw, k) \<leftarrow> xTaskIncrementTick k;
     pended_ticks n (if sw then k\<lparr>xYieldPending := True\<rparr> else k)
   }"

definition xTaskResumeAll :: "kernel \<Rightarrow> (bool \<times> kernel) option" where
  "xTaskResumeAll k =
     (if uxSchedulerSuspended k = 0 then None
      else
        (let k = k\<lparr>uxSchedulerSuspended := uxSchedulerSuspended k - 1\<rparr>
         in if uxSchedulerSuspended k = 0 \<and> uxCurrentNumberOfTasks k > 0 then do {
              (moved, k) \<leftarrow> move_pended False k;
              let k = (if moved then prvResetNextTaskUnblockTime k else k);
              let xPendedCounts = xPendedTicks k;
              k \<leftarrow> (if xPendedCounts > 0 then do { k \<leftarrow> pended_ticks (unat xPendedCounts) k; Some (k\<lparr>xPendedTicks := 0\<rparr>) } else Some k);
              Some (if xYieldPending k then (True, portYIELD k) else (False, k))
            }
            else Some (False, k)))"

declare unblock_expired.simps [code] highest_ready.simps [code] move_pended.simps [code]

end
