(* ===== verification/KernelTask.thy ===== *)
theory KernelTask
  imports KernelSched
begin

text \<open>
  The kernel's services for tasks and interrupts: creating tasks and starting the scheduler, delays, task
  notifications, and the event lists that the queues use.
\<close>

subsection \<open>Creating tasks\<close>

definition prvInitialiseTaskLists :: "kernel \<Rightarrow> kernel" where
  "prvInitialiseTaskLists k = k\<lparr>klists := (\<lambda>L. case L of
       ReadyTasksLists p \<Rightarrow> if p < configMAX_PRIORITIES then kl_empty else klists k L
     | DelayedTaskList1 \<Rightarrow> kl_empty | DelayedTaskList2 \<Rightarrow> kl_empty | PendingReadyList \<Rightarrow> kl_empty
     | TasksWaitingTermination \<Rightarrow> kl_empty | SuspendedTaskList \<Rightarrow> kl_empty | EventList _ \<Rightarrow> klists k L),
     pxDelayedTaskList := DelayedTaskList1, pxOverflowDelayedTaskList := DelayedTaskList2\<rparr>"

definition prvInitialiseNewTask :: "u32 \<Rightarrow> u32 \<Rightarrow> kernel \<Rightarrow> kernel" where
  "prvInitialiseNewTask pxNewTCB prio k =
     (let prio = (if prio \<ge> configMAX_PRIORITIES then configMAX_PRIORITIES - 1 else prio)
      in upd_tcb pxNewTCB (\<lambda>c. c\<lparr>uxPriority := prio, state_container := None, event_container := None,
           event_value := configMAX_PRIORITIES - prio, ulNotifiedValue := 0, ucNotifyState := taskNOT_WAITING_NOTIFICATION\<rparr>) k)"

definition prvAddNewTaskToReadyList :: "u32 \<Rightarrow> kernel \<Rightarrow> kernel" where
  "prvAddNewTaskToReadyList pxNewTCB k =
     (let k = k\<lparr>uxCurrentNumberOfTasks := uxCurrentNumberOfTasks k + 1\<rparr>;
          k = (if pxCurrentTCB k = 0 then
                 (let k = k\<lparr>pxCurrentTCB := pxNewTCB\<rparr>
                  in if uxCurrentNumberOfTasks k = 1 then prvInitialiseTaskLists k else k)
               else if \<not> xSchedulerRunning k then
                 (if uxPriority (tcb k (pxCurrentTCB k)) \<le> uxPriority (tcb k pxNewTCB) then k\<lparr>pxCurrentTCB := pxNewTCB\<rparr> else k)
               else k);
          k = k\<lparr>uxTaskNumber := uxTaskNumber k + 1\<rparr>;
          k = prvAddTaskToReadyList pxNewTCB k
      in if xSchedulerRunning k \<and> uxPriority (tcb k (pxCurrentTCB k)) < uxPriority (tcb k pxNewTCB) then portYIELD k else k)"

text \<open>\<^verbatim>\<open>xTaskCreateStatic\<close>, as far as the scheduler is concerned.\<close>

definition create_task :: "u32 \<Rightarrow> u32 \<Rightarrow> kernel \<Rightarrow> kernel" where
  "create_task pxNewTCB prio k = prvAddNewTaskToReadyList pxNewTCB (prvInitialiseNewTask pxNewTCB prio k)"

text \<open>Starting: the idle task at priority 0 and the timer task at priority 2, on the memory the application gives.\<close>

definition vTaskStartScheduler :: "u32 \<Rightarrow> u32 \<Rightarrow> kernel \<Rightarrow> kernel" where
  "vTaskStartScheduler idle timer k =
     (let k = create_task idle 0 k; k = create_task timer 2 k
      in k\<lparr>xNextTaskUnblockTime := portMAX_DELAY, xSchedulerRunning := True, xTickCount := 0\<rparr>)"

subsection \<open>Delays\<close>

definition vTaskDelay :: "u32 \<Rightarrow> kernel \<Rightarrow> kernel option" where
  "vTaskDelay xTicksToDelay k = do {
     (xAlreadyYielded, k) \<leftarrow>
       (if xTicksToDelay > 0 then
          (if uxSchedulerSuspended k \<noteq> 0 then None
           else do { k \<leftarrow> prvAddCurrentTaskToDelayedList xTicksToDelay False (vTaskSuspendAll k); xTaskResumeAll k })
        else Some (False, k));
     Some (if xAlreadyYielded then k else portYIELD k)
   }"

subsection \<open>Notifications\<close>

datatype eNotifyAction = eNoAction | eSetBits | eIncrement | eSetValueWithOverwrite | eSetValueWithoutOverwrite

definition upd_current :: "(TCB_t \<Rightarrow> TCB_t) \<Rightarrow> kernel \<Rightarrow> kernel" where
  "upd_current f k = upd_tcb (pxCurrentTCB k) f k"

text \<open>The first critical section of \<^verbatim>\<open>xTaskNotifyWait\<close> ends with the task switched away when it blocks; the second
  runs when the task runs again.\<close>

definition xTaskNotifyWait_block :: "u32 \<Rightarrow> u32 \<Rightarrow> kernel \<Rightarrow> kernel option" where
  "xTaskNotifyWait_block ulBitsToClearOnEntry xTicksToWait k =
     (if ucNotifyState (tcb k (pxCurrentTCB k)) \<noteq> taskNOTIFICATION_RECEIVED then
        (let k = upd_current (\<lambda>c. c\<lparr>ulNotifiedValue := ulNotifiedValue c AND NOT ulBitsToClearOnEntry\<rparr>) k;
             k = upd_current (\<lambda>c. c\<lparr>ucNotifyState := taskWAITING_NOTIFICATION\<rparr>) k
         in if xTicksToWait > 0 then do { k \<leftarrow> prvAddCurrentTaskToDelayedList xTicksToWait True k; Some (portYIELD k) } else Some k)
      else Some k)"

definition xTaskNotifyWait_finish :: "u32 \<Rightarrow> kernel \<Rightarrow> u32 \<times> bool \<times> kernel" where
  "xTaskNotifyWait_finish ulBitsToClearOnExit k =
     (let pulNotificationValue = ulNotifiedValue (tcb k (pxCurrentTCB k));
          (xReturn, k) = (if ucNotifyState (tcb k (pxCurrentTCB k)) \<noteq> taskNOTIFICATION_RECEIVED then (False, k)
            else (True, upd_current (\<lambda>c. c\<lparr>ulNotifiedValue := ulNotifiedValue c AND NOT ulBitsToClearOnExit\<rparr>) k))
      in (pulNotificationValue, xReturn, upd_current (\<lambda>c. c\<lparr>ucNotifyState := taskNOT_WAITING_NOTIFICATION\<rparr>) k))"

text \<open>The switch that both notifying functions have, on the value and the state the task had.\<close>

definition notify_value :: "eNotifyAction \<Rightarrow> u32 \<Rightarrow> u8 \<Rightarrow> u32 \<Rightarrow> bool \<times> u32" where
  "notify_value eAction ulValue ucOriginalNotifyState old =
     (case eAction of eSetBits \<Rightarrow> (True, old OR ulValue) | eIncrement \<Rightarrow> (True, old + 1) | eSetValueWithOverwrite \<Rightarrow> (True, ulValue)
      | eSetValueWithoutOverwrite \<Rightarrow> (if ucOriginalNotifyState \<noteq> taskNOTIFICATION_RECEIVED then (True, ulValue) else (False, old))
      | eNoAction \<Rightarrow> (True, old))"

definition xTaskGenericNotify :: "u32 \<Rightarrow> u32 \<Rightarrow> eNotifyAction \<Rightarrow> kernel \<Rightarrow> (u32 \<times> bool \<times> kernel) option" where
  "xTaskGenericNotify xTaskToNotify ulValue eAction k =
     (if xTaskToNotify = 0 then None
      else
        (let t = xTaskToNotify; pulPreviousNotificationValue = ulNotifiedValue (tcb k t);
             ucOriginalNotifyState = ucNotifyState (tcb k t);
             k = upd_tcb t (\<lambda>c. c\<lparr>ucNotifyState := taskNOTIFICATION_RECEIVED\<rparr>) k;
             (xReturn, v) = notify_value eAction ulValue ucOriginalNotifyState (ulNotifiedValue (tcb k t));
             k = upd_tcb t (\<lambda>c. c\<lparr>ulNotifiedValue := v\<rparr>) k
         in if ucOriginalNotifyState = taskWAITING_NOTIFICATION then do {
              k \<leftarrow> state_remove t k;
              let k = prvAddTaskToReadyList t k;
              (if event_container (tcb k t) \<noteq> None then None
               else Some (pulPreviousNotificationValue, xReturn,
                      if uxPriority (tcb k t) > uxPriority (tcb k (pxCurrentTCB k)) then portYIELD k else k))
            }
            else Some (pulPreviousNotificationValue, xReturn, k)))"

text \<open>The branch that waking from an interrupt and waking from an event list share: while the scheduler is suspended the
  task is held pending.\<close>

definition ready_or_pend :: "u32 \<Rightarrow> kernel \<Rightarrow> kernel option" where
  "ready_or_pend t k =
     (if uxSchedulerSuspended k = 0 then do { k \<leftarrow> state_remove t k; Some (prvAddTaskToReadyList t k) }
      else Some (event_insert_end PendingReadyList t k))"

text \<open>From an interrupt; the last component is what \<^verbatim>\<open>*pxHigherPriorityTaskWoken\<close> is set to, if it is set.\<close>

definition xTaskGenericNotifyFromISR :: "u32 \<Rightarrow> u32 \<Rightarrow> eNotifyAction \<Rightarrow> kernel \<Rightarrow> (u32 \<times> bool \<times> bool \<times> kernel) option" where
  "xTaskGenericNotifyFromISR xTaskToNotify ulValue eAction k =
     (if xTaskToNotify = 0 then None
      else
        (let t = xTaskToNotify; pulPreviousNotificationValue = ulNotifiedValue (tcb k t);
             ucOriginalNotifyState = ucNotifyState (tcb k t);
             k = upd_tcb t (\<lambda>c. c\<lparr>ucNotifyState := taskNOTIFICATION_RECEIVED\<rparr>) k;
             (xReturn, v) = notify_value eAction ulValue ucOriginalNotifyState (ulNotifiedValue (tcb k t));
             k = upd_tcb t (\<lambda>c. c\<lparr>ulNotifiedValue := v\<rparr>) k
         in if ucOriginalNotifyState = taskWAITING_NOTIFICATION then
              (if event_container (tcb k t) \<noteq> None then None
               else do {
                 k \<leftarrow> ready_or_pend t k;
                 Some (if uxPriority (tcb k t) > uxPriority (tcb k (pxCurrentTCB k))
                       then (pulPreviousNotificationValue, xReturn, True, k\<lparr>xYieldPending := True\<rparr>)
                       else (pulPreviousNotificationValue, xReturn, False, k))
               })
            else Some (pulPreviousNotificationValue, xReturn, False, k)))"

subsection \<open>Event lists\<close>

definition vTaskPlaceOnEventList :: "u32 \<Rightarrow> u32 \<Rightarrow> kernel \<Rightarrow> kernel option" where
  "vTaskPlaceOnEventList pxEventList xTicksToWait k =
     prvAddCurrentTaskToDelayedList xTicksToWait True (event_insert (EventList pxEventList) (pxCurrentTCB k) k)"

definition vTaskPlaceOnEventListRestricted :: "u32 \<Rightarrow> u32 \<Rightarrow> bool \<Rightarrow> kernel \<Rightarrow> kernel option" where
  "vTaskPlaceOnEventListRestricted pxEventList xTicksToWait xWaitIndefinitely k =
     (let k = event_insert_end (EventList pxEventList) (pxCurrentTCB k) k;
          xTicksToWait = (if xWaitIndefinitely then portMAX_DELAY else xTicksToWait)
      in prvAddCurrentTaskToDelayedList xTicksToWait xWaitIndefinitely k)"

definition xTaskRemoveFromEventList :: "u32 \<Rightarrow> kernel \<Rightarrow> (bool \<times> kernel) option" where
  "xTaskRemoveFromEventList pxEventList k =
     (case list_items (EventList pxEventList) k of [] \<Rightarrow> None
      | t # _ \<Rightarrow> do {
          k \<leftarrow> event_remove t k;
          k \<leftarrow> ready_or_pend t k;
          Some (if uxPriority (tcb k t) > uxPriority (tcb k (pxCurrentTCB k)) then (True, k\<lparr>xYieldPending := True\<rparr>) else (False, k))
        })"

end
