(* ===== verification/KernelInv.thy ===== *)
theory KernelInv
  imports KernelTask
begin

text \<open>
  The well-formedness of the kernel's lists and times, and what moving a task from one list to another does to it.
\<close>

subsection \<open>Sequences with an index\<close>

lemma set_insert_at [simp]: "insert x (set (takeWhile P xs) \<union> set (dropWhile P xs)) = insert x (set xs)"
  by (metis set_append takeWhile_dropWhile_id)

lemma distinct_insert_at: "distinct xs \<Longrightarrow> x \<notin> set xs \<Longrightarrow> distinct (takeWhile P xs @ x # dropWhile P xs)"
proof -
  assume "distinct xs" "x \<notin> set xs"
  moreover from this(1) have "distinct (takeWhile P xs @ dropWhile P xs)" by simp
  ultimately show ?thesis by (auto dest: set_takeWhileD set_dropWhileD simp del: takeWhile_dropWhile_id)
qed

lemma sorted_insert_at:
  "sorted (map f xs) \<Longrightarrow> sorted (map f (takeWhile (\<lambda>y. f y \<le> f x) xs @ x # dropWhile (\<lambda>y. f y \<le> f x) xs))"
proof (induction xs)
  case (Cons y xs)
  have rest: "sorted (map f xs)" and first: "\<forall>z \<in> set xs. f y \<le> f z" using Cons.prems by auto
  show ?case
  proof (cases "f y \<le> f x")
    case True
    have "f y \<le> f z" if "z \<in> set (takeWhile (\<lambda>y. f y \<le> f x) xs @ x # dropWhile (\<lambda>y. f y \<le> f x) xs)" for z
      using that first True by (auto dest: set_takeWhileD set_dropWhileD)
    then show ?thesis using Cons.IH [OF rest] True by (auto dest: set_takeWhileD set_dropWhileD)
  next
    case False
    then show ?thesis using first rest by auto
  qed
qed simp

lemma kl_sets [simp]:
  "set (kl_items (kl_insert_end x l)) = insert x (set (kl_items l))"
  "set (kl_items (kl_insert f x l)) = insert x (set (kl_items l))"
  "kl_items (kl_remove x l) = filter (\<lambda>y. y \<noteq> x) (kl_items l)"
  "kl_items (kl_advance l) = kl_items l"
  "kl_items kl_empty = []"
  by (simp_all add: kl_insert_end_def kl_insert_def kl_remove_def kl_advance_def kl_empty_def split: option.split)

lemma kl_indexes [simp]:
  "kl_index (kl_insert_end x l) = kl_index l" "kl_index (kl_insert f x l) = kl_index l"
  by (simp_all add: kl_insert_end_def kl_insert_def)

lemma kl_insert_end_distinct: "distinct (kl_items l) \<Longrightarrow> x \<notin> set (kl_items l) \<Longrightarrow> distinct (kl_items (kl_insert_end x l))"
  using distinct_insert_at [of "kl_items l" x] by (cases "kl_index l") (auto simp: kl_insert_end_def)

lemma before_in_mem: "distinct xs \<Longrightarrow> x \<in> set xs \<Longrightarrow> before_in x xs = Some y \<Longrightarrow> y \<in> set xs - {x}"
proof -
  assume a: "distinct xs" "x \<in> set xs" "before_in x xs = Some y"
  then obtain ys zs where xs: "xs = ys @ x # zs" by (blast dest: split_list)
  then show ?thesis using a before_in_eq [of x ys zs] last_in_set [of ys] by (auto split: if_splits)
qed

lemma kl_ok_ops:
  "kl_ok kl_empty"
  "kl_ok l \<Longrightarrow> x \<notin> set (kl_items l) \<Longrightarrow> kl_ok (kl_insert_end x l)"
  "kl_ok l \<Longrightarrow> x \<notin> set (kl_items l) \<Longrightarrow> kl_ok (kl_insert f x l)"
  "kl_ok l \<Longrightarrow> kl_ok (kl_remove x l)"
  "kl_ok l \<Longrightarrow> kl_items l \<noteq> [] \<Longrightarrow> kl_ok (kl_advance l)"
proof -
  show "kl_ok kl_empty" by (simp add: kl_ok_def kl_empty_def)
  show "kl_ok (kl_insert_end x l)" if "kl_ok l" "x \<notin> set (kl_items l)"
    using that kl_insert_end_distinct [of l x] by (simp add: kl_ok_def split: option.splits)
  show "kl_ok (kl_insert f x l)" if "kl_ok l" "x \<notin> set (kl_items l)"
  proof -
    have "distinct (kl_items (kl_insert f x l))" using that unfolding kl_insert_def
      by (simp add: kl_ok_def distinct_insert_at [simplified])
    then show ?thesis using that(1) by (simp add: kl_ok_def split: option.splits)
  qed
  show "kl_ok (kl_remove x l)" if "kl_ok l"
    using that before_in_mem [of "kl_items l" x] by (auto simp: kl_ok_def kl_remove_def split: option.splits if_splits)
  show "kl_ok (kl_advance l)" if "kl_ok l" "kl_items l \<noteq> []"
    using that kl_next_in [OF that] by (simp add: kl_ok_def kl_advance_def)
qed

lemma kl_insert_sorted: "sorted (map f (kl_items l)) \<Longrightarrow> sorted (map f (kl_items (kl_insert f x l)))"
  using sorted_insert_at [of f "kl_items l" x] by (simp add: kl_insert_def)


subsection \<open>Lists and containers agree\<close>

definition is_event_list :: "klist_id \<Rightarrow> bool" where
  "is_event_list L = (case L of PendingReadyList \<Rightarrow> True | EventList _ \<Rightarrow> True | _ \<Rightarrow> False)"

definition linked :: "(TCB_t \<Rightarrow> klist_id option) \<Rightarrow> (klist_id \<Rightarrow> bool) \<Rightarrow> u32 set \<Rightarrow> kernel \<Rightarrow> bool" where
  "linked container kind T k \<longleftrightarrow>
     (\<forall>L. kind L \<longrightarrow> kl_ok (klists k L) \<and> (\<forall>t. t \<in> set (list_items L k) \<longleftrightarrow> t \<in> T \<and> container (tcb k t) = Some L)) \<and>
     (\<forall>t \<in> T. \<forall>L. container (tcb k t) = Some L \<longrightarrow> kind L)"

definition lists_ok :: "u32 set \<Rightarrow> kernel \<Rightarrow> bool" where
  "lists_ok T k \<longleftrightarrow> linked state_container (\<lambda>L. \<not> is_event_list L) T k \<and> linked event_container is_event_list T k"

lemma list_items_upd [simp]:
  "list_items M (upd_list L f k) = (if M = L then kl_items (f (klists k L)) else list_items M k)"
  "list_items M (upd_tcb t g k) = list_items M k"
  "klists (upd_tcb t g k) = klists k" "tcb (upd_list L f k) = tcb k"
  "tcb (upd_tcb t g k) = (tcb k)(t := g (tcb k t))"
  "klists (upd_list L f k) = (klists k)(L := f (klists k L))"
  by (simp_all add: list_items_def upd_list_def upd_tcb_def)

lemma list_items_fields [simp]:
  "list_items M (k\<lparr>pxCurrentTCB := a\<rparr>) = list_items M k" "list_items M (k\<lparr>pxDelayedTaskList := b\<rparr>) = list_items M k"
  "list_items M (k\<lparr>pxOverflowDelayedTaskList := b\<rparr>) = list_items M k" "list_items M (k\<lparr>uxCurrentNumberOfTasks := a\<rparr>) = list_items M k"
  "list_items M (k\<lparr>xTickCount := a\<rparr>) = list_items M k" "list_items M (k\<lparr>uxTopReadyPriority := a\<rparr>) = list_items M k"
  "list_items M (k\<lparr>xSchedulerRunning := c\<rparr>) = list_items M k" "list_items M (k\<lparr>xPendedTicks := a\<rparr>) = list_items M k"
  "list_items M (k\<lparr>xYieldPending := c\<rparr>) = list_items M k" "list_items M (k\<lparr>xNumOfOverflows := a\<rparr>) = list_items M k"
  "list_items M (k\<lparr>uxTaskNumber := a\<rparr>) = list_items M k" "list_items M (k\<lparr>xNextTaskUnblockTime := a\<rparr>) = list_items M k"
  "list_items M (k\<lparr>uxSchedulerSuspended := a\<rparr>) = list_items M k" "list_items M (k\<lparr>PENDSVSET := c\<rparr>) = list_items M k"
  by (simp_all add: list_items_def)

lemma linked_cong:
  "(\<And>L. kind L \<Longrightarrow> klists k' L = klists k L) \<Longrightarrow> (\<And>t. container (tcb k' t) = container (tcb k t)) \<Longrightarrow>
    linked container kind T k' = linked container kind T k"
  by (simp add: linked_def list_items_def)

text \<open>
  The state items and the event items live by the same rules: inserting an item that is on no list into a list of
  its kind, and removing one from the list it is on, keeps lists and containers in agreement.
\<close>

locale item_kind =
  fixes container :: "TCB_t \<Rightarrow> klist_id option"
    and set_container :: "klist_id option \<Rightarrow> TCB_t \<Rightarrow> TCB_t"
    and kind :: "klist_id \<Rightarrow> bool"
  assumes get_set: "container (set_container c r) = c"
begin

lemma insert_linked:
  assumes l: "linked container kind T k" and t: "t \<in> T" "container (tcb k t) = None" and L: "kind L"
    and f: "\<And>l. kl_ok l \<Longrightarrow> t \<notin> set (kl_items l) \<Longrightarrow> kl_ok (f l)" "\<And>l. set (kl_items (f l)) = insert t (set (kl_items l))"
  shows "linked container kind T (upd_tcb t (set_container (Some L)) (upd_list L f k))"
proof -
  have no: "t \<notin> set (kl_items (klists k L))" and ok: "kl_ok (klists k L)" using l t L by (auto simp: linked_def list_items_def)
  show ?thesis using l t L f(1) [OF ok no] f(2) by (auto simp: linked_def list_items_def get_set)
qed

lemma remove_linked:
  assumes l: "linked container kind T k" and t: "t \<in> T" "container (tcb k t) = Some L"
  shows "linked container kind T (upd_tcb t (set_container None) (upd_list L (kl_remove t) k))"
    "M \<noteq> L \<Longrightarrow> kind M \<Longrightarrow> t \<notin> set (list_items M k)"
  using l t by (auto simp: linked_def list_items_def get_set kl_ok_ops)

end

interpretation state_items: item_kind state_container "\<lambda>c. state_container_update (\<lambda>_. c)" "\<lambda>L. \<not> is_event_list L"
  by unfold_locales simp

interpretation event_items: item_kind event_container "\<lambda>c. event_container_update (\<lambda>_. c)" is_event_list
  by unfold_locales simp

text \<open>Each kind leaves the other alone.\<close>

lemma other_kind:
  "\<not> is_event_list L \<Longrightarrow> linked event_container is_event_list T (upd_tcb t (\<lambda>c. c\<lparr>state_container := x\<rparr>) (upd_list L f k)) = linked event_container is_event_list T k"
  "is_event_list L \<Longrightarrow> linked state_container (\<lambda>L. \<not> is_event_list L) T (upd_tcb t (\<lambda>c. c\<lparr>event_container := x\<rparr>) (upd_list L f k)) = linked state_container (\<lambda>L. \<not> is_event_list L) T k"
  by (rule linked_cong; auto)+

lemma lists_ok_state_insert:
  "lists_ok T k \<Longrightarrow> t \<in> T \<Longrightarrow> state_container (tcb k t) = None \<Longrightarrow> \<not> is_event_list L \<Longrightarrow> lists_ok T (state_insert_end L t k)"
  "lists_ok T k \<Longrightarrow> t \<in> T \<Longrightarrow> state_container (tcb k t) = None \<Longrightarrow> \<not> is_event_list L \<Longrightarrow> lists_ok T (state_insert L t k)"
  unfolding lists_ok_def state_insert_end_def state_insert_def
  by (auto simp: other_kind intro!: state_items.insert_linked kl_ok_ops)

lemma lists_ok_event_insert:
  "lists_ok T k \<Longrightarrow> t \<in> T \<Longrightarrow> event_container (tcb k t) = None \<Longrightarrow> is_event_list L \<Longrightarrow> lists_ok T (event_insert_end L t k)"
  "lists_ok T k \<Longrightarrow> t \<in> T \<Longrightarrow> event_container (tcb k t) = None \<Longrightarrow> is_event_list L \<Longrightarrow> lists_ok T (event_insert L t k)"
  unfolding lists_ok_def event_insert_end_def event_insert_def
  by (auto simp: other_kind intro!: event_items.insert_linked kl_ok_ops)

lemma lists_ok_kind:
  "lists_ok T k \<Longrightarrow> t \<in> T \<Longrightarrow> state_container (tcb k t) = Some L \<Longrightarrow> \<not> is_event_list L"
  "lists_ok T k \<Longrightarrow> t \<in> T \<Longrightarrow> event_container (tcb k t) = Some L \<Longrightarrow> is_event_list L"
  by (auto simp: lists_ok_def linked_def)

lemma lists_ok_remove:
  "lists_ok T k \<Longrightarrow> t \<in> T \<Longrightarrow> state_container (tcb k t) = Some L \<Longrightarrow> lists_ok T (upd_tcb t (\<lambda>c. c\<lparr>state_container := None\<rparr>) (upd_list L (kl_remove t) k))"
  "lists_ok T k \<Longrightarrow> t \<in> T \<Longrightarrow> event_container (tcb k t) = Some L \<Longrightarrow> lists_ok T (upd_tcb t (\<lambda>c. c\<lparr>event_container := None\<rparr>) (upd_list L (kl_remove t) k))"
  using lists_ok_kind [of T k t L] state_items.remove_linked(1) [of T k t L] event_items.remove_linked(1) [of T k t L]
  by (auto simp: lists_ok_def other_kind)

lemma lists_ok_mem:
  "lists_ok T k \<Longrightarrow> \<not> is_event_list L \<Longrightarrow> t \<in> set (list_items L k) \<longleftrightarrow> t \<in> T \<and> state_container (tcb k t) = Some L"
  "lists_ok T k \<Longrightarrow> is_event_list L \<Longrightarrow> t \<in> set (list_items L k) \<longleftrightarrow> t \<in> T \<and> event_container (tcb k t) = Some L"
  "lists_ok T k \<Longrightarrow> kl_ok (klists k L)"
  by (cases "is_event_list L"; auto simp: lists_ok_def linked_def)+


lemma upd_fields [simp]:
  "pxCurrentTCB (upd_tcb t g k) = pxCurrentTCB k" "pxCurrentTCB (upd_list L h k) = pxCurrentTCB k"
  "pxDelayedTaskList (upd_tcb t g k) = pxDelayedTaskList k" "pxDelayedTaskList (upd_list L h k) = pxDelayedTaskList k"
  "pxOverflowDelayedTaskList (upd_tcb t g k) = pxOverflowDelayedTaskList k" "pxOverflowDelayedTaskList (upd_list L h k) = pxOverflowDelayedTaskList k"
  "uxCurrentNumberOfTasks (upd_tcb t g k) = uxCurrentNumberOfTasks k" "uxCurrentNumberOfTasks (upd_list L h k) = uxCurrentNumberOfTasks k"
  "xTickCount (upd_tcb t g k) = xTickCount k" "xTickCount (upd_list L h k) = xTickCount k"
  "uxTopReadyPriority (upd_tcb t g k) = uxTopReadyPriority k" "uxTopReadyPriority (upd_list L h k) = uxTopReadyPriority k"
  "xSchedulerRunning (upd_tcb t g k) = xSchedulerRunning k" "xSchedulerRunning (upd_list L h k) = xSchedulerRunning k"
  "xPendedTicks (upd_tcb t g k) = xPendedTicks k" "xPendedTicks (upd_list L h k) = xPendedTicks k"
  "xYieldPending (upd_tcb t g k) = xYieldPending k" "xYieldPending (upd_list L h k) = xYieldPending k"
  "xNumOfOverflows (upd_tcb t g k) = xNumOfOverflows k" "xNumOfOverflows (upd_list L h k) = xNumOfOverflows k"
  "uxTaskNumber (upd_tcb t g k) = uxTaskNumber k" "uxTaskNumber (upd_list L h k) = uxTaskNumber k"
  "xNextTaskUnblockTime (upd_tcb t g k) = xNextTaskUnblockTime k" "xNextTaskUnblockTime (upd_list L h k) = xNextTaskUnblockTime k"
  "uxSchedulerSuspended (upd_tcb t g k) = uxSchedulerSuspended k" "uxSchedulerSuspended (upd_list L h k) = uxSchedulerSuspended k"
  "PENDSVSET (upd_tcb t g k) = PENDSVSET k" "PENDSVSET (upd_list L h k) = PENDSVSET k"
  by (simp_all add: upd_tcb_def upd_list_def)

subsection \<open>The invariant\<close>

text \<open>
  Every task is on the ready list of its priority, on a delayed list or on the suspended list, except the tasks \<open>X\<close> that
  are being moved. Delayed lists are sorted; the wake times of the current one lie after the tick count, those of the
  other one before it (they have wrapped around).
\<close>

definition wake :: "kernel \<Rightarrow> u32 \<Rightarrow> u32" where
  "wake k t = state_value (tcb k t)"

definition ready :: "kernel \<Rightarrow> u32 \<Rightarrow> bool" where
  "ready k t \<longleftrightarrow> state_container (tcb k t) = Some (ReadyTasksLists (uxPriority (tcb k t)))"

definition placed :: "kernel \<Rightarrow> u32 \<Rightarrow> bool" where
  "placed k t \<longleftrightarrow> ready k t \<or> state_container (tcb k t) \<in> {Some DelayedTaskList1, Some DelayedTaskList2, Some SuspendedTaskList}"

definition task_ok :: "u32 set \<Rightarrow> kernel \<Rightarrow> u32 \<Rightarrow> bool" where
  "task_ok X k t \<longleftrightarrow> uxPriority (tcb k t) < configMAX_PRIORITIES \<and>
     (if t \<in> X then state_container (tcb k t) = None else placed k t) \<and> (ready k t \<longrightarrow> uxPriority (tcb k t) \<le> uxTopReadyPriority k) \<and>
     (ucNotifyState (tcb k t) = taskWAITING_NOTIFICATION \<longrightarrow> event_container (tcb k t) = None)"

definition wake_sorted :: "klist_id \<Rightarrow> kernel \<Rightarrow> bool" where
  "wake_sorted L k \<longleftrightarrow> sorted (map (wake k) (list_items L k))"

definition kernel_wf :: "u32 set \<Rightarrow> u32 set \<Rightarrow> kernel \<Rightarrow> bool" where
  "kernel_wf X T k \<longleftrightarrow> lists_ok T k \<and> (\<forall>t \<in> T. task_ok X k t) \<and> wake_sorted DelayedTaskList1 k \<and> wake_sorted DelayedTaskList2 k \<and>
     (pxDelayedTaskList k, pxOverflowDelayedTaskList k) \<in> {(DelayedTaskList1, DelayedTaskList2), (DelayedTaskList2, DelayedTaskList1)} \<and>
     uxTopReadyPriority k < configMAX_PRIORITIES \<and> pxCurrentTCB k \<in> T \<and> 0 \<notin> T \<and> X \<subseteq> T \<and> uxCurrentNumberOfTasks k \<noteq> 0"

definition timed :: "kernel \<Rightarrow> u32 \<Rightarrow> bool" where
  "timed k t \<longleftrightarrow>
     (state_container (tcb k t) = Some (pxDelayedTaskList k) \<longrightarrow> xTickCount k < wake k t \<and> xNextTaskUnblockTime k \<le> wake k t) \<and>
     (state_container (tcb k t) = Some (pxOverflowDelayedTaskList k) \<longrightarrow> wake k t < xTickCount k)"

text \<open>The scheduler's promise: unless a switch has been asked for, nobody ready has a higher priority than the running task.\<close>

definition preemptive :: "u32 set \<Rightarrow> kernel \<Rightarrow> bool" where
  "preemptive T k \<longleftrightarrow> PENDSVSET k \<or> xYieldPending k \<or>
     (\<forall>t \<in> T. ready k t \<longrightarrow> uxPriority (tcb k t) \<le> uxPriority (tcb k (pxCurrentTCB k)))"

definition kernel_inv :: "u32 set \<Rightarrow> kernel \<Rightarrow> bool" where
  "kernel_inv T k \<longleftrightarrow> kernel_wf {} T k \<and> (\<forall>t \<in> T. timed k t) \<and> preemptive T k \<and>
     (uxSchedulerSuspended k = 0 \<longrightarrow> list_items PendingReadyList k = [] \<and> xPendedTicks k = 0)"

lemmas inv_defs = kernel_wf_def task_ok_def placed_def ready_def wake_sorted_def wake_def

definition removed :: "u32 \<Rightarrow> kernel \<Rightarrow> kernel" where
  "removed t k = upd_tcb t (\<lambda>c. c\<lparr>state_container := None\<rparr>) (upd_list (the (state_container (tcb k t))) (kl_remove t) k)"

lemma state_remove_removed: "state_container (tcb k t) = Some L \<Longrightarrow> state_remove t k = Some (removed t k)"
  by (simp add: state_remove_def removed_def)

lemma sorted_filter_map: "sorted (map f xs) \<Longrightarrow> sorted (map f (filter P xs))"
  by (induction xs) auto

lemma wake_sorted_removed: "wake_sorted L k \<Longrightarrow> wake_sorted L (removed t k)"
proof -
  assume "wake_sorted L k"
  moreover have "wake (removed t k) = wake k" by (auto simp: wake_def removed_def)
  ultimately show ?thesis by (auto simp: wake_sorted_def removed_def list_items_def intro: sorted_filter_map)
qed

lemma removed_wf:
  assumes wf: "kernel_wf X T k" and t: "t \<in> T" "t \<notin> X"
  shows "state_remove t k = Some (removed t k)" "kernel_wf (insert t X) T (removed t k)"
proof -
  have "task_ok X k t" using wf t by (simp add: kernel_wf_def)
  then obtain L where L: "state_container (tcb k t) = Some L" using t by (auto simp: task_ok_def placed_def ready_def)
  then show "state_remove t k = Some (removed t k)" by (rule state_remove_removed)
  have "lists_ok T (removed t k)" unfolding removed_def L option.sel
    using wf t L by (intro lists_ok_remove) (auto simp: kernel_wf_def)
  moreover have "task_ok (insert t X) (removed t k) u" if "u \<in> T" for u
    using wf that t by (auto simp: kernel_wf_def task_ok_def removed_def placed_def ready_def)
  ultimately show "kernel_wf (insert t X) T (removed t k)"
    using wf t wake_sorted_removed by (auto simp: kernel_wf_def removed_def)
qed

text \<open>Making a task ready.\<close>

lemma add_ready_tcb [simp]:
  "tcb (prvAddTaskToReadyList t k) = (tcb k)(t := (tcb k t)\<lparr>state_container := Some (ReadyTasksLists (uxPriority (tcb k t)))\<rparr>)"
  "uxTopReadyPriority (prvAddTaskToReadyList t k) = max (uxTopReadyPriority k) (uxPriority (tcb k t))"
  "list_items L (prvAddTaskToReadyList t k) = (if L = ReadyTasksLists (uxPriority (tcb k t))
     then kl_items (kl_insert_end t (klists k L)) else list_items L k)"
  "wake (prvAddTaskToReadyList t k) = wake k"
  "pxCurrentTCB (prvAddTaskToReadyList t k) = pxCurrentTCB k"
  "pxDelayedTaskList (prvAddTaskToReadyList t k) = pxDelayedTaskList k"
  "pxOverflowDelayedTaskList (prvAddTaskToReadyList t k) = pxOverflowDelayedTaskList k"
  "uxCurrentNumberOfTasks (prvAddTaskToReadyList t k) = uxCurrentNumberOfTasks k"
  "xTickCount (prvAddTaskToReadyList t k) = xTickCount k"
  "xSchedulerRunning (prvAddTaskToReadyList t k) = xSchedulerRunning k"
  "xPendedTicks (prvAddTaskToReadyList t k) = xPendedTicks k"
  "xYieldPending (prvAddTaskToReadyList t k) = xYieldPending k"
  "xNumOfOverflows (prvAddTaskToReadyList t k) = xNumOfOverflows k"
  "uxTaskNumber (prvAddTaskToReadyList t k) = uxTaskNumber k"
  "xNextTaskUnblockTime (prvAddTaskToReadyList t k) = xNextTaskUnblockTime k"
  "uxSchedulerSuspended (prvAddTaskToReadyList t k) = uxSchedulerSuspended k"
  "PENDSVSET (prvAddTaskToReadyList t k) = PENDSVSET k"
  by (auto simp: prvAddTaskToReadyList_def Let_def state_insert_end_def max_def wake_def)

lemma removed_tcb [simp]:
  "tcb (removed t k) = (tcb k)(t := (tcb k t)\<lparr>state_container := None\<rparr>)" "wake (removed t k) = wake k"
  "pxCurrentTCB (removed t k) = pxCurrentTCB k"
  "pxDelayedTaskList (removed t k) = pxDelayedTaskList k"
  "pxOverflowDelayedTaskList (removed t k) = pxOverflowDelayedTaskList k"
  "uxCurrentNumberOfTasks (removed t k) = uxCurrentNumberOfTasks k"
  "xTickCount (removed t k) = xTickCount k"
  "xSchedulerRunning (removed t k) = xSchedulerRunning k"
  "xPendedTicks (removed t k) = xPendedTicks k"
  "xYieldPending (removed t k) = xYieldPending k"
  "xNumOfOverflows (removed t k) = xNumOfOverflows k"
  "uxTaskNumber (removed t k) = uxTaskNumber k"
  "xNextTaskUnblockTime (removed t k) = xNextTaskUnblockTime k"
  "uxSchedulerSuspended (removed t k) = uxSchedulerSuspended k"
  "PENDSVSET (removed t k) = PENDSVSET k"
  "uxTopReadyPriority (removed t k) = uxTopReadyPriority k"
  by (auto simp: removed_def wake_def)

lemma add_ready_wf:
  assumes wf: "kernel_wf X T k" and t: "t \<in> X"
  shows "kernel_wf (X - {t}) T (prvAddTaskToReadyList t k)"
proof -
  have tT: "t \<in> T" and ok: "task_ok X k t" "lists_ok T k" using wf t by (auto simp: kernel_wf_def)
  let ?k = "if uxPriority (tcb k t) > uxTopReadyPriority k then k\<lparr>uxTopReadyPriority := uxPriority (tcb k t)\<rparr> else k"
  have "lists_ok T ?k" using ok(2) by (auto simp: lists_ok_def linked_def)
  then have "lists_ok T (prvAddTaskToReadyList t k)" unfolding prvAddTaskToReadyList_def Let_def
    by (rule lists_ok_state_insert(1)) (use ok(1) tT t in \<open>auto simp: is_event_list_def task_ok_def\<close>)
  moreover have "task_ok (X - {t}) (prvAddTaskToReadyList t k) u" if "u \<in> T" for u
  proof -
    have "task_ok X k u" using wf that by (simp add: kernel_wf_def)
    then show ?thesis using ok(1) t by (auto simp: task_ok_def placed_def ready_def max_def)
  qed
  moreover have "wake_sorted L (prvAddTaskToReadyList t k)" if "wake_sorted L k" "\<And>p. L \<noteq> ReadyTasksLists p" for L
    using that by (simp add: wake_sorted_def)
  ultimately show ?thesis using wf ok(1) by (simp add: kernel_wf_def task_ok_def max_def) blast
qed


text \<open>Event items.\<close>

definition event_removed :: "u32 \<Rightarrow> kernel \<Rightarrow> kernel" where
  "event_removed t k = (case event_container (tcb k t) of None \<Rightarrow> k
     | Some L \<Rightarrow> upd_tcb t (\<lambda>c. c\<lparr>event_container := None\<rparr>) (upd_list L (kl_remove t) k))"

lemma event_remove_removed: "event_container (tcb k t) \<noteq> None \<Longrightarrow> event_remove t k = Some (event_removed t k)"
  by (auto simp: event_remove_def event_removed_def)

lemma event_removed_tcb [simp]:
  "tcb (event_removed t k) = (tcb k)(t := (tcb k t)\<lparr>event_container := None\<rparr>)" "wake (event_removed t k) = wake k"
  "pxCurrentTCB (event_removed t k) = pxCurrentTCB k"
  "pxDelayedTaskList (event_removed t k) = pxDelayedTaskList k"
  "pxOverflowDelayedTaskList (event_removed t k) = pxOverflowDelayedTaskList k"
  "uxCurrentNumberOfTasks (event_removed t k) = uxCurrentNumberOfTasks k"
  "xTickCount (event_removed t k) = xTickCount k"
  "xSchedulerRunning (event_removed t k) = xSchedulerRunning k"
  "xPendedTicks (event_removed t k) = xPendedTicks k"
  "xYieldPending (event_removed t k) = xYieldPending k"
  "xNumOfOverflows (event_removed t k) = xNumOfOverflows k"
  "uxTaskNumber (event_removed t k) = uxTaskNumber k"
  "xNextTaskUnblockTime (event_removed t k) = xNextTaskUnblockTime k"
  "uxSchedulerSuspended (event_removed t k) = uxSchedulerSuspended k"
  "PENDSVSET (event_removed t k) = PENDSVSET k"
  "uxTopReadyPriority (event_removed t k) = uxTopReadyPriority k"
  by (cases "tcb k t"; auto simp: event_removed_def wake_def fun_eq_iff split: option.split)+

lemma event_removed_list: "event_container (tcb k t) \<noteq> Some L \<Longrightarrow> list_items L (event_removed t k) = list_items L k"
  by (auto simp: event_removed_def split: option.split)

lemma event_removed_wf:
  assumes wf: "kernel_wf X T k" and t: "t \<in> T"
  shows "kernel_wf X T (event_removed t k)"
proof -
  have ok: "lists_ok T k" "task_ok X k t" using wf t by (auto simp: kernel_wf_def)
  have lo: "lists_ok T (event_removed t k)"
    using ok t lists_ok_remove(2) [OF ok(1) t] by (auto simp: event_removed_def split: option.split)
  have "event_container (tcb k t) \<noteq> Some L" if "\<not> is_event_list L" for L
    using lists_ok_kind(2) [OF ok(1) t, of L] that by blast
  then have ws: "wake_sorted L (event_removed t k) = wake_sorted L k" if "\<not> is_event_list L" for L
    using that by (simp add: wake_sorted_def event_removed_list)
  have "task_ok X (event_removed t k) u" if "u \<in> T" for u
    using wf that by (auto simp: kernel_wf_def task_ok_def placed_def ready_def)
  then show ?thesis using wf lo ws [of DelayedTaskList1] ws [of DelayedTaskList2] by (simp add: kernel_wf_def is_event_list_def)
qed

text \<open>What a step that only moves tasks leaves alone.\<close>

definition same_rest :: "kernel \<Rightarrow> kernel \<Rightarrow> bool" where
  "same_rest k k' \<longleftrightarrow> pxCurrentTCB k' = pxCurrentTCB k \<and> pxDelayedTaskList k' = pxDelayedTaskList k \<and> pxOverflowDelayedTaskList k' = pxOverflowDelayedTaskList k \<and> uxCurrentNumberOfTasks k' = uxCurrentNumberOfTasks k \<and> xTickCount k' = xTickCount k \<and> xSchedulerRunning k' = xSchedulerRunning k \<and> xPendedTicks k' = xPendedTicks k \<and> xYieldPending k' = xYieldPending k \<and> xNumOfOverflows k' = xNumOfOverflows k \<and> uxTaskNumber k' = uxTaskNumber k \<and> uxSchedulerSuspended k' = uxSchedulerSuspended k \<and> PENDSVSET k' = PENDSVSET k"

lemma same_rest_refl [simp]: "same_rest k k" "same_rest k (k\<lparr>xNextTaskUnblockTime := x\<rparr>)"
  by (simp_all add: same_rest_def)

definition expired :: "kernel \<Rightarrow> u32 \<Rightarrow> u32 \<Rightarrow> bool" where
  "expired k now t \<longleftrightarrow> state_container (tcb k t) = Some (pxDelayedTaskList k) \<and> wake k t \<le> now"

definition woken :: "TCB_t \<Rightarrow> TCB_t" where
  "woken c = c\<lparr>state_container := Some (ReadyTasksLists (uxPriority c)), event_container := None\<rparr>"

lemma wf_next_field [simp]: "kernel_wf X T (k\<lparr>xNextTaskUnblockTime := x\<rparr>) = kernel_wf X T k"
  by (simp add: kernel_wf_def lists_ok_def linked_def task_ok_def placed_def ready_def wake_sorted_def wake_def cong: map_cong)

lemma unblock_step_wf:
  assumes wf: "kernel_wf {} T k" and t: "t \<in> T" and k1: "k1 = prvAddTaskToReadyList t (event_removed t (removed t k))"
  shows "kernel_wf {} T k1" "tcb k1 = (tcb k)(t := woken (tcb k t))" "same_rest k k1" "wake k1 = wake k"
    "xNextTaskUnblockTime k1 = xNextTaskUnblockTime k" "list_items DelayedTaskList1 k1 = filter (\<lambda>u. u \<noteq> t) (list_items DelayedTaskList1 k)"
    "list_items DelayedTaskList2 k1 = filter (\<lambda>u. u \<noteq> t) (list_items DelayedTaskList2 k)"
proof -
  have "kernel_wf {t} T (removed t k)" using removed_wf(2) [OF wf t] by simp
  then have "kernel_wf {t} T (event_removed t (removed t k))" using t by (rule event_removed_wf)
  from add_ready_wf [OF this, of t] show wf1: "kernel_wf {} T k1" by (simp add: k1)
  show "tcb k1 = (tcb k)(t := woken (tcb k t))" by (cases "tcb k t") (simp add: k1 woken_def)
  show "same_rest k k1" "wake k1 = wake k" "xNextTaskUnblockTime k1 = xNextTaskUnblockTime k" by (simp_all add: k1 same_rest_def)
  have lo: "lists_ok T k" "task_ok {} k t" using wf t by (auto simp: kernel_wf_def)
  have ev: "event_container (tcb k t) \<noteq> Some L" if "\<not> is_event_list L" for L using lists_ok_kind(2) [OF lo(1) t, of L] that by blast
  have "list_items L k1 = filter (\<lambda>u. u \<noteq> t) (list_items L k)" if L: "L \<in> {DelayedTaskList1, DelayedTaskList2}" for L
  proof -
    have "\<not> is_event_list L" "\<And>p. L \<noteq> ReadyTasksLists p" using L by (auto simp: is_event_list_def)
    then have "list_items L k1 = list_items L (removed t k)" using ev [of L] by (simp add: k1 event_removed_list)
    moreover obtain M where M: "state_container (tcb k t) = Some M" using lo(2) by (auto simp: task_ok_def placed_def ready_def)
    moreover have "t \<notin> set (list_items L k)" if "L \<noteq> M"
      using lists_ok_mem(1) [OF lo(1) \<open>\<not> is_event_list L\<close>, of t] M that by auto
    ultimately show ?thesis by (auto simp: removed_def list_items_def intro!: filter_True [symmetric])
  qed
  then show "list_items DelayedTaskList1 k1 = filter (\<lambda>u. u \<noteq> t) (list_items DelayedTaskList1 k)"
    "list_items DelayedTaskList2 k1 = filter (\<lambda>u. u \<noteq> t) (list_items DelayedTaskList2 k)" by simp_all
qed


lemma event_removed_none: "event_container (tcb k t) = None \<Longrightarrow> event_removed t k = k"
  by (simp add: event_removed_def)

lemma woken_simps [simp]:
  "uxPriority (woken c) = uxPriority c" "state_container (woken c) = Some (ReadyTasksLists (uxPriority c))"
  "state_value (woken c) = state_value c" "event_container (woken c) = None" "ucNotifyState (woken c) = ucNotifyState c"
  by (simp_all add: woken_def)

text \<open>The current delayed list of a well-formed kernel.\<close>

lemma delayed_list:
  assumes "kernel_wf {} T k"
  shows "t \<in> set (list_items (pxDelayedTaskList k) k) \<longleftrightarrow> t \<in> T \<and> state_container (tcb k t) = Some (pxDelayedTaskList k)"
    "wake_sorted (pxDelayedTaskList k) k" "pxDelayedTaskList k \<noteq> ReadyTasksLists p"
  using assms lists_ok_mem(1) [of T k "pxDelayedTaskList k" t] by (auto simp: kernel_wf_def is_event_list_def)

lemma expired_none: "list_items (pxDelayedTaskList k) k = [] \<Longrightarrow> kernel_wf {} T k \<Longrightarrow> t \<in> T \<Longrightarrow> \<not> expired k now t"
  using delayed_list(1) [of T k t] by (simp add: expired_def)

definition unblocked :: "u32 set \<Rightarrow> u32 \<Rightarrow> kernel \<Rightarrow> kernel \<Rightarrow> bool" where
  "unblocked T now k k' \<longleftrightarrow> kernel_wf {} T k' \<and> same_rest k k' \<and>
     (\<forall>t. tcb k' t = (if t \<in> T \<and> expired k now t then woken (tcb k t) else tcb k t)) \<and>
     (\<forall>t \<in> T. state_container (tcb k' t) = Some (pxDelayedTaskList k) \<longrightarrow> now < wake k t \<and> xNextTaskUnblockTime k' \<le> wake k t)"

lemma unblocked_wake: "unblocked T now k k' \<Longrightarrow> wake k' = wake k"
  by (auto simp: unblocked_def wake_def fun_eq_iff)

lemma unblock_expired_ok:
  "kernel_wf {} T k \<Longrightarrow> \<exists>k'. unblock_expired now sw k =
     Some (sw \<or> (\<exists>t \<in> T. expired k now t \<and> uxPriority (tcb k (pxCurrentTCB k)) \<le> uxPriority (tcb k t)), k') \<and> unblocked T now k k'"
proof (induction "length (list_items (pxDelayedTaskList k) k)" arbitrary: k sw rule: less_induct)
  case less
  note wf = less.prems
  show ?case
  proof (cases "list_items (pxDelayedTaskList k) k")
    case Nil
    then show ?thesis using wf expired_none [OF Nil wf] delayed_list(1) [OF wf]
      by (subst unblock_expired.simps) (auto simp: unblocked_def)
  next
    case (Cons t ts)
    have mem: "u \<in> set (t # ts) \<longleftrightarrow> u \<in> T \<and> state_container (tcb k u) = Some (pxDelayedTaskList k)" for u
      using delayed_list(1) [OF wf, of u] Cons by simp
    have least: "wake k t \<le> wake k u" if "u \<in> set (t # ts)" for u using delayed_list(2) [OF wf] Cons that by (auto simp: wake_sorted_def)
    have tT: "t \<in> T" using mem [of t] by simp
    show ?thesis
    proof (cases "now < wake k t")
      case True
      then have "\<not> expired k now u" if "u \<in> T" for u using least [of u] mem [of u] that by (fastforce simp: expired_def)
      then show ?thesis using True wf Cons least mem
        by (subst unblock_expired.simps) (fastforce simp: unblocked_def wake_def [symmetric])
    next
      case False
      define k1 where "k1 = prvAddTaskToReadyList t (event_removed t (removed t k))"
      note st = unblock_step_wf [OF wf tT k1_def]
      let ?sw = "if uxPriority (tcb k t) \<ge> uxPriority (tcb k (pxCurrentTCB k)) then True else sw"
      have D: "pxDelayedTaskList k1 = pxDelayedTaskList k" "pxCurrentTCB k1 = pxCurrentTCB k" using st(3) by (simp_all add: same_rest_def)
      have "list_items (pxDelayedTaskList k) k1 = filter (\<lambda>u. u \<noteq> t) (t # ts)" using st(6,7) wf Cons by (auto simp: kernel_wf_def)
      then have "length (list_items (pxDelayedTaskList k1) k1) < length (list_items (pxDelayedTaskList k) k)"
        using length_filter_le [of "\<lambda>u. u \<noteq> t" ts] by (simp add: D Cons less_Suc_eq_le)
      from less.hyps [OF this st(1), of ?sw] obtain k' where
        k': "unblock_expired now ?sw k1 = Some (?sw \<or> (\<exists>u \<in> T. expired k1 now u \<and> uxPriority (tcb k1 (pxCurrentTCB k1)) \<le> uxPriority (tcb k1 u)), k')"
          "unblocked T now k1 k'" by blast
      have ex: "expired k1 now u \<longleftrightarrow> expired k now u \<and> u \<noteq> t" for u
        using delayed_list(3) [OF wf] not_sym [OF delayed_list(3) [OF wf]] by (auto simp: expired_def D st(2,4))
      have ext: "expired k now t" using False mem [of t] by (simp add: expired_def)
      have "unblock_expired now sw k = unblock_expired now ?sw k1"
        using False removed_wf(1) [OF wf tT] event_remove_removed [of "removed t k" t]
        by (subst unblock_expired.simps, cases "event_container (tcb k t)") (simp_all add: Cons wake_def k1_def event_removed_none)
      moreover have "(?sw \<or> (\<exists>u \<in> T. expired k1 now u \<and> uxPriority (tcb k1 (pxCurrentTCB k1)) \<le> uxPriority (tcb k1 u))) \<longleftrightarrow>
        (sw \<or> (\<exists>u \<in> T. expired k now u \<and> uxPriority (tcb k (pxCurrentTCB k)) \<le> uxPriority (tcb k u)))"
        using ext tT by (auto simp: ex st(2) D)
      moreover have "unblocked T now k k'" using k'(2) st(3,4) ext tT by (auto simp: unblocked_def same_rest_def ex D st(2))
      ultimately show ?thesis using k'(1) by auto
    qed
  qed
qed

end
