(* ===== verification/KernelMem.thy ===== *)
theory KernelMem
  imports KernelInv
begin

text \<open>
  The scheduler's lists in memory: a task's two list items lie at fixed offsets in its TCB, the lists are static objects, and
  the operations of \<^verbatim>\<open>list.c\<close> on them are the operations of the scheduler's model.
\<close>

subsection \<open>Renaming the items of a sequence\<close>

definition kl_map :: "('a \<Rightarrow> 'b) \<Rightarrow> 'a klist \<Rightarrow> 'b klist" where
  "kl_map f l = \<lparr>kl_items = map f (kl_items l), kl_index = map_option f (kl_index l)\<rparr>"

lemma kl_map_simps [simp]: "kl_items (kl_map f l) = map f (kl_items l)" "kl_index (kl_map f l) = map_option f (kl_index l)"
  by (simp_all add: kl_map_def)

lemma inj_neq: "inj f \<Longrightarrow> (\<lambda>y. y \<noteq> f i) \<circ> f = (\<lambda>y. y \<noteq> i)"
  by (auto simp: fun_eq_iff inj_eq)

lemma kl_map_insert_end: "inj f \<Longrightarrow> kl_insert_end (f x) (kl_map f l) = kl_map f (kl_insert_end x l)"
  by (simp add: kl_insert_end_def kl_map_def takeWhile_map dropWhile_map inj_neq split: option.split)

lemma takeWhile_dropWhile_cong:
  "(\<And>y. y \<in> set xs \<Longrightarrow> P y = Q y) \<Longrightarrow> takeWhile P xs = takeWhile Q xs \<and> dropWhile P xs = dropWhile Q xs"
  by (induction xs) auto

lemma kl_map_insert:
  assumes "\<And>y. y \<in> insert x (set (kl_items l)) \<Longrightarrow> v (f y) = w y"
  shows "kl_insert v (f x) (kl_map f l) = kl_map f (kl_insert w x l)"
  using takeWhile_dropWhile_cong [of "kl_items l" "(\<lambda>y. v y \<le> v (f x)) \<circ> f" "\<lambda>y. w y \<le> w x"] assms
  by (simp add: kl_insert_def kl_map_def takeWhile_map dropWhile_map)

lemma kl_map_remove: "inj f \<Longrightarrow> kl_remove (f x) (kl_map f l) = kl_map f (kl_remove x l)"
proof -
  assume i: "inj f"
  have "before_in (f x) (map f xs) = map_option f (before_in x xs)" for xs
    by (auto simp: before_in_def takeWhile_map inj_neq [OF i] last_map split: list.split)
  then show ?thesis using inj_neq [OF i] i
    by (auto simp: kl_remove_def kl_map_def filter_map comp_def inj_eq)
qed

lemma kl_map_next:
  assumes "inj f" "kl_items l \<noteq> []"
  shows "kl_next (kl_map f l) = f (kl_next l)" "kl_advance (kl_map f l) = kl_map f (kl_advance l)"
proof -
  show "kl_next (kl_map f l) = f (kl_next l)" using assms
    by (auto simp: kl_next_def dropWhile_map inj_neq hd_map map_tl [symmetric] split: option.split list.split)
  then show "kl_advance (kl_map f l) = kl_map f (kl_advance l)" by (simp add: kl_advance_def kl_map_def)
qed

subsection \<open>Tasks in memory\<close>

text \<open>The items of the TCB at \<open>t\<close>: \<^verbatim>\<open>xEventListItem\<close> (\<open>b\<close>) and \<^verbatim>\<open>xStateListItem\<close>, of 20 bytes each, after the stack pointer.\<close>

definition task_item :: "bool \<Rightarrow> u32 \<Rightarrow> u32" where
  "task_item b t = (if b then t + 24 else t + 4)"

definition item_container :: "bool \<Rightarrow> TCB_t \<Rightarrow> klist_id option" where
  "item_container b c = (if b then event_container c else state_container c)"

definition item_value :: "bool \<Rightarrow> TCB_t \<Rightarrow> u32" where
  "item_value b c = (if b then event_value c else state_value c)"

definition set_container :: "bool \<Rightarrow> klist_id option \<Rightarrow> TCB_t \<Rightarrow> TCB_t" where
  "set_container b x c = (if b then c\<lparr>event_container := x\<rparr> else c\<lparr>state_container := x\<rparr>)"

lemma task_item_inj: "inj (task_item b)"
  by (auto simp: inj_def task_item_def)

lemma item_simps [simp]:
  "item_container b (set_container b x c) = x" "b \<noteq> b' \<Longrightarrow> item_container b' (set_container b x c) = item_container b' c"
  "item_value b' (set_container b x c) = item_value b' c"
  by (auto simp: item_container_def item_value_def set_container_def)

text \<open>Where things lie: the lists are distinct, and no item is part of a list's marker or of another item.\<close>

definition layout :: "(klist_id \<Rightarrow> u32) \<Rightarrow> klist_id set \<Rightarrow> u32 set \<Rightarrow> bool" where
  "layout addr K T \<longleftrightarrow> inj_on addr K \<and> (\<forall>L \<in> K. addr L \<noteq> 0) \<and> (\<forall>L \<in> K. \<forall>t \<in> T. \<forall>b. task_item b t \<noteq> xListEnd (addr L)) \<and>
     (\<forall>t \<in> T. \<forall>u \<in> T. task_item True t \<noteq> task_item False u)"

definition kernel_rep :: "(klist_id \<Rightarrow> u32) \<Rightarrow> klist_id set \<Rightarrow> u32 set \<Rightarrow> list_mem \<Rightarrow> kernel \<Rightarrow> bool" where
  "kernel_rep addr K T m k \<longleftrightarrow>
     (\<exists>A. lists_rep m (addr ` K) A \<and> (\<forall>L \<in> K. A (addr L) = kl_map (task_item (is_event_list L)) (klists k L))) \<and>
     (\<forall>t \<in> T. \<forall>b. pvOwner (item_at m (task_item b t)) = t \<and> xItemValue (item_at m (task_item b t)) = item_value b (tcb k t) \<and>
        pxContainer (item_at m (task_item b t)) = (case item_container b (tcb k t) of None \<Rightarrow> 0 | Some L \<Rightarrow> addr L) \<and>
        (\<forall>L. item_container b (tcb k t) = Some L \<longrightarrow> L \<in> K))"

lemma task_item_eq:
  assumes "layout addr K T" "t \<in> T" "u \<in> T"
  shows "task_item b t = task_item b' u \<longleftrightarrow> b = b' \<and> t = u"
proof -
  have "task_item True t \<noteq> task_item False u" "task_item True u \<noteq> task_item False t" using assms by (auto simp: layout_def)
  then show ?thesis using inj_eq [OF task_item_inj, of b t u] by (cases b; cases b') (auto dest: sym)
qed

lemma lists_ok_items: "lists_ok T k \<Longrightarrow> u \<in> set (kl_items (klists k L)) \<longleftrightarrow> u \<in> T \<and> item_container (is_event_list L) (tcb k u) = Some L"
  using lists_ok_mem(1,2) [of T k L u] by (auto simp: list_items_def item_container_def)

text \<open>An item on no list is outside every ring.\<close>

lemma outside_rings:
  assumes la: "layout addr K T" and ok: "lists_ok T k" and t: "t \<in> T" "item_container b (tcb k t) = None"
    and A: "\<forall>L \<in> K. A (addr L) = kl_map (task_item (is_event_list L)) (klists k L)"
  shows "\<forall>q \<in> addr ` K. task_item b t \<notin> ring_items q (A q)"
proof safe
  fix L assume L: "L \<in> K" and r: "task_item b t \<in> ring_items (addr L) (A (addr L))"
  have "task_item b t \<noteq> xListEnd (addr L)" using la L t(1) by (auto simp: layout_def)
  then obtain u where u: "u \<in> set (kl_items (klists k L))" "task_item b t = task_item (is_event_list L) u"
    using r A L by (auto simp: ring_items_def)
  have "u \<in> T" "item_container (is_event_list L) (tcb k u) = Some L" using lists_ok_items [OF ok] u(1) by auto
  then show False using u(2) task_item_eq [OF la t(1), of u b "is_event_list L"] t(2) by auto
qed

lemma container_ops [simp]:
  "pxContainer (item_at (vListInsertEnd p n m) y) = (if y = n then p else pxContainer (item_at m y))"
  "pxContainer (item_at (link_after p n a m) y) = (if y = n then p else pxContainer (item_at m y))"
  "pxContainer (item_at (snd (uxListRemove x m)) y) = (if y = x then 0 else pxContainer (item_at m y))"
  by (simp_all add: vListInsertEnd_def link_after_def uxListRemove_def Let_def)

text \<open>The representation after one list changed.\<close>

lemma rep_update:
  assumes la: "layout addr K T" and L: "L \<in> K" and t: "t \<in> T" and rep: "kernel_rep addr K T m k"
    and A: "lists_rep m' (addr ` K) (A(addr L := kl_map (task_item (is_event_list L)) (f (klists k L))))"
      "\<forall>L \<in> K. A (addr L) = kl_map (task_item (is_event_list L)) (klists k L)"
    and m': "\<And>y. pvOwner (item_at m' y) = pvOwner (item_at m y)" "\<And>y. xItemValue (item_at m' y) = xItemValue (item_at m y)"
      "\<And>y. pxContainer (item_at m' y) = (if y = task_item (is_event_list L) t then (case x of None \<Rightarrow> 0 | Some M \<Rightarrow> addr M) else pxContainer (item_at m y))"
    and x: "\<And>M. x = Some M \<Longrightarrow> M \<in> K"
  shows "kernel_rep addr K T m' (upd_tcb t (set_container (is_event_list L) x) (upd_list L f k))"
proof -
  let ?k = "upd_tcb t (set_container (is_event_list L) x) (upd_list L f k)"
  have "(A(addr L := kl_map (task_item (is_event_list L)) (f (klists k L)))) (addr M) = kl_map (task_item (is_event_list M)) (klists ?k M)"
    if "M \<in> K" for M
    using A(2) that L la by (auto simp: layout_def inj_on_def)
  moreover have "pvOwner (item_at m' (task_item b u)) = u \<and> xItemValue (item_at m' (task_item b u)) = item_value b (tcb ?k u) \<and>
      pxContainer (item_at m' (task_item b u)) = (case item_container b (tcb ?k u) of None \<Rightarrow> 0 | Some L \<Rightarrow> addr L) \<and>
      (\<forall>L. item_container b (tcb ?k u) = Some L \<longrightarrow> L \<in> K)" if u: "u \<in> T" for u b
  proof -
    have r: "pvOwner (item_at m (task_item b u)) = u" "xItemValue (item_at m (task_item b u)) = item_value b (tcb k u)"
      "pxContainer (item_at m (task_item b u)) = (case item_container b (tcb k u) of None \<Rightarrow> 0 | Some L \<Rightarrow> addr L)"
      "\<forall>L. item_container b (tcb k u) = Some L \<longrightarrow> L \<in> K" using rep u by (auto simp: kernel_rep_def)
    show ?thesis
    proof (cases "u = t \<and> b = is_event_list L")
      case True
      then show ?thesis using r x by (auto simp: m')
    next
      case False
      then have ne: "task_item b u \<noteq> task_item (is_event_list L) t" using task_item_eq [OF la u t] by blast
      have "item_container b (tcb ?k u) = item_container b (tcb k u)" "item_value b (tcb ?k u) = item_value b (tcb k u)"
        using False by (cases "u = t"; simp)+
      then show ?thesis using r ne by (simp add: m')
    qed
  qed
  ultimately show ?thesis using A(1) unfolding kernel_rep_def by blast
qed


lemma repE:
  assumes "kernel_rep addr K T m k"
  obtains A where "lists_rep m (addr ` K) A" "\<forall>L \<in> K. A (addr L) = kl_map (task_item (is_event_list L)) (klists k L)"
  using assms by (auto simp: kernel_rep_def)

lemma rep_task:
  "kernel_rep addr K T m k \<Longrightarrow> t \<in> T \<Longrightarrow> pvOwner (item_at m (task_item b t)) = t \<and>
    xItemValue (item_at m (task_item b t)) = item_value b (tcb k t) \<and>
    pxContainer (item_at m (task_item b t)) = (case item_container b (tcb k t) of None \<Rightarrow> 0 | Some L \<Rightarrow> addr L) \<and>
    (\<forall>L. item_container b (tcb k t) = Some L \<longrightarrow> L \<in> K)"
  by (auto simp: kernel_rep_def)

lemma mem_insert_end:
  assumes la: "layout addr K T" and rep: "kernel_rep addr K T m k" and ok: "lists_ok T k" and t: "t \<in> T" and L: "L \<in> K"
    and free: "item_container (is_event_list L) (tcb k t) = None"
  shows "kernel_rep addr K T (vListInsertEnd (addr L) (task_item (is_event_list L) t) m)
    (upd_tcb t (set_container (is_event_list L) (Some L)) (upd_list L (kl_insert_end t) k))"
proof -
  obtain A where A: "lists_rep m (addr ` K) A" "\<forall>L \<in> K. A (addr L) = kl_map (task_item (is_event_list L)) (klists k L)"
    using repE [OF rep] .
  have p: "addr L \<in> addr ` K" using L by blast
  have "lists_rep (vListInsertEnd (addr L) (task_item (is_event_list L) t) m) (addr ` K)
      (A(addr L := kl_map (task_item (is_event_list L)) (kl_insert_end t (klists k L))))"
    using lists_insert_end [OF A(1) p outside_rings [OF la ok t free A(2)]] A(2) L by (simp add: kl_map_insert_end task_item_inj)
  then show ?thesis by (rule rep_update [OF la L t rep _ A(2), where x = "Some L"]) (auto simp: L)
qed

lemma mem_insert:
  assumes la: "layout addr K T" and rep: "kernel_rep addr K T m k" and ok: "lists_ok T k" and t: "t \<in> T" and L: "L \<in> K"
    and free: "item_container (is_event_list L) (tcb k t) = None"
  shows "\<exists>m'. vListInsert (addr L) (task_item (is_event_list L) t) m = Some m' \<and>
    kernel_rep addr K T m' (upd_tcb t (set_container (is_event_list L) (Some L))
      (upd_list L (kl_insert (\<lambda>x. item_value (is_event_list L) (tcb k x)) t) k))"
proof -
  obtain A where A: "lists_rep m (addr ` K) A" "\<forall>L \<in> K. A (addr L) = kl_map (task_item (is_event_list L)) (klists k L)"
    using repE [OF rep] .
  have p: "addr L \<in> addr ` K" using L by blast
  let ?f = "task_item (is_event_list L)"
  obtain m' where m': "vListInsert (addr L) (?f t) m = Some m'"
    "lists_rep m' (addr ` K) (A(addr L := kl_insert (\<lambda>x. xItemValue (item_at m x)) (?f t) (A (addr L))))"
    using lists_insert [OF A(1) p outside_rings [OF la ok t free A(2)]] by blast
  have "kl_insert (\<lambda>x. xItemValue (item_at m x)) (?f t) (kl_map ?f (klists k L)) =
      kl_map ?f (kl_insert (\<lambda>x. item_value (is_event_list L) (tcb k x)) t (klists k L))"
    using rep_task [OF rep] t lists_ok_items [OF ok] by (intro kl_map_insert) auto
  then have l: "lists_rep m' (addr ` K) (A(addr L := kl_map ?f (kl_insert (\<lambda>x. item_value (is_event_list L) (tcb k x)) t (klists k L))))"
    using m'(2) A(2) L by simp
  have "list_rep m (addr L) (A (addr L))" using A(1) p unfolding lists_rep_def by blast
  then obtain a where "m' = link_after (addr L) (?f t) a m" using link_after_insert [OF m'(1)] by blast
  then have "kernel_rep addr K T m' (upd_tcb t (set_container (is_event_list L) (Some L))
      (upd_list L (kl_insert (\<lambda>x. item_value (is_event_list L) (tcb k x)) t) k))"
    by (intro rep_update [where f = "kl_insert (\<lambda>x. item_value (is_event_list L) (tcb k x)) t" and x = "Some L", OF la L t rep l A(2)]) (auto simp: L)
  then show ?thesis using m'(1) by blast
qed

lemma mem_remove:
  assumes la: "layout addr K T" and rep: "kernel_rep addr K T m k" and ok: "lists_ok T k" and t: "t \<in> T"
    and on: "item_container (is_event_list L) (tcb k t) = Some L"
  shows "fst (uxListRemove (task_item (is_event_list L) t) m) = of_nat (length (list_items L k) - 1)"
    "kernel_rep addr K T (snd (uxListRemove (task_item (is_event_list L) t) m))
      (upd_tcb t (set_container (is_event_list L) None) (upd_list L (kl_remove t) k))"
proof -
  obtain A where A: "lists_rep m (addr ` K) A" "\<forall>L \<in> K. A (addr L) = kl_map (task_item (is_event_list L)) (klists k L)"
    using repE [OF rep] .
  have L: "L \<in> K" using rep_task [OF rep t] on by blast
  then have p: "addr L \<in> addr ` K" by blast
  let ?f = "task_item (is_event_list L)"
  have "?f t \<in> set (kl_items (A (addr L)))" using lists_ok_items [OF ok, of t L] t on A(2) L by simp
  note r = lists_remove [OF A(1) p this]
  show "fst (uxListRemove (?f t) m) = of_nat (length (list_items L k) - 1)" using r A(2) L by (simp add: list_items_def)
  have "lists_rep (snd (uxListRemove (?f t) m)) (addr ` K) (A(addr L := kl_map ?f (kl_remove t (klists k L))))"
    using r A(2) L by (simp add: kl_map_remove task_item_inj)
  then show "kernel_rep addr K T (snd (uxListRemove (?f t) m)) (upd_tcb t (set_container (is_event_list L) None) (upd_list L (kl_remove t) k))"
    by (rule rep_update [OF la L t rep _ A(2), where x = None]) auto
qed


lemma mem_read:
  assumes la: "layout addr K T" and rep: "kernel_rep addr K T m k" and ok: "lists_ok T k" and L: "L \<in> K"
  shows "listLIST_IS_EMPTY (addr L) m \<longleftrightarrow> list_items L k = []"
    "list_items L k \<noteq> [] \<Longrightarrow> listGET_OWNER_OF_HEAD_ENTRY (addr L) m = hd (list_items L k)"
    "list_items L k \<noteq> [] \<Longrightarrow> fst (listGET_OWNER_OF_NEXT_ENTRY (addr L) m) = kl_next (klists k L)"
    "list_items L k \<noteq> [] \<Longrightarrow> kernel_rep addr K T (snd (listGET_OWNER_OF_NEXT_ENTRY (addr L) m)) (upd_list L kl_advance k)"
proof -
  obtain A where A: "lists_rep m (addr ` K) A" "\<forall>L \<in> K. A (addr L) = kl_map (task_item (is_event_list L)) (klists k L)"
    using repE [OF rep] .
  let ?f = "task_item (is_event_list L)"
  have p: "addr L \<in> addr ` K" using L by blast
  then have r: "list_rep m (addr L) (kl_map ?f (klists k L))" using A L unfolding lists_rep_def by metis
  have own: "pvOwner (item_at m (?f u)) = u" if "u \<in> set (kl_items (klists k L))" for u
    using rep_task [OF rep] lists_ok_items [OF ok] that by blast
  show "listLIST_IS_EMPTY (addr L) m \<longleftrightarrow> list_items L k = []" using list_rep_empty [OF r] by (simp add: list_items_def)
  assume ne: "list_items L k \<noteq> []"
  then have ne': "kl_items (klists k L) \<noteq> []" "kl_items (A (addr L)) \<noteq> []" using A(2) L by (simp_all add: list_items_def)
  have okL: "kl_ok (klists k L)" using lists_ok_mem(3) [OF ok] .
  show "listGET_OWNER_OF_HEAD_ENTRY (addr L) m = hd (list_items L k)"
    using list_rep_head [OF r] ne' own [of "hd (kl_items (klists k L))"] by (simp add: list_items_def hd_map)
  note n = lists_next [OF A(1) p ne'(2)]
  show "fst (listGET_OWNER_OF_NEXT_ENTRY (addr L) m) = kl_next (klists k L)"
    using n A(2) L own [OF kl_next_in [OF okL ne'(1)]] by (simp add: kl_map_next [OF task_item_inj ne'(1)])
  let ?m = "snd (listGET_OWNER_OF_NEXT_ENTRY (addr L) m)"
  have l: "lists_rep ?m (addr ` K) (A(addr L := kl_map ?f (kl_advance (klists k L))))"
    using n A(2) L by (simp add: kl_map_next [OF task_item_inj ne'(1)])
  have "(A(addr L := kl_map ?f (kl_advance (klists k L)))) (addr M) = kl_map (task_item (is_event_list M)) (klists (upd_list L kl_advance k) M)"
    if "M \<in> K" for M using A(2) that L la by (auto simp: layout_def inj_on_def)
  then have ex: "\<exists>B. lists_rep ?m (addr ` K) B \<and> (\<forall>M \<in> K. B (addr M) = kl_map (task_item (is_event_list M)) (klists (upd_list L kl_advance k) M))"
    by (intro exI conjI) (rule l, blast)
  have it: "item_at ?m = item_at m" "tcb (upd_list L kl_advance k) = tcb k" by (simp_all add: listGET_OWNER_OF_NEXT_ENTRY_def Let_def)
  show "kernel_rep addr K T ?m (upd_list L kl_advance k)" using ex rep unfolding kernel_rep_def it by (elim conjE) (rule conjI)
qed

lemma container_update:
  "set_container False x = (\<lambda>c. c\<lparr>state_container := x\<rparr>)" "set_container True x = (\<lambda>c. c\<lparr>event_container := x\<rparr>)"
  by (simp_all add: set_container_def fun_eq_iff)

text \<open>C28: the scheduler's lists are the lists in memory. As long as the lists and the tasks' list items are laid out apart, each
  list operation of the scheduler on a task's state item or event item is the call of \<^verbatim>\<open>list.c\<close> on that item's address: inserting
  (the sorted insertion returns), removing, reading the head, walking to the next owner, and the empty test. So what is shown of
  the scheduler on sequences holds for the linked lists.\<close>

theorem scheduler_lists_in_memory:
  assumes "layout addr K T" "kernel_rep addr K T m k" "lists_ok T k" "t \<in> T" "L \<in> K"
  shows "(\<not> is_event_list L \<and> state_container (tcb k t) = None \<longrightarrow>
       kernel_rep addr K T (vListInsertEnd (addr L) (t + 4) m) (state_insert_end L t k) \<and>
       (\<exists>m'. vListInsert (addr L) (t + 4) m = Some m' \<and> kernel_rep addr K T m' (state_insert L t k))) \<and>
    (is_event_list L \<and> event_container (tcb k t) = None \<longrightarrow>
       kernel_rep addr K T (vListInsertEnd (addr L) (t + 24) m) (event_insert_end L t k) \<and>
       (\<exists>m'. vListInsert (addr L) (t + 24) m = Some m' \<and> kernel_rep addr K T m' (event_insert L t k))) \<and>
    (\<forall>k'. state_remove t k = Some k' \<longrightarrow> kernel_rep addr K T (snd (uxListRemove (t + 4) m)) k') \<and>
    (\<forall>k'. event_remove t k = Some k' \<longrightarrow> kernel_rep addr K T (snd (uxListRemove (t + 24) m)) k') \<and>
    (listLIST_IS_EMPTY (addr L) m \<longleftrightarrow> list_items L k = []) \<and>
    (list_items L k \<noteq> [] \<longrightarrow> listGET_OWNER_OF_HEAD_ENTRY (addr L) m = hd (list_items L k) \<and>
       fst (listGET_OWNER_OF_NEXT_ENTRY (addr L) m) = kl_next (klists k L) \<and>
       kernel_rep addr K T (snd (listGET_OWNER_OF_NEXT_ENTRY (addr L) m)) (upd_list L kl_advance k))"
proof -
  note ins = mem_insert_end [OF assms] mem_insert [OF assms]
  have s: "\<not> is_event_list L \<and> state_container (tcb k t) = None \<longrightarrow>
       kernel_rep addr K T (vListInsertEnd (addr L) (t + 4) m) (state_insert_end L t k) \<and>
       (\<exists>m'. vListInsert (addr L) (t + 4) m = Some m' \<and> kernel_rep addr K T m' (state_insert L t k))"
    using ins by (cases "is_event_list L") (simp_all add: item_container_def task_item_def container_update state_insert_end_def state_insert_def item_value_def)
  have e: "is_event_list L \<and> event_container (tcb k t) = None \<longrightarrow>
       kernel_rep addr K T (vListInsertEnd (addr L) (t + 24) m) (event_insert_end L t k) \<and>
       (\<exists>m'. vListInsert (addr L) (t + 24) m = Some m' \<and> kernel_rep addr K T m' (event_insert L t k))"
    using ins by (cases "is_event_list L") (simp_all add: item_container_def task_item_def container_update event_insert_end_def event_insert_def item_value_def)
  have sr: "kernel_rep addr K T (snd (uxListRemove (t + 4) m)) k'" if k': "state_remove t k = Some k'" for k'
  proof -
    obtain M where M: "state_container (tcb k t) = Some M" using k' by (auto simp: state_remove_def split: option.splits)
    have "\<not> is_event_list M" using lists_ok_kind(1) [OF assms(3,4) M] .
    then show ?thesis using mem_remove(2) [OF assms(1-4), of M] k' M
      by (simp add: state_remove_def item_container_def task_item_def container_update)
  qed
  have er: "kernel_rep addr K T (snd (uxListRemove (t + 24) m)) k'" if k': "event_remove t k = Some k'" for k'
  proof -
    obtain M where M: "event_container (tcb k t) = Some M" using k' by (auto simp: event_remove_def split: option.splits)
    have "is_event_list M" using lists_ok_kind(2) [OF assms(3,4) M] .
    then show ?thesis using mem_remove(2) [OF assms(1-4), of M] k' M
      by (simp add: event_remove_def item_container_def task_item_def container_update)
  qed
  show ?thesis using s e sr er mem_read [OF assms(1-3,5)] by blast
qed


text \<open>A task on its ready list, beside an event list.\<close>

definition two_addr :: "klist_id \<Rightarrow> u32" where
  "two_addr L = (if L = EventList 7 then 0x150 else 0x100)"

definition ready_mem :: list_mem where
  "ready_mem = vListInsertEnd 0x100 0x204 (vListInitialise 0x150 (vListInitialise 0x100
     \<lparr>item_at = \<lambda>_. \<lparr>xItemValue = 0, pxNext = 0, pxPrevious = 0, pvOwner = 0x200, pxContainer = 0\<rparr>,
      list_at = \<lambda>_. \<lparr>uxNumberOfItems = 0, pxIndex = 0\<rparr>\<rparr>))"

definition ready_kernel :: kernel where
  "ready_kernel = \<lparr>tcb = \<lambda>_. \<lparr>uxPriority = 5, state_value = 0, state_container = Some (ReadyTasksLists 5), event_value = 0,
       event_container = None, ulNotifiedValue = 0, ucNotifyState = 0\<rparr>,
     klists = (\<lambda>_. kl_empty)(ReadyTasksLists 5 := \<lparr>kl_items = [0x200], kl_index = None\<rparr>), pxCurrentTCB = 0x200,
     pxDelayedTaskList = DelayedTaskList1, pxOverflowDelayedTaskList = DelayedTaskList2, uxCurrentNumberOfTasks = 1, xTickCount = 0,
     uxTopReadyPriority = 5, xSchedulerRunning = False, xPendedTicks = 0, xYieldPending = False, xNumOfOverflows = 0,
     uxTaskNumber = 1, xNextTaskUnblockTime = 0, uxSchedulerSuspended = 0, PENDSVSET = False\<rparr>"

lemma ready_layout: "layout two_addr {ReadyTasksLists 5, EventList 7} {0x200}"
  by (simp add: layout_def two_addr_def task_item_def xListEnd_def)

lemma ready_lists_ok: "lists_ok {0x200} ready_kernel"
  by (auto simp: lists_ok_def linked_def ready_kernel_def list_items_def kl_ok_def kl_empty_def is_event_list_def)

lemma ready_rep: "kernel_rep two_addr {ReadyTasksLists 5, EventList 7} {0x200} ready_mem ready_kernel"
proof -
  let ?A = "(\<lambda>_. kl_empty)(0x100 := \<lparr>kl_items = [0x204], kl_index = None\<rparr>)"
  have "lists_rep ready_mem {0x100, 0x150} ?A"
    by (simp add: lists_rep_def list_rep_def ring_def ring_items_def kl_empty_def ready_mem_def vListInsertEnd_def vListInitialise_def
        Let_def xListEnd_def)
  moreover have "two_addr ` {ReadyTasksLists 5, EventList 7} = {0x100, 0x150}" by (auto simp: two_addr_def)
  moreover have "\<forall>L \<in> {ReadyTasksLists 5, EventList 7}. ?A (two_addr L) = kl_map (task_item (is_event_list L)) (klists ready_kernel L)"
    by (simp add: two_addr_def ready_kernel_def kl_map_def kl_empty_def is_event_list_def task_item_def)
  moreover have "pvOwner (item_at ready_mem (task_item b 0x200)) = 0x200 \<and> xItemValue (item_at ready_mem (task_item b 0x200)) = 0 \<and>
      pxContainer (item_at ready_mem (task_item b 0x200)) = (if b then 0 else 0x100)" for b
    by (simp add: ready_mem_def task_item_def vListInsertEnd_def vListInitialise_def Let_def xListEnd_def)
  ultimately show ?thesis unfolding kernel_rep_def
    by (auto simp: ready_kernel_def item_value_def item_container_def two_addr_def)
qed

theorem scheduler_lists_in_memory_witness:
  "(\<exists>k'. state_remove 0x200 ready_kernel = Some k' \<and>
     kernel_rep two_addr {ReadyTasksLists 5, EventList 7} {0x200} (snd (uxListRemove 0x204 ready_mem)) k') \<and>
   listGET_OWNER_OF_HEAD_ENTRY 0x100 ready_mem = 0x200"
proof -
  note t = scheduler_lists_in_memory [OF ready_layout ready_rep ready_lists_ok, of "0x200" "ReadyTasksLists 5"]
  have "list_items (ReadyTasksLists 5) ready_kernel = [0x200]" "state_container (tcb ready_kernel 0x200) = Some (ReadyTasksLists 5)"
    by (simp_all add: ready_kernel_def list_items_def)
  then show ?thesis using t by (simp add: state_remove_def two_addr_def)
qed

end
