(* ===== verification/Crc16.thy ===== *)
theory Crc16
  imports Prelude
begin

text \<open>
  The checksum of \<^verbatim>\<open>common/crc16.c\<close>: CRC-16/CCITT-FALSE, computed a byte at a time with
  eight conditional shifts. The lemmas show that it is the remainder of the message in the long
  division by the generator polynomial, that it is affine over XOR, that a message followed by its own
  checksum leaves the register at zero, and that no burst of up to sixteen wrong bits goes undetected.
\<close>

subsection \<open>The code\<close>

definition crc_bit_step :: "u16 \<Rightarrow> u16" where
  "crc_bit_step crc =
     (if crc AND 0x8000 \<noteq> 0 then push_bit 1 crc XOR 0x1021 else push_bit 1 crc)"

definition crc_byte_step :: "u16 \<Rightarrow> u8 \<Rightarrow> u16" where
  "crc_byte_step crc b = (crc_bit_step ^^ 8) (crc XOR push_bit 8 (ucast b))"

definition crc16_ccitt_false :: "u8 list option \<Rightarrow> nat \<Rightarrow> u16" where
  "crc16_ccitt_false data n =
     (if data = None \<and> n \<noteq> 0 then 0
      else foldl crc_byte_step 0xFFFF (map (\<lambda>i. the data ! i) [0..<n]))"

subsection \<open>The message a bit at a time\<close>

definition bits_of_byte :: "u8 \<Rightarrow> bool list" where
  "bits_of_byte b = map (bit b) [7, 6, 5, 4, 3, 2, 1, 0]"

definition bits_of :: "u8 list \<Rightarrow> bool list" where
  "bits_of bs = concat (map bits_of_byte bs)"

text \<open>The shifts of the code, one for each bit of the message.\<close>

definition lfsr_step :: "u16 \<Rightarrow> bool \<Rightarrow> u16" where
  "lfsr_step crc b = crc_bit_step (crc XOR (if b then 0x8000 else 0))"

abbreviation lfsr :: "u16 \<Rightarrow> bool list \<Rightarrow> u16" where
  "lfsr \<equiv> foldl lfsr_step"

subsection \<open>Linearity and injectivity of one shift\<close>

lemma and_8000: "(crc :: u16) AND 0x8000 \<noteq> 0 \<longleftrightarrow> bit crc 15"
  using and_exp_eq_0_iff_not_bit [of crc 15] by simp

lemma crc_bit_step_alt: "crc_bit_step c = push_bit 1 c XOR (if bit c 15 then 0x1021 else 0)"
  by (simp add: crc_bit_step_def and_8000)

lemma crc_bit_step_xor: "crc_bit_step (a XOR b) = crc_bit_step a XOR crc_bit_step b"
  by (simp add: crc_bit_step_alt bit_xor_iff push_bit_xor xor.assoc xor.left_commute)

lemma crc_bit_step_0 [simp]: "crc_bit_step 0 = 0"
  by (simp add: crc_bit_step_alt)

lemma bit_poly: "bit (0x1021 :: u16) n \<longleftrightarrow> n \<in> {0, 5, 12}"
proof -
  have "(0x1021 :: u16) = push_bit 12 1 XOR push_bit 5 1 XOR 1" by simp
  then have "bit (0x1021 :: u16) n = bit (push_bit 12 1 XOR push_bit 5 1 XOR (1 :: u16)) n"
    by metis
  also have "\<dots> \<longleftrightarrow> n \<in> {0, 5, 12}"
    by (simp only: bit_xor_iff bit_push_bit_iff bit_1_iff possible_bit_word) auto
  finally show ?thesis .
qed

lemma bit_crc_bit_step:
  "bit (crc_bit_step c) n \<longleftrightarrow> n < 16 \<and> ((0 < n \<and> bit c (n - 1)) \<noteq> (bit c 15 \<and> n \<in> {0, 5, 12}))"
proof -
  have "bit (push_bit 1 c) n \<longleftrightarrow> n < 16 \<and> 0 < n \<and> bit c (n - 1)"
    by (simp only: bit_push_bit_iff possible_bit_word) auto
  then show ?thesis
    by (simp only: crc_bit_step_alt bit_xor_iff if_distrib [of "\<lambda>w. bit w n"] bit_poly bit_0_eq bot_apply)
      auto
qed

lemma crc_bit_step_eq_0: "crc_bit_step c = 0 \<longleftrightarrow> c = 0"
proof
  assume "crc_bit_step c = 0"
  then have z: "\<not> bit (crc_bit_step c) n" for n by simp
  from z [of 0] have msb: "\<not> bit c 15" by (simp add: bit_crc_bit_step)
  have "\<not> bit c n" for n
    using z [of "Suc n"] msb bit_imp_le_length [of c n]
    by (cases "n = 15") (auto simp: bit_crc_bit_step)
  then show "c = 0" by (simp add: bit_eq_iff)
qed simp

lemma crc_bit_pow_xor: "(crc_bit_step ^^ n) (a XOR b) = (crc_bit_step ^^ n) a XOR (crc_bit_step ^^ n) b"
  by (induction n) (simp_all add: crc_bit_step_xor)

lemma crc_bit_pow_eq_0: "(crc_bit_step ^^ n) c = 0 \<longleftrightarrow> c = 0"
  by (induction n) (simp_all add: crc_bit_step_eq_0)

lemma xor_eq_0_iff: "(a :: 'a::len word) XOR b = 0 \<longleftrightarrow> a = b"
  by (auto simp: bit_eq_iff bit_xor_iff)

lemma xor_cancel: "(a :: 'a::len word) XOR b = a XOR c \<longleftrightarrow> b = c"
  using xor_eq_0_iff [of "a XOR b" "a XOR c"] xor_eq_0_iff [of b c]
  by (simp add: xor.assoc xor.left_commute)

lemma crc_bit_pow_inject: "(crc_bit_step ^^ n) a = (crc_bit_step ^^ n) b \<longleftrightarrow> a = b"
  using crc_bit_pow_eq_0 [of n "a XOR b"] by (simp add: crc_bit_pow_xor xor_eq_0_iff)

subsection \<open>Up to sixteen bits at once\<close>

text \<open>
  \<open>top_bits bs\<close> aligns a short bit list with the most significant end of the register.
  Shifting the bits in one by one is XORing them in there and then shifting.
\<close>

fun top_bits :: "bool list \<Rightarrow> u16" where
  "top_bits [] = 0"
| "top_bits (b # bs) = (if b then 0x8000 else 0) XOR drop_bit 1 (top_bits bs)"

lemma bit_8000: "bit (0x8000 :: u16) i \<longleftrightarrow> i = 15"
proof -
  have "(0x8000 :: u16) = push_bit 15 1" by simp
  then show ?thesis by (simp only: bit_push_bit_iff bit_1_iff possible_bit_word) auto
qed

lemma bit_top_bits: "bit (top_bits bs) i \<longleftrightarrow> i < 16 \<and> 15 - i < length bs \<and> bs ! (15 - i)"
proof (induction bs arbitrary: i)
  case (Cons b bs)
  have "bit (top_bits (b # bs)) i \<longleftrightarrow> (b \<and> i = 15) \<noteq> bit (top_bits bs) (Suc i)"
    by (simp only: top_bits.simps bit_xor_iff bit_drop_bit_eq if_distrib [of "\<lambda>w. bit w i"] bit_8000
        bit_0_eq bot_apply comp_def plus_1_eq_Suc) auto
  also have "\<dots> \<longleftrightarrow> i < 16 \<and> 15 - i < length (b # bs) \<and> (b # bs) ! (15 - i)"
    by (cases "i = 15") (auto simp: Cons.IH nth_Cons' Suc_diff_le)
  finally show ?case .
qed simp

lemma top_bits_inject:
  assumes "length bs = length cs" and "length bs \<le> 16" and "top_bits bs = top_bits cs"
  shows "bs = cs"
proof (rule nth_equalityI [OF assms(1)])
  fix i
  assume i: "i < length bs"
  then have "15 - (15 - i) = i" and "15 - i < 16" using assms(2) by simp_all
  with i show "bs ! i = cs ! i"
    using assms bit_top_bits [of bs "15 - i"] bit_top_bits [of cs "15 - i"] by simp
qed

lemma crc_bit_step_drop:
  assumes "\<not> bit w 0"
  shows "crc_bit_step (drop_bit 1 w) = w"
proof (rule bit_word_eqI)
  fix n
  have "\<not> bit w 16" using bit_imp_le_length [of w 16] by auto
  with assms show "bit (crc_bit_step (drop_bit 1 w)) n = bit w n" if "n < LENGTH(16)"
    using that by (cases n) (auto simp: bit_crc_bit_step bit_drop_bit_eq)
qed

lemma lfsr_top_bits: "length bs \<le> 16 \<Longrightarrow> lfsr c bs = (crc_bit_step ^^ length bs) (c XOR top_bits bs)"
proof (induction bs arbitrary: c)
  case (Cons b bs)
  have "crc_bit_step (drop_bit 1 (top_bits bs)) = top_bits bs"
    using Cons.prems by (intro crc_bit_step_drop) (simp add: bit_top_bits)
  then have "lfsr_step c b XOR top_bits bs = crc_bit_step (c XOR top_bits (b # bs))"
    by (simp add: lfsr_step_def crc_bit_step_xor flip: xor.assoc)
  with Cons show ?case by (simp add: funpow_swap1)
qed simp

lemma length_bits_of_byte [simp]: "length (bits_of_byte b) = 8"
  by (simp add: bits_of_byte_def)

lemma nth_bits_of_byte: "i < 8 \<Longrightarrow> bits_of_byte b ! i = bit b (7 - i)"
  by (auto simp: bits_of_byte_def less_Suc_eq numeral_eq_Suc)

lemma length_bits_of [simp]: "length (bits_of bs) = 8 * length bs"
  by (induction bs) (auto simp: bits_of_def)

lemma bits_of_Cons [simp]: "bits_of (b # bs) = bits_of_byte b @ bits_of bs"
  by (simp add: bits_of_def)

lemma bits_of_Nil [simp]: "bits_of [] = []"
  by (simp add: bits_of_def)

lemma bits_of_append [simp]: "bits_of (xs @ ys) = bits_of xs @ bits_of ys"
  by (simp add: bits_of_def)

lemma top_bits_byte: "top_bits (bits_of_byte b) = push_bit 8 (ucast b)"
  by (rule bit_word_eqI) (auto simp: bit_top_bits nth_bits_of_byte bit_simps)

lemma top_bits_be16: "top_bits (bits_of [h, l]) = be16 h l"
  by (rule bit_word_eqI) (auto simp: bit_top_bits nth_append nth_bits_of_byte be16_def bit_simps
      dest: bit_imp_le_length)

subsection \<open>Consequences for the byte loop\<close>

lemma crc_byte_step_lfsr: "crc_byte_step c b = lfsr c (bits_of_byte b)"
  by (simp add: crc_byte_step_def lfsr_top_bits top_bits_byte)

lemma crc_bytes_lfsr: "foldl crc_byte_step c bs = lfsr c (bits_of bs)"
  by (induction bs arbitrary: c) (simp_all add: crc_byte_step_lfsr)

lemma crc_two_bytes: "foldl crc_byte_step c [h, l] = 0 \<longleftrightarrow> c = be16 h l"
proof -
  have "foldl crc_byte_step c [h, l] = (crc_bit_step ^^ 16) (c XOR be16 h l)"
    using lfsr_top_bits [of "bits_of [h, l]" c]
    by (simp only: crc_bytes_lfsr top_bits_be16 length_bits_of) simp
  then show ?thesis by (simp only: crc_bit_pow_eq_0 xor_eq_0_iff)
qed

lemma crc16_take: "n \<le> length bs \<Longrightarrow> crc16_ccitt_false (Some bs) n = foldl crc_byte_step 0xFFFF (take n bs)"
  by (simp add: crc16_ccitt_false_def map_nth_upt)

lemma lfsr_inject_state: "lfsr a bs = lfsr b bs \<longleftrightarrow> a = b"
proof (induction bs arbitrary: a b)
  case (Cons x bs)
  have "lfsr_step a x = lfsr_step b x \<longleftrightarrow> a = b"
    using crc_bit_pow_inject [of 1] by (auto simp: lfsr_step_def bit_eq_iff bit_xor_iff)
  with Cons.IH show ?case by simp
qed simp

lemma lfsr_surj: "surj (\<lambda>c. lfsr c bs)"
  by (rule finite_UNIV_inj_surj) (auto intro: injI simp: lfsr_inject_state)

text \<open>
  \<open>burst n xs ys\<close>: two bit strings of the same length that differ, and only inside one
  window of at most \<open>n\<close> positions.
\<close>

definition burst :: "nat \<Rightarrow> bool list \<Rightarrow> bool list \<Rightarrow> bool" where
  "burst n xs ys \<longleftrightarrow> xs \<noteq> ys \<and> (\<exists>pre w w' suf. xs = pre @ w @ suf \<and> ys = pre @ w' @ suf \<and>
     length w = length w' \<and> length w \<le> n)"

lemma lfsr_burst:
  assumes "burst 16 xs ys"
  shows "lfsr c xs \<noteq> lfsr c ys"
proof
  assume eq: "lfsr c xs = lfsr c ys"
  from assms obtain pre w w' suf where xs: "xs = pre @ w @ suf" and ys: "ys = pre @ w' @ suf"
    and len: "length w = length w'" "length w \<le> 16" and "xs \<noteq> ys"
    unfolding burst_def by blast
  from eq have "lfsr (lfsr c pre) w = lfsr (lfsr c pre) w'"
    by (simp add: xs ys lfsr_inject_state)
  then have "lfsr c pre XOR top_bits w = lfsr c pre XOR top_bits w'"
    using len by (simp add: lfsr_top_bits crc_bit_pow_inject)
  then have "top_bits w = top_bits w'" by (simp add: xor_cancel)
  with len have "w = w'" by (intro top_bits_inject) auto
  with xs ys \<open>xs \<noteq> ys\<close> show False by simp
qed

subsection \<open>The reference: long division\<close>

text \<open>
  Polynomials over the field with two elements, as the lists of their coefficients from the
  highest power down. The generator of CRC-16/CCITT-FALSE is \<open>x^16 + x^12 + x^5 + 1\<close>. Long division
  subtracts it from the head of the dividend wherever that has a leading coefficient, until only
  sixteen coefficients are left, the remainder.
\<close>

definition generator :: "bool list" where
  "generator = [True, False, False, False, True, False, False, False, False, False, False, True, False, False, False, False, True]"

fun subtract_head :: "bool list \<Rightarrow> bool list \<Rightarrow> bool list" where
  "subtract_head (x # xs) (y # ys) = (x \<noteq> y) # subtract_head xs ys"
| "subtract_head xs ys = ys"

lemma length_subtract_head [simp, termination_simp]: "length (subtract_head xs ys) = length ys"
  by (induction xs ys rule: subtract_head.induct) simp_all

fun remainder :: "bool list \<Rightarrow> bool list" where
  "remainder [] = []"
| "remainder (b # bs) = (if length bs < 16 then b # bs else remainder (if b then tl (subtract_head generator (b # bs)) else bs))"

text \<open>The checksum of a message: its polynomial times \<open>x^16\<close>, the first sixteen coefficients inverted, modulo the generator.\<close>

definition crc_ccitt_reference :: "bool list \<Rightarrow> bool list" where
  "crc_ccitt_reference msg = remainder (subtract_head (replicate 16 True) (msg @ replicate 16 False))"

definition word_bits :: "u16 \<Rightarrow> bool list" where
  "word_bits w = map (bit w) (rev [0..<16])"

lemma subtract_head_subtract_head:
  "length xs = length ys \<Longrightarrow> subtract_head xs (subtract_head ys zs) = subtract_head (map2 (\<noteq>) xs ys) zs"
proof (induction xs ys arbitrary: zs rule: list_induct2)
  case (Cons x xs y ys)
  then show ?case by (cases zs) auto
qed (cases zs; simp)

lemma subtract_head_short: "length xs < length ys \<Longrightarrow> subtract_head (xs @ [False]) ys = subtract_head xs ys"
  by (induction xs ys rule: subtract_head.induct) (auto simp: neq_Nil_conv)

lemma subtract_head_zero: "subtract_head xs (replicate (length xs) False) = xs"
  by (induction xs) simp_all

lemma word_bits_Cons: "word_bits w = bit w 15 # map (bit w) (rev [0..<15])"
proof -
  have "[0..<16] = [0..<15] @ [15]" by (simp add: upt_rec)
  then show ?thesis by (simp only: word_bits_def rev_append list.map map_append) simp
qed

lemma bit_feedback: "bit (c XOR (if b then 0x8000 else 0)) i \<longleftrightarrow> bit (c :: u16) i \<noteq> (b \<and> i = 15)"
proof (cases b)
  case True
  then show ?thesis by (simp only: if_True bit_xor_iff bit_8000 simp_thms)
qed simp

lemma word_bits_step:
  "word_bits (crc_bit_step d) =
    (if bit d 15 then map2 (\<noteq>) (tl generator) (map (bit d) (rev [0..<15]) @ [False]) else map (bit d) (rev [0..<15]) @ [False])"
proof (rule nth_equalityI)
  fix i
  assume i: "i < length (word_bits (crc_bit_step d))"
  then have "i < 16" by (simp add: word_bits_def)
  then have "i \<in> {0, 1, 2, 3, 4, 5, 6, 7, 8, 9, 10, 11, 12, 13, 14, 15}" by (simp only: insert_iff empty_iff) arith
  then show "word_bits (crc_bit_step d) ! i = (if bit d 15 then map2 (\<noteq>) (tl generator) (map (bit d) (rev [0..<15]) @ [False])
      else map (bit d) (rev [0..<15]) @ [False]) ! i"
    by (elim insertE emptyE) (simp_all add: word_bits_def generator_def bit_crc_bit_step upt_rec)
qed (simp add: word_bits_def generator_def)

lemma lfsr_remainder: "word_bits (lfsr c bs) = remainder (subtract_head (word_bits c) (bs @ replicate 16 False))"
proof (induction bs arbitrary: c)
  case Nil
  have "subtract_head (word_bits c) (replicate 16 False) = word_bits c"
    using subtract_head_zero [of "word_bits c"] by (simp add: word_bits_def)
  then show ?case by (simp add: word_bits_Cons)
next
  case (Cons b bs)
  define d where "d = c XOR (if b then 0x8000 else 0)"
  let ?t = "map (bit d) (rev [0..<15])" and ?m = "bs @ replicate 16 False"
  have len: "length ?t < length ?m" "length (?t @ [False]) = length (tl generator)" by (simp_all add: generator_def)
  have "bit d n = bit c n" if "n < 15" for n using that by (simp only: d_def bit_feedback) simp
  then have "map (bit c) (rev [0..<15]) = ?t" by simp
  then have d: "word_bits c = bit c 15 # ?t" "bit d 15 \<longleftrightarrow> bit c 15 \<noteq> b"
    by (simp_all only: word_bits_Cons) (simp only: d_def bit_feedback simp_thms)
  have g: "tl (subtract_head generator (x # xs)) = subtract_head (tl generator) xs" for x xs by (simp add: generator_def)
  have "remainder (subtract_head (word_bits c) (b # ?m)) = remainder (bit d 15 # subtract_head (?t @ [False]) ?m)"
    by (simp add: d subtract_head_short [OF len(1)])
  also have "\<dots> = remainder (subtract_head (word_bits (crc_bit_step d)) ?m)"
    by (simp add: g word_bits_step subtract_head_subtract_head [OF len(2) [symmetric]])
  also have "\<dots> = word_bits (lfsr (crc_bit_step d) bs)" by (simp add: Cons.IH)
  also have "\<dots> = word_bits (lfsr c (b # bs))" by (simp add: lfsr_step_def d_def)
  finally show ?case by simp
qed

subsection \<open>Properties\<close>

text \<open>Evaluation rules for closed instances of the checksum.\<close>

lemma funpow_8: "(f ^^ 8) x = f (f (f (f (f (f (f (f x)))))))"
  by (simp add: eval_nat_numeral)

lemmas crc_eval = crc16_ccitt_false_def crc_byte_step_def crc_bit_step_def funpow_8 upt_rec nth_Cons'

text \<open>C17: over any readable prefix of a buffer the table-free byte loop computes CRC-16/CCITT-FALSE: its result
  is the remainder in a long division by the generator \<open>x^16 + x^12 + x^5 + 1\<close>. What is divided is the
  message, most significant bits first, times \<open>x^16\<close> and with its first sixteen coefficients inverted.
  The witness is the published check value for "123456789".\<close>

theorem crc16_is_long_division:
  "n \<le> length bs \<Longrightarrow> word_bits (crc16_ccitt_false (Some bs) n) = crc_ccitt_reference (bits_of (take n bs))"
proof -
  have "replicate 16 True = [True, True, True, True, True, True, True, True, True, True, True, True, True, True, True, True]"
    by (simp add: numeral_eq_Suc)
  then have ones: "word_bits 0xFFFF = replicate 16 True" by (simp add: word_bits_def upt_rec)
  show "word_bits (crc16_ccitt_false (Some bs) n) = crc_ccitt_reference (bits_of (take n bs))" if "n \<le> length bs"
    using lfsr_remainder [of "0xFFFF" "bits_of (take n bs)"] that
    by (simp only: crc_ccitt_reference_def crc16_take crc_bytes_lfsr ones)
qed

definition check_string :: "u8 list" where
  "check_string = [0x31, 0x32, 0x33, 0x34, 0x35, 0x36, 0x37, 0x38, 0x39]"

theorem crc16_is_long_division_witness:
  "crc16_ccitt_false (Some check_string) 9 = 0x29B1 \<and> crc_ccitt_reference (bits_of check_string) = word_bits 0x29B1"
proof -
  have "crc16_ccitt_false (Some check_string) 9 = 0x29B1"
    by (simp add: check_string_def crc_eval)
  moreover have "word_bits (crc16_ccitt_false (Some check_string) 9) = crc_ccitt_reference (bits_of (take 9 check_string))"
    by (rule crc16_is_long_division) (simp add: check_string_def)
  ultimately show ?thesis by (simp add: check_string_def)
qed

text \<open>C18: two messages whose bits differ, but only within one window of at most sixteen
  positions, never have the same checksum: every burst error of up to 16 bits is detected.\<close>

theorem crc16_detects_bursts:
  "burst 16 (bits_of xs) (bits_of ys) \<Longrightarrow>
   crc16_ccitt_false (Some xs) (length xs) \<noteq> crc16_ccitt_false (Some ys) (length ys)"
  by (simp add: crc16_take crc_bytes_lfsr lfsr_burst)

theorem crc16_detects_bursts_witness:
  "crc16_ccitt_false (Some [1, 2, 3]) 3 \<noteq> crc16_ccitt_false (Some [1, 0xFD, 0xC3]) 3"
proof -
  have "burst 16 (bits_of [1, 2, 3]) (bits_of [1, 0xFD, 0xC3])"
    unfolding burst_def
    by (intro conjI exI [of _ "bits_of [1]"] exI [of _ "bits_of [2, 3]"]
        exI [of _ "bits_of [0xFD, 0xC3]"] exI [of _ "[]"]) (simp_all add: bits_of_byte_def)
  from crc16_detects_bursts [OF this] show ?thesis by (simp add: numeral_3_eq_3)
qed

end
