(* ===== verification/Protocol.thy ===== *)
theory Protocol
  imports Crc16
begin

text \<open>
  The frame codec of \<^verbatim>\<open>common/protocol.h\<close> and \<^verbatim>\<open>common/protocol.c\<close>. A pointer that the code
  compares with \<open>NULL\<close> is an \<open>option\<close>; output parameters are results. The wire format is
  restated as \<open>frame_bytes\<close>, and the lemmas relate both directions of the codec to it.
\<close>

subsection \<open>Constants\<close>

definition PROTOCOL_MAGIC :: u16 where [simp, proto_const]: "PROTOCOL_MAGIC = 0xAA55"
definition PROTOCOL_VERSION :: u8 where [simp, proto_const]: "PROTOCOL_VERSION = 0x01"
definition PROTOCOL_MAX_PAYLOAD :: nat where [simp, proto_const]: "PROTOCOL_MAX_PAYLOAD = 256"
definition PROTOCOL_FIXED_HEADER_SIZE :: nat where [simp, proto_const]: "PROTOCOL_FIXED_HEADER_SIZE = 8"
definition PROTOCOL_CRC_SIZE :: nat where [simp, proto_const]: "PROTOCOL_CRC_SIZE = 2"
definition PROTOCOL_MIN_FRAME_SIZE :: nat where
  [simp, proto_const]: "PROTOCOL_MIN_FRAME_SIZE = PROTOCOL_FIXED_HEADER_SIZE + PROTOCOL_CRC_SIZE"
definition PROTOCOL_MAX_FRAME_SIZE :: nat where
  [simp, proto_const]: "PROTOCOL_MAX_FRAME_SIZE =
     PROTOCOL_FIXED_HEADER_SIZE + PROTOCOL_MAX_PAYLOAD + PROTOCOL_CRC_SIZE"

definition MSG_PING :: u8 where [simp, proto_const]: "MSG_PING = 0x01"
definition MSG_PONG :: u8 where [simp, proto_const]: "MSG_PONG = 0x81"
definition MSG_READ_STATUS :: u8 where [simp, proto_const]: "MSG_READ_STATUS = 0x10"
definition MSG_STATUS_RESP :: u8 where [simp, proto_const]: "MSG_STATUS_RESP = 0x90"
definition MSG_HEARTBEAT :: u8 where [simp, proto_const]: "MSG_HEARTBEAT = 0x20"
definition MSG_TELEMETRY :: u8 where [simp, proto_const]: "MSG_TELEMETRY = 0x40"
definition MSG_ERROR :: u8 where [simp, proto_const]: "MSG_ERROR = 0xE0"

definition OFFSET_MAGIC :: nat where [simp, proto_const]: "OFFSET_MAGIC = 0"
definition OFFSET_VERSION :: nat where [simp, proto_const]: "OFFSET_VERSION = 2"
definition OFFSET_MSG_ID :: nat where [simp, proto_const]: "OFFSET_MSG_ID = 3"
definition OFFSET_SEQ :: nat where [simp, proto_const]: "OFFSET_SEQ = 4"
definition OFFSET_LENGTH :: nat where [simp, proto_const]: "OFFSET_LENGTH = 6"
definition OFFSET_PAYLOAD :: nat where [simp, proto_const]: "OFFSET_PAYLOAD = 8"

datatype protocol_result_t =
    PROTO_OK | PROTO_ERR_NULL | PROTO_ERR_BUFFER | PROTO_ERR_MAGIC | PROTO_ERR_VERSION
  | PROTO_ERR_LENGTH | PROTO_ERR_FRAME_SIZE | PROTO_ERR_CRC

text \<open>The enumerators' values, as the code casts results to \<^verbatim>\<open>int32_t\<close>.\<close>

fun protocol_result_value :: "protocol_result_t \<Rightarrow> int" where
  "protocol_result_value PROTO_OK = 0"
| "protocol_result_value PROTO_ERR_NULL = -1"
| "protocol_result_value PROTO_ERR_BUFFER = -2"
| "protocol_result_value PROTO_ERR_MAGIC = -3"
| "protocol_result_value PROTO_ERR_VERSION = -4"
| "protocol_result_value PROTO_ERR_LENGTH = -5"
| "protocol_result_value PROTO_ERR_FRAME_SIZE = -6"
| "protocol_result_value PROTO_ERR_CRC = -7"

record protocol_packet_t =
  pk_version :: u8
  pk_msg_id :: u8
  pk_seq :: u16
  pk_length :: u16
  pk_payload :: "u8 list"

text \<open>The payload member is a C array of 256 bytes.\<close>

definition packet_wf :: "protocol_packet_t \<Rightarrow> bool" where
  "packet_wf p \<longleftrightarrow> length (pk_payload p) = PROTOCOL_MAX_PAYLOAD"

definition zero_packet :: protocol_packet_t where
  "zero_packet = \<lparr>pk_version = 0, pk_msg_id = 0, pk_seq = 0, pk_length = 0,
     pk_payload = replicate PROTOCOL_MAX_PAYLOAD 0\<rparr>"

lemma packet_wf_zero [simp]: "packet_wf zero_packet"
  by (simp add: packet_wf_def zero_packet_def)

subsection \<open>Byte order\<close>

definition write_u16_be :: "u8 list \<Rightarrow> nat \<Rightarrow> u16 \<Rightarrow> u8 list" where
  "write_u16_be dst off value =
     dst[off := ucast (drop_bit 8 value AND 0xFF), off + 1 := ucast (value AND 0xFF)]"

definition read_u16_be :: "u8 list \<Rightarrow> nat \<Rightarrow> u16" where
  "read_u16_be src off = push_bit 8 (ucast (src ! off)) OR ucast (src ! (off + 1))"

lemma write_u16_be_alt: "write_u16_be dst off v = dst[off := hi8 v, Suc off := lo8 v]"
  by (simp add: write_u16_be_def hi8_def lo8_def)

lemma read_u16_be_alt: "read_u16_be src off = be16 (src ! off) (src ! Suc off)"
  by (simp add: read_u16_be_def be16_def)

lemma magic_halves [simp]: "hi8 0xAA55 = 0xAA" "lo8 0xAA55 = 0x55"
  by (simp_all add: hi8_def lo8_def)

lemma length_write_u16_be [simp]: "length (write_u16_be dst off v) = length dst"
  by (simp add: write_u16_be_alt)

subsection \<open>Encoding and decoding\<close>

definition protocol_encode ::
  "protocol_packet_t option \<Rightarrow> u8 list option \<Rightarrow> nat \<Rightarrow> nat option \<Rightarrow>
   protocol_result_t \<times> u8 list option \<times> nat option" where
  "protocol_encode packet buffer buffer_size encoded_length =
     (case (packet, buffer, encoded_length) of
        (Some p, Some b, Some _) \<Rightarrow>
          if pk_version p \<noteq> PROTOCOL_VERSION then (PROTO_ERR_VERSION, buffer, Some 0)
          else if unat (pk_length p) > PROTOCOL_MAX_PAYLOAD then (PROTO_ERR_LENGTH, buffer, Some 0)
          else
            let n = unat (pk_length p);
                frame_length = PROTOCOL_FIXED_HEADER_SIZE + n + PROTOCOL_CRC_SIZE
            in if buffer_size < frame_length then (PROTO_ERR_BUFFER, buffer, Some 0)
               else
                 let b = write_u16_be b OFFSET_MAGIC PROTOCOL_MAGIC;
                     b = b[OFFSET_VERSION := pk_version p];
                     b = b[OFFSET_MSG_ID := pk_msg_id p];
                     b = write_u16_be b OFFSET_SEQ (pk_seq p);
                     b = write_u16_be b OFFSET_LENGTH (pk_length p);
                     b = (if n > 0 then memcpy_at b OFFSET_PAYLOAD (pk_payload p) n else b);
                     crc_input_length = 6 + n;
                     crc = crc16_ccitt_false (Some (drop OFFSET_VERSION b)) crc_input_length;
                     crc_offset = OFFSET_PAYLOAD + n;
                     b = write_u16_be b crc_offset crc
                 in (PROTO_OK, Some b, Some frame_length)
      | _ \<Rightarrow> (PROTO_ERR_NULL, buffer, encoded_length))"

definition protocol_decode ::
  "u8 list option \<Rightarrow> nat \<Rightarrow> protocol_packet_t option \<Rightarrow> protocol_result_t \<times> protocol_packet_t option" where
  "protocol_decode buffer buffer_length packet =
     (case (buffer, packet) of
        (Some b, Some p) \<Rightarrow>
          if buffer_length < PROTOCOL_MIN_FRAME_SIZE then (PROTO_ERR_BUFFER, packet)
          else if read_u16_be b OFFSET_MAGIC \<noteq> PROTOCOL_MAGIC then (PROTO_ERR_MAGIC, packet)
          else if b ! OFFSET_VERSION \<noteq> PROTOCOL_VERSION then (PROTO_ERR_VERSION, packet)
          else
            let payload_length = read_u16_be b OFFSET_LENGTH
            in if unat payload_length > PROTOCOL_MAX_PAYLOAD then (PROTO_ERR_LENGTH, packet)
               else
                 let n = unat payload_length;
                     expected_frame_length = PROTOCOL_FIXED_HEADER_SIZE + n + PROTOCOL_CRC_SIZE
                 in if buffer_length \<noteq> expected_frame_length then (PROTO_ERR_FRAME_SIZE, packet)
                    else
                      let crc_input_length = 6 + n;
                          calculated_crc =
                            crc16_ccitt_false (Some (drop OFFSET_VERSION b)) crc_input_length;
                          crc_offset = OFFSET_PAYLOAD + n;
                          received_crc = read_u16_be b crc_offset
                      in if calculated_crc \<noteq> received_crc then (PROTO_ERR_CRC, packet)
                         else
                           (PROTO_OK, Some (p\<lparr>
                              pk_version := b ! OFFSET_VERSION,
                              pk_msg_id := b ! OFFSET_MSG_ID,
                              pk_seq := read_u16_be b OFFSET_SEQ,
                              pk_length := payload_length,
                              pk_payload :=
                                (if n > 0
                                 then memcpy_at (pk_payload p) 0 (drop OFFSET_PAYLOAD b) n
                                 else pk_payload p)\<rparr>))
      | _ \<Rightarrow> (PROTO_ERR_NULL, packet))"

fun protocol_result_string :: "protocol_result_t \<Rightarrow> string" where
  "protocol_result_string PROTO_OK = ''PROTO_OK''"
| "protocol_result_string PROTO_ERR_NULL = ''PROTO_ERR_NULL''"
| "protocol_result_string PROTO_ERR_BUFFER = ''PROTO_ERR_BUFFER''"
| "protocol_result_string PROTO_ERR_MAGIC = ''PROTO_ERR_MAGIC''"
| "protocol_result_string PROTO_ERR_VERSION = ''PROTO_ERR_VERSION''"
| "protocol_result_string PROTO_ERR_LENGTH = ''PROTO_ERR_LENGTH''"
| "protocol_result_string PROTO_ERR_FRAME_SIZE = ''PROTO_ERR_FRAME_SIZE''"
| "protocol_result_string PROTO_ERR_CRC = ''PROTO_ERR_CRC''"

subsection \<open>The wire format as a specification\<close>

definition body_bytes :: "protocol_packet_t \<Rightarrow> u8 list" where
  "body_bytes p = [pk_version p, pk_msg_id p, hi8 (pk_seq p), lo8 (pk_seq p),
     hi8 (pk_length p), lo8 (pk_length p)] @ take (unat (pk_length p)) (pk_payload p)"

definition body_crc :: "protocol_packet_t \<Rightarrow> u16" where
  "body_crc p = foldl crc_byte_step 0xFFFF (body_bytes p)"

definition frame_bytes :: "protocol_packet_t \<Rightarrow> u8 list" where
  "frame_bytes p = [0xAA, 0x55] @ body_bytes p @ [hi8 (body_crc p), lo8 (body_crc p)]"

text \<open>What a sender has to guarantee, and what a receiver may rely on.\<close>

definition packet_ok :: "protocol_packet_t \<Rightarrow> bool" where
  "packet_ok p \<longleftrightarrow> packet_wf p \<and> pk_version p = PROTOCOL_VERSION \<and> unat (pk_length p) \<le> PROTOCOL_MAX_PAYLOAD"

text \<open>The contents two packets must share to be the same message.\<close>

definition same_message :: "protocol_packet_t \<Rightarrow> protocol_packet_t \<Rightarrow> bool" where
  "same_message p q \<longleftrightarrow> pk_version p = pk_version q \<and> pk_msg_id p = pk_msg_id q \<and> pk_seq p = pk_seq q \<and>
     pk_length p = pk_length q \<and>
     take (unat (pk_length p)) (pk_payload p) = take (unat (pk_length q)) (pk_payload q)"

lemma length_body_bytes [simp]: "packet_ok p \<Longrightarrow> length (body_bytes p) = 6 + unat (pk_length p)"
  by (simp add: body_bytes_def packet_ok_def packet_wf_def)

lemma length_frame_bytes [simp]: "packet_ok p \<Longrightarrow> length (frame_bytes p) = 10 + unat (pk_length p)"
  by (simp add: frame_bytes_def)

lemma same_message_refl [simp]: "same_message p p"
  by (simp add: same_message_def)

lemma same_message_frame: "same_message p q \<Longrightarrow> frame_bytes p = frame_bytes q"
  by (auto simp: same_message_def frame_bytes_def body_crc_def body_bytes_def)

subsection \<open>The encoder produces the wire format\<close>

lemma write_u16_be_at:
  "length xs = off \<Longrightarrow> 2 \<le> length ys \<Longrightarrow>
   write_u16_be (xs @ ys) off v = xs @ hi8 v # lo8 v # drop 2 ys"
  by (cases ys; cases "tl ys")
    (auto simp: write_u16_be_alt list_update_append numeral_2_eq_2)

lemma memcpy_at_append:
  "length xs = off \<Longrightarrow> memcpy_at (xs @ ys) off src n = xs @ take n src @ drop n ys"
  by (simp add: memcpy_at_def)

text \<open>The frame under construction before the checksum is stored.\<close>

lemma encode_body:
  fixes b :: "u8 list"
  assumes "packet_ok p" and "10 + unat (pk_length p) \<le> length b"
  defines "n \<equiv> unat (pk_length p)"
  shows "memcpy_at
    (write_u16_be
      (write_u16_be ((write_u16_be b 0 0xAA55)[2 := pk_version p, 3 := pk_msg_id p]) 4 (pk_seq p))
      6 (pk_length p)) 8 (pk_payload p) n = [0xAA, 0x55] @ body_bytes p @ drop (8 + n) b"
proof -
  have "8 \<le> length b" using assms(2) by simp
  then obtain b0 b1 b2 b3 b4 b5 b6 b7 rest where b: "b = [b0, b1, b2, b3, b4, b5, b6, b7] @ rest"
    by (auto simp: numeral_eq_Suc Suc_le_length_iff)
  show ?thesis
    by (simp add: b write_u16_be_alt memcpy_at_def body_bytes_def n_def list_update_code(3)
        numeral_eq_Suc [of "num.Bit0 _"] numeral_eq_Suc [of "num.Bit1 _"])
qed

lemma encode_ok:
  assumes ok: "packet_ok p" and size: "10 + unat (pk_length p) \<le> k" "k \<le> length b"
  shows "protocol_encode (Some p) (Some b) k (Some e) =
    (PROTO_OK, Some (frame_bytes p @ drop (10 + unat (pk_length p)) b), Some (10 + unat (pk_length p)))"
proof -
  define n where "n = unat (pk_length p)"
  define h where "h = write_u16_be
      (write_u16_be ((write_u16_be b 0 0xAA55)[2 := 1, 3 := pk_msg_id p]) 4 (pk_seq p)) 6 (pk_length p)"
  have body: "memcpy_at h 8 (pk_payload p) n = [0xAA, 0x55] @ body_bytes p @ drop (8 + n) b"
    unfolding h_def n_def using encode_body [OF ok, of b] ok size by (simp add: packet_ok_def)
  have len: "length ([0xAA, 0x55] @ body_bytes p) = 8 + n" using ok by (simp add: n_def)
  have crc: "crc16_ccitt_false (Some (drop 2 ([0xAA, 0x55] @ body_bytes p @ drop (8 + n) b))) (6 + n)
    = body_crc p"
    using ok by (simp add: crc16_take body_crc_def n_def)
  have "write_u16_be (([0xAA, 0x55] @ body_bytes p) @ drop (8 + n) b) (8 + n) (body_crc p)
    = ([0xAA, 0x55] @ body_bytes p) @ hi8 (body_crc p) # lo8 (body_crc p) # drop 2 (drop (8 + n) b)"
    using len size by (intro write_u16_be_at) (auto simp: n_def)
  then show ?thesis
    using ok size crc body
    by (cases "n = 0")
      (simp_all add: protocol_encode_def Let_def packet_ok_def frame_bytes_def flip: n_def h_def)
qed

subsection \<open>The decoder accepts exactly the wire format\<close>

lemma be16_magic: "be16 h l = 0xAA55 \<longleftrightarrow> h = 0xAA \<and> l = 0x55"
proof -
  have "(0xAA55 :: u16) = be16 0xAA 0x55" by (simp add: be16_def)
  then show ?thesis by (metis be16_inject)
qed

lemma be16_nth_end:
  "length xs = off \<Longrightarrow> read_u16_be (xs @ h # l # ys) off = be16 h l"
  by (auto simp: read_u16_be_alt nth_append)

text \<open>What the receiver's packet becomes when message \<open>p\<close> arrives on top of packet \<open>q\<close>.\<close>

definition received :: "protocol_packet_t \<Rightarrow> protocol_packet_t \<Rightarrow> protocol_packet_t" where
  "received p q = q\<lparr>pk_version := pk_version p, pk_msg_id := pk_msg_id p, pk_seq := pk_seq p,
     pk_length := pk_length p, pk_payload := memcpy_at (pk_payload q) 0 (pk_payload p) (unat (pk_length p))\<rparr>"

lemma received_same_message: "packet_ok p \<Longrightarrow> packet_wf q \<Longrightarrow> same_message p (received p q)"
  by (simp add: received_def same_message_def packet_ok_def packet_wf_def)

lemma received_ok: "packet_ok p \<Longrightarrow> packet_wf q \<Longrightarrow> packet_ok (received p q)"
  by (simp add: received_def packet_ok_def packet_wf_def)

lemma received_simps [simp]:
  "pk_version (received p q) = pk_version p" "pk_msg_id (received p q) = pk_msg_id p"
  "pk_seq (received p q) = pk_seq p" "pk_length (received p q) = pk_length p"
  by (simp_all add: received_def)

lemma decode_frame:
  assumes ok: "packet_ok p" and k: "k = 10 + unat (pk_length p)"
  shows "protocol_decode (Some (frame_bytes p @ rest)) k (Some q) = (PROTO_OK, Some (received p q))"
proof -
  define n where "n = unat (pk_length p)"
  define pay where "pay = take n (pk_payload p)"
  have pay: "length pay = n" using ok by (simp add: pay_def n_def packet_ok_def packet_wf_def)
  have body: "body_bytes p = [1, pk_msg_id p, hi8 (pk_seq p), lo8 (pk_seq p), hi8 (pk_length p),
      lo8 (pk_length p)] @ pay"
    using ok by (simp add: body_bytes_def pay_def n_def packet_ok_def)
  define b where "b = frame_bytes p @ rest"
  have b: "b = [0xAA, 0x55] @ body_bytes p @ hi8 (body_crc p) # lo8 (body_crc p) # rest"
    by (simp add: b_def frame_bytes_def)
  have reads: "read_u16_be b 0 = 0xAA55" "b ! 2 = 1" "b ! 3 = pk_msg_id p"
    "read_u16_be b 4 = pk_seq p" "read_u16_be b 6 = pk_length p"
    by (simp_all add: b body read_u16_be_alt be16_magic eval_nat_numeral)
  have crc: "crc16_ccitt_false (Some (drop 2 b)) (6 + n) = body_crc p"
    using ok by (simp add: b crc16_take body_crc_def n_def)
  have trailer: "read_u16_be b (8 + n) = body_crc p"
    using be16_nth_end [of "[0xAA, 0x55] @ body_bytes p" "8 + n"] ok by (simp add: b n_def)
  have copy: "memcpy_at (pk_payload q) 0 (drop 8 b) n = memcpy_at (pk_payload q) 0 (pk_payload p) n"
    using pay by (simp add: b body memcpy_at_def pay_def)
  show ?thesis
    using reads crc trailer copy ok
    by (simp add: protocol_decode_def Let_def received_def k packet_ok_def
        flip: b_def n_def)
qed

lemma decode_ok_frame:
  assumes dec: "protocol_decode (Some b) k (Some q) = (PROTO_OK, Some r)"
    and k: "k \<le> length b" and q: "packet_wf q"
  shows "packet_ok r \<and> take k b = frame_bytes r \<and> k = 10 + unat (pk_length r)"
proof -
  define n where "n = unat (read_u16_be b 6)"
  have hdr: "10 \<le> k" "read_u16_be b 0 = 0xAA55" "b ! 2 = 1" "n \<le> 256" "k = 10 + n"
    and crc: "crc16_ccitt_false (Some (drop 2 b)) (6 + n) = read_u16_be b (8 + n)"
    and r: "r = q\<lparr>pk_version := b ! 2, pk_msg_id := b ! 3, pk_seq := read_u16_be b 4,
      pk_length := read_u16_be b 6,
      pk_payload := (if 0 < n then memcpy_at (pk_payload q) 0 (drop 8 b) n else pk_payload q)\<rparr>"
    using dec by (auto simp: protocol_decode_def Let_def n_def split: if_splits)
  have "8 \<le> length b" using hdr(1) k by simp
  then obtain b0 b1 b2 b3 b4 b5 b6 b7 rest where b: "b = [b0, b1, b2, b3, b4, b5, b6, b7] @ rest"
    by (auto simp: numeral_eq_Suc Suc_le_length_iff)
  have rest: "n + 2 \<le> length rest" using k hdr(5) by (simp add: b)
  have fields: "b0 = 0xAA" "b1 = 0x55" "b2 = 1" "read_u16_be b 4 = be16 b4 b5"
    "read_u16_be b 6 = be16 b6 b7" "b ! 3 = b3"
    using hdr(2,3) by (simp_all add: b read_u16_be_alt be16_magic eval_nat_numeral)
  have body: "body_bytes r = [b2, b3, b4, b5, b6, b7] @ take n rest"
    using rest q hdr(4) fields n_def
    by (simp add: r body_bytes_def packet_wf_def memcpy_at_def hdr(3)) (simp add: b)
  have ok: "packet_ok r"
    using q rest hdr n_def fields(5) by (simp add: r packet_ok_def packet_wf_def b)
  have tail: "drop n rest = rest ! n # rest ! Suc n # drop (n + 2) rest"
    using rest by (simp add: Cons_nth_drop_Suc)
  have "take 2 (drop n rest) = [rest ! n, rest ! Suc n]"
    by (simp add: tail)
  then have split: "take (n + 2) rest = take n rest @ [rest ! n, rest ! Suc n]"
    by (simp only: take_add)
  have "read_u16_be b (8 + n) = be16 (rest ! n) (rest ! Suc n)"
    by (simp add: b read_u16_be_alt)
  moreover have "take (6 + n) (drop 2 b) = [b2, b3, b4, b5, b6, b7] @ take n rest"
    using take_append [of "6 + n" "[b2, b3, b4, b5, b6, b7]" rest] by (simp add: b)
  then have "crc16_ccitt_false (Some (drop 2 b)) (6 + n) = body_crc r"
    using rest by (subst crc16_take) (simp_all add: body_crc_def body, simp add: b)
  ultimately have "body_crc r = be16 (rest ! n) (rest ! Suc n)" using crc by simp
  moreover have "take k b = [b0, b1, b2, b3, b4, b5, b6, b7] @ take (n + 2) rest"
    using take_append [of k "[b0, b1, b2, b3, b4, b5, b6, b7]" rest] by (simp add: b hdr(5))
  ultimately have "take k b = frame_bytes r"
    using fields(1,2) split by (simp add: frame_bytes_def body)
  with ok hdr(5) fields(5) n_def show ?thesis by (simp add: r)
qed

lemma decode_result:
  "\<exists>res out. protocol_decode (Some b) k (Some q) = (res, Some out) \<and> (res \<noteq> PROTO_OK \<longrightarrow> out = q)"
  by (simp add: protocol_decode_def Let_def)

lemma frame_bytes_inject:
  assumes "packet_ok p" "packet_ok r" "frame_bytes p = frame_bytes r"
  shows "same_message p r"
proof -
  from assms have "length (body_bytes p) = length (body_bytes r)"
    using length_frame_bytes [of p] length_frame_bytes [of r] by simp
  with assms(3) have "body_bytes p = body_bytes r" by (simp add: frame_bytes_def)
  moreover from this have "pk_length p = pk_length r" "pk_seq p = pk_seq r"
    by (auto simp: body_bytes_def) (metis be16_hi_lo)+
  ultimately show ?thesis by (simp add: same_message_def body_bytes_def)
qed

subsection \<open>Properties\<close>

lemma decode_result_ok:
  assumes "k \<le> length b" and "packet_wf q"
  shows "fst (protocol_decode (Some b) k (Some q)) = PROTO_OK \<longleftrightarrow>
    (\<exists>p. packet_ok p \<and> take k b = frame_bytes p)"
proof
  assume "fst (protocol_decode (Some b) k (Some q)) = PROTO_OK"
  then obtain r where "protocol_decode (Some b) k (Some q) = (PROTO_OK, Some r)"
    by (auto simp: protocol_decode_def Let_def split: if_splits)
  with decode_ok_frame assms show "\<exists>p. packet_ok p \<and> take k b = frame_bytes p" by blast
next
  assume "\<exists>p. packet_ok p \<and> take k b = frame_bytes p"
  then obtain p where p: "packet_ok p" "take k b = frame_bytes p" by blast
  have "k = 10 + unat (pk_length p)"
    using length_frame_bytes [OF p(1)] p(2) assms(1) by (metis length_take min.absorb2)
  with decode_frame [OF p(1), of k "drop k b"] p(2)
  show "fst (protocol_decode (Some b) k (Some q)) = PROTO_OK"
    by (metis append_take_drop_id fst_conv)
qed

text \<open>C12: encoding a packet into a buffer that is large enough and decoding the produced bytes
  succeeds and delivers the same version, message id, sequence number, length and payload; bytes
  of the receiver's payload array beyond the message stay as they were, and so do the bytes of
  the sender's buffer beyond the frame.\<close>

theorem encode_decode_roundtrip:
  assumes "packet_ok p" and "packet_wf q"
    and "PROTOCOL_MIN_FRAME_SIZE + unat (pk_length p) \<le> k" and "k \<le> length buf"
  shows "\<exists>frame r. protocol_encode (Some p) (Some buf) k (Some e) = (PROTO_OK, Some frame, Some (length (frame_bytes p))) \<and>
    protocol_decode (Some frame) (length (frame_bytes p)) (Some q) = (PROTO_OK, Some r) \<and>
    same_message p r \<and>
    drop (unat (pk_length p)) (pk_payload r) = drop (unat (pk_length p)) (pk_payload q) \<and>
    drop (length (frame_bytes p)) frame = drop (length (frame_bytes p)) buf"
proof (intro exI conjI)
  show "protocol_encode (Some p) (Some buf) k (Some e) =
    (PROTO_OK, Some (frame_bytes p @ drop (length (frame_bytes p)) buf), Some (length (frame_bytes p)))"
    using encode_ok [OF assms(1), of k buf e] assms by simp
  show "protocol_decode (Some (frame_bytes p @ drop (length (frame_bytes p)) buf)) (length (frame_bytes p)) (Some q)
    = (PROTO_OK, Some (received p q))"
    using assms by (intro decode_frame) simp_all
  show "same_message p (received p q)" using assms by (simp add: received_same_message)
  show "drop (unat (pk_length p)) (pk_payload (received p q)) = drop (unat (pk_length p)) (pk_payload q)"
    using assms by (simp add: received_def memcpy_at_def packet_ok_def packet_wf_def)
qed simp

definition sample_ping :: protocol_packet_t where
  "sample_ping = zero_packet\<lparr>pk_version := 1, pk_msg_id := MSG_PING, pk_seq := 152\<rparr>"

lemma sample_ping_ok [simp]: "packet_ok sample_ping"
  by (simp add: sample_ping_def packet_ok_def packet_wf_def zero_packet_def)

lemma sample_ping_length: "unat (pk_length sample_ping) = 0"
  by (simp add: sample_ping_def zero_packet_def)

theorem encode_decode_roundtrip_witness:
  "\<exists>frame r. protocol_encode (Some sample_ping) (Some (replicate 266 0)) 266 (Some 7) =
      (PROTO_OK, Some frame, Some 10) \<and>
    protocol_decode (Some frame) 10 (Some zero_packet) = (PROTO_OK, Some r) \<and> same_message sample_ping r"
  using encode_decode_roundtrip [of sample_ping zero_packet 266 "replicate 266 0" 7]
  by (fastforce simp: sample_ping_length)

text \<open>C11: the decoder is exact: over the bytes it may read it answers \<open>PROTO_OK\<close> if and only if
  they are the wire format of some well-formed version-1 packet of at most 256 payload bytes.\<close>

theorem decode_accepts_exactly_frames:
  assumes "k \<le> length b" and "packet_wf q"
  shows "fst (protocol_decode (Some b) k (Some q)) = PROTO_OK \<longleftrightarrow>
    (\<exists>p. packet_ok p \<and> take k b = frame_bytes p)"
  using assms by (rule decode_result_ok)

theorem decode_accepts_exactly_frames_witness:
  "\<not> (\<exists>p. packet_ok p \<and> take 10 (replicate 10 0xAA) = frame_bytes p)"
proof -
  have "fst (protocol_decode (Some (replicate 10 0xAA)) 10 (Some zero_packet)) = PROTO_ERR_MAGIC"
    by (simp add: protocol_decode_def read_u16_be_alt be16_magic)
  then show ?thesis
    using decode_accepts_exactly_frames [of 10 "replicate 10 0xAA" zero_packet] by simp
qed

text \<open>C32: error detection end to end: if a frame that was accepted reaches the decoder with
  its bits changed inside one window of at most sixteen positions (anywhere: magic, header,
  payload or checksum), the decoder refuses it.\<close>

theorem decode_rejects_bursts:
  assumes "packet_ok p" and "packet_wf q" and "burst 16 (bits_of (frame_bytes p)) (bits_of f)"
  shows "fst (protocol_decode (Some f) (length f) (Some q)) \<noteq> PROTO_OK"
proof
  assume "fst (protocol_decode (Some f) (length f) (Some q)) = PROTO_OK"
  then obtain r where r: "packet_ok r" "f = frame_bytes r"
    using decode_result_ok [of "length f" f q] assms(2) by auto
  have zero: "lfsr 0xFFFF (bits_of (body_bytes s @ [hi8 (body_crc s), lo8 (body_crc s)])) = 0" for s
    using crc_two_bytes [of "body_crc s" "hi8 (body_crc s)" "lo8 (body_crc s)"]
    by (simp only: crc_bytes_lfsr [symmetric] foldl_append) (simp add: body_crc_def)
  have frame: "lfsr c (bits_of (frame_bytes s)) =
    lfsr (lfsr c (bits_of [0xAA, 0x55])) (bits_of (body_bytes s @ [hi8 (body_crc s), lo8 (body_crc s)]))" for c s
    by (simp add: frame_bytes_def)
  obtain c where "lfsr c (bits_of [0xAA, 0x55]) = 0xFFFF"
    using lfsr_surj [of "bits_of [0xAA, 0x55]"] by (metis surjD)
  with frame [of c p] frame [of c r] zero lfsr_burst [OF assms(3), of c] r(2) show False by simp
qed

theorem decode_rejects_bursts_witness:
  "fst (protocol_decode (Some (0xAB # tl (frame_bytes sample_ping))) 10 (Some zero_packet)) \<noteq> PROTO_OK"
proof -
  have "burst 16 (bits_of (frame_bytes sample_ping)) (bits_of (0xAB # tl (frame_bytes sample_ping)))"
    unfolding burst_def
    by (intro conjI exI [of _ "[]"] exI [of _ "bits_of [0xAA]"] exI [of _ "bits_of [0xAB]"]
        exI [of _ "bits_of (tl (frame_bytes sample_ping))"])
      (simp_all add: frame_bytes_def bits_of_byte_def)
  from decode_rejects_bursts [OF _ _ this, of zero_packet] show ?thesis
    by (simp add: sample_ping_length)
qed

end
