(* ===== verification/StreamParser.thy ===== *)
theory StreamParser
  imports Protocol
begin

text \<open>
  The byte-stream parser of \<^verbatim>\<open>common/stream_parser.h\<close> and \<^verbatim>\<open>common/stream_parser.c\<close>: its
  record, the four states of the switch in \<^verbatim>\<open>stream_parser_feed_byte\<close>, its well-formedness
  invariant, and a specification over the list of pending bytes that the array-and-index
  implementation refines.
\<close>

subsection \<open>State\<close>

definition MAGIC_HI :: u8 where [simp, proto_const]: "MAGIC_HI = 0xAA"
definition MAGIC_LO :: u8 where [simp, proto_const]: "MAGIC_LO = 0x55"

text \<open>
  \<open>STREAM_STATE_OTHER\<close> stands for every value of the C enumeration object that is not one
  of its enumerators; the \<^verbatim>\<open>default\<close> branch handles it.
\<close>

datatype stream_parser_state_t =
    STREAM_STATE_WAIT_MAGIC_1 | STREAM_STATE_WAIT_MAGIC_2 | STREAM_STATE_READ_HEADER
  | STREAM_STATE_READ_REST | STREAM_STATE_OTHER

datatype stream_parser_event_t = STREAM_EVENT_ERROR | STREAM_EVENT_NONE | STREAM_EVENT_FRAME

record stream_parser_t =
  sp_state :: stream_parser_state_t
  frame_buffer :: "u8 list"
  frame_index :: nat
  expected_frame_length :: nat
  last_error :: protocol_result_t
  frames_ok :: u32
  crc_errors :: u32
  format_errors :: u32
  discarded_bytes :: u32

subsection \<open>Operations\<close>

definition resync_from_tail :: "stream_parser_t \<Rightarrow> stream_parser_t" where
  "resync_from_tail p =
     (let n = frame_index p; fb = frame_buffer p
      in if n \<ge> 2 \<and> fb ! (n - 2) = MAGIC_HI \<and> fb ! (n - 1) = MAGIC_LO then
           p\<lparr>frame_buffer := fb[0 := MAGIC_HI, 1 := MAGIC_LO], frame_index := 2,
             expected_frame_length := 0, sp_state := STREAM_STATE_READ_HEADER\<rparr>
         else if n \<ge> 1 \<and> fb ! (n - 1) = MAGIC_HI then
           p\<lparr>frame_buffer := fb[0 := MAGIC_HI], frame_index := 1,
             expected_frame_length := 0, sp_state := STREAM_STATE_WAIT_MAGIC_2\<rparr>
         else
           p\<lparr>frame_index := 0, expected_frame_length := 0, sp_state := STREAM_STATE_WAIT_MAGIC_1\<rparr>)"

text \<open>
  \<^verbatim>\<open>memset(parser, 0, sizeof *parser)\<close> followed by the two assignments; the previous contents
  of the object do not matter.
\<close>

definition stream_parser_init :: stream_parser_t where
  "stream_parser_init =
     \<lparr>sp_state = STREAM_STATE_WAIT_MAGIC_1, frame_buffer = replicate PROTOCOL_MAX_FRAME_SIZE 0,
      frame_index = 0, expected_frame_length = 0, last_error = PROTO_OK,
      frames_ok = 0, crc_errors = 0, format_errors = 0, discarded_bytes = 0\<rparr>"

definition stream_parser_reset_frame :: "stream_parser_t \<Rightarrow> stream_parser_t" where
  "stream_parser_reset_frame p =
     p\<lparr>sp_state := STREAM_STATE_WAIT_MAGIC_1, frame_index := 0, expected_frame_length := 0,
       last_error := PROTO_OK\<rparr>"

definition feed_wait_magic_1 :: "stream_parser_t \<Rightarrow> u8 \<Rightarrow> stream_parser_event_t \<times> stream_parser_t" where
  "feed_wait_magic_1 p byte =
     (STREAM_EVENT_NONE,
      if byte = MAGIC_HI then
        p\<lparr>frame_buffer := (frame_buffer p)[0 := byte], frame_index := 1,
          sp_state := STREAM_STATE_WAIT_MAGIC_2\<rparr>
      else p\<lparr>discarded_bytes := discarded_bytes p + 1\<rparr>)"

definition feed_wait_magic_2 :: "stream_parser_t \<Rightarrow> u8 \<Rightarrow> stream_parser_event_t \<times> stream_parser_t" where
  "feed_wait_magic_2 p byte =
     (STREAM_EVENT_NONE,
      if byte = MAGIC_LO then
        p\<lparr>frame_buffer := (frame_buffer p)[1 := byte], frame_index := 2,
          sp_state := STREAM_STATE_READ_HEADER\<rparr>
      else if byte = MAGIC_HI then
        p\<lparr>frame_buffer := (frame_buffer p)[0 := MAGIC_HI], frame_index := 1,
          discarded_bytes := discarded_bytes p + 1\<rparr>
      else
        p\<lparr>frame_index := 0, sp_state := STREAM_STATE_WAIT_MAGIC_1,
          discarded_bytes := discarded_bytes p + 2\<rparr>)"

definition reject_header :: "protocol_result_t \<Rightarrow> stream_parser_t \<Rightarrow> stream_parser_event_t \<times> stream_parser_t" where
  "reject_header err p =
     (STREAM_EVENT_ERROR,
      resync_from_tail (p\<lparr>last_error := err, format_errors := format_errors p + 1\<rparr>))"

definition feed_read_header :: "stream_parser_t \<Rightarrow> u8 \<Rightarrow> stream_parser_event_t \<times> stream_parser_t" where
  "feed_read_header p byte =
     (if frame_index p \<ge> PROTOCOL_FIXED_HEADER_SIZE then
        (STREAM_EVENT_ERROR, stream_parser_reset_frame
           (p\<lparr>last_error := PROTO_ERR_BUFFER, format_errors := format_errors p + 1\<rparr>))
      else
        let p = p\<lparr>frame_buffer := (frame_buffer p)[frame_index p := byte],
                  frame_index := frame_index p + 1\<rparr>
        in if frame_index p < PROTOCOL_FIXED_HEADER_SIZE then (STREAM_EVENT_NONE, p)
           else if frame_buffer p ! OFFSET_VERSION \<noteq> PROTOCOL_VERSION then
             reject_header PROTO_ERR_VERSION p
           else
             let payload_length = read_u16_be (frame_buffer p) OFFSET_LENGTH
             in if unat payload_length > PROTOCOL_MAX_PAYLOAD then reject_header PROTO_ERR_LENGTH p
                else
                  let p = p\<lparr>expected_frame_length :=
                            PROTOCOL_FIXED_HEADER_SIZE + unat payload_length + PROTOCOL_CRC_SIZE\<rparr>
                  in if expected_frame_length p > PROTOCOL_MAX_FRAME_SIZE then
                       reject_header PROTO_ERR_LENGTH p
                     else (STREAM_EVENT_NONE, p\<lparr>sp_state := STREAM_STATE_READ_REST\<rparr>))"

definition feed_read_rest ::
  "stream_parser_t \<Rightarrow> u8 \<Rightarrow> protocol_packet_t \<Rightarrow>
   stream_parser_event_t \<times> stream_parser_t \<times> protocol_packet_t" where
  "feed_read_rest p byte out =
     (if frame_index p \<ge> PROTOCOL_MAX_FRAME_SIZE then
        (STREAM_EVENT_ERROR, stream_parser_reset_frame
           (p\<lparr>last_error := PROTO_ERR_BUFFER, format_errors := format_errors p + 1\<rparr>), out)
      else
        let p = p\<lparr>frame_buffer := (frame_buffer p)[frame_index p := byte],
                  frame_index := frame_index p + 1\<rparr>
        in if frame_index p < expected_frame_length p then (STREAM_EVENT_NONE, p, out)
           else if frame_index p > expected_frame_length p then
             (STREAM_EVENT_ERROR, stream_parser_reset_frame
                (p\<lparr>last_error := PROTO_ERR_FRAME_SIZE, format_errors := format_errors p + 1\<rparr>), out)
           else
             let (result, out') = protocol_decode (Some (frame_buffer p)) (frame_index p) (Some out);
                 out = the out';
                 p = p\<lparr>last_error := result\<rparr>
             in if result = PROTO_OK then
                  (STREAM_EVENT_FRAME,
                   stream_parser_reset_frame (p\<lparr>frames_ok := frames_ok p + 1\<rparr>), out)
                else
                  let p = (if result = PROTO_ERR_CRC then p\<lparr>crc_errors := crc_errors p + 1\<rparr>
                           else p\<lparr>format_errors := format_errors p + 1\<rparr>)
                  in (STREAM_EVENT_ERROR, (stream_parser_reset_frame p)\<lparr>last_error := result\<rparr>, out))"

text \<open>
  The switch over the state, for non-null arguments; both firmware images call the function
  with the addresses of objects only.
\<close>

definition feed_byte ::
  "stream_parser_t \<Rightarrow> u8 \<Rightarrow> protocol_packet_t \<Rightarrow>
   stream_parser_event_t \<times> stream_parser_t \<times> protocol_packet_t" where
  "feed_byte p byte out =
     (case sp_state p of
        STREAM_STATE_WAIT_MAGIC_1 \<Rightarrow> let (ev, p) = feed_wait_magic_1 p byte in (ev, p, out)
      | STREAM_STATE_WAIT_MAGIC_2 \<Rightarrow> let (ev, p) = feed_wait_magic_2 p byte in (ev, p, out)
      | STREAM_STATE_READ_HEADER \<Rightarrow> let (ev, p) = feed_read_header p byte in (ev, p, out)
      | STREAM_STATE_READ_REST \<Rightarrow> feed_read_rest p byte out
      | STREAM_STATE_OTHER \<Rightarrow> (STREAM_EVENT_ERROR, stream_parser_init, out))"

definition stream_parser_feed_byte ::
  "stream_parser_t option \<Rightarrow> u8 \<Rightarrow> protocol_packet_t option \<Rightarrow>
   stream_parser_event_t \<times> stream_parser_t option \<times> protocol_packet_t option" where
  "stream_parser_feed_byte parser byte out_packet =
     (case (parser, out_packet) of
        (Some p, Some out) \<Rightarrow> let (ev, p, out) = feed_byte p byte out in (ev, Some p, Some out)
      | _ \<Rightarrow> (STREAM_EVENT_ERROR, parser, out_packet))"

text \<open>
  The receive loop documented in \<^verbatim>\<open>stream_parser.h\<close>: feed every byte, hand each completed
  packet to the application. The result lists what the application is handed.
\<close>

fun feed_all ::
  "stream_parser_t \<Rightarrow> protocol_packet_t \<Rightarrow> u8 list \<Rightarrow>
   protocol_packet_t list \<times> stream_parser_t \<times> protocol_packet_t" where
  "feed_all p out [] = ([], p, out)"
| "feed_all p out (b # bs) =
     (let (ev, p, out) = feed_byte p b out;
          (ds, p', out') = feed_all p out bs
      in (if ev = STREAM_EVENT_FRAME then out # ds else ds, p', out'))"

subsection \<open>The invariant\<close>

definition starts_magic :: "u8 list \<Rightarrow> bool" where
  "starts_magic fb \<longleftrightarrow> fb ! 0 = MAGIC_HI \<and> fb ! 1 = MAGIC_LO"

definition parser_inv :: "stream_parser_t \<Rightarrow> bool" where
  "parser_inv p \<longleftrightarrow> length (frame_buffer p) = PROTOCOL_MAX_FRAME_SIZE \<and>
     (case sp_state p of
        STREAM_STATE_WAIT_MAGIC_1 \<Rightarrow> frame_index p = 0
      | STREAM_STATE_WAIT_MAGIC_2 \<Rightarrow> frame_index p = 1 \<and> frame_buffer p ! 0 = MAGIC_HI
      | STREAM_STATE_READ_HEADER \<Rightarrow>
          2 \<le> frame_index p \<and> frame_index p < 8 \<and> starts_magic (frame_buffer p)
      | STREAM_STATE_READ_REST \<Rightarrow>
          8 \<le> frame_index p \<and> frame_index p < expected_frame_length p \<and>
          starts_magic (frame_buffer p) \<and> frame_buffer p ! 2 = PROTOCOL_VERSION \<and>
          unat (read_u16_be (frame_buffer p) 6) \<le> PROTOCOL_MAX_PAYLOAD \<and>
          expected_frame_length p = 10 + unat (read_u16_be (frame_buffer p) 6)
      | STREAM_STATE_OTHER \<Rightarrow> False)"

lemma parser_inv_init [simp]: "parser_inv stream_parser_init"
  by (simp add: parser_inv_def stream_parser_init_def)

subsection \<open>Specification over pending bytes\<close>

text \<open>
  The abstract state is the list of bytes of the candidate frame collected so far. The
  parser's array, index, expected length and state are one representation of it.
\<close>

definition pending :: "stream_parser_t \<Rightarrow> u8 list" where
  "pending p = take (frame_index p) (frame_buffer p)"

definition is_frame :: "u8 list \<Rightarrow> bool" where
  "is_frame f \<longleftrightarrow> fst (protocol_decode (Some f) (length f) (Some zero_packet)) = PROTO_OK"

definition magic_tail :: "u8 list \<Rightarrow> u8 list" where
  "magic_tail f =
     (if 2 \<le> length f \<and> drop (length f - 2) f = [MAGIC_HI, MAGIC_LO] then [MAGIC_HI, MAGIC_LO]
      else if f \<noteq> [] \<and> last f = MAGIC_HI then [MAGIC_HI] else [])"

definition spec_feed :: "u8 list \<Rightarrow> u8 \<Rightarrow> stream_parser_event_t \<times> u8 list" where
  "spec_feed pend b =
     (let f = pend @ [b]; n = length f; len = unat (read_u16_be f 6)
      in if n = 1 then (STREAM_EVENT_NONE, if b = MAGIC_HI then f else [])
         else if n = 2 then
           (STREAM_EVENT_NONE, if b = MAGIC_LO then f else if b = MAGIC_HI then [MAGIC_HI] else [])
         else if n < 8 then (STREAM_EVENT_NONE, f)
         else if n = 8 then
           (if f ! 2 \<noteq> PROTOCOL_VERSION \<or> len > PROTOCOL_MAX_PAYLOAD
            then (STREAM_EVENT_ERROR, magic_tail f) else (STREAM_EVENT_NONE, f))
         else if n < 10 + len then (STREAM_EVENT_NONE, f)
         else if is_frame f then (STREAM_EVENT_FRAME, []) else (STREAM_EVENT_ERROR, []))"

lemma is_frame_iff: "is_frame f \<longleftrightarrow> (\<exists>p. packet_ok p \<and> f = frame_bytes p)"
  unfolding is_frame_def by (subst decode_result_ok) auto

text \<open>The postcondition every step of the parser establishes.\<close>

definition step_ok ::
  "stream_parser_t \<Rightarrow> u8 \<Rightarrow> protocol_packet_t \<Rightarrow>
   stream_parser_event_t \<times> stream_parser_t \<times> protocol_packet_t \<Rightarrow> bool" where
  "step_ok p b out = (\<lambda>(ev, p', out').
     parser_inv p' \<and> packet_wf out' \<and> spec_feed (pending p) b = (ev, pending p') \<and>
     (if ev = STREAM_EVENT_FRAME then packet_ok out' \<and> frame_bytes out' = pending p @ [b]
      else out' = out))"

lemma nth_take_pending: "i < frame_index p \<Longrightarrow> pending p ! i = frame_buffer p ! i"
  by (simp add: pending_def)

lemma length_pending: "frame_index p \<le> length (frame_buffer p) \<Longrightarrow> length (pending p) = frame_index p"
  by (simp add: pending_def)

lemma last_two:
  assumes "2 \<le> n" "n \<le> length xs"
  shows "drop (length (take n xs) - 2) (take n xs) = [xs ! (n - 2), xs ! (n - 1)]"
proof -
  obtain m where n: "n = Suc (Suc m)" using assms(1) by (metis add_2_eq_Suc le_Suc_ex)
  with assms have "take n xs = take m xs @ [xs ! m, xs ! Suc m]"
    by (simp add: take_Suc_conv_app_nth)
  with assms n show ?thesis by simp
qed

lemma last_take: "1 \<le> n \<Longrightarrow> n \<le> length xs \<Longrightarrow> last (take n xs) = xs ! (n - 1)"
  by (subst last_conv_nth) (auto simp: min_absorb2)

lemma resync_refines:
  assumes "length (frame_buffer p) = 266" "frame_index p = 8"
  shows "parser_inv (resync_from_tail p) \<and> pending (resync_from_tail p) = magic_tail (pending p)"
proof -
  have len: "length (pending p) = 8" using assms by (simp add: pending_def)
  have two: "drop (length (pending p) - 2) (pending p) = [frame_buffer p ! 6, frame_buffer p ! 7]"
    unfolding pending_def using last_two [of 8 "frame_buffer p"] assms by simp
  have one: "last (pending p) = frame_buffer p ! 7"
    using last_take [of 8 "frame_buffer p"] assms by (simp add: pending_def)
  have ne: "pending p \<noteq> []" using len by auto
  have front: "take 2 ((frame_buffer p)[0 := MAGIC_HI, Suc 0 := MAGIC_LO]) = [MAGIC_HI, MAGIC_LO]"
    "take 1 ((frame_buffer p)[0 := MAGIC_HI]) = [MAGIC_HI]"
    using assms by (cases "frame_buffer p"; cases "tl (frame_buffer p)"; auto simp: numeral_2_eq_2)+
  show ?thesis
    using assms len two one ne front
    by (auto simp: resync_from_tail_def magic_tail_def parser_inv_def starts_magic_def pending_def
        Let_def nth_list_update)
qed

lemma wait_magic_1_ok:
  assumes "parser_inv p" "sp_state p = STREAM_STATE_WAIT_MAGIC_1" "packet_wf out"
  shows "step_ok p b out (feed_byte p b out)"
proof -
  have "frame_buffer p \<noteq> []" using assms by (auto simp: parser_inv_def)
  with assms show ?thesis
    by (auto simp: step_ok_def feed_byte_def feed_wait_magic_1_def parser_inv_def pending_def spec_feed_def
        take_Suc hd_conv_nth)
qed

lemma wait_magic_2_ok:
  assumes "parser_inv p" "sp_state p = STREAM_STATE_WAIT_MAGIC_2" "packet_wf out"
  shows "step_ok p b out (feed_byte p b out)"
proof -
  obtain x0 x1 xs where "frame_buffer p = x0 # x1 # xs"
    using assms by (cases "frame_buffer p"; cases "tl (frame_buffer p)") (auto simp: parser_inv_def)
  with assms show ?thesis
    by (auto simp: step_ok_def feed_byte_def feed_wait_magic_2_def parser_inv_def pending_def spec_feed_def
        starts_magic_def numeral_2_eq_2)
qed

text \<open>Storing the byte appends it to the pending list.\<close>

definition store_byte :: "stream_parser_t \<Rightarrow> u8 \<Rightarrow> stream_parser_t" where
  "store_byte p b = p\<lparr>frame_buffer := (frame_buffer p)[frame_index p := b], frame_index := frame_index p + 1\<rparr>"

lemma store_byte_simps [simp]:
  "frame_index (store_byte p b) = Suc (frame_index p)"
  "length (frame_buffer (store_byte p b)) = length (frame_buffer p)"
  "sp_state (store_byte p b) = sp_state p"
  "expected_frame_length (store_byte p b) = expected_frame_length p"
  "i \<noteq> frame_index p \<Longrightarrow> frame_buffer (store_byte p b) ! i = frame_buffer p ! i"
  by (simp_all add: store_byte_def)

lemma pending_store_byte:
  "frame_index p < length (frame_buffer p) \<Longrightarrow> pending (store_byte p b) = pending p @ [b]"
  by (simp add: pending_def store_byte_def)

lemma read_u16_pending:
  "Suc i < frame_index p \<Longrightarrow> frame_index p \<le> length (frame_buffer p) \<Longrightarrow>
   read_u16_be (pending p) i = read_u16_be (frame_buffer p) i"
  by (simp add: read_u16_be_alt pending_def)

lemma read_header_ok:
  assumes inv: "parser_inv p" and st: "sp_state p = STREAM_STATE_READ_HEADER" and out: "packet_wf out"
  shows "step_ok p b out (feed_byte p b out)"
proof -
  define q where "q = store_byte p b"
  have idx: "2 \<le> frame_index p" "frame_index p < 8" "length (frame_buffer p) = 266"
    and magic: "starts_magic (frame_buffer p)"
    using inv st by (auto simp: parser_inv_def)
  have pend: "pending q = pending p @ [b]" and lq: "length (frame_buffer q) = 266"
    and iq: "frame_index q = Suc (frame_index p)" and sq: "sp_state q = STREAM_STATE_READ_HEADER"
    using idx st by (simp_all add: q_def pending_store_byte)
  have magic_q: "starts_magic (frame_buffer q)"
    using magic idx by (simp add: starts_magic_def q_def)
  have len: "length (pending p) = frame_index p" using idx by (simp add: length_pending)
  have feed: "feed_byte p b out = (let (ev, p') =
      (if frame_index q < 8 then (STREAM_EVENT_NONE, q)
       else if frame_buffer q ! 2 \<noteq> 1 then reject_header PROTO_ERR_VERSION q
       else if unat (read_u16_be (frame_buffer q) 6) > 256 then reject_header PROTO_ERR_LENGTH q
       else (STREAM_EVENT_NONE, q\<lparr>expected_frame_length := 10 + unat (read_u16_be (frame_buffer q) 6),
              sp_state := STREAM_STATE_READ_REST\<rparr>)) in (ev, p', out))"
    using st idx by (auto simp: feed_byte_def feed_read_header_def q_def store_byte_def Let_def split: if_splits)
  show ?thesis
  proof (cases "frame_index p = 7")
    case False
    with idx have "frame_index q < 8" by (simp add: iq)
    with pend lq iq sq magic_q idx out len show ?thesis
      by (simp add: feed step_ok_def parser_inv_def spec_feed_def)
  next
    case True
    have f: "(pending p @ [b]) ! 2 = frame_buffer q ! 2"
      "read_u16_be (pending p @ [b]) 6 = read_u16_be (frame_buffer q) 6"
      using read_u16_pending [of 6 q] nth_take_pending [of 2 q] True lq iq by (simp_all flip: pend)
    have rej: "\<exists>r. reject_header e q = (STREAM_EVENT_ERROR, r) \<and> parser_inv r \<and>
      pending r = magic_tail (pending p @ [b])" for e
      using resync_refines [of "q\<lparr>last_error := e, format_errors := format_errors q + 1\<rparr>"] True lq iq pend
      by (simp add: reject_header_def pending_def)
    have next_inv: "parser_inv (q\<lparr>expected_frame_length := 10 + unat (read_u16_be (frame_buffer q) 6),
        sp_state := STREAM_STATE_READ_REST\<rparr>)"
      if "frame_buffer q ! 2 = 1" "unat (read_u16_be (frame_buffer q) 6) \<le> 256"
      using that True magic_q lq iq by (simp add: parser_inv_def)
    have next_pend: "pending (q\<lparr>expected_frame_length := k, sp_state := st'\<rparr>) = pending p @ [b]" for k st'
      using pend by (simp add: pending_def)
    consider "frame_buffer q ! 2 \<noteq> 1" | "frame_buffer q ! 2 = 1" "unat (read_u16_be (frame_buffer q) 6) > 256"
      | "frame_buffer q ! 2 = 1" "unat (read_u16_be (frame_buffer q) 6) \<le> 256"
      by linarith
    then show ?thesis
    proof cases
      case 1
      with rej [of PROTO_ERR_VERSION] True f out len iq show ?thesis
        by (auto simp: feed step_ok_def spec_feed_def)
    next
      case 2
      with rej [of PROTO_ERR_LENGTH] True f out len iq show ?thesis
        by (auto simp: feed step_ok_def spec_feed_def)
    next
      case 3
      with next_inv next_pend True f out len iq show ?thesis
        by (simp add: feed step_ok_def spec_feed_def)
    qed
  qed
qed

lemma read_rest_ok:
  assumes inv: "parser_inv p" and st: "sp_state p = STREAM_STATE_READ_REST" and out: "packet_wf out"
  shows "step_ok p b out (feed_byte p b out)"
proof -
  define q where "q = store_byte p b"
  define n where "n = unat (read_u16_be (frame_buffer p) 6)"
  have idx: "8 \<le> frame_index p" "frame_index p < 10 + n" "length (frame_buffer p) = 266"
    "expected_frame_length p = 10 + n" "n \<le> 256"
    and hdr: "starts_magic (frame_buffer p)" "frame_buffer p ! 2 = 1"
    using inv st by (auto simp: parser_inv_def n_def)
  have pend: "pending q = pending p @ [b]" and lq: "length (frame_buffer q) = 266"
    and iq: "frame_index q = Suc (frame_index p)" and sq: "sp_state q = STREAM_STATE_READ_REST"
    and eq: "expected_frame_length q = 10 + n"
    using idx st by (simp_all add: q_def pending_store_byte)
  have nq: "unat (read_u16_be (frame_buffer q) 6) = n"
    using idx by (simp add: n_def q_def read_u16_be_alt)
  have hdr_q: "starts_magic (frame_buffer q)" "frame_buffer q ! 2 = 1"
    using hdr idx by (simp_all add: starts_magic_def q_def)
  have len: "length (pending p) = frame_index p" using idx by (simp add: length_pending)
  have nf: "unat (read_u16_be (pending p @ [b]) 6) = n"
    using read_u16_pending [of 6 q] idx lq iq nq by (simp flip: pend)
  show ?thesis
  proof (cases "Suc (frame_index p) < 10 + n")
    case True
    then have "feed_byte p b out = (STREAM_EVENT_NONE, q, out)"
      using st idx by (simp add: feed_byte_def feed_read_rest_def q_def store_byte_def Let_def)
    with True idx pend lq iq sq eq nq hdr_q out len nf show ?thesis
      by (simp add: step_ok_def parser_inv_def spec_feed_def)
  next
    case False
    then have full: "frame_index q = 10 + n" using idx iq by simp
    obtain res out' where dec: "protocol_decode (Some (frame_buffer q)) (10 + n) (Some out) = (res, Some out')"
      and keep: "res \<noteq> PROTO_OK \<Longrightarrow> out' = out"
      using decode_result [of "frame_buffer q" "10 + n" out] by blast
    have frame: "take (10 + n) (frame_buffer q) = pending p @ [b]"
      using pend full by (simp add: pending_def)
    have "res = PROTO_OK \<longleftrightarrow> is_frame (pending p @ [b])"
      using decode_result_ok [of "10 + n" "frame_buffer q" out] idx lq out dec frame
      by (simp add: is_frame_iff)
    moreover have "packet_ok out' \<and> frame_bytes out' = pending p @ [b]" if "res = PROTO_OK"
      using decode_ok_frame [of "frame_buffer q" "10 + n" out out'] that dec frame idx lq out by simp
    moreover have "\<exists>r. feed_byte p b out = (if res = PROTO_OK then STREAM_EVENT_FRAME else STREAM_EVENT_ERROR, r, out')
        \<and> parser_inv r \<and> pending r = []"
      using st idx full dec eq lq
      by (auto simp: feed_byte_def feed_read_rest_def store_byte_def Let_def q_def parser_inv_def
          stream_parser_reset_frame_def pending_def)
    moreover have "packet_wf out'" if "packet_ok out'" using that by (simp add: packet_ok_def)
    ultimately show ?thesis
      using full iq idx len nf out keep by (auto simp: step_ok_def spec_feed_def)
  qed
qed

lemma feed_byte_ok: "parser_inv p \<Longrightarrow> packet_wf out \<Longrightarrow> step_ok p b out (feed_byte p b out)"
  by (cases "sp_state p")
    (auto intro: wait_magic_1_ok wait_magic_2_ok read_header_ok read_rest_ok simp: parser_inv_def [of p])

subsection \<open>Statistics\<close>

lemma decode_complete_result:
  assumes "starts_magic b" "b ! 2 = 1" "unat (read_u16_be b 6) \<le> 256" "k = 10 + unat (read_u16_be b 6)"
  shows "fst (protocol_decode (Some b) k (Some q)) \<in> {PROTO_OK, PROTO_ERR_CRC}"
  using assms by (simp add: protocol_decode_def Let_def starts_magic_def read_u16_be_alt [of b 0] be16_magic)

lemma resync_from_tail_counters [simp]:
  "frames_ok (resync_from_tail p) = frames_ok p" "crc_errors (resync_from_tail p) = crc_errors p"
  "format_errors (resync_from_tail p) = format_errors p" "last_error (resync_from_tail p) = last_error p"
  "discarded_bytes (resync_from_tail p) = discarded_bytes p"
  by (simp_all add: resync_from_tail_def Let_def)

definition counters_ok :: "stream_parser_t \<Rightarrow> stream_parser_event_t \<Rightarrow> stream_parser_t \<Rightarrow> bool" where
  "counters_ok p ev p' \<longleftrightarrow>
     frames_ok p' = frames_ok p + (if ev = STREAM_EVENT_FRAME then 1 else 0) \<and>
     (if ev = STREAM_EVENT_ERROR
      then last_error p' \<in> {PROTO_ERR_VERSION, PROTO_ERR_LENGTH, PROTO_ERR_CRC} \<and>
        crc_errors p' = crc_errors p + (if last_error p' = PROTO_ERR_CRC then 1 else 0) \<and>
        format_errors p' = format_errors p + (if last_error p' = PROTO_ERR_CRC then 0 else 1)
      else crc_errors p' = crc_errors p \<and> format_errors p' = format_errors p)"

lemma read_rest_counters:
  assumes inv: "parser_inv p" and st: "sp_state p = STREAM_STATE_READ_REST"
    and feed: "feed_byte p b out = (ev, p', out')"
  shows "counters_ok p ev p'"
proof -
  define q where "q = (frame_buffer p)[frame_index p := b]"
  have idx: "8 \<le> frame_index p" "frame_index p < 266" "frame_index p < expected_frame_length p"
    and n: "expected_frame_length p = 10 + unat (read_u16_be q 6)" "unat (read_u16_be q 6) \<le> 256"
    and hdr: "starts_magic q" "q ! 2 = 1"
    using inv st by (auto simp: parser_inv_def starts_magic_def read_u16_be_alt q_def)
  obtain res o2 where dec: "protocol_decode (Some q) (Suc (frame_index p)) (Some out) = (res, Some o2)"
    using decode_result by blast
  have "res \<in> {PROTO_OK, PROTO_ERR_CRC}" if "Suc (frame_index p) = expected_frame_length p"
    using decode_complete_result [OF hdr n(2), of _ out] n(1) dec that by (metis fst_conv)
  then show ?thesis
    using feed st idx dec
    by (auto simp: feed_byte_def feed_read_rest_def Let_def stream_parser_reset_frame_def counters_ok_def
        simp flip: q_def split: if_splits)
qed

lemma feed_byte_counters:
  assumes inv: "parser_inv p" and feed: "feed_byte p b out = (ev, p', out')"
  shows "counters_ok p ev p'"
proof (cases "sp_state p")
  case STREAM_STATE_READ_HEADER
  with inv have "frame_index p < 8" by (simp add: parser_inv_def)
  with feed STREAM_STATE_READ_HEADER show ?thesis
    by (auto simp: feed_byte_def feed_read_header_def reject_header_def counters_ok_def Let_def split: if_splits)
next
  case STREAM_STATE_READ_REST
  then show ?thesis using read_rest_counters [OF inv _ feed] by simp
qed (use feed inv in \<open>auto simp: feed_byte_def feed_wait_magic_1_def feed_wait_magic_2_def counters_ok_def
      parser_inv_def\<close>)

subsection \<open>Whole streams\<close>

lemma feed_all_append:
  "feed_all p out (xs @ ys) =
     (let (ds1, p1, o1) = feed_all p out xs; (ds2, p2, o2) = feed_all p1 o1 ys in (ds1 @ ds2, p2, o2))"
  by (induction p out xs rule: feed_all.induct) (auto split: prod.splits)

lemma feed_all_inv:
  "parser_inv p \<Longrightarrow> packet_wf out \<Longrightarrow> feed_all p out bs = (ds, p', out') \<Longrightarrow>
   parser_inv p' \<and> packet_wf out' \<and> frames_ok p' = frames_ok p + of_nat (length ds)"
proof (induction bs arbitrary: p out ds)
  case (Cons b bs)
  obtain ev q o1 where f: "feed_byte p b out = (ev, q, o1)" by (cases "feed_byte p b out")
  obtain es where r: "feed_all q o1 bs = (es, p', out')"
    and ds: "ds = (if ev = STREAM_EVENT_FRAME then o1 # es else es)"
    using Cons.prems(3) f by (auto split: prod.splits)
  have "parser_inv q" "packet_wf o1"
    using feed_byte_ok [OF Cons.prems(1,2), of b] f by (auto simp: step_ok_def)
  with Cons.IH [OF _ _ r] feed_byte_counters [OF Cons.prems(1) f] ds show ?case
    by (auto simp: counters_ok_def)
qed simp

lemma frame_bytes_fields:
  assumes "packet_ok m"
  shows "frame_bytes m ! 0 = 0xAA" "frame_bytes m ! 1 = 0x55" "frame_bytes m ! 2 = 1"
    "read_u16_be (frame_bytes m) 6 = pk_length m"
  using assms by (simp_all add: frame_bytes_def body_bytes_def packet_ok_def read_u16_be_alt eval_nat_numeral)

lemma spec_feed_frame:
  assumes m: "packet_ok m" and k: "k < length (frame_bytes m)"
  shows "spec_feed (take k (frame_bytes m)) (frame_bytes m ! k) =
    (if Suc k = length (frame_bytes m) then (STREAM_EVENT_FRAME, [])
     else (STREAM_EVENT_NONE, take (Suc k) (frame_bytes m)))"
proof -
  define F where "F = frame_bytes m"
  have len: "length F = 10 + unat (pk_length m)" "unat (pk_length m) \<le> 256" and kF: "k < length F"
    using m k by (simp_all add: F_def packet_ok_def)
  have f: "take k F @ [F ! k] = take (Suc k) F" using kF by (simp add: take_Suc_conv_app_nth)
  have fields: "F ! 0 = 0xAA" "F ! 1 = 0x55" "F ! 2 = 1" "read_u16_be F 6 = pk_length m"
    using frame_bytes_fields [OF m] by (simp_all add: F_def)
  have r6: "read_u16_be (take (Suc k) F) 6 = pk_length m" if "7 \<le> k"
    using that kF fields(4) by (simp add: read_u16_be_alt)
  have frame: "is_frame F" using m by (auto simp: F_def is_frame_iff)
  consider "k = 0" | "k = 1" | "2 \<le> k" "k < 7" | "k = 7" | "8 \<le> k" by linarith
  then show ?thesis
    unfolding F_def [symmetric]
    by cases (use len kF f fields r6 frame in \<open>auto simp: spec_feed_def Let_def\<close>)
qed

lemma feed_all_rest_of_frame:
  assumes "packet_ok m" "parser_inv p" "packet_wf out" "pending p = take k (frame_bytes m)"
    and "k < length (frame_bytes m)"
  shows "\<exists>p' r. feed_all p out (drop k (frame_bytes m)) = ([r], p', r) \<and> parser_inv p' \<and> packet_wf r \<and>
    pending p' = [] \<and> same_message m r"
  using assms(2-5)
proof (induction "length (frame_bytes m) - k" arbitrary: p out k)
  case (Suc d)
  define b where "b = frame_bytes m ! k"
  have d: "drop k (frame_bytes m) = b # drop (Suc k) (frame_bytes m)"
    using Suc.prems(4) by (simp add: b_def Cons_nth_drop_Suc)
  obtain ev q o1 where f: "feed_byte p b out = (ev, q, o1)" by (cases "feed_byte p b out")
  have step: "parser_inv q" "packet_wf o1" "spec_feed (pending p) b = (ev, pending q)"
    "ev = STREAM_EVENT_FRAME \<Longrightarrow> packet_ok o1 \<and> frame_bytes o1 = pending p @ [b]"
    using feed_byte_ok [OF Suc.prems(1,2), of b] f by (auto simp: step_ok_def)
  show ?case
  proof (cases "Suc k = length (frame_bytes m)")
    case True
    then have "ev = STREAM_EVENT_FRAME" "pending q = []"
      using step(3) spec_feed_frame [OF assms(1) Suc.prems(4)] Suc.prems(3) by (auto simp: b_def)
    moreover have "take k (frame_bytes m) @ [b] = frame_bytes m"
      using True by (metis Suc.prems(4) b_def order_refl take_Suc_conv_app_nth take_all)
    ultimately have "same_message m o1"
      using step(4) Suc.prems(3) assms(1) by (intro frame_bytes_inject) auto
    with True \<open>ev = STREAM_EVENT_FRAME\<close> \<open>pending q = []\<close> step f show ?thesis by (simp add: d)
  next
    case False
    then have ev: "ev = STREAM_EVENT_NONE" "pending q = take (Suc k) (frame_bytes m)"
      using step(3) spec_feed_frame [OF assms(1) Suc.prems(4)] Suc.prems(3) by (auto simp: b_def)
    have "d = length (frame_bytes m) - Suc k" "Suc k < length (frame_bytes m)"
      using Suc.hyps(2) Suc.prems(4) False by simp_all
    then obtain p' r where "feed_all q o1 (drop (Suc k) (frame_bytes m)) = ([r], p', r)" "parser_inv p'"
      "packet_wf r" "pending p' = []" "same_message m r"
      using Suc.hyps(1) [OF _ step(1,2) ev(2)] by blast
    with ev f show ?thesis by (simp add: d)
  qed
qed simp

lemmas feed_all_frame = feed_all_rest_of_frame [where k = 0, simplified]

lemma feed_all_frames:
  "\<lbrakk>\<forall>m \<in> set ms. packet_ok m; parser_inv p; packet_wf out; pending p = []\<rbrakk> \<Longrightarrow>
   \<exists>ds p' out'. feed_all p out (concat (map frame_bytes ms)) = (ds, p', out') \<and>
     list_all2 same_message ms ds \<and> parser_inv p' \<and> packet_wf out' \<and> pending p' = []"
proof (induction ms arbitrary: p out)
  case (Cons m ms)
  have ne: "frame_bytes m \<noteq> []" by (simp add: frame_bytes_def)
  obtain q r where one: "feed_all p out (frame_bytes m) = ([r], q, r)" "parser_inv q" "packet_wf r"
    "pending q = []" "same_message m r"
    using feed_all_frame [of m p out] Cons.prems ne by auto
  with Cons.IH [of q r] Cons.prems(1) show ?case
    by (fastforce simp: feed_all_append)
qed simp

text \<open>Bytes other than the first magic byte flush a candidate frame in bounded time.\<close>

definition clean :: "u8 list \<Rightarrow> bool" where
  "clean pend \<longleftrightarrow> pend = [] \<or> 2 \<le> length pend \<and> last pend \<noteq> MAGIC_HI"

lemma spec_feed_first_quiet:
  assumes "b \<noteq> MAGIC_HI"
  shows "clean (snd (spec_feed pend b))"
proof -
  have "last (pend @ [b]) \<noteq> MAGIC_HI" using assms by simp
  then show ?thesis using assms by (auto simp: spec_feed_def clean_def magic_tail_def Let_def Suc_le_eq)
qed

lemma spec_feed_quiet:
  assumes "b \<noteq> MAGIC_HI" "clean pend"
  shows "snd (spec_feed pend b) = [] \<or> snd (spec_feed pend b) = pend @ [b] \<and> pend \<noteq> []"
proof (cases "length pend = 7")
  case True
  then have two: "drop 6 (pend @ [b]) = [last pend, b]"
    using last_two [of 8 "pend @ [b]"] by (simp add: nth_append last_conv_nth flip: length_greater_0_conv)
  have "last pend \<noteq> MAGIC_HI" using assms True by (auto simp: clean_def)
  with True two assms(1) show ?thesis by (auto simp: spec_feed_def magic_tail_def Let_def)
qed (use assms in \<open>auto simp: spec_feed_def clean_def Let_def\<close>)

lemma pending_bound: "parser_inv p \<Longrightarrow> length (pending p) \<le> 265"
  by (auto simp: parser_inv_def pending_def split: stream_parser_state_t.splits)

lemma feed_all_quiet_clean:
  assumes "MAGIC_HI \<notin> set bs" "parser_inv p" "packet_wf out" "clean (pending p)"
    and "feed_all p out bs = (ds, p', out')" and "pending p \<noteq> [] \<longrightarrow> 266 \<le> length (pending p) + length bs"
  shows "pending p' = []"
  using assms
proof (induction bs arbitrary: p out ds)
  case Nil
  then show ?case using pending_bound [of p] by auto
next
  case (Cons b bs)
  obtain ev q o1 where f: "feed_byte p b out = (ev, q, o1)" by (cases "feed_byte p b out")
  obtain es where r: "feed_all q o1 bs = (es, p', out')"
    using Cons.prems(5) f by (auto split: prod.splits)
  have step: "parser_inv q" "packet_wf o1" "spec_feed (pending p) b = (ev, pending q)"
    using feed_byte_ok [OF Cons.prems(2,3), of b] f by (auto simp: step_ok_def)
  have b: "b \<noteq> MAGIC_HI" and bs: "MAGIC_HI \<notin> set bs" using Cons.prems(1) by auto
  have "clean (pending q)" using spec_feed_first_quiet [OF b, of "pending p"] step(3) by simp
  moreover have "pending q \<noteq> [] \<longrightarrow> 266 \<le> length (pending q) + length bs"
    using spec_feed_quiet [OF b Cons.prems(4)] step(3) Cons.prems(6) by auto
  ultimately show ?case by (intro Cons.IH [OF bs step(1,2) _ r])
qed

lemma feed_all_quiet:
  assumes "MAGIC_HI \<notin> set bs" "265 \<le> length bs" "parser_inv p" "packet_wf out"
    and "feed_all p out bs = (ds, p', out')"
  shows "pending p' = []"
proof -
  obtain b cs where bs: "bs = b # cs" using assms(2) by (cases bs) auto
  obtain ev q o1 where f: "feed_byte p b out = (ev, q, o1)" by (cases "feed_byte p b out")
  obtain es where r: "feed_all q o1 cs = (es, p', out')"
    using assms(5) f bs by (auto split: prod.splits)
  have step: "parser_inv q" "packet_wf o1" "spec_feed (pending p) b = (ev, pending q)"
    using feed_byte_ok [OF assms(3,4), of b] f by (auto simp: step_ok_def)
  have cl: "clean (pending q)"
    using spec_feed_first_quiet [of b "pending p"] step(3) assms(1) bs by auto
  then have "pending q \<noteq> [] \<longrightarrow> 266 \<le> length (pending q) + length cs"
    using assms(2) bs by (auto simp: clean_def)
  with cl show ?thesis
    using feed_all_quiet_clean [OF _ step(1,2) cl r] assms(1) bs by auto
qed

subsection \<open>Properties\<close>

text \<open>C10: one step of the parser, in every state its invariant allows and for every byte: the
  array index stays inside the 266-byte buffer (the invariant holds again, so the defensive
  branches and the \<^verbatim>\<open>default\<close> case are never taken), the event and the new state are those of
  the specification over pending bytes, and a packet is delivered only when the collected bytes
  are exactly its wire format; otherwise the caller's packet is untouched.\<close>

theorem feed_byte_refines_spec:
  assumes "parser_inv p" and "packet_wf out" and "feed_byte p b out = (ev, p', out')"
  shows "parser_inv p' \<and> packet_wf out' \<and> spec_feed (pending p) b = (ev, pending p') \<and>
    (ev = STREAM_EVENT_FRAME \<longrightarrow> packet_ok out' \<and> frame_bytes out' = pending p @ [b]) \<and>
    (ev \<noteq> STREAM_EVENT_FRAME \<longrightarrow> out' = out)"
  using feed_byte_ok [OF assms(1,2), of b] assms(3) by (auto simp: step_ok_def)

theorem feed_byte_refines_spec_witness:
  "\<exists>p' out'. feed_byte stream_parser_init 0xAA zero_packet = (STREAM_EVENT_NONE, p', out') \<and>
    parser_inv p' \<and> spec_feed [] 0xAA = (STREAM_EVENT_NONE, [0xAA])"
proof -
  obtain ev p' out' where f: "feed_byte stream_parser_init 0xAA zero_packet = (ev, p', out')"
    by (cases "feed_byte stream_parser_init 0xAA zero_packet")
  moreover have "ev = STREAM_EVENT_NONE"
    using f by (simp add: feed_byte_def feed_wait_magic_1_def stream_parser_init_def)
  moreover have "spec_feed [] 0xAA = (STREAM_EVENT_NONE, [0xAA])" by (simp add: spec_feed_def)
  ultimately show ?thesis
    using feed_byte_refines_spec [of stream_parser_init zero_packet "0xAA" ev p' out'] by simp
qed

text \<open>The statistics tell the events apart: a delivered frame, and only that, increments
  \<^verbatim>\<open>frames_ok\<close>; a rejection increments exactly one of \<^verbatim>\<open>crc_errors\<close> and \<^verbatim>\<open>format_errors\<close>,
  and \<^verbatim>\<open>last_error\<close> then says which (all counters modulo 2 to the 32).\<close>

theorem feed_byte_counts_events:
  assumes "parser_inv p" and "feed_byte p b out = (ev, p', out')"
  shows "frames_ok p' = frames_ok p + (if ev = STREAM_EVENT_FRAME then 1 else 0) \<and>
    (if ev = STREAM_EVENT_ERROR
     then last_error p' \<in> {PROTO_ERR_VERSION, PROTO_ERR_LENGTH, PROTO_ERR_CRC} \<and>
       crc_errors p' = crc_errors p + (if last_error p' = PROTO_ERR_CRC then 1 else 0) \<and>
       format_errors p' = format_errors p + (if last_error p' = PROTO_ERR_CRC then 0 else 1)
     else crc_errors p' = crc_errors p \<and> format_errors p' = format_errors p)"
  using feed_byte_counters [OF assms] unfolding counters_ok_def .

theorem feed_byte_counts_events_witness:
  "frames_ok (fst (snd (feed_byte stream_parser_init 0x00 zero_packet))) = 0"
  using feed_byte_counts_events [of stream_parser_init "0x00" zero_packet STREAM_EVENT_NONE
      "stream_parser_init\<lparr>discarded_bytes := 1\<rparr>" zero_packet]
  by (simp add: feed_byte_def feed_wait_magic_1_def stream_parser_init_def)

text \<open>C16: framing over a stream: from an idle parser, any sequence of encoded packets sent back
  to back is delivered completely, in order and unchanged, and the parser is idle again; the
  number of deliveries is what \<^verbatim>\<open>frames_ok\<close> grew by.\<close>

theorem stream_delivers_frames:
  assumes "\<forall>m \<in> set ms. packet_ok m" and "parser_inv p" and "packet_wf out" and "pending p = []"
  shows "\<exists>ds p' out'. feed_all p out (concat (map frame_bytes ms)) = (ds, p', out') \<and>
    list_all2 same_message ms ds \<and> parser_inv p' \<and> pending p' = [] \<and>
    frames_ok p' = frames_ok p + of_nat (length ms)"
proof -
  obtain ds p' out' where f: "feed_all p out (concat (map frame_bytes ms)) = (ds, p', out')"
    "list_all2 same_message ms ds" "parser_inv p'" "pending p' = []"
    using feed_all_frames [OF assms] by blast
  moreover have "frames_ok p' = frames_ok p + of_nat (length ds)"
    using feed_all_inv [OF assms(2,3) f(1)] by simp
  ultimately show ?thesis by (auto dest: list_all2_lengthD)
qed

theorem stream_delivers_frames_witness:
  "\<exists>ds p' out'. feed_all stream_parser_init zero_packet (frame_bytes sample_ping @ frame_bytes sample_ping)
     = (ds, p', out') \<and> list_all2 same_message [sample_ping, sample_ping] ds \<and> frames_ok p' = 2"
  using stream_delivers_frames [of "[sample_ping, sample_ping]" stream_parser_init zero_packet]
  by (force simp: pending_def stream_parser_init_def [THEN arg_cong, of frame_index]
      stream_parser_init_def [THEN arg_cong, of frames_ok])

text \<open>C15: recovery: whatever candidate frame the parser is in the middle of (after any
  corruption or loss), 265 bytes without the first magic byte make it idle, so that a frame
  sent after such a gap is delivered last and unchanged.\<close>

theorem stream_resynchronises:
  assumes "parser_inv p" and "packet_wf out" and "MAGIC_HI \<notin> set gap" and "265 \<le> length gap"
    and "packet_ok m"
  shows "\<exists>ds r p'. feed_all p out (gap @ frame_bytes m) = (ds @ [r], p', r) \<and> same_message m r \<and>
    parser_inv p' \<and> pending p' = []"
proof -
  obtain ds q o1 where g: "feed_all p out gap = (ds, q, o1)" by (cases "feed_all p out gap")
  have "parser_inv q" "packet_wf o1" using feed_all_inv [OF assms(1,2) g] by auto
  moreover have "pending q = []" by (rule feed_all_quiet [OF assms(3,4,1,2) g])
  moreover have "frame_bytes m \<noteq> []" by (simp add: frame_bytes_def)
  ultimately obtain p' r where "feed_all q o1 (frame_bytes m) = ([r], p', r)" "parser_inv p'"
    "pending p' = []" "same_message m r"
    using feed_all_frame [OF assms(5), of q o1] by auto
  with g show ?thesis by (simp add: feed_all_append)
qed

theorem stream_resynchronises_witness:
  "\<exists>ds r p'. feed_all stream_parser_init zero_packet (replicate 265 0 @ frame_bytes sample_ping) =
    (ds @ [r], p', r) \<and> same_message sample_ping r"
  using stream_resynchronises [of stream_parser_init zero_packet "replicate 265 0" sample_ping] by auto

end
