(* ===== verification/ParserClient.thy ===== *)
theory ParserClient
  imports StreamParser
begin

text \<open>
  The interface between the stream parser and the code that drives it. Three loops of the two
  firmware images feed a parser byte by byte and act on completed packets: the remote node, the
  gateway's RS-422 receiver and the gateway's TCP receiver. A client owns a parser and an output
  packet, stores what the parser returns, and calls its handler when a frame is complete.
\<close>

locale parser_client =
  fixes parser_of :: "'s \<Rightarrow> stream_parser_t"
    and out_of :: "'s \<Rightarrow> protocol_packet_t"
    and put :: "stream_parser_t \<Rightarrow> protocol_packet_t \<Rightarrow> 's \<Rightarrow> 's"
    and step :: "u8 \<Rightarrow> 's \<Rightarrow> 's"
    and deliver :: "protocol_packet_t \<Rightarrow> 's \<Rightarrow> 's"
  assumes parser_put: "parser_of (put p out s) = p"
    and out_put: "packet_wf out \<Longrightarrow> packet_wf (out_of s) \<Longrightarrow> packet_wf (out_of (put p out s))"
    and put_put: "put p out (put q out1 s) = put p out s"
    and step_quiet: "feed_byte (parser_of s) b (out_of s) = (STREAM_EVENT_NONE, p, out) \<Longrightarrow> step b s = put p out s"
    and step_frame: "feed_byte (parser_of s) b (out_of s) = (STREAM_EVENT_FRAME, p, out) \<Longrightarrow>
      step b s = deliver out (put p out s)"
begin

lemma rest_of_frame_delivered:
  assumes m: "packet_ok m"
  shows "\<lbrakk>parser_inv (parser_of s); packet_wf (out_of s); pending (parser_of s) = take k (frame_bytes m);
      k < length (frame_bytes m)\<rbrakk> \<Longrightarrow>
    \<exists>p r. fold step (drop k (frame_bytes m)) s = deliver r (put p r s) \<and> parser_inv p \<and> pending p = [] \<and>
      packet_ok r \<and> same_message m r"
proof (induction "length (frame_bytes m) - k" arbitrary: s k)
  case (Suc d)
  define b where "b = frame_bytes m ! k"
  have d: "drop k (frame_bytes m) = b # drop (Suc k) (frame_bytes m)"
    using Suc.prems(4) by (simp add: b_def Cons_nth_drop_Suc)
  obtain ev p r where f: "feed_byte (parser_of s) b (out_of s) = (ev, p, r)"
    by (cases "feed_byte (parser_of s) b (out_of s)")
  have ok: "step_ok (parser_of s) b (out_of s) (ev, p, r)" using feed_byte_ok [OF Suc.prems(1,2), of b] f by simp
  have spec: "spec_feed (take k (frame_bytes m)) b = (ev, pending p)"
    using ok Suc.prems(3) by (simp add: step_ok_def)
  note frame = spec_feed_frame [OF m Suc.prems(4), folded b_def, unfolded spec]
  show ?case
  proof (cases "Suc k = length (frame_bytes m)")
    case True
    with frame have ev: "ev = STREAM_EVENT_FRAME" "pending p = []" by simp_all
    have "frame_bytes r = take (Suc k) (frame_bytes m)" "packet_ok r"
      using ok ev Suc.prems(3,4) by (simp_all add: step_ok_def b_def take_Suc_conv_app_nth)
    with True have "same_message m r" using m by (intro frame_bytes_inject) simp_all
    with True ev ok \<open>packet_ok r\<close> show ?thesis
      using step_frame [of s b p r] f by (auto simp: d step_ok_def)
  next
    case False
    with frame have ev: "ev = STREAM_EVENT_NONE" "pending p = take (Suc k) (frame_bytes m)" by simp_all
    have step: "step b s = put p r s" using step_quiet f ev by simp
    have "\<exists>p' r'. fold step (drop (Suc k) (frame_bytes m)) (put p r s) = deliver r' (put p' r' (put p r s)) \<and>
        parser_inv p' \<and> pending p' = [] \<and> packet_ok r' \<and> same_message m r'"
      using Suc.hyps(2) Suc.prems ev ok False
      by (intro Suc.hyps(1)) (auto simp: parser_put step_ok_def intro: out_put)
    then show ?thesis by (simp add: d step put_put)
  qed
qed simp

text \<open>A frame that arrives while the parser is idle reaches the handler, exactly once and intact.\<close>

lemma frame_delivered:
  assumes "packet_ok m" "parser_inv (parser_of s)" "packet_wf (out_of s)" "pending (parser_of s) = []"
  shows "\<exists>p r. fold step (frame_bytes m) s = deliver r (put p r s) \<and> parser_inv p \<and> pending p = [] \<and>
    packet_ok r \<and> same_message m r"
  using rest_of_frame_delivered [OF assms(1-3), of 0] assms(4) by (auto simp: frame_bytes_def)

end

end
