(* ===== verification/Timing.thy ===== *)
theory Timing
  imports Prelude
begin

text \<open>
  Timers over wrapping 32-bit ticks, against unbounded time: both firmware images decide that a
  period has passed by an unsigned subtraction of tick values.
\<close>

text \<open>
  The firing times of a timer with period \<open>P\<close>, last started at time \<open>l\<close> and looked at
  at the times \<open>ts\<close>, in unbounded milliseconds.
\<close>

fun fires :: "nat \<Rightarrow> nat \<Rightarrow> nat list \<Rightarrow> nat list" where
  "fires P l [] = []"
| "fires P l (t # ts) = (if P \<le> t - l then t # fires P t ts else fires P l ts)"

text \<open>Polling times that start at \<open>l\<close>, never go back, and are never more than \<open>d\<close> apart.\<close>

fun polled :: "nat \<Rightarrow> nat \<Rightarrow> nat list \<Rightarrow> bool" where
  "polled d l [] \<longleftrightarrow> True"
| "polled d l (t # ts) \<longleftrightarrow> l \<le> t \<and> t \<le> l + d \<and> polled d t ts"

fun gaps_within :: "nat \<Rightarrow> nat \<Rightarrow> nat \<Rightarrow> nat list \<Rightarrow> bool" where
  "gaps_within a b l [] \<longleftrightarrow> True"
| "gaps_within a b l (t # ts) \<longleftrightarrow> l + a \<le> t \<and> t \<le> l + b \<and> gaps_within a b t ts"

lemma fires_gaps_aux: "polled d t0 ts \<Longrightarrow> l \<le> t0 \<Longrightarrow> t0 < l + P \<Longrightarrow> gaps_within P (P + d) l (fires P l ts)"
proof (induction ts arbitrary: l t0)
  case (Cons t ts)
  show ?case
  proof (cases "P \<le> t - l")
    case True
    moreover have "gaps_within P (P + d) t (fires P t ts)"
      using Cons.IH [of t t] Cons.prems by simp
    ultimately show ?thesis using Cons.prems by simp
  next
    case False
    with Cons.prems have "gaps_within P (P + d) l (fires P l ts)" by (intro Cons.IH [of t]) auto
    with False show ?thesis by simp
  qed
qed simp

lemma fires_gaps: "polled d l ts \<Longrightarrow> 0 < P \<Longrightarrow> gaps_within P (P + d) l (fires P l ts)"
  using fires_gaps_aux [of d l ts l P] by simp

text \<open>The 32-bit subtraction measures true time differences below \<open>2 ^ 32\<close>.\<close>

lemma tick_elapsed:
  assumes "l \<le> t" "t - l < 2 ^ 32"
  shows "unat (of_nat t - of_nat l :: u32) = t - l"
proof -
  have "(of_nat t - of_nat l :: u32) = of_nat (t - l)" using assms(1) by (simp add: of_nat_diff)
  then show ?thesis using assms(2) by (simp add: unat_of_nat take_bit_nat_eq_self)
qed

lemma tick_diff:
  assumes "l \<le> t" "t - l < 2 ^ 32"
  shows "(of_nat t - of_nat l :: u32) \<ge> P \<longleftrightarrow> unat P \<le> t - l"
  by (simp add: word_le_nat_alt tick_elapsed [OF assms])

lemma polled_mono: "polled d l ts \<Longrightarrow> t \<in> set ts \<Longrightarrow> l \<le> t"
  by (induction d l ts rule: polled.induct) (auto dest: order_trans)

end
