(* ===== verification/RemoteNode.thy ===== *)
theory RemoteNode
  imports ParserClient Timing
begin

text \<open>
  The platform-independent application of the remote node (\<^verbatim>\<open>remote_node.h\<close>,
  \<^verbatim>\<open>remote_node.c\<close>): it answers requests that arrive over RS-422 and sends telemetry and a
  heartbeat periodically.

  The platform is behind two function pointers that get the \<^verbatim>\<open>user_context\<close>. Its state is the
  value \<open>c\<close> that every operation threads: \<open>time_fn\<close> reads it, \<open>tx_fn\<close> gets the bytes
  of the frame and returns a C status and the new context. Null function pointers are \<open>None\<close>.
  The static functions are only called with the addresses of objects; the external ones
  compare \<^verbatim>\<open>node\<close> with \<^verbatim>\<open>NULL\<close> and take an option. Local packets the C code clears with
  \<^verbatim>\<open>memset\<close> start as \<open>zero_packet\<close>.
\<close>

subsection \<open>State\<close>

definition REMOTE_NODE_HEARTBEAT_PERIOD_MS :: u32 where
  [simp, proto_const]: "REMOTE_NODE_HEARTBEAT_PERIOD_MS = 500"
definition REMOTE_NODE_TELEMETRY_PERIOD_MS :: u32 where
  [simp, proto_const]: "REMOTE_NODE_TELEMETRY_PERIOD_MS = 100"

datatype remote_node_comm_status_t = COMM_INIT | COMM_OK | COMM_ERROR

fun comm_status_value :: "remote_node_comm_status_t \<Rightarrow> u8" where
  "comm_status_value COMM_INIT = 0"
| "comm_status_value COMM_OK = 1"
| "comm_status_value COMM_ERROR = 2"

datatype remote_node_error_code_t =
  REMOTE_ERROR_UNKNOWN_MSG | REMOTE_ERROR_BAD_LENGTH | REMOTE_ERROR_UNSUPPORTED

fun error_code_value :: "remote_node_error_code_t \<Rightarrow> u8" where
  "error_code_value REMOTE_ERROR_UNKNOWN_MSG = 1"
| "error_code_value REMOTE_ERROR_BAD_LENGTH = 2"
| "error_code_value REMOTE_ERROR_UNSUPPORTED = 3"

record remote_node_stats_t =
  valid_frame_count :: u32
  parser_error_count :: u32
  crc_error_count :: u32
  unknown_msg_count :: u32
  duplicate_seq_count :: u32
  uart_rx_overflow_count :: u32
  uart_error_count :: u32
  tx_error_count :: u32
  last_rx_seq :: u16
  comm_status :: remote_node_comm_status_t

record 'c remote_node_t =
  parser :: stream_parser_t
  stats :: remote_node_stats_t
  time_fn :: "('c \<Rightarrow> u32) option"
  tx_fn :: "(u8 list \<Rightarrow> 'c \<Rightarrow> int \<times> 'c) option"
  last_heartbeat_ms :: u32
  last_telemetry_ms :: u32
  heartbeat_seq :: u16
  telemetry_seq :: u16
  status_flags :: u16
  last_request_msg_id :: u8
  last_request_seq :: u16
  last_request_valid :: u8

subsection \<open>Operations\<close>

definition write_u32_be :: "u8 list \<Rightarrow> nat \<Rightarrow> u32 \<Rightarrow> u8 list" where
  "write_u32_be dst off v =
     dst[off := ucast (drop_bit 24 v AND 0xFF), off + 1 := ucast (drop_bit 16 v AND 0xFF),
         off + 2 := ucast (drop_bit 8 v AND 0xFF), off + 3 := ucast (v AND 0xFF)]"

definition remote_node_now :: "'c remote_node_t \<Rightarrow> 'c \<Rightarrow> u32" where
  "remote_node_now node c = (case time_fn node of None \<Rightarrow> 0 | Some f \<Rightarrow> f c)"

definition count_tx_error :: "'c remote_node_t \<Rightarrow> 'c remote_node_t" where
  "count_tx_error node = node\<lparr>stats := (stats node)\<lparr>
     tx_error_count := tx_error_count (stats node) + 1, comm_status := COMM_ERROR\<rparr>\<rparr>"

definition remote_node_send_packet ::
  "'c remote_node_t \<Rightarrow> protocol_packet_t \<Rightarrow> 'c \<Rightarrow> int \<times> 'c remote_node_t \<times> 'c" where
  "remote_node_send_packet node packet c =
     (case tx_fn node of
        None \<Rightarrow> (-1, node, c)
      | Some tx \<Rightarrow>
          let (res, frame, frame_length) = protocol_encode (Some packet)
                (Some (replicate PROTOCOL_MAX_FRAME_SIZE 0)) PROTOCOL_MAX_FRAME_SIZE (Some 0)
          in if res \<noteq> PROTO_OK then (-1, count_tx_error node, c)
             else
               let (status, c) = tx (take (the frame_length) (the frame)) c
               in if status \<noteq> 0 then (-1, count_tx_error node, c) else (0, node, c))"

definition remote_node_send_error ::
  "'c remote_node_t \<Rightarrow> u16 \<Rightarrow> remote_node_error_code_t \<Rightarrow> u8 \<Rightarrow> 'c \<Rightarrow> 'c remote_node_t \<times> 'c" where
  "remote_node_send_error node request_seq error_code offending_msg_id c =
     snd (remote_node_send_packet node (zero_packet\<lparr>
       pk_version := PROTOCOL_VERSION, pk_msg_id := MSG_ERROR, pk_seq := request_seq, pk_length := 2,
       pk_payload := (pk_payload zero_packet)[0 := error_code_value error_code, 1 := offending_msg_id]\<rparr>) c)"

definition remote_node_remember_request ::
  "'c remote_node_t \<Rightarrow> protocol_packet_t \<Rightarrow> 'c remote_node_t" where
  "remote_node_remember_request node request =
     (let node = (if last_request_valid node \<noteq> 0 \<and> last_request_msg_id node = pk_msg_id request \<and>
                     last_request_seq node = pk_seq request
                  then node\<lparr>stats := (stats node)\<lparr>duplicate_seq_count := duplicate_seq_count (stats node) + 1\<rparr>\<rparr>
                  else node)
      in node\<lparr>last_request_msg_id := pk_msg_id request, last_request_seq := pk_seq request,
              last_request_valid := 1\<rparr>)"

definition remote_node_handle_ping ::
  "'c remote_node_t \<Rightarrow> protocol_packet_t \<Rightarrow> 'c \<Rightarrow> 'c remote_node_t \<times> 'c" where
  "remote_node_handle_ping node request c =
     (if pk_length request \<noteq> 0
      then remote_node_send_error node (pk_seq request) REMOTE_ERROR_BAD_LENGTH (pk_msg_id request) c
      else
        let node = remote_node_remember_request node request
        in snd (remote_node_send_packet node (zero_packet\<lparr>
             pk_version := PROTOCOL_VERSION, pk_msg_id := MSG_PONG, pk_seq := pk_seq request,
             pk_length := 0\<rparr>) c))"

definition remote_node_handle_read_status ::
  "'c remote_node_t \<Rightarrow> protocol_packet_t \<Rightarrow> 'c \<Rightarrow> 'c remote_node_t \<times> 'c" where
  "remote_node_handle_read_status node request c =
     (if pk_length request \<noteq> 0
      then remote_node_send_error node (pk_seq request) REMOTE_ERROR_BAD_LENGTH (pk_msg_id request) c
      else
        let node = remote_node_remember_request node request;
            b = pk_payload zero_packet;
            b = write_u32_be b 0 (remote_node_now node c);
            b = write_u32_be b 4 (valid_frame_count (stats node));
            b = write_u32_be b 8 (parser_error_count (stats node));
            b = write_u32_be b 12 (crc_error_count (stats node));
            b = write_u16_be b 16 (last_rx_seq (stats node));
            b = b[18 := comm_status_value (comm_status (stats node)), 19 := 0]
        in snd (remote_node_send_packet node (zero_packet\<lparr>
             pk_version := PROTOCOL_VERSION, pk_msg_id := MSG_STATUS_RESP, pk_seq := pk_seq request,
             pk_length := 20, pk_payload := b\<rparr>) c))"

definition remote_node_handle_packet ::
  "'c remote_node_t \<Rightarrow> protocol_packet_t \<Rightarrow> 'c \<Rightarrow> 'c remote_node_t \<times> 'c" where
  "remote_node_handle_packet node packet c =
     (let st = stats node;
          st = st\<lparr>valid_frame_count := valid_frame_count st + 1, last_rx_seq := pk_seq packet\<rparr>;
          st = (if comm_status st = COMM_INIT then st\<lparr>comm_status := COMM_OK\<rparr> else st);
          node = node\<lparr>stats := st\<rparr>;
          msg_id = pk_msg_id packet
      in if msg_id = MSG_PING then remote_node_handle_ping node packet c
         else if msg_id = MSG_READ_STATUS then remote_node_handle_read_status node packet c
         else if msg_id = MSG_PONG \<or> msg_id = MSG_STATUS_RESP \<or> msg_id = MSG_HEARTBEAT \<or> msg_id = MSG_TELEMETRY
         then remote_node_send_error node (pk_seq packet) REMOTE_ERROR_UNSUPPORTED msg_id c
         else if msg_id = MSG_ERROR then (node, c)
         else remote_node_send_error
                (node\<lparr>stats := (stats node)\<lparr>unknown_msg_count := unknown_msg_count (stats node) + 1\<rparr>\<rparr>)
                (pk_seq packet) REMOTE_ERROR_UNKNOWN_MSG msg_id c)"

text \<open>The argument stands for the object the caller owns; its old contents are cleared.\<close>

definition remote_node_init ::
  "'c remote_node_t option \<Rightarrow> ('c \<Rightarrow> u32) option \<Rightarrow> (u8 list \<Rightarrow> 'c \<Rightarrow> int \<times> 'c) option \<Rightarrow> 'c \<Rightarrow>
   'c remote_node_t option" where
  "remote_node_init node time tx c =
     (case node of
        None \<Rightarrow> None
      | Some _ \<Rightarrow>
          let node = \<lparr>parser = stream_parser_init,
                stats = \<lparr>valid_frame_count = 0, parser_error_count = 0, crc_error_count = 0,
                  unknown_msg_count = 0, duplicate_seq_count = 0, uart_rx_overflow_count = 0,
                  uart_error_count = 0, tx_error_count = 0, last_rx_seq = 0, comm_status = COMM_INIT\<rparr>,
                time_fn = time, tx_fn = tx, last_heartbeat_ms = 0, last_telemetry_ms = 0,
                heartbeat_seq = 0, telemetry_seq = 0, status_flags = 0,
                last_request_msg_id = 0, last_request_seq = 0, last_request_valid = 0\<rparr>;
              now = remote_node_now node c
          in Some (node\<lparr>last_heartbeat_ms := now, last_telemetry_ms := now\<rparr>))"

text \<open>
  The local packet is not initialised in C. The handlers read only fields the parser writes, so
  its start value does not matter (\<open>process_byte_uninit\<close> below); the model starts from zeros.
\<close>

definition process_byte :: "'c remote_node_t \<Rightarrow> u8 \<Rightarrow> 'c \<Rightarrow> 'c remote_node_t \<times> 'c" where
  "process_byte node byte c =
     (let (event, p, packet) = feed_byte (parser node) byte zero_packet;
          node = node\<lparr>parser := p\<rparr>
      in if event = STREAM_EVENT_FRAME then remote_node_handle_packet node packet c
         else if event = STREAM_EVENT_ERROR then
           (if last_error (parser node) = PROTO_ERR_CRC
            then (node\<lparr>stats := (stats node)\<lparr>crc_error_count := crc_error_count (stats node) + 1\<rparr>\<rparr>, c)
            else (node\<lparr>stats := (stats node)\<lparr>parser_error_count := parser_error_count (stats node) + 1\<rparr>\<rparr>, c))
         else (node, c))"

definition remote_node_process_byte ::
  "'c remote_node_t option \<Rightarrow> u8 \<Rightarrow> 'c \<Rightarrow> 'c remote_node_t option \<times> 'c" where
  "remote_node_process_byte node byte c =
     (case node of None \<Rightarrow> (None, c) | Some n \<Rightarrow> let (n, c) = process_byte n byte c in (Some n, c))"

fun process_bytes :: "'c remote_node_t \<Rightarrow> u8 list \<Rightarrow> 'c \<Rightarrow> 'c remote_node_t \<times> 'c" where
  "process_bytes node [] c = (node, c)"
| "process_bytes node (b # bs) c = (let (node, c) = process_byte node b c in process_bytes node bs c)"

definition remote_node_process_bytes ::
  "'c remote_node_t option \<Rightarrow> u8 list option \<Rightarrow> nat \<Rightarrow> 'c \<Rightarrow> 'c remote_node_t option \<times> 'c" where
  "remote_node_process_bytes node bytes len c =
     (case node of
        None \<Rightarrow> (None, c)
      | Some n \<Rightarrow>
          (case bytes of
             None \<Rightarrow> (node, c)
           | Some bs \<Rightarrow> let (n, c) = process_bytes n (take len bs) c in (Some n, c)))"

definition periodic_telemetry :: "u32 \<Rightarrow> 'c remote_node_t \<Rightarrow> 'c \<Rightarrow> 'c remote_node_t \<times> 'c" where
  "periodic_telemetry now node c =
     (if now - last_telemetry_ms node \<ge> REMOTE_NODE_TELEMETRY_PERIOD_MS then
        let node = node\<lparr>last_telemetry_ms := now, telemetry_seq := telemetry_seq node + 1\<rparr>;
            b = write_u32_be (pk_payload zero_packet) 0 now;
            b = write_u16_be b 4 (status_flags node)
        in snd (remote_node_send_packet node (zero_packet\<lparr>
             pk_version := PROTOCOL_VERSION, pk_msg_id := MSG_TELEMETRY, pk_seq := telemetry_seq node,
             pk_length := 6, pk_payload := b\<rparr>) c)
      else (node, c))"

definition periodic_heartbeat :: "u32 \<Rightarrow> 'c remote_node_t \<Rightarrow> 'c \<Rightarrow> 'c remote_node_t \<times> 'c" where
  "periodic_heartbeat now node c =
     (if now - last_heartbeat_ms node \<ge> REMOTE_NODE_HEARTBEAT_PERIOD_MS then
        let node = node\<lparr>last_heartbeat_ms := now, heartbeat_seq := heartbeat_seq node + 1\<rparr>
        in snd (remote_node_send_packet node (zero_packet\<lparr>
             pk_version := PROTOCOL_VERSION, pk_msg_id := MSG_HEARTBEAT, pk_seq := heartbeat_seq node,
             pk_length := 4, pk_payload := write_u32_be (pk_payload zero_packet) 0 now\<rparr>) c)
      else (node, c))"

definition process_periodic :: "'c remote_node_t \<Rightarrow> 'c \<Rightarrow> 'c remote_node_t \<times> 'c" where
  "process_periodic node c =
     (let now = remote_node_now node c;
          (node, c) = periodic_telemetry now node c
      in periodic_heartbeat now node c)"

definition remote_node_process_periodic ::
  "'c remote_node_t option \<Rightarrow> 'c \<Rightarrow> 'c remote_node_t option \<times> 'c" where
  "remote_node_process_periodic node c =
     (case node of None \<Rightarrow> (None, c) | Some n \<Rightarrow> let (n, c) = process_periodic n c in (Some n, c))"

definition remote_node_set_status_flags ::
  "'c remote_node_t option \<Rightarrow> u16 \<Rightarrow> 'c remote_node_t option" where
  "remote_node_set_status_flags node flags = map_option (status_flags_update (\<lambda>_. flags)) node"

definition remote_node_note_rx_overflow :: "'c remote_node_t option \<Rightarrow> 'c remote_node_t option" where
  "remote_node_note_rx_overflow node = map_option (\<lambda>n. n\<lparr>stats := (stats n)\<lparr>
     uart_rx_overflow_count := uart_rx_overflow_count (stats n) + 1, comm_status := COMM_ERROR\<rparr>\<rparr>) node"

definition remote_node_note_uart_error :: "'c remote_node_t option \<Rightarrow> 'c remote_node_t option" where
  "remote_node_note_uart_error node = map_option (\<lambda>n. n\<lparr>stats := (stats n)\<lparr>
     uart_error_count := uart_error_count (stats n) + 1, comm_status := COMM_ERROR\<rparr>\<rparr>) node"

definition remote_node_get_stats :: "'c remote_node_t option \<Rightarrow> remote_node_stats_t option" where
  "remote_node_get_stats node = map_option stats node"

subsection \<open>Transmission\<close>

lemma send_packet_ok:
  assumes "packet_ok p"
  shows "remote_node_send_packet node p c =
    (case tx_fn node of
       None \<Rightarrow> (-1, node, c)
     | Some tx \<Rightarrow> let (st, c') = tx (frame_bytes p) c in if st \<noteq> 0 then (-1, count_tx_error node, c') else (0, node, c'))"
proof -
  have "unat (pk_length p) \<le> 256" using assms by (simp add: packet_ok_def)
  then show ?thesis
    using encode_ok [OF assms, of 266 "replicate 266 0" 0] assms
    by (simp add: remote_node_send_packet_def split: option.split)
qed

lemma count_tx_error_simps [simp]:
  "parser (count_tx_error n) = parser n" "time_fn (count_tx_error n) = time_fn n" "tx_fn (count_tx_error n) = tx_fn n"
  "last_heartbeat_ms (count_tx_error n) = last_heartbeat_ms n" "last_telemetry_ms (count_tx_error n) = last_telemetry_ms n"
  "heartbeat_seq (count_tx_error n) = heartbeat_seq n" "telemetry_seq (count_tx_error n) = telemetry_seq n"
  "status_flags (count_tx_error n) = status_flags n"
  "valid_frame_count (stats (count_tx_error n)) = valid_frame_count (stats n)"
  "crc_error_count (stats (count_tx_error n)) = crc_error_count (stats n)"
  "parser_error_count (stats (count_tx_error n)) = parser_error_count (stats n)"
  "uart_rx_overflow_count (stats (count_tx_error n)) = uart_rx_overflow_count (stats n)"
  "uart_error_count (stats (count_tx_error n)) = uart_error_count (stats n)"
  by (simp_all add: count_tx_error_def)

text \<open>
  What a transmission may change: the error counter and the communication status, and the
  platform's context through one call of \<open>tx_fn\<close> with the wire format of the packet.
\<close>

definition sends :: "'c remote_node_t \<Rightarrow> 'c \<Rightarrow> protocol_packet_t \<Rightarrow> 'c remote_node_t \<times> 'c \<Rightarrow> bool" where
  "sends node c p = (\<lambda>(node', c').
     (node' = node \<or> node' = count_tx_error node) \<and>
     c' = (case tx_fn node of None \<Rightarrow> c | Some tx \<Rightarrow> snd (tx (frame_bytes p) c)))"

lemma send_packet_sends: "packet_ok p \<Longrightarrow> sends node c p (snd (remote_node_send_packet node p c))"
  by (simp add: send_packet_ok sends_def split: option.split prod.split)

lemma remember_request_simps [simp]:
  "parser (remote_node_remember_request n r) = parser n" "time_fn (remote_node_remember_request n r) = time_fn n"
  "tx_fn (remote_node_remember_request n r) = tx_fn n"
  "valid_frame_count (stats (remote_node_remember_request n r)) = valid_frame_count (stats n)"
  "crc_error_count (stats (remote_node_remember_request n r)) = crc_error_count (stats n)"
  "parser_error_count (stats (remote_node_remember_request n r)) = parser_error_count (stats n)"
  "uart_rx_overflow_count (stats (remote_node_remember_request n r)) = uart_rx_overflow_count (stats n)"
  "uart_error_count (stats (remote_node_remember_request n r)) = uart_error_count (stats n)"
  "last_rx_seq (stats (remote_node_remember_request n r)) = last_rx_seq (stats n)"
  "comm_status (stats (remote_node_remember_request n r)) = comm_status (stats n)"
  by (simp_all add: remote_node_remember_request_def Let_def)

subsection \<open>Requests and their answers\<close>

definition is_error_reply :: "remote_node_error_code_t \<Rightarrow> protocol_packet_t \<Rightarrow> protocol_packet_t \<Rightarrow> bool" where
  "is_error_reply code p r \<longleftrightarrow> pk_msg_id r = MSG_ERROR \<and> unat (pk_length r) = 2 \<and>
     take 2 (pk_payload r) = [error_code_value code, pk_msg_id p]"

text \<open>The answer the protocol document prescribes for a valid frame, as a relation.\<close>

definition answers :: "protocol_packet_t \<Rightarrow> protocol_packet_t \<Rightarrow> bool" where
  "answers p r \<longleftrightarrow> packet_ok r \<and> pk_seq r = pk_seq p \<and>
     (if pk_msg_id p \<in> {MSG_PING, MSG_READ_STATUS} then
        (if pk_length p \<noteq> 0 then is_error_reply REMOTE_ERROR_BAD_LENGTH p r
         else if pk_msg_id p = MSG_PING then pk_msg_id r = MSG_PONG \<and> pk_length r = 0
         else pk_msg_id r = MSG_STATUS_RESP \<and> pk_length r = 20)
      else if pk_msg_id p \<in> {MSG_PONG, MSG_STATUS_RESP, MSG_HEARTBEAT, MSG_TELEMETRY}
      then is_error_reply REMOTE_ERROR_UNSUPPORTED p r
      else is_error_reply REMOTE_ERROR_UNKNOWN_MSG p r)"

lemma answers_same_message: "same_message p q \<Longrightarrow> answers p r = answers q r"
  by (simp add: answers_def same_message_def is_error_reply_def)

lemma zero_payload [simp]: "length (pk_payload zero_packet) = 256"
  by (simp add: zero_packet_def)

lemma length_write_u32_be [simp]: "length (write_u32_be b off v) = length b"
  by (simp add: write_u32_be_def)

lemma reply_packet_ok:
  "length b = 256 \<Longrightarrow> n \<le> 256 \<Longrightarrow> packet_ok (zero_packet\<lparr>pk_version := 1, pk_msg_id := i, pk_seq := s,
     pk_length := n, pk_payload := b\<rparr>)"
  "packet_ok (zero_packet\<lparr>pk_version := 1, pk_msg_id := i, pk_seq := s, pk_length := 0\<rparr>)"
  by (auto simp: packet_ok_def packet_wf_def word_le_nat_alt)

lemma send_error_sends:
  "\<exists>r. packet_ok r \<and> pk_seq r = s \<and> pk_msg_id r = MSG_ERROR \<and> unat (pk_length r) = 2 \<and>
     take 2 (pk_payload r) = [error_code_value code, i] \<and> sends node c r (remote_node_send_error node s code i c)"
proof -
  let ?b = "(pk_payload zero_packet)[0 := error_code_value code, 1 := i]"
  have "take 2 ?b = [error_code_value code, i]"
    by (simp add: zero_packet_def numeral_eq_Suc)
  moreover define r where "r = zero_packet\<lparr>pk_version := 1, pk_msg_id := MSG_ERROR, pk_seq := s,
    pk_length := 2, pk_payload := ?b\<rparr>"
  moreover have "packet_ok r" unfolding r_def by (intro reply_packet_ok) simp_all
  ultimately show ?thesis
    using send_packet_sends [of r node c] by (intro exI [of _ r]) (simp add: remote_node_send_error_def)
qed

text \<open>The bookkeeping that precedes the dispatch on the message id.\<close>

definition note_frame :: "'c remote_node_t \<Rightarrow> protocol_packet_t \<Rightarrow> 'c remote_node_t" where
  "note_frame node p = node\<lparr>stats := (stats node)\<lparr>
     valid_frame_count := valid_frame_count (stats node) + 1, last_rx_seq := pk_seq p,
     comm_status := (if comm_status (stats node) = COMM_INIT then COMM_OK else comm_status (stats node))\<rparr>\<rparr>"

lemma note_frame_simps [simp]:
  "parser (note_frame n p) = parser n" "time_fn (note_frame n p) = time_fn n" "tx_fn (note_frame n p) = tx_fn n"
  "valid_frame_count (stats (note_frame n p)) = valid_frame_count (stats n) + 1"
  "crc_error_count (stats (note_frame n p)) = crc_error_count (stats n)"
  "parser_error_count (stats (note_frame n p)) = parser_error_count (stats n)"
  "uart_rx_overflow_count (stats (note_frame n p)) = uart_rx_overflow_count (stats n)"
  "uart_error_count (stats (note_frame n p)) = uart_error_count (stats n)"
  "last_rx_seq (stats (note_frame n p)) = pk_seq p"
  by (simp_all add: note_frame_def)

lemma handle_packet_alt:
  "remote_node_handle_packet node p c =
    (let node = note_frame node p; i = pk_msg_id p
     in if i = MSG_PING then remote_node_handle_ping node p c
        else if i = MSG_READ_STATUS then remote_node_handle_read_status node p c
        else if i \<in> {MSG_PONG, MSG_STATUS_RESP, MSG_HEARTBEAT, MSG_TELEMETRY}
        then remote_node_send_error node (pk_seq p) REMOTE_ERROR_UNSUPPORTED i c
        else if i = MSG_ERROR then (node, c)
        else remote_node_send_error
               (node\<lparr>stats := (stats node)\<lparr>unknown_msg_count := unknown_msg_count (stats node) + 1\<rparr>\<rparr>)
               (pk_seq p) REMOTE_ERROR_UNKNOWN_MSG i c)"
proof -
  have "(let st = (stats node)\<lparr>valid_frame_count := valid_frame_count (stats node) + 1, last_rx_seq := pk_seq p\<rparr>;
      st = (if comm_status st = COMM_INIT then st\<lparr>comm_status := COMM_OK\<rparr> else st)
    in node\<lparr>stats := st\<rparr>) = note_frame node p"
    by (simp add: note_frame_def Let_def)
  then show ?thesis by (simp add: remote_node_handle_packet_def Let_def)
qed

text \<open>What handling a packet leaves alone.\<close>

definition same_core :: "'c remote_node_t \<Rightarrow> 'c remote_node_t \<Rightarrow> bool" where
  "same_core n n' \<longleftrightarrow> parser n' = parser n \<and> time_fn n' = time_fn n \<and> tx_fn n' = tx_fn n \<and>
     valid_frame_count (stats n') = valid_frame_count (stats n) \<and>
     crc_error_count (stats n') = crc_error_count (stats n) \<and>
     parser_error_count (stats n') = parser_error_count (stats n) \<and>
     uart_rx_overflow_count (stats n') = uart_rx_overflow_count (stats n) \<and>
     uart_error_count (stats n') = uart_error_count (stats n)"

lemma same_core_trans: "same_core a b \<Longrightarrow> same_core b d \<Longrightarrow> same_core a d"
  by (simp add: same_core_def)

lemma sends_same_core: "sends n c p (n', c') \<Longrightarrow> same_core n n'"
  by (auto simp: sends_def same_core_def)

definition effect_of_tx :: "'c remote_node_t \<Rightarrow> protocol_packet_t \<Rightarrow> 'c \<Rightarrow> 'c" where
  "effect_of_tx node r c = (case tx_fn node of None \<Rightarrow> c | Some tx \<Rightarrow> snd (tx (frame_bytes r) c))"

lemma error_reply_handled:
  assumes "remote_node_send_error n0 (pk_seq p) code (pk_msg_id p) c = (n', c')" and "same_core n n0"
  shows "same_core n n' \<and> (\<exists>r. packet_ok r \<and> pk_seq r = pk_seq p \<and> is_error_reply code p r \<and> c' = effect_of_tx n r c)"
proof -
  obtain r where r: "packet_ok r" "pk_seq r = pk_seq p" "is_error_reply code p r" "sends n0 c r (n', c')"
    using send_error_sends [of "pk_seq p" code "pk_msg_id p" n0 c] assms(1) by (auto simp: is_error_reply_def)
  then have "same_core n n'" "c' = effect_of_tx n r c"
    using sends_same_core [OF r(4)] assms(2) by (auto simp: same_core_def sends_def effect_of_tx_def)
  with r show ?thesis by blast
qed

lemma request_handled:
  assumes "remote_node_send_packet (remote_node_remember_request n p) r c = (st, n', c')" and "packet_ok r"
  shows "same_core n n' \<and> c' = effect_of_tx n r c"
  using send_packet_sends [OF assms(2), of "remote_node_remember_request n p" c] assms(1)
  by (auto simp: sends_def same_core_def effect_of_tx_def)

lemma handle_ping_handled:
  assumes "remote_node_handle_ping n p c = (n', c')" "pk_msg_id p = MSG_PING"
  shows "same_core n n' \<and> (\<exists>r. answers p r \<and> c' = effect_of_tx n r c)"
proof (cases "pk_length p = 0")
  case True
  let ?r = "zero_packet\<lparr>pk_version := 1, pk_msg_id := MSG_PONG, pk_seq := pk_seq p, pk_length := 0\<rparr>"
  have "snd (remote_node_send_packet (remote_node_remember_request n p) ?r c) = (n', c')"
    using assms(1) True by (simp add: remote_node_handle_ping_def)
  then have "same_core n n' \<and> c' = effect_of_tx n ?r c"
    using request_handled [of n p ?r c "fst (remote_node_send_packet (remote_node_remember_request n p) ?r c)"]
    by (metis prod.collapse reply_packet_ok(2))
  moreover have "answers p ?r" using True assms(2) by (simp add: answers_def reply_packet_ok)
  ultimately show ?thesis by blast
next
  case False
  with assms error_reply_handled [of n p REMOTE_ERROR_BAD_LENGTH c n' c' n] show ?thesis
    by (auto simp: remote_node_handle_ping_def answers_def same_core_def)
qed

definition status_packet :: "'c remote_node_t \<Rightarrow> protocol_packet_t \<Rightarrow> 'c \<Rightarrow> protocol_packet_t" where
  "status_packet n p c = zero_packet\<lparr>pk_version := 1, pk_msg_id := MSG_STATUS_RESP, pk_seq := pk_seq p,
     pk_length := 20, pk_payload := (write_u16_be (write_u32_be (write_u32_be (write_u32_be (write_u32_be
       (pk_payload zero_packet) 0 (remote_node_now n c)) 4 (valid_frame_count (stats n)))
       8 (parser_error_count (stats n))) 12 (crc_error_count (stats n))) 16 (last_rx_seq (stats n)))
       [18 := comm_status_value (comm_status (stats n)), 19 := 0]\<rparr>"

lemma status_packet_ok: "packet_ok (status_packet n p c)"
  unfolding status_packet_def by (intro reply_packet_ok) simp_all

lemma handle_read_status_sends:
  assumes "pk_length p = 0"
  shows "remote_node_handle_read_status n p c =
    snd (remote_node_send_packet (remote_node_remember_request n p) (status_packet n p c) c)"
  using assms by (simp add: remote_node_handle_read_status_def status_packet_def Let_def remote_node_now_def)

lemma handle_read_status_handled:
  assumes "remote_node_handle_read_status n p c = (n', c')" "pk_msg_id p = MSG_READ_STATUS"
  shows "same_core n n' \<and> (\<exists>r. answers p r \<and> c' = effect_of_tx n r c)"
proof (cases "pk_length p = 0")
  case True
  let ?r = "status_packet n p c"
  have "snd (remote_node_send_packet (remote_node_remember_request n p) ?r c) = (n', c')"
    using assms(1) True by (simp add: handle_read_status_sends)
  then have "same_core n n' \<and> c' = effect_of_tx n ?r c"
    using request_handled [of n p ?r c "fst (remote_node_send_packet (remote_node_remember_request n p) ?r c)"]
    by (metis prod.collapse status_packet_ok)
  moreover have "answers p ?r" using True assms(2) status_packet_ok by (simp add: answers_def) (simp add: status_packet_def)
  ultimately show ?thesis by blast
next
  case False
  with assms error_reply_handled [of n p REMOTE_ERROR_BAD_LENGTH c n' c' n] show ?thesis
    by (auto simp: remote_node_handle_read_status_def answers_def same_core_def)
qed

lemma handle_packet_handled:
  assumes "remote_node_handle_packet n p c = (n', c')"
  shows "same_core (note_frame n p) n' \<and>
    (if pk_msg_id p = MSG_ERROR then c' = c else \<exists>r. answers p r \<and> c' = effect_of_tx n r c)"
proof -
  have eff: "effect_of_tx (note_frame n p) = effect_of_tx n" by (simp add: effect_of_tx_def fun_eq_iff)
  note unknown = error_reply_handled [where n = "note_frame n p" and code = REMOTE_ERROR_UNKNOWN_MSG, simplified eff]
  note unsupported = error_reply_handled [where n = "note_frame n p" and code = REMOTE_ERROR_UNSUPPORTED, simplified eff]
  consider "pk_msg_id p = MSG_PING" | "pk_msg_id p = MSG_READ_STATUS" | "pk_msg_id p = MSG_ERROR"
    | "pk_msg_id p \<in> {MSG_PONG, MSG_STATUS_RESP, MSG_HEARTBEAT, MSG_TELEMETRY}"
    | "pk_msg_id p \<notin> {MSG_PING, MSG_READ_STATUS, MSG_ERROR, MSG_PONG, MSG_STATUS_RESP, MSG_HEARTBEAT, MSG_TELEMETRY}"
    by blast
  then show ?thesis
  proof cases
    case 1
    with assms handle_ping_handled [of "note_frame n p" p c n' c'] eff show ?thesis
      by (simp add: handle_packet_alt)
  next
    case 2
    with assms handle_read_status_handled [of "note_frame n p" p c n' c'] eff show ?thesis
      by (simp add: handle_packet_alt)
  next
    case 3
    with assms show ?thesis by (auto simp: handle_packet_alt same_core_def)
  next
    case 4
    then have "remote_node_send_error (note_frame n p) (pk_seq p) REMOTE_ERROR_UNSUPPORTED (pk_msg_id p) c = (n', c')"
      using assms by (auto simp: handle_packet_alt)
    from unsupported [OF this] 4 show ?thesis by (auto simp: answers_def same_core_def)
  next
    case 5
    then have "remote_node_send_error ((note_frame n p)\<lparr>stats := (stats (note_frame n p))\<lparr>unknown_msg_count
        := unknown_msg_count (stats (note_frame n p)) + 1\<rparr>\<rparr>) (pk_seq p) REMOTE_ERROR_UNKNOWN_MSG (pk_msg_id p) c = (n', c')"
      using assms by (simp add: handle_packet_alt Let_def)
    from unknown [OF this] 5 show ?thesis by (auto simp: answers_def same_core_def)
  qed
qed

subsection \<open>Streams of bytes\<close>

text \<open>
  The node's statistics are the parser's: the application adds no frame and loses none.
\<close>

definition node_inv :: "'c remote_node_t \<Rightarrow> bool" where
  "node_inv n \<longleftrightarrow> parser_inv (parser n) \<and> valid_frame_count (stats n) = frames_ok (parser n) \<and>
     crc_error_count (stats n) = crc_errors (parser n) \<and> parser_error_count (stats n) = format_errors (parser n)"

lemma same_core_inv: "same_core n n' \<Longrightarrow> node_inv n' = node_inv n"
  by (auto simp: same_core_def node_inv_def)

lemma process_byte_step:
  assumes inv: "node_inv n" and step: "process_byte n b c = (n', c')"
    and feed: "feed_byte (parser n) b zero_packet = (ev, p', out)"
  shows "node_inv n' \<and> parser n' = p' \<and> tx_fn n' = tx_fn n \<and> time_fn n' = time_fn n \<and>
    uart_rx_overflow_count (stats n') = uart_rx_overflow_count (stats n) \<and>
    uart_error_count (stats n') = uart_error_count (stats n) \<and>
    (if ev = STREAM_EVENT_FRAME \<and> pk_msg_id out \<noteq> MSG_ERROR
     then \<exists>r. answers out r \<and> c' = effect_of_tx n r c else c' = c)"
proof -
  have p': "parser_inv p'"
    using feed_byte_ok [of "parser n" zero_packet b] inv feed by (simp add: node_inv_def step_ok_def)
  have cnt: "counters_ok (parser n) ev p'"
    using feed_byte_counters [OF _ feed] inv by (simp add: node_inv_def)
  show ?thesis
  proof (cases ev)
    case STREAM_EVENT_FRAME
    let ?n = "n\<lparr>parser := p'\<rparr>"
    have "remote_node_handle_packet ?n out c = (n', c')"
      using step feed STREAM_EVENT_FRAME by (simp add: process_byte_def)
    from handle_packet_handled [OF this]
    have h: "same_core (note_frame ?n out) n'"
      "if pk_msg_id out = MSG_ERROR then c' = c else \<exists>r. answers out r \<and> c' = effect_of_tx n r c"
      by (auto simp: effect_of_tx_def)
    moreover have "node_inv (note_frame ?n out)"
      using inv p' cnt STREAM_EVENT_FRAME by (simp add: node_inv_def counters_ok_def)
    ultimately show ?thesis
      using same_core_inv [OF h(1)] STREAM_EVENT_FRAME by (auto simp: same_core_def)
  qed (use step feed inv p' cnt in
      \<open>auto simp: process_byte_def node_inv_def counters_ok_def split: if_splits\<close>)
qed

text \<open>The start value of the parser's output packet is irrelevant.\<close>

lemma decode_uninit:
  "fst (protocol_decode b k (Some q)) = fst (protocol_decode b k (Some r))"
  by (simp add: protocol_decode_def Let_def split: option.split)

lemma feed_byte_uninit:
  assumes inv: "parser_inv p" and wf: "packet_wf o1" "packet_wf o2"
    and f1: "feed_byte p b o1 = (ev1, p1, q1)" and f2: "feed_byte p b o2 = (ev2, p2, q2)"
  shows "ev1 = ev2 \<and> p1 = p2 \<and> (ev1 = STREAM_EVENT_FRAME \<longrightarrow> same_message q1 q2)"
proof -
  have s1: "step_ok p b o1 (ev1, p1, q1)" using feed_byte_ok [OF inv wf(1), of b] f1 by simp
  have s2: "step_ok p b o2 (ev2, p2, q2)" using feed_byte_ok [OF inv wf(2), of b] f2 by simp
  have ev: "ev1 = ev2" using s1 s2 by (auto simp: step_ok_def)
  moreover have "same_message q1 q2" if "ev1 = STREAM_EVENT_FRAME"
  proof -
    from that ev s1 s2 have "packet_ok q1" "packet_ok q2" "frame_bytes q1 = frame_bytes q2"
      by (simp_all add: step_ok_def)
    then show ?thesis by (rule frame_bytes_inject)
  qed
  moreover have "p1 = p2"
    using f1 f2 decode_uninit [of "Some ((frame_buffer p)[frame_index p := b])" "frame_index p + 1" o1 o2]
    by (cases "sp_state p")
      (auto simp: feed_byte_def feed_read_rest_def Let_def split: if_splits prod.splits)
  ultimately show ?thesis by blast
qed

lemma process_bytes_append:
  "process_bytes n (xs @ ys) c = (let (n, c) = process_bytes n xs c in process_bytes n ys c)"
  by (induction n xs c rule: process_bytes.induct) (auto split: prod.splits)

lemma process_bytes_answers:
  assumes log: "\<And>f c. log (snd (tx f c)) = log c @ [f]"
  shows "\<lbrakk>node_inv n; tx_fn n = Some tx; packet_wf out; process_bytes n bs c = (n', c');
      feed_all (parser n) out bs = (ds, p', out')\<rbrakk> \<Longrightarrow>
    node_inv n' \<and> parser n' = p' \<and> tx_fn n' = Some tx \<and>
    (\<exists>rs. log c' = log c @ map frame_bytes rs \<and>
      list_all2 answers (filter (\<lambda>p. pk_msg_id p \<noteq> MSG_ERROR) ds) rs)"
proof (induction bs arbitrary: n out c ds)
  case Nil
  then show ?case by auto
next
  case (Cons b bs)
  obtain ev p1 o1 where f: "feed_byte (parser n) b out = (ev, p1, o1)" by (cases "feed_byte (parser n) b out")
  obtain ev0 p0 o0 where f0: "feed_byte (parser n) b zero_packet = (ev0, p0, o0)"
    by (cases "feed_byte (parser n) b zero_packet")
  have pinv: "parser_inv (parser n)" using Cons.prems(1) by (simp add: node_inv_def)
  have same: "ev0 = ev" "p0 = p1" "ev = STREAM_EVENT_FRAME \<Longrightarrow> same_message o0 o1"
    using feed_byte_uninit [OF pinv packet_wf_zero Cons.prems(3) f0 f] by auto
  obtain n1 c1 where s: "process_byte n b c = (n1, c1)" by fastforce
  have run: "process_bytes n1 bs c1 = (n', c')" using Cons.prems(4) s by simp
  obtain ds1 where d: "feed_all p1 o1 bs = (ds1, p', out')" "ds = (if ev = STREAM_EVENT_FRAME then o1 # ds1 else ds1)"
    using Cons.prems(5) f by (auto split: prod.splits)
  have "packet_wf o1" using feed_byte_ok [OF pinv Cons.prems(3), of b] f by (simp add: step_ok_def)
  note step = process_byte_step [OF Cons.prems(1) s f0]
  obtain rs where rest: "node_inv n'" "parser n' = p'" "tx_fn n' = Some tx" "log c' = log c1 @ map frame_bytes rs"
    "list_all2 answers (filter (\<lambda>p. pk_msg_id p \<noteq> MSG_ERROR) ds1) rs"
    using Cons.IH [of n1 o1 c1 ds1] step \<open>packet_wf o1\<close> run d(1) same Cons.prems(2) by auto
  show ?case
  proof (cases "ev = STREAM_EVENT_FRAME \<and> pk_msg_id o1 \<noteq> MSG_ERROR")
    case True
    with same have "pk_msg_id o0 \<noteq> MSG_ERROR" by (simp add: same_message_def)
    with step True same obtain r where "answers o0 r" "c1 = effect_of_tx n r c" by auto
    with same True have "answers o1 r" "log c1 = log c @ [frame_bytes r]"
      using Cons.prems(2) log by (auto simp: effect_of_tx_def answers_same_message)
    with rest d True show ?thesis by (intro conjI exI [of _ "r # rs"]) auto
  next
    case False
    with same step have "c1 = c" by (auto simp: same_message_def split: if_splits)
    with rest d False show ?thesis by (intro conjI exI [of _ rs]) auto
  qed
qed

subsection \<open>Periodic messages\<close>

definition u32_bytes :: "u32 \<Rightarrow> u8 list" where
  "u32_bytes v = [ucast (drop_bit 24 v AND 0xFF), ucast (drop_bit 16 v AND 0xFF),
     ucast (drop_bit 8 v AND 0xFF), ucast (v AND 0xFF)]"

definition be32 :: "u8 list \<Rightarrow> u32" where
  "be32 b = push_bit 24 (ucast (b ! 0)) OR push_bit 16 (ucast (b ! 1)) OR push_bit 8 (ucast (b ! 2)) OR ucast (b ! 3)"

lemma length_u32_bytes [simp]: "length (u32_bytes v) = 4"
  by (simp add: u32_bytes_def)

lemma be32_u32_bytes: "be32 (u32_bytes v) = v"
proof (rule bit_word_eqI)
  fix n assume "n < LENGTH(32)"
  then consider "n < 8" | "8 \<le> n" "n < 16" | "16 \<le> n" "n < 24" | "24 \<le> n" "n < 32" by fastforce
  then show "bit (be32 (u32_bytes v)) n \<longleftrightarrow> bit v n"
    by cases (simp_all add: be32_def u32_bytes_def bit_simps less_diff_conv2)
qed

lemma write_u32_be_at:
  "length a = off \<Longrightarrow> length m = 4 \<Longrightarrow> write_u32_be (a @ m @ z) off v = a @ u32_bytes v @ z"
  by (auto simp: write_u32_be_def u32_bytes_def list_update_append numeral_eq_Suc length_Suc_conv)

lemma zero_payload_split: "n \<le> 256 \<Longrightarrow> pk_payload zero_packet = replicate n 0 @ replicate (256 - n) 0"
  by (simp add: zero_packet_def flip: replicate_add)

definition telemetry_packet :: "u32 \<Rightarrow> u16 \<Rightarrow> u16 \<Rightarrow> protocol_packet_t" where
  "telemetry_packet now seq flags = zero_packet\<lparr>pk_version := 1, pk_msg_id := MSG_TELEMETRY, pk_seq := seq,
     pk_length := 6, pk_payload := write_u16_be (write_u32_be (pk_payload zero_packet) 0 now) 4 flags\<rparr>"

definition heartbeat_packet :: "u32 \<Rightarrow> u16 \<Rightarrow> protocol_packet_t" where
  "heartbeat_packet now seq = zero_packet\<lparr>pk_version := 1, pk_msg_id := MSG_HEARTBEAT, pk_seq := seq,
     pk_length := 4, pk_payload := write_u32_be (pk_payload zero_packet) 0 now\<rparr>"

lemma periodic_packets_ok [simp]: "packet_ok (telemetry_packet t s f)" "packet_ok (heartbeat_packet t s)"
  unfolding telemetry_packet_def heartbeat_packet_def by (intro reply_packet_ok; simp)+

lemma periodic_packet_time:
  "be32 (take 4 (pk_payload (telemetry_packet t s f))) = t" "be32 (take 4 (pk_payload (heartbeat_packet t s))) = t"
proof -
  have "write_u32_be (pk_payload zero_packet) 0 t = u32_bytes t @ replicate 252 0"
    using write_u32_be_at [of "[]" 0 "replicate 4 0"] zero_payload_split [of 4] by simp
  then show "be32 (take 4 (pk_payload (telemetry_packet t s f))) = t" "be32 (take 4 (pk_payload (heartbeat_packet t s))) = t"
    by (simp_all add: telemetry_packet_def heartbeat_packet_def write_u16_be_alt be32_u32_bytes)
qed

lemma periodic_packet_ids [simp]:
  "pk_msg_id (telemetry_packet t s f) = 0x40" "pk_msg_id (heartbeat_packet t s) = 0x20"
  "pk_seq (telemetry_packet t s f) = s" "pk_seq (heartbeat_packet t s) = s"
  by (simp_all add: telemetry_packet_def heartbeat_packet_def)

text \<open>What the periodic part of the node never touches.\<close>

definition same_io :: "'c remote_node_t \<Rightarrow> 'c remote_node_t \<Rightarrow> bool" where
  "same_io n n' \<longleftrightarrow> same_core n n' \<and> status_flags n' = status_flags n"

lemma periodic_telemetry_run:
  assumes "periodic_telemetry now n c = (n', c')" and "tx_fn n = Some tx"
    and log: "\<And>f c. log (snd (tx f c)) = log c @ [f]"
  shows "same_io n n' \<and> last_heartbeat_ms n' = last_heartbeat_ms n \<and> heartbeat_seq n' = heartbeat_seq n \<and>
    (if now - last_telemetry_ms n \<ge> 100
     then last_telemetry_ms n' = now \<and> telemetry_seq n' = telemetry_seq n + 1 \<and>
       log c' = log c @ [frame_bytes (telemetry_packet now (telemetry_seq n + 1) (status_flags n))]
     else n' = n \<and> c' = c)"
proof (cases "now - last_telemetry_ms n \<ge> 100")
  case True
  let ?n = "n\<lparr>last_telemetry_ms := now, telemetry_seq := telemetry_seq n + 1\<rparr>"
  let ?p = "telemetry_packet now (telemetry_seq n + 1) (status_flags n)"
  have "snd (remote_node_send_packet ?n ?p c) = (n', c')"
    using assms(1) True by (simp add: periodic_telemetry_def telemetry_packet_def Let_def)
  with send_packet_sends [of ?p ?n c] have "sends ?n c ?p (n', c')" by simp
  with True assms(2) log show ?thesis
    by (auto simp: sends_def same_io_def same_core_def)
qed (use assms in \<open>simp add: periodic_telemetry_def same_io_def same_core_def\<close>)

lemma periodic_heartbeat_run:
  assumes "periodic_heartbeat now n c = (n', c')" and "tx_fn n = Some tx"
    and log: "\<And>f c. log (snd (tx f c)) = log c @ [f]"
  shows "same_io n n' \<and> last_telemetry_ms n' = last_telemetry_ms n \<and> telemetry_seq n' = telemetry_seq n \<and>
    (if now - last_heartbeat_ms n \<ge> 500
     then last_heartbeat_ms n' = now \<and> heartbeat_seq n' = heartbeat_seq n + 1 \<and>
       log c' = log c @ [frame_bytes (heartbeat_packet now (heartbeat_seq n + 1))]
     else n' = n \<and> c' = c)"
proof (cases "now - last_heartbeat_ms n \<ge> 500")
  case True
  let ?n = "n\<lparr>last_heartbeat_ms := now, heartbeat_seq := heartbeat_seq n + 1\<rparr>"
  let ?p = "heartbeat_packet now (heartbeat_seq n + 1)"
  have "snd (remote_node_send_packet ?n ?p c) = (n', c')"
    using assms(1) True by (simp add: periodic_heartbeat_def heartbeat_packet_def Let_def)
  with send_packet_sends [of ?p ?n c] have "sends ?n c ?p (n', c')" by simp
  with True assms(2) log show ?thesis
    by (auto simp: sends_def same_io_def same_core_def)
qed (use assms in \<open>simp add: periodic_heartbeat_def same_io_def same_core_def\<close>)

lemma send_packet_core:
  assumes "snd (remote_node_send_packet m p c) = (n', c')" and "same_core n m"
  shows "same_core n n'"
proof -
  have "same_core m n'"
    using assms(1)
    by (auto simp: remote_node_send_packet_def same_core_def Let_def split: option.splits prod.splits if_splits)
  then show ?thesis by (rule same_core_trans [OF assms(2)])
qed

lemma periodic_telemetry_core: "periodic_telemetry t n c = (n', c') \<Longrightarrow> same_core n n'"
  by (auto simp: periodic_telemetry_def Let_def split: if_splits elim!: send_packet_core) (simp_all add: same_core_def)

lemma periodic_heartbeat_core: "periodic_heartbeat t n c = (n', c') \<Longrightarrow> same_core n n'"
  by (auto simp: periodic_heartbeat_def Let_def split: if_splits elim!: send_packet_core) (simp_all add: same_core_def)

lemma process_periodic_core:
  assumes "process_periodic n c = (n', c')"
  shows "same_core n n'"
proof -
  obtain n1 c1 where t: "periodic_telemetry (remote_node_now n c) n c = (n1, c1)" by fastforce
  then have h: "periodic_heartbeat (remote_node_now n c) n1 c1 = (n', c')"
    using assms by (simp add: process_periodic_def)
  show ?thesis
    by (rule same_core_trans [OF periodic_telemetry_core [OF t] periodic_heartbeat_core [OF h]])
qed

text \<open>
  Polling the node at the times \<open>ts\<close>; \<open>at t c\<close> is the context when the clock has
  reached \<open>t\<close>.
\<close>

fun poll_run :: "(nat \<Rightarrow> 'c \<Rightarrow> 'c) \<Rightarrow> 'c remote_node_t \<Rightarrow> nat list \<Rightarrow> 'c \<Rightarrow> 'c remote_node_t \<times> 'c" where
  "poll_run at node [] c = (node, c)"
| "poll_run at node (t # ts) c = (let (node, c) = process_periodic node (at t c) in poll_run at node ts c)"

text \<open>Sequence numbers and time stamps of the messages with one id in a log.\<close>

definition stamped :: "u8 \<Rightarrow> protocol_packet_t list \<Rightarrow> (u16 \<times> u32) list" where
  "stamped i ps = map (\<lambda>p. (pk_seq p, be32 (take 4 (pk_payload p)))) (filter (\<lambda>p. pk_msg_id p = i) ps)"

fun numbered :: "u16 \<Rightarrow> nat list \<Rightarrow> (u16 \<times> u32) list" where
  "numbered s [] = []"
| "numbered s (t # ts) = (s + 1, of_nat t) # numbered (s + 1) ts"

lemma poll_once:
  assumes step: "process_periodic n c = (n', c')" and tx: "tx_fn n = Some tx"
    and log: "\<And>f c. log (snd (tx f c)) = log c @ [f]" and now: "remote_node_now n c = of_nat t"
    and tel: "last_telemetry_ms n = of_nat lt" "lt \<le> t" "t - lt < 2 ^ 32"
    and hb: "last_heartbeat_ms n = of_nat lh" "lh \<le> t" "t - lh < 2 ^ 32"
  shows "same_io n n' \<and>
    last_telemetry_ms n' = of_nat (if 100 \<le> t - lt then t else lt) \<and>
    telemetry_seq n' = telemetry_seq n + (if 100 \<le> t - lt then 1 else 0) \<and>
    last_heartbeat_ms n' = of_nat (if 500 \<le> t - lh then t else lh) \<and>
    heartbeat_seq n' = heartbeat_seq n + (if 500 \<le> t - lh then 1 else 0) \<and>
    log c' = log c @ map frame_bytes
      ((if 100 \<le> t - lt then [telemetry_packet (of_nat t) (telemetry_seq n + 1) (status_flags n)] else []) @
       (if 500 \<le> t - lh then [heartbeat_packet (of_nat t) (heartbeat_seq n + 1)] else []))"
proof -
  obtain n1 c1 where t1: "periodic_telemetry (of_nat t) n c = (n1, c1)" by fastforce
  have h1: "periodic_heartbeat (of_nat t) n1 c1 = (n', c')"
    using step now t1 by (simp add: process_periodic_def)
  note T = periodic_telemetry_run [OF t1 tx log]
  then have tx1: "tx_fn n1 = Some tx" using tx by (simp add: same_io_def same_core_def)
  note H = periodic_heartbeat_run [OF h1 tx1 log]
  have "(of_nat t - of_nat lt :: u32) \<ge> 100 \<longleftrightarrow> 100 \<le> t - lt" "(of_nat t - of_nat lh :: u32) \<ge> 500 \<longleftrightarrow> 500 \<le> t - lh"
    using tick_diff [OF tel(2,3), of 100] tick_diff [OF hb(2,3), of 500] by simp_all
  with T H tel(1) hb(1) show ?thesis
    by (auto simp: same_io_def same_core_def split: if_splits)
qed

lemma poll_run_stamps:
  assumes log: "\<And>f c. log (snd (tx f c)) = log c @ [f]" and at: "\<And>t c. log (at t c) = log c"
    and clk: "\<And>t c. clk (at t c) = of_nat t" and d: "d + 500 < 2 ^ 32"
  shows "\<lbrakk>poll_run at n ts c = (n', c'); tx_fn n = Some tx; time_fn n = Some clk; polled d t0 ts;
      last_telemetry_ms n = of_nat lt; lt \<le> t0; t0 < lt + 100;
      last_heartbeat_ms n = of_nat lh; lh \<le> t0; t0 < lh + 500\<rbrakk> \<Longrightarrow>
    \<exists>ps. log c' = log c @ map frame_bytes ps \<and> list_all packet_ok ps \<and>
      stamped MSG_TELEMETRY ps = numbered (telemetry_seq n) (fires 100 lt ts) \<and>
      stamped MSG_HEARTBEAT ps = numbered (heartbeat_seq n) (fires 500 lh ts)"
proof (induction ts arbitrary: n c t0 lt lh)
  case Nil
  then show ?case by (auto simp: stamped_def)
next
  case (Cons t ts)
  obtain n1 c1 where s: "process_periodic n (at t c) = (n1, c1)" by fastforce
  have run: "poll_run at n1 ts c1 = (n', c')" using Cons.prems(1) s by simp
  define lt' lh' where "lt' = (if 100 \<le> t - lt then t else lt)" and "lh' = (if 500 \<le> t - lh then t else lh)"
  define ps0 where "ps0 =
      (if 100 \<le> t - lt then [telemetry_packet (of_nat t) (telemetry_seq n + 1) (status_flags n)] else []) @
      (if 500 \<le> t - lh then [heartbeat_packet (of_nat t) (heartbeat_seq n + 1)] else [])"
  have now: "remote_node_now n (at t c) = of_nat t" using clk Cons.prems(3) by (simp add: remote_node_now_def)
  have bounds: "lt \<le> t" "t - lt < 2 ^ 32" "lh \<le> t" "t - lh < 2 ^ 32"
    using Cons.prems(4,6,7,9,10) d by auto
  have next_bounds: "lt' \<le> t" "t < lt' + 100" "lh' \<le> t" "t < lh' + 500"
    using bounds unfolding lt'_def lh'_def by auto
  note P = poll_once [OF s Cons.prems(2) log now Cons.prems(5) bounds(1,2) Cons.prems(8) bounds(3,4),
      folded lt'_def lh'_def ps0_def, unfolded at]
  obtain ps where ps: "log c' = log c1 @ map frame_bytes ps" "list_all packet_ok ps"
    "stamped MSG_TELEMETRY ps = numbered (telemetry_seq n1) (fires 100 lt' ts)"
    "stamped MSG_HEARTBEAT ps = numbered (heartbeat_seq n1) (fires 500 lh' ts)"
    using Cons.IH [OF run, of t lt' lh'] P next_bounds Cons.prems(2,3,4) by (auto simp: same_io_def same_core_def)
  show ?case
  proof (intro exI conjI)
    show "log c' = log c @ map frame_bytes (ps0 @ ps)" using P ps by simp
    show "list_all packet_ok (ps0 @ ps)" using ps by (simp add: ps0_def)
    show "stamped MSG_TELEMETRY (ps0 @ ps) = numbered (telemetry_seq n) (fires 100 lt (t # ts))"
      using P ps(3) by (auto simp: stamped_def ps0_def lt'_def periodic_packet_time)
    show "stamped MSG_HEARTBEAT (ps0 @ ps) = numbered (heartbeat_seq n) (fires 500 lh (t # ts))"
      using P ps(4) by (auto simp: stamped_def ps0_def lh'_def periodic_packet_time)
  qed
qed

subsection \<open>The status response\<close>

lemma status_packet_payload:
  "take 20 (pk_payload (status_packet n p c)) =
     u32_bytes (remote_node_now n c) @ u32_bytes (valid_frame_count (stats n)) @
     u32_bytes (parser_error_count (stats n)) @ u32_bytes (crc_error_count (stats n)) @
     [hi8 (last_rx_seq (stats n)), lo8 (last_rx_seq (stats n)), comm_status_value (comm_status (stats n)), 0]"
proof -
  have z: "pk_payload zero_packet = replicate 4 0 @ replicate 4 0 @ replicate 4 0 @ replicate 4 0 @ replicate 240 0"
    by (simp add: zero_packet_def flip: replicate_add)
  have "write_u32_be (write_u32_be (write_u32_be (write_u32_be (pk_payload zero_packet) 0 a) 4 b) 8 d) 12 e =
      (u32_bytes a @ u32_bytes b @ u32_bytes d @ u32_bytes e) @ replicate 240 0" for a b d e
    using write_u32_be_at [of "[]" 0 "replicate 4 0"] write_u32_be_at [of "u32_bytes a" 4 "replicate 4 0"]
      write_u32_be_at [of "u32_bytes a @ u32_bytes b" 8 "replicate 4 0"]
      write_u32_be_at [of "u32_bytes a @ u32_bytes b @ u32_bytes d" 12 "replicate 4 0"]
    unfolding z by simp
  then show ?thesis
    by (simp add: status_packet_def write_u16_be_alt list_update_append u32_bytes_def numeral_eq_Suc)
qed

subsection \<open>The node as a client of the parser\<close>

interpretation node_client: parser_client "\<lambda>(n, _). parser n" "\<lambda>_. zero_packet" "\<lambda>p _ (n, c). (n\<lparr>parser := p\<rparr>, c)"
  "\<lambda>b (n, c). process_byte n b c" "\<lambda>r (n, c). remote_node_handle_packet n r c"
  by unfold_locales (auto simp: process_byte_def split: prod.splits)

lemma process_bytes_fold: "process_bytes n bs c = fold (\<lambda>b (n, c). process_byte n b c) bs (n, c)"
  by (induction n bs c rule: process_bytes.induct) (auto split: prod.splits)

lemma process_bytes_frame:
  assumes "packet_ok m" "node_inv n" "pending (parser n) = []"
  shows "\<exists>p r. process_bytes n (frame_bytes m) c = remote_node_handle_packet (n\<lparr>parser := p\<rparr>) r c \<and>
    parser_inv p \<and> pending p = [] \<and> packet_ok r \<and> same_message m r"
  using node_client.frame_delivered [of m "(n, c)"] assms by (simp add: process_bytes_fold node_inv_def)

subsection \<open>Properties\<close>

text \<open>C20: the node as a responder: for every stream of bytes, whatever it contains, the frames
  handed to the transmitter are exactly one answer for each valid frame the parser delivers,
  in order, except that an ERROR frame is never answered; rejected or incomplete frames cause
  no transmission. Each answer is well formed, carries the request's sequence number, and is
  the one the protocol prescribes (PONG, STATUS_RESP, or an ERROR with the right code and the
  offending id). The node's counters keep agreeing with the parser's.\<close>

theorem node_answers_stream:
  assumes "node_inv n" and "tx_fn n = Some tx" and "\<And>f c. log (snd (tx f c)) = log c @ [f]"
    and "len \<le> length bs" and "remote_node_process_bytes (Some n) (Some bs) len c = (Some n', c')"
    and "feed_all (parser n) zero_packet (take len bs) = (ds, p', out')"
  shows "node_inv n' \<and> parser n' = p' \<and>
    (\<exists>rs. log c' = log c @ map frame_bytes rs \<and>
      list_all2 answers (filter (\<lambda>p. pk_msg_id p \<noteq> MSG_ERROR) ds) rs)"
proof -
  have "process_bytes n (take len bs) c = (n', c')"
    using assms(5) by (simp add: remote_node_process_bytes_def split: prod.splits)
  from process_bytes_answers [of log tx, OF assms(3,1,2) packet_wf_zero this assms(6)] show ?thesis by blast
qed

definition sample_node :: "u8 list list remote_node_t" where
  "sample_node = the (remote_node_init (Some undefined) (Some (\<lambda>c. 7)) (Some (\<lambda>f c. (0, c @ [f]))) [])"

lemma sample_node_simps:
  "parser sample_node = stream_parser_init" "tx_fn sample_node = Some (\<lambda>f c. (0, c @ [f]))"
  "node_inv sample_node"
  by (simp_all add: sample_node_def remote_node_init_def node_inv_def Let_def)
    (simp add: stream_parser_init_def)

theorem node_answers_stream_witness:
  "\<exists>r n'. remote_node_process_bytes (Some sample_node) (Some (frame_bytes sample_ping)) 10 [] =
      (Some n', [frame_bytes r]) \<and> answers sample_ping r"
proof -
  obtain n' c' where run: "remote_node_process_bytes (Some sample_node) (Some (frame_bytes sample_ping)) 10 []
      = (Some n', c')"
    by (cases "process_bytes sample_node (take 10 (frame_bytes sample_ping)) []")
      (auto simp: remote_node_process_bytes_def)
  have len: "length (frame_bytes sample_ping) = 10" by (simp add: sample_ping_length)
  have pend: "pending stream_parser_init = []" by (simp add: pending_def stream_parser_init_def)
  obtain p' r where feed: "feed_all stream_parser_init zero_packet (frame_bytes sample_ping) = ([r], p', r)"
    "same_message sample_ping r"
    using feed_all_frame [OF sample_ping_ok, of stream_parser_init zero_packet] pend
    by (auto simp: frame_bytes_def)
  have "pk_msg_id r \<noteq> MSG_ERROR" using feed(2) by (simp add: same_message_def sample_ping_def)
  with node_answers_stream [of sample_node "\<lambda>f c. (0, c @ [f])" "\<lambda>c. c" 10 "frame_bytes sample_ping" "[]" n' c' "[r]" p' r]
  obtain s where "c' = [frame_bytes s]" "answers r s"
    using run feed len by (auto simp: sample_node_simps list_all2_Cons1)
  with run feed(2) show ?thesis by (auto simp: answers_same_message)
qed

text \<open>A READ_STATUS request that arrives intact while the parser is idle is answered with
  the node's uptime, its frame and error counters, the sequence number just received and the
  communication status, each most significant byte first. The list of fields in section 10.2 of
  \<^verbatim>\<open>docs/protocol_v1.md\<close> is a different one.\<close>

theorem node_reports_status:
  assumes "node_inv n" and "pending (parser n) = []" and "tx_fn n = Some tx"
    and "packet_ok p" and "pk_msg_id p = MSG_READ_STATUS" and "pk_length p = 0"
    and "process_bytes n (frame_bytes p) c = (n', c')"
  shows "\<exists>r. c' = snd (tx (frame_bytes r) c) \<and> packet_ok r \<and> pk_msg_id r = MSG_STATUS_RESP \<and>
    pk_seq r = pk_seq p \<and> unat (pk_length r) = 20 \<and>
    take 20 (pk_payload r) = u32_bytes (remote_node_now n c) @ u32_bytes (valid_frame_count (stats n) + 1) @
      u32_bytes (parser_error_count (stats n)) @ u32_bytes (crc_error_count (stats n)) @
      [hi8 (pk_seq p), lo8 (pk_seq p),
       comm_status_value (if comm_status (stats n) = COMM_INIT then COMM_OK else comm_status (stats n)), 0]"
proof -
  obtain q m where h: "remote_node_handle_packet (n\<lparr>parser := q\<rparr>) m c = (n', c')" "same_message p m"
    using process_bytes_frame [OF assms(4,1,2), of c] assms(7) by auto
  define k where "k = note_frame (n\<lparr>parser := q\<rparr>) m"
  have m: "pk_msg_id m = MSG_READ_STATUS" "pk_length m = 0" "pk_seq m = pk_seq p"
    using h(2) assms(5,6) by (simp_all add: same_message_def)
  with h have "snd (remote_node_send_packet (remote_node_remember_request k m) (status_packet k m c) c) = (n', c')"
    by (simp add: handle_packet_alt handle_read_status_sends k_def Let_def)
  with send_packet_sends [OF status_packet_ok, of "remote_node_remember_request k m" c k m c]
  have "c' = snd (tx (frame_bytes (status_packet k m c)) c)"
    using assms(3) by (simp add: sends_def k_def)
  moreover have "pk_msg_id (status_packet k m c) = MSG_STATUS_RESP" "pk_seq (status_packet k m c) = pk_seq p"
    "unat (pk_length (status_packet k m c)) = 20"
    using m by (simp_all add: status_packet_def)
  ultimately show ?thesis
    using status_packet_ok [of k m c] status_packet_payload [of k m c] m
    by (intro exI [of _ "status_packet k m c"]) (simp add: k_def note_frame_def remote_node_now_def)
qed

theorem node_reports_status_witness:
  "\<exists>r. snd (process_bytes sample_node (frame_bytes (sample_ping\<lparr>pk_msg_id := MSG_READ_STATUS\<rparr>)) []) = [frame_bytes r] \<and>
    take 8 (pk_payload r) = [0, 0, 0, 7, 0, 0, 0, 1]"
proof -
  let ?p = "sample_ping\<lparr>pk_msg_id := MSG_READ_STATUS\<rparr>"
  obtain n' c' where run: "process_bytes sample_node (frame_bytes ?p) [] = (n', c')" by fastforce
  have ok: "packet_ok ?p" using sample_ping_ok by (simp add: packet_ok_def packet_wf_def)
  have st: "remote_node_now sample_node [] = 7" "valid_frame_count (stats sample_node) = 0"
    "pending (parser sample_node) = []"
    by (simp_all add: sample_node_def remote_node_init_def remote_node_now_def Let_def pending_def stream_parser_init_def)
  have "pk_length ?p = 0" by (simp add: sample_ping_def zero_packet_def)
  from node_reports_status [OF sample_node_simps(3) st(3) sample_node_simps(2) ok _ this run]
  obtain r where "c' = [frame_bytes r]" "take 20 (pk_payload r) =
      [0, 0, 0, 7, 0, 0, 0, 1] @ drop 8 (take 20 (pk_payload r))"
    using st by (auto simp: u32_bytes_def)
  then have "take 8 (take 20 (pk_payload r)) = [0, 0, 0, 7, 0, 0, 0, 1]" by (metis append_eq_conv_conj length_Cons list.size(3) numeral_nat)
  with run \<open>c' = [frame_bytes r]\<close> show ?thesis by auto
qed

text \<open>The schedule of the periodic messages, across any number of wrap-arounds of the 32-bit
  millisecond tick: when the node is polled at least every \<open>d\<close> ms, the telemetry frames it
  sends carry consecutive sequence numbers and the times they were sent at, and consecutive
  ones are at least 100 ms and at most \<open>100 + d\<close> ms apart; heartbeats likewise with
  500 ms. Nothing else is sent.\<close>

theorem node_periodic_schedule:
  assumes "tx_fn n = Some tx" and "time_fn n = Some clk"
    and "\<And>f c. log (snd (tx f c)) = log c @ [f]" and "\<And>t c. log (at t c) = log c"
    and "\<And>t c. clk (at t c) = of_nat t" and "d + 500 < 2 ^ 32"
    and "last_telemetry_ms n = of_nat t0" and "last_heartbeat_ms n = of_nat t0"
    and "polled d t0 ts" and "poll_run at n ts c = (n', c')"
  shows "\<exists>ps. log c' = log c @ map frame_bytes ps \<and> list_all packet_ok ps \<and>
    stamped MSG_TELEMETRY ps = numbered (telemetry_seq n) (fires 100 t0 ts) \<and>
    gaps_within 100 (100 + d) t0 (fires 100 t0 ts) \<and>
    stamped MSG_HEARTBEAT ps = numbered (heartbeat_seq n) (fires 500 t0 ts) \<and>
    gaps_within 500 (500 + d) t0 (fires 500 t0 ts)"
  using poll_run_stamps [of log tx at clk d n ts c n' c' t0 t0 t0] fires_gaps [OF assms(9), of 100]
    fires_gaps [OF assms(9), of 500] assms by auto

definition clocked_node :: "(nat \<times> u8 list list) remote_node_t" where
  "clocked_node = the (remote_node_init (Some undefined) (Some (\<lambda>(t, _). of_nat t))
     (Some (\<lambda>f (t, l). (0, t, l @ [f]))) (2 ^ 32 - 50, []))"

theorem node_periodic_schedule_witness:
  "\<exists>n' t ps. poll_run (\<lambda>t (_, l). (t, l)) clocked_node [2 ^ 32 - 10, 2 ^ 32 + 60, 2 ^ 32 + 130] (2 ^ 32 - 50, [])
      = (n', t, map frame_bytes ps) \<and> stamped MSG_TELEMETRY ps = [(1, 60)]"
proof -
  let ?ts = "[2 ^ 32 - 10, 2 ^ 32 + 60, 2 ^ 32 + 130] :: nat list" and ?at = "\<lambda>t (_, l). (t, l)"
  obtain n' t l where run: "poll_run ?at clocked_node ?ts (2 ^ 32 - 50, []) = (n', t, l)"
    by (cases "poll_run ?at clocked_node ?ts (2 ^ 32 - 50, [])") auto
  have "\<exists>ps. snd (t, l) = snd (2 ^ 32 - 50 :: nat, [] :: u8 list list) @ map frame_bytes ps \<and> list_all packet_ok ps \<and>
    stamped MSG_TELEMETRY ps = numbered (telemetry_seq clocked_node) (fires 100 (2 ^ 32 - 50) ?ts) \<and>
    gaps_within 100 (100 + 70) (2 ^ 32 - 50) (fires 100 (2 ^ 32 - 50) ?ts) \<and>
    stamped MSG_HEARTBEAT ps = numbered (heartbeat_seq clocked_node) (fires 500 (2 ^ 32 - 50) ?ts) \<and>
    gaps_within 500 (500 + 70) (2 ^ 32 - 50) (fires 500 (2 ^ 32 - 50) ?ts)"
    by (rule node_periodic_schedule [where tx = "\<lambda>f (t, l). (0, t, l @ [f])" and clk = "\<lambda>(t, _). of_nat t"
          and at = ?at, OF _ _ _ _ _ _ _ _ _ run])
      (auto simp: clocked_node_def remote_node_init_def remote_node_now_def Let_def)
  then obtain ps where "l = map frame_bytes ps" "stamped MSG_TELEMETRY ps = [(1, of_nat (2 ^ 32 + 60))]"
    by (auto simp: clocked_node_def remote_node_init_def Let_def)
  moreover have "(of_nat (2 ^ 32 + 60) :: u32) = 60" by simp
  ultimately show ?thesis using run by (auto simp del: of_nat_add)
qed

end
