(* ===== verification/Fifo.thy ===== *)
theory Fifo
  imports Prelude
begin

text \<open>
  The contract of a bounded first-in first-out queue, as a locale, and what its users may
  conclude from it. Three data structures of the firmware promise it: the interrupt ring of the
  remote node, the interrupt ring of the gateway, and the kernel's message queue. All three
  store their items in an array read cyclically, so the facts on cyclic slices are here too.
\<close>

subsection \<open>Cyclic slices of an array\<close>

definition ring_slice :: "'a list \<Rightarrow> nat \<Rightarrow> nat \<Rightarrow> 'a list" where
  "ring_slice buf start n = map (\<lambda>i. buf ! ((start + i) mod length buf)) [0..<n]"

lemma length_ring_slice [simp]: "length (ring_slice buf start n) = n"
  by (simp add: ring_slice_def)

lemma ring_slice_0 [simp]: "ring_slice buf start 0 = []"
  by (simp add: ring_slice_def)

lemma ring_slice_mod [simp]: "ring_slice buf (start mod length buf) n = ring_slice buf start n"
  by (simp add: ring_slice_def mod_add_left_eq)

lemma ring_slice_Suc:
  "ring_slice buf start (Suc n) = buf ! (start mod length buf) # ring_slice buf (Suc start) n"
proof -
  have "[0..<Suc n] = 0 # map Suc [0..<n]" by (simp add: upt_conv_Cons map_Suc_upt del: upt_Suc)
  then show ?thesis by (simp add: ring_slice_def del: upt_Suc)
qed

lemma mod_window_distinct:
  assumes "i < n" "n < (N :: nat)"
  shows "(start + i) mod N \<noteq> (start + n) mod N"
proof
  assume "(start + i) mod N = (start + n) mod N"
  then have "(start + n - (start + i)) mod N = 0"
    using assms by (metis add_le_cancel_left less_imp_le mod_eq_dvd_iff_nat dvd_imp_mod_0)
  then show False using assms by simp
qed

lemma ring_slice_snoc:
  assumes "n < length buf"
  shows "ring_slice (buf[(start + n) mod length buf := x]) start (Suc n) = ring_slice buf start n @ [x]"
proof -
  have "(start + n) mod length buf < length buf" using assms by (intro mod_less_divisor) auto
  moreover have "buf[(start + n) mod length buf := x] ! ((start + i) mod length buf)
      = buf ! ((start + i) mod length buf)" if "i < n" for i
    using mod_window_distinct [OF that assms, of start] by (metis nth_list_update_neq)
  ultimately show ?thesis by (simp add: ring_slice_def)
qed

lemma ring_slice_update_outside:
  assumes "n < length buf" "j = (start + n) mod length buf"
  shows "ring_slice (buf[j := x]) start n = ring_slice buf start n"
  using ring_slice_snoc [OF assms(1), of start x] assms(2) by (simp add: ring_slice_def)

subsection \<open>The interface\<close>

datatype 'a fifo_op = Put 'a | Get

text \<open>
  A run of any interleaving of producer and consumer calls: the accepted items, the removed
  items, and the final queue.
\<close>

fun fifo_run ::
  "('a \<Rightarrow> 'q \<Rightarrow> bool \<times> 'q) \<Rightarrow> ('q \<Rightarrow> 'a option \<times> 'q) \<Rightarrow> 'a fifo_op list \<Rightarrow> 'q \<Rightarrow>
   'a list \<times> 'a list \<times> 'q" where
  "fifo_run put get [] q = ([], [], q)"
| "fifo_run put get (Put x # ops) q =
     (let (ok, q) = put x q; (acc, out, q) = fifo_run put get ops q
      in (if ok then x # acc else acc, out, q))"
| "fifo_run put get (Get # ops) q =
     (let (r, q) = get q; (acc, out, q) = fifo_run put get ops q
      in (acc, (case r of None \<Rightarrow> out | Some x \<Rightarrow> x # out), q))"

locale bounded_fifo =
  fixes inv :: "'q \<Rightarrow> bool"
    and items :: "'q \<Rightarrow> 'a list"
    and capacity :: "'q \<Rightarrow> nat"
    and put :: "'a \<Rightarrow> 'q \<Rightarrow> bool \<times> 'q"
    and get :: "'q \<Rightarrow> 'a option \<times> 'q"
  assumes put_room: "inv q \<Longrightarrow> length (items q) < capacity q \<Longrightarrow>
      fst (put x q) \<and> inv (snd (put x q)) \<and> items (snd (put x q)) = items q @ [x] \<and>
      capacity (snd (put x q)) = capacity q"
    and put_full: "inv q \<Longrightarrow> capacity q \<le> length (items q) \<Longrightarrow>
      \<not> fst (put x q) \<and> inv (snd (put x q)) \<and> items (snd (put x q)) = items q \<and> capacity (snd (put x q)) = capacity q"
    and get_empty: "inv q \<Longrightarrow> items q = [] \<Longrightarrow> get q = (None, q)"
    and get_head: "inv q \<Longrightarrow> items q = x # xs \<Longrightarrow>
      fst (get q) = Some x \<and> inv (snd (get q)) \<and> items (snd (get q)) = xs \<and>
      capacity (snd (get q)) = capacity q"
    and within_capacity: "inv q \<Longrightarrow> length (items q) \<le> capacity q"
begin

lemma put_cases:
  assumes "inv q" "put x q = (ok, q')"
  shows "inv q' \<and> capacity q' = capacity q \<and> items q' = items q @ (if ok then [x] else []) \<and>
    (ok \<longleftrightarrow> length (items q) < capacity q)"
proof (cases "length (items q) < capacity q")
  case True
  with put_room [OF assms(1) True, of x] assms show ?thesis by simp
next
  case False
  with put_full [OF assms(1), of x] assms show ?thesis by simp
qed

lemma get_cases:
  assumes "inv q" "get q = (r, q')"
  shows "inv q' \<and> capacity q' = capacity q \<and>
    (case r of None \<Rightarrow> items q = [] \<and> q' = q | Some x \<Rightarrow> items q = x # items q')"
proof (cases "items q")
  case Nil
  with get_empty [OF assms(1)] assms show ?thesis by simp
next
  case (Cons x xs)
  with get_head [OF assms(1) Cons] assms show ?thesis by auto
qed

text \<open>
  First in, first out, under every interleaving: what was in the queue followed by what was
  accepted is what was removed followed by what is still there.
\<close>

lemma fifo_order:
  "inv q \<Longrightarrow> fifo_run put get ops q = (acc, out, q') \<Longrightarrow>
   inv q' \<and> capacity q' = capacity q \<and> items q @ acc = out @ items q'"
proof (induction ops arbitrary: q acc out)
  case (Cons op ops)
  show ?case
  proof (cases op)
    case (Put x)
    obtain ok q1 where p: "put x q = (ok, q1)" by fastforce
    obtain acc1 where r: "fifo_run put get ops q1 = (acc1, out, q')" and a: "acc = (if ok then x # acc1 else acc1)"
      using Cons.prems(2) Put p by (auto split: prod.splits)
    from put_cases [OF Cons.prems(1) p] Cons.IH [OF _ r] a show ?thesis
      by (auto split: if_splits)
  next
    case Get
    obtain v q1 where g: "get q = (v, q1)" by fastforce
    obtain out1 where r: "fifo_run put get ops q1 = (acc, out1, q')"
      and o: "out = (case v of None \<Rightarrow> out1 | Some x \<Rightarrow> x # out1)"
      using Cons.prems(2) Get g by (auto split: prod.splits)
    from get_cases [OF Cons.prems(1) g] Cons.IH [OF _ r] o show ?thesis
      by (auto split: option.splits)
  qed
qed simp

text \<open>Nothing is refused as long as the backlog stays below the capacity.\<close>

lemma put_accepts: "inv q \<Longrightarrow> length (items q) < capacity q \<Longrightarrow> fst (put x q)"
  using put_room by blast

end

end
