(* ===== verification/UartRxRing.thy ===== *)
theory UartRxRing
  imports Fifo
begin

text \<open>
  The single-producer single-consumer byte ring between the UART5 interrupt and the task of the
  remote node (\<^verbatim>\<open>uart_rx_ring.h\<close>, \<^verbatim>\<open>uart_rx_ring.c\<close>). One slot stays free, so 511 of the 512
  bytes are usable. A null ring or byte pointer is \<open>None\<close>.
\<close>

definition UART_RX_RING_SIZE :: nat where [simp]: "UART_RX_RING_SIZE = 512"

record uart_rx_ring_t =
  ring_storage :: "u8 list"
  write_index :: u16
  read_index :: u16

text \<open>Initialisation leaves the storage bytes as they are.\<close>

definition uart_rx_ring_init :: "uart_rx_ring_t option \<Rightarrow> uart_rx_ring_t option" where
  "uart_rx_ring_init ring = (case ring of None \<Rightarrow> None | Some r \<Rightarrow> Some (r\<lparr>write_index := 0, read_index := 0\<rparr>))"

text \<open>The successor of an index, as both functions below compute it.\<close>

definition ring_next :: "u16 \<Rightarrow> u16" where
  "ring_next i = (let n = i + 1 in if unat n \<ge> UART_RX_RING_SIZE then 0 else n)"

definition uart_rx_ring_push_isr :: "uart_rx_ring_t option \<Rightarrow> u8 \<Rightarrow> int \<times> uart_rx_ring_t option" where
  "uart_rx_ring_push_isr ring byte =
     (case ring of
        None \<Rightarrow> (0, None)
      | Some r \<Rightarrow>
          let next_write = ring_next (write_index r)
          in if next_write = read_index r then (0, Some r)
             else (1, Some (r\<lparr>ring_storage := (ring_storage r)[unat (write_index r) := byte],
                             write_index := next_write\<rparr>)))"

definition uart_rx_ring_pop :: "uart_rx_ring_t option \<Rightarrow> u8 option \<Rightarrow> int \<times> uart_rx_ring_t option \<times> u8 option" where
  "uart_rx_ring_pop ring byte =
     (case (ring, byte) of
        (Some r, Some _) \<Rightarrow>
          if read_index r = write_index r then (0, ring, byte)
          else (1, Some (r\<lparr>read_index := ring_next (read_index r)\<rparr>),
                Some (ring_storage r ! unat (read_index r)))
      | _ \<Rightarrow> (0, ring, byte))"

subsection \<open>The list view\<close>

definition ring_inv :: "uart_rx_ring_t \<Rightarrow> bool" where
  "ring_inv r \<longleftrightarrow> length (ring_storage r) = UART_RX_RING_SIZE \<and>
     unat (write_index r) < UART_RX_RING_SIZE \<and> unat (read_index r) < UART_RX_RING_SIZE"

definition ring_count :: "uart_rx_ring_t \<Rightarrow> nat" where
  "ring_count r = (unat (write_index r) + UART_RX_RING_SIZE - unat (read_index r)) mod UART_RX_RING_SIZE"

definition ring_bytes :: "uart_rx_ring_t \<Rightarrow> u8 list" where
  [fifo_abs]: "ring_bytes r = ring_slice (ring_storage r) (unat (read_index r)) (ring_count r)"

lemma length_ring_bytes: "length (ring_bytes r) = ring_count r"
  by (simp add: ring_bytes_def)

text \<open>The calls as the two owners make them, on an existing ring.\<close>

definition ring_put :: "u8 \<Rightarrow> uart_rx_ring_t \<Rightarrow> bool \<times> uart_rx_ring_t" where
  "ring_put b r = (let (ok, r') = uart_rx_ring_push_isr (Some r) b in (ok \<noteq> 0, the r'))"

definition ring_get :: "uart_rx_ring_t \<Rightarrow> u8 option \<times> uart_rx_ring_t" where
  "ring_get r = (let (ok, r', b) = uart_rx_ring_pop (Some r) (Some 0) in (if ok \<noteq> 0 then b else None, the r'))"

lemma unat_ring_next:
  assumes "unat i < 512"
  shows "unat (ring_next i) = Suc (unat i) mod 512"
proof -
  have "unat (i + 1) = Suc (unat i)" using assms by (simp add: unat_word_ariths)
  with assms show ?thesis by (auto simp: ring_next_def Let_def mod_Suc)
qed

lemma ring_count_alt:
  assumes "ring_inv r"
  shows "ring_count r = (if unat (read_index r) \<le> unat (write_index r)
     then unat (write_index r) - unat (read_index r)
     else unat (write_index r) + 512 - unat (read_index r))"
  using assms by (auto simp: ring_inv_def ring_count_def mod_if)

lemma ring_count_less: "ring_count r < 512"
  by (simp add: ring_count_def)

lemma ring_write_pos:
  "ring_inv r \<Longrightarrow> (unat (read_index r) + ring_count r) mod 512 = unat (write_index r)"
  by (auto simp: ring_count_alt) (auto simp: ring_inv_def mod_if)

lemma ring_full_iff:
  assumes "ring_inv r"
  shows "ring_next (write_index r) = read_index r \<longleftrightarrow> ring_count r = 511"
proof -
  have "ring_next (write_index r) = read_index r \<longleftrightarrow> Suc (unat (write_index r)) mod 512 = unat (read_index r)"
    using assms unat_ring_next [of "write_index r"] by (simp add: ring_inv_def word_unat_eq_iff)
  also have "\<dots> \<longleftrightarrow> ring_count r = 511"
    using assms by (auto simp: ring_count_alt [OF assms]) (auto simp: ring_inv_def mod_if split: if_splits)
  finally show ?thesis .
qed

lemma ring_empty_iff:
  assumes "ring_inv r"
  shows "read_index r = write_index r \<longleftrightarrow> ring_count r = 0"
proof -
  have "read_index r = write_index r \<longleftrightarrow> unat (read_index r) = unat (write_index r)"
    by (simp add: word_unat_eq_iff)
  then show ?thesis using assms by (auto simp: ring_count_alt ring_inv_def)
qed

lemma ring_put_room:
  assumes inv: "ring_inv r" and room: "ring_count r < 511"
  shows "fst (ring_put b r) \<and> ring_inv (snd (ring_put b r)) \<and> ring_bytes (snd (ring_put b r)) = ring_bytes r @ [b]"
proof -
  have bounds: "unat (write_index r) < 512" "unat (read_index r) < 512" "length (ring_storage r) = 512"
    using inv by (simp_all add: ring_inv_def)
  define r' where "r' = r\<lparr>ring_storage := (ring_storage r)[unat (write_index r) := b],
    write_index := ring_next (write_index r)\<rparr>"
  have put: "ring_put b r = (True, r')"
    using ring_full_iff [OF inv] room by (simp add: ring_put_def uart_rx_ring_push_isr_def r'_def)
  have inv': "ring_inv r'" using bounds by (simp add: ring_inv_def r'_def unat_ring_next)
  have idx: "unat (write_index r') = Suc (unat (write_index r)) mod 512" "read_index r' = read_index r"
    using bounds by (simp_all add: r'_def unat_ring_next)
  have "ring_count r' = Suc (ring_count r)"
    using room bounds by (auto simp: ring_count_alt [OF inv] ring_count_alt [OF inv'] idx mod_Suc split: if_splits)
  moreover have "unat (write_index r) = (unat (read_index r) + ring_count r) mod length (ring_storage r)"
    using ring_write_pos [OF inv] bounds by simp
  ultimately have "ring_bytes r' = ring_bytes r @ [b]"
    using ring_slice_snoc [of "ring_count r" "ring_storage r" "unat (read_index r)" b] room bounds
    by (simp add: ring_bytes_def r'_def)
  with put inv' show ?thesis by simp
qed

lemma ring_get_head:
  assumes inv: "ring_inv r" and count: "ring_count r = Suc n"
  shows "fst (ring_get r) = Some (hd (ring_bytes r)) \<and> ring_inv (snd (ring_get r)) \<and>
    ring_bytes (snd (ring_get r)) = tl (ring_bytes r)"
proof -
  have bounds: "unat (write_index r) < 512" "unat (read_index r) < 512" "length (ring_storage r) = 512"
    using inv by (simp_all add: ring_inv_def)
  define r' where "r' = r\<lparr>read_index := ring_next (read_index r)\<rparr>"
  have get: "ring_get r = (Some (ring_storage r ! unat (read_index r)), r')"
    using ring_empty_iff [OF inv] count by (simp add: ring_get_def uart_rx_ring_pop_def r'_def)
  have inv': "ring_inv r'" using bounds by (simp add: ring_inv_def r'_def unat_ring_next)
  have idx: "unat (read_index r') = Suc (unat (read_index r)) mod 512" "write_index r' = write_index r"
    using bounds by (simp_all add: r'_def unat_ring_next)
  have "ring_count r' = n"
    using count bounds by (auto simp: ring_count_alt [OF inv] ring_count_alt [OF inv'] idx mod_Suc split: if_splits)
  moreover have "ring_slice (ring_storage r) (unat (read_index r')) n
      = ring_slice (ring_storage r) (Suc (unat (read_index r))) n"
    using ring_slice_mod [of "ring_storage r" "Suc (unat (read_index r))" n] bounds
    by (simp add: r'_def unat_ring_next)
  ultimately have "ring_bytes r = ring_storage r ! unat (read_index r) # ring_bytes r'"
    using count bounds by (simp add: ring_bytes_def ring_slice_Suc r'_def)
  with get inv' show ?thesis by simp
qed

interpretation uart_ring: bounded_fifo ring_inv ring_bytes "\<lambda>_. 511" ring_put ring_get
proof unfold_locales
  fix r b
  assume inv: "ring_inv r"
  show "length (ring_bytes r) \<le> 511"
    using ring_count_less [of r] by (simp add: ring_bytes_def)
  show "fst (ring_put b r) \<and> ring_inv (snd (ring_put b r)) \<and> ring_bytes (snd (ring_put b r)) = ring_bytes r @ [b]
      \<and> (511 :: nat) = 511" if "length (ring_bytes r) < 511"
    using ring_put_room [OF inv] that by (simp add: ring_bytes_def)
  show "\<not> fst (ring_put b r) \<and> ring_inv (snd (ring_put b r)) \<and> ring_bytes (snd (ring_put b r)) = ring_bytes r \<and>
      (511 :: nat) = 511" if "511 \<le> length (ring_bytes r)"
    using ring_full_iff [OF inv] ring_count_less [of r] that inv
    by (simp add: ring_bytes_def ring_put_def uart_rx_ring_push_isr_def)
  show "ring_get r = (None, r)" if "ring_bytes r = []"
    using ring_empty_iff [OF inv] that length_ring_bytes [of r] by (simp add: ring_get_def uart_rx_ring_pop_def)
  show "fst (ring_get r) = Some b \<and> ring_inv (snd (ring_get r)) \<and> ring_bytes (snd (ring_get r)) = bs
      \<and> (511 :: nat) = 511" if "ring_bytes r = b # bs" for bs
    using ring_get_head [OF inv, of "length bs"] that length_ring_bytes [of r] by simp
qed

text \<open>C24: bytes cross from the interrupt to the task in order and without loss or duplication,
  however pushes and pops interleave: what the ring held and what it accepted is what was
  popped and what it still holds. A push is refused only when 511 bytes are waiting.\<close>

theorem uart_ring_is_fifo:
  assumes "ring_inv r" and "fifo_run ring_put ring_get ops r = (accepted, popped, r')"
  shows "ring_inv r' \<and> ring_bytes r @ accepted = popped @ ring_bytes r' \<and> length (ring_bytes r') \<le> 511 \<and>
    (\<forall>b. fst (ring_put b r') \<longleftrightarrow> length (ring_bytes r') < 511)"
proof -
  have order: "ring_inv r' \<and> ring_bytes r @ accepted = popped @ ring_bytes r'"
    using uart_ring.fifo_order [OF assms] by simp
  then have "fst (ring_put b r') \<longleftrightarrow> length (ring_bytes r') < 511" for b
    using uart_ring.put_cases [of r' b "fst (ring_put b r')" "snd (ring_put b r')"] by simp
  with order show ?thesis using uart_ring.within_capacity by simp
qed

theorem uart_ring_is_fifo_witness:
  "\<exists>r'. fifo_run ring_put ring_get [Put 1, Put 2, Get]
      \<lparr>ring_storage = replicate 512 0, write_index = 511, read_index = 511\<rparr> = ([1, 2], [1], r') \<and>
    ring_bytes r' = [2]"
proof -
  let ?r = "\<lparr>ring_storage = replicate 512 0, write_index = 511, read_index = 511\<rparr>"
  obtain acc out r' where run: "fifo_run ring_put ring_get [Put 1, Put 2, Get] ?r = (acc, out, r')"
    using prod_cases3 by blast
  have "ring_inv ?r" by (simp add: ring_inv_def)
  from uart_ring_is_fifo [OF this run] have order: "ring_bytes ?r @ acc = out @ ring_bytes r'" by simp
  have "acc = [1, 2]" "out = [1]"
    using run by (simp_all add: ring_put_def ring_get_def uart_rx_ring_push_isr_def uart_rx_ring_pop_def
        ring_next_def Let_def)
  with order run show ?thesis by (simp add: ring_bytes_def ring_count_def)
qed

end
