(* ===== verification/Hal.thy ===== *)
theory Hal
  imports Prelude
begin

text \<open>
  The result type of the vendor's hardware abstraction layer, and the values its C
  enumeration gives the constructors. The layer itself is a parameter of the models that use it.
\<close>

datatype HAL_StatusTypeDef = HAL_OK | HAL_ERROR | HAL_BUSY | HAL_TIMEOUT

fun hal_status_value :: "HAL_StatusTypeDef \<Rightarrow> int" where
  "hal_status_value HAL_OK = 0"
| "hal_status_value HAL_ERROR = 1"
| "hal_status_value HAL_BUSY = 2"
| "hal_status_value HAL_TIMEOUT = 3"

lemma hal_status_value_inject [simp]: "hal_status_value a = hal_status_value b \<longleftrightarrow> a = b"
  by (cases a; cases b) simp_all

end
