(* ===== verification/RemotePort.thy ===== *)
theory RemotePort
  imports RemoteNode UartRxRing Hal
begin

text \<open>
  The board port of the remote node (\<^verbatim>\<open>remote_node_port.c\<close>): the objects shared by the main
  task and the UART5 interrupts, the task's processing function and the interrupt callbacks.

  The hardware is a parameter: a value of type \<open>'h\<close> and the three HAL calls the port makes.
  Interrupts run between the steps of the task; \<open>port_step\<close> is the interleaving, with the
  critical section of \<^verbatim>\<open>remote_node_port_process\<close> as one step.
\<close>

subsection \<open>State\<close>

definition REMOTE_NODE_UART_TX_TIMEOUT_MS :: u32 where [simp]: "REMOTE_NODE_UART_TX_TIMEOUT_MS = 100"

datatype uart_handle = huart5 | other_uart

record 'h f429_hal =
  HAL_GetTick :: "'h \<Rightarrow> u32"
  HAL_UART_Transmit :: "u8 list \<Rightarrow> u32 \<Rightarrow> 'h \<Rightarrow> HAL_StatusTypeDef \<times> 'h"
  HAL_UART_Receive_IT :: "'h \<Rightarrow> HAL_StatusTypeDef \<times> 'h"

record 'h port_state =
  remote_node :: "'h remote_node_t"
  rx_ring :: uart_rx_ring_t
  rx_byte :: u8
  rx_overflow_pending :: u32
  uart_error_pending :: u32
  huart5_is_UART5 :: bool
  PRIMASK :: u32
  hw :: 'h

subsection \<open>Operations\<close>

definition port_get_time_ms :: "'h f429_hal \<Rightarrow> 'h \<Rightarrow> u32" where
  "port_get_time_ms hal h = HAL_GetTick hal h"

text \<open>The frame length is narrowed to 16 bits for the HAL call.\<close>

definition port_transmit :: "'h f429_hal \<Rightarrow> u8 list \<Rightarrow> 'h \<Rightarrow> int \<times> 'h" where
  "port_transmit hal frame h =
     (let (st, h) = HAL_UART_Transmit hal (take (unat (of_nat (length frame) :: u16)) frame)
            REMOTE_NODE_UART_TX_TIMEOUT_MS h
      in (if st = HAL_OK then 0 else -1, h))"

definition remote_node_port_init :: "'h f429_hal \<Rightarrow> 'h port_state \<Rightarrow> int \<times> 'h port_state" where
  "remote_node_port_init hal s =
     (if \<not> huart5_is_UART5 s then (-1, s)
      else
        let s = s\<lparr>rx_ring := the (uart_rx_ring_init (Some (rx_ring s)))\<rparr>;
            s = s\<lparr>remote_node := the (remote_node_init (Some (remote_node s))
                  (Some (port_get_time_ms hal)) (Some (port_transmit hal)) (hw s))\<rparr>;
            (st, h) = HAL_UART_Receive_IT hal (hw s);
            s = s\<lparr>hw := h\<rparr>
        in (if st \<noteq> HAL_OK then -1 else 0, s))"

text \<open>
  The critical section: the interrupt counters are read and cleared with interrupts masked.
\<close>

definition take_isr_counters :: "'h port_state \<Rightarrow> u32 \<times> u32 \<times> 'h port_state" where
  "take_isr_counters s =
     (let primask = PRIMASK s;
          s = s\<lparr>PRIMASK := 1\<rparr>;
          overflow_count = rx_overflow_pending s;
          error_count = uart_error_pending s;
          s = s\<lparr>rx_overflow_pending := 0, uart_error_pending := 0\<rparr>;
          s = (if primask = 0 then s\<lparr>PRIMASK := 0\<rparr> else s)
      in (overflow_count, error_count, s))"

text \<open>The two counting loops run once per pending event.\<close>

definition note_isr_counters :: "u32 \<Rightarrow> u32 \<Rightarrow> 'h port_state \<Rightarrow> 'h port_state" where
  "note_isr_counters overflow_count error_count s =
     (let n = (remote_node_note_rx_overflow ^^ unat overflow_count) (Some (remote_node s));
          n = (remote_node_note_uart_error ^^ unat error_count) n
      in s\<lparr>remote_node := the n\<rparr>)"

text \<open>One iteration of the receive loop; \<open>None\<close> when the ring is empty.\<close>

definition drain_one :: "'h port_state \<Rightarrow> 'h port_state option" where
  "drain_one s =
     (let (ok, ring, byte) = uart_rx_ring_pop (Some (rx_ring s)) (Some 0)
      in if ok = 0 then None
         else
           let s = s\<lparr>rx_ring := the ring\<rparr>;
               (n, h) = remote_node_process_byte (Some (remote_node s)) (the byte) (hw s)
           in Some (s\<lparr>remote_node := the n, hw := h\<rparr>))"

partial_function (option) drain :: "'h port_state \<Rightarrow> 'h port_state option" where
  "drain s = (case drain_one s of None \<Rightarrow> Some s | Some s' \<Rightarrow> drain s')"

definition port_periodic :: "'h port_state \<Rightarrow> 'h port_state" where
  "port_periodic s =
     (let (n, h) = remote_node_process_periodic (Some (remote_node s)) (hw s) in s\<lparr>remote_node := the n, hw := h\<rparr>)"

text \<open>
  The round as it runs when no interrupt comes in between. With interrupts it is a sequence of the
  steps of \<open>port_step\<close> below, one of which is an iteration of its receive loop; the
  lemma \<open>round_is_run\<close> shows that the uninterrupted round is such a sequence.
\<close>

definition remote_node_port_process :: "'h port_state \<Rightarrow> 'h port_state option" where
  "remote_node_port_process s =
     (let (overflow_count, error_count, s) = take_isr_counters s;
          s = note_isr_counters overflow_count error_count s
      in map_option port_periodic (drain s))"

definition HAL_UART_RxCpltCallback :: "'h f429_hal \<Rightarrow> uart_handle \<Rightarrow> 'h port_state \<Rightarrow> 'h port_state" where
  "HAL_UART_RxCpltCallback hal uart s =
     (if uart = huart5 then
        let (ok, ring) = uart_rx_ring_push_isr (Some (rx_ring s)) (rx_byte s);
            s = s\<lparr>rx_ring := the ring\<rparr>;
            s = (if ok = 0 then s\<lparr>rx_overflow_pending := rx_overflow_pending s + 1\<rparr> else s);
            (st, h) = HAL_UART_Receive_IT hal (hw s);
            s = s\<lparr>hw := h\<rparr>
        in if st \<noteq> HAL_OK then s\<lparr>uart_error_pending := uart_error_pending s + 1\<rparr> else s
      else s)"

definition HAL_UART_ErrorCallback :: "'h f429_hal \<Rightarrow> uart_handle \<Rightarrow> 'h port_state \<Rightarrow> 'h port_state" where
  "HAL_UART_ErrorCallback hal uart s =
     (if uart = huart5
      then let s = s\<lparr>uart_error_pending := uart_error_pending s + 1\<rparr> in s\<lparr>hw := snd (HAL_UART_Receive_IT hal (hw s))\<rparr>
      else s)"

subsection \<open>Interleaving of the task and the interrupts\<close>

datatype port_pc = Port_idle | Port_drain

text \<open>
  The labels say what happened: a byte was received (and whether the ring took it and the
  receiver could be armed again), a UART error was reported, the task started a round, took
  one byte, or finished the round.
\<close>

datatype port_label = L_rx u8 bool bool | L_error | L_start | L_byte u8 | L_finish | L_hw

inductive port_step :: "'h f429_hal \<Rightarrow> port_pc \<times> 'h port_state \<Rightarrow> port_label \<Rightarrow> port_pc \<times> 'h port_state \<Rightarrow> bool"
  for hal where
  rx: "port_step hal (pc, s)
         (L_rx b (fst (ring_put b (rx_ring s))) (fst (HAL_UART_Receive_IT hal (hw s)) = HAL_OK))
         (pc, HAL_UART_RxCpltCallback hal huart5 (s\<lparr>rx_byte := b\<rparr>))"
| err: "port_step hal (pc, s) L_error (pc, HAL_UART_ErrorCallback hal huart5 s)"
| start: "take_isr_counters s = (ov, er, s') \<Longrightarrow>
     port_step hal (Port_idle, s) L_start (Port_drain, note_isr_counters ov er s')"
| byte: "drain_one s = Some s' \<Longrightarrow>
     port_step hal (Port_drain, s) (L_byte (hd (ring_bytes (rx_ring s)))) (Port_drain, s')"
| finish: "drain_one s = None \<Longrightarrow> port_step hal (Port_drain, s) L_finish (Port_idle, port_periodic s)"
| hw: "port_step hal (pc, s) L_hw (pc, s\<lparr>hw := h\<rparr>)"

inductive port_run :: "'h f429_hal \<Rightarrow> port_pc \<times> 'h port_state \<Rightarrow> port_label list \<Rightarrow> port_pc \<times> 'h port_state \<Rightarrow> bool"
  for hal where
  run_nil: "port_run hal x [] x"
| run_snoc: "port_run hal x tr y \<Longrightarrow> port_step hal y l z \<Longrightarrow> port_run hal x (tr @ [l]) z"

inductive_cases port_step_cases [elim]:
  "port_step hal (pc, s) (L_rx b ok armed) z" "port_step hal (pc, s) L_error z" "port_step hal (pc, s) L_start z"
  "port_step hal (pc, s) (L_byte b) z" "port_step hal (pc, s) L_finish z" "port_step hal (pc, s) L_hw z"

text \<open>What a trace says: bytes accepted, dropped and processed, errors reported.\<close>

fun accepted :: "port_label list \<Rightarrow> u8 list" where
  "accepted [] = []"
| "accepted (L_rx b ok armed # tr) = (if ok then b # accepted tr else accepted tr)"
| "accepted (_ # tr) = accepted tr"

fun dropped :: "port_label list \<Rightarrow> nat" where
  "dropped [] = 0"
| "dropped (L_rx b ok armed # tr) = (if ok then dropped tr else Suc (dropped tr))"
| "dropped (_ # tr) = dropped tr"

fun processed :: "port_label list \<Rightarrow> u8 list" where
  "processed [] = []"
| "processed (L_byte b # tr) = b # processed tr"
| "processed (_ # tr) = processed tr"

fun uart_errors :: "port_label list \<Rightarrow> nat" where
  "uart_errors [] = 0"
| "uart_errors (L_error # tr) = Suc (uart_errors tr)"
| "uart_errors (L_rx b ok armed # tr) = (if armed then uart_errors tr else Suc (uart_errors tr))"
| "uart_errors (_ # tr) = uart_errors tr"

lemma accepted_append [simp]: "accepted (xs @ ys) = accepted xs @ accepted ys"
  by (induction xs rule: accepted.induct) simp_all

lemma dropped_append [simp]: "dropped (xs @ ys) = dropped xs + dropped ys"
  by (induction xs rule: dropped.induct) simp_all

lemma processed_append [simp]: "processed (xs @ ys) = processed xs @ processed ys"
  by (induction xs rule: processed.induct) simp_all

lemma uart_errors_append [simp]: "uart_errors (xs @ ys) = uart_errors xs + uart_errors ys"
  by (induction xs rule: uart_errors.induct) simp_all

subsection \<open>The invariant of the interleaving\<close>

text \<open>
  Every accepted byte has been processed or is in the ring, the parser has seen exactly the
  processed bytes, and every drop and every UART error is counted once: in the pending counter
  of the interrupt or in the statistics of the node.
\<close>

definition port_inv :: "port_label list \<Rightarrow> 'h port_state \<Rightarrow> bool" where
  "port_inv tr s \<longleftrightarrow> ring_inv (rx_ring s) \<and> node_inv (remote_node s) \<and>
     accepted tr = processed tr @ ring_bytes (rx_ring s) \<and>
     (\<exists>ds out. feed_all stream_parser_init zero_packet (processed tr) = (ds, parser (remote_node s), out)) \<and>
     uart_rx_overflow_count (stats (remote_node s)) + rx_overflow_pending s = of_nat (dropped tr) \<and>
     uart_error_count (stats (remote_node s)) + uart_error_pending s = of_nat (uart_errors tr)"

lemma rx_keeps_inv:
  assumes "port_inv tr s"
  shows "port_inv (tr @ [L_rx b (fst (ring_put b (rx_ring s))) (fst (HAL_UART_Receive_IT hal (hw s)) = HAL_OK)])
    (HAL_UART_RxCpltCallback hal huart5 (s\<lparr>rx_byte := b\<rparr>))"
proof -
  obtain st h where hal: "HAL_UART_Receive_IT hal (hw s) = (st, h)" by fastforce
  obtain ok r where put: "ring_put b (rx_ring s) = (ok, r)" by fastforce
  then have push: "uart_rx_ring_push_isr (Some (rx_ring s)) b = (if ok then 1 else 0, Some r)"
    by (auto simp: ring_put_def uart_rx_ring_push_isr_def Let_def split: if_splits)
  have "ring_inv r \<and> ring_bytes r = ring_bytes (rx_ring s) @ (if ok then [b] else [])"
    using uart_ring.put_cases [OF _ put] assms by (simp add: port_inv_def)
  with assms put push hal show ?thesis
    by (auto simp: port_inv_def HAL_UART_RxCpltCallback_def algebra_simps)
qed

lemma err_keeps_inv: "port_inv tr s \<Longrightarrow> port_inv (tr @ [L_error]) (HAL_UART_ErrorCallback hal huart5 s)"
  by (auto simp: port_inv_def HAL_UART_ErrorCallback_def algebra_simps)

lemma note_rx_overflow_iterate:
  "(remote_node_note_rx_overflow ^^ k) (Some n) = Some (if k = 0 then n else n\<lparr>stats := (stats n)\<lparr>
     uart_rx_overflow_count := uart_rx_overflow_count (stats n) + of_nat k, comm_status := COMM_ERROR\<rparr>\<rparr>)"
  by (induction k) (auto simp: remote_node_note_rx_overflow_def algebra_simps)

lemma note_uart_error_iterate:
  "(remote_node_note_uart_error ^^ k) (Some n) = Some (if k = 0 then n else n\<lparr>stats := (stats n)\<lparr>
     uart_error_count := uart_error_count (stats n) + of_nat k, comm_status := COMM_ERROR\<rparr>\<rparr>)"
  by (induction k) (auto simp: remote_node_note_uart_error_def algebra_simps)

lemma note_isr_counters_simps:
  "rx_ring (note_isr_counters ov er s) = rx_ring s" "hw (note_isr_counters ov er s) = hw s"
  "rx_overflow_pending (note_isr_counters ov er s) = rx_overflow_pending s"
  "uart_error_pending (note_isr_counters ov er s) = uart_error_pending s"
  "parser (remote_node (note_isr_counters ov er s)) = parser (remote_node s)"
  "node_inv (remote_node (note_isr_counters ov er s)) = node_inv (remote_node s)"
  "uart_rx_overflow_count (stats (remote_node (note_isr_counters ov er s))) = uart_rx_overflow_count (stats (remote_node s)) + ov"
  "uart_error_count (stats (remote_node (note_isr_counters ov er s))) = uart_error_count (stats (remote_node s)) + er"
  by (auto simp: note_isr_counters_def note_rx_overflow_iterate note_uart_error_iterate node_inv_def Let_def
      unat_eq_0)

lemma start_keeps_inv:
  assumes "port_inv tr s" "take_isr_counters s = (ov, er, s')"
  shows "port_inv (tr @ [L_start]) (note_isr_counters ov er s')"
  using assms by (auto simp: port_inv_def take_isr_counters_def Let_def note_isr_counters_simps algebra_simps split: if_splits)

lemma drain_one_cases:
  assumes "ring_inv (rx_ring s)"
  shows "drain_one s = (case ring_bytes (rx_ring s) of
      [] \<Rightarrow> None
    | b # bs \<Rightarrow> let (n, h) = process_byte (remote_node s) b (hw s)
        in Some (s\<lparr>rx_ring := snd (ring_get (rx_ring s)), remote_node := n, hw := h\<rparr>))"
proof -
  obtain v r where get: "ring_get (rx_ring s) = (v, r)" by fastforce
  then have "uart_rx_ring_pop (Some (rx_ring s)) (Some 0) =
      (case v of None \<Rightarrow> (0, Some r, Some 0) | Some b \<Rightarrow> (1, Some r, Some b))"
    by (auto simp: ring_get_def uart_rx_ring_pop_def Let_def split: if_splits)
  with uart_ring.get_cases [OF assms get] get show ?thesis
    by (auto simp: drain_one_def remote_node_process_byte_def split: option.splits prod.splits)
qed

lemma byte_keeps_inv:
  assumes inv: "port_inv tr s" and one: "drain_one s = Some s'"
  shows "port_inv (tr @ [L_byte (hd (ring_bytes (rx_ring s)))]) s'"
proof -
  have ring: "ring_inv (rx_ring s)" and node: "node_inv (remote_node s)"
    using inv by (simp_all add: port_inv_def)
  obtain b bs where b: "ring_bytes (rx_ring s) = b # bs"
    using one by (cases "ring_bytes (rx_ring s)") (auto simp: drain_one_cases [OF ring])
  obtain n h where step: "process_byte (remote_node s) b (hw s) = (n, h)" by fastforce
  have s': "s' = s\<lparr>rx_ring := snd (ring_get (rx_ring s)), remote_node := n, hw := h\<rparr>"
    using one step by (simp add: drain_one_cases [OF ring] b)
  obtain ds out where fed: "feed_all stream_parser_init zero_packet (processed tr) = (ds, parser (remote_node s), out)"
    using inv by (auto simp: port_inv_def)
  obtain ev p q where f0: "feed_byte (parser (remote_node s)) b zero_packet = (ev, p, q)"
    by (cases "feed_byte (parser (remote_node s)) b zero_packet")
  obtain ev1 p1 q1 where f1: "feed_byte (parser (remote_node s)) b out = (ev1, p1, q1)"
    by (cases "feed_byte (parser (remote_node s)) b out")
  have "p1 = p"
    using feed_byte_uninit [OF _ _ _ f1 f0] node feed_all_inv [OF _ _ fed] by (simp add: node_inv_def)
  then have "\<exists>ds out. feed_all stream_parser_init zero_packet (processed tr @ [b]) = (ds, p, out)"
    using fed f1 by (simp add: feed_all_append)
  moreover have "ring_inv (rx_ring s') \<and> ring_bytes (rx_ring s') = bs"
    using uart_ring.get_head [OF ring b] s' by simp
  ultimately show ?thesis
    using inv process_byte_step [OF node step f0] b s' by (simp add: port_inv_def)
qed

lemma finish_keeps_inv:
  assumes "port_inv tr s"
  shows "port_inv (tr @ [L_finish]) (port_periodic s)"
proof -
  obtain n h where p: "process_periodic (remote_node s) (hw s) = (n, h)" by fastforce
  have "same_core (remote_node s) n" by (rule process_periodic_core [OF p])
  with assms p same_core_inv [of "remote_node s" n] show ?thesis
    by (simp add: port_inv_def port_periodic_def remote_node_process_periodic_def same_core_def)
qed

lemma port_step_keeps_inv: "port_step hal (pc, s) l (pc', s') \<Longrightarrow> port_inv tr s \<Longrightarrow> port_inv (tr @ [l]) s'"
proof (induction "(pc, s)" l "(pc', s')" arbitrary: pc s pc' s' rule: port_step.induct)
  case (hw s h)
  then show ?case by (simp add: port_inv_def)
qed (auto intro: rx_keeps_inv err_keeps_inv start_keeps_inv byte_keeps_inv finish_keeps_inv)

lemma port_run_keeps_inv: "port_run hal x tr y \<Longrightarrow> port_inv [] (snd x) \<Longrightarrow> port_inv tr (snd y)"
proof (induction rule: port_run.induct)
  case (run_snoc x tr y l z)
  then show ?case using port_step_keeps_inv [of hal "fst y" "snd y" l "fst z" "snd z" tr] by simp
qed simp

lemma port_init_inv:
  assumes "length (ring_storage (rx_ring s)) = 512" "rx_overflow_pending s = 0" "uart_error_pending s = 0"
    and "remote_node_port_init hal s = (0, s')"
  shows "port_inv [] s'"
proof -
  have "ring_inv (the (uart_rx_ring_init (Some (rx_ring s))))" "ring_bytes (the (uart_rx_ring_init (Some (rx_ring s)))) = []"
    using assms(1) by (simp_all add: ring_inv_def uart_rx_ring_init_def ring_bytes_def ring_count_def)
  with assms show ?thesis
    by (auto simp: remote_node_port_init_def remote_node_init_def port_inv_def node_inv_def Let_def
        split: if_splits prod.splits) (simp add: stream_parser_init_def)+
qed

subsection \<open>The round without interrupts\<close>

lemma drain_returns:
  "ring_inv (rx_ring s) \<Longrightarrow> process_bytes (remote_node s) (ring_bytes (rx_ring s)) (hw s) = (n, h) \<Longrightarrow>
   \<exists>r. drain s = Some (s\<lparr>rx_ring := r, remote_node := n, hw := h\<rparr>) \<and> ring_inv r \<and> ring_bytes r = []"
proof (induction "ring_bytes (rx_ring s)" arbitrary: s)
  case Nil
  then show ?case by (subst drain.simps) (auto simp: drain_one_cases intro: exI [of _ "rx_ring s"])
next
  case (Cons b bs)
  obtain n1 h1 where step: "process_byte (remote_node s) b (hw s) = (n1, h1)" by fastforce
  let ?s = "s\<lparr>rx_ring := snd (ring_get (rx_ring s)), remote_node := n1, hw := h1\<rparr>"
  have one: "drain_one s = Some ?s"
    using Cons.prems(1) step by (simp add: drain_one_cases flip: Cons.hyps(2))
  have get: "ring_inv (snd (ring_get (rx_ring s)))" "ring_bytes (snd (ring_get (rx_ring s))) = bs"
    using uart_ring.get_head [OF Cons.prems(1) Cons.hyps(2) [symmetric]] by simp_all
  have "process_bytes n1 bs h1 = (n, h)" using Cons.prems(2) step by (simp flip: Cons.hyps(2))
  with Cons.hyps(1) [of ?s] get obtain r where "drain ?s = Some (?s\<lparr>rx_ring := r, remote_node := n, hw := h\<rparr>)"
    "ring_inv r" "ring_bytes r = []" by auto
  with one show ?case by (subst drain.simps) (auto intro: exI [of _ r])
qed

lemma port_run_cons: "port_run hal y tr z \<Longrightarrow> port_step hal x l y \<Longrightarrow> port_run hal x (l # tr) z"
proof (induction rule: port_run.induct)
  case (run_nil y)
  then show ?case using run_snoc [OF port_run.run_nil] by fastforce
next
  case (run_snoc y tr z m w)
  then show ?case using port_run.run_snoc [of hal x "l # tr" z m w] by simp
qed

lemma drain_is_run:
  assumes "drain s = Some s'"
  shows "\<exists>tr. port_run hal (Port_drain, s) tr (Port_drain, s') \<and> drain_one s' = None"
proof (rule drain.raw_induct [OF _ assms, where P = "\<lambda>s s'. \<exists>tr. port_run hal (Port_drain, s) tr (Port_drain, s') \<and> drain_one s' = None"], goal_cases)
  case (1 f s s')
  show ?case
  proof (cases "drain_one s")
    case None
    then show ?thesis using 1(2) run_nil by auto
  next
    case (Some t)
    then obtain tr where "port_run hal (Port_drain, t) tr (Port_drain, s')" "drain_one s' = None" using 1 by fastforce
    then show ?thesis using port_run_cons [OF _ port_step.byte [OF Some]] by blast
  qed
qed

lemma round_is_run:
  assumes "remote_node_port_process s = Some s'"
  shows "\<exists>tr. port_run hal (Port_idle, s) tr (Port_idle, s')"
proof -
  obtain ov er t where t: "take_isr_counters s = (ov, er, t)" using prod_cases3 by blast
  obtain u where u: "drain (note_isr_counters ov er t) = Some u" "s' = port_periodic u"
    using assms by (auto simp: remote_node_port_process_def t)
  obtain tr where tr: "port_run hal (Port_drain, note_isr_counters ov er t) tr (Port_drain, u)" "drain_one u = None"
    using drain_is_run [OF u(1)] by blast
  from port_run_cons [OF tr(1) port_step.start [OF t]] port_step.finish [OF tr(2)] show ?thesis
    using run_snoc u(2) by blast
qed

subsection \<open>Properties\<close>

text \<open>C21: however UART interrupts interleave with the task, from start-up on: no accepted byte is
  lost, duplicated or reordered on its way to the parser (what was accepted is what was
  processed followed by what waits in the ring), the node's parser has consumed exactly the
  processed bytes and its statistics agree with it, and every byte dropped by a full ring and every
  UART error is counted exactly once (modulo 2 to the 32), in the interrupt's pending counter
  or already in the node's statistics.\<close>

theorem port_accounts_for_bytes:
  assumes "length (ring_storage (rx_ring s)) = 512" and "rx_overflow_pending s = 0" and "uart_error_pending s = 0"
    and "remote_node_port_init hal s = (0, s0)" and "port_run hal (Port_idle, s0) tr (pc, s')"
  shows "accepted tr = processed tr @ ring_bytes (rx_ring s') \<and> ring_inv (rx_ring s') \<and>
    node_inv (remote_node s') \<and>
    (\<exists>ds out. feed_all stream_parser_init zero_packet (processed tr) = (ds, parser (remote_node s'), out)) \<and>
    uart_rx_overflow_count (stats (remote_node s')) + rx_overflow_pending s' = of_nat (dropped tr) \<and>
    uart_error_count (stats (remote_node s')) + uart_error_pending s' = of_nat (uart_errors tr)"
  using port_run_keeps_inv [OF assms(5)] port_init_inv [OF assms(1-4)] by (simp add: port_inv_def)

definition sample_hal :: "u8 list list f429_hal" where
  "sample_hal = \<lparr>HAL_GetTick = (\<lambda>_. 0), HAL_UART_Transmit = (\<lambda>f _ h. (HAL_OK, h @ [f])),
     HAL_UART_Receive_IT = (\<lambda>h. (HAL_OK, h))\<rparr>"

definition sample_port :: "u8 list list port_state" where
  "sample_port = \<lparr>remote_node = sample_node,
     rx_ring = \<lparr>ring_storage = replicate 512 0, write_index = 0, read_index = 0\<rparr>, rx_byte = 0,
     rx_overflow_pending = 0, uart_error_pending = 0, huart5_is_UART5 = True, PRIMASK = 0, hw = []\<rparr>"

theorem port_accounts_for_bytes_witness:
  "\<exists>s0 s'. remote_node_port_init sample_hal sample_port = (0, s0) \<and>
    port_run sample_hal (Port_idle, s0) [L_error] (Port_idle, s') \<and>
    uart_error_count (stats (remote_node s')) + uart_error_pending s' = 1"
proof -
  obtain s0 where init: "remote_node_port_init sample_hal sample_port = (0, s0)"
    by (simp add: remote_node_port_init_def sample_port_def sample_hal_def)
  have run: "port_run sample_hal (Port_idle, s0) ([] @ [L_error]) (Port_idle, HAL_UART_ErrorCallback sample_hal huart5 s0)"
    by (rule run_snoc [OF run_nil port_step.err])
  have "uart_error_count (stats (remote_node (HAL_UART_ErrorCallback sample_hal huart5 s0))) +
      uart_error_pending (HAL_UART_ErrorCallback sample_hal huart5 s0) = of_nat (uart_errors [L_error])"
    using port_accounts_for_bytes [OF _ _ _ init, of "[L_error]"] run by (simp add: sample_port_def)
  with init run show ?thesis by auto
qed

text \<open>A processing round ends when no further byte arrives: it counts the pending
  interrupt events, processes all buffered bytes in order, leaves the ring empty and then
  runs the periodic part; the interrupt mask is restored.\<close>

theorem port_process_returns:
  assumes "ring_inv (rx_ring s)"
  shows "\<exists>s'. remote_node_port_process s = Some s' \<and> ring_bytes (rx_ring s') = [] \<and> ring_inv (rx_ring s') \<and>
    rx_overflow_pending s' = 0 \<and> uart_error_pending s' = 0 \<and> PRIMASK s' = (if PRIMASK s = 0 then 0 else 1) \<and>
    (let noted = note_isr_counters (rx_overflow_pending s) (uart_error_pending s) s;
         (n, h) = process_bytes (remote_node noted) (ring_bytes (rx_ring s)) (hw s)
     in (remote_node s', hw s') = process_periodic n h)"
proof -
  define s1 where "s1 = snd (snd (take_isr_counters s))"
  define s2 where "s2 = note_isr_counters (rx_overflow_pending s) (uart_error_pending s) s1"
  have s1: "take_isr_counters s = (rx_overflow_pending s, uart_error_pending s, s1)" "rx_ring s1 = rx_ring s" "hw s1 = hw s"
    "remote_node s1 = remote_node s" "rx_overflow_pending s1 = 0" "uart_error_pending s1 = 0"
    "PRIMASK s1 = (if PRIMASK s = 0 then 0 else 1)"
    by (simp_all add: s1_def take_isr_counters_def Let_def)
  have mask: "PRIMASK s2 = PRIMASK s1" by (simp add: s2_def note_isr_counters_def Let_def)
  have noted: "remote_node s2 = remote_node (note_isr_counters (rx_overflow_pending s) (uart_error_pending s) s)"
    using s1 by (simp add: s2_def note_isr_counters_def Let_def)
  obtain n h where b: "process_bytes (remote_node s2) (ring_bytes (rx_ring s)) (hw s) = (n, h)" by fastforce
  obtain r where d: "drain s2 = Some (s2\<lparr>rx_ring := r, remote_node := n, hw := h\<rparr>)" "ring_inv r" "ring_bytes r = []"
    using drain_returns [of s2 n h] assms b s1 by (auto simp: s2_def note_isr_counters_simps)
  obtain n' h' where "process_periodic n h = (n', h')" by fastforce
  with d b s1 mask noted show ?thesis
    by (simp add: remote_node_port_process_def port_periodic_def remote_node_process_periodic_def
        note_isr_counters_simps s2_def [symmetric]) (simp add: s2_def note_isr_counters_simps)
qed

theorem port_process_returns_witness:
  "\<exists>s'. remote_node_port_process sample_port = Some s' \<and> ring_bytes (rx_ring s') = []"
proof -
  have "ring_inv (rx_ring sample_port)" by (simp add: ring_inv_def sample_port_def)
  from port_process_returns [OF this] show ?thesis by blast
qed

subsection \<open>The default task\<close>

text \<open>
  \<^verbatim>\<open>main\<close> starts the port and stops in the error handler when that fails (\<open>None\<close>); the default
  task then runs one processing round per kernel tick. \<open>delay n\<close> stands for the kernel's delay,
  during which the UART interrupts run.
\<close>

definition main_port_start :: "'h f429_hal \<Rightarrow> 'h port_state \<Rightarrow> 'h port_state option" where
  "main_port_start hal s = (let (result, s) = remote_node_port_init hal s in if result \<noteq> 0 then None else Some s)"

definition StartDefaultTask_cycle :: "(u32 \<Rightarrow> 'h port_state \<Rightarrow> 'h port_state) \<Rightarrow> 'h port_state \<Rightarrow> 'h port_state option" where
  "StartDefaultTask_cycle delay s = map_option (delay 1) (remote_node_port_process s)"

text \<open>Every round returns, so the task comes to every one of its iterations.\<close>

lemma process_ends:
  assumes "ring_inv (rx_ring s)"
  shows "\<exists>u. remote_node_port_process s = Some u \<and> ring_inv (rx_ring u)"
proof -
  obtain a b t where t: "take_isr_counters s = (a, b, t)" "rx_ring t = rx_ring s" by (auto simp: take_isr_counters_def Let_def)
  define v where "v = note_isr_counters a b t"
  have "ring_inv (rx_ring v)" using assms t(2) by (simp add: v_def note_isr_counters_simps)
  moreover obtain n h where "process_bytes (remote_node v) (ring_bytes (rx_ring v)) (hw v) = (n, h)" by fastforce
  ultimately obtain r where "drain v = Some (v\<lparr>rx_ring := r, remote_node := n, hw := h\<rparr>)" "ring_inv r"
    using drain_returns [of v n h] by auto
  then show ?thesis using t(1) by (simp add: remote_node_port_process_def v_def [symmetric] port_periodic_def split: prod.split)
qed

lemma default_task_runs:
  assumes delay: "\<And>n s. ring_inv (rx_ring s) \<Longrightarrow> ring_inv (rx_ring (delay n s))" and start: "ring_inv (rx_ring s)"
  shows "\<exists>t. ((\<lambda>m. Option.bind m (StartDefaultTask_cycle delay)) ^^ n) (Some s) = Some t \<and> ring_inv (rx_ring t)"
proof (induction n)
  case 0
  show ?case using start by simp
next
  case (Suc n)
  then obtain t where t: "((\<lambda>m. Option.bind m (StartDefaultTask_cycle delay)) ^^ n) (Some s) = Some t" "ring_inv (rx_ring t)" by blast
  obtain u where "remote_node_port_process t = Some u" "ring_inv (rx_ring u)" using process_ends [OF t(2)] by blast
  then have "StartDefaultTask_cycle delay t = Some (delay 1 u)" by (simp add: StartDefaultTask_cycle_def)
  then show ?case using t(1) delay \<open>ring_inv (rx_ring u)\<close> by simp
qed

end
