(* ===== verification/Heap4.thy ===== *)
theory Heap4
  imports Prelude
begin

text \<open>
  The kernel's memory allocator (\<^verbatim>\<open>heap_4.c\<close>), from which the gateway's queues, stacks and
  task control blocks come. Memory is seen through the block headers: \<open>hp_mem\<close> maps an address to
  the \<^verbatim>\<open>BlockLink_t\<close> stored there. Headers stand at multiples of 8 and are 8 bytes long, so two of
  them never overlap and a store to one leaves the others alone. The null pointer is 0. A
  \<^verbatim>\<open>configASSERT\<close> that fails disables interrupts and loops forever; like a list walk that never
  ends it is the result \<open>None\<close>. The calls suspend the scheduler, so each is one atomic step.
\<close>

record BlockLink_t =
  pxNextFreeBlock :: u32
  xBlockSize :: u32

text \<open>\<open>ucHeap\<close> and \<open>xStart\<close> are the addresses the linker gave to the array and to the list head.\<close>

record heap4_t =
  ucHeap :: u32
  xStart :: u32
  hp_mem :: "u32 \<Rightarrow> BlockLink_t"
  pxEnd :: u32
  xFreeBytesRemaining :: u32
  xMinimumEverFreeBytesRemaining :: u32
  xNumberOfSuccessfulAllocations :: u32
  xNumberOfSuccessfulFrees :: u32
  xBlockAllocatedBit :: u32

definition configTOTAL_HEAP_SIZE :: u32 where [simp]: "configTOTAL_HEAP_SIZE = 16384"
definition portBYTE_ALIGNMENT :: u32 where [simp]: "portBYTE_ALIGNMENT = 8"
definition portBYTE_ALIGNMENT_MASK :: u32 where [simp]: "portBYTE_ALIGNMENT_MASK = 7"
definition sizeof_BlockLink_t :: u32 where [simp]: "sizeof_BlockLink_t = 8"

definition xHeapStructSize :: u32 where
  "xHeapStructSize = (sizeof_BlockLink_t + (portBYTE_ALIGNMENT - 1)) AND NOT portBYTE_ALIGNMENT_MASK"

definition heapMINIMUM_BLOCK_SIZE :: u32 where
  "heapMINIMUM_BLOCK_SIZE = push_bit 1 xHeapStructSize"

definition heap4_boot :: "u32 \<Rightarrow> u32 \<Rightarrow> (u32 \<Rightarrow> BlockLink_t) \<Rightarrow> heap4_t" where
  "heap4_boot array start mem = \<lparr>ucHeap = array, xStart = start, hp_mem = mem, pxEnd = 0, xFreeBytesRemaining = 0,
     xMinimumEverFreeBytesRemaining = 0, xNumberOfSuccessfulAllocations = 0, xNumberOfSuccessfulFrees = 0,
     xBlockAllocatedBit = 0\<rparr>"

definition next_of :: "heap4_t \<Rightarrow> u32 \<Rightarrow> u32" where "next_of h p = pxNextFreeBlock (hp_mem h p)"
definition size_of :: "heap4_t \<Rightarrow> u32 \<Rightarrow> u32" where "size_of h p = xBlockSize (hp_mem h p)"

definition set_next :: "u32 \<Rightarrow> u32 \<Rightarrow> heap4_t \<Rightarrow> heap4_t" where
  "set_next p v h = h\<lparr>hp_mem := (hp_mem h)(p := (hp_mem h p)\<lparr>pxNextFreeBlock := v\<rparr>)\<rparr>"

definition set_size :: "u32 \<Rightarrow> u32 \<Rightarrow> heap4_t \<Rightarrow> heap4_t" where
  "set_size p v h = h\<lparr>hp_mem := (hp_mem h)(p := (hp_mem h p)\<lparr>xBlockSize := v\<rparr>)\<rparr>"

subsection \<open>Operations\<close>

definition prvHeapInit :: "heap4_t \<Rightarrow> heap4_t" where
  "prvHeapInit h =
     (let (uxAddress, xTotalHeapSize) =
            (if ucHeap h AND portBYTE_ALIGNMENT_MASK \<noteq> 0
             then let a = (ucHeap h + (portBYTE_ALIGNMENT - 1)) AND NOT portBYTE_ALIGNMENT_MASK
                  in (a, configTOTAL_HEAP_SIZE - (a - ucHeap h))
             else (ucHeap h, configTOTAL_HEAP_SIZE));
          pucAlignedHeap = uxAddress;
          h = set_size (xStart h) 0 (set_next (xStart h) pucAlignedHeap h);
          uxAddress = (pucAlignedHeap + xTotalHeapSize - xHeapStructSize) AND NOT portBYTE_ALIGNMENT_MASK;
          h = h\<lparr>pxEnd := uxAddress\<rparr>;
          h = set_next (pxEnd h) 0 (set_size (pxEnd h) 0 h);
          h = set_size pucAlignedHeap (uxAddress - pucAlignedHeap) h;
          h = set_next pucAlignedHeap (pxEnd h) h
      in h\<lparr>xMinimumEverFreeBytesRemaining := size_of h pucAlignedHeap,
           xFreeBytesRemaining := size_of h pucAlignedHeap,
           xBlockAllocatedBit := push_bit 31 1\<rparr>)"

text \<open>\<^verbatim>\<open>prvInsertBlockIntoFreeList\<close>: the walk to the block before, then the two merges.\<close>

partial_function (option) insert_position :: "heap4_t \<Rightarrow> u32 \<Rightarrow> u32 \<Rightarrow> u32 option" where
  "insert_position h pxIterator b =
     (if next_of h pxIterator < b then insert_position h (next_of h pxIterator) b else Some pxIterator)"

definition join_previous :: "u32 \<Rightarrow> u32 \<Rightarrow> heap4_t \<Rightarrow> u32 \<times> heap4_t" where
  "join_previous pxIterator pxBlockToInsert h =
     (if pxIterator + size_of h pxIterator = pxBlockToInsert
      then (pxIterator, set_size pxIterator (size_of h pxIterator + size_of h pxBlockToInsert) h)
      else (pxBlockToInsert, h))"

definition join_next :: "u32 \<Rightarrow> u32 \<Rightarrow> heap4_t \<Rightarrow> heap4_t" where
  "join_next pxIterator pxBlockToInsert h =
     (if pxBlockToInsert + size_of h pxBlockToInsert = next_of h pxIterator
      then if next_of h pxIterator \<noteq> pxEnd h
           then let h = set_size pxBlockToInsert (size_of h pxBlockToInsert + size_of h (next_of h pxIterator)) h
                in set_next pxBlockToInsert (next_of h (next_of h pxIterator)) h
           else set_next pxBlockToInsert (pxEnd h) h
      else set_next pxBlockToInsert (next_of h pxIterator) h)"

definition insert_after :: "u32 \<Rightarrow> u32 \<Rightarrow> heap4_t \<Rightarrow> heap4_t" where
  "insert_after pxIterator b h =
     (let (pxBlockToInsert, h) = join_previous pxIterator b h;
          h = join_next pxIterator pxBlockToInsert h
      in if pxIterator \<noteq> pxBlockToInsert then set_next pxIterator pxBlockToInsert h else h)"

definition prvInsertBlockIntoFreeList :: "u32 \<Rightarrow> heap4_t \<Rightarrow> heap4_t option" where
  "prvInsertBlockIntoFreeList b h = do {
     it \<leftarrow> insert_position h (xStart h) b;
     Some (insert_after it b h)
   }"

text \<open>\<^verbatim>\<open>pvPortMalloc\<close>: rounding the request, the first-fit walk, taking the block out.\<close>

definition wanted_size :: "u32 \<Rightarrow> u32 option" where
  "wanted_size xWantedSize =
     (if xWantedSize > 0
      then let w = xWantedSize + xHeapStructSize
           in if w AND portBYTE_ALIGNMENT_MASK \<noteq> 0
              then let w = w + (portBYTE_ALIGNMENT - (w AND portBYTE_ALIGNMENT_MASK))
                   in if w AND portBYTE_ALIGNMENT_MASK = 0 then Some w else None
              else Some w
      else Some xWantedSize)"

partial_function (option) first_fit :: "heap4_t \<Rightarrow> u32 \<Rightarrow> u32 \<Rightarrow> u32 \<Rightarrow> (u32 \<times> u32) option" where
  "first_fit h w pxPreviousBlock pxBlock =
     (if size_of h pxBlock < w \<and> next_of h pxBlock \<noteq> 0
      then first_fit h w pxBlock (next_of h pxBlock)
      else Some (pxPreviousBlock, pxBlock))"

definition split_block :: "u32 \<Rightarrow> u32 \<Rightarrow> heap4_t \<Rightarrow> heap4_t option" where
  "split_block w pxBlock h =
     (if size_of h pxBlock - w > heapMINIMUM_BLOCK_SIZE
      then let pxNewBlockLink = pxBlock + w
           in if pxNewBlockLink AND portBYTE_ALIGNMENT_MASK = 0
              then prvInsertBlockIntoFreeList pxNewBlockLink
                     (set_size pxBlock w (set_size pxNewBlockLink (size_of h pxBlock - w) h))
              else None
      else Some h)"

definition take_block :: "u32 \<Rightarrow> u32 \<Rightarrow> u32 \<Rightarrow> heap4_t \<Rightarrow> (u32 \<times> heap4_t) option" where
  "take_block w pxPreviousBlock pxBlock h = do {
     let pvReturn = next_of h pxPreviousBlock + xHeapStructSize;
     let h = set_next pxPreviousBlock (next_of h pxBlock) h;
     h \<leftarrow> split_block w pxBlock h;
     let h = h\<lparr>xFreeBytesRemaining := xFreeBytesRemaining h - size_of h pxBlock\<rparr>;
     let h = (if xFreeBytesRemaining h < xMinimumEverFreeBytesRemaining h
              then h\<lparr>xMinimumEverFreeBytesRemaining := xFreeBytesRemaining h\<rparr> else h);
     let h = set_size pxBlock (size_of h pxBlock OR xBlockAllocatedBit h) h;
     let h = set_next pxBlock 0 h;
     Some (pvReturn, h\<lparr>xNumberOfSuccessfulAllocations := xNumberOfSuccessfulAllocations h + 1\<rparr>)
   }"

definition pvPortMalloc :: "u32 \<Rightarrow> heap4_t \<Rightarrow> (u32 \<times> heap4_t) option" where
  "pvPortMalloc xWantedSize h = do {
     let h = (if pxEnd h = 0 then prvHeapInit h else h);
     (pvReturn, h) \<leftarrow>
       (if xWantedSize AND xBlockAllocatedBit h = 0
        then do {
          w \<leftarrow> wanted_size xWantedSize;
          if w > 0 \<and> w \<le> xFreeBytesRemaining h
          then do {
            (pxPreviousBlock, pxBlock) \<leftarrow> first_fit h w (xStart h) (next_of h (xStart h));
            if pxBlock \<noteq> pxEnd h then take_block w pxPreviousBlock pxBlock h else Some (0, h)
          }
          else Some (0, h)
        }
        else Some (0, h));
     if pvReturn AND portBYTE_ALIGNMENT_MASK = 0 then Some (pvReturn, h) else None
   }"

definition vPortFree :: "u32 \<Rightarrow> heap4_t \<Rightarrow> heap4_t option" where
  "vPortFree pv h =
     (if pv \<noteq> 0
      then let pxLink = pv - xHeapStructSize
           in if size_of h pxLink AND xBlockAllocatedBit h \<noteq> 0 \<and> next_of h pxLink = 0
              then let h = set_size pxLink (size_of h pxLink AND NOT (xBlockAllocatedBit h)) h;
                       h = h\<lparr>xFreeBytesRemaining := xFreeBytesRemaining h + size_of h pxLink\<rparr>
                   in do {
                     h \<leftarrow> prvInsertBlockIntoFreeList pxLink h;
                     Some (h\<lparr>xNumberOfSuccessfulFrees := xNumberOfSuccessfulFrees h + 1\<rparr>)
                   }
              else None
      else Some h)"

subsection \<open>Words below \<open>2 ^ 32\<close> as naturals\<close>

lemma unat_of_nat32: "a < 2 ^ 32 \<Longrightarrow> unat (of_nat a :: u32) = a"
  by (simp add: unat_of_nat)

lemma unat_lt32: "unat (w :: u32) < 2 ^ 32"
  using unsigned_less [of w] by simp

lemma of_nat32_eq_iff: "a < 2 ^ 32 \<Longrightarrow> b < 2 ^ 32 \<Longrightarrow> (of_nat a :: u32) = of_nat b \<longleftrightarrow> a = b"
  by (metis unat_of_nat32)

lemma of_nat32_less_iff: "a < 2 ^ 32 \<Longrightarrow> b < 2 ^ 32 \<Longrightarrow> (of_nat a :: u32) < of_nat b \<longleftrightarrow> a < b"
  by (simp add: word_less_nat_alt unat_of_nat32)

lemma and_7: "(of_nat a :: u32) AND 7 = of_nat (a mod 8)"
proof -
  have "(7::u32) = mask 3" by (simp add: mask_eq_exp_minus_1)
  then have "of_nat a AND 7 = take_bit 3 (of_nat a :: u32)" by (simp add: take_bit_eq_mask)
  also have "\<dots> = of_nat (take_bit 3 a)" by (simp add: take_bit_of_nat)
  finally show ?thesis by (simp add: take_bit_eq_mod)
qed


lemma and_not_7: "(of_nat a :: u32) AND NOT 7 = of_nat (a div 8 * 8)"
proof -
  have "(of_nat a :: u32) = of_nat (a div 8 * 8) + of_nat (a mod 8)"
    by (metis div_mult_mod_eq of_nat_add)
  moreover have "(of_nat a :: u32) = (of_nat a AND NOT 7) + (of_nat a AND 7)"
    by (subst disjunctive_add) (auto simp: bit_simps intro!: bit_word_eqI)
  ultimately show ?thesis unfolding and_7 by (metis add_right_cancel)
qed

lemma top_bit:
  assumes "n < 2 ^ 31"
  shows "(of_nat n :: u32) OR 0x80000000 = of_nat (n + 2 ^ 31)"
    "of_nat (n + 2 ^ 31) AND NOT (0x80000000 :: u32) = of_nat n"
    "of_nat (n + 2 ^ 31) AND (0x80000000 :: u32) = 0x80000000"
    "of_nat n AND (0x80000000 :: u32) = 0"
proof -
  define B :: u32 where "B = 0x80000000"
  have "B = push_bit 31 1" by (simp add: B_def)
  then have B: "bit B i \<longleftrightarrow> i = 31" for i by (auto simp: bit_push_bit_iff simp del: push_bit_of_1 push_bit_numeral)
  have n: "bit n i \<Longrightarrow> i < 31" for i
    using assms by (metis bit_take_bit_iff take_bit_nat_eq_self_iff)
  have or: "(of_nat n :: u32) OR B = of_nat n + B"
    by (rule disjunctive_add [symmetric]) (auto simp: bit_simps B dest: n)
  then have sum: "of_nat (n + 2 ^ 31) = (of_nat n :: u32) OR B"
    by (simp add: B_def)
  show "(of_nat n :: u32) OR 0x80000000 = of_nat (n + 2 ^ 31)" using sum by (simp add: B_def)
  show "of_nat (n + 2 ^ 31) AND NOT (0x80000000 :: u32) = of_nat n"
    "of_nat (n + 2 ^ 31) AND (0x80000000 :: u32) = 0x80000000"
    "of_nat n AND (0x80000000 :: u32) = 0"
    unfolding sum B_def [symmetric] by (rule bit_word_eqI; auto simp: bit_simps B dest: n)+
qed
lemmas word32_arith = of_nat32_eq_iff of_nat32_less_iff

subsection \<open>The layout of the heap\<close>

text \<open>
  The specification sees the heap as a list of blocks in address order, each an address, a size and
  whether it belongs to the application, that tile the array from its aligned start to the end marker.
\<close>

type_synonym block = "nat \<times> nat \<times> bool"

fun tiles :: "nat \<Rightarrow> block list \<Rightarrow> nat \<Rightarrow> bool" where
  "tiles a [] e \<longleftrightarrow> a = e"
| "tiles a ((p, n, u) # bs) e \<longleftrightarrow> p = a \<and> 16 \<le> n \<and> 8 dvd n \<and> tiles (a + n) bs e"

definition coalesced :: "block list \<Rightarrow> bool" where
  "coalesced bs \<longleftrightarrow> successively (\<lambda>b c. snd (snd b) \<or> snd (snd c)) bs"

fun coalesce :: "block list \<Rightarrow> block list" where
  "coalesce ((p, n, False) # (q, m, False) # bs) = coalesce ((p, n + m, False) # bs)"
| "coalesce (b # bs) = b # coalesce bs"
| "coalesce [] = []"

text \<open>Allocation takes the first free block that is large enough and splits it if more than the
  minimum remains; release marks the block free and merges adjacent free blocks.\<close>

fun alloc_block :: "nat \<Rightarrow> block list \<Rightarrow> (nat \<times> block list) option" where
  "alloc_block w [] = None"
| "alloc_block w ((p, n, u) # bs) =
     (if \<not> u \<and> w \<le> n
      then Some (p, if n - w > 16 then (p, w, True) # (p + w, n - w, False) # bs else (p, n, True) # bs)
      else map_option (\<lambda>(q, bs). (q, (p, n, u) # bs)) (alloc_block w bs))"

definition release_block :: "nat \<Rightarrow> block list \<Rightarrow> block list" where
  "release_block p bs = coalesce (map (\<lambda>(q, n, u). (q, n, u \<and> q \<noteq> p)) bs)"

definition free_bytes :: "block list \<Rightarrow> nat" where
  "free_bytes bs = sum_list (map (\<lambda>(q, n, u). if u then 0 else n) bs)"

text \<open>The free list in memory: each free block holds its size and the address of the next free
  block, or of the end marker. The list head is a free block of size 0 before all others.\<close>

fun next_free :: "block list \<Rightarrow> nat \<Rightarrow> nat" where
  "next_free [] e = e"
| "next_free ((p, n, u) # bs) e = (if u then next_free bs e else p)"

fun links :: "(u32 \<Rightarrow> BlockLink_t) \<Rightarrow> block list \<Rightarrow> nat \<Rightarrow> bool" where
  "links m [] e \<longleftrightarrow> True"
| "links m ((p, n, u) # bs) e \<longleftrightarrow>
     (\<not> u \<longrightarrow> m (of_nat p) = \<lparr>pxNextFreeBlock = of_nat (next_free bs e), xBlockSize = of_nat n\<rparr>) \<and> links m bs e"

definition owned :: "(u32 \<Rightarrow> BlockLink_t) \<Rightarrow> block list \<Rightarrow> bool" where
  "owned m bs \<longleftrightarrow>
     (\<forall>(p, n, u) \<in> set bs. u \<longrightarrow> m (of_nat p) = \<lparr>pxNextFreeBlock = 0, xBlockSize = of_nat (n + 2 ^ 31)\<rparr>)"

lemma owned_iff:
  "owned m bs \<longleftrightarrow> (\<forall>p n. (p, n, True) \<in> set bs \<longrightarrow> m (of_nat p) = \<lparr>pxNextFreeBlock = 0, xBlockSize = of_nat (n + 2 ^ 31)\<rparr>)"
  by (fastforce simp: owned_def)

lemma next_free_append [simp]: "next_free (xs @ ys) e = next_free xs (next_free ys e)"
  by (induction xs) auto

lemma links_append [simp]: "links m (xs @ ys) e \<longleftrightarrow> links m xs (next_free ys e) \<and> links m ys e"
  by (induction xs) auto

lemma tiles_append: "tiles a (xs @ ys) e \<longleftrightarrow> (\<exists>b. tiles a xs b \<and> tiles b ys e)"
  by (induction xs arbitrary: a) auto

lemma tiles_le: "tiles a bs e \<Longrightarrow> a \<le> e"
  by (induction bs arbitrary: a) (auto, metis add_leD1)

lemma tiles_range: "tiles a bs e \<Longrightarrow> (p, n, u) \<in> set bs \<Longrightarrow> a \<le> p \<and> p + n \<le> e \<and> 16 \<le> n"
proof (induction bs arbitrary: a)
  case (Cons b bs)
  obtain q k v where b: "b = (q, k, v)" using prod_cases3 by blast
  show ?case
  proof (cases "(p, n, u) = b")
    case True
    then show ?thesis using Cons.prems(1) tiles_le [of "a + k" bs e] b by auto
  next
    case False
    then have "a + k \<le> p \<and> p + n \<le> e \<and> 16 \<le> n" using Cons.IH [of "a + k"] Cons.prems b by auto
    then show ?thesis by simp
  qed
qed simp

lemma next_free_range: "tiles a bs e \<Longrightarrow> a \<le> next_free bs e \<and> next_free bs e \<le> e"
  by (induction bs arbitrary: a) (auto, (metis add_leD1 tiles_le)+)

lemma next_free_used: "\<forall>b \<in> set us. snd (snd b) \<Longrightarrow> next_free us e = e"
  by (induction us) auto

lemma links_used: "\<forall>b \<in> set us. snd (snd b) \<Longrightarrow> links m us e"
  by (induction us) auto

lemma links_upd_free: "(\<And>q n. (q, n, False) \<in> set bs \<Longrightarrow> of_nat q \<noteq> x) \<Longrightarrow> links (m(x := v)) bs e = links m bs e"
proof (induction bs)
  case (Cons b bs)
  then have "links (m(x := v)) bs e = links m bs e" by (meson list.set_intros(2))
  moreover have "\<not> snd (snd b) \<Longrightarrow> of_nat (fst b) \<noteq> x" using Cons.prems [of "fst b" "fst (snd b)"] by (cases b) auto
  ultimately show ?case by (cases b; cases "snd (snd b)") (simp_all add: fun_upd_def)
qed simp

lemma links_upd: "x \<notin> of_nat ` fst ` set bs \<Longrightarrow> links (m(x := v)) bs e = links m bs e"
  by (rule links_upd_free) force

lemma tiles_addresses:
  assumes "tiles a bs e"
  shows "distinct (map fst bs)" "p \<in> fst ` set bs \<Longrightarrow> a \<le> p \<and> p < e"
proof -
  show "p \<in> fst ` set bs \<Longrightarrow> a \<le> p \<and> p < e" for p using tiles_range [OF assms] by fastforce
  show "distinct (map fst bs)" using assms
  proof (induction bs arbitrary: a)
    case (Cons b bs)
    obtain q k v where b: "b = (q, k, v)" using prod_cases3 by blast
    then have "tiles (a + k) bs e" "q = a" "16 \<le> k" using Cons.prems by auto
    moreover from this have "q \<notin> fst ` set bs" using tiles_range [of "a + k" bs e] by fastforce
    ultimately show ?case using Cons.IH b by simp
  qed simp
qed

lemma tiles_dvd: "tiles a bs e \<Longrightarrow> 8 dvd a \<Longrightarrow> (p, n, u) \<in> set bs \<Longrightarrow> 8 dvd p"
  by (induction bs arbitrary: a) auto

lemma head_distinct:
  assumes "tiles a bs e" "s < 2 ^ 32" "s < a \<or> e < s" "e < 2 ^ 32"
  shows "distinct (map fst ((s, k, u) # bs))" "x \<in> fst ` set ((s, k, u) # bs) \<Longrightarrow> x < 2 ^ 32"
  using tiles_addresses(1) [OF assms(1)] tiles_range [OF assms(1)] assms(2-4) by fastforce+

text \<open>The last free block of a prefix, seen from the free block \<open>q\<close> before it: where the walks stop.\<close>

fun last_free :: "nat \<Rightarrow> block list \<Rightarrow> nat" where
  "last_free q [] = q"
| "last_free q ((p, n, u) # bs) = last_free (if u then q else p) bs"

lemma last_free_split:
  "\<exists>c k us. (q, j, False) # bs = c @ (last_free q bs, k, False) # us \<and> (\<forall>b \<in> set us. snd (snd b))"
proof (induction bs rule: rev_induct)
  case Nil
  show ?case by (intro exI [of _ "[]"]) auto
next
  case (snoc b bs)
  obtain p n u where b: "b = (p, n, u)" using prod_cases3 by blast
  have last: "last_free q (bs @ [b]) = (if u then last_free q bs else p)"
    unfolding b by (induction bs arbitrary: q) auto
  from snoc obtain c k us where IH: "(q, j, False) # bs = c @ (last_free q bs, k, False) # us" "\<forall>b \<in> set us. snd (snd b)" by blast
  show ?case
  proof (cases u)
    case True
    then show ?thesis using IH b last by (intro exI [of _ c] exI [of _ k] exI [of _ "us @ [b]"]) auto
  next
    case False
    then show ?thesis using b last by (intro exI [of _ "(q, j, False) # bs"] exI [of _ n] exI [of _ "[]"]) auto
  qed
qed

lemma last_free_snoc: "last_free q (bs @ [(p, n, True)]) = last_free q bs"
  by (induction q bs rule: last_free.induct) auto

lemma last_free_eq: "last_free q bs = q \<or> last_free q bs \<in> fst ` set bs"
  by (induction q bs rule: last_free.induct) (auto split: if_splits)

text \<open>Both walks, by induction over the blocks they pass.\<close>

lemma insert_position_finds:
  assumes "tiles a (pre @ (p, n, True) # suf) e" "links (hp_mem h) ((q, k, False) # pre @ (p, n, True) # suf) e" "e < 2 ^ 32"
  shows "insert_position h (of_nat q) (of_nat p) = Some (of_nat (last_free q pre))"
  using assms(1,2)
proof (induction pre arbitrary: a q k)
  case Nil
  then have t: "tiles (p + n) suf e" "16 \<le> n" by auto
  moreover have "next_of h (of_nat q) = of_nat (next_free suf e)" using Nil.prems(2) by (simp add: next_of_def)
  ultimately show ?case using next_free_range [OF t(1)] assms(3)
    by (subst insert_position.simps) (simp add: of_nat32_less_iff)
next
  case (Cons b pre)
  obtain q' m u where b: "b = (q', m, u)" using prod_cases3 by blast
  have t: "tiles (a + m) (pre @ (p, n, True) # suf) e" "q' = a" "16 \<le> m" using Cons.prems(1) b by auto
  show ?case
  proof (cases u)
    case True
    then show ?thesis using Cons.IH [OF t(1), of q k] Cons.prems(2) b by simp
  next
    case False
    have "q' < p" "p < 2 ^ 32" using tiles_range [OF t(1), of p n True] t assms(3) by auto
    moreover have "next_of h (of_nat q) = of_nat q'" using Cons.prems(2) b False by (simp add: next_of_def)
    ultimately show ?thesis using Cons.IH [OF t(1), of q' m] Cons.prems(2) b False
      by (subst insert_position.simps) (simp add: of_nat32_less_iff)
  qed
qed

lemma first_fit_skips:
  assumes "tiles a (us @ vs) e" "links (hp_mem h) (us @ vs) e" "0 < a" "e < 2 ^ 32" "w < 2 ^ 32"
    and "\<forall>(p, n, u) \<in> set us. u \<or> n < w"
  shows "first_fit h (of_nat w) (of_nat q) (of_nat (next_free (us @ vs) e)) =
    first_fit h (of_nat w) (of_nat (last_free q us)) (of_nat (next_free vs e))"
  using assms(1-3,6)
proof (induction us arbitrary: a q)
  case (Cons b us)
  obtain p n u where b: "b = (p, n, u)" using prod_cases3 by blast
  have t: "tiles (a + n) (us @ vs) e" "p = a" using Cons.prems(1) b by auto
  note IH = Cons.IH [OF t(1)]
  show ?case
  proof (cases u)
    case True
    then show ?thesis using IH [of q] Cons.prems b by simp
  next
    case False
    have "next_free (us @ vs) e \<noteq> 0" "next_free (us @ vs) e < 2 ^ 32" "n < 2 ^ 32" "n < w"
      using next_free_range [OF t(1)] tiles_le [OF t(1)] Cons.prems(3,4) assms(4) b False by auto
    moreover from this have "of_nat (next_free (us @ vs) e) \<noteq> (0 :: u32)" by (simp add: of_nat_neq_0)
    ultimately show ?thesis using IH [of p] Cons.prems b False assms(5)
      by (subst first_fit.simps) (simp add: size_of_def next_of_def of_nat32_less_iff)
  qed
qed simp

lemma alloc_block_split:
  "alloc_block w bs = Some (p, bs') \<Longrightarrow> \<exists>us n vs. bs = us @ (p, n, False) # vs \<and> w \<le> n \<and> (\<forall>(q, k, u) \<in> set us. u \<or> k < w) \<and>
    bs' = us @ (if n - w > 16 then (p, w, True) # (p + w, n - w, False) # vs else (p, n, True) # vs)"
proof (induction w bs arbitrary: bs' rule: alloc_block.induct)
  case (2 w q k u bs)
  show ?case
  proof (cases "\<not> u \<and> w \<le> k")
    case True
    then show ?thesis using 2(2) by (intro exI [of _ "[]"]) auto
  next
    case False
    then obtain cs where "alloc_block w bs = Some (p, cs)" "bs' = (q, k, u) # cs" using 2(2) by auto
    with 2(1) [OF False] obtain us n vs where "bs = us @ (p, n, False) # vs" "w \<le> n" "\<forall>(q, k, u) \<in> set us. u \<or> k < w"
      "cs = us @ (if n - w > 16 then (p, w, True) # (p + w, n - w, False) # vs else (p, n, True) # vs)" by blast
    then show ?thesis using False \<open>bs' = _\<close> by (intro exI [of _ "(q, k, u) # us"] exI [of _ n] exI [of _ vs]) auto
  qed
qed simp

lemma alloc_block_None: "alloc_block w bs = None \<Longrightarrow> \<forall>(q, k, u) \<in> set bs. u \<or> k < w"
  by (induction w bs rule: alloc_block.induct) (auto split: if_splits)

subsection \<open>Inserting a block into the free list\<close>

fun absorb :: "nat \<Rightarrow> block list \<Rightarrow> nat \<times> block list" where
  "absorb n ((q, j, False) # suf) = (n + j, suf)"
| "absorb n suf = (n, suf)"

lemma coalesced_Cons [simp]:
  "coalesced []" "coalesced [b]"
  "coalesced (b # c # bs) \<longleftrightarrow> (snd (snd b) \<or> snd (snd c)) \<and> coalesced (c # bs)"
  by (simp_all add: coalesced_def)

lemma coalesced_tl: "coalesced (b # bs) \<Longrightarrow> coalesced bs"
  by (cases bs) auto

lemma coalesce_id: "coalesced bs \<Longrightarrow> coalesce bs = bs"
  by (induction bs rule: coalesce.induct) (auto dest: coalesced_tl)

lemma coalesce_absorb:
  assumes "coalesced suf"
  shows "coalesce ((p, n, False) # suf) = (let (n', suf') = absorb n suf in (p, n', False) # suf')"
proof (cases "(n, suf)" rule: absorb.cases)
  case (1 n' q j suf')
  then have "coalesced ((p, n + j, False) # suf')" using assms by (cases suf') auto
  then show ?thesis using 1 coalesce_id by simp
qed (use assms coalesced_tl coalesce_id in auto)

lemma coalesce_append:
  "coalesced pre \<Longrightarrow> pre = [] \<or> snd (snd (last pre)) \<Longrightarrow> coalesce (pre @ ys) = pre @ coalesce ys"
  by (induction pre rule: coalesce.induct) (auto dest: coalesced_tl split: if_splits)

lemma hp_mem_set [simp]:
  "hp_mem (set_next p v h) = (hp_mem h)(p := (hp_mem h p)\<lparr>pxNextFreeBlock := v\<rparr>)"
  "hp_mem (set_size p v h) = (hp_mem h)(p := (hp_mem h p)\<lparr>xBlockSize := v\<rparr>)"
  "xStart (set_next p v h) = xStart h" "xStart (set_size p v h) = xStart h"
  "pxEnd (set_next p v h) = pxEnd h" "pxEnd (set_size p v h) = pxEnd h"
  by (simp_all add: set_next_def set_size_def)

lemma join_next_absorbs:
  assumes t: "tiles (x + n) suf e" and l: "links (hp_mem h) suf e" and e: "pxEnd h = of_nat e" "e < 2 ^ 32"
    and it: "next_of h it = of_nat (next_free suf e)" and x: "size_of h (of_nat x) = of_nat n" "0 < n"
    and r: "absorb n suf = (n', suf')"
  shows "join_next it (of_nat x) h =
    h\<lparr>hp_mem := (hp_mem h)(of_nat x := \<lparr>pxNextFreeBlock = of_nat (next_free suf' e), xBlockSize = of_nat n'\<rparr>)\<rparr>"
proof -
  have b: "x + n < 2 ^ 32" "x < 2 ^ 32" using tiles_le [OF t] e(2) by auto
  have sum: "of_nat x + of_nat n = (of_nat (x + n) :: u32)" by simp
  obtain v where hdr: "hp_mem h (of_nat x) = \<lparr>pxNextFreeBlock = v, xBlockSize = of_nat n\<rparr>"
    using x(1) by (cases "hp_mem h (of_nat x)") (simp add: size_of_def)
  show ?thesis
  proof (cases "(n, suf)" rule: absorb.cases [case_names free none used])
    case (free _ q j suf1)
    then have q: "q = x + n" "q + j \<le> e" "16 \<le> j" "suf' = suf1" "n' = n + j" using t r tiles_range [OF t, of q j False] by auto
    have "hp_mem h (of_nat q) = \<lparr>pxNextFreeBlock = of_nat (next_free suf1 e), xBlockSize = of_nat j\<rparr>" using l free by simp
    moreover have "q \<noteq> x" "q \<noteq> e" "q < 2 ^ 32" using b(1) q x(2) by auto
    then have "of_nat q \<noteq> (of_nat x :: u32)" "of_nat q \<noteq> (of_nat e :: u32)" using b(2) e(2) by (metis of_nat32_eq_iff)+
    ultimately show ?thesis using free it x(1) e(1) q hdr
      by (cases "it = of_nat x") (auto simp: join_next_def next_of_def size_of_def set_next_def set_size_def)
  next
    case (none _)
    then show ?thesis using it t x(1) e(1) hdr r by (simp add: join_next_def set_next_def)
  next
    case (used _ q j suf1)
    then have "x + n + j \<le> next_free suf e" "16 \<le> j" "next_free suf e < 2 ^ 32"
      using t next_free_range [of "x + n + j" suf1 e] next_free_range [OF t] e(2) by auto
    then have "of_nat x + of_nat n \<noteq> (of_nat (next_free suf e) :: u32)" using b sum by (simp only: of_nat32_eq_iff)
    then show ?thesis using used it x(1) e(1) hdr r by (auto simp: join_next_def set_next_def)
  qed
qed

lemma links_upd_nat:
  "q < 2 ^ 32 \<Longrightarrow> q \<notin> fst ` set bs \<Longrightarrow> (\<And>x. x \<in> fst ` set bs \<Longrightarrow> x < 2 ^ 32) \<Longrightarrow>
    links (m(of_nat q := v)) bs e = links m bs e"
  by (rule links_upd, rule notI, erule imageE) (metis of_nat32_eq_iff)

lemma absorb_rest: "absorb n suf = (n', suf') \<Longrightarrow> \<exists>xs. suf = xs @ suf'"
  by (cases "(n, suf)" rule: absorb.cases) auto

text \<open>The insertion turns the block at \<open>p\<close>, still counted as the application's, into a free one, and
  touches only its header and the header of the free block before it.\<close>

lemma insert_block:
  assumes t: "tiles a (pre @ (p, n, True) # suf) e" and c: "coalesced (pre @ (p, n, True) # suf)"
    and l: "links (hp_mem h) ((s, 0, False) # pre @ (p, n, True) # suf) e" and n: "size_of h (of_nat p) = of_nat n"
    and s: "xStart h = of_nat s" "s < 2 ^ 32" "s < a \<or> e < s" and e: "pxEnd h = of_nat e" "e < 2 ^ 32"
  obtains m where "prvInsertBlockIntoFreeList (of_nat p) h = Some (h\<lparr>hp_mem := m\<rparr>)"
    "links m ((s, 0, False) # coalesce (pre @ (p, n, False) # suf)) e"
    "\<And>x. x \<noteq> of_nat p \<Longrightarrow> x \<noteq> of_nat (last_free s pre) \<Longrightarrow> m x = hp_mem h x"
proof -
  define it where "it = last_free s pre"
  obtain c k us where split: "(s, 0, False) # pre = c @ (it, k, False) # us" "\<forall>b \<in> set us. snd (snd b)"
    using last_free_split [of s 0 pre] it_def by blast
  have pos: "insert_position h (xStart h) (of_nat p) = Some (of_nat it)"
    unfolding s(1) it_def by (rule insert_position_finds [OF t l e(2)])
  have addr: "distinct (map fst ((s, 0, False) # pre @ (p, n, True) # suf))"
    "\<And>x. x \<in> fst ` set ((s, 0, False) # pre @ (p, n, True) # suf) \<Longrightarrow> x < 2 ^ 32"
    using head_distinct [OF t s(2,3) e(2)] by blast+
  have A: "(s, 0, False) # pre @ (p, n, True) # suf = c @ (it, k, False) # us @ (p, n, True) # suf" using split(1) by simp
  note addr = addr [unfolded A]
  have mem: "links (hp_mem h) c it" "links (hp_mem h) suf e"
    "hp_mem h (of_nat it) = \<lparr>pxNextFreeBlock = of_nat (next_free suf e), xBlockSize = of_nat k\<rparr>"
    using l next_free_used [OF split(2)] unfolding A by auto
  have tsuf: "tiles (p + n) suf e" "16 \<le> n" using t by (auto simp: tiles_append)
  have csuf: "coalesced suf" using c coalesced_tl by (auto simp: coalesced_def successively_append_iff)
  have bound: "it < 2 ^ 32" "p < 2 ^ 32" "it \<noteq> p" using addr by auto
  have upd: "links ((hp_mem h)(of_nat it := v)) c it" "links ((hp_mem h)(of_nat it := v)) suf e"
    "links ((hp_mem h)(of_nat p := w, of_nat it := v)) c it"
    "links ((hp_mem h)(of_nat p := w, of_nat it := v)) suf e" for v w
  proof -
    have off: "it \<notin> fst ` set c" "it \<notin> fst ` set suf" "p \<notin> fst ` set c" "p \<notin> fst ` set suf" using addr(1) by auto
    have small: "\<And>x. x \<in> fst ` set c \<Longrightarrow> x < 2 ^ 32" "\<And>x. x \<in> fst ` set suf \<Longrightarrow> x < 2 ^ 32" using addr(2) by auto
    show "links ((hp_mem h)(of_nat it := v)) c it" "links ((hp_mem h)(of_nat it := v)) suf e"
      "links ((hp_mem h)(of_nat p := w, of_nat it := v)) c it"
      "links ((hp_mem h)(of_nat p := w, of_nat it := v)) suf e"
      by (simp_all only: links_upd_nat [OF bound(1) off(1) small(1)] links_upd_nat [OF bound(1) off(2) small(2)]
          links_upd_nat [OF bound(2) off(3) small(1)] links_upd_nat [OF bound(2) off(4) small(2)] mem)
  qed
  have it_cases: "c = [] \<and> it = s \<and> k = 0 \<and> us = pre \<or> (\<exists>c'. c = (s, 0, False) # c' \<and> pre = c' @ (it, k, False) # us)"
    using split(1) by (cases c) auto
  then have "it + k < 2 ^ 32" using tiles_range [OF t, of it k False] e(2) s(2) by auto
  moreover have "size_of h (of_nat it) = of_nat k" using mem(3) by (simp add: size_of_def)
  ultimately have prev: "of_nat it + size_of h (of_nat it) = of_nat p \<longleftrightarrow> it + k = p"
    using of_nat32_eq_iff [of "it + k" p] bound(2) by simp
  have adjacent: "it + k = p \<longleftrightarrow> us = [] \<and> pre \<noteq> []"
  proof (cases "c = []")
    case True
    then show ?thesis using it_cases bound(3) by auto
  next
    case False
    then have "tiles (it + k) (us @ (p, n, True) # suf) e" "pre \<noteq> []" using it_cases t by (auto simp: tiles_append)
    then show ?thesis using addr(1) by (cases us) auto
  qed
  show ?thesis
  proof (cases "it + k = p")
    case True
    obtain c' where pre: "c = (s, 0, False) # c'" "pre = c' @ [(it, k, False)]" "us = []" using True adjacent it_cases by auto
    obtain n' suf' where absorb: "absorb (k + n) suf = (n', suf')" by fastforce
    let ?m = "(hp_mem h)(of_nat it := \<lparr>pxNextFreeBlock = of_nat (next_free suf' e), xBlockSize = of_nat n'\<rparr>)"
    have j: "join_next (of_nat it) (of_nat it) (set_size (of_nat it) (of_nat (k + n)) h) = h\<lparr>hp_mem := ?m\<rparr>"
      by (subst join_next_absorbs [OF _ _ _ e(2) _ _ _ absorb]) (use tsuf upd mem e True in \<open>auto simp: next_of_def size_of_def set_size_def add.assoc\<close>)
    have "coalesced c'" "c' = [] \<or> snd (snd (last c'))" using c unfolding pre by (auto simp: coalesced_def successively_append_iff)
    then have co: "coalesce (pre @ (p, n, False) # suf) = c' @ (it, n', False) # suf'"
      using coalesce_append [of c' "(it, k, False) # (p, n, False) # suf"] coalesce_absorb [OF csuf, of it "k + n"] absorb pre(2)
      by simp
    have "links ?m suf' e" using upd(2) absorb_rest [OF absorb] by auto
    then have "links ?m ((s, 0, False) # coalesce (pre @ (p, n, False) # suf)) e" using upd(1) unfolding co pre(1) by auto
    moreover have "prvInsertBlockIntoFreeList (of_nat p) h = Some (h\<lparr>hp_mem := ?m\<rparr>)"
      using pos prev True n mem(3) j
      by (simp add: prvInsertBlockIntoFreeList_def insert_after_def join_previous_def size_of_def)
    ultimately show ?thesis using that [of ?m] by (simp add: it_def)
  next
    case False
    obtain n' suf' where absorb: "absorb n suf = (n', suf')" by fastforce
    let ?m = "(hp_mem h)(of_nat p := \<lparr>pxNextFreeBlock = of_nat (next_free suf' e), xBlockSize = of_nat n'\<rparr>,
      of_nat it := \<lparr>pxNextFreeBlock = of_nat p, xBlockSize = of_nat k\<rparr>)"
    have last: "pre = [] \<or> snd (snd (last pre))"
      using False adjacent it_cases split(2) by (cases us rule: rev_cases) auto
    have j: "join_next (of_nat it) (of_nat p) h =
        h\<lparr>hp_mem := (hp_mem h)(of_nat p := \<lparr>pxNextFreeBlock = of_nat (next_free suf' e), xBlockSize = of_nat n'\<rparr>)\<rparr>"
      by (rule join_next_absorbs [OF tsuf(1) mem(2) e _ n _ absorb]) (use tsuf(2) mem(3) in \<open>auto simp: next_of_def\<close>)
    have "coalesced pre" using c by (simp add: coalesced_def successively_append_iff)
    then have co: "coalesce (pre @ (p, n, False) # suf) = pre @ (p, n', False) # suf'"
      using coalesce_append [OF _ last] coalesce_absorb [OF csuf, of p n] absorb by simp
    have "links ?m suf' e" using upd(4) absorb_rest [OF absorb] by auto
    moreover have "(s, 0, False) # coalesce (pre @ (p, n, False) # suf) = c @ (it, k, False) # us @ (p, n', False) # suf'"
      unfolding co using split(1) by simp
    ultimately have "links ?m ((s, 0, False) # coalesce (pre @ (p, n, False) # suf)) e"
      using upd(3) links_used [OF split(2)] next_free_used [OF split(2)] bound by (auto simp: of_nat32_eq_iff)
    moreover have "prvInsertBlockIntoFreeList (of_nat p) h = Some (h\<lparr>hp_mem := ?m\<rparr>)"
      using pos prev False mem(3) j bound
      by (simp add: prvInsertBlockIntoFreeList_def insert_after_def join_previous_def set_next_def of_nat32_eq_iff)
    ultimately show ?thesis using that [of ?m] by (simp add: it_def)
  qed
qed

subsection \<open>The invariant\<close>

text \<open>
  Where the linker may place the two objects: the array neither at address 0 nor across the end of
  the address space, the list head outside it. The blocks start at the first multiple of 8.
\<close>

definition heap_placed :: "heap4_t \<Rightarrow> bool" where
  "heap_placed h \<longleftrightarrow> 0 < ucHeap h \<and> unat (ucHeap h) + 16384 < 2 ^ 32 \<and>
     (unat (xStart h) + 8 \<le> unat (ucHeap h) \<or> unat (ucHeap h) + 16384 \<le> unat (xStart h))"

definition heap_base :: "heap4_t \<Rightarrow> nat" where
  "heap_base h = (unat (ucHeap h) + 7) div 8 * 8"

definition heap_rep :: "heap4_t \<Rightarrow> block list \<Rightarrow> bool" where
  "heap_rep h bs \<longleftrightarrow> heap_placed h \<and> unat (pxEnd h) + 8 \<le> unat (ucHeap h) + 16384 \<and>
     tiles (heap_base h) bs (unat (pxEnd h)) \<and> coalesced bs \<and>
     links (hp_mem h) ((unat (xStart h), 0, False) # bs) (unat (pxEnd h)) \<and> owned (hp_mem h) bs \<and>
     hp_mem h (pxEnd h) = \<lparr>pxNextFreeBlock = 0, xBlockSize = 0\<rparr> \<and> xBlockAllocatedBit h = 0x80000000 \<and>
     unat (xFreeBytesRemaining h) = free_bytes bs \<and> xMinimumEverFreeBytesRemaining h \<le> xFreeBytesRemaining h"

lemma struct_sizes [simp]: "xHeapStructSize = 8" "heapMINIMUM_BLOCK_SIZE = 16"
  by (simp_all add: xHeapStructSize_def heapMINIMUM_BLOCK_SIZE_def)

lemma heap_base_bounds: "heap_placed h \<Longrightarrow> unat (ucHeap h) \<le> heap_base h \<and> heap_base h \<le> unat (ucHeap h) + 7 \<and> 8 dvd heap_base h \<and> 0 < heap_base h"
  by (auto simp: heap_base_def heap_placed_def word_less_nat_alt)

text \<open>The bytes a request takes: the header, and rounding up to a multiple of 8.\<close>

definition block_need :: "nat \<Rightarrow> nat" where
  "block_need w = (w + 15) div 8 * 8"

lemma block_need_bounds: "w + 8 \<le> block_need w" "block_need w < w + 16" "8 dvd block_need w" "0 < w \<Longrightarrow> 16 \<le> block_need w"
  by (auto simp: block_need_def)

lemma wanted_size_need:
  assumes "0 < w" "w < 2 ^ 31"
  shows "wanted_size (of_nat w) = Some (of_nat (block_need w))"
proof -
  define v where "v = w + 8"
  have v: "of_nat w + 8 = (of_nat v :: u32)" "v < 2 ^ 32" by (use assms in \<open>simp_all add: v_def\<close>)
  have pos: "0 < (of_nat w :: u32)" using assms by (simp add: word_less_nat_alt unat_of_nat32)
  have r: "(of_nat v AND 7 \<noteq> (0 :: u32)) \<longleftrightarrow> v mod 8 \<noteq> 0"
    using of_nat32_eq_iff [of "v mod 8" 0] by (simp add: and_7)
  show ?thesis
  proof (cases "v mod 8 = 0")
    case True
    then have "block_need w = v" by (auto simp: block_need_def v_def)
    then show ?thesis using True pos v r by (simp add: wanted_size_def Let_def)
  next
    case False
    define u where "u = v + (8 - v mod 8)"
    obtain q r where qr: "v = 8 * q + r" "v mod 8 = r" "r < 8" using mult_div_mod_eq [of 8 v] by (metis mod_less_divisor zero_less_numeral)
    then have "u = 8 * (q + 1)" unfolding u_def qr(2) by arith
    moreover have "(v + 7) div 8 = q + 1" using False qr by (intro div_nat_eqI) auto
    ultimately have u: "block_need w = u" "u mod 8 = 0" by (simp_all add: block_need_def v_def add.commute)
    have "of_nat v + (8 - (of_nat v AND 7)) = (of_nat u :: u32)" by (simp add: u_def and_7 of_nat_diff)
    then show ?thesis using False pos v r u by (simp add: wanted_size_def Let_def and_7)
  qed
qed

lemma unlink_block:
  assumes t: "tiles a (us @ (p, n, False) # vs) e" and l: "links m ((s, 0, False) # us @ (p, n, False) # vs) e"
    and s: "s < 2 ^ 32" "s < a \<or> e < s" "e < 2 ^ 32"
  shows "links (m(of_nat (last_free s us) := (m (of_nat (last_free s us)))\<lparr>pxNextFreeBlock := of_nat (next_free vs e)\<rparr>))
    ((s, 0, False) # us @ (p, n, True) # vs) e" (is "links ?m _ _")
    "pxNextFreeBlock (m (of_nat (last_free s us))) = of_nat p"
proof -
  let ?it = "last_free s us"
  obtain c k ws where split: "(s, 0, False) # us = c @ (?it, k, False) # ws" "\<forall>b \<in> set ws. snd (snd b)"
    using last_free_split by blast
  have A: "(s, 0, False) # us @ (p, n, u) # vs = c @ (?it, k, False) # ws @ (p, n, u) # vs" for u using split(1) by simp
  note addr = head_distinct [OF t s, where k = 0 and u = False, unfolded A]
  have off: "?it \<notin> fst ` set c" "?it \<notin> fst ` set vs" "?it < 2 ^ 32" using addr by auto
  have small: "\<And>x. x \<in> fst ` set c \<Longrightarrow> x < 2 ^ 32" "\<And>x. x \<in> fst ` set vs \<Longrightarrow> x < 2 ^ 32" using addr(2) by auto
  have mem: "links m c ?it" "links m vs e" "m (of_nat ?it) = \<lparr>pxNextFreeBlock = of_nat p, xBlockSize = of_nat k\<rparr>"
    using l next_free_used [OF split(2)] unfolding A by auto
  show "pxNextFreeBlock (m (of_nat ?it)) = of_nat p" using mem(3) by simp
  show "links ?m ((s, 0, False) # us @ (p, n, True) # vs) e"
    unfolding A using mem links_used [OF split(2)] next_free_used [OF split(2)]
    by (simp add: links_upd_nat [OF off(3,1) small(1)] links_upd_nat [OF off(3,2) small(2)])
qed

subsection \<open>Allocation\<close>

text \<open>The layout after taking \<open>w\<close> bytes of the free block \<open>(p, n)\<close>.\<close>

definition taken :: "nat \<Rightarrow> nat \<Rightarrow> nat \<Rightarrow> block list" where
  "taken w p n = (if n - w > 16 then [(p, w, True), (p + w, n - w, False)] else [(p, n, True)])"

lemma taken_layout:
  assumes "tiles a (us @ (p, n, False) # vs) e" "coalesced (us @ (p, n, False) # vs)" "w \<le> n" "16 \<le> w" "8 dvd w"
  shows "tiles a (us @ taken w p n @ vs) e" "coalesced (us @ taken w p n @ vs)"
    "free_bytes (us @ (p, n, False) # vs) = free_bytes (us @ taken w p n @ vs) + (if n - w > 16 then w else n)"
    "coalesced (us @ (p, w, True) # (p + w, n - w, True) # vs)"
  using assms by (auto simp: taken_def tiles_append coalesced_def successively_append_iff successively_Cons free_bytes_def
      dvd_diff_nat)

lemma split_block_links:
  assumes t: "tiles a (us @ (p, n, False) # vs) e" "8 dvd a" and co: "coalesced (us @ (p, n, False) # vs)" and w: "w \<le> n" "16 \<le> w" "8 dvd w"
    and l: "links (hp_mem h) ((s, 0, False) # us @ (p, n, True) # vs) e" and n: "size_of h (of_nat p) = of_nat n"
    and s: "xStart h = of_nat s" "s < 2 ^ 32" "s < a \<or> e < s" and e: "pxEnd h = of_nat e" "e < 2 ^ 32"
  obtains m where "split_block (of_nat w) (of_nat p) h = Some (h\<lparr>hp_mem := m\<rparr>)"
    "links m ((s, 0, False) # us @ taken w p n @ vs) e" "xBlockSize (m (of_nat p)) = of_nat (if n - w > 16 then w else n)"
    "\<And>x. x \<noteq> of_nat (last_free s us) \<Longrightarrow> x \<noteq> of_nat p \<Longrightarrow> x \<noteq> of_nat (p + w) \<or> n - w \<le> 16 \<Longrightarrow> m x = hp_mem h x"
proof -
  have b: "p + n \<le> e" using tiles_range [OF t(1)] by auto
  have big: "size_of h (of_nat p) - of_nat w > 16 \<longleftrightarrow> n - w > 16"
  proof -
    have "size_of h (of_nat p) - of_nat w = (of_nat (n - w) :: u32)" using n w(1) by (simp add: of_nat_diff)
    moreover have "(16 :: u32) = of_nat 16" by simp
    ultimately show ?thesis using b e(2) of_nat32_less_iff [of 16 "n - w"] by (simp del: of_nat_numeral)
  qed
  show ?thesis
  proof (cases "n - w > 16")
    case False
    then show ?thesis using that [of "hp_mem h"] big l n by (simp add: split_block_def size_of_def taken_def)
  next
    case True
    note lay = taken_layout [OF t(1) co w]
    let ?bs = "us @ (p, w, True) # (p + w, n - w, True) # vs"
    have tl: "tiles a ((us @ [(p, w, True)]) @ (p + w, n - w, True) # vs) e" using lay(1) True by (simp add: taken_def tiles_append)
    have cl: "coalesced ((us @ [(p, w, True)]) @ (p + w, n - w, True) # vs)" using lay(4) by simp
    define m0 where "m0 = (hp_mem h)(of_nat (p + w) := (hp_mem h (of_nat (p + w)))\<lparr>xBlockSize := of_nat (n - w)\<rparr>)"
    define h2 where "h2 = h\<lparr>hp_mem := m0(of_nat p := (m0 (of_nat p))\<lparr>xBlockSize := of_nat w\<rparr>)\<rparr>"
    note addr = head_distinct [OF tl s(2,3) e(2), where k = 0 and u = False]
    have off: "p \<notin> fst ` set ((s, 0, False) # us)" "p \<notin> fst ` set vs" "p + w \<notin> fst ` set ((s, 0, False) # us)" "p + w \<notin> fst ` set vs"
      "p < 2 ^ 32" "p + w < 2 ^ 32" "p \<noteq> p + w" using addr w(2) by auto
    have l2: "links (hp_mem h2) ((s, 0, False) # (us @ [(p, w, True)]) @ (p + w, n - w, True) # vs) e"
    proof -
      have h2_mem: "hp_mem h2 = m0(of_nat p := (m0 (of_nat p))\<lparr>xBlockSize := of_nat w\<rparr>)" by (simp add: h2_def)
      have small: "\<And>x. x \<in> fst ` set ((s, 0, False) # us) \<Longrightarrow> x < 2 ^ 32" "\<And>x. x \<in> fst ` set vs \<Longrightarrow> x < 2 ^ 32" using addr(2) by auto
      have "links (hp_mem h) ((s, 0, False) # us) (next_free vs e)" "links (hp_mem h) vs e" using l by simp_all
      then have "links (hp_mem h2) ((s, 0, False) # us) (next_free vs e)" "links (hp_mem h2) vs e"
        unfolding h2_mem m0_def
        by (simp_all only: links_upd_nat [OF off(5,1) small(1)] links_upd_nat [OF off(5,2) small(2)]
            links_upd_nat [OF off(6,3) small(1)] links_upd_nat [OF off(6,4) small(2)])
      then show ?thesis by simp
    qed
    have sz: "size_of h2 (of_nat (p + w)) = of_nat (n - w)" "size_of h2 (of_nat p) = of_nat w"
      using off(5-7) by (simp_all add: h2_def m0_def size_of_def of_nat32_eq_iff del: of_nat_add)
    obtain m where m: "prvInsertBlockIntoFreeList (of_nat (p + w)) h2 = Some (h2\<lparr>hp_mem := m\<rparr>)"
      "links m ((s, 0, False) # coalesce ((us @ [(p, w, True)]) @ (p + w, n - w, False) # vs)) e"
      "\<And>x. x \<noteq> of_nat (p + w) \<Longrightarrow> x \<noteq> of_nat (last_free s (us @ [(p, w, True)])) \<Longrightarrow> m x = hp_mem h2 x"
      using insert_block [OF tl cl l2 sz(1)] s e by (auto simp: h2_def)
    have it: "last_free s us \<noteq> p" "last_free s us < 2 ^ 32" using last_free_eq [of s us] off(1) addr(2) [of "last_free s us"] by auto
    have "split_block (of_nat w) (of_nat p) h = Some (h\<lparr>hp_mem := m\<rparr>)"
    proof -
      have "(of_nat p + of_nat w) AND 7 = (0 :: u32)"
        using and_7 [of "p + w"] tiles_dvd [OF t, of p n False] w(3) by (simp add: dvd_add mod_eq_0_iff_dvd)
      moreover have "set_size (of_nat p) (of_nat w) (set_size (of_nat (p + w)) (of_nat (n - w)) h) = h2"
        by (simp add: set_size_def h2_def m0_def)
      ultimately show ?thesis using True big m(1) n w(1)
        by (simp add: split_block_def of_nat_diff) (simp add: h2_def)
    qed
    moreover have "links m ((s, 0, False) # us @ taken w p n @ vs) e"
      using m(2) lay(2) True by (simp add: taken_def coalesce_id)
    moreover have "m (of_nat p) = hp_mem h2 (of_nat p)" using m(3) [of "of_nat p"] it off(5-7) by (metis of_nat32_eq_iff last_free_snoc)
    moreover have "m x = hp_mem h x" if "x \<noteq> of_nat (last_free s us)" "x \<noteq> of_nat p" "x \<noteq> of_nat (p + w)" for x
      using m(3) [of x] that by (simp add: last_free_snoc) (simp add: h2_def m0_def)
    ultimately show ?thesis using that [of m] True sz(2) by (auto simp: size_of_def)
  qed
qed

lemma distinct_addresses: "distinct (map fst bs) \<Longrightarrow> (p, n, u) \<in> set bs \<Longrightarrow> (p, n', u') \<in> set bs \<Longrightarrow> n = n' \<and> u = u'"
  by (metis (no_types, lifting) distinct_map fst_conv inj_onD snd_conv)

lemma heap_repD:
  assumes "heap_rep h bs"
  shows "tiles (heap_base h) bs (unat (pxEnd h))" "coalesced bs" "8 dvd heap_base h" "0 < heap_base h"
    "links (hp_mem h) ((unat (xStart h), 0, False) # bs) (unat (pxEnd h))" "owned (hp_mem h) bs"
    "unat (xStart h) < 2 ^ 32" "unat (xStart h) < heap_base h \<or> unat (pxEnd h) < unat (xStart h)" "unat (pxEnd h) < 2 ^ 32"
    "hp_mem h (pxEnd h) = \<lparr>pxNextFreeBlock = 0, xBlockSize = 0\<rparr>"
  using assms heap_base_bounds [of h] unat_lt32 [of "xStart h"] unat_lt32 [of "pxEnd h"]
  by (auto simp: heap_rep_def heap_placed_def)

lemma block_bound:
  assumes "heap_rep h bs" "(p, n, u) \<in> set bs"
  shows "p + n + 8 \<le> unat (ucHeap h) + 16384" "n < 2 ^ 31" "unat (ucHeap h) \<le> p" "16 \<le> n" "8 dvd p"
  using tiles_range [OF heap_repD(1) [OF assms(1)] assms(2)] tiles_dvd [OF heap_repD(1,3) [OF assms(1)] assms(2)] assms(1)
    heap_base_bounds [of h]
  by (auto simp: heap_rep_def)

lemma tiles_disjoint:
  "tiles a bs e \<Longrightarrow> (p, n, u) \<in> set bs \<Longrightarrow> (q, k, v) \<in> set bs \<Longrightarrow> p \<noteq> q \<Longrightarrow> p + n \<le> q \<or> q + k \<le> p"
proof (induction bs arbitrary: a)
  case (Cons b bs)
  obtain r m x where b: "b = (r, m, x)" using prod_cases3 by blast
  then have t: "tiles (a + m) bs e" "r = a" using Cons.prems(1) by auto
  then show ?case using Cons.IH [OF t(1)] Cons.prems(2-4) tiles_range [OF t(1)] b by fastforce
qed simp

lemma free_bytes_ge: "(p, n, False) \<in> set bs \<Longrightarrow> n \<le> free_bytes bs"
  by (induction bs) (auto simp: free_bytes_def split: if_splits)

text \<open>An operation changes memory only at the list head and inside free blocks; so what the
  application keeps in its blocks, the headers of these blocks and the end marker stay as they are.\<close>

definition touches_free :: "block list \<Rightarrow> heap4_t \<Rightarrow> heap4_t \<Rightarrow> bool" where
  "touches_free bs h h' \<longleftrightarrow> ucHeap h' = ucHeap h \<and> xStart h' = xStart h \<and> pxEnd h' = pxEnd h \<and>
     (\<forall>x. hp_mem h' x \<noteq> hp_mem h x \<longrightarrow> x = xStart h \<or> (\<exists>q n. (q, n, False) \<in> set bs \<and> q \<le> unat x \<and> unat x < q + n))"

definition heap_area :: "heap4_t \<Rightarrow> block list \<Rightarrow> bool" where
  "heap_area h bs \<longleftrightarrow> tiles (heap_base h) bs (unat (pxEnd h)) \<and> (unat (xStart h) < heap_base h \<or> unat (pxEnd h) < unat (xStart h))"

lemma touches_free_used:
  assumes "heap_area h bs" "touches_free bs h h'" "(q, n, True) \<in> set bs" "q \<le> unat x" "unat x < q + n"
  shows "hp_mem h' x = hp_mem h x"
proof (rule ccontr)
  assume changed: "hp_mem h' x \<noteq> hp_mem h x"
  have t: "tiles (heap_base h) bs (unat (pxEnd h))" using assms(1) by (simp add: heap_area_def)
  have "x \<noteq> xStart h" using tiles_range [OF t assms(3)] assms(1,4,5) by (auto simp: heap_area_def)
  then obtain r k where r: "(r, k, False) \<in> set bs" "r \<le> unat x" "unat x < r + k"
    using assms(2) changed by (auto simp: touches_free_def)
  then have "r \<noteq> q" using distinct_addresses [OF tiles_addresses(1) [OF t] assms(3)] by auto
  then show False using tiles_disjoint [OF t r(1) assms(3)] r(2,3) assms(4,5) by auto
qed

lemma touches_free_headers:
  assumes "heap_area h bs" "touches_free bs h h'" "owned (hp_mem h) bs" "(q, n, True) \<in> set bs"
  shows "hp_mem h' (of_nat q) = \<lparr>pxNextFreeBlock = 0, xBlockSize = of_nat (n + 2 ^ 31)\<rparr>"
proof -
  have t: "tiles (heap_base h) bs (unat (pxEnd h))" using assms(1) by (simp add: heap_area_def)
  have "unat (of_nat q :: u32) = q" "0 < n"
    using tiles_range [OF t assms(4)] unat_lt32 [of "pxEnd h"] by (auto intro: unat_of_nat32)
  then have "hp_mem h' (of_nat q) = hp_mem h (of_nat q)" using touches_free_used [OF assms(1,2,4)] by simp
  then show ?thesis using assms(3,4) by (auto simp: owned_def)
qed

lemma touches_free_end:
  assumes "heap_area h bs" "touches_free bs h h'"
  shows "hp_mem h' (pxEnd h) = hp_mem h (pxEnd h)"
  using assms tiles_range [of "heap_base h" bs "unat (pxEnd h)"] tiles_le [of "heap_base h" bs "unat (pxEnd h)"]
  by (fastforce simp: heap_area_def touches_free_def)

lemma last_free_in:
  assumes "last_free s us \<noteq> s"
  shows "\<exists>k. (last_free s us, k, False) \<in> set us"
proof -
  obtain c k ws where "(s, 0, False) # us = c @ (last_free s us, k, False) # ws" using last_free_split by blast
  then show ?thesis using assms by (cases c) (auto, metis in_set_conv_decomp)
qed

lemma take_block_mem:
  assumes rep: "heap_rep h (us @ (p, n, False) # vs)" and w: "w \<le> n" "16 \<le> w" "8 dvd w"
  defines "it \<equiv> last_free (unat (xStart h)) us" and "B \<equiv> (if n - w > 16 then w else n)"
  defines "f \<equiv> xFreeBytesRemaining h - of_nat B"
  obtains m where "take_block (of_nat w) (of_nat it) (of_nat p) h = Some (of_nat (p + 8), h\<lparr>
      hp_mem := m(of_nat p := \<lparr>pxNextFreeBlock = 0, xBlockSize = of_nat (B + 2 ^ 31)\<rparr>), xFreeBytesRemaining := f,
      xMinimumEverFreeBytesRemaining := (if f < xMinimumEverFreeBytesRemaining h then f else xMinimumEverFreeBytesRemaining h),
      xNumberOfSuccessfulAllocations := xNumberOfSuccessfulAllocations h + 1\<rparr>)"
    "links m ((unat (xStart h), 0, False) # us @ taken w p n @ vs) (unat (pxEnd h))"
    "\<And>x. x \<noteq> of_nat it \<Longrightarrow> x \<noteq> of_nat p \<Longrightarrow> x \<noteq> of_nat (p + w) \<or> n - w \<le> 16 \<Longrightarrow> m x = hp_mem h x"
proof -
  define s e where "s = unat (xStart h)" and "e = unat (pxEnd h)"
  note rep' = heap_repD [OF rep, folded s_def e_def]
  note un = unlink_block [OF rep'(1,5,7,8,9)]
  define h1 where "h1 = set_next (of_nat it) (next_of h (of_nat p)) h"
  have addr: "it \<noteq> p" "it < 2 ^ 32" "p < 2 ^ 32"
    using last_free_eq [of s us] head_distinct [OF rep'(1,7,8,9), where k = 0 and u = False] head_distinct(2) [OF rep'(1,7,8,9), of it 0 False]
    unfolding it_def s_def [symmetric] by auto
  have hdr: "hp_mem h (of_nat p) = \<lparr>pxNextFreeBlock = of_nat (next_free vs e), xBlockSize = of_nat n\<rparr>" using rep'(5) by simp
  have l1: "links (hp_mem h1) ((s, 0, False) # us @ (p, n, True) # vs) e"
    using un(1) by (simp only: h1_def hp_mem_set next_of_def hdr BlockLink_t.simps it_def s_def)
  have s1: "size_of h1 (of_nat p) = of_nat n" using hdr addr by (simp add: h1_def size_of_def of_nat32_eq_iff)
  obtain m where m: "split_block (of_nat w) (of_nat p) h1 = Some (h1\<lparr>hp_mem := m\<rparr>)"
    "links m ((s, 0, False) # us @ taken w p n @ vs) e" "xBlockSize (m (of_nat p)) = of_nat B"
    "\<And>x. x \<noteq> of_nat it \<Longrightarrow> x \<noteq> of_nat p \<Longrightarrow> x \<noteq> of_nat (p + w) \<or> n - w \<le> 16 \<Longrightarrow> m x = hp_mem h1 x"
    using split_block_links [OF rep'(1,3,2) w l1 s1 _ rep'(7,8) _ rep'(9)] by (auto simp: h1_def s_def e_def it_def B_def)
  have "B < 2 ^ 31" using block_bound(2) [OF rep, of p n False] w(1) by (auto simp: B_def)
  moreover have "next_of h (of_nat it) = of_nat p" using un(2) by (simp add: next_of_def it_def s_def)
  moreover obtain v where "m (of_nat p) = \<lparr>pxNextFreeBlock = v, xBlockSize = of_nat B\<rparr>" using m(3) by (cases "m (of_nat p)") simp
  moreover have "xBlockAllocatedBit h = 0x80000000" using rep by (simp add: heap_rep_def)
  ultimately show ?thesis using that [of m] m(1,2,4) top_bit(1) [of B] unfolding take_block_def h1_def [symmetric]
    by (auto simp: Let_def f_def set_next_def set_size_def size_of_def h1_def s_def e_def)
qed

lemma take_block_rep:
  assumes rep: "heap_rep h (us @ (p, n, False) # vs)" and w: "w \<le> n" "16 \<le> w" "8 dvd w"
  obtains h' where "take_block (of_nat w) (of_nat (last_free (unat (xStart h)) us)) (of_nat p) h = Some (of_nat (p + 8), h')"
    "heap_rep h' (us @ taken w p n @ vs)" "touches_free (us @ (p, n, False) # vs) h h'"
proof -
  define s e it B bs bs' where "s = unat (xStart h)" and "e = unat (pxEnd h)" and "it = last_free s us"
    and "B = (if n - w > 16 then w else n)" and "bs = us @ (p, n, False) # vs" and "bs' = us @ taken w p n @ vs"
  note rep' = heap_repD [OF rep, folded s_def e_def bs_def]
  note lay = taken_layout [OF rep'(1,2) [unfolded bs_def] w, folded bs'_def bs_def B_def]
  have area: "heap_area h bs" using rep'(1,8) by (simp add: heap_area_def s_def e_def)
  obtain m h' where h': "take_block (of_nat w) (of_nat it) (of_nat p) h = Some (of_nat (p + 8), h')" "links m ((s, 0, False) # bs') e"
    "hp_mem h' = m(of_nat p := \<lparr>pxNextFreeBlock = 0, xBlockSize = of_nat (B + 2 ^ 31)\<rparr>)"
    "ucHeap h' = ucHeap h" "xStart h' = xStart h" "pxEnd h' = pxEnd h" "xBlockAllocatedBit h' = xBlockAllocatedBit h"
    "xFreeBytesRemaining h' = xFreeBytesRemaining h - of_nat B" "xMinimumEverFreeBytesRemaining h' \<le> xFreeBytesRemaining h'"
    and frame: "\<And>x. x \<noteq> of_nat it \<Longrightarrow> x \<noteq> of_nat p \<Longrightarrow> x \<noteq> of_nat (p + w) \<or> n - w \<le> 16 \<Longrightarrow> m x = hp_mem h x"
    by (rule take_block_mem [OF rep w]) (auto simp: s_def e_def it_def B_def bs'_def not_less)
  have pn: "(p, n, False) \<in> set bs" "(p, B, True) \<in> set bs'" by (simp_all add: bs_def bs'_def B_def taken_def)
  have bound: "p + n \<le> e" "16 \<le> n" "e < 2 ^ 32" "p < 2 ^ 32" using tiles_range [OF rep'(1) pn(1)] rep'(9) by auto
  note addr' = head_distinct [OF lay(1) rep'(7,8,9), where k = 0 and u = False]
  have touches: "touches_free bs h h'"
  proof -
    have "x = xStart h \<or> (\<exists>q j. (q, j, False) \<in> set bs \<and> q \<le> unat x \<and> unat x < q + j)" if "hp_mem h' x \<noteq> hp_mem h x" for x
    proof -
      have "x = of_nat it \<or> x = of_nat p \<or> x = of_nat (p + w) \<and> n - w > 16"
        using frame [of x] that h'(3) by (metis fun_upd_other not_less)
      moreover have "(x = of_nat p \<or> x = of_nat (p + w) \<and> n - w > 16) \<Longrightarrow> p \<le> unat x \<and> unat x < p + n"
        using bound w(2) unat_of_nat32 [of p] unat_of_nat32 [of "p + w"] by auto
      moreover have "\<exists>j. (it, j, False) \<in> set bs \<and> unat (of_nat it :: u32) = it \<and> 16 \<le> j" if it: "it \<noteq> s"
      proof -
        obtain j where j: "(it, j, False) \<in> set bs" using last_free_in [of s us] it by (auto simp: it_def bs_def)
        then show ?thesis using tiles_range [OF rep'(1) j] bound(3) unat_of_nat32 [of it] by auto
      qed
      ultimately show ?thesis using pn(1) by (cases "it = s") (auto simp: s_def, force+)
    qed
    then show ?thesis using h'(4-6) by (auto simp: touches_free_def)
  qed
  have "owned (hp_mem h') bs'"
  proof -
    have "hp_mem h' (of_nat q) = \<lparr>pxNextFreeBlock = 0, xBlockSize = of_nat (j + 2 ^ 31)\<rparr>" if q: "(q, j, True) \<in> set bs'" for q j
    proof (cases "q = p")
      case True
      then show ?thesis using distinct_addresses [OF addr'(1), of p j True B True] q pn(2) h'(3) by simp
    next
      case False
      then have "(q, j, True) \<in> set bs" using q by (auto simp: bs_def bs'_def taken_def split: if_splits)
      then show ?thesis by (rule touches_free_headers [OF area touches rep'(6)])
    qed
    then show ?thesis by (auto simp: owned_def)
  qed
  moreover have "links (hp_mem h') ((s, 0, False) # bs') e"
  proof -
    have "of_nat q \<noteq> (of_nat p :: u32)" if "(q, j, False) \<in> set ((s, 0, False) # bs')" for q j
      using distinct_addresses [OF addr'(1), of p B True j False] that pn(2) addr'(2) [of q] bound(4) by (force simp: of_nat32_eq_iff)
    then show ?thesis unfolding h'(3) using h'(2) by (subst links_upd_free) auto
  qed
  moreover have "unat (xFreeBytesRemaining h') = free_bytes bs'"
    using lay(3) rep unat_sub [of "of_nat B" "xFreeBytesRemaining h"] unat_of_nat32 [of B] bound w(1)
    by (auto simp: h'(8) heap_rep_def word_le_nat_alt B_def bs_def)
  moreover have "hp_mem h' (pxEnd h) = hp_mem h (pxEnd h)" by (rule touches_free_end [OF area touches])
  ultimately have "heap_rep h' bs'" 
    using rep lay(1,2) h'(4-9) by (auto simp: heap_rep_def heap_placed_def heap_base_def s_def e_def)
  then show ?thesis using that [of h'] h'(1) touches by (simp add: bs_def bs'_def it_def s_def)
qed

definition malloc_layout :: "nat \<Rightarrow> block list \<Rightarrow> (nat \<times> block list) option" where
  "malloc_layout w bs = (if 0 < w \<and> w < 2 ^ 31 then alloc_block (block_need w) bs else None)"

lemma malloc_refines:
  assumes rep: "heap_rep h bs"
  shows "returns (\<lambda>r h'. case malloc_layout (unat w) bs of
      None \<Rightarrow> r = 0 \<and> h' = h
    | Some (p, bs') \<Rightarrow> r = of_nat (p + 8) \<and> heap_rep h' bs' \<and> touches_free bs h h') (pvPortMalloc w h)"
proof -
  define s e where "s = unat (xStart h)" and "e = unat (pxEnd h)"
  note rep' = heap_repD [OF rep, folded s_def e_def]
  have bit: "xBlockAllocatedBit h = 0x80000000" "unat (xFreeBytesRemaining h) = free_bytes bs" using rep by (simp_all add: heap_rep_def)
  have init: "pxEnd h \<noteq> 0" using tiles_le [OF rep'(1)] rep'(4) by (auto simp: e_def unat_gt_0 [symmetric])
  define n where "n = unat w"
  have w: "w = of_nat n" "n < 2 ^ 32" using unat_lt32 [of w] by (simp_all add: n_def)
  consider "n = 0" | "2 ^ 31 \<le> n" | "0 < n" "n < 2 ^ 31" by linarith
  then show ?thesis
  proof cases
    case 1
    then show ?thesis using w init by (simp add: pvPortMalloc_def wanted_size_def malloc_layout_def n_def [symmetric] Let_def wp)
  next
    case 2
    then obtain k where "n = k + 2 ^ 31" "k < 2 ^ 31" using w(2) by (auto simp: le_iff_add add.commute)
    then have "w AND xBlockAllocatedBit h \<noteq> 0" using top_bit(3) [of k] w(1) bit(1) by simp
    then show ?thesis using 2 init by (simp add: pvPortMalloc_def malloc_layout_def n_def [symmetric] Let_def wp)
  next
    case 3
    define v where "v = block_need n"
    have v: "16 \<le> v" "8 dvd v" "v < 2 ^ 32" using block_need_bounds [of n] 3 by (auto simp: v_def)
    have small: "w AND xBlockAllocatedBit h = 0" using top_bit(4) [OF 3(2)] w(1) bit(1) by simp
    have want: "wanted_size w = Some (of_nat v)" using wanted_size_need [OF 3] w(1) v_def by simp
    have pos: "0 < (of_nat v :: u32)" using v by (simp add: word_less_nat_alt unat_of_nat32)
    have fits: "(of_nat v \<le> xFreeBytesRemaining h) \<longleftrightarrow> v \<le> free_bytes bs" using v(3) bit(2) by (simp add: word_le_nat_alt unat_of_nat32)
    have start: "next_of h (xStart h) = of_nat (next_free bs e)" "xStart h = of_nat s" using rep'(5) by (auto simp: next_of_def s_def)
    have l: "links (hp_mem h) bs e" using rep'(5) by simp
    show ?thesis
    proof (cases "alloc_block v bs")
      case None
      then have "first_fit h (of_nat v) (xStart h) (of_nat (next_free bs e)) = first_fit h (of_nat v) (of_nat (last_free s bs)) (of_nat e)"
        using first_fit_skips [of "heap_base h" bs "[]" e h v s] rep'(1,4,9) l v(3) alloc_block_None [OF None] start(2) by simp
      also have "\<dots> = Some (of_nat (last_free s bs), pxEnd h)"
        using rep'(10) by (subst first_fit.simps) (simp add: size_of_def next_of_def e_def)
      finally show ?thesis using None 3 init small want start(1)
        by (simp add: pvPortMalloc_def malloc_layout_def n_def [symmetric] v_def [symmetric] Let_def wp)
    next
      case (Some r)
      then obtain p bs' where r: "alloc_block v bs = Some (p, bs')" by (cases r) auto
      then obtain us k vs where split: "bs = us @ (p, k, False) # vs" "v \<le> k" "\<forall>(q, j, u) \<in> set us. u \<or> j < v" "bs' = us @ taken v p k @ vs"
        using alloc_block_split [OF r] by (auto simp: taken_def)
      have pb: "p < 2 ^ 32" "p + k \<le> e" "8 dvd p" "16 \<le> k"
        using tiles_range [OF rep'(1), of p k False] tiles_dvd [OF rep'(1,3), of p k False] rep'(9) split(1) by auto
      have "first_fit h (of_nat v) (xStart h) (of_nat (next_free bs e)) = Some (of_nat (last_free s us), of_nat p)"
      proof -
        have "k < 2 ^ 32" "size_of h (of_nat p) = of_nat k" using pb rep'(9) l split(1) by (auto simp: size_of_def)
        then have "first_fit h (of_nat v) (of_nat (last_free s us)) (of_nat p) = Some (of_nat (last_free s us), of_nat p)"
          using split(2) v(3) by (subst first_fit.simps) (simp add: of_nat32_less_iff)
        then show ?thesis using first_fit_skips [OF rep'(1) [unfolded split(1)] l [unfolded split(1)] rep'(4,9) v(3) split(3), of s]
          start(2) split(1) by simp
      qed
      moreover have "of_nat p \<noteq> pxEnd h" using pb rep'(9) of_nat32_eq_iff [of p e] by (auto simp: e_def)
      moreover obtain h' where "take_block (of_nat v) (of_nat (last_free s us)) (of_nat p) h = Some (of_nat (p + 8), h')"
        "heap_rep h' bs'" "touches_free bs h h'"
        using take_block_rep [OF rep [unfolded split(1)] split(2) v(1,2)] split(1,4) unfolding s_def by blast
      moreover have "(of_nat (p + 8) :: u32) AND 7 = 0" using pb(3) by (subst and_7) auto
      moreover have "v \<le> free_bytes bs" using free_bytes_ge [of p k bs] split(1,2) by simp
      ultimately show ?thesis using r 3 init small want start(1) fits pos
        by (simp add: pvPortMalloc_def malloc_layout_def n_def [symmetric] v_def [symmetric] Let_def wp)
    qed
  qed
qed

subsection \<open>Release\<close>

lemma coalesce_layout:
  "tiles a bs e \<Longrightarrow> tiles a (coalesce bs) e" "coalesced (coalesce bs)" "free_bytes (coalesce bs) = free_bytes bs"
  "(q, j, True) \<in> set (coalesce bs) \<longleftrightarrow> (q, j, True) \<in> set bs"
proof -
  show "tiles a bs e \<Longrightarrow> tiles a (coalesce bs) e"
    by (induction bs arbitrary: a rule: coalesce.induct) (auto simp: add.assoc)
  have hd: "coalesce (b # bs) \<noteq> [] \<and> snd (snd (hd (coalesce (b # bs)))) = snd (snd b)" for b bs
    by (induction "b # bs" arbitrary: b bs rule: coalesce.induct) auto
  show "coalesced (coalesce bs)"
  proof (induction bs rule: coalesce.induct [case_names merge used single before_used nil])
    case (before_used b q m bs)
    then show ?case by simp
  next
    case (used p n bs)
    then show ?case by (cases "coalesce bs") auto
  qed auto
  show "free_bytes (coalesce bs) = free_bytes bs"
    by (induction bs rule: coalesce.induct) (auto simp: free_bytes_def)
  show "(q, j, True) \<in> set (coalesce bs) \<longleftrightarrow> (q, j, True) \<in> set bs"
    by (induction bs rule: coalesce.induct) auto
qed

lemma release_block_split:
  assumes "tiles a (pre @ (p, n, True) # suf) e"
  shows "release_block p (pre @ (p, n, True) # suf) = coalesce (pre @ (p, n, False) # suf)"
proof -
  have "p \<notin> fst ` set pre" "p \<notin> fst ` set suf" using tiles_addresses(1) [OF assms] by auto
  then have "map (\<lambda>(q, k, u). (q, k, u \<and> q \<noteq> p)) xs = xs" if "set xs \<subseteq> set pre \<union> set suf" for xs
    using that by (induction xs) force+
  then have "map (\<lambda>(q, k, u). (q, k, u \<and> q \<noteq> p)) pre = pre" "map (\<lambda>(q, k, u). (q, k, u \<and> q \<noteq> p)) suf = suf" by auto
  then show ?thesis by (simp add: release_block_def)
qed

lemma free_bytes_le: "tiles a bs e \<Longrightarrow> a + free_bytes bs \<le> e"
proof (induction bs arbitrary: a)
  case (Cons b bs)
  obtain p n u where b: "b = (p, n, u)" using prod_cases3 by blast
  then have "a + n + free_bytes bs \<le> e" using Cons.prems by (intro Cons.IH) auto
  then show ?case using b by (simp add: free_bytes_def)
qed (simp add: free_bytes_def)

text \<open>Merging only widens free blocks.\<close>

lemma coalesce_covers:
  "tiles a bs e \<Longrightarrow> (q, j, False) \<in> set bs \<Longrightarrow> \<exists>q' j'. (q', j', False) \<in> set (coalesce bs) \<and> q' \<le> q \<and> q + j \<le> q' + j'"
proof (induction bs arbitrary: a q j rule: coalesce.induct)
  case (1 p n r m bs)
  have t: "tiles a ((p, n + m, False) # bs) e" "r = p + n" using "1.prems"(1) by (auto simp: add.assoc)
  consider "(q, j) = (p, n)" | "(q, j) = (r, m)" | "(q, j, False) \<in> set bs" using "1.prems"(2) by auto
  then show ?case
  proof cases
    case 3
    then show ?thesis using "1.IH" [OF t(1), of q j] by simp
  qed (use "1.IH" [OF t(1), of p "n + m"] t(2) in \<open>fastforce+\<close>)
qed (auto, blast+)

lemma free_refines:
  assumes rep: "heap_rep h bs" and used: "(p, n, True) \<in> set bs"
  shows "\<exists>h'. vPortFree (of_nat (p + 8)) h = Some h' \<and> heap_rep h' (release_block p bs) \<and>
    xFreeBytesRemaining h' = xFreeBytesRemaining h + of_nat n \<and> touches_free (release_block p bs) h h'"
proof -
  define s e where "s = unat (xStart h)" and "e = unat (pxEnd h)"
  note rep' = heap_repD [OF rep, folded s_def e_def]
  obtain pre suf where split: "bs = pre @ (p, n, True) # suf" using used by (auto simp: in_set_conv_decomp)
  define bs' where "bs' = coalesce (pre @ (p, n, False) # suf)"
  have rel: "release_block p bs = bs'" using release_block_split rep'(1) by (simp add: split bs'_def)
  have t': "tiles (heap_base h) bs' e" "coalesced bs'" "free_bytes bs' = free_bytes bs + n"
    using rep'(1) coalesce_layout(1) [of _ "pre @ (p, n, False) # suf" e] coalesce_layout(2,3) [of "pre @ (p, n, False) # suf"] unfolding split bs'_def by (auto simp: tiles_append free_bytes_def)
  have b: "n < 2 ^ 31" "p + n < 2 ^ 32" "16 \<le> n" "p < 2 ^ 32" "0 < p"
    using block_bound [OF rep used] rep tiles_range [OF rep'(1) used] rep'(4) by (auto simp: heap_rep_def heap_placed_def)
  have hdr: "hp_mem h (of_nat p) = \<lparr>pxNextFreeBlock = 0, xBlockSize = of_nat (n + 2 ^ 31)\<rparr>" using rep'(6) used by (auto simp: owned_def)
  have bit: "xBlockAllocatedBit h = 0x80000000" "unat (xFreeBytesRemaining h) = free_bytes bs" using rep by (simp_all add: heap_rep_def)
  have co: "coalesced (pre @ (p, n, True) # suf)" using rep'(2) split by simp
  define h1 where "h1 = h\<lparr>hp_mem := (hp_mem h)(of_nat p := \<lparr>pxNextFreeBlock = 0, xBlockSize = of_nat n\<rparr>),
    xFreeBytesRemaining := xFreeBytesRemaining h + of_nat n\<rparr>"
  have l1: "links (hp_mem h1) ((s, 0, False) # pre @ (p, n, True) # suf) e"
  proof -
    note addr = head_distinct [OF rep'(1,7,8,9), where k = 0 and u = False]
    have "of_nat q \<noteq> (of_nat p :: u32)" if "(q, j, False) \<in> set ((s, 0, False) # bs)" for q j
      using distinct_addresses [OF addr(1), of p n True j False] that used addr(2) [of q] b(4) by (force simp: of_nat32_eq_iff)
    then have "links ((hp_mem h)(of_nat p := v)) ((s, 0, False) # bs) e" for v using rep'(5) by (subst links_upd_free) auto
    then show ?thesis using split by (simp add: h1_def)
  qed
  obtain m where m: "prvInsertBlockIntoFreeList (of_nat p) h1 = Some (h1\<lparr>hp_mem := m\<rparr>)" "links m ((s, 0, False) # bs') e"
    "\<And>x. x \<noteq> of_nat p \<Longrightarrow> x \<noteq> of_nat (last_free s pre) \<Longrightarrow> m x = hp_mem h1 x"
    using insert_block [OF rep'(1) [unfolded split] co l1 _ _ rep'(7,8) _ rep'(9)]
    unfolding bs'_def by (auto simp: h1_def size_of_def s_def e_def)
  define h' where "h' = h1\<lparr>hp_mem := m, xNumberOfSuccessfulFrees := xNumberOfSuccessfulFrees h + 1\<rparr>"
  have free: "vPortFree (of_nat (p + 8)) h = Some h'"
  proof -
    have "of_nat (p + 8) \<noteq> (0 :: u32)" using b by (intro of_nat_neq_0) auto
    then show ?thesis using m(1) hdr bit(1) top_bit(2,3) [OF b(1)]
      by (simp add: vPortFree_def size_of_def next_of_def set_size_def h1_def h'_def)
  qed
  have tf: "tiles (heap_base h) (pre @ (p, n, False) # suf) e" using rep'(1) unfolding split by (auto simp: tiles_append)
  have touches: "touches_free bs' h h'"
  proof -
    have "x = xStart h \<or> (\<exists>q j. (q, j, False) \<in> set bs' \<and> q \<le> unat x \<and> unat x < q + j)" if "hp_mem h' x \<noteq> hp_mem h x" for x
    proof -
      have "x = of_nat p \<or> x = of_nat (last_free s pre)" using m(3) [of x] that by (auto simp: h'_def h1_def)
      then consider "x = xStart h" | q j where "(q, j, False) \<in> set (pre @ (p, n, False) # suf)" "x = of_nat q"
        using last_free_in [of s pre] by (cases "last_free s pre = s") (auto simp: s_def)
      then show ?thesis
      proof cases
        case (2 q j)
        have "unat x = q" "0 < j" using tiles_range [OF tf 2(1)] rep'(9) 2(2) unat_of_nat32 [of q] by auto
        then show ?thesis using coalesce_covers [OF tf 2(1)] unfolding bs'_def by fastforce
      qed simp
    qed
    then show ?thesis by (auto simp: touches_free_def h'_def h1_def)
  qed
  have area: "heap_area h bs'" using t'(1) rep'(8) by (simp add: heap_area_def s_def e_def)
  have "owned (hp_mem h) bs'" using rep'(6) unfolding owned_iff bs'_def split by (auto simp: coalesce_layout(4))
  then have "owned (hp_mem h') bs'" using touches_free_headers [OF area touches] by (auto simp: owned_def)
  moreover have sum: "unat (xFreeBytesRemaining h') = free_bytes bs'"
    using free_bytes_le [OF t'(1)] rep'(9) t'(3) bit(2) unat_of_nat32 [of n] b(1)
    by (simp add: h'_def h1_def unat_plus_if')
  moreover have "hp_mem h' (pxEnd h) = hp_mem h (pxEnd h)" by (rule touches_free_end [OF area touches])
  moreover have "xMinimumEverFreeBytesRemaining h' \<le> xFreeBytesRemaining h'"
    using rep sum t'(3) by (auto simp: heap_rep_def word_le_nat_alt h'_def h1_def)
  ultimately have "heap_rep h' bs'" using rep t'(1,2) m(2)
    by (auto simp: heap_rep_def heap_placed_def heap_base_def h'_def h1_def s_def e_def)
  then show ?thesis using free touches rel by (auto simp: h'_def h1_def)
qed

subsection \<open>Initialisation\<close>

definition heap_limit :: "heap4_t \<Rightarrow> nat" where
  "heap_limit h = (unat (ucHeap h) + 16376) div 8 * 8"

lemma link_upd:
  "b\<lparr>xBlockSize := n, pxNextFreeBlock := v\<rparr> = \<lparr>pxNextFreeBlock = v, xBlockSize = n\<rparr>"
  "b\<lparr>pxNextFreeBlock := v, xBlockSize := n\<rparr> = \<lparr>pxNextFreeBlock = v, xBlockSize = n\<rparr>"
  by (cases b, simp)+

lemma heap_init_rep:
  assumes "heap_placed h"
  shows "heap_rep (prvHeapInit h) [(heap_base h, heap_limit h - heap_base h, False)]"
    "ucHeap (prvHeapInit h) = ucHeap h" "xStart (prvHeapInit h) = xStart h" "pxEnd (prvHeapInit h) = of_nat (heap_limit h)"
proof -
  define u a e where "u = unat (ucHeap h)" and "a = heap_base h" and "e = heap_limit h"
  have uc: "ucHeap h = of_nat u" "0 < u" "u + 16384 < 2 ^ 32" using assms by (auto simp: u_def heap_placed_def word_less_nat_alt)
  have ae: "a = (u + 7) div 8 * 8" "e = (u + 16376) div 8 * 8" by (simp_all add: a_def e_def heap_base_def heap_limit_def u_def)
  have b: "u \<le> a" "a \<le> u + 7" "a + 16 \<le> e" "e + 8 \<le> u + 16384" "8 dvd e - a" unfolding ae by (auto simp: dvd_diff_nat)
  have aligned: "(of_nat u AND 7 \<noteq> (0 :: u32)) \<longleftrightarrow> u mod 8 \<noteq> 0" using of_nat32_eq_iff [of "u mod 8" 0] by (simp add: and_7)
  have start: "(if of_nat u AND 7 \<noteq> (0 :: u32) then let a = (of_nat u + (8 - 1)) AND NOT 7 in (a, 16384 - (a - of_nat u)) else (of_nat u, 16384))
      = (of_nat a, of_nat (u + 16384 - a) :: u32)"
  proof (cases "u mod 8 = 0")
    case True
    then have "a = u" unfolding ae by auto
    then show ?thesis using True aligned by simp
  next
    case False
    have "(of_nat u + (8 - 1)) AND NOT 7 = (of_nat a :: u32)" using and_not_7 [of "u + 7"] by (simp add: ae(1))
    moreover have "16384 - (of_nat a - of_nat u) = (of_nat (u + 16384 - a) :: u32)" using b by (simp add: of_nat_diff)
    ultimately show ?thesis using False aligned by (simp add: Let_def)
  qed
  have limit: "(of_nat a + of_nat (u + 16384 - a) - 8) AND NOT 7 = (of_nat e :: u32)"
  proof -
    have "of_nat a + of_nat (u + 16384 - a) - 8 = (of_nat (u + 16376) :: u32)" using b by (simp add: of_nat_diff)
    then show ?thesis unfolding ae(2) by (simp only: and_not_7)
  qed
  have ne: "xStart h \<noteq> of_nat a" "xStart h \<noteq> of_nat e" "of_nat a \<noteq> (of_nat e :: u32)"
    using assms b uc(3) unat_of_nat32 [of a] unat_of_nat32 [of e] by (auto simp: heap_placed_def u_def of_nat32_eq_iff)
  have init: "prvHeapInit h = h\<lparr>hp_mem := (hp_mem h)(xStart h := \<lparr>pxNextFreeBlock = of_nat a, xBlockSize = 0\<rparr>,
      of_nat e := \<lparr>pxNextFreeBlock = 0, xBlockSize = 0\<rparr>, of_nat a := \<lparr>pxNextFreeBlock = of_nat e, xBlockSize = of_nat (e - a)\<rparr>),
      pxEnd := of_nat e, xMinimumEverFreeBytesRemaining := of_nat (e - a), xFreeBytesRemaining := of_nat (e - a),
      xBlockAllocatedBit := 0x80000000\<rparr>"
    using start limit ne b(3) unfolding prvHeapInit_def uc(1) configTOTAL_HEAP_SIZE_def portBYTE_ALIGNMENT_def portBYTE_ALIGNMENT_MASK_def
      struct_sizes by (simp add: set_next_def set_size_def size_of_def Let_def of_nat_diff fun_upd_twist link_upd)
  have hb: "heap_base (prvHeapInit h) = a" by (simp add: init a_def heap_base_def)
  show "heap_rep (prvHeapInit h) [(heap_base h, heap_limit h - heap_base h, False)]"
  proof -
    have "unat (of_nat e :: u32) = e" "unat (of_nat (e - a) :: u32) = e - a" by (rule unat_of_nat32, use b uc(3) in linarith)+
    then show ?thesis using assms b ne unfolding heap_rep_def hb a_def [symmetric] e_def [symmetric]
      by (simp add: init heap_placed_def owned_def free_bytes_def u_def)
  qed
  show "ucHeap (prvHeapInit h) = ucHeap h" "xStart (prvHeapInit h) = xStart h" "pxEnd (prvHeapInit h) = of_nat (heap_limit h)"
    unfolding init by (simp_all add: e_def)
qed

end
