(* ===== verification/HeapUse.thy ===== *)
theory HeapUse
  imports Heap4
begin

text \<open>
  The allocator in use: every sequence of allocations, releases and stores into the blocks handed
  out. \<open>L\<close> maps the pointers the application holds to the sizes it asked for.
\<close>

inductive heap_reach :: "heap4_t \<Rightarrow> (u32 \<rightharpoonup> nat) \<Rightarrow> bool" where
  heap_start: "heap_placed h \<Longrightarrow> pxEnd h = 0 \<Longrightarrow> heap_reach h Map.empty"
| heap_malloc: "heap_reach h L \<Longrightarrow> pvPortMalloc w h = Some (r, h') \<Longrightarrow>
    heap_reach h' (if r = 0 then L else L(r \<mapsto> unat w))"
| heap_free: "heap_reach h L \<Longrightarrow> r \<in> dom L \<Longrightarrow> vPortFree r h = Some h' \<Longrightarrow> heap_reach h' (L(r := None))"
| heap_store: "heap_reach h L \<Longrightarrow> L r = Some w \<Longrightarrow> unat r \<le> unat x \<Longrightarrow> unat x < unat r + w \<Longrightarrow> 8 dvd unat x \<Longrightarrow>
    heap_reach (h\<lparr>hp_mem := (hp_mem h)(x := v)\<rparr>) L"

definition live :: "block list \<Rightarrow> (u32 \<rightharpoonup> nat) \<Rightarrow> bool" where
  "live bs L \<longleftrightarrow> (\<forall>r. r \<in> dom L \<longleftrightarrow> (\<exists>p n. (p, n, True) \<in> set bs \<and> r = of_nat (p + 8))) \<and>
     (\<forall>p n w. (p, n, True) \<in> set bs \<longrightarrow> L (of_nat (p + 8)) = Some w \<longrightarrow> w + 8 \<le> n)"

text \<open>Before the first allocation the list head and the end marker are not set up.\<close>

definition heap_inv :: "heap4_t \<Rightarrow> (u32 \<rightharpoonup> nat) \<Rightarrow> bool" where
  "heap_inv h L \<longleftrightarrow> heap_placed h \<and> pxEnd h = 0 \<and> L = Map.empty \<or>
     (\<exists>bs. heap_rep h bs \<and> live bs L \<and> pxEnd h = of_nat (heap_limit h))"

lemma rep_initialised: "heap_rep h bs \<Longrightarrow> pxEnd h \<noteq> 0"
  using tiles_le [OF heap_repD(1)] heap_repD(4) by (metis not_le unat_0)

lemma malloc_initialises:
  assumes "heap_placed h" "pxEnd h = 0"
  shows "pvPortMalloc w h = pvPortMalloc w (prvHeapInit h)"
  using rep_initialised [OF heap_init_rep(1) [OF assms(1)]] assms(2) by (simp add: pvPortMalloc_def)

text \<open>Every state is, for the next allocation, one with a layout.\<close>

lemma heap_inv_layout:
  assumes "heap_inv h L"
  obtains h' bs where "heap_rep h' bs" "live bs L" "pxEnd h' = of_nat (heap_limit h')" "ucHeap h' = ucHeap h" "xStart h' = xStart h"
    "\<And>w. pvPortMalloc w h = pvPortMalloc w h'" "L \<noteq> Map.empty \<or> pxEnd h \<noteq> 0 \<Longrightarrow> h' = h"
proof (cases "heap_placed h \<and> pxEnd h = 0 \<and> L = Map.empty")
  case True
  then show ?thesis using that [of "prvHeapInit h" "[(heap_base h, heap_limit h - heap_base h, False)]"]
      heap_init_rep [of h] malloc_initialises [of h] by (auto simp: live_def heap_limit_def)
next
  case False
  then show ?thesis using assms that [of h] by (auto simp: heap_inv_def)
qed

lemma live_pointer:
  assumes "heap_rep h bs" "(p, n, u) \<in> set bs"
  shows "unat (of_nat (p + 8) :: u32) = p + 8"
  using block_bound(1) [OF assms] block_bound(4) [OF assms] assms(1) unat_of_nat32 [of "p + 8"] by (auto simp: heap_rep_def heap_placed_def)

lemma live_inject:
  assumes "heap_rep h bs" "(p, n, u) \<in> set bs" "(q, k, v) \<in> set bs" "(of_nat (p + 8) :: u32) = of_nat (q + 8)"
  shows "p = q" "n = k" "u = v"
proof -
  show "p = q" using live_pointer [OF assms(1,2)] live_pointer [OF assms(1,3)] assms(4) by (metis add_right_cancel)
  then show "n = k" "u = v"
    using distinct_addresses [OF tiles_addresses(1) [OF heap_repD(1) [OF assms(1)]] assms(2)] assms(3) by auto
qed

lemma live_malloc:
  assumes rep: "heap_rep h bs" "heap_rep h' bs'" and "live bs L" and r: "malloc_layout w bs = Some (p, bs')"
  shows "live bs' (L(of_nat (p + 8) \<mapsto> w))" "of_nat (p + 8) \<notin> dom L" "of_nat (p + 8) \<noteq> (0 :: u32)"
proof -
  obtain us n vs where bs: "bs = us @ (p, n, False) # vs" "block_need w \<le> n" "bs' = us @ taken (block_need w) p n @ vs"
    using alloc_block_split [of "block_need w" bs p bs'] r by (auto simp: malloc_layout_def taken_def split: if_splits)
  have w: "w + 8 \<le> block_need w" by (rule block_need_bounds)
  define B where "B = (if n - block_need w > 16 then block_need w else n)"
  have set: "(q, k, True) \<in> set bs' \<longleftrightarrow> (q, k, True) \<in> set bs \<or> q = p \<and> k = B" for q k
    by (auto simp: bs B_def taken_def)
  have B: "w + 8 \<le> B" using bs(2) w by (auto simp: B_def)
  have p: "(p, n, False) \<in> set bs" by (simp add: bs)
  have other: "of_nat (q + 8) \<noteq> (of_nat (p + 8) :: u32)" if "(q, k, True) \<in> set bs" for q k
    using live_inject(3) [OF rep(1) that p] by blast
  show "of_nat (p + 8) \<noteq> (0 :: u32)" using live_pointer [OF rep(1) p] by (metis add_is_0 unat_0 zero_neq_numeral)
  show "of_nat (p + 8) \<notin> dom L" using \<open>live bs L\<close> other unfolding live_def by metis
  show "live bs' (L(of_nat (p + 8) \<mapsto> w))"
    unfolding live_def
  proof (intro conjI allI impI)
    show "r \<in> dom (L(of_nat (p + 8) \<mapsto> w)) \<longleftrightarrow> (\<exists>q k. (q, k, True) \<in> set bs' \<and> r = of_nat (q + 8))" for r
      using \<open>live bs L\<close> unfolding live_def set by (simp del: of_nat_add) blast
    show "v + 8 \<le> k" if "(q, k, True) \<in> set bs'" "(L(of_nat (p + 8) \<mapsto> w)) (of_nat (q + 8)) = Some v" for q k v
      using that \<open>live bs L\<close> other B unfolding live_def set by (auto simp del: of_nat_add split: if_splits)
  qed
qed

lemma live_release:
  assumes rep: "heap_rep h bs" and "live bs L" and p: "(p, n, True) \<in> set bs"
  shows "live (release_block p bs) (L(of_nat (p + 8) := None))"
proof -
  have set: "(q, k, True) \<in> set (release_block p bs) \<longleftrightarrow> (q, k, True) \<in> set bs \<and> q \<noteq> p" for q k
    unfolding release_block_def coalesce_layout(4) by (auto intro: rev_image_eqI)
  have other: "of_nat (q + 8) = (of_nat (p + 8) :: u32) \<longleftrightarrow> q = p" if "(q, k, True) \<in> set bs" for q k
    using live_inject(1) [OF rep that p] by blast
  show ?thesis unfolding live_def
  proof (intro conjI allI impI)
    show "r \<in> dom (L(of_nat (p + 8) := None)) \<longleftrightarrow> (\<exists>q k. (q, k, True) \<in> set (release_block p bs) \<and> r = of_nat (q + 8))" for r
      using \<open>live bs L\<close> other unfolding live_def set by (simp del: of_nat_add) metis
    show "v + 8 \<le> k" if "(q, k, True) \<in> set (release_block p bs)" "(L(of_nat (p + 8) := None)) (of_nat (q + 8)) = Some v" for q k v
      using that \<open>live bs L\<close> unfolding live_def set by (auto simp del: of_nat_add split: if_splits)
  qed
qed

text \<open>A store into a block in use leaves every header alone.\<close>

lemma store_rep:
  assumes rep: "heap_rep h bs" and p: "(p, n, True) \<in> set bs" and x: "p + 8 \<le> unat x" "unat x < p + n"
  shows "heap_rep (h\<lparr>hp_mem := (hp_mem h)(x := v)\<rparr>) bs"
proof -
  define s e where "s = unat (xStart h)" and "e = unat (pxEnd h)"
  note rep' = heap_repD [OF rep, folded s_def e_def]
  have off: "x \<noteq> of_nat q" if q: "(q, k, u) \<in> set bs" for q k u
  proof -
    have "unat x \<noteq> q" using tiles_disjoint [OF rep'(1) p q] tiles_range [OF rep'(1) q] x by (cases "p = q") auto
    moreover have "q < 2 ^ 32" using tiles_range [OF rep'(1) q] rep'(9) by simp
    ultimately show ?thesis by (metis unat_of_nat32)
  qed
  have start: "x \<noteq> of_nat s" "x \<noteq> pxEnd h"
    using tiles_range [OF rep'(1) p] rep'(8) x by (auto simp: s_def e_def)
  have "links ((hp_mem h)(x := v)) ((s, 0, False) # bs) e" using rep'(5) off start by (subst links_upd_free) auto
  moreover have "owned ((hp_mem h)(x := v)) bs" using rep'(6) off unfolding owned_iff by (metis fun_upd_other)
  ultimately show ?thesis using rep start(2) by (simp add: heap_rep_def heap_placed_def heap_base_def s_def e_def)
qed

lemma heap_limit_cong: "ucHeap h' = ucHeap h \<Longrightarrow> heap_limit h' = heap_limit h"
  by (simp add: heap_limit_def)

lemma malloc_step:
  assumes rep: "heap_rep h bs" "live bs L" "pxEnd h = of_nat (heap_limit h)" and m: "pvPortMalloc w h = Some (r, h')"
  shows "heap_inv h' (if r = 0 then L else L(r \<mapsto> unat w))" "r \<noteq> 0 \<Longrightarrow> r \<notin> dom L"
proof -
  note out = malloc_refines [OF rep(1), of w, unfolded m returns_simps]
  have "heap_inv h' (if r = 0 then L else L(r \<mapsto> unat w)) \<and> (r \<noteq> 0 \<longrightarrow> r \<notin> dom L)"
  proof (cases "malloc_layout (unat w) bs")
    case None
    then show ?thesis using out rep by (auto simp: heap_inv_def)
  next
    case (Some x)
    then obtain p bs' where x: "malloc_layout (unat w) bs = Some (p, bs')" by (cases x) auto
    then have h': "r = of_nat (p + 8)" "heap_rep h' bs'" "ucHeap h' = ucHeap h" "pxEnd h' = pxEnd h"
      using out by (simp_all add: touches_free_def)
    then show ?thesis using live_malloc [OF rep(1) h'(2) rep(2) x] rep(3) heap_limit_cong [OF h'(3)] by (auto simp: heap_inv_def)
  qed
  then show "heap_inv h' (if r = 0 then L else L(r \<mapsto> unat w))" "r \<noteq> 0 \<Longrightarrow> r \<notin> dom L" by auto
qed

lemma free_step:
  assumes rep: "heap_rep h bs" "live bs L" "pxEnd h = of_nat (heap_limit h)" and r: "r \<in> dom L"
  shows "\<exists>h'. vPortFree r h = Some h' \<and> heap_inv h' (L(r := None))"
proof -
  obtain p n where p: "(p, n, True) \<in> set bs" "r = of_nat (p + 8)" using rep(2) r by (auto simp: live_def)
  obtain h' where h': "vPortFree r h = Some h'" "heap_rep h' (release_block p bs)" "ucHeap h' = ucHeap h" "pxEnd h' = pxEnd h"
    using free_refines [OF rep(1) p(1)] p(2) by (auto simp: touches_free_def)
  then show ?thesis using live_release [OF rep(1,2) p(1)] p(2) rep(3) heap_limit_cong [OF h'(3)] by (auto simp: heap_inv_def)
qed

lemma live_block:
  assumes "heap_rep h bs" "live bs L" "L r = Some w"
  obtains p n where "(p, n, True) \<in> set bs" "unat r = p + 8" "w + 8 \<le> n"
  using assms live_pointer [OF assms(1)] by (auto simp: live_def domI) (metis domI)

lemma heap_reach_inv: "heap_reach h L \<Longrightarrow> heap_inv h L"
proof (induction rule: heap_reach.induct)
  case (heap_start h)
  then show ?case by (simp add: heap_inv_def)
next
  case (heap_malloc h L w r h')
  obtain g bs where g: "heap_rep g bs" "live bs L" "pxEnd g = of_nat (heap_limit g)" "\<And>w. pvPortMalloc w h = pvPortMalloc w g"
    by (rule heap_inv_layout [OF heap_malloc.IH]) blast
  then show ?case using malloc_step(1) [OF g(1-3)] heap_malloc.hyps(2) by simp
next
  case (heap_free h L r h')
  then obtain bs where "heap_rep h bs" "live bs L" "pxEnd h = of_nat (heap_limit h)" by (auto simp: heap_inv_def)
  from free_step [OF this heap_free.hyps(2)] show ?case using heap_free.hyps(3) by (metis option.inject)
next
  case (heap_store h L r w x v)
  then obtain bs where rep: "heap_rep h bs" "live bs L" "pxEnd h = of_nat (heap_limit h)" by (auto simp: heap_inv_def)
  obtain p n where p: "(p, n, True) \<in> set bs" "unat r = p + 8" "w + 8 \<le> n" by (rule live_block [OF rep(1,2) heap_store.hyps(2)])
  have "heap_rep (h\<lparr>hp_mem := (hp_mem h)(x := v)\<rparr>) bs" using store_rep [OF rep(1) p(1)] p(2,3) heap_store.hyps(3,4) by simp
  then show ?case using rep(2,3) by (auto simp: heap_inv_def heap_limit_def)
qed

subsection \<open>Properties\<close>

text \<open>C7: whatever sequence of allocations, releases and stores into its own blocks the application
  performs, the allocator stays usable and never hangs: the blocks it holds are aligned, lie inside
  the array and do not overlap, every further allocation and every release of a held block
  returns, and a successful allocation hands out a block that is not held.\<close>

theorem heap_blocks_disjoint:
  assumes "heap_reach h L"
  shows "(\<forall>r w. L r = Some w \<longrightarrow> 8 dvd unat r \<and> unat (ucHeap h) \<le> unat r \<and> unat r + w \<le> unat (ucHeap h) + 16384) \<and>
    (\<forall>r w r' w'. L r = Some w \<and> L r' = Some w' \<and> r \<noteq> r' \<longrightarrow> unat r + w \<le> unat r' \<or> unat r' + w' \<le> unat r) \<and>
    (\<forall>w. \<exists>r h'. pvPortMalloc w h = Some (r, h') \<and> (r \<noteq> 0 \<longrightarrow> r \<notin> dom L)) \<and> (\<forall>r \<in> dom L. \<exists>h'. vPortFree r h = Some h')"
proof -
  obtain g bs where g: "heap_rep g bs" "live bs L" "pxEnd g = of_nat (heap_limit g)" "ucHeap g = ucHeap h"
    "\<And>w. pvPortMalloc w h = pvPortMalloc w g" "L \<noteq> Map.empty \<or> pxEnd h \<noteq> 0 \<Longrightarrow> g = h"
    by (rule heap_inv_layout [OF heap_reach_inv [OF assms]]) blast
  have "8 dvd unat r \<and> unat (ucHeap h) \<le> unat r \<and> unat r + w \<le> unat (ucHeap h) + 16384" if "L r = Some w" for r w
  proof (rule live_block [OF g(1,2) that])
    fix p n assume p: "(p, n, True) \<in> set bs" "unat r = p + 8" "w + 8 \<le> n"
    then show ?thesis using block_bound [OF g(1) p(1)] g(4) by simp
  qed
  moreover have "unat r + w \<le> unat r' \<or> unat r' + w' \<le> unat r" if L: "L r = Some w" "L r' = Some w'" "r \<noteq> r'" for r w r' w'
  proof -
    obtain p n q k where "(p, n, True) \<in> set bs" "unat r = p + 8" "w + 8 \<le> n" "(q, k, True) \<in> set bs" "unat r' = q + 8" "w' + 8 \<le> k"
      using live_block [OF g(1,2) L(1)] live_block [OF g(1,2) L(2)] by metis
    moreover from this have "p \<noteq> q" using L(3) by (metis unsigned_word_eqI)
    ultimately show ?thesis using tiles_disjoint [OF heap_repD(1) [OF g(1)], of p n True q k True] by auto
  qed
  moreover have "\<exists>r h'. pvPortMalloc w h = Some (r, h') \<and> (r \<noteq> 0 \<longrightarrow> r \<notin> dom L)" for w
    using malloc_refines [OF g(1), of w] malloc_step(2) [OF g(1-3)] g(5) by (auto simp: returns_iff)
  moreover have "\<exists>h'. vPortFree r h = Some h'" if "r \<in> dom L" for r
    using free_step [OF g(1-3) that] g(6) that by auto
  ultimately show ?thesis by blast
qed

text \<open>A board for the concrete instances: the array at the start of the SRAM, the list head behind it.\<close>

definition sample_heap :: heap4_t where
  "sample_heap = heap4_boot 0x20000000 0x20004000 (\<lambda>_. \<lparr>pxNextFreeBlock = 0, xBlockSize = 0\<rparr>)"

lemma sample_heap_placed: "heap_placed sample_heap" "pxEnd sample_heap = 0" "heap_base sample_heap = 0x20000000"
    "heap_limit sample_heap = 0x20003FF8" "ucHeap sample_heap = 0x20000000"
  by (simp_all add: sample_heap_def heap4_boot_def heap_placed_def heap_base_def heap_limit_def)

lemma sample_malloc:
  obtains h' where "pvPortMalloc 100 sample_heap = Some (0x20000008, h')"
    "heap_rep h' [(0x20000000, 112, True), (0x20000070, 16264, False)]" "ucHeap h' = 0x20000000"
proof -
  note init = heap_init_rep [OF sample_heap_placed(1), unfolded sample_heap_placed]
  have "malloc_layout (unat (100 :: u32)) [(0x20000000, 0x20003FF8 - 0x20000000, False)] =
      Some (0x20000000, [(0x20000000, 112, True), (0x20000070, 16264, False)])"
    by (simp add: malloc_layout_def block_need_def)
  from malloc_refines [OF init(1), of 100, unfolded this]
  obtain h' where "pvPortMalloc 100 (prvHeapInit sample_heap) = Some (0x20000008, h')"
    "heap_rep h' [(0x20000000, 112, True), (0x20000070, 16264, False)]" "ucHeap h' = 0x20000000"
    using init(2) by (auto simp: returns_iff touches_free_def)
  then show ?thesis using that malloc_initialises [OF sample_heap_placed(1,2)] by simp
qed

theorem heap_blocks_disjoint_witness:
  "\<exists>h. pvPortMalloc 100 sample_heap = Some (0x20000008, h) \<and>
    (\<exists>r h'. pvPortMalloc 500 h = Some (r, h') \<and> r \<noteq> 0x20000008) \<and> (\<exists>h'. vPortFree 0x20000008 h = Some h')"
proof -
  obtain h where h: "pvPortMalloc 100 sample_heap = Some (0x20000008, h)" by (rule sample_malloc)
  have "heap_reach h [0x20000008 \<mapsto> 100]"
    using heap_malloc [OF heap_start [OF sample_heap_placed(1,2)] h] by simp
  note safe = heap_blocks_disjoint [OF this]
  then obtain r h' where "pvPortMalloc 500 h = Some (r, h')" "r \<noteq> 0 \<longrightarrow> r \<notin> dom [0x20000008 \<mapsto> 100 :: nat]" by blast
  then have "pvPortMalloc 500 h = Some (r, h') \<and> r \<noteq> 0x20000008" by auto
  moreover have "\<exists>h'. vPortFree 0x20000008 h = Some h'" using safe by simp
  ultimately show ?thesis using h by blast
qed

text \<open>C38: when every block has been released the heap is whole again, however the releases were
  ordered: all its bytes are counted free and a request for up to all of them succeeds.\<close>

theorem heap_defragments:
  assumes "heap_reach h Map.empty" "pxEnd h \<noteq> 0"
  shows "unat (xFreeBytesRemaining h) = heap_limit h - heap_base h \<and>
    (\<forall>w. 0 < w \<and> block_need (unat w) \<le> heap_limit h - heap_base h \<longrightarrow>
      (\<exists>h'. pvPortMalloc w h = Some (of_nat (heap_base h + 8), h')))"
proof -
  obtain bs where rep: "heap_rep h bs" "live bs Map.empty" "pxEnd h = of_nat (heap_limit h)"
    using heap_reach_inv [OF assms(1)] assms(2) by (auto simp: heap_inv_def)
  define a e where "a = heap_base h" and "e = heap_limit h"
  have e: "unat (pxEnd h) = e" "a + 16 \<le> e" "e < a + 2 ^ 31"
    using heap_repD(4) [OF rep(1)] rep(1,3) heap_base_bounds [of h] unat_of_nat32 [of e]
    by (auto simp: a_def e_def heap_limit_def heap_base_def heap_rep_def heap_placed_def)
  have "\<forall>b \<in> set bs. \<not> snd (snd b)" using rep(2) by (fastforce simp: live_def)
  moreover have "tiles a bs e" "coalesced bs" using heap_repD(1,2) [OF rep(1)] e(1) by (simp_all add: a_def)
  ultimately have bs: "bs = [(a, e - a, False)]"
  proof (cases bs)
    case (Cons b cs)
    with \<open>\<forall>b \<in> set bs. \<not> snd (snd b)\<close> \<open>coalesced bs\<close> have "cs = []" by (cases cs) auto
    then show ?thesis using Cons \<open>tiles a bs e\<close> \<open>\<forall>b \<in> set bs. \<not> snd (snd b)\<close> by (cases b) auto
  qed (use e(2) in simp)
  have "\<exists>h'. pvPortMalloc w h = Some (of_nat (a + 8), h')" if w: "0 < w" "block_need (unat w) \<le> e - a" for w
  proof -
    have "0 < unat w" "unat w < 2 ^ 31" using w block_need_bounds(1) [of "unat w"] e(3) by (auto simp: word_less_nat_alt)
    then obtain bs' where "malloc_layout (unat w) bs = Some (a, bs')" using w(2) by (simp add: malloc_layout_def bs)
    then show ?thesis using malloc_refines [OF rep(1), of w] by (auto simp: returns_iff)
  qed
  moreover have "unat (xFreeBytesRemaining h) = e - a" using rep(1) by (simp add: heap_rep_def bs free_bytes_def)
  ultimately show ?thesis by (simp add: a_def e_def)
qed

theorem heap_defragments_witness:
  "\<exists>h h'. pvPortMalloc 100 sample_heap = Some (0x20000008, h) \<and> vPortFree 0x20000008 h = Some h' \<and>
    unat (xFreeBytesRemaining h') = 16376 \<and> (\<exists>h''. pvPortMalloc 16368 h' = Some (0x20000008, h''))"
proof -
  obtain h where h: "pvPortMalloc 100 sample_heap = Some (0x20000008, h)"
    "heap_rep h [(0x20000000, 112, True), (0x20000070, 16264, False)]" "ucHeap h = 0x20000000" by (rule sample_malloc)
  have reach: "heap_reach h [0x20000008 \<mapsto> 100]"
    using heap_malloc [OF heap_start [OF sample_heap_placed(1,2)] h(1)] by simp
  obtain h' where h': "vPortFree 0x20000008 h = Some h'" "ucHeap h' = 0x20000000" "pxEnd h' \<noteq> 0"
    using free_refines [OF h(2), of "0x20000000" "112"] h(3) rep_initialised by (auto simp: touches_free_def)
  have "heap_reach h' Map.empty" using heap_free [OF reach _ h'(1)] by simp
  from heap_defragments [OF this h'(3)] have "unat (xFreeBytesRemaining h') = 16376"
    "\<exists>h''. pvPortMalloc 16368 h' = Some (0x20000008, h'')"
    using h'(2) by (auto simp: heap_limit_def heap_base_def block_need_def)
  then show ?thesis using h(1) h'(1) by blast
qed

end
