(* ===== verification/HeapStats.thy ===== *)
theory HeapStats
  imports HeapUse
begin

text \<open>
  The allocator's statistics: \<^verbatim>\<open>vPortGetHeapStats\<close> walks the free list; the two size queries that the
  gateway's diagnostics call.
\<close>

record HeapStats_t =
  xAvailableHeapSpaceInBytes :: u32
  xSizeOfLargestFreeBlockInBytes :: u32
  xSizeOfSmallestFreeBlockInBytes :: u32
  xNumberOfFreeBlocks :: u32
  xMinimumEverFreeBytes :: u32
  xSuccessfulAllocations :: u32
  xSuccessfulFrees :: u32

definition heap_free_size :: "heap4_t \<Rightarrow> u32" where
  "heap_free_size h = xFreeBytesRemaining h"

definition heap_minimum_ever_free_size :: "heap4_t \<Rightarrow> u32" where
  "heap_minimum_ever_free_size h = xMinimumEverFreeBytesRemaining h"

definition portMAX_DELAY :: u32 where "portMAX_DELAY = 0xffffffff"

partial_function (option) stats_loop :: "heap4_t \<Rightarrow> u32 \<Rightarrow> u32 \<Rightarrow> u32 \<Rightarrow> u32 \<Rightarrow> (u32 \<times> u32 \<times> u32) option" where
  "stats_loop h pxBlock xBlocks xMaxSize xMinSize =
     (let xBlocks = xBlocks + 1;
          xMaxSize = (if size_of h pxBlock > xMaxSize then size_of h pxBlock else xMaxSize);
          xMinSize = (if size_of h pxBlock < xMinSize then size_of h pxBlock else xMinSize);
          pxBlock = next_of h pxBlock
      in if pxBlock \<noteq> pxEnd h then stats_loop h pxBlock xBlocks xMaxSize xMinSize else Some (xBlocks, xMaxSize, xMinSize))"

definition stats_of :: "heap4_t \<Rightarrow> u32 \<times> u32 \<times> u32 \<Rightarrow> HeapStats_t" where
  "stats_of h = (\<lambda>(xBlocks, xMaxSize, xMinSize).
     \<lparr>xAvailableHeapSpaceInBytes = xFreeBytesRemaining h, xSizeOfLargestFreeBlockInBytes = xMaxSize,
      xSizeOfSmallestFreeBlockInBytes = xMinSize, xNumberOfFreeBlocks = xBlocks,
      xMinimumEverFreeBytes = xMinimumEverFreeBytesRemaining h,
      xSuccessfulAllocations = xNumberOfSuccessfulAllocations h, xSuccessfulFrees = xNumberOfSuccessfulFrees h\<rparr>)"

definition vPortGetHeapStats :: "heap4_t \<Rightarrow> HeapStats_t option" where
  "vPortGetHeapStats h =
     (let pxBlock = next_of h (xStart h)
      in map_option (stats_of h) (if pxBlock \<noteq> 0 then stats_loop h pxBlock 0 0 portMAX_DELAY else Some (0, 0, portMAX_DELAY)))"

subsection \<open>The walk\<close>

definition free_sizes :: "block list \<Rightarrow> nat list" where
  "free_sizes bs = map (fst \<circ> snd) (filter (\<lambda>b. \<not> snd (snd b)) bs)"

lemma free_sizes_simps [simp]:
  "free_sizes [] = []" "free_sizes ((p, n, u) # bs) = (if u then free_sizes bs else n # free_sizes bs)"
  by (simp_all add: free_sizes_def)

lemma free_sizes_Nil: "free_sizes bs = [] \<longleftrightarrow> (\<forall>b \<in> set bs. snd (snd b))"
  by (auto simp: free_sizes_def filter_empty_conv)

lemma free_bytes_sizes: "free_bytes bs = sum_list (free_sizes bs)"
  by (induction bs) (auto simp: free_bytes_def)

lemma next_free_end:
  "tiles a bs e \<Longrightarrow> next_free bs e = e \<longleftrightarrow> free_sizes bs = []"
proof (induction bs arbitrary: a)
  case (Cons b bs)
  obtain p n u where b: "b = (p, n, u)" by (cases b)
  show ?case using Cons tiles_le [of "a + n" bs e] by (auto simp: b)
qed simp

lemma stats_loop_walks:
  assumes "links (hp_mem h) bs e" "tiles a bs e" "pxEnd h = of_nat e" "e < 2 ^ 32" "free_sizes bs \<noteq> []" "M < 2 ^ 32" "N < 2 ^ 32"
  shows "stats_loop h (of_nat (next_free bs e)) (of_nat c) (of_nat M) (of_nat N) =
    Some (of_nat (c + length (free_sizes bs)), of_nat (fold max (free_sizes bs) M), of_nat (fold min (free_sizes bs) N))"
  using assms
proof (induction bs arbitrary: a c M N)
  case (Cons b bs)
  obtain p n u where b: "b = (p, n, u)" by (cases b)
  have t: "tiles (a + n) bs e" "p = a" using Cons.prems(2) by (auto simp: b)
  show ?case
  proof (cases u)
    case True
    then show ?thesis using Cons.IH [OF _ t(1)] Cons.prems by (simp add: b)
  next
    case False
    have n: "n < 2 ^ 32" using tiles_le [OF t(1)] Cons.prems(4) by simp
    have q: "next_free bs e < 2 ^ 32" using next_free_range [OF t(1)] Cons.prems(4) by simp
    have blk: "size_of h (of_nat p) = of_nat n" "next_of h (of_nat p) = of_nat (next_free bs e)"
      using Cons.prems(1) False by (simp_all add: b size_of_def next_of_def)
    have mm: "(if of_nat n > (of_nat M :: u32) then of_nat n else of_nat M) = (of_nat (max n M) :: u32)"
      "(if of_nat n < (of_nat N :: u32) then of_nat n else of_nat N) = (of_nat (min n N) :: u32)"
      using n Cons.prems(6,7) by (auto simp: word_less_nat_alt unat_of_nat32)
    have stop: "of_nat (next_free bs e) = pxEnd h \<longleftrightarrow> free_sizes bs = []"
      using next_free_end [OF t(1)] q Cons.prems(3,4) of_nat32_eq_iff by simp
    have step: "stats_loop h (of_nat p) (of_nat c) (of_nat M) (of_nat N) =
      (if free_sizes bs = [] then Some (of_nat c + 1, of_nat (max n M), of_nat (min n N))
       else stats_loop h (of_nat (next_free bs e)) (of_nat c + 1) (of_nat (max n M)) (of_nat (min n N)))"
      by (subst stats_loop.simps) (simp only: Let_def blk mm stop, simp)
    have "max n M < 2 ^ 32" "min n N < 2 ^ 32" using n Cons.prems(6,7) by auto
    then show ?thesis using Cons.IH [OF _ t(1) Cons.prems(3,4), of "max n M" "min n N" "Suc c"] Cons.prems(1) False step
      by (simp add: b add.commute)
  qed
qed simp

lemma fold_max_Max: "xs \<noteq> [] \<Longrightarrow> fold max xs (0 :: nat) = Max (set xs)"
  using Max.set_eq_fold [of 0 xs] Max_insert [of "set xs" 0] by simp

lemma fold_min_Min: "xs \<noteq> [] \<Longrightarrow> \<forall>x \<in> set xs. x \<le> (k :: nat) \<Longrightarrow> fold min xs k = Min (set xs)"
  using Min.set_eq_fold [of k xs] Min_insert [of "set xs" k] Min_in [of "set xs"] by (simp add: min.absorb2)

text \<open>C39: while a free block exists the statistics are exact: the number of free blocks, the
  largest and the smallest of them and the free bytes. On a full heap the walk starts at the end marker and,
  because it tests for the end only after a step, follows the marker's null pointer: it goes on
  with the word at address 0 as a block.\<close>

theorem heap_stats_exact:
  assumes "heap_rep h bs"
  defines "fs \<equiv> free_sizes bs"
  shows "(fs \<noteq> [] \<longrightarrow> vPortGetHeapStats h = Some (stats_of h (of_nat (length fs), of_nat (Max (set fs)), of_nat (Min (set fs)))) \<and>
      unat (xFreeBytesRemaining h) = sum_list fs) \<and>
    (fs = [] \<longrightarrow> vPortGetHeapStats h = map_option (stats_of h) (stats_loop h 0 1 0 0))"
proof -
  define e where "e = unat (pxEnd h)"
  note rep = heap_repD [OF assms(1), folded e_def]
  have e: "e < 2 ^ 32" "pxEnd h = of_nat e" using rep(9) by (simp_all add: e_def)
  have links: "links (hp_mem h) bs e" "next_of h (xStart h) = of_nat (next_free bs e)"
    using assms(1) by (simp_all add: heap_rep_def e_def next_of_def)
  have "0 < next_free bs e" "next_free bs e < 2 ^ 32"
    using next_free_range [OF rep(1)] heap_base_bounds [of h] assms(1) e(1) by (auto simp: heap_rep_def)
  then have start: "next_of h (xStart h) \<noteq> 0" using of_nat32_eq_iff [of "next_free bs e" 0] links(2) by simp
  have full: "vPortGetHeapStats h = map_option (stats_of h) (stats_loop h 0 1 0 0)" if "fs = []"
  proof -
    have "next_of h (xStart h) = pxEnd h" using that next_free_end [OF rep(1)] links(2) e(2) by (simp add: fs_def)
    moreover have "size_of h (pxEnd h) = 0" "next_of h (pxEnd h) = 0" using assms(1) by (simp_all add: heap_rep_def size_of_def next_of_def)
    moreover have "pxEnd h \<noteq> 0" by (rule rep_initialised [OF assms(1)])
    ultimately show ?thesis using start by (simp add: vPortGetHeapStats_def stats_loop.simps [of h "pxEnd h"] portMAX_DELAY_def)
  qed
  have "\<forall>n \<in> set fs. n < 2 ^ 32"
    using block_bound(2) [OF assms(1)] by (force simp: fs_def free_sizes_def)
  then have "fold min fs 0xffffffff = Min (set fs)" if "fs \<noteq> []" using that fold_min_Min [of fs "0xffffffff"] by fastforce
  then have "vPortGetHeapStats h = Some (stats_of h (of_nat (length fs), of_nat (Max (set fs)), of_nat (Min (set fs))))" if "fs \<noteq> []"
    using stats_loop_walks [OF links(1) rep(1) e(2,1), of 0 "0xffffffff" 0] that start
    by (simp add: vPortGetHeapStats_def links(2) fs_def fold_max_Max portMAX_DELAY_def)
  moreover have "free_bytes bs = sum_list fs" by (simp add: fs_def free_bytes_sizes)
  ultimately show ?thesis using full assms(1) by (simp add: heap_rep_def)
qed

theorem heap_stats_exact_witness:
  "\<exists>h. pvPortMalloc 100 sample_heap = Some (0x20000008, h) \<and>
    vPortGetHeapStats h = Some (stats_of h (1, 16264, 16264)) \<and> xFreeBytesRemaining h = 16264"
proof -
  obtain h where h: "pvPortMalloc 100 sample_heap = Some (0x20000008, h)"
    "heap_rep h [(0x20000000, 112, True), (0x20000070, 16264, False)]" by (rule sample_malloc)
  from heap_stats_exact [OF h(2)] show ?thesis using h(1) by (auto simp: word_unat_eq_iff)
qed

end
