(* ===== verification/GwConfig.thy ===== *)
theory GwConfig
  imports Prelude
begin

text \<open>
  The preprocessor constants of the gateway (\<^verbatim>\<open>main.c\<close> of \<^verbatim>\<open>g474_gateway\<close>), in the order of
  the source: RS-422 task events and timeouts, queue depths, W5500 register addresses, control
  bytes, socket commands and states, and the TCP and UDP service parameters. Counts that only
  bound loops or arrays are naturals; everything that enters arithmetic has its C width.
\<close>

definition RS422_BRINGUP_TEST_COUNT :: u32 where [simp]: "RS422_BRINGUP_TEST_COUNT = 100"
definition RS422_BRINGUP_TX_TIMEOUT_MS :: u32 where [simp]: "RS422_BRINGUP_TX_TIMEOUT_MS = 100"
definition RS422_BRINGUP_PONG_TIMEOUT_MS :: u32 where [simp]: "RS422_BRINGUP_PONG_TIMEOUT_MS = 1000"
definition RS422_BRINGUP_INTER_TEST_DELAY_MS :: u32 where [simp]: "RS422_BRINGUP_INTER_TEST_DELAY_MS = 20"
definition RS422_EVENT_RX :: u32 where [simp]: "RS422_EVENT_RX = 1"
definition RS422_EVENT_TX_DONE :: u32 where [simp]: "RS422_EVENT_TX_DONE = 2"
definition RS422_EVENT_CMD_READY :: u32 where [simp]: "RS422_EVENT_CMD_READY = 4"
definition RS422_EVENT_TCP_CONTEXT_RESET :: u32 where [simp]: "RS422_EVENT_TCP_CONTEXT_RESET = 8"
definition RS422_EVENT_MASK :: u32 where [simp]: 
  "RS422_EVENT_MASK = RS422_EVENT_RX OR RS422_EVENT_TX_DONE OR RS422_EVENT_CMD_READY OR RS422_EVENT_TCP_CONTEXT_RESET"
definition RS422_RX_RING_CAPACITY :: u16 where [simp]: "RS422_RX_RING_CAPACITY = 512"
definition RS422_RX_RING_MASK :: u16 where [simp]: "RS422_RX_RING_MASK = RS422_RX_RING_CAPACITY - 1"
definition RS422_CMD_QUEUE_DEPTH :: nat where [simp]: "RS422_CMD_QUEUE_DEPTH = 8"
definition TCP_RESPONSE_QUEUE_DEPTH :: nat where [simp]: "TCP_RESPONSE_QUEUE_DEPTH = 8"
definition UDP_TELEMETRY_QUEUE_DEPTH :: nat where [simp]: "UDP_TELEMETRY_QUEUE_DEPTH = 4"
definition HEALTH_TASK_PERIOD_MS :: u32 where [simp]: "HEALTH_TASK_PERIOD_MS = 100"
definition RS422_COMM_TIMEOUT_MS :: u32 where [simp]: "RS422_COMM_TIMEOUT_MS = 1500"
definition W5500_RESET_DELAY_MS :: u32 where [simp]: "W5500_RESET_DELAY_MS = 2"
definition W5500_SPI_TIMEOUT_MS :: u32 where [simp]: "W5500_SPI_TIMEOUT_MS = 100"
definition W5500_VERSIONR_ADDRESS :: u16 where [simp]: "W5500_VERSIONR_ADDRESS = 0x0039"
definition W5500_PHYCFGR_ADDRESS :: u16 where [simp]: "W5500_PHYCFGR_ADDRESS = 0x002e"
definition W5500_PHYCFGR_LNK :: u8 where [simp]: "W5500_PHYCFGR_LNK = 0x01"
definition W5500_PHY_POLL_PERIOD_MS :: u32 where [simp]: "W5500_PHY_POLL_PERIOD_MS = 100"
definition W5500_DATA_SERVICE_PERIOD_MS :: u32 where [simp]: "W5500_DATA_SERVICE_PERIOD_MS = 1"
definition ETHERNET_EVENT_TCP_RESPONSE_READY :: u32 where [simp]: "ETHERNET_EVENT_TCP_RESPONSE_READY = 1"
definition ETHERNET_EVENT_MASK :: u32 where [simp]: "ETHERNET_EVENT_MASK = ETHERNET_EVENT_TCP_RESPONSE_READY"
definition DIAG_TIMESTAMP_NOT_CAPTURED_MS :: u32 where [simp]: "DIAG_TIMESTAMP_NOT_CAPTURED_MS = 0xFFFFFFFF"
definition W5500_GAR_ADDRESS :: u16 where [simp]: "W5500_GAR_ADDRESS = 0x0001"
definition W5500_SUBR_ADDRESS :: u16 where [simp]: "W5500_SUBR_ADDRESS = 0x0005"
definition W5500_SHAR_ADDRESS :: u16 where [simp]: "W5500_SHAR_ADDRESS = 0x0009"
definition W5500_SIPR_ADDRESS :: u16 where [simp]: "W5500_SIPR_ADDRESS = 0x000f"
definition W5500_GAR_LENGTH :: nat where [simp]: "W5500_GAR_LENGTH = 4"
definition W5500_SUBR_LENGTH :: nat where [simp]: "W5500_SUBR_LENGTH = 4"
definition W5500_SHAR_LENGTH :: nat where [simp]: "W5500_SHAR_LENGTH = 6"
definition W5500_SIPR_LENGTH :: nat where [simp]: "W5500_SIPR_LENGTH = 4"
definition W5500_NET_MAX_REGISTER_LENGTH :: nat where [simp]: "W5500_NET_MAX_REGISTER_LENGTH = W5500_SHAR_LENGTH"
definition W5500_COMMON_HEADER_LENGTH :: nat where [simp]: "W5500_COMMON_HEADER_LENGTH = 3"
definition W5500_COMMON_READ_VDM :: u8 where [simp]: "W5500_COMMON_READ_VDM = 0x00"
definition W5500_COMMON_WRITE_VDM :: u8 where [simp]: "W5500_COMMON_WRITE_VDM = 0x04"
definition W5500_SOCKET0_READ_VDM :: u8 where [simp]: "W5500_SOCKET0_READ_VDM = 0x08"
definition W5500_SOCKET0_WRITE_VDM :: u8 where [simp]: "W5500_SOCKET0_WRITE_VDM = 0x0c"
definition W5500_SOCKET0_MR_ADDRESS :: u16 where [simp]: "W5500_SOCKET0_MR_ADDRESS = 0x0000"
definition W5500_SOCKET0_CR_ADDRESS :: u16 where [simp]: "W5500_SOCKET0_CR_ADDRESS = 0x0001"
definition W5500_SOCKET0_IR_ADDRESS :: u16 where [simp]: "W5500_SOCKET0_IR_ADDRESS = 0x0002"
definition W5500_SOCKET0_SR_ADDRESS :: u16 where [simp]: "W5500_SOCKET0_SR_ADDRESS = 0x0003"
definition W5500_SOCKET0_PORT_ADDRESS :: u16 where [simp]: "W5500_SOCKET0_PORT_ADDRESS = 0x0004"
definition W5500_SOCKET0_TX_FSR_ADDRESS :: u16 where [simp]: "W5500_SOCKET0_TX_FSR_ADDRESS = 0x0020"
definition W5500_SOCKET0_TX_WR_ADDRESS :: u16 where [simp]: "W5500_SOCKET0_TX_WR_ADDRESS = 0x0024"
definition W5500_SOCKET0_RX_RSR_ADDRESS :: u16 where [simp]: "W5500_SOCKET0_RX_RSR_ADDRESS = 0x0026"
definition W5500_SOCKET0_RX_RD_ADDRESS :: u16 where [simp]: "W5500_SOCKET0_RX_RD_ADDRESS = 0x0028"
definition W5500_SOCKET0_MAX_DATA_LENGTH :: nat where [simp]: "W5500_SOCKET0_MAX_DATA_LENGTH = 2"
definition W5500_SOCKET0_TX_BUFFER_WRITE_VDM :: u8 where [simp]: "W5500_SOCKET0_TX_BUFFER_WRITE_VDM = 0x14"
definition W5500_SOCKET0_RX_BUFFER_READ_VDM :: u8 where [simp]: "W5500_SOCKET0_RX_BUFFER_READ_VDM = 0x18"
definition W5500_SOCKET0_TCP_MODE :: u8 where [simp]: "W5500_SOCKET0_TCP_MODE = 0x01"
definition W5500_SOCKET0_OPEN_COMMAND :: u8 where [simp]: "W5500_SOCKET0_OPEN_COMMAND = 0x01"
definition W5500_SOCKET0_LISTEN_COMMAND :: u8 where [simp]: "W5500_SOCKET0_LISTEN_COMMAND = 0x02"
definition W5500_SOCKET0_DISCON_COMMAND :: u8 where [simp]: "W5500_SOCKET0_DISCON_COMMAND = 0x08"
definition W5500_SOCKET0_CLOSE_COMMAND :: u8 where [simp]: "W5500_SOCKET0_CLOSE_COMMAND = 0x10"
definition W5500_SOCKET0_SEND_COMMAND :: u8 where [simp]: "W5500_SOCKET0_SEND_COMMAND = 0x20"
definition W5500_SOCKET0_RECV_COMMAND :: u8 where [simp]: "W5500_SOCKET0_RECV_COMMAND = 0x40"
definition W5500_SOCKET0_IR_SEND_OK :: u8 where [simp]: "W5500_SOCKET0_IR_SEND_OK = 0x10"
definition W5500_SOCKET0_IR_TIMEOUT :: u8 where [simp]: "W5500_SOCKET0_IR_TIMEOUT = 0x08"
definition W5500_SOCKET0_STATUS_CLOSED :: u8 where [simp]: "W5500_SOCKET0_STATUS_CLOSED = 0x00"
definition W5500_SOCKET0_STATUS_INIT :: u8 where [simp]: "W5500_SOCKET0_STATUS_INIT = 0x13"
definition W5500_SOCKET0_STATUS_LISTEN :: u8 where [simp]: "W5500_SOCKET0_STATUS_LISTEN = 0x14"
definition W5500_SOCKET0_STATUS_SYNSENT :: u8 where [simp]: "W5500_SOCKET0_STATUS_SYNSENT = 0x15"
definition W5500_SOCKET0_STATUS_SYNRECV :: u8 where [simp]: "W5500_SOCKET0_STATUS_SYNRECV = 0x16"
definition W5500_SOCKET0_STATUS_ESTABLISHED :: u8 where [simp]: "W5500_SOCKET0_STATUS_ESTABLISHED = 0x17"
definition W5500_SOCKET0_STATUS_FIN_WAIT :: u8 where [simp]: "W5500_SOCKET0_STATUS_FIN_WAIT = 0x18"
definition W5500_SOCKET0_STATUS_CLOSING :: u8 where [simp]: "W5500_SOCKET0_STATUS_CLOSING = 0x1a"
definition W5500_SOCKET0_STATUS_TIME_WAIT :: u8 where [simp]: "W5500_SOCKET0_STATUS_TIME_WAIT = 0x1b"
definition W5500_SOCKET0_STATUS_CLOSE_WAIT :: u8 where [simp]: "W5500_SOCKET0_STATUS_CLOSE_WAIT = 0x1c"
definition W5500_SOCKET0_STATUS_LAST_ACK :: u8 where [simp]: "W5500_SOCKET0_STATUS_LAST_ACK = 0x1d"
definition W5500_TCP_SERVER_PORT :: u16 where [simp]: "W5500_TCP_SERVER_PORT = 5000"
definition W5500_SOCKET_STATE_TIMEOUT_MS :: u32 where [simp]: "W5500_SOCKET_STATE_TIMEOUT_MS = 1000"
definition W5500_SOCKET_STATE_POLL_MS :: u32 where [simp]: "W5500_SOCKET_STATE_POLL_MS = 10"
definition W5500_TCP_TRANSIENT_TIMEOUT_MS :: u32 where [simp]: "W5500_TCP_TRANSIENT_TIMEOUT_MS = 3000"
definition W5500_TCP_RECOVERY_RETRY_MS :: u32 where [simp]: "W5500_TCP_RECOVERY_RETRY_MS = 500"
definition W5500_TCP_STABLE_READ_ATTEMPTS :: nat where [simp]: "W5500_TCP_STABLE_READ_ATTEMPTS = 8"
definition W5500_TCP_RX_CHUNK_SIZE :: nat where [simp]: "W5500_TCP_RX_CHUNK_SIZE = 64"
definition W5500_TCP_TX_FREE_TIMEOUT_MS :: u32 where [simp]: "W5500_TCP_TX_FREE_TIMEOUT_MS = 1000"
definition W5500_TCP_SEND_TIMEOUT_MS :: u32 where [simp]: "W5500_TCP_SEND_TIMEOUT_MS = 1000"
definition W5500_TCP_IO_POLL_MS :: u32 where [simp]: "W5500_TCP_IO_POLL_MS = 10"
definition W5500_SOCKET_COMMAND_TIMEOUT_MS :: u32 where [simp]: "W5500_SOCKET_COMMAND_TIMEOUT_MS = 100"
definition W5500_SOCKET_COMMAND_POLL_MS :: u32 where [simp]: "W5500_SOCKET_COMMAND_POLL_MS = 1"
definition W5500_SOCKET1_READ_VDM :: u8 where [simp]: "W5500_SOCKET1_READ_VDM = 0x28"
definition W5500_SOCKET1_WRITE_VDM :: u8 where [simp]: "W5500_SOCKET1_WRITE_VDM = 0x2c"
definition W5500_SOCKET1_TX_BUFFER_WRITE_VDM :: u8 where [simp]: "W5500_SOCKET1_TX_BUFFER_WRITE_VDM = 0x34"
definition W5500_SOCKET1_MR_ADDRESS :: u16 where [simp]: "W5500_SOCKET1_MR_ADDRESS = 0x0000"
definition W5500_SOCKET1_CR_ADDRESS :: u16 where [simp]: "W5500_SOCKET1_CR_ADDRESS = 0x0001"
definition W5500_SOCKET1_IR_ADDRESS :: u16 where [simp]: "W5500_SOCKET1_IR_ADDRESS = 0x0002"
definition W5500_SOCKET1_SR_ADDRESS :: u16 where [simp]: "W5500_SOCKET1_SR_ADDRESS = 0x0003"
definition W5500_SOCKET1_PORT_ADDRESS :: u16 where [simp]: "W5500_SOCKET1_PORT_ADDRESS = 0x0004"
definition W5500_SOCKET1_DIPR_ADDRESS :: u16 where [simp]: "W5500_SOCKET1_DIPR_ADDRESS = 0x000c"
definition W5500_SOCKET1_DPORT_ADDRESS :: u16 where [simp]: "W5500_SOCKET1_DPORT_ADDRESS = 0x0010"
definition W5500_SOCKET1_TX_FSR_ADDRESS :: u16 where [simp]: "W5500_SOCKET1_TX_FSR_ADDRESS = 0x0020"
definition W5500_SOCKET1_TX_WR_ADDRESS :: u16 where [simp]: "W5500_SOCKET1_TX_WR_ADDRESS = 0x0024"
definition W5500_SOCKET1_MAX_DATA_LENGTH :: nat where [simp]: "W5500_SOCKET1_MAX_DATA_LENGTH = 4"
definition W5500_SOCKET1_UDP_MODE :: u8 where [simp]: "W5500_SOCKET1_UDP_MODE = 0x02"
definition W5500_SOCKET1_OPEN_COMMAND :: u8 where [simp]: "W5500_SOCKET1_OPEN_COMMAND = 0x01"
definition W5500_SOCKET1_SEND_COMMAND :: u8 where [simp]: "W5500_SOCKET1_SEND_COMMAND = 0x20"
definition W5500_SOCKET1_IR_SEND_OK :: u8 where [simp]: "W5500_SOCKET1_IR_SEND_OK = 0x10"
definition W5500_SOCKET1_IR_TIMEOUT :: u8 where [simp]: "W5500_SOCKET1_IR_TIMEOUT = 0x08"
definition W5500_SOCKET1_STATUS_CLOSED :: u8 where [simp]: "W5500_SOCKET1_STATUS_CLOSED = 0x00"
definition W5500_SOCKET1_STATUS_UDP :: u8 where [simp]: "W5500_SOCKET1_STATUS_UDP = 0x22"
definition W5500_UDP_LOCAL_PORT :: u16 where [simp]: "W5500_UDP_LOCAL_PORT = 5001"
definition W5500_UDP_DESTINATION_PORT :: u16 where [simp]: "W5500_UDP_DESTINATION_PORT = 5002"
definition W5500_UDP_PAYLOAD_LENGTH :: nat where [simp]: "W5500_UDP_PAYLOAD_LENGTH = 6"
definition W5500_UDP_STABLE_READ_ATTEMPTS :: nat where [simp]: "W5500_UDP_STABLE_READ_ATTEMPTS = 8"
definition W5500_UDP_TX_FREE_TIMEOUT_MS :: u32 where [simp]: "W5500_UDP_TX_FREE_TIMEOUT_MS = 1000"
definition W5500_UDP_SEND_TIMEOUT_MS :: u32 where [simp]: "W5500_UDP_SEND_TIMEOUT_MS = 1000"
definition W5500_UDP_IO_POLL_MS :: u32 where [simp]: "W5500_UDP_IO_POLL_MS = 10"
definition W5500_UDP_SPI_CHUNK_SIZE :: nat where [simp]: "W5500_UDP_SPI_CHUNK_SIZE = 64"
definition W5500_UDP_LOCAL_TELEMETRY_ENABLED :: u32 where [simp]: "W5500_UDP_LOCAL_TELEMETRY_ENABLED = 0"
definition UDP_TELEMETRY_DRAIN_LIMIT :: nat where [simp]: "UDP_TELEMETRY_DRAIN_LIMIT = 2"

lemma rs422_event_mask [simp]: "(1 OR 2 OR 4 OR 8 :: u32) = 15"
  by simp

end
