(* ===== verification/RtosQueue.thy ===== *)
theory RtosQueue
  imports Fifo
begin

text \<open>
  The kernel's message queue as the gateway uses it: \<^verbatim>\<open>Queue_t\<close> with its circular item
  storage (\<^verbatim>\<open>queue.c\<close>) behind the CMSIS-RTOS2 calls (\<^verbatim>\<open>cmsis_os2.c\<close>), in thread mode and
  with a zero timeout, which is how every call site of the gateway calls them. Pointers into
  the storage are item indices: every pointer the code forms is a multiple of the item size
  from \<^verbatim>\<open>pcHead\<close>, so \<^verbatim>\<open>pcHead\<close> is 0 and \<^verbatim>\<open>pcTail\<close> is the length. No task ever blocks on these
  queues, so the wait lists stay empty; critical sections make each call one atomic step.
\<close>

datatype osStatus_t = osOK | osError | osErrorTimeout | osErrorResource | osErrorParameter

record 'a Queue_t =
  q_storage :: "'a list"
  pcWriteTo :: nat
  pcReadFrom :: nat
  uxMessagesWaiting :: nat
  uxLength :: nat

definition xQueueGenericReset :: "'a Queue_t \<Rightarrow> 'a Queue_t" where
  "xQueueGenericReset q = q\<lparr>uxMessagesWaiting := 0, pcWriteTo := 0, pcReadFrom := uxLength q - 1\<rparr>"

text \<open>
  \<^verbatim>\<open>prvInitialiseNewQueue\<close> on freshly allocated memory; \<open>mem\<close> is what the allocator
  returned, with whatever it contains.
\<close>

definition prvInitialiseNewQueue :: "nat \<Rightarrow> 'a list \<Rightarrow> 'a Queue_t" where
  "prvInitialiseNewQueue uxQueueLength mem =
     xQueueGenericReset \<lparr>q_storage = mem, pcWriteTo = 0, pcReadFrom = 0, uxMessagesWaiting = 0,
       uxLength = uxQueueLength\<rparr>"

text \<open>\<open>None\<close> is a null handle: no memory, or a zero count.\<close>

definition osMessageQueueNew :: "nat \<Rightarrow> 'a list option \<Rightarrow> 'a Queue_t option" where
  "osMessageQueueNew msg_count mem =
     (if msg_count > 0 then map_option (prvInitialiseNewQueue msg_count) mem else None)"

definition prvCopyDataToQueue :: "'a Queue_t \<Rightarrow> 'a \<Rightarrow> 'a Queue_t" where
  "prvCopyDataToQueue q item =
     (let q = q\<lparr>q_storage := (q_storage q)[pcWriteTo q := item]\<rparr>;
          q = q\<lparr>pcWriteTo := pcWriteTo q + 1\<rparr>;
          q = (if pcWriteTo q \<ge> uxLength q then q\<lparr>pcWriteTo := 0\<rparr> else q)
      in q\<lparr>uxMessagesWaiting := uxMessagesWaiting q + 1\<rparr>)"

definition prvCopyDataFromQueue :: "'a Queue_t \<Rightarrow> 'a \<times> 'a Queue_t" where
  "prvCopyDataFromQueue q =
     (let q = q\<lparr>pcReadFrom := pcReadFrom q + 1\<rparr>;
          q = (if pcReadFrom q \<ge> uxLength q then q\<lparr>pcReadFrom := 0\<rparr> else q)
      in (q_storage q ! pcReadFrom q, q))"

definition xQueueGenericSend :: "'a Queue_t \<Rightarrow> 'a \<Rightarrow> bool \<times> 'a Queue_t" where
  "xQueueGenericSend q item =
     (if uxMessagesWaiting q < uxLength q then (True, prvCopyDataToQueue q item) else (False, q))"

definition xQueueReceive :: "'a Queue_t \<Rightarrow> 'a option \<times> 'a Queue_t" where
  "xQueueReceive q =
     (if uxMessagesWaiting q > 0
      then let n = uxMessagesWaiting q; (item, q) = prvCopyDataFromQueue q
           in (Some item, q\<lparr>uxMessagesWaiting := n - 1\<rparr>)
      else (None, q))"

text \<open>The handle and the message pointer are null when \<open>None\<close>.\<close>

definition osMessageQueuePut :: "'a Queue_t option \<Rightarrow> 'a option \<Rightarrow> osStatus_t \<times> 'a Queue_t option" where
  "osMessageQueuePut mq msg =
     (case (mq, msg) of
        (Some q, Some item) \<Rightarrow>
          let (ok, q) = xQueueGenericSend q item in (if ok then osOK else osErrorResource, Some q)
      | _ \<Rightarrow> (osErrorParameter, mq))"

definition osMessageQueueGet :: "'a Queue_t option \<Rightarrow> 'a option \<Rightarrow> osStatus_t \<times> 'a Queue_t option \<times> 'a option" where
  "osMessageQueueGet mq msg =
     (case (mq, msg) of
        (Some q, Some _) \<Rightarrow>
          (case xQueueReceive q of
             (Some item, q) \<Rightarrow> (osOK, Some q, Some item)
           | (None, q) \<Rightarrow> (osErrorResource, Some q, msg))
      | _ \<Rightarrow> (osErrorParameter, mq, msg))"

subsection \<open>The list view\<close>

definition queue_inv :: "'a Queue_t \<Rightarrow> bool" where
  "queue_inv q \<longleftrightarrow> 0 < uxLength q \<and> length (q_storage q) = uxLength q \<and> uxMessagesWaiting q \<le> uxLength q \<and>
     pcReadFrom q < uxLength q \<and> pcWriteTo q = (pcReadFrom q + 1 + uxMessagesWaiting q) mod uxLength q"

definition queue_items :: "'a Queue_t \<Rightarrow> 'a list" where
  [fifo_abs]: "queue_items q = ring_slice (q_storage q) (pcReadFrom q + 1) (uxMessagesWaiting q)"

definition queue_put :: "'a \<Rightarrow> 'a Queue_t \<Rightarrow> bool \<times> 'a Queue_t" where
  "queue_put x q = xQueueGenericSend q x"

lemma length_queue_items [simp]: "length (queue_items q) = uxMessagesWaiting q"
  by (simp add: queue_items_def)

lemma new_queue_inv:
  "osMessageQueueNew n (Some mem) = Some q \<Longrightarrow> length mem = n \<Longrightarrow> queue_inv q \<and> queue_items q = [] \<and> uxLength q = n"
  by (auto simp: osMessageQueueNew_def prvInitialiseNewQueue_def xQueueGenericReset_def queue_inv_def queue_items_def
      split: if_splits)

lemma step_index: "k < n \<Longrightarrow> (if Suc k \<ge> n then 0 else Suc k) = Suc k mod n"
  by (simp add: mod_Suc)

lemma send_room:
  assumes inv: "queue_inv q" and room: "uxMessagesWaiting q < uxLength q"
  shows "fst (queue_put x q) \<and> queue_inv (snd (queue_put x q)) \<and> queue_items (snd (queue_put x q)) = queue_items q @ [x] \<and>
    uxLength (snd (queue_put x q)) = uxLength q"
proof -
  define q' where "q' = prvCopyDataToQueue q x"
  have w: "pcWriteTo q < uxLength q" using inv by (auto simp: queue_inv_def)
  have q': "q_storage q' = (q_storage q)[pcWriteTo q := x]" "pcReadFrom q' = pcReadFrom q"
    "uxMessagesWaiting q' = Suc (uxMessagesWaiting q)" "uxLength q' = uxLength q"
    "pcWriteTo q' = Suc (pcWriteTo q) mod uxLength q"
    using w by (simp_all add: q'_def prvCopyDataToQueue_def Let_def mod_Suc)
  have "queue_inv q'" using inv room by (simp add: queue_inv_def q' mod_Suc_eq)
  moreover have "queue_items q' = queue_items q @ [x]"
    using ring_slice_snoc [of "uxMessagesWaiting q" "q_storage q" "pcReadFrom q + 1" x] inv room
    by (simp add: queue_items_def q' queue_inv_def)
  ultimately show ?thesis using room q' by (simp add: queue_put_def xQueueGenericSend_def flip: q'_def)
qed

lemma send_full: "uxLength q \<le> uxMessagesWaiting q \<Longrightarrow> queue_put x q = (False, q)"
  by (simp add: queue_put_def xQueueGenericSend_def)

lemma receive_head:
  assumes inv: "queue_inv q" and items: "queue_items q = x # xs"
  shows "fst (xQueueReceive q) = Some x \<and> queue_inv (snd (xQueueReceive q)) \<and>
    queue_items (snd (xQueueReceive q)) = xs \<and> uxLength (snd (xQueueReceive q)) = uxLength q"
proof -
  have n: "uxMessagesWaiting q = Suc (length xs)" using items length_queue_items [of q] by simp
  have bounds: "pcReadFrom q < uxLength q" "length (q_storage q) = uxLength q"
    using inv by (simp_all add: queue_inv_def)
  define q' where "q' = snd (xQueueReceive q)"
  have read: "fst (xQueueReceive q) = Some (q_storage q ! (Suc (pcReadFrom q) mod uxLength q))"
    and q': "q_storage q' = q_storage q" "pcReadFrom q' = Suc (pcReadFrom q) mod uxLength q"
    "uxMessagesWaiting q' = length xs" "uxLength q' = uxLength q" "pcWriteTo q' = pcWriteTo q"
    using n bounds by (simp_all add: q'_def xQueueReceive_def prvCopyDataFromQueue_def Let_def mod_Suc)
  have "(Suc (pcReadFrom q) mod uxLength q + Suc (length xs)) mod uxLength q
      = (Suc (pcReadFrom q) + Suc (length xs)) mod uxLength q"
    by (rule mod_add_left_eq)
  then have "queue_inv q'" using inv n by (simp add: queue_inv_def q')
  moreover have "ring_slice (q_storage q) (Suc (Suc (pcReadFrom q) mod uxLength q)) (length xs)
      = ring_slice (q_storage q) (Suc (Suc (pcReadFrom q))) (length xs)"
    using ring_slice_mod [of "q_storage q" "Suc (Suc (pcReadFrom q) mod uxLength q)" "length xs"]
      ring_slice_mod [of "q_storage q" "Suc (Suc (pcReadFrom q))" "length xs"] bounds
    by (simp only: mod_Suc_eq)
  then have "x # xs = q_storage q ! (Suc (pcReadFrom q) mod uxLength q) # queue_items q'"
    using items n bounds by (simp add: queue_items_def q' ring_slice_Suc)
  ultimately show ?thesis using read by (simp add: q' flip: q'_def)
qed

interpretation kernel_queue: bounded_fifo queue_inv queue_items uxLength queue_put xQueueReceive
proof unfold_locales
  fix q :: "'a Queue_t" and x xs
  assume inv: "queue_inv q"
  then show "length (queue_items q) \<le> uxLength q" by (simp add: queue_inv_def)
  show "fst (queue_put x q) \<and> queue_inv (snd (queue_put x q)) \<and> queue_items (snd (queue_put x q)) = queue_items q @ [x] \<and>
    uxLength (snd (queue_put x q)) = uxLength q" if "length (queue_items q) < uxLength q"
    using send_room [OF inv] that by simp
  show "\<not> fst (queue_put x q) \<and> queue_inv (snd (queue_put x q)) \<and> queue_items (snd (queue_put x q)) = queue_items q \<and>
    uxLength (snd (queue_put x q)) = uxLength q" if "uxLength q \<le> length (queue_items q)"
    using send_full [of q x] that inv by simp
  show "xQueueReceive q = (None, q)" if "queue_items q = []"
    using that length_queue_items [of q] by (simp add: xQueueReceive_def)
  show "fst (xQueueReceive q) = Some x \<and> queue_inv (snd (xQueueReceive q)) \<and>
    queue_items (snd (xQueueReceive q)) = xs \<and> uxLength (snd (xQueueReceive q)) = uxLength q" if "queue_items q = x # xs"
    using receive_head [OF inv that] .
qed

text \<open>The calls as the clients see them.\<close>

lemma queue_put_outcome:
  assumes "queue_inv q" "osMessageQueuePut (Some q) (Some x) = (st, mq)"
  shows "\<exists>q'. mq = Some q' \<and> queue_inv q' \<and> uxLength q' = uxLength q \<and>
    (if length (queue_items q) < uxLength q then st = osOK \<and> queue_items q' = queue_items q @ [x]
     else st = osErrorResource \<and> q' = q)"
proof -
  obtain ok q' where s: "queue_put x q = (ok, q')" by fastforce
  then have m: "mq = Some q'" "st = (if ok then osOK else osErrorResource)"
    using assms(2) by (simp_all add: osMessageQueuePut_def queue_put_def)
  from kernel_queue.put_cases [OF assms(1) s] send_full [of q x] s m show ?thesis by auto
qed

lemma queue_get_outcome:
  assumes "queue_inv q" "osMessageQueueGet (Some q) (Some y) = (st, mq, out)"
  shows "\<exists>q'. mq = Some q' \<and> queue_inv q' \<and> uxLength q' = uxLength q \<and>
    (case queue_items q of [] \<Rightarrow> st = osErrorResource \<and> q' = q \<and> out = Some y
     | x # xs \<Rightarrow> st = osOK \<and> out = Some x \<and> queue_items q' = xs)"
proof -
  obtain r q' where s: "xQueueReceive q = (r, q')" by fastforce
  then have "(st, mq, out) = (case r of None \<Rightarrow> (osErrorResource, Some q', Some y) | Some x \<Rightarrow> (osOK, Some q', Some x))"
    using assms(2) by (auto simp: osMessageQueueGet_def split: option.splits)
  with kernel_queue.get_cases [OF assms(1) s] show ?thesis by (auto split: option.splits)
qed

subsection \<open>Properties\<close>

text \<open>C26: the kernel queue delivers messages first in, first out under every interleaving of
  senders and receivers, refuses a message exactly when all \<open>uxLength\<close> slots are taken, and
  starts empty with the requested capacity.\<close>

theorem kernel_queue_is_fifo:
  assumes "osMessageQueueNew n (Some mem) = Some q0" and "length mem = n"
    and "fifo_run queue_put xQueueReceive ops q0 = (accepted, received, q)"
  shows "accepted = received @ queue_items q \<and> length (queue_items q) \<le> n \<and>
    (\<forall>x. osMessageQueuePut (Some q) (Some x) =
       (if length (queue_items q) < n then (osOK, Some (prvCopyDataToQueue q x)) else (osErrorResource, Some q)))"
proof -
  have q0: "queue_inv q0" "queue_items q0 = []" "uxLength q0 = n" using new_queue_inv [OF assms(1,2)] by auto
  from kernel_queue.fifo_order [OF q0(1) assms(3)] q0
  have q: "queue_inv q" "uxLength q = n" "accepted = received @ queue_items q" by auto
  moreover have "length (queue_items q) \<le> n" using kernel_queue.within_capacity [OF q(1)] q(2) by simp
  ultimately show ?thesis by (simp add: osMessageQueuePut_def xQueueGenericSend_def)
qed

theorem kernel_queue_is_fifo_witness:
  "\<exists>q. fifo_run queue_put xQueueReceive [Put 1, Put 2, Put 3, Get, Put (4 :: nat)] (prvInitialiseNewQueue 2 [0, 0])
      = ([1, 2, 4], [1], q) \<and> queue_items q = [2, 4]"
proof -
  let ?ops = "[Put 1, Put 2, Put 3, Get, Put (4 :: nat)]" and ?q0 = "prvInitialiseNewQueue 2 [0, 0 :: nat]"
  obtain acc out q where run: "fifo_run queue_put xQueueReceive ?ops ?q0 = (acc, out, q)"
    using prod_cases3 by blast
  moreover have "acc = [1, 2, 4]" "out = [1]"
    using run by (simp_all add: queue_put_def xQueueGenericSend_def xQueueReceive_def prvCopyDataToQueue_def
        prvCopyDataFromQueue_def prvInitialiseNewQueue_def xQueueGenericReset_def Let_def numeral_2_eq_2)
  ultimately show ?thesis
    using kernel_queue_is_fifo [of 2 "[0, 0]" ?q0 ?ops acc out q] by (auto simp: osMessageQueueNew_def)
qed

end
