(* ===== verification/GwState.thy ===== *)
theory GwState
  imports GwConfig Hal RtosQueue StreamParser
begin

text \<open>
  The state of the gateway firmware (\<^verbatim>\<open>main.c\<close> of \<^verbatim>\<open>g474_gateway\<close>): its file-scope objects,
  grouped into records in the order of the source under their C names, the part of the kernel's
  state the tasks share (task handles and thread flags), and the hardware.

  The hardware is a value of an arbitrary type \<open>'e\<close>, changed only by the calls of the record
  \<open>hw\<close>. Those calls are the parameters of the whole gateway model. \<open>sleep hw n\<close> is what
  happens to the gateway while the running task gives up the processor for \<open>n\<close> ticks, and
  \<open>suspend hw n\<close> while it waits at most \<open>n\<close> ticks for a thread flag: time passes,
  interrupts are served and the other tasks run; \<open>HAL_Delay hw n\<close> is a busy wait, during which
  interrupts are served. They may be any functions; a theorem that needs to know what they leave
  alone says so in a hypothesis.

  Memory barriers (\<^verbatim>\<open>__DMB\<close>) have no effect in this sequentially consistent model.
\<close>

subsection \<open>Types\<close>

definition RS422_PING_TEST_NOT_RUN :: int where [simp]: "RS422_PING_TEST_NOT_RUN = 0"
definition RS422_PING_TEST_PASS :: int where [simp]: "RS422_PING_TEST_PASS = 1"
definition RS422_PING_TEST_ENCODE_FAILURE :: int where [simp]: "RS422_PING_TEST_ENCODE_FAILURE = -1"
definition RS422_PING_TEST_TX_FAILURE :: int where [simp]: "RS422_PING_TEST_TX_FAILURE = -2"
definition RS422_PING_TEST_PONG_TIMEOUT :: int where [simp]: "RS422_PING_TEST_PONG_TIMEOUT = -3"
definition RS422_PING_TEST_RX_FAILURE :: int where [simp]: "RS422_PING_TEST_RX_FAILURE = -4"

datatype rs422_comm_state_t = COMM_INIT | COMM_OK | COMM_TIMEOUT

subsection \<open>File-scope objects\<close>

record rs422_vars =
  g_rs422_ping_test_result :: int
  g_rs422_last_msg_id :: u8
  g_rs422_last_seq :: u16
  g_rs422_rx_frame_count :: u32
  g_rs422_test_total :: u32
  g_rs422_test_success :: u32
  g_rs422_test_fail :: u32
  g_rs422_rx_overflow_count :: u32
  g_rs422_uart_rx_error_count :: u32
  g_rs422_tx_busy :: u32
  g_rs422_tx_complete_count :: u32
  g_rs422_tx_busy_count :: u32
  g_rs422_tx_error_count :: u32
  g_rs422_tx_timeout_count :: u32
  g_rs422_cmd_enqueue_success_count :: u32
  g_rs422_cmd_enqueue_fail_count :: u32
  g_rs422_cmd_dequeue_count :: u32
  g_rs422_forwarded_pong_rx_count :: u32
  g_tcp_response_enqueue_success_count :: u32
  g_tcp_response_enqueue_fail_count :: u32
  g_tcp_response_dequeue_count :: u32
  g_rs422_telemetry_rx_count :: u32
  g_udp_telemetry_enqueue_success_count :: u32
  g_udp_telemetry_enqueue_fail_count :: u32
  g_udp_telemetry_dequeue_count :: u32
  g_rs422_telemetry_forwarding_enabled :: u32
  g_rs422_tcp_ping_pending :: u32
  g_rs422_tcp_ping_pending_seq :: u16
  g_rs422_last_tx_msg_id :: u8
  g_rs422_last_tx_seq :: u16

record comm_vars =
  g_rs422_last_valid_frame_tick :: u32
  g_rs422_has_valid_frame :: u32
  g_rs422_comm_state :: rs422_comm_state_t
  g_rs422_comm_timeout_count :: u32
  g_rs422_comm_recovery_count :: u32
  g_rs422_diag_last_valid_frame_ms :: u32
  g_rs422_diag_timeout_transition_ms :: u32
  g_rs422_diag_recovery_first_valid_ms :: u32
  g_rs422_diag_recovery_comm_ok_ms :: u32
  g_rs422_diag_fault_detection_ms :: u32
  g_rs422_diag_recovery_ms :: u32
  g_rs422_diag_timeout_transition_tick :: u32
  g_rs422_diag_recovery_first_valid_tick :: u32
  g_rs422_diag_recovery_comm_ok_tick :: u32
  g_gateway_queue_init_ok :: u32
  g_gateway_free_heap_bytes :: u32
  g_gateway_min_ever_free_heap_bytes :: u32

record net_vars =
  g_w5500_version :: u8
  g_w5500_spi_status :: int
  g_w5500_phycfgr :: u8
  g_w5500_link_up :: u32
  g_w5500_link_down_count :: u32
  g_w5500_link_recovery_count :: u32
  g_w5500_phy_spi_status :: int
  g_w5500_net_config_ok :: u32
  g_w5500_net_readback_ok :: u32
  g_w5500_net_write_status :: int
  g_w5500_net_read_status :: int
  g_w5500_gar_readback :: "u8 list"
  g_w5500_subr_readback :: "u8 list"
  g_w5500_shar_readback :: "u8 list"
  g_w5500_sipr_readback :: "u8 list"

record tcp_vars =
  g_w5500_tcp_init_ok :: u32
  g_w5500_tcp_listen_ok :: u32
  g_w5500_socket0_status :: u8
  g_w5500_socket0_spi_status :: int
  g_w5500_tcp_rx_bytes :: u32
  g_w5500_tcp_tx_bytes :: u32
  g_w5500_tcp_valid_frame_count :: u32
  g_w5500_tcp_ping_count :: u32
  g_w5500_tcp_pong_count :: u32
  g_w5500_tcp_last_rx_msg_id :: u8
  g_w5500_tcp_last_rx_seq :: u16
  g_w5500_tcp_last_tx_msg_id :: u8
  g_w5500_tcp_last_tx_seq :: u16
  g_w5500_tcp_rx_error_count :: u32
  g_w5500_tcp_tx_error_count :: u32
  g_w5500_tcp_last_rx_status :: int
  g_w5500_tcp_last_tx_status :: int
  g_w5500_tcp_recovery_pending :: u32
  g_w5500_tcp_recovery_attempt_count :: u32
  g_w5500_tcp_recovery_success_count :: u32
  g_w5500_tcp_recovery_fail_count :: u32

record eth_diag_vars =
  g_eth_diag_link_down_observed_ms :: u32
  g_eth_diag_link_up_observed_ms :: u32
  g_eth_diag_tcp_service_ready_ms :: u32
  g_eth_diag_first_tcp_pong_tx_success_ms :: u32
  g_eth_diag_first_udp_tx_success_ms :: u32
  g_eth_diag_linkup_to_tcp_service_ready_ms :: u32
  g_eth_diag_linkup_to_tcp_pong_tx_ms :: u32
  g_eth_diag_linkup_to_udp_tx_ms :: u32
  g_eth_diag_recovery_cycle_active :: u32
  g_eth_diag_link_down_tick :: u32
  g_eth_diag_link_up_tick :: u32
  g_eth_diag_tcp_service_ready_tick :: u32
  g_eth_diag_first_tcp_pong_tx_success_tick :: u32
  g_eth_diag_first_udp_tx_success_tick :: u32

record service_vars =
  g_w5500_tcp_session_active :: u32
  g_w5500_tcp_stale_response_drop_count :: u32
  g_w5500_data_service_cycle_count :: u32
  g_w5500_data_deadline_miss_count :: u32
  g_w5500_data_overrun_count :: u32
  g_w5500_data_max_start_late_ticks :: u32
  g_w5500_data_max_exec_cycles :: u32
  g_w5500_data_max_exec_us :: u32
  g_w5500_data_cycle_counter_available :: u32
  g_w5500_data_system_core_clock_hz :: u32
  g_w5500_data_kernel_tick_hz :: u32
  g_w5500_data_period_cycles :: u32
  g_w5500_data_timing_reference_valid :: u32

record session_diag_vars =
  g_diag_tcp_established_ms :: u32
  g_diag_first_rx_ready_ms :: u32
  g_diag_first_ping_parsed_ms :: u32
  g_diag_rs422_ping_tx_ms :: u32
  g_diag_matching_pong_rx_ms :: u32
  g_diag_tcp_pong_send_ms :: u32
  g_diag_established_to_rx_ready_ms :: u32
  g_diag_rx_ready_to_ping_parsed_ms :: u32
  g_diag_ping_parsed_to_rs422_tx_ms :: u32
  g_diag_rs422_tx_to_matching_pong_rx_ms :: u32
  g_diag_matching_pong_rx_to_tcp_send_ms :: u32
  g_diag_established_to_tcp_pong_send_ms :: u32
  g_diag_first_ping_seq :: u16
  g_diag_first_ping_seq_valid :: u32

record udp_vars =
  g_w5500_udp_open_ok :: u32
  g_w5500_udp_socket1_status :: u8
  g_w5500_udp_socket1_spi_status :: int
  g_w5500_udp_tx_packet_count :: u32
  g_w5500_udp_tx_bytes :: u32
  g_w5500_udp_tx_error_count :: u32
  g_w5500_udp_last_tx_seq :: u16
  g_w5500_udp_last_tx_status :: int
  g_w5500_udp_next_seq :: u16

record queue_vars =
  rs422_cmd_queue :: "protocol_packet_t Queue_t option"
  tcp_response_queue :: "protocol_packet_t Queue_t option"
  udp_telemetry_queue :: "protocol_packet_t Queue_t option"

record rs422_objects =
  g_rs422_ping_packet :: protocol_packet_t
  g_rs422_command_packet :: protocol_packet_t
  g_rs422_received_packet :: protocol_packet_t
  g_rs422_parser :: stream_parser_t
  g_rs422_tx_frame :: "u8 list"
  g_uart4_rx_byte :: u8
  g_rs422_rx_ring :: "u8 list"
  g_rs422_rx_head :: u16
  g_rs422_rx_tail :: u16

record tcp_objects =
  g_tcp_parser :: stream_parser_t
  g_tcp_received_packet :: protocol_packet_t
  g_tcp_pong_packet :: protocol_packet_t
  g_w5500_tcp_rx_chunk :: "u8 list"
  g_w5500_tcp_rx_dummy :: "u8 list"
  g_w5500_tcp_tx_frame :: "u8 list"

record udp_objects =
  g_udp_telemetry_packet :: protocol_packet_t
  g_udp_forward_packet :: protocol_packet_t
  g_w5500_udp_tx_frame :: "u8 list"
  g_w5500_udp_spi_discard :: "u8 list"

text \<open>Constant tables.\<close>

definition g_w5500_net_gateway :: "u8 list" where "g_w5500_net_gateway = [0, 0, 0, 0]"
definition g_w5500_net_subnet :: "u8 list" where "g_w5500_net_subnet = [255, 255, 255, 0]"
definition g_w5500_net_mac :: "u8 list" where "g_w5500_net_mac = [0x02, 0x00, 0x00, 0x00, 0x00, 0x02]"
definition g_w5500_net_ip :: "u8 list" where "g_w5500_net_ip = [192, 168, 77, 2]"
definition g_w5500_udp_destination_ip :: "u8 list" where "g_w5500_udp_destination_ip = [192, 168, 77, 1]"

text \<open>
  The kernel objects of the tasks: whether a handle is non-null and the value of the thread
  flags.
\<close>

datatype task = RS422Task | EthernetTask

record kernel_vars =
  RS422TaskHandle :: bool
  EthernetTaskHandle :: bool
  rs422_flags :: u32
  ethernet_flags :: u32

record 'e gw =
  rs :: rs422_vars
  cm :: comm_vars
  net :: net_vars
  tcp :: tcp_vars
  ed :: eth_diag_vars
  sv :: service_vars
  dg :: session_diag_vars
  udp :: udp_vars
  qs :: queue_vars
  ro :: rs422_objects
  tob :: tcp_objects
  uo :: udp_objects
  kn :: kernel_vars
  env :: 'e

subsection \<open>Start-up values\<close>

definition boot_rs422_vars :: rs422_vars where
  "boot_rs422_vars = \<lparr>
     g_rs422_ping_test_result = RS422_PING_TEST_NOT_RUN,
     g_rs422_last_msg_id = 0,
     g_rs422_last_seq = 0,
     g_rs422_rx_frame_count = 0,
     g_rs422_test_total = 0,
     g_rs422_test_success = 0,
     g_rs422_test_fail = 0,
     g_rs422_rx_overflow_count = 0,
     g_rs422_uart_rx_error_count = 0,
     g_rs422_tx_busy = 0,
     g_rs422_tx_complete_count = 0,
     g_rs422_tx_busy_count = 0,
     g_rs422_tx_error_count = 0,
     g_rs422_tx_timeout_count = 0,
     g_rs422_cmd_enqueue_success_count = 0,
     g_rs422_cmd_enqueue_fail_count = 0,
     g_rs422_cmd_dequeue_count = 0,
     g_rs422_forwarded_pong_rx_count = 0,
     g_tcp_response_enqueue_success_count = 0,
     g_tcp_response_enqueue_fail_count = 0,
     g_tcp_response_dequeue_count = 0,
     g_rs422_telemetry_rx_count = 0,
     g_udp_telemetry_enqueue_success_count = 0,
     g_udp_telemetry_enqueue_fail_count = 0,
     g_udp_telemetry_dequeue_count = 0,
     g_rs422_telemetry_forwarding_enabled = 0,
     g_rs422_tcp_ping_pending = 0,
     g_rs422_tcp_ping_pending_seq = 0,
     g_rs422_last_tx_msg_id = 0,
     g_rs422_last_tx_seq = 0\<rparr>"

definition boot_comm_vars :: comm_vars where
  "boot_comm_vars = \<lparr>
     g_rs422_last_valid_frame_tick = 0,
     g_rs422_has_valid_frame = 0,
     g_rs422_comm_state = COMM_INIT,
     g_rs422_comm_timeout_count = 0,
     g_rs422_comm_recovery_count = 0,
     g_rs422_diag_last_valid_frame_ms = DIAG_TIMESTAMP_NOT_CAPTURED_MS,
     g_rs422_diag_timeout_transition_ms = DIAG_TIMESTAMP_NOT_CAPTURED_MS,
     g_rs422_diag_recovery_first_valid_ms = DIAG_TIMESTAMP_NOT_CAPTURED_MS,
     g_rs422_diag_recovery_comm_ok_ms = DIAG_TIMESTAMP_NOT_CAPTURED_MS,
     g_rs422_diag_fault_detection_ms = DIAG_TIMESTAMP_NOT_CAPTURED_MS,
     g_rs422_diag_recovery_ms = DIAG_TIMESTAMP_NOT_CAPTURED_MS,
     g_rs422_diag_timeout_transition_tick = 0xFFFFFFFF,
     g_rs422_diag_recovery_first_valid_tick = 0xFFFFFFFF,
     g_rs422_diag_recovery_comm_ok_tick = 0xFFFFFFFF,
     g_gateway_queue_init_ok = 0,
     g_gateway_free_heap_bytes = 0,
     g_gateway_min_ever_free_heap_bytes = 0\<rparr>"

definition boot_net_vars :: net_vars where
  "boot_net_vars = \<lparr>
     g_w5500_version = 0,
     g_w5500_spi_status = -1,
     g_w5500_phycfgr = 0,
     g_w5500_link_up = 0,
     g_w5500_link_down_count = 0,
     g_w5500_link_recovery_count = 0,
     g_w5500_phy_spi_status = -1,
     g_w5500_net_config_ok = 0,
     g_w5500_net_readback_ok = 0,
     g_w5500_net_write_status = -1,
     g_w5500_net_read_status = -1,
     g_w5500_gar_readback = replicate W5500_GAR_LENGTH 0,
     g_w5500_subr_readback = replicate W5500_SUBR_LENGTH 0,
     g_w5500_shar_readback = replicate W5500_SHAR_LENGTH 0,
     g_w5500_sipr_readback = replicate W5500_SIPR_LENGTH 0\<rparr>"

definition boot_tcp_vars :: tcp_vars where
  "boot_tcp_vars = \<lparr>
     g_w5500_tcp_init_ok = 0,
     g_w5500_tcp_listen_ok = 0,
     g_w5500_socket0_status = W5500_SOCKET0_STATUS_CLOSED,
     g_w5500_socket0_spi_status = -1,
     g_w5500_tcp_rx_bytes = 0,
     g_w5500_tcp_tx_bytes = 0,
     g_w5500_tcp_valid_frame_count = 0,
     g_w5500_tcp_ping_count = 0,
     g_w5500_tcp_pong_count = 0,
     g_w5500_tcp_last_rx_msg_id = 0,
     g_w5500_tcp_last_rx_seq = 0,
     g_w5500_tcp_last_tx_msg_id = 0,
     g_w5500_tcp_last_tx_seq = 0,
     g_w5500_tcp_rx_error_count = 0,
     g_w5500_tcp_tx_error_count = 0,
     g_w5500_tcp_last_rx_status = -1,
     g_w5500_tcp_last_tx_status = -1,
     g_w5500_tcp_recovery_pending = 0,
     g_w5500_tcp_recovery_attempt_count = 0,
     g_w5500_tcp_recovery_success_count = 0,
     g_w5500_tcp_recovery_fail_count = 0\<rparr>"

definition boot_eth_diag_vars :: eth_diag_vars where
  "boot_eth_diag_vars = \<lparr>
     g_eth_diag_link_down_observed_ms = DIAG_TIMESTAMP_NOT_CAPTURED_MS,
     g_eth_diag_link_up_observed_ms = DIAG_TIMESTAMP_NOT_CAPTURED_MS,
     g_eth_diag_tcp_service_ready_ms = DIAG_TIMESTAMP_NOT_CAPTURED_MS,
     g_eth_diag_first_tcp_pong_tx_success_ms = DIAG_TIMESTAMP_NOT_CAPTURED_MS,
     g_eth_diag_first_udp_tx_success_ms = DIAG_TIMESTAMP_NOT_CAPTURED_MS,
     g_eth_diag_linkup_to_tcp_service_ready_ms = DIAG_TIMESTAMP_NOT_CAPTURED_MS,
     g_eth_diag_linkup_to_tcp_pong_tx_ms = DIAG_TIMESTAMP_NOT_CAPTURED_MS,
     g_eth_diag_linkup_to_udp_tx_ms = DIAG_TIMESTAMP_NOT_CAPTURED_MS,
     g_eth_diag_recovery_cycle_active = 0,
     g_eth_diag_link_down_tick = 0xFFFFFFFF,
     g_eth_diag_link_up_tick = 0xFFFFFFFF,
     g_eth_diag_tcp_service_ready_tick = 0xFFFFFFFF,
     g_eth_diag_first_tcp_pong_tx_success_tick = 0xFFFFFFFF,
     g_eth_diag_first_udp_tx_success_tick = 0xFFFFFFFF\<rparr>"

definition boot_service_vars :: service_vars where
  "boot_service_vars = \<lparr>
     g_w5500_tcp_session_active = 0,
     g_w5500_tcp_stale_response_drop_count = 0,
     g_w5500_data_service_cycle_count = 0,
     g_w5500_data_deadline_miss_count = 0,
     g_w5500_data_overrun_count = 0,
     g_w5500_data_max_start_late_ticks = 0,
     g_w5500_data_max_exec_cycles = 0,
     g_w5500_data_max_exec_us = 0,
     g_w5500_data_cycle_counter_available = 0,
     g_w5500_data_system_core_clock_hz = 0,
     g_w5500_data_kernel_tick_hz = 0,
     g_w5500_data_period_cycles = 0,
     g_w5500_data_timing_reference_valid = 0\<rparr>"

definition boot_session_diag_vars :: session_diag_vars where
  "boot_session_diag_vars = \<lparr>
     g_diag_tcp_established_ms = DIAG_TIMESTAMP_NOT_CAPTURED_MS,
     g_diag_first_rx_ready_ms = DIAG_TIMESTAMP_NOT_CAPTURED_MS,
     g_diag_first_ping_parsed_ms = DIAG_TIMESTAMP_NOT_CAPTURED_MS,
     g_diag_rs422_ping_tx_ms = DIAG_TIMESTAMP_NOT_CAPTURED_MS,
     g_diag_matching_pong_rx_ms = DIAG_TIMESTAMP_NOT_CAPTURED_MS,
     g_diag_tcp_pong_send_ms = DIAG_TIMESTAMP_NOT_CAPTURED_MS,
     g_diag_established_to_rx_ready_ms = DIAG_TIMESTAMP_NOT_CAPTURED_MS,
     g_diag_rx_ready_to_ping_parsed_ms = DIAG_TIMESTAMP_NOT_CAPTURED_MS,
     g_diag_ping_parsed_to_rs422_tx_ms = DIAG_TIMESTAMP_NOT_CAPTURED_MS,
     g_diag_rs422_tx_to_matching_pong_rx_ms = DIAG_TIMESTAMP_NOT_CAPTURED_MS,
     g_diag_matching_pong_rx_to_tcp_send_ms = DIAG_TIMESTAMP_NOT_CAPTURED_MS,
     g_diag_established_to_tcp_pong_send_ms = DIAG_TIMESTAMP_NOT_CAPTURED_MS,
     g_diag_first_ping_seq = 0,
     g_diag_first_ping_seq_valid = 0\<rparr>"

definition boot_udp_vars :: udp_vars where
  "boot_udp_vars = \<lparr>
     g_w5500_udp_open_ok = 0,
     g_w5500_udp_socket1_status = W5500_SOCKET1_STATUS_CLOSED,
     g_w5500_udp_socket1_spi_status = -1,
     g_w5500_udp_tx_packet_count = 0,
     g_w5500_udp_tx_bytes = 0,
     g_w5500_udp_tx_error_count = 0,
     g_w5500_udp_last_tx_seq = 0,
     g_w5500_udp_last_tx_status = -1,
     g_w5500_udp_next_seq = 1\<rparr>"

definition boot_queue_vars :: queue_vars where
  "boot_queue_vars = \<lparr>
     rs422_cmd_queue = None,
     tcp_response_queue = None,
     udp_telemetry_queue = None\<rparr>"

definition boot_rs422_objects :: rs422_objects where
  "boot_rs422_objects = \<lparr>
     g_rs422_ping_packet = zero_packet,
     g_rs422_command_packet = zero_packet,
     g_rs422_received_packet = zero_packet,
     g_rs422_parser = stream_parser_init,
     g_rs422_tx_frame = replicate PROTOCOL_MAX_FRAME_SIZE 0,
     g_uart4_rx_byte = 0,
     g_rs422_rx_ring = replicate (unat RS422_RX_RING_CAPACITY) 0,
     g_rs422_rx_head = 0,
     g_rs422_rx_tail = 0\<rparr>"

definition boot_tcp_objects :: tcp_objects where
  "boot_tcp_objects = \<lparr>
     g_tcp_parser = stream_parser_init,
     g_tcp_received_packet = zero_packet,
     g_tcp_pong_packet = zero_packet,
     g_w5500_tcp_rx_chunk = replicate W5500_TCP_RX_CHUNK_SIZE 0,
     g_w5500_tcp_rx_dummy = replicate W5500_TCP_RX_CHUNK_SIZE 0,
     g_w5500_tcp_tx_frame = replicate PROTOCOL_MAX_FRAME_SIZE 0\<rparr>"

definition boot_udp_objects :: udp_objects where
  "boot_udp_objects = \<lparr>
     g_udp_telemetry_packet = zero_packet,
     g_udp_forward_packet = zero_packet,
     g_w5500_udp_tx_frame = replicate PROTOCOL_MAX_FRAME_SIZE 0,
     g_w5500_udp_spi_discard = replicate W5500_UDP_SPI_CHUNK_SIZE 0\<rparr>"

definition boot_kernel_vars :: kernel_vars where
  "boot_kernel_vars = \<lparr>RS422TaskHandle = False, EthernetTaskHandle = False, rs422_flags = 0, ethernet_flags = 0\<rparr>"

definition boot :: "'e \<Rightarrow> 'e gw" where
  "boot e = \<lparr>rs = boot_rs422_vars, cm = boot_comm_vars, net = boot_net_vars, tcp = boot_tcp_vars,
     ed = boot_eth_diag_vars, sv = boot_service_vars, dg = boot_session_diag_vars, udp = boot_udp_vars,
     qs = boot_queue_vars, ro = boot_rs422_objects, tob = boot_tcp_objects, uo = boot_udp_objects,
     kn = boot_kernel_vars, env = e\<rparr>"

subsection \<open>The hardware interface\<close>

datatype gpio_pin = W5500_CS | W5500_RST

record 'e hw =
  HAL_GPIO_WritePin :: "gpio_pin \<Rightarrow> bool \<Rightarrow> 'e \<Rightarrow> 'e"
  HAL_SPI_TransmitReceive :: "u8 list \<Rightarrow> u32 \<Rightarrow> 'e \<Rightarrow> HAL_StatusTypeDef \<times> u8 list \<times> 'e"
  HAL_SPI_Transmit :: "u8 list \<Rightarrow> u32 \<Rightarrow> 'e \<Rightarrow> HAL_StatusTypeDef \<times> 'e"
  HAL_UART_Transmit_IT :: "u8 list \<Rightarrow> 'e \<Rightarrow> HAL_StatusTypeDef \<times> 'e"
  HAL_UART_Receive_IT :: "'e \<Rightarrow> HAL_StatusTypeDef \<times> 'e"
  huart4_RxState_ready :: "'e \<Rightarrow> bool"
  osKernelGetTickCount :: "'e \<Rightarrow> u32 \<times> 'e"
  osKernelGetTickFreq :: u32
  SystemCoreClock :: u32
  DWT_CYCCNT :: "'e \<Rightarrow> u32 \<times> 'e"
  DWT_enable :: "'e \<Rightarrow> bool \<times> 'e"
  xPortGetFreeHeapSize :: "'e \<Rightarrow> u32"
  xPortGetMinimumEverFreeHeapSize :: "'e \<Rightarrow> u32"
  HAL_Delay :: "u32 \<Rightarrow> 'e gw \<Rightarrow> 'e gw"
  sleep :: "u32 \<Rightarrow> 'e gw \<Rightarrow> 'e gw"
  suspend :: "u32 \<Rightarrow> 'e gw \<Rightarrow> 'e gw"

text \<open>Calls on the hardware from code that owns the whole state.\<close>

definition lift_env :: "('e \<Rightarrow> 'a \<times> 'e) \<Rightarrow> 'e gw \<Rightarrow> 'a \<times> 'e gw" where
  "lift_env f s = (let (x, e) = f (env s) in (x, s\<lparr>env := e\<rparr>))"

definition get_tick :: "'e hw \<Rightarrow> 'e gw \<Rightarrow> u32 \<times> 'e gw" where
  "get_tick hw = lift_env (osKernelGetTickCount hw)"

definition osDelay :: "'e hw \<Rightarrow> u32 \<Rightarrow> 'e gw \<Rightarrow> 'e gw" where
  "osDelay hw ticks s = sleep hw ticks s"

lemma lift_env_simps [simp]:
  "lift_env f s = (fst (f (env s)), s\<lparr>env := snd (f (env s))\<rparr>)"
  by (simp add: lift_env_def split: prod.split)

lemma get_tick_simps [simp]:
  "get_tick hw s = (fst (osKernelGetTickCount hw (env s)), s\<lparr>env := snd (osKernelGetTickCount hw (env s))\<rparr>)"
  by (simp add: get_tick_def)

subsection \<open>Thread flags\<close>

text \<open>
  The CMSIS calls on thread flags, which the kernel keeps in the task's notification value.
  Waiting for any of the flags in the mask returns the whole value and clears the mask bits; it
  fails at once with a resource error when the timeout is 0, and otherwise suspends the task. A
  wait without limit that is never satisfied does not return (\<open>None\<close>).
\<close>

definition osFlagsError :: u32 where [simp]: "osFlagsError = 0x80000000"
definition osFlagsErrorTimeout :: u32 where [simp]: "osFlagsErrorTimeout = 0xFFFFFFFE"
definition osFlagsErrorResource :: u32 where [simp]: "osFlagsErrorResource = 0xFFFFFFFD"
definition osFlagsErrorParameter :: u32 where [simp]: "osFlagsErrorParameter = 0xFFFFFFFC"
definition osWaitForever :: u32 where [simp]: "osWaitForever = 0xFFFFFFFF"

fun task_flags :: "task \<Rightarrow> kernel_vars \<Rightarrow> u32" where
  "task_flags RS422Task k = rs422_flags k"
| "task_flags EthernetTask k = ethernet_flags k"

fun set_task_flags :: "task \<Rightarrow> u32 \<Rightarrow> kernel_vars \<Rightarrow> kernel_vars" where
  "set_task_flags RS422Task v k = k\<lparr>rs422_flags := v\<rparr>"
| "set_task_flags EthernetTask v k = k\<lparr>ethernet_flags := v\<rparr>"

fun task_exists :: "task \<Rightarrow> kernel_vars \<Rightarrow> bool" where
  "task_exists RS422Task k = RS422TaskHandle k"
| "task_exists EthernetTask k = EthernetTaskHandle k"

definition osThreadFlagsSet :: "task \<Rightarrow> u32 \<Rightarrow> 'e gw \<Rightarrow> u32 \<times> 'e gw" where
  "osThreadFlagsSet t flags s =
     (if \<not> task_exists t (kn s) \<or> flags AND osFlagsError \<noteq> 0 then (osFlagsErrorParameter, s)
      else let v = task_flags t (kn s) OR flags in (v, s\<lparr>kn := set_task_flags t v (kn s)\<rparr>))"

definition osThreadFlagsClear :: "task \<Rightarrow> u32 \<Rightarrow> 'e gw \<Rightarrow> u32 \<times> 'e gw" where
  "osThreadFlagsClear t flags s =
     (if flags AND osFlagsError \<noteq> 0 then (osFlagsErrorParameter, s)
      else let v = task_flags t (kn s) in (v, s\<lparr>kn := set_task_flags t (v AND NOT flags) (kn s)\<rparr>))"

definition osThreadFlagsWait :: "'e hw \<Rightarrow> task \<Rightarrow> u32 \<Rightarrow> u32 \<Rightarrow> 'e gw \<Rightarrow> (u32 \<times> 'e gw) option" where
  "osThreadFlagsWait hw t flags timeout s =
     (let v = task_flags t (kn s)
      in if v AND flags \<noteq> 0 then Some (v, s\<lparr>kn := set_task_flags t (v AND NOT flags) (kn s)\<rparr>)
         else if timeout = 0 then Some (osFlagsErrorResource, s)
         else
           let s = suspend hw timeout s; v = task_flags t (kn s)
           in if v AND flags \<noteq> 0 then Some (v, s\<lparr>kn := set_task_flags t (v AND NOT flags) (kn s)\<rparr>)
              else if timeout = osWaitForever then None
              else Some (osFlagsErrorTimeout, s))"

end
