(* ===== verification/GwDiag.thy ===== *)
theory GwDiag
  imports GwState
begin

text \<open>
  Conversions between milliseconds and kernel ticks, and the diagnostic records of the gateway:
  when RS-422 communication was lost and recovered, how long the Ethernet services took to come
  back after a link loss, and the timestamps of the first request of a TCP session.
  The functions that only touch one group of variables are defined on that record.
\<close>

subsection \<open>Time conversion\<close>

definition rs422_ms_to_kernel_ticks :: "'e hw \<Rightarrow> u32 \<Rightarrow> u32" where
  "rs422_ms_to_kernel_ticks hw time_ms =
     (let tick_frequency = osKernelGetTickFreq hw;
          ticks = (ucast ((ucast time_ms * ucast tick_frequency + 999 :: 64 word) div 1000) :: u32)
      in if ticks = 0 then 1 else ticks)"

definition rs422_kernel_ticks_to_ms :: "'e hw \<Rightarrow> u32 \<Rightarrow> u32" where
  "rs422_kernel_ticks_to_ms hw ticks =
     (let tick_frequency = osKernelGetTickFreq hw
      in if tick_frequency = 0 then DIAG_TIMESTAMP_NOT_CAPTURED_MS
         else ucast ((ucast ticks * 1000 :: 64 word) div ucast tick_frequency))"

definition w5500_kernel_uptime_ms :: "'e hw \<Rightarrow> 'e gw \<Rightarrow> u32 \<times> 'e gw" where
  "w5500_kernel_uptime_ms hw s =
     (let tick_frequency = osKernelGetTickFreq hw
      in if tick_frequency = 0 then (0, s)
         else let (t, s) = get_tick hw s in (ucast ((ucast t * 1000 :: 64 word) div ucast tick_frequency), s))"

definition diagnostic_now_ms :: "'e hw \<Rightarrow> 'e gw \<Rightarrow> u32 \<times> 'e gw" where
  "diagnostic_now_ms hw s = get_tick hw s"

lemma unat_ucast_32_64 [simp]: "unat (ucast (a :: u32) :: 64 word) = unat a"
proof -
  have "unat a < 2 ^ 32" using unsigned_less [of a, where 'a = nat] by simp
  then have "unat a < 2 ^ 64" by simp
  then show ?thesis by (simp add: unsigned_ucast_eq take_bit_nat_eq_self)
qed

lemma u64_product:
  "unat (ucast (a :: u32) * ucast (b :: u32) :: 64 word) = unat a * unat b"
proof -
  have "unat a * unat b < 2 ^ 32 * 2 ^ 32"
    using unsigned_less [of a, where 'a = nat] unsigned_less [of b, where 'a = nat] by (intro mult_strict_mono) auto
  then show ?thesis by (simp add: unat_word_ariths)
qed

lemma ms_to_ticks_nat:
  assumes "unat ms * unat (osKernelGetTickFreq hw) + 999 < 1000 * 2 ^ 32"
  shows "unat (rs422_ms_to_kernel_ticks hw ms) = max 1 ((unat ms * unat (osKernelGetTickFreq hw) + 999) div 1000)"
proof -
  let ?f = "osKernelGetTickFreq hw"
  have "unat (ucast ms * ucast ?f + 999 :: 64 word) = unat ms * unat ?f + 999"
    using assms u64_product [of ms ?f] by (simp add: unat_word_ariths(1))
  then have "unat ((ucast ms * ucast ?f + 999 :: 64 word) div 1000) = (unat ms * unat ?f + 999) div 1000"
    by (simp add: unat_div)
  moreover have "(unat ms * unat ?f + 999) div 1000 < 2 ^ 32" using assms by (simp add: less_mult_imp_div_less mult.commute)
  ultimately have "unat (ucast ((ucast ms * ucast ?f + 999 :: 64 word) div 1000) :: u32) = (unat ms * unat ?f + 999) div 1000"
    by (simp add: unsigned_ucast_eq take_bit_nat_eq_self)
  then show ?thesis
    by (auto simp: rs422_ms_to_kernel_ticks_def Let_def unat_eq_0 [symmetric] simp del: unat_eq_0)
qed

lemma ticks_to_ms_1000:
  assumes "osKernelGetTickFreq hw = 1000"
  shows "rs422_kernel_ticks_to_ms hw t = t"
proof -
  have "unat ((ucast t * 1000 :: 64 word) div 1000) = unat t"
    using u64_product [of t 1000] by (simp add: unat_div)
  moreover have "unat t < 2 ^ 32" using unsigned_less [of t, where 'a = nat] by simp
  ultimately have "unat (ucast ((ucast t * 1000 :: 64 word) div 1000) :: u32) = unat t"
    by (simp add: unsigned_ucast_eq take_bit_nat_eq_self)
  then have "(ucast ((ucast t * 1000 :: 64 word) div 1000) :: u32) = t" by (simp only: word_unat_eq_iff)
  then show ?thesis using assms by (simp add: rs422_kernel_ticks_to_ms_def)
qed

subsection \<open>RS-422 communication diagnostics\<close>

definition rs422_diag_record_timeout_transition :: "'e hw \<Rightarrow> u32 \<Rightarrow> u32 \<Rightarrow> u32 \<Rightarrow> comm_vars \<Rightarrow> comm_vars" where
  "rs422_diag_record_timeout_transition hw timeout_tick has_valid_frame last_valid_frame_tick c =
     (let c = c\<lparr>g_rs422_diag_timeout_transition_tick := timeout_tick,
                g_rs422_diag_timeout_transition_ms := rs422_kernel_ticks_to_ms hw timeout_tick,
                g_rs422_diag_fault_detection_ms := DIAG_TIMESTAMP_NOT_CAPTURED_MS\<rparr>;
          c = (if has_valid_frame \<noteq> 0 then
                 let fault_detection_ticks = timeout_tick - last_valid_frame_tick
                 in c\<lparr>g_rs422_diag_fault_detection_ms := rs422_kernel_ticks_to_ms hw fault_detection_ticks\<rparr>
               else c)
      in c\<lparr>g_rs422_diag_recovery_first_valid_tick := 0xFFFFFFFF,
           g_rs422_diag_recovery_comm_ok_tick := 0xFFFFFFFF,
           g_rs422_diag_recovery_first_valid_ms := DIAG_TIMESTAMP_NOT_CAPTURED_MS,
           g_rs422_diag_recovery_comm_ok_ms := DIAG_TIMESTAMP_NOT_CAPTURED_MS,
           g_rs422_diag_recovery_ms := DIAG_TIMESTAMP_NOT_CAPTURED_MS\<rparr>)"

subsection \<open>Ethernet recovery diagnostics\<close>

definition ethernet_diag_initialize :: "eth_diag_vars \<Rightarrow> eth_diag_vars" where
  "ethernet_diag_initialize d = d\<lparr>
     g_eth_diag_recovery_cycle_active := 0,
     g_eth_diag_link_down_tick := 0xFFFFFFFF,
     g_eth_diag_link_up_tick := 0xFFFFFFFF,
     g_eth_diag_tcp_service_ready_tick := 0xFFFFFFFF,
     g_eth_diag_first_tcp_pong_tx_success_tick := 0xFFFFFFFF,
     g_eth_diag_first_udp_tx_success_tick := 0xFFFFFFFF,
     g_eth_diag_link_down_observed_ms := DIAG_TIMESTAMP_NOT_CAPTURED_MS,
     g_eth_diag_link_up_observed_ms := DIAG_TIMESTAMP_NOT_CAPTURED_MS,
     g_eth_diag_tcp_service_ready_ms := DIAG_TIMESTAMP_NOT_CAPTURED_MS,
     g_eth_diag_first_tcp_pong_tx_success_ms := DIAG_TIMESTAMP_NOT_CAPTURED_MS,
     g_eth_diag_first_udp_tx_success_ms := DIAG_TIMESTAMP_NOT_CAPTURED_MS,
     g_eth_diag_linkup_to_tcp_service_ready_ms := DIAG_TIMESTAMP_NOT_CAPTURED_MS,
     g_eth_diag_linkup_to_tcp_pong_tx_ms := DIAG_TIMESTAMP_NOT_CAPTURED_MS,
     g_eth_diag_linkup_to_udp_tx_ms := DIAG_TIMESTAMP_NOT_CAPTURED_MS\<rparr>"

definition ethernet_diag_arm_recovery :: "'e hw \<Rightarrow> u32 \<Rightarrow> eth_diag_vars \<Rightarrow> eth_diag_vars" where
  "ethernet_diag_arm_recovery hw link_down_tick d =
     (let d = d\<lparr>g_eth_diag_recovery_cycle_active := 0\<rparr>;
          d = d\<lparr>g_eth_diag_link_down_tick := link_down_tick,
                g_eth_diag_link_up_tick := 0xFFFFFFFF,
                g_eth_diag_tcp_service_ready_tick := 0xFFFFFFFF,
                g_eth_diag_first_tcp_pong_tx_success_tick := 0xFFFFFFFF,
                g_eth_diag_first_udp_tx_success_tick := 0xFFFFFFFF,
                g_eth_diag_link_down_observed_ms := rs422_kernel_ticks_to_ms hw link_down_tick,
                g_eth_diag_link_up_observed_ms := DIAG_TIMESTAMP_NOT_CAPTURED_MS,
                g_eth_diag_tcp_service_ready_ms := DIAG_TIMESTAMP_NOT_CAPTURED_MS,
                g_eth_diag_first_tcp_pong_tx_success_ms := DIAG_TIMESTAMP_NOT_CAPTURED_MS,
                g_eth_diag_first_udp_tx_success_ms := DIAG_TIMESTAMP_NOT_CAPTURED_MS,
                g_eth_diag_linkup_to_tcp_service_ready_ms := DIAG_TIMESTAMP_NOT_CAPTURED_MS,
                g_eth_diag_linkup_to_tcp_pong_tx_ms := DIAG_TIMESTAMP_NOT_CAPTURED_MS,
                g_eth_diag_linkup_to_udp_tx_ms := DIAG_TIMESTAMP_NOT_CAPTURED_MS\<rparr>
      in d\<lparr>g_eth_diag_recovery_cycle_active := 1\<rparr>)"

definition ethernet_diag_record_link_up :: "'e hw \<Rightarrow> u32 \<Rightarrow> eth_diag_vars \<Rightarrow> eth_diag_vars" where
  "ethernet_diag_record_link_up hw link_up_tick d =
     (if g_eth_diag_recovery_cycle_active d = 0 \<or> g_eth_diag_link_up_tick d \<noteq> 0xFFFFFFFF then d
      else d\<lparr>g_eth_diag_link_up_observed_ms := rs422_kernel_ticks_to_ms hw link_up_tick,
             g_eth_diag_link_up_tick := link_up_tick\<rparr>)"

definition ethernet_diag_finish_if_complete :: "eth_diag_vars \<Rightarrow> eth_diag_vars" where
  "ethernet_diag_finish_if_complete d =
     (if g_eth_diag_tcp_service_ready_tick d \<noteq> 0xFFFFFFFF \<and>
         g_eth_diag_first_tcp_pong_tx_success_tick d \<noteq> 0xFFFFFFFF \<and>
         g_eth_diag_first_udp_tx_success_tick d \<noteq> 0xFFFFFFFF
      then d\<lparr>g_eth_diag_recovery_cycle_active := 0\<rparr> else d)"

definition ethernet_diag_record_tcp_service_ready :: "'e hw \<Rightarrow> 'e gw \<Rightarrow> 'e gw" where
  "ethernet_diag_record_tcp_service_ready hw s =
     (let link_up_tick = g_eth_diag_link_up_tick (ed s)
      in if g_eth_diag_recovery_cycle_active (ed s) = 0 \<or> link_up_tick = 0xFFFFFFFF \<or>
            g_eth_diag_tcp_service_ready_tick (ed s) \<noteq> 0xFFFFFFFF
         then s
         else
           let (ready_tick, s) = get_tick hw s;
               elapsed_ticks = ready_tick - link_up_tick
           in s\<lparr>ed := ethernet_diag_finish_if_complete ((ed s)\<lparr>
                g_eth_diag_tcp_service_ready_ms := rs422_kernel_ticks_to_ms hw ready_tick,
                g_eth_diag_linkup_to_tcp_service_ready_ms := rs422_kernel_ticks_to_ms hw elapsed_ticks,
                g_eth_diag_tcp_service_ready_tick := ready_tick\<rparr>)\<rparr>)"

definition ethernet_diag_record_tcp_pong_tx_success :: "'e hw \<Rightarrow> 'e gw \<Rightarrow> 'e gw" where
  "ethernet_diag_record_tcp_pong_tx_success hw s =
     (let link_up_tick = g_eth_diag_link_up_tick (ed s)
      in if g_eth_diag_recovery_cycle_active (ed s) = 0 \<or> link_up_tick = 0xFFFFFFFF \<or>
            g_eth_diag_first_tcp_pong_tx_success_tick (ed s) \<noteq> 0xFFFFFFFF
         then s
         else
           let (success_tick, s) = get_tick hw s;
               elapsed_ticks = success_tick - link_up_tick
           in s\<lparr>ed := ethernet_diag_finish_if_complete ((ed s)\<lparr>
                g_eth_diag_first_tcp_pong_tx_success_ms := rs422_kernel_ticks_to_ms hw success_tick,
                g_eth_diag_linkup_to_tcp_pong_tx_ms := rs422_kernel_ticks_to_ms hw elapsed_ticks,
                g_eth_diag_first_tcp_pong_tx_success_tick := success_tick\<rparr>)\<rparr>)"

definition ethernet_diag_record_udp_tx_success :: "'e hw \<Rightarrow> 'e gw \<Rightarrow> 'e gw" where
  "ethernet_diag_record_udp_tx_success hw s =
     (let link_up_tick = g_eth_diag_link_up_tick (ed s)
      in if g_eth_diag_recovery_cycle_active (ed s) = 0 \<or> link_up_tick = 0xFFFFFFFF \<or>
            g_eth_diag_first_udp_tx_success_tick (ed s) \<noteq> 0xFFFFFFFF
         then s
         else
           let (success_tick, s) = get_tick hw s;
               elapsed_ticks = success_tick - link_up_tick
           in s\<lparr>ed := ethernet_diag_finish_if_complete ((ed s)\<lparr>
                g_eth_diag_first_udp_tx_success_ms := rs422_kernel_ticks_to_ms hw success_tick,
                g_eth_diag_linkup_to_udp_tx_ms := rs422_kernel_ticks_to_ms hw elapsed_ticks,
                g_eth_diag_first_udp_tx_success_tick := success_tick\<rparr>)\<rparr>)"

subsection \<open>TCP session diagnostics\<close>

definition diagnostic_begin_tcp_session :: "u32 \<Rightarrow> session_diag_vars \<Rightarrow> session_diag_vars" where
  "diagnostic_begin_tcp_session established_ms d =
     (let d = d\<lparr>g_diag_first_ping_seq_valid := 0\<rparr>
      in d\<lparr>g_diag_tcp_established_ms := established_ms,
           g_diag_first_rx_ready_ms := DIAG_TIMESTAMP_NOT_CAPTURED_MS,
           g_diag_first_ping_parsed_ms := DIAG_TIMESTAMP_NOT_CAPTURED_MS,
           g_diag_rs422_ping_tx_ms := DIAG_TIMESTAMP_NOT_CAPTURED_MS,
           g_diag_matching_pong_rx_ms := DIAG_TIMESTAMP_NOT_CAPTURED_MS,
           g_diag_tcp_pong_send_ms := DIAG_TIMESTAMP_NOT_CAPTURED_MS,
           g_diag_established_to_rx_ready_ms := DIAG_TIMESTAMP_NOT_CAPTURED_MS,
           g_diag_rx_ready_to_ping_parsed_ms := DIAG_TIMESTAMP_NOT_CAPTURED_MS,
           g_diag_ping_parsed_to_rs422_tx_ms := DIAG_TIMESTAMP_NOT_CAPTURED_MS,
           g_diag_rs422_tx_to_matching_pong_rx_ms := DIAG_TIMESTAMP_NOT_CAPTURED_MS,
           g_diag_matching_pong_rx_to_tcp_send_ms := DIAG_TIMESTAMP_NOT_CAPTURED_MS,
           g_diag_established_to_tcp_pong_send_ms := DIAG_TIMESTAMP_NOT_CAPTURED_MS,
           g_diag_first_ping_seq := 0\<rparr>)"

subsection \<open>Properties\<close>

text \<open>C33: a wait computed from milliseconds is never too short and never zero, and too long by
  less than one tick: the tick count is the time rounded up, for every tick frequency and
  duration whose product fits the 32-bit result.\<close>

theorem ms_to_ticks_rounds_up:
  assumes "unat ms * unat (osKernelGetTickFreq hw) + 999 < 1000 * 2 ^ 32"
  shows "0 < rs422_ms_to_kernel_ticks hw ms \<and>
    unat ms * unat (osKernelGetTickFreq hw) \<le> 1000 * unat (rs422_ms_to_kernel_ticks hw ms) \<and>
    (0 < unat ms * unat (osKernelGetTickFreq hw) \<longrightarrow>
      1000 * unat (rs422_ms_to_kernel_ticks hw ms) < unat ms * unat (osKernelGetTickFreq hw) + 1000)"
proof -
  have t: "unat (rs422_ms_to_kernel_ticks hw ms) = max 1 ((unat ms * unat (osKernelGetTickFreq hw) + 999) div 1000)"
    by (rule ms_to_ticks_nat [OF assms])
  then have "0 < unat (rs422_ms_to_kernel_ticks hw ms)" by simp
  then have "0 < rs422_ms_to_kernel_ticks hw ms" by (simp add: word_less_nat_alt)
  moreover have "p \<le> 1000 * max 1 ((p + 999) div 1000)" "0 < p \<longrightarrow> 1000 * max 1 ((p + 999) div 1000) < p + 1000" for p :: nat
    by linarith+
  ultimately show ?thesis unfolding t by blast
qed

definition quiet_hw :: "u32 \<Rightarrow> nat hw" where
  "quiet_hw freq = \<lparr>HAL_GPIO_WritePin = (\<lambda>_ _ e. e), HAL_SPI_TransmitReceive = (\<lambda>tx _ e. (HAL_OK, tx, e)),
     HAL_SPI_Transmit = (\<lambda>_ _ e. (HAL_OK, e)), HAL_UART_Transmit_IT = (\<lambda>_ e. (HAL_OK, e)),
     HAL_UART_Receive_IT = (\<lambda>e. (HAL_OK, e)), huart4_RxState_ready = (\<lambda>_. True),
     osKernelGetTickCount = (\<lambda>e. (of_nat e, e)), osKernelGetTickFreq = freq, SystemCoreClock = 170000000,
     DWT_CYCCNT = (\<lambda>e. (0, e)), DWT_enable = (\<lambda>e. (True, e)), xPortGetFreeHeapSize = (\<lambda>_. 4096),
     xPortGetMinimumEverFreeHeapSize = (\<lambda>_. 4096),
     HAL_Delay = (\<lambda>n s. s\<lparr>env := env s + unat n\<rparr>), sleep = (\<lambda>n s. s\<lparr>env := env s + unat n\<rparr>),
     suspend = (\<lambda>n s. s\<lparr>env := env s + unat n\<rparr>)\<rparr>"

theorem ms_to_ticks_rounds_up_witness:
  "1000 * unat (rs422_ms_to_kernel_ticks (quiet_hw 300) 10) < 10 * 300 + 1000 \<and>
    10 * 300 \<le> 1000 * unat (rs422_ms_to_kernel_ticks (quiet_hw 300) 10)"
  using ms_to_ticks_rounds_up [of 10 "quiet_hw 300"] by (simp add: quiet_hw_def)

end
