(* ===== verification/GwW5500.thy ===== *)
theory GwW5500
  imports GwDiag
begin

text \<open>
  The driver of the W5500 Ethernet controller: register and buffer access over SPI in
  variable-length data mode, the reset sequence, the network configuration, and the polling
  loops that wait for the chip. Register access touches only the hardware, so those functions
  are defined on it; the polling loops give up the processor and are defined on the whole
  state, with value \<open>None\<close> if they never end. Static functions are only called with the
  addresses of objects, so their null checks are never taken.
\<close>

subsection \<open>SPI primitives\<close>

text \<open>A receive buffer after a transfer: the received bytes overwrite its front.\<close>

definition rx_store :: "u8 list \<Rightarrow> u8 list \<Rightarrow> u8 list" where
  "rx_store buf miso = take (length buf) (miso @ drop (length miso) buf)"

lemma length_rx_store [simp]: "length (rx_store buf miso) = length buf"
  by (auto simp: rx_store_def)

definition spi_transfer :: "'e hw \<Rightarrow> u8 list \<Rightarrow> u8 list \<Rightarrow> 'e \<Rightarrow> HAL_StatusTypeDef \<times> u8 list \<times> 'e" where
  "spi_transfer hw tx rx e =
     (let (status, miso, e) = HAL_SPI_TransmitReceive hw tx W5500_SPI_TIMEOUT_MS e
      in (status, rx_store rx (take (length tx) miso), e))"

definition w5500_hardware_reset :: "'e hw \<Rightarrow> 'e gw \<Rightarrow> 'e gw" where
  "w5500_hardware_reset hw s =
     (let delay_ticks = (ucast ((ucast W5500_RESET_DELAY_MS * ucast (osKernelGetTickFreq hw) + 999 :: 64 word) div 1000) :: u32) + 1;
          s = s\<lparr>env := HAL_GPIO_WritePin hw W5500_CS True (env s)\<rparr>;
          s = s\<lparr>env := HAL_GPIO_WritePin hw W5500_RST False (env s)\<rparr>;
          s = osDelay hw delay_ticks s;
          s = s\<lparr>env := HAL_GPIO_WritePin hw W5500_RST True (env s)\<rparr>
      in osDelay hw delay_ticks s)"

subsection \<open>Common registers\<close>

definition w5500_read_common_register :: "'e hw \<Rightarrow> u16 \<Rightarrow> u8 \<Rightarrow> 'e \<Rightarrow> HAL_StatusTypeDef \<times> u8 \<times> 'e" where
  "w5500_read_common_register hw address value e =
     (let tx = [hi8 address, lo8 address, W5500_COMMON_READ_VDM, 0];
          rx = replicate 4 0;
          e = HAL_GPIO_WritePin hw W5500_CS False e;
          (status, rx, e) = spi_transfer hw tx rx e;
          e = HAL_GPIO_WritePin hw W5500_CS True e
      in (status, if status = HAL_OK then rx ! 3 else value, e))"

definition w5500_read_version :: "'e hw \<Rightarrow> u8 \<Rightarrow> 'e \<Rightarrow> HAL_StatusTypeDef \<times> u8 \<times> 'e" where
  "w5500_read_version hw version e = w5500_read_common_register hw W5500_VERSIONR_ADDRESS version e"

definition w5500_write_common_registers :: "'e hw \<Rightarrow> u16 \<Rightarrow> u8 list \<Rightarrow> nat \<Rightarrow> 'e \<Rightarrow> HAL_StatusTypeDef \<times> 'e" where
  "w5500_write_common_registers hw address data len e =
     (if len = 0 \<or> len > W5500_NET_MAX_REGISTER_LENGTH then (HAL_ERROR, e)
      else
        let tx = [hi8 address, lo8 address, W5500_COMMON_WRITE_VDM] @ take len data;
            e = HAL_GPIO_WritePin hw W5500_CS False e;
            (status, e) = HAL_SPI_Transmit hw tx W5500_SPI_TIMEOUT_MS e;
            e = HAL_GPIO_WritePin hw W5500_CS True e
        in (status, e))"

definition w5500_read_common_registers ::
  "'e hw \<Rightarrow> u16 \<Rightarrow> u8 list \<Rightarrow> nat \<Rightarrow> 'e \<Rightarrow> HAL_StatusTypeDef \<times> u8 list \<times> 'e" where
  "w5500_read_common_registers hw address data len e =
     (if len = 0 \<or> len > W5500_NET_MAX_REGISTER_LENGTH then (HAL_ERROR, data, e)
      else
        let tx = [hi8 address, lo8 address, W5500_COMMON_READ_VDM] @ replicate len 0;
            rx = replicate (W5500_COMMON_HEADER_LENGTH + W5500_NET_MAX_REGISTER_LENGTH) 0;
            e = HAL_GPIO_WritePin hw W5500_CS False e;
            (status, rx, e) = spi_transfer hw tx rx e;
            e = HAL_GPIO_WritePin hw W5500_CS True e
        in (status,
            if status = HAL_OK then memcpy_at data 0 (drop W5500_COMMON_HEADER_LENGTH rx) len else data, e))"

subsection \<open>Network configuration\<close>

definition w5500_write_network_config :: "'e hw \<Rightarrow> 'e \<Rightarrow> HAL_StatusTypeDef \<times> 'e" where
  "w5500_write_network_config hw e =
     (let (status, e) = w5500_write_common_registers hw W5500_GAR_ADDRESS g_w5500_net_gateway W5500_GAR_LENGTH e;
          (status, e) = (if status = HAL_OK
            then w5500_write_common_registers hw W5500_SUBR_ADDRESS g_w5500_net_subnet W5500_SUBR_LENGTH e
            else (status, e));
          (status, e) = (if status = HAL_OK
            then w5500_write_common_registers hw W5500_SHAR_ADDRESS g_w5500_net_mac W5500_SHAR_LENGTH e
            else (status, e))
      in if status = HAL_OK
         then w5500_write_common_registers hw W5500_SIPR_ADDRESS g_w5500_net_ip W5500_SIPR_LENGTH e
         else (status, e))"

definition w5500_read_network_config :: "'e hw \<Rightarrow> net_vars \<Rightarrow> 'e \<Rightarrow> HAL_StatusTypeDef \<times> net_vars \<times> 'e" where
  "w5500_read_network_config hw n e =
     (let (status, d, e) = w5500_read_common_registers hw W5500_GAR_ADDRESS (g_w5500_gar_readback n) W5500_GAR_LENGTH e;
          n = n\<lparr>g_w5500_gar_readback := d\<rparr>;
          (status, n, e) = (if status = HAL_OK then
              let (status, d, e) = w5500_read_common_registers hw W5500_SUBR_ADDRESS (g_w5500_subr_readback n) W5500_SUBR_LENGTH e
              in (status, n\<lparr>g_w5500_subr_readback := d\<rparr>, e)
            else (status, n, e));
          (status, n, e) = (if status = HAL_OK then
              let (status, d, e) = w5500_read_common_registers hw W5500_SHAR_ADDRESS (g_w5500_shar_readback n) W5500_SHAR_LENGTH e
              in (status, n\<lparr>g_w5500_shar_readback := d\<rparr>, e)
            else (status, n, e))
      in if status = HAL_OK then
           let (status, d, e) = w5500_read_common_registers hw W5500_SIPR_ADDRESS (g_w5500_sipr_readback n) W5500_SIPR_LENGTH e
           in (status, n\<lparr>g_w5500_sipr_readback := d\<rparr>, e)
         else (status, n, e))"

definition w5500_network_readback_matches :: "net_vars \<Rightarrow> u32" where
  "w5500_network_readback_matches n =
     (if list_ex (\<lambda>i. g_w5500_gar_readback n ! i \<noteq> g_w5500_net_gateway ! i \<or>
                      g_w5500_subr_readback n ! i \<noteq> g_w5500_net_subnet ! i \<or>
                      g_w5500_sipr_readback n ! i \<noteq> g_w5500_net_ip ! i) [0..<W5500_GAR_LENGTH] then 0
      else if list_ex (\<lambda>i. g_w5500_shar_readback n ! i \<noteq> g_w5500_net_mac ! i) [0..<W5500_SHAR_LENGTH] then 0
      else 1)"

subsection \<open>Socket 0 registers and buffers\<close>

definition w5500_socket0_write_registers :: "'e hw \<Rightarrow> u16 \<Rightarrow> u8 list \<Rightarrow> nat \<Rightarrow> 'e \<Rightarrow> HAL_StatusTypeDef \<times> 'e" where
  "w5500_socket0_write_registers hw address data len e =
     (if len = 0 \<or> len > W5500_SOCKET0_MAX_DATA_LENGTH then (HAL_ERROR, e)
      else
        let tx = [hi8 address, lo8 address, W5500_SOCKET0_WRITE_VDM] @ take len data;
            e = HAL_GPIO_WritePin hw W5500_CS False e;
            (status, e) = HAL_SPI_Transmit hw tx W5500_SPI_TIMEOUT_MS e;
            e = HAL_GPIO_WritePin hw W5500_CS True e
        in (status, e))"

definition w5500_socket0_read_register :: "'e hw \<Rightarrow> u16 \<Rightarrow> u8 \<Rightarrow> 'e \<Rightarrow> HAL_StatusTypeDef \<times> u8 \<times> 'e" where
  "w5500_socket0_read_register hw address value e =
     (let tx = [hi8 address, lo8 address, W5500_SOCKET0_READ_VDM, 0];
          rx = replicate 4 0;
          e = HAL_GPIO_WritePin hw W5500_CS False e;
          (status, rx, e) = spi_transfer hw tx rx e;
          e = HAL_GPIO_WritePin hw W5500_CS True e
      in (status, if status = HAL_OK then rx ! 3 else value, e))"

definition w5500_socket0_read_registers ::
  "'e hw \<Rightarrow> u16 \<Rightarrow> u8 list \<Rightarrow> nat \<Rightarrow> 'e \<Rightarrow> HAL_StatusTypeDef \<times> u8 list \<times> 'e" where
  "w5500_socket0_read_registers hw address data len e =
     (if len = 0 \<or> len > W5500_SOCKET0_MAX_DATA_LENGTH then (HAL_ERROR, data, e)
      else
        let tx = [hi8 address, lo8 address, W5500_SOCKET0_READ_VDM] @ replicate len 0;
            rx = replicate (W5500_COMMON_HEADER_LENGTH + W5500_SOCKET0_MAX_DATA_LENGTH) 0;
            e = HAL_GPIO_WritePin hw W5500_CS False e;
            (status, rx, e) = spi_transfer hw tx rx e;
            e = HAL_GPIO_WritePin hw W5500_CS True e
        in (status,
            if status = HAL_OK then memcpy_at data 0 (drop W5500_COMMON_HEADER_LENGTH rx) len else data, e))"

definition w5500_socket0_read_u16 :: "'e hw \<Rightarrow> u16 \<Rightarrow> u16 \<Rightarrow> 'e \<Rightarrow> HAL_StatusTypeDef \<times> u16 \<times> 'e" where
  "w5500_socket0_read_u16 hw address value e =
     (let (status, data, e) = w5500_socket0_read_registers hw address [0, 0] 2 e
      in (status, if status = HAL_OK then be16 (data ! 0) (data ! 1) else value, e))"

text \<open>The reading loop; \<open>n\<close> attempts are left.\<close>

fun stable_read ::
  "('e \<Rightarrow> HAL_StatusTypeDef \<times> u16 \<times> 'e) \<Rightarrow> nat \<Rightarrow> u16 option \<Rightarrow> u16 \<Rightarrow> 'e \<Rightarrow> HAL_StatusTypeDef \<times> u16 \<times> 'e" where
  "stable_read read_u16 0 previous value e = (HAL_TIMEOUT, value, e)"
| "stable_read read_u16 (Suc n) previous value e =
     (let (status, current, e) = read_u16 e
      in if status \<noteq> HAL_OK then (status, value, e)
         else if previous = Some current then (HAL_OK, current, e)
         else stable_read read_u16 n (Some current) value e)"

definition w5500_socket0_read_stable_u16 :: "'e hw \<Rightarrow> u16 \<Rightarrow> u16 \<Rightarrow> 'e \<Rightarrow> HAL_StatusTypeDef \<times> u16 \<times> 'e" where
  "w5500_socket0_read_stable_u16 hw address value e =
     stable_read (w5500_socket0_read_u16 hw address 0) W5500_TCP_STABLE_READ_ATTEMPTS None value e"

text \<open>
  The chunk loop of the two buffer writes: while the transfers succeed, send the next at most
  64 bytes and let the received bytes overwrite the discard buffer.
\<close>

function send_chunks ::
  "'e hw \<Rightarrow> nat \<Rightarrow> u8 list \<Rightarrow> nat \<Rightarrow> nat \<Rightarrow> u8 list \<Rightarrow> 'e \<Rightarrow> HAL_StatusTypeDef \<times> u8 list \<times> 'e" where
  "send_chunks hw chunk data len offset discard e =
     (if offset < len \<and> 0 < chunk then
        let remaining = len - offset;
            chunk_length = (if remaining > chunk then chunk else remaining);
            (status, discard, e) = spi_transfer hw (take chunk_length (drop offset data)) discard e
        in if status = HAL_OK then send_chunks hw chunk data len (offset + chunk_length) discard e
           else (status, discard, e)
      else (HAL_OK, discard, e))"
  by pat_completeness auto
termination
  by (relation "measure (\<lambda>(hw, chunk, data, len, offset, discard, e). len - offset)") auto

declare send_chunks.simps [simp del]

definition w5500_socket0_write_tx_buffer ::
  "'e hw \<Rightarrow> u16 \<Rightarrow> u8 list \<Rightarrow> nat \<Rightarrow> u8 list \<Rightarrow> 'e \<Rightarrow> HAL_StatusTypeDef \<times> u8 list \<times> 'e" where
  "w5500_socket0_write_tx_buffer hw address data len dummy e =
     (if len = 0 \<or> len > PROTOCOL_MAX_FRAME_SIZE then (HAL_ERROR, dummy, e)
      else
        let header = [hi8 address, lo8 address, W5500_SOCKET0_TX_BUFFER_WRITE_VDM];
            e = HAL_GPIO_WritePin hw W5500_CS False e;
            (status, _, e) = spi_transfer hw header (replicate 3 0) e;
            (status, dummy, e) = (if status = HAL_OK
              then send_chunks hw W5500_TCP_RX_CHUNK_SIZE data len 0 dummy e else (status, dummy, e));
            e = HAL_GPIO_WritePin hw W5500_CS True e
        in (status, dummy, e))"

definition w5500_socket0_read_rx_buffer ::
  "'e hw \<Rightarrow> u16 \<Rightarrow> u8 list \<Rightarrow> nat \<Rightarrow> u8 list \<Rightarrow> 'e \<Rightarrow> HAL_StatusTypeDef \<times> u8 list \<times> 'e" where
  "w5500_socket0_read_rx_buffer hw address data len dummy e =
     (if len = 0 \<or> len > W5500_TCP_RX_CHUNK_SIZE then (HAL_ERROR, data, e)
      else
        let header = [hi8 address, lo8 address, W5500_SOCKET0_RX_BUFFER_READ_VDM];
            e = HAL_GPIO_WritePin hw W5500_CS False e;
            (status, _, e) = spi_transfer hw header (replicate 3 0) e;
            (status, data, e) = (if status = HAL_OK
              then spi_transfer hw (take len dummy) data e else (status, data, e));
            e = HAL_GPIO_WritePin hw W5500_CS True e
        in (status, data, e))"

subsection \<open>Socket 1 registers and buffers\<close>

definition w5500_socket1_write_registers :: "'e hw \<Rightarrow> u16 \<Rightarrow> u8 list \<Rightarrow> nat \<Rightarrow> 'e \<Rightarrow> HAL_StatusTypeDef \<times> 'e" where
  "w5500_socket1_write_registers hw address data len e =
     (if len = 0 \<or> len > W5500_SOCKET1_MAX_DATA_LENGTH then (HAL_ERROR, e)
      else
        let tx = [hi8 address, lo8 address, W5500_SOCKET1_WRITE_VDM] @ take len data;
            e = HAL_GPIO_WritePin hw W5500_CS False e;
            (status, e) = HAL_SPI_Transmit hw tx W5500_SPI_TIMEOUT_MS e;
            e = HAL_GPIO_WritePin hw W5500_CS True e
        in (status, e))"

definition w5500_socket1_read_register :: "'e hw \<Rightarrow> u16 \<Rightarrow> u8 \<Rightarrow> 'e \<Rightarrow> HAL_StatusTypeDef \<times> u8 \<times> 'e" where
  "w5500_socket1_read_register hw address value e =
     (let tx = [hi8 address, lo8 address, W5500_SOCKET1_READ_VDM, 0];
          rx = replicate 4 0;
          e = HAL_GPIO_WritePin hw W5500_CS False e;
          (status, rx, e) = spi_transfer hw tx rx e;
          e = HAL_GPIO_WritePin hw W5500_CS True e
      in (status, if status = HAL_OK then rx ! 3 else value, e))"

definition w5500_socket1_read_registers ::
  "'e hw \<Rightarrow> u16 \<Rightarrow> u8 list \<Rightarrow> nat \<Rightarrow> 'e \<Rightarrow> HAL_StatusTypeDef \<times> u8 list \<times> 'e" where
  "w5500_socket1_read_registers hw address data len e =
     (if len = 0 \<or> len > W5500_SOCKET1_MAX_DATA_LENGTH then (HAL_ERROR, data, e)
      else
        let tx = [hi8 address, lo8 address, W5500_SOCKET1_READ_VDM] @ replicate len 0;
            rx = replicate (W5500_COMMON_HEADER_LENGTH + W5500_SOCKET1_MAX_DATA_LENGTH) 0;
            e = HAL_GPIO_WritePin hw W5500_CS False e;
            (status, rx, e) = spi_transfer hw tx rx e;
            e = HAL_GPIO_WritePin hw W5500_CS True e
        in (status,
            if status = HAL_OK then memcpy_at data 0 (drop W5500_COMMON_HEADER_LENGTH rx) len else data, e))"

definition w5500_socket1_read_u16 :: "'e hw \<Rightarrow> u16 \<Rightarrow> u16 \<Rightarrow> 'e \<Rightarrow> HAL_StatusTypeDef \<times> u16 \<times> 'e" where
  "w5500_socket1_read_u16 hw address value e =
     (let (status, data, e) = w5500_socket1_read_registers hw address [0, 0] 2 e
      in (status, if status = HAL_OK then be16 (data ! 0) (data ! 1) else value, e))"

definition w5500_socket1_read_stable_u16 :: "'e hw \<Rightarrow> u16 \<Rightarrow> u16 \<Rightarrow> 'e \<Rightarrow> HAL_StatusTypeDef \<times> u16 \<times> 'e" where
  "w5500_socket1_read_stable_u16 hw address value e =
     stable_read (w5500_socket1_read_u16 hw address 0) W5500_UDP_STABLE_READ_ATTEMPTS None value e"

definition w5500_socket1_write_tx_buffer ::
  "'e hw \<Rightarrow> u16 \<Rightarrow> u8 list \<Rightarrow> nat \<Rightarrow> u8 list \<Rightarrow> 'e \<Rightarrow> HAL_StatusTypeDef \<times> u8 list \<times> 'e" where
  "w5500_socket1_write_tx_buffer hw address data len discard e =
     (if len = 0 \<or> len > PROTOCOL_MAX_FRAME_SIZE then (HAL_ERROR, discard, e)
      else
        let header = [hi8 address, lo8 address, W5500_SOCKET1_TX_BUFFER_WRITE_VDM];
            e = HAL_GPIO_WritePin hw W5500_CS False e;
            (status, _, e) = spi_transfer hw header (replicate 3 0) e;
            (status, discard, e) = (if status = HAL_OK
              then send_chunks hw W5500_UDP_SPI_CHUNK_SIZE data len 0 discard e else (status, discard, e));
            e = HAL_GPIO_WritePin hw W5500_CS True e
        in (status, discard, e))"

subsection \<open>Waiting for the chip\<close>

text \<open>
  All waits have one shape: look at the chip; if that settles the result, return it; if the
  timeout has passed, give up; otherwise sleep for the polling interval and look again.
\<close>

partial_function (option) poll_loop ::
  "'e hw \<Rightarrow> ('e gw \<Rightarrow> HAL_StatusTypeDef option \<times> 'e gw) \<Rightarrow> u32 \<Rightarrow> u32 \<Rightarrow> u32 \<Rightarrow> 'e gw \<Rightarrow>
   (HAL_StatusTypeDef \<times> 'e gw) option" where
  "poll_loop hw look timeout_ticks poll_ticks start_tick s =
     (case fst (look s) of
        Some status \<Rightarrow> Some (status, snd (look s))
      | None \<Rightarrow>
          let (now, s) = get_tick hw (snd (look s))
          in if now - start_tick \<ge> timeout_ticks then Some (HAL_TIMEOUT, s)
             else poll_loop hw look timeout_ticks poll_ticks start_tick (osDelay hw poll_ticks s))"

definition poll_until :: "'e hw \<Rightarrow> ('e gw \<Rightarrow> HAL_StatusTypeDef option \<times> 'e gw) \<Rightarrow> u32 \<Rightarrow> u32 \<Rightarrow> 'e gw \<Rightarrow>
   (HAL_StatusTypeDef \<times> 'e gw) option" where
  "poll_until hw look timeout_ms poll_ms s =
     (let timeout_ticks = rs422_ms_to_kernel_ticks hw timeout_ms;
          poll_ticks = rs422_ms_to_kernel_ticks hw poll_ms;
          (start_tick, s) = get_tick hw s
      in poll_loop hw look timeout_ticks poll_ticks start_tick s)"

definition socket0_command_look :: "'e hw \<Rightarrow> u8 \<Rightarrow> 'e gw \<Rightarrow> HAL_StatusTypeDef option \<times> 'e gw" where
  "socket0_command_look hw command s =
     (let (status, command_register, e) = w5500_socket0_read_register hw W5500_SOCKET0_CR_ADDRESS command (env s);
          s = s\<lparr>env := e\<rparr>
      in (if status \<noteq> HAL_OK then Some status else if command_register = 0 then Some HAL_OK else None, s))"

definition w5500_socket0_execute_command :: "'e hw \<Rightarrow> u8 \<Rightarrow> 'e gw \<Rightarrow> (HAL_StatusTypeDef \<times> 'e gw) option" where
  "w5500_socket0_execute_command hw command s =
     (let (status, e) = w5500_socket0_write_registers hw W5500_SOCKET0_CR_ADDRESS [command] 1 (env s);
          s = s\<lparr>env := e\<rparr>
      in if status \<noteq> HAL_OK then Some (status, s)
         else poll_until hw (socket0_command_look hw command) W5500_SOCKET_COMMAND_TIMEOUT_MS W5500_SOCKET_COMMAND_POLL_MS s)"

definition socket1_command_look :: "'e hw \<Rightarrow> u8 \<Rightarrow> 'e gw \<Rightarrow> HAL_StatusTypeDef option \<times> 'e gw" where
  "socket1_command_look hw command s =
     (let (status, command_register, e) = w5500_socket1_read_register hw W5500_SOCKET1_CR_ADDRESS command (env s);
          s = s\<lparr>env := e\<rparr>
      in (if status \<noteq> HAL_OK then Some status else if command_register = 0 then Some HAL_OK else None, s))"

definition w5500_socket1_execute_command :: "'e hw \<Rightarrow> u8 \<Rightarrow> 'e gw \<Rightarrow> (HAL_StatusTypeDef \<times> 'e gw) option" where
  "w5500_socket1_execute_command hw command s =
     (let (status, e) = w5500_socket1_write_registers hw W5500_SOCKET1_CR_ADDRESS [command] 1 (env s);
          s = s\<lparr>env := e\<rparr>
      in if status \<noteq> HAL_OK then Some (status, s)
         else poll_until hw (socket1_command_look hw command) W5500_SOCKET_COMMAND_TIMEOUT_MS W5500_SOCKET_COMMAND_POLL_MS s)"

definition socket0_status_look :: "'e hw \<Rightarrow> u8 \<Rightarrow> 'e gw \<Rightarrow> HAL_StatusTypeDef option \<times> 'e gw" where
  "socket0_status_look hw expected_status s =
     (let (spi_status, socket_status, e) =
            w5500_socket0_read_register hw W5500_SOCKET0_SR_ADDRESS W5500_SOCKET0_STATUS_CLOSED (env s);
          s = s\<lparr>env := e, tcp := (tcp s)\<lparr>g_w5500_socket0_spi_status := hal_status_value spi_status\<rparr>\<rparr>
      in if spi_status \<noteq> HAL_OK then (Some spi_status, s)
         else
           let s = s\<lparr>tcp := (tcp s)\<lparr>g_w5500_socket0_status := socket_status\<rparr>\<rparr>
           in (if socket_status = expected_status then Some HAL_OK else None, s))"

definition w5500_wait_for_socket0_status :: "'e hw \<Rightarrow> u8 \<Rightarrow> u32 \<Rightarrow> 'e gw \<Rightarrow> (HAL_StatusTypeDef \<times> 'e gw) option" where
  "w5500_wait_for_socket0_status hw expected_status timeout_ms s =
     poll_until hw (socket0_status_look hw expected_status) timeout_ms W5500_SOCKET_STATE_POLL_MS s"

definition socket1_status_look :: "'e hw \<Rightarrow> u8 \<Rightarrow> 'e gw \<Rightarrow> HAL_StatusTypeDef option \<times> 'e gw" where
  "socket1_status_look hw expected_status s =
     (let (spi_status, socket_status, e) =
            w5500_socket1_read_register hw W5500_SOCKET1_SR_ADDRESS W5500_SOCKET1_STATUS_CLOSED (env s);
          s = s\<lparr>env := e, udp := (udp s)\<lparr>g_w5500_udp_socket1_spi_status := hal_status_value spi_status\<rparr>\<rparr>
      in if spi_status \<noteq> HAL_OK then (Some spi_status, s)
         else
           let s = s\<lparr>udp := (udp s)\<lparr>g_w5500_udp_socket1_status := socket_status\<rparr>\<rparr>
           in (if socket_status = expected_status then Some HAL_OK else None, s))"

definition w5500_wait_for_socket1_status :: "'e hw \<Rightarrow> u8 \<Rightarrow> u32 \<Rightarrow> 'e gw \<Rightarrow> (HAL_StatusTypeDef \<times> 'e gw) option" where
  "w5500_wait_for_socket1_status hw expected_status timeout_ms s =
     poll_until hw (socket1_status_look hw expected_status) timeout_ms W5500_SOCKET_STATE_POLL_MS s"

end
