(* ===== verification/GwBus.thy ===== *)
theory GwBus
  imports GwW5500 Timing
begin

text \<open>
  What the W5500 driver relies on from its hardware, as named hypotheses, and what it
  guarantees on the SPI bus and in time.

  \<open>bus_ok hw log cur\<close> says how the calls appear on the bus: \<open>log\<close> is the list of
  completed chip-select frames, \<open>cur\<close> the bytes sent since the chip select went low, and
  only the task that runs uses the bus. \<open>clock_ok hw now G B\<close> is about time: \<open>now\<close> is a clock
  that never goes back, with \<open>G\<close> steps per kernel tick, a call takes at most \<open>B\<close> ticks,
  sleeping for \<open>n\<close> ticks takes at least \<open>n\<close> and at most \<open>n + B\<close> ticks, and a wait
  for flags takes at least one clock step and at most \<open>n + B\<close> ticks.
\<close>

named_theorems driver_defs "definitions of the register access functions"

lemmas [driver_defs] = w5500_read_common_register_def w5500_read_version_def w5500_write_common_registers_def
  w5500_read_common_registers_def w5500_socket0_write_registers_def w5500_socket0_read_register_def
  w5500_socket0_read_registers_def w5500_socket0_read_u16_def w5500_socket1_write_registers_def
  w5500_socket1_read_register_def w5500_socket1_read_registers_def w5500_socket1_read_u16_def

subsection \<open>The bus\<close>

definition bus_ok :: "'e hw \<Rightarrow> ('e \<Rightarrow> u8 list list) \<Rightarrow> ('e \<Rightarrow> u8 list) \<Rightarrow> bool" where
  "bus_ok hw log cur \<longleftrightarrow>
     (\<forall>e. log (HAL_GPIO_WritePin hw W5500_CS False e) = log e \<and> cur (HAL_GPIO_WritePin hw W5500_CS False e) = []) \<and>
     (\<forall>e. log (HAL_GPIO_WritePin hw W5500_CS True e) = log e @ [cur e]) \<and>
     (\<forall>tx t e st rx e'. HAL_SPI_TransmitReceive hw tx t e = (st, rx, e') \<longrightarrow>
        log e' = log e \<and> (st = HAL_OK \<longrightarrow> cur e' = cur e @ tx)) \<and>
     (\<forall>tx t e st e'. HAL_SPI_Transmit hw tx t e = (st, e') \<longrightarrow>
        log e' = log e \<and> (st = HAL_OK \<longrightarrow> cur e' = cur e @ tx)) \<and>
     (\<forall>e. log (snd (osKernelGetTickCount hw e)) = log e) \<and>
     (\<forall>n s. log (env (sleep hw n s)) = log (env s))"

text \<open>A call that ran one chip-select frame; a successful one sent exactly these bytes.\<close>

definition one_frame :: "('e \<Rightarrow> u8 list list) \<Rightarrow> HAL_StatusTypeDef \<Rightarrow> u8 list \<Rightarrow> 'e \<Rightarrow> 'e \<Rightarrow> bool" where
  "one_frame log st bytes e e' \<longleftrightarrow> (\<exists>f. log e' = log e @ [f] \<and> (st = HAL_OK \<longrightarrow> f = bytes))"

lemma bus_transfer:
  assumes "bus_ok hw log cur" "spi_transfer hw tx rx e = (st, rx', e')"
  shows "log e' = log e \<and> (st = HAL_OK \<longrightarrow> cur e' = cur e @ tx)"
  using assms by (fastforce simp: bus_ok_def spi_transfer_def split: prod.splits)

lemma bus_select [simp]:
  assumes "bus_ok hw log cur"
  shows "log (HAL_GPIO_WritePin hw W5500_CS False e) = log e" "cur (HAL_GPIO_WritePin hw W5500_CS False e) = []"
    "log (HAL_GPIO_WritePin hw W5500_CS True e) = log e @ [cur e]"
  using assms by (simp_all add: bus_ok_def)

lemma frame_transfer:
  assumes "bus_ok hw log cur"
    and "spi_transfer hw tx rx (HAL_GPIO_WritePin hw W5500_CS False e) = (st, rx', e1)"
  shows "one_frame log st tx e (HAL_GPIO_WritePin hw W5500_CS True e1)"
  using bus_transfer [OF assms] bus_select [OF assms(1)] by (auto simp: one_frame_def)

lemma frame_transmit:
  assumes "bus_ok hw log cur"
    and "HAL_SPI_Transmit hw tx t (HAL_GPIO_WritePin hw W5500_CS False e) = (st, e1)"
  shows "one_frame log st tx e (HAL_GPIO_WritePin hw W5500_CS True e1)"
proof -
  have "log e1 = log (HAL_GPIO_WritePin hw W5500_CS False e) \<and>
    (st = HAL_OK \<longrightarrow> cur e1 = cur (HAL_GPIO_WritePin hw W5500_CS False e) @ tx)"
    using assms unfolding bus_ok_def by blast
  then show ?thesis using bus_select [OF assms(1)] by (auto simp: one_frame_def)
qed

lemma read_register_frame:
  assumes "bus_ok hw log cur"
  shows "w5500_read_common_register hw a v e = (st, w, e') \<Longrightarrow> one_frame log st [hi8 a, lo8 a, 0x00, 0] e e'"
    and "w5500_socket0_read_register hw a v e = (st, w, e') \<Longrightarrow> one_frame log st [hi8 a, lo8 a, 0x08, 0] e e'"
    and "w5500_socket1_read_register hw a v e = (st, w, e') \<Longrightarrow> one_frame log st [hi8 a, lo8 a, 0x28, 0] e e'"
  by (auto simp: driver_defs Let_def split: prod.splits intro: frame_transfer [OF assms])

lemma write_registers_frame:
  assumes "bus_ok hw log cur"
  shows "w5500_write_common_registers hw a d n e = (st, e') \<Longrightarrow> 0 < n \<Longrightarrow> n \<le> 6 \<Longrightarrow>
      one_frame log st ([hi8 a, lo8 a, 0x04] @ take n d) e e'"
    and "w5500_socket0_write_registers hw a d n e = (st, e') \<Longrightarrow> 0 < n \<Longrightarrow> n \<le> 2 \<Longrightarrow>
      one_frame log st ([hi8 a, lo8 a, 0x0c] @ take n d) e e'"
    and "w5500_socket1_write_registers hw a d n e = (st, e') \<Longrightarrow> 0 < n \<Longrightarrow> n \<le> 4 \<Longrightarrow>
      one_frame log st ([hi8 a, lo8 a, 0x2c] @ take n d) e e'"
  by (auto simp: driver_defs Let_def split: prod.splits if_splits intro: frame_transmit [OF assms])

lemma read_registers_frame:
  assumes "bus_ok hw log cur"
  shows "w5500_socket0_read_u16 hw a v e = (st, w, e') \<Longrightarrow> one_frame log st [hi8 a, lo8 a, 0x08, 0, 0] e e'"
    and "w5500_socket1_read_u16 hw a v e = (st, w, e') \<Longrightarrow> one_frame log st [hi8 a, lo8 a, 0x28, 0, 0] e e'"
  by (auto simp: driver_defs Let_def numeral_2_eq_2 split: prod.splits dest!: frame_transfer [OF assms])

lemma send_chunks_step:
  "off < len \<Longrightarrow> 0 < chunk \<Longrightarrow> k = (if len - off > chunk then chunk else len - off) \<Longrightarrow>
   send_chunks hw chunk data len off d e =
     (let (st, d1, e1) = spi_transfer hw (take k (drop off data)) d e
      in if st = HAL_OK then send_chunks hw chunk data len (off + k) d1 e1 else (st, d1, e1))"
  by (subst send_chunks.simps) (auto simp: Let_def split: prod.split)

lemma send_chunks_bus:
  assumes bus: "bus_ok hw log cur" and "0 < chunk" and "len \<le> length data"
  shows "send_chunks hw chunk data len off d e = (st, d', e') \<Longrightarrow> off \<le> len \<Longrightarrow>
    log e' = log e \<and> (st = HAL_OK \<longrightarrow> cur e' = cur e @ take (len - off) (drop off data))"
proof (induction "len - off" arbitrary: off d e rule: less_induct)
  case less
  show ?case
  proof (cases "off < len")
    case False
    with less.prems show ?thesis by (simp add: send_chunks.simps [of _ _ _ _ off])
  next
    case True
    define k where "k = (if len - off > chunk then chunk else len - off)"
    have k: "0 < k" "off + k \<le> len" using True \<open>0 < chunk\<close> by (auto simp: k_def)
    obtain s1 d1 e1 where t: "spi_transfer hw (take k (drop off data)) d e = (s1, d1, e1)"
      by (cases "spi_transfer hw (take k (drop off data)) d e")
    have rec: "(st, d', e') = (if s1 = HAL_OK then send_chunks hw chunk data len (off + k) d1 e1 else (s1, d1, e1))"
      using t unfolding less.prems(1) [symmetric] send_chunks_step [OF True \<open>0 < chunk\<close> k_def] by simp
    note bt = bus_transfer [OF bus t]
    show ?thesis
    proof (cases "s1 = HAL_OK")
      case True
      with rec have "send_chunks hw chunk data len (off + k) d1 e1 = (st, d', e')" by simp
      from less.hyps [OF _ this k(2)] k bt True
      have "log e' = log e" "st = HAL_OK \<longrightarrow> cur e' = cur e @ take k (drop off data) @ take (len - (off + k)) (drop (off + k) data)"
        by auto
      moreover have "take k (drop off data) @ take (len - (off + k)) (drop (off + k) data) = take (len - off) (drop off data)"
        using k take_add [of k "len - (off + k)" "drop off data"] by (simp add: add.commute)
      ultimately show ?thesis by simp
    qed (use rec bt in auto)
  qed
qed

lemma chunked_frame:
  assumes bus: "bus_ok hw log cur" and n: "n \<le> length d"
    and run: "(let e = HAL_GPIO_WritePin hw W5500_CS False e;
        (s, _, e) = spi_transfer hw h z e;
        (s, b, e) = (if s = HAL_OK then send_chunks hw 64 d n 0 b e else (s, b, e));
        e = HAL_GPIO_WritePin hw W5500_CS True e in (s, b, e)) = (st, b', e')"
  shows "one_frame log st (h @ take n d) e e'"
proof -
  obtain s1 z1 e1 where h: "spi_transfer hw h z (HAL_GPIO_WritePin hw W5500_CS False e) = (s1, z1, e1)"
    by (cases "spi_transfer hw h z (HAL_GPIO_WritePin hw W5500_CS False e)")
  note bt = bus_transfer [OF bus h] bus_select [OF bus]
  show ?thesis
  proof (cases "s1 = HAL_OK")
    case True
    obtain s2 b2 e2 where c: "send_chunks hw 64 d n 0 b e1 = (s2, b2, e2)" by (cases "send_chunks hw 64 d n 0 b e1")
    with run h True have "st = s2" "e' = HAL_GPIO_WritePin hw W5500_CS True e2" by simp_all
    with send_chunks_bus [OF bus _ n c] bt True show ?thesis by (auto simp: one_frame_def)
  next
    case False
    with run h have "st = s1" "e' = HAL_GPIO_WritePin hw W5500_CS True e1" by simp_all
    with bt False show ?thesis by (auto simp: one_frame_def)
  qed
qed

lemma tx_buffer_frame:
  assumes bus: "bus_ok hw log cur" and n: "0 < n" "n \<le> 266" "n \<le> length d"
  shows "w5500_socket0_write_tx_buffer hw a d n b e = (st, b', e') \<Longrightarrow>
      one_frame log st ([hi8 a, lo8 a, 0x14] @ take n d) e e'"
    and "w5500_socket1_write_tx_buffer hw a d n b e = (st, b', e') \<Longrightarrow>
      one_frame log st ([hi8 a, lo8 a, 0x34] @ take n d) e e'"
proof -
  assume "w5500_socket0_write_tx_buffer hw a d n b e = (st, b', e')"
  then show "one_frame log st ([hi8 a, lo8 a, 0x14] @ take n d) e e'"
    using n by (intro chunked_frame [OF bus n(3), where z = "replicate 3 0" and b = b and b' = b'])
      (simp add: w5500_socket0_write_tx_buffer_def cong: if_cong)
next
  assume "w5500_socket1_write_tx_buffer hw a d n b e = (st, b', e')"
  then show "one_frame log st ([hi8 a, lo8 a, 0x34] @ take n d) e e'"
    using n by (intro chunked_frame [OF bus n(3), where z = "replicate 3 0" and b = b and b' = b'])
      (simp add: w5500_socket1_write_tx_buffer_def cong: if_cong)
qed

subsection \<open>Time\<close>

definition ticks_of :: "('e \<Rightarrow> nat) \<Rightarrow> nat \<Rightarrow> 'e \<Rightarrow> nat" where
  "ticks_of now G e = now e div G"

definition within :: "('e \<Rightarrow> nat) \<Rightarrow> nat \<Rightarrow> nat \<Rightarrow> 'e \<Rightarrow> 'e \<Rightarrow> bool" where
  "within now G n e e' \<longleftrightarrow> now e \<le> now e' \<and> ticks_of now G e' \<le> ticks_of now G e + n"

definition clock_ok :: "'e hw \<Rightarrow> ('e \<Rightarrow> nat) \<Rightarrow> nat \<Rightarrow> nat \<Rightarrow> bool" where
  "clock_ok hw now G B \<longleftrightarrow> 0 < G \<and>
     (\<forall>p b e. within now G B e (HAL_GPIO_WritePin hw p b e)) \<and>
     (\<forall>tx t e. within now G B e (snd (snd (HAL_SPI_TransmitReceive hw tx t e)))) \<and>
     (\<forall>tx t e. within now G B e (snd (HAL_SPI_Transmit hw tx t e))) \<and>
     (\<forall>tx e. within now G B e (snd (HAL_UART_Transmit_IT hw tx e))) \<and>
     (\<forall>e. within now G B e (snd (osKernelGetTickCount hw e)) \<and>
        fst (osKernelGetTickCount hw e) = of_nat (ticks_of now G (snd (osKernelGetTickCount hw e)))) \<and>
     (\<forall>n s. within now G (unat n + B) (env s) (env (HAL_Delay hw n s))) \<and>
     (\<forall>n s. within now G (unat n + B) (env s) (env (sleep hw n s)) \<and>
        ticks_of now G (env s) + unat n \<le> ticks_of now G (env (sleep hw n s))) \<and>
     (\<forall>n s. within now G (unat n + B) (env s) (env (suspend hw n s)) \<and> now (env s) < now (env (suspend hw n s)))"

lemma ticks_mono: "now e \<le> now e' \<Longrightarrow> ticks_of now G e \<le> ticks_of now G e'"
  by (simp add: ticks_of_def div_le_mono)

lemma within_refl [simp]: "within now G n e e"
  by (simp add: within_def)

lemma within_trans: "within now G a e e' \<Longrightarrow> within now G b e' e'' \<Longrightarrow> a + b \<le> n \<Longrightarrow> within now G n e e''"
  by (auto simp: within_def)

lemma within_mono: "within now G a e e' \<Longrightarrow> a \<le> b \<Longrightarrow> within now G b e e'"
  by (auto simp: within_def)

lemma clock_transfer:
  assumes "clock_ok hw now G B" "spi_transfer hw tx rx e = (st, rx', e')"
  shows "within now G B e e'"
proof -
  have "e' = snd (snd (HAL_SPI_TransmitReceive hw tx 100 e))"
    using assms(2) by (auto simp: spi_transfer_def split: prod.splits)
  with assms(1) show ?thesis by (simp add: clock_ok_def)
qed

lemma clock_transmit:
  "clock_ok hw now G B \<Longrightarrow> HAL_SPI_Transmit hw tx t e = (st, e') \<Longrightarrow> within now G B e e'"
  unfolding clock_ok_def by (metis snd_conv)

lemma clock_pin: "clock_ok hw now G B \<Longrightarrow> within now G B e (HAL_GPIO_WritePin hw p b e)"
  by (simp add: clock_ok_def)

lemma clock_frame_transfer:
  assumes "clock_ok hw now G B" "spi_transfer hw tx rx (HAL_GPIO_WritePin hw W5500_CS False e) = (st, rx', e1)"
  shows "within now G (3 * B) e (HAL_GPIO_WritePin hw W5500_CS True e1)"
  by (rule within_trans [OF within_trans [OF clock_pin clock_transfer [OF assms] order_refl] clock_pin]) (use assms in auto)

lemma clock_frame_transmit:
  assumes "clock_ok hw now G B" "HAL_SPI_Transmit hw tx t (HAL_GPIO_WritePin hw W5500_CS False e) = (st, e1)"
  shows "within now G (3 * B) e (HAL_GPIO_WritePin hw W5500_CS True e1)"
  by (rule within_trans [OF within_trans [OF clock_pin clock_transmit [OF assms] order_refl] clock_pin]) (use assms in auto)

lemma register_time:
  assumes "clock_ok hw now G B"
  shows "w5500_read_common_register hw a v e = (st, w, e') \<Longrightarrow> within now G (3 * B) e e'"
    and "w5500_socket0_read_register hw a v e = (st, w, e') \<Longrightarrow> within now G (3 * B) e e'"
    and "w5500_socket1_read_register hw a v e = (st, w, e') \<Longrightarrow> within now G (3 * B) e e'"
    and "w5500_socket0_write_registers hw a d n e = (st, e') \<Longrightarrow> within now G (3 * B) e e'"
    and "w5500_socket1_write_registers hw a d n e = (st, e') \<Longrightarrow> within now G (3 * B) e e'"
    and "w5500_socket0_read_u16 hw a x e = (st, y, e') \<Longrightarrow> within now G (3 * B) e e'"
    and "w5500_socket1_read_u16 hw a x e = (st, y, e') \<Longrightarrow> within now G (3 * B) e e'"
  by (auto simp: driver_defs Let_def split: prod.splits if_splits
      intro: clock_frame_transfer [OF assms] clock_frame_transmit [OF assms])

lemma stable_read_time:
  assumes f: "\<And>e st w e'. f e = (st, w, e') \<Longrightarrow> within now G b e e'"
  shows "stable_read f n p v e = (st, w, e') \<Longrightarrow> within now G (n * b) e e'"
proof (induction n arbitrary: p e)
  case (Suc n)
  obtain s1 c e1 where r: "f e = (s1, c, e1)" by (cases "f e")
  have "within now G b e e1" by (rule f [OF r])
  with Suc r show ?case
    by (auto split: if_splits intro: within_mono elim!: within_trans)
qed simp

subsection \<open>Stable reads\<close>

text \<open>The first \<open>n\<close> consecutive results of a reading function.\<close>

fun reads :: "('e \<Rightarrow> HAL_StatusTypeDef \<times> u16 \<times> 'e) \<Rightarrow> nat \<Rightarrow> 'e \<Rightarrow> (HAL_StatusTypeDef \<times> u16) list" where
  "reads f 0 e = []"
| "reads f (Suc n) e = (let (st, v, e) = f e in (st, v) # reads f n e)"

text \<open>Where the loop stops: at a failed read, or at a value equal to the one before it.\<close>

fun settle :: "u16 option \<Rightarrow> (HAL_StatusTypeDef \<times> u16) list \<Rightarrow> HAL_StatusTypeDef \<times> u16 option" where
  "settle p [] = (HAL_TIMEOUT, None)"
| "settle p ((st, v) # xs) = (if st \<noteq> HAL_OK then (st, None) else if p = Some v then (HAL_OK, Some v) else settle (Some v) xs)"

lemma stable_read_settle:
  "stable_read f n p v e = (st, w, e') \<Longrightarrow>
   st = fst (settle p (reads f n e)) \<and> w = (case snd (settle p (reads f n e)) of None \<Rightarrow> v | Some x \<Rightarrow> x)"
  by (induction n arbitrary: p e) (auto split: if_splits prod.splits)

lemma length_reads: "length (reads f n e) = n"
  by (induction n arbitrary: e) (auto split: prod.split)

lemma settle_fail: "settle p xs = (st, r) \<Longrightarrow> st \<noteq> HAL_OK \<Longrightarrow> r = None"
  by (induction p xs rule: settle.induct) (auto split: if_splits)

lemma settle_ok:
  "settle p xs = (HAL_OK, r) \<Longrightarrow> \<exists>x. r = Some x \<and>
     ((\<exists>i. Suc i < length xs \<and> xs ! i = (HAL_OK, x) \<and> xs ! Suc i = (HAL_OK, x)) \<or> p = Some x \<and> xs \<noteq> [] \<and> hd xs = (HAL_OK, x))"
proof (induction p xs rule: settle.induct)
  case (2 p st v xs)
  show ?case
  proof (cases "st = HAL_OK \<and> p \<noteq> Some v")
    case True
    with 2 obtain x where x: "r = Some x"
      "(\<exists>i. Suc i < length xs \<and> xs ! i = (HAL_OK, x) \<and> xs ! Suc i = (HAL_OK, x)) \<or> v = x \<and> xs \<noteq> [] \<and> hd xs = (HAL_OK, x)"
      by auto
    from x(2) have "\<exists>i. Suc i < length ((st, v) # xs) \<and> ((st, v) # xs) ! i = (HAL_OK, x) \<and> ((st, v) # xs) ! Suc i = (HAL_OK, x)"
    proof
      assume "\<exists>i. Suc i < length xs \<and> xs ! i = (HAL_OK, x) \<and> xs ! Suc i = (HAL_OK, x)"
      then obtain i where "Suc i < length xs" "xs ! i = (HAL_OK, x)" "xs ! Suc i = (HAL_OK, x)" by blast
      then show ?thesis by (intro exI [of _ "Suc i"]) simp
    next
      assume "v = x \<and> xs \<noteq> [] \<and> hd xs = (HAL_OK, x)"
      then show ?thesis using True by (intro exI [of _ 0]) (auto simp: hd_conv_nth)
    qed
    with x(1) show ?thesis by blast
  qed (use 2 in \<open>auto split: if_splits\<close>)
qed simp

lemma stable_read_log:
  assumes f: "\<And>e st w e'. f e = (st, w, e') \<Longrightarrow> one_frame log st fr e e'" and st: "stable_read f n p v e = (HAL_OK, w, e')"
  shows "\<exists>k. log e' = log e @ replicate k fr"
  using st
proof (induction n arbitrary: p e)
  case (Suc n)
  obtain s1 c e1 where r: "f e = (s1, c, e1)" by (cases "f e")
  with Suc.prems have ok: "s1 = HAL_OK" by (auto split: if_splits)
  with f [OF r] have l: "log e1 = log e @ [fr]" by (simp add: one_frame_def)
  show ?case
  proof (cases "p = Some c")
    case True
    with Suc.prems r ok have "e' = e1" by simp
    with l show ?thesis by (intro exI [of _ 1]) simp
  next
    case False
    with Suc r ok obtain k where "log e' = log e1 @ replicate k fr" by auto
    with l show ?thesis by (intro exI [of _ "Suc k"]) simp
  qed
qed simp

subsection \<open>Polling\<close>

text \<open>The rule for what a polling loop establishes if it ends.\<close>

lemma poll_loop_rule:
  assumes run: "poll_loop hw look T P t0 s = Some (st, s')" and inv: "I s"
    and settled: "\<And>s st t. I s \<Longrightarrow> look s = (Some st, t) \<Longrightarrow> Q st t"
    and late: "\<And>s t. I s \<Longrightarrow> look s = (None, t) \<Longrightarrow> Q HAL_TIMEOUT (snd (get_tick hw t))"
    and again: "\<And>s t. I s \<Longrightarrow> look s = (None, t) \<Longrightarrow> I (osDelay hw P (snd (get_tick hw t)))"
  shows "Q st s'"
proof -
  define R where "R h l (T' :: u32) P' (u :: u32) s r \<longleftrightarrow> (h = hw \<and> l = look \<and> P' = P \<and> I s \<longrightarrow> Q (fst r) (snd r))" for h l T' P' u s r
  have "R hw look T P t0 s (st, s')"
    using run
  proof (rule poll_loop.raw_induct [where P = R, rotated])
    fix loop h l T' P' u s r
    assume IH: "\<And>h l T' P' u s r. loop h l T' P' u s = Some r \<Longrightarrow> R h l T' P' u s r"
      and step: "(case fst (l s) of
          None \<Rightarrow> let (now, s) = get_tick h (snd (l s))
            in if T' \<le> now - u then Some (HAL_TIMEOUT, s) else loop h l T' P' u (osDelay h P' s)
        | Some status \<Rightarrow> Some (status, snd (l s))) = Some r"
    show "R h l T' P' u s r"
      unfolding R_def
    proof (intro impI, elim conjE)
      assume eq: "h = hw" "l = look" "P' = P" and I: "I s"
      obtain v t where look: "look s = (v, t)" by fastforce
      show "Q (fst r) (snd r)"
      proof (cases v)
        case (Some status)
        with step look eq settled [OF I] show ?thesis by auto
      next
        case None
        let ?t = "snd (get_tick hw t)"
        show ?thesis
        proof (cases "T' \<le> fst (get_tick hw t) - u")
          case True
          with step look eq None late [OF I] show ?thesis by (auto simp: Let_def)
        next
          case False
          with step look eq None have "loop hw look T' P u (osDelay hw P ?t) = Some r" by (simp add: Let_def)
          with IH again [OF I] look None show ?thesis by (auto simp: R_def)
        qed
      qed
    qed
  qed
  with inv show ?thesis by (simp add: R_def)
qed

text \<open>A polling loop ends, at the latest one polling interval after its timeout.\<close>

lemma clock_tick:
  assumes "clock_ok hw now G B"
  shows "within now G B (env s) (env (snd (get_tick hw s)))"
    "fst (get_tick hw s) = of_nat (ticks_of now G (env (snd (get_tick hw s))))"
  using assms by (simp_all add: clock_ok_def)

lemma clock_sleep:
  assumes "clock_ok hw now G B"
  shows "within now G (unat n + B) (env s) (env (osDelay hw n s))"
    "ticks_of now G (env s) + unat n \<le> ticks_of now G (env (osDelay hw n s))"
  using assms by (simp_all add: clock_ok_def osDelay_def)

lemma poll_loop_returns:
  assumes clk: "clock_ok hw now G B" and look: "\<And>s. within now G C (env s) (env (snd (look s)))"
    and P: "0 < unat P" and size: "unat T + unat P + C + 2 * B < 2 ^ 32"
  shows "\<lbrakk>T0 \<le> ticks_of now G (env s); ticks_of now G (env s) \<le> T0 + unat T + unat P + B\<rbrakk> \<Longrightarrow>
    returns (\<lambda>st s'. now (env s) \<le> now (env s') \<and> ticks_of now G (env s') \<le> T0 + unat T + unat P + C + 2 * B)
      (poll_loop hw look T P (of_nat T0) s)"
proof (induction "T0 + unat T - ticks_of now G (env s)" arbitrary: s rule: less_induct)
  case less
  define t where "t = snd (look s)"
  define u where "u = snd (get_tick hw t)"
  let ?k = "ticks_of now G"
  have t: "now (env s) \<le> now (env t)" "?k (env t) \<le> ?k (env s) + C" "?k (env s) \<le> ?k (env t)"
    using look [of s] by (simp_all add: t_def within_def ticks_mono)
  have u: "now (env t) \<le> now (env u)" "?k (env u) \<le> ?k (env t) + B" "?k (env t) \<le> ?k (env u)"
    "fst (get_tick hw t) = of_nat (?k (env u))"
    using clock_tick [OF clk, of t] by (simp_all add: u_def within_def ticks_mono)
  have due: "(fst (get_tick hw t) - of_nat T0 \<ge> T) \<longleftrightarrow> unat T \<le> ?k (env u) - T0"
    unfolding u(4) using less.prems t u size by (intro tick_diff) auto
  have body: "poll_loop hw look T P (of_nat T0) s =
      (case fst (look s) of Some st \<Rightarrow> Some (st, t)
       | None \<Rightarrow> if fst (get_tick hw t) - of_nat T0 \<ge> T then Some (HAL_TIMEOUT, u)
           else poll_loop hw look T P (of_nat T0) (osDelay hw P u))"
    by (subst poll_loop.simps) (simp add: t_def u_def Let_def split: option.split)
  consider st where "fst (look s) = Some st" | "fst (look s) = None" "unat T \<le> ?k (env u) - T0"
    | "fst (look s) = None" "\<not> unat T \<le> ?k (env u) - T0"
    by (cases "fst (look s)") auto
  then show ?case
  proof cases
    case 3
    let ?v = "osDelay hw P u"
    have v: "now (env u) \<le> now (env ?v)" "?k (env ?v) \<le> ?k (env u) + unat P + B" "?k (env u) + unat P \<le> ?k (env ?v)"
      using clock_sleep [OF clk, where n = P and s = u] by (simp_all add: within_def)
    have "returns (\<lambda>st s'. now (env ?v) \<le> now (env s') \<and> ?k (env s') \<le> T0 + unat T + unat P + C + 2 * B)
        (poll_loop hw look T P (of_nat T0) ?v)"
      using 3 t u v less.prems P by (intro less.hyps) auto
    then show ?thesis
      using 3 body due t u v by (auto elim!: returns_mono)
  qed (use body due t u less.prems in \<open>auto simp: wp\<close>)
qed

lemma ms_to_ticks_1000:
  assumes "osKernelGetTickFreq hw = 1000"
  shows "unat (rs422_ms_to_kernel_ticks hw ms) = max 1 (unat ms)"
proof -
  have f: "unat (osKernelGetTickFreq hw) = 1000" using assms by simp
  have "unat ms < 2 ^ 32" using unsigned_less [of ms, where 'a = nat] by simp
  then have "unat ms * 1000 + 999 < 1000 * 2 ^ 32" by simp
  moreover have "(unat ms * 1000 + 999) div 1000 = unat ms" by simp
  ultimately show ?thesis using ms_to_ticks_nat [of ms hw] f by simp
qed

lemma poll_until_returns:
  assumes clk: "clock_ok hw now G B" and freq: "osKernelGetTickFreq hw = 1000"
    and look: "\<And>s. within now G C (env s) (env (snd (look s)))"
    and ms: "0 < unat T" "0 < unat P" and size: "unat T + unat P + C + 3 * B < 2 ^ 32"
  shows "returns (\<lambda>st s'. within now G (unat T + unat P + C + 3 * B) (env s) (env s')) (poll_until hw look T P s)"
proof -
  define u where "u = snd (get_tick hw s)"
  have u: "within now G B (env s) (env u)" "fst (get_tick hw s) = of_nat (ticks_of now G (env u))"
    using clock_tick [OF clk, of s] by (simp_all add: u_def)
  have ticks: "unat (rs422_ms_to_kernel_ticks hw T) = unat T" "unat (rs422_ms_to_kernel_ticks hw P) = unat P"
    using ms_to_ticks_1000 [OF freq] ms by simp_all
  have "returns (\<lambda>st s'. now (env u) \<le> now (env s') \<and> ticks_of now G (env s') \<le> ticks_of now G (env u) + unat T + unat P + C + 2 * B)
      (poll_loop hw look (rs422_ms_to_kernel_ticks hw T) (rs422_ms_to_kernel_ticks hw P) (of_nat (ticks_of now G (env u))) u)"
    using poll_loop_returns [OF clk look, of "rs422_ms_to_kernel_ticks hw P" "rs422_ms_to_kernel_ticks hw T" "ticks_of now G (env u)" u]
      ms size by (simp add: ticks)
  then show ?thesis
    unfolding poll_until_def Let_def u(2) [symmetric] using u(1)
    by (auto simp: u_def within_def split: prod.split elim!: returns_mono)
qed

lemma command_look_time:
  assumes "clock_ok hw now G B"
  shows "within now G (3 * B) (env s) (env (snd (socket0_command_look hw c s)))"
    "within now G (3 * B) (env s) (env (snd (socket1_command_look hw c s)))"
    "within now G (3 * B) (env s) (env (snd (socket0_status_look hw c s)))"
    "within now G (3 * B) (env s) (env (snd (socket1_status_look hw c s)))"
  using register_time [OF assms]
  by (auto simp: socket0_command_look_def socket1_command_look_def socket0_status_look_def socket1_status_look_def
      Let_def split: prod.split)

lemma execute_command_returns:
  assumes clk: "clock_ok hw now G B" and freq: "osKernelGetTickFreq hw = 1000" and size: "B < 2 ^ 24"
  shows "returns (\<lambda>st s'. within now G (101 + 9 * B) (env s) (env s')) (w5500_socket0_execute_command hw c s)"
    and "returns (\<lambda>st s'. within now G (101 + 9 * B) (env s) (env s')) (w5500_socket1_execute_command hw c s)"
proof -
  note poll0 = poll_until_returns [OF clk freq command_look_time(1) [OF clk, where c = c], where T = 100 and P = 1]
  note poll1 = poll_until_returns [OF clk freq command_look_time(2) [OF clk, where c = c], where T = 100 and P = 1]
  show "returns (\<lambda>st s'. within now G (101 + 9 * B) (env s) (env s')) (w5500_socket0_execute_command hw c s)"
  proof -
    obtain st e where w: "w5500_socket0_write_registers hw 1 [c] 1 (env s) = (st, e)" by fastforce
    have "within now G (3 * B) (env s) e" by (rule register_time(4) [OF clk w])
    with w poll0 [where s = "s\<lparr>env := e\<rparr>"] size show ?thesis
      by (auto simp: w5500_socket0_execute_command_def Let_def wp intro: within_mono elim!: returns_mono within_trans)
  qed
  show "returns (\<lambda>st s'. within now G (101 + 9 * B) (env s) (env s')) (w5500_socket1_execute_command hw c s)"
  proof -
    obtain st e where w: "w5500_socket1_write_registers hw 1 [c] 1 (env s) = (st, e)" by fastforce
    have "within now G (3 * B) (env s) e" by (rule register_time(5) [OF clk w])
    with w poll1 [where s = "s\<lparr>env := e\<rparr>"] size show ?thesis
      by (auto simp: w5500_socket1_execute_command_def Let_def wp intro: within_mono elim!: returns_mono within_trans)
  qed
qed

lemma wait_for_status_returns:
  assumes clk: "clock_ok hw now G B" and freq: "osKernelGetTickFreq hw = 1000" and size: "B < 2 ^ 24"
  shows "returns (\<lambda>st s'. within now G (1010 + 6 * B) (env s) (env s')) (w5500_wait_for_socket0_status hw c 1000 s)"
    and "returns (\<lambda>st s'. within now G (1010 + 6 * B) (env s) (env s')) (w5500_wait_for_socket1_status hw c 1000 s)"
  using poll_until_returns [OF clk freq command_look_time(3) [OF clk, where c = c], where T = 1000 and P = 10 and s = s]
    poll_until_returns [OF clk freq command_look_time(4) [OF clk, where c = c], where T = 1000 and P = 10 and s = s] size
  by (auto simp: w5500_wait_for_socket0_status_def w5500_wait_for_socket1_status_def
      elim!: returns_mono within_mono)

subsection \<open>The network configuration on the chip\<close>

text \<open>
  The documented behaviour of the chip's common register block: a successful write frame stores
  its data from the frame's address on, a successful read frame returns what is stored there.
\<close>

definition mem_write :: "u16 \<Rightarrow> u8 list \<Rightarrow> (u16 \<Rightarrow> u8) \<Rightarrow> u16 \<Rightarrow> u8" where
  "mem_write a d m x = (if unat (x - a) < length d then d ! unat (x - a) else m x)"

definition common_mem :: "'e hw \<Rightarrow> ('e \<Rightarrow> u16 \<Rightarrow> u8) \<Rightarrow> bool" where
  "common_mem hw mem \<longleftrightarrow>
     (\<forall>a d t e e1. HAL_SPI_Transmit hw ([hi8 a, lo8 a, 0x04] @ d) t (HAL_GPIO_WritePin hw W5500_CS False e) = (HAL_OK, e1) \<longrightarrow>
        mem (HAL_GPIO_WritePin hw W5500_CS True e1) = mem_write a d (mem e)) \<and>
     (\<forall>a n t e miso e1. HAL_SPI_TransmitReceive hw ([hi8 a, lo8 a, 0x00] @ replicate n 0) t
          (HAL_GPIO_WritePin hw W5500_CS False e) = (HAL_OK, miso, e1) \<longrightarrow>
        mem (HAL_GPIO_WritePin hw W5500_CS True e1) = mem e \<and> length miso = 3 + n \<and>
        drop 3 miso = map (\<lambda>i. mem e (a + of_nat i)) [0..<n])"

lemma common_write:
  assumes "common_mem hw mem" "w5500_write_common_registers hw a d n e = (HAL_OK, e')" "n = length d"
  shows "mem e' = mem_write a d (mem e)"
  using assms by (auto simp: common_mem_def w5500_write_common_registers_def Let_def split: prod.splits if_splits)

lemma common_read:
  assumes "common_mem hw mem" "w5500_read_common_registers hw a d n e = (HAL_OK, d', e')" "length d = n"
  shows "mem e' = mem e \<and> d' = map (\<lambda>i. mem e (a + of_nat i)) [0..<n]"
proof -
  obtain miso e1 where x: "HAL_SPI_TransmitReceive hw ([hi8 a, lo8 a, 0x00] @ replicate n 0) 100
        (HAL_GPIO_WritePin hw W5500_CS False e) = (HAL_OK, miso, e1)"
    and n: "0 < n" "n \<le> 6" and e': "e' = HAL_GPIO_WritePin hw W5500_CS True e1"
    and d': "d' = memcpy_at d 0 (drop 3 (rx_store (replicate 9 0) (take (3 + n) miso))) n"
    using assms(2) by (auto simp: w5500_read_common_registers_def spi_transfer_def Let_def numeral_3_eq_3
        split: prod.splits if_splits)
  have m: "mem e' = mem e" "length miso = 3 + n" "drop 3 miso = map (\<lambda>i. mem e (a + of_nat i)) [0..<n]"
    using assms(1) x e' unfolding common_mem_def by blast+
  have "take n (drop 3 (rx_store (replicate 9 0) miso)) = drop 3 miso"
    using m(2) n by (simp add: rx_store_def drop_take)
  with d' m assms(3) show ?thesis by (simp add: memcpy_at_def)
qed

subsection \<open>Properties\<close>

text \<open>Writing a frame into a socket's transmit buffer in chunks of at most 64 bytes is one
  uninterrupted chip-select frame on the bus: on success exactly the address, the control byte of
  that buffer and the bytes of the frame; a length the function refuses causes no bus activity.\<close>

theorem tx_buffer_write_is_one_frame:
  assumes "bus_ok hw log cur" and "n \<le> length d"
    and "w5500_socket0_write_tx_buffer hw a d n b e = (st, b', e')"
    and "w5500_socket1_write_tx_buffer hw a d n c e = (st1, c', e1)"
  shows "if 0 < n \<and> n \<le> PROTOCOL_MAX_FRAME_SIZE
    then (st = HAL_OK \<longrightarrow> log e' = log e @ [[hi8 a, lo8 a, 0x14] @ take n d]) \<and>
      (st1 = HAL_OK \<longrightarrow> log e1 = log e @ [[hi8 a, lo8 a, 0x34] @ take n d])
    else st = HAL_ERROR \<and> e' = e \<and> st1 = HAL_ERROR \<and> e1 = e"
proof (cases "0 < n \<and> n \<le> 266")
  case True
  then have "one_frame log st ([hi8 a, lo8 a, 0x14] @ take n d) e e'" "one_frame log st1 ([hi8 a, lo8 a, 0x34] @ take n d) e e1"
    using tx_buffer_frame [OF assms(1) _ _ assms(2)] assms(3,4) by blast+
  with True show ?thesis by (auto simp: one_frame_def)
next
  case False
  with assms(3,4) show ?thesis
    by (auto simp: w5500_socket0_write_tx_buffer_def w5500_socket1_write_tx_buffer_def)
qed

text \<open>A simulated chip: the frames on the bus, the current frame, the common registers, the time.\<close>

record sim =
  sim_log :: "u8 list list"
  sim_cur :: "u8 list"
  sim_mem :: "u16 \<Rightarrow> u8"
  sim_time :: nat
  sim_uart :: "u8 list list"

definition sim_select :: "gpio_pin \<Rightarrow> bool \<Rightarrow> sim \<Rightarrow> sim" where
  "sim_select p b c = (if p = W5500_RST then c
     else if \<not> b then c\<lparr>sim_cur := []\<rparr>
     else c\<lparr>sim_log := sim_log c @ [sim_cur c],
            sim_mem := (let f = sim_cur c
              in if 3 \<le> length f \<and> f ! 2 = 0x04 then mem_write (be16 (f ! 0) (f ! 1)) (drop 3 f) (sim_mem c)
                 else sim_mem c)\<rparr>)"

definition sim_transfer :: "u8 list \<Rightarrow> u32 \<Rightarrow> sim \<Rightarrow> HAL_StatusTypeDef \<times> u8 list \<times> sim" where
  "sim_transfer tx t c = (HAL_OK,
     (if 3 \<le> length tx \<and> tx ! 2 = 0
      then [0, 0, 0] @ map (\<lambda>i. sim_mem c (be16 (tx ! 0) (tx ! 1) + of_nat i)) [0..<length tx - 3]
      else replicate (length tx) 0),
     c\<lparr>sim_cur := sim_cur c @ tx\<rparr>)"

definition sim_hw :: "sim hw" where
  "sim_hw = \<lparr>HAL_GPIO_WritePin = sim_select, HAL_SPI_TransmitReceive = sim_transfer,
     HAL_SPI_Transmit = (\<lambda>tx _ c. (HAL_OK, c\<lparr>sim_cur := sim_cur c @ tx\<rparr>)),
     HAL_UART_Transmit_IT = (\<lambda>f c. (HAL_OK, c\<lparr>sim_uart := sim_uart c @ [f]\<rparr>)),
     HAL_UART_Receive_IT = (\<lambda>c. (HAL_OK, c)), huart4_RxState_ready = (\<lambda>_. True),
     osKernelGetTickCount = (\<lambda>c. (of_nat (sim_time c), c)), osKernelGetTickFreq = 1000, SystemCoreClock = 170000000,
     DWT_CYCCNT = (\<lambda>c. (0, c)), DWT_enable = (\<lambda>c. (True, c)), xPortGetFreeHeapSize = (\<lambda>_. 4096),
     xPortGetMinimumEverFreeHeapSize = (\<lambda>_. 4096),
     HAL_Delay = (\<lambda>n s. s\<lparr>env := (env s)\<lparr>sim_time := sim_time (env s) + unat n\<rparr>\<rparr>),
     sleep = (\<lambda>n s. s\<lparr>env := (env s)\<lparr>sim_time := sim_time (env s) + unat n\<rparr>\<rparr>),
     suspend = (\<lambda>n s. s\<lparr>env := (env s)\<lparr>sim_time := sim_time (env s) + max 1 (unat n)\<rparr>\<rparr>)\<rparr>"

definition sim_init :: sim where
  "sim_init = \<lparr>sim_log = [], sim_cur = [], sim_mem = (\<lambda>_. 0), sim_time = 0, sim_uart = []\<rparr>"

lemma sim_bus_ok: "bus_ok sim_hw sim_log sim_cur"
  by (auto simp: bus_ok_def sim_hw_def sim_select_def sim_transfer_def)

lemma sim_clock_ok: "clock_ok sim_hw sim_time 1 1"
  by (auto simp: clock_ok_def sim_hw_def sim_select_def sim_transfer_def within_def ticks_of_def)

lemma nth_two [simp]: "(x # y # z # xs) ! 2 = z"
  by (simp add: numeral_2_eq_2)

lemma sim_common_mem: "common_mem sim_hw sim_mem"
  by (auto simp: common_mem_def sim_hw_def sim_select_def sim_transfer_def Let_def)

theorem tx_buffer_write_is_one_frame_witness:
  "\<exists>b' e'. w5500_socket0_write_tx_buffer sim_hw 0x1234 (replicate 70 7) 70 [] sim_init = (HAL_OK, b', e') \<and>
    sim_log e' = [[0x12, 0x34, 0x14] @ replicate 70 7]"
proof -
  obtain st b' e' where w: "w5500_socket0_write_tx_buffer sim_hw 0x1234 (replicate 70 7) 70 [] sim_init = (st, b', e')"
    by (cases "w5500_socket0_write_tx_buffer sim_hw 0x1234 (replicate 70 7) 70 [] sim_init")
  obtain st1 c' e1 where u: "w5500_socket1_write_tx_buffer sim_hw 0x1234 (replicate 70 7) 70 [] sim_init = (st1, c', e1)"
    by (cases "w5500_socket1_write_tx_buffer sim_hw 0x1234 (replicate 70 7) 70 [] sim_init")
  have ok: "fst (spi_transfer sim_hw tx rx c) = HAL_OK" for tx rx c
    by (simp add: spi_transfer_def sim_hw_def sim_transfer_def)
  have "st = HAL_OK"
    using w ok by (auto simp: w5500_socket0_write_tx_buffer_def Let_def send_chunks.simps [of _ 64]
        split: prod.splits if_splits) (metis fst_conv)+
  moreover have "hi8 0x1234 = 0x12" "lo8 0x1234 = 0x34" by (simp_all add: hi8_def lo8_def)
  ultimately show ?thesis
    using tx_buffer_write_is_one_frame [OF sim_bus_ok _ w u] w by (simp add: sim_init_def)
qed

text \<open>A 16-bit register that the chip may be changing is only believed when two consecutive
  reads agree: success means the returned value was read twice in a row among the at most eight
  reads; otherwise the caller's value is unchanged. Two equal first reads succeed at once.\<close>

theorem stable_read_needs_agreement:
  assumes "w5500_socket0_read_stable_u16 hw a v e = (st, w, e')"
  shows "let r = reads (w5500_socket0_read_u16 hw a 0) W5500_TCP_STABLE_READ_ATTEMPTS e in
    (st = HAL_OK \<longrightarrow> (\<exists>i < 7. r ! i = (HAL_OK, w) \<and> r ! Suc i = (HAL_OK, w))) \<and>
    (st \<noteq> HAL_OK \<longrightarrow> w = v) \<and>
    (r ! 0 = r ! 1 \<and> fst (r ! 0) = HAL_OK \<longrightarrow> st = HAL_OK \<and> w = snd (r ! 0))"
proof -
  define r where "r = reads (w5500_socket0_read_u16 hw a 0) 8 e"
  have len: "length r = 8" unfolding r_def by (simp add: length_reads)
  have run: "st = fst (settle None r)" "w = (case snd (settle None r) of None \<Rightarrow> v | Some x \<Rightarrow> x)"
    using stable_read_settle [of _ 8 None v e st w e'] assms by (simp_all add: w5500_socket0_read_stable_u16_def r_def)
  have "st = HAL_OK \<Longrightarrow> \<exists>i < 7. r ! i = (HAL_OK, w) \<and> r ! Suc i = (HAL_OK, w)"
    using settle_ok [of None r "snd (settle None r)"] run len by (cases "settle None r") force
  moreover have "st \<noteq> HAL_OK \<Longrightarrow> w = v" using run settle_fail [of None r] by (cases "settle None r") auto
  moreover have "st = HAL_OK \<and> w = snd (r ! 0)" if "r ! 0 = r ! 1" "fst (r ! 0) = HAL_OK"
  proof -
    obtain x r1 where r: "r = x # r1" using len by (cases r) auto
    obtain y z where "r1 = y # z" using len r by (cases r1) auto
    with that run r show ?thesis by (cases x) auto
  qed
  ultimately show ?thesis unfolding Let_def r_def by auto
qed

theorem stable_read_needs_agreement_witness:
  "\<exists>e'. w5500_socket0_read_stable_u16 sim_hw 0x26 9 sim_init = (HAL_OK, 0, e')"
proof -
  obtain st w e' where r: "w5500_socket0_read_stable_u16 sim_hw 0x26 9 sim_init = (st, w, e')"
    by (cases "w5500_socket0_read_stable_u16 sim_hw 0x26 9 sim_init")
  have read: "w5500_socket0_read_u16 sim_hw 0x26 0 c = (HAL_OK, 0, snd (snd (w5500_socket0_read_u16 sim_hw 0x26 0 c)))" for c
  proof -
    have "spi_transfer sim_hw ([hi8 0x26, lo8 0x26, 8] @ replicate 2 0) (replicate 5 0) d =
        (HAL_OK, replicate 5 0, d\<lparr>sim_cur := sim_cur d @ [hi8 0x26, lo8 0x26, 8] @ replicate 2 0\<rparr>)" for d
      by (simp add: spi_transfer_def rx_store_def sim_hw_def sim_transfer_def)
    moreover have "be16 0 0 = 0" by (simp add: be16_def)
    ultimately show ?thesis by (simp add: driver_defs memcpy_at_def Let_def)
  qed
  have "reads (w5500_socket0_read_u16 sim_hw 0x26 0) (Suc (Suc n)) c ! 0 = (HAL_OK, 0)"
    "reads (w5500_socket0_read_u16 sim_hw 0x26 0) (Suc (Suc n)) c ! 1 = (HAL_OK, 0)" for n c
    using read [of c] read [of "snd (snd (w5500_socket0_read_u16 sim_hw 0x26 0 c))"] by (auto split: prod.splits)
  from this [of 6 sim_init] stable_read_needs_agreement [OF r] r show ?thesis
    by (simp add: Let_def numeral_eq_Suc)
qed

text \<open>A socket command is bounded in time: whatever the chip does, the wait for the command
  register returns, at most 101 ticks and nine call durations after the call (at the configured
  1000 Hz tick), with the outcome as its value.\<close>

theorem socket_commands_return:
  assumes "clock_ok hw now G B" and "osKernelGetTickFreq hw = 1000" and "B < 2 ^ 24"
  shows "(\<exists>st s'. w5500_socket0_execute_command hw c s = Some (st, s') \<and> within now G (101 + 9 * B) (env s) (env s')) \<and>
    (\<exists>st s'. w5500_socket1_execute_command hw c s = Some (st, s') \<and> within now G (101 + 9 * B) (env s) (env s'))"
  using execute_command_returns [OF assms, of s c] by (simp add: returns_iff)

theorem socket_commands_return_witness:
  "\<exists>st s'. w5500_socket0_execute_command sim_hw 0x20 (boot sim_init) = Some (st, s') \<and> sim_time (env s') \<le> 110"
proof -
  have "\<exists>st s'. w5500_socket0_execute_command sim_hw 0x20 (boot sim_init) = Some (st, s') \<and>
      within sim_time 1 (101 + 9 * 1) (env (boot sim_init)) (env s')"
    using socket_commands_return [OF sim_clock_ok] by (simp add: sim_hw_def)
  then show ?thesis by (auto simp: within_def ticks_of_def boot_def sim_init_def)
qed

lemma unat_minus_one_16: "unat (- 1 :: u16) = 65535"
  by (simp add: unsigned_minus_1_eq_mask mask_eq_exp_minus_1)

lemma upt_4: "[0..<4] = [0, 1, 2, 3 :: nat]" and upt_6: "[0..<6] = [0, 1, 2, 3, 4, 5 :: nat]"
  by (simp_all add: upt_rec)

text \<open>On a chip whose common registers hold what is written to them, the network parameters
  the gateway writes at start-up (gateway, subnet, MAC and IP address) are the ones it reads back,
  and the comparison succeeds: the four register blocks do not overlap and both directions use the
  same layout.\<close>

theorem network_config_reads_back:
  assumes "common_mem hw mem" and "w5500_write_network_config hw e = (HAL_OK, e1)"
    and "w5500_read_network_config hw n e1 = (HAL_OK, n', e2)"
    and "length (g_w5500_gar_readback n) = 4" and "length (g_w5500_subr_readback n) = 4"
    and "length (g_w5500_shar_readback n) = 6" and "length (g_w5500_sipr_readback n) = 4"
  shows "w5500_network_readback_matches n' = 1 \<and> g_w5500_sipr_readback n' = g_w5500_net_ip"
proof -
  note tables = g_w5500_net_gateway_def g_w5500_net_subnet_def g_w5500_net_mac_def g_w5500_net_ip_def
  obtain a1 a2 a3 where w: "w5500_write_common_registers hw 1 g_w5500_net_gateway 4 e = (HAL_OK, a1)"
    "w5500_write_common_registers hw 5 g_w5500_net_subnet 4 a1 = (HAL_OK, a2)"
    "w5500_write_common_registers hw 9 g_w5500_net_mac 6 a2 = (HAL_OK, a3)"
    "w5500_write_common_registers hw 15 g_w5500_net_ip 4 a3 = (HAL_OK, e1)"
    using assms(2) by (auto simp: w5500_write_network_config_def Let_def split: prod.splits if_splits)
  have mem: "mem e1 = mem_write 15 g_w5500_net_ip (mem_write 9 g_w5500_net_mac (mem_write 5 g_w5500_net_subnet
      (mem_write 1 g_w5500_net_gateway (mem e))))"
    using common_write [OF assms(1) w(1)] common_write [OF assms(1) w(2)] common_write [OF assms(1) w(3)]
      common_write [OF assms(1) w(4)] by (simp add: tables)
  obtain d1 d2 d3 d4 b1 b2 b3 where r: "w5500_read_common_registers hw 1 (g_w5500_gar_readback n) 4 e1 = (HAL_OK, d1, b1)"
    "w5500_read_common_registers hw 5 (g_w5500_subr_readback n) 4 b1 = (HAL_OK, d2, b2)"
    "w5500_read_common_registers hw 9 (g_w5500_shar_readback n) 6 b2 = (HAL_OK, d3, b3)"
    "w5500_read_common_registers hw 15 (g_w5500_sipr_readback n) 4 b3 = (HAL_OK, d4, e2)"
    and n': "n' = n\<lparr>g_w5500_gar_readback := d1, g_w5500_subr_readback := d2, g_w5500_shar_readback := d3, g_w5500_sipr_readback := d4\<rparr>"
    using assms(3) by (auto simp: w5500_read_network_config_def Let_def split: prod.splits if_splits)
  have "d1 = map (\<lambda>i. mem e1 (1 + of_nat i)) [0..<4]" "d2 = map (\<lambda>i. mem e1 (5 + of_nat i)) [0..<4]"
    "d3 = map (\<lambda>i. mem e1 (9 + of_nat i)) [0..<6]" "d4 = map (\<lambda>i. mem e1 (15 + of_nat i)) [0..<4]"
    using common_read [OF assms(1) r(1)] common_read [OF assms(1) r(2)] common_read [OF assms(1) r(3)]
      common_read [OF assms(1) r(4)] assms(4-7) by auto
  then have "d1 = g_w5500_net_gateway" "d2 = g_w5500_net_subnet" "d3 = g_w5500_net_mac" "d4 = g_w5500_net_ip"
    unfolding mem tables upt_4 upt_6 by (simp_all add: mem_write_def unat_minus_one_16)
  then show ?thesis by (simp add: n' w5500_network_readback_matches_def list_ex_iff)
qed

theorem network_config_reads_back_witness:
  "\<exists>n e1 e2. w5500_write_network_config sim_hw sim_init = (HAL_OK, e1) \<and>
    w5500_read_network_config sim_hw boot_net_vars e1 = (HAL_OK, n, e2) \<and> w5500_network_readback_matches n = 1"
proof -
  have wr: "fst (w5500_write_common_registers sim_hw a d n e) = HAL_OK" if "0 < n" "n \<le> 6" for a d n e
    using that by (simp add: w5500_write_common_registers_def sim_hw_def Let_def)
  have rd: "fst (w5500_read_common_registers sim_hw a d n e) = HAL_OK" if "0 < n" "n \<le> 6" for a d n e
    using that by (simp add: w5500_read_common_registers_def spi_transfer_def sim_transfer_def sim_hw_def Let_def)
  have "fst (w5500_write_network_config sim_hw sim_init) = HAL_OK"
    using wr by (simp add: w5500_write_network_config_def Let_def case_prod_beta)
  then obtain e1 where w: "w5500_write_network_config sim_hw sim_init = (HAL_OK, e1)" by (metis prod.collapse)
  have "fst (w5500_read_network_config sim_hw boot_net_vars e1) = HAL_OK"
    using rd by (simp add: w5500_read_network_config_def Let_def case_prod_beta)
  then obtain n e2 where r: "w5500_read_network_config sim_hw boot_net_vars e1 = (HAL_OK, n, e2)" by (metis prod.collapse)
  from network_config_reads_back [OF sim_common_mem w r] w r show ?thesis by (auto simp: boot_net_vars_def)
qed

end
