(* ===== verification/GwRs422.thy ===== *)
theory GwRs422
  imports GwBus ParserClient UartRxRing
begin

text \<open>
  The RS-422 side of the gateway: the interrupt ring, the UART callbacks, the receiver that
  parses the ring's bytes and matches PONGs to the pending request, the transmitter with its
  completion wait, the start-up link test and the RS-422 task.
\<close>

subsection \<open>The interrupt ring\<close>

definition rs422_rx_ring_push_from_isr :: "u8 \<Rightarrow> 'e gw \<Rightarrow> 'e gw" where
  "rs422_rx_ring_push_from_isr byte s =
     (let head = g_rs422_rx_head (ro s); tail = g_rs422_rx_tail (ro s)
      in if head - tail \<ge> RS422_RX_RING_CAPACITY
         then s\<lparr>rs := (rs s)\<lparr>g_rs422_rx_overflow_count := g_rs422_rx_overflow_count (rs s) + 1\<rparr>\<rparr>
         else s\<lparr>ro := (ro s)\<lparr>g_rs422_rx_ring := (g_rs422_rx_ring (ro s))[unat (head AND RS422_RX_RING_MASK) := byte],
                g_rs422_rx_head := head + 1\<rparr>\<rparr>)"

definition rs422_rx_ring_pop :: "'e gw \<Rightarrow> u8 option \<times> 'e gw" where
  "rs422_rx_ring_pop s =
     (let tail = g_rs422_rx_tail (ro s)
      in if tail = g_rs422_rx_head (ro s) then (None, s)
         else (Some (g_rs422_rx_ring (ro s) ! unat (tail AND RS422_RX_RING_MASK)),
               s\<lparr>ro := (ro s)\<lparr>g_rs422_rx_tail := tail + 1\<rparr>\<rparr>))"

subsection \<open>UART callbacks\<close>

text \<open>The callbacks for UART4; calls for another or a null handle do nothing (\<open>uart4\<close> false).\<close>

definition wake_rs422 :: "u32 \<Rightarrow> 'e gw \<Rightarrow> 'e gw" where
  "wake_rs422 flags s = (if RS422TaskHandle (kn s) then snd (osThreadFlagsSet RS422Task flags s) else s)"

definition count_uart_rx_error :: "'e gw \<Rightarrow> 'e gw" where
  "count_uart_rx_error s = s\<lparr>rs := (rs s)\<lparr>g_rs422_uart_rx_error_count := g_rs422_uart_rx_error_count (rs s) + 1\<rparr>\<rparr>"

definition HAL_UART_TxCpltCallback :: "bool \<Rightarrow> 'e gw \<Rightarrow> 'e gw" where
  "HAL_UART_TxCpltCallback uart4 s = (if uart4 then wake_rs422 RS422_EVENT_TX_DONE s else s)"

definition HAL_UART_RxCpltCallback :: "'e hw \<Rightarrow> bool \<Rightarrow> 'e gw \<Rightarrow> 'e gw" where
  "HAL_UART_RxCpltCallback hw uart4 s =
     (if uart4 then
        let s = rs422_rx_ring_push_from_isr (g_uart4_rx_byte (ro s)) s;
            (status, s) = lift_env (HAL_UART_Receive_IT hw) s;
            s = (if status \<noteq> HAL_OK then count_uart_rx_error s else s)
        in wake_rs422 RS422_EVENT_RX s
      else s)"

definition HAL_UART_ErrorCallback :: "'e hw \<Rightarrow> bool \<Rightarrow> 'e gw \<Rightarrow> 'e gw" where
  "HAL_UART_ErrorCallback hw uart4 s =
     (if uart4 then
        let s = count_uart_rx_error s;
            s = (if huart4_RxState_ready hw (env s) then
                   let (status, s) = lift_env (HAL_UART_Receive_IT hw) s
                   in if status \<noteq> HAL_OK then count_uart_rx_error s else s
                 else s)
        in wake_rs422 RS422_EVENT_RX s
      else s)"

subsection \<open>Receiving\<close>

definition note_valid_frame :: "'e hw \<Rightarrow> 'e gw \<Rightarrow> 'e gw" where
  "note_valid_frame hw s =
     (let previous_comm_state = g_rs422_comm_state (cm s);
          (valid_frame_tick, s) = get_tick hw s;
          s = s\<lparr>rs := (rs s)\<lparr>g_rs422_rx_frame_count := g_rs422_rx_frame_count (rs s) + 1,
                g_rs422_last_msg_id := pk_msg_id (g_rs422_received_packet (ro s))\<rparr>,
              cm := (cm s)\<lparr>g_rs422_last_valid_frame_tick := valid_frame_tick,
                g_rs422_diag_last_valid_frame_ms := rs422_kernel_ticks_to_ms hw valid_frame_tick\<rparr>\<rparr>;
          s = (if previous_comm_state = COMM_TIMEOUT \<and> g_rs422_diag_recovery_first_valid_tick (cm s) = 0xFFFFFFFF
               then s\<lparr>cm := (cm s)\<lparr>g_rs422_diag_recovery_first_valid_tick := valid_frame_tick,
                      g_rs422_diag_recovery_first_valid_ms := rs422_kernel_ticks_to_ms hw valid_frame_tick\<rparr>\<rparr>
               else s)
      in s\<lparr>cm := (cm s)\<lparr>g_rs422_has_valid_frame := 1\<rparr>\<rparr>)"

definition forward_telemetry :: "'e gw \<Rightarrow> 'e gw" where
  "forward_telemetry s =
     (if pk_msg_id (g_rs422_received_packet (ro s)) = MSG_TELEMETRY then
        let s = s\<lparr>rs := (rs s)\<lparr>g_rs422_telemetry_rx_count := g_rs422_telemetry_rx_count (rs s) + 1\<rparr>\<rparr>
        in if g_rs422_telemetry_forwarding_enabled (rs s) \<noteq> 0 then
             let (result, q) = (if udp_telemetry_queue (qs s) \<noteq> None
                   then osMessageQueuePut (udp_telemetry_queue (qs s)) (Some (g_rs422_received_packet (ro s)))
                   else (osError, None));
                 s = s\<lparr>qs := (qs s)\<lparr>udp_telemetry_queue := q\<rparr>\<rparr>
             in if result = osOK
                then s\<lparr>rs := (rs s)\<lparr>g_udp_telemetry_enqueue_success_count := g_udp_telemetry_enqueue_success_count (rs s) + 1\<rparr>\<rparr>
                else s\<lparr>rs := (rs s)\<lparr>g_udp_telemetry_enqueue_fail_count := g_udp_telemetry_enqueue_fail_count (rs s) + 1\<rparr>\<rparr>
           else s
      else s)"

definition diag_matching_pong :: "u32 \<Rightarrow> session_diag_vars \<Rightarrow> session_diag_vars" where
  "diag_matching_pong now_ms d =
     (let d = d\<lparr>g_diag_matching_pong_rx_ms := now_ms\<rparr>
      in if g_diag_rs422_ping_tx_ms d \<noteq> DIAG_TIMESTAMP_NOT_CAPTURED_MS
         then d\<lparr>g_diag_rs422_tx_to_matching_pong_rx_ms := now_ms - g_diag_rs422_ping_tx_ms d\<rparr> else d)"

definition note_matching_pong :: "'e hw \<Rightarrow> 'e gw \<Rightarrow> 'e gw" where
  "note_matching_pong hw s =
     (if g_diag_first_ping_seq_valid (dg s) \<noteq> 0 \<and>
         pk_seq (g_rs422_received_packet (ro s)) = g_diag_first_ping_seq (dg s) \<and>
         g_diag_matching_pong_rx_ms (dg s) = DIAG_TIMESTAMP_NOT_CAPTURED_MS
      then let (now_ms, s) = diagnostic_now_ms hw s in s\<lparr>dg := diag_matching_pong now_ms (dg s)\<rparr>
      else s)"

definition enqueue_response :: "'e gw \<Rightarrow> 'e gw" where
  "enqueue_response s =
     (let (result, q) = (if tcp_response_queue (qs s) \<noteq> None
            then osMessageQueuePut (tcp_response_queue (qs s)) (Some (g_rs422_received_packet (ro s))) else (osError, None));
          s = s\<lparr>qs := (qs s)\<lparr>tcp_response_queue := q\<rparr>\<rparr>
      in if result = osOK then
           let s = s\<lparr>rs := (rs s)\<lparr>g_tcp_response_enqueue_success_count := g_tcp_response_enqueue_success_count (rs s) + 1\<rparr>\<rparr>
           in if EthernetTaskHandle (kn s)
              then snd (osThreadFlagsSet EthernetTask ETHERNET_EVENT_TCP_RESPONSE_READY s) else s
         else s\<lparr>rs := (rs s)\<lparr>g_tcp_response_enqueue_fail_count := g_tcp_response_enqueue_fail_count (rs s) + 1\<rparr>\<rparr>)"

definition forward_pong :: "'e hw \<Rightarrow> 'e gw \<Rightarrow> 'e gw" where
  "forward_pong hw s =
     (if pk_msg_id (g_rs422_received_packet (ro s)) = MSG_PONG \<and> g_w5500_tcp_session_active (sv s) \<noteq> 0 \<and>
         g_rs422_tcp_ping_pending (rs s) \<noteq> 0 \<and>
         pk_seq (g_rs422_received_packet (ro s)) = g_rs422_tcp_ping_pending_seq (rs s)
      then
        let s = note_matching_pong hw s;
            s = s\<lparr>rs := (rs s)\<lparr>g_rs422_tcp_ping_pending := 0,
                  g_rs422_forwarded_pong_rx_count := g_rs422_forwarded_pong_rx_count (rs s) + 1\<rparr>\<rparr>
        in enqueue_response s
      else s)"

definition matches_pong :: "u16 \<Rightarrow> u32 \<Rightarrow> 'e gw \<Rightarrow> bool" where
  "matches_pong expected_pong_sequence match_pong s \<longleftrightarrow>
     match_pong \<noteq> 0 \<and> pk_msg_id (g_rs422_received_packet (ro s)) = MSG_PONG \<and>
     pk_seq (g_rs422_received_packet (ro s)) = expected_pong_sequence"

text \<open>
  The handling of a complete frame in \<^verbatim>\<open>rs422_process_rx_buffer\<close>, and one iteration of its loop;
  both also tell whether \<^verbatim>\<open>matching_pong_received\<close> is set.
\<close>

definition rs422_frame :: "'e hw \<Rightarrow> u16 \<Rightarrow> u32 \<Rightarrow> 'e gw \<Rightarrow> bool \<times> 'e gw" where
  "rs422_frame hw expected_pong_sequence match_pong s =
     (let s = note_valid_frame hw s;
          s = forward_telemetry s;
          matched = matches_pong expected_pong_sequence match_pong s
      in (matched, forward_pong hw s))"

definition rs422_feed :: "'e hw \<Rightarrow> u16 \<Rightarrow> u32 \<Rightarrow> u8 \<Rightarrow> 'e gw \<Rightarrow> bool \<times> 'e gw" where
  "rs422_feed hw expected_pong_sequence match_pong rx_byte s =
     (let (parser_event, p, out) = feed_byte (g_rs422_parser (ro s)) rx_byte (g_rs422_received_packet (ro s));
          s = s\<lparr>ro := (ro s)\<lparr>g_rs422_parser := p, g_rs422_received_packet := out\<rparr>\<rparr>
      in if parser_event = STREAM_EVENT_FRAME then rs422_frame hw expected_pong_sequence match_pong s else (False, s))"

text \<open>The receive loop, with \<open>matching\<close> for \<^verbatim>\<open>matching_pong_received\<close>.\<close>

function rx_loop :: "'e hw \<Rightarrow> u16 \<Rightarrow> u32 \<Rightarrow> u32 \<Rightarrow> 'e gw \<Rightarrow> u32 \<times> 'e gw" where
  "rx_loop hw expected_pong_sequence match_pong matching s =
     (case rs422_rx_ring_pop s of
        (None, s) \<Rightarrow> (matching, s)
      | (Some rx_byte, s) \<Rightarrow>
          let (matched, s) = rs422_feed hw expected_pong_sequence match_pong rx_byte s
          in rx_loop hw expected_pong_sequence match_pong (if matched then 1 else matching) s)"
  by pat_completeness auto

lemma kernel_flags_frame [simp]:
  "ro (snd (osThreadFlagsSet t f s)) = ro s" "rs (snd (osThreadFlagsSet t f s)) = rs s"
  "qs (snd (osThreadFlagsSet t f s)) = qs s" "sv (snd (osThreadFlagsSet t f s)) = sv s"
  "env (snd (osThreadFlagsSet t f s)) = env s" "cm (snd (osThreadFlagsSet t f s)) = cm s"
  "dg (snd (osThreadFlagsSet t f s)) = dg s"
  by (simp_all add: osThreadFlagsSet_def Let_def)

lemma ro_note_valid_frame [simp]: "ro (note_valid_frame hw s) = ro s"
  by (simp add: note_valid_frame_def Let_def)

lemma ro_forward_telemetry [simp]: "ro (forward_telemetry s) = ro s"
  by (simp add: forward_telemetry_def Let_def split: prod.split)

lemma ro_note_matching_pong [simp]: "ro (note_matching_pong hw s) = ro s"
  by (simp add: note_matching_pong_def diagnostic_now_ms_def)

lemma ro_enqueue_response [simp]: "ro (enqueue_response s) = ro s"
  by (simp add: enqueue_response_def Let_def split: prod.split)

lemma ro_forward_pong [simp]: "ro (forward_pong hw s) = ro s"
  by (simp add: forward_pong_def Let_def)

lemma rs422_feed_ring [simp]:
  "g_rs422_rx_ring (ro (snd (rs422_feed hw e k b s))) = g_rs422_rx_ring (ro s)"
  "g_rs422_rx_head (ro (snd (rs422_feed hw e k b s))) = g_rs422_rx_head (ro s)"
  "g_rs422_rx_tail (ro (snd (rs422_feed hw e k b s))) = g_rs422_rx_tail (ro s)"
  by (simp_all add: rs422_feed_def rs422_frame_def Let_def split: prod.split)

lemma ring_distance: "(t :: u16) \<noteq> h \<Longrightarrow> unat (h - (t + 1)) < unat (h - t)"
proof -
  assume "t \<noteq> h"
  then have nz: "h - t \<noteq> 0" by simp
  then have "unat (h - t - 1) = unat (h - t) - 1" by (rule unat_minus_one)
  moreover have "unat (h - t) \<noteq> 0" using nz by (simp only: unat_eq_0 not_False_eq_True)
  ultimately show ?thesis by (simp add: diff_diff_eq)
qed

termination rx_loop
  by (relation "measure (\<lambda>(hw, e, m, k, s). unat (g_rs422_rx_head (ro s) - g_rs422_rx_tail (ro s)))")
    (auto simp: rs422_rx_ring_pop_def Let_def ring_distance split: if_splits dest!: arg_cong [where f = snd])

declare rx_loop.simps [simp del]

definition rs422_process_rx_buffer :: "'e hw \<Rightarrow> u16 \<Rightarrow> u32 \<Rightarrow> 'e gw \<Rightarrow> u32 \<times> 'e gw" where
  "rs422_process_rx_buffer hw expected_pong_sequence match_pong s = rx_loop hw expected_pong_sequence match_pong 0 s"

subsection \<open>Events\<close>

definition rs422_handle_tcp_context_reset_event :: "u32 \<Rightarrow> 'e gw \<Rightarrow> 'e gw" where
  "rs422_handle_tcp_context_reset_event flags s =
     (if flags AND RS422_EVENT_TCP_CONTEXT_RESET \<noteq> 0
      then s\<lparr>rs := (rs s)\<lparr>g_rs422_tcp_ping_pending := 0, g_rs422_tcp_ping_pending_seq := 0\<rparr>\<rparr> else s)"

definition rs422_handle_tx_done_event :: "u32 \<Rightarrow> 'e gw \<Rightarrow> 'e gw" where
  "rs422_handle_tx_done_event flags s =
     (if flags AND RS422_EVENT_TX_DONE \<noteq> 0
      then if g_rs422_tx_busy (rs s) \<noteq> 0
           then s\<lparr>rs := (rs s)\<lparr>g_rs422_tx_busy := 0, g_rs422_tx_complete_count := g_rs422_tx_complete_count (rs s) + 1\<rparr>\<rparr>
           else s\<lparr>rs := (rs s)\<lparr>g_rs422_tx_error_count := g_rs422_tx_error_count (rs s) + 1\<rparr>\<rparr>
      else s)"

definition handle_events :: "u32 \<Rightarrow> 'e gw \<Rightarrow> 'e gw" where
  "handle_events flags s = rs422_handle_tx_done_event flags (rs422_handle_tcp_context_reset_event flags s)"

definition count_rs422_tx_error :: "'e gw \<Rightarrow> 'e gw" where
  "count_rs422_tx_error s = s\<lparr>rs := (rs s)\<lparr>g_rs422_tx_error_count := g_rs422_tx_error_count (rs s) + 1\<rparr>\<rparr>"

definition count_tx_timeout :: "'e gw \<Rightarrow> 'e gw" where
  "count_tx_timeout s = s\<lparr>rs := (rs s)\<lparr>g_rs422_tx_timeout_count := g_rs422_tx_timeout_count (rs s) + 1\<rparr>\<rparr>"

definition count_tx_busy :: "'e gw \<Rightarrow> 'e gw" where
  "count_tx_busy s = s\<lparr>rs := (rs s)\<lparr>g_rs422_tx_busy_count := g_rs422_tx_busy_count (rs s) + 1\<rparr>\<rparr>"

definition set_tx_busy :: "u32 \<Rightarrow> 'e gw \<Rightarrow> 'e gw" where
  "set_tx_busy v s = s\<lparr>rs := (rs s)\<lparr>g_rs422_tx_busy := v\<rparr>\<rparr>"

subsection \<open>Waiting for the transmitter\<close>

text \<open>
  The result carries the value stored through \<^verbatim>\<open>matching_pong_received\<close>.
\<close>

partial_function (option) tx_wait_loop ::
  "'e hw \<Rightarrow> u16 \<Rightarrow> u32 \<Rightarrow> u32 \<Rightarrow> u32 \<Rightarrow> 'e gw \<Rightarrow> ((int \<times> u32) \<times> 'e gw) option" where
  "tx_wait_loop hw expected timeout_ticks wait_start_ticks matching s =
     (if g_rs422_tx_busy (rs s) = 0 then Some ((RS422_PING_TEST_PASS, matching), s)
      else
        let (m, s) = rs422_process_rx_buffer hw expected 1 s;
            matching = matching OR m
        in do {
          (pending_flags, s) \<leftarrow> osThreadFlagsWait hw RS422Task RS422_EVENT_MASK 0 s;
          if pending_flags AND osFlagsError \<noteq> 0 \<and> pending_flags \<noteq> osFlagsErrorResource
          then Some ((RS422_PING_TEST_TX_FAILURE, matching), count_rs422_tx_error s)
          else
            let s = (if pending_flags AND osFlagsError = 0 then handle_events pending_flags s else s)
            in if g_rs422_tx_busy (rs s) = 0
               then let (m, s) = rs422_process_rx_buffer hw expected 1 s
                    in Some ((RS422_PING_TEST_PASS, matching OR m), s)
               else
                 let (now, s) = get_tick hw s;
                     elapsed_ticks = now - wait_start_ticks
                 in if elapsed_ticks \<ge> timeout_ticks
                    then Some ((RS422_PING_TEST_TX_FAILURE, matching), count_tx_timeout s)
                    else do {
                      (flags, s) \<leftarrow> osThreadFlagsWait hw RS422Task RS422_EVENT_MASK (timeout_ticks - elapsed_ticks) s;
                      if flags = osFlagsErrorTimeout then Some ((RS422_PING_TEST_TX_FAILURE, matching), count_tx_timeout s)
                      else if flags AND osFlagsError \<noteq> 0 then Some ((RS422_PING_TEST_TX_FAILURE, matching), count_rs422_tx_error s)
                      else tx_wait_loop hw expected timeout_ticks wait_start_ticks matching (handle_events flags s)
                    }
        })"

definition rs422_wait_for_tx_complete :: "'e hw \<Rightarrow> u16 \<Rightarrow> 'e gw \<Rightarrow> ((int \<times> u32) \<times> 'e gw) option" where
  "rs422_wait_for_tx_complete hw expected_pong_sequence s =
     (let timeout_ticks = rs422_ms_to_kernel_ticks hw RS422_BRINGUP_TX_TIMEOUT_MS;
          (wait_start_ticks, s) = get_tick hw s
      in tx_wait_loop hw expected_pong_sequence timeout_ticks wait_start_ticks 0 s)"

subsection \<open>The link test\<close>

partial_function (option) pong_wait_loop ::
  "'e hw \<Rightarrow> u16 \<Rightarrow> u32 \<Rightarrow> u32 \<Rightarrow> 'e gw \<Rightarrow> (int \<times> 'e gw) option" where
  "pong_wait_loop hw sequence pong_timeout_ticks wait_start_ticks s =
     (let (now, s) = get_tick hw s
      in if \<not> now - wait_start_ticks < pong_timeout_ticks then Some (RS422_PING_TEST_PONG_TIMEOUT, s)
      else
        let (m, s) = rs422_process_rx_buffer hw sequence 1 s
        in if m \<noteq> 0 then Some (RS422_PING_TEST_PASS, s)
        else
          let (now, s) = get_tick hw s;
              elapsed_ticks = now - wait_start_ticks
          in if elapsed_ticks \<ge> pong_timeout_ticks then Some (RS422_PING_TEST_PONG_TIMEOUT, s)
          else do {
            (flags, s) \<leftarrow> osThreadFlagsWait hw RS422Task RS422_EVENT_MASK (pong_timeout_ticks - elapsed_ticks) s;
            if flags = osFlagsErrorTimeout then Some (RS422_PING_TEST_PONG_TIMEOUT, s)
            else if flags AND osFlagsError \<noteq> 0 then Some (RS422_PING_TEST_RX_FAILURE, s)
            else pong_wait_loop hw sequence pong_timeout_ticks wait_start_ticks (handle_events flags s)
          })"

definition start_transmission :: "'e hw \<Rightarrow> u8 list \<Rightarrow> 'e gw \<Rightarrow> HAL_StatusTypeDef \<times> 'e gw" where
  "start_transmission hw frame s = lift_env (HAL_UART_Transmit_IT hw frame) (set_tx_busy 1 s)"

definition transmission_refused :: "HAL_StatusTypeDef \<Rightarrow> 'e gw \<Rightarrow> 'e gw" where
  "transmission_refused tx_status s = (if tx_status = HAL_BUSY then count_tx_busy s else count_rs422_tx_error s)"

definition rs422_ping_bringup_test :: "'e hw \<Rightarrow> u16 \<Rightarrow> 'e gw \<Rightarrow> (int \<times> 'e gw) option" where
  "rs422_ping_bringup_test hw sequence s =
     (let s = s\<lparr>rs := (rs s)\<lparr>g_rs422_last_seq := sequence\<rparr>\<rparr>
      in if g_rs422_tx_busy (rs s) \<noteq> 0 then Some (RS422_PING_TEST_TX_FAILURE, count_tx_busy s)
      else
        let packet = (g_rs422_ping_packet (ro s))\<lparr>pk_version := PROTOCOL_VERSION, pk_msg_id := MSG_PING,
              pk_seq := sequence, pk_length := 0\<rparr>;
            (result, frame, encoded) = protocol_encode (Some packet) (Some (g_rs422_tx_frame (ro s)))
              PROTOCOL_MAX_FRAME_SIZE (Some 0);
            s = s\<lparr>ro := (ro s)\<lparr>g_rs422_ping_packet := packet, g_rs422_tx_frame := the frame\<rparr>\<rparr>
        in if result \<noteq> PROTO_OK then Some (RS422_PING_TEST_ENCODE_FAILURE, s)
        else
          let (cleared, s) = osThreadFlagsClear RS422Task RS422_EVENT_TX_DONE s
          in if cleared AND osFlagsError \<noteq> 0 then Some (RS422_PING_TEST_TX_FAILURE, count_rs422_tx_error s)
          else
            let (tx_status, s) = start_transmission hw (take (the encoded) (g_rs422_tx_frame (ro s))) s
            in if tx_status \<noteq> HAL_OK
               then Some (RS422_PING_TEST_TX_FAILURE, transmission_refused tx_status (set_tx_busy 0 s))
               else do {
                 ((tx_result, matching), s) \<leftarrow> rs422_wait_for_tx_complete hw sequence s;
                 if tx_result \<noteq> RS422_PING_TEST_PASS then Some (RS422_PING_TEST_TX_FAILURE, s)
                 else if matching \<noteq> 0 then Some (RS422_PING_TEST_PASS, s)
                 else
                   let pong_timeout_ticks = rs422_ms_to_kernel_ticks hw RS422_BRINGUP_PONG_TIMEOUT_MS;
                       (wait_start_ticks, s) = get_tick hw s
                   in pong_wait_loop hw sequence pong_timeout_ticks wait_start_ticks s
               })"

text \<open>The test loop from test \<open>i\<close> on; the result is the last failure.\<close>

function bringup_loop :: "'e hw \<Rightarrow> nat \<Rightarrow> int \<Rightarrow> 'e gw \<Rightarrow> (int \<times> 'e gw) option" where
  "bringup_loop hw i last_failure s =
     (if i < unat RS422_BRINGUP_TEST_COUNT then do {
        (test_result, s) \<leftarrow> rs422_ping_bringup_test hw (of_nat (i + 1)) s;
        let s = s\<lparr>rs := (rs s)\<lparr>g_rs422_test_total := g_rs422_test_total (rs s) + 1, g_rs422_ping_test_result := test_result\<rparr>\<rparr>;
        let (last_failure, s) = (if test_result = RS422_PING_TEST_PASS
          then (last_failure, s\<lparr>rs := (rs s)\<lparr>g_rs422_test_success := g_rs422_test_success (rs s) + 1\<rparr>\<rparr>)
          else (test_result, s\<lparr>rs := (rs s)\<lparr>g_rs422_test_fail := g_rs422_test_fail (rs s) + 1\<rparr>\<rparr>));
        let s = (if i + 1 < unat RS422_BRINGUP_TEST_COUNT then HAL_Delay hw RS422_BRINGUP_INTER_TEST_DELAY_MS s else s);
        bringup_loop hw (i + 1) last_failure s
      } else Some (last_failure, s))"
  by pat_completeness auto
termination
  by (relation "measure (\<lambda>(hw, i, l, s). unat RS422_BRINGUP_TEST_COUNT - i)") auto

declare bringup_loop.simps [simp del]

definition rs422_ping_bringup_run :: "'e hw \<Rightarrow> 'e gw \<Rightarrow> (int \<times> 'e gw) option" where
  "rs422_ping_bringup_run hw s =
     (let s = s\<lparr>rs := (rs s)\<lparr>g_rs422_ping_test_result := RS422_PING_TEST_NOT_RUN, g_rs422_last_msg_id := 0,
            g_rs422_last_seq := 0, g_rs422_rx_frame_count := 0, g_rs422_test_total := 0,
            g_rs422_test_success := 0, g_rs422_test_fail := 0\<rparr>\<rparr>
      in do {
        (last_failure, s) \<leftarrow> bringup_loop hw 0 RS422_PING_TEST_PASS s;
        Some (if g_rs422_test_fail (rs s) = 0 then RS422_PING_TEST_PASS else last_failure, s)
      })"

subsection \<open>Forwarding a request\<close>

definition clear_pending :: "protocol_packet_t \<Rightarrow> 'e gw \<Rightarrow> 'e gw" where
  "clear_pending packet s =
     (if pk_msg_id packet = MSG_PING
      then s\<lparr>rs := (rs s)\<lparr>g_rs422_tcp_ping_pending := 0, g_rs422_tcp_ping_pending_seq := 0\<rparr>\<rparr> else s)"

definition diag_ping_tx :: "u32 \<Rightarrow> session_diag_vars \<Rightarrow> session_diag_vars" where
  "diag_ping_tx now_ms d =
     (let d = d\<lparr>g_diag_rs422_ping_tx_ms := now_ms\<rparr>
      in if g_diag_first_ping_parsed_ms d \<noteq> DIAG_TIMESTAMP_NOT_CAPTURED_MS
         then d\<lparr>g_diag_ping_parsed_to_rs422_tx_ms := now_ms - g_diag_first_ping_parsed_ms d\<rparr> else d)"

definition note_ping_tx :: "'e hw \<Rightarrow> protocol_packet_t \<Rightarrow> 'e gw \<Rightarrow> 'e gw" where
  "note_ping_tx hw packet s =
     (if pk_msg_id packet = MSG_PING \<and> g_diag_first_ping_seq_valid (dg s) \<noteq> 0 \<and>
         pk_seq packet = g_diag_first_ping_seq (dg s) \<and> g_diag_rs422_ping_tx_ms (dg s) = DIAG_TIMESTAMP_NOT_CAPTURED_MS
      then let (now_ms, s) = diagnostic_now_ms hw s in s\<lparr>dg := diag_ping_tx now_ms (dg s)\<rparr>
      else s)"

text \<open>
  The packet is passed by address; the only caller passes \<open>g_rs422_command_packet\<close>, which nothing
  writes while it is being forwarded, so its value at the call stands for it.
\<close>

definition rs422_forward_packet :: "'e hw \<Rightarrow> protocol_packet_t option \<Rightarrow> 'e gw \<Rightarrow> (int \<times> 'e gw) option" where
  "rs422_forward_packet hw packet_ptr s =
     (case packet_ptr of
      None \<Rightarrow> Some (RS422_PING_TEST_ENCODE_FAILURE, count_rs422_tx_error s)
    | Some packet \<Rightarrow>
      if g_rs422_tx_busy (rs s) \<noteq> 0 then Some (RS422_PING_TEST_TX_FAILURE, count_tx_busy s)
      else
        let (result, frame, encoded) = protocol_encode (Some packet) (Some (g_rs422_tx_frame (ro s)))
              PROTOCOL_MAX_FRAME_SIZE (Some 0);
            tx_frame_length = the encoded;
            s = s\<lparr>ro := (ro s)\<lparr>g_rs422_tx_frame := the frame\<rparr>\<rparr>
        in if result \<noteq> PROTO_OK \<or> tx_frame_length = 0 \<or> tx_frame_length > 65535
           then Some (RS422_PING_TEST_ENCODE_FAILURE, count_rs422_tx_error s)
        else
          let (cleared, s) = osThreadFlagsClear RS422Task RS422_EVENT_TX_DONE s
          in if cleared AND osFlagsError \<noteq> 0 then Some (RS422_PING_TEST_TX_FAILURE, count_rs422_tx_error s)
          else
            let s = (if pk_msg_id packet = MSG_PING \<and> g_w5500_tcp_session_active (sv s) \<noteq> 0
                     then s\<lparr>rs := (rs s)\<lparr>g_rs422_tcp_ping_pending_seq := pk_seq packet, g_rs422_tcp_ping_pending := 1\<rparr>\<rparr>
                     else s);
                (tx_status, s) = start_transmission hw (take tx_frame_length (g_rs422_tx_frame (ro s))) s
            in if tx_status \<noteq> HAL_OK
               then Some (RS422_PING_TEST_TX_FAILURE, transmission_refused tx_status (clear_pending packet (set_tx_busy 0 s)))
               else
                 let s = note_ping_tx hw packet s;
                     s = s\<lparr>rs := (rs s)\<lparr>g_rs422_last_tx_msg_id := pk_msg_id packet, g_rs422_last_tx_seq := pk_seq packet\<rparr>\<rparr>
                 in do {
                   ((tx_result, _), s) \<leftarrow> rs422_wait_for_tx_complete hw (pk_seq packet) s;
                   if tx_result \<noteq> RS422_PING_TEST_PASS then Some (RS422_PING_TEST_TX_FAILURE, clear_pending packet s)
                   else Some (RS422_PING_TEST_PASS, s)
                 })"

subsection \<open>The task\<close>

definition StartRS422Task_init :: "'e hw \<Rightarrow> 'e gw \<Rightarrow> (unit \<times> 'e gw) option" where
  "StartRS422Task_init hw s =
     (let s = s\<lparr>ro := (ro s)\<lparr>g_rs422_rx_head := 0, g_rs422_rx_tail := 0\<rparr>\<rparr>;
          s = s\<lparr>rs := (rs s)\<lparr>g_rs422_rx_overflow_count := 0, g_rs422_uart_rx_error_count := 0, g_rs422_tx_busy := 0,
                g_rs422_tx_complete_count := 0, g_rs422_tx_busy_count := 0, g_rs422_tx_error_count := 0,
                g_rs422_tx_timeout_count := 0, g_rs422_cmd_dequeue_count := 0, g_rs422_forwarded_pong_rx_count := 0,
                g_tcp_response_enqueue_success_count := 0, g_tcp_response_enqueue_fail_count := 0,
                g_rs422_telemetry_rx_count := 0, g_udp_telemetry_enqueue_success_count := 0,
                g_udp_telemetry_enqueue_fail_count := 0, g_rs422_telemetry_forwarding_enabled := 0,
                g_rs422_tcp_ping_pending := 0, g_rs422_tcp_ping_pending_seq := 0, g_rs422_last_tx_msg_id := 0,
                g_rs422_last_tx_seq := 0\<rparr>\<rparr>;
          s = s\<lparr>cm := (cm s)\<lparr>g_rs422_last_valid_frame_tick := 0, g_rs422_has_valid_frame := 0,
                g_rs422_diag_last_valid_frame_ms := DIAG_TIMESTAMP_NOT_CAPTURED_MS,
                g_rs422_diag_timeout_transition_ms := DIAG_TIMESTAMP_NOT_CAPTURED_MS,
                g_rs422_diag_recovery_first_valid_ms := DIAG_TIMESTAMP_NOT_CAPTURED_MS,
                g_rs422_diag_recovery_comm_ok_ms := DIAG_TIMESTAMP_NOT_CAPTURED_MS,
                g_rs422_diag_fault_detection_ms := DIAG_TIMESTAMP_NOT_CAPTURED_MS,
                g_rs422_diag_recovery_ms := DIAG_TIMESTAMP_NOT_CAPTURED_MS,
                g_rs422_diag_timeout_transition_tick := 0xFFFFFFFF,
                g_rs422_diag_recovery_first_valid_tick := 0xFFFFFFFF,
                g_rs422_diag_recovery_comm_ok_tick := 0xFFFFFFFF\<rparr>\<rparr>;
          s = s\<lparr>ro := (ro s)\<lparr>g_rs422_parser := stream_parser_init\<rparr>\<rparr>;
          (status, s) = lift_env (HAL_UART_Receive_IT hw) s
      in do {
        (_, s) \<leftarrow> (if status = HAL_OK then do {
            (result, s) \<leftarrow> rs422_ping_bringup_run hw s;
            Some ((), s\<lparr>rs := (rs s)\<lparr>g_rs422_ping_test_result := result\<rparr>\<rparr>)
          } else Some ((), (count_uart_rx_error s)\<lparr>rs := (rs (count_uart_rx_error s))\<lparr>
              g_rs422_ping_test_result := RS422_PING_TEST_RX_FAILURE\<rparr>\<rparr>));
        Some ((), s\<lparr>rs := (rs s)\<lparr>g_rs422_telemetry_forwarding_enabled := 1\<rparr>\<rparr>)
      })"

definition take_command :: "'e gw \<Rightarrow> bool \<times> 'e gw" where
  "take_command s =
     (if rs422_cmd_queue (qs s) = None then (False, s)
      else let (result, q, m) = osMessageQueueGet (rs422_cmd_queue (qs s)) (Some (g_rs422_command_packet (ro s)))
           in (result = osOK, s\<lparr>qs := (qs s)\<lparr>rs422_cmd_queue := q\<rparr>, ro := (ro s)\<lparr>g_rs422_command_packet := the m\<rparr>\<rparr>))"

partial_function (option) command_loop :: "'e hw \<Rightarrow> 'e gw \<Rightarrow> (unit \<times> 'e gw) option" where
  "command_loop hw s =
     (let (ok, s) = take_command s
      in if \<not> ok then Some ((), s)
         else do {
           (_, s) \<leftarrow> (let s = s\<lparr>rs := (rs s)\<lparr>g_rs422_cmd_dequeue_count := g_rs422_cmd_dequeue_count (rs s) + 1\<rparr>\<rparr>
              in rs422_forward_packet hw (Some (g_rs422_command_packet (ro s))) s);
           command_loop hw (snd (rs422_process_rx_buffer hw 0 0 s))
         })"

definition StartRS422Task_cycle :: "'e hw \<Rightarrow> 'e gw \<Rightarrow> (unit \<times> 'e gw) option" where
  "StartRS422Task_cycle hw s = do {
     (_, s) \<leftarrow> command_loop hw (snd (rs422_process_rx_buffer hw 0 0 s));
     (flags, s) \<leftarrow> osThreadFlagsWait hw RS422Task RS422_EVENT_MASK osWaitForever s;
     Some ((), if flags AND osFlagsError = 0 then handle_events flags s else count_rs422_tx_error s)
   }"

subsection \<open>The interrupt ring as a queue\<close>

text \<open>The indices run freely over 16 bits; their difference is the number of waiting bytes.\<close>

definition rx_ring_inv :: "'e gw \<Rightarrow> bool" where
  "rx_ring_inv s \<longleftrightarrow> length (g_rs422_rx_ring (ro s)) = 512 \<and> unat (g_rs422_rx_head (ro s) - g_rs422_rx_tail (ro s)) \<le> 512"

definition rx_ring_bytes :: "'e gw \<Rightarrow> u8 list" where
  [fifo_abs]: "rx_ring_bytes s = ring_slice (g_rs422_rx_ring (ro s)) (unat (g_rs422_rx_tail (ro s)))
     (unat (g_rs422_rx_head (ro s) - g_rs422_rx_tail (ro s)))"

text \<open>The push as the interrupt makes it, with the observation whether the byte was stored.\<close>

definition rx_ring_put :: "u8 \<Rightarrow> 'e gw \<Rightarrow> bool \<times> 'e gw" where
  "rx_ring_put b s =
     (let s' = rs422_rx_ring_push_from_isr b s in (g_rs422_rx_head (ro s') \<noteq> g_rs422_rx_head (ro s), s'))"

lemma ring_index: "unat (i AND RS422_RX_RING_MASK) = unat i mod 512"
proof -
  have "i AND RS422_RX_RING_MASK = take_bit 9 i" by (simp add: take_bit_eq_mask mask_eq_exp_minus_1)
  then have "unat (i AND RS422_RX_RING_MASK) = take_bit 9 (unat i)" by (simp only: unsigned_take_bit_eq)
  then show ?thesis by (simp add: take_bit_eq_mod)
qed

lemma unat_head_pos:
  fixes h t :: u16
  shows "unat h mod 512 = (unat t + unat (h - t)) mod 512"
proof -
  have "unat h = unat (t + (h - t))" by simp
  also have "\<dots> = (unat t + unat (h - t)) mod 65536" by (simp only: unat_word_ariths) simp
  finally show ?thesis by (simp add: mod_mod_cancel)
qed

lemma unat_room: "unat (d :: u16) < 65535 \<Longrightarrow> unat (d + 1) = Suc (unat d)"
  by (simp add: unat_word_ariths)

lemma length_rx_ring_bytes: "length (rx_ring_bytes s) = unat (g_rs422_rx_head (ro s) - g_rs422_rx_tail (ro s))"
  by (simp add: rx_ring_bytes_def)

lemma push_room:
  assumes inv: "rx_ring_inv s" and room: "length (rx_ring_bytes s) < 512"
  shows "fst (rx_ring_put b s) \<and> rx_ring_inv (snd (rx_ring_put b s)) \<and>
    rx_ring_bytes (snd (rx_ring_put b s)) = rx_ring_bytes s @ [b]"
proof -
  define h t where "h = g_rs422_rx_head (ro s)" and "t = g_rs422_rx_tail (ro s)"
  have d: "unat (h - t) < 512" using room by (simp add: length_rx_ring_bytes h_def t_def)
  have push: "rs422_rx_ring_push_from_isr b s =
      s\<lparr>ro := (ro s)\<lparr>g_rs422_rx_ring := (g_rs422_rx_ring (ro s))[unat (h AND RS422_RX_RING_MASK) := b], g_rs422_rx_head := h + 1\<rparr>\<rparr>"
    using d by (simp add: rs422_rx_ring_push_from_isr_def Let_def word_le_nat_alt flip: h_def t_def)
  have count: "unat (h + 1 - t) = Suc (unat (h - t))" using unat_room [of "h - t"] d by (simp add: algebra_simps)
  show ?thesis
    using ring_slice_snoc [of "unat (h - t)" "g_rs422_rx_ring (ro s)" "unat t" b] inv d unat_head_pos [of h t]
    by (simp add: rx_ring_put_def push rx_ring_inv_def rx_ring_bytes_def count ring_index flip: h_def t_def
        del: RS422_RX_RING_MASK_def)
qed

lemma push_full:
  assumes "512 \<le> length (rx_ring_bytes s)"
  shows "rs422_rx_ring_push_from_isr b s =
    s\<lparr>rs := (rs s)\<lparr>g_rs422_rx_overflow_count := g_rs422_rx_overflow_count (rs s) + 1\<rparr>\<rparr>"
  using assms by (simp add: rs422_rx_ring_push_from_isr_def length_rx_ring_bytes word_le_nat_alt Let_def)

lemma pop_empty: "rx_ring_bytes s = [] \<Longrightarrow> rs422_rx_ring_pop s = (None, s)"
proof -
  assume "rx_ring_bytes s = []"
  then have "unat (g_rs422_rx_head (ro s) - g_rs422_rx_tail (ro s)) = 0" using length_rx_ring_bytes [of s] by simp
  then have "g_rs422_rx_tail (ro s) = g_rs422_rx_head (ro s)" by (simp only: unat_eq_0 eq_iff_diff_eq_0 [symmetric])
  then show ?thesis by (simp add: rs422_rx_ring_pop_def Let_def)
qed

lemma pop_head:
  assumes inv: "rx_ring_inv s" and bytes: "rx_ring_bytes s = b # bs"
  shows "fst (rs422_rx_ring_pop s) = Some b \<and> rx_ring_inv (snd (rs422_rx_ring_pop s)) \<and>
    rx_ring_bytes (snd (rs422_rx_ring_pop s)) = bs"
proof -
  define h t where "h = g_rs422_rx_head (ro s)" and "t = g_rs422_rx_tail (ro s)"
  have d: "unat (h - t) = Suc (length bs)" using bytes length_rx_ring_bytes [of s] by (simp add: h_def t_def)
  then have ne: "t \<noteq> h" by auto
  have pop: "rs422_rx_ring_pop s = (Some (g_rs422_rx_ring (ro s) ! (unat t mod 512)), s\<lparr>ro := (ro s)\<lparr>g_rs422_rx_tail := t + 1\<rparr>\<rparr>)"
    using ne by (simp add: rs422_rx_ring_pop_def Let_def ring_index flip: h_def t_def del: RS422_RX_RING_MASK_def)
  have "h - t \<noteq> 0" using ne by simp
  from unat_minus_one [OF this] have count: "unat (h - (t + 1)) = length bs" using d by (simp add: diff_diff_eq)
  have "unat (t + 1) mod 512 = Suc (unat t) mod 512" using unat_head_pos [of "t + 1" t] by simp
  then have "ring_slice (g_rs422_rx_ring (ro s)) (unat (t + 1)) n = ring_slice (g_rs422_rx_ring (ro s)) (Suc (unat t)) n" for n
    using inv ring_slice_mod [of "g_rs422_rx_ring (ro s)" "unat (t + 1)" n] ring_slice_mod [of "g_rs422_rx_ring (ro s)" "Suc (unat t)" n]
    by (simp add: rx_ring_inv_def)
  with bytes inv show ?thesis
    by (simp add: pop rx_ring_inv_def rx_ring_bytes_def d count ring_slice_Suc flip: h_def t_def)
qed

interpretation rx_ring: bounded_fifo rx_ring_inv rx_ring_bytes "\<lambda>_. 512" rx_ring_put rs422_rx_ring_pop
proof unfold_locales
  fix s :: "'e gw" and b bs
  assume inv: "rx_ring_inv s"
  then show "length (rx_ring_bytes s) \<le> 512" by (simp add: rx_ring_inv_def length_rx_ring_bytes)
  show "fst (rx_ring_put b s) \<and> rx_ring_inv (snd (rx_ring_put b s)) \<and>
    rx_ring_bytes (snd (rx_ring_put b s)) = rx_ring_bytes s @ [b] \<and> (512 :: nat) = 512" if "length (rx_ring_bytes s) < 512"
    using push_room [OF inv that] by simp
  show "\<not> fst (rx_ring_put b s) \<and> rx_ring_inv (snd (rx_ring_put b s)) \<and>
    rx_ring_bytes (snd (rx_ring_put b s)) = rx_ring_bytes s \<and> (512 :: nat) = 512" if "512 \<le> length (rx_ring_bytes s)"
    using push_full [OF that, of b] inv by (simp add: rx_ring_put_def rx_ring_inv_def rx_ring_bytes_def)
  show "rs422_rx_ring_pop s = (None, s)" if "rx_ring_bytes s = []"
    using that by (rule pop_empty)
  show "fst (rs422_rx_ring_pop s) = Some b \<and> rx_ring_inv (snd (rs422_rx_ring_pop s)) \<and>
    rx_ring_bytes (snd (rs422_rx_ring_pop s)) = bs \<and> (512 :: nat) = 512" if "rx_ring_bytes s = b # bs"
    using pop_head [OF inv that] by simp
qed

lemma push_overflow:
  "g_rs422_rx_overflow_count (rs (snd (rx_ring_put b s))) =
     g_rs422_rx_overflow_count (rs s) + (if fst (rx_ring_put b s) then 0 else 1)"
  by (simp add: rx_ring_put_def rs422_rx_ring_push_from_isr_def Let_def)

lemma pop_keeps: "rs (snd (rs422_rx_ring_pop s)) = rs s"
  by (simp add: rs422_rx_ring_pop_def Let_def)

fun puts :: "'a fifo_op list \<Rightarrow> 'a list" where
  "puts [] = []"
| "puts (Put x # ops) = x # puts ops"
| "puts (Get # ops) = puts ops"

lemma run_overflow:
  "fifo_run rx_ring_put rs422_rx_ring_pop ops s = (accepted, popped, s') \<Longrightarrow>
   g_rs422_rx_overflow_count (rs s') + of_nat (length accepted) = g_rs422_rx_overflow_count (rs s) + of_nat (length (puts ops))"
proof (induction ops arbitrary: s accepted popped)
  case (Cons op ops)
  show ?case
  proof (cases op)
    case (Put b)
    obtain ok s1 where p: "rx_ring_put b s = (ok, s1)" by fastforce
    obtain acc1 where r: "fifo_run rx_ring_put rs422_rx_ring_pop ops s1 = (acc1, popped, s')"
      and a: "accepted = (if ok then b # acc1 else acc1)"
      using Cons.prems Put p by (auto split: prod.splits)
    from Cons.IH [OF r] push_overflow [of b s] p a Put show ?thesis by (auto simp: algebra_simps)
  next
    case Get
    obtain v s1 where g: "rs422_rx_ring_pop s = (v, s1)" by fastforce
    obtain out1 where r: "fifo_run rx_ring_put rs422_rx_ring_pop ops s1 = (accepted, out1, s')"
      using Cons.prems Get g by (auto split: prod.splits)
    from Cons.IH [OF r] pop_keeps [of s] g Get show ?thesis by simp
  qed
qed simp

text \<open>The receiver drives its parser like the other two clients.\<close>

interpretation rs422_client: parser_client "\<lambda>s. g_rs422_parser (ro s)" "\<lambda>s. g_rs422_received_packet (ro s)"
  "\<lambda>p out s. s\<lparr>ro := (ro s)\<lparr>g_rs422_parser := p, g_rs422_received_packet := out\<rparr>\<rparr>"
  "\<lambda>b s. snd (rs422_feed hw e k b s)" "\<lambda>_ s. snd (rs422_frame hw e k s)" for hw e k
  by unfold_locales (simp_all add: rs422_feed_def)

text \<open>C25: the gateway's interrupt ring is a first-in first-out queue of 512 bytes whose 16-bit
  indices may wrap around: under every interleaving of receive interrupts with the task, what it
  held and stored is what was taken out and what it still holds, in order; every byte that was
  not stored is counted as an overflow.\<close>

theorem rs422_ring_is_fifo:
  assumes "rx_ring_inv s" and "fifo_run rx_ring_put rs422_rx_ring_pop ops s = (accepted, popped, s')"
  shows "rx_ring_inv s' \<and> rx_ring_bytes s @ accepted = popped @ rx_ring_bytes s' \<and> length (rx_ring_bytes s') \<le> 512 \<and>
    g_rs422_rx_overflow_count (rs s') + of_nat (length accepted) =
      g_rs422_rx_overflow_count (rs s) + of_nat (length (puts ops)) \<and>
    (\<forall>b. fst (rx_ring_put b s') \<longleftrightarrow> length (rx_ring_bytes s') < 512)"
proof -
  from rx_ring.fifo_order [OF assms] have order: "rx_ring_inv s'" "rx_ring_bytes s @ accepted = popped @ rx_ring_bytes s'"
    by simp_all
  then have "fst (rx_ring_put b s') \<longleftrightarrow> length (rx_ring_bytes s') < 512" for b
    using rx_ring.put_cases [OF order(1) prod.collapse [symmetric, of "rx_ring_put b s'"]] by simp
  with order run_overflow [OF assms(2)] rx_ring.within_capacity [OF order(1)] show ?thesis by simp
qed

theorem rs422_ring_is_fifo_witness:
  "\<exists>s'. fifo_run rx_ring_put rs422_rx_ring_pop [Put 7, Put 8, Get]
      ((boot ())\<lparr>ro := boot_rs422_objects\<lparr>g_rs422_rx_head := 0xFFFF, g_rs422_rx_tail := 0xFFFF\<rparr>\<rparr>) = ([7, 8], [7], s') \<and>
    rx_ring_bytes s' = [8] \<and> g_rs422_rx_overflow_count (rs s') = 0"
proof -
  let ?s = "(boot ())\<lparr>ro := boot_rs422_objects\<lparr>g_rs422_rx_head := 0xFFFF, g_rs422_rx_tail := 0xFFFF\<rparr>\<rparr>"
  obtain acc out s' where run: "fifo_run rx_ring_put rs422_rx_ring_pop [Put 7, Put 8, Get] ?s = (acc, out, s')"
    using prod_cases3 by blast
  have inv: "rx_ring_inv ?s" "rx_ring_bytes ?s = []" "g_rs422_rx_overflow_count (rs ?s) = 0"
    by (simp_all add: rx_ring_inv_def rx_ring_bytes_def boot_rs422_objects_def boot_def boot_rs422_vars_def)
  have "fst (fifo_run rx_ring_put rs422_rx_ring_pop [Put 7, Put 8, Get] ?s) = [7, 8]"
    "fst (snd (fifo_run rx_ring_put rs422_rx_ring_pop [Put 7, Put 8, Get] ?s)) = [7]"
    by code_simp+
  then have "acc = [7, 8]" "out = [7]" using run by simp_all
  with rs422_ring_is_fifo [OF inv(1) run] inv run show ?thesis by simp
qed

end
