(* ===== verification/GwSend.thy ===== *)
theory GwSend
  imports GwBus
begin

text \<open>
  What the two sockets share when they send: the sequence of bus writes that hands a frame to the
  chip, and how long that may take. The TCP and the UDP service have their own copies of the
  sending code; the locale \<open>frame_sender\<close> states what one copy is made of, and the facts on the
  sequence are proved once for both.
\<close>

subsection \<open>Bus writes\<close>

text \<open>
  A chip-select frame writes to the chip when the write bit of its control byte is set.
  \<open>wrote log ws e e'\<close> says that between \<open>e\<close> and \<open>e'\<close> the frames that write were exactly \<open>ws\<close>.
\<close>

definition is_write :: "u8 list \<Rightarrow> bool" where
  "is_write f \<longleftrightarrow> 3 \<le> length f \<and> f ! 2 AND 4 \<noteq> 0"

definition wrote :: "('e \<Rightarrow> u8 list list) \<Rightarrow> u8 list list \<Rightarrow> 'e \<Rightarrow> 'e \<Rightarrow> bool" where
  "wrote log ws e e' \<longleftrightarrow> filter is_write (log e') = filter is_write (log e) @ ws"

text \<open>
  The hypothesis on the rest of the gateway: while the Ethernet task is not running, nothing else
  writes the objects it owns.
\<close>

definition same_eth :: "'e gw \<Rightarrow> 'e gw \<Rightarrow> bool" where
  "same_eth s t \<longleftrightarrow> tob t = tob s \<and> uo t = uo s"

definition eth_private :: "'e hw \<Rightarrow> bool" where
  "eth_private hw \<longleftrightarrow> (\<forall>n s. same_eth s (sleep hw n s) \<and> tcp (sleep hw n s) = tcp s \<and> udp (sleep hw n s) = udp s \<and>
     net (sleep hw n s) = net s \<and> ed (sleep hw n s) = ed s \<and> sv (sleep hw n s) = sv s)"

definition eth_bus :: "'e hw \<Rightarrow> ('e \<Rightarrow> u8 list list) \<Rightarrow> bool" where
  "eth_bus hw log \<longleftrightarrow> (\<exists>cur. bus_ok hw log cur) \<and> eth_private hw"

lemma same_eth_refl [simp]: "same_eth s s" and same_eth_env [simp]: "same_eth s (s\<lparr>env := e\<rparr>)"
  by (simp_all add: same_eth_def)

lemma same_eth_trans: "same_eth s t \<Longrightarrow> same_eth t u \<Longrightarrow> same_eth s u"
  by (simp add: same_eth_def)

lemma wrote_refl [simp]: "wrote log [] e e"
  by (simp add: wrote_def)

lemma wrote_trans: "wrote log a e e' \<Longrightarrow> wrote log b e' e'' \<Longrightarrow> c = a @ b \<Longrightarrow> wrote log c e e''"
  by (simp add: wrote_def)

lemma wrote_same_log: "log e' = log e \<Longrightarrow> wrote log [] e e'"
  by (simp add: wrote_def)

lemma is_write_simps [simp]: "is_write (a # b # c # f) \<longleftrightarrow> c AND 4 \<noteq> 0"
  by (simp add: is_write_def)

lemma one_frame_wrote:
  "one_frame log HAL_OK f e e' \<Longrightarrow> is_write f \<Longrightarrow> wrote log [f] e e'"
  "one_frame log HAL_OK f e e' \<Longrightarrow> \<not> is_write f \<Longrightarrow> wrote log [] e e'"
  by (auto simp: one_frame_def wrote_def)

lemma bus_ok_time:
  assumes "bus_ok hw log cur"
  shows "log (snd (osKernelGetTickCount hw e)) = log e" "log (env (sleep hw n s)) = log (env s)"
  using assms unfolding bus_ok_def by blast+

lemma bus_tick: "eth_bus hw log \<Longrightarrow> wrote log [] (env s) (env (snd (get_tick hw s)))"
  using bus_ok_time(1) [of hw log _ "env s"] by (auto simp: eth_bus_def intro: wrote_same_log)

lemma bus_delay:
  assumes "eth_bus hw log"
  shows "wrote log [] (env s) (env (osDelay hw n s)) \<and> same_eth s (osDelay hw n s)"
proof -
  obtain cur where "bus_ok hw log cur" "eth_private hw" using assms unfolding eth_bus_def by blast
  then show ?thesis unfolding osDelay_def eth_private_def using bus_ok_time(2) [of hw log cur n s] by (blast intro: wrote_same_log)
qed

subsection \<open>Polling on the bus\<close>

lemma poll_until_wrote:
  assumes bus: "eth_bus hw log" and run: "poll_until hw look T P s = Some (HAL_OK, s')"
    and none: "\<And>s t. look s = (None, t) \<Longrightarrow> wrote log [] (env s) (env t) \<and> same_eth s t"
    and ok: "\<And>s t. look s = (Some HAL_OK, t) \<Longrightarrow> wrote log ws (env s) (env t) \<and> same_eth s t"
  shows "wrote log ws (env s) (env s') \<and> same_eth s s'"
proof -
  let ?I = "\<lambda>t. wrote log [] (env s) (env t) \<and> same_eth s t"
  let ?Q = "\<lambda>st t. st = HAL_OK \<longrightarrow> wrote log ws (env s) (env t) \<and> same_eth s t"
  have run': "poll_loop hw look (rs422_ms_to_kernel_ticks hw T) (rs422_ms_to_kernel_ticks hw P) (fst (get_tick hw s)) (snd (get_tick hw s))
      = Some (HAL_OK, s')"
    using run by (simp add: poll_until_def Let_def)
  have "?Q HAL_OK s'"
  proof (rule poll_loop_rule [where I = ?I and Q = ?Q, OF run'])
    show "?I (snd (get_tick hw s))" using bus_tick [OF bus, of s] by simp
    show "?Q st t" if "?I u" "look u = (Some st, t)" for u st t
      using that ok [of u t] by (auto elim: wrote_trans same_eth_trans)
    show "?Q HAL_TIMEOUT (snd (get_tick hw t))" if "?I u" "look u = (None, t)" for u t by simp
    show "?I (osDelay hw (rs422_ms_to_kernel_ticks hw P) (snd (get_tick hw t)))" if "?I u" "look u = (None, t)" for u t
    proof -
      let ?v = "snd (get_tick hw t)"
      have "same_eth t ?v" by simp
      with that none [of u t] bus_tick [OF bus, of t] bus_delay [OF bus, of ?v "rs422_ms_to_kernel_ticks hw P"]
      show ?thesis by (metis append_Nil same_eth_trans wrote_trans)
    qed
  qed
  then show ?thesis by simp
qed

lemma poll_until_quiet:
  assumes "eth_bus hw log" "poll_until hw look T P s = Some (HAL_OK, s')"
    and "\<And>s r t. r = None \<or> r = Some HAL_OK \<Longrightarrow> look s = (r, t) \<Longrightarrow> wrote log [] (env s) (env t) \<and> same_eth s t"
  shows "wrote log [] (env s) (env s') \<and> same_eth s s'"
  by (rule poll_until_wrote [OF assms(1,2)]) (use assms(3) in blast)+

lemma eth_bus_frames:
  assumes "eth_bus hw log"
  obtains cur where "bus_ok hw log cur"
  using assms unfolding eth_bus_def by blast

lemma socket_write_wrote:
  assumes "eth_bus hw log" "0 < n"
  shows "w5500_socket0_write_registers hw a d n e = (HAL_OK, e') \<Longrightarrow> n \<le> 2 \<Longrightarrow>
      wrote log [[hi8 a, lo8 a, 0x0c] @ take n d] e e'"
    and "w5500_socket1_write_registers hw a d n e = (HAL_OK, e') \<Longrightarrow> n \<le> 4 \<Longrightarrow>
      wrote log [[hi8 a, lo8 a, 0x2c] @ take n d] e e'"
proof -
  obtain cur where bus: "bus_ok hw log cur" by (rule eth_bus_frames [OF assms(1)])
  show "wrote log [[hi8 a, lo8 a, 0x0c] @ take n d] e e'"
    if "w5500_socket0_write_registers hw a d n e = (HAL_OK, e')" "n \<le> 2"
    using write_registers_frame(2) [OF bus that(1) assms(2) that(2)] by (rule one_frame_wrote) simp
  show "wrote log [[hi8 a, lo8 a, 0x2c] @ take n d] e e'"
    if "w5500_socket1_write_registers hw a d n e = (HAL_OK, e')" "n \<le> 4"
    using write_registers_frame(3) [OF bus that(1) assms(2) that(2)] by (rule one_frame_wrote) simp
qed

lemma socket_read_wrote:
  assumes "eth_bus hw log"
  shows "w5500_socket0_read_register hw a v e = (HAL_OK, w, e') \<Longrightarrow> wrote log [] e e'"
    and "w5500_socket1_read_register hw a v e = (HAL_OK, w, e') \<Longrightarrow> wrote log [] e e'"
    and "w5500_socket0_read_u16 hw a x e = (HAL_OK, y, e') \<Longrightarrow> wrote log [] e e'"
    and "w5500_socket1_read_u16 hw a x e = (HAL_OK, y, e') \<Longrightarrow> wrote log [] e e'"
  by (rule eth_bus_frames [OF assms(1)], rule one_frame_wrote(2), erule (1) read_register_frame read_registers_frame, simp)+

lemma stable_read_wrote:
  assumes "eth_bus hw log"
  shows "w5500_socket0_read_stable_u16 hw a x e = (HAL_OK, y, e') \<Longrightarrow> wrote log [] e e'"
    and "w5500_socket1_read_stable_u16 hw a x e = (HAL_OK, y, e') \<Longrightarrow> wrote log [] e e'"
proof -
  obtain cur where bus: "bus_ok hw log cur" using assms by (auto simp: eth_bus_def)
  have quiet: "filter is_write (replicate k [hi8 a, lo8 a, c, 0, 0]) = []" if "c AND 4 = 0" for k and c :: u8
    using that by (induction k) auto
  show "wrote log [] e e'" if r: "w5500_socket0_read_stable_u16 hw a x e = (HAL_OK, y, e')"
  proof -
    obtain k where "log e' = log e @ replicate k [hi8 a, lo8 a, 0x08, 0, 0]"
      using stable_read_log [of "w5500_socket0_read_u16 hw a 0" log] read_registers_frame(1) [OF bus] r
      unfolding w5500_socket0_read_stable_u16_def by blast
    with quiet [of 8] show ?thesis by (simp add: wrote_def)
  qed
  show "wrote log [] e e'" if r: "w5500_socket1_read_stable_u16 hw a x e = (HAL_OK, y, e')"
  proof -
    obtain k where "log e' = log e @ replicate k [hi8 a, lo8 a, 0x28, 0, 0]"
      using stable_read_log [of "w5500_socket1_read_u16 hw a 0" log] read_registers_frame(2) [OF bus] r
      unfolding w5500_socket1_read_stable_u16_def by blast
    with quiet [of 40] show ?thesis by (simp add: wrote_def)
  qed
qed

lemma tx_buffer_wrote:
  assumes "eth_bus hw log" "0 < n" "n \<le> 266" "n \<le> length d"
  shows "w5500_socket0_write_tx_buffer hw a d n b e = (HAL_OK, b', e') \<Longrightarrow> wrote log [[hi8 a, lo8 a, 0x14] @ take n d] e e'"
    and "w5500_socket1_write_tx_buffer hw a d n b e = (HAL_OK, b', e') \<Longrightarrow> wrote log [[hi8 a, lo8 a, 0x34] @ take n d] e e'"
proof -
  obtain cur where bus: "bus_ok hw log cur" by (rule eth_bus_frames [OF assms(1)])
  show "wrote log [[hi8 a, lo8 a, 0x14] @ take n d] e e'" if "w5500_socket0_write_tx_buffer hw a d n b e = (HAL_OK, b', e')"
    using tx_buffer_frame(1) [OF bus assms(2-4) that] by (rule one_frame_wrote) simp
  show "wrote log [[hi8 a, lo8 a, 0x34] @ take n d] e e'" if "w5500_socket1_write_tx_buffer hw a d n b e = (HAL_OK, b', e')"
    using tx_buffer_frame(2) [OF bus assms(2-4) that] by (rule one_frame_wrote) simp
qed

lemma command_look_quiet:
  assumes "eth_bus hw log" "r = None \<or> r = Some HAL_OK"
  shows "socket0_command_look hw c s = (r, t) \<Longrightarrow> wrote log [] (env s) (env t) \<and> same_eth s t"
    and "socket1_command_look hw c s = (r, t) \<Longrightarrow> wrote log [] (env s) (env t) \<and> same_eth s t"
    and "socket0_status_look hw x s = (r, t) \<Longrightarrow> wrote log [] (env s) (env t) \<and> same_eth s t"
    and "socket1_status_look hw x s = (r, t) \<Longrightarrow> wrote log [] (env s) (env t) \<and> same_eth s t"
proof -
  note rd = socket_read_wrote(1,2) [OF assms(1)]
  show "wrote log [] (env s) (env t) \<and> same_eth s t" if "socket0_command_look hw c s = (r, t)"
    using that assms(2) by (cases "w5500_socket0_read_register hw 1 c (env s)")
      (auto simp: socket0_command_look_def Let_def dest: rd split: if_splits)
  show "wrote log [] (env s) (env t) \<and> same_eth s t" if "socket1_command_look hw c s = (r, t)"
    using that assms(2) by (cases "w5500_socket1_read_register hw 1 c (env s)")
      (auto simp: socket1_command_look_def Let_def dest: rd split: if_splits)
  show "wrote log [] (env s) (env t) \<and> same_eth s t" if "socket0_status_look hw x s = (r, t)"
    using that assms(2) by (cases "w5500_socket0_read_register hw 3 0 (env s)")
      (auto simp: socket0_status_look_def same_eth_def Let_def dest: rd split: if_splits)
  show "wrote log [] (env s) (env t) \<and> same_eth s t" if "socket1_status_look hw x s = (r, t)"
    using that assms(2) by (cases "w5500_socket1_read_register hw 3 0 (env s)")
      (auto simp: socket1_status_look_def same_eth_def Let_def dest: rd split: if_splits)
qed

lemma execute_command_wrote:
  assumes bus: "eth_bus hw log"
  shows "w5500_socket0_execute_command hw c s = Some (HAL_OK, s') \<Longrightarrow>
      wrote log [[0, 1, 0x0c, c]] (env s) (env s') \<and> same_eth s s'"
    and "w5500_socket1_execute_command hw c s = Some (HAL_OK, s') \<Longrightarrow>
      wrote log [[0, 1, 0x2c, c]] (env s) (env s') \<and> same_eth s s'"
proof -
  have adr: "hi8 1 = 0" "lo8 1 = 1" by (simp_all add: hi8_def lo8_def)
  show "wrote log [[0, 1, 0x0c, c]] (env s) (env s') \<and> same_eth s s'"
    if run: "w5500_socket0_execute_command hw c s = Some (HAL_OK, s')"
  proof -
    obtain st e where w: "w5500_socket0_write_registers hw 1 [c] 1 (env s) = (st, e)" by fastforce
    with run have "st = HAL_OK" and p: "poll_until hw (socket0_command_look hw c) 100 1 (s\<lparr>env := e\<rparr>) = Some (HAL_OK, s')"
      by (auto simp: w5500_socket0_execute_command_def Let_def split: if_splits)
    moreover have "wrote log [] (env (s\<lparr>env := e\<rparr>)) (env s') \<and> same_eth (s\<lparr>env := e\<rparr>) s'"
      by (rule poll_until_quiet [OF bus p]) (rule command_look_quiet(1) [OF bus]; assumption)
    ultimately show ?thesis using w socket_write_wrote(1) [OF bus, of 1 1 "[c]" "env s" e] adr
      by (auto simp: same_eth_def elim: wrote_trans)
  qed
  show "wrote log [[0, 1, 0x2c, c]] (env s) (env s') \<and> same_eth s s'"
    if run: "w5500_socket1_execute_command hw c s = Some (HAL_OK, s')"
  proof -
    obtain st e where w: "w5500_socket1_write_registers hw 1 [c] 1 (env s) = (st, e)" by fastforce
    with run have "st = HAL_OK" and p: "poll_until hw (socket1_command_look hw c) 100 1 (s\<lparr>env := e\<rparr>) = Some (HAL_OK, s')"
      by (auto simp: w5500_socket1_execute_command_def Let_def split: if_splits)
    moreover have "wrote log [] (env (s\<lparr>env := e\<rparr>)) (env s') \<and> same_eth (s\<lparr>env := e\<rparr>) s'"
      by (rule poll_until_quiet [OF bus p]) (rule command_look_quiet(2) [OF bus]; assumption)
    ultimately show ?thesis using w socket_write_wrote(2) [OF bus, of 1 1 "[c]" "env s" e] adr
      by (auto simp: same_eth_def elim: wrote_trans)
  qed
qed

subsection \<open>What the waits leave alone\<close>

text \<open>
  \<open>eth_same\<close>: the Ethernet task's variables are unchanged, and of its objects only the scratch
  buffers that receive the bytes clocked in during a write.
\<close>

definition eth_same :: "'e gw \<Rightarrow> 'e gw \<Rightarrow> bool" where
  "eth_same s t \<longleftrightarrow> tcp t = tcp s \<and> udp t = udp s \<and> net t = net s \<and> ed t = ed s \<and> sv t = sv s \<and>
     (\<exists>d. tob t = (tob s)\<lparr>g_w5500_tcp_rx_dummy := d\<rparr>) \<and> (\<exists>d. uo t = (uo s)\<lparr>g_w5500_udp_spi_discard := d\<rparr>)"

lemma eth_same_env [simp]: "eth_same s (s\<lparr>env := e\<rparr>)"
  by (simp add: eth_same_def) (metis tcp_objects.surjective tcp_objects.update_convs(5) udp_objects.surjective udp_objects.update_convs(4))

lemma eth_same_scratch:
  "eth_same s (s\<lparr>env := e, tob := (tob s)\<lparr>g_w5500_tcp_rx_dummy := d\<rparr>\<rparr>)"
  "eth_same s (s\<lparr>env := e, uo := (uo s)\<lparr>g_w5500_udp_spi_discard := d\<rparr>\<rparr>)"
  by (auto simp: eth_same_def) (metis tcp_objects.surjective tcp_objects.update_convs(5) udp_objects.surjective udp_objects.update_convs(4))+

lemma eth_same_refl [simp]: "eth_same s s"
  using eth_same_env [of s "env s"] by simp

lemma eth_same_trans: "eth_same s t \<Longrightarrow> eth_same t u \<Longrightarrow> eth_same s u"
  by (auto simp: eth_same_def)

lemma eth_same_sleep: "eth_private hw \<Longrightarrow> eth_same s (sleep hw n s)"
  using eth_same_refl [of s] unfolding eth_private_def same_eth_def eth_same_def by metis

text \<open>Any relation that time and the looks respect is respected by the whole wait.\<close>

lemma poll_until_rel:
  assumes run: "poll_until hw look T P s = Some (st, s')"
    and trans: "\<And>s t u. R s t \<Longrightarrow> R t u \<Longrightarrow> R s u" and upd: "\<And>s e. R s (s\<lparr>env := e\<rparr>)"
    and slp: "\<And>s n. R s (sleep hw n s)" and look: "\<And>s. R s (snd (look s))"
  shows "R s s'"
proof -
  have run': "poll_loop hw look (rs422_ms_to_kernel_ticks hw T) (rs422_ms_to_kernel_ticks hw P) (fst (get_tick hw s)) (snd (get_tick hw s))
      = Some (st, s')"
    using run by (simp add: poll_until_def Let_def)
  show ?thesis
  proof (rule poll_loop_rule [where I = "R s" and Q = "\<lambda>_. R s", OF run'])
    show "R s (snd (get_tick hw s))" using upd by simp
    show "R s t" if "R s u" "look u = (Some st, t)" for u st t
      using trans [OF that(1)] look [of u] that(2) by simp
    show "R s (snd (get_tick hw t))" if "R s u" "look u = (None, t)" for u t
      using trans [OF trans [OF that(1)]] look [of u] that(2) upd by simp
    show "R s (osDelay hw (rs422_ms_to_kernel_ticks hw P) (snd (get_tick hw t)))" if "R s u" "look u = (None, t)" for u t
    proof -
      have "R s t" using trans [OF that(1)] look [of u] that(2) by simp
      then have "R s (snd (get_tick hw t))" by (rule trans) (simp add: upd)
      then show ?thesis unfolding osDelay_def by (rule trans) (rule slp)
    qed
  qed
qed

lemma poll_until_same:
  assumes "eth_private hw" "poll_until hw look T P s = Some (st, s')" "\<And>s. eth_same s (snd (look s))"
  shows "eth_same s s'"
  by (rule poll_until_rel [OF assms(2)]) (auto intro: eth_same_trans eth_same_sleep assms)

lemma command_look_same:
  "eth_same s (snd (socket0_command_look hw c s))" "eth_same s (snd (socket1_command_look hw c s))"
  by (simp_all add: socket0_command_look_def socket1_command_look_def Let_def split: prod.split)

lemma execute_command_same:
  assumes "eth_private hw"
  shows "w5500_socket0_execute_command hw c s = Some (st, s') \<Longrightarrow> eth_same s s'"
    and "w5500_socket1_execute_command hw c s = Some (st, s') \<Longrightarrow> eth_same s s'"
  by (auto simp: w5500_socket0_execute_command_def w5500_socket1_execute_command_def Let_def split: prod.splits if_splits
      dest!: poll_until_same [OF assms] intro: command_look_same elim: eth_same_trans [rotated])

subsection \<open>Times\<close>

definition clocked :: "'e hw \<Rightarrow> ('e \<Rightarrow> nat) \<Rightarrow> nat \<Rightarrow> nat \<Rightarrow> bool" where
  "clocked hw now G B \<longleftrightarrow> clock_ok hw now G B \<and> osKernelGetTickFreq hw = 1000 \<and> B < 2 ^ 24"

lemma poll_second_returns:
  assumes "clocked hw now G B" and "\<And>s. within now G C (env s) (env (snd (look s)))" and "C \<le> 24 * B" and "N = 1010 + C + 3 * B"
  shows "returns (\<lambda>st s'. within now G N (env s) (env s')) (poll_until hw look 1000 10 s)"
proof -
  have "returns (\<lambda>st s'. within now G (unat (1000 :: u32) + unat (10 :: u32) + C + 3 * B) (env s) (env s')) (poll_until hw look 1000 10 s)"
    by (rule poll_until_returns) (use assms in \<open>auto simp: clocked_def\<close>)
  then show ?thesis by (simp add: assms(4))
qed

lemma send_chunks_time:
  assumes clk: "clock_ok hw now G B"
  shows "\<lbrakk>send_chunks hw 64 data len off d e = (st, d', e'); len \<le> off + 64 * k\<rbrakk> \<Longrightarrow> within now G (k * B) e e'"
proof (induction k arbitrary: off d e)
  case 0
  then show ?case by (simp add: send_chunks.simps [of _ _ _ _ off])
next
  case (Suc k)
  show ?case
  proof (cases "off < len")
    case False
    with Suc.prems show ?thesis by (simp add: send_chunks.simps [of _ _ _ _ off])
  next
    case True
    define n where "n = (if len - off > 64 then 64 else len - off)"
    obtain s1 d1 e1 where t: "spi_transfer hw (take n (drop off data)) d e = (s1, d1, e1)"
      by (cases "spi_transfer hw (take n (drop off data)) d e")
    have rec: "(st, d', e') = (if s1 = HAL_OK then send_chunks hw 64 data len (off + n) d1 e1 else (s1, d1, e1))"
      using t unfolding Suc.prems(1) [symmetric] send_chunks_step [OF True _ n_def, of hw data d e, simplified] by simp
    have step: "within now G B e e1" by (rule clock_transfer [OF clk t])
    show ?thesis
    proof (cases "s1 = HAL_OK")
      case True
      with rec have "send_chunks hw 64 data len (off + n) d1 e1 = (st, d', e')" by simp
      moreover have "len \<le> off + n + 64 * k" using Suc.prems(2) by (simp add: n_def, linarith)
      ultimately have "within now G (k * B) e1 e'" by (rule Suc.IH)
      with step show ?thesis by (rule within_trans) simp
    next
      case False
      with rec step show ?thesis by (auto intro: within_mono)
    qed
  qed
qed

lemma chunked_frame_time:
  assumes clk: "clock_ok hw now G B" and n: "n \<le> 266"
    and run: "(let e = HAL_GPIO_WritePin hw W5500_CS False e;
        (s, _, e) = spi_transfer hw h z e;
        (s, b, e) = (if s = HAL_OK then send_chunks hw 64 d n 0 b e else (s, b, e));
        e = HAL_GPIO_WritePin hw W5500_CS True e in (s, b, e)) = (st, b', e')"
  shows "within now G (8 * B) e e'"
proof -
  let ?e0 = "HAL_GPIO_WritePin hw W5500_CS False e"
  obtain s1 z1 e1 where h: "spi_transfer hw h z ?e0 = (s1, z1, e1)" by (cases "spi_transfer hw h z ?e0")
  obtain s2 b2 e2 where c: "(if s1 = HAL_OK then send_chunks hw 64 d n 0 b e1 else (s1, b, e1)) = (s2, b2, e2)"
    by (cases "if s1 = HAL_OK then send_chunks hw 64 d n 0 b e1 else (s1, b, e1)")
  have "within now G B e ?e0" by (rule clock_pin [OF clk])
  moreover have "within now G B ?e0 e1" by (rule clock_transfer [OF clk h])
  moreover have "within now G (5 * B) e1 e2"
    using send_chunks_time [OF clk, of d n 0 b e1 s2 b2 e2 5] c n by (auto split: if_splits)
  moreover have "e' = HAL_GPIO_WritePin hw W5500_CS True e2" using run h c by simp
  then have "within now G B e2 e'" using clock_pin [OF clk] by simp
  ultimately show ?thesis by (auto simp: within_def)
qed

lemma tx_buffer_time:
  assumes clk: "clock_ok hw now G B" and n: "n \<le> 266"
  shows "w5500_socket0_write_tx_buffer hw a d n b e = (st, b', e') \<Longrightarrow> within now G (8 * B) e e'"
    and "w5500_socket1_write_tx_buffer hw a d n b e = (st, b', e') \<Longrightarrow> within now G (8 * B) e e'"
proof -
  show "within now G (8 * B) e e'" if w: "w5500_socket0_write_tx_buffer hw a d n b e = (st, b', e')"
  proof (cases "n = 0")
    case False
    with w n show ?thesis
      by (intro chunked_frame_time [OF clk n, where h = "[hi8 a, lo8 a, 0x14]" and z = "replicate 3 0" and b = b and b' = b' and st = st and d = d])
        (simp add: w5500_socket0_write_tx_buffer_def cong: if_cong)
  qed (use w in \<open>simp add: w5500_socket0_write_tx_buffer_def\<close>)
  show "within now G (8 * B) e e'" if w: "w5500_socket1_write_tx_buffer hw a d n b e = (st, b', e')"
  proof (cases "n = 0")
    case False
    with w n show ?thesis
      by (intro chunked_frame_time [OF clk n, where h = "[hi8 a, lo8 a, 0x34]" and z = "replicate 3 0" and b = b and b' = b' and st = st and d = d])
        (simp add: w5500_socket1_write_tx_buffer_def cong: if_cong)
  qed (use w in \<open>simp add: w5500_socket1_write_tx_buffer_def\<close>)
qed

lemma stable_u16_time:
  assumes "clock_ok hw now G B"
  shows "w5500_socket0_read_stable_u16 hw a x e = (st, y, e') \<Longrightarrow> within now G (24 * B) e e'"
    and "w5500_socket1_read_stable_u16 hw a x e = (st, y, e') \<Longrightarrow> within now G (24 * B) e e'"
proof -
  show "within now G (24 * B) e e'" if "w5500_socket0_read_stable_u16 hw a x e = (st, y, e')"
    using stable_read_time [of "w5500_socket0_read_u16 hw a 0" now G "3 * B", OF register_time(6) [OF assms]] that
    unfolding w5500_socket0_read_stable_u16_def by (fastforce simp: mult.assoc)
  show "within now G (24 * B) e e'" if "w5500_socket1_read_stable_u16 hw a x e = (st, y, e')"
    using stable_read_time [of "w5500_socket1_read_u16 hw a 0" now G "3 * B", OF register_time(7) [OF assms]] that
    unfolding w5500_socket1_read_stable_u16_def by (fastforce simp: mult.assoc)
qed

lemma tick_frame:
  assumes "e = env s \<or> e = env (snd (get_tick hw s))"
  shows "eth_bus hw log \<Longrightarrow> wrote log [] (env s) e" "clocked hw now G B \<Longrightarrow> within now G B (env s) e"
  using assms bus_tick [of hw log s] clock_tick(1) [of hw now G B s] by (auto simp: clocked_def)

lemma unat_frame_length: "packet_ok p \<Longrightarrow> unat (of_nat (10 + unat (pk_length p)) :: u16) = 10 + unat (pk_length p)"
proof -
  assume "packet_ok p"
  then have "10 + unat (pk_length p) < 2 ^ 16" by (simp add: packet_ok_def)
  then show ?thesis by (simp only: unat_of_nat) (simp add: take_bit_nat_eq_self)
qed

text \<open>The chip writes of one transmission of \<open>bytes\<close> through the socket with the given control bytes.\<close>

definition transmission :: "u8 \<Rightarrow> u8 \<Rightarrow> u16 \<Rightarrow> u8 list \<Rightarrow> u8 list list" where
  "transmission regs data q bytes =
     [[hi8 q, lo8 q, data] @ bytes, [0, 0x24, regs, hi8 (q + of_nat (length bytes)), lo8 (q + of_nat (length bytes))],
      [0, 2, regs, 0x18], [0, 1, regs, 0x20], [0, 2, regs, 0x10]]"

subsection \<open>Senders\<close>

locale frame_sender =
  fixes regs data :: u8
    and frame_of :: "'e gw \<Rightarrow> u8 list"
    and wait_free :: "'e hw \<Rightarrow> u16 \<Rightarrow> 'e gw \<Rightarrow> (HAL_StatusTypeDef \<times> 'e gw) option"
    and read_pointer :: "'e hw \<Rightarrow> 'e gw \<Rightarrow> HAL_StatusTypeDef \<times> u16 \<times> 'e gw"
    and put_frame :: "'e hw \<Rightarrow> u16 \<Rightarrow> u16 \<Rightarrow> 'e gw \<Rightarrow> HAL_StatusTypeDef \<times> 'e gw"
    and put_registers :: "'e hw \<Rightarrow> u16 \<Rightarrow> u8 list \<Rightarrow> 'e gw \<Rightarrow> HAL_StatusTypeDef \<times> 'e gw"
    and command :: "'e hw \<Rightarrow> u8 \<Rightarrow> 'e gw \<Rightarrow> (HAL_StatusTypeDef \<times> 'e gw) option"
    and wait_result :: "'e hw \<Rightarrow> 'e gw \<Rightarrow> (HAL_StatusTypeDef \<times> 'e gw) option"
    and send :: "'e hw \<Rightarrow> u16 \<Rightarrow> 'e gw \<Rightarrow> (HAL_StatusTypeDef \<times> 'e gw) option"
  assumes send_steps: "send hw n s =
      (if n = 0 \<or> unat n > 266 then Some (HAL_ERROR, s)
       else do {
         (st, s) \<leftarrow> wait_free hw n s;
         if st \<noteq> HAL_OK then Some (st, s)
         else let (st, p, s) = read_pointer hw s in if st \<noteq> HAL_OK then Some (st, s)
         else let (st, s) = put_frame hw p n s in if st \<noteq> HAL_OK then Some (st, s)
         else let (st, s) = put_registers hw 0x24 [hi8 (p + n), lo8 (p + n)] s in if st \<noteq> HAL_OK then Some (st, s)
         else let (st, s) = put_registers hw 0x02 [0x18] s in if st \<noteq> HAL_OK then Some (st, s)
         else do {
           (st, s) \<leftarrow> command hw 0x20 s;
           if st \<noteq> HAL_OK then Some (st, s) else wait_result hw s
         }
       })"
    and wait_free_bus: "eth_bus hw log \<Longrightarrow> wait_free hw n s = Some (HAL_OK, s') \<Longrightarrow>
      wrote log [] (env s) (env s') \<and> frame_of s' = frame_of s"
    and read_pointer_bus: "eth_bus hw log \<Longrightarrow> read_pointer hw s = (HAL_OK, p, s') \<Longrightarrow>
      wrote log [] (env s) (env s') \<and> frame_of s' = frame_of s"
    and put_frame_bus: "eth_bus hw log \<Longrightarrow> put_frame hw p n s = (HAL_OK, s') \<Longrightarrow> 0 < unat n \<Longrightarrow> unat n \<le> 266 \<Longrightarrow>
      unat n \<le> length (frame_of s) \<Longrightarrow> wrote log [[hi8 p, lo8 p, data] @ take (unat n) (frame_of s)] (env s) (env s')"
    and put_registers_bus: "eth_bus hw log \<Longrightarrow> 0 < length d \<Longrightarrow> length d \<le> 2 \<Longrightarrow> put_registers hw a d s = (HAL_OK, s') \<Longrightarrow>
      wrote log [[hi8 a, lo8 a, regs] @ d] (env s) (env s')"
    and command_bus: "eth_bus hw log \<Longrightarrow> command hw c s = Some (HAL_OK, s') \<Longrightarrow> wrote log [[0, 1, regs, c]] (env s) (env s')"
    and wait_result_bus: "eth_bus hw log \<Longrightarrow> wait_result hw s = Some (HAL_OK, s') \<Longrightarrow>
      wrote log [[0, 2, regs, 0x10]] (env s) (env s')"
    and wait_free_same: "eth_private hw \<Longrightarrow> wait_free hw n s = Some (st, s') \<Longrightarrow> eth_same s s'"
    and read_pointer_same: "read_pointer hw s = (st, p, s') \<Longrightarrow> eth_same s s'"
    and put_frame_same: "put_frame hw p n s = (st, s') \<Longrightarrow> eth_same s s'"
    and put_registers_same: "put_registers hw a d s = (st, s') \<Longrightarrow> eth_same s s'"
    and command_same: "eth_private hw \<Longrightarrow> command hw c s = Some (st, s') \<Longrightarrow> eth_same s s'"
    and wait_result_same: "eth_private hw \<Longrightarrow> wait_result hw s = Some (st, s') \<Longrightarrow> eth_same s s'"
    and wait_free_time: "clocked hw now G B \<Longrightarrow> returns (\<lambda>st s'. within now G (1010 + 27 * B) (env s) (env s')) (wait_free hw n s)"
    and read_pointer_time: "clocked hw now G B \<Longrightarrow> read_pointer hw s = (st, p, s') \<Longrightarrow> within now G (3 * B) (env s) (env s')"
    and put_frame_time: "clocked hw now G B \<Longrightarrow> unat n \<le> 266 \<Longrightarrow> put_frame hw p n s = (st, s') \<Longrightarrow>
      within now G (8 * B) (env s) (env s')"
    and put_registers_time: "clocked hw now G B \<Longrightarrow> put_registers hw a d s = (st, s') \<Longrightarrow> within now G (3 * B) (env s) (env s')"
    and command_time: "clocked hw now G B \<Longrightarrow> returns (\<lambda>st s'. within now G (101 + 9 * B) (env s) (env s')) (command hw c s)"
    and wait_result_time: "clocked hw now G B \<Longrightarrow> returns (\<lambda>st s'. within now G (1010 + 9 * B) (env s) (env s')) (wait_result hw s)"
begin

text \<open>
  A successful transmission writes, in this order: the frame into the buffer, the advanced write
  pointer, the reset of stale results, the SEND command, and the acknowledgement of SEND_OK.
\<close>

lemma send_on_bus:
  assumes bus: "eth_bus hw log" and run: "send hw n s = Some (HAL_OK, s')" and len: "unat n \<le> length (frame_of s)"
  shows "0 < unat n \<and> unat n \<le> 266 \<and> (\<exists>p. wrote log
    [[hi8 p, lo8 p, data] @ take (unat n) (frame_of s), [0, 0x24, regs, hi8 (p + n), lo8 (p + n)],
     [0, 2, regs, 0x18], [0, 1, regs, 0x20], [0, 2, regs, 0x10]] (env s) (env s'))"
proof -
  have n: "n \<noteq> 0" "unat n \<le> 266" using run by (auto simp: send_steps split: if_splits)
  have n0: "0 < unat n" using n(1) by (metis neq0_conv unat_eq_0)
  obtain s1 where s1: "wait_free hw n s = Some (HAL_OK, s1)"
    using run n by (auto simp: send_steps Option.bind_eq_Some_conv split: if_splits)
  obtain p s2 where s2: "read_pointer hw s1 = (HAL_OK, p, s2)"
    using run n s1 by (cases "read_pointer hw s1") (auto simp: send_steps split: if_splits)
  obtain s3 where s3: "put_frame hw p n s2 = (HAL_OK, s3)"
    using run n s1 s2 by (cases "put_frame hw p n s2") (auto simp: send_steps split: if_splits)
  obtain s4 where s4: "put_registers hw 0x24 [hi8 (p + n), lo8 (p + n)] s3 = (HAL_OK, s4)"
    using run n s1 s2 s3 by (cases "put_registers hw 0x24 [hi8 (p + n), lo8 (p + n)] s3") (auto simp: send_steps split: if_splits)
  obtain s5 where s5: "put_registers hw 2 [0x18] s4 = (HAL_OK, s5)"
    using run n s1 s2 s3 s4 by (cases "put_registers hw 2 [0x18] s4") (auto simp: send_steps split: if_splits)
  obtain s6 where s6: "command hw 0x20 s5 = Some (HAL_OK, s6)" "wait_result hw s6 = Some (HAL_OK, s')"
    using run n s1 s2 s3 s4 s5 by (auto simp: send_steps Option.bind_eq_Some_conv split: if_splits)
  have adr: "hi8 0x24 = 0" "lo8 0x24 = 0x24" "hi8 2 = 0" "lo8 2 = 2" by (simp_all add: hi8_def lo8_def)
  note w = wait_free_bus [OF bus s1] read_pointer_bus [OF bus s2] put_frame_bus [OF bus s3 n0 n(2)]
    put_registers_bus [OF bus _ _ s4] put_registers_bus [OF bus _ _ s5] command_bus [OF bus s6(1)] wait_result_bus [OF bus s6(2)]
  from w len n0 n(2) show ?thesis by (auto simp: adr wrote_def)
qed

lemma send_same:
  assumes own: "eth_private hw" and run: "send hw n s = Some (st, s')"
  shows "eth_same s s'"
proof (cases "n = 0 \<or> unat n > 266")
  case True
  with run show ?thesis by (simp add: send_steps)
next
  case False
  then obtain st1 s1 where s1: "wait_free hw n s = Some (st1, s1)"
    using run by (auto simp: send_steps Option.bind_eq_Some_conv split: if_splits)
  obtain st2 p s2 where s2: "read_pointer hw s1 = (st2, p, s2)" by (cases "read_pointer hw s1")
  obtain st3 s3 where s3: "put_frame hw p n s2 = (st3, s3)" by fastforce
  obtain st4 s4 where s4: "put_registers hw 0x24 [hi8 (p + n), lo8 (p + n)] s3 = (st4, s4)" by fastforce
  obtain st5 s5 where s5: "put_registers hw 2 [0x18] s4 = (st5, s5)" by fastforce
  have e1: "eth_same s s1" by (rule wait_free_same [OF own s1])
  have e2: "eth_same s s2" using e1 read_pointer_same [OF s2] by (rule eth_same_trans)
  have e3: "eth_same s s3" using e2 put_frame_same [OF s3] by (rule eth_same_trans)
  have e4: "eth_same s s4" using e3 put_registers_same [OF s4] by (rule eth_same_trans)
  have e5: "eth_same s s5" using e4 put_registers_same [OF s5] by (rule eth_same_trans)
  have "eth_same s5 u" if "(do { (st, s) \<leftarrow> command hw 0x20 s5; if st \<noteq> HAL_OK then Some (st, s) else wait_result hw s }) = Some (st, u)" for u st
    using that command_same [OF own] wait_result_same [OF own] eth_same_trans
    by (auto simp: Option.bind_eq_Some_conv split: if_splits) blast
  with e1 e2 e3 e4 e5 run False show ?thesis
    by (auto simp: send_steps s1 s2 s3 s4 s5 split: if_splits elim: eth_same_trans)
qed

text \<open>It takes at most 2121 ticks and 62 call durations, however the chip behaves.\<close>

lemma send_returns:
  assumes clk: "clocked hw now G B"
  shows "returns (\<lambda>st s'. within now G (2121 + 62 * B) (env s) (env s')) (send hw n s)"
proof (cases "n = 0 \<or> unat n > 266")
  case True
  then show ?thesis by (simp add: send_steps wp)
next
  case False
  then have n: "unat n \<le> 266" by simp
  have tail: "returns (\<lambda>st s'. within now G (1111 + 18 * B) (env t) (env s'))
      (do { (st, s) \<leftarrow> command hw 0x20 t; if st \<noteq> HAL_OK then Some (st, s) else wait_result hw s })" for t
    unfolding returns_simps(3)
  proof (rule returns_mono [OF command_time [OF clk]])
    fix st and u :: "'e gw"
    assume u: "within now G (101 + 9 * B) (env t) (env u)"
    have "returns (\<lambda>st s'. within now G (1111 + 18 * B) (env t) (env s')) (wait_result hw u)"
      using wait_result_time [OF clk] by (rule returns_mono) (rule within_trans [OF u], assumption, simp)
    with u show "returns (\<lambda>st s'. within now G (1111 + 18 * B) (env t) (env s'))
        (if st \<noteq> HAL_OK then Some (st, u) else wait_result hw u)"
      by (auto simp: wp intro: within_mono)
  qed
  have mid: "within now G (1111 + 35 * B) (env t) (env s')" if "within now G (3 * B) (env t) (env a)" "within now G (8 * B) (env a) (env b)"
    "within now G (3 * B) (env b) (env c)" "within now G (3 * B) (env c) (env d)" "within now G (1111 + 18 * B) (env d) (env s')" for t a b c d s'
    using that by (auto simp: within_def)
  show ?thesis
    using False unfolding send_steps if_not_P [OF False] returns_simps(3)
  proof (intro returns_mono [OF wait_free_time [OF clk]])
    fix st and t :: "'e gw"
    assume t: "within now G (1010 + 27 * B) (env s) (env t)"
    note bound = within_trans [OF t, where n = "2121 + 62 * B"]
    obtain st1 p a where a: "read_pointer hw t = (st1, p, a)" by (cases "read_pointer hw t")
    obtain st2 b where b: "put_frame hw p n a = (st2, b)" by fastforce
    obtain st3 c where c: "put_registers hw 0x24 [hi8 (p + n), lo8 (p + n)] b = (st3, c)" by fastforce
    obtain st4 d where d: "put_registers hw 2 [0x18] c = (st4, d)" by fastforce
    note times = read_pointer_time [OF clk a] put_frame_time [OF clk n b] put_registers_time [OF clk c] put_registers_time [OF clk d]
    have "returns (\<lambda>st s'. within now G (1111 + 35 * B) (env t) (env s'))
        (do { (st, s) \<leftarrow> command hw 0x20 d; if st \<noteq> HAL_OK then Some (st, s) else wait_result hw s })"
      using tail [of d] by (rule returns_mono) (rule mid [OF times])
    then have "returns (\<lambda>st s'. within now G (2121 + 62 * B) (env s) (env s'))
        (do { (st, s) \<leftarrow> command hw 0x20 d; if st \<noteq> HAL_OK then Some (st, s) else wait_result hw s })"
      by (rule returns_mono) (rule bound, assumption, simp)
    moreover have "within now G (1111 + 35 * B) (env t) (env a)" "within now G (1111 + 35 * B) (env t) (env b)"
      "within now G (1111 + 35 * B) (env t) (env c)" "within now G (1111 + 35 * B) (env t) (env d)"
      using times by (auto simp: within_def)
    then have "within now G (2121 + 62 * B) (env s) (env a)" "within now G (2121 + 62 * B) (env s) (env b)"
      "within now G (2121 + 62 * B) (env s) (env c)" "within now G (2121 + 62 * B) (env s) (env d)"
      using bound by auto
    ultimately show "returns (\<lambda>st s'. within now G (2121 + 62 * B) (env s) (env s'))
      (if st \<noteq> HAL_OK then Some (st, t)
       else let (st, p, s) = read_pointer hw t in if st \<noteq> HAL_OK then Some (st, s)
         else let (st, s) = put_frame hw p n s in if st \<noteq> HAL_OK then Some (st, s)
         else let (st, s) = put_registers hw 0x24 [hi8 (p + n), lo8 (p + n)] s in if st \<noteq> HAL_OK then Some (st, s)
         else let (st, s) = put_registers hw 0x02 [0x18] s in if st \<noteq> HAL_OK then Some (st, s)
         else do { (st, s) \<leftarrow> command hw 0x20 s; if st \<noteq> HAL_OK then Some (st, s) else wait_result hw s })"
      using within_mono [OF t, of "2121 + 62 * B"] by (simp add: a b c d wp)
  qed
qed

lemma send_whole_frame:
  assumes bus: "eth_bus hw log" and clk: "clocked hw now G B" and ok: "packet_ok p"
    and frame: "take (10 + unat (pk_length p)) (frame_of s) = frame_bytes p"
  obtains st s' where "send hw (of_nat (10 + unat (pk_length p))) s = Some (st, s')"
    "within now G (2121 + 62 * B) (env s) (env s')" "eth_same s s'"
    "st = HAL_OK \<Longrightarrow> \<exists>q. wrote log (transmission regs data q (frame_bytes p)) (env s) (env s')"
proof -
  let ?n = "10 + unat (pk_length p)"
  obtain st s' where run: "send hw (of_nat ?n) s = Some (st, s')" "within now G (2121 + 62 * B) (env s) (env s')"
    using send_returns [OF clk, of s "of_nat ?n"] by (auto simp: returns_iff)
  have own: "eth_private hw" using bus by (simp add: eth_bus_def)
  have len: "?n \<le> length (frame_of s)"
    using arg_cong [OF frame, of length] ok by simp
  have "\<exists>q. wrote log (transmission regs data q (frame_bytes p)) (env s) (env s')" if "st = HAL_OK"
    using send_on_bus [OF bus, of "of_nat ?n" s s'] run(1) that len frame ok unat_frame_length [OF ok]
    by (simp add: transmission_def)
  with run send_same [OF own run(1)] show ?thesis by (rule that)
qed

end

subsection \<open>The simulated chip\<close>

lemma sim_eth_bus: "eth_bus sim_hw sim_log"
  using sim_bus_ok by (auto simp: eth_bus_def eth_private_def same_eth_def sim_hw_def)

lemma sim_clocked: "clocked sim_hw sim_time 1 1"
  using sim_clock_ok by (simp add: clocked_def sim_hw_def)

end
