(* ===== verification/GwSim.thy ===== *)
theory GwSim
  imports GwSend
begin

text \<open>
  A simulated W5500 that cooperates: it accepts every command at once, reports free transmit
  space, a completed transmission, and \<open>d\<close> as the received data. The concrete instances of the
  gateway's properties run on it.
\<close>

definition live_u16 :: "u8 list \<Rightarrow> u16 \<Rightarrow> u16" where
  "live_u16 d a = (if a = 0x20 then 0x0800 else if a = 0x26 then of_nat (length d) else 0)"

definition live_u8 :: "u8 \<Rightarrow> u16 \<Rightarrow> u8" where
  "live_u8 status a = (if a = 2 then 0x10 else if a = 3 then status else 0)"

text \<open>
  The bytes clocked in: register reads by address, and the data after the header of a buffer read.
\<close>

definition live_reply :: "u8 \<Rightarrow> u8 list \<Rightarrow> u8 list \<Rightarrow> u8 list \<Rightarrow> u8 list" where
  "live_reply status d cur tx =
     (if length tx = 5 \<and> cur = [] then let v = live_u16 d (be16 (tx ! 0) (tx ! 1)) in [0, 0, 0, hi8 v, lo8 v]
      else if length tx = 4 \<and> cur = [] then [0, 0, 0, live_u8 status (be16 (tx ! 0) (tx ! 1))]
      else if length cur = 3 \<and> cur ! 2 = 0x18 then take (length tx) d
      else replicate (length tx) 0)"

definition live_transfer :: "u8 \<Rightarrow> u8 list \<Rightarrow> u8 list \<Rightarrow> u32 \<Rightarrow> sim \<Rightarrow> HAL_StatusTypeDef \<times> u8 list \<times> sim" where
  "live_transfer status d tx t c = (HAL_OK, live_reply status d (sim_cur c) tx, c\<lparr>sim_cur := sim_cur c @ tx\<rparr>)"

definition live_hw :: "u8 \<Rightarrow> u8 list \<Rightarrow> sim hw" where
  "live_hw status d = sim_hw\<lparr>HAL_SPI_TransmitReceive := live_transfer status d\<rparr>"

lemma live_eth_bus: "eth_bus (live_hw st d) sim_log"
proof -
  have "bus_ok (live_hw st d) sim_log sim_cur"
    using sim_bus_ok unfolding bus_ok_def by (simp add: live_hw_def live_transfer_def)
  then show ?thesis using sim_eth_bus unfolding eth_bus_def eth_private_def by (auto simp: live_hw_def)
qed

lemma live_clocked: "clocked (live_hw st d) sim_time 1 1"
  using sim_clocked unfolding clocked_def clock_ok_def by (simp add: live_hw_def live_transfer_def within_def ticks_of_def)

definition live_end :: "u8 list \<Rightarrow> sim \<Rightarrow> sim" where
  "live_end f c = sim_select W5500_CS True (c\<lparr>sim_cur := f\<rparr>)"

lemma live_end_time [simp]: "sim_time (live_end f c) = sim_time c"
  by (simp add: live_end_def sim_select_def)

lemma live_end_cur [simp]: "live_end f (c\<lparr>sim_cur := g\<rparr>) = live_end f c"
  by (simp add: live_end_def)

lemma live_select [simp]:
  "HAL_GPIO_WritePin (live_hw st d) W5500_CS False c = c\<lparr>sim_cur := []\<rparr>"
  "HAL_GPIO_WritePin (live_hw st d) W5500_CS True (c\<lparr>sim_cur := f\<rparr>) = live_end f c"
  by (simp_all add: live_hw_def sim_hw_def sim_select_def live_end_def)

lemma live_spi:
  "spi_transfer (live_hw st d) tx rx c =
     (HAL_OK, rx_store rx (take (length tx) (live_reply st d (sim_cur c) tx)), c\<lparr>sim_cur := sim_cur c @ tx\<rparr>)"
  by (simp add: spi_transfer_def live_hw_def live_transfer_def)

lemma live_reply_u16: "live_reply st d [] [h, l, x, 0, 0] = [0, 0, 0, hi8 (live_u16 d (be16 h l)), lo8 (live_u16 d (be16 h l))]"
  by (simp add: live_reply_def Let_def)

lemma live_reply_u8: "live_reply st d [] [h, l, x, 0] = [0, 0, 0, live_u8 st (be16 h l)]"
  by (simp add: live_reply_def Let_def)

lemma live_read_u16 [simp]:
  "w5500_socket0_read_u16 (live_hw st d) a v c = (HAL_OK, live_u16 d a, live_end [hi8 a, lo8 a, 0x08, 0, 0] c)"
  by (simp add: w5500_socket0_read_u16_def w5500_socket0_read_registers_def live_spi live_reply_u16
      rx_store_def memcpy_at_def Let_def replicate_Suc numeral_2_eq_2)

lemma live_read_register [simp]:
  "w5500_socket0_read_register (live_hw st d) a v c = (HAL_OK, live_u8 st a, live_end [hi8 a, lo8 a, 0x08, 0] c)"
  by (simp add: w5500_socket0_read_register_def live_spi live_reply_u8 rx_store_def Let_def numeral_3_eq_3)

lemma live_stable_u16 [simp]:
  "\<exists>c'. w5500_socket0_read_stable_u16 (live_hw st d) a v c = (HAL_OK, live_u16 d a, c')"
  by (simp add: w5500_socket0_read_stable_u16_def numeral_eq_Suc)

lemma live_write [simp]:
  "0 < n \<Longrightarrow> n \<le> 2 \<Longrightarrow> w5500_socket0_write_registers (live_hw st d) a x n c = (HAL_OK, live_end ([hi8 a, lo8 a, 0x0c] @ take n x) c)"
  by (simp add: w5500_socket0_write_registers_def live_hw_def sim_hw_def sim_select_def live_end_def Let_def)

lemma live_command:
  "\<exists>c'. w5500_socket0_execute_command (live_hw st d) x s = Some (HAL_OK, s\<lparr>env := c'\<rparr>)"
  by (simp add: w5500_socket0_execute_command_def poll_until_def poll_loop.simps socket0_command_look_def live_u8_def Let_def) blast

lemma live_rx_buffer:
  assumes "0 < n" "n \<le> 64" "n = length d" "length b = 64" "length x = 64"
  shows "\<exists>c' r. w5500_socket0_read_rx_buffer (live_hw st d) a x n b c = (HAL_OK, r, c') \<and> take n r = d"
  using assms
  by (simp add: w5500_socket0_read_rx_buffer_def live_spi live_reply_def rx_store_def Let_def)

end
