(* ===== verification/GwTcp.thy ===== *)
theory GwTcp
  imports GwSim ParserClient
begin

text \<open>
  The TCP side of the gateway (socket 0): sending a frame, sending a response packet, handling a
  received frame, reading the receive buffer, opening and restarting the server, and the
  connection context. The pointers these functions take are always the addresses of the same
  objects: the frame is \<open>g_w5500_tcp_tx_frame\<close>, the response \<open>g_tcp_pong_packet\<close>, and they are
  read where the code reads them.
\<close>

subsection \<open>Sending\<close>

definition tcp_tx_free_look :: "'e hw \<Rightarrow> u16 \<Rightarrow> 'e gw \<Rightarrow> HAL_StatusTypeDef option \<times> 'e gw" where
  "tcp_tx_free_look hw required_size s =
     (let (status, free_size, e) = w5500_socket0_read_stable_u16 hw W5500_SOCKET0_TX_FSR_ADDRESS 0 (env s);
          s = s\<lparr>env := e\<rparr>
      in (if status \<noteq> HAL_OK then Some status else if free_size \<ge> required_size then Some HAL_OK else None, s))"

definition w5500_tcp_wait_for_tx_free :: "'e hw \<Rightarrow> u16 \<Rightarrow> 'e gw \<Rightarrow> (HAL_StatusTypeDef \<times> 'e gw) option" where
  "w5500_tcp_wait_for_tx_free hw required_size s =
     poll_until hw (tcp_tx_free_look hw required_size) W5500_TCP_TX_FREE_TIMEOUT_MS W5500_TCP_IO_POLL_MS s"

definition tcp_send_result_look :: "'e hw \<Rightarrow> 'e gw \<Rightarrow> HAL_StatusTypeDef option \<times> 'e gw" where
  "tcp_send_result_look hw s =
     (let (status, socket_interrupt, e) = w5500_socket0_read_register hw W5500_SOCKET0_IR_ADDRESS 0 (env s);
          s = s\<lparr>env := e\<rparr>
      in if status \<noteq> HAL_OK then (Some status, s)
         else
           let send_result = socket_interrupt AND (W5500_SOCKET0_IR_SEND_OK OR W5500_SOCKET0_IR_TIMEOUT)
           in if send_result \<noteq> 0 then
                let (status, e) = w5500_socket0_write_registers hw W5500_SOCKET0_IR_ADDRESS [send_result] 1 (env s);
                    s = s\<lparr>env := e\<rparr>
                in (if status \<noteq> HAL_OK then Some status
                    else if send_result AND W5500_SOCKET0_IR_TIMEOUT \<noteq> 0 then Some HAL_TIMEOUT
                    else Some HAL_OK, s)
              else (None, s))"

definition w5500_tcp_wait_for_send_result :: "'e hw \<Rightarrow> 'e gw \<Rightarrow> (HAL_StatusTypeDef \<times> 'e gw) option" where
  "w5500_tcp_wait_for_send_result hw s =
     poll_until hw (tcp_send_result_look hw) W5500_TCP_SEND_TIMEOUT_MS W5500_TCP_IO_POLL_MS s"

definition w5500_tcp_send_frame :: "'e hw \<Rightarrow> u16 \<Rightarrow> 'e gw \<Rightarrow> (HAL_StatusTypeDef \<times> 'e gw) option" where
  "w5500_tcp_send_frame hw frame_length s =
     (if frame_length = 0 \<or> unat frame_length > PROTOCOL_MAX_FRAME_SIZE then Some (HAL_ERROR, s)
      else do {
        (status, s) \<leftarrow> w5500_tcp_wait_for_tx_free hw frame_length s;
        if status \<noteq> HAL_OK then Some (status, s)
        else
          let (status, tx_write_pointer, e) = w5500_socket0_read_u16 hw W5500_SOCKET0_TX_WR_ADDRESS 0 (env s);
              s = s\<lparr>env := e\<rparr>
          in if status \<noteq> HAL_OK then Some (status, s)
          else
            let (status, dummy, e) = w5500_socket0_write_tx_buffer hw tx_write_pointer
                  (g_w5500_tcp_tx_frame (tob s)) (unat frame_length) (g_w5500_tcp_rx_dummy (tob s)) (env s);
                s = s\<lparr>env := e, tob := (tob s)\<lparr>g_w5500_tcp_rx_dummy := dummy\<rparr>\<rparr>
            in if status \<noteq> HAL_OK then Some (status, s)
            else
              let new_tx_write_pointer = tx_write_pointer + frame_length;
                  (status, e) = w5500_socket0_write_registers hw W5500_SOCKET0_TX_WR_ADDRESS
                    [hi8 new_tx_write_pointer, lo8 new_tx_write_pointer] 2 (env s);
                  s = s\<lparr>env := e\<rparr>
              in if status \<noteq> HAL_OK then Some (status, s)
              else
                let stale_send_bits = W5500_SOCKET0_IR_SEND_OK OR W5500_SOCKET0_IR_TIMEOUT;
                    (status, e) = w5500_socket0_write_registers hw W5500_SOCKET0_IR_ADDRESS [stale_send_bits] 1 (env s);
                    s = s\<lparr>env := e\<rparr>
                in if status \<noteq> HAL_OK then Some (status, s)
                else do {
                  (status, s) \<leftarrow> w5500_socket0_execute_command hw W5500_SOCKET0_SEND_COMMAND s;
                  if status \<noteq> HAL_OK then Some (status, s)
                  else w5500_tcp_wait_for_send_result hw s
                }
      })"

definition tcp_tx_failed :: "HAL_StatusTypeDef \<Rightarrow> tcp_vars \<Rightarrow> tcp_vars" where
  "tcp_tx_failed status t =
     t\<lparr>g_w5500_tcp_last_tx_status := hal_status_value status, g_w5500_tcp_tx_error_count := g_w5500_tcp_tx_error_count t + 1\<rparr>"

text \<open>The timestamps of the first matching PONG of a session.\<close>

definition diag_pong_send :: "u32 \<Rightarrow> session_diag_vars \<Rightarrow> session_diag_vars" where
  "diag_pong_send now_ms d =
     (let d = d\<lparr>g_diag_tcp_pong_send_ms := now_ms\<rparr>;
          d = (if g_diag_matching_pong_rx_ms d \<noteq> DIAG_TIMESTAMP_NOT_CAPTURED_MS
               then d\<lparr>g_diag_matching_pong_rx_to_tcp_send_ms := now_ms - g_diag_matching_pong_rx_ms d\<rparr> else d)
      in if g_diag_tcp_established_ms d \<noteq> DIAG_TIMESTAMP_NOT_CAPTURED_MS
         then d\<lparr>g_diag_established_to_tcp_pong_send_ms := now_ms - g_diag_tcp_established_ms d\<rparr> else d)"

definition note_pong_send :: "'e hw \<Rightarrow> 'e gw \<Rightarrow> 'e gw" where
  "note_pong_send hw s =
     (let packet = g_tcp_pong_packet (tob s)
      in if pk_msg_id packet = MSG_PONG \<and> g_diag_first_ping_seq_valid (dg s) \<noteq> 0 \<and>
            pk_seq packet = g_diag_first_ping_seq (dg s) \<and>
            g_diag_tcp_pong_send_ms (dg s) = DIAG_TIMESTAMP_NOT_CAPTURED_MS
         then let (now_ms, s) = diagnostic_now_ms hw s in s\<lparr>dg := diag_pong_send now_ms (dg s)\<rparr>
         else s)"

definition tcp_after_send :: "'e hw \<Rightarrow> nat \<Rightarrow> HAL_StatusTypeDef \<Rightarrow> 'e gw \<Rightarrow> 'e gw" where
  "tcp_after_send hw frame_length status s =
     (if status \<noteq> HAL_OK then s\<lparr>tcp := tcp_tx_failed status (tcp s)\<rparr>
      else
        let packet = g_tcp_pong_packet (tob s);
            s = s\<lparr>tcp := (tcp s)\<lparr>g_w5500_tcp_last_tx_status := hal_status_value status,
                  g_w5500_tcp_tx_bytes := g_w5500_tcp_tx_bytes (tcp s) + of_nat frame_length,
                  g_w5500_tcp_last_tx_msg_id := pk_msg_id packet,
                  g_w5500_tcp_last_tx_seq := pk_seq packet\<rparr>\<rparr>
        in if pk_msg_id packet = MSG_PONG then
             let s = s\<lparr>tcp := (tcp s)\<lparr>g_w5500_tcp_pong_count := g_w5500_tcp_pong_count (tcp s) + 1\<rparr>\<rparr>
             in ethernet_diag_record_tcp_pong_tx_success hw s
           else s)"

definition w5500_tcp_send_response_packet :: "'e hw \<Rightarrow> 'e gw \<Rightarrow> (unit \<times> 'e gw) option" where
  "w5500_tcp_send_response_packet hw s =
     (let (result, frame, encoded) = protocol_encode (Some (g_tcp_pong_packet (tob s))) (Some (g_w5500_tcp_tx_frame (tob s)))
            PROTOCOL_MAX_FRAME_SIZE (Some 0);
          frame_length = the encoded;
          s = s\<lparr>tob := (tob s)\<lparr>g_w5500_tcp_tx_frame := the frame\<rparr>\<rparr>
      in if result \<noteq> PROTO_OK \<or> frame_length = 0 \<or> frame_length > 65535
         then Some ((), s\<lparr>tcp := tcp_tx_failed HAL_ERROR (tcp s)\<rparr>)
         else do {
           (status, s) \<leftarrow> w5500_tcp_send_frame hw (of_nat frame_length) (note_pong_send hw s);
           Some ((), tcp_after_send hw frame_length status s)
         })"

subsection \<open>Receiving\<close>

text \<open>The timestamps of the first PING of a session.\<close>

definition diag_first_ping :: "u32 \<Rightarrow> u16 \<Rightarrow> session_diag_vars \<Rightarrow> session_diag_vars" where
  "diag_first_ping now_ms seq d =
     (let d = d\<lparr>g_diag_first_ping_seq := seq, g_diag_first_ping_parsed_ms := now_ms\<rparr>;
          d = (if g_diag_first_rx_ready_ms d \<noteq> DIAG_TIMESTAMP_NOT_CAPTURED_MS
               then d\<lparr>g_diag_rx_ready_to_ping_parsed_ms := now_ms - g_diag_first_rx_ready_ms d\<rparr> else d)
      in d\<lparr>g_diag_first_ping_seq_valid := 1\<rparr>)"

definition note_first_ping :: "'e hw \<Rightarrow> 'e gw \<Rightarrow> 'e gw" where
  "note_first_ping hw s =
     (if g_diag_first_ping_parsed_ms (dg s) = DIAG_TIMESTAMP_NOT_CAPTURED_MS
      then let (now_ms, s) = diagnostic_now_ms hw s
           in s\<lparr>dg := diag_first_ping now_ms (pk_seq (g_tcp_received_packet (tob s))) (dg s)\<rparr>
      else s)"

definition enqueue_command :: "'e gw \<Rightarrow> 'e gw" where
  "enqueue_command s =
     (let (result, q) = (if rs422_cmd_queue (qs s) \<noteq> None
            then osMessageQueuePut (rs422_cmd_queue (qs s)) (Some (g_tcp_received_packet (tob s))) else (osError, None));
          s = s\<lparr>qs := (qs s)\<lparr>rs422_cmd_queue := q\<rparr>\<rparr>
      in if result = osOK then
           let s = s\<lparr>rs := (rs s)\<lparr>g_rs422_cmd_enqueue_success_count := g_rs422_cmd_enqueue_success_count (rs s) + 1\<rparr>\<rparr>
           in if RS422TaskHandle (kn s) then snd (osThreadFlagsSet RS422Task RS422_EVENT_CMD_READY s) else s
         else s\<lparr>rs := (rs s)\<lparr>g_rs422_cmd_enqueue_fail_count := g_rs422_cmd_enqueue_fail_count (rs s) + 1\<rparr>\<rparr>)"

definition w5500_tcp_handle_valid_frame :: "'e hw \<Rightarrow> 'e gw \<Rightarrow> 'e gw" where
  "w5500_tcp_handle_valid_frame hw s =
     (let p = g_tcp_received_packet (tob s);
          s = s\<lparr>tcp := (tcp s)\<lparr>g_w5500_tcp_valid_frame_count := g_w5500_tcp_valid_frame_count (tcp s) + 1,
                g_w5500_tcp_last_rx_msg_id := pk_msg_id p, g_w5500_tcp_last_rx_seq := pk_seq p\<rparr>\<rparr>
      in if pk_msg_id p \<noteq> MSG_PING then s
         else
           let s = note_first_ping hw s;
               s = s\<lparr>tcp := (tcp s)\<lparr>g_w5500_tcp_ping_count := g_w5500_tcp_ping_count (tcp s) + 1\<rparr>\<rparr>
           in enqueue_command s)"

text \<open>One iteration of the loop over the received bytes.\<close>

definition tcp_feed :: "'e hw \<Rightarrow> u8 \<Rightarrow> 'e gw \<Rightarrow> 'e gw" where
  "tcp_feed hw b s =
     (let (parser_event, p, out) = feed_byte (g_tcp_parser (tob s)) b (g_tcp_received_packet (tob s));
          s = s\<lparr>tob := (tob s)\<lparr>g_tcp_parser := p, g_tcp_received_packet := out\<rparr>\<rparr>
      in case parser_event of
           STREAM_EVENT_FRAME \<Rightarrow> w5500_tcp_handle_valid_frame hw s
         | STREAM_EVENT_ERROR \<Rightarrow> s\<lparr>tcp := (tcp s)\<lparr>g_w5500_tcp_rx_error_count := g_w5500_tcp_rx_error_count (tcp s) + 1\<rparr>\<rparr>
         | STREAM_EVENT_NONE \<Rightarrow> s)"

definition diag_rx_ready :: "u32 \<Rightarrow> session_diag_vars \<Rightarrow> session_diag_vars" where
  "diag_rx_ready now_ms d =
     (let d = d\<lparr>g_diag_first_rx_ready_ms := now_ms\<rparr>
      in if g_diag_tcp_established_ms d \<noteq> DIAG_TIMESTAMP_NOT_CAPTURED_MS
         then d\<lparr>g_diag_established_to_rx_ready_ms := now_ms - g_diag_tcp_established_ms d\<rparr> else d)"

definition note_rx_ready :: "'e hw \<Rightarrow> 'e gw \<Rightarrow> 'e gw" where
  "note_rx_ready hw s =
     (if g_diag_first_rx_ready_ms (dg s) = DIAG_TIMESTAMP_NOT_CAPTURED_MS
      then let (now_ms, s) = diagnostic_now_ms hw s in s\<lparr>dg := diag_rx_ready now_ms (dg s)\<rparr> else s)"

text \<open>The second half of \<^verbatim>\<open>w5500_tcp_process_rx\<close>: taking \<open>read_length\<close> bytes.\<close>

definition tcp_take_chunk :: "'e hw \<Rightarrow> u16 \<Rightarrow> 'e gw \<Rightarrow> (HAL_StatusTypeDef \<times> 'e gw) option" where
  "tcp_take_chunk hw read_length s =
     (let (status, rx_read_pointer, e) = w5500_socket0_read_u16 hw W5500_SOCKET0_RX_RD_ADDRESS 0 (env s);
          s = s\<lparr>env := e\<rparr>
      in if status \<noteq> HAL_OK then Some (status, s)
      else
        let (status, chunk, e) = w5500_socket0_read_rx_buffer hw rx_read_pointer (g_w5500_tcp_rx_chunk (tob s))
              (unat read_length) (g_w5500_tcp_rx_dummy (tob s)) (env s);
            s = s\<lparr>env := e, tob := (tob s)\<lparr>g_w5500_tcp_rx_chunk := chunk\<rparr>\<rparr>
        in if status \<noteq> HAL_OK then Some (status, s)
        else
          let new_rx_read_pointer = rx_read_pointer + read_length;
              (status, e) = w5500_socket0_write_registers hw W5500_SOCKET0_RX_RD_ADDRESS
                [hi8 new_rx_read_pointer, lo8 new_rx_read_pointer] 2 (env s);
              s = s\<lparr>env := e\<rparr>
          in if status \<noteq> HAL_OK then Some (status, s)
          else do {
            (status, s) \<leftarrow> w5500_socket0_execute_command hw W5500_SOCKET0_RECV_COMMAND s;
            if status \<noteq> HAL_OK then Some (status, s)
            else
              let s = s\<lparr>tcp := (tcp s)\<lparr>g_w5500_tcp_rx_bytes := g_w5500_tcp_rx_bytes (tcp s) + ucast read_length\<rparr>\<rparr>
              in Some (HAL_OK, fold (tcp_feed hw) (take (unat read_length) (g_w5500_tcp_rx_chunk (tob s))) s)
          })"

definition w5500_tcp_process_rx :: "'e hw \<Rightarrow> 'e gw \<Rightarrow> (HAL_StatusTypeDef \<times> 'e gw) option" where
  "w5500_tcp_process_rx hw s =
     (let (status, received_size, e) = w5500_socket0_read_stable_u16 hw W5500_SOCKET0_RX_RSR_ADDRESS 0 (env s);
          s = s\<lparr>env := e\<rparr>
      in if status \<noteq> HAL_OK \<or> received_size = 0 then Some (status, s)
      else
        let s = note_rx_ready hw s;
            read_length = (if unat received_size > W5500_TCP_RX_CHUNK_SIZE then of_nat W5500_TCP_RX_CHUNK_SIZE else received_size)
        in tcp_take_chunk hw read_length s)"

subsection \<open>The server socket\<close>

definition set_socket0_spi_status :: "HAL_StatusTypeDef \<Rightarrow> 'e gw \<Rightarrow> 'e gw" where
  "set_socket0_spi_status status s = s\<lparr>tcp := (tcp s)\<lparr>g_w5500_socket0_spi_status := hal_status_value status\<rparr>\<rparr>"

definition w5500_listen_tcp_server :: "'e hw \<Rightarrow> 'e gw \<Rightarrow> (HAL_StatusTypeDef \<times> 'e gw) option" where
  "w5500_listen_tcp_server hw s = do {
     (status, s) \<leftarrow> w5500_socket0_execute_command hw W5500_SOCKET0_LISTEN_COMMAND s;
     let s = set_socket0_spi_status status s;
     (status, s) \<leftarrow> (if status = HAL_OK
       then w5500_wait_for_socket0_status hw W5500_SOCKET0_STATUS_LISTEN W5500_SOCKET_STATE_TIMEOUT_MS s
       else Some (status, s));
     let s = set_socket0_spi_status status s;
     if status = HAL_OK
     then let s = s\<lparr>tcp := (tcp s)\<lparr>g_w5500_tcp_listen_ok := 1\<rparr>\<rparr>
          in Some (status, ethernet_diag_record_tcp_service_ready hw s)
     else Some (status, s)
   }"

definition w5500_start_tcp_server :: "'e hw \<Rightarrow> 'e gw \<Rightarrow> (HAL_StatusTypeDef \<times> 'e gw) option" where
  "w5500_start_tcp_server hw s =
     (let server_port = [hi8 W5500_TCP_SERVER_PORT, lo8 W5500_TCP_SERVER_PORT];
          s = s\<lparr>tcp := (tcp s)\<lparr>g_w5500_tcp_init_ok := 0, g_w5500_tcp_listen_ok := 0\<rparr>\<rparr>;
          (status, e) = w5500_socket0_write_registers hw W5500_SOCKET0_MR_ADDRESS [W5500_SOCKET0_TCP_MODE] 1 (env s);
          s = set_socket0_spi_status status (s\<lparr>env := e\<rparr>);
          (status, s) = (if status = HAL_OK then
              let (status, e) = w5500_socket0_write_registers hw W5500_SOCKET0_PORT_ADDRESS server_port 2 (env s)
              in (status, set_socket0_spi_status status (s\<lparr>env := e\<rparr>))
            else (status, s))
      in do {
        (status, s) \<leftarrow> (if status = HAL_OK then do {
            (status, s) \<leftarrow> w5500_socket0_execute_command hw W5500_SOCKET0_OPEN_COMMAND s;
            Some (status, set_socket0_spi_status status s)
          } else Some (status, s));
        (status, s) \<leftarrow> (if status = HAL_OK
          then w5500_wait_for_socket0_status hw W5500_SOCKET0_STATUS_INIT W5500_SOCKET_STATE_TIMEOUT_MS s
          else Some (status, s));
        if status \<noteq> HAL_OK then Some (status, set_socket0_spi_status status s)
        else w5500_listen_tcp_server hw (s\<lparr>tcp := (tcp s)\<lparr>g_w5500_tcp_init_ok := 1\<rparr>\<rparr>)
      })"

subsection \<open>The connection context\<close>

text \<open>
  The bounded loops over the response queue; \<open>n\<close> iterations are left. A message that is taken
  overwrites \<open>g_tcp_pong_packet\<close>.
\<close>

definition take_response :: "'e gw \<Rightarrow> bool \<times> 'e gw" where
  "take_response s =
     (let (result, q, m) = osMessageQueueGet (tcp_response_queue (qs s)) (Some (g_tcp_pong_packet (tob s)))
      in (result = osOK, s\<lparr>qs := (qs s)\<lparr>tcp_response_queue := q\<rparr>, tob := (tob s)\<lparr>g_tcp_pong_packet := the m\<rparr>\<rparr>))"

fun discard_loop :: "nat \<Rightarrow> 'e gw \<Rightarrow> 'e gw" where
  "discard_loop 0 s = s"
| "discard_loop (Suc n) s =
     (let (ok, s) = take_response s
      in if \<not> ok then s
         else discard_loop n (s\<lparr>sv := (sv s)\<lparr>g_w5500_tcp_stale_response_drop_count :=
           g_w5500_tcp_stale_response_drop_count (sv s) + 1\<rparr>\<rparr>))"

definition w5500_tcp_discard_stale_responses :: "'e gw \<Rightarrow> 'e gw" where
  "w5500_tcp_discard_stale_responses s =
     (if tcp_response_queue (qs s) = None then s else discard_loop TCP_RESPONSE_QUEUE_DEPTH s)"

fun drain_loop :: "'e hw \<Rightarrow> nat \<Rightarrow> 'e gw \<Rightarrow> (unit \<times> 'e gw) option" where
  "drain_loop hw 0 s = Some ((), s)"
| "drain_loop hw (Suc n) s =
     (let (ok, s) = take_response s
      in if \<not> ok then Some ((), s)
         else do {
           (_, s) \<leftarrow> w5500_tcp_send_response_packet hw
             (s\<lparr>rs := (rs s)\<lparr>g_tcp_response_dequeue_count := g_tcp_response_dequeue_count (rs s) + 1\<rparr>\<rparr>);
           drain_loop hw n s
         })"

definition w5500_tcp_drain_response_queue :: "'e hw \<Rightarrow> 'e gw \<Rightarrow> (unit \<times> 'e gw) option" where
  "w5500_tcp_drain_response_queue hw s =
     (if tcp_response_queue (qs s) = None then Some ((), s) else drain_loop hw TCP_RESPONSE_QUEUE_DEPTH s)"

definition w5500_tcp_invalidate_connection_context :: "'e gw \<Rightarrow> 'e gw" where
  "w5500_tcp_invalidate_connection_context s =
     (let s = s\<lparr>sv := (sv s)\<lparr>g_w5500_tcp_session_active := 0\<rparr>\<rparr>;
          s = s\<lparr>tob := (tob s)\<lparr>g_tcp_parser := stream_parser_init\<rparr>\<rparr>;
          s = (if RS422TaskHandle (kn s) then snd (osThreadFlagsSet RS422Task RS422_EVENT_TCP_CONTEXT_RESET s) else s)
      in w5500_tcp_discard_stale_responses s)"

definition w5500_restart_tcp_server :: "'e hw \<Rightarrow> 'e gw \<Rightarrow> (HAL_StatusTypeDef \<times> 'e gw) option" where
  "w5500_restart_tcp_server hw s =
     (let s = s\<lparr>tcp := (tcp s)\<lparr>g_w5500_tcp_init_ok := 0, g_w5500_tcp_listen_ok := 0\<rparr>\<rparr>;
          s = w5500_tcp_invalidate_connection_context s
      in do {
        (status, s) \<leftarrow> w5500_socket0_execute_command hw W5500_SOCKET0_CLOSE_COMMAND s;
        let s = set_socket0_spi_status status s;
        (status, s) \<leftarrow> (if status = HAL_OK
          then w5500_wait_for_socket0_status hw W5500_SOCKET0_STATUS_CLOSED W5500_SOCKET_STATE_TIMEOUT_MS s
          else Some (status, s));
        (status, s) \<leftarrow> (if status = HAL_OK then w5500_start_tcp_server hw s else Some (status, s));
        let s = set_socket0_spi_status status s;
        Some (status, w5500_tcp_discard_stale_responses s)
      })"

definition w5500_tcp_is_transient_state :: "u8 \<Rightarrow> u32" where
  "w5500_tcp_is_transient_state socket_status =
     (if socket_status \<in> {W5500_SOCKET0_STATUS_SYNSENT, W5500_SOCKET0_STATUS_SYNRECV, W5500_SOCKET0_STATUS_FIN_WAIT,
        W5500_SOCKET0_STATUS_CLOSING, W5500_SOCKET0_STATUS_TIME_WAIT, W5500_SOCKET0_STATUS_LAST_ACK}
      then 1 else 0)"

subsection \<open>The TCP sender\<close>

definition tcp_read_pointer :: "'e hw \<Rightarrow> 'e gw \<Rightarrow> HAL_StatusTypeDef \<times> u16 \<times> 'e gw" where
  "tcp_read_pointer hw s = (let (st, p, e) = w5500_socket0_read_u16 hw 0x24 0 (env s) in (st, p, s\<lparr>env := e\<rparr>))"

definition tcp_put_frame :: "'e hw \<Rightarrow> u16 \<Rightarrow> u16 \<Rightarrow> 'e gw \<Rightarrow> HAL_StatusTypeDef \<times> 'e gw" where
  "tcp_put_frame hw p n s =
     (let (st, d, e) = w5500_socket0_write_tx_buffer hw p (g_w5500_tcp_tx_frame (tob s)) (unat n) (g_w5500_tcp_rx_dummy (tob s)) (env s)
      in (st, s\<lparr>env := e, tob := (tob s)\<lparr>g_w5500_tcp_rx_dummy := d\<rparr>\<rparr>))"

definition tcp_put_registers :: "'e hw \<Rightarrow> u16 \<Rightarrow> u8 list \<Rightarrow> 'e gw \<Rightarrow> HAL_StatusTypeDef \<times> 'e gw" where
  "tcp_put_registers hw a d s = (let (st, e) = w5500_socket0_write_registers hw a d (length d) (env s) in (st, s\<lparr>env := e\<rparr>))"

lemma tcp_tx_free_quiet:
  assumes "eth_bus hw log" "r = None \<or> r = Some HAL_OK" "tcp_tx_free_look hw n s = (r, t)"
  shows "wrote log [] (env s) (env t) \<and> same_eth s t"
  using assms(2,3) by (cases "w5500_socket0_read_stable_u16 hw 0x20 0 (env s)")
    (auto simp: tcp_tx_free_look_def Let_def dest: stable_read_wrote(1) [OF assms(1)] split: if_splits)

lemma send_result_bits: "(i AND 0x18 :: u8) AND 8 = 0 \<Longrightarrow> i AND 0x18 \<noteq> 0 \<Longrightarrow> i AND 0x18 = 0x10"
proof -
  assume a: "(i AND 0x18) AND 8 = 0" "i AND 0x18 \<noteq> 0"
  have "(0x18 :: u8) = 8 OR 0x10" by simp
  then have split: "i AND 0x18 = (i AND 8) OR (i AND 0x10)" by (simp only: bit.conj_disj_distrib)
  have "(i AND 0x18) AND 8 = i AND 8" by (simp add: and.assoc)
  with a have "i AND 8 = 0" "i AND 0x10 \<noteq> 0" using split by auto
  moreover have four: "bit (0x10 :: u8) n \<longleftrightarrow> n = 4" for n
  proof -
    have "(0x10 :: u8) = 2 ^ 4" by simp
    then show ?thesis by (simp only: bit_exp_iff) auto
  qed
  have "bit (i AND 0x10) n \<longleftrightarrow> n = 4 \<and> bit i 4" "bit (if bit i 4 then 0x10 else 0 :: u8) n \<longleftrightarrow> n = 4 \<and> bit i 4" for n
    by (cases "n = 4"; simp only: bit_and_iff four simp_thms) (cases "bit i 4"; simp only: four if_True if_False bit_0_eq bot_apply bot_bool_def simp_thms)
  then have "i AND 0x10 = (if bit i 4 then 0x10 else 0)" by (intro bit_word_eqI) blast
  then have "i AND 0x10 = 0 \<or> i AND 0x10 = 0x10" by (simp split: if_splits)
  ultimately show ?thesis using split by auto
qed

lemma tcp_send_result_bus:
  assumes bus: "eth_bus hw log"
  shows "tcp_send_result_look hw s = (None, t) \<Longrightarrow> wrote log [] (env s) (env t) \<and> same_eth s t"
    and "tcp_send_result_look hw s = (Some HAL_OK, t) \<Longrightarrow> wrote log [[0, 2, 0x0c, 0x10]] (env s) (env t) \<and> same_eth s t"
proof -
  obtain st i e where r: "w5500_socket0_read_register hw 2 0 (env s) = (st, i, e)"
    by (cases "w5500_socket0_read_register hw 2 0 (env s)")
  obtain st1 e1 where w: "w5500_socket0_write_registers hw 2 [i AND 0x18] 1 e = (st1, e1)" by fastforce
  have q: "st = HAL_OK \<Longrightarrow> wrote log [] (env s) e" using socket_read_wrote(1) [OF bus] r by simp
  note defs = tcp_send_result_look_def r w Let_def same_eth_def
  show "wrote log [] (env s) (env t) \<and> same_eth s t" if "tcp_send_result_look hw s = (None, t)"
    using that q by (auto simp: defs split: if_splits prod.splits)
  show "wrote log [[0, 2, 0x0c, 0x10]] (env s) (env t) \<and> same_eth s t" if "tcp_send_result_look hw s = (Some HAL_OK, t)"
  proof -
    have ok: "st = HAL_OK" "st1 = HAL_OK" "t = s\<lparr>env := e1\<rparr>" "i AND 0x18 = 0x10"
      using that w send_result_bits [of i] by (auto simp: defs split: if_splits)
    have "wrote log [] (env s) e" using q ok by simp
    moreover have "wrote log [[0, 2, 0x0c, 0x10]] e e1"
      using socket_write_wrote(1) [OF bus, of 1 2 "[0x10]" e e1] w ok by (simp add: hi8_def lo8_def)
    ultimately show ?thesis using ok by (auto simp: same_eth_def elim: wrote_trans)
  qed
qed

lemma tcp_look_time:
  assumes "clock_ok hw now G B"
  shows "within now G (24 * B) (env s) (env (snd (tcp_tx_free_look hw n s)))"
    and "within now G (6 * B) (env s) (env (snd (tcp_send_result_look hw s)))"
proof -
  show "within now G (24 * B) (env s) (env (snd (tcp_tx_free_look hw n s)))"
    by (cases "w5500_socket0_read_stable_u16 hw 0x20 0 (env s)")
      (auto simp: tcp_tx_free_look_def Let_def dest: stable_u16_time(1) [OF assms])
  obtain st i e where r: "w5500_socket0_read_register hw 2 0 (env s) = (st, i, e)"
    by (cases "w5500_socket0_read_register hw 2 0 (env s)")
  obtain st1 e1 where w: "w5500_socket0_write_registers hw 2 [i AND 0x18] 1 e = (st1, e1)" by fastforce
  have "within now G (3 * B) (env s) e" "within now G (3 * B) e e1"
    using register_time(2) [OF assms r] register_time(4) [OF assms w] .
  with r w show "within now G (6 * B) (env s) (env (snd (tcp_send_result_look hw s)))"
    by (auto simp: tcp_send_result_look_def Let_def within_def)
qed

lemma tcp_look_same:
  "eth_same s (snd (tcp_tx_free_look hw n s))" "eth_same s (snd (tcp_send_result_look hw s))"
  by (simp_all add: tcp_tx_free_look_def tcp_send_result_look_def Let_def split: prod.split)

interpretation tcp_sender: frame_sender "0x0c" "0x14" "\<lambda>s. g_w5500_tcp_tx_frame (tob s)" w5500_tcp_wait_for_tx_free
  tcp_read_pointer tcp_put_frame tcp_put_registers w5500_socket0_execute_command w5500_tcp_wait_for_send_result
  w5500_tcp_send_frame
proof
  fix hw :: "'e hw" and n s
  show "w5500_tcp_send_frame hw n s =
      (if n = 0 \<or> unat n > 266 then Some (HAL_ERROR, s)
       else do {
         (st, s) \<leftarrow> w5500_tcp_wait_for_tx_free hw n s;
         if st \<noteq> HAL_OK then Some (st, s)
         else let (st, p, s) = tcp_read_pointer hw s in if st \<noteq> HAL_OK then Some (st, s)
         else let (st, s) = tcp_put_frame hw p n s in if st \<noteq> HAL_OK then Some (st, s)
         else let (st, s) = tcp_put_registers hw 0x24 [hi8 (p + n), lo8 (p + n)] s in if st \<noteq> HAL_OK then Some (st, s)
         else let (st, s) = tcp_put_registers hw 0x02 [0x18] s in if st \<noteq> HAL_OK then Some (st, s)
         else do {
           (st, s) \<leftarrow> w5500_socket0_execute_command hw 0x20 s;
           if st \<noteq> HAL_OK then Some (st, s) else w5500_tcp_wait_for_send_result hw s
         }
       })"
    by (simp add: w5500_tcp_send_frame_def tcp_read_pointer_def tcp_put_frame_def tcp_put_registers_def Let_def
        numeral_2_eq_2 case_prod_beta cong: if_cong)
next
  fix hw :: "'e hw" and log n s s'
  assume bus: "eth_bus hw log" and run: "w5500_tcp_wait_for_tx_free hw n s = Some (HAL_OK, s')"
  have "wrote log [] (env s) (env s') \<and> same_eth s s'"
    by (rule poll_until_quiet [OF bus run [unfolded w5500_tcp_wait_for_tx_free_def]]) (rule tcp_tx_free_quiet [OF bus]; assumption)
  then show "wrote log [] (env s) (env s') \<and> g_w5500_tcp_tx_frame (tob s') = g_w5500_tcp_tx_frame (tob s)"
    by (simp add: same_eth_def)
next
  fix hw :: "'e hw" and log p s s'
  assume "eth_bus hw log" "tcp_read_pointer hw s = (HAL_OK, p, s')"
  then show "wrote log [] (env s) (env s') \<and> g_w5500_tcp_tx_frame (tob s') = g_w5500_tcp_tx_frame (tob s)"
    by (auto simp: tcp_read_pointer_def Let_def dest: socket_read_wrote(3) split: prod.splits)
next
  fix hw :: "'e hw" and log p n s s'
  assume "eth_bus hw log" "tcp_put_frame hw p n s = (HAL_OK, s')" "0 < unat n" "unat n \<le> 266"
    "unat n \<le> length (g_w5500_tcp_tx_frame (tob s))"
  then show "wrote log [[hi8 p, lo8 p, 0x14] @ take (unat n) (g_w5500_tcp_tx_frame (tob s))] (env s) (env s')"
    by (auto simp: tcp_put_frame_def Let_def dest: tx_buffer_wrote(1) split: prod.splits)
next
  fix hw :: "'e hw" and log and d :: "u8 list" and a s s'
  assume "eth_bus hw log" "0 < length d" "length d \<le> 2" "tcp_put_registers hw a d s = (HAL_OK, s')"
  then show "wrote log [[hi8 a, lo8 a, 0x0c] @ d] (env s) (env s')"
    by (auto simp: tcp_put_registers_def Let_def dest: socket_write_wrote(1) split: prod.splits)
next
  fix hw :: "'e hw" and log c s s'
  assume "eth_bus hw log" "w5500_socket0_execute_command hw c s = Some (HAL_OK, s')"
  then show "wrote log [[0, 1, 0x0c, c]] (env s) (env s')" using execute_command_wrote(1) by blast
next
  fix hw :: "'e hw" and log s s'
  assume bus: "eth_bus hw log" and run: "w5500_tcp_wait_for_send_result hw s = Some (HAL_OK, s')"
  then show "wrote log [[0, 2, 0x0c, 0x10]] (env s) (env s')"
    using poll_until_wrote [OF bus run [unfolded w5500_tcp_wait_for_send_result_def] tcp_send_result_bus [OF bus]] by blast
next
  fix hw :: "'e hw" and n s st s'
  assume "eth_private hw" "w5500_tcp_wait_for_tx_free hw n s = Some (st, s')"
  then show "eth_same s s'" unfolding w5500_tcp_wait_for_tx_free_def by (rule poll_until_same) (rule tcp_look_same)
next
  fix hw :: "'e hw" and s st p s'
  assume "tcp_read_pointer hw s = (st, p, s')"
  then show "eth_same s s'" by (auto simp: tcp_read_pointer_def split: prod.splits)
next
  fix hw :: "'e hw" and p n s st s'
  assume "tcp_put_frame hw p n s = (st, s')"
  then show "eth_same s s'" by (auto simp: tcp_put_frame_def eth_same_scratch split: prod.splits)
next
  fix hw :: "'e hw" and a d s st s'
  assume "tcp_put_registers hw a d s = (st, s')"
  then show "eth_same s s'" by (auto simp: tcp_put_registers_def split: prod.splits)
next
  fix hw :: "'e hw" and c s st s'
  assume "eth_private hw" "w5500_socket0_execute_command hw c s = Some (st, s')"
  then show "eth_same s s'" by (rule execute_command_same)
next
  fix hw :: "'e hw" and s st s'
  assume "eth_private hw" "w5500_tcp_wait_for_send_result hw s = Some (st, s')"
  then show "eth_same s s'" unfolding w5500_tcp_wait_for_send_result_def by (rule poll_until_same) (rule tcp_look_same)
next
  fix hw :: "'e hw" and now G B n s
  assume clk: "clocked hw now G B"
  then show "returns (\<lambda>st s'. within now G (1010 + 27 * B) (env s) (env s')) (w5500_tcp_wait_for_tx_free hw n s)"
    by (auto simp: clocked_def w5500_tcp_wait_for_tx_free_def intro!: poll_second_returns [where B = B] tcp_look_time(1))
next
  fix hw :: "'e hw" and now G B st p s s'
  assume "clocked hw now G B" "tcp_read_pointer hw s = (st, p, s')"
  then show "within now G (3 * B) (env s) (env s')"
    by (auto simp: clocked_def tcp_read_pointer_def Let_def dest: register_time(6) split: prod.splits)
next
  fix hw :: "'e hw" and now G B n p st s s'
  assume "clocked hw now G B" "unat n \<le> 266" "tcp_put_frame hw p n s = (st, s')"
  then show "within now G (8 * B) (env s) (env s')"
    by (auto simp: clocked_def tcp_put_frame_def Let_def dest: tx_buffer_time(1) split: prod.splits)
next
  fix hw :: "'e hw" and now G B a d st s s'
  assume "clocked hw now G B" "tcp_put_registers hw a d s = (st, s')"
  then show "within now G (3 * B) (env s) (env s')"
    by (auto simp: clocked_def tcp_put_registers_def Let_def dest: register_time(4) split: prod.splits)
next
  fix hw :: "'e hw" and now G B c s
  assume "clocked hw now G B"
  then show "returns (\<lambda>st s'. within now G (101 + 9 * B) (env s) (env s')) (w5500_socket0_execute_command hw c s)"
    by (auto simp: clocked_def intro: execute_command_returns)
next
  fix hw :: "'e hw" and now G B s
  assume clk: "clocked hw now G B"
  then show "returns (\<lambda>st s'. within now G (1010 + 9 * B) (env s) (env s')) (w5500_tcp_wait_for_send_result hw s)"
    by (auto simp: clocked_def w5500_tcp_wait_for_send_result_def intro!: poll_second_returns [where B = B] tcp_look_time(2))
qed

subsection \<open>Properties of the sender\<close>

lemma pong_diag_frame:
  "tcp (ethernet_diag_record_tcp_pong_tx_success hw s) = tcp s"
  "env (ethernet_diag_record_tcp_pong_tx_success hw s) = env s \<or>
   env (ethernet_diag_record_tcp_pong_tx_success hw s) = env (snd (get_tick hw s))"
  by (auto simp: ethernet_diag_record_tcp_pong_tx_success_def Let_def)

lemma response_packet_sent:
  assumes bus: "eth_bus hw log" and clk: "clocked hw now G B"
    and ok: "packet_ok (g_tcp_pong_packet (tob s))" and size: "length (g_w5500_tcp_tx_frame (tob s)) = PROTOCOL_MAX_FRAME_SIZE"
  shows "\<exists>s'. w5500_tcp_send_response_packet hw s = Some ((), s') \<and> within now G (2121 + 64 * B) (env s) (env s') \<and>
    (if g_w5500_tcp_last_tx_status (tcp s') = hal_status_value HAL_OK then
       (\<exists>q. wrote log (transmission 0x0c 0x14 q (frame_bytes (g_tcp_pong_packet (tob s)))) (env s) (env s')) \<and>
       g_w5500_tcp_tx_error_count (tcp s') = g_w5500_tcp_tx_error_count (tcp s) \<and>
       g_w5500_tcp_tx_bytes (tcp s') = g_w5500_tcp_tx_bytes (tcp s) + of_nat (length (frame_bytes (g_tcp_pong_packet (tob s)))) \<and>
       g_w5500_tcp_pong_count (tcp s') = g_w5500_tcp_pong_count (tcp s) +
         (if pk_msg_id (g_tcp_pong_packet (tob s)) = MSG_PONG then 1 else 0)
     else
       g_w5500_tcp_tx_error_count (tcp s') = g_w5500_tcp_tx_error_count (tcp s) + 1 \<and>
       g_w5500_tcp_tx_bytes (tcp s') = g_w5500_tcp_tx_bytes (tcp s) \<and>
       g_w5500_tcp_pong_count (tcp s') = g_w5500_tcp_pong_count (tcp s))"
proof -
  define p where "p = g_tcp_pong_packet (tob s)"
  let ?n = "10 + unat (pk_length p)"
  have n: "?n \<le> 266" using ok by (simp add: packet_ok_def p_def)
  define s1 where "s1 = s\<lparr>tob := (tob s)\<lparr>g_w5500_tcp_tx_frame := frame_bytes p @ drop ?n (g_w5500_tcp_tx_frame (tob s))\<rparr>\<rparr>"
  define s2 where "s2 = note_pong_send hw s1"
  have enc: "protocol_encode (Some p) (Some (g_w5500_tcp_tx_frame (tob s))) PROTOCOL_MAX_FRAME_SIZE (Some 0) =
      (PROTO_OK, Some (frame_bytes p @ drop ?n (g_w5500_tcp_tx_frame (tob s))), Some ?n)"
    using encode_ok [of p 266 "g_w5500_tcp_tx_frame (tob s)" 0] ok size n by (simp add: p_def)
  have s2: "tcp s2 = tcp s" "tob s2 = tob s1" and e2: "env s2 = env s \<or> env s2 = env (snd (get_tick hw s))"
    by (simp_all add: s2_def s1_def note_pong_send_def diagnostic_now_ms_def Let_def)
  have fr: "take ?n (g_w5500_tcp_tx_frame (tob s2)) = frame_bytes p" using ok by (simp add: s2(2) s1_def p_def)
  have okp: "packet_ok p" using ok by (simp add: p_def)
  obtain st s3 where send: "w5500_tcp_send_frame hw (of_nat ?n) s2 = Some (st, s3)"
    "within now G (2121 + 62 * B) (env s2) (env s3)" "eth_same s2 s3"
    "st = HAL_OK \<Longrightarrow> \<exists>q. wrote log (transmission 0x0c 0x14 q (frame_bytes p)) (env s2) (env s3)"
    by (rule tcp_sender.send_whole_frame [OF bus clk okp fr]) blast
  have keep: "tcp s3 = tcp s" "g_tcp_pong_packet (tob s3) = p"
    using send(3) s2 by (auto simp: eth_same_def s1_def p_def)
  define s' where "s' = tcp_after_send hw ?n st s3"
  have run: "w5500_tcp_send_response_packet hw s = Some ((), s')"
    using enc send(1) n unfolding w5500_tcp_send_response_packet_def p_def [symmetric]
    by (simp add: s1_def [symmetric] s2_def [symmetric] s'_def)
  note after = tcp_after_send_def keep pong_diag_frame tcp_tx_failed_def Let_def
  have e': "env s' = env s3 \<or> env s' = env (snd (get_tick hw s3))"
    using pong_diag_frame(2) [of hw "s3\<lparr>tcp := x\<rparr>" for x] by (auto simp: s'_def after)
  have "within now G (2121 + 64 * B) (env s) (env s')"
    using tick_frame(2) [OF e2 clk] send(2) tick_frame(2) [OF e' clk] by (auto simp: within_def)
  moreover have "\<exists>q. wrote log (transmission 0x0c 0x14 q (frame_bytes p)) (env s) (env s')" if "st = HAL_OK"
    using tick_frame(1) [OF e2 bus] send(4) [OF that] tick_frame(1) [OF e' bus] by (auto simp: wrote_def)
  moreover have "length (frame_bytes p) = ?n" using okp by simp
  moreover have "hal_status_value st = 0 \<longleftrightarrow> st = HAL_OK" by (cases st) simp_all
  ultimately show ?thesis
    unfolding p_def [symmetric] by (intro exI [of _ s']) (auto simp: run s'_def after)
qed

text \<open>C22: sending a response to the TCP client always returns, within 2121 ticks and 64 call
  durations. If it reports success, the chip was given exactly the encoded packet (buffer, write
  pointer, SEND, acknowledged SEND_OK), and the byte and PONG counters advance by what was sent;
  otherwise the failure is counted once and those counters stay.\<close>

theorem tcp_response_sent:
  assumes bus: "eth_bus hw log" and clk: "clocked hw now G B"
    and ok: "packet_ok (g_tcp_pong_packet (tob s))" and size: "length (g_w5500_tcp_tx_frame (tob s)) = PROTOCOL_MAX_FRAME_SIZE"
  shows "\<exists>s'. w5500_tcp_send_response_packet hw s = Some ((), s') \<and> within now G (2121 + 64 * B) (env s) (env s') \<and>
    (if g_w5500_tcp_last_tx_status (tcp s') = hal_status_value HAL_OK then
       (\<exists>q. wrote log (transmission 0x0c 0x14 q (frame_bytes (g_tcp_pong_packet (tob s)))) (env s) (env s')) \<and>
       g_w5500_tcp_tx_error_count (tcp s') = g_w5500_tcp_tx_error_count (tcp s) \<and>
       g_w5500_tcp_tx_bytes (tcp s') = g_w5500_tcp_tx_bytes (tcp s) + of_nat (length (frame_bytes (g_tcp_pong_packet (tob s)))) \<and>
       g_w5500_tcp_pong_count (tcp s') = g_w5500_tcp_pong_count (tcp s) +
         (if pk_msg_id (g_tcp_pong_packet (tob s)) = MSG_PONG then 1 else 0)
     else
       g_w5500_tcp_tx_error_count (tcp s') = g_w5500_tcp_tx_error_count (tcp s) + 1 \<and>
       g_w5500_tcp_tx_bytes (tcp s') = g_w5500_tcp_tx_bytes (tcp s) \<and>
       g_w5500_tcp_pong_count (tcp s') = g_w5500_tcp_pong_count (tcp s))"
  using response_packet_sent [OF assms] .

definition sample_pong :: protocol_packet_t where
  "sample_pong = sample_ping\<lparr>pk_msg_id := MSG_PONG\<rparr>"

lemma sample_pong_ok [simp]: "packet_ok sample_pong"
  using sample_ping_ok by (simp add: sample_pong_def packet_ok_def packet_wf_def)

definition response_state :: "sim gw" where
  "response_state = (boot sim_init)\<lparr>tob := (tob (boot sim_init))\<lparr>g_tcp_pong_packet := sample_pong\<rparr>\<rparr>"

theorem tcp_response_sent_witness:
  "\<exists>s'. w5500_tcp_send_response_packet sim_hw response_state = Some ((), s') \<and> sim_time (env s') \<le> 2185 \<and>
    g_w5500_tcp_tx_error_count (tcp s') \<le> 1"
proof -
  have s: "g_tcp_pong_packet (tob response_state) = sample_pong" "length (g_w5500_tcp_tx_frame (tob response_state)) = 266"
    "env response_state = sim_init" "g_w5500_tcp_tx_error_count (tcp response_state) = 0"
    by (simp_all add: response_state_def boot_def boot_tcp_objects_def boot_tcp_vars_def)
  then show ?thesis
    using tcp_response_sent [OF sim_eth_bus sim_clocked, of response_state]
    by (auto simp: within_def ticks_of_def sim_init_def split: if_splits)
qed

subsection \<open>Properties of the receiver\<close>

definition pings :: "protocol_packet_t list \<Rightarrow> protocol_packet_t list" where
  "pings ds = filter (\<lambda>p. pk_msg_id p = MSG_PING) ds"

text \<open>
  Requests \<open>xs\<close> put into the command queue: as many as it has room for, in order, each success
  and each refusal counted, and the RS-422 task notified.
\<close>

definition queued ::
  "protocol_packet_t list \<Rightarrow> protocol_packet_t Queue_t \<Rightarrow> protocol_packet_t Queue_t \<Rightarrow> 'e gw \<Rightarrow> 'e gw \<Rightarrow> bool" where
  "queued xs q q' s s' \<longleftrightarrow> (let room = uxLength q - length (queue_items q) in
     rs422_cmd_queue (qs s') = Some q' \<and> queue_inv q' \<and> uxLength q' = uxLength q \<and>
     queue_items q' = queue_items q @ take room xs \<and>
     g_rs422_cmd_enqueue_success_count (rs s') = g_rs422_cmd_enqueue_success_count (rs s) + of_nat (length (take room xs)) \<and>
     g_rs422_cmd_enqueue_fail_count (rs s') = g_rs422_cmd_enqueue_fail_count (rs s) + of_nat (length (drop room xs)) \<and>
     RS422TaskHandle (kn s') = RS422TaskHandle (kn s) \<and>
     (take room xs \<noteq> [] \<and> RS422TaskHandle (kn s) \<longrightarrow> bit (rs422_flags (kn s')) 2) \<and>
     (bit (rs422_flags (kn s)) 2 \<longrightarrow> bit (rs422_flags (kn s')) 2))"

lemma queued_trans:
  assumes 1: "queued xs q q1 s t" and 2: "queued ys q1 q2 t u"
  shows "queued (xs @ ys) q q2 s u"
proof -
  define r where "r = uxLength q - uxMessagesWaiting q"
  have items: "queue_items q1 = queue_items q @ take r xs" and ux: "uxLength q1 = uxLength q"
    using 1 by (simp_all add: queued_def Let_def r_def)
  have "uxMessagesWaiting q1 = uxMessagesWaiting q + min (length xs) r"
    using arg_cong [OF items, of length] by simp
  then have room: "uxLength q1 - uxMessagesWaiting q1 = r - length xs"
    using ux by (simp add: r_def min_def)
  have take: "take r (xs @ ys) = take r xs @ take (r - length xs) ys" and drop: "drop r (xs @ ys) = drop r xs @ drop (r - length xs) ys"
    by simp_all
  show ?thesis
    using 1 2 unfolding queued_def Let_def length_queue_items room r_def [symmetric] take drop length_append of_nat_add
    by (elim conjE, intro conjI) (simp_all only: items ux add.assoc append_assoc, auto)
qed

lemma enqueue_command_queued:
  assumes q: "rs422_cmd_queue (qs s) = Some q" "queue_inv q"
  shows "(\<exists>q'. queued [g_tcp_received_packet (tob s)] q q' s (enqueue_command s)) \<and>
    tcp (enqueue_command s) = tcp s \<and> tob (enqueue_command s) = tob s"
proof -
  let ?p = "g_tcp_received_packet (tob s)"
  define r where "r = uxLength q - length (queue_items q)"
  obtain st mq where put: "osMessageQueuePut (Some q) (Some ?p) = (st, mq)" by fastforce
  obtain q' where q': "mq = Some q'" "queue_inv q'" "uxLength q' = uxLength q"
    "if 0 < r then st = osOK \<and> queue_items q' = queue_items q @ [?p] else st = osErrorResource \<and> q' = q"
    using queue_put_outcome [OF q(2) put] by (auto simp: r_def)
  have flag: "bit (v OR 4 :: u32) 2" for v by (simp add: bit_or_iff)
  note d = enqueue_command_def osThreadFlagsSet_def Let_def q(1) put q'(1)
  have "queued [?p] q q' s (enqueue_command s)"
  proof (cases r)
    case 0
    with q' show ?thesis unfolding queued_def Let_def r_def [symmetric] by (simp add: d)
  next
    case (Suc k)
    with q' flag show ?thesis unfolding queued_def Let_def r_def [symmetric]
      by (cases "RS422TaskHandle (kn s)") (simp_all add: d)
  qed
  then show ?thesis by (auto simp: d split: prod.split)
qed

definition requests_handled ::
  "protocol_packet_t list \<Rightarrow> protocol_packet_t Queue_t \<Rightarrow> protocol_packet_t Queue_t \<Rightarrow> 'e gw \<Rightarrow> 'e gw \<Rightarrow> bool" where
  "requests_handled ds q q' s s' \<longleftrightarrow> queued (pings ds) q q' s s' \<and>
     g_w5500_tcp_valid_frame_count (tcp s') = g_w5500_tcp_valid_frame_count (tcp s) + of_nat (length ds) \<and>
     g_w5500_tcp_ping_count (tcp s') = g_w5500_tcp_ping_count (tcp s) + of_nat (length (pings ds))"

lemma requests_handled_trans:
  "requests_handled ds q q1 s t \<Longrightarrow> requests_handled es q1 q2 t u \<Longrightarrow> requests_handled (ds @ es) q q2 s u"
  by (auto simp: requests_handled_def pings_def intro: queued_trans)

lemma handle_valid_frame_effect:
  assumes q: "rs422_cmd_queue (qs s) = Some q" "queue_inv q"
  shows "(\<exists>q'. requests_handled [g_tcp_received_packet (tob s)] q q' s (w5500_tcp_handle_valid_frame hw s)) \<and>
    tob (w5500_tcp_handle_valid_frame hw s) = tob s"
proof (cases "pk_msg_id (g_tcp_received_packet (tob s)) = MSG_PING")
  case False
  then show ?thesis using q
    by (auto simp: w5500_tcp_handle_valid_frame_def requests_handled_def queued_def pings_def Let_def)
next
  case True
  define t where "t = note_first_ping hw (s\<lparr>tcp := (tcp s)\<lparr>g_w5500_tcp_valid_frame_count := g_w5500_tcp_valid_frame_count (tcp s) + 1,
      g_w5500_tcp_last_rx_msg_id := pk_msg_id (g_tcp_received_packet (tob s)), g_w5500_tcp_last_rx_seq := pk_seq (g_tcp_received_packet (tob s))\<rparr>\<rparr>)"
  define u where "u = t\<lparr>tcp := (tcp t)\<lparr>g_w5500_tcp_ping_count := g_w5500_tcp_ping_count (tcp t) + 1\<rparr>\<rparr>"
  have u: "tob u = tob s" "qs u = qs s" "rs u = rs s" "kn u = kn s"
    "g_w5500_tcp_valid_frame_count (tcp u) = g_w5500_tcp_valid_frame_count (tcp s) + 1"
    "g_w5500_tcp_ping_count (tcp u) = g_w5500_tcp_ping_count (tcp s) + 1"
    by (simp_all add: u_def t_def note_first_ping_def diagnostic_now_ms_def Let_def)
  have run: "w5500_tcp_handle_valid_frame hw s = enqueue_command u"
    using True by (simp add: w5500_tcp_handle_valid_frame_def u_def t_def Let_def)
  obtain q' where "queued [g_tcp_received_packet (tob u)] q q' u (enqueue_command u)" "tcp (enqueue_command u) = tcp u"
    "tob (enqueue_command u) = tob u"
    using enqueue_command_queued [of u q] q u by auto
  with True u show ?thesis unfolding run by (auto simp: requests_handled_def queued_def pings_def)
qed

interpretation tcp_client: parser_client "\<lambda>s. g_tcp_parser (tob s)" "\<lambda>s. g_tcp_received_packet (tob s)"
  "\<lambda>p r s. s\<lparr>tob := (tob s)\<lparr>g_tcp_parser := p, g_tcp_received_packet := r\<rparr>\<rparr>"
  "tcp_feed hw" "\<lambda>r s. w5500_tcp_handle_valid_frame hw s" for hw :: "'e hw"
  by unfold_locales (simp_all add: tcp_feed_def)

lemma tcp_feed_effect:
  assumes q: "rs422_cmd_queue (qs s) = Some q" "queue_inv q"
    and f: "feed_byte (g_tcp_parser (tob s)) b (g_tcp_received_packet (tob s)) = (ev, p, r)"
  shows "(\<exists>q'. requests_handled (if ev = STREAM_EVENT_FRAME then [r] else []) q q' s (tcp_feed hw b s)) \<and>
    tob (tcp_feed hw b s) = (tob s)\<lparr>g_tcp_parser := p, g_tcp_received_packet := r\<rparr>"
proof (cases ev)
  case STREAM_EVENT_FRAME
  let ?t = "s\<lparr>tob := (tob s)\<lparr>g_tcp_parser := p, g_tcp_received_packet := r\<rparr>\<rparr>"
  have "tcp_feed hw b s = w5500_tcp_handle_valid_frame hw ?t"
    using f STREAM_EVENT_FRAME by (simp add: tcp_feed_def)
  with handle_valid_frame_effect [of ?t q hw] q STREAM_EVENT_FRAME show ?thesis
    by (auto simp: requests_handled_def queued_def)
qed (use q f in \<open>auto simp: tcp_feed_def requests_handled_def queued_def pings_def Let_def\<close>)

lemma tcp_feed_all:
  assumes "rs422_cmd_queue (qs s) = Some q" "queue_inv q"
    and "feed_all (g_tcp_parser (tob s)) (g_tcp_received_packet (tob s)) bs = (ds, p', r')"
  shows "(\<exists>q'. requests_handled ds q q' s (fold (tcp_feed hw) bs s)) \<and>
    tob (fold (tcp_feed hw) bs s) = (tob s)\<lparr>g_tcp_parser := p', g_tcp_received_packet := r'\<rparr>"
  using assms
proof (induction bs arbitrary: s q ds)
  case Nil
  then show ?case by (auto simp: requests_handled_def queued_def pings_def Let_def)
next
  case (Cons b bs)
  obtain ev p r where f: "feed_byte (g_tcp_parser (tob s)) b (g_tcp_received_packet (tob s)) = (ev, p, r)"
    by (cases "feed_byte (g_tcp_parser (tob s)) b (g_tcp_received_packet (tob s))")
  obtain es where r: "feed_all p r bs = (es, p', r')" and ds: "ds = (if ev = STREAM_EVENT_FRAME then [r] else []) @ es"
    using Cons.prems(3) f by (auto split: prod.splits)
  obtain q1 where h: "requests_handled (if ev = STREAM_EVENT_FRAME then [r] else []) q q1 s (tcp_feed hw b s)"
    and t: "tob (tcp_feed hw b s) = (tob s)\<lparr>g_tcp_parser := p, g_tcp_received_packet := r\<rparr>"
    using tcp_feed_effect [OF Cons.prems(1,2) f] by blast
  have "rs422_cmd_queue (qs (tcp_feed hw b s)) = Some q1" "queue_inv q1"
    using h by (auto simp: requests_handled_def queued_def Let_def)
  with Cons.IH [of "tcp_feed hw b s" q1 es] r t obtain q2 where
    "requests_handled es q1 q2 (tcp_feed hw b s) (fold (tcp_feed hw) bs (tcp_feed hw b s))"
    "tob (fold (tcp_feed hw) bs (tcp_feed hw b s)) = (tob s)\<lparr>g_tcp_parser := p', g_tcp_received_packet := r'\<rparr>"
    by auto
  from requests_handled_trans [OF h this(1)] this(2) show ?case by (auto simp: ds)
qed

text \<open>C23: the TCP receiver turns a byte stream into commands: of the frames the parser delivers,
  exactly the PINGs go into the command queue for the RS-422 task, in order and unchanged, as many
  as the queue has room for; every refused one is counted, every frame and every PING is counted,
  and the RS-422 task is notified when anything was queued.\<close>

theorem tcp_stream_requests:
  assumes "rs422_cmd_queue (qs s) = Some q" and "queue_inv q"
    and "feed_all (g_tcp_parser (tob s)) (g_tcp_received_packet (tob s)) bs = (ds, p', r')"
    and "s' = fold (tcp_feed hw) bs s" and "room = uxLength q - length (queue_items q)"
  shows "\<exists>q'. rs422_cmd_queue (qs s') = Some q' \<and> queue_inv q' \<and> queue_items q' = queue_items q @ take room (pings ds) \<and>
    g_rs422_cmd_enqueue_success_count (rs s') = g_rs422_cmd_enqueue_success_count (rs s) + of_nat (length (take room (pings ds))) \<and>
    g_rs422_cmd_enqueue_fail_count (rs s') = g_rs422_cmd_enqueue_fail_count (rs s) + of_nat (length (drop room (pings ds))) \<and>
    g_w5500_tcp_valid_frame_count (tcp s') = g_w5500_tcp_valid_frame_count (tcp s) + of_nat (length ds) \<and>
    g_w5500_tcp_ping_count (tcp s') = g_w5500_tcp_ping_count (tcp s) + of_nat (length (pings ds)) \<and>
    (take room (pings ds) \<noteq> [] \<and> RS422TaskHandle (kn s) \<longrightarrow> bit (rs422_flags (kn s')) 2) \<and>
    g_tcp_parser (tob s') = p'"
  using tcp_feed_all [OF assms(1-3), of hw] unfolding assms(4,5) requests_handled_def queued_def Let_def by auto

definition request_state :: "sim gw" where
  "request_state = (boot sim_init)\<lparr>qs := boot_queue_vars\<lparr>rs422_cmd_queue := osMessageQueueNew 8 (Some (replicate 8 zero_packet))\<rparr>,
     kn := boot_kernel_vars\<lparr>RS422TaskHandle := True\<rparr>\<rparr>"

theorem tcp_stream_requests_witness:
  "\<exists>q' r. rs422_cmd_queue (qs (fold (tcp_feed sim_hw) (frame_bytes sample_ping) request_state)) = Some q' \<and>
    queue_items q' = [r] \<and> same_message sample_ping r"
proof -
  obtain q where q: "osMessageQueueNew 8 (Some (replicate 8 zero_packet)) = Some q"
    by (simp add: osMessageQueueNew_def)
  have inv: "queue_inv q" "queue_items q = []" "uxLength q = 8" using new_queue_inv [OF q] by auto
  have st: "rs422_cmd_queue (qs request_state) = Some q" "g_tcp_parser (tob request_state) = stream_parser_init"
    "g_tcp_received_packet (tob request_state) = zero_packet"
    by (simp_all add: request_state_def q boot_def boot_tcp_objects_def)
  have "pending stream_parser_init = []" "frame_bytes sample_ping \<noteq> []"
    by (simp_all add: pending_def stream_parser_init_def frame_bytes_def)
  then obtain r p' r' where f: "feed_all stream_parser_init zero_packet (frame_bytes sample_ping) = ([r], p', r')" "same_message sample_ping r"
    using feed_all_frame [of sample_ping stream_parser_init zero_packet] by auto
  moreover have "pings [r] = [r]" using f(2) by (simp add: pings_def same_message_def sample_ping_def)
  ultimately show ?thesis
    using tcp_stream_requests [OF st(1) inv(1), of "frame_bytes sample_ping" "[r]" p' r' _ sim_hw 8] inv st by auto
qed

lemma rx_buffer_wrote:
  assumes "eth_bus hw log" "w5500_socket0_read_rx_buffer hw a d n b e = (HAL_OK, d', e')"
  shows "wrote log [] e e' \<and> 0 < n \<and> n \<le> 64"
proof -
  obtain cur where bus: "bus_ok hw log cur" by (rule eth_bus_frames [OF assms(1)])
  let ?e0 = "HAL_GPIO_WritePin hw W5500_CS False e"
  obtain s1 z e1 where h: "spi_transfer hw [hi8 a, lo8 a, 0x18] (replicate 3 0) ?e0 = (s1, z, e1)"
    by (cases "spi_transfer hw [hi8 a, lo8 a, 0x18] (replicate 3 0) ?e0")
  obtain s2 d2 e2 where t: "spi_transfer hw (take n b) d e1 = (s2, d2, e2)" by (cases "spi_transfer hw (take n b) d e1")
  have ok: "s1 = HAL_OK" "s2 = HAL_OK" "e' = HAL_GPIO_WritePin hw W5500_CS True e2" "0 < n" "n \<le> 64"
    using assms(2) h t by (auto simp: w5500_socket0_read_rx_buffer_def Let_def split: if_splits)
  have "log e' = log e @ [[hi8 a, lo8 a, 0x18] @ take n b]"
    using bus_transfer [OF bus h] bus_transfer [OF bus t] bus_select [OF bus] ok by simp
  with ok show ?thesis by (simp add: wrote_def)
qed

lemma handle_valid_frame_tob [simp]:
  "tob (w5500_tcp_handle_valid_frame hw s) = tob s"
  "g_w5500_tcp_valid_frame_count (tcp (w5500_tcp_handle_valid_frame hw s)) = g_w5500_tcp_valid_frame_count (tcp s) + 1"
  "g_w5500_tcp_rx_bytes (tcp (w5500_tcp_handle_valid_frame hw s)) = g_w5500_tcp_rx_bytes (tcp s)"
proof -
  have [simp]: "tob (enqueue_command t) = tob t" "tcp (enqueue_command t) = tcp t" for t :: "'a gw"
    by (simp_all add: enqueue_command_def osThreadFlagsSet_def Let_def split: prod.split)
  have [simp]: "tob (note_first_ping hw t) = tob t" "tcp (note_first_ping hw t) = tcp t" for t
    by (simp_all add: note_first_ping_def diagnostic_now_ms_def)
  show "tob (w5500_tcp_handle_valid_frame hw s) = tob s"
    "g_w5500_tcp_valid_frame_count (tcp (w5500_tcp_handle_valid_frame hw s)) = g_w5500_tcp_valid_frame_count (tcp s) + 1"
    "g_w5500_tcp_rx_bytes (tcp (w5500_tcp_handle_valid_frame hw s)) = g_w5500_tcp_rx_bytes (tcp s)"
    by (simp_all add: w5500_tcp_handle_valid_frame_def Let_def)
qed

lemma handle_valid_frame_env:
  "env (w5500_tcp_handle_valid_frame hw s) = env s \<or> env (w5500_tcp_handle_valid_frame hw s) = env (snd (get_tick hw s))"
proof -
  have [simp]: "env (enqueue_command t) = env t" for t :: "'a gw"
    by (simp add: enqueue_command_def osThreadFlagsSet_def Let_def split: prod.split)
  have "env (note_first_ping hw t) = env t \<or> env (note_first_ping hw t) = env (snd (get_tick hw t))" for t
    by (simp add: note_first_ping_def diagnostic_now_ms_def)
  from this [of "s\<lparr>tcp := x\<rparr>" for x] show ?thesis by (simp add: w5500_tcp_handle_valid_frame_def Let_def)
qed

lemma tcp_feed_fold:
  assumes "eth_bus hw log" "feed_all (g_tcp_parser (tob s)) (g_tcp_received_packet (tob s)) bs = (ds, p', r')"
  shows "tob (fold (tcp_feed hw) bs s) = (tob s)\<lparr>g_tcp_parser := p', g_tcp_received_packet := r'\<rparr> \<and>
    g_w5500_tcp_valid_frame_count (tcp (fold (tcp_feed hw) bs s)) = g_w5500_tcp_valid_frame_count (tcp s) + of_nat (length ds) \<and>
    g_w5500_tcp_rx_bytes (tcp (fold (tcp_feed hw) bs s)) = g_w5500_tcp_rx_bytes (tcp s) \<and>
    wrote log [] (env s) (env (fold (tcp_feed hw) bs s))"
  using assms(2)
proof (induction bs arbitrary: s ds)
  case (Cons b bs)
  obtain ev p r where f: "feed_byte (g_tcp_parser (tob s)) b (g_tcp_received_packet (tob s)) = (ev, p, r)"
    by (cases "feed_byte (g_tcp_parser (tob s)) b (g_tcp_received_packet (tob s))")
  obtain es where r: "feed_all p r bs = (es, p', r')" and ds: "ds = (if ev = STREAM_EVENT_FRAME then [r] else []) @ es"
    using Cons.prems f by (auto split: prod.splits)
  let ?t = "s\<lparr>tob := (tob s)\<lparr>g_tcp_parser := p, g_tcp_received_packet := r\<rparr>\<rparr>"
  have t: "tob (tcp_feed hw b s) = (tob s)\<lparr>g_tcp_parser := p, g_tcp_received_packet := r\<rparr>"
    "g_w5500_tcp_valid_frame_count (tcp (tcp_feed hw b s)) = g_w5500_tcp_valid_frame_count (tcp s) + (if ev = STREAM_EVENT_FRAME then 1 else 0)"
    "g_w5500_tcp_rx_bytes (tcp (tcp_feed hw b s)) = g_w5500_tcp_rx_bytes (tcp s)"
    using f by (simp_all add: tcp_feed_def Let_def split: stream_parser_event_t.split)
  have w: "wrote log [] (env s) (env (tcp_feed hw b s))"
    using f handle_valid_frame_env [of hw ?t] bus_tick [OF assms(1), of s]
    by (auto simp: tcp_feed_def Let_def split: stream_parser_event_t.split)
  from Cons.IH [of "tcp_feed hw b s" es] r t w show ?case by (auto simp: ds wrote_def)
qed simp

lemma take_chunk_consumes:
  assumes bus: "eth_bus hw log" and run: "tcp_take_chunk hw n s = Some (HAL_OK, s')"
  shows "0 < unat n \<and> unat n \<le> 64 \<and> (\<exists>p ds.
      wrote log [[0, 0x28, 0x0c, hi8 (p + n), lo8 (p + n)], [0, 1, 0x0c, 0x40]] (env s) (env s') \<and>
      feed_all (g_tcp_parser (tob s)) (g_tcp_received_packet (tob s)) (take (unat n) (g_w5500_tcp_rx_chunk (tob s'))) =
        (ds, g_tcp_parser (tob s'), g_tcp_received_packet (tob s')) \<and>
      g_w5500_tcp_rx_bytes (tcp s') = g_w5500_tcp_rx_bytes (tcp s) + ucast n \<and>
      g_w5500_tcp_valid_frame_count (tcp s') = g_w5500_tcp_valid_frame_count (tcp s) + of_nat (length ds))"
proof -
  obtain st2 p e2 where r2: "w5500_socket0_read_u16 hw 0x28 0 (env s) = (st2, p, e2)"
    by (cases "w5500_socket0_read_u16 hw 0x28 0 (env s)")
  obtain st3 ch e3 where r3: "w5500_socket0_read_rx_buffer hw p (g_w5500_tcp_rx_chunk (tob s)) (unat n) (g_w5500_tcp_rx_dummy (tob s)) e2 = (st3, ch, e3)"
    by (cases "w5500_socket0_read_rx_buffer hw p (g_w5500_tcp_rx_chunk (tob s)) (unat n) (g_w5500_tcp_rx_dummy (tob s)) e2")
  obtain st4 e4 where r4: "w5500_socket0_write_registers hw 0x28 [hi8 (p + n), lo8 (p + n)] 2 e3 = (st4, e4)" by fastforce
  let ?t = "s\<lparr>tob := (tob s)\<lparr>g_w5500_tcp_rx_chunk := ch\<rparr>, env := e4\<rparr>"
  have ok: "st2 = HAL_OK" "st3 = HAL_OK" "st4 = HAL_OK"
    using run r2 r3 r4 by (auto simp: tcp_take_chunk_def Let_def split: if_splits)
  obtain u where u: "w5500_socket0_execute_command hw 0x40 ?t = Some (HAL_OK, u)"
    and s': "s' = fold (tcp_feed hw) (take (unat n) (g_w5500_tcp_rx_chunk (tob u)))
      (u\<lparr>tcp := (tcp u)\<lparr>g_w5500_tcp_rx_bytes := g_w5500_tcp_rx_bytes (tcp u) + ucast n\<rparr>\<rparr>)"
    using run r2 r3 r4 ok by (auto simp: tcp_take_chunk_def Option.bind_eq_Some_conv Let_def split: if_splits)
  have own: "eth_private hw" using bus by (simp add: eth_bus_def)
  have u': "tob u = (tob s)\<lparr>g_w5500_tcp_rx_chunk := ch\<rparr>" "tcp u = tcp s"
    using execute_command_wrote(1) [OF bus u] execute_command_same(1) [OF own u] by (auto simp: same_eth_def eth_same_def)
  obtain ds p' r' where f: "feed_all (g_tcp_parser (tob s)) (g_tcp_received_packet (tob s)) (take (unat n) ch) = (ds, p', r')"
    by (cases "feed_all (g_tcp_parser (tob s)) (g_tcp_received_packet (tob s)) (take (unat n) ch)")
  note fed = tcp_feed_fold [OF bus, of "u\<lparr>tcp := (tcp u)\<lparr>g_w5500_tcp_rx_bytes := g_w5500_tcp_rx_bytes (tcp u) + ucast n\<rparr>\<rparr>" "take (unat n) ch" ds p' r']
  have adr: "hi8 0x28 = 0" "lo8 0x28 = 0x28" by (simp_all add: hi8_def lo8_def)
  have "wrote log [] (env s) e2" using socket_read_wrote(3) [OF bus] r2 ok(1) by simp
  moreover have rx: "wrote log [] e2 e3" "0 < unat n" "unat n \<le> 64" using rx_buffer_wrote [OF bus] r3 ok(2) by auto
  moreover have "wrote log [[0, 0x28, 0x0c, hi8 (p + n), lo8 (p + n)]] e3 e4"
    using socket_write_wrote(1) [OF bus _ r4 [unfolded ok(3)]] adr by simp
  moreover have "wrote log [[0, 1, 0x0c, 0x40]] e4 (env u)" using execute_command_wrote(1) [OF bus u] by simp
  ultimately have "wrote log [[0, 0x28, 0x0c, hi8 (p + n), lo8 (p + n)], [0, 1, 0x0c, 0x40]] (env s) (env s')"
    using fed f u' unfolding s' by (simp add: wrote_def)
  with rx fed f u' show ?thesis unfolding s' by (intro conjI exI [of _ p] exI [of _ ds]) simp_all
qed

text \<open>Reading from the TCP socket consumes what it parses, exactly once: a successful call
  that found data takes a chunk of at most 64 bytes, tells the chip that it consumed exactly these
  (read pointer advanced by the chunk, then RECV), feeds each byte to the parser once and in order,
  and counts the bytes and the complete frames. A call that found nothing changes nothing.\<close>

theorem tcp_rx_consumes:
  assumes bus: "eth_bus hw log" and run: "w5500_tcp_process_rx hw s = Some (HAL_OK, s')"
  shows "(tob s' = tob s \<and> tcp s' = tcp s \<and> wrote log [] (env s) (env s')) \<or>
    (\<exists>n p ds. 0 < n \<and> n \<le> W5500_TCP_RX_CHUNK_SIZE \<and>
      wrote log [[0, 0x28, 0x0c, hi8 (p + of_nat n), lo8 (p + of_nat n)], [0, 1, 0x0c, W5500_SOCKET0_RECV_COMMAND]] (env s) (env s') \<and>
      feed_all (g_tcp_parser (tob s)) (g_tcp_received_packet (tob s)) (take n (g_w5500_tcp_rx_chunk (tob s'))) =
        (ds, g_tcp_parser (tob s'), g_tcp_received_packet (tob s')) \<and>
      g_w5500_tcp_rx_bytes (tcp s') = g_w5500_tcp_rx_bytes (tcp s) + of_nat n \<and>
      g_w5500_tcp_valid_frame_count (tcp s') = g_w5500_tcp_valid_frame_count (tcp s) + of_nat (length ds))"
proof -
  obtain st0 size e0 where r0: "w5500_socket0_read_stable_u16 hw 0x26 0 (env s) = (st0, size, e0)"
    by (cases "w5500_socket0_read_stable_u16 hw 0x26 0 (env s)")
  define s0 where "s0 = s\<lparr>env := e0\<rparr>"
  define s1 where "s1 = note_rx_ready hw s0"
  define n where "n = (if unat size > W5500_TCP_RX_CHUNK_SIZE then of_nat W5500_TCP_RX_CHUNK_SIZE else size)"
  have step: "w5500_tcp_process_rx hw s = (if st0 \<noteq> HAL_OK \<or> size = 0 then Some (st0, s0) else tcp_take_chunk hw n s1)"
    using r0 by (simp add: w5500_tcp_process_rx_def s0_def s1_def n_def)
  then have ok0: "st0 = HAL_OK" using run by (auto split: if_splits)
  have w0: "wrote log [] (env s) (env s0)" using stable_read_wrote(1) [OF bus] r0 ok0 by (simp add: s0_def)
  show ?thesis
  proof (cases "size = 0")
    case True
    with run step have "s' = s0" by simp
    with w0 show ?thesis by (simp add: s0_def)
  next
    case False
    with run step ok0 have "tcp_take_chunk hw n s1 = Some (HAL_OK, s')" by simp
    note taken = take_chunk_consumes [OF bus this]
    have s1: "tob s1 = tob s" "tcp s1 = tcp s" "env s1 = env s0 \<or> env s1 = env (snd (get_tick hw s0))"
      by (simp_all add: s1_def s0_def note_rx_ready_def diagnostic_now_ms_def)
    have "wrote log ws (env s) (env s')" if "wrote log ws (env s1) (env s')" for ws
      using that w0 tick_frame(1) [OF s1(3) bus] by (simp add: wrote_def)
    moreover have "(of_nat (unat n) :: u16) = n" "(of_nat (unat n) :: u32) = ucast n" by (simp_all add: unsigned_of_nat)
    ultimately show ?thesis using taken s1 by (intro disjI2 exI [of _ "unat n"]) auto
  qed
qed

lemma live_take_chunk:
  assumes "0 < length d" "length d \<le> 64" "length (g_w5500_tcp_rx_chunk (tob s)) = 64" "length (g_w5500_tcp_rx_dummy (tob s)) = 64"
  shows "\<exists>s'. tcp_take_chunk (live_hw st d) (of_nat (length d)) s = Some (HAL_OK, s')"
proof -
  have n: "unat (of_nat (length d) :: u16) = length d"
    using assms(2) by (simp add: unat_of_nat take_bit_nat_eq_self)
  obtain c r where "w5500_socket0_read_rx_buffer (live_hw st d) (live_u16 d 0x28) (g_w5500_tcp_rx_chunk (tob s)) (length d)
      (g_w5500_tcp_rx_dummy (tob s)) (live_end [hi8 0x28, lo8 0x28, 0x08, 0, 0] (env s)) = (HAL_OK, r, c)"
    using live_rx_buffer [of "length d" d] assms by blast
  moreover obtain c' where "w5500_socket0_execute_command (live_hw st d) 0x40 t = Some (HAL_OK, t\<lparr>env := c' t\<rparr>)" for t
    using live_command [of st d "0x40"] by metis
  ultimately show ?thesis by (simp add: tcp_take_chunk_def n Let_def)
qed

theorem tcp_rx_consumes_witness:
  "\<exists>s'. w5500_tcp_process_rx (live_hw 0x17 (frame_bytes sample_ping)) (boot sim_init) = Some (HAL_OK, s') \<and>
    g_w5500_tcp_rx_bytes (tcp s') \<le> 64"
proof -
  let ?d = "frame_bytes sample_ping"
  have d: "length ?d = 10" using sample_ping_length by simp
  obtain c where c: "w5500_socket0_read_stable_u16 (live_hw 0x17 ?d) 0x26 0 (env (boot sim_init)) = (HAL_OK, live_u16 ?d 0x26, c)"
    using live_stable_u16 [of "0x17" ?d "0x26" 0 "env (boot sim_init)"] by blast
  let ?t = "note_rx_ready (live_hw 0x17 ?d) ((boot sim_init)\<lparr>env := c\<rparr>)"
  have t: "length (g_w5500_tcp_rx_chunk (tob ?t)) = 64" "length (g_w5500_tcp_rx_dummy (tob ?t)) = 64"
    by (simp_all add: note_rx_ready_def diagnostic_now_ms_def boot_def boot_tcp_objects_def)
  obtain s' where "tcp_take_chunk (live_hw 0x17 ?d) (of_nat (length ?d)) ?t = Some (HAL_OK, s')"
    using live_take_chunk [of ?d ?t "0x17"] d t by auto
  then have run: "w5500_tcp_process_rx (live_hw 0x17 ?d) (boot sim_init) = Some (HAL_OK, s')"
    using c d by (simp add: w5500_tcp_process_rx_def live_u16_def)
  have z: "g_w5500_tcp_rx_bytes (tcp (boot sim_init)) = 0" by (simp add: boot_def boot_tcp_vars_def)
  have "(of_nat n :: u32) \<le> 64" if "n \<le> 64" for n
    using that by (simp add: word_le_nat_alt unat_of_nat take_bit_nat_eq_self)
  with tcp_rx_consumes [OF live_eth_bus run] run z show ?thesis by auto
qed

subsection \<open>Properties of the connection context\<close>

definition response_queue_ok :: "'e gw \<Rightarrow> bool" where
  "response_queue_ok s \<longleftrightarrow> (\<exists>q. tcp_response_queue (qs s) = Some q \<and> queue_inv q \<and> uxLength q \<le> TCP_RESPONSE_QUEUE_DEPTH)"

lemma take_response_cases:
  assumes "tcp_response_queue (qs s) = Some q" "queue_inv q"
  obtains (empty) "queue_items q = []" "take_response s = (False, s)"
  | (head) x xs q' where "queue_items q = x # xs" "queue_inv q'" "queue_items q' = xs" "uxLength q' = uxLength q"
      "take_response s = (True, s\<lparr>qs := (qs s)\<lparr>tcp_response_queue := Some q'\<rparr>, tob := (tob s)\<lparr>g_tcp_pong_packet := x\<rparr>\<rparr>)"
proof -
  obtain st mq m where g: "osMessageQueueGet (Some q) (Some (g_tcp_pong_packet (tob s))) = (st, mq, m)"
    by (cases "osMessageQueueGet (Some q) (Some (g_tcp_pong_packet (tob s)))")
  note get = queue_get_outcome [OF assms(2) g]
  show ?thesis
  proof (cases "queue_items q")
    case Nil
    with get g assms(1) have "take_response s = (False, s\<lparr>qs := (qs s)\<lparr>tcp_response_queue := Some q\<rparr>,
        tob := (tob s)\<lparr>g_tcp_pong_packet := g_tcp_pong_packet (tob s)\<rparr>\<rparr>)" by (auto simp: take_response_def)
    moreover have "s\<lparr>qs := (qs s)\<lparr>tcp_response_queue := Some q\<rparr>,
        tob := (tob s)\<lparr>g_tcp_pong_packet := g_tcp_pong_packet (tob s)\<rparr>\<rparr> = s"
      using assms(1) by (cases s; cases "qs s"; cases "tob s") simp
    ultimately show ?thesis using Nil empty by simp
  next
    case (Cons x xs)
    with get g assms(1) show ?thesis using head by (auto simp: take_response_def)
  qed
qed

text \<open>The discard loop empties the queue and changes nothing but the queue, the drop count and the scratch packet.\<close>

definition discarded :: "nat \<Rightarrow> 'e gw \<Rightarrow> 'e gw \<Rightarrow> bool" where
  "discarded n s t \<longleftrightarrow> (\<exists>q m. queue_inv q \<and> queue_items q = [] \<and> uxLength q \<le> TCP_RESPONSE_QUEUE_DEPTH \<and>
     t = s\<lparr>qs := (qs s)\<lparr>tcp_response_queue := Some q\<rparr>, tob := (tob s)\<lparr>g_tcp_pong_packet := m\<rparr>,
       sv := (sv s)\<lparr>g_w5500_tcp_stale_response_drop_count := g_w5500_tcp_stale_response_drop_count (sv s) + of_nat n\<rparr>\<rparr>)"

lemma discarded_none:
  assumes "tcp_response_queue (qs s) = Some q" "queue_inv q" "queue_items q = []" "uxLength q \<le> TCP_RESPONSE_QUEUE_DEPTH"
  shows "discarded 0 s s"
proof -
  have "s = s\<lparr>qs := (qs s)\<lparr>tcp_response_queue := Some q\<rparr>, tob := (tob s)\<lparr>g_tcp_pong_packet := g_tcp_pong_packet (tob s)\<rparr>,
      sv := (sv s)\<lparr>g_w5500_tcp_stale_response_drop_count := g_w5500_tcp_stale_response_drop_count (sv s) + of_nat 0\<rparr>\<rparr>"
    using assms(1) by (cases s; cases "qs s"; cases "tob s"; cases "sv s") simp
  with assms show ?thesis unfolding discarded_def by (intro exI conjI)
qed

lemma discarded_one:
  assumes "discarded n (s\<lparr>qs := (qs s)\<lparr>tcp_response_queue := Some q\<rparr>, tob := (tob s)\<lparr>g_tcp_pong_packet := x\<rparr>,
      sv := (sv s)\<lparr>g_w5500_tcp_stale_response_drop_count := g_w5500_tcp_stale_response_drop_count (sv s) + 1\<rparr>\<rparr>) t"
  shows "discarded (Suc n) s t"
  using assms unfolding discarded_def by (elim exE conjE, intro exI conjI) (assumption | simp add: add.assoc)+

lemma discard_loop_empties:
  assumes "tcp_response_queue (qs s) = Some q" "queue_inv q" "length (queue_items q) \<le> n" "uxLength q \<le> TCP_RESPONSE_QUEUE_DEPTH"
  shows "discarded (length (queue_items q)) s (discard_loop n s)"
  using assms
proof (induction n arbitrary: s q)
  case 0
  then have e: "queue_items q = []" by (simp add: queue_items_def)
  then have "length (queue_items q) = 0" by (metis list.size(3))
  with discarded_none [OF 0(1,2) e 0(4)] show ?case by (metis discard_loop.simps(1))
next
  case (Suc n)
  show ?case
  proof (cases rule: take_response_cases [OF Suc.prems(1,2)])
    case 1
    then have "length (queue_items q) = 0" "discard_loop (Suc n) s = s" by (metis list.size(3), simp)
    with discarded_none [OF Suc.prems(1,2) 1(1) Suc.prems(4)] show ?thesis by metis
  next
    case (2 x xs q')
    let ?t = "s\<lparr>qs := (qs s)\<lparr>tcp_response_queue := Some q'\<rparr>, tob := (tob s)\<lparr>g_tcp_pong_packet := x\<rparr>,
      sv := (sv s)\<lparr>g_w5500_tcp_stale_response_drop_count := g_w5500_tcp_stale_response_drop_count (sv s) + 1\<rparr>\<rparr>"
    have len: "length (queue_items q) = Suc (length (queue_items q'))" by (metis 2(1,3) length_Cons)
    have "discarded (length (queue_items q')) ?t (discard_loop n ?t)"
      using len Suc.prems(3,4) 2 by (intro Suc.IH) auto
    moreover have "discard_loop (Suc n) s = discard_loop n ?t" using 2 by simp
    ultimately show ?thesis unfolding len by (metis discarded_one)
  qed
qed

lemma discard_empties:
  assumes "response_queue_ok s"
  obtains q where "tcp_response_queue (qs s) = Some q" "queue_inv q"
    "discarded (length (queue_items q)) s (w5500_tcp_discard_stale_responses s)"
proof -
  obtain q where q: "tcp_response_queue (qs s) = Some q" "queue_inv q" "uxLength q \<le> TCP_RESPONSE_QUEUE_DEPTH"
    using assms by (auto simp: response_queue_ok_def)
  have "length (queue_items q) \<le> TCP_RESPONSE_QUEUE_DEPTH" using q kernel_queue.within_capacity [OF q(2)] by simp
  with discard_loop_empties [OF q(1,2) _ q(3)] q(1) have "discarded (length (queue_items q)) s (w5500_tcp_discard_stale_responses s)"
    by (simp add: w5500_tcp_discard_stale_responses_def)
  with q show ?thesis by (intro that)
qed

text \<open>When a connection ends, nothing of it survives into the next one: the session is marked
  inactive, the parser is idle again, every queued response is dropped and counted, and the RS-422
  task is told to forget the pending request; nothing else changes.\<close>

theorem tcp_context_invalidated:
  assumes "tcp_response_queue (qs s) = Some q" and "queue_inv q" and "uxLength q \<le> TCP_RESPONSE_QUEUE_DEPTH"
    and "s' = w5500_tcp_invalidate_connection_context s"
  shows "(\<exists>q'. tcp_response_queue (qs s') = Some q' \<and> queue_inv q' \<and> queue_items q' = []) \<and>
    g_w5500_tcp_stale_response_drop_count (sv s') = g_w5500_tcp_stale_response_drop_count (sv s) + of_nat (length (queue_items q)) \<and>
    g_w5500_tcp_session_active (sv s') = 0 \<and> g_tcp_parser (tob s') = stream_parser_init \<and>
    (RS422TaskHandle (kn s) \<longrightarrow> bit (rs422_flags (kn s')) 3) \<and>
    rs422_cmd_queue (qs s') = rs422_cmd_queue (qs s) \<and> udp_telemetry_queue (qs s') = udp_telemetry_queue (qs s) \<and>
    tcp s' = tcp s \<and> net s' = net s \<and> env s' = env s"
proof -
  define t where "t = s\<lparr>sv := (sv s)\<lparr>g_w5500_tcp_session_active := 0\<rparr>, tob := (tob s)\<lparr>g_tcp_parser := stream_parser_init\<rparr>\<rparr>"
  define u where "u = (if RS422TaskHandle (kn t) then snd (osThreadFlagsSet RS422Task RS422_EVENT_TCP_CONTEXT_RESET t) else t)"
  have run: "s' = w5500_tcp_discard_stale_responses u"
    by (simp add: assms(4) w5500_tcp_invalidate_connection_context_def t_def u_def)
  have flag: "bit (v OR 8 :: u32) 3" for v by (simp add: bit_or_iff)
  have u: "qs u = qs s" "sv u = sv t" "tob u = tob t" "tcp u = tcp s" "net u = net s" "env u = env s"
    "RS422TaskHandle (kn s) \<longrightarrow> bit (rs422_flags (kn u)) 3"
    using flag by (simp_all add: u_def t_def osThreadFlagsSet_def Let_def)
  have "response_queue_ok u" using assms(1-3) u(1) by (simp add: response_queue_ok_def)
  then obtain q1 where "tcp_response_queue (qs u) = Some q1" "discarded (length (queue_items q1)) u s'"
    unfolding run by (rule discard_empties)
  with assms(1) u show ?thesis by (auto simp: discarded_def t_def)
qed

definition stale_queue :: "protocol_packet_t Queue_t" where
  "stale_queue = snd (xQueueGenericSend (prvInitialiseNewQueue 8 (replicate 8 zero_packet)) sample_pong)"

theorem tcp_context_invalidated_witness:
  "g_w5500_tcp_stale_response_drop_count (sv (w5500_tcp_invalidate_connection_context
     ((boot sim_init)\<lparr>qs := boot_queue_vars\<lparr>tcp_response_queue := Some stale_queue\<rparr>\<rparr>))) = 1"
proof -
  have "queue_inv stale_queue" "queue_items stale_queue = [sample_pong]" "uxLength stale_queue = 8"
    using send_room [of "prvInitialiseNewQueue 8 (replicate 8 zero_packet)" sample_pong] 
      new_queue_inv [of 8 "replicate 8 zero_packet"]
    by (simp_all add: stale_queue_def queue_put_def osMessageQueueNew_def prvInitialiseNewQueue_def xQueueGenericReset_def)
  with tcp_context_invalidated [of "(boot sim_init)\<lparr>qs := boot_queue_vars\<lparr>tcp_response_queue := Some stale_queue\<rparr>\<rparr>" stale_queue]
  show ?thesis by (simp add: boot_def boot_service_vars_def)
qed

end
