(* ===== verification/GwLink.thy ===== *)
theory GwLink
  imports GwRs422 GwTcp
begin

text \<open>
  What the RS-422 side of the gateway does for the other tasks: the receiver implements an
  abstract link that matches PONGs to the pending request and hands telemetry over; the
  transmitter's waits return; the link test accounts for every test.
\<close>

subsection \<open>The abstract link\<close>

text \<open>
  The receiver's contract: the request that waits for its PONG, and the two queues it feeds.
  A PONG is handed over only while a TCP session is active and only for the pending request,
  which it completes; telemetry is handed over once forwarding is enabled. What does not fit
  into a queue is dropped.
\<close>

record link_view =
  pending_request :: "u16 option"
  responses :: "protocol_packet_t list"
  telemetry :: "protocol_packet_t list"

definition link_receive :: "bool \<Rightarrow> bool \<Rightarrow> protocol_packet_t \<Rightarrow> link_view \<Rightarrow> link_view" where
  "link_receive session forwarding m v =
     (if pk_msg_id m = MSG_TELEMETRY \<and> forwarding
      then v\<lparr>telemetry := take UDP_TELEMETRY_QUEUE_DEPTH (telemetry v @ [m])\<rparr>
      else if pk_msg_id m = MSG_PONG \<and> session \<and> pending_request v = Some (pk_seq m)
      then v\<lparr>pending_request := None, responses := take TCP_RESPONSE_QUEUE_DEPTH (responses v @ [m])\<rparr>
      else v)"

definition link_of :: "'e gw \<Rightarrow> link_view" where
  "link_of s = \<lparr>
     pending_request = (if g_rs422_tcp_ping_pending (rs s) \<noteq> 0 then Some (g_rs422_tcp_ping_pending_seq (rs s)) else None),
     responses = queue_items (the (tcp_response_queue (qs s))),
     telemetry = queue_items (the (udp_telemetry_queue (qs s)))\<rparr>"

definition queue_ready :: "nat \<Rightarrow> 'a Queue_t option \<Rightarrow> bool" where
  "queue_ready n mq \<longleftrightarrow> (\<exists>q. mq = Some q \<and> queue_inv q \<and> uxLength q = n)"

definition link_ok :: "'e gw \<Rightarrow> bool" where
  "link_ok s \<longleftrightarrow> queue_ready TCP_RESPONSE_QUEUE_DEPTH (tcp_response_queue (qs s)) \<and>
     queue_ready UDP_TELEMETRY_QUEUE_DEPTH (udp_telemetry_queue (qs s))"

lemma put_ready:
  assumes "queue_ready n mq" "osMessageQueuePut mq (Some x) = (st, mq')"
  shows "queue_ready n mq'" "queue_items (the mq') = take n (queue_items (the mq) @ [x])"
    "st = osOK \<longleftrightarrow> length (queue_items (the mq)) < n"
proof -
  obtain q where q: "mq = Some q" "queue_inv q" "uxLength q = n" using assms(1) by (auto simp: queue_ready_def)
  from queue_put_outcome [OF q(2)] assms(2) q(1) obtain q' where q': "mq' = Some q'" "queue_inv q'" "uxLength q' = n"
    "if length (queue_items q) < n then st = osOK \<and> queue_items q' = queue_items q @ [x] else st = osErrorResource \<and> q' = q"
    using q(3) by metis
  show "queue_ready n mq'" using q' by (simp add: queue_ready_def)
  have "length (queue_items q) \<le> n" using kernel_queue.within_capacity [OF q(2)] q(3) by simp
  then show "queue_items (the mq') = take n (queue_items (the mq) @ [x])" using q' q(1) by (auto split: if_splits)
  show "st = osOK \<longleftrightarrow> length (queue_items (the mq)) < n" using q' q(1) by (auto split: if_splits)
qed

subsection \<open>The receiver implements the link\<close>

text \<open>What the handling of a frame keeps.\<close>

definition frame_keeps :: "'e gw \<Rightarrow> 'e gw \<Rightarrow> bool" where
  "frame_keeps s t \<longleftrightarrow> ro t = ro s \<and> sv t = sv s \<and> link_ok t \<and> rs422_cmd_queue (qs t) = rs422_cmd_queue (qs s) \<and>
     g_rs422_telemetry_forwarding_enabled (rs t) = g_rs422_telemetry_forwarding_enabled (rs s) \<and>
     g_rs422_tx_busy (rs t) = g_rs422_tx_busy (rs s) \<and>
     rs422_flags (kn t) = rs422_flags (kn s)"

lemma frame_keeps_trans: "frame_keeps s t \<Longrightarrow> frame_keeps t u \<Longrightarrow> frame_keeps s u"
  by (simp add: frame_keeps_def)

lemma note_valid_frame_link:
  assumes "link_ok s"
  shows "frame_keeps s (note_valid_frame hw s)" "link_of (note_valid_frame hw s) = link_of s"
    "g_rs422_rx_frame_count (rs (note_valid_frame hw s)) = g_rs422_rx_frame_count (rs s) + 1"
    "g_rs422_has_valid_frame (cm (note_valid_frame hw s)) = 1"
    "g_rs422_last_valid_frame_tick (cm (note_valid_frame hw s)) = fst (osKernelGetTickCount hw (env s))"
  using assms by (simp_all add: note_valid_frame_def frame_keeps_def link_of_def link_ok_def Let_def)

lemma forward_telemetry_link:
  assumes ok: "link_ok s" and m: "m = g_rs422_received_packet (ro s)"
    and f: "forwarding \<longleftrightarrow> g_rs422_telemetry_forwarding_enabled (rs s) \<noteq> 0"
  shows "frame_keeps s (forward_telemetry s) \<and>
    link_of (forward_telemetry s) = (if pk_msg_id m = MSG_TELEMETRY \<and> forwarding
      then (link_of s)\<lparr>telemetry := take UDP_TELEMETRY_QUEUE_DEPTH (telemetry (link_of s) @ [m])\<rparr> else link_of s) \<and>
    g_rs422_rx_frame_count (rs (forward_telemetry s)) = g_rs422_rx_frame_count (rs s) \<and> cm (forward_telemetry s) = cm s"
proof (cases "pk_msg_id m = MSG_TELEMETRY \<and> forwarding")
  case True
  obtain st mq where put: "osMessageQueuePut (udp_telemetry_queue (qs s)) (Some m) = (st, mq)" by fastforce
  have "queue_ready UDP_TELEMETRY_QUEUE_DEPTH (udp_telemetry_queue (qs s))" using ok by (simp add: link_ok_def)
  note put_ready [OF this put]
  moreover have "udp_telemetry_queue (qs s) \<noteq> None" using ok by (auto simp: link_ok_def queue_ready_def)
  ultimately show ?thesis using True ok put f
    by (auto simp: forward_telemetry_def frame_keeps_def link_of_def link_ok_def Let_def m)
next
  case False
  then show ?thesis using ok f
    by (auto simp: forward_telemetry_def frame_keeps_def link_of_def link_ok_def Let_def m)
qed

lemma note_matching_pong_keeps:
  "rs (note_matching_pong hw s) = rs s" "qs (note_matching_pong hw s) = qs s" "sv (note_matching_pong hw s) = sv s"
  "kn (note_matching_pong hw s) = kn s" "cm (note_matching_pong hw s) = cm s"
  by (simp_all add: note_matching_pong_def diagnostic_now_ms_def)

lemma ethernet_flag_keeps [simp]: "rs422_flags (kn (snd (osThreadFlagsSet EthernetTask f s))) = rs422_flags (kn s)"
  by (simp add: osThreadFlagsSet_def Let_def)

lemma enqueue_response_link:
  assumes ok: "link_ok s" and m: "m = g_rs422_received_packet (ro s)"
  shows "frame_keeps s (enqueue_response s) \<and>
    link_of (enqueue_response s) = (link_of s)\<lparr>responses := take TCP_RESPONSE_QUEUE_DEPTH (responses (link_of s) @ [m])\<rparr> \<and>
    g_rs422_rx_frame_count (rs (enqueue_response s)) = g_rs422_rx_frame_count (rs s) \<and> cm (enqueue_response s) = cm s"
proof -
  obtain st mq where put: "osMessageQueuePut (tcp_response_queue (qs s)) (Some m) = (st, mq)" by fastforce
  have "queue_ready TCP_RESPONSE_QUEUE_DEPTH (tcp_response_queue (qs s))" using ok by (simp add: link_ok_def)
  note put_ready [OF this put]
  moreover have "tcp_response_queue (qs s) \<noteq> None" using ok by (auto simp: link_ok_def queue_ready_def)
  ultimately show ?thesis using ok put
    by (auto simp: enqueue_response_def frame_keeps_def link_of_def link_ok_def Let_def m)
qed

lemma forward_pong_link:
  assumes ok: "link_ok s" and m: "m = g_rs422_received_packet (ro s)" and a: "session \<longleftrightarrow> g_w5500_tcp_session_active (sv s) \<noteq> 0"
  shows "frame_keeps s (forward_pong hw s) \<and>
    link_of (forward_pong hw s) = (if pk_msg_id m = MSG_PONG \<and> session \<and> pending_request (link_of s) = Some (pk_seq m)
      then (link_of s)\<lparr>pending_request := None, responses := take TCP_RESPONSE_QUEUE_DEPTH (responses (link_of s) @ [m])\<rparr>
      else link_of s) \<and>
    g_rs422_rx_frame_count (rs (forward_pong hw s)) = g_rs422_rx_frame_count (rs s) \<and> cm (forward_pong hw s) = cm s"
proof (cases "pk_msg_id m = MSG_PONG \<and> session \<and> pending_request (link_of s) = Some (pk_seq m)")
  case True
  define t where "t = (note_matching_pong hw s)\<lparr>rs := (rs s)\<lparr>g_rs422_tcp_ping_pending := 0,
    g_rs422_forwarded_pong_rx_count := g_rs422_forwarded_pong_rx_count (rs s) + 1\<rparr>\<rparr>"
  have run: "forward_pong hw s = enqueue_response t"
    using True a m by (simp add: forward_pong_def t_def note_matching_pong_keeps link_of_def Let_def split: if_splits)
  have t: "frame_keeps s t" "link_of t = (link_of s)\<lparr>pending_request := None\<rparr>" "ro t = ro s" "cm t = cm s"
    "g_rs422_rx_frame_count (rs t) = g_rs422_rx_frame_count (rs s)" "link_ok t"
    using ok by (simp_all add: t_def frame_keeps_def link_of_def link_ok_def note_matching_pong_keeps)
  from enqueue_response_link [OF t(6), of m] t m True show ?thesis
    by (auto simp: run intro: frame_keeps_trans [OF t(1)])
next
  case False
  then have "forward_pong hw s = s" using a m by (auto simp: forward_pong_def link_of_def split: if_splits)
  with False ok show ?thesis by (auto simp: frame_keeps_def)
qed

lemma rs422_frame_link:
  assumes "link_ok s" and "m = g_rs422_received_packet (ro s)"
    and "session \<longleftrightarrow> g_w5500_tcp_session_active (sv s) \<noteq> 0"
    and "forwarding \<longleftrightarrow> g_rs422_telemetry_forwarding_enabled (rs s) \<noteq> 0"
    and "rs422_frame hw e k s = (matched, t)"
  shows "frame_keeps s t" "link_of t = link_receive session forwarding m (link_of s)"
    "g_rs422_rx_frame_count (rs t) = g_rs422_rx_frame_count (rs s) + 1" "g_rs422_has_valid_frame (cm t) = 1"
    "matched \<longleftrightarrow> k \<noteq> 0 \<and> pk_msg_id m = MSG_PONG \<and> pk_seq m = e"
proof -
  define s1 where "s1 = note_valid_frame hw s"
  define s2 where "s2 = forward_telemetry s1"
  note s1 = note_valid_frame_link [OF assms(1), of hw, folded s1_def]
  have k1: "link_ok s1" "ro s1 = ro s" "sv s1 = sv s"
    "g_rs422_telemetry_forwarding_enabled (rs s1) = g_rs422_telemetry_forwarding_enabled (rs s)"
    using s1(1) by (simp_all add: frame_keeps_def)
  note s2 = forward_telemetry_link [OF k1(1), of m forwarding, folded s2_def]
  have s2': "frame_keeps s1 s2" "cm s2 = cm s1" "g_rs422_rx_frame_count (rs s2) = g_rs422_rx_frame_count (rs s1)"
    using s2 k1 assms(2,4) by simp_all
  have k2: "link_ok s2" "ro s2 = ro s" "sv s2 = sv s" using s2'(1) k1 by (simp_all add: frame_keeps_def)
  have t: "t = forward_pong hw s2" "matched \<longleftrightarrow> matches_pong e k s2"
    using assms(5) by (simp_all add: rs422_frame_def s1_def s2_def Let_def)
  note s3 = forward_pong_link [OF k2(1), of m session hw, folded t(1)]
  have s3': "frame_keeps s2 t" "cm t = cm s2" "g_rs422_rx_frame_count (rs t) = g_rs422_rx_frame_count (rs s2)"
    using s3 k2 assms(2,3) by simp_all
  show "frame_keeps s t" using s1(1) s2'(1) s3'(1) by (metis frame_keeps_trans)
  show "link_of t = link_receive session forwarding m (link_of s)"
    using s1(2) s2 s3 k1 k2 assms(2-4) by (auto simp: link_receive_def)
  show "g_rs422_rx_frame_count (rs t) = g_rs422_rx_frame_count (rs s) + 1" using s1(3) s2'(3) s3'(3) by simp
  show "g_rs422_has_valid_frame (cm t) = 1" using s1(4) s2'(2) s3'(2) by simp
  show "matched \<longleftrightarrow> k \<noteq> 0 \<and> pk_msg_id m = MSG_PONG \<and> pk_seq m = e" using t(2) k2 assms(2) by (simp add: matches_pong_def)
qed

lemma ring_view_ro: "g_rs422_rx_ring (ro t) = g_rs422_rx_ring (ro s) \<Longrightarrow> g_rs422_rx_head (ro t) = g_rs422_rx_head (ro s) \<Longrightarrow>
    g_rs422_rx_tail (ro t) = g_rs422_rx_tail (ro s) \<Longrightarrow> rx_ring_bytes t = rx_ring_bytes s \<and> (rx_ring_inv t \<longleftrightarrow> rx_ring_inv s)"
  by (simp add: rx_ring_bytes_def rx_ring_inv_def)

definition is_pong :: "u16 \<Rightarrow> protocol_packet_t \<Rightarrow> bool" where
  "is_pong e m \<longleftrightarrow> pk_msg_id m = MSG_PONG \<and> pk_seq m = e"

text \<open>What the receiver has done with the packets \<open>ds\<close>, from \<open>s\<close> to \<open>t\<close>.\<close>

definition link_received :: "protocol_packet_t list \<Rightarrow> 'e gw \<Rightarrow> 'e gw \<Rightarrow> bool" where
  "link_received ds s t \<longleftrightarrow> link_ok t \<and> sv t = sv s \<and> rs422_cmd_queue (qs t) = rs422_cmd_queue (qs s) \<and>
     g_rs422_telemetry_forwarding_enabled (rs t) = g_rs422_telemetry_forwarding_enabled (rs s) \<and>
     g_rs422_tx_busy (rs t) = g_rs422_tx_busy (rs s) \<and> rs422_flags (kn t) = rs422_flags (kn s) \<and>
     link_of t = fold (link_receive (g_w5500_tcp_session_active (sv s) \<noteq> 0) (g_rs422_telemetry_forwarding_enabled (rs s) \<noteq> 0))
       ds (link_of s) \<and>
     g_rs422_rx_frame_count (rs t) = g_rs422_rx_frame_count (rs s) + of_nat (length ds) \<and>
     (ds \<noteq> [] \<longrightarrow> g_rs422_has_valid_frame (cm t) = 1)"

lemma link_received_trans:
  assumes "link_received ds s t" "link_received es t u" "es = [] \<longrightarrow> cm u = cm t"
  shows "link_received (ds @ es) s u"
  using assms by (auto simp: link_received_def)

lemma rs422_feed_link:
  assumes ok: "link_ok s" and f: "feed_byte (g_rs422_parser (ro s)) b (g_rs422_received_packet (ro s)) = (ev, p, r)"
    and run: "rs422_feed hw e k b s = (matched, t)"
  shows "link_received (if ev = STREAM_EVENT_FRAME then [r] else []) s t"
    "ro t = (ro s)\<lparr>g_rs422_parser := p, g_rs422_received_packet := r\<rparr>"
    "matched \<longleftrightarrow> ev = STREAM_EVENT_FRAME \<and> k \<noteq> 0 \<and> is_pong e r"
    "ev \<noteq> STREAM_EVENT_FRAME \<Longrightarrow> cm t = cm s"
proof -
  define s1 where "s1 = s\<lparr>ro := (ro s)\<lparr>g_rs422_parser := p, g_rs422_received_packet := r\<rparr>\<rparr>"
  have s1: "link_ok s1" "link_of s1 = link_of s" "r = g_rs422_received_packet (ro s1)" "sv s1 = sv s" "rs s1 = rs s"
    "qs s1 = qs s" "kn s1 = kn s" "cm s1 = cm s" "ro s1 = (ro s)\<lparr>g_rs422_parser := p, g_rs422_received_packet := r\<rparr>"
    using ok by (simp_all add: s1_def link_ok_def link_of_def)
  have step: "(if ev = STREAM_EVENT_FRAME then rs422_frame hw e k s1 else (False, s1)) = (matched, t)"
    using run f by (simp add: rs422_feed_def s1_def Let_def split: if_splits)
  have "link_received (if ev = STREAM_EVENT_FRAME then [r] else []) s t \<and>
      ro t = (ro s)\<lparr>g_rs422_parser := p, g_rs422_received_packet := r\<rparr> \<and>
      (matched \<longleftrightarrow> ev = STREAM_EVENT_FRAME \<and> k \<noteq> 0 \<and> is_pong e r) \<and> (ev \<noteq> STREAM_EVENT_FRAME \<longrightarrow> cm t = cm s)"
  proof (cases "ev = STREAM_EVENT_FRAME")
    case True
    with step have frame: "rs422_frame hw e k s1 = (matched, t)" by simp
    note rs422_frame_link [OF s1(1,3) refl refl frame]
    with True s1 show ?thesis by (simp add: link_received_def frame_keeps_def is_pong_def)
  next
    case False
    with step s1 show ?thesis by (simp add: link_received_def)
  qed
  then show "link_received (if ev = STREAM_EVENT_FRAME then [r] else []) s t"
    "ro t = (ro s)\<lparr>g_rs422_parser := p, g_rs422_received_packet := r\<rparr>"
    "matched \<longleftrightarrow> ev = STREAM_EVENT_FRAME \<and> k \<noteq> 0 \<and> is_pong e r"
    "ev \<noteq> STREAM_EVENT_FRAME \<Longrightarrow> cm t = cm s" by blast+
qed

lemma pop_link:
  assumes "rs422_rx_ring_pop s = (v, t)"
  shows "link_of t = link_of s" "link_ok t = link_ok s" "rs t = rs s" "sv t = sv s" "cm t = cm s" "qs t = qs s" "kn t = kn s"
    "g_rs422_parser (ro t) = g_rs422_parser (ro s)" "g_rs422_received_packet (ro t) = g_rs422_received_packet (ro s)"
  using assms by (auto simp: rs422_rx_ring_pop_def link_of_def link_ok_def Let_def split: if_splits)

lemma rx_loop_link:
  assumes "link_ok s" "rx_ring_inv s" "rx_ring_bytes s = bs"
    "feed_all (g_rs422_parser (ro s)) (g_rs422_received_packet (ro s)) bs = (ds, p', r')"
  shows "\<exists>t. rx_loop hw e k mt s = (if k \<noteq> 0 \<and> (\<exists>d \<in> set ds. is_pong e d) then 1 else mt, t) \<and> link_received ds s t \<and>
    rx_ring_inv t \<and> rx_ring_bytes t = [] \<and> g_rs422_parser (ro t) = p' \<and> g_rs422_received_packet (ro t) = r' \<and>
    (ds = [] \<longrightarrow> cm t = cm s)"
  using assms
proof (induction bs arbitrary: s mt ds)
  case Nil
  then show ?case by (simp add: rx_loop.simps pop_empty link_received_def)
next
  case (Cons b bs)
  obtain v s1 where pop: "rs422_rx_ring_pop s = (v, s1)" by fastforce
  have v: "v = Some b" "rx_ring_inv s1" "rx_ring_bytes s1 = bs" using pop_head [OF Cons.prems(2,3)] pop by simp_all
  note s1 = pop_link [OF pop]
  obtain ev p r where f: "feed_byte (g_rs422_parser (ro s)) b (g_rs422_received_packet (ro s)) = (ev, p, r)"
    by (cases "feed_byte (g_rs422_parser (ro s)) b (g_rs422_received_packet (ro s))")
  obtain es where es: "feed_all p r bs = (es, p', r')" and ds: "ds = (if ev = STREAM_EVENT_FRAME then [r] else []) @ es"
    using Cons.prems(4) f by (auto split: prod.splits)
  obtain matched s2 where feed: "rs422_feed hw e k b s1 = (matched, s2)" by fastforce
  have "link_ok s1" using Cons.prems(1) s1 by simp
  note s2 = rs422_feed_link [OF this _ feed, unfolded s1, OF f]
  have r2: "rx_ring_bytes s2 = bs" "rx_ring_inv s2"
    using ring_view_ro [of s2 s1] s2(2) v s1 by simp_all
  have "link_ok s2" using s2(1) by (simp add: link_received_def)
  from Cons.IH [OF this r2(2,1), of es "if matched then 1 else mt"] s2(2) es obtain t where
    t: "rx_loop hw e k (if matched then 1 else mt) s2 =
        (if k \<noteq> 0 \<and> (\<exists>d \<in> set es. is_pong e d) then 1 else if matched then 1 else mt, t)"
      "link_received es s2 t" "rx_ring_inv t" "rx_ring_bytes t = []" "g_rs422_parser (ro t) = p'"
      "g_rs422_received_packet (ro t) = r'" "es = [] \<longrightarrow> cm t = cm s2" by auto
  have first: "link_received (if ev = STREAM_EVENT_FRAME then [r] else []) s s2" using s2(1) s1 by (simp add: link_received_def)
  have "rx_loop hw e k mt s = rx_loop hw e k (if matched then 1 else mt) s2"
    by (subst rx_loop.simps) (simp add: pop v feed)
  then have "rx_loop hw e k mt s = (if k \<noteq> 0 \<and> (\<exists>d \<in> set ds. is_pong e d) then 1 else mt, t)"
    using t(1) s2(3) by (auto simp: ds)
  moreover have "ds = [] \<longrightarrow> cm t = cm s" using t(7) s2(4) by (auto simp: ds split: if_splits)
  ultimately show ?case using link_received_trans [OF first t(2,7)] t(3-6) by (auto simp: ds)
qed

lemma ring_slice_prefix: "n \<le> length buf \<Longrightarrow> ring_slice buf 0 n = take n buf"
  by (rule nth_equalityI) (simp_all add: ring_slice_def)

definition ready_queue :: "nat \<Rightarrow> protocol_packet_t Queue_t" where
  "ready_queue n = prvInitialiseNewQueue n (replicate n zero_packet)"

lemma ready_queue: "0 < n \<Longrightarrow> queue_ready n (Some (ready_queue n)) \<and> queue_items (ready_queue n) = []"
  using new_queue_inv [of n "replicate n zero_packet" "ready_queue n"]
  by (auto simp: ready_queue_def queue_ready_def osMessageQueueNew_def)

text \<open>A session with a pending request whose PONG has arrived in the ring.\<close>

definition pong_arrived :: "sim gw" where
  "pong_arrived = (boot sim_init)\<lparr>qs := boot_queue_vars\<lparr>tcp_response_queue := Some (ready_queue 8), udp_telemetry_queue := Some (ready_queue 4)\<rparr>,
     sv := boot_service_vars\<lparr>g_w5500_tcp_session_active := 1\<rparr>,
     rs := boot_rs422_vars\<lparr>g_rs422_tcp_ping_pending := 1, g_rs422_tcp_ping_pending_seq := pk_seq sample_pong\<rparr>,
     ro := boot_rs422_objects\<lparr>g_rs422_rx_ring := frame_bytes sample_pong @ replicate (512 - length (frame_bytes sample_pong)) 0,
       g_rs422_rx_head := of_nat (length (frame_bytes sample_pong))\<rparr>\<rparr>"

lemma pong_arrived:
  "link_ok pong_arrived" "rx_ring_inv pong_arrived" "rx_ring_bytes pong_arrived = frame_bytes sample_pong"
  "link_of pong_arrived = \<lparr>pending_request = Some (pk_seq sample_pong), responses = [], telemetry = []\<rparr>"
proof -
  have [simp]: "pk_length sample_pong = 0" by (simp add: sample_pong_def sample_ping_def zero_packet_def)
  show "link_ok pong_arrived" using ready_queue [of 8] ready_queue [of 4] by (simp add: link_ok_def pong_arrived_def)
  show "rx_ring_inv pong_arrived" by (simp add: rx_ring_inv_def pong_arrived_def boot_rs422_objects_def)
  show "rx_ring_bytes pong_arrived = frame_bytes sample_pong"
    by (simp add: rx_ring_bytes_def pong_arrived_def boot_rs422_objects_def ring_slice_prefix)
  show "link_of pong_arrived = \<lparr>pending_request = Some (pk_seq sample_pong), responses = [], telemetry = []\<rparr>"
    using ready_queue [of 8] ready_queue [of 4] by (simp add: link_of_def pong_arrived_def)
qed

lemma pong_arrived_feed:
  obtains r p' r' where "feed_all (g_rs422_parser (ro pong_arrived)) (g_rs422_received_packet (ro pong_arrived))
      (rx_ring_bytes pong_arrived) = ([r], p', r')" "same_message sample_pong r"
proof -
  have "pending stream_parser_init = []" "frame_bytes sample_pong \<noteq> []"
    by (simp_all add: pending_def stream_parser_init_def frame_bytes_def)
  then obtain r p' r' where "feed_all stream_parser_init zero_packet (frame_bytes sample_pong) = ([r], p', r')" "same_message sample_pong r"
    using feed_all_frame [of sample_pong stream_parser_init zero_packet] by auto
  then show ?thesis using that by (simp add: pong_arrived(3)) (simp add: pong_arrived_def boot_rs422_objects_def)
qed

text \<open>C13: the receiver refines the abstract link: it takes every waiting byte out of the ring,
  and of the frames the parser delivers it hands each telemetry packet to the UDP side and each
  PONG for the pending request of the active session to the TCP side, once, unchanged and in
  order, as far as the queues have room; every frame is counted and marks the link alive, and the
  caller learns exactly whether the PONG it waits for has come.\<close>

theorem receiver_refines_link:
  assumes "link_ok s" and "rx_ring_inv s"
    and "feed_all (g_rs422_parser (ro s)) (g_rs422_received_packet (ro s)) (rx_ring_bytes s) = (ds, p', r')"
  shows "\<exists>t. rs422_process_rx_buffer hw e k s = (if k \<noteq> 0 \<and> (\<exists>d \<in> set ds. is_pong e d) then 1 else 0, t) \<and>
    link_of t = fold (link_receive (g_w5500_tcp_session_active (sv s) \<noteq> 0) (g_rs422_telemetry_forwarding_enabled (rs s) \<noteq> 0))
       ds (link_of s) \<and>
    link_ok t \<and> rx_ring_inv t \<and> rx_ring_bytes t = [] \<and> g_rs422_parser (ro t) = p' \<and>
    g_rs422_rx_frame_count (rs t) = g_rs422_rx_frame_count (rs s) + of_nat (length ds) \<and>
    (ds \<noteq> [] \<longrightarrow> g_rs422_has_valid_frame (cm t) = 1)"
  using rx_loop_link [OF assms(1,2) refl assms(3), of hw e k 0]
  by (auto simp: rs422_process_rx_buffer_def link_received_def)

theorem receiver_refines_link_witness:
  "\<exists>t r. rs422_process_rx_buffer sim_hw (pk_seq sample_pong) 1 pong_arrived = (1, t) \<and>
    link_of t = \<lparr>pending_request = None, responses = [r], telemetry = []\<rparr> \<and> same_message sample_pong r"
proof -
  obtain r p' r' where f: "feed_all (g_rs422_parser (ro pong_arrived)) (g_rs422_received_packet (ro pong_arrived))
      (rx_ring_bytes pong_arrived) = ([r], p', r')" "same_message sample_pong r" by (rule pong_arrived_feed)
  then have "pk_seq r = pk_seq sample_pong" "pk_msg_id r = MSG_PONG" by (simp_all add: same_message_def sample_pong_def)
  with receiver_refines_link [OF pong_arrived(1,2) f(1), of sim_hw "pk_seq sample_pong" 1] f(2) show ?thesis
    by (auto simp: pong_arrived(4) link_receive_def is_pong_def) (simp add: pong_arrived_def)
qed

end
