(* ===== verification/GwUdp.thy ===== *)
theory GwUdp
  imports GwTcp
begin

text \<open>
  The UDP side of the gateway (socket 1): opening the socket, sending a frame, the gateway's own
  telemetry (compiled in but disabled by its configuration constant), and forwarding the remote
  node's telemetry. Frames are always sent from \<open>g_w5500_udp_tx_frame\<close>; the forwarded packet is
  always \<open>g_udp_forward_packet\<close>.
\<close>

subsection \<open>Sending\<close>

definition udp_tx_free_look :: "'e hw \<Rightarrow> u16 \<Rightarrow> 'e gw \<Rightarrow> HAL_StatusTypeDef option \<times> 'e gw" where
  "udp_tx_free_look hw required_size s =
     (let (status, free_size, e) = w5500_socket1_read_stable_u16 hw W5500_SOCKET1_TX_FSR_ADDRESS 0 (env s);
          s = s\<lparr>env := e\<rparr>
      in (if status \<noteq> HAL_OK then Some status else if free_size \<ge> required_size then Some HAL_OK else None, s))"

definition w5500_udp_wait_for_tx_free :: "'e hw \<Rightarrow> u16 \<Rightarrow> 'e gw \<Rightarrow> (HAL_StatusTypeDef \<times> 'e gw) option" where
  "w5500_udp_wait_for_tx_free hw required_size s =
     poll_until hw (udp_tx_free_look hw required_size) W5500_UDP_TX_FREE_TIMEOUT_MS W5500_UDP_IO_POLL_MS s"

definition udp_send_result_look :: "'e hw \<Rightarrow> 'e gw \<Rightarrow> HAL_StatusTypeDef option \<times> 'e gw" where
  "udp_send_result_look hw s =
     (let (status, socket_interrupt, e) = w5500_socket1_read_register hw W5500_SOCKET1_IR_ADDRESS 0 (env s);
          s = s\<lparr>env := e\<rparr>
      in if status \<noteq> HAL_OK then (Some status, s)
         else
           let send_result = socket_interrupt AND (W5500_SOCKET1_IR_SEND_OK OR W5500_SOCKET1_IR_TIMEOUT)
           in if send_result \<noteq> 0 then
                let (status, e) = w5500_socket1_write_registers hw W5500_SOCKET1_IR_ADDRESS [send_result] 1 (env s);
                    s = s\<lparr>env := e\<rparr>
                in (if status \<noteq> HAL_OK then Some status
                    else if send_result AND W5500_SOCKET1_IR_TIMEOUT \<noteq> 0 then Some HAL_TIMEOUT
                    else Some HAL_OK, s)
              else (None, s))"

definition w5500_udp_wait_for_send_result :: "'e hw \<Rightarrow> 'e gw \<Rightarrow> (HAL_StatusTypeDef \<times> 'e gw) option" where
  "w5500_udp_wait_for_send_result hw s =
     poll_until hw (udp_send_result_look hw) W5500_UDP_SEND_TIMEOUT_MS W5500_UDP_IO_POLL_MS s"

definition w5500_udp_send_frame :: "'e hw \<Rightarrow> u16 \<Rightarrow> 'e gw \<Rightarrow> (HAL_StatusTypeDef \<times> 'e gw) option" where
  "w5500_udp_send_frame hw frame_length s =
     (if frame_length = 0 \<or> unat frame_length > PROTOCOL_MAX_FRAME_SIZE then Some (HAL_ERROR, s)
      else do {
        (status, s) \<leftarrow> w5500_udp_wait_for_tx_free hw frame_length s;
        if status \<noteq> HAL_OK then Some (status, s)
        else
          let (status, tx_write_pointer, e) = w5500_socket1_read_u16 hw W5500_SOCKET1_TX_WR_ADDRESS 0 (env s);
              s = s\<lparr>env := e\<rparr>
          in if status \<noteq> HAL_OK then Some (status, s)
          else
            let (status, discard, e) = w5500_socket1_write_tx_buffer hw tx_write_pointer
                  (g_w5500_udp_tx_frame (uo s)) (unat frame_length) (g_w5500_udp_spi_discard (uo s)) (env s);
                s = s\<lparr>env := e, uo := (uo s)\<lparr>g_w5500_udp_spi_discard := discard\<rparr>\<rparr>
            in if status \<noteq> HAL_OK then Some (status, s)
            else
              let new_tx_write_pointer = tx_write_pointer + frame_length;
                  (status, e) = w5500_socket1_write_registers hw W5500_SOCKET1_TX_WR_ADDRESS
                    [hi8 new_tx_write_pointer, lo8 new_tx_write_pointer] 2 (env s);
                  s = s\<lparr>env := e\<rparr>
              in if status \<noteq> HAL_OK then Some (status, s)
              else
                let stale_send_bits = W5500_SOCKET1_IR_SEND_OK OR W5500_SOCKET1_IR_TIMEOUT;
                    (status, e) = w5500_socket1_write_registers hw W5500_SOCKET1_IR_ADDRESS [stale_send_bits] 1 (env s);
                    s = s\<lparr>env := e\<rparr>
                in if status \<noteq> HAL_OK then Some (status, s)
                else do {
                  (status, s) \<leftarrow> w5500_socket1_execute_command hw W5500_SOCKET1_SEND_COMMAND s;
                  if status \<noteq> HAL_OK then Some (status, s)
                  else w5500_udp_wait_for_send_result hw s
                }
      })"

subsection \<open>The socket\<close>

definition w5500_start_udp_socket :: "'e hw \<Rightarrow> 'e gw \<Rightarrow> (HAL_StatusTypeDef \<times> 'e gw) option" where
  "w5500_start_udp_socket hw s =
     (let local_port = [hi8 W5500_UDP_LOCAL_PORT, lo8 W5500_UDP_LOCAL_PORT];
          destination_port = [hi8 W5500_UDP_DESTINATION_PORT, lo8 W5500_UDP_DESTINATION_PORT];
          (status, e) = w5500_socket1_write_registers hw W5500_SOCKET1_MR_ADDRESS [W5500_SOCKET1_UDP_MODE] 1 (env s);
          (status, e) = (if status = HAL_OK
            then w5500_socket1_write_registers hw W5500_SOCKET1_PORT_ADDRESS local_port 2 e else (status, e));
          s = s\<lparr>env := e\<rparr>
      in do {
        (status, s) \<leftarrow> (if status = HAL_OK then w5500_socket1_execute_command hw W5500_SOCKET1_OPEN_COMMAND s else Some (status, s));
        (status, s) \<leftarrow> (if status = HAL_OK
          then w5500_wait_for_socket1_status hw W5500_SOCKET1_STATUS_UDP W5500_SOCKET_STATE_TIMEOUT_MS s else Some (status, s));
        let (status, e) = (if status = HAL_OK
          then w5500_socket1_write_registers hw W5500_SOCKET1_DIPR_ADDRESS g_w5500_udp_destination_ip 4 (env s)
          else (status, env s));
        let (status, e) = (if status = HAL_OK
          then w5500_socket1_write_registers hw W5500_SOCKET1_DPORT_ADDRESS destination_port 2 e else (status, e));
        Some (status, s\<lparr>env := e\<rparr>)
      })"

subsection \<open>Telemetry\<close>

definition udp_tx_failed :: "int \<Rightarrow> udp_vars \<Rightarrow> udp_vars" where
  "udp_tx_failed status u =
     u\<lparr>g_w5500_udp_last_tx_status := status, g_w5500_udp_tx_error_count := g_w5500_udp_tx_error_count u + 1\<rparr>"

definition udp_send_status :: "HAL_StatusTypeDef \<Rightarrow> udp_vars \<Rightarrow> udp_vars" where
  "udp_send_status status u =
     u\<lparr>g_w5500_udp_last_tx_status := hal_status_value status, g_w5500_udp_socket1_spi_status := hal_status_value status\<rparr>"

definition udp_count_tx :: "nat \<Rightarrow> u16 \<Rightarrow> udp_vars \<Rightarrow> udp_vars" where
  "udp_count_tx encoded_length seq u =
     u\<lparr>g_w5500_udp_tx_packet_count := g_w5500_udp_tx_packet_count u + 1,
       g_w5500_udp_tx_bytes := g_w5500_udp_tx_bytes u + of_nat encoded_length,
       g_w5500_udp_last_tx_seq := seq\<rparr>"

definition w5500_udp_send_telemetry :: "'e hw \<Rightarrow> 'e gw \<Rightarrow> (unit \<times> 'e gw) option" where
  "w5500_udp_send_telemetry hw s =
     (let sequence = g_w5500_udp_next_seq (udp s);
          (uptime_ms, s) = w5500_kernel_uptime_ms hw s;
          packet = g_udp_telemetry_packet (uo s);
          packet = packet\<lparr>pk_version := PROTOCOL_VERSION, pk_msg_id := MSG_TELEMETRY, pk_seq := sequence,
            pk_length := of_nat W5500_UDP_PAYLOAD_LENGTH,
            pk_payload := (pk_payload packet)[0 := ucast (drop_bit 24 uptime_ms), 1 := ucast (drop_bit 16 uptime_ms),
              2 := ucast (drop_bit 8 uptime_ms), 3 := ucast (uptime_ms AND 0xFF), 4 := 0, 5 := 0]\<rparr>;
          (result, frame, encoded) = protocol_encode (Some packet) (Some (g_w5500_udp_tx_frame (uo s)))
            PROTOCOL_MAX_FRAME_SIZE (Some 0);
          encoded_length = the encoded;
          s = s\<lparr>uo := (uo s)\<lparr>g_udp_telemetry_packet := packet, g_w5500_udp_tx_frame := the frame\<rparr>\<rparr>
      in if result \<noteq> PROTO_OK \<or> encoded_length = 0 \<or> encoded_length > 65535
         then Some ((), s\<lparr>udp := udp_tx_failed (protocol_result_value result) (udp s)\<rparr>)
         else do {
           (status, s) \<leftarrow> w5500_udp_send_frame hw (of_nat encoded_length) s;
           let s = s\<lparr>udp := udp_send_status status (udp s)\<rparr>;
           if status = HAL_OK
           then Some ((), s\<lparr>udp := (udp_count_tx encoded_length sequence (udp s))\<lparr>g_w5500_udp_next_seq := sequence + 1\<rparr>\<rparr>)
           else Some ((), s\<lparr>udp := (udp s)\<lparr>g_w5500_udp_tx_error_count := g_w5500_udp_tx_error_count (udp s) + 1\<rparr>\<rparr>)
         })"

definition w5500_udp_forward_packet :: "'e hw \<Rightarrow> 'e gw \<Rightarrow> (HAL_StatusTypeDef \<times> 'e gw) option" where
  "w5500_udp_forward_packet hw s =
     (if pk_msg_id (g_udp_forward_packet (uo s)) \<noteq> MSG_TELEMETRY
      then Some (HAL_ERROR, s\<lparr>udp := udp_tx_failed (hal_status_value HAL_ERROR) (udp s)\<rparr>)
      else
        let (result, frame, encoded) = protocol_encode (Some (g_udp_forward_packet (uo s)))
              (Some (g_w5500_udp_tx_frame (uo s))) PROTOCOL_MAX_FRAME_SIZE (Some 0);
            encoded_length = the encoded;
            s = s\<lparr>uo := (uo s)\<lparr>g_w5500_udp_tx_frame := the frame\<rparr>\<rparr>
        in if result \<noteq> PROTO_OK \<or> encoded_length = 0 \<or> encoded_length > 65535
           then Some (HAL_ERROR, s\<lparr>udp := udp_tx_failed (protocol_result_value result) (udp s)\<rparr>)
           else do {
             (status, s) \<leftarrow> w5500_udp_send_frame hw (of_nat encoded_length) s;
             let s = s\<lparr>udp := udp_send_status status (udp s)\<rparr>;
             if status = HAL_OK
             then let s = s\<lparr>udp := udp_count_tx encoded_length (pk_seq (g_udp_forward_packet (uo s))) (udp s)\<rparr>
                  in Some (status, ethernet_diag_record_udp_tx_success hw s)
             else Some (status, s\<lparr>udp := (udp s)\<lparr>g_w5500_udp_tx_error_count := g_w5500_udp_tx_error_count (udp s) + 1\<rparr>\<rparr>)
           })"

subsection \<open>The UDP sender\<close>

definition udp_read_pointer :: "'e hw \<Rightarrow> 'e gw \<Rightarrow> HAL_StatusTypeDef \<times> u16 \<times> 'e gw" where
  "udp_read_pointer hw s = (let (st, p, e) = w5500_socket1_read_u16 hw 0x24 0 (env s) in (st, p, s\<lparr>env := e\<rparr>))"

definition udp_put_frame :: "'e hw \<Rightarrow> u16 \<Rightarrow> u16 \<Rightarrow> 'e gw \<Rightarrow> HAL_StatusTypeDef \<times> 'e gw" where
  "udp_put_frame hw p n s =
     (let (st, d, e) = w5500_socket1_write_tx_buffer hw p (g_w5500_udp_tx_frame (uo s)) (unat n) (g_w5500_udp_spi_discard (uo s)) (env s)
      in (st, s\<lparr>env := e, uo := (uo s)\<lparr>g_w5500_udp_spi_discard := d\<rparr>\<rparr>))"

definition udp_put_registers :: "'e hw \<Rightarrow> u16 \<Rightarrow> u8 list \<Rightarrow> 'e gw \<Rightarrow> HAL_StatusTypeDef \<times> 'e gw" where
  "udp_put_registers hw a d s = (let (st, e) = w5500_socket1_write_registers hw a d (length d) (env s) in (st, s\<lparr>env := e\<rparr>))"

lemma udp_tx_free_quiet:
  assumes "eth_bus hw log" "r = None \<or> r = Some HAL_OK" "udp_tx_free_look hw n s = (r, t)"
  shows "wrote log [] (env s) (env t) \<and> same_eth s t"
  using assms(2,3) by (cases "w5500_socket1_read_stable_u16 hw 0x20 0 (env s)")
    (auto simp: udp_tx_free_look_def Let_def dest: stable_read_wrote(2) [OF assms(1)] split: if_splits)

lemma udp_send_result_bus:
  assumes bus: "eth_bus hw log"
  shows "udp_send_result_look hw s = (None, t) \<Longrightarrow> wrote log [] (env s) (env t) \<and> same_eth s t"
    and "udp_send_result_look hw s = (Some HAL_OK, t) \<Longrightarrow> wrote log [[0, 2, 0x2c, 0x10]] (env s) (env t) \<and> same_eth s t"
proof -
  obtain st i e where r: "w5500_socket1_read_register hw 2 0 (env s) = (st, i, e)"
    by (cases "w5500_socket1_read_register hw 2 0 (env s)")
  obtain st1 e1 where w: "w5500_socket1_write_registers hw 2 [i AND 0x18] 1 e = (st1, e1)" by fastforce
  have q: "st = HAL_OK \<Longrightarrow> wrote log [] (env s) e" using socket_read_wrote(2) [OF bus] r by simp
  note defs = udp_send_result_look_def r w Let_def same_eth_def
  show "wrote log [] (env s) (env t) \<and> same_eth s t" if "udp_send_result_look hw s = (None, t)"
    using that q by (auto simp: defs split: if_splits prod.splits)
  show "wrote log [[0, 2, 0x2c, 0x10]] (env s) (env t) \<and> same_eth s t" if "udp_send_result_look hw s = (Some HAL_OK, t)"
  proof -
    have ok: "st = HAL_OK" "st1 = HAL_OK" "t = s\<lparr>env := e1\<rparr>" "i AND 0x18 = 0x10"
      using that w send_result_bits [of i] by (auto simp: defs split: if_splits)
    have "wrote log [] (env s) e" using q ok by simp
    moreover have "wrote log [[0, 2, 0x2c, 0x10]] e e1"
      using socket_write_wrote(2) [OF bus, of 1 2 "[0x10]" e e1] w ok by (simp add: hi8_def lo8_def)
    ultimately show ?thesis using ok by (auto simp: same_eth_def elim: wrote_trans)
  qed
qed

lemma udp_look_time:
  assumes "clock_ok hw now G B"
  shows "within now G (24 * B) (env s) (env (snd (udp_tx_free_look hw n s)))"
    and "within now G (6 * B) (env s) (env (snd (udp_send_result_look hw s)))"
proof -
  show "within now G (24 * B) (env s) (env (snd (udp_tx_free_look hw n s)))"
    by (cases "w5500_socket1_read_stable_u16 hw 0x20 0 (env s)")
      (auto simp: udp_tx_free_look_def Let_def dest: stable_u16_time(2) [OF assms])
  obtain st i e where r: "w5500_socket1_read_register hw 2 0 (env s) = (st, i, e)"
    by (cases "w5500_socket1_read_register hw 2 0 (env s)")
  obtain st1 e1 where w: "w5500_socket1_write_registers hw 2 [i AND 0x18] 1 e = (st1, e1)" by fastforce
  have "within now G (3 * B) (env s) e" "within now G (3 * B) e e1"
    using register_time(3) [OF assms r] register_time(5) [OF assms w] .
  with r w show "within now G (6 * B) (env s) (env (snd (udp_send_result_look hw s)))"
    by (auto simp: udp_send_result_look_def Let_def within_def)
qed

lemma udp_look_same:
  "eth_same s (snd (udp_tx_free_look hw n s))" "eth_same s (snd (udp_send_result_look hw s))"
  by (simp_all add: udp_tx_free_look_def udp_send_result_look_def Let_def split: prod.split)

interpretation udp_sender: frame_sender "0x2c" "0x34" "\<lambda>s. g_w5500_udp_tx_frame (uo s)" w5500_udp_wait_for_tx_free
  udp_read_pointer udp_put_frame udp_put_registers w5500_socket1_execute_command w5500_udp_wait_for_send_result
  w5500_udp_send_frame
proof
  fix hw :: "'e hw" and n s
  show "w5500_udp_send_frame hw n s =
      (if n = 0 \<or> unat n > 266 then Some (HAL_ERROR, s)
       else do {
         (st, s) \<leftarrow> w5500_udp_wait_for_tx_free hw n s;
         if st \<noteq> HAL_OK then Some (st, s)
         else let (st, p, s) = udp_read_pointer hw s in if st \<noteq> HAL_OK then Some (st, s)
         else let (st, s) = udp_put_frame hw p n s in if st \<noteq> HAL_OK then Some (st, s)
         else let (st, s) = udp_put_registers hw 0x24 [hi8 (p + n), lo8 (p + n)] s in if st \<noteq> HAL_OK then Some (st, s)
         else let (st, s) = udp_put_registers hw 0x02 [0x18] s in if st \<noteq> HAL_OK then Some (st, s)
         else do {
           (st, s) \<leftarrow> w5500_socket1_execute_command hw 0x20 s;
           if st \<noteq> HAL_OK then Some (st, s) else w5500_udp_wait_for_send_result hw s
         }
       })"
    by (simp add: w5500_udp_send_frame_def udp_read_pointer_def udp_put_frame_def udp_put_registers_def Let_def
        numeral_2_eq_2 case_prod_beta cong: if_cong)
next
  fix hw :: "'e hw" and log n s s'
  assume bus: "eth_bus hw log" and run: "w5500_udp_wait_for_tx_free hw n s = Some (HAL_OK, s')"
  have "wrote log [] (env s) (env s') \<and> same_eth s s'"
    by (rule poll_until_quiet [OF bus run [unfolded w5500_udp_wait_for_tx_free_def]]) (rule udp_tx_free_quiet [OF bus]; assumption)
  then show "wrote log [] (env s) (env s') \<and> g_w5500_udp_tx_frame (uo s') = g_w5500_udp_tx_frame (uo s)"
    by (simp add: same_eth_def)
next
  fix hw :: "'e hw" and log p s s'
  assume "eth_bus hw log" "udp_read_pointer hw s = (HAL_OK, p, s')"
  then show "wrote log [] (env s) (env s') \<and> g_w5500_udp_tx_frame (uo s') = g_w5500_udp_tx_frame (uo s)"
    by (auto simp: udp_read_pointer_def Let_def dest: socket_read_wrote(4) split: prod.splits)
next
  fix hw :: "'e hw" and log p n s s'
  assume "eth_bus hw log" "udp_put_frame hw p n s = (HAL_OK, s')" "0 < unat n" "unat n \<le> 266"
    "unat n \<le> length (g_w5500_udp_tx_frame (uo s))"
  then show "wrote log [[hi8 p, lo8 p, 0x34] @ take (unat n) (g_w5500_udp_tx_frame (uo s))] (env s) (env s')"
    by (auto simp: udp_put_frame_def Let_def dest: tx_buffer_wrote(2) split: prod.splits)
next
  fix hw :: "'e hw" and log and d :: "u8 list" and a s s'
  assume "eth_bus hw log" "0 < length d" "length d \<le> 2" "udp_put_registers hw a d s = (HAL_OK, s')"
  then show "wrote log [[hi8 a, lo8 a, 0x2c] @ d] (env s) (env s')"
    by (auto simp: udp_put_registers_def Let_def dest: socket_write_wrote(2) split: prod.splits)
next
  fix hw :: "'e hw" and log c s s'
  assume "eth_bus hw log" "w5500_socket1_execute_command hw c s = Some (HAL_OK, s')"
  then show "wrote log [[0, 1, 0x2c, c]] (env s) (env s')" using execute_command_wrote(2) by blast
next
  fix hw :: "'e hw" and log s s'
  assume bus: "eth_bus hw log" and run: "w5500_udp_wait_for_send_result hw s = Some (HAL_OK, s')"
  then show "wrote log [[0, 2, 0x2c, 0x10]] (env s) (env s')"
    using poll_until_wrote [OF bus run [unfolded w5500_udp_wait_for_send_result_def] udp_send_result_bus [OF bus]] by blast
next
  fix hw :: "'e hw" and n s st s'
  assume "eth_private hw" "w5500_udp_wait_for_tx_free hw n s = Some (st, s')"
  then show "eth_same s s'" unfolding w5500_udp_wait_for_tx_free_def by (rule poll_until_same) (rule udp_look_same)
next
  fix hw :: "'e hw" and s st p s'
  assume "udp_read_pointer hw s = (st, p, s')"
  then show "eth_same s s'" by (auto simp: udp_read_pointer_def split: prod.splits)
next
  fix hw :: "'e hw" and p n s st s'
  assume "udp_put_frame hw p n s = (st, s')"
  then show "eth_same s s'" by (auto simp: udp_put_frame_def eth_same_scratch split: prod.splits)
next
  fix hw :: "'e hw" and a d s st s'
  assume "udp_put_registers hw a d s = (st, s')"
  then show "eth_same s s'" by (auto simp: udp_put_registers_def split: prod.splits)
next
  fix hw :: "'e hw" and c s st s'
  assume "eth_private hw" "w5500_socket1_execute_command hw c s = Some (st, s')"
  then show "eth_same s s'" by (rule execute_command_same)
next
  fix hw :: "'e hw" and s st s'
  assume "eth_private hw" "w5500_udp_wait_for_send_result hw s = Some (st, s')"
  then show "eth_same s s'" unfolding w5500_udp_wait_for_send_result_def by (rule poll_until_same) (rule udp_look_same)
next
  fix hw :: "'e hw" and now G B n s
  assume clk: "clocked hw now G B"
  then show "returns (\<lambda>st s'. within now G (1010 + 27 * B) (env s) (env s')) (w5500_udp_wait_for_tx_free hw n s)"
    by (auto simp: clocked_def w5500_udp_wait_for_tx_free_def intro!: poll_second_returns [where B = B] udp_look_time(1))
next
  fix hw :: "'e hw" and now G B st p s s'
  assume "clocked hw now G B" "udp_read_pointer hw s = (st, p, s')"
  then show "within now G (3 * B) (env s) (env s')"
    by (auto simp: clocked_def udp_read_pointer_def Let_def dest: register_time(7) split: prod.splits)
next
  fix hw :: "'e hw" and now G B n p st s s'
  assume "clocked hw now G B" "unat n \<le> 266" "udp_put_frame hw p n s = (st, s')"
  then show "within now G (8 * B) (env s) (env s')"
    by (auto simp: clocked_def udp_put_frame_def Let_def dest: tx_buffer_time(2) split: prod.splits)
next
  fix hw :: "'e hw" and now G B a d st s s'
  assume "clocked hw now G B" "udp_put_registers hw a d s = (st, s')"
  then show "within now G (3 * B) (env s) (env s')"
    by (auto simp: clocked_def udp_put_registers_def Let_def dest: register_time(5) split: prod.splits)
next
  fix hw :: "'e hw" and now G B c s
  assume "clocked hw now G B"
  then show "returns (\<lambda>st s'. within now G (101 + 9 * B) (env s) (env s')) (w5500_socket1_execute_command hw c s)"
    by (auto simp: clocked_def intro: execute_command_returns)
next
  fix hw :: "'e hw" and now G B s
  assume clk: "clocked hw now G B"
  then show "returns (\<lambda>st s'. within now G (1010 + 9 * B) (env s) (env s')) (w5500_udp_wait_for_send_result hw s)"
    by (auto simp: clocked_def w5500_udp_wait_for_send_result_def intro!: poll_second_returns [where B = B] udp_look_time(2))
qed


subsection \<open>Properties\<close>

lemma udp_diag_frame:
  "udp (ethernet_diag_record_udp_tx_success hw s) = udp s"
  "env (ethernet_diag_record_udp_tx_success hw s) = env s \<or>
   env (ethernet_diag_record_udp_tx_success hw s) = env (snd (get_tick hw s))"
  by (auto simp: ethernet_diag_record_udp_tx_success_def Let_def)

text \<open>A telemetry packet is forwarded as exactly one datagram holding its encoded frame: on
  success the chip was given the frame, the advanced write pointer and the SEND command, in this
  order, and bytes, packets and sequence number are counted; on failure only the error count grows.
  A packet that is not telemetry is refused without touching the chip. It always returns.\<close>

theorem udp_telemetry_sent:
  assumes bus: "eth_bus hw log" and clk: "clocked hw now G B"
    and ok: "packet_ok (g_udp_forward_packet (uo s))" and size: "length (g_w5500_udp_tx_frame (uo s)) = PROTOCOL_MAX_FRAME_SIZE"
  shows "\<exists>st s'. w5500_udp_forward_packet hw s = Some (st, s') \<and> within now G (2121 + 63 * B) (env s) (env s') \<and>
    g_w5500_udp_last_tx_status (udp s') = hal_status_value st \<and>
    (pk_msg_id (g_udp_forward_packet (uo s)) \<noteq> MSG_TELEMETRY \<longrightarrow> st = HAL_ERROR \<and> env s' = env s) \<and>
    (if st = HAL_OK then
       (\<exists>q. wrote log (transmission 0x2c 0x34 q (frame_bytes (g_udp_forward_packet (uo s)))) (env s) (env s')) \<and>
       g_w5500_udp_tx_error_count (udp s') = g_w5500_udp_tx_error_count (udp s) \<and>
       g_w5500_udp_tx_packet_count (udp s') = g_w5500_udp_tx_packet_count (udp s) + 1 \<and>
       g_w5500_udp_tx_bytes (udp s') = g_w5500_udp_tx_bytes (udp s) + of_nat (length (frame_bytes (g_udp_forward_packet (uo s)))) \<and>
       g_w5500_udp_last_tx_seq (udp s') = pk_seq (g_udp_forward_packet (uo s))
     else
       g_w5500_udp_tx_error_count (udp s') = g_w5500_udp_tx_error_count (udp s) + 1 \<and>
       g_w5500_udp_tx_packet_count (udp s') = g_w5500_udp_tx_packet_count (udp s) \<and>
       g_w5500_udp_tx_bytes (udp s') = g_w5500_udp_tx_bytes (udp s))"
proof (cases "pk_msg_id (g_udp_forward_packet (uo s)) = MSG_TELEMETRY")
  case False
  then show ?thesis by (simp add: w5500_udp_forward_packet_def udp_tx_failed_def)
next
  case True
  define p where "p = g_udp_forward_packet (uo s)"
  let ?n = "10 + unat (pk_length p)"
  have okp: "packet_ok p" using ok by (simp add: p_def)
  have n: "?n \<le> 266" using okp by (simp add: packet_ok_def)
  define s1 where "s1 = s\<lparr>uo := (uo s)\<lparr>g_w5500_udp_tx_frame := frame_bytes p @ drop ?n (g_w5500_udp_tx_frame (uo s))\<rparr>\<rparr>"
  have enc: "protocol_encode (Some p) (Some (g_w5500_udp_tx_frame (uo s))) 266 (Some 0) =
      (PROTO_OK, Some (frame_bytes p @ drop ?n (g_w5500_udp_tx_frame (uo s))), Some ?n)"
    using encode_ok [OF okp, of 266 "g_w5500_udp_tx_frame (uo s)" 0] size n by simp
  have fr: "take ?n (g_w5500_udp_tx_frame (uo s1)) = frame_bytes p" using okp by (simp add: s1_def)
  obtain st s2 where send: "w5500_udp_send_frame hw (of_nat ?n) s1 = Some (st, s2)"
    "within now G (2121 + 62 * B) (env s1) (env s2)" "eth_same s1 s2"
    "st = HAL_OK \<Longrightarrow> \<exists>q. wrote log (transmission 0x2c 0x34 q (frame_bytes p)) (env s1) (env s2)"
    by (rule udp_sender.send_whole_frame [OF bus clk okp fr]) blast
  have keep: "udp s2 = udp s" "g_udp_forward_packet (uo s2) = p" "env s1 = env s"
    using send(3) by (auto simp: eth_same_def s1_def p_def)
  define s' where "s' = (let s = s2\<lparr>udp := udp_send_status st (udp s2)\<rparr> in
    if st = HAL_OK then ethernet_diag_record_udp_tx_success hw (s\<lparr>udp := udp_count_tx ?n (pk_seq p) (udp s)\<rparr>)
    else s\<lparr>udp := (udp s)\<lparr>g_w5500_udp_tx_error_count := g_w5500_udp_tx_error_count (udp s) + 1\<rparr>\<rparr>)"
  have run: "w5500_udp_forward_packet hw s = Some (st, s')"
    using True n send(1) keep(2) enc unfolding w5500_udp_forward_packet_def p_def [symmetric]
    by (simp add: s1_def [symmetric] s'_def Let_def)
  have e': "env s' = env s2 \<or> env s' = env (snd (get_tick hw s2))"
    using udp_diag_frame(2) [of hw "s2\<lparr>udp := x\<rparr>" for x] by (auto simp: s'_def Let_def)
  have "within now G (2121 + 63 * B) (env s) (env s')"
    using send(2) tick_frame(2) [OF e' clk] keep(3) by (auto simp: within_def)
  moreover have "\<exists>q. wrote log (transmission 0x2c 0x34 q (frame_bytes p)) (env s) (env s')" if "st = HAL_OK"
    using send(4) [OF that] tick_frame(1) [OF e' bus] keep(3) by (auto simp: wrote_def)
  moreover have "length (frame_bytes p) = ?n" using okp by simp
  ultimately show ?thesis using True
    unfolding p_def [symmetric] by (intro exI [of _ st] exI [of _ s'])
      (auto simp: run s'_def keep udp_diag_frame udp_send_status_def udp_count_tx_def Let_def)
qed

definition telemetry_state :: "sim gw" where
  "telemetry_state = (boot sim_init)\<lparr>uo := (uo (boot sim_init))\<lparr>g_udp_forward_packet := sample_ping\<lparr>pk_msg_id := MSG_TELEMETRY\<rparr>\<rparr>\<rparr>"

theorem udp_telemetry_sent_witness:
  "\<exists>st s'. w5500_udp_forward_packet sim_hw telemetry_state = Some (st, s') \<and> sim_time (env s') \<le> 2184 \<and>
    g_w5500_udp_last_tx_status (udp s') = hal_status_value st"
proof -
  have "packet_ok (sample_ping\<lparr>pk_msg_id := MSG_TELEMETRY\<rparr>)"
    using sample_ping_ok by (simp add: packet_ok_def packet_wf_def)
  then have s: "packet_ok (g_udp_forward_packet (uo telemetry_state))" "length (g_w5500_udp_tx_frame (uo telemetry_state)) = 266"
    "env telemetry_state = sim_init"
    by (simp_all add: telemetry_state_def boot_def boot_udp_objects_def)
  then show ?thesis
    using udp_telemetry_sent [OF sim_eth_bus sim_clocked, of telemetry_state]
    by (auto simp: within_def ticks_of_def sim_init_def)
qed

end
