(* ===== verification/GwEthernet.thy ===== *)
theory GwEthernet
  imports GwUdp
begin

text \<open>
  The Ethernet task: start-up of the chip and its two sockets, and the service loop with its
  100 ms control part (link state, socket life cycle, recovery) and its 1 ms data part (socket
  state, TCP receive and response, UDP telemetry, timing statistics). The local variables of the
  task that live across iterations are the record \<open>eth_locals\<close>; one iteration of the loop is
  \<open>StartEthernetTask_cycle\<close>.
\<close>

record eth_locals =
  tcp_lifecycle_restart_pending :: u32
  phy_period_ticks :: u32
  data_service_period_ticks :: u32
  tcp_transient_timeout_ticks :: u32
  tcp_recovery_retry_ticks :: u32
  next_phy_tick :: u32
  next_data_service_tick :: u32
  next_tcp_restart_tick :: u32
  socket_state_enter_tick :: u32
  phy_link_state_initialized :: u32
  phy_link_was_established :: u32
  previous_link_up :: u32
  socket_state_initialized :: u32
  graceful_disconnect_pending :: u32
  pending_ethernet_events :: u32
  previous_socket_status :: u8

subsection \<open>Start-up\<close>

definition eth_reset_tcp :: "tcp_vars \<Rightarrow> tcp_vars" where
  "eth_reset_tcp t = t\<lparr>g_w5500_tcp_init_ok := 0, g_w5500_tcp_listen_ok := 0,
     g_w5500_socket0_status := W5500_SOCKET0_STATUS_CLOSED, g_w5500_socket0_spi_status := -1,
     g_w5500_tcp_rx_bytes := 0, g_w5500_tcp_tx_bytes := 0, g_w5500_tcp_valid_frame_count := 0,
     g_w5500_tcp_ping_count := 0, g_w5500_tcp_pong_count := 0, g_w5500_tcp_last_rx_msg_id := 0,
     g_w5500_tcp_last_rx_seq := 0, g_w5500_tcp_last_tx_msg_id := 0, g_w5500_tcp_last_tx_seq := 0,
     g_w5500_tcp_rx_error_count := 0, g_w5500_tcp_tx_error_count := 0, g_w5500_tcp_last_rx_status := -1,
     g_w5500_tcp_last_tx_status := -1, g_w5500_tcp_recovery_pending := 0, g_w5500_tcp_recovery_attempt_count := 0,
     g_w5500_tcp_recovery_success_count := 0, g_w5500_tcp_recovery_fail_count := 0\<rparr>"

definition eth_reset_service :: "service_vars \<Rightarrow> service_vars" where
  "eth_reset_service v = v\<lparr>g_w5500_tcp_session_active := 0, g_w5500_tcp_stale_response_drop_count := 0,
     g_w5500_data_service_cycle_count := 0, g_w5500_data_deadline_miss_count := 0, g_w5500_data_overrun_count := 0,
     g_w5500_data_max_start_late_ticks := 0, g_w5500_data_max_exec_cycles := 0, g_w5500_data_max_exec_us := 0,
     g_w5500_data_cycle_counter_available := 0, g_w5500_data_system_core_clock_hz := 0,
     g_w5500_data_kernel_tick_hz := 0, g_w5500_data_period_cycles := 0, g_w5500_data_timing_reference_valid := 0\<rparr>"

definition eth_reset_udp :: "udp_vars \<Rightarrow> udp_vars" where
  "eth_reset_udp u = u\<lparr>g_w5500_udp_open_ok := 0, g_w5500_udp_socket1_status := W5500_SOCKET1_STATUS_CLOSED,
     g_w5500_udp_socket1_spi_status := -1, g_w5500_udp_tx_packet_count := 0, g_w5500_udp_tx_bytes := 0,
     g_w5500_udp_tx_error_count := 0, g_w5500_udp_last_tx_seq := 0, g_w5500_udp_last_tx_status := -1,
     g_w5500_udp_next_seq := 1\<rparr>"

definition eth_reset_net :: "net_vars \<Rightarrow> net_vars" where
  "eth_reset_net n = n\<lparr>g_w5500_net_config_ok := 0, g_w5500_net_readback_ok := 0, g_w5500_net_write_status := -1,
     g_w5500_net_read_status := -1, g_w5500_phycfgr := 0, g_w5500_link_up := 0, g_w5500_link_down_count := 0,
     g_w5500_link_recovery_count := 0,
     g_w5500_gar_readback := replicate W5500_GAR_LENGTH 0, g_w5500_subr_readback := replicate W5500_GAR_LENGTH 0,
     g_w5500_sipr_readback := replicate W5500_GAR_LENGTH 0, g_w5500_shar_readback := replicate W5500_SHAR_LENGTH 0\<rparr>"

definition eth_reset :: "'e gw \<Rightarrow> 'e gw" where
  "eth_reset s = s\<lparr>net := eth_reset_net (net s), tcp := eth_reset_tcp (tcp s), ed := ethernet_diag_initialize (ed s),
     sv := eth_reset_service (sv s), udp := eth_reset_udp (udp s),
     rs := (rs s)\<lparr>g_rs422_cmd_enqueue_success_count := 0, g_rs422_cmd_enqueue_fail_count := 0,
       g_tcp_response_dequeue_count := 0, g_udp_telemetry_dequeue_count := 0\<rparr>,
     tob := (tob s)\<lparr>g_tcp_parser := stream_parser_init\<rparr>\<rparr>"

definition eth_configure_network :: "'e hw \<Rightarrow> 'e gw \<Rightarrow> 'e gw" where
  "eth_configure_network hw s =
     (let (status, version, e) = w5500_read_version hw 0 (env s);
          s = s\<lparr>env := e, net := (net s)\<lparr>g_w5500_version := version, g_w5500_spi_status := hal_status_value status\<rparr>\<rparr>
      in if status = HAL_OK \<and> version = 0x04 then
           let (write_status, e) = w5500_write_network_config hw (env s);
               s = s\<lparr>env := e, net := (net s)\<lparr>g_w5500_net_write_status := hal_status_value write_status\<rparr>\<rparr>
           in if write_status = HAL_OK then
                let s = s\<lparr>net := (net s)\<lparr>g_w5500_net_config_ok := 1\<rparr>\<rparr>;
                    (read_status, n, e) = w5500_read_network_config hw (net s) (env s);
                    s = s\<lparr>env := e, net := n\<lparr>g_w5500_net_read_status := hal_status_value read_status\<rparr>\<rparr>
                in if read_status = HAL_OK \<and> w5500_network_readback_matches (net s) \<noteq> 0
                   then s\<lparr>net := (net s)\<lparr>g_w5500_net_readback_ok := 1\<rparr>\<rparr> else s
              else s
         else s)"

definition network_ready :: "'e gw \<Rightarrow> bool" where
  "network_ready s \<longleftrightarrow> g_w5500_net_config_ok (net s) \<noteq> 0 \<and> g_w5500_net_readback_ok (net s) \<noteq> 0"

definition eth_period_cycles :: "u32 \<Rightarrow> u32 \<Rightarrow> u32 \<Rightarrow> u32" where
  "eth_period_cycles system_core_clock_hz kernel_tick_hz period_ticks =
     (if kernel_tick_hz \<noteq> 0
      then ucast ((ucast system_core_clock_hz * ucast period_ticks + ucast (kernel_tick_hz - 1) :: 64 word) div ucast kernel_tick_hz)
      else 0)"

definition StartEthernetTask_init :: "'e hw \<Rightarrow> 'e gw \<Rightarrow> (eth_locals \<times> 'e gw) option" where
  "StartEthernetTask_init hw s =
     (let s = eth_reset s;
          (enabled, s) = lift_env (DWT_enable hw) s;
          s = (if enabled then s\<lparr>sv := (sv s)\<lparr>g_w5500_data_cycle_counter_available := 1\<rparr>\<rparr> else s);
          s = w5500_hardware_reset hw s;
          s = eth_configure_network hw s
      in do {
        (restart_pending, s) \<leftarrow> (if network_ready s then do {
            (status, s) \<leftarrow> w5500_start_tcp_server hw s;
            Some (if status \<noteq> HAL_OK then 1 else 0 :: u32, s)
          } else Some (0, s));
        (_, s) \<leftarrow> (if network_ready s then do {
            (status, s) \<leftarrow> w5500_start_udp_socket hw s;
            let s = s\<lparr>udp := (udp s)\<lparr>g_w5500_udp_socket1_spi_status := hal_status_value status\<rparr>\<rparr>;
            Some ((), if status = HAL_OK then s\<lparr>udp := (udp s)\<lparr>g_w5500_udp_open_ok := 1\<rparr>\<rparr> else s)
          } else Some ((), s));
        let data_period = rs422_ms_to_kernel_ticks hw W5500_DATA_SERVICE_PERIOD_MS;
        let kernel_tick_hz = osKernelGetTickFreq hw;
        let system_core_clock_hz = SystemCoreClock hw;
        let period_cycles = eth_period_cycles system_core_clock_hz kernel_tick_hz data_period;
        let s = s\<lparr>sv := (sv s)\<lparr>g_w5500_data_system_core_clock_hz := system_core_clock_hz,
            g_w5500_data_kernel_tick_hz := kernel_tick_hz, g_w5500_data_period_cycles := period_cycles\<rparr>\<rparr>;
        let s = (if system_core_clock_hz \<noteq> 0 \<and> kernel_tick_hz \<noteq> 0 \<and> period_cycles \<noteq> 0
          then s\<lparr>sv := (sv s)\<lparr>g_w5500_data_timing_reference_valid := 1\<rparr>\<rparr> else s);
        let (now, s) = get_tick hw s;
        Some (\<lparr>tcp_lifecycle_restart_pending = restart_pending,
           phy_period_ticks = rs422_ms_to_kernel_ticks hw W5500_PHY_POLL_PERIOD_MS,
           data_service_period_ticks = data_period,
           tcp_transient_timeout_ticks = rs422_ms_to_kernel_ticks hw W5500_TCP_TRANSIENT_TIMEOUT_MS,
           tcp_recovery_retry_ticks = rs422_ms_to_kernel_ticks hw W5500_TCP_RECOVERY_RETRY_MS,
           next_phy_tick = now, next_data_service_tick = now, next_tcp_restart_tick = now, socket_state_enter_tick = now,
           phy_link_state_initialized = 0, phy_link_was_established = 0, previous_link_up = 0,
           socket_state_initialized = 0, graceful_disconnect_pending = 0, pending_ethernet_events = 0,
           previous_socket_status = W5500_SOCKET0_STATUS_CLOSED\<rparr>, s)
      })"

subsection \<open>Control service: the link\<close>

definition tcp_not_ready :: "'e gw \<Rightarrow> 'e gw" where
  "tcp_not_ready s = s\<lparr>tcp := (tcp s)\<lparr>g_w5500_tcp_init_ok := 0, g_w5500_tcp_listen_ok := 0\<rparr>\<rparr>"

definition link_lost :: "'e hw \<Rightarrow> eth_locals \<Rightarrow> 'e gw \<Rightarrow> eth_locals \<times> 'e gw" where
  "link_lost hw l s =
     (let s = s\<lparr>net := (net s)\<lparr>g_w5500_link_down_count := g_w5500_link_down_count (net s) + 1\<rparr>\<rparr>;
          (now, s) = get_tick hw s;
          s = s\<lparr>ed := ethernet_diag_arm_recovery hw now (ed s)\<rparr>;
          s = tcp_not_ready (s\<lparr>tcp := (tcp s)\<lparr>g_w5500_tcp_recovery_pending := 1\<rparr>\<rparr>);
          l = l\<lparr>tcp_lifecycle_restart_pending := 0, graceful_disconnect_pending := 0, socket_state_initialized := 0\<rparr>
      in (l, w5500_tcp_invalidate_connection_context s))"

definition link_restored :: "'e hw \<Rightarrow> eth_locals \<Rightarrow> 'e gw \<Rightarrow> eth_locals \<times> 'e gw" where
  "link_restored hw l s =
     (if phy_link_was_established l = 0 then
        let (now, s) = get_tick hw s in (l\<lparr>phy_link_was_established := 1, next_tcp_restart_tick := now\<rparr>, s)
      else if g_w5500_tcp_recovery_pending (tcp s) \<noteq> 0 then
        let s = s\<lparr>net := (net s)\<lparr>g_w5500_link_recovery_count := g_w5500_link_recovery_count (net s) + 1\<rparr>\<rparr>;
            (now, s) = get_tick hw s;
            s = s\<lparr>ed := ethernet_diag_record_link_up hw now (ed s)\<rparr>;
            (now, s) = get_tick hw s
        in (l\<lparr>next_tcp_restart_tick := now\<rparr>, s)
      else (l, s))"

definition eth_phy_poll :: "'e hw \<Rightarrow> eth_locals \<Rightarrow> 'e gw \<Rightarrow> eth_locals \<times> 'e gw" where
  "eth_phy_poll hw l s =
     (let (phy_status, phycfgr, e) = w5500_read_common_register hw W5500_PHYCFGR_ADDRESS 0 (env s);
          s = s\<lparr>env := e\<rparr>;
          (l, s) = (if phy_status = HAL_OK then
              let current_link_up = (if phycfgr AND W5500_PHYCFGR_LNK \<noteq> 0 then 1 else 0 :: u32);
                  s = s\<lparr>net := (net s)\<lparr>g_w5500_phycfgr := phycfgr, g_w5500_link_up := current_link_up\<rparr>\<rparr>
              in if phy_link_state_initialized l = 0 then
                   let l = l\<lparr>phy_link_state_initialized := 1, previous_link_up := current_link_up\<rparr>
                   in (if current_link_up \<noteq> 0 then l\<lparr>phy_link_was_established := 1\<rparr> else l, s)
                 else if current_link_up \<noteq> previous_link_up l then
                   let (l, s) = (if current_link_up = 0
                         then if phy_link_was_established l \<noteq> 0 then link_lost hw l s else (l, s)
                         else link_restored hw l s)
                   in (l\<lparr>previous_link_up := current_link_up\<rparr>, s)
                 else (l, s)
            else (l, s))
      in (l, s\<lparr>net := (net s)\<lparr>g_w5500_phy_spi_status := hal_status_value phy_status\<rparr>\<rparr>))"

subsection \<open>Control service: the socket life cycle\<close>

definition entered_listen :: "'e hw \<Rightarrow> eth_locals \<Rightarrow> 'e gw \<Rightarrow> eth_locals \<times> 'e gw" where
  "entered_listen hw l s =
     (let (now, s) = get_tick hw s
      in (l\<lparr>graceful_disconnect_pending := 0, socket_state_initialized := 1,
            previous_socket_status := W5500_SOCKET0_STATUS_LISTEN, socket_state_enter_tick := now\<rparr>, s))"

definition retry_later :: "'e hw \<Rightarrow> eth_locals \<Rightarrow> 'e gw \<Rightarrow> eth_locals \<times> 'e gw" where
  "retry_later hw l s =
     (let (now, s) = get_tick hw s in (l\<lparr>next_tcp_restart_tick := now + tcp_recovery_retry_ticks l\<rparr>, s))"

definition eth_recover :: "'e hw \<Rightarrow> eth_locals \<Rightarrow> 'e gw \<Rightarrow> (eth_locals \<times> 'e gw) option" where
  "eth_recover hw l s = do {
     (recovery_status, s) \<leftarrow> w5500_restart_tcp_server hw
       (s\<lparr>tcp := (tcp s)\<lparr>g_w5500_tcp_recovery_attempt_count := g_w5500_tcp_recovery_attempt_count (tcp s) + 1\<rparr>\<rparr>);
     Some (if recovery_status = HAL_OK
       then entered_listen hw (l\<lparr>tcp_lifecycle_restart_pending := 0\<rparr>)
         (s\<lparr>tcp := (tcp s)\<lparr>g_w5500_tcp_recovery_pending := 0,
           g_w5500_tcp_recovery_success_count := g_w5500_tcp_recovery_success_count (tcp s) + 1\<rparr>\<rparr>)
       else let (l, s) = retry_later hw l
              (s\<lparr>tcp := (tcp s)\<lparr>g_w5500_tcp_recovery_fail_count := g_w5500_tcp_recovery_fail_count (tcp s) + 1\<rparr>\<rparr>)
            in (l\<lparr>socket_state_initialized := 0\<rparr>, s))
   }"

definition eth_restart :: "'e hw \<Rightarrow> eth_locals \<Rightarrow> 'e gw \<Rightarrow> (eth_locals \<times> 'e gw) option" where
  "eth_restart hw l s = do {
     (restart_status, s) \<leftarrow> w5500_restart_tcp_server hw s;
     Some (if restart_status = HAL_OK
       then entered_listen hw (l\<lparr>tcp_lifecycle_restart_pending := 0\<rparr>) s
       else let (l, s) = retry_later hw l s in (l\<lparr>socket_state_initialized := 0\<rparr>, s))
   }"

definition eth_close_wait :: "'e hw \<Rightarrow> u32 \<Rightarrow> eth_locals \<Rightarrow> 'e gw \<Rightarrow> (eth_locals \<times> 'e gw) option" where
  "eth_close_wait hw socket_tick l s =
     (if graceful_disconnect_pending l = 0 then do {
        (disconnect_status, s) \<leftarrow> w5500_socket0_execute_command hw W5500_SOCKET0_DISCON_COMMAND (tcp_not_ready s);
        let s = set_socket0_spi_status disconnect_status s;
        Some (if disconnect_status = HAL_OK
          then let (now, s) = get_tick hw s in (l\<lparr>graceful_disconnect_pending := 1, socket_state_enter_tick := now\<rparr>, s)
          else retry_later hw (l\<lparr>tcp_lifecycle_restart_pending := 1\<rparr>) s)
      }
      else if socket_tick - socket_state_enter_tick l \<ge> tcp_transient_timeout_ticks l
      then Some (l\<lparr>tcp_lifecycle_restart_pending := 1, next_tcp_restart_tick := socket_tick, graceful_disconnect_pending := 0\<rparr>, s)
      else Some (l, s))"

text \<open>The common end of the two cases that bring the server back to listening.\<close>

definition listening_again :: "'e hw \<Rightarrow> HAL_StatusTypeDef \<Rightarrow> eth_locals \<Rightarrow> 'e gw \<Rightarrow> eth_locals \<times> 'e gw" where
  "listening_again hw status l s =
     (if status = HAL_OK
      then let (l, s) = entered_listen hw l s in (l, w5500_tcp_discard_stale_responses s)
      else let (l, s) = retry_later hw (l\<lparr>tcp_lifecycle_restart_pending := 1\<rparr>) s in (l\<lparr>socket_state_initialized := 0\<rparr>, s))"

definition eth_give_up :: "u32 \<Rightarrow> eth_locals \<Rightarrow> 'e gw \<Rightarrow> eth_locals \<times> 'e gw" where
  "eth_give_up socket_tick l s =
     (l\<lparr>tcp_lifecycle_restart_pending := 1, next_tcp_restart_tick := socket_tick, graceful_disconnect_pending := 0\<rparr>,
      tcp_not_ready s)"

definition eth_socket_switch :: "'e hw \<Rightarrow> u8 \<Rightarrow> u32 \<Rightarrow> eth_locals \<Rightarrow> 'e gw \<Rightarrow> (eth_locals \<times> 'e gw) option" where
  "eth_socket_switch hw socket_status socket_tick l s =
     (if socket_status = W5500_SOCKET0_STATUS_ESTABLISHED then Some (l\<lparr>graceful_disconnect_pending := 0\<rparr>, s)
      else if socket_status = W5500_SOCKET0_STATUS_CLOSE_WAIT then eth_close_wait hw socket_tick l s
      else if socket_status = W5500_SOCKET0_STATUS_CLOSED then do {
        (status, s) \<leftarrow> w5500_start_tcp_server hw s;
        Some (listening_again hw status l s)
      }
      else if socket_status = W5500_SOCKET0_STATUS_INIT then do {
        (status, s) \<leftarrow> w5500_listen_tcp_server hw (s\<lparr>tcp := (tcp s)\<lparr>g_w5500_tcp_listen_ok := 0\<rparr>\<rparr>);
        let s = (if status = HAL_OK then s\<lparr>tcp := (tcp s)\<lparr>g_w5500_tcp_init_ok := 1\<rparr>\<rparr> else s);
        Some (listening_again hw status l s)
      }
      else if socket_status = W5500_SOCKET0_STATUS_LISTEN then
        Some (l\<lparr>graceful_disconnect_pending := 0\<rparr>, s\<lparr>tcp := (tcp s)\<lparr>g_w5500_tcp_init_ok := 1, g_w5500_tcp_listen_ok := 1\<rparr>\<rparr>)
      else if w5500_tcp_is_transient_state socket_status = 0 then Some (eth_give_up socket_tick l s)
      else if socket_tick - socket_state_enter_tick l \<ge> tcp_transient_timeout_ticks l then Some (eth_give_up socket_tick l s)
      else Some (l, s))"

definition eth_lifecycle :: "'e hw \<Rightarrow> eth_locals \<Rightarrow> 'e gw \<Rightarrow> (eth_locals \<times> 'e gw) option" where
  "eth_lifecycle hw l s =
     (if network_ready s \<and> g_w5500_socket0_spi_status (tcp s) = hal_status_value HAL_OK then
        let socket_status = g_w5500_socket0_status (tcp s);
            (socket_tick, s) = get_tick hw s
        in if g_w5500_link_up (net s) \<noteq> 0 then
             if g_w5500_tcp_recovery_pending (tcp s) \<noteq> 0 then
               if sint (socket_tick - next_tcp_restart_tick l) \<ge> 0 then eth_recover hw l s else Some (l, s)
             else if tcp_lifecycle_restart_pending l \<noteq> 0 then
               if sint (socket_tick - next_tcp_restart_tick l) \<ge> 0 then eth_restart hw l s else Some (l, s)
             else eth_socket_switch hw socket_status socket_tick l s
           else Some (l, s)
      else Some (l, s))"

text \<open>The deadline loops: advance by whole periods until the deadline lies in the future.\<close>

partial_function (option) advance_deadline :: "u32 \<Rightarrow> u32 \<Rightarrow> u32 \<Rightarrow> u32 option" where
  "advance_deadline period deadline_now next_tick =
     (let next_tick = next_tick + period
      in if sint (deadline_now - next_tick) \<ge> 0 then advance_deadline period deadline_now next_tick else Some next_tick)"

definition eth_control_service :: "'e hw \<Rightarrow> eth_locals \<Rightarrow> 'e gw \<Rightarrow> (eth_locals \<times> 'e gw) option" where
  "eth_control_service hw l s =
     (let (l, s) = eth_phy_poll hw l s
      in do {
        (l, s) \<leftarrow> eth_lifecycle hw l s;
        let (deadline_now, s) = get_tick hw s;
        next_tick \<leftarrow> advance_deadline (phy_period_ticks l) deadline_now (next_phy_tick l);
        Some (l\<lparr>next_phy_tick := next_tick\<rparr>, s)
      })"

subsection \<open>Data service\<close>

text \<open>Lateness of the data service, and the cycle counter at its start.\<close>

definition eth_data_begin :: "'e hw \<Rightarrow> eth_locals \<Rightarrow> 'e gw \<Rightarrow> u32 \<times> 'e gw" where
  "eth_data_begin hw l s =
     (let (now, s) = get_tick hw s;
          start_late_ticks = now - next_data_service_tick l;
          s = s\<lparr>sv := (sv s)\<lparr>g_w5500_data_service_cycle_count := g_w5500_data_service_cycle_count (sv s) + 1\<rparr>\<rparr>;
          s = (if sint start_late_ticks > 0 then
                 let s = s\<lparr>sv := (sv s)\<lparr>g_w5500_data_deadline_miss_count := g_w5500_data_deadline_miss_count (sv s) + 1\<rparr>\<rparr>
                 in if start_late_ticks > g_w5500_data_max_start_late_ticks (sv s)
                    then s\<lparr>sv := (sv s)\<lparr>g_w5500_data_max_start_late_ticks := start_late_ticks\<rparr>\<rparr> else s
               else s)
      in if g_w5500_data_cycle_counter_available (sv s) \<noteq> 0 then lift_env (DWT_CYCCNT hw) s else (0, s))"

definition eth_session :: "u32 \<Rightarrow> u8 \<Rightarrow> eth_locals \<Rightarrow> 'e gw \<Rightarrow> eth_locals \<times> 'e gw" where
  "eth_session socket_tick socket_status l s =
     (if socket_status = W5500_SOCKET0_STATUS_ESTABLISHED then
        let l = l\<lparr>graceful_disconnect_pending := 0\<rparr>
        in if g_w5500_tcp_session_active (sv s) = 0 then
             let s = s\<lparr>dg := diagnostic_begin_tcp_session socket_tick (dg s)\<rparr>;
                 s = s\<lparr>tob := (tob s)\<lparr>g_tcp_parser := stream_parser_init\<rparr>\<rparr>;
                 s = w5500_tcp_discard_stale_responses s
             in (l, s\<lparr>sv := (sv s)\<lparr>g_w5500_tcp_session_active := 1\<rparr>\<rparr>)
           else (l, s)
      else if g_w5500_tcp_session_active (sv s) \<noteq> 0 then (l, w5500_tcp_invalidate_connection_context (tcp_not_ready s))
      else (l, s))"

definition eth_socket_poll :: "'e hw \<Rightarrow> eth_locals \<Rightarrow> 'e gw \<Rightarrow> eth_locals \<times> 'e gw" where
  "eth_socket_poll hw l s =
     (let (socket_spi_status, socket_status, e) =
            w5500_socket0_read_register hw W5500_SOCKET0_SR_ADDRESS W5500_SOCKET0_STATUS_CLOSED (env s);
          s = set_socket0_spi_status socket_spi_status (s\<lparr>env := e\<rparr>)
      in if socket_spi_status = HAL_OK then
           let (socket_tick, s) = get_tick hw s;
               s = s\<lparr>tcp := (tcp s)\<lparr>g_w5500_socket0_status := socket_status\<rparr>\<rparr>;
               l = (if socket_state_initialized l = 0 \<or> socket_status \<noteq> previous_socket_status l
                    then l\<lparr>socket_state_initialized := 1, previous_socket_status := socket_status,
                           socket_state_enter_tick := socket_tick\<rparr>
                    else l)
           in eth_session socket_tick socket_status l s
         else (l, s))"

definition eth_tcp_service :: "'e hw \<Rightarrow> bool \<Rightarrow> 'e gw \<Rightarrow> (unit \<times> 'e gw) option" where
  "eth_tcp_service hw data_service_due s = do {
     (_, s) \<leftarrow> (if data_service_due then do {
         (rx_status, s) \<leftarrow> w5500_tcp_process_rx hw s;
         let s = s\<lparr>tcp := (tcp s)\<lparr>g_w5500_tcp_last_rx_status := hal_status_value rx_status\<rparr>\<rparr>;
         Some ((), if rx_status \<noteq> HAL_OK
           then s\<lparr>tcp := (tcp s)\<lparr>g_w5500_tcp_rx_error_count := g_w5500_tcp_rx_error_count (tcp s) + 1\<rparr>\<rparr> else s)
       } else Some ((), s));
     w5500_tcp_drain_response_queue hw s
   }"

definition take_telemetry :: "'e gw \<Rightarrow> bool \<times> 'e gw" where
  "take_telemetry s =
     (if udp_telemetry_queue (qs s) = None then (False, s)
      else let (result, q, m) = osMessageQueueGet (udp_telemetry_queue (qs s)) (Some (g_udp_forward_packet (uo s)))
           in (result = osOK, s\<lparr>qs := (qs s)\<lparr>udp_telemetry_queue := q\<rparr>, uo := (uo s)\<lparr>g_udp_forward_packet := the m\<rparr>\<rparr>))"

fun udp_drain_loop :: "'e hw \<Rightarrow> nat \<Rightarrow> 'e gw \<Rightarrow> (unit \<times> 'e gw) option" where
  "udp_drain_loop hw 0 s = Some ((), s)"
| "udp_drain_loop hw (Suc n) s =
     (let (ok, s) = take_telemetry s
      in if \<not> ok then Some ((), s)
         else do {
           (status, s) \<leftarrow> w5500_udp_forward_packet hw
             (s\<lparr>rs := (rs s)\<lparr>g_udp_telemetry_dequeue_count := g_udp_telemetry_dequeue_count (rs s) + 1\<rparr>\<rparr>);
           if status \<noteq> HAL_OK then Some ((), s) else udp_drain_loop hw n s
         })"

definition eth_udp_service :: "'e hw \<Rightarrow> 'e gw \<Rightarrow> (unit \<times> 'e gw) option" where
  "eth_udp_service hw s =
     (let (udp_socket_spi_status, udp_socket_status, e) =
            w5500_socket1_read_register hw W5500_SOCKET1_SR_ADDRESS W5500_SOCKET1_STATUS_CLOSED (env s);
          s = s\<lparr>env := e, udp := (udp s)\<lparr>g_w5500_udp_socket1_spi_status := hal_status_value udp_socket_spi_status\<rparr>\<rparr>
      in if udp_socket_spi_status = HAL_OK then
           let s = s\<lparr>udp := (udp s)\<lparr>g_w5500_udp_socket1_status := udp_socket_status\<rparr>\<rparr>
           in if udp_socket_status = W5500_SOCKET1_STATUS_UDP \<and> g_w5500_link_up (net s) \<noteq> 0 then do {
                (_, s) \<leftarrow> (if W5500_UDP_LOCAL_TELEMETRY_ENABLED \<noteq> 0 then w5500_udp_send_telemetry hw s else Some ((), s));
                udp_drain_loop hw UDP_TELEMETRY_DRAIN_LIMIT s
              }
              else Some ((), s)
         else Some ((), s))"

definition eth_timing :: "u32 \<Rightarrow> service_vars \<Rightarrow> service_vars" where
  "eth_timing elapsed_cycles v =
     (let v = (if g_w5500_data_timing_reference_valid v \<noteq> 0 \<and> elapsed_cycles \<ge> g_w5500_data_period_cycles v
               then v\<lparr>g_w5500_data_overrun_count := g_w5500_data_overrun_count v + 1\<rparr> else v)
      in if elapsed_cycles > g_w5500_data_max_exec_cycles v then
           let elapsed_us = (if g_w5500_data_timing_reference_valid v \<noteq> 0
                 then ucast ((ucast elapsed_cycles * 1000000 + ucast (g_w5500_data_system_core_clock_hz v - 1) :: 64 word)
                        div ucast (g_w5500_data_system_core_clock_hz v))
                 else 0)
           in v\<lparr>g_w5500_data_max_exec_us := elapsed_us, g_w5500_data_max_exec_cycles := elapsed_cycles\<rparr>
         else v)"

definition eth_data_end :: "'e hw \<Rightarrow> u32 \<Rightarrow> eth_locals \<Rightarrow> 'e gw \<Rightarrow> (eth_locals \<times> 'e gw) option" where
  "eth_data_end hw data_cycle_start_cycles l s =
     (let s = (if g_w5500_data_cycle_counter_available (sv s) \<noteq> 0
               then let (c, s) = lift_env (DWT_CYCCNT hw) s in s\<lparr>sv := eth_timing (c - data_cycle_start_cycles) (sv s)\<rparr>
               else s);
          (deadline_now, s) = get_tick hw s
      in do {
        next_tick \<leftarrow> advance_deadline (data_service_period_ticks l) deadline_now (next_data_service_tick l);
        Some (l\<lparr>next_data_service_tick := next_tick\<rparr>, s)
      })"

definition eth_wait_ticks :: "u32 \<Rightarrow> eth_locals \<Rightarrow> u32" where
  "eth_wait_ticks wait_start_tick l =
     (let data_wait = next_data_service_tick l - wait_start_tick;
          phy_wait = next_phy_tick l - wait_start_tick
      in if sint data_wait > 0 \<and> sint phy_wait > 0 then if data_wait < phy_wait then data_wait else phy_wait else 0)"

definition eth_wait :: "'e hw \<Rightarrow> eth_locals \<Rightarrow> 'e gw \<Rightarrow> (eth_locals \<times> 'e gw) option" where
  "eth_wait hw l s =
     (let (wait_start_tick, s) = get_tick hw s
      in do {
        (wait_flags, s) \<leftarrow> osThreadFlagsWait hw EthernetTask ETHERNET_EVENT_MASK (eth_wait_ticks wait_start_tick l) s;
        Some (if wait_flags AND osFlagsError = 0 then l\<lparr>pending_ethernet_events := wait_flags\<rparr> else l, s)
      })"

text \<open>The iteration up to the wait at its end.\<close>

definition eth_work :: "'e hw \<Rightarrow> eth_locals \<Rightarrow> 'e gw \<Rightarrow> (eth_locals \<times> 'e gw) option" where
  "eth_work hw l s =
     (let (current_tick, s) = get_tick hw s;
          control_service_due = (sint (current_tick - next_phy_tick l) \<ge> 0);
          data_service_due = (sint (current_tick - next_data_service_tick l) \<ge> 0);
          tcp_response_event = pending_ethernet_events l AND ETHERNET_EVENT_TCP_RESPONSE_READY;
          l = l\<lparr>pending_ethernet_events := 0\<rparr>
      in do {
        (l, s) \<leftarrow> (if control_service_due then eth_control_service hw l s else Some (l, s));
        let (data_cycle_start_cycles, s) = (if data_service_due then eth_data_begin hw l s else (0, s));
        let (l, s) = (if data_service_due \<and> network_ready s \<and> g_w5500_link_up (net s) \<noteq> 0
          then eth_socket_poll hw l s else (l, s));
        (_, s) \<leftarrow> (if (data_service_due \<or> tcp_response_event \<noteq> 0) \<and> g_w5500_link_up (net s) \<noteq> 0 \<and>
            g_w5500_tcp_session_active (sv s) \<noteq> 0 \<and> g_w5500_socket0_status (tcp s) = W5500_SOCKET0_STATUS_ESTABLISHED
          then eth_tcp_service hw data_service_due s else Some ((), s));
        (_, s) \<leftarrow> (if data_service_due \<and> g_w5500_udp_open_ok (udp s) \<noteq> 0 then eth_udp_service hw s else Some ((), s));
        if data_service_due then eth_data_end hw data_cycle_start_cycles l s else Some (l, s)
      })"

definition StartEthernetTask_cycle :: "'e hw \<Rightarrow> eth_locals \<Rightarrow> 'e gw \<Rightarrow> (eth_locals \<times> 'e gw) option" where
  "StartEthernetTask_cycle hw l s = do {
     (l, s) \<leftarrow> eth_work hw l s;
     eth_wait hw l s
   }"

end
