(* ===== verification/GwHealth.thy ===== *)
theory GwHealth
  imports GwDiag Timing
begin

text \<open>
  The health task of the gateway: every 100 ms it compares the current tick with the tick of the
  last valid RS-422 frame and moves the communication state between INIT, OK and TIMEOUT.
\<close>

subsection \<open>The task\<close>

text \<open>The kernel call delays until an absolute tick, unless that is not in the future.\<close>

definition osDelayUntil :: "'e hw \<Rightarrow> u32 \<Rightarrow> 'e gw \<Rightarrow> 'e gw" where
  "osDelayUntil hw ticks s =
     (let (t, s) = get_tick hw s; delay = ticks - t
      in if delay \<noteq> 0 \<and> drop_bit 31 delay = 0 then sleep hw delay s else s)"

record health_locals =
  health_period_ticks :: u32
  comm_timeout_ticks :: u32
  health_start_tick :: u32
  next_wake_tick :: u32

definition StartHealthTask_init :: "'e hw \<Rightarrow> 'e gw \<Rightarrow> health_locals \<times> 'e gw" where
  "StartHealthTask_init hw s =
     (let period = rs422_ms_to_kernel_ticks hw HEALTH_TASK_PERIOD_MS;
          timeout = rs422_ms_to_kernel_ticks hw RS422_COMM_TIMEOUT_MS;
          (start, s) = get_tick hw s
      in (\<lparr>health_period_ticks = period, comm_timeout_ticks = timeout, health_start_tick = start, next_wake_tick = start\<rparr>,
          s\<lparr>cm := (cm s)\<lparr>g_rs422_comm_state := COMM_INIT, g_rs422_comm_timeout_count := 0,
                         g_rs422_comm_recovery_count := 0\<rparr>\<rparr>))"

definition health_enter_timeout :: "'e hw \<Rightarrow> u32 \<Rightarrow> comm_vars \<Rightarrow> comm_vars" where
  "health_enter_timeout hw current_tick c =
     (if g_rs422_comm_state c \<noteq> COMM_TIMEOUT then
        let c = rs422_diag_record_timeout_transition hw current_tick (g_rs422_has_valid_frame c)
                  (g_rs422_last_valid_frame_tick c) c
        in c\<lparr>g_rs422_comm_timeout_count := g_rs422_comm_timeout_count c + 1, g_rs422_comm_state := COMM_TIMEOUT\<rparr>
      else c)"

definition health_enter_ok :: "'e hw \<Rightarrow> u32 \<Rightarrow> comm_vars \<Rightarrow> comm_vars" where
  "health_enter_ok hw current_tick c =
     (if g_rs422_comm_state c \<noteq> COMM_OK then
        let c = (if g_rs422_comm_state c = COMM_TIMEOUT then
                   let recovery_first_valid_tick = g_rs422_diag_recovery_first_valid_tick c;
                       c = c\<lparr>g_rs422_diag_recovery_comm_ok_tick := current_tick,
                             g_rs422_diag_recovery_comm_ok_ms := rs422_kernel_ticks_to_ms hw current_tick,
                             g_rs422_diag_recovery_ms := DIAG_TIMESTAMP_NOT_CAPTURED_MS\<rparr>;
                       c = (if recovery_first_valid_tick \<noteq> 0xFFFFFFFF
                            then c\<lparr>g_rs422_diag_recovery_ms :=
                                   rs422_kernel_ticks_to_ms hw (current_tick - recovery_first_valid_tick)\<rparr>
                            else c)
                   in c\<lparr>g_rs422_comm_recovery_count := g_rs422_comm_recovery_count c + 1\<rparr>
                 else c)
        in c\<lparr>g_rs422_comm_state := COMM_OK\<rparr>
      else c)"

definition health_evaluate :: "'e hw \<Rightarrow> u32 \<Rightarrow> u32 \<Rightarrow> u32 \<Rightarrow> comm_vars \<Rightarrow> comm_vars" where
  "health_evaluate hw timeout start current_tick c =
     (if g_rs422_has_valid_frame c \<noteq> 0 then
        (if current_tick - g_rs422_last_valid_frame_tick c \<ge> timeout then health_enter_timeout hw current_tick c
         else health_enter_ok hw current_tick c)
      else if current_tick - start \<ge> timeout then health_enter_timeout hw current_tick c
      else c)"

definition StartHealthTask_cycle :: "'e hw \<Rightarrow> health_locals \<times> 'e gw \<Rightarrow> health_locals \<times> 'e gw" where
  "StartHealthTask_cycle hw = (\<lambda>(l, s).
     let l = l\<lparr>next_wake_tick := next_wake_tick l + health_period_ticks l\<rparr>;
         s = osDelayUntil hw (next_wake_tick l) s;
         (current_tick, s) = get_tick hw s;
         s = s\<lparr>cm := health_evaluate hw (comm_timeout_ticks l) (health_start_tick l) current_tick (cm s)\<rparr>
     in (l, s\<lparr>cm := (cm s)\<lparr>g_gateway_free_heap_bytes := xPortGetFreeHeapSize hw (env s),
                         g_gateway_min_ever_free_heap_bytes := xPortGetMinimumEverFreeHeapSize hw (env s)\<rparr>\<rparr>))"

subsection \<open>The state machine\<close>

lemma record_timeout_keeps [simp]:
  "g_rs422_comm_state (rs422_diag_record_timeout_transition hw t h l c) = g_rs422_comm_state c"
  "g_rs422_comm_timeout_count (rs422_diag_record_timeout_transition hw t h l c) = g_rs422_comm_timeout_count c"
  "g_rs422_comm_recovery_count (rs422_diag_record_timeout_transition hw t h l c) = g_rs422_comm_recovery_count c"
  "g_rs422_has_valid_frame (rs422_diag_record_timeout_transition hw t h l c) = g_rs422_has_valid_frame c"
  "g_rs422_last_valid_frame_tick (rs422_diag_record_timeout_transition hw t h l c) = g_rs422_last_valid_frame_tick c"
  "g_rs422_diag_timeout_transition_tick (rs422_diag_record_timeout_transition hw t h l c) = t"
  "h \<noteq> 0 \<Longrightarrow> g_rs422_diag_fault_detection_ms (rs422_diag_record_timeout_transition hw t h l c) =
     rs422_kernel_ticks_to_ms hw (t - l)"
  by (simp_all add: rs422_diag_record_timeout_transition_def Let_def)

text \<open>The silence the task measures: since the last valid frame, or since its own start.\<close>

definition silent :: "u32 \<Rightarrow> u32 \<Rightarrow> u32 \<Rightarrow> comm_vars \<Rightarrow> bool" where
  "silent timeout start now c \<longleftrightarrow>
     now - (if g_rs422_has_valid_frame c \<noteq> 0 then g_rs422_last_valid_frame_tick c else start) \<ge> timeout"

definition next_comm_state :: "u32 \<Rightarrow> u32 \<Rightarrow> u32 \<Rightarrow> comm_vars \<Rightarrow> rs422_comm_state_t" where
  "next_comm_state timeout start now c =
     (if silent timeout start now c then COMM_TIMEOUT
      else if g_rs422_has_valid_frame c \<noteq> 0 then COMM_OK else g_rs422_comm_state c)"

lemma health_evaluate_state:
  "g_rs422_comm_state (health_evaluate hw timeout start now c) = next_comm_state timeout start now c"
  by (simp add: health_evaluate_def health_enter_timeout_def health_enter_ok_def next_comm_state_def silent_def Let_def)

lemma health_evaluate_counts:
  "g_rs422_comm_timeout_count (health_evaluate hw timeout start now c) = g_rs422_comm_timeout_count c +
     (if g_rs422_comm_state c \<noteq> COMM_TIMEOUT \<and> next_comm_state timeout start now c = COMM_TIMEOUT then 1 else 0)"
  "g_rs422_comm_recovery_count (health_evaluate hw timeout start now c) = g_rs422_comm_recovery_count c +
     (if g_rs422_comm_state c = COMM_TIMEOUT \<and> next_comm_state timeout start now c = COMM_OK then 1 else 0)"
  by (simp_all add: health_evaluate_def health_enter_timeout_def health_enter_ok_def next_comm_state_def silent_def Let_def)

lemma health_evaluate_keeps [simp]:
  "g_rs422_has_valid_frame (health_evaluate hw timeout start now c) = g_rs422_has_valid_frame c"
  "g_rs422_last_valid_frame_tick (health_evaluate hw timeout start now c) = g_rs422_last_valid_frame_tick c"
  by (simp_all add: health_evaluate_def health_enter_timeout_def health_enter_ok_def Let_def)

text \<open>
  What the other tasks may do to the communication state between two evaluations: the RS-422 task
  records frames; nobody else writes the state or the counters.
\<close>

definition comm_inv :: "comm_vars \<Rightarrow> bool" where
  "comm_inv c \<longleftrightarrow> g_rs422_comm_timeout_count c = g_rs422_comm_recovery_count c +
     (if g_rs422_comm_state c = COMM_TIMEOUT then 1 else 0)"

lemma health_evaluate_inv: "comm_inv c \<Longrightarrow> comm_inv (health_evaluate hw timeout start now c)"
  unfolding comm_inv_def health_evaluate_state health_evaluate_counts
  by (cases "g_rs422_comm_state c") (auto simp: next_comm_state_def)

definition same_comm :: "comm_vars \<Rightarrow> comm_vars \<Rightarrow> bool" where
  "same_comm c c' \<longleftrightarrow> g_rs422_comm_state c' = g_rs422_comm_state c \<and>
     g_rs422_comm_timeout_count c' = g_rs422_comm_timeout_count c \<and>
     g_rs422_comm_recovery_count c' = g_rs422_comm_recovery_count c"

definition evaluations :: "'e hw \<Rightarrow> u32 \<Rightarrow> u32 \<Rightarrow> nat list \<Rightarrow> comm_vars \<Rightarrow> comm_vars" where
  "evaluations hw timeout start ts c = fold (\<lambda>t c. health_evaluate hw timeout start (of_nat t) c) ts c"

lemma evaluations_stay:
  "\<lbrakk>g_rs422_comm_state c = COMM_TIMEOUT; g_rs422_has_valid_frame c \<noteq> 0; g_rs422_last_valid_frame_tick c = of_nat L;
    polled d t0 ts; L + unat T \<le> t0; \<forall>t \<in> set ts. t < L + 2 ^ 32\<rbrakk> \<Longrightarrow> evaluations hw T start ts c = c"
proof (induction ts arbitrary: t0)
  case (Cons t ts)
  have "L \<le> t" "t - L < 2 ^ 32" "unat T \<le> t - L" using Cons.prems(4-6) by auto
  then have "(of_nat t - of_nat L :: u32) \<ge> T" by (simp add: tick_diff)
  then have "health_evaluate hw T start (of_nat t) c = c"
    using Cons.prems(1-3) by (simp add: health_evaluate_def health_enter_timeout_def)
  moreover have "evaluations hw T start ts c = c"
    using Cons.prems by (intro Cons.IH [of t]) auto
  ultimately show ?case by (simp add: evaluations_def)
qed (simp add: evaluations_def)

lemma evaluations_silence:
  "\<lbrakk>g_rs422_comm_state c \<noteq> COMM_TIMEOUT; g_rs422_has_valid_frame c \<noteq> 0; g_rs422_last_valid_frame_tick c = of_nat L;
    polled d t0 ts; L \<le> t0; t0 < L + unat T; \<forall>t \<in> set ts. t < L + 2 ^ 32\<rbrakk> \<Longrightarrow>
   let c' = evaluations hw T start ts c in
     if \<exists>t \<in> set ts. L + unat T \<le> t
     then g_rs422_comm_state c' = COMM_TIMEOUT \<and>
       g_rs422_comm_timeout_count c' = g_rs422_comm_timeout_count c + 1 \<and>
       (\<exists>t \<in> set ts. L + unat T \<le> t \<and> t < L + unat T + d \<and>
         g_rs422_diag_timeout_transition_tick c' = of_nat t \<and>
         g_rs422_diag_fault_detection_ms c' = rs422_kernel_ticks_to_ms hw (of_nat (t - L)))
     else g_rs422_comm_state c' \<noteq> COMM_TIMEOUT \<and> g_rs422_comm_timeout_count c' = g_rs422_comm_timeout_count c"
proof (induction ts arbitrary: c t0)
  case Nil
  then show ?case by (simp add: evaluations_def)
next
  case (Cons t ts)
  let ?c = "health_evaluate hw T start (of_nat t) c"
  have t: "L \<le> t" "t - L < 2 ^ 32" "t0 \<le> t" "t \<le> t0 + d" "polled d t ts" using Cons.prems by auto
  have due: "(of_nat t - of_nat L :: u32) \<ge> T \<longleftrightarrow> unat T \<le> t - L" by (rule tick_diff [OF t(1,2)])
  have run: "evaluations hw T start (t # ts) c = evaluations hw T start ts ?c" by (simp add: evaluations_def)
  show ?case
  proof (cases "unat T \<le> t - L")
    case True
    have enter: "g_rs422_comm_state ?c = COMM_TIMEOUT" "g_rs422_comm_timeout_count ?c = g_rs422_comm_timeout_count c + 1"
      "g_rs422_diag_timeout_transition_tick ?c = of_nat t"
      "g_rs422_diag_fault_detection_ms ?c = rs422_kernel_ticks_to_ms hw (of_nat (t - L))"
      using Cons.prems(1-3) True due t(1)
      by (simp_all add: health_evaluate_def health_enter_timeout_def Let_def of_nat_diff)
    have "L + unat T \<le> t" using True t(1) by simp
    then have "evaluations hw T start ts ?c = ?c"
      using enter(1) Cons.prems(2,3,7) t(5) by (intro evaluations_stay [of ?c L d t]) auto
    with enter True t Cons.prems(6) run show ?thesis by (auto simp: Let_def intro: bexI [of _ t])
  next
    case False
    then have "g_rs422_comm_state ?c \<noteq> COMM_TIMEOUT" "g_rs422_comm_timeout_count ?c = g_rs422_comm_timeout_count c"
      using Cons.prems(1-3) due
      by (simp_all add: health_evaluate_state health_evaluate_counts next_comm_state_def silent_def)
    with Cons.IH [of ?c t] Cons.prems t False run show ?thesis by (auto simp: Let_def)
  qed
qed

subsection \<open>Properties\<close>

text \<open>The bookkeeping of the communication state, for any behaviour of the other tasks that
  leaves the state and its two counters to this task: after every cycle the state is TIMEOUT
  exactly if the link was silent for the timeout when the task woke up (or stays TIMEOUT because no
  frame was ever received), the timeout counter has counted every entry
  into TIMEOUT and the recovery counter every return from it, so they differ by one while the
  state is TIMEOUT and are equal otherwise.\<close>

theorem health_cycle_state:
  assumes "\<And>n s. same_comm (cm s) (cm (sleep hw n s))" and "comm_inv (cm s)"
    and "StartHealthTask_cycle hw (l, s) = (l', s')"
  shows "let woken = osDelayUntil hw (next_wake_tick l + health_period_ticks l) s;
      now = fst (osKernelGetTickCount hw (env woken)) in
    comm_inv (cm s') \<and> next_wake_tick l' = next_wake_tick l + health_period_ticks l \<and>
    (g_rs422_comm_state (cm s') = COMM_TIMEOUT \<longleftrightarrow>
      silent (comm_timeout_ticks l) (health_start_tick l) now (cm woken) \<or>
      g_rs422_has_valid_frame (cm woken) = 0 \<and> g_rs422_comm_state (cm s) = COMM_TIMEOUT)"
proof -
  define s1 where "s1 = osDelayUntil hw (next_wake_tick l + health_period_ticks l) s"
  define now where "now = fst (osKernelGetTickCount hw (env s1))"
  define c where "c = health_evaluate hw (comm_timeout_ticks l) (health_start_tick l) now (cm s1)"
  define e where "e = snd (osKernelGetTickCount hw (env s1))"
  have same: "same_comm (cm s) (cm s1)"
    using assms(1) by (auto simp: s1_def osDelayUntil_def Let_def same_comm_def)
  have s': "cm s' = c\<lparr>g_gateway_free_heap_bytes := xPortGetFreeHeapSize hw e,
      g_gateway_min_ever_free_heap_bytes := xPortGetMinimumEverFreeHeapSize hw e\<rparr>"
    and l': "next_wake_tick l' = next_wake_tick l + health_period_ticks l"
    using assms(3) by (auto simp: StartHealthTask_cycle_def Let_def c_def now_def s1_def e_def)
  have "comm_inv (cm s1)" using same assms(2) by (simp add: same_comm_def comm_inv_def)
  then have "comm_inv c" unfolding c_def by (rule health_evaluate_inv)
  with s' have "comm_inv (cm s')" by (auto simp: comm_inv_def)
  moreover have "g_rs422_comm_state (cm s') = next_comm_state (comm_timeout_ticks l) (health_start_tick l) now (cm s1)"
    using s' by (auto simp: c_def health_evaluate_state)
  ultimately show ?thesis
    using same l' by (auto simp: next_comm_state_def same_comm_def Let_def simp flip: s1_def now_def)
qed

theorem health_cycle_state_witness:
  "\<exists>l' s'. StartHealthTask_cycle (quiet_hw 1000) (StartHealthTask_init (quiet_hw 1000) (boot 0)) = (l', s') \<and>
    comm_inv (cm s')"
proof -
  obtain l s where init: "StartHealthTask_init (quiet_hw 1000) (boot (0 :: nat)) = (l, s)" by fastforce
  obtain l' s' where cyc: "StartHealthTask_cycle (quiet_hw 1000) (l, s) = (l', s')" by fastforce
  have "comm_inv (cm s)" using init by (auto simp: StartHealthTask_init_def comm_inv_def Let_def)
  moreover have "same_comm (cm t) (cm (sleep (quiet_hw 1000) n t))" for n t
    by (simp add: quiet_hw_def same_comm_def)
  ultimately show ?thesis using health_cycle_state [OF _ _ cyc] init cyc by (auto simp: Let_def)
qed

text \<open>C34: loss of communication is detected in bounded time, across wrap-arounds of the tick:
  with the last valid frame at time \<open>L\<close> and evaluations at most \<open>d\<close> ticks apart, the state
  becomes TIMEOUT at the first evaluation that is at least the timeout after \<open>L\<close>, hence
  earlier than \<open>L + timeout + d\<close> and never before \<open>L + timeout\<close>; it is counted once and
  the recorded detection time is the true one.\<close>

theorem health_detects_silence:
  assumes "g_rs422_comm_state c \<noteq> COMM_TIMEOUT" and "g_rs422_has_valid_frame c \<noteq> 0"
    and "g_rs422_last_valid_frame_tick c = of_nat L" and "polled d t0 ts" and "L \<le> t0" and "t0 < L + unat T"
    and "\<forall>t \<in> set ts. t < L + 2 ^ 32"
  shows "let c' = evaluations hw T start ts c in
     if \<exists>t \<in> set ts. L + unat T \<le> t
     then g_rs422_comm_state c' = COMM_TIMEOUT \<and>
       g_rs422_comm_timeout_count c' = g_rs422_comm_timeout_count c + 1 \<and>
       (\<exists>t \<in> set ts. L + unat T \<le> t \<and> t < L + unat T + d \<and>
         g_rs422_diag_timeout_transition_tick c' = of_nat t \<and>
         g_rs422_diag_fault_detection_ms c' = rs422_kernel_ticks_to_ms hw (of_nat (t - L)))
     else g_rs422_comm_state c' \<noteq> COMM_TIMEOUT \<and> g_rs422_comm_timeout_count c' = g_rs422_comm_timeout_count c"
  by (rule evaluations_silence [OF assms])

theorem health_detects_silence_witness:
  "let c = boot_comm_vars\<lparr>g_rs422_has_valid_frame := 1, g_rs422_last_valid_frame_tick := 0xFFFFFF00\<rparr>;
       c' = evaluations (quiet_hw 1000) 150 0 [2 ^ 32 - 160, 2 ^ 32 - 60] c
   in g_rs422_comm_state c' = COMM_TIMEOUT"
proof -
  let ?c = "boot_comm_vars\<lparr>g_rs422_has_valid_frame := 1, g_rs422_last_valid_frame_tick := 0xFFFFFF00\<rparr>"
  have "(of_nat (2 ^ 32 - 256) :: u32) = 0xFFFFFF00" by simp
  moreover have "\<exists>t \<in> set [2 ^ 32 - 160, 2 ^ 32 - 60 :: nat]. 2 ^ 32 - 256 + unat (150 :: u32) \<le> t" by simp
  ultimately show ?thesis
    using health_detects_silence [of ?c "2 ^ 32 - 256" 100 "2 ^ 32 - 256" "[2 ^ 32 - 160, 2 ^ 32 - 60]" 150 "quiet_hw 1000" 0]
    by (simp add: boot_comm_vars_def Let_def)
qed

text \<open>C35: the limit of the previous result, inherent in a 32-bit tick: a link that stays silent
  for \<open>2 ^ 32\<close> ticks after its last frame looks freshly alive, so an evaluation in the
  first \<open>T\<close> ticks after the wrap reports OK again and counts a recovery although nothing was
  received.\<close>

theorem health_wraps_around:
  assumes "g_rs422_comm_state c = COMM_TIMEOUT" and "g_rs422_has_valid_frame c \<noteq> 0"
    and "g_rs422_last_valid_frame_tick c = of_nat L" and "k < unat T"
  shows "g_rs422_comm_state (health_evaluate hw T start (of_nat (L + 2 ^ 32 + k)) c) = COMM_OK \<and>
    g_rs422_comm_recovery_count (health_evaluate hw T start (of_nat (L + 2 ^ 32 + k)) c) =
      g_rs422_comm_recovery_count c + 1"
proof -
  have "(4294967296 :: u32) = 0" by simp
  then have "(of_nat (L + 2 ^ 32 + k) - of_nat L :: u32) = of_nat k" by simp
  moreover have "k < 2 ^ 32" using assms(4) unsigned_less [of T, where 'a = nat] by simp
  then have "\<not> T \<le> (of_nat k :: u32)"
    using assms(4) by (simp add: word_le_nat_alt unat_of_nat take_bit_nat_eq_self)
  ultimately show ?thesis
    using assms(1-3)
    by (simp add: health_evaluate_state health_evaluate_counts next_comm_state_def silent_def del: of_nat_add of_nat_numeral)
qed

theorem health_wraps_around_witness:
  "g_rs422_comm_state (health_evaluate (quiet_hw 1000) 1500 0 (of_nat (7 + 2 ^ 32 + 3))
     (boot_comm_vars\<lparr>g_rs422_comm_state := COMM_TIMEOUT, g_rs422_has_valid_frame := 1,
        g_rs422_last_valid_frame_tick := 7\<rparr>)) = COMM_OK"
  using health_wraps_around [of "boot_comm_vars\<lparr>g_rs422_comm_state := COMM_TIMEOUT, g_rs422_has_valid_frame := 1,
        g_rs422_last_valid_frame_tick := 7\<rparr>" 7 3 1500 "quiet_hw 1000" 0] by simp

end
