(* ===== verification/GwInvariant.thy ===== *)
theory GwInvariant
  imports GwLink GwEthernet GwHealth
begin

text \<open>
  The well-formedness of the gateway's shared state: the three queues exist with their depths and
  hold only well-formed packets of the one kind they are for, the parsers and the receive ring
  satisfy their invariants, and no array changes its size. The lemmas show that the interrupts and
  every function that does not give up the processor keep it; \<^verbatim>\<open>GwInterleave\<close> goes on from there.
\<close>

subsection \<open>The invariant\<close>

definition queue_holds :: "nat \<Rightarrow> u8 \<Rightarrow> protocol_packet_t Queue_t option \<Rightarrow> bool" where
  "queue_holds n kind mq \<longleftrightarrow> queue_ready n mq \<and> (\<forall>m \<in> set (queue_items (the mq)). packet_ok m \<and> pk_msg_id m = kind)"

definition queues_ok :: "queue_vars \<Rightarrow> bool" where
  "queues_ok v \<longleftrightarrow> queue_holds RS422_CMD_QUEUE_DEPTH MSG_PING (rs422_cmd_queue v) \<and>
     queue_holds TCP_RESPONSE_QUEUE_DEPTH MSG_PONG (tcp_response_queue v) \<and>
     queue_holds UDP_TELEMETRY_QUEUE_DEPTH MSG_TELEMETRY (udp_telemetry_queue v)"

definition rs422_objects_ok :: "rs422_objects \<Rightarrow> bool" where
  "rs422_objects_ok v \<longleftrightarrow> packet_wf (g_rs422_ping_packet v) \<and> packet_wf (g_rs422_command_packet v) \<and>
     packet_wf (g_rs422_received_packet v) \<and> parser_inv (g_rs422_parser v) \<and>
     length (g_rs422_tx_frame v) = PROTOCOL_MAX_FRAME_SIZE \<and>
     length (g_rs422_rx_ring v) = unat RS422_RX_RING_CAPACITY \<and>
     g_rs422_rx_head v - g_rs422_rx_tail v \<le> RS422_RX_RING_CAPACITY"

definition tcp_objects_ok :: "tcp_objects \<Rightarrow> bool" where
  "tcp_objects_ok v \<longleftrightarrow> parser_inv (g_tcp_parser v) \<and> packet_wf (g_tcp_received_packet v) \<and> packet_wf (g_tcp_pong_packet v) \<and>
     length (g_w5500_tcp_rx_chunk v) = W5500_TCP_RX_CHUNK_SIZE \<and> length (g_w5500_tcp_rx_dummy v) = W5500_TCP_RX_CHUNK_SIZE \<and>
     length (g_w5500_tcp_tx_frame v) = PROTOCOL_MAX_FRAME_SIZE"

definition udp_objects_ok :: "udp_objects \<Rightarrow> bool" where
  "udp_objects_ok v \<longleftrightarrow> packet_wf (g_udp_telemetry_packet v) \<and> packet_wf (g_udp_forward_packet v) \<and>
     length (g_w5500_udp_tx_frame v) = PROTOCOL_MAX_FRAME_SIZE \<and> length (g_w5500_udp_spi_discard v) = W5500_UDP_SPI_CHUNK_SIZE"

definition gw_ok :: "'e gw \<Rightarrow> bool" where
  "gw_ok s \<longleftrightarrow> queues_ok (qs s) \<and> rs422_objects_ok (ro s) \<and> tcp_objects_ok (tob s) \<and> udp_objects_ok (uo s)"

lemma gw_ok_update [simp]:
  "gw_ok (s\<lparr>env := e\<rparr>) = gw_ok s" "gw_ok (s\<lparr>rs := a\<rparr>) = gw_ok s" "gw_ok (s\<lparr>cm := b\<rparr>) = gw_ok s"
  "gw_ok (s\<lparr>net := c\<rparr>) = gw_ok s" "gw_ok (s\<lparr>tcp := d\<rparr>) = gw_ok s" "gw_ok (s\<lparr>ed := f\<rparr>) = gw_ok s"
  "gw_ok (s\<lparr>sv := g\<rparr>) = gw_ok s" "gw_ok (s\<lparr>dg := h\<rparr>) = gw_ok s" "gw_ok (s\<lparr>udp := i\<rparr>) = gw_ok s"
  "gw_ok (s\<lparr>kn := j\<rparr>) = gw_ok s"
  by (simp_all add: gw_ok_def)

lemma flags_gw_ok [simp]:
  "gw_ok (snd (osThreadFlagsSet t f s)) = gw_ok s" "gw_ok (snd (osThreadFlagsClear t f s)) = gw_ok s"
  by (simp_all add: osThreadFlagsSet_def osThreadFlagsClear_def Let_def)

lemma encode_keeps_size:
  assumes "packet_wf p" "length b = PROTOCOL_MAX_FRAME_SIZE"
    and "protocol_encode (Some p) (Some b) PROTOCOL_MAX_FRAME_SIZE (Some e) = (r, f, n)"
  shows "length (the f) = PROTOCOL_MAX_FRAME_SIZE"
proof (cases "packet_ok p")
  case True
  then have "unat (pk_length p) \<le> 256" by (simp add: packet_ok_def)
  with encode_ok [OF True, of PROTOCOL_MAX_FRAME_SIZE b e] assms(2,3) True show ?thesis by auto
next
  case False
  then have "f = Some b" using assms(1,3) by (auto simp: protocol_encode_def packet_ok_def split: if_splits)
  then show ?thesis using assms(2) by simp
qed

subsection \<open>Queues\<close>

lemma put_holds:
  assumes "queue_holds n kind mq" "packet_ok m" "pk_msg_id m = kind" "osMessageQueuePut mq (Some m) = (st, mq')"
  shows "queue_holds n kind mq'"
proof -
  have "queue_ready n mq" using assms(1) by (simp add: queue_holds_def)
  from put_ready [OF this assms(4)] show ?thesis
    using assms(1-3) set_take_subset [of n "queue_items (the mq) @ [m]"] unfolding queue_holds_def by fastforce
qed

lemma get_holds:
  assumes "queue_holds n kind mq" "osMessageQueueGet mq (Some y) = (st, mq', out)"
  shows "queue_holds n kind mq' \<and>
    (if st = osOK then packet_ok (the out) \<and> pk_msg_id (the out) = kind else out = Some y)"
proof -
  obtain q where q: "mq = Some q" "queue_inv q" "uxLength q = n" "\<forall>m \<in> set (queue_items q). packet_ok m \<and> pk_msg_id m = kind"
    using assms(1) by (auto simp: queue_holds_def queue_ready_def)
  from queue_get_outcome [OF q(2) assms(2) [unfolded q(1)]] show ?thesis
    using q(3,4) by (cases "queue_items q") (auto simp: queue_holds_def queue_ready_def)
qed

lemma packet_ok_wf: "packet_ok m \<Longrightarrow> packet_wf m"
  by (simp add: packet_ok_def)

subsection \<open>The RS-422 side\<close>

lemma push_gw_ok: "gw_ok s \<Longrightarrow> gw_ok (rs422_rx_ring_push_from_isr b s)"
proof -
  assume ok: "gw_ok s"
  have "h + 1 - t \<le> RS422_RX_RING_CAPACITY" if "\<not> h - t \<ge> RS422_RX_RING_CAPACITY" for h t :: u16
  proof -
    have "h - t < 512" using that by simp
    then have "h - t + 1 \<le> 512" by (rule inc_le)
    then show ?thesis by (simp add: algebra_simps)
  qed
  with ok show ?thesis
    by (auto simp: rs422_rx_ring_push_from_isr_def gw_ok_def rs422_objects_ok_def Let_def simp del: RS422_RX_RING_CAPACITY_def)
qed

lemma wake_gw_ok [simp]: "gw_ok (wake_rs422 f s) = gw_ok s"
  by (simp add: wake_rs422_def)

lemma uart_callbacks_gw_ok:
  assumes "gw_ok s"
  shows "gw_ok (HAL_UART_TxCpltCallback u s)" "gw_ok (HAL_UART_RxCpltCallback hw u s)" "gw_ok (HAL_UART_ErrorCallback hw u s)"
  using assms push_gw_ok [OF assms, of "g_uart4_rx_byte (ro s)"]
  by (simp_all add: HAL_UART_TxCpltCallback_def HAL_UART_RxCpltCallback_def HAL_UART_ErrorCallback_def
      count_uart_rx_error_def Let_def)

lemma pop_gw_ok: "gw_ok s \<Longrightarrow> gw_ok (snd (rs422_rx_ring_pop s))"
proof -
  assume ok: "gw_ok s"
  have "h - (t + 1) \<le> RS422_RX_RING_CAPACITY" if "h - t \<le> RS422_RX_RING_CAPACITY" "t \<noteq> h" for h t :: u16
  proof -
    have "h - t \<noteq> 0" using that(2) by auto
    then have "unat (h - t - 1) = unat (h - t) - 1" by (rule unat_minus_one)
    then have "h - t - 1 \<le> h - t" by (simp add: word_le_nat_alt)
    with that(1) show ?thesis by (simp add: algebra_simps)
  qed
  with ok show ?thesis
    by (auto simp: rs422_rx_ring_pop_def gw_ok_def rs422_objects_ok_def Let_def simp del: RS422_RX_RING_CAPACITY_def)
qed

lemma note_gw_ok [simp]:
  "gw_ok (note_valid_frame hw s) = gw_ok s" "gw_ok (note_matching_pong hw s) = gw_ok s"
  "ro (note_valid_frame hw s) = ro s" "ro (note_matching_pong hw s) = ro s"
  by (simp_all add: note_valid_frame_def note_matching_pong_def diagnostic_now_ms_def Let_def)

lemma forward_telemetry_gw_ok:
  assumes "gw_ok s" "packet_ok (g_rs422_received_packet (ro s))"
  shows "gw_ok (forward_telemetry s)" "ro (forward_telemetry s) = ro s"
proof -
  obtain st q where put: "osMessageQueuePut (udp_telemetry_queue (qs s)) (Some (g_rs422_received_packet (ro s))) = (st, q)" by fastforce
  have "queue_holds UDP_TELEMETRY_QUEUE_DEPTH MSG_TELEMETRY q" if "pk_msg_id (g_rs422_received_packet (ro s)) = MSG_TELEMETRY"
    using assms that put by (intro put_holds [OF _ _ _ put]) (simp_all add: gw_ok_def queues_ok_def)
  moreover have "udp_telemetry_queue (qs s) \<noteq> None"
    using assms(1) by (auto simp: gw_ok_def queues_ok_def queue_holds_def queue_ready_def)
  ultimately show "gw_ok (forward_telemetry s)" "ro (forward_telemetry s) = ro s"
    using assms(1) put by (auto simp: forward_telemetry_def gw_ok_def queues_ok_def Let_def)
qed

lemma forward_pong_gw_ok:
  assumes "gw_ok s" "packet_ok (g_rs422_received_packet (ro s))"
  shows "gw_ok (forward_pong hw s)" "ro (forward_pong hw s) = ro s"
proof -
  have enqueue: "gw_ok (enqueue_response t)" "ro (enqueue_response t) = ro t"
    if "gw_ok t" "packet_ok (g_rs422_received_packet (ro t))" "pk_msg_id (g_rs422_received_packet (ro t)) = MSG_PONG" for t :: "'a gw"
  proof -
    obtain st q where put: "osMessageQueuePut (tcp_response_queue (qs t)) (Some (g_rs422_received_packet (ro t))) = (st, q)" by fastforce
    have "queue_holds TCP_RESPONSE_QUEUE_DEPTH MSG_PONG q"
      using that put by (intro put_holds [OF _ _ _ put]) (simp_all add: gw_ok_def queues_ok_def)
    moreover have "tcp_response_queue (qs t) \<noteq> None"
      using that(1) by (auto simp: gw_ok_def queues_ok_def queue_holds_def queue_ready_def)
    ultimately show "gw_ok (enqueue_response t)" "ro (enqueue_response t) = ro t"
      using that(1) put by (auto simp: enqueue_response_def gw_ok_def queues_ok_def Let_def osThreadFlagsSet_def)
  qed
  show "gw_ok (forward_pong hw s)" "ro (forward_pong hw s) = ro s"
    using assms enqueue [of "(note_matching_pong hw s)\<lparr>rs := x\<rparr>" for x] by (simp_all add: forward_pong_def Let_def)
qed

lemma rs422_feed_gw_ok:
  assumes ok: "gw_ok s"
  shows "gw_ok (snd (rs422_feed hw e k b s))"
proof -
  obtain ev p r where f: "feed_byte (g_rs422_parser (ro s)) b (g_rs422_received_packet (ro s)) = (ev, p, r)"
    using prod_cases3 by blast
  have "step_ok (g_rs422_parser (ro s)) b (g_rs422_received_packet (ro s)) (ev, p, r)"
    using ok feed_byte_ok [of "g_rs422_parser (ro s)" "g_rs422_received_packet (ro s)" b] by (simp add: f gw_ok_def rs422_objects_ok_def)
  then have r: "parser_inv p" "packet_wf r" "ev = STREAM_EVENT_FRAME \<Longrightarrow> packet_ok r" by (simp_all add: step_ok_def)
  define t where "t = s\<lparr>ro := (ro s)\<lparr>g_rs422_parser := p, g_rs422_received_packet := r\<rparr>\<rparr>"
  have t: "gw_ok t" using ok r(1,2) by (simp add: t_def gw_ok_def rs422_objects_ok_def)
  have "gw_ok (snd (rs422_frame hw e k t))" if "packet_ok (g_rs422_received_packet (ro t))"
  proof -
    have "gw_ok (note_valid_frame hw t)" "packet_ok (g_rs422_received_packet (ro (note_valid_frame hw t)))" using t that by simp_all
    note tele = forward_telemetry_gw_ok [OF this]
    have "gw_ok (forward_pong hw (forward_telemetry (note_valid_frame hw t)))"
      using tele that by (intro forward_pong_gw_ok) simp_all
    then show ?thesis by (simp add: rs422_frame_def Let_def)
  qed
  moreover have "g_rs422_received_packet (ro t) = r" by (simp add: t_def)
  ultimately show ?thesis using t r(3) unfolding rs422_feed_def f Let_def prod.case t_def [symmetric] by simp
qed

lemma process_rx_gw_ok: "gw_ok s \<Longrightarrow> gw_ok (snd (rs422_process_rx_buffer hw e k s))"
proof -
  have "gw_ok s \<Longrightarrow> gw_ok (snd (rx_loop hw e k m s))" for m
  proof (induction hw e k m s rule: rx_loop.induct)
    case (1 hw e k m s)
    obtain r t where pop: "rs422_rx_ring_pop s = (r, t)" by fastforce
    have t: "gw_ok t" using pop_gw_ok [OF 1(2)] pop by simp
    show ?case
    proof (cases r)
      case None
      then show ?thesis using pop t by (subst rx_loop.simps) simp
    next
      case (Some b)
      obtain m' u where f: "rs422_feed hw e k b t = (m', u)" by fastforce
      have "gw_ok u" using rs422_feed_gw_ok [OF t] f by (metis snd_conv)
      with Some pop f show ?thesis by (subst rx_loop.simps) (simp add: 1(1))
    qed
  qed
  then show "gw_ok s \<Longrightarrow> gw_ok (snd (rs422_process_rx_buffer hw e k s))" by (simp add: rs422_process_rx_buffer_def)
qed

subsubsection \<open>The transmitter\<close>

lemma events_gw_ok [simp]: "gw_ok (handle_events f s) = gw_ok s"
  by (simp add: handle_events_def rs422_handle_tx_done_event_def rs422_handle_tcp_context_reset_event_def)

lemma counts_gw_ok [simp]:
  "gw_ok (count_rs422_tx_error s) = gw_ok s" "gw_ok (count_tx_timeout s) = gw_ok s" "gw_ok (count_tx_busy s) = gw_ok s"
  "gw_ok (set_tx_busy v s) = gw_ok s" "gw_ok (clear_pending m s) = gw_ok s" "gw_ok (note_ping_tx hw m s) = gw_ok s"
  "gw_ok (transmission_refused st s) = gw_ok s" "gw_ok (snd (start_transmission hw f s)) = gw_ok s"
  "gw_ok (count_uart_rx_error s) = gw_ok s"
  by (simp_all add: count_rs422_tx_error_def count_tx_timeout_def count_tx_busy_def set_tx_busy_def clear_pending_def
      note_ping_tx_def transmission_refused_def start_transmission_def count_uart_rx_error_def diagnostic_now_ms_def Let_def)

lemma gw_ok_ro [simp]: "gw_ok (s\<lparr>rs := x, ro := y\<rparr>) = gw_ok (s\<lparr>ro := y\<rparr>)"
  by (simp add: gw_ok_def)

lemma gw_ok_tx_frame [simp]:
  "gw_ok s \<Longrightarrow> gw_ok (s\<lparr>ro := (ro s)\<lparr>g_rs422_tx_frame := f\<rparr>\<rparr>) \<longleftrightarrow> length f = PROTOCOL_MAX_FRAME_SIZE"
  "gw_ok s \<Longrightarrow> gw_ok (s\<lparr>ro := (ro s)\<lparr>g_rs422_ping_packet := m, g_rs422_tx_frame := f\<rparr>\<rparr>) \<longleftrightarrow>
    length f = PROTOCOL_MAX_FRAME_SIZE \<and> packet_wf m"
  by (auto simp: gw_ok_def rs422_objects_ok_def)

lemma take_command_gw_ok:
  assumes "gw_ok s" "take_command s = (b, t)"
  shows "gw_ok t \<and> (b \<longrightarrow> packet_ok (g_rs422_command_packet (ro t)) \<and> pk_msg_id (g_rs422_command_packet (ro t)) = MSG_PING)"
proof -
  obtain st q m where get: "osMessageQueueGet (rs422_cmd_queue (qs s)) (Some (g_rs422_command_packet (ro s))) = (st, q, m)"
    using prod_cases3 by blast
  have h: "queue_holds RS422_CMD_QUEUE_DEPTH MSG_PING (rs422_cmd_queue (qs s))" using assms(1) by (simp add: gw_ok_def queues_ok_def)
  then have "rs422_cmd_queue (qs s) \<noteq> None" by (auto simp: queue_holds_def queue_ready_def)
  with assms(2) get have run: "b = (st = osOK)" "t = s\<lparr>qs := (qs s)\<lparr>rs422_cmd_queue := q\<rparr>, ro := (ro s)\<lparr>g_rs422_command_packet := the m\<rparr>\<rparr>"
    by (simp_all add: take_command_def)
  have "packet_wf (the m)" using get_holds [OF h get] assms(1)
    by (cases "st = osOK") (simp_all add: packet_ok_wf gw_ok_def rs422_objects_ok_def)
  with get_holds [OF h get] assms(1) show ?thesis
    by (cases "st = osOK") (simp_all add: run gw_ok_def queues_ok_def rs422_objects_ok_def)
qed

subsection \<open>The Ethernet side\<close>

subsubsection \<open>Waiting for the chip\<close>

lemma looks_gw_ok [simp]:
  "gw_ok (snd (socket0_command_look hw c s)) = gw_ok s" "gw_ok (snd (socket1_command_look hw c s)) = gw_ok s"
  "gw_ok (snd (socket0_status_look hw c s)) = gw_ok s" "gw_ok (snd (socket1_status_look hw c s)) = gw_ok s"
  "gw_ok (snd (tcp_tx_free_look hw n s)) = gw_ok s" "gw_ok (snd (udp_tx_free_look hw n s)) = gw_ok s"
  "gw_ok (snd (tcp_send_result_look hw s)) = gw_ok s" "gw_ok (snd (udp_send_result_look hw s)) = gw_ok s"
  by (simp_all add: socket0_command_look_def socket1_command_look_def socket0_status_look_def socket1_status_look_def
      tcp_tx_free_look_def udp_tx_free_look_def tcp_send_result_look_def udp_send_result_look_def Let_def split: prod.split)

subsubsection \<open>Sending\<close>

lemma transfer_size: "spi_transfer hw tx x e = (st, x', e') \<Longrightarrow> length x' = length x"
  by (auto simp: spi_transfer_def Let_def split: prod.splits)

lemma send_chunks_size: "send_chunks hw c d n i x e = (st, x', e') \<Longrightarrow> length x' = length x"
proof (induction "n - i" arbitrary: i x e rule: less_induct)
  case less
  show ?case
  proof (cases "i < n \<and> 0 < c")
    case True
    define k where "k = (if n - i > c then c else n - i)"
    obtain st1 x1 e1 where t: "spi_transfer hw (take k (drop i d)) x e = (st1, x1, e1)" using prod_cases3 by blast
    have "(st, x', e') = (if st1 = HAL_OK then send_chunks hw c d n (i + k) x1 e1 else (st1, x1, e1))"
      using less.prems True t by (subst (asm) send_chunks.simps) (auto simp: Let_def k_def split: if_splits)
    moreover have "n - (i + k) < n - i" using True by (auto simp: k_def)
    ultimately show ?thesis using less.hyps [of "i + k" x1 e1] transfer_size [OF t] by (auto split: if_splits)
  next
    case False
    then show ?thesis using less.prems by (subst (asm) send_chunks.simps) auto
  qed
qed

lemma tx_buffer_size:
  "w5500_socket0_write_tx_buffer hw a d n x e = (st, x', e') \<Longrightarrow> length x' = length x"
  "w5500_socket1_write_tx_buffer hw a d n x e = (st, x', e') \<Longrightarrow> length x' = length x"
  by (auto simp: w5500_socket0_write_tx_buffer_def w5500_socket1_write_tx_buffer_def Let_def
      split: if_splits prod.splits dest: send_chunks_size)

lemma rx_buffer_size: "w5500_socket0_read_rx_buffer hw a x n d e = (st, x', e') \<Longrightarrow> length x' = length x"
  by (auto simp: w5500_socket0_read_rx_buffer_def Let_def split: if_splits prod.splits dest: transfer_size)

text \<open>Updates of the buffers.\<close>

lemma gw_ok_buffers [simp]:
  "gw_ok s \<Longrightarrow> gw_ok (s\<lparr>tob := (tob s)\<lparr>g_w5500_tcp_tx_frame := b\<rparr>\<rparr>) \<longleftrightarrow> length b = PROTOCOL_MAX_FRAME_SIZE"
  "gw_ok s \<Longrightarrow> gw_ok (s\<lparr>tob := (tob s)\<lparr>g_w5500_tcp_rx_dummy := b\<rparr>\<rparr>) \<longleftrightarrow> length b = W5500_TCP_RX_CHUNK_SIZE"
  "gw_ok s \<Longrightarrow> gw_ok (s\<lparr>tob := (tob s)\<lparr>g_w5500_tcp_rx_chunk := b\<rparr>\<rparr>) \<longleftrightarrow> length b = W5500_TCP_RX_CHUNK_SIZE"
  "gw_ok s \<Longrightarrow> gw_ok (s\<lparr>tob := (tob s)\<lparr>g_tcp_parser := p\<rparr>\<rparr>) \<longleftrightarrow> parser_inv p"
  "gw_ok s \<Longrightarrow> gw_ok (s\<lparr>uo := (uo s)\<lparr>g_w5500_udp_tx_frame := b\<rparr>\<rparr>) \<longleftrightarrow> length b = PROTOCOL_MAX_FRAME_SIZE"
  "gw_ok s \<Longrightarrow> gw_ok (s\<lparr>uo := (uo s)\<lparr>g_w5500_udp_spi_discard := b\<rparr>\<rparr>) \<longleftrightarrow> length b = W5500_UDP_SPI_CHUNK_SIZE"
  "gw_ok (s\<lparr>env := e, tob := t\<rparr>) = gw_ok (s\<lparr>tob := t\<rparr>)" "gw_ok (s\<lparr>env := e, uo := u\<rparr>) = gw_ok (s\<lparr>uo := u\<rparr>)"
  by (auto simp: gw_ok_def tcp_objects_ok_def udp_objects_ok_def)

lemma buffer_sizes:
  "gw_ok s \<Longrightarrow> length (g_w5500_tcp_rx_dummy (tob s)) = W5500_TCP_RX_CHUNK_SIZE \<and>
    length (g_w5500_tcp_rx_chunk (tob s)) = W5500_TCP_RX_CHUNK_SIZE \<and> length (g_w5500_tcp_tx_frame (tob s)) = PROTOCOL_MAX_FRAME_SIZE \<and>
    length (g_w5500_udp_spi_discard (uo s)) = W5500_UDP_SPI_CHUNK_SIZE \<and> length (g_w5500_udp_tx_frame (uo s)) = PROTOCOL_MAX_FRAME_SIZE"
  by (simp add: gw_ok_def tcp_objects_ok_def udp_objects_ok_def)

lemma packets_wf:
  "gw_ok s \<Longrightarrow> packet_wf (g_tcp_pong_packet (tob s)) \<and> packet_wf (g_udp_telemetry_packet (uo s)) \<and> packet_wf (g_udp_forward_packet (uo s))"
  by (simp add: gw_ok_def tcp_objects_ok_def udp_objects_ok_def)

lemma notes_gw_ok [simp]:
  "gw_ok (note_pong_send hw s) = gw_ok s" "gw_ok (ethernet_diag_record_tcp_pong_tx_success hw s) = gw_ok s"
  "gw_ok (ethernet_diag_record_udp_tx_success hw s) = gw_ok s" "gw_ok (ethernet_diag_record_tcp_service_ready hw s) = gw_ok s"
  "gw_ok (note_first_ping hw s) = gw_ok s" "gw_ok (note_rx_ready hw s) = gw_ok s"
  "tob (note_first_ping hw s) = tob s" "qs (note_first_ping hw s) = qs s"
  by (simp_all add: note_pong_send_def ethernet_diag_record_tcp_pong_tx_success_def ethernet_diag_record_udp_tx_success_def
      ethernet_diag_record_tcp_service_ready_def note_first_ping_def note_rx_ready_def diagnostic_now_ms_def Let_def)

lemma after_send_gw_ok [simp]: "gw_ok (tcp_after_send hw n st s) = gw_ok s"
  by (simp add: tcp_after_send_def Let_def)

subsubsection \<open>Receiving and the connection\<close>

lemma enqueue_command_gw_ok:
  assumes "gw_ok s" "packet_ok (g_tcp_received_packet (tob s))" "pk_msg_id (g_tcp_received_packet (tob s)) = MSG_PING"
  shows "gw_ok (enqueue_command s)"
proof -
  obtain st q where put: "osMessageQueuePut (rs422_cmd_queue (qs s)) (Some (g_tcp_received_packet (tob s))) = (st, q)" by fastforce
  have "queue_holds RS422_CMD_QUEUE_DEPTH MSG_PING q"
    using assms put by (intro put_holds [OF _ _ _ put]) (simp_all add: gw_ok_def queues_ok_def)
  then have "gw_ok (s\<lparr>qs := (qs s)\<lparr>rs422_cmd_queue := q\<rparr>\<rparr>)" using assms(1) by (simp add: gw_ok_def queues_ok_def)
  moreover have "rs422_cmd_queue (qs s) \<noteq> None"
    using assms(1) by (auto simp: gw_ok_def queues_ok_def queue_holds_def queue_ready_def)
  ultimately show ?thesis using put by (simp add: enqueue_command_def Let_def)
qed

lemma tcp_feed_gw_ok:
  assumes ok: "gw_ok s"
  shows "gw_ok (tcp_feed hw b s)"
proof -
  obtain ev p r where f: "feed_byte (g_tcp_parser (tob s)) b (g_tcp_received_packet (tob s)) = (ev, p, r)"
    using prod_cases3 by blast
  have "step_ok (g_tcp_parser (tob s)) b (g_tcp_received_packet (tob s)) (ev, p, r)"
    using ok feed_byte_ok [of "g_tcp_parser (tob s)" "g_tcp_received_packet (tob s)" b] by (simp add: f gw_ok_def tcp_objects_ok_def)
  then have r: "parser_inv p" "packet_wf r" "ev = STREAM_EVENT_FRAME \<Longrightarrow> packet_ok r" by (simp_all add: step_ok_def)
  define t where "t = s\<lparr>tob := (tob s)\<lparr>g_tcp_parser := p, g_tcp_received_packet := r\<rparr>\<rparr>"
  have t: "gw_ok t" "g_tcp_received_packet (tob t) = r" using ok r(1,2) by (simp_all add: t_def gw_ok_def tcp_objects_ok_def)
  have "gw_ok (w5500_tcp_handle_valid_frame hw t)" if "packet_ok r"
    unfolding w5500_tcp_handle_valid_frame_def Let_def using t that by (auto intro!: enqueue_command_gw_ok)
  then show ?thesis using t r(3) unfolding tcp_feed_def f Let_def prod.case t_def [symmetric]
    by (simp split: stream_parser_event_t.split)
qed

lemma take_response_gw_ok: "gw_ok s \<Longrightarrow> gw_ok (snd (take_response s))"
proof -
  assume ok: "gw_ok s"
  obtain st q m where get: "osMessageQueueGet (tcp_response_queue (qs s)) (Some (g_tcp_pong_packet (tob s))) = (st, q, m)"
    using prod_cases3 by blast
  have h: "queue_holds TCP_RESPONSE_QUEUE_DEPTH MSG_PONG (tcp_response_queue (qs s))" using ok by (simp add: gw_ok_def queues_ok_def)
  have "packet_wf (the m)" using get_holds [OF h get] packets_wf [OF ok] by (cases "st = osOK") (simp_all add: packet_ok_wf)
  then show ?thesis using get_holds [OF h get] ok get
    by (simp add: take_response_def gw_ok_def queues_ok_def tcp_objects_ok_def)
qed

lemma discard_gw_ok: "gw_ok s \<Longrightarrow> gw_ok (w5500_tcp_discard_stale_responses s)"
proof -
  have "gw_ok s \<Longrightarrow> gw_ok (discard_loop n s)" for n and s :: "'a gw"
  proof (induction n arbitrary: s)
    case (Suc n)
    then show ?case using take_response_gw_ok [of s] by (cases "take_response s") simp
  qed simp
  then show "gw_ok s \<Longrightarrow> gw_ok (w5500_tcp_discard_stale_responses s)"
    by (simp add: w5500_tcp_discard_stale_responses_def del: TCP_RESPONSE_QUEUE_DEPTH_def)
qed

lemma gw_ok_tob [simp]:
  "gw_ok (s\<lparr>sv := x, tob := t\<rparr>) = gw_ok (s\<lparr>tob := t\<rparr>)" "gw_ok (s\<lparr>dg := y, tob := t\<rparr>) = gw_ok (s\<lparr>tob := t\<rparr>)"
  by (simp_all add: gw_ok_def)

lemma invalidate_gw_ok: "gw_ok s \<Longrightarrow> gw_ok (w5500_tcp_invalidate_connection_context s)"
  by (simp add: w5500_tcp_invalidate_connection_context_def Let_def discard_gw_ok)

lemma server_gw_ok [simp]:
  "gw_ok (set_socket0_spi_status st s) = gw_ok s" "gw_ok (tcp_not_ready s) = gw_ok s"
  by (simp_all add: set_socket0_spi_status_def tcp_not_ready_def)

subsubsection \<open>The task\<close>

lemma link_gw_ok:
  assumes "gw_ok s"
  shows "gw_ok (snd (link_lost hw l s))" "gw_ok (snd (link_restored hw l s))"
  using assms by (simp_all add: link_lost_def link_restored_def Let_def invalidate_gw_ok)

lemma phy_poll_gw_ok: "gw_ok s \<Longrightarrow> gw_ok (snd (eth_phy_poll hw l s))"
proof -
  assume ok: "gw_ok s"
  obtain st v e where r: "w5500_read_common_register hw W5500_PHYCFGR_ADDRESS 0 (env s) = (st, v, e)" using prod_cases3 by blast
  show ?thesis unfolding eth_phy_poll_def r Let_def prod.case using ok by (simp add: case_prod_beta link_gw_ok)
qed

lemma session_gw_ok: "gw_ok s \<Longrightarrow> gw_ok (snd (eth_session tick v l s))"
  by (simp add: eth_session_def Let_def invalidate_gw_ok discard_gw_ok)

lemma socket_poll_gw_ok: "gw_ok s \<Longrightarrow> gw_ok (snd (eth_socket_poll hw l s))"
  by (simp add: eth_socket_poll_def Let_def session_gw_ok split: prod.split)

lemma take_telemetry_gw_ok: "gw_ok s \<Longrightarrow> gw_ok (snd (take_telemetry s))"
proof -
  assume ok: "gw_ok s"
  obtain st q m where get: "osMessageQueueGet (udp_telemetry_queue (qs s)) (Some (g_udp_forward_packet (uo s))) = (st, q, m)"
    using prod_cases3 by blast
  have h: "queue_holds UDP_TELEMETRY_QUEUE_DEPTH MSG_TELEMETRY (udp_telemetry_queue (qs s))" using ok by (simp add: gw_ok_def queues_ok_def)
  have "packet_wf (the m)" using get_holds [OF h get] packets_wf [OF ok] by (cases "st = osOK") (simp_all add: packet_ok_wf)
  then show ?thesis using get_holds [OF h get] ok get
    by (auto simp: take_telemetry_def gw_ok_def queues_ok_def udp_objects_ok_def)
qed

lemma configure_gw_ok [simp]: "gw_ok (eth_configure_network hw s) = gw_ok s"
  by (simp add: eth_configure_network_def Let_def split: prod.split)

end
