(* ===== verification/GwTransmit.thy ===== *)
theory GwTransmit
  imports GwLink
begin

text \<open>
  The waits of the RS-422 task. While it waits, interrupts and other tasks run; what it may rely
  on is stated as \<open>rs422_rely\<close>. Under this and a clock that advances, the waits return in
  bounded time and report exactly what has happened.
\<close>

subsection \<open>Interference\<close>

text \<open>
  Nothing but the RS-422 task writes the transmitter's state or takes bytes out of the ring;
  interrupts push into the ring.
\<close>

definition tx_state :: "'e gw \<Rightarrow> u32 \<times> u32" where
  "tx_state s = (g_rs422_tx_busy (rs s), g_rs422_tx_complete_count (rs s))"

definition rs422_rely :: "'e hw \<Rightarrow> bool" where
  "rs422_rely hw \<longleftrightarrow> (\<forall>n s. (rx_ring_inv s \<longrightarrow> rx_ring_inv (suspend hw n s)) \<and> tx_state (suspend hw n s) = tx_state s)"

subsection \<open>The cost of receiving\<close>

lemma clock_env:
  assumes "clock_ok hw now G B"
  shows "within now G B e (snd (osKernelGetTickCount hw e))"
  using assms by (simp add: clock_ok_def)

lemma clock_suspend:
  assumes "clock_ok hw now G B"
  shows "now (env s) < now (env (suspend hw n s))"
    "ticks_of now G (env (suspend hw n s)) \<le> ticks_of now G (env s) + unat n + B"
  using assms by (simp_all add: clock_ok_def within_def add.assoc)

lemma feed_time:
  assumes "clock_ok hw now G B"
  shows "within now G (2 * B) (env s) (env (snd (rs422_feed hw e k b s)))"
proof -
  have v: "within now G B (env s) (env (note_valid_frame hw s))" for s
    using clock_env [OF assms] by (simp add: note_valid_frame_def Let_def)
  have t: "env (forward_telemetry s) = env s" for s :: "'e gw"
    by (simp add: forward_telemetry_def Let_def split: prod.split)
  have q: "env (enqueue_response s) = env s" for s :: "'e gw"
    by (simp add: enqueue_response_def Let_def split: prod.split)
  have p: "within now G B (env s) (env (forward_pong hw s))" for s
    using clock_env [OF assms] by (simp add: forward_pong_def q note_matching_pong_def diagnostic_now_ms_def Let_def)
  have f: "within now G (2 * B) (env s) (env (snd (rs422_frame hw e k s)))" for s
  proof -
    have "within now G B (env (note_valid_frame hw s)) (env (snd (rs422_frame hw e k s)))"
      using p [of "forward_telemetry (note_valid_frame hw s)"] by (simp add: rs422_frame_def t Let_def)
    from within_trans [OF v this, of "2 * B"] show ?thesis by simp
  qed
  have "within now G (2 * B) (env s) (env (snd (rs422_frame hw e k (s\<lparr>ro := r\<rparr>))))" for r
    using f [of "s\<lparr>ro := r\<rparr>"] by simp
  then show ?thesis by (simp add: rs422_feed_def Let_def split: prod.split)
qed

lemma feed_keeps:
  "tx_state (snd (rs422_feed hw e k b s)) = tx_state s"
  "rs422_flags (kn (snd (rs422_feed hw e k b s))) = rs422_flags (kn s)"
proof -
  have v: "tx_state (note_valid_frame hw s) = tx_state s" "kn (note_valid_frame hw s) = kn s" for s
    by (simp_all add: note_valid_frame_def tx_state_def Let_def)
  have t: "tx_state (forward_telemetry s) = tx_state s" "kn (forward_telemetry s) = kn s" for s :: "'a gw"
    by (simp_all add: forward_telemetry_def tx_state_def Let_def split: prod.split)
  have q: "tx_state (enqueue_response s) = tx_state s" "rs422_flags (kn (enqueue_response s)) = rs422_flags (kn s)" for s :: "'a gw"
    by (simp_all add: enqueue_response_def tx_state_def Let_def split: prod.split)
  have p: "tx_state (forward_pong hw s) = tx_state s" "rs422_flags (kn (forward_pong hw s)) = rs422_flags (kn s)" for s
    by (simp_all add: forward_pong_def q note_matching_pong_keeps Let_def) (simp add: tx_state_def note_matching_pong_keeps)
  show "tx_state (snd (rs422_feed hw e k b s)) = tx_state s"
    "rs422_flags (kn (snd (rs422_feed hw e k b s))) = rs422_flags (kn s)"
    by (simp_all add: rs422_feed_def rs422_frame_def v t p Let_def split: prod.split) (simp add: tx_state_def)
qed

text \<open>A pass over a ring of at most 512 bytes.\<close>

lemma rx_loop_pass:
  assumes clk: "clock_ok hw now G B"
  shows "\<lbrakk>rx_ring_inv s; length (rx_ring_bytes s) \<le> n; rx_loop hw e k mt s = (m, t)\<rbrakk> \<Longrightarrow>
    within now G (2 * n * B) (env s) (env t) \<and> tx_state t = tx_state s \<and> rs422_flags (kn t) = rs422_flags (kn s) \<and> rx_ring_inv t"
proof (induction n arbitrary: s mt)
  case 0
  then show ?case by (subst (asm) rx_loop.simps) (auto simp: pop_empty)
next
  case (Suc n)
  show ?case
  proof (cases "rx_ring_bytes s")
    case Nil
    with Suc.prems show ?thesis by (subst (asm) rx_loop.simps) (auto simp: pop_empty)
  next
    case (Cons b bs)
    obtain v s1 where pop: "rs422_rx_ring_pop s = (v, s1)" by fastforce
    have v: "v = Some b" "rx_ring_inv s1" "rx_ring_bytes s1 = bs" "env s1 = env s"
      using pop_head [OF Suc.prems(1) Cons] pop by (auto simp: rs422_rx_ring_pop_def Let_def split: if_splits)
    obtain matched s2 where feed: "rs422_feed hw e k b s1 = (matched, s2)" by fastforce
    have r2: "rx_ring_bytes s2 = bs" "rx_ring_inv s2"
      using ring_view_ro [of s2 s1] rs422_feed_ring [of hw e k b s1] feed v by auto
    have "rx_loop hw e k (if matched then 1 else mt) s2 = (m, t)"
      using Suc.prems(3) by (subst (asm) rx_loop.simps) (simp add: pop v feed)
    with Suc.IH [OF r2(2)] r2(1) Suc.prems(2) Cons
    have t: "within now G (2 * n * B) (env s2) (env t)" "tx_state t = tx_state s2" "rs422_flags (kn t) = rs422_flags (kn s2)" "rx_ring_inv t"
      by auto
    have "within now G (2 * B) (env s) (env s2)" "tx_state s2 = tx_state s" "rs422_flags (kn s2) = rs422_flags (kn s)"
      using feed_time [OF clk, of s1 e k b] feed_keeps [of hw e k b s1] feed v pop_link [OF pop] by (simp_all add: tx_state_def)
    with t show ?thesis by (auto intro: within_trans simp: algebra_simps)
  qed
qed

lemma rx_pass:
  assumes "clock_ok hw now G B" "rx_ring_inv s" "rs422_process_rx_buffer hw e k s = (m, t)"
  shows "within now G (1024 * B) (env s) (env t)" "tx_state t = tx_state s" "rs422_flags (kn t) = rs422_flags (kn s)" "rx_ring_inv t"
  using rx_loop_pass [OF assms(1,2), of 512 e k 0 m t] assms(3) rx_ring.within_capacity [OF assms(2)]
  by (simp_all add: rs422_process_rx_buffer_def)

subsection \<open>Waiting for flags\<close>

text \<open>Here the flag constants and outcomes stay symbolic.\<close>

lemmas wait_constants = RS422_EVENT_MASK_def osFlagsError_def osFlagsErrorResource_def osFlagsErrorTimeout_def
  RS422_PING_TEST_PASS_def RS422_PING_TEST_TX_FAILURE_def RS422_PING_TEST_PONG_TIMEOUT_def RS422_PING_TEST_RX_FAILURE_def

declare wait_constants [simp del]

lemma poll_flags:
  obtains v s' where "osThreadFlagsWait hw RS422Task f 0 s = Some (v, s')" "rs s' = rs s" "ro s' = ro s" "env s' = env s"
    "rs422_flags (kn s') AND f = 0"
proof (cases "rs422_flags (kn s) AND f = 0")
  case True
  then show ?thesis by (intro that [of osFlagsErrorResource s]) (simp_all add: osThreadFlagsWait_def)
next
  case False
  then show ?thesis
    by (intro that [of "rs422_flags (kn s)" "s\<lparr>kn := set_task_flags RS422Task (rs422_flags (kn s) AND NOT f) (kn s)\<rparr>"])
      (simp_all add: osThreadFlagsWait_def Let_def and.assoc)
qed

lemma suspended_wait:
  assumes "rs422_flags (kn s) AND f = 0" "n \<noteq> 0" "n \<noteq> osWaitForever"
  obtains v s' where "osThreadFlagsWait hw RS422Task f n s = Some (v, s')" "rs s' = rs (suspend hw n s)"
    "ro s' = ro (suspend hw n s)" "env s' = env (suspend hw n s)"
proof (cases "rs422_flags (kn (suspend hw n s)) AND f = 0")
  case True
  with assms show ?thesis by (intro that [of osFlagsErrorTimeout "suspend hw n s"]) (simp_all add: osThreadFlagsWait_def)
next
  case False
  let ?t = "suspend hw n s"
  from False assms show ?thesis
    by (intro that [of "rs422_flags (kn ?t)" "?t\<lparr>kn := set_task_flags RS422Task (rs422_flags (kn ?t) AND NOT f) (kn ?t)\<rparr>"])
      (simp_all add: osThreadFlagsWait_def Let_def)
qed

lemma handle_events_keeps:
  "ro (handle_events f s) = ro s" "env (handle_events f s) = env s" "kn (handle_events f s) = kn s"
  by (simp_all add: handle_events_def rs422_handle_tx_done_event_def rs422_handle_tcp_context_reset_event_def)

text \<open>The transmitter's state after a wait: what changed is one completion.\<close>

definition tx_step :: "'e gw \<Rightarrow> 'e gw \<Rightarrow> bool" where
  "tx_step s t \<longleftrightarrow> tx_state t = tx_state s \<or>
     g_rs422_tx_busy (rs s) \<noteq> 0 \<and> tx_state t = (0, g_rs422_tx_complete_count (rs s) + 1)"

lemma handle_events_tx: "tx_step s (handle_events f s)"
  by (auto simp: handle_events_def rs422_handle_tx_done_event_def rs422_handle_tcp_context_reset_event_def
      tx_step_def tx_state_def)

definition tx_outcome :: "int \<Rightarrow> 'e gw \<Rightarrow> 'e gw \<Rightarrow> bool" where
  "tx_outcome r s t \<longleftrightarrow> r \<in> {RS422_PING_TEST_PASS, RS422_PING_TEST_TX_FAILURE} \<and> tx_step s t \<and>
     (r = RS422_PING_TEST_PASS \<longleftrightarrow> g_rs422_tx_busy (rs t) = 0)"

lemma tx_outcome_failed:
  "tx_state t = tx_state s \<Longrightarrow> g_rs422_tx_busy (rs s) \<noteq> 0 \<Longrightarrow> tx_outcome RS422_PING_TEST_TX_FAILURE s t"
  by (simp add: tx_outcome_def tx_step_def tx_state_def wait_constants)

lemma tx_outcome_passed: "tx_step s t \<Longrightarrow> g_rs422_tx_busy (rs t) = 0 \<Longrightarrow> tx_outcome RS422_PING_TEST_PASS s t"
  by (simp add: tx_outcome_def)

lemma tx_step_busy: "tx_state t = tx_state s \<Longrightarrow> g_rs422_tx_busy (rs t) = g_rs422_tx_busy (rs s)"
  by (simp add: tx_state_def)

lemma tx_step_trans: "tx_step s t \<Longrightarrow> tx_step t u \<Longrightarrow> tx_step s u"
  by (auto simp: tx_step_def tx_state_def)

lemma count_keeps_tx [simp]:
  "tx_state (count_tx_timeout s) = tx_state s" "tx_state (count_rs422_tx_error s) = tx_state s"
  "env (count_tx_timeout s) = env s" "env (count_rs422_tx_error s) = env s"
  "ro (count_tx_timeout s) = ro s" "ro (count_rs422_tx_error s) = ro s"
  by (simp_all add: count_tx_timeout_def count_rs422_tx_error_def tx_state_def)

lemma rx_ring_inv_ro: "ro t = ro s \<Longrightarrow> rx_ring_inv t \<longleftrightarrow> rx_ring_inv s"
  by (simp add: rx_ring_inv_def)

subsection \<open>The transmit wait returns\<close>

text \<open>The time left of a wait of \<open>T\<close> ticks that began at \<open>T0\<close>.\<close>

lemma time_left:
  assumes k: "T0 \<le> k" "k - T0 < 2 ^ 32" and T: "unat T < 2 ^ 31" and left: "\<not> T \<le> (of_nat k - of_nat T0 :: u32)"
  shows "unat (T - (of_nat k - of_nat T0)) = T0 + unat T - k" "k < T0 + unat T"
    "T - (of_nat k - of_nat T0) \<noteq> 0" "T - (of_nat k - of_nat T0) \<noteq> osWaitForever"
proof -
  have e: "unat (of_nat k - of_nat T0 :: u32) = k - T0" by (rule tick_elapsed [OF k])
  with left k(1) show early: "k < T0 + unat T" by (simp add: word_le_nat_alt)
  have "unat (T - (of_nat k - of_nat T0)) = unat T - unat (of_nat k - of_nat T0 :: u32)" using left by (intro unat_sub) simp
  then show n: "unat (T - (of_nat k - of_nat T0)) = T0 + unat T - k" unfolding e using k(1) by linarith
  with early T k(1) have "unat (T - (of_nat k - of_nat T0)) \<noteq> 0" "unat (T - (of_nat k - of_nat T0)) \<noteq> unat osWaitForever"
    by simp_all
  then show "T - (of_nat k - of_nat T0) \<noteq> 0" "T - (of_nat k - of_nat T0) \<noteq> osWaitForever" by (metis unat_0, metis)
qed

text \<open>The end of a round that found nothing: the wait is over, or the task sleeps for the time left.\<close>

lemma tx_wait_deadline:
  assumes clk: "clock_ok hw now G B" and inv: "rx_ring_inv v" and w: "within now G (1024 * B) (env s) (env v)"
    and T: "unat T < 2 ^ 31" and start: "T0 \<le> ticks_of now G (env s)" "ticks_of now G (env s) \<le> T0 + 2 ^ 30"
    and B: "1025 * B < 2 ^ 30"
    and run: "L = (let (now, s) = get_tick hw v; elapsed = now - of_nat T0
      in if elapsed \<ge> T then Some (x, count_tx_timeout s)
         else osThreadFlagsWait hw RS422Task RS422_EVENT_MASK (T - elapsed) s \<bind> k)"
  obtains (late) t where "L = Some (x, t)" "within now G (1025 * B) (env s) (env t)" "rx_ring_inv t" "tx_state t = tx_state v"
  | (wait) u n where "L = osThreadFlagsWait hw RS422Task RS422_EVENT_MASK n u \<bind> k" "within now G (1025 * B) (env s) (env u)"
      "rx_ring_inv u" "tx_state u = tx_state v" "kn u = kn v" "ticks_of now G (env u) < T0 + unat T"
      "unat n = T0 + unat T - ticks_of now G (env u)" "n \<noteq> osWaitForever" "n \<noteq> 0"
proof -
  define u where "u = snd (get_tick hw v)"
  define now0 where "now0 = fst (get_tick hw v)"
  have u: "within now G B (env v) (env u)" "now0 = of_nat (ticks_of now G (env u))" "rs u = rs v" "ro u = ro v" "kn u = kn v"
    using clock_tick [OF clk, of v] by (simp_all add: u_def now0_def)
  have wu: "within now G (1025 * B) (env s) (env u)" by (rule within_trans [OF w u(1)]) simp
  have inv_u: "rx_ring_inv u" "tx_state u = tx_state v" using inv rx_ring_inv_ro [OF u(4)] u(3) by (simp_all add: tx_state_def)
  have after: "T0 \<le> ticks_of now G (env u)" "ticks_of now G (env u) - T0 < 2 ^ 32"
    using wu start B ticks_mono [of now "env s" "env u" G] by (auto simp: within_def)
  show ?thesis
  proof (cases "T \<le> now0 - of_nat T0")
    case True
    then have "L = Some (x, count_tx_timeout u)" by (simp add: run u_def now0_def)
    then show ?thesis using wu inv_u rx_ring_inv_ro [of "count_tx_timeout u" u] by (intro late [of "count_tx_timeout u"]) simp_all
  next
    case False
    define n where "n = T - (now0 - of_nat T0)"
    note n = time_left [OF after T False [unfolded u(2)], folded u(2), folded n_def]
    have "L = osThreadFlagsWait hw RS422Task RS422_EVENT_MASK n u \<bind> k" using False by (simp add: run u_def now0_def n_def)
    then show ?thesis using wu inv_u u(5) n by (intro wait [of n u]) simp_all
  qed
qed

text \<open>
  One round of the wait, as far as the suspension: either it decides the outcome or it goes to
  sleep with nothing pending, for the time left.
\<close>

lemma tx_wait_round:
  assumes clk: "clock_ok hw now G B" and inv: "rx_ring_inv s" and busy: "g_rs422_tx_busy (rs s) \<noteq> 0"
    and T: "0 < unat T" "unat T < 2 ^ 31" and start: "T0 \<le> ticks_of now G (env s)" "ticks_of now G (env s) \<le> T0 + 2 ^ 30"
    and B: "1025 * B < 2 ^ 30"
  obtains (finish) r m t where "tx_wait_loop hw e T (of_nat T0) mt s = Some ((r, m), t)" "tx_outcome r s t" "rx_ring_inv t"
      "within now G (2049 * B) (env s) (env t)"
  | (sleep) m u n where "within now G (1025 * B) (env s) (env u)" "rx_ring_inv u" "tx_state u = tx_state s"
      "rs422_flags (kn u) AND RS422_EVENT_MASK = 0" "ticks_of now G (env u) < T0 + unat T"
      "unat n = T0 + unat T - ticks_of now G (env u)" "n \<noteq> osWaitForever" "n \<noteq> 0"
      "tx_wait_loop hw e T (of_nat T0) mt s = do {
         (flags, s) \<leftarrow> osThreadFlagsWait hw RS422Task RS422_EVENT_MASK n u;
         if flags = osFlagsErrorTimeout then Some ((RS422_PING_TEST_TX_FAILURE, m), count_tx_timeout s)
         else if flags AND osFlagsError \<noteq> 0 then Some ((RS422_PING_TEST_TX_FAILURE, m), count_rs422_tx_error s)
         else tx_wait_loop hw e T (of_nat T0) m (handle_events flags s) }"
proof -
  obtain m1 s1 where rx: "rs422_process_rx_buffer hw e 1 s = (m1, s1)" by fastforce
  note s1 = rx_pass [OF clk inv rx]
  obtain pf s2 where poll: "osThreadFlagsWait hw RS422Task RS422_EVENT_MASK 0 s1 = Some (pf, s2)" "rs s2 = rs s1" "ro s2 = ro s1"
    "env s2 = env s1" "rs422_flags (kn s2) AND RS422_EVENT_MASK = 0" by (rule poll_flags)
  define s3 where "s3 = (if pf AND osFlagsError = 0 then handle_events pf s2 else s2)"
  have s3: "ro s3 = ro s1" "env s3 = env s1" "kn s3 = kn s2" "tx_step s s3" 
    using poll handle_events_tx [of s2 pf] s1(2) by (auto simp: s3_def handle_events_keeps tx_step_def tx_state_def)
  have inv3: "rx_ring_inv s3" using s1(4) rx_ring_inv_ro [OF s3(1)] by simp
  note loop = tx_wait_loop.simps [of hw e T "of_nat T0" mt s]
  show ?thesis
  proof (cases "pf AND osFlagsError \<noteq> 0 \<and> pf \<noteq> osFlagsErrorResource")
    case True
    let ?t = "count_rs422_tx_error s2"
    have "tx_wait_loop hw e T (of_nat T0) mt s = Some ((RS422_PING_TEST_TX_FAILURE, mt OR m1), ?t)"
      using True busy by (subst loop) (simp add: rx poll(1) Let_def)
    moreover have "tx_state ?t = tx_state s" using s1(2) poll(2) by (simp add: tx_state_def count_rs422_tx_error_def)
    moreover have "within now G (2049 * B) (env s) (env ?t)" using s1(1) poll(4) by (auto intro: within_mono)
    moreover have "rx_ring_inv ?t" using s1(4) poll(3) rx_ring_inv_ro [of ?t s1] by simp
    ultimately show ?thesis by (metis finish tx_outcome_failed busy)
  next
    case no_error: False
    show ?thesis
    proof (cases "g_rs422_tx_busy (rs s3) = 0")
      case True
      obtain m2 t where rx2: "rs422_process_rx_buffer hw e 1 s3 = (m2, t)" by fastforce
      note t = rx_pass [OF clk inv3 rx2]
      have "tx_wait_loop hw e T (of_nat T0) mt s = Some ((RS422_PING_TEST_PASS, (mt OR m1) OR m2), t)"
        using busy True rx2 by (subst loop) (simp add: rx poll(1) no_error Let_def flip: s3_def)
      moreover have "tx_step s t" "g_rs422_tx_busy (rs t) = 0"
        using s3(4) t(2) True by (auto simp: tx_step_def tx_state_def)
      moreover have "within now G (2049 * B) (env s) (env t)"
        by (rule within_trans [OF s1(1) t(1) [unfolded s3(2)]]) simp
      ultimately show ?thesis by (metis finish tx_outcome_passed t(4))
    next
      case still: False
      then have tx3: "tx_state s3 = tx_state s" using s3(4) by (auto simp: tx_step_def tx_state_def)
      have "tx_wait_loop hw e T (of_nat T0) mt s = (let (now, s) = get_tick hw s3; elapsed = now - of_nat T0
        in if elapsed \<ge> T then Some ((RS422_PING_TEST_TX_FAILURE, mt OR m1), count_tx_timeout s)
           else osThreadFlagsWait hw RS422Task RS422_EVENT_MASK (T - elapsed) s \<bind> (\<lambda>(flags, s).
             if flags = osFlagsErrorTimeout then Some ((RS422_PING_TEST_TX_FAILURE, mt OR m1), count_tx_timeout s)
             else if flags AND osFlagsError \<noteq> 0 then Some ((RS422_PING_TEST_TX_FAILURE, mt OR m1), count_rs422_tx_error s)
             else tx_wait_loop hw e T (of_nat T0) (mt OR m1) (handle_events flags s)))"
        using busy still by (subst loop) (simp add: rx poll(1) no_error Let_def flip: s3_def)
      from tx_wait_deadline [OF clk inv3 s1(1) [folded s3(2)] T(2) start B this] show ?thesis
      proof cases
        case (1 t)
        then show ?thesis using tx3 tx_outcome_failed [of t s] busy by (intro finish [of _ _ t]) (auto intro: within_mono)
      next
        case (2 u n)
        have "rs422_flags (kn u) AND RS422_EVENT_MASK = 0" using 2(5) s3(3) poll(5) by simp
        then show ?thesis using 2 tx3 by (intro sleep) simp_all
      qed
    qed
  qed
qed

text \<open>While time is left the clock has moved on, so the rounds come to an end.\<close>

lemma tx_wait_loop_returns:
  assumes clk: "clock_ok hw now G B" and rely: "rs422_rely hw"
    and T: "0 < unat T" "unat T + B < 2 ^ 30" and B: "1025 * B < 2 ^ 30"
  shows "\<lbrakk>rx_ring_inv s; T0 \<le> ticks_of now G (env s); ticks_of now G (env s) \<le> T0 + unat T + B\<rbrakk> \<Longrightarrow>
    returns (\<lambda>(r, m) t. tx_outcome r s t \<and> rx_ring_inv t \<and> now (env s) \<le> now (env t) \<and>
        ticks_of now G (env t) \<le> T0 + unat T + 2050 * B) (tx_wait_loop hw e T (of_nat T0) mt s)"
proof (induction "(T0 + unat T) * G - now (env s)" arbitrary: s mt rule: less_induct)
  case less
  let ?k = "ticks_of now G"
  let ?Q = "\<lambda>s (r, m) t. tx_outcome r s t \<and> rx_ring_inv t \<and> now (env s) \<le> now (env t) \<and> ?k (env t) \<le> T0 + unat T + 2050 * B"
  show ?case
  proof (cases "g_rs422_tx_busy (rs s) = 0")
    case True
    then have "tx_wait_loop hw e T (of_nat T0) mt s = Some ((RS422_PING_TEST_PASS, mt), s)" by (subst tx_wait_loop.simps) simp
    with True less.prems show ?thesis by (simp add: tx_outcome_def tx_step_def returns_def)
  next
    case busy: False
    have "?k (env s) \<le> T0 + 2 ^ 30" "unat T < 2 ^ 31" using less.prems(3) T by simp_all
    from tx_wait_round [OF clk less.prems(1) busy T(1) this(2) less.prems(2) this(1) B, where e = e and mt = mt]
    show ?thesis
    proof cases
      case (1 r m t)
      then have "now (env s) \<le> now (env t)" "?k (env t) \<le> ?k (env s) + 2049 * B" by (simp_all add: within_def)
      with 1 less.prems(3) show ?thesis by (simp add: returns_def)
    next
      case (2 m u n)
      obtain f t where wait: "osThreadFlagsWait hw RS422Task RS422_EVENT_MASK n u = Some (f, t)" "rs t = rs (suspend hw n u)"
        "ro t = ro (suspend hw n u)" "env t = env (suspend hw n u)"
        using suspended_wait [OF 2(4,8,7), of hw] by metis
      have time: "now (env u) < now (env t)" "?k (env t) \<le> ?k (env u) + unat n + B"
        using clock_suspend [OF clk, where s = u and n = n] wait(4) by simp_all
      then have late: "?k (env t) \<le> T0 + unat T + B" using 2(5,6) by linarith
      have tx: "tx_state t = tx_state s" "rx_ring_inv t"
        using rely 2(2,3) wait(2) rx_ring_inv_ro [OF wait(3)] by (simp_all add: rs422_rely_def tx_state_def)
      have past: "now (env s) \<le> now (env u)" "?k (env s) \<le> ?k (env t)"
        using 2(1) time(1) ticks_mono [of now "env s" "env t" G] by (simp_all add: within_def)
      show ?thesis
      proof (cases "f = osFlagsErrorTimeout \<or> f AND osFlagsError \<noteq> 0")
        case True
        define t' where "t' = (if f = osFlagsErrorTimeout then count_tx_timeout t else count_rs422_tx_error t)"
        have t': "tx_state t' = tx_state s" "env t' = env t" "rx_ring_inv t'"
          using tx rx_ring_inv_ro [of t' t] by (simp_all add: t'_def)
        have "tx_wait_loop hw e T (of_nat T0) mt s = Some ((RS422_PING_TEST_TX_FAILURE, m), t')"
          using True by (auto simp: 2(9) wait(1) t'_def)
        then show ?thesis using t' tx_outcome_failed [OF t'(1) busy] past time late by (simp add: returns_def)
      next
        case False
        define t' where "t' = handle_events f t"
        have t': "env t' = env t" "rx_ring_inv t'" "tx_step s t'"
          using tx rx_ring_inv_ro [of t' t] handle_events_tx [of t f]
          by (simp_all add: t'_def handle_events_keeps tx_step_def tx_state_def)
        have "now (env u) < (T0 + unat T) * G"
          using 2(5) clk by (simp add: ticks_of_def div_less_iff_less_mult clock_ok_def)
        then have "(T0 + unat T) * G - now (env t') < (T0 + unat T) * G - now (env s)" using time past t'(1) by simp
        from less.hyps [OF this t'(2), of m] t'(1) late past less.prems(2)
        have "returns (?Q t') (tx_wait_loop hw e T (of_nat T0) m t')" by simp
        moreover have "?Q s x v" if "?Q t' x v" for x v
          using that t' time past tx_step_trans [OF t'(3)] by (auto simp: tx_outcome_def)
        ultimately have "returns (?Q s) (tx_wait_loop hw e T (of_nat T0) m t')" by (rule returns_mono)
        then show ?thesis using False by (simp add: 2(9) wait(1) t'_def)
      qed
    qed
  qed
qed

lemma wait_for_tx_complete_returns:
  assumes "clocked hw now G B" "rs422_rely hw" "B < 2 ^ 19" "rx_ring_inv s"
  shows "returns (\<lambda>(r, m) t. tx_outcome r s t \<and> rx_ring_inv t \<and> within now G (100 + 2051 * B) (env s) (env t))
    (rs422_wait_for_tx_complete hw e s)"
proof -
  have clk: "clock_ok hw now G B" "osKernelGetTickFreq hw = 1000" using assms(1) by (simp_all add: clocked_def)
  define u where "u = snd (get_tick hw s)"
  have u: "within now G B (env s) (env u)" "fst (get_tick hw s) = of_nat (ticks_of now G (env u))" "rs u = rs s" "ro u = ro s"
    using clock_tick [OF clk(1), of s] by (simp_all add: u_def)
  have T: "unat (rs422_ms_to_kernel_ticks hw RS422_BRINGUP_TX_TIMEOUT_MS) = 100" using ms_to_ticks_1000 [OF clk(2)] by simp
  have "returns (\<lambda>(r, m) t. tx_outcome r u t \<and> rx_ring_inv t \<and> now (env u) \<le> now (env t) \<and>
      ticks_of now G (env t) \<le> ticks_of now G (env u) + unat (rs422_ms_to_kernel_ticks hw RS422_BRINGUP_TX_TIMEOUT_MS) + 2050 * B)
    (tx_wait_loop hw e (rs422_ms_to_kernel_ticks hw RS422_BRINGUP_TX_TIMEOUT_MS) (of_nat (ticks_of now G (env u))) 0 u)"
    using assms(3,4) T rx_ring_inv_ro [OF u(4)] by (intro tx_wait_loop_returns [OF clk(1) assms(2)]) simp_all
  then have "returns (\<lambda>(r, m) t. tx_outcome r s t \<and> rx_ring_inv t \<and> within now G (100 + 2051 * B) (env s) (env t))
    (tx_wait_loop hw e (rs422_ms_to_kernel_ticks hw RS422_BRINGUP_TX_TIMEOUT_MS) (of_nat (ticks_of now G (env u))) 0 u)"
    by (rule returns_mono) (use u(1,3) T in \<open>auto simp: within_def tx_outcome_def tx_step_def tx_state_def\<close>)
  then show ?thesis unfolding rs422_wait_for_tx_complete_def Let_def u(2) [symmetric]
    by (simp add: u_def)
qed

subsection \<open>What goes out on the line\<close>

text \<open>
  \<open>uart_ok hw log\<close>: \<open>log\<close> is the list of frames handed to UART4; an accepted transmission
  request appends its frame, a refused one nothing, and nobody else transmits.
\<close>

definition uart_ok :: "'e hw \<Rightarrow> ('e \<Rightarrow> u8 list list) \<Rightarrow> bool" where
  "uart_ok hw log \<longleftrightarrow> (\<forall>e. log (snd (osKernelGetTickCount hw e)) = log e) \<and> (\<forall>n s. log (env (suspend hw n s)) = log (env s)) \<and>
     (\<forall>tx e. log (snd (HAL_UART_Transmit_IT hw tx e)) =
        (if fst (HAL_UART_Transmit_IT hw tx e) = HAL_OK then log e @ [tx] else log e))"

text \<open>
  An observation \<open>f\<close> of the state that nothing changes while the RS-422 task receives and waits.
\<close>

definition undisturbed :: "'e hw \<Rightarrow> ('e gw \<Rightarrow> 'b) \<Rightarrow> bool" where
  "undisturbed hw f \<longleftrightarrow> (\<forall>n s. f (suspend hw n s) = f s) \<and> (\<forall>s. f (s\<lparr>env := snd (osKernelGetTickCount hw (env s))\<rparr>) = f s) \<and>
     (\<forall>s k. f (s\<lparr>kn := k\<rparr>) = f s) \<and> (\<forall>e k b s. f (snd (rs422_feed hw e k b s)) = f s) \<and>
     (\<forall>s t. f (s\<lparr>ro := (ro s)\<lparr>g_rs422_rx_tail := t\<rparr>\<rparr>) = f s) \<and> (\<forall>v s. f (handle_events v s) = f s) \<and>
     (\<forall>s. f (count_tx_timeout s) = f s) \<and> (\<forall>s. f (count_rs422_tx_error s) = f s)"

lemma undisturbed_simps:
  assumes "undisturbed hw f"
  shows "f (suspend hw n s) = f s" "f (s\<lparr>env := snd (osKernelGetTickCount hw (env s))\<rparr>) = f s" "f (s\<lparr>kn := k\<rparr>) = f s"
    "f (snd (rs422_feed hw e m b s)) = f s" "f (s\<lparr>ro := (ro s)\<lparr>g_rs422_rx_tail := t\<rparr>\<rparr>) = f s" "f (handle_events v s) = f s"
    "f (count_tx_timeout s) = f s" "f (count_rs422_tx_error s) = f s"
  using assms unfolding undisturbed_def by blast+

lemma rx_loop_obs:
  assumes "undisturbed hw f"
  shows "f (snd (rx_loop hw e k mt s)) = f s"
  using assms
proof (induction hw e k mt s rule: rx_loop.induct)
  case (1 hw e k mt s)
  obtain v s1 where pop: "rs422_rx_ring_pop s = (v, s1)" by fastforce
  then have same: "f s1 = f s"
    using undisturbed_simps(5) [OF 1(2)] by (auto simp: rs422_rx_ring_pop_def Let_def split: if_splits)
  show ?case
  proof (cases v)
    case None
    then show ?thesis by (subst rx_loop.simps) (simp add: pop same)
  next
    case (Some b)
    obtain matched s2 where feed: "rs422_feed hw e k b s1 = (matched, s2)" by fastforce
    have "f (snd (rx_loop hw e k (if matched then 1 else mt) s2)) = f s2"
      using 1 pop Some feed by auto
    then show ?thesis using undisturbed_simps(4) [OF 1(2), of e k b s1] feed same by (subst rx_loop.simps) (simp add: pop Some)
  qed
qed

lemma rx_obs: "undisturbed hw f \<Longrightarrow> rs422_process_rx_buffer hw e k s = (m, t) \<Longrightarrow> f t = f s"
  by (metis rx_loop_obs rs422_process_rx_buffer_def snd_conv)

lemma flags_wait_obs:
  assumes "undisturbed hw f" "osThreadFlagsWait hw a v n s = Some (w, t)"
  shows "f t = f s"
  using assms(2) undisturbed_simps(1,3) [OF assms(1)] by (auto simp: osThreadFlagsWait_def Let_def split: if_splits)

lemma tx_wait_loop_obs:
  fixes hw :: "'a hw"
  assumes ok: "undisturbed hw f" and run: "tx_wait_loop hw e T T0 mt s = Some ((r, m), t)"
  shows "f t = f s"
proof -
  define P where "P h (e :: u16) (T :: u32) (T0 :: u32) (mt :: u32) (s :: 'a gw) (x :: (int \<times> u32) \<times> 'a gw) \<longleftrightarrow> (h = hw \<longrightarrow> f (snd x) = f s)"
    for h e T T0 mt s x
  have "P hw e T T0 mt s ((r, m), t)"
    using run
  proof (rule tx_wait_loop.raw_induct [where P = P, rotated], goal_cases)
    case (1 loop h e T T0 mt s x)
    show ?case
      unfolding P_def
    proof
      assume h: "h = hw"
      obtain m1 s1 where rx: "rs422_process_rx_buffer hw e 1 s = (m1, s1)" by fastforce
      obtain pf s2 where poll: "osThreadFlagsWait hw RS422Task RS422_EVENT_MASK 0 s1 = Some (pf, s2)" by (rule poll_flags)
      define s3 where "s3 = (if pf AND osFlagsError = 0 then handle_events pf s2 else s2)"
      obtain m3 t3 where rx3: "rs422_process_rx_buffer hw e 1 s3 = (m3, t3)" by fastforce
      have e2: "f s2 = f s" using rx_obs [OF ok rx] flags_wait_obs [OF ok poll] by simp
      then have e3: "f s3 = f s" by (simp add: s3_def undisturbed_simps [OF ok])
      have again: "f (snd y) = f u" if "loop hw e T T0 m u = Some y" for m u y
        using 1(1) [OF that] by (simp add: P_def)
      define u where "u = snd (get_tick hw s3)"
      define left where "left = T - (fst (get_tick hw s3) - T0)"
      have eu: "f u = f s" using e3 by (simp add: u_def undisturbed_simps [OF ok])
      have body: "(if g_rs422_tx_busy (rs s) = 0 then Some ((RS422_PING_TEST_PASS, mt), s)
          else if pf AND osFlagsError \<noteq> 0 \<and> pf \<noteq> osFlagsErrorResource
          then Some ((RS422_PING_TEST_TX_FAILURE, mt OR m1), count_rs422_tx_error s2)
          else if g_rs422_tx_busy (rs s3) = 0 then Some ((RS422_PING_TEST_PASS, (mt OR m1) OR m3), t3)
          else if T \<le> fst (get_tick hw s3) - T0 then Some ((RS422_PING_TEST_TX_FAILURE, mt OR m1), count_tx_timeout u)
          else do {
            (flags, s) \<leftarrow> osThreadFlagsWait hw RS422Task RS422_EVENT_MASK left u;
            if flags = osFlagsErrorTimeout then Some ((RS422_PING_TEST_TX_FAILURE, mt OR m1), count_tx_timeout s)
            else if flags AND osFlagsError \<noteq> 0 then Some ((RS422_PING_TEST_TX_FAILURE, mt OR m1), count_rs422_tx_error s)
            else loop hw e T T0 (mt OR m1) (handle_events flags s) }) = Some x"
        using 1(2) rx3 unfolding h s3_def u_def left_def by (simp add: rx poll Let_def cong: if_cong)
      have slept: "f (snd x) = f u"
        if "do { (flags, s) \<leftarrow> osThreadFlagsWait hw RS422Task RS422_EVENT_MASK left u;
            if flags = osFlagsErrorTimeout then Some ((RS422_PING_TEST_TX_FAILURE, mt OR m1), count_tx_timeout s)
            else if flags AND osFlagsError \<noteq> 0 then Some ((RS422_PING_TEST_TX_FAILURE, mt OR m1), count_rs422_tx_error s)
            else loop hw e T T0 (mt OR m1) (handle_events flags s) } = Some x"
        using that by (auto split: bind_splits if_splits simp: undisturbed_simps [OF ok] dest!: flags_wait_obs [OF ok] again)
      from body eu e2 e3 rx_obs [OF ok rx3] slept show "f (snd x) = f s"
        by (auto simp: undisturbed_simps [OF ok] split: if_splits)
    qed
  qed
  then show ?thesis by (simp add: P_def)
qed

lemma wait_for_tx_complete_obs:
  "undisturbed hw f \<Longrightarrow> rs422_wait_for_tx_complete hw e s = Some ((r, m), t) \<Longrightarrow> f t = f s"
  using tx_wait_loop_obs [of hw f e] by (auto simp: rs422_wait_for_tx_complete_def undisturbed_simps Let_def)

lemma feed_log:
  assumes "\<And>e. log (snd (osKernelGetTickCount hw e)) = log e"
  shows "log (env (snd (rs422_feed hw e k b s))) = log (env s)"
proof -
  have q: "env (enqueue_response s) = env s" for s :: "'a gw"
    by (simp add: enqueue_response_def Let_def split: prod.split)
  have t: "env (forward_telemetry s) = env s" for s :: "'a gw"
    by (simp add: forward_telemetry_def Let_def split: prod.split)
  show ?thesis
    by (simp add: rs422_feed_def rs422_frame_def note_valid_frame_def forward_pong_def note_matching_pong_def
        diagnostic_now_ms_def q t assms Let_def split: prod.split)
qed

lemma uart_undisturbed: "uart_ok hw log \<Longrightarrow> undisturbed hw (\<lambda>s. log (env s))"
  using feed_log [of log hw] by (auto simp: uart_ok_def undisturbed_def handle_events_keeps)

subsection \<open>Forwarding a request\<close>

text \<open>The state in which the frame is handed to the UART: encoded, stale completions cleared, the request recorded.\<close>

definition forward_ready :: "protocol_packet_t \<Rightarrow> 'e gw \<Rightarrow> 'e gw" where
  "forward_ready m s =
     (let s = s\<lparr>ro := (ro s)\<lparr>g_rs422_tx_frame := frame_bytes m @ drop (10 + unat (pk_length m)) (g_rs422_tx_frame (ro s))\<rparr>\<rparr>;
          s = s\<lparr>kn := (kn s)\<lparr>rs422_flags := rs422_flags (kn s) AND NOT RS422_EVENT_TX_DONE\<rparr>\<rparr>
      in if pk_msg_id m = MSG_PING \<and> g_w5500_tcp_session_active (sv s) \<noteq> 0
         then s\<lparr>rs := (rs s)\<lparr>g_rs422_tcp_ping_pending_seq := pk_seq m, g_rs422_tcp_ping_pending := 1\<rparr>\<rparr> else s)"

definition forward_noted :: "'e hw \<Rightarrow> protocol_packet_t \<Rightarrow> 'e gw \<Rightarrow> 'e gw" where
  "forward_noted hw m s =
     (let s = note_ping_tx hw m s in s\<lparr>rs := (rs s)\<lparr>g_rs422_last_tx_msg_id := pk_msg_id m, g_rs422_last_tx_seq := pk_seq m\<rparr>\<rparr>)"

lemma forward_packet_starts:
  assumes ok: "packet_ok m" and size: "length (g_rs422_tx_frame (ro s)) = PROTOCOL_MAX_FRAME_SIZE"
    and idle: "g_rs422_tx_busy (rs s) = 0" and flags: "rs422_flags (kn s) AND osFlagsError = 0"
    and start: "start_transmission hw (frame_bytes m) (forward_ready m s) = (st, u)"
  shows "rs422_forward_packet hw (Some m) s =
    (if st \<noteq> HAL_OK then Some (RS422_PING_TEST_TX_FAILURE, transmission_refused st (clear_pending m (set_tx_busy 0 u)))
     else do {
       ((tx_result, _), s) \<leftarrow> rs422_wait_for_tx_complete hw (pk_seq m) (forward_noted hw m u);
       if tx_result \<noteq> RS422_PING_TEST_PASS then Some (RS422_PING_TEST_TX_FAILURE, clear_pending m s)
       else Some (RS422_PING_TEST_PASS, s) })"
proof -
  let ?n = "10 + unat (pk_length m)"
  have n: "?n \<le> 266" using ok by (simp add: packet_ok_def)
  have enc: "protocol_encode (Some m) (Some (g_rs422_tx_frame (ro s))) 266 (Some 0) =
      (PROTO_OK, Some (frame_bytes m @ drop ?n (g_rs422_tx_frame (ro s))), Some ?n)"
    and tx_done: "2 AND osFlagsError = 0"
    using encode_ok [OF ok, of 266 "g_rs422_tx_frame (ro s)" 0] size n by (simp_all add: osFlagsError_def)
  have bytes: "take ?n (frame_bytes m @ xs) = frame_bytes m" for xs using ok by simp
  have ro: "g_rs422_tx_frame (ro (forward_ready m s)) = frame_bytes m @ drop ?n (g_rs422_tx_frame (ro s))"
    by (simp add: forward_ready_def Let_def)
  have "rs422_forward_packet hw (Some m) s =
    (let (tx_status, s) = start_transmission hw (take ?n (g_rs422_tx_frame (ro (forward_ready m s)))) (forward_ready m s)
     in if tx_status \<noteq> HAL_OK
        then Some (RS422_PING_TEST_TX_FAILURE, transmission_refused tx_status (clear_pending m (set_tx_busy 0 s)))
        else do {
          ((tx_result, _), s) \<leftarrow> rs422_wait_for_tx_complete hw (pk_seq m) (forward_noted hw m s);
          if tx_result \<noteq> RS422_PING_TEST_PASS then Some (RS422_PING_TEST_TX_FAILURE, clear_pending m s)
          else Some (RS422_PING_TEST_PASS, s) })"
    using idle flags n unfolding rs422_forward_packet_def
    by (simp add: enc tx_done osThreadFlagsClear_def forward_ready_def forward_noted_def Let_def cong: if_cong)
  then show ?thesis unfolding ro bytes by (simp add: start Let_def)
qed

lemma clear_pending_keeps:
  "env (clear_pending m s) = env s" "ro (clear_pending m s) = ro s" "tx_state (clear_pending m s) = tx_state s"
  "pk_msg_id m = MSG_PING \<Longrightarrow> g_rs422_tcp_ping_pending (rs (clear_pending m s)) = 0"
  by (simp_all add: clear_pending_def tx_state_def)

lemma refused_keeps:
  "env (transmission_refused st s) = env s" "ro (transmission_refused st s) = ro s" "tx_state (transmission_refused st s) = tx_state s"
  "g_rs422_tcp_ping_pending (rs (transmission_refused st s)) = g_rs422_tcp_ping_pending (rs s)"
  by (simp_all add: transmission_refused_def count_tx_busy_def count_rs422_tx_error_def tx_state_def)

lemma forward_ready_keeps:
  "env (forward_ready m s) = env s" "tx_state (forward_ready m s) = tx_state s" "rx_ring_inv (forward_ready m s) = rx_ring_inv s"
  by (simp_all add: forward_ready_def tx_state_def rx_ring_inv_def Let_def)

lemma forward_noted_keeps:
  "env (forward_noted hw m s) = env s \<or> env (forward_noted hw m s) = snd (osKernelGetTickCount hw (env s))"
  "tx_state (forward_noted hw m s) = tx_state s" "rx_ring_inv (forward_noted hw m s) = rx_ring_inv s"
  by (simp_all add: forward_noted_def note_ping_tx_def diagnostic_now_ms_def tx_state_def rx_ring_inv_def Let_def)

text \<open>A board whose UART completes each transmission with an interrupt while the task waits.\<close>

definition uart_hw :: "sim hw" where
  "uart_hw = sim_hw\<lparr>suspend := (\<lambda>n s. HAL_UART_TxCpltCallback True (s\<lparr>env := (env s)\<lparr>sim_time := sim_time (env s) + 1\<rparr>\<rparr>))\<rparr>"

lemma tx_callback_keeps:
  "rs (HAL_UART_TxCpltCallback b s) = rs s" "ro (HAL_UART_TxCpltCallback b s) = ro s" "env (HAL_UART_TxCpltCallback b s) = env s"
  by (simp_all add: HAL_UART_TxCpltCallback_def wake_rs422_def)

lemma uart_hw_ok: "rs422_rely uart_hw" "uart_ok uart_hw sim_uart" "clocked uart_hw sim_time 1 1"
proof -
  show "rs422_rely uart_hw" by (simp add: rs422_rely_def uart_hw_def tx_callback_keeps tx_state_def rx_ring_inv_def)
  show "uart_ok uart_hw sim_uart" by (simp add: uart_ok_def uart_hw_def sim_hw_def tx_callback_keeps)
  show "clocked uart_hw sim_time 1 1"
    using sim_clocked unfolding clocked_def clock_ok_def by (simp add: uart_hw_def tx_callback_keeps within_def ticks_of_def)
qed

lemma forward_packet_sends:
  assumes clk: "clocked hw now G B" and size: "B < 2 ^ 19" and rely: "rs422_rely hw" and uart: "uart_ok hw log"
    and inv: "rx_ring_inv s" and ok: "packet_ok m" and buffer: "length (g_rs422_tx_frame (ro s)) = PROTOCOL_MAX_FRAME_SIZE"
    and idle: "g_rs422_tx_busy (rs s) = 0" and flags: "rs422_flags (kn s) AND osFlagsError = 0"
  shows "\<exists>r t. rs422_forward_packet hw (Some m) s = Some (r, t) \<and> within now G (100 + 2053 * B) (env s) (env t) \<and> rx_ring_inv t \<and>
    r \<in> {RS422_PING_TEST_PASS, RS422_PING_TEST_TX_FAILURE} \<and>
    (log (env t) = log (env s) @ [frame_bytes m] \<or> r \<noteq> RS422_PING_TEST_PASS \<and> log (env t) = log (env s)) \<and>
    (if r = RS422_PING_TEST_PASS then tx_state t = (0, g_rs422_tx_complete_count (rs s) + 1)
     else g_rs422_tx_complete_count (rs t) = g_rs422_tx_complete_count (rs s) \<and>
       (pk_msg_id m = MSG_PING \<longrightarrow> g_rs422_tcp_ping_pending (rs t) = 0))"
proof -
  obtain st u where start: "start_transmission hw (frame_bytes m) (forward_ready m s) = (st, u)" by fastforce
  note run = forward_packet_starts [OF ok buffer idle flags start]
  have cu: "clock_ok hw now G B" using clk by (simp add: clocked_def)
  have u: "within now G B (env s) (env u)" "tx_state u = (1, g_rs422_tx_complete_count (rs s))" "rx_ring_inv u"
    "log (env u) = (if st = HAL_OK then log (env s) @ [frame_bytes m] else log (env s))"
    using start cu inv uart forward_ready_keeps [of m s]
    by (auto simp: start_transmission_def set_tx_busy_def clock_ok_def uart_ok_def tx_state_def rx_ring_inv_def)
  show ?thesis
  proof (cases "st = HAL_OK")
    case False
    let ?t = "transmission_refused st (clear_pending m (set_tx_busy 0 u))"
    have "rs422_forward_packet hw (Some m) s = Some (RS422_PING_TEST_TX_FAILURE, ?t)" using False by (simp add: run)
    moreover have "tx_state ?t = (0, g_rs422_tx_complete_count (rs s))" "env ?t = env u" "ro ?t = ro u"
      using u(2) by (simp_all add: refused_keeps clear_pending_keeps) (simp_all add: tx_state_def set_tx_busy_def)
    moreover have "pk_msg_id m = MSG_PING \<Longrightarrow> g_rs422_tcp_ping_pending (rs ?t) = 0"
      by (simp add: refused_keeps clear_pending_keeps del: MSG_PING_def)
    moreover have "RS422_PING_TEST_TX_FAILURE \<noteq> RS422_PING_TEST_PASS" by (simp add: wait_constants)
    ultimately show ?thesis using u False rx_ring_inv_ro [of ?t u] by (auto simp: tx_state_def intro: within_mono)
  next
    case True
    define w where "w = forward_noted hw m u"
    have w: "within now G B (env u) (env w)" "log (env w) = log (env u)" "tx_state w = tx_state u" "rx_ring_inv w"
      using forward_noted_keeps [of hw m u] clock_env [OF cu, of "env u"] uart u(3)
      by (auto simp: w_def uart_ok_def)
    obtain r k t where wait: "rs422_wait_for_tx_complete hw (pk_seq m) w = Some ((r, k), t)" "tx_outcome r w t" "rx_ring_inv t"
      "within now G (100 + 2051 * B) (env w) (env t)"
      using wait_for_tx_complete_returns [OF clk rely size w(4), of "pk_seq m"] by (auto simp: returns_iff)
    have lt: "log (env t) = log (env s) @ [frame_bytes m]"
      using wait_for_tx_complete_obs [OF uart_undisturbed [OF uart] wait(1)] w(2) u(4) True by simp
    have time: "within now G (100 + 2053 * B) (env s) (env t)"
      using u(1) w(1) wait(4) by (auto simp: within_def)
    have busy: "g_rs422_tx_busy (rs w) \<noteq> 0" "g_rs422_tx_complete_count (rs w) = g_rs422_tx_complete_count (rs s)"
      using w(3) u(2) by (simp_all add: tx_state_def)
    define t' where "t' = (if r = RS422_PING_TEST_PASS then t else clear_pending m t)"
    have t': "env t' = env t" "tx_state t' = tx_state t" "rx_ring_inv t'"
      "r \<noteq> RS422_PING_TEST_PASS \<Longrightarrow> pk_msg_id m = MSG_PING \<Longrightarrow> g_rs422_tcp_ping_pending (rs t') = 0"
      using wait(3) rx_ring_inv_ro [of t' t] by (simp_all add: t'_def clear_pending_keeps del: MSG_PING_def)
    have r: "r \<in> {RS422_PING_TEST_PASS, RS422_PING_TEST_TX_FAILURE}" using wait(2) by (auto simp: tx_outcome_def)
    have "rs422_forward_packet hw (Some m) s = Some (r, t')"
      using True wait(1) r by (auto simp: run t'_def simp flip: w_def)
    moreover have "if r = RS422_PING_TEST_PASS then tx_state t' = (0, g_rs422_tx_complete_count (rs s) + 1)
        else g_rs422_tx_complete_count (rs t') = g_rs422_tx_complete_count (rs s)"
      using wait(2) busy t'(2) by (auto simp: tx_outcome_def tx_step_def tx_state_def)
    ultimately show ?thesis using lt time t' r by (intro exI conjI) (auto split: if_splits)
  qed
qed

text \<open>C19: forwarding a request to the remote node always returns, within the transmit timeout of
  100 ticks. With the transmitter idle, the UART is given at most one frame, exactly the encoded
  packet. Success is reported only when the UART accepted it and signalled its completion, which
  is counted once; after a failure nothing is counted as completed and a failed PING is no longer
  pending.\<close>

theorem forward_packet_outcome:
  assumes clk: "clocked hw now G B" and size: "B < 2 ^ 19" and rely: "rs422_rely hw" and uart: "uart_ok hw log"
    and inv: "rx_ring_inv s" and ok: "packet_ok m" and buffer: "length (g_rs422_tx_frame (ro s)) = PROTOCOL_MAX_FRAME_SIZE"
    and idle: "g_rs422_tx_busy (rs s) = 0" and flags: "rs422_flags (kn s) AND osFlagsError = 0"
  shows "\<exists>r t. rs422_forward_packet hw (Some m) s = Some (r, t) \<and> within now G (100 + 2053 * B) (env s) (env t) \<and> rx_ring_inv t \<and>
    r \<in> {RS422_PING_TEST_PASS, RS422_PING_TEST_TX_FAILURE} \<and>
    (log (env t) = log (env s) @ [frame_bytes m] \<or> r \<noteq> RS422_PING_TEST_PASS \<and> log (env t) = log (env s)) \<and>
    (if r = RS422_PING_TEST_PASS then tx_state t = (0, g_rs422_tx_complete_count (rs s) + 1)
     else g_rs422_tx_complete_count (rs t) = g_rs422_tx_complete_count (rs s) \<and>
       (pk_msg_id m = MSG_PING \<longrightarrow> g_rs422_tcp_ping_pending (rs t) = 0))"
  using forward_packet_sends [OF assms] .

theorem forward_packet_outcome_witness:
  "\<exists>r t. rs422_forward_packet uart_hw (Some sample_ping) (boot sim_init) = Some (r, t) \<and> sim_time (env t) \<le> 2153 \<and>
    (sim_uart (env t) = [frame_bytes sample_ping] \<or> r \<noteq> RS422_PING_TEST_PASS \<and> sim_uart (env t) = [])"
proof -
  have "rx_ring_inv (boot sim_init)" "length (g_rs422_tx_frame (ro (boot sim_init))) = PROTOCOL_MAX_FRAME_SIZE"
    "g_rs422_tx_busy (rs (boot sim_init)) = 0" "rs422_flags (kn (boot sim_init)) AND osFlagsError = 0"
    "sim_time (env (boot sim_init)) = 0" "sim_uart (env (boot sim_init)) = []"
    by (simp_all add: rx_ring_inv_def boot_def boot_rs422_objects_def boot_rs422_vars_def boot_kernel_vars_def sim_init_def)
  with forward_packet_outcome [OF uart_hw_ok(3) _ uart_hw_ok(1,2), of "boot sim_init" sample_ping] show ?thesis
    by (auto simp: within_def ticks_of_def)
qed

end
