(* ===== verification/GwBringup.thy ===== *)
theory GwBringup
  imports GwTransmit
begin

text \<open>
  The link test the RS-422 task runs before it enters its loop: 100 PINGs, each sent and waited
  for. Whatever the line does, the test ends in bounded time and its counters account for every
  PING, so the task cannot hang in its start-up.
\<close>

definition test_state :: "'e gw \<Rightarrow> u32 \<times> u32 \<times> u32" where
  "test_state s = (g_rs422_test_total (rs s), g_rs422_test_success (rs s), g_rs422_test_fail (rs s))"

text \<open>Interrupts and other tasks do not touch the test's counters, also while it delays.\<close>

definition bringup_rely :: "'e hw \<Rightarrow> bool" where
  "bringup_rely hw \<longleftrightarrow> rs422_rely hw \<and> (\<forall>n s. test_state (suspend hw n s) = test_state s) \<and>
     (\<forall>n s. test_state (HAL_Delay hw n s) = test_state s \<and> (rx_ring_inv s \<longrightarrow> rx_ring_inv (HAL_Delay hw n s)))"

lemma test_undisturbed:
  assumes "bringup_rely hw"
  shows "undisturbed hw test_state"
proof -
  have v: "test_state (note_valid_frame hw s) = test_state s" for s
    by (simp add: note_valid_frame_def test_state_def Let_def)
  have t: "test_state (forward_telemetry s) = test_state s" for s :: "'a gw"
    by (simp add: forward_telemetry_def test_state_def Let_def split: prod.split)
  have q: "test_state (enqueue_response s) = test_state s" for s :: "'a gw"
    by (simp add: enqueue_response_def test_state_def Let_def split: prod.split)
  have p: "test_state (forward_pong hw s) = test_state s" for s
    by (simp add: forward_pong_def q Let_def) (simp add: test_state_def note_matching_pong_keeps)
  have r: "test_state (s\<lparr>ro := x\<rparr>) = test_state s" for s :: "'a gw" and x by (simp add: test_state_def)
  have "test_state (snd (rs422_feed hw e k b s)) = test_state s" for e k b s
    by (simp add: rs422_feed_def rs422_frame_def v t p r Let_def split: prod.split)
  then show ?thesis using assms
    by (simp add: undisturbed_def bringup_rely_def)
      (simp add: test_state_def handle_events_def rs422_handle_tx_done_event_def rs422_handle_tcp_context_reset_event_def
        count_tx_timeout_def count_rs422_tx_error_def)
qed

subsection \<open>Waiting for the PONG\<close>

definition flags_pending :: "'e gw \<Rightarrow> nat" where
  "flags_pending s = (if rs422_flags (kn s) AND RS422_EVENT_MASK = 0 then 0 else 1)"

lemma pending_wait:
  assumes "rs422_flags (kn s) AND f \<noteq> 0"
  shows "osThreadFlagsWait hw RS422Task f n s =
    Some (rs422_flags (kn s), s\<lparr>kn := (kn s)\<lparr>rs422_flags := rs422_flags (kn s) AND NOT f\<rparr>\<rparr>)"
  using assms by (simp add: osThreadFlagsWait_def Let_def)

lemma cleared_mask: "(v AND NOT f) AND f = (0 :: u32)"
  by (simp add: and.assoc)

text \<open>
  The wait with a pending flag returns at once, so a round need not take time; but it takes the
  flag, so the next one does.
\<close>

lemma flags_wait_advances:
  assumes clk: "clock_ok hw now G B" and rely: "rs422_rely hw" and n: "n \<noteq> 0" "n \<noteq> osWaitForever" and inv: "rx_ring_inv s"
  obtains v t where "osThreadFlagsWait hw RS422Task RS422_EVENT_MASK n s = Some (v, t)" "rx_ring_inv t"
    "now (env s) \<le> now (env t)" "ticks_of now G (env t) \<le> ticks_of now G (env s) + unat n + B"
    "flags_pending t = 0 \<and> flags_pending s = 1 \<or> now (env s) < now (env t)"
proof (cases "rs422_flags (kn s) AND RS422_EVENT_MASK = 0")
  case True
  obtain v t where w: "osThreadFlagsWait hw RS422Task RS422_EVENT_MASK n s = Some (v, t)"
    "ro t = ro (suspend hw n s)" "env t = env (suspend hw n s)"
    using suspended_wait [OF True n] by metis
  have "rx_ring_inv t" using rely inv rx_ring_inv_ro [OF w(2)] by (simp add: rs422_rely_def)
  with that [OF w(1)] clock_suspend [OF clk, where s = s and n = n] w(3) show ?thesis by simp
next
  case False
  let ?t = "s\<lparr>kn := (kn s)\<lparr>rs422_flags := rs422_flags (kn s) AND NOT RS422_EVENT_MASK\<rparr>\<rparr>"
  have "flags_pending ?t = 0" "flags_pending s = 1" using False cleared_mask by (simp_all add: flags_pending_def)
  with that [OF pending_wait [OF False]] inv show ?thesis by (simp add: rx_ring_inv_def)
qed

lemma pong_wait_round:
  assumes clk: "clock_ok hw now G B" and inv: "rx_ring_inv s"
    and T: "unat T < 2 ^ 31" and start: "T0 \<le> ticks_of now G (env s)" "ticks_of now G (env s) \<le> T0 + 2 ^ 30"
    and B: "1026 * B < 2 ^ 30"
  obtains (1) r t where "pong_wait_loop hw e T (of_nat T0) s = Some (r, t)" "rx_ring_inv t"
      "within now G (1026 * B) (env s) (env t)" "r \<in> {RS422_PING_TEST_PASS, RS422_PING_TEST_PONG_TIMEOUT}"
  | (2) u n where "within now G (1026 * B) (env s) (env u)" "rx_ring_inv u" "flags_pending u = flags_pending s"
      "ticks_of now G (env u) < T0 + unat T" "unat n = T0 + unat T - ticks_of now G (env u)" "n \<noteq> 0" "n \<noteq> osWaitForever"
      "pong_wait_loop hw e T (of_nat T0) s = do {
         (flags, s) \<leftarrow> osThreadFlagsWait hw RS422Task RS422_EVENT_MASK n u;
         if flags = osFlagsErrorTimeout then Some (RS422_PING_TEST_PONG_TIMEOUT, s)
         else if flags AND osFlagsError \<noteq> 0 then Some (RS422_PING_TEST_RX_FAILURE, s)
         else pong_wait_loop hw e T (of_nat T0) (handle_events flags s) }"
proof -
  define s1 where "s1 = snd (get_tick hw s)"
  define t1 where "t1 = fst (get_tick hw s)"
  obtain m s2 where rx: "rs422_process_rx_buffer hw e 1 s1 = (m, s2)" by fastforce
  define u where "u = snd (get_tick hw s2)"
  define t2 where "t2 = fst (get_tick hw s2)"
  have s1: "within now G B (env s) (env s1)" "rx_ring_inv s1" "kn s1 = kn s"
    using clock_tick [OF clk, of s] inv by (simp_all add: s1_def rx_ring_inv_def)
  note s2 = rx_pass [OF clk s1(2) rx]
  have u: "within now G B (env s2) (env u)" "t2 = of_nat (ticks_of now G (env u))" "rx_ring_inv u" "kn u = kn s2"
    using clock_tick [OF clk, of s2] s2(4) by (simp_all add: u_def t2_def rx_ring_inv_def)
  have w2: "within now G (1025 * B) (env s) (env s2)" by (rule within_trans [OF s1(1) s2(1)]) simp
  have w: "within now G (1026 * B) (env s) (env u)" by (rule within_trans [OF w2 u(1)]) simp
  have after: "T0 \<le> ticks_of now G (env u)" "ticks_of now G (env u) - T0 < 2 ^ 32"
    using w start B ticks_mono [of now "env s" "env u" G] by (auto simp: within_def)
  note loop = pong_wait_loop.simps [of hw e T "of_nat T0" s]
  consider (late) "\<not> t1 - of_nat T0 < T" | (pong) "t1 - of_nat T0 < T" "m \<noteq> 0"
    | (over) "t1 - of_nat T0 < T" "m = 0" "t2 - of_nat T0 \<ge> T" | (wait) "t1 - of_nat T0 < T" "m = 0" "\<not> t2 - of_nat T0 \<ge> T"
    by blast
  then show ?thesis
  proof cases
    case late
    then have "pong_wait_loop hw e T (of_nat T0) s = Some (RS422_PING_TEST_PONG_TIMEOUT, s1)"
      by (subst loop) (simp add: s1_def t1_def)
    then show ?thesis by (rule 1) (use s1 in \<open>auto intro: within_mono\<close>)
  next
    case pong
    then have "pong_wait_loop hw e T (of_nat T0) s = Some (RS422_PING_TEST_PASS, s2)"
      using rx by (subst loop) (simp add: s1_def t1_def Let_def)
    then show ?thesis by (rule 1) (use w2 s2 in \<open>auto intro: within_mono\<close>)
  next
    case over
    then have "pong_wait_loop hw e T (of_nat T0) s = Some (RS422_PING_TEST_PONG_TIMEOUT, u)"
      using rx by (subst loop) (simp add: s1_def t1_def u_def t2_def Let_def)
    then show ?thesis by (rule 1) (use w u in auto)
  next
    case wait
    define n where "n = T - (t2 - of_nat T0)"
    note n = time_left [OF after T wait(3) [unfolded u(2)], folded u(2), folded n_def]
    have "pong_wait_loop hw e T (of_nat T0) s = do {
         (flags, s) \<leftarrow> osThreadFlagsWait hw RS422Task RS422_EVENT_MASK n u;
         if flags = osFlagsErrorTimeout then Some (RS422_PING_TEST_PONG_TIMEOUT, s)
         else if flags AND osFlagsError \<noteq> 0 then Some (RS422_PING_TEST_RX_FAILURE, s)
         else pong_wait_loop hw e T (of_nat T0) (handle_events flags s) }"
      using wait rx by (subst loop) (simp add: s1_def t1_def u_def t2_def n_def Let_def)
    moreover have "flags_pending u = flags_pending s" using u(4) s2(3) s1(3) by (simp add: flags_pending_def)
    ultimately show ?thesis using 2 [OF w u(3) _ n(2,1,3,4)] by blast
  qed
qed

lemma pong_wait_loop_returns:
  assumes clk: "clock_ok hw now G B" and rely: "rs422_rely hw" and T: "unat T + B < 2 ^ 30" and B: "1026 * B < 2 ^ 30"
  shows "\<lbrakk>rx_ring_inv s; T0 \<le> ticks_of now G (env s); ticks_of now G (env s) \<le> T0 + unat T + B\<rbrakk> \<Longrightarrow>
    returns (\<lambda>r t. rx_ring_inv t \<and> now (env s) \<le> now (env t) \<and> ticks_of now G (env t) \<le> T0 + unat T + 1027 * B)
      (pong_wait_loop hw e T (of_nat T0) s)"
proof (induction "2 * ((T0 + unat T) * G - now (env s)) + flags_pending s" arbitrary: s rule: less_induct)
  case less
  let ?k = "ticks_of now G"
  let ?Q = "\<lambda>s r t. rx_ring_inv t \<and> now (env s) \<le> now (env t) \<and> ?k (env t) \<le> T0 + unat T + 1027 * B"
  have "?k (env s) \<le> T0 + 2 ^ 30" "unat T < 2 ^ 31" using less.prems(3) T by simp_all
  from pong_wait_round [OF clk less.prems(1) this(2) less.prems(2) this(1) B, where e = e]
  show ?case
  proof cases
    case (1 r t)
    then have "now (env s) \<le> now (env t)" "?k (env t) \<le> ?k (env s) + 1026 * B" by (simp_all add: within_def)
    with 1 less.prems(3) show ?thesis by (simp add: returns_def)
  next
    case (2 u n)
    obtain f t where wait: "osThreadFlagsWait hw RS422Task RS422_EVENT_MASK n u = Some (f, t)" "rx_ring_inv t"
      "now (env u) \<le> now (env t)" "?k (env t) \<le> ?k (env u) + unat n + B"
      "flags_pending t = 0 \<and> flags_pending u = 1 \<or> now (env u) < now (env t)"
      using flags_wait_advances [OF clk rely 2(6,7,2)] by metis
    have late: "?k (env t) \<le> T0 + unat T + B" using 2(4,5) wait(4) by linarith
    have past: "now (env s) \<le> now (env u)" "?k (env s) \<le> ?k (env t)"
      using 2(1) wait(3) ticks_mono [of now "env s" "env t" G] by (simp_all add: within_def)
    show ?thesis
    proof (cases "f = osFlagsErrorTimeout \<or> f AND osFlagsError \<noteq> 0")
      case True
      then obtain r where "pong_wait_loop hw e T (of_nat T0) s = Some (r, t)"
        by (cases "f = osFlagsErrorTimeout") (auto simp: 2(8) wait(1))
      then show ?thesis using wait past late by (simp add: returns_def)
    next
      case False
      define t' where "t' = handle_events f t"
      have t': "env t' = env t" "rx_ring_inv t'" "flags_pending t' = flags_pending t"
        using wait(2) rx_ring_inv_ro [of t' t] by (simp_all add: t'_def handle_events_keeps flags_pending_def)
      have "now (env u) < (T0 + unat T) * G"
        using 2(4) clk by (simp add: ticks_of_def div_less_iff_less_mult clock_ok_def)
      moreover have "flags_pending t \<le> 1" by (simp add: flags_pending_def)
      ultimately have "2 * ((T0 + unat T) * G - now (env t')) + flags_pending t' < 2 * ((T0 + unat T) * G - now (env s)) + flags_pending s"
        using wait(3,5) past 2(3) unfolding t'(1,3) by linarith
      from less.hyps [OF this t'(2)] t'(1) late past less.prems(2)
      have "returns (?Q t') (pong_wait_loop hw e T (of_nat T0) t')" by simp
      then have "returns (?Q s) (pong_wait_loop hw e T (of_nat T0) t')"
        by (rule returns_mono) (use t'(1) wait(3) past in auto)
      then show ?thesis using False by (simp add: 2(8) wait(1) t'_def)
    qed
  qed
qed

lemma pong_wait_loop_obs:
  fixes hw :: "'a hw"
  assumes ok: "undisturbed hw f" and run: "pong_wait_loop hw e T T0 s = Some (r, t)"
  shows "f t = f s"
proof -
  define P where "P h (e :: u16) (T :: u32) (T0 :: u32) (s :: 'a gw) (x :: int \<times> 'a gw) \<longleftrightarrow> (h = hw \<longrightarrow> f (snd x) = f s)"
    for h e T T0 s x
  have "P hw e T T0 s (r, t)"
    using run
  proof (rule pong_wait_loop.raw_induct [where P = P, rotated], goal_cases)
    case (1 loop h e T T0 s x)
    show ?case
      unfolding P_def
    proof
      assume h: "h = hw"
      define s1 where "s1 = snd (get_tick hw s)"
      obtain m s2 where rx: "rs422_process_rx_buffer hw e 1 s1 = (m, s2)" by fastforce
      define u where "u = snd (get_tick hw s2)"
      define n where "n = T - (fst (get_tick hw s2) - T0)"
      have same: "f s1 = f s" "f s2 = f s" "f u = f s"
        using rx_obs [OF ok rx] by (simp_all add: s1_def u_def undisturbed_simps [OF ok])
      have again: "f (snd y) = f u" if "loop hw e T T0 u = Some y" for u y
        using 1(1) [OF that] by (simp add: P_def)
      have body: "(if \<not> fst (get_tick hw s) - T0 < T then Some (RS422_PING_TEST_PONG_TIMEOUT, s1)
          else if m \<noteq> 0 then Some (RS422_PING_TEST_PASS, s2)
          else if T \<le> fst (get_tick hw s2) - T0 then Some (RS422_PING_TEST_PONG_TIMEOUT, u)
          else do {
            (flags, s) \<leftarrow> osThreadFlagsWait hw RS422Task RS422_EVENT_MASK n u;
            if flags = osFlagsErrorTimeout then Some (RS422_PING_TEST_PONG_TIMEOUT, s)
            else if flags AND osFlagsError \<noteq> 0 then Some (RS422_PING_TEST_RX_FAILURE, s)
            else loop hw e T T0 (handle_events flags s) }) = Some x"
        using 1(2) rx unfolding h s1_def u_def n_def by (simp add: Let_def cong: if_cong)
      have slept: "f (snd x) = f u" if "do {
            (flags, s) \<leftarrow> osThreadFlagsWait hw RS422Task RS422_EVENT_MASK n u;
            if flags = osFlagsErrorTimeout then Some (RS422_PING_TEST_PONG_TIMEOUT, s)
            else if flags AND osFlagsError \<noteq> 0 then Some (RS422_PING_TEST_RX_FAILURE, s)
            else loop hw e T T0 (handle_events flags s) } = Some x"
        using that by (auto split: bind_splits if_splits simp: undisturbed_simps [OF ok] dest!: flags_wait_obs [OF ok] again)
      from body same slept show "f (snd x) = f s" by (auto split: if_splits)
    qed
  qed
  then show ?thesis by (simp add: P_def)
qed

subsection \<open>One test\<close>

text \<open>The part of a test after the frame has been accepted by the UART.\<close>

definition await_pong :: "'e hw \<Rightarrow> u16 \<Rightarrow> 'e gw \<Rightarrow> (int \<times> 'e gw) option" where
  "await_pong hw sequence s = do {
     ((tx_result, matching), s) \<leftarrow> rs422_wait_for_tx_complete hw sequence s;
     if tx_result \<noteq> RS422_PING_TEST_PASS then Some (RS422_PING_TEST_TX_FAILURE, s)
     else if matching \<noteq> 0 then Some (RS422_PING_TEST_PASS, s)
     else
       let pong_timeout_ticks = rs422_ms_to_kernel_ticks hw RS422_BRINGUP_PONG_TIMEOUT_MS;
           (wait_start_ticks, s) = get_tick hw s
       in pong_wait_loop hw sequence pong_timeout_ticks wait_start_ticks s }"

lemma await_pong_returns:
  assumes clk: "clocked hw now G B" and rely: "bringup_rely hw" and size: "B < 2 ^ 19" and inv: "rx_ring_inv s"
  shows "returns (\<lambda>r t. rx_ring_inv t \<and> test_state t = test_state s \<and> within now G (1100 + 3079 * B) (env s) (env t))
    (await_pong hw e s)"
proof -
  have cu: "clock_ok hw now G B" "osKernelGetTickFreq hw = 1000" using clk by (simp_all add: clocked_def)
  have rr: "rs422_rely hw" using rely by (simp add: bringup_rely_def)
  note calm = test_undisturbed [OF rely]
  obtain r k t where wait: "rs422_wait_for_tx_complete hw e s = Some ((r, k), t)" "rx_ring_inv t"
    "within now G (100 + 2051 * B) (env s) (env t)"
    using wait_for_tx_complete_returns [OF clk rr size inv, of e] by (auto simp: returns_iff)
  have ts: "test_state t = test_state s" by (rule wait_for_tx_complete_obs [OF calm wait(1)])
  define u where "u = snd (get_tick hw t)"
  let ?T = "rs422_ms_to_kernel_ticks hw RS422_BRINGUP_PONG_TIMEOUT_MS"
  have u: "within now G B (env t) (env u)" "fst (get_tick hw t) = of_nat (ticks_of now G (env u))" "ro u = ro t" "test_state u = test_state t"
    using clock_tick [OF cu(1), of t] by (simp_all add: u_def test_state_def)
  have T: "unat ?T = 1000" using ms_to_ticks_1000 [OF cu(2)] by simp
  have "returns (\<lambda>r v. rx_ring_inv v \<and> now (env u) \<le> now (env v) \<and> ticks_of now G (env v) \<le> ticks_of now G (env u) + unat ?T + 1027 * B)
      (pong_wait_loop hw e ?T (of_nat (ticks_of now G (env u))) u)"
    using wait(2) rx_ring_inv_ro [OF u(3)] size T by (intro pong_wait_loop_returns [OF cu(1) rr]) simp_all
  then obtain r' v where pong: "pong_wait_loop hw e ?T (of_nat (ticks_of now G (env u))) u = Some (r', v)" "rx_ring_inv v"
    "within now G (1000 + 1027 * B) (env u) (env v)" using T by (auto simp: returns_iff within_def)
  have "test_state v = test_state s" using pong_wait_loop_obs [OF calm pong(1)] u(4) ts by simp
  moreover have "within now G (1100 + 3079 * B) (env s) (env v)" using wait(3) u(1) pong(3) by (auto simp: within_def)
  moreover have "within now G (1100 + 3079 * B) (env s) (env t)" using wait(3) by (rule within_mono) simp
  moreover have "await_pong hw e s = (if r \<noteq> RS422_PING_TEST_PASS then Some (RS422_PING_TEST_TX_FAILURE, t)
      else if k \<noteq> 0 then Some (RS422_PING_TEST_PASS, t) else Some (r', v))"
    using pong(1) u(2) by (simp add: await_pong_def wait(1) u_def Let_def cong: if_cong)
  ultimately show ?thesis using wait(2) pong(2) ts by (simp add: returns_iff)
qed

lemma bringup_test_returns:
  assumes clk: "clocked hw now G B" and rely: "bringup_rely hw" and size: "B < 2 ^ 19" and inv: "rx_ring_inv s"
  shows "returns (\<lambda>r t. rx_ring_inv t \<and> test_state t = test_state s \<and> within now G (1100 + 3080 * B) (env s) (env t))
    (rs422_ping_bringup_test hw e s)"
proof -
  define p where "p = (g_rs422_ping_packet (ro s))\<lparr>pk_version := PROTOCOL_VERSION, pk_msg_id := MSG_PING, pk_seq := e, pk_length := 0\<rparr>"
  obtain res frame enc where e: "protocol_encode (Some p) (Some (g_rs422_tx_frame (ro s))) PROTOCOL_MAX_FRAME_SIZE (Some 0) = (res, frame, enc)"
    by (cases "protocol_encode (Some p) (Some (g_rs422_tx_frame (ro s))) PROTOCOL_MAX_FRAME_SIZE (Some 0)")
  define s1 where "s1 = s\<lparr>rs := (rs s)\<lparr>g_rs422_last_seq := e\<rparr>\<rparr>"
  define s2 where "s2 = s1\<lparr>ro := (ro s)\<lparr>g_rs422_ping_packet := p, g_rs422_tx_frame := the frame\<rparr>\<rparr>"
  obtain c s3 where clear: "osThreadFlagsClear RS422Task RS422_EVENT_TX_DONE s2 = (c, s3)" by fastforce
  obtain st s4 where start: "start_transmission hw (take (the enc) (g_rs422_tx_frame (ro s3))) s3 = (st, s4)" by fastforce
  have s3: "rs s3 = rs s2" "ro s3 = ro s2" "env s3 = env s2"
    using clear by (auto simp: osThreadFlagsClear_def Let_def split: if_splits)
  have env: "env s1 = env s" "env s2 = env s" "within now G B (env s) (env s4)"
    using start s3 clk by (auto simp: s1_def s2_def start_transmission_def set_tx_busy_def clocked_def clock_ok_def)
  have ring: "rx_ring_inv s1" "rx_ring_inv s2" "rx_ring_inv s3" "rx_ring_inv s4"
    using inv s3 start by (auto simp: s1_def s2_def rx_ring_inv_def start_transmission_def set_tx_busy_def)
  have tests: "test_state s1 = test_state s" "test_state s2 = test_state s" "test_state s3 = test_state s" "test_state s4 = test_state s"
    using s3 start by (auto simp: s1_def s2_def test_state_def start_transmission_def set_tx_busy_def)
  have final: "returns (\<lambda>r t. rx_ring_inv t \<and> test_state t = test_state s \<and> within now G (1100 + 3080 * B) (env s) (env t)) (await_pong hw e s4)"
    using await_pong_returns [OF clk rely size ring(4), of e] by (rule returns_mono) (use env tests in \<open>auto simp: within_def\<close>)
  have run: "rs422_ping_bringup_test hw e s =
     (if g_rs422_tx_busy (rs s1) \<noteq> 0 then Some (RS422_PING_TEST_TX_FAILURE, count_tx_busy s1)
      else if res \<noteq> PROTO_OK then Some (RS422_PING_TEST_ENCODE_FAILURE, s2)
      else if c AND osFlagsError \<noteq> 0 then Some (RS422_PING_TEST_TX_FAILURE, count_rs422_tx_error s3)
      else if st \<noteq> HAL_OK then Some (RS422_PING_TEST_TX_FAILURE, transmission_refused st (set_tx_busy 0 s4))
      else await_pong hw e s4)"
    using e clear start unfolding rs422_ping_bringup_test_def await_pong_def s2_def p_def s1_def
    by (simp add: Let_def cong: if_cong)
  have keep: "rx_ring_inv (count_tx_busy s) = rx_ring_inv s" "test_state (count_tx_busy s) = test_state s" "env (count_tx_busy s) = env s"
    "test_state (count_rs422_tx_error s) = test_state s" "rx_ring_inv (count_rs422_tx_error s) = rx_ring_inv s"
    "rx_ring_inv (set_tx_busy v s) = rx_ring_inv s" "test_state (set_tx_busy v s) = test_state s" "env (set_tx_busy v s) = env s" for s :: "'a gw" and v
    by (simp_all add: count_tx_busy_def count_rs422_tx_error_def set_tx_busy_def rx_ring_inv_def test_state_def)
  have refused: "rx_ring_inv (transmission_refused st s) = rx_ring_inv s" "test_state (transmission_refused st s) = test_state s" for s :: "'a gw"
    by (simp_all add: transmission_refused_def keep)
  show ?thesis unfolding run returns_if returns_simps
    using final env s3(3) ring tests by (auto simp: keep refused refused_keeps intro: within_mono)
qed

subsection \<open>The whole run\<close>

text \<open>After \<open>n\<close> more tests, \<open>k\<close> of them failed.\<close>

definition tests_run :: "nat \<Rightarrow> nat \<Rightarrow> 'e gw \<Rightarrow> 'e gw \<Rightarrow> bool" where
  "tests_run n k s t \<longleftrightarrow> k \<le> n \<and> g_rs422_test_total (rs t) = g_rs422_test_total (rs s) + of_nat n \<and>
     g_rs422_test_fail (rs t) = g_rs422_test_fail (rs s) + of_nat k \<and>
     g_rs422_test_success (rs t) = g_rs422_test_success (rs s) + of_nat (n - k)"

definition count_test :: "int \<Rightarrow> 'e gw \<Rightarrow> 'e gw" where
  "count_test r s =
     (let s = s\<lparr>rs := (rs s)\<lparr>g_rs422_test_total := g_rs422_test_total (rs s) + 1, g_rs422_ping_test_result := r\<rparr>\<rparr>
      in if r = RS422_PING_TEST_PASS
         then s\<lparr>rs := (rs s)\<lparr>g_rs422_test_success := g_rs422_test_success (rs s) + 1\<rparr>\<rparr>
         else s\<lparr>rs := (rs s)\<lparr>g_rs422_test_fail := g_rs422_test_fail (rs s) + 1\<rparr>\<rparr>)"

lemma count_test_run: "tests_run 1 (if r = RS422_PING_TEST_PASS then 0 else 1) s (count_test r s)"
  by (simp add: count_test_def tests_run_def Let_def)

lemma count_test_keeps: "env (count_test r s) = env s" "rx_ring_inv (count_test r s) = rx_ring_inv s"
  by (simp_all add: count_test_def rx_ring_inv_def Let_def)

lemma tests_run_trans: "tests_run a j s t \<Longrightarrow> tests_run b k t u \<Longrightarrow> tests_run (a + b) (j + k) s u"
proof -
  assume run: "tests_run a j s t" "tests_run b k t u"
  then have "a + b - (j + k) = (a - j) + (b - k)" by (simp add: tests_run_def)
  then have "of_nat (a + b - (j + k)) = (of_nat (a - j) + of_nat (b - k) :: u32)" by simp
  with run show ?thesis by (simp add: tests_run_def add.assoc)
qed

lemma tests_run_test_state: "test_state s' = test_state s \<Longrightarrow> test_state t' = test_state t \<Longrightarrow> tests_run n k s' t' = tests_run n k s t"
  by (simp add: tests_run_def test_state_def)

lemma bringup_loop_step:
  "bringup_loop hw i lf s =
     (if i < 100 then do {
        (r, s) \<leftarrow> rs422_ping_bringup_test hw (of_nat (i + 1)) s;
        let s = count_test r s;
            s = (if i + 1 < 100 then HAL_Delay hw RS422_BRINGUP_INTER_TEST_DELAY_MS s else s)
        in bringup_loop hw (i + 1) (if r = RS422_PING_TEST_PASS then lf else r) s }
      else Some (lf, s))"
  by (subst bringup_loop.simps) (auto simp: count_test_def Let_def intro!: Option.bind_cong)

lemma bringup_loop_returns:
  assumes clk: "clocked hw now G B" and rely: "bringup_rely hw" and size: "B < 2 ^ 19"
  shows "\<lbrakk>i + n = 100; rx_ring_inv s\<rbrakk> \<Longrightarrow>
    \<exists>lf' t k. bringup_loop hw i lf s = Some (lf', t) \<and> rx_ring_inv t \<and> within now G (n * (1120 + 3081 * B)) (env s) (env t) \<and>
      tests_run n k s t \<and> (if k = 0 then lf' = lf else lf' \<noteq> RS422_PING_TEST_PASS)"
proof (induction n arbitrary: i s lf)
  case 0
  then show ?case by (subst bringup_loop_step) (auto simp: tests_run_def)
next
  case (Suc n)
  obtain r t where test: "rs422_ping_bringup_test hw (of_nat (i + 1)) s = Some (r, t)" "rx_ring_inv t" "test_state t = test_state s"
    "within now G (1100 + 3080 * B) (env s) (env t)"
    using bringup_test_returns [OF clk rely size Suc.prems(2), of "of_nat (i + 1)"] by (auto simp: returns_iff)
  define u where "u = count_test r t"
  define v where "v = (if i + 1 < 100 then HAL_Delay hw RS422_BRINGUP_INTER_TEST_DELAY_MS u else u)"
  have u: "tests_run 1 (if r = RS422_PING_TEST_PASS then 0 else 1) s u" "rx_ring_inv u" "env u = env t"
    using count_test_run [of r t] tests_run_test_state [of s t u u] test(2,3) by (simp_all add: u_def count_test_keeps)
  have delay: "within now G (unat n + B) (env s) (env (HAL_Delay hw n s))" for n s
    using clk by (simp add: clocked_def clock_ok_def)
  have v: "test_state v = test_state u" "rx_ring_inv v" "within now G (20 + B) (env u) (env v)"
    using rely u(2) delay [of RS422_BRINGUP_INTER_TEST_DELAY_MS u] by (simp_all add: v_def bringup_rely_def)
  have "i + 1 + n = 100" using Suc.prems(1) by simp
  from Suc.IH [OF this v(2), of "if r = RS422_PING_TEST_PASS then lf else r"] obtain lf' w k where
    w: "bringup_loop hw (i + 1) (if r = RS422_PING_TEST_PASS then lf else r) v = Some (lf', w)" "rx_ring_inv w"
      "within now G (n * (1120 + 3081 * B)) (env v) (env w)" "tests_run n k v w"
      "if k = 0 then lf' = (if r = RS422_PING_TEST_PASS then lf else r) else lf' \<noteq> RS422_PING_TEST_PASS" by blast
  have run: "bringup_loop hw i lf s = Some (lf', w)"
    using Suc.prems(1) w(1) test(1) by (subst bringup_loop_step) (simp add: u_def v_def Let_def split: if_splits)
  have "within now G (Suc n * (1120 + 3081 * B)) (env s) (env w)"
    using test(4) v(3) w(3) u(3) by (auto simp: within_def algebra_simps)
  moreover have "tests_run (1 + n) ((if r = RS422_PING_TEST_PASS then 0 else 1) + k) s w"
    using tests_run_trans [OF u(1)] w(4) tests_run_test_state [OF v(1), of w w] by blast
  ultimately show ?case using run w(2,5)
    by (intro exI [of _ lf'] exI [of _ w] exI [of _ "(if r = RS422_PING_TEST_PASS then 0 else 1) + k"]) (auto split: if_splits)
qed

text \<open>C36: the start-up link test always ends, whatever arrives or fails to arrive on the line, and
  within 100 tests of at most 1120 ticks and the time of the calls. Afterwards exactly 100 tests are
  counted, each as a success or a failure, and the reported result is PASS if and only if none failed.\<close>

theorem bringup_run_accounts:
  assumes "clocked hw now G B" and "bringup_rely hw" and "B < 2 ^ 19" and "rx_ring_inv s"
  shows "\<exists>r t k. rs422_ping_bringup_run hw s = Some (r, t) \<and> within now G (112000 + 308100 * B) (env s) (env t) \<and> k \<le> 100 \<and>
    g_rs422_test_total (rs t) = 100 \<and> g_rs422_test_fail (rs t) = of_nat k \<and> g_rs422_test_success (rs t) = of_nat (100 - k) \<and>
    (r = RS422_PING_TEST_PASS \<longleftrightarrow> k = 0)"
proof -
  define u where "u = s\<lparr>rs := (rs s)\<lparr>g_rs422_ping_test_result := RS422_PING_TEST_NOT_RUN, g_rs422_last_msg_id := 0,
    g_rs422_last_seq := 0, g_rs422_rx_frame_count := 0, g_rs422_test_total := 0, g_rs422_test_success := 0, g_rs422_test_fail := 0\<rparr>\<rparr>"
  have "rx_ring_inv u" using assms(4) by (simp add: u_def rx_ring_inv_def)
  from bringup_loop_returns [OF assms(1-3), of 0 100 u RS422_PING_TEST_PASS, OF _ this] obtain lf' t k where
    t: "bringup_loop hw 0 RS422_PING_TEST_PASS u = Some (lf', t)" "within now G (100 * (1120 + 3081 * B)) (env u) (env t)"
      "tests_run 100 k u t" "if k = 0 then lf' = RS422_PING_TEST_PASS else lf' \<noteq> RS422_PING_TEST_PASS" by auto
  have k: "k \<le> 100" "g_rs422_test_total (rs t) = 100" "g_rs422_test_fail (rs t) = of_nat k" "g_rs422_test_success (rs t) = of_nat (100 - k)"
    using t(3) by (simp_all add: tests_run_def u_def)
  have "(of_nat k :: u32) = 0 \<longleftrightarrow> k = 0" using k(1) by (simp add: word_unat_eq_iff unat_of_nat take_bit_nat_eq_self)
  moreover have "env u = env s" by (simp add: u_def)
  moreover have "rs422_ping_bringup_run hw s = Some (if g_rs422_test_fail (rs t) = 0 then RS422_PING_TEST_PASS else lf', t)"
    using t(1) by (simp add: rs422_ping_bringup_run_def u_def)
  ultimately show ?thesis using t(2,4) k
    by (intro exI [of _ "if g_rs422_test_fail (rs t) = 0 then RS422_PING_TEST_PASS else lf'"] exI [of _ t] exI [of _ k])
      (auto simp: algebra_simps)
qed

lemma uart_hw_bringup: "bringup_rely uart_hw"
  using uart_hw_ok(1) by (simp add: bringup_rely_def uart_hw_def sim_hw_def test_state_def tx_callback_keeps rx_ring_inv_def)

theorem bringup_run_accounts_witness:
  "\<exists>r t. rs422_ping_bringup_run uart_hw (boot sim_init) = Some (r, t) \<and> g_rs422_test_total (rs t) = 100 \<and>
    sim_time (env t) \<le> 420100"
proof -
  have "rx_ring_inv (boot sim_init)" "sim_time (env (boot sim_init)) = 0"
    by (simp_all add: rx_ring_inv_def boot_def boot_rs422_objects_def sim_init_def)
  with bringup_run_accounts [OF uart_hw_ok(3) uart_hw_bringup, of "boot sim_init"] show ?thesis
    by (auto simp: within_def ticks_of_def)
qed

end
