(* ===== verification/GwSchedule.thy ===== *)
theory GwSchedule
  imports GwEthernet
begin

text \<open>
  The schedule of the Ethernet task: its deadlines keep to their periods without drift, it never
  sleeps past one, and every iteration of its loop comes to its end in bounded time.
\<close>

subsection \<open>Deadlines\<close>

text \<open>A signed look at the difference of two tick values decides which of two times is first.\<close>

lemma signed_tick_diff:
  assumes "M < N + 2 ^ 31" "N < M + 2 ^ 31"
  shows "sint (of_nat N - of_nat M :: u32) = int N - int M"
proof -
  have "(of_nat N - of_nat M :: u32) = word_of_int (int N - int M)" by simp
  moreover have "- (2 ^ 31) \<le> int N - int M" "int N - int M < 2 ^ 31" using assms by simp_all
  moreover have "sint (word_of_int k :: u32) = signed_take_bit 31 k" for k by transfer simp
  ultimately show ?thesis by (simp only: signed_take_bit_int_eq_self)
qed

lemma advance_deadline_at:
  assumes "0 < unat P" "unat P \<le> 2 ^ 30" "N < D + unat P + 2 ^ 31" "D < N + 2 ^ 30"
  shows "\<exists>k. advance_deadline P (of_nat N) (of_nat D) = Some (of_nat (D + Suc k * unat P)) \<and> N < D + Suc k * unat P \<and>
    (k = 0 \<or> D + k * unat P \<le> N)"
  using assms(3,4)
proof (induction "N - D" arbitrary: D rule: less_induct)
  case less
  let ?D = "D + unat P"
  have diff: "sint (of_nat N - of_nat ?D :: u32) = int N - int ?D"
    using less.prems assms(1,2) by (intro signed_tick_diff) simp_all
  have "0 \<le> sint (of_nat N - of_nat ?D :: u32) \<longleftrightarrow> ?D \<le> N" unfolding diff by linarith
  then have sgn: "0 \<le> sint (of_nat N - (of_nat D + P) :: u32) \<longleftrightarrow> ?D \<le> N" by simp
  show ?case
  proof (cases "?D \<le> N")
    case True
    then have rec: "advance_deadline P (of_nat N) (of_nat D) = advance_deadline P (of_nat N) (of_nat ?D)"
      using sgn by (subst advance_deadline.simps) (simp add: Let_def)
    have "N - ?D < N - D" "N < ?D + unat P + 2 ^ 31" "?D < N + 2 ^ 30" using True assms(1,2) less.prems by simp_all
    from less.hyps [OF this] obtain k where "advance_deadline P (of_nat N) (of_nat ?D) = Some (of_nat (?D + Suc k * unat P))"
      "N < ?D + Suc k * unat P" "k = 0 \<or> ?D + k * unat P \<le> N" by blast
    then show ?thesis using True by (intro exI [of _ "Suc k"]) (auto simp: rec algebra_simps)
  next
    case False
    then have "advance_deadline P (of_nat N) (of_nat D) = Some (of_nat ?D)"
      using sgn by (subst advance_deadline.simps) (simp add: Let_def)
    then show ?thesis using False by (intro exI [of _ 0]) simp
  qed
qed

text \<open>After a service its deadline moves on by whole periods, to the first one that lies in the
  future (at least one): the schedule does not drift, whatever the service took, and the loop that
  skips missed periods ends. This holds across the wrap-around of the tick counter.\<close>

theorem deadlines_do_not_drift:
  assumes "0 < unat P" and "unat P \<le> 2 ^ 30" and "D \<le> N" and "N < D + 2 ^ 31"
  shows "\<exists>k. 1 \<le> k \<and> advance_deadline P (of_nat N) (of_nat D) = Some (of_nat (D + k * unat P)) \<and>
    N < D + k * unat P \<and> D + k * unat P \<le> N + unat P"
proof -
  from advance_deadline_at [of P N D] assms obtain k where
    "advance_deadline P (of_nat N) (of_nat D) = Some (of_nat (D + Suc k * unat P))" "N < D + Suc k * unat P"
    "k = 0 \<or> D + k * unat P \<le> N" by auto
  then show ?thesis using assms(3) by (intro exI [of _ "Suc k"]) auto
qed

theorem deadlines_do_not_drift_witness:
  "advance_deadline 100 (of_nat (2 ^ 32 + 250)) (of_nat (2 ^ 32 - 6)) = Some 294"
proof -
  obtain k where k: "advance_deadline 100 (of_nat (2 ^ 32 + 250)) (of_nat (2 ^ 32 - 6)) = Some (of_nat (2 ^ 32 - 6 + k * unat (100 :: u32)))"
    "2 ^ 32 + 250 < 2 ^ 32 - 6 + k * unat (100 :: u32)" "2 ^ 32 - 6 + k * unat (100 :: u32) \<le> 2 ^ 32 + 250 + unat (100 :: u32)"
    using deadlines_do_not_drift [of 100 "2 ^ 32 - 6" "2 ^ 32 + 250"] by auto
  then have "k = 3" by simp
  with k(1) show ?thesis by simp
qed

text \<open>The Ethernet task sleeps exactly until its next deadline, the earlier of the data and the
  control deadline, and not at all when one of them has been reached: it neither oversleeps a
  deadline nor wakes early without an event.\<close>

theorem wait_ends_at_deadline:
  assumes "N < D + 2 ^ 31" and "D < N + 2 ^ 31" and "N < C + 2 ^ 31" and "C < N + 2 ^ 31"
    and "next_data_service_tick l = of_nat D" and "next_phy_tick l = of_nat C"
  shows "unat (eth_wait_ticks (of_nat N) l) = min D C - N"
proof -
  have s: "sint (of_nat D - of_nat N :: u32) = int D - int N" "sint (of_nat C - of_nat N :: u32) = int C - int N"
    using assms(1-4) by (simp_all add: signed_tick_diff)
  have u: "unat (of_nat X - of_nat N :: u32) = X - N" if "N \<le> X" "X < N + 2 ^ 31" for X
    using that by (intro tick_elapsed) simp_all
  show ?thesis
  proof (cases "N < D \<and> N < C")
    case True
    then show ?thesis using s u [of D] u [of C] assms
      by (auto simp: eth_wait_ticks_def Let_def word_less_nat_alt)
  next
    case False
    then show ?thesis using s assms(5,6) by (auto simp: eth_wait_ticks_def Let_def)
  qed
qed

definition sample_locals :: eth_locals where
  "sample_locals = \<lparr>tcp_lifecycle_restart_pending = 0, phy_period_ticks = 100, data_service_period_ticks = 1,
     tcp_transient_timeout_ticks = 5000, tcp_recovery_retry_ticks = 1000, next_phy_tick = 105, next_data_service_tick = 6,
     next_tcp_restart_tick = 0, socket_state_enter_tick = 0, phy_link_state_initialized = 1, phy_link_was_established = 1,
     previous_link_up = 1, socket_state_initialized = 1, graceful_disconnect_pending = 0, pending_ethernet_events = 0,
     previous_socket_status = W5500_SOCKET0_STATUS_LISTEN\<rparr>"

theorem wait_ends_at_deadline_witness: "unat (eth_wait_ticks 5 sample_locals) = 1"
  using wait_ends_at_deadline [of 5 6 105 sample_locals] by (simp add: sample_locals_def)

lemma advance_deadline_returns:
  assumes P: "0 < unat P" "unat P \<le> 2 ^ 30"
  shows "\<exists>t. advance_deadline P n d = Some t"
proof (induction "unat (n - (d + P))" arbitrary: d rule: less_induct)
  case less
  let ?x = "n - (d + P)"
  show ?case
  proof (cases "0 \<le> sint ?x \<and> unat P \<le> unat ?x")
    case True
    then have less_x: "unat (?x - P) < unat ?x" using P(1) by (subst unat_sub) (simp_all add: word_le_nat_alt)
    have "n - (d + P + P) = ?x - P" by (simp add: algebra_simps)
    with less_x have "unat (n - (d + P + P)) < unat ?x" by (simp only:)
    from less [OF this] True show ?thesis by (subst advance_deadline.simps) (simp add: Let_def)
  next
    case False
    show ?thesis
    proof (cases "0 \<le> sint ?x")
      case True
      with False have small: "unat ?x < unat P" by simp
      have "n - (d + P + P) = of_nat (unat ?x) - of_nat (unat P)" by (simp add: algebra_simps)
      moreover have "sint (of_nat (unat ?x) - of_nat (unat P) :: u32) = int (unat ?x) - int (unat P)"
        using small P(2) by (intro signed_tick_diff) simp_all
      ultimately have "sint (n - (d + P + P)) = int (unat ?x) - int (unat P)" by (simp only:)
      then have "sint (n - (d + P + P)) < 0" using small by linarith
      then have "advance_deadline P n (d + P) = Some (d + P + P)" by (subst advance_deadline.simps) (simp add: Let_def)
      with True show ?thesis by (subst advance_deadline.simps) (simp add: Let_def)
    qed (subst advance_deadline.simps, simp add: Let_def)
  qed
qed

subsection \<open>Time taken by the services\<close>

text \<open>
  \<open>takes now G n e m\<close>: started in the environment \<open>e\<close>, \<open>m\<close> returns within \<open>n\<close>
  ticks, whatever the chip answers. The rules add up the parts of a program.
\<close>

definition takes :: "('e \<Rightarrow> nat) \<Rightarrow> nat \<Rightarrow> nat \<Rightarrow> 'e \<Rightarrow> ('a \<times> 'e gw) option \<Rightarrow> bool" where
  "takes now G n e m \<longleftrightarrow> returns (\<lambda>_ t. within now G n e (env t)) m"

lemma takes_Some: "within now G n e (env t) \<Longrightarrow> takes now G n e (Some (x, t))"
  by (simp add: takes_def wp)

lemma takes_mono: "takes now G a e m \<Longrightarrow> a \<le> n \<Longrightarrow> takes now G n e m"
  unfolding takes_def by (erule returns_mono) (rule within_mono)

lemma takes_after: "within now G a e e' \<Longrightarrow> takes now G b e' m \<Longrightarrow> a + b \<le> n \<Longrightarrow> takes now G n e m"
  unfolding takes_def by (erule returns_mono) (rule within_trans)

lemma takes_bind:
  assumes "takes now G a e m" "\<And>x t. takes now G b (env t) (k x t)" "a + b \<le> n"
  shows "takes now G n e (m \<bind> (\<lambda>(x, t). k x t))"
proof -
  obtain x t where m: "m = Some (x, t)" "within now G a e (env t)" using assms(1) by (auto simp: takes_def returns_iff)
  from takes_after [OF m(2) assms(2) assms(3)] show ?thesis by (simp add: m(1))
qed

lemma takes_if: "(b \<Longrightarrow> takes now G n e m) \<Longrightarrow> (\<not> b \<Longrightarrow> takes now G n e m') \<Longrightarrow> takes now G n e (if b then m else m')"
  by simp

lemma takes_returns: "takes now G n (env s) m \<longleftrightarrow> returns (\<lambda>st s'. within now G n (env s) (env s')) m"
  by (simp add: takes_def)

text \<open>The functions that use neither the bus nor the clock.\<close>

lemma env_context [simp]:
  "env (w5500_tcp_discard_stale_responses s) = env s" "env (w5500_tcp_invalidate_connection_context s) = env s"
  "env (tcp_not_ready s) = env s" "env (set_socket0_spi_status st s) = env s"
proof -
  have t: "env (snd (take_response s)) = env s" for s :: "'a gw"
    by (simp add: take_response_def Let_def split: prod.split)
  have d: "env (discard_loop n s) = env s" for n and s :: "'a gw"
  proof (induction n arbitrary: s)
    case (Suc n)
    then show ?case using t [of s] by (cases "take_response s") simp
  qed simp
  show e: "env (w5500_tcp_discard_stale_responses s) = env s" for s :: "'a gw"
    by (simp add: w5500_tcp_discard_stale_responses_def d del: TCP_RESPONSE_QUEUE_DEPTH_def)
  show "env (w5500_tcp_invalidate_connection_context s) = env s"
    by (simp add: w5500_tcp_invalidate_connection_context_def e osThreadFlagsSet_def Let_def)
qed (simp_all add: tcp_not_ready_def set_socket0_spi_status_def)

subsubsection \<open>The server socket\<close>

lemma tick_within: "clocked hw now G B \<Longrightarrow> within now G B e (snd (osKernelGetTickCount hw e))"
  by (simp add: clocked_def clock_ok_def)

lemma command_takes: "clocked hw now G B \<Longrightarrow> takes now G (101 + 9 * B) (env s) (w5500_socket0_execute_command hw c s)"
  unfolding takes_returns by (rule execute_command_returns) (simp_all add: clocked_def)

lemma status_takes: "clocked hw now G B \<Longrightarrow> takes now G (1010 + 6 * B) (env s) (w5500_wait_for_socket0_status hw c 1000 s)"
  unfolding takes_returns by (rule wait_for_status_returns) (simp_all add: clocked_def)

lemma listen_takes:
  assumes clk: "clocked hw now G B"
  shows "takes now G (1111 + 16 * B) (env s) (w5500_listen_tcp_server hw s)"
proof -
  have diag: "within now G B (env s) (env (ethernet_diag_record_tcp_service_ready hw s))" for s
    using tick_within [OF clk] by (simp add: ethernet_diag_record_tcp_service_ready_def Let_def)
  have fin: "takes now G B (env s) (if st = HAL_OK then Some (st, ethernet_diag_record_tcp_service_ready hw
      (s\<lparr>tcp := (tcp s)\<lparr>g_w5500_tcp_listen_ok := 1\<rparr>\<rparr>)) else Some (st, s))" for st s
    using diag [of "s\<lparr>tcp := x\<rparr>" for x] by (intro takes_if takes_Some) auto
  have wait: "takes now G (1010 + 6 * B) (env s) (if st = HAL_OK
      then w5500_wait_for_socket0_status hw W5500_SOCKET0_STATUS_LISTEN 1000 s else Some (st, s))" for st s
    using status_takes [OF clk] by (intro takes_if takes_Some) auto
  show ?thesis
    unfolding w5500_listen_tcp_server_def Let_def W5500_SOCKET_STATE_TIMEOUT_MS_def
  proof (rule takes_bind [OF command_takes [OF clk]])
    fix st and t :: "'a gw"
    show "takes now G (1010 + 7 * B) (env t) (
       (if st = HAL_OK then w5500_wait_for_socket0_status hw W5500_SOCKET0_STATUS_LISTEN 1000 (set_socket0_spi_status st t)
        else Some (st, set_socket0_spi_status st t)) \<bind> (\<lambda>(st, s).
       if st = HAL_OK then Some (st, ethernet_diag_record_tcp_service_ready hw
         ((set_socket0_spi_status st s)\<lparr>tcp := (tcp (set_socket0_spi_status st s))\<lparr>g_w5500_tcp_listen_ok := 1\<rparr>\<rparr>))
       else Some (st, set_socket0_spi_status st s)))"
      using wait [of "set_socket0_spi_status st t" st] fin [of "set_socket0_spi_status x y" for x y]
      by (intro takes_bind [where a = "1010 + 6 * B" and b = B]) auto
  qed simp
qed

lemma start_takes:
  assumes clk: "clocked hw now G B"
  shows "takes now G (2222 + 37 * B) (env s) (w5500_start_tcp_server hw s)"
proof -
  have cu: "clock_ok hw now G B" using clk by (simp add: clocked_def)
  define s1 where "s1 = s\<lparr>tcp := (tcp s)\<lparr>g_w5500_tcp_init_ok := 0, g_w5500_tcp_listen_ok := 0\<rparr>\<rparr>"
  obtain st1 e1 where w1: "w5500_socket0_write_registers hw W5500_SOCKET0_MR_ADDRESS [W5500_SOCKET0_TCP_MODE] 1 (env s1) = (st1, e1)"
    by fastforce
  define s2 where "s2 = set_socket0_spi_status st1 (s1\<lparr>env := e1\<rparr>)"
  obtain st2 e2 where w2: "w5500_socket0_write_registers hw W5500_SOCKET0_PORT_ADDRESS
      [hi8 W5500_TCP_SERVER_PORT, lo8 W5500_TCP_SERVER_PORT] 2 (env s2) = (st2, e2)" by fastforce
  define st3 where "st3 = (if st1 = HAL_OK then st2 else st1)"
  define s3 where "s3 = (if st1 = HAL_OK then set_socket0_spi_status st2 (s2\<lparr>env := e2\<rparr>) else s2)"
  have w: "within now G (6 * B) (env s) (env s3)"
    using register_time(4) [OF cu w1] register_time(4) [OF cu w2] by (auto simp: s1_def s2_def s3_def within_def)
  have run: "w5500_start_tcp_server hw s = do {
      (st, s) \<leftarrow> (if st3 = HAL_OK then do {
          (st, s) \<leftarrow> w5500_socket0_execute_command hw W5500_SOCKET0_OPEN_COMMAND s3; Some (st, set_socket0_spi_status st s) }
        else Some (st3, s3));
      (st, s) \<leftarrow> (if st = HAL_OK then w5500_wait_for_socket0_status hw W5500_SOCKET0_STATUS_INIT 1000 s else Some (st, s));
      if st \<noteq> HAL_OK then Some (st, set_socket0_spi_status st s)
      else w5500_listen_tcp_server hw (s\<lparr>tcp := (tcp s)\<lparr>g_w5500_tcp_init_ok := 1\<rparr>\<rparr>) }"
    using w1 w2 unfolding w5500_start_tcp_server_def s1_def s2_def st3_def s3_def W5500_SOCKET_STATE_TIMEOUT_MS_def
    by (simp add: Let_def del: W5500_SOCKET0_MR_ADDRESS_def W5500_SOCKET0_PORT_ADDRESS_def W5500_TCP_SERVER_PORT_def W5500_SOCKET0_TCP_MODE_def)
  have first: "takes now G (101 + 9 * B) (env s3) (if st3 = HAL_OK then do {
          (st, s) \<leftarrow> w5500_socket0_execute_command hw W5500_SOCKET0_OPEN_COMMAND s3; Some (st, set_socket0_spi_status st s) }
        else Some (st3, s3))"
    by (intro takes_if takes_Some takes_bind [OF command_takes [OF clk], where b = 0]) auto
  have second: "takes now G (1010 + 6 * B) (env t)
      (if st = HAL_OK then w5500_wait_for_socket0_status hw W5500_SOCKET0_STATUS_INIT 1000 t else Some (st, t))" for st t
    by (intro takes_if takes_Some status_takes [OF clk]) simp
  have third: "takes now G (1111 + 16 * B) (env t) (if st \<noteq> HAL_OK then Some (st, set_socket0_spi_status st t)
      else w5500_listen_tcp_server hw (t\<lparr>tcp := (tcp t)\<lparr>g_w5500_tcp_init_ok := 1\<rparr>\<rparr>))" for st t
    using listen_takes [OF clk, of "t\<lparr>tcp := (tcp t)\<lparr>g_w5500_tcp_init_ok := 1\<rparr>\<rparr>"] by (intro takes_if takes_Some) auto
  have "takes now G (2222 + 31 * B) (env s3) (w5500_start_tcp_server hw s)"
    unfolding run
    by (rule takes_bind [OF first, where b = "2121 + 22 * B"]) (rule takes_bind [OF second third], simp_all)
  with w show ?thesis by (rule takes_after) simp
qed

lemma restart_takes:
  assumes clk: "clocked hw now G B"
  shows "takes now G (3333 + 52 * B) (env s) (w5500_restart_tcp_server hw s)"
proof -
  define s1 where "s1 = w5500_tcp_invalidate_connection_context (s\<lparr>tcp := (tcp s)\<lparr>g_w5500_tcp_init_ok := 0, g_w5500_tcp_listen_ok := 0\<rparr>\<rparr>)"
  have s1: "env s1 = env s" by (simp add: s1_def)
  have wait: "takes now G (1010 + 6 * B) (env t) (if st = HAL_OK
      then w5500_wait_for_socket0_status hw W5500_SOCKET0_STATUS_CLOSED 1000 (set_socket0_spi_status st t)
      else Some (st, set_socket0_spi_status st t))" for st t
    using status_takes [OF clk, of "set_socket0_spi_status st t"] by (intro takes_if takes_Some) auto
  have start: "takes now G (2222 + 37 * B) (env t) (if st = HAL_OK then w5500_start_tcp_server hw t else Some (st, t))" for st t
    using start_takes [OF clk] by (intro takes_if takes_Some) auto
  have fin: "takes now G 0 (env t) (Some (st, w5500_tcp_discard_stale_responses (set_socket0_spi_status st t)))" for st t
    by (rule takes_Some) simp
  have "takes now G (3333 + 52 * B) (env s1) (w5500_restart_tcp_server hw s)"
    unfolding w5500_restart_tcp_server_def Let_def s1_def [symmetric] W5500_SOCKET_STATE_TIMEOUT_MS_def
    by (rule takes_bind [OF command_takes [OF clk], where b = "3232 + 43 * B"],
        rule takes_bind [OF wait, where b = "2222 + 37 * B"], rule takes_bind [OF start fin]) simp_all
  then show ?thesis by (simp add: s1)
qed

subsubsection \<open>The data service\<close>

lemma rx_buffer_time:
  assumes "clock_ok hw now G B" "w5500_socket0_read_rx_buffer hw a d n dummy e = (st, d', e')"
  shows "within now G (4 * B) e e'"
proof -
  obtain st1 h e1 where t1: "spi_transfer hw [hi8 a, lo8 a, W5500_SOCKET0_RX_BUFFER_READ_VDM] (replicate 3 0)
      (HAL_GPIO_WritePin hw W5500_CS False e) = (st1, h, e1)"
    by (cases "spi_transfer hw [hi8 a, lo8 a, W5500_SOCKET0_RX_BUFFER_READ_VDM] (replicate 3 0) (HAL_GPIO_WritePin hw W5500_CS False e)")
  obtain st2 d2 e2 where t2: "spi_transfer hw (take n dummy) d e1 = (st2, d2, e2)" by (cases "spi_transfer hw (take n dummy) d e1")
  have w: "within now G (2 * B) e e1" using clock_pin [OF assms(1)] clock_transfer [OF assms(1) t1] by (rule within_trans) simp
  have w2: "within now G B e1 e2" by (rule clock_transfer [OF assms(1) t2])
  have "e' = e \<or> e' = HAL_GPIO_WritePin hw W5500_CS True e1 \<or> e' = HAL_GPIO_WritePin hw W5500_CS True e2"
    using assms(2) t1 t2 by (auto simp: w5500_socket0_read_rx_buffer_def Let_def split: if_splits)
  then show ?thesis using w w2 clock_pin [OF assms(1), of e1 W5500_CS True] clock_pin [OF assms(1), of e2 W5500_CS True]
    by (auto simp: within_def)
qed

lemma tcp_feed_time:
  assumes clk: "clocked hw now G B"
  shows "within now G B (env s) (env (tcp_feed hw b s))"
proof -
  have "env (enqueue_command s) = env s" for s :: "'a gw"
    by (simp add: enqueue_command_def osThreadFlagsSet_def Let_def split: prod.split)
  then have "within now G B (env s) (env (w5500_tcp_handle_valid_frame hw s))" for s
    using tick_within [OF clk]
    by (simp add: w5500_tcp_handle_valid_frame_def note_first_ping_def diagnostic_now_ms_def Let_def)
  from this [of "s\<lparr>tob := x\<rparr>" for x] show ?thesis
    by (auto simp: tcp_feed_def Let_def split: prod.split stream_parser_event_t.split)
qed

lemma tcp_feed_all_time:
  assumes "clocked hw now G B"
  shows "within now G (length bs * B) (env s) (env (fold (tcp_feed hw) bs s))"
proof (induction bs arbitrary: s)
  case (Cons b bs)
  have "within now G (B + length bs * B) (env s) (env (fold (tcp_feed hw) bs (tcp_feed hw b s)))"
    by (rule within_trans [OF tcp_feed_time [OF assms] Cons.IH]) simp
  then show ?case by simp
qed simp

lemma take_chunk_takes:
  assumes clk: "clocked hw now G B" and n: "unat n \<le> 64"
  shows "takes now G (101 + 83 * B) (env s) (tcp_take_chunk hw n s)"
proof -
  have cu: "clock_ok hw now G B" using clk by (simp add: clocked_def)
  obtain st1 p e1 where r1: "w5500_socket0_read_u16 hw W5500_SOCKET0_RX_RD_ADDRESS 0 (env s) = (st1, p, e1)"
    by (cases "w5500_socket0_read_u16 hw W5500_SOCKET0_RX_RD_ADDRESS 0 (env s)")
  obtain st2 d e2 where r2: "w5500_socket0_read_rx_buffer hw p (g_w5500_tcp_rx_chunk (tob s)) (unat n) (g_w5500_tcp_rx_dummy (tob s)) e1 = (st2, d, e2)"
    by (cases "w5500_socket0_read_rx_buffer hw p (g_w5500_tcp_rx_chunk (tob s)) (unat n) (g_w5500_tcp_rx_dummy (tob s)) e1")
  obtain st3 e3 where r3: "w5500_socket0_write_registers hw W5500_SOCKET0_RX_RD_ADDRESS [hi8 (p + n), lo8 (p + n)] 2 e2 = (st3, e3)" by fastforce
  define s3 where "s3 = s\<lparr>tob := (tob s)\<lparr>g_w5500_tcp_rx_chunk := d\<rparr>, env := e3\<rparr>"
  have w: "within now G (3 * B) (env s) e1" "within now G (4 * B) e1 e2" "within now G (3 * B) e2 e3"
    using register_time(6) [OF cu r1] rx_buffer_time [OF cu r2] register_time(4) [OF cu r3] by simp_all
  have w3: "within now G (10 * B) (env s) (env s3)" using w by (auto simp: s3_def within_def)
  have fin: "takes now G (64 * B) (env t) (if st \<noteq> HAL_OK then Some (st, t) else
      let t = t\<lparr>tcp := (tcp t)\<lparr>g_w5500_tcp_rx_bytes := g_w5500_tcp_rx_bytes (tcp t) + ucast n\<rparr>\<rparr>
      in Some (HAL_OK, fold (tcp_feed hw) (take (unat n) (g_w5500_tcp_rx_chunk (tob t))) t))" for st t
  proof -
    define t' where "t' = t\<lparr>tcp := (tcp t)\<lparr>g_w5500_tcp_rx_bytes := g_w5500_tcp_rx_bytes (tcp t) + ucast n\<rparr>\<rparr>"
    have "within now G (64 * B) (env t') (env (fold (tcp_feed hw) (take (unat n) (g_w5500_tcp_rx_chunk (tob t'))) t'))"
      by (rule within_mono [OF tcp_feed_all_time [OF clk]]) (use n in \<open>auto simp: min_def\<close>)
    moreover have "env t' = env t" by (simp add: t'_def)
    ultimately show ?thesis unfolding Let_def t'_def [symmetric] by (intro takes_if takes_Some) auto
  qed
  have "takes now G (101 + 73 * B) (env s3) (do {
      (st, t) \<leftarrow> w5500_socket0_execute_command hw W5500_SOCKET0_RECV_COMMAND s3;
      if st \<noteq> HAL_OK then Some (st, t) else
      let t = t\<lparr>tcp := (tcp t)\<lparr>g_w5500_tcp_rx_bytes := g_w5500_tcp_rx_bytes (tcp t) + ucast n\<rparr>\<rparr>
      in Some (HAL_OK, fold (tcp_feed hw) (take (unat n) (g_w5500_tcp_rx_chunk (tob t))) t) })"
    by (rule takes_bind [OF command_takes [OF clk] fin]) simp
  then have long: "takes now G (101 + 83 * B) (env s) (do {
      (st, t) \<leftarrow> w5500_socket0_execute_command hw W5500_SOCKET0_RECV_COMMAND s3;
      if st \<noteq> HAL_OK then Some (st, t) else
      let t = t\<lparr>tcp := (tcp t)\<lparr>g_w5500_tcp_rx_bytes := g_w5500_tcp_rx_bytes (tcp t) + ucast n\<rparr>\<rparr>
      in Some (HAL_OK, fold (tcp_feed hw) (take (unat n) (g_w5500_tcp_rx_chunk (tob t))) t) })"
    by (rule takes_after [OF w3]) simp
  have run: "tcp_take_chunk hw n s = (if st1 \<noteq> HAL_OK then Some (st1, s\<lparr>env := e1\<rparr>)
      else if st2 \<noteq> HAL_OK then Some (st2, s\<lparr>env := e2, tob := (tob s)\<lparr>g_w5500_tcp_rx_chunk := d\<rparr>\<rparr>)
      else if st3 \<noteq> HAL_OK then Some (st3, s3) else do {
      (st, t) \<leftarrow> w5500_socket0_execute_command hw W5500_SOCKET0_RECV_COMMAND s3;
      if st \<noteq> HAL_OK then Some (st, t) else
      let t = t\<lparr>tcp := (tcp t)\<lparr>g_w5500_tcp_rx_bytes := g_w5500_tcp_rx_bytes (tcp t) + ucast n\<rparr>\<rparr>
      in Some (HAL_OK, fold (tcp_feed hw) (take (unat n) (g_w5500_tcp_rx_chunk (tob t))) t) })"
    using r1 r2 r3 unfolding tcp_take_chunk_def s3_def
    by (simp add: Let_def del: W5500_SOCKET0_RX_RD_ADDRESS_def cong: if_cong)
  show ?thesis
    unfolding run by (intro takes_if takes_Some long) (use w in \<open>auto simp: s3_def within_def\<close>)
qed

lemma process_rx_takes:
  assumes clk: "clocked hw now G B"
  shows "takes now G (101 + 108 * B) (env s) (w5500_tcp_process_rx hw s)"
proof -
  have cu: "clock_ok hw now G B" using clk by (simp add: clocked_def)
  obtain st n e where r: "w5500_socket0_read_stable_u16 hw W5500_SOCKET0_RX_RSR_ADDRESS 0 (env s) = (st, n, e)"
    by (cases "w5500_socket0_read_stable_u16 hw W5500_SOCKET0_RX_RSR_ADDRESS 0 (env s)")
  define m where "m = (if unat n > W5500_TCP_RX_CHUNK_SIZE then of_nat W5500_TCP_RX_CHUNK_SIZE else n)"
  have m: "unat m \<le> 64" by (simp add: m_def)
  have w: "within now G (24 * B) (env s) e" by (rule stable_u16_time(1) [OF cu r])
  have w1: "within now G B e (env (note_rx_ready hw (s\<lparr>env := e\<rparr>)))"
    using tick_within [OF clk] by (simp add: note_rx_ready_def diagnostic_now_ms_def)
  have run: "w5500_tcp_process_rx hw s = (if st \<noteq> HAL_OK \<or> n = 0 then Some (st, s\<lparr>env := e\<rparr>)
      else tcp_take_chunk hw m (note_rx_ready hw (s\<lparr>env := e\<rparr>)))"
    using r unfolding w5500_tcp_process_rx_def m_def
    by (simp add: Let_def del: W5500_SOCKET0_RX_RSR_ADDRESS_def W5500_TCP_RX_CHUNK_SIZE_def)
  have "takes now G (101 + 107 * B + B) (env s) (tcp_take_chunk hw m (note_rx_ready hw (s\<lparr>env := e\<rparr>)))"
    by (rule takes_after [OF w takes_after [OF w1 take_chunk_takes [OF clk m] order_refl]]) simp
  then show ?thesis unfolding run using w by (intro takes_if takes_Some) (auto intro: within_mono elim: takes_mono)
qed

lemma send_response_takes:
  assumes clk: "clocked hw now G B"
  shows "takes now G (2121 + 64 * B) (env s) (w5500_tcp_send_response_packet hw s)"
proof -
  obtain res frame enc where enc: "protocol_encode (Some (g_tcp_pong_packet (tob s))) (Some (g_w5500_tcp_tx_frame (tob s)))
      PROTOCOL_MAX_FRAME_SIZE (Some 0) = (res, frame, enc)" using prod_cases3 by blast
  define s1 where "s1 = s\<lparr>tob := (tob s)\<lparr>g_w5500_tcp_tx_frame := the frame\<rparr>\<rparr>"
  have w1: "within now G B (env s) (env (note_pong_send hw s1))"
    using tick_within [OF clk] by (simp add: s1_def note_pong_send_def diagnostic_now_ms_def Let_def)
  have send: "takes now G (2121 + 62 * B) (env t) (w5500_tcp_send_frame hw n t)" for n t
    unfolding takes_returns by (rule tcp_sender.send_returns [OF clk])
  have after: "takes now G B (env t) (Some ((), tcp_after_send hw (the enc) st t))" for st t
    using tick_within [OF clk]
    by (intro takes_Some) (simp add: tcp_after_send_def ethernet_diag_record_tcp_pong_tx_success_def Let_def)
  have "takes now G (2121 + 63 * B) (env (note_pong_send hw s1)) (do {
      (st, t) \<leftarrow> w5500_tcp_send_frame hw (of_nat (the enc)) (note_pong_send hw s1); Some ((), tcp_after_send hw (the enc) st t) })"
    by (rule takes_bind [OF send after]) simp
  then have "takes now G (2121 + 64 * B) (env s) (do {
      (st, t) \<leftarrow> w5500_tcp_send_frame hw (of_nat (the enc)) (note_pong_send hw s1); Some ((), tcp_after_send hw (the enc) st t) })"
    by (rule takes_after [OF w1]) simp
  then show ?thesis
    unfolding w5500_tcp_send_response_packet_def enc Let_def prod.case s1_def by (intro takes_if takes_Some) simp_all
qed

lemma drain_takes:
  assumes clk: "clocked hw now G B"
  shows "takes now G (n * (2121 + 64 * B)) (env s) (drain_loop hw n s)"
proof (induction n arbitrary: s)
  case (Suc n)
  obtain ok t where take: "take_response s = (ok, t)" by fastforce
  have t: "env t = env s" using take by (auto simp: take_response_def Let_def split: prod.splits)
  let ?u = "t\<lparr>rs := (rs t)\<lparr>g_tcp_response_dequeue_count := g_tcp_response_dequeue_count (rs t) + 1\<rparr>\<rparr>"
  have "takes now G (Suc n * (2121 + 64 * B)) (env ?u) (do { (_, s) \<leftarrow> w5500_tcp_send_response_packet hw ?u; drain_loop hw n s })"
    by (rule takes_bind [OF send_response_takes [OF clk] Suc.IH]) simp
  then show ?case by (auto simp: take t intro: takes_Some)
qed (simp add: takes_Some)

lemma tcp_service_takes:
  assumes clk: "clocked hw now G B"
  shows "takes now G (17069 + 620 * B) (env s) (eth_tcp_service hw due s)"
proof -
  have rx: "takes now G (101 + 108 * B) (env s) (if due then do {
         (rx_status, s) \<leftarrow> w5500_tcp_process_rx hw s;
         let s = s\<lparr>tcp := (tcp s)\<lparr>g_w5500_tcp_last_rx_status := hal_status_value rx_status\<rparr>\<rparr>;
         Some ((), if rx_status \<noteq> HAL_OK
           then s\<lparr>tcp := (tcp s)\<lparr>g_w5500_tcp_rx_error_count := g_w5500_tcp_rx_error_count (tcp s) + 1\<rparr>\<rparr> else s)
       } else Some ((), s))"
    unfolding Let_def by (intro takes_if takes_Some takes_bind [OF process_rx_takes [OF clk], where b = 0]) auto
  have "takes now G (16968 + 512 * B) (env t) (w5500_tcp_drain_response_queue hw t)" for t
    using drain_takes [OF clk, of 8 t] by (auto simp: w5500_tcp_drain_response_queue_def algebra_simps intro: takes_Some)
  then show ?thesis unfolding eth_tcp_service_def by (intro takes_bind [OF rx]) auto
qed

lemma udp_forward_takes:
  assumes clk: "clocked hw now G B"
  shows "takes now G (2121 + 63 * B) (env s) (w5500_udp_forward_packet hw s)"
proof -
  obtain res frame enc where enc: "protocol_encode (Some (g_udp_forward_packet (uo s))) (Some (g_w5500_udp_tx_frame (uo s)))
      PROTOCOL_MAX_FRAME_SIZE (Some 0) = (res, frame, enc)" using prod_cases3 by blast
  define s1 where "s1 = s\<lparr>uo := (uo s)\<lparr>g_w5500_udp_tx_frame := the frame\<rparr>\<rparr>"
  have send: "takes now G (2121 + 62 * B) (env t) (w5500_udp_send_frame hw n t)" for n t
    unfolding takes_returns by (rule udp_sender.send_returns [OF clk])
  have diag: "within now G B (env t) (env (ethernet_diag_record_udp_tx_success hw t))" for t
    using tick_within [OF clk] by (simp add: ethernet_diag_record_udp_tx_success_def Let_def)
  have after: "takes now G B (env t) (if st = HAL_OK
      then Some (st, ethernet_diag_record_udp_tx_success hw (t\<lparr>udp := udp_send_status st (udp t)\<rparr>\<lparr>udp := x st t\<rparr>))
      else Some (st, t\<lparr>udp := udp_send_status st (udp t)\<rparr>\<lparr>udp := y st t\<rparr>))" for st t x y
    using diag [of "t\<lparr>udp := z\<rparr>" for z] by (intro takes_if takes_Some) auto
  have "takes now G (2121 + 63 * B) (env s1) (w5500_udp_send_frame hw (of_nat (the enc)) s1 \<bind> (\<lambda>(st, t). if st = HAL_OK
      then Some (st, ethernet_diag_record_udp_tx_success hw (t\<lparr>udp := udp_send_status st (udp t)\<rparr>\<lparr>udp := x st t\<rparr>))
      else Some (st, t\<lparr>udp := udp_send_status st (udp t)\<rparr>\<lparr>udp := y st t\<rparr>)))" for x y
    by (rule takes_bind [OF send after]) simp
  moreover have "env s1 = env s" by (simp add: s1_def)
  ultimately show ?thesis
    unfolding w5500_udp_forward_packet_def enc Let_def prod.case s1_def by (intro takes_if takes_Some) simp_all
qed

lemma udp_drain_takes:
  assumes clk: "clocked hw now G B"
  shows "takes now G (n * (2121 + 63 * B)) (env s) (udp_drain_loop hw n s)"
proof (induction n arbitrary: s)
  case (Suc n)
  obtain ok t where take: "take_telemetry s = (ok, t)" by fastforce
  have t: "env t = env s" using take by (auto simp: take_telemetry_def Let_def split: prod.splits if_splits)
  let ?u = "t\<lparr>rs := (rs t)\<lparr>g_udp_telemetry_dequeue_count := g_udp_telemetry_dequeue_count (rs t) + 1\<rparr>\<rparr>"
  have again: "takes now G (n * (2121 + 63 * B)) (env v) (if st \<noteq> HAL_OK then Some ((), v) else udp_drain_loop hw n v)" for st v
    by (intro takes_if takes_Some Suc.IH) simp
  have "takes now G (Suc n * (2121 + 63 * B)) (env ?u) (do {
      (status, s) \<leftarrow> w5500_udp_forward_packet hw ?u; if status \<noteq> HAL_OK then Some ((), s) else udp_drain_loop hw n s })"
    by (rule takes_bind [OF udp_forward_takes [OF clk] again]) simp
  then show ?case by (auto simp: take t intro: takes_Some)
qed (simp add: takes_Some)

lemma udp_service_takes:
  assumes clk: "clocked hw now G B"
  shows "takes now G (4242 + 129 * B) (env s) (eth_udp_service hw s)"
proof -
  have cu: "clock_ok hw now G B" using clk by (simp add: clocked_def)
  obtain st v e where r: "w5500_socket1_read_register hw W5500_SOCKET1_SR_ADDRESS W5500_SOCKET1_STATUS_CLOSED (env s) = (st, v, e)"
    using prod_cases3 by blast
  have w: "within now G (3 * B) (env s) e" by (rule register_time(3) [OF cu r])
  have "takes now G (4242 + 126 * B) (env t) (udp_drain_loop hw UDP_TELEMETRY_DRAIN_LIMIT t)" for t
    using udp_drain_takes [OF clk, of 2 t] by (simp add: algebra_simps)
  from takes_after [OF w this [of "s\<lparr>env := e, udp := x\<rparr>" for x, simplified]] have
    "takes now G (4242 + 129 * B) (env s) (udp_drain_loop hw UDP_TELEMETRY_DRAIN_LIMIT (s\<lparr>env := e, udp := x\<rparr>))" for x by simp
  then show ?thesis
    using w unfolding eth_udp_service_def r Let_def prod.case
    by (intro takes_if takes_Some) (auto intro: within_mono)
qed

subsubsection \<open>The control service\<close>

lemma post_any: "(\<And>x t. Q x t) \<Longrightarrow> post Q m"
  by (simp add: post_def split: option.split)

text \<open>The services of the loop, which keep the periods.\<close>

definition periods :: "eth_locals \<Rightarrow> u32 \<times> u32" where
  "periods l = (phy_period_ticks l, data_service_period_ticks l)"

definition serves :: "('e \<Rightarrow> nat) \<Rightarrow> nat \<Rightarrow> nat \<Rightarrow> eth_locals \<Rightarrow> 'e \<Rightarrow> (eth_locals \<times> 'e gw) option \<Rightarrow> bool" where
  "serves now G n l e m \<longleftrightarrow> returns (\<lambda>l' t. periods l' = periods l \<and> within now G n e (env t)) m"

lemma serves_Some: "periods l' = periods l \<Longrightarrow> within now G n e (env t) \<Longrightarrow> serves now G n l e (Some (l', t))"
  by (simp add: serves_def wp)

lemma serves_mono: "serves now G a l e m \<Longrightarrow> a \<le> n \<Longrightarrow> serves now G n l e m"
  unfolding serves_def by (erule returns_mono) (auto intro: within_mono)

lemma serves_if: "(b \<Longrightarrow> serves now G n l e m) \<Longrightarrow> (\<not> b \<Longrightarrow> serves now G n l e m') \<Longrightarrow> serves now G n l e (if b then m else m')"
  by simp

lemma serves_bind:
  assumes "serves now G a l e m" "\<And>l' t. periods l' = periods l \<Longrightarrow> serves now G b l' (env t) (k l' t)" "a + b \<le> n"
  shows "serves now G n l e (m \<bind> (\<lambda>(l', t). k l' t))"
proof -
  obtain l' t where m: "m = Some (l', t)" "periods l' = periods l" "within now G a e (env t)"
    using assms(1) by (auto simp: serves_def returns_iff)
  have "serves now G b l' (env t) (k l' t)" using assms(2) m(2) .
  then have "returns (\<lambda>l'' u. periods l'' = periods l \<and> within now G n e (env u)) (k l' t)"
    unfolding serves_def by (rule returns_mono) (use m(2) within_trans [OF m(3) _ assms(3)] in auto)
  then show ?thesis by (simp add: m(1) serves_def)
qed

lemma serves_takes:
  assumes "takes now G a e m" "\<And>x t. serves now G b l (env t) (k x t)" "a + b \<le> n"
  shows "serves now G n l e (m \<bind> (\<lambda>(x, t). k x t))"
proof -
  obtain x t where m: "m = Some (x, t)" "within now G a e (env t)" using assms(1) by (auto simp: takes_def returns_iff)
  have "returns (\<lambda>l' u. periods l' = periods l \<and> within now G n e (env u)) (k x t)"
    using assms(2) [of t x] unfolding serves_def by (rule returns_mono) (use within_trans [OF m(2) _ assms(3)] in auto)
  then show ?thesis by (simp add: m(1) serves_def)
qed

lemma serves_after: "within now G a e e' \<Longrightarrow> serves now G b l e' m \<Longrightarrow> a + b \<le> n \<Longrightarrow> serves now G n l e m"
  unfolding serves_def by (erule returns_mono) (auto intro: within_trans)

lemma serves_periods: "periods l' = periods l \<Longrightarrow> serves now G n l' e m = serves now G n l e m"
  by (simp add: serves_def)

lemma phy_poll_serves:
  assumes clk: "clocked hw now G B" and run: "eth_phy_poll hw l s = (l', t)"
  shows "periods l' = periods l" "within now G (5 * B) (env s) (env t)"
proof -
  have cu: "clock_ok hw now G B" using clk by (simp add: clocked_def)
  have lost: "periods (fst (link_lost hw l u)) = periods l \<and> within now G B (env u) (env (snd (link_lost hw l u)))" for u l
    using tick_within [OF clk] by (simp add: link_lost_def periods_def Let_def)
  have two: "within now G (2 * B) e (snd (osKernelGetTickCount hw (snd (osKernelGetTickCount hw e))))" for e
    by (rule within_trans [OF tick_within [OF clk] tick_within [OF clk]]) simp
  have regained: "periods (fst (link_restored hw l u)) = periods l \<and> within now G (2 * B) (env u) (env (snd (link_restored hw l u)))" for u l
    using within_mono [OF tick_within [OF clk], of "2 * B"] two by (simp add: link_restored_def periods_def Let_def)
  obtain st v e where r: "w5500_read_common_register hw W5500_PHYCFGR_ADDRESS 0 (env s) = (st, v, e)" using prod_cases3 by blast
  have w: "within now G (3 * B) (env s) e" by (rule register_time(1) [OF cu r])
  define up :: u32 where "up = (if v AND W5500_PHYCFGR_LNK \<noteq> 0 then 1 else 0)"
  define u where "u = s\<lparr>env := e, net := (net (s\<lparr>env := e\<rparr>))\<lparr>g_w5500_phycfgr := v, g_w5500_link_up := up\<rparr>\<rparr>"
  have "(let (l, s) = (if st = HAL_OK then
      if phy_link_state_initialized l = 0 then
        let l = l\<lparr>phy_link_state_initialized := 1, previous_link_up := up\<rparr> in (if up \<noteq> 0 then l\<lparr>phy_link_was_established := 1\<rparr> else l, u)
      else if up \<noteq> previous_link_up l then
        let (l, s) = (if up = 0 then if phy_link_was_established l \<noteq> 0 then link_lost hw l u else (l, u) else link_restored hw l u)
        in (l\<lparr>previous_link_up := up\<rparr>, s)
      else (l, u)
      else (l, s\<lparr>env := e\<rparr>)) in (l, s\<lparr>net := (net s)\<lparr>g_w5500_phy_spi_status := hal_status_value st\<rparr>\<rparr>)) = (l', t)"
    using run unfolding eth_phy_poll_def r Let_def prod.case up_def [symmetric] u_def .
  moreover have "env u = e" by (simp add: u_def)
  ultimately have "periods l' = periods l \<and> within now G (2 * B) e (env t)"
    using lost [of l u] regained [of l u]
    by (auto simp: Let_def periods_def split: if_splits prod.splits intro: within_mono)
  then show "periods l' = periods l" "within now G (5 * B) (env s) (env t)" using w by (auto intro: within_trans)
qed

lemma entered_listen_serves:
  assumes "clocked hw now G B"
  shows "serves now G B l (env s) (Some (entered_listen hw l s))" "serves now G B l (env s) (Some (retry_later hw l s))"
  using tick_within [OF assms]
  by (auto simp: entered_listen_def retry_later_def Let_def periods_def intro!: serves_Some)

lemma recover_serves:
  assumes clk: "clocked hw now G B"
  shows "serves now G (3333 + 53 * B) l (env s) (eth_recover hw l s)" "serves now G (3333 + 53 * B) l (env s) (eth_restart hw l s)"
proof -
  note tick = tick_within [OF clk]
  let ?u = "s\<lparr>tcp := (tcp s)\<lparr>g_w5500_tcp_recovery_attempt_count := g_w5500_tcp_recovery_attempt_count (tcp s) + 1\<rparr>\<rparr>"
  have u: "env ?u = env s" by simp
  show "serves now G (3333 + 53 * B) l (env s) (eth_recover hw l s)"
    unfolding eth_recover_def u [symmetric] using tick
    by (intro serves_takes [OF restart_takes [OF clk], where b = B])
      (auto simp: entered_listen_def retry_later_def Let_def periods_def intro!: serves_Some)
  show "serves now G (3333 + 53 * B) l (env s) (eth_restart hw l s)"
    unfolding eth_restart_def using tick
    by (intro serves_takes [OF restart_takes [OF clk], where b = B])
      (auto simp: entered_listen_def retry_later_def Let_def periods_def intro!: serves_Some)
qed

lemma close_wait_serves:
  assumes clk: "clocked hw now G B"
  shows "serves now G (101 + 10 * B) l (env s) (eth_close_wait hw tick l s)"
proof -
  have u: "env (tcp_not_ready s) = env s" by simp
  have fin: "serves now G B l (env t) (Some (if st = HAL_OK
      then let (now, s) = get_tick hw (set_socket0_spi_status st t) in (l\<lparr>graceful_disconnect_pending := 1, socket_state_enter_tick := now\<rparr>, s)
      else retry_later hw (l\<lparr>tcp_lifecycle_restart_pending := 1\<rparr>) (set_socket0_spi_status st t)))" for st t
    using tick_within [OF clk] by (auto simp: retry_later_def Let_def periods_def intro!: serves_Some)
  have "serves now G (101 + 10 * B) l (env (tcp_not_ready s)) (do {
      (st, t) \<leftarrow> w5500_socket0_execute_command hw W5500_SOCKET0_DISCON_COMMAND (tcp_not_ready s);
      Some (if st = HAL_OK
      then let (now, s) = get_tick hw (set_socket0_spi_status st t) in (l\<lparr>graceful_disconnect_pending := 1, socket_state_enter_tick := now\<rparr>, s)
      else retry_later hw (l\<lparr>tcp_lifecycle_restart_pending := 1\<rparr>) (set_socket0_spi_status st t)) })"
    by (rule serves_takes [OF command_takes [OF clk] fin]) simp
  then show ?thesis unfolding eth_close_wait_def Let_def u
    by (intro serves_if serves_Some) (simp_all add: periods_def Let_def)
qed

lemma listening_again_serves:
  assumes clk: "clocked hw now G B"
  shows "serves now G B l (env s) (Some (listening_again hw st l s))"
  using tick_within [OF clk]
  by (auto simp: listening_again_def entered_listen_def retry_later_def Let_def periods_def intro!: serves_Some)

lemma socket_switch_serves:
  assumes clk: "clocked hw now G B"
  shows "serves now G (2222 + 38 * B) l (env s) (eth_socket_switch hw st tick l s)"
proof -
  have start: "serves now G (2222 + 38 * B) l (env s) (do { (status, s) \<leftarrow> w5500_start_tcp_server hw s; Some (listening_again hw status l s) })"
    by (rule serves_takes [OF start_takes [OF clk] listening_again_serves [OF clk]]) simp
  let ?u = "s\<lparr>tcp := (tcp s)\<lparr>g_w5500_tcp_listen_ok := 0\<rparr>\<rparr>"
  have again: "serves now G B l (env t) (Some (listening_again hw st l
      (if st = HAL_OK then t\<lparr>tcp := (tcp t)\<lparr>g_w5500_tcp_init_ok := 1\<rparr>\<rparr> else t)))" for st t
    using listening_again_serves [OF clk, of l "if st = HAL_OK then t\<lparr>tcp := (tcp t)\<lparr>g_w5500_tcp_init_ok := 1\<rparr>\<rparr> else t" st]
    by (cases "st = HAL_OK") simp_all
  have listen: "serves now G (2222 + 38 * B) l (env ?u) (do { (status, s) \<leftarrow> w5500_listen_tcp_server hw ?u;
      Some (listening_again hw status l (if status = HAL_OK then s\<lparr>tcp := (tcp s)\<lparr>g_w5500_tcp_init_ok := 1\<rparr>\<rparr> else s)) })"
    by (rule serves_takes [OF listen_takes [OF clk] again]) simp
  have close: "serves now G (2222 + 38 * B) l (env s) (eth_close_wait hw tick l s)"
    by (rule serves_mono [OF close_wait_serves [OF clk]]) simp
  have give_up: "serves now G (2222 + 38 * B) l (env s) (Some (eth_give_up tick l s))"
    by (simp add: eth_give_up_def serves_Some periods_def)
  show ?thesis
    unfolding eth_socket_switch_def Let_def
    by (intro serves_if start close give_up serves_Some) (use listen in \<open>simp_all add: periods_def\<close>)
qed

lemma lifecycle_serves:
  assumes clk: "clocked hw now G B"
  shows "serves now G (3333 + 54 * B) l (env s) (eth_lifecycle hw l s)"
proof -
  define u where "u = snd (get_tick hw s)"
  have w: "within now G B (env s) (env u)" using tick_within [OF clk] by (simp add: u_def)
  have leaf: "serves now G (3333 + 54 * B) l (env s) m" if "serves now G (3333 + 53 * B) l (env u) m" for m
    by (rule serves_after [OF w that]) simp
  have sw: "serves now G (3333 + 54 * B) l (env s) (eth_socket_switch hw st tick l u)" for st tick
    by (rule leaf, rule serves_mono [OF socket_switch_serves [OF clk]]) simp
  note go = leaf [OF recover_serves(1) [OF clk]] leaf [OF recover_serves(2) [OF clk]] sw
  have stay: "serves now G (3333 + 54 * B) l (env s) (Some (l, u))" "serves now G (3333 + 54 * B) l (env s) (Some (l, s))"
    by (rule leaf, rule serves_Some, simp_all) (rule serves_Some, simp_all)
  have run: "eth_lifecycle hw l s = (if network_ready s \<and> g_w5500_socket0_spi_status (tcp s) = hal_status_value HAL_OK then
      if g_w5500_link_up (net u) \<noteq> 0 then
        if g_w5500_tcp_recovery_pending (tcp u) \<noteq> 0 then
          if sint (fst (get_tick hw s) - next_tcp_restart_tick l) \<ge> 0 then eth_recover hw l u else Some (l, u)
        else if tcp_lifecycle_restart_pending l \<noteq> 0 then
          if sint (fst (get_tick hw s) - next_tcp_restart_tick l) \<ge> 0 then eth_restart hw l u else Some (l, u)
        else eth_socket_switch hw (g_w5500_socket0_status (tcp s)) (fst (get_tick hw s)) l u
      else Some (l, u)
    else Some (l, s))"
    by (simp add: eth_lifecycle_def u_def Let_def cong: if_cong)
  show ?thesis unfolding run by (intro serves_if go stay)
qed

definition periods_ok :: "eth_locals \<Rightarrow> bool" where
  "periods_ok l \<longleftrightarrow> 0 < unat (phy_period_ticks l) \<and> unat (phy_period_ticks l) \<le> 2 ^ 30 \<and>
     0 < unat (data_service_period_ticks l) \<and> unat (data_service_period_ticks l) \<le> 2 ^ 30"

lemma periods_ok_cong: "periods l' = periods l \<Longrightarrow> periods_ok l' = periods_ok l"
  by (simp add: periods_ok_def periods_def)

lemma control_serves:
  assumes clk: "clocked hw now G B" and ok: "periods_ok l"
  shows "serves now G (3333 + 60 * B) l (env s) (eth_control_service hw l s)"
proof -
  obtain l1 s1 where phy: "eth_phy_poll hw l s = (l1, s1)" by fastforce
  note p = phy_poll_serves [OF clk phy]
  have fin: "serves now G B l' (env t) (let (deadline_now, s) = get_tick hw t in do {
      next_tick \<leftarrow> advance_deadline (phy_period_ticks l') deadline_now (next_phy_tick l');
      Some (l'\<lparr>next_phy_tick := next_tick\<rparr>, s) })" if "periods l' = periods l1" for l' t
  proof -
    have "0 < unat (phy_period_ticks l')" "unat (phy_period_ticks l') \<le> 2 ^ 30"
      using ok that p(1) by (simp_all add: periods_def periods_ok_def)
    from advance_deadline_returns [OF this, of "fst (get_tick hw t)" "next_phy_tick l'"] obtain d where
      "advance_deadline (phy_period_ticks l') (fst (get_tick hw t)) (next_phy_tick l') = Some d" by blast
    then show ?thesis using tick_within [OF clk] by (simp add: Let_def periods_def serves_Some)
  qed
  have "serves now G (3333 + 55 * B) l1 (env s1) (eth_lifecycle hw l1 s1 \<bind> (\<lambda>(l, s). let (deadline_now, s) = get_tick hw s in do {
      next_tick \<leftarrow> advance_deadline (phy_period_ticks l) deadline_now (next_phy_tick l);
      Some (l\<lparr>next_phy_tick := next_tick\<rparr>, s) }))"
    by (rule serves_bind [OF lifecycle_serves [OF clk] fin]) simp_all
  then have "serves now G (3333 + 55 * B) l (env s1) (eth_control_service hw l s)"
    unfolding eth_control_service_def phy Let_def prod.case serves_periods [OF p(1)] .
  with p(2) show ?thesis by (rule serves_after) simp
qed

subsection \<open>One iteration\<close>

lemma data_begin_time:
  assumes "clocked hw now G B" "\<And>e. within now G B e (snd (DWT_CYCCNT hw e))" "eth_data_begin hw l s = (c, t)"
  shows "within now G (2 * B) (env s) (env t)"
proof -
  have two: "within now G (2 * B) e (snd (DWT_CYCCNT hw (snd (osKernelGetTickCount hw e))))" for e
    by (rule within_trans [OF tick_within [OF assms(1)] assms(2)]) simp
  show ?thesis using assms(3) two within_mono [OF tick_within [OF assms(1)], of "2 * B"]
    by (auto simp: eth_data_begin_def Let_def split: if_splits)
qed

lemma socket_poll_time:
  assumes clk: "clocked hw now G B" and run: "eth_socket_poll hw l s = (l', t)"
  shows "periods l' = periods l" "within now G (4 * B) (env s) (env t)"
proof -
  have cu: "clock_ok hw now G B" using clk by (simp add: clocked_def)
  obtain st v e where r: "w5500_socket0_read_register hw W5500_SOCKET0_SR_ADDRESS W5500_SOCKET0_STATUS_CLOSED (env s) = (st, v, e)"
    using prod_cases3 by blast
  have w: "within now G (3 * B) (env s) e" by (rule register_time(2) [OF cu r])
  have two: "within now G (4 * B) (env s) (snd (osKernelGetTickCount hw e))" by (rule within_trans [OF w tick_within [OF clk]]) simp
  have session: "periods (fst (eth_session tick v l u)) = periods l \<and> env (snd (eth_session tick v l u)) = env u" for tick l u
    by (simp add: eth_session_def periods_def Let_def)
  have "periods l' = periods l \<and> (env t = e \<or> env t = snd (osKernelGetTickCount hw e))"
  proof (cases "st = HAL_OK")
    case True
    define l1 where "l1 = (if socket_state_initialized l = 0 \<or> v \<noteq> previous_socket_status l
      then l\<lparr>socket_state_initialized := 1, previous_socket_status := v, socket_state_enter_tick := fst (osKernelGetTickCount hw e)\<rparr> else l)"
    define u where "u = (set_socket0_spi_status HAL_OK (s\<lparr>env := e\<rparr>))\<lparr>env := snd (osKernelGetTickCount hw e),
      tcp := (tcp (set_socket0_spi_status HAL_OK (s\<lparr>env := e\<rparr>)))\<lparr>g_w5500_socket0_status := v\<rparr>\<rparr>"
    have "(l', t) = eth_session (fst (osKernelGetTickCount hw e)) v l1 u" "env u = snd (osKernelGetTickCount hw e)"
      using run True unfolding eth_socket_poll_def r Let_def l1_def u_def by simp_all
    moreover have "periods l1 = periods l" by (simp add: l1_def periods_def)
    ultimately show ?thesis using session [of "fst (osKernelGetTickCount hw e)" l1 u] by (metis fst_conv snd_conv)
  next
    case False
    then show ?thesis using run unfolding eth_socket_poll_def r Let_def by auto
  qed
  then show "periods l' = periods l" "within now G (4 * B) (env s) (env t)" using w two by (auto intro: within_mono)
qed

lemma data_end_serves:
  assumes clk: "clocked hw now G B" and dwt: "\<And>e. within now G B e (snd (DWT_CYCCNT hw e))" and ok: "periods_ok l"
  shows "serves now G (2 * B) l (env s) (eth_data_end hw c l s)"
proof -
  define s1 where "s1 = (if g_w5500_data_cycle_counter_available (sv s) \<noteq> 0
    then let (x, s) = lift_env (DWT_CYCCNT hw) s in s\<lparr>sv := eth_timing (x - c) (sv s)\<rparr> else s)"
  have w: "within now G B (env s) (env s1)" using dwt by (simp add: s1_def Let_def)
  have "0 < unat (data_service_period_ticks l)" "unat (data_service_period_ticks l) \<le> 2 ^ 30" using ok by (simp_all add: periods_ok_def)
  from advance_deadline_returns [OF this, of "fst (get_tick hw s1)" "next_data_service_tick l"] obtain d where
    d: "advance_deadline (data_service_period_ticks l) (fst (get_tick hw s1)) (next_data_service_tick l) = Some d" by blast
  have "eth_data_end hw c l s = Some (l\<lparr>next_data_service_tick := d\<rparr>, snd (get_tick hw s1))"
    unfolding eth_data_end_def s1_def [symmetric] using d by (simp add: Let_def)
  moreover have "serves now G B l (env s1) (Some (l\<lparr>next_data_service_tick := d\<rparr>, snd (get_tick hw s1)))"
    using tick_within [OF clk] by (intro serves_Some) (simp_all add: periods_def)
  ultimately show ?thesis using serves_after [OF w] by simp
qed

lemma tcp_step_takes:
  assumes "clocked hw now G B"
  shows "takes now G (17069 + 620 * B) (env s) (if b then eth_tcp_service hw due s else Some ((), s))"
  using tcp_service_takes [OF assms] by (intro takes_if takes_Some) auto

lemma udp_step_takes:
  assumes "clocked hw now G B"
  shows "takes now G (4242 + 129 * B) (env s) (if b then eth_udp_service hw s else Some ((), s))"
  using udp_service_takes [OF assms] by (intro takes_if takes_Some) auto

lemma eth_work_serves:
  assumes clk: "clocked hw now G B" and dwt: "\<And>e. within now G B e (snd (DWT_CYCCNT hw e))" and ok: "periods_ok l"
  shows "serves now G (24644 + 818 * B) l (env s) (eth_work hw l s)"
proof -
  let ?k = "\<lambda>cd dd. \<lambda>l s. do {
        let (c, s) = (if dd then eth_data_begin hw l s else (0, s));
        let (l, s) = (if dd \<and> network_ready s \<and> g_w5500_link_up (net s) \<noteq> 0 then eth_socket_poll hw l s else (l, s));
        (_, s) \<leftarrow> (if (dd \<or> cd \<noteq> 0) \<and> g_w5500_link_up (net s) \<noteq> 0 \<and>
            g_w5500_tcp_session_active (sv s) \<noteq> 0 \<and> g_w5500_socket0_status (tcp s) = W5500_SOCKET0_STATUS_ESTABLISHED
          then eth_tcp_service hw dd s else Some ((), s));
        (_, s) \<leftarrow> (if dd \<and> g_w5500_udp_open_ok (udp s) \<noteq> 0 then eth_udp_service hw s else Some ((), s));
        if dd then eth_data_end hw c l s else Some (l, s)
      }"
  have rest: "serves now G (21311 + 757 * B) l' (env t) (?k ev dd l' t)" if "periods l' = periods l" for l' t ev dd
  proof -
    obtain c t1 where b: "(if dd then eth_data_begin hw l' t else (0, t)) = (c, t1)" by (metis surj_pair)
    have wb: "within now G (2 * B) (env t) (env t1)"
      using b data_begin_time [OF clk dwt] by (auto split: if_splits)
    obtain l2 t2 where p: "(if dd \<and> network_ready t1 \<and> g_w5500_link_up (net t1) \<noteq> 0 then eth_socket_poll hw l' t1 else (l', t1)) = (l2, t2)"
      by (metis surj_pair)
    have wp: "periods l2 = periods l'" "within now G (4 * B) (env t1) (env t2)"
      using p socket_poll_time [OF clk] by (auto split: if_splits)
    have "periods_ok l2" using ok wp(1) that by (simp add: periods_def periods_ok_def)
    then have fin: "serves now G (2 * B) l2 (env u) (if dd then eth_data_end hw c l2 u else Some (l2, u))" for u
      using data_end_serves [OF clk dwt] by (intro serves_if serves_Some) auto
    have "serves now G (21311 + 751 * B) l2 (env t2) (do {
        (_, s) \<leftarrow> (if (dd \<or> ev \<noteq> 0) \<and> g_w5500_link_up (net t2) \<noteq> 0 \<and>
            g_w5500_tcp_session_active (sv t2) \<noteq> 0 \<and> g_w5500_socket0_status (tcp t2) = W5500_SOCKET0_STATUS_ESTABLISHED
          then eth_tcp_service hw dd t2 else Some ((), t2));
        (_, s) \<leftarrow> (if dd \<and> g_w5500_udp_open_ok (udp s) \<noteq> 0 then eth_udp_service hw s else Some ((), s));
        if dd then eth_data_end hw c l2 s else Some (l2, s) })"
      by (rule serves_takes [OF tcp_step_takes [OF clk], where b = "4242 + 131 * B"],
          rule serves_takes [OF udp_step_takes [OF clk] fin]) simp_all
    then have "serves now G (21311 + 751 * B) l' (env t2) (?k ev dd l' t)"
      unfolding b p Let_def prod.case serves_periods [OF wp(1)] .
    from serves_after [OF wp(2) this, of "21311 + 755 * B"] serves_after [OF wb, of "21311 + 755 * B"] show ?thesis by simp
  qed
  obtain n s1 where g: "get_tick hw s = (n, s1)" by fastforce
  have w: "within now G B (env s) (env s1)" using g tick_within [OF clk, of "env s"] by (auto simp: get_tick_def Let_def split: prod.splits)
  let ?l = "l\<lparr>pending_ethernet_events := 0\<rparr>" let ?c = "sint (n - next_phy_tick l) \<ge> 0"
  have p: "periods ?l = periods l" "periods_ok ?l" using ok by (simp_all add: periods_def periods_ok_def)
  have "serves now G (3333 + 60 * B) ?l (env s1) (if ?c then eth_control_service hw ?l s1 else Some (?l, s1))"
    using control_serves [OF clk p(2)] by (intro serves_if serves_Some) auto
  then have "serves now G (24644 + 817 * B) ?l (env s1) (eth_work hw l s)"
    unfolding eth_work_def g Let_def prod.case
    by (rule serves_bind [OF _ rest [unfolded Let_def]]) (simp_all add: p(1))
  from serves_after [OF w this] show ?thesis unfolding serves_periods [OF p(1)] by simp
qed

subsection \<open>The task\<close>

text \<open>The task up to the head of its service loop after \<open>n\<close> iterations.\<close>

fun StartEthernetTask_run :: "'e hw \<Rightarrow> nat \<Rightarrow> 'e gw \<Rightarrow> (eth_locals \<times> 'e gw) option" where
  "StartEthernetTask_run hw 0 s = StartEthernetTask_init hw s"
| "StartEthernetTask_run hw (Suc n) s = do {
     (l, s) \<leftarrow> StartEthernetTask_run hw n s;
     StartEthernetTask_cycle hw l s
   }"

lemma bind_ends: "m \<noteq> None \<Longrightarrow> (\<And>x t. k x t \<noteq> None) \<Longrightarrow> m \<bind> (\<lambda>(x, t). k x t) \<noteq> None"
  by (cases m) auto

lemma if_ends: "(b \<Longrightarrow> m \<noteq> None) \<Longrightarrow> (\<not> b \<Longrightarrow> m' \<noteq> None) \<Longrightarrow> (if b then m else m') \<noteq> None"
  by simp

lemma prod_ends: "(\<And>x y. f x y \<noteq> None) \<Longrightarrow> (case p of (x, y) \<Rightarrow> f x y) \<noteq> None"
  by (cases p) simp

lemma takes_ends: "takes now G n e m \<Longrightarrow> m \<noteq> None"
  by (auto simp: takes_def returns_iff)

lemma start_udp_ends:
  assumes "clocked hw now G B"
  shows "w5500_start_udp_socket hw s \<noteq> None"
proof -
  have cmd: "w5500_socket1_execute_command hw c t \<noteq> None" for c t
    by (rule takes_ends [OF takes_returns [THEN iffD2, OF execute_command_returns(2) [where now = now and G = G and B = B and c = c and s = t]]]) (use assms in \<open>simp_all add: clocked_def\<close>)
  have wait: "w5500_wait_for_socket1_status hw c W5500_SOCKET_STATE_TIMEOUT_MS t \<noteq> None" for c t
    unfolding W5500_SOCKET_STATE_TIMEOUT_MS_def
    by (rule takes_ends [OF takes_returns [THEN iffD2, OF wait_for_status_returns(2) [where now = now and G = G and B = B and c = c and s = t]]]) (use assms in \<open>simp_all add: clocked_def\<close>)
  show ?thesis unfolding w5500_start_udp_socket_def Let_def
    by (intro bind_ends if_ends prod_ends cmd wait option.distinct)
qed

lemma init_periods:
  assumes clk: "clocked hw now G B"
  shows "\<exists>l t. StartEthernetTask_init hw s = Some (l, t) \<and> periods_ok l"
proof -
  have freq: "osKernelGetTickFreq hw = 1000" using clk by (simp add: clocked_def)
  have per: "rs422_ms_to_kernel_ticks hw W5500_DATA_SERVICE_PERIOD_MS = 1" "rs422_ms_to_kernel_ticks hw W5500_PHY_POLL_PERIOD_MS = 100"
    by (simp_all add: rs422_ms_to_kernel_ticks_def freq Let_def)
  have "StartEthernetTask_init hw s \<noteq> None"
    unfolding StartEthernetTask_init_def Let_def prod.case
    by (intro bind_ends if_ends start_udp_ends [OF clk] takes_ends [OF start_takes [OF clk]] option.distinct prod_ends)
  then obtain l t where run: "StartEthernetTask_init hw s = Some (l, t)" by auto
  then have "phy_period_ticks l = 100 \<and> data_service_period_ticks l = 1"
    unfolding StartEthernetTask_init_def Let_def per by (auto split: prod.splits simp: bind_eq_Some_conv)
  with run show ?thesis by (simp add: periods_ok_def)
qed

lemma eth_wait_ends: "\<exists>l' t. eth_wait hw l s = Some (l', t) \<and> periods l' = periods l"
proof -
  obtain n s1 where g: "get_tick hw s = (n, s1)" by fastforce
  have "eth_wait_ticks n l \<noteq> osWaitForever"
    by (auto simp: eth_wait_ticks_def Let_def)
  then obtain f t where "osThreadFlagsWait hw EthernetTask ETHERNET_EVENT_MASK (eth_wait_ticks n l) s1 = Some (f, t)"
    by (cases "osThreadFlagsWait hw EthernetTask ETHERNET_EVENT_MASK (eth_wait_ticks n l) s1")
      (auto simp: osThreadFlagsWait_def Let_def simp del: osWaitForever_def ETHERNET_EVENT_MASK_def split: if_splits)
  then show ?thesis unfolding eth_wait_def g Let_def prod.case by (simp add: periods_def)
qed

text \<open>C14: the Ethernet task never hangs. Whatever the chip answers and whatever the other tasks do
  while it waits, its start-up and every iteration of its service loop come to their end, and the
  work of an iteration, up to the wait for the next deadline or event, takes at most 24644 kernel
  ticks plus the duration of 818 calls of the hardware layer.\<close>

theorem ethernet_task_never_hangs:
  assumes "clocked hw now G B" and "\<forall>e. within now G B e (snd (DWT_CYCCNT hw e))"
  shows "\<exists>l s l' u. StartEthernetTask_run hw n s0 = Some (l, s) \<and> eth_work hw l s = Some (l', u) \<and>
    ticks_of now G (env u) \<le> ticks_of now G (env s) + 24644 + 818 * B"
proof -
  note work = eth_work_serves [OF assms(1) assms(2) [rule_format], unfolded serves_def returns_iff within_def]
  have "\<exists>l s. StartEthernetTask_run hw n s0 = Some (l, s) \<and> periods_ok l"
  proof (induction n)
    case 0
    show ?case using init_periods [OF assms(1)] by simp
  next
    case (Suc n)
    then obtain l s where run: "StartEthernetTask_run hw n s0 = Some (l, s)" "periods_ok l" by blast
    obtain l1 u where w: "eth_work hw l s = Some (l1, u)" "periods l1 = periods l" using work [OF run(2)] by blast
    obtain l2 t where "eth_wait hw l1 u = Some (l2, t)" "periods l2 = periods l1" using eth_wait_ends by blast
    then show ?case using run w by (simp add: StartEthernetTask_cycle_def periods_ok_cong [of l2 l])
  qed
  then obtain l s where run: "StartEthernetTask_run hw n s0 = Some (l, s)" "periods_ok l" by blast
  obtain l' u where "eth_work hw l s = Some (l', u)" "ticks_of now G (env u) \<le> ticks_of now G (env s) + (24644 + 818 * B)"
    using work [OF run(2)] by blast
  then show ?thesis using run(1) by (intro exI [of _ l] exI [of _ s] exI [of _ l'] exI [of _ u]) simp
qed

theorem ethernet_task_never_hangs_witness:
  "\<exists>l s l' u. StartEthernetTask_run (live_hw 0x14 []) 3 (boot sim_init) = Some (l, s) \<and>
    eth_work (live_hw 0x14 []) l s = Some (l', u) \<and> sim_time (env u) \<le> sim_time (env s) + 24644 + 818"
proof -
  have "\<forall>e. within sim_time 1 1 e (snd (DWT_CYCCNT (live_hw 0x14 []) e))" by (simp add: live_hw_def sim_hw_def)
  from ethernet_task_never_hangs [OF live_clocked this, of 3 "boot sim_init"] show ?thesis by (simp add: ticks_of_def del: StartEthernetTask_run.simps)
qed

end
