(* ===== verification/GwInterleave.thy ===== *)
theory GwInterleave
  imports GwInvariant GwBringup GwSchedule
begin

text \<open>
  The gateway's tasks while other tasks and interrupts run in between. Wherever a task sleeps, waits
  for a flag or waits busily, the rest of the system acts; the models take that from the functions
  \<open>sleep\<close>, \<open>suspend\<close> and \<open>HAL_Delay\<close> of the board. The locale \<open>shared_board\<close> has what the tasks need
  of them to keep the invariant of \<^verbatim>\<open>GwInvariant\<close>; \<open>P\<close> is a property of the hardware's state.
  The watched board, on which the suspensions of a task are scripted and recorded, has it.
\<close>

subsection \<open>What leaves the hardware alone\<close>

lemma env_same [simp]:
  "env (snd (osThreadFlagsSet t f s)) = env s" "env (snd (osThreadFlagsClear t f s)) = env s"
  "env (snd (rs422_rx_ring_pop s)) = env s" "env (forward_telemetry s) = env s" "env (enqueue_response s) = env s"
  "env (handle_events f s) = env s" "env (enqueue_command s) = env s" "env (snd (take_command s)) = env s"
  "env (snd (take_response s)) = env s" "env (snd (take_telemetry s)) = env s" "env (eth_reset s) = env s"
  "env (count_rs422_tx_error s) = env s" "env (count_tx_timeout s) = env s" "env (count_tx_busy s) = env s"
  "env (set_tx_busy v s) = env s" "env (clear_pending m s) = env s" "env (transmission_refused st s) = env s"
  "env (count_uart_rx_error s) = env s" "env (snd (eth_session tick w l s)) = env s"
  by (simp_all add: osThreadFlagsSet_def osThreadFlagsClear_def rs422_rx_ring_pop_def forward_telemetry_def enqueue_response_def
      handle_events_def rs422_handle_tx_done_event_def rs422_handle_tcp_context_reset_event_def enqueue_command_def
      take_command_def take_response_def take_telemetry_def eth_reset_def count_rs422_tx_error_def count_tx_timeout_def
      count_tx_busy_def set_tx_busy_def clear_pending_def transmission_refused_def count_uart_rx_error_def eth_session_def
      Let_def case_prod_beta)

subsection \<open>Programs that keep the invariant\<close>

definition good :: "('e \<Rightarrow> bool) \<Rightarrow> 'e gw \<Rightarrow> bool" where
  "good P s \<longleftrightarrow> gw_ok s \<and> P (env s)"

definition keeps :: "('e \<Rightarrow> bool) \<Rightarrow> ('a \<times> 'e gw) option \<Rightarrow> bool" where
  "keeps P m \<longleftrightarrow> post (\<lambda>_. good P) m"

lemma keeps_Some [simp]: "keeps P (Some (x, s)) = good P s" and keeps_None [simp]: "keeps P None"
  by (simp_all add: keeps_def wp)

lemma keeps_if: "(b \<Longrightarrow> keeps P m) \<Longrightarrow> (\<not> b \<Longrightarrow> keeps P m') \<Longrightarrow> keeps P (if b then m else m')"
  by simp

lemma keeps_bind: "keeps P m \<Longrightarrow> (\<And>x t. good P t \<Longrightarrow> keeps P (k x t)) \<Longrightarrow> keeps P (m \<bind> (\<lambda>(x, t). k x t))"
  unfolding keeps_def post_simps by (erule post_mono)

lemma prod_keeps: "(\<And>x y. p = (x, y) \<Longrightarrow> keeps P (k x y)) \<Longrightarrow> keeps P (case p of (x, y) \<Rightarrow> k x y)"
  by (cases p) simp

lemma keeps_bind_pair:
  "keeps P m \<Longrightarrow> (\<And>x y t. good P t \<Longrightarrow> keeps P (k x y t)) \<Longrightarrow> keeps P (m \<bind> (\<lambda>((x, y), t). k x y t))"
  by (cases m) auto

lemma keeps_value: "keeps P m \<Longrightarrow> m = Some (x, t) \<Longrightarrow> good P t"
  by (simp add: keeps_def wp)

lemma keeps_Some_snd: "good P (snd p) \<Longrightarrow> keeps P (Some p)"
  by (cases p) simp

lemma state_step_keeps: "good P (snd p) \<Longrightarrow> (\<And>m t. good P t \<Longrightarrow> keeps P (k m t)) \<Longrightarrow> keeps P (case p of (m, t) \<Rightarrow> k m t)"
  by (cases p) simp

lemma encode_step_keeps:
  assumes "packet_wf m" "length b = PROTOCOL_MAX_FRAME_SIZE"
    "\<And>r f n. length (the f) = PROTOCOL_MAX_FRAME_SIZE \<Longrightarrow> keeps P (k r f n)"
  shows "keeps P (case protocol_encode (Some m) (Some b) PROTOCOL_MAX_FRAME_SIZE (Some e) of (r, f, n) \<Rightarrow> k r f n)"
  using assms(3) encode_keeps_size [OF assms(1,2), of e]
  by (cases "protocol_encode (Some m) (Some b) PROTOCOL_MAX_FRAME_SIZE (Some e)") auto

lemma deadline_step_keeps:
  "good P t \<Longrightarrow> keeps P (advance_deadline p n d \<bind> (\<lambda>k. Some (f k, t)))"
  by (cases "advance_deadline p n d") simp_all

lemma goodD: "good P s \<Longrightarrow> gw_ok s" "good P s \<Longrightarrow> P (env s)"
  by (simp_all add: good_def)

lemma flags_good [simp]:
  "good P (snd (osThreadFlagsSet t f s)) = good P s" "good P (snd (osThreadFlagsClear t f s)) = good P s"
  "good P (handle_events f s) = good P s" "good P (count_rs422_tx_error s) = good P s" "good P (count_tx_timeout s) = good P s"
  "good P (count_tx_busy s) = good P s" "good P (set_tx_busy v s) = good P s" "good P (clear_pending m s) = good P s"
  "good P (transmission_refused st s) = good P s" "good P (count_uart_rx_error s) = good P s"
  by (simp_all add: good_def)

lemma clear_step_keeps:
  "good P s \<Longrightarrow> (\<And>m t. good P t \<Longrightarrow> keeps P (k m t)) \<Longrightarrow> keeps P (case osThreadFlagsClear t f s of (m, t) \<Rightarrow> k m t)"
  by (rule state_step_keeps) simp_all

subsection \<open>The interface\<close>

locale shared_board =
  fixes hw :: "'e hw" and P :: "'e \<Rightarrow> bool"
  assumes pins: "P e \<Longrightarrow> P (HAL_GPIO_WritePin hw p b e)"
    and spi: "P e \<Longrightarrow> P (snd (snd (HAL_SPI_TransmitReceive hw d n e)))" "P e \<Longrightarrow> P (snd (HAL_SPI_Transmit hw d n e))"
    and uart: "P e \<Longrightarrow> P (snd (HAL_UART_Transmit_IT hw d e))" "P e \<Longrightarrow> P (snd (HAL_UART_Receive_IT hw e))"
    and clocks: "P e \<Longrightarrow> P (snd (osKernelGetTickCount hw e))" "P e \<Longrightarrow> P (snd (DWT_CYCCNT hw e))" "P e \<Longrightarrow> P (snd (DWT_enable hw e))"
    and pauses: "gw_ok s \<Longrightarrow> P (env s) \<Longrightarrow> gw_ok (sleep hw n s) \<and> P (env (sleep hw n s))"
      "gw_ok s \<Longrightarrow> P (env s) \<Longrightarrow> gw_ok (suspend hw n s) \<and> P (env (suspend hw n s))"
      "gw_ok s \<Longrightarrow> P (env s) \<Longrightarrow> gw_ok (HAL_Delay hw n s) \<and> P (env (HAL_Delay hw n s))"
begin

subsection \<open>The hardware state\<close>

lemmas hal = pins spi uart clocks

lemma spi_transfer_env [simp]: "P e \<Longrightarrow> P (snd (snd (spi_transfer hw x y e)))"
  by (simp add: spi_transfer_def case_prod_beta hal)

lemma registers_env [simp]:
  "P e \<Longrightarrow> P (snd (snd (w5500_read_common_register hw a v e)))" "P e \<Longrightarrow> P (snd (snd (w5500_read_version hw v e)))"
  "P e \<Longrightarrow> P (snd (w5500_write_common_registers hw a d k e))" "P e \<Longrightarrow> P (snd (snd (w5500_read_common_registers hw a d k e)))"
  "P e \<Longrightarrow> P (snd (w5500_socket0_write_registers hw a d k e))" "P e \<Longrightarrow> P (snd (w5500_socket1_write_registers hw a d k e))"
  "P e \<Longrightarrow> P (snd (snd (w5500_socket0_read_register hw a v e)))" "P e \<Longrightarrow> P (snd (snd (w5500_socket1_read_register hw a v e)))"
  "P e \<Longrightarrow> P (snd (snd (w5500_socket0_read_registers hw a d k e)))" "P e \<Longrightarrow> P (snd (snd (w5500_socket1_read_registers hw a d k e)))"
  by (simp_all add: w5500_read_common_register_def w5500_read_version_def w5500_write_common_registers_def
      w5500_read_common_registers_def w5500_socket0_write_registers_def w5500_socket1_write_registers_def
      w5500_socket0_read_register_def w5500_socket1_read_register_def w5500_socket0_read_registers_def
      w5500_socket1_read_registers_def Let_def case_prod_beta hal)

lemma u16_env [simp]:
  "P e \<Longrightarrow> P (snd (snd (w5500_socket0_read_u16 hw a v e)))" "P e \<Longrightarrow> P (snd (snd (w5500_socket1_read_u16 hw a v e)))"
  by (simp_all add: w5500_socket0_read_u16_def w5500_socket1_read_u16_def case_prod_beta)

lemma stable_env: "(\<And>e. P e \<Longrightarrow> P (snd (snd (f e)))) \<Longrightarrow> P e \<Longrightarrow> P (snd (snd (stable_read f k p v e)))"
proof (induction k arbitrary: p v e)
  case (Suc k)
  then show ?case by (simp add: case_prod_beta)
qed simp

lemma stable_u16_env [simp]:
  "P e \<Longrightarrow> P (snd (snd (w5500_socket0_read_stable_u16 hw a v e)))" "P e \<Longrightarrow> P (snd (snd (w5500_socket1_read_stable_u16 hw a v e)))"
  by (simp_all add: w5500_socket0_read_stable_u16_def w5500_socket1_read_stable_u16_def stable_env)

lemma chunks_env [simp]: "P e \<Longrightarrow> P (snd (snd (send_chunks hw c d n i x e)))"
proof (induction "n - i" arbitrary: i x e rule: less_induct)
  case less
  show ?case
  proof (cases "i < n \<and> 0 < c")
    case True
    then have "P u \<Longrightarrow> P (snd (snd (send_chunks hw c d n (i + (if n - i > c then c else n - i)) y u)))" for y u
      by (intro less.hyps) auto
    with True less.prems show ?thesis by (subst send_chunks.simps) (simp add: Let_def case_prod_beta del: if_split)
  qed (use less.prems in \<open>subst send_chunks.simps, auto\<close>)
qed

lemma buffers_env [simp]:
  "P e \<Longrightarrow> P (snd (snd (w5500_socket0_write_tx_buffer hw a d k x e)))" "P e \<Longrightarrow> P (snd (snd (w5500_socket1_write_tx_buffer hw a d k x e)))"
  "P e \<Longrightarrow> P (snd (snd (w5500_socket0_read_rx_buffer hw a d k x e)))"
  by (simp_all add: w5500_socket0_write_tx_buffer_def w5500_socket1_write_tx_buffer_def w5500_socket0_read_rx_buffer_def
      Let_def case_prod_beta hal)

lemma configuration_env [simp]:
  "P e \<Longrightarrow> P (snd (w5500_write_network_config hw e))" "P e \<Longrightarrow> P (snd (snd (w5500_read_network_config hw m e)))"
  by (simp_all add: w5500_write_network_config_def w5500_read_network_config_def Let_def case_prod_beta)

lemma receiver_env [simp]:
  "P (env s) \<Longrightarrow> P (env (note_valid_frame hw s))" "P (env s) \<Longrightarrow> P (env (note_matching_pong hw s))"
  by (simp_all add: note_valid_frame_def note_matching_pong_def diagnostic_now_ms_def Let_def hal)

lemma feed_env [simp]: "P (env s) \<Longrightarrow> P (env (snd (rs422_feed hw e k b s)))"
  by (simp add: rs422_feed_def rs422_frame_def forward_pong_def Let_def case_prod_beta)

lemma process_rx_env [simp]: "P (env s) \<Longrightarrow> P (env (snd (rs422_process_rx_buffer hw e k s)))"
proof -
  have "P (env s) \<Longrightarrow> P (env (snd (rx_loop hw e k m s)))" for m
  proof (induction "unat (g_rs422_rx_head (ro s) - g_rs422_rx_tail (ro s))" arbitrary: m s rule: less_induct)
    case less
    obtain r t where pop: "rs422_rx_ring_pop s = (r, t)" by fastforce
    have t: "P (env t)" using less.prems env_same(3) [of s] by (simp add: pop)
    show ?case
    proof (cases r)
      case (Some b)
      have "t = s\<lparr>ro := (ro s)\<lparr>g_rs422_rx_tail := g_rs422_rx_tail (ro s) + 1\<rparr>\<rparr>" "g_rs422_rx_tail (ro s) \<noteq> g_rs422_rx_head (ro s)"
        using pop Some by (auto simp: rs422_rx_ring_pop_def Let_def split: if_splits)
      then have "unat (g_rs422_rx_head (ro (snd (rs422_feed hw e k b t))) - g_rs422_rx_tail (ro (snd (rs422_feed hw e k b t)))) <
          unat (g_rs422_rx_head (ro s) - g_rs422_rx_tail (ro s))" by (simp add: ring_distance)
      from less.hyps [OF this] t show ?thesis by (subst rx_loop.simps) (simp add: pop Some Let_def case_prod_beta)
    qed (use t in \<open>subst rx_loop.simps, simp add: pop\<close>)
  qed
  then show "P (env s) \<Longrightarrow> P (env (snd (rs422_process_rx_buffer hw e k s)))" by (simp add: rs422_process_rx_buffer_def)
qed

lemma transmitter_env [simp]:
  "P (env s) \<Longrightarrow> P (env (note_ping_tx hw m s))" "P (env s) \<Longrightarrow> P (env (snd (start_transmission hw f s)))"
  by (simp_all add: note_ping_tx_def start_transmission_def diagnostic_now_ms_def Let_def hal)

lemma looks_env [simp]:
  "P (env s) \<Longrightarrow> P (env (snd (socket0_command_look hw c s)))" "P (env s) \<Longrightarrow> P (env (snd (socket1_command_look hw c s)))"
  "P (env s) \<Longrightarrow> P (env (snd (socket0_status_look hw c s)))" "P (env s) \<Longrightarrow> P (env (snd (socket1_status_look hw c s)))"
  "P (env s) \<Longrightarrow> P (env (snd (tcp_tx_free_look hw n s)))" "P (env s) \<Longrightarrow> P (env (snd (udp_tx_free_look hw n s)))"
  "P (env s) \<Longrightarrow> P (env (snd (tcp_send_result_look hw s)))" "P (env s) \<Longrightarrow> P (env (snd (udp_send_result_look hw s)))"
  by (simp_all add: socket0_command_look_def socket1_command_look_def socket0_status_look_def socket1_status_look_def
      tcp_tx_free_look_def udp_tx_free_look_def tcp_send_result_look_def udp_send_result_look_def Let_def case_prod_beta)

lemma notes_env [simp]:
  "P (env s) \<Longrightarrow> P (env (note_pong_send hw s))" "P (env s) \<Longrightarrow> P (env (ethernet_diag_record_tcp_pong_tx_success hw s))"
  "P (env s) \<Longrightarrow> P (env (ethernet_diag_record_udp_tx_success hw s))" "P (env s) \<Longrightarrow> P (env (ethernet_diag_record_tcp_service_ready hw s))"
  "P (env s) \<Longrightarrow> P (env (note_first_ping hw s))" "P (env s) \<Longrightarrow> P (env (note_rx_ready hw s))"
  "P (env s) \<Longrightarrow> P (env (snd (w5500_kernel_uptime_ms hw s)))"
  by (simp_all add: note_pong_send_def ethernet_diag_record_tcp_pong_tx_success_def ethernet_diag_record_udp_tx_success_def
      ethernet_diag_record_tcp_service_ready_def note_first_ping_def note_rx_ready_def diagnostic_now_ms_def
      w5500_kernel_uptime_ms_def Let_def hal)

lemma after_send_env [simp]: "P (env s) \<Longrightarrow> P (env (tcp_after_send hw n st s))"
  by (simp add: tcp_after_send_def Let_def)

lemma tcp_feed_env [simp]: "P (env s) \<Longrightarrow> P (env (tcp_feed hw b s))"
  by (simp add: tcp_feed_def w5500_tcp_handle_valid_frame_def Let_def case_prod_beta split: stream_parser_event_t.split)

lemma tcp_feeds_env [simp]: "P (env s) \<Longrightarrow> P (env (fold (tcp_feed hw) bs s))"
  by (induction bs arbitrary: s) simp_all

lemma polls_env [simp]:
  "P (env s) \<Longrightarrow> P (env (snd (eth_phy_poll hw l s)))" "P (env s) \<Longrightarrow> P (env (snd (eth_socket_poll hw l s)))"
  by (simp_all add: eth_phy_poll_def link_lost_def link_restored_def eth_socket_poll_def Let_def case_prod_beta hal)

lemma begin_env [simp]: "P (env s) \<Longrightarrow> P (env (snd (eth_data_begin hw l s)))"
  by (simp add: eth_data_begin_def Let_def hal)

lemma configure_env [simp]: "P (env s) \<Longrightarrow> P (env (eth_configure_network hw s))"
  by (simp add: eth_configure_network_def Let_def case_prod_beta)

subsection \<open>The RS-422 task\<close>

lemma wait_keeps: "good P s \<Longrightarrow> keeps P (osThreadFlagsWait hw t f n s)"
  using pauses(2) [of s n] by (simp add: osThreadFlagsWait_def good_def Let_def)

lemma process_rx_good: "good P s \<Longrightarrow> good P (snd (rs422_process_rx_buffer hw e n s))"
  by (simp add: good_def process_rx_gw_ok)

lemma rx_step_keeps:
  "good P s \<Longrightarrow> (\<And>m t. good P t \<Longrightarrow> keeps P (k m t)) \<Longrightarrow> keeps P (case rs422_process_rx_buffer hw e n s of (m, t) \<Rightarrow> k m t)"
  by (rule state_step_keeps) (rule process_rx_good)

lemma tick_step_keeps: "good P s \<Longrightarrow> (\<And>m t. good P t \<Longrightarrow> keeps P (k m t)) \<Longrightarrow> keeps P (case get_tick hw s of (m, t) \<Rightarrow> k m t)"
  by (rule state_step_keeps) (simp_all add: good_def hal)

lemma start_step_keeps:
  "good P s \<Longrightarrow> (\<And>m t. good P t \<Longrightarrow> keeps P (k m t)) \<Longrightarrow> keeps P (case start_transmission hw x s of (m, t) \<Rightarrow> k m t)"
  by (rule state_step_keeps) (simp_all add: good_def)

lemma tx_wait_loop_keeps:
  assumes "good P s"
  shows "keeps P (tx_wait_loop hw e tt w m s)"
proof (cases "tx_wait_loop hw e tt w m s")
  case (Some y)
  have "hw = hw \<longrightarrow> good P s \<longrightarrow> good P (snd y)"
  proof (rule tx_wait_loop.raw_induct [OF _ Some, where P = "\<lambda>h e tt w m s y. h = hw \<longrightarrow> good P s \<longrightarrow> good P (snd y)"], goal_cases)
    case (1 f h e tt w m s y)
    have rec: "keeps P (f hw e tt w m s)" if "good P s" for m s
    proof (cases "f hw e tt w m s")
      case (Some z)
      then show ?thesis using 1(1) [OF Some] that by (cases z) simp
    qed simp
    show ?case
    proof (intro impI)
      assume ok: "h = hw" "good P s"
      obtain x t where y: "y = (x, t)" by fastforce
      show "good P (snd y)" unfolding y snd_conv
        by (rule keeps_value [OF _ 1(2) [unfolded y ok(1)]], unfold Let_def,
            intro keeps_if rx_step_keeps tick_step_keeps keeps_bind wait_keeps rec) (use ok(2) in simp_all)
    qed
  qed
  then show ?thesis using Some assms by (cases y) simp
qed simp

lemma pong_wait_loop_keeps:
  assumes "good P s"
  shows "keeps P (pong_wait_loop hw e tt w s)"
proof (cases "pong_wait_loop hw e tt w s")
  case (Some y)
  have "hw = hw \<longrightarrow> good P s \<longrightarrow> good P (snd y)"
  proof (rule pong_wait_loop.raw_induct [OF _ Some, where P = "\<lambda>h e tt w s y. h = hw \<longrightarrow> good P s \<longrightarrow> good P (snd y)"], goal_cases)
    case (1 f h e tt w s y)
    have rec: "keeps P (f hw e tt w s)" if "good P s" for s
    proof (cases "f hw e tt w s")
      case (Some z)
      then show ?thesis using 1(1) [OF Some] that by (cases z) simp
    qed simp
    show ?case
    proof (intro impI)
      assume ok: "h = hw" "good P s"
      obtain x t where y: "y = (x, t)" by fastforce
      show "good P (snd y)" unfolding y snd_conv
        by (rule keeps_value [OF _ 1(2) [unfolded y ok(1)]], unfold Let_def,
            intro tick_step_keeps keeps_if rx_step_keeps keeps_bind wait_keeps rec) (use ok(2) in simp_all)
    qed
  qed
  then show ?thesis using Some assms by (cases y) simp
qed simp

lemma tx_complete_keeps: "good P s \<Longrightarrow> keeps P (rs422_wait_for_tx_complete hw e s)"
  unfolding rs422_wait_for_tx_complete_def Let_def by (intro tick_step_keeps tx_wait_loop_keeps)

lemma bringup_test_keeps:
  assumes "good P s"
  shows "keeps P (rs422_ping_bringup_test hw q s)"
proof -
  have wf: "packet_wf (g_rs422_ping_packet (ro s))" "length (g_rs422_tx_frame (ro s)) = PROTOCOL_MAX_FRAME_SIZE"
    using assms by (simp_all add: good_def gw_ok_def rs422_objects_ok_def)
  show ?thesis unfolding rs422_ping_bringup_test_def Let_def
    by (intro keeps_if encode_step_keeps clear_step_keeps start_step_keeps tick_step_keeps keeps_bind_pair
        tx_complete_keeps pong_wait_loop_keeps)
      (use assms wf in \<open>simp_all add: good_def packet_wf_def\<close>)
qed

lemma bringup_loop_keeps: "good P s \<Longrightarrow> keeps P (bringup_loop hw i r s)"
proof (induction "unat RS422_BRINGUP_TEST_COUNT - i" arbitrary: i r s rule: less_induct)
  case less
  have delay: "good P t \<Longrightarrow> good P (HAL_Delay hw n t)" for n t using pauses(3) by (simp add: good_def)
  have counts: "good P t \<Longrightarrow> good P (t\<lparr>rs := v\<rparr>)" for t v by (simp add: good_def)
  have rec: "i < unat RS422_BRINGUP_TEST_COUNT \<Longrightarrow> good P t \<Longrightarrow> keeps P (bringup_loop hw (i + 1) r' t)" for r' t
    by (rule less.hyps) simp_all
  show ?case
    by (subst bringup_loop.simps, unfold Let_def, intro keeps_if keeps_bind bringup_test_keeps less.prems prod_keeps rec)
      (auto simp: delay counts less.prems split: if_splits)
qed

lemma forward_packet_keeps:
  assumes "good P s" "packet_wf m"
  shows "keeps P (rs422_forward_packet hw (Some m) s)"
proof -
  have wf: "length (g_rs422_tx_frame (ro s)) = PROTOCOL_MAX_FRAME_SIZE"
    using assms(1) by (simp add: good_def gw_ok_def rs422_objects_ok_def)
  show ?thesis unfolding rs422_forward_packet_def Let_def option.case
    by (intro keeps_if encode_step_keeps clear_step_keeps start_step_keeps tick_step_keeps keeps_bind_pair
        tx_complete_keeps assms(2)) (use assms(1) wf in \<open>simp_all add: good_def\<close>)
qed

lemma command_loop_keeps:
  assumes "good P s"
  shows "keeps P (command_loop hw s)"
proof (cases "command_loop hw s")
  case (Some y)
  have "hw = hw \<longrightarrow> good P s \<longrightarrow> good P (snd y)"
  proof (rule command_loop.raw_induct [OF _ Some, where P = "\<lambda>h s y. h = hw \<longrightarrow> good P s \<longrightarrow> good P (snd y)"], goal_cases)
    case (1 f h s y)
    have rec: "keeps P (f hw s)" if "good P s" for s
    proof (cases "f hw s")
      case (Some z)
      then show ?thesis using 1(1) [OF Some] that by (cases z) simp
    qed simp
    show ?case
    proof (intro impI)
      assume ok: "h = hw" "good P s"
      obtain u where y: "y = ((), u)" by (cases y) simp
      obtain b t where c: "take_command s = (b, t)" by fastforce
      note t = take_command_gw_ok [OF goodD(1) [OF ok(2)] c]
      have env: "env t = env s" using env_same(8) [of s] by (simp add: c)
      have t': "good P t" using t env ok(2) by (simp add: good_def)
      have counted: "good P (t\<lparr>rs := v\<rparr>)" for v using t' by (simp add: good_def)
      show "good P (snd y)" unfolding y snd_conv
        by (rule keeps_value [OF _ 1(2) [unfolded y ok(1) c Let_def prod.case]],
            intro keeps_if keeps_bind forward_packet_keeps rec process_rx_good) (use t t' counted in \<open>simp_all add: packet_ok_wf\<close>)
    qed
  qed
  then show ?thesis using Some assms by (cases y) simp
qed simp

lemma rs422_task_keeps:
  assumes "good P s"
  shows "keeps P (StartRS422Task_init hw s)" "keeps P (StartRS422Task_cycle hw s)"
proof -
  have "keeps P (rs422_ping_bringup_run hw t)" if "good P t" for t
    unfolding rs422_ping_bringup_run_def Let_def by (intro keeps_bind bringup_loop_keeps) (use that in \<open>simp_all add: good_def\<close>)
  then show "keeps P (StartRS422Task_init hw s)" using assms
    unfolding StartRS422Task_init_def Let_def prod.case lift_env_simps
    by (intro keeps_bind keeps_if) (simp_all add: good_def hal gw_ok_def rs422_objects_ok_def count_uart_rx_error_def)
  show "keeps P (StartRS422Task_cycle hw s)" unfolding StartRS422Task_cycle_def
    by (intro keeps_bind command_loop_keeps wait_keeps assms process_rx_good) simp_all
qed

subsection \<open>The Ethernet task\<close>

lemma poll_loop_keeps:
  assumes look: "\<And>u. good P u \<Longrightarrow> good P (snd (look u))" and "good P s"
  shows "keeps P (poll_loop hw look tt pt st s)"
proof (cases "poll_loop hw look tt pt st s")
  case (Some y)
  have "h = hw \<longrightarrow> l = look \<longrightarrow> good P s \<longrightarrow> good P (snd y)" if "poll_loop h l tt pt st s = Some y" for h l
  proof (rule poll_loop.raw_induct [OF _ that, where P = "\<lambda>h l tt pt st s y. h = hw \<longrightarrow> l = look \<longrightarrow> good P s \<longrightarrow> good P (snd y)"], goal_cases)
    case (1 f h l tt pt st s y)
    show ?case
    proof (intro impI)
      assume ok: "h = hw" "l = look" "good P s"
      have seen: "good P (snd (look s))" by (rule look [OF ok(3)])
      define now where "now = snd (osKernelGetTickCount hw (env (snd (look s))))"
      have "good P ((snd (look s))\<lparr>env := now\<rparr>)" using seen by (simp add: now_def good_def hal)
      then have "good P (osDelay hw pt ((snd (look s))\<lparr>env := now\<rparr>))" using pauses(1) by (simp add: osDelay_def good_def)
      moreover have rec: "keeps P (f hw look tt pt st u)" if "good P u" for u
      proof (cases "f hw look tt pt st u")
        case (Some z)
        then show ?thesis using 1(1) [OF Some] that by (cases z) simp
      qed simp
      moreover obtain x t where y: "y = (x, t)" by fastforce
      ultimately show "good P (snd y)" unfolding y snd_conv
        by (intro keeps_value [OF _ 1(2) [unfolded y ok(1,2)]])
          (use seen \<open>good P ((snd (look s))\<lparr>env := now\<rparr>)\<close> in \<open>simp add: now_def split: option.split\<close>)
    qed
  qed
  then show ?thesis using Some assms(2) by (cases y) simp
qed simp

lemma poll_keeps:
  assumes "\<And>u. good P u \<Longrightarrow> good P (snd (look u))" "good P s"
  shows "keeps P (poll_until hw look tm pm s)"
  unfolding poll_until_def Let_def by (intro tick_step_keeps poll_loop_keeps assms)

lemma looks_good:
  "good P s \<Longrightarrow> good P (snd (socket0_command_look hw c s))" "good P s \<Longrightarrow> good P (snd (socket1_command_look hw c s))"
  "good P s \<Longrightarrow> good P (snd (socket0_status_look hw c s))" "good P s \<Longrightarrow> good P (snd (socket1_status_look hw c s))"
  "good P s \<Longrightarrow> good P (snd (tcp_tx_free_look hw n s))" "good P s \<Longrightarrow> good P (snd (udp_tx_free_look hw n s))"
  "good P s \<Longrightarrow> good P (snd (tcp_send_result_look hw s))" "good P s \<Longrightarrow> good P (snd (udp_send_result_look hw s))"
  by (simp_all add: good_def)

lemma bus_step_keeps:
  "P (snd p) \<Longrightarrow> (\<And>st e. p = (st, e) \<Longrightarrow> P e \<Longrightarrow> keeps P (k st e)) \<Longrightarrow> keeps P (case p of (st, e) \<Rightarrow> k st e)"
  "P (snd (snd q)) \<Longrightarrow> (\<And>st v e. q = (st, v, e) \<Longrightarrow> P e \<Longrightarrow> keeps P (h st v e)) \<Longrightarrow> keeps P (case q of (st, v, e) \<Rightarrow> h st v e)"
  by (cases p; simp) (cases q; simp)

lemma socket_keeps:
  assumes "good P s"
  shows "keeps P (w5500_socket0_execute_command hw c s)" "keeps P (w5500_socket1_execute_command hw c s)"
    "keeps P (w5500_wait_for_socket0_status hw c n s)" "keeps P (w5500_wait_for_socket1_status hw c n s)"
    "keeps P (w5500_tcp_wait_for_tx_free hw k s)" "keeps P (w5500_udp_wait_for_tx_free hw k s)"
    "keeps P (w5500_tcp_wait_for_send_result hw s)" "keeps P (w5500_udp_wait_for_send_result hw s)"
  unfolding w5500_socket0_execute_command_def w5500_socket1_execute_command_def w5500_wait_for_socket0_status_def
    w5500_wait_for_socket1_status_def w5500_tcp_wait_for_tx_free_def w5500_udp_wait_for_tx_free_def
    w5500_tcp_wait_for_send_result_def w5500_udp_wait_for_send_result_def Let_def
  by (intro bus_step_keeps keeps_if poll_keeps looks_good assms; use assms in \<open>simp add: good_def\<close>)+

subsubsection \<open>Sending\<close>

lemma send_frame_keeps:
  assumes "good P s"
  shows "keeps P (w5500_tcp_send_frame hw n s)" "keeps P (w5500_udp_send_frame hw n s)"
  unfolding w5500_tcp_send_frame_def w5500_udp_send_frame_def Let_def
  by (intro keeps_if keeps_bind bus_step_keeps socket_keeps assms;
      use assms in \<open>simp add: good_def\<close>; auto simp: good_def dest!: tx_buffer_size buffer_sizes)+

lemma send_response_keeps:
  assumes "good P s"
  shows "keeps P (w5500_tcp_send_response_packet hw s)"
  unfolding w5500_tcp_send_response_packet_def Let_def
  by (intro encode_step_keeps keeps_if keeps_bind send_frame_keeps)
    (use assms buffer_sizes [OF goodD(1) [OF assms]] packets_wf [OF goodD(1) [OF assms]] in \<open>simp_all add: good_def\<close>)

lemma udp_forward_keeps:
  assumes "good P s"
  shows "keeps P (w5500_udp_forward_packet hw s)"
  unfolding w5500_udp_forward_packet_def Let_def
  by (intro encode_step_keeps keeps_if keeps_bind send_frame_keeps)
    (use assms buffer_sizes [OF goodD(1) [OF assms]] packets_wf [OF goodD(1) [OF assms]] in \<open>simp_all add: good_def\<close>)

lemma udp_telemetry_keeps:
  assumes "good P s"
  shows "keeps P (w5500_udp_send_telemetry hw s)"
proof -
  have up: "good P (snd (w5500_kernel_uptime_ms hw s))" using assms by (simp add: good_def w5500_kernel_uptime_ms_def Let_def hal)
  have upd: "good P t \<Longrightarrow> packet_wf m \<Longrightarrow> length f = PROTOCOL_MAX_FRAME_SIZE \<Longrightarrow>
      good P (t\<lparr>uo := (uo t)\<lparr>g_udp_telemetry_packet := m, g_w5500_udp_tx_frame := f\<rparr>\<rparr>)" for t :: "'e gw" and m f
    by (simp add: good_def gw_ok_def udp_objects_ok_def)
  have udp: "good P (t\<lparr>udp := v\<rparr>) = good P t" for t and v by (simp add: good_def)
  have udp2: "good P (t\<lparr>uo := u, udp := v\<rparr>) = good P (t\<lparr>uo := u\<rparr>)" for t :: "'e gw" and u v by (simp add: good_def gw_ok_def)
  obtain n t where t: "w5500_kernel_uptime_ms hw s = (n, t)" "good P t" using up by (metis prod.collapse)
  have "packet_wf (g_udp_telemetry_packet (uo t))" using packets_wf [OF goodD(1) [OF t(2)]] by simp
  then show ?thesis using t(2) buffer_sizes [OF goodD(1) [OF t(2)]] unfolding w5500_udp_send_telemetry_def t(1) Let_def prod.case
    by (intro encode_step_keeps keeps_if keeps_bind send_frame_keeps) (auto simp: packet_wf_def udp udp2 intro!: upd)
qed

subsubsection \<open>Receiving and the connection\<close>

lemma tcp_rx_keeps:
  assumes "good P s"
  shows "keeps P (w5500_tcp_process_rx hw s)"
proof -
  have feed: "gw_ok t \<Longrightarrow> gw_ok (fold (tcp_feed hw) bs t)" for bs t
    by (induction bs arbitrary: t) (simp_all add: tcp_feed_gw_ok)
  have "keeps P (tcp_take_chunk hw n t)" if "good P t" for n t
    unfolding tcp_take_chunk_def Let_def
    by (intro bus_step_keeps keeps_if keeps_bind socket_keeps)
      (use that buffer_sizes [OF goodD(1) [OF that]] in \<open>auto simp: good_def intro!: feed dest!: rx_buffer_size\<close>)
  then show ?thesis using assms unfolding w5500_tcp_process_rx_def Let_def
    by (intro bus_step_keeps keeps_if) (simp_all add: good_def)
qed

lemma take_response_good: "good P s \<Longrightarrow> good P (snd (take_response s))"
  by (simp add: good_def take_response_gw_ok)

lemma context_good [simp]:
  "good P s \<Longrightarrow> good P (w5500_tcp_discard_stale_responses s)" "good P s \<Longrightarrow> good P (w5500_tcp_invalidate_connection_context s)"
  "good P s \<Longrightarrow> good P (tcp_not_ready s)" "good P s \<Longrightarrow> good P (set_socket0_spi_status st s)"
  by (simp_all add: good_def discard_gw_ok invalidate_gw_ok)

lemma drain_keeps:
  assumes "good P s"
  shows "keeps P (w5500_tcp_drain_response_queue hw s)"
proof -
  have "good P s \<Longrightarrow> keeps P (drain_loop hw n s)" for n s
  proof (induction n arbitrary: s)
    case (Suc n)
    obtain b t where t: "take_response s = (b, t)" by fastforce
    have "good P t" using take_response_good [OF Suc.prems] t by simp
    then show ?case unfolding drain_loop.simps t Let_def prod.case
      by (intro keeps_if keeps_bind send_response_keeps Suc.IH) (simp_all add: good_def)
  qed simp
  then show ?thesis using assms by (simp add: w5500_tcp_drain_response_queue_def del: TCP_RESPONSE_QUEUE_DEPTH_def)
qed

lemma server_keeps:
  "good P s \<Longrightarrow> keeps P (w5500_listen_tcp_server hw s)" "good P s \<Longrightarrow> keeps P (w5500_start_tcp_server hw s)"
  "good P s \<Longrightarrow> keeps P (w5500_restart_tcp_server hw s)" "good P s \<Longrightarrow> keeps P (w5500_start_udp_socket hw s)"
proof -
  have counts: "good P t \<Longrightarrow> good P (t\<lparr>tcp := v\<rparr>)" for t v by (simp add: good_def)
  have ready: "good P t \<Longrightarrow> good P (ethernet_diag_record_tcp_service_ready hw t)" for t by (simp add: good_def)
  show listen: "good P s \<Longrightarrow> keeps P (w5500_listen_tcp_server hw s)" for s
    unfolding w5500_listen_tcp_server_def Let_def by (intro keeps_bind keeps_if socket_keeps) (simp_all add: counts ready)
  show start: "good P s \<Longrightarrow> keeps P (w5500_start_tcp_server hw s)" for s
    unfolding w5500_start_tcp_server_def Let_def
    by (intro bus_step_keeps state_step_keeps keeps_bind keeps_if socket_keeps listen)
      (auto simp: good_def set_socket0_spi_status_def case_prod_beta)
  show "good P s \<Longrightarrow> keeps P (w5500_restart_tcp_server hw s)"
    unfolding w5500_restart_tcp_server_def Let_def
    by (intro keeps_bind keeps_if socket_keeps start) (simp_all add: counts)
  show "good P s \<Longrightarrow> keeps P (w5500_start_udp_socket hw s)"
    unfolding w5500_start_udp_socket_def Let_def
    by (intro bus_step_keeps keeps_bind keeps_if socket_keeps) (auto simp: good_def)
qed

subsubsection \<open>The task\<close>

lemma lifecycle_keeps:
  assumes "good P s"
  shows "keeps P (eth_lifecycle hw l s)"
  unfolding eth_lifecycle_def eth_recover_def eth_restart_def eth_socket_switch_def eth_close_wait_def Let_def
  by (intro keeps_if tick_step_keeps keeps_bind keeps_Some_snd socket_keeps server_keeps)
    (use assms in \<open>simp_all add: entered_listen_def retry_later_def listening_again_def eth_give_up_def Let_def good_def hal discard_gw_ok\<close>)

lemma polls_good:
  "good P s \<Longrightarrow> good P (snd (eth_phy_poll hw l s))" "good P s \<Longrightarrow> good P (snd (eth_socket_poll hw l s))"
  "good P s \<Longrightarrow> good P (snd (eth_data_begin hw l s))"
  by (simp_all add: good_def phy_poll_gw_ok socket_poll_gw_ok) (simp add: eth_data_begin_def Let_def)

lemma poll_step_keeps:
  "good P s \<Longrightarrow> (\<And>l t. good P t \<Longrightarrow> keeps P (k l t)) \<Longrightarrow> keeps P (case eth_phy_poll hw l s of (l, t) \<Rightarrow> k l t)"
  "good P s \<Longrightarrow> (\<And>l t. good P t \<Longrightarrow> keeps P (k l t)) \<Longrightarrow>
    keeps P (case (if b then eth_socket_poll hw l s else (l, s)) of (l, t) \<Rightarrow> k l t)"
  "good P s \<Longrightarrow> (\<And>c t. good P t \<Longrightarrow> keeps P (j c t)) \<Longrightarrow>
    keeps P (case (if b then eth_data_begin hw l s else (0, s)) of (c, t) \<Rightarrow> j c t)"
  by (rule state_step_keeps; simp add: polls_good)+

lemma control_keeps: "good P s \<Longrightarrow> keeps P (eth_control_service hw l s)"
  unfolding eth_control_service_def Let_def
  by (intro poll_step_keeps keeps_bind lifecycle_keeps tick_step_keeps deadline_step_keeps)

lemma udp_service_keeps:
  assumes "good P s"
  shows "keeps P (eth_udp_service hw s)"
proof -
  have "good P s \<Longrightarrow> keeps P (udp_drain_loop hw n s)" for n s
  proof (induction n arbitrary: s)
    case (Suc n)
    obtain b t where t: "take_telemetry s = (b, t)" by fastforce
    have "good P (snd (take_telemetry s))" using Suc.prems by (simp add: good_def take_telemetry_gw_ok)
    then have "good P t" using t by simp
    then show ?case unfolding udp_drain_loop.simps t Let_def prod.case
      by (intro keeps_if keeps_bind udp_forward_keeps Suc.IH) (simp_all add: good_def)
  qed simp
  then show ?thesis unfolding eth_udp_service_def Let_def
    by (intro bus_step_keeps keeps_if keeps_bind udp_telemetry_keeps) (use assms in \<open>simp_all add: good_def\<close>)
qed

lemma tcp_service_keeps: "good P s \<Longrightarrow> keeps P (eth_tcp_service hw due s)"
  unfolding eth_tcp_service_def Let_def
  by (intro keeps_bind keeps_if tcp_rx_keeps drain_keeps) (simp_all add: good_def)

lemma data_end_keeps: "good P s \<Longrightarrow> keeps P (eth_data_end hw c l s)"
  unfolding eth_data_end_def Let_def by (intro tick_step_keeps deadline_step_keeps) (simp add: good_def hal)

lemma ethernet_work_keeps:
  assumes "good P s"
  shows "keeps P (eth_work hw l s)"
  unfolding eth_work_def Let_def
  by (intro tick_step_keeps keeps_bind keeps_if poll_step_keeps(2,3) control_keeps tcp_service_keeps
      udp_service_keeps data_end_keeps assms) simp_all

lemma ethernet_cycle_keeps:
  assumes "good P s"
  shows "keeps P (StartEthernetTask_cycle hw l s)"
  unfolding StartEthernetTask_cycle_def eth_wait_def Let_def
  by (intro keeps_bind ethernet_work_keeps tick_step_keeps wait_keeps assms) simp_all

lemma ethernet_init_keeps:
  assumes "good P s"
  shows "keeps P (StartEthernetTask_init hw s)"
proof -
  have sleep: "good P t \<Longrightarrow> good P (osDelay hw n t)" for n t using pauses(1) by (simp add: osDelay_def good_def)
  have pin: "good P t \<Longrightarrow> good P (t\<lparr>env := HAL_GPIO_WritePin hw p b (env t)\<rparr>)" for p b t by (simp add: good_def hal)
  have reset: "good P t \<Longrightarrow> good P (w5500_hardware_reset hw t)" for t
    unfolding w5500_hardware_reset_def Let_def by (intro sleep pin)
  have conf: "good P t \<Longrightarrow> good P (eth_configure_network hw t)" for t by (simp add: good_def)
  have counter: "good P t \<Longrightarrow> P e \<Longrightarrow> good P (t\<lparr>env := e\<rparr>)" "good P t \<Longrightarrow> P e \<Longrightarrow> good P (t\<lparr>env := e, sv := v\<rparr>)"
    "good P t \<Longrightarrow> good P (t\<lparr>sv := v\<rparr>)" "good P t \<Longrightarrow> good P (t\<lparr>udp := u\<rparr>)" "good P t \<Longrightarrow> good P (t\<lparr>tcp := w\<rparr>)" for t e v u w
    by (simp_all add: good_def)
  have "good P (eth_reset s)" using assms by (simp add: good_def) (simp add: eth_reset_def gw_ok_def tcp_objects_ok_def)
  then show ?thesis unfolding StartEthernetTask_init_def Let_def lift_env_simps prod.case
    by (intro keeps_bind keeps_if server_keeps tick_step_keeps)
      (use goodD(2) [OF assms] in \<open>simp_all add: reset conf counter hal\<close>)
qed

subsection \<open>The health task\<close>

lemma health_keeps:
  assumes "good P s"
  shows "good P (snd (StartHealthTask_init hw s))" "good P (snd (StartHealthTask_cycle hw (l, s)))"
  using assms by (simp_all add: StartHealthTask_init_def StartHealthTask_cycle_def osDelayUntil_def good_def hal pauses Let_def)

end

subsection \<open>Tasks that give up the processor\<close>

text \<open>
  What happens while a task sleeps or waits: the hardware changes, the UART interrupts with a
  received byte, at the end of a transmission or with an error, or other tasks run and leave the
  gateway in the state \<open>w\<close>.
\<close>

datatype 'e meanwhile = Hardware 'e | ByteReceived u8 | FrameSent | UartError | OtherTasks "'e gw"

fun happens :: "'e hw \<Rightarrow> 'e meanwhile \<Rightarrow> 'e gw \<Rightarrow> 'e gw" where
  "happens hw (Hardware e) s = s\<lparr>env := e\<rparr>"
| "happens hw (ByteReceived b) s = GwRs422.HAL_UART_RxCpltCallback hw True (s\<lparr>ro := (ro s)\<lparr>g_uart4_rx_byte := b\<rparr>\<rparr>)"
| "happens hw FrameSent s = HAL_UART_TxCpltCallback True s"
| "happens hw UartError s = GwRs422.HAL_UART_ErrorCallback hw True s"
| "happens hw (OtherTasks w) s = w"

text \<open>
  The board a task runs on, watched: \<open>w_script\<close> says what happens at each of its
  suspensions (nothing once it is used up), and \<open>w_suspended\<close> collects the states of the
  gateway in which the task gave up the processor.
\<close>

record 'e watch =
  w_board :: 'e
  w_script :: "'e meanwhile list list"
  w_suspended :: "'e gw list"

definition on_board :: "'f \<Rightarrow> 'e gw \<Rightarrow> 'f gw" where
  "on_board e s = \<lparr>rs = rs s, cm = cm s, net = net s, tcp = tcp s, ed = ed s, sv = sv s, dg = dg s, udp = udp s,
     qs = qs s, ro = ro s, tob = tob s, uo = uo s, kn = kn s, env = e\<rparr>"

definition unwatch :: "'e watch gw \<Rightarrow> 'e gw" where
  "unwatch s = on_board (w_board (env s)) s"

definition pause :: "'e hw \<Rightarrow> u32 \<Rightarrow> 'e watch gw \<Rightarrow> 'e watch gw" where
  "pause hw n s =
     (let v = unwatch s;
          now = (case w_script (env s) of [] \<Rightarrow> [] | m # _ \<Rightarrow> m);
          w = fold (happens hw) now v
      in on_board \<lparr>w_board = env w, w_script = tl (w_script (env s)), w_suspended = w_suspended (env s) @ [v]\<rparr> w)"

definition on_watch :: "('e \<Rightarrow> 'a \<times> 'e) \<Rightarrow> 'e watch \<Rightarrow> 'a \<times> 'e watch" where
  "on_watch f e = (let (x, b) = f (w_board e) in (x, e\<lparr>w_board := b\<rparr>))"

definition watched :: "'e hw \<Rightarrow> 'e watch hw" where
  "watched hw = \<lparr>HAL_GPIO_WritePin = (\<lambda>p v e. e\<lparr>w_board := HAL_GPIO_WritePin hw p v (w_board e)\<rparr>),
     HAL_SPI_TransmitReceive = (\<lambda>d n e. let (st, r, b) = HAL_SPI_TransmitReceive hw d n (w_board e) in (st, r, e\<lparr>w_board := b\<rparr>)),
     HAL_SPI_Transmit = (\<lambda>d n. on_watch (HAL_SPI_Transmit hw d n)),
     HAL_UART_Transmit_IT = (\<lambda>d. on_watch (HAL_UART_Transmit_IT hw d)),
     HAL_UART_Receive_IT = on_watch (HAL_UART_Receive_IT hw),
     huart4_RxState_ready = (\<lambda>e. huart4_RxState_ready hw (w_board e)),
     osKernelGetTickCount = on_watch (osKernelGetTickCount hw),
     osKernelGetTickFreq = osKernelGetTickFreq hw, SystemCoreClock = SystemCoreClock hw,
     DWT_CYCCNT = on_watch (DWT_CYCCNT hw), DWT_enable = on_watch (DWT_enable hw),
     xPortGetFreeHeapSize = (\<lambda>e. xPortGetFreeHeapSize hw (w_board e)),
     xPortGetMinimumEverFreeHeapSize = (\<lambda>e. xPortGetMinimumEverFreeHeapSize hw (w_board e)),
     HAL_Delay = pause hw, sleep = pause hw, suspend = pause hw\<rparr>"

definition watch_ok :: "'e watch \<Rightarrow> bool" where
  "watch_ok e \<longleftrightarrow> (\<forall>ms \<in> set (w_script e). \<forall>w. OtherTasks w \<in> set ms \<longrightarrow> gw_ok w) \<and> (\<forall>v \<in> set (w_suspended e). gw_ok v)"

lemma on_board_simps [simp]:
  "gw_ok (on_board e s) = gw_ok s" "env (on_board e s) = e" "gw_ok (unwatch t) = gw_ok t"
  by (simp_all add: on_board_def unwatch_def gw_ok_def)

lemma watch_ok_board [simp]: "watch_ok (e\<lparr>w_board := b\<rparr>) = watch_ok e"
  by (simp add: watch_ok_def)

lemma on_watch_ok [simp]: "watch_ok (snd (on_watch f e)) = watch_ok e"
  by (simp add: on_watch_def case_prod_beta)

lemma happens_gw_ok:
  assumes "gw_ok s" "\<And>w. m = OtherTasks w \<Longrightarrow> gw_ok w"
  shows "gw_ok (happens hw m s)"
proof (cases m)
  case (ByteReceived b)
  have "gw_ok (s\<lparr>ro := (ro s)\<lparr>g_uart4_rx_byte := b\<rparr>\<rparr>)" using assms(1) by (simp add: gw_ok_def rs422_objects_ok_def)
  then show ?thesis using ByteReceived by (simp add: uart_callbacks_gw_ok)
qed (use assms uart_callbacks_gw_ok [OF assms(1)] in simp_all)

lemma happen_gw_ok: "gw_ok s \<Longrightarrow> \<forall>w. OtherTasks w \<in> set ms \<longrightarrow> gw_ok w \<Longrightarrow> gw_ok (fold (happens hw) ms s)"
  by (induction ms arbitrary: s) (simp_all add: happens_gw_ok)

lemma pause_ok: "gw_ok s \<Longrightarrow> watch_ok (env s) \<Longrightarrow> gw_ok (pause hw n s) \<and> watch_ok (env (pause hw n s))"
  by (cases "w_script (env s)") (auto simp: pause_def watch_ok_def Let_def intro!: happen_gw_ok)

interpretation watched: shared_board "watched hw" watch_ok for hw
  by unfold_locales (simp_all add: watched_def pause_ok case_prod_beta)

datatype task_part =
  RS422_start | RS422_iteration | Ethernet_start | Ethernet_iteration eth_locals | Health_start | Health_iteration health_locals

fun run_part :: "'e hw \<Rightarrow> task_part \<Rightarrow> 'e gw \<Rightarrow> 'e gw option" where
  "run_part hw RS422_start s = map_option snd (StartRS422Task_init hw s)"
| "run_part hw RS422_iteration s = map_option snd (StartRS422Task_cycle hw s)"
| "run_part hw Ethernet_start s = map_option snd (StartEthernetTask_init hw s)"
| "run_part hw (Ethernet_iteration l) s = map_option snd (StartEthernetTask_cycle hw l s)"
| "run_part hw Health_start s = Some (snd (StartHealthTask_init hw s))"
| "run_part hw (Health_iteration l) s = Some (snd (StartHealthTask_cycle hw (l, s)))"

lemma keeps_result: "map_option snd m = Some t \<Longrightarrow> keeps P m \<Longrightarrow> good P t"
  by (cases m) auto

lemma part_good:
  assumes "run_part (watched hw) part s = Some t" "good watch_ok s"
  shows "good watch_ok t"
  using assms(1)
  by (cases part)
    (auto simp del: map_option_eq_Some elim!: keeps_result intro!: watched.rs422_task_keeps watched.ethernet_init_keeps
      watched.ethernet_cycle_keeps watched.health_keeps assms(2))

end
