(* ===== verification/GwMain.thy ===== *)
theory GwMain
  imports GwInterleave
begin

text \<open>
  The start of the gateway: \<^verbatim>\<open>main\<close> creates the three message queues and the tasks. The memory
  the kernel's allocator returns for a queue and the outcome of creating a task are parameters;
  clock, pin and peripheral initialisation are not modelled. Then the gateway as a whole: the
  states its tasks and interrupts lead to, and the invariant they all satisfy.
\<close>

subsection \<open>Start-up\<close>

definition main_create_queues ::
  "protocol_packet_t list option \<Rightarrow> protocol_packet_t list option \<Rightarrow> protocol_packet_t list option \<Rightarrow> 'e gw \<Rightarrow> 'e gw" where
  "main_create_queues mem_cmd mem_tcp mem_udp s =
     (let s = s\<lparr>cm := (cm s)\<lparr>g_gateway_queue_init_ok := 0\<rparr>\<rparr>;
          s = s\<lparr>qs := (qs s)\<lparr>rs422_cmd_queue := osMessageQueueNew RS422_CMD_QUEUE_DEPTH mem_cmd,
                tcp_response_queue := osMessageQueueNew TCP_RESPONSE_QUEUE_DEPTH mem_tcp,
                udp_telemetry_queue := osMessageQueueNew UDP_TELEMETRY_QUEUE_DEPTH mem_udp\<rparr>\<rparr>
      in if rs422_cmd_queue (qs s) \<noteq> None \<and> tcp_response_queue (qs s) \<noteq> None \<and> udp_telemetry_queue (qs s) \<noteq> None
         then s\<lparr>cm := (cm s)\<lparr>g_gateway_queue_init_ok := 1\<rparr>\<rparr> else s)"

definition main_create_tasks :: "bool \<Rightarrow> bool \<Rightarrow> 'e gw \<Rightarrow> 'e gw" where
  "main_create_tasks rs422_created ethernet_created s =
     s\<lparr>kn := (kn s)\<lparr>RS422TaskHandle := rs422_created, EthernetTaskHandle := ethernet_created\<rparr>\<rparr>"

subsection \<open>The running gateway\<close>

text \<open>
  The states the gateway goes through. A task is started once its queues exist; it runs its
  start-up and the iterations of its loop, whose local variables are arbitrary, on a board that
  answers whatever it likes. Every state in which the task gives up the processor on the way is
  a state of the gateway, and so is the one it ends in. Each time it gives up the processor,
  hardware and interrupts act and other tasks may run, which hand over any state of the gateway;
  in particular those tasks may themselves be suspended in the middle of an iteration.
\<close>

inductive gw_reach :: "'e gw \<Rightarrow> bool" where
  started: "length a = RS422_CMD_QUEUE_DEPTH \<Longrightarrow> length b = TCP_RESPONSE_QUEUE_DEPTH \<Longrightarrow>
    length c = UDP_TELEMETRY_QUEUE_DEPTH \<Longrightarrow>
    gw_reach (main_create_tasks r e (main_create_queues (Some a) (Some b) (Some c) (boot x)))"
| task_runs: "gw_reach s \<Longrightarrow> (\<And>ms w. ms \<in> set script \<Longrightarrow> OtherTasks w \<in> set ms \<Longrightarrow> gw_reach w) \<Longrightarrow>
    run_part (watched hw) part (on_board \<lparr>w_board = env s, w_script = script, w_suspended = []\<rparr> s) = Some t \<Longrightarrow>
    u = unwatch t \<or> u \<in> set (w_suspended (env t)) \<Longrightarrow> gw_reach u"
| meanwhile: "gw_reach s \<Longrightarrow> (\<And>w. m = OtherTasks w \<Longrightarrow> gw_reach w) \<Longrightarrow> gw_reach (happens hw m s)"

lemma boot_gw_ok:
  assumes "length a = RS422_CMD_QUEUE_DEPTH" "length b = TCP_RESPONSE_QUEUE_DEPTH" "length c = UDP_TELEMETRY_QUEUE_DEPTH"
  shows "gw_ok (main_create_queues (Some a) (Some b) (Some c) (boot e))"
    "g_gateway_queue_init_ok (cm (main_create_queues (Some a) (Some b) (Some c) (boot e))) = 1"
proof -
  have new: "\<exists>q. osMessageQueueNew (length m) (Some m) = Some q \<and> queue_inv q \<and> queue_items q = [] \<and> uxLength q = length m"
    if "0 < length m" for m :: "protocol_packet_t list"
  proof -
    have "osMessageQueueNew (length m) (Some m) = Some (prvInitialiseNewQueue (length m) m)" using that by (simp add: osMessageQueueNew_def)
    with new_queue_inv [OF this refl] show ?thesis by blast
  qed
  obtain qa where qa: "osMessageQueueNew RS422_CMD_QUEUE_DEPTH (Some a) = Some qa" "queue_inv qa" "queue_items qa = []" "uxLength qa = RS422_CMD_QUEUE_DEPTH"
    using new [of a] assms(1) by auto
  obtain qb where qb: "osMessageQueueNew TCP_RESPONSE_QUEUE_DEPTH (Some b) = Some qb" "queue_inv qb" "queue_items qb = []" "uxLength qb = TCP_RESPONSE_QUEUE_DEPTH"
    using new [of b] assms(2) by auto
  obtain qc where qc: "osMessageQueueNew UDP_TELEMETRY_QUEUE_DEPTH (Some c) = Some qc" "queue_inv qc" "queue_items qc = []" "uxLength qc = UDP_TELEMETRY_QUEUE_DEPTH"
    using new [of c] assms(3) by auto
  have run: "main_create_queues (Some a) (Some b) (Some c) (boot e) = (boot e)\<lparr>qs := \<lparr>rs422_cmd_queue = Some qa,
      tcp_response_queue = Some qb, udp_telemetry_queue = Some qc\<rparr>, cm := boot_comm_vars\<lparr>g_gateway_queue_init_ok := 1\<rparr>\<rparr>"
    unfolding main_create_queues_def qa(1) qb(1) qc(1) by (simp add: boot_def boot_queue_vars_def boot_comm_vars_def)
  show "gw_ok (main_create_queues (Some a) (Some b) (Some c) (boot e))" unfolding run
    using qa qb qc by (simp add: gw_ok_def queues_ok_def queue_holds_def queue_ready_def boot_def rs422_objects_ok_def
        boot_rs422_objects_def tcp_objects_ok_def boot_tcp_objects_def udp_objects_ok_def boot_udp_objects_def packet_wf_def zero_packet_def)
  show "g_gateway_queue_init_ok (cm (main_create_queues (Some a) (Some b) (Some c) (boot e))) = 1" unfolding run by simp
qed

text \<open>C3: in every state the gateway reaches, also in the middle of an iteration where a task sleeps or
  waits and however the tasks and interrupts interleave there, its shared data are well formed: the
  three queues exist with their depths and hold only well-formed packets, the command queue only
  PING requests, the response queue only PONGs and the telemetry queue only telemetry; both stream
  parsers satisfy their invariant; the receive ring never holds more than its capacity; and no
  buffer has changed its size.\<close>

theorem gateway_well_formed:
  assumes "gw_reach s"
  shows "gw_ok s"
  using assms
proof induction
  case (started a b c r e x)
  then show ?case using boot_gw_ok by (simp add: main_create_tasks_def)
next
  case (task_runs s script hw part t u)
  have "good watch_ok (on_board \<lparr>w_board = env s, w_script = script, w_suspended = []\<rparr> s)"
    using task_runs.IH by (auto simp: good_def watch_ok_def)
  from part_good [OF task_runs.hyps(3) this] have "gw_ok t" "watch_ok (env t)" by (simp_all add: good_def)
  then show ?case using task_runs.hyps(4) by (auto simp: watch_ok_def)
next
  case (meanwhile s m hw)
  then show ?case by (intro happens_gw_ok)
qed

text \<open>While the health task sleeps for its period, a byte arrives on the UART.\<close>

definition sample_script :: "sim meanwhile list list" where
  "sample_script = [[ByteReceived 7]]"

theorem gateway_well_formed_witness:
  "\<exists>u :: sim gw. gw_ok u \<and> g_rs422_rx_head (ro u) = 1 \<and> g_rs422_rx_ring (ro u) ! 0 = 7 \<and> rs422_flags (kn u) = RS422_EVENT_RX"
proof -
  define s where "s = main_create_tasks True True (main_create_queues (Some (replicate 8 zero_packet))
     (Some (replicate 8 zero_packet)) (Some (replicate 4 zero_packet)) (boot sim_init))"
  define l where "l = \<lparr>health_period_ticks = 100, comm_timeout_ticks = 300, health_start_tick = 0, next_wake_tick = 0\<rparr>"
  obtain t where t: "run_part (watched sim_hw) (Health_iteration l) (on_board \<lparr>w_board = env s, w_script = sample_script, w_suspended = []\<rparr> s) = Some t"
    by simp
  have "gw_reach s" unfolding s_def by (rule gw_reach.started) simp_all
  then have "gw_reach (unwatch t)" by (rule gw_reach.task_runs [OF _ _ t]) (simp_all add: sample_script_def)
  moreover have "ro s = boot_rs422_objects" "kn s = \<lparr>RS422TaskHandle = True, EthernetTaskHandle = True, rs422_flags = 0, ethernet_flags = 0\<rparr>"
    "env s = sim_init"
    by (simp_all add: s_def main_create_tasks_def main_create_queues_def boot_def boot_kernel_vars_def Let_def)
  then have "g_rs422_rx_head (ro (unwatch t)) = 1 \<and> g_rs422_rx_ring (ro (unwatch t)) ! 0 = 7 \<and> rs422_flags (kn (unwatch t)) = RS422_EVENT_RX"
    using t [symmetric]
    by (simp add: StartHealthTask_cycle_def osDelayUntil_def l_def watched_def pause_def sample_script_def unwatch_def on_board_def
        sim_hw_def sim_init_def on_watch_def Let_def GwRs422.HAL_UART_RxCpltCallback_def rs422_rx_ring_push_from_isr_def
        boot_rs422_objects_def wake_rs422_def osThreadFlagsSet_def)
  ultimately show ?thesis using gateway_well_formed by blast
qed

subsection \<open>The race between the health task and the receiver\<close>

text \<open>C37: the health task reads the kernel tick before it reads the time of the last valid frame,
  so a frame that the RS-422 task, which has the higher priority, completes between the two reads
  at a later tick makes the unsigned difference wrap around: the link is declared timed out in the
  very moment a frame arrived.\<close>

theorem health_race_false_timeout:
  assumes "fst (osKernelGetTickCount hw (env s)) = of_nat (N + d)" and "0 < d" and "d + unat timeout \<le> 2 ^ 32"
  shows "g_rs422_comm_state (health_evaluate hw timeout start (of_nat N) (cm (note_valid_frame hw s))) = COMM_TIMEOUT"
proof -
  let ?c = "cm (note_valid_frame hw s)"
  have c: "g_rs422_has_valid_frame ?c = 1" "g_rs422_last_valid_frame_tick ?c = of_nat (N + d)"
    using assms(1) by (simp_all add: note_valid_frame_def Let_def)
  show ?thesis
  proof (cases "unat timeout = 0")
    case True
    then have "timeout = 0" by (simp add: unat_eq_0)
    then show ?thesis using c by (simp add: health_evaluate_def health_enter_timeout_def Let_def)
  next
    case False
    have "(of_nat N - of_nat (N + d) :: u32) = of_nat (2 ^ 32 - d)" using assms(2,3) False by (simp add: of_nat_diff)
    then have "unat (of_nat N - of_nat (N + d) :: u32) = 2 ^ 32 - d"
      using assms(2) by (simp add: unat_of_nat)
    then have "timeout \<le> of_nat N - of_nat (N + d)" using assms(3) by (simp add: word_le_nat_alt)
    then show ?thesis using c by (simp add: health_evaluate_def health_enter_timeout_def Let_def)
  qed
qed

theorem health_race_false_timeout_witness:
  "g_rs422_comm_state (health_evaluate sim_hw 300 0 (of_nat 1000)
     (cm (note_valid_frame sim_hw (boot (sim_init\<lparr>sim_time := 1001\<rparr>))))) = COMM_TIMEOUT"
  by (rule health_race_false_timeout [where d = 1]) (simp_all add: sim_hw_def boot_def)

end
