(* ===== verification/GwStart.thy ===== *)
theory GwStart
  imports HeapStats GwMain
begin

text \<open>
  Start-up on the kernel's heap: \<^verbatim>\<open>main\<close> creates three queues and four tasks, each with memory from
  \<^verbatim>\<open>pvPortMalloc\<close>. The sizes of the kernel's structures and of a packet depend on the compiler and
  are parameters. Filling in the allocated memory only stores into blocks that are in use, which
  \<^verbatim>\<open>HeapUse\<close> shows to leave the allocator's data alone, and is left out here.
\<close>

subsection \<open>Operations\<close>

definition xQueueGenericCreate :: "u32 \<Rightarrow> u32 \<Rightarrow> u32 \<Rightarrow> heap4_t \<Rightarrow> (u32 \<times> heap4_t) option" where
  "xQueueGenericCreate sizeof_Queue_t uxQueueLength uxItemSize h =
     (if uxQueueLength > 0 then pvPortMalloc (sizeof_Queue_t + uxQueueLength * uxItemSize) h else None)"

text \<open>The attributes of the gateway's queues only name them, so the memory is allocated.\<close>

definition osMessageQueueNew_on_heap :: "u32 \<Rightarrow> u32 \<Rightarrow> u32 \<Rightarrow> heap4_t \<Rightarrow> (u32 \<times> heap4_t) option" where
  "osMessageQueueNew_on_heap sizeof_Queue_t msg_count msg_size h =
     (if msg_count > 0 \<and> msg_size > 0 then xQueueGenericCreate sizeof_Queue_t msg_count msg_size h else Some (0, h))"

text \<open>The handle of a task is the address of its control block.\<close>

definition xTaskCreate :: "u32 \<Rightarrow> u16 \<Rightarrow> heap4_t \<Rightarrow> (u32 \<times> heap4_t) option" where
  "xTaskCreate sizeof_TCB_t usStackDepth h = do {
     (pxStack, h) \<leftarrow> pvPortMalloc (ucast usStackDepth * 4) h;
     if pxStack \<noteq> 0
     then do {
       (pxNewTCB, h) \<leftarrow> pvPortMalloc sizeof_TCB_t h;
       if pxNewTCB \<noteq> 0 then Some (pxNewTCB, h)
       else do {
         h \<leftarrow> vPortFree pxStack h;
         Some (0, h)
       }
     }
     else Some (0, h)
   }"

definition osThreadNew :: "u32 \<Rightarrow> u32 \<Rightarrow> heap4_t \<Rightarrow> (u32 \<times> heap4_t) option" where
  "osThreadNew sizeof_TCB_t stack_size h =
     (let stack = (if stack_size > 0 then stack_size div 4 else 128) in xTaskCreate sizeof_TCB_t (ucast stack) h)"

definition defaultTask_stack_size :: u32 where "defaultTask_stack_size = 128 * 4"
definition RS422Task_stack_size :: u32 where "RS422Task_stack_size = 512 * 4"
definition EthernetTask_stack_size :: u32 where "EthernetTask_stack_size = 512 * 4"
definition HealthTask_stack_size :: u32 where "HealthTask_stack_size = 128 * 4"

record start_handles =
  cmd_queue_handle :: u32
  response_queue_handle :: u32
  telemetry_queue_handle :: u32
  default_task_handle :: u32
  rs422_task_handle :: u32
  ethernet_task_handle :: u32
  health_task_handle :: u32

definition main_create_objects :: "u32 \<Rightarrow> u32 \<Rightarrow> u32 \<Rightarrow> heap4_t \<Rightarrow> (start_handles \<times> heap4_t) option" where
  "main_create_objects sizeof_Queue_t sizeof_TCB_t sizeof_packet h = do {
     (q1, h) \<leftarrow> osMessageQueueNew_on_heap sizeof_Queue_t (of_nat RS422_CMD_QUEUE_DEPTH) sizeof_packet h;
     (q2, h) \<leftarrow> osMessageQueueNew_on_heap sizeof_Queue_t (of_nat TCP_RESPONSE_QUEUE_DEPTH) sizeof_packet h;
     (q3, h) \<leftarrow> osMessageQueueNew_on_heap sizeof_Queue_t (of_nat UDP_TELEMETRY_QUEUE_DEPTH) sizeof_packet h;
     (t1, h) \<leftarrow> osThreadNew sizeof_TCB_t defaultTask_stack_size h;
     (t2, h) \<leftarrow> osThreadNew sizeof_TCB_t RS422Task_stack_size h;
     (t3, h) \<leftarrow> osThreadNew sizeof_TCB_t EthernetTask_stack_size h;
     (t4, h) \<leftarrow> osThreadNew sizeof_TCB_t HealthTask_stack_size h;
     Some (\<lparr>cmd_queue_handle = q1, response_queue_handle = q2, telemetry_queue_handle = q3, default_task_handle = t1,
       rs422_task_handle = t2, ethernet_task_handle = t3, health_task_handle = t4\<rparr>, h)
   }"

text \<open>The state of the gateway that start-up leaves; \<open>a\<close>, \<open>b\<close> and \<open>c\<close> are what the memory of the queues contains.\<close>

definition main_start :: "start_handles \<Rightarrow> protocol_packet_t list \<Rightarrow> protocol_packet_t list \<Rightarrow> protocol_packet_t list \<Rightarrow> 'e \<Rightarrow> 'e gw" where
  "main_start hs a b c x =
     main_create_tasks (rs422_task_handle hs \<noteq> 0) (ethernet_task_handle hs \<noteq> 0)
       (main_create_queues (if cmd_queue_handle hs \<noteq> 0 then Some a else None)
         (if response_queue_handle hs \<noteq> 0 then Some b else None) (if telemetry_queue_handle hs \<noteq> 0 then Some c else None) (boot x))"

subsection \<open>Allocating from the end\<close>

text \<open>After start-up's allocations so far, all blocks are in use but the last, which has at least \<open>k\<close> bytes.\<close>

definition tail_free :: "heap4_t \<Rightarrow> nat \<Rightarrow> bool" where
  "tail_free h k \<longleftrightarrow> (\<exists>us p n. heap_rep h (us @ [(p, n, False)]) \<and> (\<forall>b \<in> set us. snd (snd b)) \<and> k \<le> n)"

lemma tail_freeI: "heap_rep h (us @ [(p, n, False)]) \<Longrightarrow> \<forall>b \<in> set us. snd (snd b) \<Longrightarrow> k \<le> n \<Longrightarrow> tail_free h k"
  by (auto simp: tail_free_def)

lemma alloc_block_tail:
  "\<forall>b \<in> set us. snd (snd b) \<Longrightarrow> v + 16 < n \<Longrightarrow>
    alloc_block v (us @ [(p, n, False)]) = Some (p, (us @ [(p, v, True)]) @ [(p + v, n - v, False)])"
  by (induction us) auto

lemma malloc_tail:
  assumes "tail_free h k" "0 < w" "block_need (unat w) + 16 < k"
  shows "returns (\<lambda>r h'. r \<noteq> 0 \<and> tail_free h' (k - block_need (unat w))) (pvPortMalloc w h)"
proof -
  obtain us p n where rep: "heap_rep h (us @ [(p, n, False)])" "\<forall>b \<in> set us. snd (snd b)" "k \<le> n" using assms(1) by (auto simp: tail_free_def)
  define v where "v = block_need (unat w)"
  have "n < 2 ^ 31" using block_bound(2) [OF rep(1), of p n False] by simp
  then have "0 < unat w" "unat w < 2 ^ 31" using assms(2,3) rep(3) block_need_bounds(1) [of "unat w"] by (auto simp: word_less_nat_alt)
  then have layout: "malloc_layout (unat w) (us @ [(p, n, False)]) = Some (p, (us @ [(p, v, True)]) @ [(p + v, n - v, False)])"
    using alloc_block_tail [OF rep(2), of v n p] assms(3) rep(3) by (simp add: malloc_layout_def v_def)
  have nonzero: "of_nat (p + 8) \<noteq> (0 :: u32)" using live_pointer [OF rep(1), of p n False] by (metis add_is_0 in_set_conv_decomp unat_0 zero_neq_numeral)
  from malloc_refines [OF rep(1), of w] show ?thesis
    unfolding layout option.case prod.case
    by (rule returns_mono) (use nonzero rep(2,3) in \<open>auto simp: v_def intro!: tail_freeI [of _ "us @ [(p, v, True)]" "p + v" "n - v"]\<close>)
qed

lemma tail_free_mono: "tail_free h k \<Longrightarrow> k' \<le> k \<Longrightarrow> tail_free h k'"
  by (auto simp: tail_free_def intro: order_trans)

lemma malloc_tail_bound:
  assumes "tail_free h k" "0 < w" "unat w \<le> n" "n + 32 \<le> k"
  shows "returns (\<lambda>r h'. r \<noteq> 0 \<and> tail_free h' (k - (n + 16))) (pvPortMalloc w h)"
  by (rule returns_mono [OF malloc_tail [OF assms(1,2)]])
    (use assms(3,4) block_need_bounds(2) [of "unat w"] in \<open>auto elim!: tail_free_mono\<close>)

lemma queue_tail:
  assumes "tail_free h k" and size: "sizeof_Queue_t \<le> 128" "0 < item" "item \<le> 288" and len: "0 < len" "len \<le> 8" and room: "2464 \<le> k"
  shows "returns (\<lambda>r h'. r \<noteq> 0 \<and> tail_free h' (k - 2448)) (osMessageQueueNew_on_heap sizeof_Queue_t len item h)"
proof -
  have prod: "unat len * unat item \<le> 8 * 288" "0 < unat len * unat item"
    using size(2,3) len mult_le_mono [of "unat len" 8 "unat item" 288] by (simp_all add: word_le_nat_alt word_less_nat_alt)
  then have "unat (sizeof_Queue_t + len * item) = unat sizeof_Queue_t + unat len * unat item"
    using size(1) by (simp add: unat_word_ariths word_le_nat_alt)
  then have "unat (sizeof_Queue_t + len * item) \<le> 2432" "0 < sizeof_Queue_t + len * item"
    using prod size(1) by (auto simp: word_le_nat_alt word_less_nat_alt)
  then show ?thesis using malloc_tail_bound [OF assms(1), of "sizeof_Queue_t + len * item" 2432] size(2) len(1) room
    by (simp add: osMessageQueueNew_on_heap_def xQueueGenericCreate_def)
qed

lemma task_tail:
  assumes "tail_free h k" and tcb: "0 < sizeof_TCB_t" "sizeof_TCB_t \<le> 256" and stack: "0 < (ucast d * 4 :: u32)" "unat (ucast d * 4 :: u32) \<le> n"
    and room: "n + 304 \<le> k"
  shows "returns (\<lambda>r h'. r \<noteq> 0 \<and> tail_free h' (k - (n + 288))) (xTaskCreate sizeof_TCB_t d h)"
proof -
  have tcb': "unat sizeof_TCB_t \<le> 256" using tcb(2) by (simp add: word_le_nat_alt)
  have "returns (\<lambda>r h'. r \<noteq> 0 \<and> returns (\<lambda>r h'. r \<noteq> 0 \<and> tail_free h' (k - (n + 288))) (pvPortMalloc sizeof_TCB_t h'))
      (pvPortMalloc (ucast d * 4) h)"
    by (rule returns_mono [OF malloc_tail_bound [OF assms(1) stack]])
      (use room malloc_tail_bound [OF _ tcb(1) tcb', of _ "k - (n + 16)"] in \<open>auto simp: add.commute\<close>)
  then show ?thesis unfolding xTaskCreate_def by (auto simp: returns_iff)
qed

lemma init_tail:
  assumes "heap_placed h"
  shows "tail_free (prvHeapInit h) 16360"
proof -
  have "16360 \<le> heap_limit h - heap_base h" by (auto simp: heap_limit_def heap_base_def)
  then show ?thesis using heap_init_rep(1) [OF assms] unfolding tail_free_def
    by (intro exI [of _ "[]"]) auto
qed

text \<open>C40: the heap of 16384 bytes is enough for the gateway: wherever the linker places the array,
  with a queue structure of up to 128 bytes, a task control block of up to 256 and a packet of up
  to 288, every allocation of start-up succeeds, so all three queues and all four tasks exist, the
  flag that the queues were created is set, and the gateway starts in a reachable state.\<close>

theorem start_up_allocations_succeed:
  assumes "heap_placed h" "pxEnd h = 0"
    and "sizeof_Queue_t \<le> 128" "0 < sizeof_TCB_t" "sizeof_TCB_t \<le> 256" "0 < sizeof_packet" "sizeof_packet \<le> 288"
    and "length a = RS422_CMD_QUEUE_DEPTH" "length b = TCP_RESPONSE_QUEUE_DEPTH" "length c = UDP_TELEMETRY_QUEUE_DEPTH"
  shows "\<exists>hs h'. main_create_objects sizeof_Queue_t sizeof_TCB_t sizeof_packet h = Some (hs, h') \<and>
    default_task_handle hs \<noteq> 0 \<and> rs422_task_handle hs \<noteq> 0 \<and> ethernet_task_handle hs \<noteq> 0 \<and> health_task_handle hs \<noteq> 0 \<and>
    g_gateway_queue_init_ok (cm (main_start hs a b c x)) = 1 \<and> gw_reach (main_start hs a b c x)"
proof -
  note queue = queue_tail [OF _ assms(3,6,7)]
  note task = task_tail [OF _ assms(4,5)]
  have tasks: "returns (\<lambda>r h'. r \<noteq> 0 \<and> tail_free h' (k - 800)) (osThreadNew sizeof_TCB_t defaultTask_stack_size g)"
    "returns (\<lambda>r h'. r \<noteq> 0 \<and> tail_free h' (k - 800)) (osThreadNew sizeof_TCB_t HealthTask_stack_size g)" if "tail_free g k" "816 \<le> k" for g k
    using task [OF that(1), of 128 512] that(2)
    by (simp_all add: osThreadNew_def defaultTask_stack_size_def HealthTask_stack_size_def)
  have big_tasks: "returns (\<lambda>r h'. r \<noteq> 0 \<and> tail_free h' (k - 2336)) (osThreadNew sizeof_TCB_t RS422Task_stack_size g)"
    "returns (\<lambda>r h'. r \<noteq> 0 \<and> tail_free h' (k - 2336)) (osThreadNew sizeof_TCB_t EthernetTask_stack_size g)" if "tail_free g k" "2352 \<le> k" for g k
    using task [OF that(1), of 512 2048] that(2)
    by (simp_all add: osThreadNew_def RS422Task_stack_size_def EthernetTask_stack_size_def)
  have "returns (\<lambda>hs h'. cmd_queue_handle hs \<noteq> 0 \<and> response_queue_handle hs \<noteq> 0 \<and> telemetry_queue_handle hs \<noteq> 0 \<and>
      default_task_handle hs \<noteq> 0 \<and> rs422_task_handle hs \<noteq> 0 \<and> ethernet_task_handle hs \<noteq> 0 \<and> health_task_handle hs \<noteq> 0)
    (main_create_objects sizeof_Queue_t sizeof_TCB_t sizeof_packet (prvHeapInit h))"
    unfolding main_create_objects_def wp
    by (rule returns_mono [OF queue [OF init_tail [OF assms(1)]]], simp, simp, simp, elim conjE,
        rule returns_mono [OF queue], assumption, simp, simp, simp, elim conjE,
        rule returns_mono [OF queue], assumption, simp, simp, simp, elim conjE,
        rule returns_mono [OF tasks(1)], assumption, simp, elim conjE,
        rule returns_mono [OF big_tasks(1)], assumption, simp, elim conjE,
        rule returns_mono [OF big_tasks(2)], assumption, simp, elim conjE,
        rule returns_mono [OF tasks(2)], assumption, simp, simp)
  moreover have "main_create_objects sizeof_Queue_t sizeof_TCB_t sizeof_packet h =
      main_create_objects sizeof_Queue_t sizeof_TCB_t sizeof_packet (prvHeapInit h)"
    using assms(6) malloc_initialises [OF assms(1,2)]
    by (simp add: main_create_objects_def osMessageQueueNew_on_heap_def xQueueGenericCreate_def)
  ultimately obtain hs h' where hs: "main_create_objects sizeof_Queue_t sizeof_TCB_t sizeof_packet h = Some (hs, h')"
    "cmd_queue_handle hs \<noteq> 0" "response_queue_handle hs \<noteq> 0" "telemetry_queue_handle hs \<noteq> 0"
    "default_task_handle hs \<noteq> 0" "rs422_task_handle hs \<noteq> 0" "ethernet_task_handle hs \<noteq> 0" "health_task_handle hs \<noteq> 0"
    by (auto simp: returns_iff)
  have start: "main_start hs a b c x = main_create_tasks True True (main_create_queues (Some a) (Some b) (Some c) (boot x))"
    using hs by (simp add: main_start_def)
  have "gw_reach (main_start hs a b c x)" unfolding start by (rule gw_reach.started [OF assms(8-10)])
  moreover have "g_gateway_queue_init_ok (cm (main_start hs a b c x)) = 1"
    using boot_gw_ok(2) [OF assms(8-10)] by (simp add: start main_create_tasks_def)
  ultimately show ?thesis using hs by blast
qed

text \<open>The sizes the ARM compiler gives the structures with the gateway's kernel configuration.\<close>

theorem start_up_allocations_succeed_witness:
  "\<exists>hs h'. main_create_objects 80 92 262 sample_heap = Some (hs, h') \<and>
    default_task_handle hs \<noteq> 0 \<and> rs422_task_handle hs \<noteq> 0 \<and> ethernet_task_handle hs \<noteq> 0 \<and> health_task_handle hs \<noteq> 0 \<and>
    g_gateway_queue_init_ok (cm (main_start hs (replicate 8 zero_packet) (replicate 8 zero_packet) (replicate 4 zero_packet) sim_init)) = 1 \<and>
    gw_reach (main_start hs (replicate 8 zero_packet) (replicate 8 zero_packet) (replicate 4 zero_packet) sim_init)"
  by (rule start_up_allocations_succeed [OF sample_heap_placed(1,2)]) simp_all

end
