(* ===== verification/GwUart.thy ===== *)
theory GwUart
  imports GwLink
begin

text \<open>
  The vendor's interrupt-driven UART driver (\<^verbatim>\<open>stm32g4xx_hal_uart.c\<close>) under the gateway: the calls
  that \<open>'e hw\<close> leaves open, the interrupt handler of UART4 that runs the gateway's callbacks, and the
  peripheral. \<^verbatim>\<open>MX_UART4_Init\<close> fixes the configuration (8 data bits, no parity, FIFO off, no DMA, no
  receiver timeout, standard reception), which decides the branches on it, so the fields of the
  handle and the registers that only serve the other modes are left out; \<open>uart_configured\<close> states
  the register bits this configuration leaves clear. Every reception is for one byte into \<^verbatim>\<open>g_uart4_rx_byte\<close>. The
  transmit pointer is the list of bytes it still points to: the gateway leaves its frame buffer
  alone while \<^verbatim>\<open>g_rs422_tx_busy\<close> is set.
\<close>

datatype HAL_UART_StateTypeDef = HAL_UART_STATE_RESET | HAL_UART_STATE_READY | HAL_UART_STATE_BUSY_TX | HAL_UART_STATE_BUSY_RX

datatype rx_isr = RxISR_NULL | UART_RxISR_8BIT
datatype tx_isr = TxISR_NULL | UART_TxISR_8BIT

record UART_HandleTypeDef =
  pTxBuffPtr :: "u8 list"
  TxXferSize :: u16
  TxXferCount :: u16
  RxXferSize :: u16
  RxXferCount :: u16
  Mask :: u16
  RxISR :: rx_isr
  TxISR :: tx_isr
  gState :: HAL_UART_StateTypeDef
  RxState :: HAL_UART_StateTypeDef
  ErrorCode :: u32

record USART_TypeDef =
  CR1 :: u32
  CR3 :: u32
  ISR :: u32
  RDR :: u32
  TDR :: u32

text \<open>\<open>shift_reg\<close> and \<open>line_out\<close> are the byte on its way out and the bytes that have left.\<close>

record 'x uart_env =
  huart4 :: UART_HandleTypeDef
  UART4 :: USART_TypeDef
  shift_reg :: "u8 option"
  line_out :: "u8 list"
  rest :: 'x

subsection \<open>Register bits\<close>

definition USART_CR1_RXNEIE :: nat where [simp]: "USART_CR1_RXNEIE = 5"
definition USART_CR1_TCIE :: nat where [simp]: "USART_CR1_TCIE = 6"
definition USART_CR1_TXEIE :: nat where [simp]: "USART_CR1_TXEIE = 7"
definition USART_CR1_PEIE :: nat where [simp]: "USART_CR1_PEIE = 8"
definition USART_CR1_RTOIE :: nat where [simp]: "USART_CR1_RTOIE = 26"
definition USART_CR3_EIE :: nat where [simp]: "USART_CR3_EIE = 0"
definition USART_CR3_DMAR :: nat where [simp]: "USART_CR3_DMAR = 6"
definition USART_CR3_WUFIE :: nat where [simp]: "USART_CR3_WUFIE = 22"
definition USART_CR3_TXFTIE :: nat where [simp]: "USART_CR3_TXFTIE = 23"
definition USART_CR3_RXFTIE :: nat where [simp]: "USART_CR3_RXFTIE = 28"
definition USART_ISR_PE :: nat where [simp]: "USART_ISR_PE = 0"
definition USART_ISR_FE :: nat where [simp]: "USART_ISR_FE = 1"
definition USART_ISR_NE :: nat where [simp]: "USART_ISR_NE = 2"
definition USART_ISR_ORE :: nat where [simp]: "USART_ISR_ORE = 3"
definition USART_ISR_RXNE :: nat where [simp]: "USART_ISR_RXNE = 5"
definition USART_ISR_TC :: nat where [simp]: "USART_ISR_TC = 6"
definition USART_ISR_TXE :: nat where [simp]: "USART_ISR_TXE = 7"
definition USART_ISR_RTOF :: nat where [simp]: "USART_ISR_RTOF = 11"
definition USART_ISR_WUF :: nat where [simp]: "USART_ISR_WUF = 20"
definition HAL_UART_ERROR_NONE :: u32 where [simp]: "HAL_UART_ERROR_NONE = 0"
definition HAL_UART_ERROR_PE :: u32 where [simp]: "HAL_UART_ERROR_PE = 1"
definition HAL_UART_ERROR_NE :: u32 where [simp]: "HAL_UART_ERROR_NE = 2"
definition HAL_UART_ERROR_FE :: u32 where [simp]: "HAL_UART_ERROR_FE = 4"
definition HAL_UART_ERROR_ORE :: u32 where [simp]: "HAL_UART_ERROR_ORE = 8"
definition HAL_UART_ERROR_RTO :: u32 where [simp]: "HAL_UART_ERROR_RTO = 32"

text \<open>\<^verbatim>\<open>ATOMIC_SET_BIT\<close> and \<^verbatim>\<open>ATOMIC_CLEAR_BIT\<close> on a register, by bit positions.\<close>

definition set_bits_of :: "nat list \<Rightarrow> u32 \<Rightarrow> u32" where "set_bits_of ns w = fold set_bit ns w"
definition clear_bits_of :: "nat list \<Rightarrow> u32 \<Rightarrow> u32" where "clear_bits_of ns w = fold unset_bit ns w"

definition set_CR1 :: "nat list \<Rightarrow> 'x uart_env \<Rightarrow> 'x uart_env" where
  "set_CR1 ns e = e\<lparr>UART4 := (UART4 e)\<lparr>CR1 := set_bits_of ns (CR1 (UART4 e))\<rparr>\<rparr>"
definition clear_CR1 :: "nat list \<Rightarrow> 'x uart_env \<Rightarrow> 'x uart_env" where
  "clear_CR1 ns e = e\<lparr>UART4 := (UART4 e)\<lparr>CR1 := clear_bits_of ns (CR1 (UART4 e))\<rparr>\<rparr>"
definition set_CR3 :: "nat list \<Rightarrow> 'x uart_env \<Rightarrow> 'x uart_env" where
  "set_CR3 ns e = e\<lparr>UART4 := (UART4 e)\<lparr>CR3 := set_bits_of ns (CR3 (UART4 e))\<rparr>\<rparr>"
definition clear_CR3 :: "nat list \<Rightarrow> 'x uart_env \<Rightarrow> 'x uart_env" where
  "clear_CR3 ns e = e\<lparr>UART4 := (UART4 e)\<lparr>CR3 := clear_bits_of ns (CR3 (UART4 e))\<rparr>\<rparr>"

text \<open>\<^verbatim>\<open>__HAL_UART_CLEAR_FLAG\<close> writes the interrupt clear register, which resets the flag.\<close>

definition clear_flag :: "nat \<Rightarrow> 'x uart_env \<Rightarrow> 'x uart_env" where
  "clear_flag n e = e\<lparr>UART4 := (UART4 e)\<lparr>ISR := unset_bit n (ISR (UART4 e))\<rparr>\<rparr>"

text \<open>Reading the receive register resets RXNE; writing the transmit register resets TXE and TC.\<close>

definition read_RDR :: "'x uart_env \<Rightarrow> u32 \<times> 'x uart_env" where
  "read_RDR e = (RDR (UART4 e), clear_flag USART_ISR_RXNE e)"

definition write_TDR :: "u8 \<Rightarrow> 'x uart_env \<Rightarrow> 'x uart_env" where
  "write_TDR b e = clear_flag USART_ISR_TXE (clear_flag USART_ISR_TC (e\<lparr>UART4 := (UART4 e)\<lparr>TDR := ucast b\<rparr>\<rparr>))"

subsection \<open>Starting a transfer\<close>

definition UART_Start_Receive_IT :: "u16 \<Rightarrow> 'x uart_env \<Rightarrow> HAL_StatusTypeDef \<times> 'x uart_env" where
  "UART_Start_Receive_IT Size e =
     (let e = e\<lparr>huart4 := (huart4 e)\<lparr>RxXferSize := Size, RxXferCount := Size, RxISR := RxISR_NULL\<rparr>\<rparr>;
          e = e\<lparr>huart4 := (huart4 e)\<lparr>Mask := 0xFF\<rparr>\<rparr>;
          e = e\<lparr>huart4 := (huart4 e)\<lparr>ErrorCode := HAL_UART_ERROR_NONE, RxState := HAL_UART_STATE_BUSY_RX\<rparr>\<rparr>;
          e = set_CR3 [USART_CR3_EIE] e;
          e = e\<lparr>huart4 := (huart4 e)\<lparr>RxISR := UART_RxISR_8BIT\<rparr>\<rparr>;
          e = set_CR1 [USART_CR1_RXNEIE] e
      in (HAL_OK, e))"

definition hal_uart_receive_it :: "u16 \<Rightarrow> 'x uart_env \<Rightarrow> HAL_StatusTypeDef \<times> 'x uart_env" where
  "hal_uart_receive_it Size e =
     (if RxState (huart4 e) = HAL_UART_STATE_READY
      then if Size = 0 then (HAL_ERROR, e) else UART_Start_Receive_IT Size e
      else (HAL_BUSY, e))"

definition hal_uart_transmit_it :: "u8 list \<Rightarrow> 'x uart_env \<Rightarrow> HAL_StatusTypeDef \<times> 'x uart_env" where
  "hal_uart_transmit_it pData e =
     (if gState (huart4 e) = HAL_UART_STATE_READY
      then if of_nat (length pData) = (0 :: u16) then (HAL_ERROR, e)
           else let e = e\<lparr>huart4 := (huart4 e)\<lparr>pTxBuffPtr := pData, TxXferSize := of_nat (length pData),
                      TxXferCount := of_nat (length pData), TxISR := TxISR_NULL\<rparr>\<rparr>;
                    e = e\<lparr>huart4 := (huart4 e)\<lparr>ErrorCode := HAL_UART_ERROR_NONE, gState := HAL_UART_STATE_BUSY_TX\<rparr>\<rparr>;
                    e = e\<lparr>huart4 := (huart4 e)\<lparr>TxISR := UART_TxISR_8BIT\<rparr>\<rparr>;
                    e = set_CR1 [USART_CR1_TXEIE] e
                in (HAL_OK, e)
      else (HAL_BUSY, e))"

text \<open>The gateway's hardware interface with this driver.\<close>

definition uart_board :: "'x uart_env hw \<Rightarrow> 'x uart_env hw" where
  "uart_board hw = hw\<lparr>HAL_UART_Transmit_IT := hal_uart_transmit_it, HAL_UART_Receive_IT := hal_uart_receive_it 1,
     huart4_RxState_ready := (\<lambda>e. RxState (huart4 e) = HAL_UART_STATE_READY)\<rparr>"

subsection \<open>The interrupt handler\<close>

definition UART_EndRxTransfer :: "'x uart_env \<Rightarrow> 'x uart_env" where
  "UART_EndRxTransfer e =
     (let e = clear_CR1 [USART_CR1_RXNEIE, USART_CR1_PEIE] e;
          e = clear_CR3 [USART_CR3_EIE, USART_CR3_RXFTIE] e
      in e\<lparr>huart4 := (huart4 e)\<lparr>RxState := HAL_UART_STATE_READY, RxISR := RxISR_NULL\<rparr>\<rparr>)"

definition rx_isr_8bit :: "'x uart_env hw \<Rightarrow> 'x uart_env gw \<Rightarrow> 'x uart_env gw" where
  "rx_isr_8bit hw s =
     (if RxState (huart4 (env s)) = HAL_UART_STATE_BUSY_RX
      then let (uhdata, e) = read_RDR (env s);
               s = s\<lparr>env := e, ro := (ro s)\<lparr>g_uart4_rx_byte := ucast (uhdata AND (ucast (Mask (huart4 e))))\<rparr>\<rparr>;
               s = s\<lparr>env := e\<lparr>huart4 := (huart4 e)\<lparr>RxXferCount := RxXferCount (huart4 e) - 1\<rparr>\<rparr>\<rparr>
           in if RxXferCount (huart4 (env s)) = 0
              then let e = clear_CR1 [USART_CR1_RXNEIE, USART_CR1_PEIE] (env s);
                       e = clear_CR3 [USART_CR3_EIE] e;
                       e = e\<lparr>huart4 := (huart4 e)\<lparr>RxState := HAL_UART_STATE_READY, RxISR := RxISR_NULL\<rparr>\<rparr>
                   in GwRs422.HAL_UART_RxCpltCallback hw True (s\<lparr>env := e\<rparr>)
              else s
      else s\<lparr>env := clear_flag USART_ISR_RXNE (env s)\<rparr>)"

definition tx_isr_8bit :: "'x uart_env \<Rightarrow> 'x uart_env" where
  "tx_isr_8bit e =
     (if gState (huart4 e) = HAL_UART_STATE_BUSY_TX
      then if TxXferCount (huart4 e) = 0
           then set_CR1 [USART_CR1_TCIE] (clear_CR1 [USART_CR1_TXEIE] e)
           else let e = write_TDR (hd (pTxBuffPtr (huart4 e))) e
                in e\<lparr>huart4 := (huart4 e)\<lparr>pTxBuffPtr := tl (pTxBuffPtr (huart4 e)), TxXferCount := TxXferCount (huart4 e) - 1\<rparr>\<rparr>
      else e)"

definition UART_EndTransmit_IT :: "'x uart_env gw \<Rightarrow> 'x uart_env gw" where
  "UART_EndTransmit_IT s =
     (let e = clear_CR1 [USART_CR1_TCIE] (env s);
          e = e\<lparr>huart4 := (huart4 e)\<lparr>gState := HAL_UART_STATE_READY, TxISR := TxISR_NULL\<rparr>\<rparr>
      in HAL_UART_TxCpltCallback True (s\<lparr>env := e\<rparr>))"

definition call_RxISR :: "'x uart_env hw \<Rightarrow> 'x uart_env gw \<Rightarrow> 'x uart_env gw" where
  "call_RxISR hw s = (case RxISR (huart4 (env s)) of RxISR_NULL \<Rightarrow> s | UART_RxISR_8BIT \<Rightarrow> rx_isr_8bit hw s)"

text \<open>The error flags, each cleared and noted when its interrupt is enabled.\<close>

definition note_error :: "bool \<Rightarrow> nat \<Rightarrow> u32 \<Rightarrow> 'x uart_env \<Rightarrow> 'x uart_env" where
  "note_error enabled flag code e =
     (if enabled then let e = clear_flag flag e in e\<lparr>huart4 := (huart4 e)\<lparr>ErrorCode := ErrorCode (huart4 e) OR code\<rparr>\<rparr> else e)"

definition note_errors :: "u32 \<Rightarrow> u32 \<Rightarrow> u32 \<Rightarrow> 'x uart_env \<Rightarrow> 'x uart_env" where
  "note_errors isrflags cr1its cr3its e =
     (let e = note_error (bit isrflags USART_ISR_PE \<and> bit cr1its USART_CR1_PEIE) USART_ISR_PE HAL_UART_ERROR_PE e;
          e = note_error (bit isrflags USART_ISR_FE \<and> bit cr3its USART_CR3_EIE) USART_ISR_FE HAL_UART_ERROR_FE e;
          e = note_error (bit isrflags USART_ISR_NE \<and> bit cr3its USART_CR3_EIE) USART_ISR_NE HAL_UART_ERROR_NE e;
          e = note_error (bit isrflags USART_ISR_ORE \<and> (bit cr1its USART_CR1_RXNEIE \<or> bit cr3its USART_CR3_RXFTIE \<or> bit cr3its USART_CR3_EIE))
                USART_ISR_ORE HAL_UART_ERROR_ORE e
      in note_error (bit isrflags USART_ISR_RTOF \<and> bit cr1its USART_CR1_RTOIE) USART_ISR_RTOF HAL_UART_ERROR_RTO e)"

definition handle_errors :: "'x uart_env hw \<Rightarrow> bool \<Rightarrow> 'x uart_env gw \<Rightarrow> 'x uart_env gw" where
  "handle_errors hw rxne s =
     (if ErrorCode (huart4 (env s)) \<noteq> HAL_UART_ERROR_NONE
      then let s = (if rxne then call_RxISR hw s else s);
               errorcode = ErrorCode (huart4 (env s))
           in if errorcode AND (HAL_UART_ERROR_RTO OR HAL_UART_ERROR_ORE) \<noteq> 0
              then GwRs422.HAL_UART_ErrorCallback hw True (s\<lparr>env := UART_EndRxTransfer (env s)\<rparr>)
              else let s = GwRs422.HAL_UART_ErrorCallback hw True s
                   in s\<lparr>env := (env s)\<lparr>huart4 := (huart4 (env s))\<lparr>ErrorCode := HAL_UART_ERROR_NONE\<rparr>\<rparr>\<rparr>
      else s)"

definition HAL_UART_IRQHandler :: "'x uart_env hw \<Rightarrow> 'x uart_env gw \<Rightarrow> 'x uart_env gw" where
  "HAL_UART_IRQHandler hw s =
     (let isrflags = ISR (UART4 (env s)); cr1its = CR1 (UART4 (env s)); cr3its = CR3 (UART4 (env s));
          errorflags = (bit isrflags USART_ISR_PE \<or> bit isrflags USART_ISR_FE \<or> bit isrflags USART_ISR_ORE \<or>
            bit isrflags USART_ISR_NE \<or> bit isrflags USART_ISR_RTOF);
          rxne = (bit isrflags USART_ISR_RXNE \<and> (bit cr1its USART_CR1_RXNEIE \<or> bit cr3its USART_CR3_RXFTIE))
      in if \<not> errorflags \<and> rxne then call_RxISR hw s
         else if errorflags \<and> (bit cr3its USART_CR3_RXFTIE \<or> bit cr3its USART_CR3_EIE \<or> bit cr1its USART_CR1_RXNEIE \<or>
                bit cr1its USART_CR1_PEIE \<or> bit cr1its USART_CR1_RTOIE)
         then handle_errors hw rxne (s\<lparr>env := note_errors isrflags cr1its cr3its (env s)\<rparr>)
         else if bit isrflags USART_ISR_WUF \<and> bit cr3its USART_CR3_WUFIE
         then s\<lparr>env := clear_flag USART_ISR_WUF (env s)\<rparr>
         else if bit isrflags USART_ISR_TXE \<and> (bit cr1its USART_CR1_TXEIE \<or> bit cr3its USART_CR3_TXFTIE)
         then (case TxISR (huart4 (env s)) of TxISR_NULL \<Rightarrow> s | UART_TxISR_8BIT \<Rightarrow> s\<lparr>env := tx_isr_8bit (env s)\<rparr>)
         else if bit isrflags USART_ISR_TC \<and> bit cr1its USART_CR1_TCIE then UART_EndTransmit_IT s
         else s)"

definition UART4_IRQHandler :: "'x uart_env hw \<Rightarrow> 'x uart_env gw \<Rightarrow> 'x uart_env gw" where
  "UART4_IRQHandler hw s = HAL_UART_IRQHandler (uart_board hw) s"

subsection \<open>The peripheral\<close>

text \<open>
  A byte from the line is stored and flagged; while the previous one has not been read it is lost and
  the overrun flag set. Framing and noise errors are flagged with the byte.
\<close>

definition byte_arrives :: "u8 \<Rightarrow> bool \<Rightarrow> bool \<Rightarrow> 'x uart_env \<Rightarrow> 'x uart_env" where
  "byte_arrives b frame_error noise e =
     (let isr = ISR (UART4 e);
          isr' = (if frame_error then set_bit USART_ISR_FE isr else isr);
          isr' = (if noise then set_bit USART_ISR_NE isr' else isr')
      in if bit isr USART_ISR_RXNE then e\<lparr>UART4 := (UART4 e)\<lparr>ISR := set_bit USART_ISR_ORE isr'\<rparr>\<rparr>
         else e\<lparr>UART4 := (UART4 e)\<lparr>RDR := ucast b, ISR := set_bit USART_ISR_RXNE isr'\<rparr>\<rparr>)"

text \<open>The transmit register moves into the empty shift register; a byte that has been shifted out
  is on the line, and transmission is complete when none waits.\<close>

definition tx_load :: "'x uart_env \<Rightarrow> 'x uart_env" where
  "tx_load e = (if shift_reg e = None \<and> \<not> bit (ISR (UART4 e)) USART_ISR_TXE
     then e\<lparr>shift_reg := Some (ucast (TDR (UART4 e))), UART4 := (UART4 e)\<lparr>ISR := set_bit USART_ISR_TXE (ISR (UART4 e))\<rparr>\<rparr> else e)"

definition tx_shifted :: "'x uart_env \<Rightarrow> 'x uart_env" where
  "tx_shifted e = (case shift_reg e of None \<Rightarrow> e
     | Some b \<Rightarrow> let e = e\<lparr>shift_reg := None, line_out := line_out e @ [b]\<rparr>
                 in if bit (ISR (UART4 e)) USART_ISR_TXE then e\<lparr>UART4 := (UART4 e)\<lparr>ISR := set_bit USART_ISR_TC (ISR (UART4 e))\<rparr>\<rparr> else e)"

subsection \<open>Receiving\<close>

lemma bits_of [simp]:
  "bit (set_bits_of ns w) n \<longleftrightarrow> bit w n \<or> n \<in> set ns \<and> n < 32"
  "bit (clear_bits_of ns w) n \<longleftrightarrow> bit w n \<and> n \<notin> set ns"
proof -
  have "bit (fold set_bit ns w) n \<longleftrightarrow> bit w n \<or> n \<in> set ns \<and> n < 32"
    by (induction ns arbitrary: w) (auto simp: bit_set_bit_iff)
  then show "bit (set_bits_of ns w) n \<longleftrightarrow> bit w n \<or> n \<in> set ns \<and> n < 32" by (simp add: set_bits_of_def)
  have "bit (fold unset_bit ns w) n \<longleftrightarrow> bit w n \<and> n \<notin> set ns"
    by (induction ns arbitrary: w) (auto simp: bit_unset_bit_iff)
  then show "bit (clear_bits_of ns w) n \<longleftrightarrow> bit w n \<and> n \<notin> set ns" by (simp add: clear_bits_of_def)
qed

lemmas reg_defs = set_CR1_def clear_CR1_def set_CR3_def clear_CR3_def clear_flag_def

definition uart_configured :: "'x uart_env \<Rightarrow> bool" where
  "uart_configured e \<longleftrightarrow> \<not> bit (CR1 (UART4 e)) USART_CR1_PEIE \<and> \<not> bit (CR1 (UART4 e)) USART_CR1_RTOIE \<and>
     \<not> bit (CR3 (UART4 e)) USART_CR3_DMAR \<and> \<not> bit (CR3 (UART4 e)) USART_CR3_WUFIE \<and>
     \<not> bit (CR3 (UART4 e)) USART_CR3_TXFTIE \<and> \<not> bit (CR3 (UART4 e)) USART_CR3_RXFTIE \<and>
     \<not> bit (ISR (UART4 e)) USART_ISR_PE \<and> \<not> bit (ISR (UART4 e)) USART_ISR_RTOF"

definition rx_armed :: "'x uart_env \<Rightarrow> bool" where
  "rx_armed e \<longleftrightarrow> RxState (huart4 e) = HAL_UART_STATE_BUSY_RX \<and> RxISR (huart4 e) = UART_RxISR_8BIT \<and>
     RxXferCount (huart4 e) = 1 \<and> Mask (huart4 e) = 0xFF \<and>
     bit (CR1 (UART4 e)) USART_CR1_RXNEIE \<and> bit (CR3 (UART4 e)) USART_CR3_EIE"

text \<open>What reception leaves alone.\<close>

definition tx_view :: "'x uart_env \<Rightarrow> u8 list \<times> u16 \<times> tx_isr \<times> HAL_UART_StateTypeDef \<times> bool list \<times> u32 \<times> u8 option \<times> u8 list \<times> 'x" where
  "tx_view e = (pTxBuffPtr (huart4 e), TxXferCount (huart4 e), TxISR (huart4 e), gState (huart4 e),
     [bit (CR1 (UART4 e)) USART_CR1_TCIE, bit (CR1 (UART4 e)) USART_CR1_TXEIE, bit (ISR (UART4 e)) USART_ISR_TC,
      bit (ISR (UART4 e)) USART_ISR_TXE], TDR (UART4 e), shift_reg e, line_out e, rest e)"

definition rx_data :: "'x uart_env \<Rightarrow> u8" where
  "rx_data e = ucast (RDR (UART4 e) AND 0xFF)"

lemma receive_it_arms:
  assumes "RxState (huart4 e) = HAL_UART_STATE_READY" "uart_configured e"
  obtains e' where "hal_uart_receive_it 1 e = (HAL_OK, e')" "rx_armed e'" "uart_configured e'" "tx_view e' = tx_view e"
    "ISR (UART4 e') = ISR (UART4 e)" "ErrorCode (huart4 e') = 0"
proof -
  have "fst (hal_uart_receive_it 1 e) = HAL_OK" "rx_armed (snd (hal_uart_receive_it 1 e))" "uart_configured (snd (hal_uart_receive_it 1 e))"
    "tx_view (snd (hal_uart_receive_it 1 e)) = tx_view e" "ISR (UART4 (snd (hal_uart_receive_it 1 e))) = ISR (UART4 e)"
    "ErrorCode (huart4 (snd (hal_uart_receive_it 1 e))) = 0"
    using assms by (simp_all add: hal_uart_receive_it_def UART_Start_Receive_IT_def Let_def rx_armed_def uart_configured_def tx_view_def reg_defs)
  then show ?thesis using that by (metis prod.collapse)
qed

text \<open>The gateway's callbacks reach the driver only through \<open>env\<close>.\<close>

lemma env_app [simp]:
  "env (wake_rs422 f s) = env s" "env (rs422_rx_ring_push_from_isr b s) = env s" "env (count_uart_rx_error s) = env s"
  "(wake_rs422 f s)\<lparr>env := e\<rparr> = wake_rs422 f (s\<lparr>env := e\<rparr>)"
  "(rs422_rx_ring_push_from_isr b s)\<lparr>env := e\<rparr> = rs422_rx_ring_push_from_isr b (s\<lparr>env := e\<rparr>)"
  "(count_uart_rx_error s)\<lparr>env := e\<rparr> = count_uart_rx_error (s\<lparr>env := e\<rparr>)"
  by (simp_all add: wake_rs422_def rs422_rx_ring_push_from_isr_def count_uart_rx_error_def osThreadFlagsSet_def Let_def)

lemma ro_env: "s\<lparr>ro := x, env := e\<rparr> = s\<lparr>env := e, ro := x\<rparr>"
  by simp

text \<open>The effect of one received byte on the gateway.\<close>

definition uart_store :: "u8 \<Rightarrow> 'e gw \<Rightarrow> 'e gw" where
  "uart_store b s = wake_rs422 RS422_EVENT_RX (rs422_rx_ring_push_from_isr b (s\<lparr>ro := (ro s)\<lparr>g_uart4_rx_byte := b\<rparr>\<rparr>))"

definition uart_report :: "'e gw \<Rightarrow> 'e gw" where
  "uart_report s = wake_rs422 RS422_EVENT_RX (count_uart_rx_error s)"

lemma env_report [simp]:
  "env (uart_store b s) = env s" "env (uart_report s) = env s"
  "(uart_store b s)\<lparr>env := e\<rparr> = uart_store b (s\<lparr>env := e\<rparr>)" "(uart_report s)\<lparr>env := e\<rparr> = uart_report (s\<lparr>env := e\<rparr>)"
  by (simp_all add: uart_store_def uart_report_def ro_env)

lemma rx_complete_rearms:
  assumes "RxState (huart4 (env s)) = HAL_UART_STATE_READY" "uart_configured (env s)"
  obtains e where "GwRs422.HAL_UART_RxCpltCallback (uart_board hw) True s =
      wake_rs422 RS422_EVENT_RX (rs422_rx_ring_push_from_isr (g_uart4_rx_byte (ro s)) (s\<lparr>env := e\<rparr>))"
    "rx_armed e" "uart_configured e" "tx_view e = tx_view (env s)" "ISR (UART4 e) = ISR (UART4 (env s))"
    "ErrorCode (huart4 e) = 0"
proof -
  obtain e where "hal_uart_receive_it 1 (env s) = (HAL_OK, e)" "rx_armed e" "uart_configured e" "tx_view e = tx_view (env s)"
    "ISR (UART4 e) = ISR (UART4 (env s))" "ErrorCode (huart4 e) = 0" by (rule receive_it_arms [OF assms])
  then show ?thesis using that [of e] by (simp add: GwRs422.HAL_UART_RxCpltCallback_def uart_board_def)
qed

lemma rx_isr_stores:
  assumes armed: "rx_armed (env s)" and conf: "uart_configured (env s)"
  obtains e where "rx_isr_8bit (uart_board hw) s = uart_store (rx_data (env s)) (s\<lparr>env := e\<rparr>)" "rx_armed e" "uart_configured e"
    "tx_view e = tx_view (env s)" "ISR (UART4 e) = unset_bit USART_ISR_RXNE (ISR (UART4 (env s)))" "ErrorCode (huart4 e) = 0"
proof -
  define e1 where "e1 = snd (read_RDR (env s))"
  define e2 where "e2 = clear_CR3 [USART_CR3_EIE] (clear_CR1 [USART_CR1_RXNEIE, USART_CR1_PEIE]
    (e1\<lparr>huart4 := (huart4 e1)\<lparr>RxXferCount := RxXferCount (huart4 e1) - 1\<rparr>\<rparr>))"
  define e3 where "e3 = e2\<lparr>huart4 := (huart4 e2)\<lparr>RxState := HAL_UART_STATE_READY, RxISR := RxISR_NULL\<rparr>\<rparr>"
  define s1 where "s1 = s\<lparr>env := e3, ro := (ro s)\<lparr>g_uart4_rx_byte := rx_data (env s)\<rparr>\<rparr>"
  have e3: "RxState (huart4 (env s1)) = HAL_UART_STATE_READY" "uart_configured (env s1)" "tx_view (env s1) = tx_view (env s)"
    "ISR (UART4 (env s1)) = unset_bit USART_ISR_RXNE (ISR (UART4 (env s)))"
    using armed conf by (simp_all add: s1_def e3_def e2_def e1_def read_RDR_def rx_armed_def uart_configured_def tx_view_def reg_defs bit_unset_bit_iff)
  have "rx_isr_8bit (uart_board hw) s = GwRs422.HAL_UART_RxCpltCallback (uart_board hw) True s1"
    using armed by (simp add: rx_isr_8bit_def rx_armed_def read_RDR_def Let_def s1_def e3_def e2_def e1_def rx_data_def reg_defs ro_env)
  moreover obtain e where "GwRs422.HAL_UART_RxCpltCallback (uart_board hw) True s1 =
      wake_rs422 RS422_EVENT_RX (rs422_rx_ring_push_from_isr (g_uart4_rx_byte (ro s1)) (s1\<lparr>env := e\<rparr>))"
    "rx_armed e" "uart_configured e" "tx_view e = tx_view (env s1)" "ISR (UART4 e) = ISR (UART4 (env s1))" "ErrorCode (huart4 e) = 0"
    by (rule rx_complete_rearms [OF e3(1,2)])
  ultimately show ?thesis using that [of e] e3(3,4) by (simp add: uart_store_def s1_def ro_env)
qed

lemma error_callback:
  assumes "uart_configured (env s)" "rx_armed (env s) \<or> RxState (huart4 (env s)) = HAL_UART_STATE_READY"
  obtains e where "GwRs422.HAL_UART_ErrorCallback (uart_board hw) True s = uart_report (s\<lparr>env := e\<rparr>)" "rx_armed e"
    "uart_configured e" "tx_view e = tx_view (env s)" "ISR (UART4 e) = ISR (UART4 (env s))"
proof (cases "RxState (huart4 (env s)) = HAL_UART_STATE_READY")
  case True
  obtain e where "hal_uart_receive_it 1 (env s) = (HAL_OK, e)" "rx_armed e" "uart_configured e" "tx_view e = tx_view (env s)"
    "ISR (UART4 e) = ISR (UART4 (env s))" by (rule receive_it_arms [OF True assms(1)])
  then show ?thesis using that [of e] True by (simp add: GwRs422.HAL_UART_ErrorCallback_def uart_board_def uart_report_def)
next
  case False
  then show ?thesis using that [of "env s"] assms by (simp add: GwRs422.HAL_UART_ErrorCallback_def uart_board_def uart_report_def)
qed

lemma end_rx_ready:
  "RxState (huart4 (UART_EndRxTransfer e)) = HAL_UART_STATE_READY" "tx_view (UART_EndRxTransfer e) = tx_view e"
  "ISR (UART4 (UART_EndRxTransfer e)) = ISR (UART4 e)" "uart_configured e \<Longrightarrow> uart_configured (UART_EndRxTransfer e)"
  by (simp_all add: UART_EndRxTransfer_def Let_def reg_defs tx_view_def uart_configured_def)

lemma handle_errors_rearms:
  assumes armed: "rx_armed (env s)" and conf: "uart_configured (env s)" and err: "ErrorCode (huart4 (env s)) \<noteq> 0"
  obtains e where "handle_errors (uart_board hw) rxne s =
      uart_report (if rxne then uart_store (rx_data (env s)) (s\<lparr>env := e\<rparr>) else s\<lparr>env := e\<rparr>)"
    "rx_armed e" "uart_configured e" "tx_view e = tx_view (env s)"
    "ISR (UART4 e) = (if rxne then unset_bit USART_ISR_RXNE (ISR (UART4 (env s))) else ISR (UART4 (env s)))"
proof -
  define s1 where "s1 = (if rxne then call_RxISR (uart_board hw) s else s)"
  obtain e1 where s1: "s1 = (if rxne then uart_store (rx_data (env s)) (s\<lparr>env := e1\<rparr>) else s\<lparr>env := e1\<rparr>)" "rx_armed e1"
    "uart_configured e1" "tx_view e1 = tx_view (env s)"
    "ISR (UART4 e1) = (if rxne then unset_bit USART_ISR_RXNE (ISR (UART4 (env s))) else ISR (UART4 (env s)))"
  proof (cases rxne)
    case True
    have call: "call_RxISR (uart_board hw) s = rx_isr_8bit (uart_board hw) s" using armed by (simp add: call_RxISR_def rx_armed_def)
    obtain e where "rx_isr_8bit (uart_board hw) s = uart_store (rx_data (env s)) (s\<lparr>env := e\<rparr>)" "rx_armed e" "uart_configured e"
      "tx_view e = tx_view (env s)" "ISR (UART4 e) = unset_bit USART_ISR_RXNE (ISR (UART4 (env s)))"
      by (rule rx_isr_stores [OF armed conf])
    then show ?thesis using that [of e] True call by (simp add: s1_def)
  qed (use armed conf that [of "env s"] in \<open>simp add: s1_def\<close>)
  have env: "env s1 = e1" using s1(1) by (simp split: if_splits)
  show ?thesis
  proof (cases "ErrorCode (huart4 (env s1)) AND (HAL_UART_ERROR_RTO OR HAL_UART_ERROR_ORE) = 0")
    case True
    obtain e where cb: "GwRs422.HAL_UART_ErrorCallback (uart_board hw) True s1 = uart_report (s1\<lparr>env := e\<rparr>)" "rx_armed e"
      "uart_configured e" "tx_view e = tx_view (env s1)" "ISR (UART4 e) = ISR (UART4 (env s1))"
      by (rule error_callback [of s1]) (use s1 env in auto)
    define e' where "e' = e\<lparr>huart4 := (huart4 e)\<lparr>ErrorCode := 0\<rparr>\<rparr>"
    have "rx_armed e'" "uart_configured e'" "tx_view e' = tx_view e" "ISR (UART4 e') = ISR (UART4 e)"
      using cb(2,3) by (simp_all add: e'_def rx_armed_def uart_configured_def tx_view_def)
    moreover have "handle_errors (uart_board hw) rxne s = uart_report (s1\<lparr>env := e'\<rparr>)"
      using True err cb(1) by (simp add: handle_errors_def Let_def e'_def flip: s1_def)
    ultimately show ?thesis using that [of e'] cb s1 env by (simp split: if_splits)
  next
    case False
    define s2 where "s2 = s1\<lparr>env := UART_EndRxTransfer (env s1)\<rparr>"
    obtain e where cb: "GwRs422.HAL_UART_ErrorCallback (uart_board hw) True s2 = uart_report (s2\<lparr>env := e\<rparr>)" "rx_armed e"
      "uart_configured e" "tx_view e = tx_view (env s2)" "ISR (UART4 e) = ISR (UART4 (env s2))"
      by (rule error_callback [of s2]) (use s1 env in \<open>auto simp: s2_def end_rx_ready\<close>)
    moreover have "handle_errors (uart_board hw) rxne s = uart_report (s2\<lparr>env := e\<rparr>)"
      using False err cb(1) by (simp add: handle_errors_def Let_def s2_def flip: s1_def)
    ultimately show ?thesis using that [of e] s1 env by (simp add: s2_def end_rx_ready split: if_splits)
  qed
qed

definition line_error :: "'x uart_env \<Rightarrow> bool" where
  "line_error e \<longleftrightarrow> bit (ISR (UART4 e)) USART_ISR_FE \<or> bit (ISR (UART4 e)) USART_ISR_NE \<or> bit (ISR (UART4 e)) USART_ISR_ORE"

definition byte_waiting :: "'x uart_env \<Rightarrow> bool" where
  "byte_waiting e \<longleftrightarrow> bit (ISR (UART4 e)) USART_ISR_RXNE"

lemma or_not_zero: "(w :: u32) OR 2 \<noteq> 0" "w OR 4 \<noteq> 0" "w OR 8 \<noteq> 0"
  by (auto simp: or_eq_0_iff)

lemma note_errors_clears:
  assumes "rx_armed e" "uart_configured e"
  defines "e' \<equiv> note_errors (ISR (UART4 e)) (CR1 (UART4 e)) (CR3 (UART4 e)) e"
  shows "rx_armed e'" "uart_configured e'" "tx_view e' = tx_view e" "\<not> line_error e'" "byte_waiting e' = byte_waiting e"
    "rx_data e' = rx_data e" "line_error e \<Longrightarrow> ErrorCode (huart4 e') \<noteq> 0"
proof -
  have c: "bit (CR3 (UART4 e)) 0" "\<not> bit (CR1 (UART4 e)) 8" "\<not> bit (CR1 (UART4 e)) 26"
    using assms(1,2) by (simp_all add: rx_armed_def uart_configured_def)
  have step: "rx_armed (note_error b n k u) = rx_armed u" "rx_data (note_error b n k u) = rx_data u"
    "uart_configured u \<Longrightarrow> uart_configured (note_error b n k u)"
    "n \<noteq> 6 \<Longrightarrow> n \<noteq> 7 \<Longrightarrow> tx_view (note_error b n k u) = tx_view u" "n \<noteq> 5 \<Longrightarrow> byte_waiting (note_error b n k u) = byte_waiting u"
    for b n k and u :: "'a uart_env"
    by (simp_all add: note_error_def clear_flag_def Let_def rx_armed_def rx_data_def uart_configured_def tx_view_def byte_waiting_def bit_unset_bit_iff)
  show "rx_armed e'" "uart_configured e'" "tx_view e' = tx_view e" "byte_waiting e' = byte_waiting e" "rx_data e' = rx_data e"
    using assms(1,2) by (simp_all add: e'_def note_errors_def Let_def step)
  show "\<not> line_error e'" "line_error e \<Longrightarrow> ErrorCode (huart4 e') \<noteq> 0"
    using c by (auto simp: e'_def note_errors_def Let_def note_error_def clear_flag_def line_error_def bit_unset_bit_iff or_not_zero)
qed

lemma irq_receives:
  assumes armed: "rx_armed (env s)" and conf: "uart_configured (env s)" and pending: "byte_waiting (env s) \<or> line_error (env s)"
  obtains e where "UART4_IRQHandler hw s = (if line_error (env s) then uart_report else id)
      ((if byte_waiting (env s) then uart_store (rx_data (env s)) else id) (s\<lparr>env := e\<rparr>))"
    "rx_armed e" "uart_configured e" "tx_view e = tx_view (env s)" "\<not> byte_waiting e" "\<not> line_error e"
proof (cases "line_error (env s)")
  case False
  obtain e where e: "rx_isr_8bit (uart_board hw) s = uart_store (rx_data (env s)) (s\<lparr>env := e\<rparr>)" "rx_armed e" "uart_configured e"
    "tx_view e = tx_view (env s)" "ISR (UART4 e) = unset_bit USART_ISR_RXNE (ISR (UART4 (env s)))"
    by (rule rx_isr_stores [OF armed conf])
  have "UART4_IRQHandler hw s = rx_isr_8bit (uart_board hw) s"
    using False pending armed conf
    by (simp add: UART4_IRQHandler_def HAL_UART_IRQHandler_def Let_def line_error_def byte_waiting_def rx_armed_def uart_configured_def call_RxISR_def)
  then show ?thesis using that [of e] e False pending by (simp add: byte_waiting_def line_error_def bit_unset_bit_iff)
next
  case True
  define s1 where "s1 = s\<lparr>env := note_errors (ISR (UART4 (env s))) (CR1 (UART4 (env s))) (CR3 (UART4 (env s))) (env s)\<rparr>"
  note n = note_errors_clears [OF armed conf]
  obtain e where e: "handle_errors (uart_board hw) (byte_waiting (env s)) s1 =
      uart_report (if byte_waiting (env s) then uart_store (rx_data (env s1)) (s1\<lparr>env := e\<rparr>) else s1\<lparr>env := e\<rparr>)"
    "rx_armed e" "uart_configured e" "tx_view e = tx_view (env s1)"
    "ISR (UART4 e) = (if byte_waiting (env s) then unset_bit USART_ISR_RXNE (ISR (UART4 (env s1))) else ISR (UART4 (env s1)))"
    by (rule handle_errors_rearms [of s1 hw "byte_waiting (env s)"]) (use n True in \<open>simp_all add: s1_def\<close>)
  have "UART4_IRQHandler hw s = handle_errors (uart_board hw) (byte_waiting (env s)) s1"
    using True armed conf
    by (auto simp: UART4_IRQHandler_def HAL_UART_IRQHandler_def Let_def line_error_def byte_waiting_def rx_armed_def uart_configured_def s1_def)
  then show ?thesis using that [of e] e n True
    by (simp add: s1_def byte_waiting_def line_error_def bit_unset_bit_iff split: if_splits)
qed

end
