(* ===== verification/GwUartLine.thy ===== *)
theory GwUartLine
  imports GwUart
begin

text \<open>
  The UART driver and its peripheral seen from the line: arriving bytes, departing bytes and
  interrupts in any order. The driver with its registers refines \<open>line_view\<close>: a slot for a received
  byte with a note of errors, and the way of a frame through the holding and shift registers.
\<close>

datatype line_event = Arrive u8 bool bool | Load | Shift | Irq

definition line_step :: "'x uart_env hw \<Rightarrow> line_event \<Rightarrow> 'x uart_env gw \<Rightarrow> 'x uart_env gw" where
  "line_step hw ev s = (case ev of
       Arrive b frame_error noise \<Rightarrow> s\<lparr>env := byte_arrives b frame_error noise (env s)\<rparr>
     | Load \<Rightarrow> s\<lparr>env := tx_load (env s)\<rparr>
     | Shift \<Rightarrow> s\<lparr>env := tx_shifted (env s)\<rparr>
     | Irq \<Rightarrow> UART4_IRQHandler hw s)"

subsection \<open>The abstract line\<close>

datatype tx_phase = Idle | Sending "u8 list" | Draining

record line_view =
  ln_slot :: "u8 option"
  ln_noted :: bool
  ln_phase :: tx_phase
  ln_hold :: "u8 option"
  ln_shift :: "u8 option"
  ln_out :: "u8 list"

definition rx_event :: "line_view \<Rightarrow> bool" where
  "rx_event v \<longleftrightarrow> ln_noted v \<or> ln_slot v \<noteq> None"

definition tx_end :: "line_view \<Rightarrow> bool" where
  "tx_end v \<longleftrightarrow> ln_phase v = Draining \<and> ln_hold v = None \<and> ln_shift v = None"

definition view_irq :: "line_view \<Rightarrow> line_view" where
  "view_irq v =
     (if rx_event v then v\<lparr>ln_slot := None, ln_noted := False\<rparr>
      else if ln_hold v \<noteq> None then v
      else case ln_phase v of
          Sending [] \<Rightarrow> v\<lparr>ln_phase := Draining\<rparr>
        | Sending (b # bs) \<Rightarrow> v\<lparr>ln_phase := Sending bs, ln_hold := Some b\<rparr>
        | Draining \<Rightarrow> if tx_end v then v\<lparr>ln_phase := Idle\<rparr> else v
        | Idle \<Rightarrow> v)"

definition view_step :: "line_event \<Rightarrow> line_view \<Rightarrow> line_view" where
  "view_step ev v = (case ev of
       Arrive b frame_error noise \<Rightarrow>
         v\<lparr>ln_slot := (case ln_slot v of None \<Rightarrow> Some b | Some c \<Rightarrow> Some c),
           ln_noted := ln_noted v \<or> frame_error \<or> noise \<or> ln_slot v \<noteq> None\<rparr>
     | Load \<Rightarrow> if ln_shift v = None then v\<lparr>ln_shift := ln_hold v, ln_hold := None\<rparr> else v
     | Shift \<Rightarrow> (case ln_shift v of None \<Rightarrow> v | Some b \<Rightarrow> v\<lparr>ln_shift := None, ln_out := ln_out v @ [b]\<rparr>)
     | Irq \<Rightarrow> view_irq v)"

text \<open>What an interrupt does to the gateway.\<close>

definition irq_effect :: "line_view \<Rightarrow> 'e gw \<Rightarrow> 'e gw" where
  "irq_effect v s =
     (if rx_event v
      then (if ln_noted v then uart_report else id) (case ln_slot v of None \<Rightarrow> s | Some b \<Rightarrow> uart_store b s)
      else if tx_end v then HAL_UART_TxCpltCallback True s else s)"

definition view_effect :: "line_event \<Rightarrow> line_view \<Rightarrow> 'e gw \<Rightarrow> 'e gw" where
  "view_effect ev v s = (if ev = Irq then irq_effect v s else s)"

fun line_run :: "line_event list \<Rightarrow> line_view \<times> 'e gw \<Rightarrow> line_view \<times> 'e gw" where
  "line_run [] (v, s) = (v, s)"
| "line_run (ev # evs) (v, s) = line_run evs (view_step ev v, view_effect ev v s)"

subsection \<open>Refinement\<close>

definition tx_phase_of :: "'x uart_env \<Rightarrow> tx_phase" where
  "tx_phase_of e =
     (if gState (huart4 e) = HAL_UART_STATE_BUSY_TX
      then if bit (CR1 (UART4 e)) USART_CR1_TXEIE then Sending (pTxBuffPtr (huart4 e)) else Draining
      else Idle)"

definition view_of :: "'x uart_env \<Rightarrow> line_view" where
  "view_of e = \<lparr>ln_slot = (if byte_waiting e then Some (rx_data e) else None), ln_noted = line_error e,
     ln_phase = tx_phase_of e, ln_hold = (if bit (ISR (UART4 e)) USART_ISR_TXE then None else Some (ucast (TDR (UART4 e)))),
     ln_shift = shift_reg e, ln_out = line_out e\<rparr>"

definition tx_ok :: "'x uart_env \<Rightarrow> bool" where
  "tx_ok e \<longleftrightarrow> (bit (ISR (UART4 e)) USART_ISR_TC \<longleftrightarrow> shift_reg e = None \<and> bit (ISR (UART4 e)) USART_ISR_TXE) \<and>
     (case tx_phase_of e of
        Idle \<Rightarrow> gState (huart4 e) = HAL_UART_STATE_READY \<and> \<not> bit (CR1 (UART4 e)) USART_CR1_TXEIE \<and>
          \<not> bit (CR1 (UART4 e)) USART_CR1_TCIE \<and> shift_reg e = None \<and> bit (ISR (UART4 e)) USART_ISR_TXE
      | Sending bs \<Rightarrow> TxISR (huart4 e) = UART_TxISR_8BIT \<and> \<not> bit (CR1 (UART4 e)) USART_CR1_TCIE \<and>
          TxXferCount (huart4 e) = of_nat (length bs) \<and> length bs < 2 ^ 16
      | Draining \<Rightarrow> bit (CR1 (UART4 e)) USART_CR1_TCIE \<and> bit (ISR (UART4 e)) USART_ISR_TXE)"

definition uart_inv :: "'x uart_env \<Rightarrow> bool" where
  "uart_inv e \<longleftrightarrow> rx_armed e \<and> uart_configured e \<and> tx_ok e"

lemma tx_view_eq:
  assumes "tx_view e = tx_view e'"
  shows "tx_ok e = tx_ok e'" "ln_phase (view_of e) = ln_phase (view_of e')" "ln_hold (view_of e) = ln_hold (view_of e')"
    "ln_shift (view_of e) = ln_shift (view_of e')" "ln_out (view_of e) = ln_out (view_of e')"
  using assms by (simp_all add: tx_ok_def tx_phase_of_def view_of_def tx_view_def)

lemma view_of_simps [simp]:
  "ln_slot (view_of e) = (if byte_waiting e then Some (rx_data e) else None)" "ln_noted (view_of e) = line_error e"
  by (simp_all add: view_of_def)

text \<open>Reception keeps the transmitter, so the view after it is the old one but for the slot.\<close>

lemma view_of_rx:
  assumes "tx_view e' = tx_view e"
  shows "view_of e' = (view_of e)\<lparr>ln_slot := ln_slot (view_of e'), ln_noted := ln_noted (view_of e')\<rparr>"
  using tx_view_eq [OF assms] by (intro line_view.equality) simp_all

lemma rx_byte_mask: "ucast (ucast (b :: u8) AND (0xFF :: u32)) = b"
proof -
  have "(0xFF :: u32) = mask 8" by (simp add: mask_eq_exp_minus_1)
  then show ?thesis by (simp only:) (intro bit_word_eqI, auto simp: bit_simps)
qed

lemma tx_byte_cast [simp]: "ucast (ucast (b :: u8) :: u32) = b"
  by (intro bit_word_eqI) (auto simp: bit_simps)

lemma arrive_refines:
  assumes "uart_inv e"
  shows "uart_inv (byte_arrives b f n e)" "view_of (byte_arrives b f n e) = view_step (Arrive b f n) (view_of e)"
proof -
  have tx: "tx_view (byte_arrives b f n e) = tx_view e"
    by (simp add: byte_arrives_def Let_def tx_view_def bit_set_bit_iff)
  have rx: "rx_armed (byte_arrives b f n e)" "uart_configured (byte_arrives b f n e)"
    using assms by (auto simp: uart_inv_def byte_arrives_def Let_def rx_armed_def uart_configured_def bit_set_bit_iff)
  have slot: "byte_waiting (byte_arrives b f n e)" "rx_data (byte_arrives b f n e) = (if byte_waiting e then rx_data e else b)"
    "line_error (byte_arrives b f n e) \<longleftrightarrow> line_error e \<or> f \<or> n \<or> byte_waiting e"
    by (auto simp: byte_arrives_def Let_def byte_waiting_def rx_data_def line_error_def bit_set_bit_iff rx_byte_mask)
  show "uart_inv (byte_arrives b f n e)" using assms rx tx_view_eq(1) [OF tx] by (simp add: uart_inv_def)
  show "view_of (byte_arrives b f n e) = view_step (Arrive b f n) (view_of e)"
    using slot by (subst view_of_rx [OF tx]) (simp add: view_step_def)
qed

lemma load_refines:
  assumes "uart_inv e"
  shows "uart_inv (tx_load e)" "view_of (tx_load e) = view_step Load (view_of e)"
  using assms
  by (auto simp: uart_inv_def tx_load_def rx_armed_def uart_configured_def tx_ok_def tx_phase_of_def view_of_def view_step_def
      byte_waiting_def rx_data_def line_error_def bit_set_bit_iff split: if_splits)

lemma shift_refines:
  assumes "uart_inv e"
  shows "uart_inv (tx_shifted e)" "view_of (tx_shifted e) = view_step Shift (view_of e)"
  using assms
  by (auto simp: uart_inv_def tx_shifted_def Let_def rx_armed_def uart_configured_def tx_ok_def tx_phase_of_def view_of_def view_step_def
      byte_waiting_def rx_data_def line_error_def bit_set_bit_iff split: if_splits option.splits)

text \<open>With nothing received, an interrupt serves the transmitter.\<close>

lemma irq_transmits:
  assumes "uart_configured (env s)" "\<not> byte_waiting (env s)" "\<not> line_error (env s)"
  shows "UART4_IRQHandler hw s =
    (if bit (ISR (UART4 (env s))) USART_ISR_TXE \<and> bit (CR1 (UART4 (env s))) USART_CR1_TXEIE
     then (case TxISR (huart4 (env s)) of TxISR_NULL \<Rightarrow> s | UART_TxISR_8BIT \<Rightarrow> s\<lparr>env := tx_isr_8bit (env s)\<rparr>)
     else if bit (ISR (UART4 (env s))) USART_ISR_TC \<and> bit (CR1 (UART4 (env s))) USART_CR1_TCIE then UART_EndTransmit_IT s else s)"
  using assms by (simp add: UART4_IRQHandler_def HAL_UART_IRQHandler_def Let_def uart_configured_def byte_waiting_def line_error_def)

lemma tx_isr_refines:
  assumes inv: "uart_inv e" and quiet: "\<not> byte_waiting e" "\<not> line_error e"
    and ph: "tx_phase_of e = Sending bs" and empty: "bit (ISR (UART4 e)) USART_ISR_TXE"
  shows "uart_inv (tx_isr_8bit e)" "view_of (tx_isr_8bit e) = view_irq (view_of e)"
proof -
  have st: "gState (huart4 e) = HAL_UART_STATE_BUSY_TX" "bit (CR1 (UART4 e)) USART_CR1_TXEIE" "pTxBuffPtr (huart4 e) = bs"
    using ph by (auto simp: tx_phase_of_def split: if_splits)
  have tx: "TxISR (huart4 e) = UART_TxISR_8BIT" "\<not> bit (CR1 (UART4 e)) USART_CR1_TCIE"
    "TxXferCount (huart4 e) = of_nat (length bs)" "length bs < 2 ^ 16"
    "bit (ISR (UART4 e)) USART_ISR_TC \<longleftrightarrow> shift_reg e = None"
    using inv ph empty by (auto simp: uart_inv_def tx_ok_def)
  have "of_nat (length bs) = (0 :: u16) \<longleftrightarrow> bs = []"
    using tx(4) nat_dvd_not_less [of "length bs" "2 ^ 16"] by (auto simp: word_of_nat_eq_0_iff)
  then have "uart_inv (tx_isr_8bit e) \<and> view_of (tx_isr_8bit e) = view_irq (view_of e)"
    using inv quiet ph st tx empty by (cases bs) (auto simp: tx_isr_8bit_def write_TDR_def reg_defs Let_def uart_inv_def rx_armed_def uart_configured_def tx_ok_def
      tx_phase_of_def view_of_def view_irq_def rx_event_def byte_waiting_def line_error_def rx_data_def bit_unset_bit_iff)
  then show "uart_inv (tx_isr_8bit e)" "view_of (tx_isr_8bit e) = view_irq (view_of e)" by auto
qed

lemma end_transmit_refines:
  assumes inv: "uart_inv (env s)" and quiet: "\<not> byte_waiting (env s)" "\<not> line_error (env s)"
    and ph: "tx_phase_of (env s) = Draining" and sent: "bit (ISR (UART4 (env s))) USART_ISR_TC"
  shows "uart_inv (env (UART_EndTransmit_IT s))" "view_of (env (UART_EndTransmit_IT s)) = view_irq (view_of (env s))"
    "UART_EndTransmit_IT s = HAL_UART_TxCpltCallback True (s\<lparr>env := env (UART_EndTransmit_IT s)\<rparr>)"
proof -
  define e where "e = (clear_CR1 [USART_CR1_TCIE] (env s))
    \<lparr>huart4 := (huart4 (clear_CR1 [USART_CR1_TCIE] (env s)))\<lparr>gState := HAL_UART_STATE_READY, TxISR := TxISR_NULL\<rparr>\<rparr>"
  have run: "UART_EndTransmit_IT s = HAL_UART_TxCpltCallback True (s\<lparr>env := e\<rparr>)"
    by (simp add: UART_EndTransmit_IT_def e_def Let_def)
  then have env: "env (UART_EndTransmit_IT s) = e" by (simp add: HAL_UART_TxCpltCallback_def)
  have "uart_inv e" "view_of e = view_irq (view_of (env s))"
    using inv quiet ph sent
    by (auto simp: e_def reg_defs uart_inv_def rx_armed_def uart_configured_def tx_ok_def tx_phase_of_def view_of_def view_irq_def
        rx_event_def tx_end_def byte_waiting_def line_error_def rx_data_def split: if_splits)
  then show "uart_inv (env (UART_EndTransmit_IT s))" "view_of (env (UART_EndTransmit_IT s)) = view_irq (view_of (env s))"
    "UART_EndTransmit_IT s = HAL_UART_TxCpltCallback True (s\<lparr>env := env (UART_EndTransmit_IT s)\<rparr>)"
    using env run by simp_all
qed

lemma irq_rx_refines:
  assumes inv: "uart_inv (env s)" and ev: "rx_event (view_of (env s))"
  shows "uart_inv (env (UART4_IRQHandler hw s)) \<and> view_of (env (UART4_IRQHandler hw s)) = view_irq (view_of (env s)) \<and>
    UART4_IRQHandler hw s = irq_effect (view_of (env s)) (s\<lparr>env := env (UART4_IRQHandler hw s)\<rparr>)"
proof -
  obtain e where e: "UART4_IRQHandler hw s = (if line_error (env s) then uart_report else id)
      ((if byte_waiting (env s) then uart_store (rx_data (env s)) else id) (s\<lparr>env := e\<rparr>))"
    "rx_armed e" "uart_configured e" "tx_view e = tx_view (env s)" "\<not> byte_waiting e" "\<not> line_error e"
    by (rule irq_receives [of s hw]) (use inv ev in \<open>auto simp: uart_inv_def rx_event_def split: if_splits\<close>)
  have env: "env (UART4_IRQHandler hw s) = e" by (simp add: e(1))
  have "view_of e = view_irq (view_of (env s))"
    using e(5,6) ev by (subst view_of_rx [OF e(4)]) (simp add: view_irq_def)
  moreover have "uart_inv e" using inv e(2,3) tx_view_eq(1) [OF e(4)] by (simp add: uart_inv_def)
  ultimately show ?thesis using ev by (simp add: env) (simp add: e(1) irq_effect_def)
qed

lemma irq_tx_refines:
  assumes inv: "uart_inv (env s)" and ev: "\<not> rx_event (view_of (env s))"
  shows "uart_inv (env (UART4_IRQHandler hw s)) \<and> view_of (env (UART4_IRQHandler hw s)) = view_irq (view_of (env s)) \<and>
    UART4_IRQHandler hw s = irq_effect (view_of (env s)) (s\<lparr>env := env (UART4_IRQHandler hw s)\<rparr>)"
proof -
  have quiet: "\<not> byte_waiting (env s)" "\<not> line_error (env s)" using ev by (auto simp: rx_event_def split: if_splits)
  have conf: "uart_configured (env s)" using inv by (simp add: uart_inv_def)
  note run = irq_transmits [OF conf quiet, of hw]
  show ?thesis
  proof (cases "tx_phase_of (env s)")
    case Idle
    then have "UART4_IRQHandler hw s = s" using inv by (simp add: run uart_inv_def tx_ok_def)
    then show ?thesis using inv ev Idle by (simp add: view_irq_def irq_effect_def tx_end_def view_of_def)
  next
    case (Sending bs)
    have "TxISR (huart4 (env s)) = UART_TxISR_8BIT" "bit (CR1 (UART4 (env s))) USART_CR1_TXEIE" "\<not> bit (CR1 (UART4 (env s))) USART_CR1_TCIE"
      using inv Sending by (auto simp: uart_inv_def tx_ok_def tx_phase_of_def split: if_splits)
    then show ?thesis using tx_isr_refines [OF inv quiet Sending] inv ev Sending
      by (auto simp: run irq_effect_def tx_end_def view_irq_def view_of_def split: if_splits)
  next
    case Draining
    then have d: "bit (CR1 (UART4 (env s))) USART_CR1_TCIE" "\<not> bit (CR1 (UART4 (env s))) USART_CR1_TXEIE"
      "bit (ISR (UART4 (env s))) USART_ISR_TXE" "bit (ISR (UART4 (env s))) USART_ISR_TC \<longleftrightarrow> shift_reg (env s) = None"
      using inv by (auto simp: uart_inv_def tx_ok_def tx_phase_of_def split: if_splits)
    then show ?thesis using end_transmit_refines [OF inv quiet Draining] inv ev Draining
      by (auto simp: run irq_effect_def tx_end_def view_irq_def view_of_def split: if_splits)
  qed
qed

lemma line_step_refines:
  assumes "uart_inv (env s)"
  shows "uart_inv (env (line_step hw ev s)) \<and> view_of (env (line_step hw ev s)) = view_step ev (view_of (env s)) \<and>
    line_step hw ev s = view_effect ev (view_of (env s)) (s\<lparr>env := env (line_step hw ev s)\<rparr>)"
proof (cases ev)
  case Irq
  then show ?thesis using irq_rx_refines [OF assms, of hw] irq_tx_refines [OF assms, of hw]
    by (cases "rx_event (view_of (env s))") (simp_all add: line_step_def view_step_def view_effect_def)
qed (use assms in \<open>simp_all add: line_step_def view_effect_def arrive_refines load_refines shift_refines\<close>)

lemma env_effect [simp]:
  "(view_effect ev v s)\<lparr>env := x\<rparr> = view_effect ev v (s\<lparr>env := x\<rparr>)" "env (view_effect ev v s) = env s"
  by (simp_all add: view_effect_def irq_effect_def HAL_UART_TxCpltCallback_def split: option.split)

lemma line_run_refines:
  "uart_inv (env s) \<Longrightarrow> uart_inv (env (fold (line_step hw) evs s)) \<and>
    line_run evs (view_of (env s), s\<lparr>env := x\<rparr>) = (view_of (env (fold (line_step hw) evs s)), (fold (line_step hw) evs s)\<lparr>env := x\<rparr>)"
proof (induction evs arbitrary: s)
  case (Cons ev evs)
  note step = line_step_refines [OF Cons.prems, of hw ev]
  then have eq: "line_step hw ev s = view_effect ev (view_of (env s)) (s\<lparr>env := env (line_step hw ev s)\<rparr>)" by blast
  have "(line_step hw ev s)\<lparr>env := x\<rparr> = view_effect ev (view_of (env s)) (s\<lparr>env := x\<rparr>)"
    using arg_cong [OF eq, of "\<lambda>t. t\<lparr>env := x\<rparr>"] by simp
  then show ?case using Cons.IH [of "line_step hw ev s"] step by simp
qed simp

subsection \<open>The way of a frame\<close>

definition unsent :: "line_view \<Rightarrow> u8 list" where
  "unsent v = (case ln_shift v of None \<Rightarrow> [] | Some b \<Rightarrow> [b]) @ (case ln_hold v of None \<Rightarrow> [] | Some b \<Rightarrow> [b]) @
     (case ln_phase v of Sending bs \<Rightarrow> bs | _ \<Rightarrow> [])"

definition view_ok :: "line_view \<Rightarrow> bool" where
  "view_ok v \<longleftrightarrow> (ln_phase v = Idle \<longrightarrow> ln_hold v = None \<and> ln_shift v = None) \<and> (ln_phase v = Draining \<longrightarrow> ln_hold v = None)"

lemma inv_view_ok: "uart_inv e \<Longrightarrow> view_ok (view_of e)"
  by (auto simp: uart_inv_def tx_ok_def view_ok_def view_of_def)

lemma unsent_idle: "view_ok v \<Longrightarrow> ln_phase v = Idle \<Longrightarrow> unsent v = []"
  by (simp add: view_ok_def unsent_def)

text \<open>No step loses, repeats or reorders a byte, and none but the last interrupt reports the end.\<close>

lemma view_step_bytes:
  assumes "view_ok v"
  shows "view_ok (view_step ev v)" "ln_out (view_step ev v) @ unsent (view_step ev v) = ln_out v @ unsent v"
    "ln_phase v = Idle \<Longrightarrow> ln_phase (view_step ev v) = Idle"
    "ln_phase v \<noteq> Idle \<Longrightarrow> ln_phase (view_step ev v) = Idle \<longleftrightarrow> ev = Irq \<and> \<not> rx_event v \<and> tx_end v"
  using assms
  by (auto simp: view_step_def view_irq_def view_ok_def unsent_def tx_end_def
      split: line_event.splits option.splits tx_phase.splits list.splits)

fun tx_reports :: "line_event list \<Rightarrow> line_view \<Rightarrow> nat" where
  "tx_reports [] v = 0"
| "tx_reports (ev # evs) v = (if ev = Irq \<and> \<not> rx_event v \<and> tx_end v then 1 else 0) + tx_reports evs (view_step ev v)"

lemma fst_line_run: "fst (line_run evs (v, s)) = fold view_step evs v"
  by (induction evs arbitrary: v s) simp_all

lemma view_run_bytes:
  "view_ok v \<Longrightarrow> view_ok (fold view_step evs v) \<and>
    ln_out (fold view_step evs v) @ unsent (fold view_step evs v) = ln_out v @ unsent v \<and>
    tx_reports evs v = (if ln_phase v \<noteq> Idle \<and> ln_phase (fold view_step evs v) = Idle then 1 else 0) \<and>
    (ln_phase v = Idle \<longrightarrow> ln_phase (fold view_step evs v) = Idle)"
proof (induction evs arbitrary: v)
  case (Cons ev evs)
  note step = view_step_bytes [OF Cons.prems, of ev]
  have "ln_phase v = Idle \<Longrightarrow> \<not> tx_end v" by (simp add: tx_end_def)
  then show ?case using Cons.IH [OF step(1)] step by auto
qed simp

text \<open>A round of the line: bytes may arrive, then the interrupts are served and a byte can leave.\<close>

definition tx_work :: "line_view \<Rightarrow> nat" where
  "tx_work v = (case ln_phase v of Sending bs \<Rightarrow> 3 * length bs + 2 | Draining \<Rightarrow> 1 | Idle \<Rightarrow> 0) +
     (if ln_hold v = None then 0 else 2) + (if ln_shift v = None then 0 else 1)"

definition line_round :: "(u8 \<times> bool \<times> bool) list \<Rightarrow> line_event list" where
  "line_round as = map (\<lambda>(b, f, n). Arrive b f n) as @ [Irq, Irq, Load, Shift]"

lemma arrivals_work: "tx_work (fold view_step (map (\<lambda>(b, f, n). Arrive b f n) as) v) = tx_work v"
proof (induction as arbitrary: v)
  case (Cons a as)
  then show ?case by (cases a) (simp add: view_step_def tx_work_def)
qed simp

lemma step_work: "tx_work (view_step ev v) \<le> tx_work v"
proof (cases ev)
  case Irq
  then show ?thesis by (auto simp: view_step_def view_irq_def tx_work_def tx_end_def split: tx_phase.splits list.splits)
qed (auto simp: view_step_def tx_work_def split: option.splits)

lemma step_progress:
  "ln_shift v \<noteq> None \<Longrightarrow> tx_work (view_step Shift v) < tx_work v"
  "ln_shift v = None \<Longrightarrow> ln_hold v \<noteq> None \<Longrightarrow> tx_work (view_step Load v) < tx_work v"
  "ln_shift v = None \<Longrightarrow> ln_hold v = None \<Longrightarrow> \<not> rx_event v \<Longrightarrow> 0 < tx_work v \<Longrightarrow> tx_work (view_step Irq v) < tx_work v"
  by (auto simp: view_step_def view_irq_def tx_work_def tx_end_def split: tx_phase.splits list.splits)

lemma step_keeps:
  "ln_shift (view_step Irq v) = ln_shift v" "ln_hold v \<noteq> None \<Longrightarrow> ln_hold (view_step Irq v) = ln_hold v"
  "ln_shift v \<noteq> None \<Longrightarrow> ln_shift (view_step Load v) = ln_shift v" "rx_event v \<Longrightarrow> \<not> rx_event (view_step Irq v)"
  by (auto simp: view_step_def view_irq_def tx_end_def rx_event_def split: tx_phase.splits list.splits)

lemma quiet_work:
  assumes "\<not> rx_event v" "0 < tx_work v"
  shows "tx_work (view_step Shift (view_step Load (view_step Irq v))) < tx_work v"
proof -
  define v1 v2 where "v1 = view_step Irq v" and "v2 = view_step Load v1"
  have le: "tx_work (view_step Shift v2) \<le> tx_work v2" "tx_work v2 \<le> tx_work v1" "tx_work v1 \<le> tx_work v"
    by (simp_all add: v1_def v2_def step_work)
  have "tx_work (view_step Shift v2) < tx_work v2 \<or> tx_work v2 < tx_work v1 \<or> tx_work v1 < tx_work v"
    using step_progress(1) [of v2] step_progress(2) [of v1] step_progress(3) [of v] assms
    by (cases "ln_shift v = None"; cases "ln_hold v = None") (auto simp: v1_def v2_def step_keeps)
  then show ?thesis using le by (auto simp: v1_def v2_def)
qed

lemma serve_le:
  "tx_work (view_step Shift (view_step Load (view_step Irq v))) \<le> tx_work v"
  "tx_work (view_step Shift (view_step Load (view_step Irq (view_step Irq v)))) \<le> tx_work v"
  by (intro order_trans [OF step_work] order_refl)+

lemma serve_work:
  assumes "0 < tx_work v"
  shows "tx_work (view_step Shift (view_step Load (view_step Irq (view_step Irq v)))) < tx_work v"
proof -
  define u where "u = view_step Irq v"
  have u: "tx_work u \<le> tx_work v" by (simp add: u_def step_work)
  note le = serve_le [of u]
  show ?thesis
  proof (cases "rx_event v")
    case True
    then have "\<not> rx_event u" by (simp add: u_def step_keeps)
    then show ?thesis using quiet_work [of u] u le assms by (fold u_def) linarith
  next
    case False
    have "tx_work (view_step Shift (view_step Load (view_step Irq u))) < tx_work v"
    proof (cases "rx_event u")
      case True
      with False show ?thesis
        by (auto simp: u_def view_step_def view_irq_def rx_event_def tx_end_def split: if_splits tx_phase.splits list.splits)
    next
      case F: False
      then show ?thesis using quiet_work [of u] u le assms by linarith
    qed
    then show ?thesis by (simp add: u_def)
  qed
qed

lemma rounds_work:
  "view_ok v \<Longrightarrow> tx_work (fold view_step (concat (map line_round rounds)) v) \<le> tx_work v - length rounds"
proof (induction rounds arbitrary: v)
  case (Cons r rounds)
  define v' where "v' = fold view_step (line_round r) v"
  define w where "w = fold view_step (map (\<lambda>(b, f, n). Arrive b f n) r) v"
  have w: "tx_work w = tx_work v" "view_ok w" using Cons.prems by (simp_all add: w_def arrivals_work view_run_bytes)
  have ok: "view_ok v'" using Cons.prems by (simp add: v'_def view_run_bytes)
  have "v' = view_step Shift (view_step Load (view_step Irq (view_step Irq w)))"
    by (simp add: v'_def line_round_def w_def)
  then have "tx_work v' \<le> tx_work v - 1" using serve_work [of w] w(1) serve_le [of w] by (cases "0 < tx_work w") auto
  then show ?case using Cons.IH [OF ok] by (simp add: v'_def)
qed simp

lemma work_idle: "tx_work v = 0 \<Longrightarrow> ln_phase v = Idle"
  by (simp add: tx_work_def split: tx_phase.splits)

lemma transmit_starts:
  assumes inv: "uart_inv e" and ready: "gState (huart4 e) = HAL_UART_STATE_READY" and n: "bs \<noteq> []" "length bs < 2 ^ 16"
  obtains e' where "hal_uart_transmit_it bs e = (HAL_OK, e')" "uart_inv e'" "view_of e' = (view_of e)\<lparr>ln_phase := Sending bs\<rparr>"
proof -
  have count: "of_nat (length bs) \<noteq> (0 :: u16)" using n nat_dvd_not_less [of "length bs" "2 ^ 16"] by (auto simp: word_of_nat_eq_0_iff)
  have "fst (hal_uart_transmit_it bs e) = HAL_OK" "uart_inv (snd (hal_uart_transmit_it bs e))"
    "view_of (snd (hal_uart_transmit_it bs e)) = (view_of e)\<lparr>ln_phase := Sending bs\<rparr>"
    using inv ready n count
    by (auto simp: hal_uart_transmit_it_def Let_def uart_inv_def rx_armed_def uart_configured_def tx_ok_def tx_phase_of_def view_of_def
        byte_waiting_def rx_data_def line_error_def reg_defs)
  then show ?thesis using that by (metis prod.collapse)
qed

lemma transmit_refused: "gState (huart4 e) \<noteq> HAL_UART_STATE_READY \<Longrightarrow> hal_uart_transmit_it bs e = (HAL_BUSY, e)"
  by (simp add: hal_uart_transmit_it_def)

lemma ready_idle: "uart_inv e \<Longrightarrow> gState (huart4 e) = HAL_UART_STATE_READY \<longleftrightarrow> ln_phase (view_of e) = Idle"
  by (auto simp: uart_inv_def tx_ok_def view_of_def tx_phase_of_def split: if_splits)

text \<open>The peripheral after its initialisation, and once the gateway has started to receive.\<close>

definition uart_reset :: "'x \<Rightarrow> 'x uart_env" where
  "uart_reset x = \<lparr>huart4 = \<lparr>pTxBuffPtr = [], TxXferSize = 0, TxXferCount = 0, RxXferSize = 0, RxXferCount = 0, Mask = 0,
     RxISR = RxISR_NULL, TxISR = TxISR_NULL, gState = HAL_UART_STATE_READY, RxState = HAL_UART_STATE_READY, ErrorCode = 0\<rparr>,
     UART4 = \<lparr>CR1 = 0x0D, CR3 = 0, ISR = 0xC0, RDR = 0, TDR = 0\<rparr>, shift_reg = None, line_out = [], rest = x\<rparr>"

definition uart_boot :: "'x \<Rightarrow> 'x uart_env" where
  "uart_boot x = snd (hal_uart_receive_it 1 (uart_reset x))"

lemma reset_bits: "bit (0x0D :: u32) n \<longleftrightarrow> n \<in> {0, 2, 3}" "bit (0xC0 :: u32) n \<longleftrightarrow> n \<in> {6, 7}"
  by (auto simp: bit_numeral_rec numeral_eq_Suc less_Suc_eq elim!: lessE split: nat.split)

lemma uart_boot_inv: "uart_inv (uart_boot x)" "gState (huart4 (uart_boot x)) = HAL_UART_STATE_READY" "line_out (uart_boot x) = []"
  "\<not> byte_waiting (uart_boot x)" "\<not> line_error (uart_boot x)"
  by (simp_all add: uart_boot_def uart_reset_def hal_uart_receive_it_def UART_Start_Receive_IT_def Let_def uart_inv_def rx_armed_def
      uart_configured_def tx_ok_def tx_phase_of_def byte_waiting_def line_error_def reg_defs reset_bits)

text \<open>The simulated chip beside this UART, for the concrete instances.\<close>

definition line_hw :: "sim uart_env hw" where
  "line_hw = uart_board \<lparr>HAL_GPIO_WritePin = (\<lambda>p b e. e\<lparr>rest := HAL_GPIO_WritePin sim_hw p b (rest e)\<rparr>),
     HAL_SPI_TransmitReceive = (\<lambda>tx t e. let (st, rx, c) = HAL_SPI_TransmitReceive sim_hw tx t (rest e) in (st, rx, e\<lparr>rest := c\<rparr>)),
     HAL_SPI_Transmit = (\<lambda>tx t e. let (st, c) = HAL_SPI_Transmit sim_hw tx t (rest e) in (st, e\<lparr>rest := c\<rparr>)),
     HAL_UART_Transmit_IT = hal_uart_transmit_it, HAL_UART_Receive_IT = hal_uart_receive_it 1, huart4_RxState_ready = (\<lambda>_. True),
     osKernelGetTickCount = (\<lambda>e. (of_nat (sim_time (rest e)), e)), osKernelGetTickFreq = 1000, SystemCoreClock = 170000000,
     DWT_CYCCNT = (\<lambda>e. (0, e)), DWT_enable = (\<lambda>e. (True, e)), xPortGetFreeHeapSize = (\<lambda>_. 4096),
     xPortGetMinimumEverFreeHeapSize = (\<lambda>_. 4096),
     HAL_Delay = (\<lambda>n s. s\<lparr>env := (env s)\<lparr>rest := (rest (env s))\<lparr>sim_time := sim_time (rest (env s)) + unat n\<rparr>\<rparr>\<rparr>),
     sleep = (\<lambda>n s. s\<lparr>env := (env s)\<lparr>rest := (rest (env s))\<lparr>sim_time := sim_time (rest (env s)) + unat n\<rparr>\<rparr>\<rparr>),
     suspend = (\<lambda>n s. s\<lparr>env := (env s)\<lparr>rest := (rest (env s))\<lparr>sim_time := sim_time (rest (env s)) + max 1 (unat n)\<rparr>\<rparr>\<rparr>)\<rparr>"

text \<open>C4: the driver with its registers behaves as the abstract line under every order of arriving
  bytes, departing bytes and interrupts: what the gateway's callbacks do is what the abstract line
  does, each received byte is stored once, errors are reported, and the receiver is always armed.\<close>

theorem uart_refines_line:
  fixes s :: "'x uart_env gw" and hw :: "'x uart_env hw" and evs :: "line_event list"
  assumes "uart_inv (env s)"
  defines "t \<equiv> fold (line_step hw) evs s"
  shows "uart_inv (env t) \<and> line_run evs (view_of (env s), s\<lparr>env := e\<rparr>) = (view_of (env t), t\<lparr>env := e\<rparr>)"
  unfolding t_def by (rule line_run_refines [OF assms(1)])

theorem uart_refines_line_witness:
  "let s = boot (uart_boot sim_init); t = fold (line_step line_hw) [Arrive 1 False False, Arrive 2 False False, Irq] s in
     uart_inv (env t) \<and>
     (view_of (env s), uart_report (uart_store 1 s)) = (view_of (env t), t\<lparr>env := env s\<rparr>)"
proof -
  define s where "s = boot (uart_boot sim_init)"
  have inv: "uart_inv (env s)" by (simp add: s_def boot_def uart_boot_inv)
  have v: "ln_slot (view_of (env s)) = None" "\<not> ln_noted (view_of (env s))" by (simp_all add: s_def boot_def uart_boot_inv)
  then have keep: "(view_of (env s))\<lparr>ln_slot := None, ln_noted := False\<rparr> = view_of (env s)" by (intro line_view.equality) simp_all
  show ?thesis
    using uart_refines_line [OF inv, of line_hw "[Arrive 1 False False, Arrive 2 False False, Irq]" "env s"] v
    by (simp add: Let_def view_step_def view_irq_def view_effect_def irq_effect_def rx_event_def keep flip: s_def)
qed

text \<open>C8: a frame accepted for transmission leaves on the line byte for byte, whatever arrives
  meanwhile: at every moment the bytes on the line are a prefix of it; until the driver is ready
  again it refuses another frame, and when it is, the whole frame is out and its end has been
  reported exactly once. It is ready after at most three rounds per byte and two more.\<close>

theorem uart_sends_frame:
  assumes inv: "uart_inv (env s)" and ready: "gState (huart4 (env s)) = HAL_UART_STATE_READY" and n: "bs \<noteq> []" "length bs < 2 ^ 16"
  shows "\<exists>e. hal_uart_transmit_it bs (env s) = (HAL_OK, e) \<and>
    (\<forall>evs. let e' = env (fold (line_step hw) evs (s\<lparr>env := e\<rparr>)) in
       (\<exists>left. line_out e' @ left = line_out (env s) @ bs \<and>
         (if gState (huart4 e') = HAL_UART_STATE_READY then left = [] \<and> tx_reports evs (view_of e) = 1
          else tx_reports evs (view_of e) = 0 \<and> (\<forall>frame. hal_uart_transmit_it frame e' = (HAL_BUSY, e'))))) \<and>
    (\<forall>rounds. 3 * length bs + 2 \<le> length rounds \<longrightarrow>
       gState (huart4 (env (fold (line_step hw) (concat (map line_round rounds)) (s\<lparr>env := e\<rparr>)))) = HAL_UART_STATE_READY)"
proof -
  obtain e where e: "hal_uart_transmit_it bs (env s) = (HAL_OK, e)" "uart_inv e" "view_of e = (view_of (env s))\<lparr>ln_phase := Sending bs\<rparr>"
    by (rule transmit_starts [OF inv ready n])
  have idle: "ln_hold (view_of (env s)) = None" "ln_shift (view_of (env s)) = None"
    using inv_view_ok [OF inv] ready_idle [OF inv] ready by (simp_all add: view_ok_def)
  have v: "ln_phase (view_of e) \<noteq> Idle" "unsent (view_of e) = bs" "ln_out (view_of e) = line_out (env s)" "tx_work (view_of e) = 3 * length bs + 2"
    using idle by (simp_all add: e(3) unsent_def tx_work_def) (simp add: view_of_def)
  define t where "t evs = fold (line_step hw) evs (s\<lparr>env := e\<rparr>)" for evs
  have run: "uart_inv (env (t evs))" "view_of (env (t evs)) = fold view_step evs (view_of e)" for evs
    using line_run_refines [of "s\<lparr>env := e\<rparr>" hw evs undefined] e(2) fst_line_run [of evs "view_of e" "s\<lparr>env := undefined\<rparr>"]
    by (simp_all add: t_def)
  have out: "line_out x = ln_out (view_of x)" for x :: "'a uart_env" by (simp add: view_of_def)
  have "let e' = env (t evs) in \<exists>left. line_out e' @ left = line_out (env s) @ bs \<and>
         (if gState (huart4 e') = HAL_UART_STATE_READY then left = [] \<and> tx_reports evs (view_of e) = 1
          else tx_reports evs (view_of e) = 0 \<and> (\<forall>frame. hal_uart_transmit_it frame e' = (HAL_BUSY, e')))" for evs
    unfolding Let_def
    using view_run_bytes [OF inv_view_ok [OF e(2)], of evs] v ready_idle [OF run(1), of evs] unsent_idle [OF inv_view_ok [OF run(1)], of evs]
    by (intro exI [of _ "unsent (view_of (env (t evs)))"]) (auto simp: transmit_refused out run(2))
  moreover have "gState (huart4 (env (t (concat (map line_round rounds))))) = HAL_UART_STATE_READY" if "3 * length bs + 2 \<le> length rounds" for rounds
    using rounds_work [OF inv_view_ok [OF e(2)], of rounds] that v(4)
    by (simp add: ready_idle [OF run(1)] run(2) work_idle)
  ultimately show ?thesis using e(1) unfolding t_def by blast
qed

theorem uart_sends_frame_witness:
  "\<exists>e. hal_uart_transmit_it [1, 2, 3] (uart_boot sim_init) = (HAL_OK, e) \<and>
    line_out (env (fold (line_step line_hw) (concat (map line_round (replicate 11 [(7, False, False)]))) ((boot (uart_boot sim_init))\<lparr>env := e\<rparr>))) = [1, 2, 3]"
proof -
  define s where "s = boot (uart_boot sim_init)"
  have s: "env s = uart_boot sim_init" by (simp add: s_def boot_def)
  obtain e where e: "hal_uart_transmit_it [1, 2, 3] (uart_boot sim_init) = (HAL_OK, e)"
    and safe: "\<And>evs. \<exists>left. line_out (env (fold (line_step line_hw) evs (s\<lparr>env := e\<rparr>))) @ left = [1, 2, 3] \<and>
      (gState (huart4 (env (fold (line_step line_hw) evs (s\<lparr>env := e\<rparr>)))) = HAL_UART_STATE_READY \<longrightarrow> left = [])"
    and live: "\<And>rounds. 11 \<le> length rounds \<Longrightarrow>
      gState (huart4 (env (fold (line_step line_hw) (concat (map line_round rounds)) (s\<lparr>env := e\<rparr>)))) = HAL_UART_STATE_READY"
    using uart_sends_frame [of s "[1, 2, 3]" line_hw] uart_boot_inv [of sim_init] by (auto simp: s Let_def) metis
  have "line_out (env (fold (line_step line_hw) (concat (map line_round (replicate 11 [(7, False, False)]))) (s\<lparr>env := e\<rparr>))) = [1, 2, 3]"
    using safe live [of "replicate 11 [(7, False, False)]"] by fastforce
  then show ?thesis using e by (simp add: s_def)
qed

subsection \<open>Bytes in a row\<close>

text \<open>Bytes that arrive without errors, each interrupt served before the next byte.\<close>

definition wire :: "u8 list \<Rightarrow> line_event list" where
  "wire bs = concat (map (\<lambda>b. [Arrive b False False, Irq]) bs)"

lemma line_run_wire:
  "\<not> rx_event v \<Longrightarrow> line_run (wire bs) (v, s) = (v, fold uart_store bs s)"
proof (induction bs arbitrary: s)
  case (Cons b bs)
  have keep: "v\<lparr>ln_slot := None, ln_noted := False\<rparr> = v" using Cons.prems by (intro line_view.equality) (simp_all add: rx_event_def)
  show ?case using Cons by (simp add: wire_def view_step_def view_effect_def view_irq_def irq_effect_def rx_event_def keep)
qed (simp add: wire_def)

lemma wire_stores:
  assumes "uart_inv (env s)" "\<not> rx_event (view_of (env s))"
  obtains e where "fold (line_step hw) (wire bs) s = (fold uart_store bs s)\<lparr>env := e\<rparr>" "uart_inv e" "view_of e = view_of (env s)"
proof -
  define t where "t = fold (line_step hw) (wire bs) s"
  have store: "(fold uart_store bs u)\<lparr>env := e\<rparr> = fold uart_store bs (u\<lparr>env := e\<rparr>)" for u :: "'a uart_env gw" and e
    by (induction bs arbitrary: u) simp_all
  have "uart_inv (env t)" "view_of (env t) = view_of (env s)" "t\<lparr>env := env t\<rparr> = fold uart_store bs (s\<lparr>env := env t\<rparr>)"
    using line_run_refines [OF assms(1), of hw "wire bs" "env t"] line_run_wire [OF assms(2), of bs "s\<lparr>env := env t\<rparr>"]
    by (auto simp flip: t_def)
  then show ?thesis using that [of "env t"] by (simp add: store flip: t_def)
qed

lemma line_hw_bus: "eth_bus line_hw (\<lambda>e. sim_log (rest e))"
proof -
  have "bus_ok line_hw (\<lambda>e. sim_log (rest e)) (\<lambda>e. sim_cur (rest e))"
    by (auto simp: bus_ok_def line_hw_def uart_board_def sim_hw_def sim_select_def sim_transfer_def)
  then show ?thesis by (auto simp: eth_bus_def eth_private_def same_eth_def line_hw_def uart_board_def)
qed

lemma line_hw_clocked: "clocked line_hw (\<lambda>e. sim_time (rest e)) 1 1"
proof -
  have "rest (snd (hal_uart_transmit_it tx e)) = rest e" for tx and e :: "sim uart_env"
    by (simp add: hal_uart_transmit_it_def Let_def set_CR1_def)
  then show ?thesis
    by (auto simp: clocked_def clock_ok_def line_hw_def uart_board_def sim_hw_def sim_select_def sim_transfer_def within_def ticks_of_def)
qed

end
