(* ===== verification/KernelTick.thy ===== *)
theory KernelTick
  imports KernelInv
begin

text \<open>What one tick of the clock does to the tasks.\<close>

lemma tick_next:
  assumes "(x :: u32) + 1 \<noteq> 0"
  shows "x < w \<Longrightarrow> w \<le> x + 1 \<longleftrightarrow> w = x + 1" "w < x \<Longrightarrow> w < x + 1" "w < x \<Longrightarrow> w \<noteq> x + 1" "x < x + 1"
proof -
  have "unat (x + 1) = Suc (unat x)" using unatSuc [of x] assms by (simp add: add.commute)
  then show "x < w \<Longrightarrow> w \<le> x + 1 \<longleftrightarrow> w = x + 1" "w < x \<Longrightarrow> w < x + 1" "w < x \<Longrightarrow> w \<noteq> x + 1" "x < x + 1"
    by (auto simp: word_less_nat_alt word_le_nat_alt word_unat_eq_iff)
qed

lemma tick_last: "(x :: u32) + 1 = 0 \<Longrightarrow> \<not> x < w"
proof -
  assume "x + 1 = 0"
  then have "x = - 1" by (simp add: eq_neg_iff_add_eq_0)
  then show ?thesis by (simp add: word_order.extremum_strict)
qed

definition delayed :: "kernel \<Rightarrow> u32 \<Rightarrow> bool" where
  "delayed k t \<longleftrightarrow> state_container (tcb k t) \<in> {Some DelayedTaskList1, Some DelayedTaskList2}"

definition due :: "kernel \<Rightarrow> u32 \<Rightarrow> bool" where
  "due k t \<longleftrightarrow> delayed k t \<and> wake k t = xTickCount k + 1"

definition ticked :: "u32 set \<Rightarrow> kernel \<Rightarrow> kernel \<Rightarrow> bool" where
  "ticked T k k' \<longleftrightarrow> kernel_wf {} T k' \<and> (\<forall>t \<in> T. timed k' t) \<and> xTickCount k' = xTickCount k + 1 \<and>
     (\<forall>t. tcb k' t = (if t \<in> T \<and> due k t then woken (tcb k t) else tcb k t)) \<and>
     pxCurrentTCB k' = pxCurrentTCB k \<and> uxCurrentNumberOfTasks k' = uxCurrentNumberOfTasks k \<and> xSchedulerRunning k' = xSchedulerRunning k \<and>
     xPendedTicks k' = xPendedTicks k \<and> xYieldPending k' = xYieldPending k \<and> uxSchedulerSuspended k' = uxSchedulerSuspended k \<and>
     PENDSVSET k' = PENDSVSET k"

text \<open>The tick before anything is unblocked: the count is advanced, and the delayed lists change places when it wraps.\<close>

definition tick_lists :: "kernel \<Rightarrow> kernel option" where
  "tick_lists k = (if xTickCount k + 1 = 0 then taskSWITCH_DELAYED_LISTS (k\<lparr>xTickCount := xTickCount k + 1\<rparr>)
     else Some (k\<lparr>xTickCount := xTickCount k + 1\<rparr>))"

lemma wf_scalars [simp]:
  "kernel_wf X T (k\<lparr>xTickCount := a\<rparr>) = kernel_wf X T k" "kernel_wf X T (k\<lparr>xNumOfOverflows := a\<rparr>) = kernel_wf X T k"
  "kernel_wf X T (k\<lparr>xYieldPending := b\<rparr>) = kernel_wf X T k" "kernel_wf X T (k\<lparr>PENDSVSET := b\<rparr>) = kernel_wf X T k"
  "kernel_wf X T (k\<lparr>xPendedTicks := a\<rparr>) = kernel_wf X T k" "kernel_wf X T (k\<lparr>uxSchedulerSuspended := a\<rparr>) = kernel_wf X T k"
  "kernel_wf X T (k\<lparr>xSchedulerRunning := b\<rparr>) = kernel_wf X T k" "kernel_wf X T (k\<lparr>uxTaskNumber := a\<rparr>) = kernel_wf X T k"
  by (simp_all add: kernel_wf_def lists_ok_def linked_def task_ok_def placed_def ready_def wake_sorted_def wake_def cong: map_cong)

lemma wf_swap:
  assumes "kernel_wf X T k"
  shows "kernel_wf X T (k\<lparr>xTickCount := a, pxDelayedTaskList := pxOverflowDelayedTaskList k,
    pxOverflowDelayedTaskList := pxDelayedTaskList k, xNumOfOverflows := b\<rparr>)"
  using assms by (auto simp: kernel_wf_def lists_ok_def linked_def task_ok_def placed_def ready_def wake_sorted_def wake_def cong: map_cong)

lemma wf_pointers:
  "kernel_wf X T k \<Longrightarrow> delayed k t \<longleftrightarrow> state_container (tcb k t) = Some (pxDelayedTaskList k) \<or> state_container (tcb k t) = Some (pxOverflowDelayedTaskList k)"
  "kernel_wf X T k \<Longrightarrow> pxDelayedTaskList k \<noteq> pxOverflowDelayedTaskList k"
  by (auto simp: kernel_wf_def delayed_def)

text \<open>After it, the tasks that are due are those at the count, and the others are timed as they should be.\<close>

definition half_ticked :: "u32 set \<Rightarrow> kernel \<Rightarrow> kernel \<Rightarrow> bool" where
  "half_ticked T k k0 \<longleftrightarrow> kernel_wf {} T k0 \<and> tcb k0 = tcb k \<and> xTickCount k0 = xTickCount k + 1 \<and>
     (\<forall>t \<in> T. state_container (tcb k t) = Some (pxDelayedTaskList k0) \<longrightarrow> xTickCount k + 1 \<le> wake k t \<and> xNextTaskUnblockTime k0 \<le> wake k t) \<and>
     (\<forall>t \<in> T. state_container (tcb k t) = Some (pxOverflowDelayedTaskList k0) \<longrightarrow> wake k t < xTickCount k + 1) \<and>
     pxCurrentTCB k0 = pxCurrentTCB k \<and> uxCurrentNumberOfTasks k0 = uxCurrentNumberOfTasks k \<and> xSchedulerRunning k0 = xSchedulerRunning k \<and>
     xPendedTicks k0 = xPendedTicks k \<and> xYieldPending k0 = xYieldPending k \<and> uxSchedulerSuspended k0 = uxSchedulerSuspended k \<and>
     PENDSVSET k0 = PENDSVSET k \<and> klists k0 = klists k"

lemma tick_lists_ok:
  assumes wf: "kernel_wf {} T k" and timed: "\<forall>t \<in> T. timed k t"
  shows "\<exists>k0. tick_lists k = Some k0 \<and> half_ticked T k k0 \<and> (\<forall>t \<in> T. due k t \<longleftrightarrow> expired k0 (xTickCount k + 1) t)"
proof (cases "xTickCount k + 1 = 0")
  case False
  note n = tick_next [OF False]
  let ?k0 = "k\<lparr>xTickCount := xTickCount k + 1\<rparr>"
  have "tick_lists k = Some ?k0" using False by (simp add: tick_lists_def)
  moreover have "half_ticked T k ?k0"
    using wf timed by (auto simp: half_ticked_def timed_def intro: inc_le n(2))
  moreover have "due k t \<longleftrightarrow> expired ?k0 (xTickCount k + 1) t" if "t \<in> T" for t
    using timed that n wf_pointers [OF wf] by (auto simp: due_def expired_def timed_def wake_def)
  ultimately show ?thesis by blast
next
  case True
  let ?D = "pxDelayedTaskList k" and ?O = "pxOverflowDelayedTaskList k"
  have noD: "state_container (tcb k t) \<noteq> Some ?D" if "t \<in> T" for t
    using timed that tick_last [OF True] by (auto simp: timed_def)
  then have "list_items ?D k = []" using delayed_list(1) [OF wf] by (metis list.set_intros(1) neq_Nil_conv)
  define k0 where "k0 = prvResetNextTaskUnblockTime (k\<lparr>xTickCount := xTickCount k + 1, pxDelayedTaskList := ?O,
    pxOverflowDelayedTaskList := ?D, xNumOfOverflows := xNumOfOverflows k + 1\<rparr>)"
  have "tick_lists k = Some k0" using True \<open>list_items ?D k = []\<close> by (simp add: tick_lists_def taskSWITCH_DELAYED_LISTS_def k0_def)
  moreover have wf0: "kernel_wf {} T k0"  using wf_swap [OF wf] by (simp add: k0_def prvResetNextTaskUnblockTime_def)
  moreover have f: "tcb k0 = tcb k" "pxDelayedTaskList k0 = ?O" "pxOverflowDelayedTaskList k0 = ?D" "xTickCount k0 = 0" "wake k0 = wake k"
    using True by (auto simp: k0_def prvResetNextTaskUnblockTime_def wake_def)
  have next0: "xNextTaskUnblockTime k0 \<le> wake k t" if "t \<in> T" "state_container (tcb k t) = Some ?O" for t
  proof -
    have "t \<in> set (list_items ?O k0)" using delayed_list(1) [OF wf0, of t] that by (simp add: f)
    then show ?thesis using delayed_list(2) [OF wf0]
      by (cases "list_items ?O k0") (auto simp: wake_sorted_def f, auto simp: k0_def prvResetNextTaskUnblockTime_def wake_def)
  qed
  have "half_ticked T k k0" using wf0 f True noD next0
    by (simp add: half_ticked_def) (simp add: k0_def prvResetNextTaskUnblockTime_def)
  moreover have "due k t \<longleftrightarrow> expired k0 (xTickCount k + 1) t" if "t \<in> T" for t
    using noD [OF that] True wf_pointers(1) [OF wf, of t] by (auto simp: due_def expired_def f)
  ultimately show ?thesis by blast
qed


lemma increment_tick_lists:
  "uxSchedulerSuspended k = 0 \<Longrightarrow> xTaskIncrementTick k = do {
     k0 \<leftarrow> tick_lists k;
     (sw, k1) \<leftarrow> (if xTickCount k + 1 \<ge> xNextTaskUnblockTime k0 then unblock_expired (xTickCount k + 1) False k0 else Some (False, k0));
     Some (xYieldPending k1 \<or> length (list_items (ReadyTasksLists (uxPriority (tcb k1 (pxCurrentTCB k1)))) k1) > 1 \<or> sw, k1)
   }"
  by (simp add: xTaskIncrementTick_def tick_lists_def Let_def) (auto intro!: bind_option_cong split: prod.split if_splits)

text \<open>A tick makes the tasks ready whose wake time it reaches, and asks for a switch when one of them does not
  have a lower priority than the running task, when the running task shares its priority, or when a switch was pending.\<close>

lemma tick_ok:
  assumes wf: "kernel_wf {} T k" and timed: "\<forall>t \<in> T. timed k t" and ns: "uxSchedulerSuspended k = 0"
  shows "\<exists>sw k'. xTaskIncrementTick k = Some (sw, k') \<and> ticked T k k' \<and>
    (sw \<longleftrightarrow> xYieldPending k \<or> length (list_items (ReadyTasksLists (uxPriority (tcb k' (pxCurrentTCB k')))) k') > 1 \<or>
       (\<exists>t \<in> T. due k t \<and> uxPriority (tcb k (pxCurrentTCB k)) \<le> uxPriority (tcb k t)))"
proof -
  obtain k0 where k0: "tick_lists k = Some k0" "half_ticked T k k0" "\<forall>t \<in> T. due k t \<longleftrightarrow> expired k0 (xTickCount k + 1) t"
    using tick_lists_ok [OF wf timed] by blast
  have wf0: "kernel_wf {} T k0" and eq: "tcb k0 = tcb k" "pxCurrentTCB k0 = pxCurrentTCB k" "wake k0 = wake k" "xTickCount k0 = xTickCount k + 1"
    using k0(2) by (auto simp: half_ticked_def wake_def)
  show ?thesis
  proof (cases "xTickCount k + 1 \<ge> xNextTaskUnblockTime k0")
    case True
    obtain k1 where k1: "unblock_expired (xTickCount k + 1) False k0 =
        Some (False \<or> (\<exists>t \<in> T. expired k0 (xTickCount k + 1) t \<and> uxPriority (tcb k0 (pxCurrentTCB k0)) \<le> uxPriority (tcb k0 t)), k1)"
      "unblocked T (xTickCount k + 1) k0 k1" using unblock_expired_ok [OF wf0] by blast
    have rest: "same_rest k0 k1" and t1: "tcb k1 t = (if t \<in> T \<and> due k t then woken (tcb k t) else tcb k t)"
      and d1: "t \<in> T \<Longrightarrow> state_container (tcb k1 t) = Some (pxDelayedTaskList k0) \<Longrightarrow> xTickCount k + 1 < wake k t \<and> xNextTaskUnblockTime k1 \<le> wake k t" for t
      using k1(2) k0(3) by (auto simp: unblocked_def eq)
    have "timed k1 t" if "t \<in> T" for t
      using d1 [OF that] k0(2) rest that wf_pointers [OF wf0] delayed_list(3) [OF wf0] not_sym [OF delayed_list(3) [OF wf0]] unblocked_wake [OF k1(2)]
      by (cases "due k t") (auto simp: timed_def half_ticked_def same_rest_def eq t1 kernel_wf_def)
    then have "ticked T k k1" using k1(2) rest k0(2) t1 by (simp add: ticked_def unblocked_def same_rest_def half_ticked_def)
    moreover have "xYieldPending k1 = xYieldPending k" using rest k0(2) by (simp add: same_rest_def half_ticked_def)
    ultimately show ?thesis using k1(1) k0(1,3) True by (auto simp: increment_tick_lists [OF ns] eq)
  next
    case False
    have nodue: "\<not> due k t" if "t \<in> T" for t using k0(2,3) that False by (auto simp: expired_def eq half_ticked_def)
    have "timed k0 t" if "t \<in> T" for t
      using k0(2) that False by (fastforce simp: timed_def half_ticked_def eq)
    then have "ticked T k k0" using k0(2) nodue by (auto simp: ticked_def half_ticked_def)
    moreover have "xYieldPending k0 = xYieldPending k" using k0(2) by (simp add: half_ticked_def)
    ultimately show ?thesis using k0(1) nodue False by (auto simp: increment_tick_lists [OF ns])
  qed
qed

end
