(* ===== verification/KernelOps.thy ===== *)
theory KernelOps
  imports KernelTick
begin

text \<open>
  Every service of the kernel keeps its invariant and returns: blocking, waking, notifications from tasks and
  interrupts, event lists, ticks, suspending and resuming the scheduler, task switches.
\<close>

subsection \<open>Blocking the running task\<close>

lemma insert_moved_wf:
  assumes wf: "kernel_wf X T k" and t: "t \<in> X" and L: "L \<in> {DelayedTaskList1, DelayedTaskList2, SuspendedTaskList}"
    and k': "k' = state_insert_end L t k \<and> L = SuspendedTaskList \<or> k' = state_insert L t k"
  shows "kernel_wf (X - {t}) T k'"
proof -
  have tT: "t \<in> T" and ok: "task_ok X k t" "lists_ok T k" using wf t by (auto simp: kernel_wf_def)
  have tc: "tcb k' = (tcb k)(t := (tcb k t)\<lparr>state_container := Some L\<rparr>)" "uxTopReadyPriority k' = uxTopReadyPriority k"
    using k' by (auto simp: state_insert_end_def state_insert_def)
  have "lists_ok T k'" using k' L ok(1) t lists_ok_state_insert [OF ok(2) tT, of L] by (auto simp: task_ok_def is_event_list_def)
  moreover have "task_ok (X - {t}) k' u" if "u \<in> T" for u
  proof -
    have "task_ok X k u" using wf that by (simp add: kernel_wf_def)
    then show ?thesis using ok(1) t L by (auto simp: task_ok_def placed_def ready_def tc)
  qed
  moreover have "wake_sorted M k'" if "wake_sorted M k" "M \<in> {DelayedTaskList1, DelayedTaskList2}" for M
  proof -
    have "wake k' = wake k" using k' by (auto simp: wake_def state_insert_end_def state_insert_def)
    moreover have "sorted (map (wake k) (kl_items (kl_insert (\<lambda>x. state_value (tcb k x)) t (klists k M))))"
      using kl_insert_sorted [of "wake k" "klists k M" t] that(1) by (simp add: wake_sorted_def list_items_def wake_def [abs_def])
    ultimately show ?thesis using that k' by (auto simp: wake_sorted_def state_insert_end_def state_insert_def)
  qed
  ultimately show ?thesis using wf k' by (auto simp: kernel_wf_def state_insert_end_def state_insert_def)
qed

definition blocked :: "u32 set \<Rightarrow> u32 \<Rightarrow> bool \<Rightarrow> kernel \<Rightarrow> kernel \<Rightarrow> bool" where
  "blocked T n forever k k' \<longleftrightarrow> kernel_wf {} T k' \<and> (\<forall>t \<in> T. timed k' t) \<and> same_rest k k' \<and>
     (\<forall>u. u \<noteq> pxCurrentTCB k \<longrightarrow> tcb k' u = tcb k u) \<and> (\<forall>L. is_event_list L \<longrightarrow> klists k' L = klists k L) \<and>
     (\<exists>w. tcb k' (pxCurrentTCB k) = (tcb k (pxCurrentTCB k))\<lparr>state_value := w, state_container := state_container (tcb k' (pxCurrentTCB k))\<rparr>) \<and>
     (if n = portMAX_DELAY \<and> forever then state_container (tcb k' (pxCurrentTCB k)) = Some SuspendedTaskList
      else delayed k' (pxCurrentTCB k) \<and> wake k' (pxCurrentTCB k) = xTickCount k + n)"

lemma blockedI:
  assumes "kernel_wf {} T k'" "\<And>t. t \<in> T \<Longrightarrow> timed k' t" "same_rest k k'"
    and tc: "\<And>u. tcb k' u = (if u = pxCurrentTCB k then (tcb k (pxCurrentTCB k))\<lparr>state_value := w, state_container := c\<rparr> else tcb k u)"
    and "\<And>L. is_event_list L \<Longrightarrow> klists k' L = klists k L"
    and "if n = portMAX_DELAY \<and> forever then c = Some SuspendedTaskList
      else c \<in> {Some DelayedTaskList1, Some DelayedTaskList2} \<and> w = xTickCount k + n"
  shows "blocked T n forever k k'"
proof -
  have c: "tcb k' (pxCurrentTCB k) = (tcb k (pxCurrentTCB k))\<lparr>state_value := w, state_container := c\<rparr>" by (simp add: tc)
  have o: "\<forall>u. u \<noteq> pxCurrentTCB k \<longrightarrow> tcb k' u = tcb k u" by (simp add: tc)
  have e: "\<exists>w. tcb k' (pxCurrentTCB k) = (tcb k (pxCurrentTCB k))\<lparr>state_value := w, state_container := state_container (tcb k' (pxCurrentTCB k))\<rparr>"
    by (rule exI [of _ w]) (simp add: c)
  show ?thesis using assms(1-3,5,6) o e by (auto simp: blocked_def c wake_def delayed_def)
qed

lemma wf_set_wake:
  assumes "kernel_wf X T k" "t \<in> X"
  shows "kernel_wf X T (upd_tcb t (\<lambda>c. c\<lparr>state_value := w\<rparr>) k)"
proof -
  let ?k = "upd_tcb t (\<lambda>c. c\<lparr>state_value := w\<rparr>) k"
  have lo: "lists_ok T k" and t: "task_ok X k t" using assms by (auto simp: kernel_wf_def)
  have "lists_ok T ?k" using lo by (simp add: lists_ok_def linked_def)
  moreover have "task_ok X ?k u" if "u \<in> T" for u using assms that by (auto simp: kernel_wf_def task_ok_def placed_def ready_def)
  moreover have "wake_sorted L ?k" if L: "wake_sorted L k" "\<not> is_event_list L" for L
  proof -
    have "t \<notin> set (list_items L k)" using lists_ok_mem(1) [OF lo L(2), of t] t assms(2) by (auto simp: task_ok_def)
    then have "map (wake ?k) (list_items L k) = map (wake k) (list_items L k)" by (auto simp: wake_def)
    then show ?thesis using L(1) unfolding wake_sorted_def list_items_upd by (simp only:)
  qed
  ultimately show ?thesis using assms(1) by (simp add: kernel_wf_def is_event_list_def)
qed

lemma timed_others:
  "(\<And>u. u \<noteq> t \<Longrightarrow> tcb k' u = tcb k u) \<Longrightarrow> pxDelayedTaskList k' = pxDelayedTaskList k \<Longrightarrow>
   pxOverflowDelayedTaskList k' = pxOverflowDelayedTaskList k \<Longrightarrow> xTickCount k' = xTickCount k \<Longrightarrow>
   xNextTaskUnblockTime k' \<le> xNextTaskUnblockTime k \<Longrightarrow> timed k u \<Longrightarrow> u \<noteq> t \<Longrightarrow> timed k' u"
  by (auto simp: timed_def wake_def)

lemma block_current_ok:
  assumes wf: "kernel_wf {} T k" and timed: "\<forall>t \<in> T. timed k t" and n: "0 < n"
  shows "\<exists>k'. prvAddCurrentTaskToDelayedList n forever k = Some k' \<and> blocked T n forever k k'"
proof -
  let ?t = "pxCurrentTCB k" and ?w = "xTickCount k + n"
  have tT: "?t \<in> T" using wf by (simp add: kernel_wf_def)
  define k1 where "k1 = removed ?t k"
  have k1: "state_remove ?t k = Some k1" "kernel_wf {?t} T k1" using removed_wf [OF wf tT] by (simp_all add: k1_def)
  have f1: "tcb k1 = (tcb k)(?t := (tcb k ?t)\<lparr>state_container := None\<rparr>)" by (simp add: k1_def)
  have ev1: "klists k1 L = klists k L" if "is_event_list L" for L
  proof -
    have "lists_ok T k" "task_ok {} k ?t" using wf tT by (auto simp: kernel_wf_def)
    then obtain M where "state_container (tcb k ?t) = Some M" "\<not> is_event_list M"
      using lists_ok_kind(1) [of T k ?t] tT by (fastforce simp: task_ok_def placed_def ready_def)
    then show ?thesis using that by (auto simp: k1_def removed_def)
  qed
  show ?thesis
  proof (cases "n = portMAX_DELAY \<and> forever")
    case True
    define kS where "kS = state_insert_end SuspendedTaskList ?t k1"
    have wfS: "kernel_wf {} T kS" using insert_moved_wf [OF k1(2), of ?t SuspendedTaskList kS] by (simp add: kS_def)
    have tc: "tcb kS u = (if u = ?t then (tcb k ?t)\<lparr>state_value := state_value (tcb k ?t), state_container := Some SuspendedTaskList\<rparr> else tcb k u)" for u
      by (simp add: kS_def state_insert_end_def f1)
    have "timed kS u" if "u \<in> T" for u
    proof (cases "u = ?t")
      case True
      then show ?thesis using wf tc by (auto simp: timed_def kS_def state_insert_end_def k1_def kernel_wf_def)
    next
      case False
      then show ?thesis using timed that tc by (intro timed_others [of ?t kS k]) (auto simp: kS_def state_insert_end_def k1_def)
    qed
    then have "blocked T n forever k kS" using True
      by (intro blockedI [OF wfS _ _ tc]) (use ev1 in \<open>auto simp: kS_def same_rest_def state_insert_end_def k1_def is_event_list_def\<close>)
    then show ?thesis using True k1(1) by (simp add: prvAddCurrentTaskToDelayedList_def Let_def kS_def)
  next
    case False
    let ?over = "?w < xTickCount k"
    define L where "L = (if ?over then pxOverflowDelayedTaskList k else pxDelayedTaskList k)"
    define k2 where "k2 = upd_tcb ?t (\<lambda>c. c\<lparr>state_value := ?w\<rparr>) k1"
    define k3 where "k3 = state_insert L ?t k2"
    define k4 where "k4 = (if \<not> ?over \<and> ?w < xNextTaskUnblockTime k then k3\<lparr>xNextTaskUnblockTime := ?w\<rparr> else k3)"
    have op: "prvAddCurrentTaskToDelayedList n forever k = Some k4"
      using False k1(1) by (auto simp: prvAddCurrentTaskToDelayedList_def Let_def k4_def k3_def k2_def L_def k1_def state_insert_def)
    have L: "L \<in> {DelayedTaskList1, DelayedTaskList2}" using wf by (auto simp: L_def kernel_wf_def)
    have "kernel_wf {?t} T k2" unfolding k2_def by (rule wf_set_wake [OF k1(2)]) simp
    then have wf3: "kernel_wf {} T k3" using insert_moved_wf [of "{?t}" T k2 ?t L k3] L by (auto simp: k3_def)
    then have wf4: "kernel_wf {} T k4" by (simp add: k4_def)
    have tc: "tcb k4 u = (if u = ?t then (tcb k ?t)\<lparr>state_value := ?w, state_container := Some L\<rparr> else tcb k u)" for u
      by (simp add: k4_def k3_def k2_def state_insert_def f1)
    have rest: "same_rest k k4" by (simp add: same_rest_def k4_def k3_def k2_def k1_def state_insert_def)
    have nx: "xNextTaskUnblockTime k4 = (if \<not> ?over \<and> ?w < xNextTaskUnblockTime k then ?w else xNextTaskUnblockTime k)"
      by (simp add: k4_def k3_def k2_def k1_def state_insert_def)
    have later: "xTickCount k < ?w" if "\<not> ?over" using n that by (metis add_cancel_left_right not_less_iff_gr_or_eq word_neq_0_conv)
    have r: "xTickCount k4 = xTickCount k" "pxDelayedTaskList k4 = pxDelayedTaskList k" "pxOverflowDelayedTaskList k4 = pxOverflowDelayedTaskList k"
      using rest by (simp_all add: same_rest_def)
    have "timed k4 u" if "u \<in> T" for u
    proof (cases "u = ?t")
      case True
      then show ?thesis using wf_pointers(2) [OF wf] later by (auto simp: timed_def r wake_def L_def nx tc)
    next
      case False
      then show ?thesis using timed that by (intro timed_others [of ?t k4 k]) (auto simp: r tc nx)
    qed
    moreover have "klists k4 M = klists k M" if "is_event_list M" for M
      using ev1 [OF that] L that by (auto simp: k4_def k3_def k2_def state_insert_def is_event_list_def)
    ultimately have "blocked T n forever k k4" using False L by (intro blockedI [OF wf4 _ rest tc]) auto
    then show ?thesis using op by blast
  qed
qed


subsection \<open>Waking a task\<close>

lemma unblock_ok:
  assumes wf: "kernel_wf {} T k" and t: "t \<in> T" and k': "k' = prvAddTaskToReadyList t (removed t k)"
  shows "state_remove t k = Some (removed t k)" "kernel_wf {} T k'"
    "tcb k' = (tcb k)(t := (tcb k t)\<lparr>state_container := Some (ReadyTasksLists (uxPriority (tcb k t)))\<rparr>)"
    "same_rest k k'" "xNextTaskUnblockTime k' = xNextTaskUnblockTime k" "is_event_list L \<Longrightarrow> klists k' L = klists k L"
proof -
  note rem = removed_wf [OF wf t]
  show "state_remove t k = Some (removed t k)" using rem by simp
  have wf1: "kernel_wf {t} T (removed t k)" using rem(2) by simp
  show "kernel_wf {} T k'" using add_ready_wf [OF wf1, of t] by (simp add: k')
  show "tcb k' = (tcb k)(t := (tcb k t)\<lparr>state_container := Some (ReadyTasksLists (uxPriority (tcb k t)))\<rparr>)"
    "same_rest k k'" "xNextTaskUnblockTime k' = xNextTaskUnblockTime k" by (simp_all add: k' same_rest_def)
  assume L: "is_event_list L"
  have "lists_ok T k" "task_ok {} k t" using wf t by (auto simp: kernel_wf_def)
  then obtain M where M: "state_container (tcb k t) = Some M" "\<not> is_event_list M"
    using lists_ok_kind(1) [of T k t] t by (fastforce simp: task_ok_def placed_def ready_def)
  show "klists k' L = klists k L"
    using L M by (auto simp: k' removed_def prvAddTaskToReadyList_def Let_def state_insert_end_def is_event_list_def)
qed

lemma timed_moved:
  assumes "timed k u" "wake k' u = wake k u" "xTickCount k' = xTickCount k" "xNextTaskUnblockTime k' = xNextTaskUnblockTime k"
    "pxDelayedTaskList k' = pxDelayedTaskList k" "pxOverflowDelayedTaskList k' = pxOverflowDelayedTaskList k"
    "state_container (tcb k' u) = state_container (tcb k u) \<or> \<not> delayed k' u" "kernel_wf X T k"
  shows "timed k' u"
  using assms wf_pointers(1) [OF assms(8)] by (auto simp: timed_def delayed_def kernel_wf_def)

text \<open>Changing a task's notification, and what the scheduler sees of a task.\<close>

definition same_task :: "TCB_t \<Rightarrow> TCB_t \<Rightarrow> bool" where
  "same_task c d \<longleftrightarrow> uxPriority d = uxPriority c \<and> state_value d = state_value c \<and> state_container d = state_container c \<and>
     event_value d = event_value c \<and> event_container d = event_container c"

lemma wf_notes:
  assumes wf: "kernel_wf X T k" and same: "\<And>u. same_task (tcb k u) (tcb k' u)" and lists: "klists k' = klists k"
    and rest: "same_rest k k'" "uxTopReadyPriority k' = uxTopReadyPriority k"
    and wait: "\<And>u. ucNotifyState (tcb k' u) = taskWAITING_NOTIFICATION \<Longrightarrow> ucNotifyState (tcb k u) = taskWAITING_NOTIFICATION \<or> event_container (tcb k u) = None"
  shows "kernel_wf X T k'"
proof -
  have c: "state_container (tcb k' u) = state_container (tcb k u)" "event_container (tcb k' u) = event_container (tcb k u)"
    "uxPriority (tcb k' u) = uxPriority (tcb k u)" "wake k' = wake k" for u
    using same by (auto simp: same_task_def wake_def)
  have "lists_ok T k'" using wf by (auto simp: kernel_wf_def lists_ok_def linked_def list_items_def lists c)
  moreover have "task_ok X k' u" if "u \<in> T" for u
  proof -
    have "task_ok X k u" using wf that by (simp add: kernel_wf_def)
    then show ?thesis using wait [of u] by (auto simp: task_ok_def placed_def ready_def c rest)
  qed
  ultimately show ?thesis using wf rest by (auto simp: kernel_wf_def same_rest_def wake_sorted_def list_items_def lists c)
qed

lemma timed_notes:
  "timed k u \<Longrightarrow> same_task (tcb k u) (tcb k' u) \<Longrightarrow> same_rest k k' \<Longrightarrow> xNextTaskUnblockTime k' = xNextTaskUnblockTime k \<Longrightarrow> timed k' u"
  by (auto simp: timed_def same_task_def same_rest_def wake_def)

subsection \<open>The invariant, by parts\<close>

lemma kernel_invD:
  "kernel_inv T k \<Longrightarrow> kernel_wf {} T k" "kernel_inv T k \<Longrightarrow> t \<in> T \<Longrightarrow> timed k t" "kernel_inv T k \<Longrightarrow> pxCurrentTCB k \<in> T"
  "kernel_inv T k \<Longrightarrow> preemptive T k"
  "kernel_inv T k \<Longrightarrow> uxSchedulerSuspended k = 0 \<Longrightarrow> list_items PendingReadyList k = []"
  "kernel_inv T k \<Longrightarrow> uxSchedulerSuspended k = 0 \<Longrightarrow> xPendedTicks k = 0"
  by (auto simp: kernel_inv_def kernel_wf_def)

text \<open>Readying \<open>t\<close> keeps the promise when a switch is asked for in case \<open>t\<close> has the higher priority.\<close>

lemma preemptive_readied:
  assumes p: "preemptive T k" and tc: "\<And>u. u \<noteq> t \<Longrightarrow> state_container (tcb k' u) = state_container (tcb k u)"
    "\<And>u. uxPriority (tcb k' u) = uxPriority (tcb k u)" "pxCurrentTCB k' = pxCurrentTCB k"
    and y: "PENDSVSET k \<Longrightarrow> PENDSVSET k'" "xYieldPending k \<Longrightarrow> xYieldPending k'"
    "uxPriority (tcb k t) > uxPriority (tcb k (pxCurrentTCB k)) \<Longrightarrow> PENDSVSET k' \<or> xYieldPending k'"
  shows "preemptive T k'"
  using assms unfolding preemptive_def ready_def by (metis not_le)

definition note_task :: "u32 \<Rightarrow> u8 \<Rightarrow> u32 \<Rightarrow> kernel \<Rightarrow> kernel" where
  "note_task t st v k = upd_tcb t (\<lambda>c. c\<lparr>ulNotifiedValue := v\<rparr>) (upd_tcb t (\<lambda>c. c\<lparr>ucNotifyState := st\<rparr>) k)"

lemma note_order: "c\<lparr>ulNotifiedValue := v, ucNotifyState := st\<rparr> = (c :: TCB_t)\<lparr>ucNotifyState := st, ulNotifiedValue := v\<rparr>"
  by simp

lemma note_task_inv:
  assumes inv: "kernel_inv T k" and st: "st = taskWAITING_NOTIFICATION \<Longrightarrow> event_container (tcb k t) = None"
  shows "kernel_inv T (note_task t st v k)"
proof -
  let ?k = "note_task t st v k"
  have same: "same_task (tcb k u) (tcb ?k u)" and l: "klists ?k = klists k" and r: "same_rest k ?k"
    "uxTopReadyPriority ?k = uxTopReadyPriority k" "xNextTaskUnblockTime ?k = xNextTaskUnblockTime k" for u
    by (auto simp: note_task_def same_task_def same_rest_def)
  have "kernel_wf {} T ?k"
    by (rule wf_notes [OF kernel_invD(1) [OF inv] same l r(1,2)]) (use st in \<open>auto simp: note_task_def split: if_splits\<close>)
  moreover have "timed ?k u" if "u \<in> T" for u by (rule timed_notes [OF kernel_invD(2) [OF inv that] same r(1,3)])
  moreover have "preemptive T ?k" using kernel_invD(4) [OF inv] same
    by (auto simp: preemptive_def note_task_def ready_def)
  ultimately show ?thesis using inv by (simp add: kernel_inv_def note_task_def list_items_def)
qed


subsection \<open>What the scheduler promises\<close>

text \<open>
  The specification sees of each task whether it is ready, how many ticks it still waits, or that it waits for ever; the tasks
  woken while the scheduler was suspended; the ticks that came meanwhile; and how often it is suspended.
\<close>

datatype task_status = TReady | TBlocked nat | TForever

record sched =
  s_status :: "u32 \<Rightarrow> task_status"
  s_pended :: "u32 set"
  s_ticks :: u32
  s_depth :: u32

definition status :: "kernel \<Rightarrow> u32 \<Rightarrow> task_status" where
  "status k t = (if ready k t then TReady else if delayed k t then TBlocked (unat (wake k t - xTickCount k)) else TForever)"

definition view :: "u32 set \<Rightarrow> kernel \<Rightarrow> sched" where
  "view T k = \<lparr>s_status = (\<lambda>t. if t \<in> T then status k t else TForever),
     s_pended = {t \<in> T. event_container (tcb k t) = Some PendingReadyList}, s_ticks = xPendedTicks k, s_depth = uxSchedulerSuspended k\<rparr>"

fun countdown :: "task_status \<Rightarrow> task_status" where
  "countdown (TBlocked n) = (if n \<le> 1 then TReady else TBlocked (n - 1))"
| "countdown s = s"

definition sp_tick :: "sched \<Rightarrow> sched" where
  "sp_tick s = (if s_depth s = 0 then s\<lparr>s_status := countdown \<circ> s_status s\<rparr> else s\<lparr>s_ticks := s_ticks s + 1\<rparr>)"

definition sp_ready :: "u32 \<Rightarrow> sched \<Rightarrow> sched" where
  "sp_ready t s = s\<lparr>s_status := (s_status s)(t := TReady)\<rparr>"

definition sp_wake :: "u32 \<Rightarrow> sched \<Rightarrow> sched" where
  "sp_wake t s = (if s_depth s = 0 then sp_ready t s else s\<lparr>s_pended := insert t (s_pended s)\<rparr>)"

definition sp_block :: "u32 \<Rightarrow> u32 \<Rightarrow> bool \<Rightarrow> sched \<Rightarrow> sched" where
  "sp_block t n forever s =
     s\<lparr>s_status := (s_status s)(t := if n = portMAX_DELAY \<and> forever then TForever else TBlocked (unat n))\<rparr>"

definition sp_suspend :: "sched \<Rightarrow> sched" where
  "sp_suspend s = s\<lparr>s_depth := s_depth s + 1\<rparr>"

definition sp_resume :: "sched \<Rightarrow> sched" where
  "sp_resume s = (if s_depth s = 1 then
      s\<lparr>s_depth := 0, s_status := (\<lambda>t. (countdown ^^ unat (s_ticks s)) (if t \<in> s_pended s then TReady else s_status s t)),
        s_pended := {}, s_ticks := 0\<rparr>
    else s\<lparr>s_depth := s_depth s - 1\<rparr>)"

lemma ready_not_delayed: "ready k t \<Longrightarrow> \<not> delayed k t"
  by (auto simp: ready_def delayed_def)

lemma status_cong:
  "uxPriority (tcb k' u) = uxPriority (tcb k u) \<Longrightarrow> state_container (tcb k' u) = state_container (tcb k u) \<Longrightarrow>
   state_value (tcb k' u) = state_value (tcb k u) \<Longrightarrow> xTickCount k' = xTickCount k \<Longrightarrow> status k' u = status k u"
  by (simp add: status_def ready_def delayed_def wake_def)

lemma view_same:
  assumes "\<And>u. same_task (tcb k u) (tcb k' u)" "xTickCount k' = xTickCount k" "xPendedTicks k' = xPendedTicks k"
    "uxSchedulerSuspended k' = uxSchedulerSuspended k"
  shows "view T k' = view T k"
proof -
  have "status k' u = status k u" "event_container (tcb k' u) = event_container (tcb k u)" for u
    using assms(1) [of u] assms(2) status_cong [of k' u k] by (auto simp: same_task_def)
  then show ?thesis using assms(2-) by (simp add: view_def fun_eq_iff)
qed

lemma view_moved:
  assumes t: "t \<in> T" and other: "\<And>u. u \<noteq> t \<Longrightarrow> same_task (tcb k u) (tcb k' u)"
    and ev: "event_container (tcb k' t) = Some PendingReadyList \<longleftrightarrow> event_container (tcb k t) = Some PendingReadyList"
    and r: "xTickCount k' = xTickCount k" "xPendedTicks k' = xPendedTicks k" "uxSchedulerSuspended k' = uxSchedulerSuspended k"
  shows "view T k' = (view T k)\<lparr>s_status := (s_status (view T k))(t := status k' t)\<rparr>"
proof -
  have "status k' u = status k u" if "u \<noteq> t" for u
    using other [OF that] r(1) status_cong [of k' u k] by (auto simp: same_task_def)
  moreover have "event_container (tcb k' u) = Some PendingReadyList \<longleftrightarrow> event_container (tcb k u) = Some PendingReadyList" for u
    using other [of u] ev by (cases "u = t") (auto simp: same_task_def)
  ultimately show ?thesis using t r(2,3) by (auto simp: view_def fun_eq_iff)
qed

subsection \<open>Every service keeps the invariant and does what it promises\<close>

definition does :: "u32 set \<Rightarrow> (sched \<Rightarrow> sched) \<Rightarrow> kernel \<Rightarrow> kernel option \<Rightarrow> bool" where
  "does T f k r \<longleftrightarrow> (case r of None \<Rightarrow> False | Some k' \<Rightarrow> kernel_inv T k' \<and> view T k' = f (view T k))"

lemma doesI: "r = Some k' \<Longrightarrow> kernel_inv T k' \<Longrightarrow> view T k' = f (view T k) \<Longrightarrow> does T f k r"
  by (simp add: does_def)

lemma blocked_status: "blocked T n forever k k' \<Longrightarrow> status k' (pxCurrentTCB k) = (if n = portMAX_DELAY \<and> forever then TForever else TBlocked (unat n))"
  by (auto simp: blocked_def status_def ready_def delayed_def same_rest_def split: if_splits)

text \<open>Blocking; the invariant needs no switch to be asked for, since the others stay as they were.\<close>

lemma blocked_does:
  assumes wf: "kernel_wf {} T k" and b: "blocked T n forever k k'" and p: "preemptive T k"
    and s: "uxSchedulerSuspended k = 0 \<longrightarrow> list_items PendingReadyList k = [] \<and> xPendedTicks k = 0"
  shows "kernel_inv T k'" "view T k' = sp_block (pxCurrentTCB k) n forever (view T k)"
proof -
  let ?t = "pxCurrentTCB k"
  have tT: "?t \<in> T" using wf by (simp add: kernel_wf_def)
  have rest: "same_rest k k'" and o: "\<And>u. u \<noteq> ?t \<Longrightarrow> tcb k' u = tcb k u" using b by (auto simp: blocked_def)
  obtain w where c: "tcb k' ?t = (tcb k ?t)\<lparr>state_value := w, state_container := state_container (tcb k' ?t)\<rparr>"
    using b by (auto simp: blocked_def)
  have ct: "uxPriority (tcb k' ?t) = uxPriority (tcb k ?t)" "event_container (tcb k' ?t) = event_container (tcb k ?t)" by (subst c, simp)+
  have prio: "uxPriority (tcb k' u) = uxPriority (tcb k u)" and ev: "event_container (tcb k' u) = event_container (tcb k u)" for u
    using o [of u] ct by (cases "u = ?t"; simp)+
  have "\<not> ready k' ?t" using blocked_status [OF b] by (auto simp: status_def split: if_splits)
  then have pre: "preemptive T k'" using p o prio rest unfolding preemptive_def same_rest_def
    by (metis (mono_tags, opaque_lifting) ready_def)
  have "list_items PendingReadyList k' = list_items PendingReadyList k" using b by (simp add: blocked_def list_items_def is_event_list_def)
  then show "kernel_inv T k'" using b pre rest s by (simp add: kernel_inv_def blocked_def same_rest_def)
  have "view T k' = (view T k)\<lparr>s_status := (s_status (view T k))(?t := status k' ?t)\<rparr>"
    using rest ev o by (intro view_moved [OF tT]) (auto simp: same_rest_def same_task_def)
  then show "view T k' = sp_block ?t n forever (view T k)" by (simp add: sp_block_def blocked_status [OF b])
qed


lemma unat_pred: "(x :: u32) \<noteq> 0 \<Longrightarrow> unat (x - 1) = unat x - 1"
  using unat_minus_one [of x] by simp

lemma ticked_status:
  assumes wf: "kernel_wf {} T k" and timed: "timed k t" and tk: "ticked T k k'" and t: "t \<in> T"
  shows "status k' t = countdown (status k t)"
proof -
  have tc: "tcb k' t = (if due k t then woken (tcb k t) else tcb k t)" and tick: "xTickCount k' = xTickCount k + 1"
    using tk t by (auto simp: ticked_def)
  show ?thesis
  proof (cases "delayed k t")
    case True
    have ne: "wake k t - xTickCount k \<noteq> 0" using timed True wf_pointers(1) [OF wf] by (auto simp: timed_def)
    have nr: "\<not> ready k t" using True ready_not_delayed by blast
    show ?thesis
    proof (cases "due k t")
      case due: True
      then have "wake k t - xTickCount k = 1" by (simp add: due_def)
      then show ?thesis using tc due True nr by (simp add: status_def ready_def)
    next
      case False
      have "wake k t - xTickCount k \<noteq> 1" using False True by (auto simp: due_def diff_eq_eq add.commute)
      then have two: "\<not> unat (wake k t - xTickCount k) \<le> 1" using ne
        word_unat_eq_iff [of "wake k t - xTickCount k" 0] word_unat_eq_iff [of "wake k t - xTickCount k" 1] by (simp add: le_Suc_eq)
      have "wake k' t - xTickCount k' = (wake k t - xTickCount k) - 1" using tc False tick by (simp add: wake_def)
      then have "unat (wake k' t - xTickCount k') = unat (wake k t - xTickCount k) - 1" using unat_pred [OF ne] by simp
      then show ?thesis using tc False True nr two by (simp add: status_def ready_def delayed_def)
    qed
  next
    case False
    then show ?thesis using tc by (auto simp: status_def due_def ready_def delayed_def)
  qed
qed

lemma pended_none:
  assumes "lists_ok T k"
  shows "list_items PendingReadyList k = [] \<longleftrightarrow> (\<forall>t \<in> T. event_container (tcb k t) \<noteq> Some PendingReadyList)"
proof -
  have "set (list_items PendingReadyList k) = {t \<in> T. event_container (tcb k t) = Some PendingReadyList}"
    using lists_ok_mem(2) [OF assms, of PendingReadyList] by (auto simp: is_event_list_def)
  then show ?thesis by (cases "list_items PendingReadyList k") auto
qed

lemma wf_lists: "kernel_wf X T k \<Longrightarrow> lists_ok T k"
  by (simp add: kernel_wf_def)

text \<open>The invariant but for what is pended.\<close>

definition resuming :: "u32 set \<Rightarrow> kernel \<Rightarrow> bool" where
  "resuming T k \<longleftrightarrow> kernel_wf {} T k \<and> (\<forall>t \<in> T. timed k t) \<and> preemptive T k"

lemma resumingD: "resuming T k \<Longrightarrow> kernel_wf {} T k" "resuming T k \<Longrightarrow> t \<in> T \<Longrightarrow> timed k t" "resuming T k \<Longrightarrow> preemptive T k"
  by (auto simp: resuming_def)

lemma inv_resuming:
  "kernel_inv T k \<longleftrightarrow> resuming T k \<and> (uxSchedulerSuspended k = 0 \<longrightarrow> list_items PendingReadyList k = [] \<and> xPendedTicks k = 0)"
  by (auto simp: kernel_inv_def resuming_def)

text \<open>A tick that is worked off.\<close>

lemma tick_step:
  assumes res: "resuming T k" and ns: "uxSchedulerSuspended k = 0" and pend: "list_items PendingReadyList k = []"
  shows "\<exists>sw k'. xTaskIncrementTick k = Some (sw, k') \<and> ticked T k k' \<and> (\<not> sw \<longrightarrow> preemptive T k') \<and>
    list_items PendingReadyList k' = [] \<and> view T k' = sp_tick (view T k)"
proof -
  note wf = resumingD(1) [OF res]
  obtain sw k' where k': "xTaskIncrementTick k = Some (sw, k')" "ticked T k k'"
    "sw \<longleftrightarrow> xYieldPending k \<or> length (list_items (ReadyTasksLists (uxPriority (tcb k' (pxCurrentTCB k')))) k') > 1 \<or>
       (\<exists>t \<in> T. due k t \<and> uxPriority (tcb k (pxCurrentTCB k)) \<le> uxPriority (tcb k t))"
    using tick_ok [OF wf _ ns] resumingD(2) [OF res] by blast
  have tc: "tcb k' t = (if t \<in> T \<and> due k t then woken (tcb k t) else tcb k t)" and f: "pxCurrentTCB k' = pxCurrentTCB k"
    "PENDSVSET k' = PENDSVSET k" "xYieldPending k' = xYieldPending k" "xPendedTicks k' = xPendedTicks k"
    "uxSchedulerSuspended k' = uxSchedulerSuspended k" "kernel_wf {} T k'" for t
    using k'(2) by (auto simp: ticked_def)
  have "preemptive T k'" if "\<not> sw"
  proof -
    have "uxPriority (tcb k t) < uxPriority (tcb k (pxCurrentTCB k))" if "t \<in> T" "due k t" for t
      using k'(3) \<open>\<not> sw\<close> that by force
    then show ?thesis using resumingD(3) [OF res] by (auto simp: preemptive_def f tc ready_def less_imp_le split: if_splits)
  qed
  moreover have none: "\<forall>t \<in> T. event_container (tcb k t) \<noteq> Some PendingReadyList"
    using pended_none [OF wf_lists [OF wf]] pend by simp
  then have none': "\<forall>t \<in> T. event_container (tcb k' t) \<noteq> Some PendingReadyList" by (simp add: tc)
  moreover have "view T k' = sp_tick (view T k)"
    using ticked_status [OF wf resumingD(2) [OF res] k'(2)] none none' ns by (auto simp: view_def sp_tick_def f fun_eq_iff)
  ultimately show ?thesis using k'(1,2) pended_none [OF wf_lists [OF f(6)]] by blast
qed

lemma inv_yield: "kernel_inv T k \<Longrightarrow> kernel_inv T (portYIELD k)" "view T (portYIELD k) = view T k"
  by (simp_all add: kernel_inv_def portYIELD_def preemptive_def timed_def wake_def view_def status_def ready_def delayed_def fun_eq_iff)

lemma tick_does: "kernel_inv T k \<Longrightarrow> does T sp_tick k (SysTick_Handler k)" if "xSchedulerRunning k"
proof (cases "uxSchedulerSuspended k = 0")
  case True
  assume inv: "kernel_inv T k"
  then obtain sw k' where k': "xTaskIncrementTick k = Some (sw, k')" "ticked T k k'" "\<not> sw \<longrightarrow> preemptive T k'"
    "list_items PendingReadyList k' = []" "view T k' = sp_tick (view T k)"
    using tick_step [of T k] inv True by (auto simp: inv_resuming)
  have "kernel_inv T k'" if "preemptive T k'"
    using k'(2,4) kernel_invD(6) [OF inv True] that by (simp add: kernel_inv_def ticked_def)
  moreover have "kernel_inv T (portYIELD k')"
    using k'(2,4) kernel_invD(6) [OF inv True]
    by (auto simp: kernel_inv_def ticked_def portYIELD_def preemptive_def timed_def wake_def)
  moreover have "SysTick_Handler k = Some (if sw then portYIELD k' else k')"
    using that k'(1) by (simp add: SysTick_Handler_def xPortSysTickHandler_def)
  ultimately show ?thesis using k'(3,5) inv_yield(2) [of T k'] by (cases sw) (simp_all add: does_def)
next
  case False
  assume inv: "kernel_inv T k"
  let ?k = "k\<lparr>xPendedTicks := xPendedTicks k + 1\<rparr>"
  have "kernel_inv T ?k" using inv False by (simp add: kernel_inv_def preemptive_def timed_def wake_def ready_def)
  moreover have "view T ?k = sp_tick (view T k)" using False by (simp add: view_def sp_tick_def status_def ready_def delayed_def wake_def fun_eq_iff)
  ultimately show ?thesis using False that
    by (intro doesI [of _ ?k]) (simp_all add: SysTick_Handler_def xPortSysTickHandler_def xTaskIncrementTick_def)
qed


lemma block_does:
  assumes inv: "kernel_inv T k" and n: "0 < n"
  shows "does T (sp_block (pxCurrentTCB k) n forever) k (prvAddCurrentTaskToDelayedList n forever k)"
proof -
  obtain k' where "prvAddCurrentTaskToDelayedList n forever k = Some k'" "blocked T n forever k k'"
    using block_current_ok [OF kernel_invD(1) [OF inv] _ n] kernel_invD(2) [OF inv] by blast
  then show ?thesis using blocked_does [OF kernel_invD(1) [OF inv] _ kernel_invD(4) [OF inv]] kernel_invD(5,6) [OF inv]
    by (simp add: does_def)
qed

text \<open>The first half of \<^verbatim>\<open>xTaskNotifyWait\<close>: it blocks unless a notification has come already.\<close>

lemma notify_wait_does:
  assumes inv: "kernel_inv T k" and ev: "event_container (tcb k (pxCurrentTCB k)) = None"
  shows "does T (if ucNotifyState (tcb k (pxCurrentTCB k)) \<noteq> taskNOTIFICATION_RECEIVED \<and> 0 < n
      then sp_block (pxCurrentTCB k) n True else id) k (xTaskNotifyWait_block clear n k)"
proof (cases "ucNotifyState (tcb k (pxCurrentTCB k)) = taskNOTIFICATION_RECEIVED")
  case True
  then show ?thesis using inv by (simp add: does_def xTaskNotifyWait_block_def)
next
  case False
  let ?t = "pxCurrentTCB k"
  define k1 where "k1 = upd_current (\<lambda>c. c\<lparr>ucNotifyState := taskWAITING_NOTIFICATION\<rparr>)
    (upd_current (\<lambda>c. c\<lparr>ulNotifiedValue := ulNotifiedValue c AND NOT clear\<rparr>) k)"
  have k1: "k1 = note_task ?t taskWAITING_NOTIFICATION (ulNotifiedValue (tcb k ?t) AND NOT clear) k"
    by (simp add: k1_def note_task_def upd_current_def upd_tcb_def note_order)
  have inv1: "kernel_inv T k1" unfolding k1 by (rule note_task_inv [OF inv]) (rule ev)
  have v1: "view T k1 = view T k" and c1: "pxCurrentTCB k1 = ?t"
    by (auto intro!: view_same simp: k1 note_task_def same_task_def)
  have op: "xTaskNotifyWait_block clear n k = (if n > 0 then do { k \<leftarrow> prvAddCurrentTaskToDelayedList n True k1; Some (portYIELD k) } else Some k1)"
    using False by (simp add: xTaskNotifyWait_block_def Let_def k1_def)
  show ?thesis
  proof (cases "n > 0")
    case True
    obtain k2 where k2: "prvAddCurrentTaskToDelayedList n True k1 = Some k2" "kernel_inv T k2" "view T k2 = sp_block ?t n True (view T k)"
      using block_does [OF inv1 True, of True] v1 c1 by (auto simp: does_def split: option.splits)
    then show ?thesis using True False inv_yield [of T k2] by (simp add: op does_def)
  next
    case nz: False
    then show ?thesis using inv1 v1 by (simp add: op does_def)
  qed
qed

lemma notify_finish_does:
  assumes inv: "kernel_inv T k" and x: "xTaskNotifyWait_finish clear k = (v, r, k')"
  shows "kernel_inv T k'" "view T k' = view T k"
    "v = ulNotifiedValue (tcb k (pxCurrentTCB k))" "r \<longleftrightarrow> ucNotifyState (tcb k (pxCurrentTCB k)) = taskNOTIFICATION_RECEIVED"
proof -
  let ?t = "pxCurrentTCB k"
  have k': "k' = note_task ?t taskNOT_WAITING_NOTIFICATION (if r then v AND NOT clear else v) k"
    and vr: "v = ulNotifiedValue (tcb k ?t)" "r \<longleftrightarrow> ucNotifyState (tcb k ?t) = taskNOTIFICATION_RECEIVED"
    using x by (auto simp: xTaskNotifyWait_finish_def note_task_def upd_current_def upd_tcb_def Let_def note_order split: if_splits)
  show "kernel_inv T k'" unfolding k' by (rule note_task_inv [OF inv]) (simp add: taskNOT_WAITING_NOTIFICATION_def taskWAITING_NOTIFICATION_def)
  show "view T k' = view T k" unfolding k' by (rule view_same) (auto simp: note_task_def same_task_def)
  show "v = ulNotifiedValue (tcb k ?t)" "r \<longleftrightarrow> ucNotifyState (tcb k ?t) = taskNOTIFICATION_RECEIVED" by (rule vr)+
qed

text \<open>Readying one task at once.\<close>

lemma ready_now:
  assumes inv: "kernel_inv T k" and t: "t \<in> T" and k': "k' = prvAddTaskToReadyList t (removed t k)"
    and y: "k2 \<in> {k', portYIELD k', k'\<lparr>xYieldPending := True\<rparr>}" "uxPriority (tcb k t) > uxPriority (tcb k (pxCurrentTCB k)) \<Longrightarrow> PENDSVSET k2 \<or> xYieldPending k2"
  shows "kernel_inv T k2" "view T k2 = sp_ready t (view T k)"
proof -
  note wf = kernel_invD(1) [OF inv]
  note u = unblock_ok [OF wf t k']
  have r: "pxCurrentTCB k2 = pxCurrentTCB k" "xTickCount k2 = xTickCount k" "xPendedTicks k2 = xPendedTicks k"
    "uxSchedulerSuspended k2 = uxSchedulerSuspended k" "tcb k2 = tcb k'" "klists k2 = klists k'"
    "pxDelayedTaskList k2 = pxDelayedTaskList k" "pxOverflowDelayedTaskList k2 = pxOverflowDelayedTaskList k"
    "xNextTaskUnblockTime k2 = xNextTaskUnblockTime k" "PENDSVSET k \<Longrightarrow> PENDSVSET k2" "xYieldPending k \<Longrightarrow> xYieldPending k2"
    using u(4,5) y(1) by (auto simp: same_rest_def portYIELD_def)
  have wf2: "kernel_wf {} T k2" using u(2) y(1) by (auto simp: portYIELD_def)
  have "timed k2 x" if "x \<in> T" for x
    by (rule timed_moved [OF kernel_invD(2) [OF inv that]]) (use wf in \<open>auto simp: r u(3) wake_def delayed_def\<close>)
  moreover have "preemptive T k2"
  proof (rule preemptive_readied [OF kernel_invD(4) [OF inv], of t])
    show "PENDSVSET k2 \<or> xYieldPending k2" if "uxPriority (tcb k t) > uxPriority (tcb k (pxCurrentTCB k))"
      using y(2) [OF that] .
  qed (auto simp: r u(3))
  moreover have "list_items PendingReadyList k2 = list_items PendingReadyList k" using u(6) by (simp add: list_items_def r is_event_list_def)
  ultimately show "kernel_inv T k2" using wf2 inv by (simp add: kernel_inv_def r)
  have "view T k2 = (view T k)\<lparr>s_status := (s_status (view T k))(t := status k2 t)\<rparr>"
    by (rule view_moved [OF t]) (auto simp: r u(3) same_task_def)
  moreover have "status k2 t = TReady" by (simp add: status_def ready_def r u(3))
  ultimately show "view T k2 = sp_ready t (view T k)" by (simp add: sp_ready_def)
qed

end
