(* ===== verification/KernelServe.thy ===== *)
theory KernelServe
  imports KernelOps
begin

text \<open>
  The services that wake tasks, directly or through the list of pended tasks, the resuming of the scheduler, and the
  switch of tasks.
\<close>

subsection \<open>Notifications\<close>

text \<open>A task woken while the scheduler is suspended waits on the pending list.\<close>

lemma pend_later:
  assumes inv: "kernel_inv T k" and t: "t \<in> T" and s: "uxSchedulerSuspended k \<noteq> 0"
    and ev: "event_container (tcb k t) = None" and nw: "ucNotifyState (tcb k t) \<noteq> taskWAITING_NOTIFICATION"
    and k2: "k2 = (if y then (event_insert_end PendingReadyList t k)\<lparr>xYieldPending := True\<rparr> else event_insert_end PendingReadyList t k)"
  shows "kernel_inv T k2" "view T k2 = sp_wake t (view T k)"
proof -
  let ?k = "event_insert_end PendingReadyList t k"
  note wf = kernel_invD(1) [OF inv]
  have tc: "tcb ?k = (tcb k)(t := (tcb k t)\<lparr>event_container := Some PendingReadyList\<rparr>)" by (simp add: event_insert_end_def)
  have lo: "lists_ok T ?k" by (rule lists_ok_event_insert(1)) (use wf t ev in \<open>auto simp: kernel_wf_def is_event_list_def\<close>)
  have same: "wake ?k = wake k" "status ?k u = status k u" for u
    by (auto simp: wake_def tc status_def ready_def delayed_def event_insert_end_def)
  have "task_ok {} ?k u" if "u \<in> T" for u
    using wf that nw by (auto simp: kernel_wf_def task_ok_def placed_def ready_def tc) (simp_all add: event_insert_end_def)
  moreover have "wake_sorted L ?k = wake_sorted L k" if "L \<in> {DelayedTaskList1, DelayedTaskList2}" for L
    using that unfolding wake_sorted_def same(1) by (auto simp: event_insert_end_def)
  ultimately have "kernel_wf {} T ?k" using wf lo by (simp add: kernel_wf_def) (simp add: event_insert_end_def)
  moreover have "timed ?k u" if "u \<in> T" for u
    using kernel_invD(2) [OF inv that] by (simp add: timed_def same tc) (auto simp: event_insert_end_def)
  moreover have "preemptive T ?k" using kernel_invD(4) [OF inv] by (auto simp: preemptive_def ready_def tc) (simp_all add: event_insert_end_def)
  ultimately have "kernel_inv T ?k" using s by (simp add: kernel_inv_def event_insert_end_def)
  then show "kernel_inv T k2" by (simp add: k2 kernel_inv_def preemptive_def timed_def wake_def)
  show "view T k2 = sp_wake t (view T k)" using s t same(2)
    by (auto simp: k2 view_def sp_wake_def tc fun_eq_iff status_def ready_def delayed_def wake_def) (simp_all add: event_insert_end_def)
qed

lemma note_split:
  "upd_tcb t (\<lambda>c. c\<lparr>ulNotifiedValue := v\<rparr>) (upd_tcb t (\<lambda>c. c\<lparr>ucNotifyState := st\<rparr>) k) = note_task t st v k"
  by (simp add: note_task_def)

lemma received_not_waiting [simp]: "taskNOTIFICATION_RECEIVED \<noteq> taskWAITING_NOTIFICATION" "taskWAITING_NOTIFICATION \<noteq> taskNOTIFICATION_RECEIVED"
  by (simp_all add: taskNOTIFICATION_RECEIVED_def taskWAITING_NOTIFICATION_def)

lemma note_task_fields [simp]:
  "tcb (note_task t st v k) = (tcb k)(t := (tcb k t)\<lparr>ucNotifyState := st, ulNotifiedValue := v\<rparr>)"
  "pxCurrentTCB (note_task t st v k) = pxCurrentTCB k" "uxSchedulerSuspended (note_task t st v k) = uxSchedulerSuspended k"
  by (simp_all add: note_task_def)

lemma note_task_view: "view T (note_task t st v k) = view T k"
  by (rule view_same) (auto simp: same_task_def note_task_def)

text \<open>Notifying from a task wakes the other at once if it waits for a notification.\<close>

lemma notify_does:
  assumes inv: "kernel_inv T k" and t: "t \<in> T"
  shows "does T (if ucNotifyState (tcb k t) = taskWAITING_NOTIFICATION then sp_ready t else id) k
      (map_option (snd \<circ> snd) (xTaskGenericNotify t v a k))"
proof -
  obtain r w where nv: "notify_value a v (ucNotifyState (tcb k t)) (ulNotifiedValue (tcb k t)) = (r, w)" by fastforce
  define k1 where "k1 = note_task t taskNOTIFICATION_RECEIVED w k"
  have inv1: "kernel_inv T k1" unfolding k1_def by (rule note_task_inv [OF inv]) simp
  have v1: "view T k1 = view T k" by (simp add: k1_def note_task_view)
  have t0: "t \<noteq> 0" using kernel_invD(1) [OF inv] t by (auto simp: kernel_wf_def)
  show ?thesis
  proof (cases "ucNotifyState (tcb k t) = taskWAITING_NOTIFICATION")
    case True
    have ev: "event_container (tcb k t) = None" using kernel_invD(1) [OF inv] t True by (auto simp: kernel_wf_def task_ok_def)
    define k' where "k' = prvAddTaskToReadyList t (removed t k1)"
    note u = unblock_ok [OF kernel_invD(1) [OF inv1] t k'_def]
    define k2 where "k2 = (if uxPriority (tcb k' t) > uxPriority (tcb k' (pxCurrentTCB k')) then portYIELD k' else k')"
    have "xTaskGenericNotify t v a k = Some (ulNotifiedValue (tcb k t), r, k2)"
      using True ev t0 nv u(1) by (simp add: xTaskGenericNotify_def Let_def note_split k1_def k'_def k2_def)
    moreover have "kernel_inv T k2 \<and> view T k2 = sp_ready t (view T k1)"
      by (intro conjI ready_now [OF inv1 t k'_def]) (use u(3,4) in \<open>auto simp: k2_def portYIELD_def same_rest_def split: if_splits\<close>)
    ultimately show ?thesis using True v1 by (simp add: does_def)
  next
    case False
    then have "xTaskGenericNotify t v a k = Some (ulNotifiedValue (tcb k t), r, k1)"
      using t0 nv by (simp add: xTaskGenericNotify_def Let_def note_split k1_def)
    then show ?thesis using False inv1 v1 by (simp add: does_def)
  qed
qed


text \<open>Waking as the interrupts and the queues do it: at once, or through the pending list while the scheduler is suspended.\<close>

lemma wake_ok:
  assumes inv: "kernel_inv T k" and t: "t \<in> T" and ev: "event_container (tcb k t) = None"
    and nw: "ucNotifyState (tcb k t) \<noteq> taskWAITING_NOTIFICATION"
  shows "\<exists>k'. ready_or_pend t k = Some k' \<and>
    (\<forall>u. uxPriority (tcb k' u) = uxPriority (tcb k u)) \<and> pxCurrentTCB k' = pxCurrentTCB k \<and>
    kernel_inv T (if uxPriority (tcb k t) > uxPriority (tcb k (pxCurrentTCB k)) then k'\<lparr>xYieldPending := True\<rparr> else k') \<and>
    view T (if uxPriority (tcb k t) > uxPriority (tcb k (pxCurrentTCB k)) then k'\<lparr>xYieldPending := True\<rparr> else k') = sp_wake t (view T k)"
proof (cases "uxSchedulerSuspended k = 0")
  case True
  define k' where "k' = prvAddTaskToReadyList t (removed t k)"
  note u = unblock_ok [OF kernel_invD(1) [OF inv] t k'_def]
  let ?k2 = "if uxPriority (tcb k t) > uxPriority (tcb k (pxCurrentTCB k)) then k'\<lparr>xYieldPending := True\<rparr> else k'"
  have "kernel_inv T ?k2" "view T ?k2 = sp_ready t (view T k)"
    by (rule ready_now [OF inv t k'_def]; auto)+
  moreover have "sp_wake t (view T k) = sp_ready t (view T k)" using True by (simp add: sp_wake_def view_def)
  moreover have "ready_or_pend t k = Some k'" using True u(1) by (simp add: ready_or_pend_def k'_def)
  moreover have "\<forall>x. uxPriority (tcb k' x) = uxPriority (tcb k x)" "pxCurrentTCB k' = pxCurrentTCB k" using u(3,4) by (auto simp: same_rest_def)
  ultimately show ?thesis by (intro exI [of _ k']) simp
next
  case False
  show ?thesis using False pend_later [OF inv t False ev nw refl, of "uxPriority (tcb k t) > uxPriority (tcb k (pxCurrentTCB k))"]
    by (intro exI [of _ "event_insert_end PendingReadyList t k"]) (simp add: ready_or_pend_def, simp add: event_insert_end_def)
qed

lemma notify_isr_does:
  assumes inv: "kernel_inv T k" and t: "t \<in> T"
  shows "does T (if ucNotifyState (tcb k t) = taskWAITING_NOTIFICATION then sp_wake t else id) k
      (map_option (snd \<circ> snd \<circ> snd) (xTaskGenericNotifyFromISR t v a k))"
proof -
  obtain r w where nv: "notify_value a v (ucNotifyState (tcb k t)) (ulNotifiedValue (tcb k t)) = (r, w)" by fastforce
  define k1 where "k1 = note_task t taskNOTIFICATION_RECEIVED w k"
  have inv1: "kernel_inv T k1" unfolding k1_def by (rule note_task_inv [OF inv]) simp
  have v1: "view T k1 = view T k" by (simp add: k1_def note_task_view)
  have t0: "t \<noteq> 0" using kernel_invD(1) [OF inv] t by (auto simp: kernel_wf_def)
  show ?thesis
  proof (cases "ucNotifyState (tcb k t) = taskWAITING_NOTIFICATION")
    case True
    have ev: "event_container (tcb k t) = None" using kernel_invD(1) [OF inv] t True by (auto simp: kernel_wf_def task_ok_def)
    then have ev1: "event_container (tcb k1 t) = None" "ucNotifyState (tcb k1 t) \<noteq> taskWAITING_NOTIFICATION" by (simp_all add: k1_def)
    obtain k' where k': "ready_or_pend t k1 = Some k'"
      "\<forall>u. uxPriority (tcb k' u) = uxPriority (tcb k1 u)" "pxCurrentTCB k' = pxCurrentTCB k1"
      "kernel_inv T (if uxPriority (tcb k1 t) > uxPriority (tcb k1 (pxCurrentTCB k1)) then k'\<lparr>xYieldPending := True\<rparr> else k')"
      "view T (if uxPriority (tcb k1 t) > uxPriority (tcb k1 (pxCurrentTCB k1)) then k'\<lparr>xYieldPending := True\<rparr> else k') = sp_wake t (view T k1)"
      using wake_ok [OF inv1 t ev1] by blast
    have "map_option (snd \<circ> snd \<circ> snd) (xTaskGenericNotifyFromISR t v a k) =
        Some (if uxPriority (tcb k1 t) > uxPriority (tcb k1 (pxCurrentTCB k1)) then k'\<lparr>xYieldPending := True\<rparr> else k')"
      using True ev ev1(1) t0 nv k'(1-3) by (auto simp: xTaskGenericNotifyFromISR_def Let_def note_split k1_def [symmetric])
    moreover have "does T (sp_wake t) k (Some (if uxPriority (tcb k1 t) > uxPriority (tcb k1 (pxCurrentTCB k1)) then k'\<lparr>xYieldPending := True\<rparr> else k'))"
      using k'(4,5) unfolding v1 by (intro doesI [OF refl])
    ultimately show ?thesis using True by (simp only: if_True simp_thms)
  next
    case False
    then have "xTaskGenericNotifyFromISR t v a k = Some (ulNotifiedValue (tcb k t), r, False, k1)"
      using t0 nv by (simp add: xTaskGenericNotifyFromISR_def Let_def note_split k1_def)
    then show ?thesis using False inv1 v1 by (simp add: does_def)
  qed
qed

subsection \<open>Event lists\<close>

lemma event_removed_inv:
  assumes inv: "kernel_inv T k" and t: "t \<in> T" "event_container (tcb k t) = Some (EventList q)"
  shows "kernel_inv T (event_removed t k)" "view T (event_removed t k) = view T k"
proof -
  have "timed (event_removed t k) u" if "u \<in> T" for u using kernel_invD(2) [OF inv that] by (auto simp: timed_def)
  moreover have "preemptive T (event_removed t k)" using kernel_invD(4) [OF inv] by (auto simp: preemptive_def ready_def)
  moreover have "list_items PendingReadyList (event_removed t k) = list_items PendingReadyList k"
    by (rule event_removed_list) (simp add: t)
  ultimately show "kernel_inv T (event_removed t k)"
    using inv event_removed_wf [OF kernel_invD(1) [OF inv] t(1)] by (simp add: kernel_inv_def)
  have "status (event_removed t k) u = status k u" for u by (auto simp: status_def ready_def delayed_def)
  then show "view T (event_removed t k) = view T k" using t(2) by (auto simp: view_def fun_eq_iff)
qed

text \<open>A queue wakes the first task of its event list.\<close>

lemma remove_from_event_list_does:
  assumes inv: "kernel_inv T k" and L: "list_items (EventList q) k = t # ts"
  shows "t \<in> T" "does T (sp_wake t) k (map_option snd (xTaskRemoveFromEventList q k))"
proof -
  have lo: "lists_ok T k" using kernel_invD(1) [OF inv] by (simp add: kernel_wf_def)
  have t: "t \<in> T" "event_container (tcb k t) = Some (EventList q)"
    using lists_ok_mem(2) [OF lo, of "EventList q" t] L by (auto simp: is_event_list_def)
  show "t \<in> T" by (rule t)
  let ?k = "event_removed t k"
  have nw: "ucNotifyState (tcb k t) \<noteq> taskWAITING_NOTIFICATION" using kernel_invD(1) [OF inv] t by (auto simp: kernel_wf_def task_ok_def)
  obtain k' where k': "ready_or_pend t ?k = Some k'"
      "\<forall>u. uxPriority (tcb k' u) = uxPriority (tcb ?k u)" "pxCurrentTCB k' = pxCurrentTCB ?k"
      "kernel_inv T (if uxPriority (tcb ?k t) > uxPriority (tcb ?k (pxCurrentTCB ?k)) then k'\<lparr>xYieldPending := True\<rparr> else k')"
      "view T (if uxPriority (tcb ?k t) > uxPriority (tcb ?k (pxCurrentTCB ?k)) then k'\<lparr>xYieldPending := True\<rparr> else k') = sp_wake t (view T ?k)"
    using wake_ok [OF event_removed_inv(1) [OF inv t] t(1)] nw by fastforce
  have "map_option snd (xTaskRemoveFromEventList q k) =
      Some (if uxPriority (tcb ?k t) > uxPriority (tcb ?k (pxCurrentTCB ?k)) then k'\<lparr>xYieldPending := True\<rparr> else k')"
    using k'(1-3) event_remove_removed [of k t] t(2) by (simp add: xTaskRemoveFromEventList_def L)
  moreover have "does T (sp_wake t) k (Some (if uxPriority (tcb ?k t) > uxPriority (tcb ?k (pxCurrentTCB ?k)) then k'\<lparr>xYieldPending := True\<rparr> else k'))"
    using k'(4,5) unfolding event_removed_inv(2) [OF inv t] by (intro doesI [OF refl])
  ultimately show "does T (sp_wake t) k (map_option snd (xTaskRemoveFromEventList q k))" by (simp only:)
qed


text \<open>Waiting on an event list: the task is put there and blocked, or blocked for ever.\<close>

lemma event_placed_wf:
  assumes inv: "kernel_inv T k" and t: "t \<in> T" and ev: "event_container (tcb k t) = None"
    and nw: "ucNotifyState (tcb k t) \<noteq> taskWAITING_NOTIFICATION"
    and k': "k' = event_insert_end (EventList q) t k \<or> k' = event_insert (EventList q) t k"
  shows "kernel_inv T k'" "view T k' = view T k" "pxCurrentTCB k' = pxCurrentTCB k"
proof -
  note wf = kernel_invD(1) [OF inv]
  have tc: "tcb k' = (tcb k)(t := (tcb k t)\<lparr>event_container := Some (EventList q)\<rparr>)" and r: "same_rest k k'"
    "uxTopReadyPriority k' = uxTopReadyPriority k" "xNextTaskUnblockTime k' = xNextTaskUnblockTime k"
    and l: "\<And>L. \<forall>p. L \<noteq> EventList p \<Longrightarrow> list_items L k' = list_items L k"
    using k' by (auto simp: event_insert_end_def event_insert_def same_rest_def)
  have wk: "wake k' = wake k" by (auto simp: wake_def tc)
  have lo: "lists_ok T k'" using k' lists_ok_event_insert [OF wf_lists [OF wf] t ev, of "EventList q"] by (auto simp: is_event_list_def)
  have "task_ok {} k' u" if "u \<in> T" for u
    using wf that nw r(2) by (auto simp: kernel_wf_def task_ok_def placed_def ready_def tc)
  then have "kernel_wf {} T k'" using wf lo r by (simp add: kernel_wf_def wake_sorted_def wk l same_rest_def)
  moreover have "timed k' u" if "u \<in> T" for u
    by (rule timed_moved [OF kernel_invD(2) [OF inv that]]) (use r wf in \<open>auto simp: wk same_rest_def tc\<close>)
  moreover have "preemptive T k'" using kernel_invD(4) [OF inv] r by (auto simp: preemptive_def ready_def tc same_rest_def)
  ultimately show "kernel_inv T k'" using inv r l [of PendingReadyList] by (simp add: kernel_inv_def same_rest_def)
  have "status k' u = status k u" for u using r by (intro status_cong) (auto simp: tc same_rest_def)
  then show "view T k' = view T k" using r ev by (auto simp: view_def tc same_rest_def fun_eq_iff)
  show "pxCurrentTCB k' = pxCurrentTCB k" using r by (simp add: same_rest_def)
qed

lemma place_does:
  assumes inv: "kernel_inv T k" and ev: "event_container (tcb k (pxCurrentTCB k)) = None"
    and nw: "ucNotifyState (tcb k (pxCurrentTCB k)) \<noteq> taskWAITING_NOTIFICATION"
  shows "0 < n \<Longrightarrow> does T (sp_block (pxCurrentTCB k) n True) k (vTaskPlaceOnEventList q n k)"
    "forever \<or> 0 < n \<Longrightarrow> does T (sp_block (pxCurrentTCB k) (if forever then portMAX_DELAY else n) forever) k (vTaskPlaceOnEventListRestricted q n forever k)"
proof -
  note p = event_placed_wf [OF inv kernel_invD(3) [OF inv] ev nw]
  show "does T (sp_block (pxCurrentTCB k) n True) k (vTaskPlaceOnEventList q n k)" if n: "0 < n"
    using block_does [OF p(1) n, of "event_insert (EventList q) (pxCurrentTCB k) k" q True]
      p(2,3) [of "event_insert (EventList q) (pxCurrentTCB k) k" q] by (simp add: does_def vTaskPlaceOnEventList_def split: option.splits)
  show "does T (sp_block (pxCurrentTCB k) (if forever then portMAX_DELAY else n) forever) k (vTaskPlaceOnEventListRestricted q n forever k)" if n: "forever \<or> 0 < n"
  proof -
    have n2: "0 < (if forever then portMAX_DELAY else n)" using n by (auto simp: portMAX_DELAY_def)
    show ?thesis
      using block_does [OF p(1) n2, of "event_insert_end (EventList q) (pxCurrentTCB k) k" q forever]
        p(2,3) [of "event_insert_end (EventList q) (pxCurrentTCB k) k" q] by (cases forever) (simp_all add: does_def vTaskPlaceOnEventListRestricted_def Let_def split: option.splits)
  qed
qed

subsection \<open>Task switches\<close>

lemma suspend_does:
  assumes inv: "kernel_inv T k" and d: "uxSchedulerSuspended k \<noteq> 0xffffffff"
  shows "does T sp_suspend k (Some (vTaskSuspendAll k))"
proof -
  have "uxSchedulerSuspended k + 1 \<noteq> 0" using d by (metis add_diff_cancel max_u32 diff_0)
  then show ?thesis using inv
    by (auto simp: does_def kernel_inv_def vTaskSuspendAll_def preemptive_def timed_def wake_def ready_def view_def sp_suspend_def status_def delayed_def fun_eq_iff)
qed

text \<open>The search for the highest ready priority ends, because some task is ready and none is above the recorded priority.\<close>

lemma highest_ready_ends:
  "list_items (ReadyTasksLists p) k \<noteq> [] \<Longrightarrow> p \<le> p0 \<Longrightarrow> (\<forall>q. list_items (ReadyTasksLists q) k \<noteq> [] \<longrightarrow> q \<le> p0) \<Longrightarrow>
   \<exists>h. highest_ready k p0 = Some h \<and> list_items (ReadyTasksLists h) k \<noteq> [] \<and> (\<forall>q. list_items (ReadyTasksLists q) k \<noteq> [] \<longrightarrow> q \<le> h)"
proof (induction "unat p0" arbitrary: p0)
  case 0
  then have "p0 = 0" "p = 0" by (auto simp: word_le_nat_alt unat_eq_zero)
  then show ?case using 0 by (subst highest_ready.simps) auto
next
  case (Suc n)
  show ?case
  proof (cases "list_items (ReadyTasksLists p0) k = []")
    case False
    then show ?thesis using Suc.prems by (subst highest_ready.simps) auto
  next
    case True
    have nz: "p0 \<noteq> 0" using Suc.hyps(2) by auto
    have u: "unat (p0 - 1) = n" using Suc.hyps(2) unat_pred [OF nz] by simp
    have le: "q \<le> p0 - 1" if "list_items (ReadyTasksLists q) k \<noteq> []" for q
    proof -
      have "q \<le> p0" "q \<noteq> p0" using Suc.prems(3) that True by auto
      then have "q < p0" by simp
      then have "unat q < unat p0" by (simp only: word_less_nat_alt)
      then show ?thesis using u Suc.hyps(2) by (simp add: word_le_nat_alt)
    qed
    show ?thesis using Suc.hyps(1) [of "p0 - 1"] u Suc.prems(1) le True nz by (subst highest_ready.simps) auto
  qed
qed


text \<open>The switch: the first task of the highest ready priority after the last one that ran.\<close>

definition best :: "u32 set \<Rightarrow> kernel \<Rightarrow> u32 \<Rightarrow> bool" where
  "best T k t \<longleftrightarrow> t \<in> T \<and> ready k t \<and> (\<forall>u \<in> T. ready k u \<longrightarrow> uxPriority (tcb k u) \<le> uxPriority (tcb k t))"

lemma ready_lists:
  "kernel_wf {} T k \<Longrightarrow> t \<in> set (list_items (ReadyTasksLists p) k) \<longleftrightarrow> t \<in> T \<and> ready k t \<and> uxPriority (tcb k t) = p"
proof -
  assume wf: "kernel_wf {} T k"
  have "t \<in> set (list_items (ReadyTasksLists p) k) \<longleftrightarrow> t \<in> T \<and> state_container (tcb k t) = Some (ReadyTasksLists p)"
    using lists_ok_mem(1) [OF wf_lists [OF wf], of "ReadyTasksLists p" t] by (simp add: is_event_list_def)
  moreover have "t \<in> T \<Longrightarrow> state_container (tcb k t) = Some (ReadyTasksLists p) \<Longrightarrow> uxPriority (tcb k t) = p"
    using wf by (auto simp: kernel_wf_def task_ok_def placed_def ready_def)
  ultimately show ?thesis by (auto simp: ready_def)
qed

lemma advance_linked:
  assumes wf: "kernel_wf {} T k" and ne: "list_items L k \<noteq> []"
  shows "kernel_wf {} T (upd_list L kl_advance k)"
proof -
  define k2 where "k2 = upd_list L kl_advance k"
  have li: "list_items M k2 = list_items M k" for M by (simp add: list_items_def k2_def)
  have ok: "kl_ok (klists k2 M)" for M
    using lists_ok_mem(3) [OF wf_lists [OF wf]] kl_ok_ops(5) [of "klists k L"] ne by (simp add: list_items_def k2_def)
  have f: "tcb k2 = tcb k" "wake k2 = wake k" "same_rest k k2" "uxTopReadyPriority k2 = uxTopReadyPriority k"
    by (simp_all add: k2_def wake_def fun_eq_iff same_rest_def)
  have "lists_ok T k2" using wf_lists [OF wf] ok by (simp add: lists_ok_def linked_def li f)
  then have "kernel_wf {} T k2" using wf f(3) by (simp add: kernel_wf_def li task_ok_def placed_def ready_def wake_sorted_def f same_rest_def)
  then show ?thesis by (simp only: k2_def)
qed

lemma select_ok:
  assumes wf: "kernel_wf {} T k" and t: "t \<in> T" "ready k t"
  shows "\<exists>k'. taskSELECT_HIGHEST_PRIORITY_TASK k = Some k' \<and> kernel_wf {} T k' \<and> tcb k' = tcb k \<and> best T k (pxCurrentTCB k') \<and>
    k' = (upd_list (ReadyTasksLists (uxPriority (tcb k (pxCurrentTCB k')))) kl_advance k)
      \<lparr>pxCurrentTCB := kl_next (klists k (ReadyTasksLists (uxPriority (tcb k (pxCurrentTCB k'))))),
       uxTopReadyPriority := uxPriority (tcb k (pxCurrentTCB k'))\<rparr>"
proof -
  have rl: "list_items (ReadyTasksLists q) k \<noteq> [] \<Longrightarrow> \<exists>u \<in> T. ready k u \<and> uxPriority (tcb k u) = q" for q
    using ready_lists [OF wf, of _ q] by (metis list.set_intros(1) neq_Nil_conv)
  have top: "u \<in> T \<Longrightarrow> ready k u \<Longrightarrow> uxPriority (tcb k u) \<le> uxTopReadyPriority k" for u
    using wf by (auto simp: kernel_wf_def task_ok_def)
  have "list_items (ReadyTasksLists (uxPriority (tcb k t))) k \<noteq> []"
    using ready_lists [OF wf, of t "uxPriority (tcb k t)"] t by (metis empty_iff list.set(1))
  from highest_ready_ends [OF this top [OF t]] obtain h where
    h: "highest_ready k (uxTopReadyPriority k) = Some h" "list_items (ReadyTasksLists h) k \<noteq> []"
      "\<forall>q. list_items (ReadyTasksLists q) k \<noteq> [] \<longrightarrow> q \<le> h" using rl top by metis
  let ?L = "ReadyTasksLists h" let ?n = "kl_next (klists k ?L)"
  have "?n \<in> set (list_items ?L k)" using kl_next_in [OF lists_ok_mem(3) [OF wf_lists [OF wf]]] h(2) by (simp add: list_items_def)
  then have n: "?n \<in> T" "ready k ?n" "uxPriority (tcb k ?n) = h" using ready_lists [OF wf] by auto
  have hi: "uxPriority (tcb k u) \<le> h" if "u \<in> T" "ready k u" for u
    using h(3) ready_lists [OF wf, of u "uxPriority (tcb k u)"] that by (metis empty_iff list.set(1))
  define k' where "k' = (upd_list ?L kl_advance k)\<lparr>pxCurrentTCB := ?n, uxTopReadyPriority := h\<rparr>"
  have "taskSELECT_HIGHEST_PRIORITY_TASK k = Some k'" using h(1) by (simp add: taskSELECT_HIGHEST_PRIORITY_TASK_def k'_def Let_def)
  moreover have "best T k ?n" using n hi by (simp add: best_def)
  moreover have hM: "h < configMAX_PRIORITIES" using wf n by (auto simp: kernel_wf_def task_ok_def)
  have "kernel_wf {} T k'" using advance_linked [OF wf h(2)] n(1) hM hi
    by (auto simp: kernel_wf_def k'_def lists_ok_def linked_def task_ok_def placed_def ready_def wake_sorted_def wake_def cong: map_cong)
  ultimately show ?thesis by (intro exI [of _ k']) (simp add: k'_def n)
qed


text \<open>The switch takes a ready task that nobody ready outranks; while the scheduler is suspended it is put off.\<close>

lemma switch_does:
  assumes inv: "kernel_inv T k" and t: "t \<in> T" "ready k t"
  shows "\<exists>k'. xPortPendSVHandler k = Some k' \<and> kernel_inv T k' \<and> view T k' = view T k \<and> tcb k' = tcb k \<and>
    (if uxSchedulerSuspended k = 0 then best T k (pxCurrentTCB k') \<and> uxSchedulerSuspended k' = 0 \<and>
       (let L = ReadyTasksLists (uxPriority (tcb k (pxCurrentTCB k')))
        in pxCurrentTCB k' = kl_next (klists k L) \<and> klists k' = (klists k)(L := kl_advance (klists k L)))
     else pxCurrentTCB k' = pxCurrentTCB k \<and> xYieldPending k')"
proof (cases "uxSchedulerSuspended k = 0")
  case False
  then show ?thesis using inv
    by (auto simp: xPortPendSVHandler_def vTaskSwitchContext_def kernel_inv_def preemptive_def timed_def wake_def view_def
        status_def ready_def delayed_def fun_eq_iff)
next
  case True
  let ?k = "k\<lparr>PENDSVSET := False, xYieldPending := False\<rparr>"
  have wf: "kernel_wf {} T ?k" using kernel_invD(1) [OF inv] by simp
  have t': "ready ?k t" using t(2) by (simp add: ready_def)
  obtain k' where k': "taskSELECT_HIGHEST_PRIORITY_TASK ?k = Some k'" "kernel_wf {} T k'" "tcb k' = tcb ?k" "best T ?k (pxCurrentTCB k')"
    "k' = (upd_list (ReadyTasksLists (uxPriority (tcb ?k (pxCurrentTCB k')))) kl_advance ?k)
      \<lparr>pxCurrentTCB := kl_next (klists ?k (ReadyTasksLists (uxPriority (tcb ?k (pxCurrentTCB k'))))),
       uxTopReadyPriority := uxPriority (tcb ?k (pxCurrentTCB k'))\<rparr>"
    using select_ok [OF wf t(1) t'] by blast
  have r: "xTickCount k' = xTickCount k" "xPendedTicks k' = xPendedTicks k" "uxSchedulerSuspended k' = 0" "tcb k' = tcb k"
    "pxDelayedTaskList k' = pxDelayedTaskList k" "pxOverflowDelayedTaskList k' = pxOverflowDelayedTaskList k"
    "xNextTaskUnblockTime k' = xNextTaskUnblockTime k" "list_items PendingReadyList k' = list_items PendingReadyList k"
    using k'(3) True by (subst k'(5), simp)+
  have st: "ready k' = ready k" "delayed k' = delayed k" "wake k' = wake k" "ready ?k = ready k"
    by (simp_all add: ready_def delayed_def wake_def r fun_eq_iff)
  have b: "best T k (pxCurrentTCB k')" using k'(4) by (simp add: best_def st)
  have "preemptive T k'" using b by (simp add: preemptive_def best_def st r)
  moreover have "timed k' u" if "u \<in> T" for u using kernel_invD(2) [OF inv that] by (simp add: timed_def st r)
  ultimately have "kernel_inv T k'" using k'(2) kernel_invD(5,6) [OF inv True] by (simp add: kernel_inv_def r)
  moreover have "view T k' = view T k" using True by (simp add: view_def status_def st r fun_eq_iff)
  moreover have "xPortPendSVHandler k = Some k'" using True k'(1) by (simp add: xPortPendSVHandler_def vTaskSwitchContext_def)
  moreover have "pxCurrentTCB k' = kl_next (klists k (ReadyTasksLists (uxPriority (tcb k (pxCurrentTCB k')))))"
    "klists k' = (klists k)(ReadyTasksLists (uxPriority (tcb k (pxCurrentTCB k'))) :=
       kl_advance (klists k (ReadyTasksLists (uxPriority (tcb k (pxCurrentTCB k'))))))"
    by (subst k'(5), simp)+
  ultimately show ?thesis using True b r(3,4) by (auto simp: Let_def)
qed

subsection \<open>Resuming the scheduler\<close>

lemma move_one:
  assumes res: "resuming T k" and L: "list_items PendingReadyList k = t # ts"
  shows "\<exists>k1. move_pended moved k = move_pended True k1 \<and> resuming T k1 \<and> list_items PendingReadyList k1 = ts \<and> t \<in> T \<and>
    tcb k1 = (tcb k)(t := woken (tcb k t)) \<and> xTickCount k1 = xTickCount k \<and> xPendedTicks k1 = xPendedTicks k \<and>
    uxSchedulerSuspended k1 = uxSchedulerSuspended k \<and> event_container (tcb k t) = Some PendingReadyList"
proof -
  have wf: "kernel_wf {} T k" and tm: "\<And>u. u \<in> T \<Longrightarrow> timed k u" and pr: "preemptive T k" using res by (auto simp: resuming_def)
  note lo = wf_lists [OF wf]
  have t: "t \<in> T" "event_container (tcb k t) = Some PendingReadyList"
    using lists_ok_mem(2) [OF lo, of PendingReadyList t] L by (auto simp: is_event_list_def)
  have dist: "t \<notin> set ts" using lists_ok_mem(3) [OF lo, of PendingReadyList] L by (simp add: kl_ok_def list_items_def)
  define k0 where "k0 = prvAddTaskToReadyList t (removed t (event_removed t k))"
  note u = unblock_ok [OF event_removed_wf [OF wf t(1)] t(1) k0_def]
  have tc: "tcb k0 = (tcb k)(t := woken (tcb k t))" by (cases "tcb k t") (simp add: u(3) woken_def)
  have r: "same_rest k k0" "xNextTaskUnblockTime k0 = xNextTaskUnblockTime k" using u(4,5) by (auto simp: same_rest_def)
  define k1 where "k1 = (if uxPriority (tcb k0 t) \<ge> uxPriority (tcb k0 (pxCurrentTCB k0)) then k0\<lparr>xYieldPending := True\<rparr> else k0)"
  have op: "move_pended moved k = move_pended True k1"
    using L event_remove_removed [of k t] t(2) u(1) by (subst move_pended.simps) (simp add: k1_def k0_def Let_def)
  have f: "tcb k1 = tcb k0" "same_rest k0 (k1\<lparr>xYieldPending := xYieldPending k0\<rparr>)" "xNextTaskUnblockTime k1 = xNextTaskUnblockTime k0"
    "list_items PendingReadyList k1 = list_items PendingReadyList k0" by (auto simp: k1_def same_rest_def)
  have "kernel_wf {} T k1" using u(2) by (simp add: k1_def)
  moreover have "timed k1 x" if "x \<in> T" for x
    by (rule timed_moved [OF tm [OF that]]) (use wf r f in \<open>auto simp: same_rest_def wake_def delayed_def tc\<close>)
  moreover have "preemptive T k1"
  proof (rule preemptive_readied [OF pr, of t])
    show "PENDSVSET k1 \<or> xYieldPending k1" if "uxPriority (tcb k t) > uxPriority (tcb k (pxCurrentTCB k))"
      using that r(1) by (auto simp: k1_def tc same_rest_def)
  qed (use r f in \<open>auto simp: tc same_rest_def k1_def\<close>)
  moreover have "list_items PendingReadyList k0 = ts"
    using u(6) [of PendingReadyList] t(2) L dist by (simp add: list_items_def is_event_list_def event_removed_def filter_id_conv) (metis)
  ultimately show ?thesis using op t f r(1) by (intro exI [of _ k1]) (simp add: resuming_def tc same_rest_def)
qed


lemma move_pended_ok:
  "resuming T k \<Longrightarrow> \<exists>k'. move_pended moved k = Some (moved \<or> list_items PendingReadyList k \<noteq> [], k') \<and> resuming T k' \<and>
     list_items PendingReadyList k' = [] \<and>
     (\<forall>t. tcb k' t = (if t \<in> T \<and> event_container (tcb k t) = Some PendingReadyList then woken (tcb k t) else tcb k t)) \<and>
     xTickCount k' = xTickCount k \<and> xPendedTicks k' = xPendedTicks k \<and> uxSchedulerSuspended k' = uxSchedulerSuspended k"
proof (induction "list_items PendingReadyList k" arbitrary: k moved)
  case Nil
  have "\<forall>t \<in> T. event_container (tcb k t) \<noteq> Some PendingReadyList"
    using pended_none [OF wf_lists [OF resumingD(1) [OF Nil.prems]]] Nil.hyps by simp
  then show ?case using Nil.hyps [symmetric] Nil.prems by (subst move_pended.simps) auto
next
  case (Cons t ts)
  obtain k1 where k1: "move_pended moved k = move_pended True k1" "resuming T k1" "list_items PendingReadyList k1 = ts" "t \<in> T"
    "tcb k1 = (tcb k)(t := woken (tcb k t))" "xTickCount k1 = xTickCount k" "xPendedTicks k1 = xPendedTicks k"
    "uxSchedulerSuspended k1 = uxSchedulerSuspended k" "event_container (tcb k t) = Some PendingReadyList"
    using move_one [OF Cons.prems Cons.hyps(2) [symmetric], of moved] by blast
  show ?case using Cons.hyps(1) [OF k1(3) [symmetric] k1(2), of True] k1 Cons.hyps(2) [symmetric] by auto
qed

lemma status_fields [simp]:
  "status (k\<lparr>xYieldPending := b\<rparr>) t = status k t" "status (k\<lparr>PENDSVSET := b\<rparr>) t = status k t"
  "status (k\<lparr>xPendedTicks := a\<rparr>) t = status k t" "status (k\<lparr>uxSchedulerSuspended := a\<rparr>) t = status k t"
  "status (k\<lparr>xNextTaskUnblockTime := a\<rparr>) t = status k t"
  by (simp_all add: status_def ready_def delayed_def wake_def)

lemma resuming_fields [simp]:
  "resuming T (k\<lparr>xPendedTicks := a\<rparr>) = resuming T k" "resuming T (k\<lparr>uxSchedulerSuspended := a\<rparr>) = resuming T k"
  by (simp_all add: resuming_def timed_def preemptive_def ready_def wake_def)

lemma reset_next_ok: "resuming T k \<Longrightarrow> resuming T (prvResetNextTaskUnblockTime k)"
proof -
  assume res: "resuming T k"
  note wf = resumingD(1) [OF res]
  have "(case list_items (pxDelayedTaskList k) k of [] \<Rightarrow> portMAX_DELAY | t # _ \<Rightarrow> state_value (tcb k t)) \<le> wake k u"
    if "u \<in> T" "state_container (tcb k u) = Some (pxDelayedTaskList k)" for u
  proof -
    have "u \<in> set (list_items (pxDelayedTaskList k) k)" using delayed_list(1) [OF wf] that by blast
    then show ?thesis using delayed_list(2) [OF wf] by (auto simp: wake_sorted_def wake_def [symmetric] split: list.splits)
  qed
  then have "timed (prvResetNextTaskUnblockTime k) u" if "u \<in> T" for u
    using resumingD(2) [OF res that] that by (auto simp: prvResetNextTaskUnblockTime_def timed_def wake_def)
  then show ?thesis using res by (simp add: resuming_def prvResetNextTaskUnblockTime_def preemptive_def ready_def)
qed

text \<open>The ticks that were pended are worked off one by one.\<close>

lemma pended_ticks_ok:
  "resuming T k \<Longrightarrow> uxSchedulerSuspended k = 0 \<Longrightarrow> list_items PendingReadyList k = [] \<Longrightarrow>
   \<exists>k'. pended_ticks n k = Some k' \<and> resuming T k' \<and> list_items PendingReadyList k' = [] \<and> uxSchedulerSuspended k' = 0 \<and>
     (\<forall>t \<in> T. status k' t = (countdown ^^ n) (status k t))"
proof (induction n arbitrary: k)
  case 0
  then show ?case by simp
next
  case (Suc n)
  obtain sw k1 where k1: "xTaskIncrementTick k = Some (sw, k1)" "ticked T k k1" "\<not> sw \<longrightarrow> preemptive T k1" "list_items PendingReadyList k1 = []"
    using tick_step [OF Suc.prems] by blast
  define k2 where "k2 = (if sw then k1\<lparr>xYieldPending := True\<rparr> else k1)"
  have p: "kernel_wf {} T k1" "\<forall>t \<in> T. timed k1 t" using k1(2) by (simp_all add: ticked_def)
  have "resuming T k2" by (cases sw) (use p k1(3) in \<open>simp_all add: resuming_def k2_def timed_def preemptive_def wake_def\<close>)
  moreover have "uxSchedulerSuspended k2 = 0" "list_items PendingReadyList k2 = []" using k1(2,4) Suc.prems(2) by (auto simp: k2_def ticked_def)
  ultimately obtain k' where k': "pended_ticks n k2 = Some k'" "resuming T k'" "list_items PendingReadyList k' = []" "uxSchedulerSuspended k' = 0"
    "\<forall>t \<in> T. status k' t = (countdown ^^ n) (status k2 t)" using Suc.IH by blast
  have "status k2 t = countdown (status k t)" if "t \<in> T" for t
    using ticked_status [OF resumingD(1) [OF Suc.prems(1)] resumingD(2) [OF Suc.prems(1) that] k1(2) that]
    by (simp add: k2_def)
  then show ?case using k' k1(1) by (auto simp: k2_def [symmetric] funpow_swap1)
qed

lemma countdown_iter [simp]:
  "(countdown ^^ n) TReady = TReady" "(countdown ^^ n) TForever = TForever"
  by (induction n) simp_all

lemma countdown_blocked: "0 < m \<Longrightarrow> (countdown ^^ n) (TBlocked m) = (if n < m then TBlocked (m - n) else TReady)"
  by (induction n) (auto simp: le_Suc_eq)

text \<open>Resuming: the tasks woken meanwhile become ready, the ticks that came meanwhile count.\<close>

lemma resume_does:
  assumes inv: "kernel_inv T k" and d: "uxSchedulerSuspended k \<noteq> 0"
  shows "\<exists>y k'. xTaskResumeAll k = Some (y, k') \<and> kernel_inv T k' \<and> view T k' = sp_resume (view T k) \<and> (y \<longrightarrow> PENDSVSET k')"
proof -
  let ?k = "k\<lparr>uxSchedulerSuspended := uxSchedulerSuspended k - 1\<rparr>"
  have res: "resuming T ?k" using inv by (simp add: inv_resuming)
  have cnt: "uxCurrentNumberOfTasks k > 0" using kernel_invD(1) [OF inv] by (simp add: kernel_wf_def word_gt_0)
  show ?thesis
  proof (cases "uxSchedulerSuspended k = 1")
    case False
    then have "uxSchedulerSuspended k - 1 \<noteq> 0" by simp
    then have "xTaskResumeAll k = Some (False, ?k)" using d by (simp add: xTaskResumeAll_def Let_def)
    moreover have "kernel_inv T ?k" using res False by (simp add: inv_resuming)
    moreover have "view T ?k = sp_resume (view T k)" using False by (simp add: view_def sp_resume_def fun_eq_iff)
    ultimately show ?thesis by blast
  next
    case True
    obtain moved k1 where k1: "move_pended False ?k = Some (moved, k1)" "resuming T k1" "list_items PendingReadyList k1 = []"
      "\<forall>t. tcb k1 t = (if t \<in> T \<and> event_container (tcb k t) = Some PendingReadyList then woken (tcb k t) else tcb k t)"
      "xTickCount k1 = xTickCount k" "xPendedTicks k1 = xPendedTicks k" "uxSchedulerSuspended k1 = 0"
      using move_pended_ok [OF res, of False] True by auto
    define k2 where "k2 = (if moved then prvResetNextTaskUnblockTime k1 else k1)"
    have k2: "resuming T k2" "list_items PendingReadyList k2 = []" "uxSchedulerSuspended k2 = 0" "xPendedTicks k2 = xPendedTicks k"
      using k1 reset_next_ok [OF k1(2)] by (auto simp: k2_def prvResetNextTaskUnblockTime_def)
    have s2: "status k2 t = (if event_container (tcb k t) = Some PendingReadyList then TReady else status k t)" if "t \<in> T" for t
      using k1(4,5) that by (auto simp: k2_def prvResetNextTaskUnblockTime_def status_def ready_def delayed_def wake_def)
    obtain k3 where k3: "pended_ticks (unat (xPendedTicks k)) k2 = Some k3" "resuming T k3" "list_items PendingReadyList k3 = []"
      "uxSchedulerSuspended k3 = 0" "\<forall>t \<in> T. status k3 t = (countdown ^^ unat (xPendedTicks k)) (status k2 t)"
      using pended_ticks_ok [OF k2(1,3,2)] by blast
    define k4 where "k4 = (if xPendedTicks k > 0 then k3\<lparr>xPendedTicks := 0\<rparr> else k2)"
    have k32: "xPendedTicks k = 0 \<Longrightarrow> k3 = k2" using k3(1) by simp
    have k4: "resuming T k4" "list_items PendingReadyList k4 = []" "uxSchedulerSuspended k4 = 0" "xPendedTicks k4 = 0"
      using k2 k3 by (auto simp: k4_def word_gt_0)
    have s4: "status k4 t = (countdown ^^ unat (xPendedTicks k)) (if event_container (tcb k t) = Some PendingReadyList then TReady else status k t)"
      if "t \<in> T" for t
      using k3(5) s2 [OF that] that k32 by (auto simp: k4_def word_gt_0)
    have inv4: "kernel_inv T k4" using k4 by (simp add: inv_resuming)
    have none: "\<forall>t \<in> T. event_container (tcb k4 t) \<noteq> Some PendingReadyList"
      using pended_none [OF wf_lists [OF resumingD(1) [OF k4(1)]]] k4(2) by simp
    have "view T k4 = sp_resume (view T k)" using True s4 none k4(3,4) by (auto simp: view_def sp_resume_def fun_eq_iff)
    moreover have "xTaskResumeAll k = Some (if xYieldPending k4 then (True, portYIELD k4) else (False, k4))"
      using True d cnt k1(1) k2(4) k3(1) by (simp add: xTaskResumeAll_def Let_def k2_def k4_def)
    ultimately show ?thesis using inv4 inv_yield(1) [OF inv4] inv_yield(2) [of T k4]
      by (cases "xYieldPending k4") (auto simp: portYIELD_def)
  qed
qed

end
