(* ===== verification/KernelRun.thy ===== *)
theory KernelRun
  imports KernelServe
begin

text \<open>
  The kernel as a whole: creating tasks and starting, every sequence of calls and interrupts, what delays and
  time slices mean for the tasks.
\<close>

subsection \<open>Starting\<close>

text \<open>
  The kernel's variables before the first task is created, as the startup code clears them; the event lists are
  initialised with their queues, and there are no ready lists beyond the priorities.
\<close>

definition fresh :: "kernel \<Rightarrow> bool" where
  "fresh k \<longleftrightarrow> pxCurrentTCB k = 0 \<and> uxCurrentNumberOfTasks k = 0 \<and> xTickCount k = 0 \<and> uxTopReadyPriority k = 0 \<and>
     \<not> xSchedulerRunning k \<and> xPendedTicks k = 0 \<and> uxSchedulerSuspended k = 0 \<and>
     (\<forall>q. klists k (EventList q) = kl_empty) \<and> (\<forall>p. configMAX_PRIORITIES \<le> p \<longrightarrow> klists k (ReadyTasksLists p) = kl_empty)"

lemma new_task_fields [simp]:
  "pxCurrentTCB (prvInitialiseNewTask t p k) = pxCurrentTCB k" "klists (prvInitialiseNewTask t p k) = klists k"
  "list_items L (prvInitialiseNewTask t p k) = list_items L k" "same_rest k (prvInitialiseNewTask t p k)"
  "uxTopReadyPriority (prvInitialiseNewTask t p k) = uxTopReadyPriority k"
  "xNextTaskUnblockTime (prvInitialiseNewTask t p k) = xNextTaskUnblockTime k"
  by (simp_all add: prvInitialiseNewTask_def Let_def same_rest_def)

definition new_tcb :: "TCB_t \<Rightarrow> bool" where
  "new_tcb c \<longleftrightarrow> uxPriority c < configMAX_PRIORITIES \<and> state_container c = None \<and> event_container c = None \<and>
     ucNotifyState c = taskNOT_WAITING_NOTIFICATION"

lemma new_task_tcb:
  "u \<noteq> t \<Longrightarrow> tcb (prvInitialiseNewTask t p k) u = tcb k u" "new_tcb (tcb (prvInitialiseNewTask t p k) t)"
proof -
  show "u \<noteq> t \<Longrightarrow> tcb (prvInitialiseNewTask t p k) u = tcb k u" by (simp add: prvInitialiseNewTask_def Let_def)
  have "p < 56 \<or> 56 \<le> p" by auto
  then show "new_tcb (tcb (prvInitialiseNewTask t p k) t)"
    by (auto simp: new_tcb_def prvInitialiseNewTask_def Let_def configMAX_PRIORITIES_def not_le)
qed

text \<open>A new task is well-formed as one that is being moved.\<close>

lemma new_task_wf:
  assumes wf: "kernel_wf {} T k" and t: "t \<notin> T" "t \<noteq> 0"
  shows "kernel_wf {t} (insert t T) (prvInitialiseNewTask t p k)"
proof -
  let ?k = "prvInitialiseNewTask t p k"
  note n = new_task_tcb(1) [of _ t p k] new_task_tcb(2) [of t p k]
  have r: "same_rest k ?k" by simp
  have "lists_ok (insert t T) ?k" unfolding lists_ok_def linked_def
    using wf_lists [OF wf] t(1) n by (auto simp: lists_ok_def linked_def new_tcb_def) (metis n(1))+
  moreover have "task_ok {t} ?k u" if "u \<in> insert t T" for u
    using wf n that t by (cases "u = t") (auto simp: kernel_wf_def task_ok_def placed_def ready_def new_tcb_def
        taskNOT_WAITING_NOTIFICATION_def taskWAITING_NOTIFICATION_def)
  moreover have "wake_sorted L ?k = wake_sorted L k" if "\<not> is_event_list L" for L
  proof -
    have "t \<notin> set (list_items L k)" using lists_ok_mem(1) [OF wf_lists [OF wf] that] t(1) by blast
    then have "wake ?k u = wake k u" if "u \<in> set (list_items L k)" for u using that by (metis n(1) wake_def)
    then have "map (wake ?k) (list_items L k) = map (wake k) (list_items L k)" by (rule map_cong [OF refl])
    then show ?thesis unfolding wake_sorted_def new_task_fields by (simp only:)
  qed
  ultimately show ?thesis using wf r t(2) by (auto simp: kernel_wf_def same_rest_def is_event_list_def)
qed

text \<open>While tasks are created all of them are ready.\<close>

definition starting :: "u32 set \<Rightarrow> kernel \<Rightarrow> bool" where
  "starting T k \<longleftrightarrow> kernel_wf {} T k \<and> (\<forall>t \<in> T. ready k t \<and> event_container (tcb k t) = None) \<and>
     (\<forall>t \<in> T. uxPriority (tcb k t) \<le> uxPriority (tcb k (pxCurrentTCB k))) \<and>
     \<not> xSchedulerRunning k \<and> uxSchedulerSuspended k = 0 \<and> xPendedTicks k = 0"

lemma starting_inv:
  assumes "starting T k" shows "kernel_inv T k"
proof -
  have wf: "kernel_wf {} T k" using assms by (simp add: starting_def)
  have "timed k t" if "t \<in> T" for t
    using assms that wf_pointers(1) [OF wf, of t] ready_not_delayed [of k t] by (auto simp: timed_def starting_def)
  moreover have "list_items PendingReadyList k = []" using pended_none [OF wf_lists [OF wf]] assms by (simp add: starting_def)
  ultimately show ?thesis using assms by (simp add: starting_def kernel_inv_def preemptive_def)
qed

lemma wf_cong:
  assumes wf: "kernel_wf X T k" and c: "tcb k' = tcb k" "klists k' = klists k" "uxTopReadyPriority k' = uxTopReadyPriority k"
    "pxDelayedTaskList k' = pxDelayedTaskList k" "pxOverflowDelayedTaskList k' = pxOverflowDelayedTaskList k"
    "pxCurrentTCB k' \<in> T" "uxCurrentNumberOfTasks k' \<noteq> 0"
  shows "kernel_wf X T k'"
proof -
  have "placed k' = placed k" "ready k' = ready k" "wake k' = wake k" "list_items L k' = list_items L k" for L
    by (simp_all add: placed_def ready_def wake_def list_items_def c fun_eq_iff)
  then show ?thesis using wf c by (simp add: kernel_wf_def lists_ok_def linked_def task_ok_def wake_sorted_def)
qed

lemma add_new:
  assumes "pxCurrentTCB k \<noteq> 0" "\<not> xSchedulerRunning k"
  shows "prvAddNewTaskToReadyList t k = prvAddTaskToReadyList t (k\<lparr>uxCurrentNumberOfTasks := uxCurrentNumberOfTasks k + 1,
    pxCurrentTCB := (if uxPriority (tcb k (pxCurrentTCB k)) \<le> uxPriority (tcb k t) then t else pxCurrentTCB k), uxTaskNumber := uxTaskNumber k + 1\<rparr>)"
proof (cases "uxPriority (tcb k (pxCurrentTCB k)) \<le> uxPriority (tcb k t)")
  case True
  then show ?thesis unfolding prvAddNewTaskToReadyList_def Let_def using assms by simp
next
  case False
  then show ?thesis unfolding prvAddNewTaskToReadyList_def Let_def using assms by simp
qed

text \<open>Another task: it becomes the first to run when nobody created so far outranks it.\<close>

lemma create_more:
  assumes st: "starting T k" and t: "t \<notin> T" "t \<noteq> 0" and n: "uxCurrentNumberOfTasks k + 1 \<noteq> 0"
  shows "starting (insert t T) (create_task t p k)" "uxCurrentNumberOfTasks (create_task t p k) = uxCurrentNumberOfTasks k + 1"
    "uxPriority (tcb (create_task t p k) t) = (if p < configMAX_PRIORITIES then p else configMAX_PRIORITIES - 1)"
    "u \<noteq> t \<Longrightarrow> uxPriority (tcb (create_task t p k) u) = uxPriority (tcb k u)"
proof -
  define k0 where "k0 = prvInitialiseNewTask t p k"
  have wf0: "kernel_wf {t} (insert t T) k0" unfolding k0_def using st t by (intro new_task_wf) (auto simp: starting_def)
  have f0: "pxCurrentTCB k0 = pxCurrentTCB k" "same_rest k k0" "u \<noteq> t \<Longrightarrow> tcb k0 u = tcb k u" "new_tcb (tcb k0 t)" for u
    by (simp_all add: k0_def new_task_tcb)
  have cur: "pxCurrentTCB k \<in> T" "pxCurrentTCB k \<noteq> 0" using st by (auto simp: starting_def kernel_wf_def)
  define c where "c = (if uxPriority (tcb k0 (pxCurrentTCB k)) \<le> uxPriority (tcb k0 t) then t else pxCurrentTCB k)"
  define k1 where "k1 = k0\<lparr>uxCurrentNumberOfTasks := uxCurrentNumberOfTasks k + 1, pxCurrentTCB := c, uxTaskNumber := uxTaskNumber k + 1\<rparr>"
  have wf1: "kernel_wf {t} (insert t T) k1" 
    by (rule wf_cong [OF wf0]) (use cur n in \<open>simp_all add: k1_def c_def\<close>)
  have op: "create_task t p k = prvAddTaskToReadyList t k1"
  proof -
    have "pxCurrentTCB k0 \<noteq> 0" "\<not> xSchedulerRunning k0" "uxCurrentNumberOfTasks k0 = uxCurrentNumberOfTasks k" "uxTaskNumber k0 = uxTaskNumber k"
      using cur st f0(1,2) by (auto simp: starting_def same_rest_def)
    then show ?thesis by (simp add: create_task_def k0_def [symmetric] add_new k1_def c_def f0(1))
  qed
  have "kernel_wf {} (insert t T) (create_task t p k)" using add_ready_wf [OF wf1, of t] by (simp add: op)
  moreover have "ready (create_task t p k) u \<and> event_container (tcb (create_task t p k) u) = None" if "u \<in> insert t T" for u
    using st that f0(3,4) by (auto simp: op k1_def ready_def new_tcb_def starting_def)
  moreover have "uxPriority (tcb (create_task t p k) u) \<le> uxPriority (tcb (create_task t p k) (pxCurrentTCB (create_task t p k)))"
    if "u \<in> insert t T" for u
    using st that f0(3) cur t by (auto simp: op k1_def c_def starting_def) (metis order_trans)
  ultimately show "starting (insert t T) (create_task t p k)" using st f0(2) by (simp add: starting_def) (simp add: op k1_def same_rest_def)
  show "uxCurrentNumberOfTasks (create_task t p k) = uxCurrentNumberOfTasks k + 1" by (simp add: op k1_def)
  show "uxPriority (tcb (create_task t p k) t) = (if p < configMAX_PRIORITIES then p else configMAX_PRIORITIES - 1)"
    by (cases "p < configMAX_PRIORITIES") (auto simp: op k1_def k0_def prvInitialiseNewTask_def)
  show "uxPriority (tcb (create_task t p k) u) = uxPriority (tcb k u)" if "u \<noteq> t" using that f0(3) by (simp add: op k1_def)
qed


text \<open>The first task.\<close>

lemma create_first:
  assumes f: "fresh k" and t: "t \<noteq> 0"
  shows "starting {t} (create_task t p k)" "uxCurrentNumberOfTasks (create_task t p k) = 1"
    "uxPriority (tcb (create_task t p k) t) = (if p < configMAX_PRIORITIES then p else configMAX_PRIORITIES - 1)"
proof -
  define k0 where "k0 = prvInitialiseNewTask t p k"
  define k1 where "k1 = (prvInitialiseTaskLists (k0\<lparr>uxCurrentNumberOfTasks := 1, pxCurrentTCB := t\<rparr>))\<lparr>uxTaskNumber := uxTaskNumber k + 1\<rparr>"
  have new: "new_tcb (tcb k0 t)" by (simp add: k0_def new_task_tcb)
  have r: "pxCurrentTCB k0 = 0" "uxCurrentNumberOfTasks k0 = 0" "\<not> xSchedulerRunning k0" "uxTaskNumber k0 = uxTaskNumber k"
    using f new_task_fields(4) [where k = k and t = t and p = p] by (auto simp: fresh_def k0_def same_rest_def)
  have i: "uxTaskNumber (prvInitialiseTaskLists x) = uxTaskNumber x" "xSchedulerRunning (prvInitialiseTaskLists x) = xSchedulerRunning x" for x
    by (simp_all add: prvInitialiseTaskLists_def)
  have op: "create_task t p k = prvAddTaskToReadyList t k1"
    unfolding create_task_def k0_def [symmetric] prvAddNewTaskToReadyList_def Let_def using r by (simp add: k1_def i)
  have none: "klists k1 L = kl_empty" for L
    using f by (cases L) (auto simp: k1_def prvInitialiseTaskLists_def fresh_def k0_def not_less)
  then have empty: "list_items L k1 = []" for L by (simp add: list_items_def)
  have f1: "tcb k1 = tcb k0" "pxCurrentTCB k1 = t" "uxCurrentNumberOfTasks k1 = 1" "pxDelayedTaskList k1 = DelayedTaskList1"
    "pxOverflowDelayedTaskList k1 = DelayedTaskList2" by (simp_all add: k1_def prvInitialiseTaskLists_def)
  have top: "uxTopReadyPriority k1 = 0" "\<not> xSchedulerRunning k1" "uxSchedulerSuspended k1 = 0" "xPendedTicks k1 = 0"
    using f new_task_fields(4,5) [where k = k and t = t and p = p]
    by (auto simp: k1_def prvInitialiseTaskLists_def k0_def fresh_def same_rest_def simp del: new_task_fields)
  have "kernel_wf {t} {t} k1"
    using new t by (auto simp: kernel_wf_def lists_ok_def linked_def none empty kl_ok_ops task_ok_def f1 top new_tcb_def ready_def
        wake_sorted_def taskNOT_WAITING_NOTIFICATION_def taskWAITING_NOTIFICATION_def configMAX_PRIORITIES_def)
  from add_ready_wf [OF this, of t] have "kernel_wf {} {t} (create_task t p k)" by (simp add: op)
  then show "starting {t} (create_task t p k)" using new by (auto simp: starting_def op ready_def f1 top new_tcb_def)
  show "uxCurrentNumberOfTasks (create_task t p k) = 1" by (simp add: op f1)
  show "uxPriority (tcb (create_task t p k) t) = (if p < configMAX_PRIORITIES then p else configMAX_PRIORITIES - 1)"
    by (cases "p < configMAX_PRIORITIES") (auto simp: op f1 k0_def prvInitialiseNewTask_def)
qed

definition create_tasks :: "(u32 \<times> u32) list \<Rightarrow> kernel \<Rightarrow> kernel" where
  "create_tasks ts k = fold (\<lambda>(t, p). create_task t p) ts k"

lemma create_tasks_ok:
  "starting T k \<Longrightarrow> distinct (map fst ts) \<Longrightarrow> 0 \<notin> set (map fst ts) \<Longrightarrow> T \<inter> set (map fst ts) = {} \<Longrightarrow>
   unat (uxCurrentNumberOfTasks k) + length ts < 2 ^ 32 \<Longrightarrow>
   starting (T \<union> set (map fst ts)) (create_tasks ts k) \<and>
   unat (uxCurrentNumberOfTasks (create_tasks ts k)) = unat (uxCurrentNumberOfTasks k) + length ts"
proof (induction ts arbitrary: T k)
  case Nil
  then show ?case by (simp add: create_tasks_def)
next
  case (Cons x ts)
  obtain t p where x: "x = (t, p)" by fastforce
  have n: "uxCurrentNumberOfTasks k + 1 \<noteq> 0" "unat (uxCurrentNumberOfTasks k + 1) = unat (uxCurrentNumberOfTasks k) + 1"
  proof -
    have "unat (uxCurrentNumberOfTasks k + 1) = unat (uxCurrentNumberOfTasks k) + 1"
      using Cons.prems(5) unat_word_ariths(1) [of "uxCurrentNumberOfTasks k" 1] by simp
    then show "unat (uxCurrentNumberOfTasks k + 1) = unat (uxCurrentNumberOfTasks k) + 1" "uxCurrentNumberOfTasks k + 1 \<noteq> 0" by auto
  qed
  note c = create_more [OF Cons.prems(1) _ _ n(1), of t p]
  have st: "starting (insert t T) (create_task t p k)" using Cons.prems by (intro c(1)) (auto simp: x)
  have cnt: "uxCurrentNumberOfTasks (create_task t p k) = uxCurrentNumberOfTasks k + 1" using Cons.prems by (intro c(2)) (auto simp: x)
  have "starting (insert t T \<union> set (map fst ts)) (create_tasks ts (create_task t p k)) \<and>
    unat (uxCurrentNumberOfTasks (create_tasks ts (create_task t p k))) = unat (uxCurrentNumberOfTasks (create_task t p k)) + length ts"
    by (rule Cons.IH [OF st]) (use Cons.prems n(2) in \<open>auto simp: x cnt\<close>)
  then show ?case by (simp add: create_tasks_def x cnt n(2))
qed


definition kernel_start :: "(u32 \<times> u32) list \<Rightarrow> u32 \<Rightarrow> u32 \<Rightarrow> kernel \<Rightarrow> kernel" where
  "kernel_start ts idle timer k = vTaskStartScheduler idle timer (create_tasks ts k)"

definition task_set :: "(u32 \<times> u32) list \<Rightarrow> u32 \<Rightarrow> u32 \<Rightarrow> u32 set" where
  "task_set ts idle timer = set (map fst ts) \<union> {idle, timer}"

lemma starting_started:
  assumes st: "starting T k"
  defines "k' \<equiv> k\<lparr>xNextTaskUnblockTime := portMAX_DELAY, xSchedulerRunning := True, xTickCount := 0\<rparr>"
  shows "kernel_inv T k'" "\<forall>t \<in> T. ready k' t" "\<forall>t \<in> T. uxPriority (tcb k' t) \<le> uxPriority (tcb k' (pxCurrentTCB k'))"
proof -
  have wf: "kernel_wf {} T k" using st by (simp add: starting_def)
  have eq: "tcb k' = tcb k" "klists k' = klists k" "pxCurrentTCB k' = pxCurrentTCB k" "pxDelayedTaskList k' = pxDelayedTaskList k"
    "pxOverflowDelayedTaskList k' = pxOverflowDelayedTaskList k" by (simp_all add: k'_def)
  have rd: "ready k' = ready k" "delayed k' = delayed k" by (simp_all add: ready_def delayed_def eq fun_eq_iff)
  show r: "\<forall>t \<in> T. ready k' t" "\<forall>t \<in> T. uxPriority (tcb k' t) \<le> uxPriority (tcb k' (pxCurrentTCB k'))"
    using st by (simp_all add: starting_def rd eq)
  have wf': "kernel_wf {} T k'" using wf by (simp add: k'_def)
  have "timed k' t" if "t \<in> T" for t
    using r(1) that wf_pointers(1) [OF wf', of t] ready_not_delayed [of k' t] by (auto simp: timed_def)
  moreover have "list_items PendingReadyList k' = []" using pended_none [OF wf_lists [OF wf']] st by (simp add: starting_def eq)
  ultimately show "kernel_inv T k'" using wf' r(2) st by (simp add: kernel_inv_def preemptive_def starting_def) (simp add: k'_def)
qed

lemma kernel_start_ok:
  assumes f: "fresh k" and d: "distinct (map fst ts @ [idle, timer])" "0 \<notin> task_set ts idle timer" and n: "length ts + 2 < 2 ^ 32"
  defines "k' \<equiv> kernel_start ts idle timer k"
  shows "kernel_inv (task_set ts idle timer) k'" "\<forall>t \<in> task_set ts idle timer. ready k' t"
    "\<forall>t \<in> task_set ts idle timer. uxPriority (tcb k' t) \<le> uxPriority (tcb k' (pxCurrentTCB k'))"
proof -
  let ?ts = "ts @ [(idle, 0), (timer, 2)]"
  have k': "k' = (create_tasks ?ts k)\<lparr>xNextTaskUnblockTime := portMAX_DELAY, xSchedulerRunning := True, xTickCount := 0\<rparr>"
    by (simp add: k'_def kernel_start_def vTaskStartScheduler_def create_tasks_def Let_def)
  obtain t p us where us: "?ts = (t, p) # us" by (cases ts) auto
  have mem: "map fst ?ts = t # map fst us" by (simp only: us list.map fst_conv)
  have T: "task_set ts idle timer = insert t (set (map fst us))"
    using arg_cong [OF mem, of set] by (auto simp: task_set_def)
  have dist: "distinct (map fst ?ts)" using d(1) by simp
  have len: "length us + 1 < 2 ^ 32" using n arg_cong [OF us, of length] by simp
  have t0: "t \<noteq> 0" and us0: "0 \<notin> set (map fst us)" using d(2) by (auto simp: T)
  have "starting ({t} \<union> set (map fst us)) (create_tasks us (create_task t p k))"
    using create_tasks_ok [OF create_first(1) [OF f t0], of us p] create_first(2) [OF f t0, of p] dist us0 len unfolding mem by simp
  then have "starting (task_set ts idle timer) (create_tasks ?ts k)" by (simp add: T us create_tasks_def)
  from starting_started [OF this] show "kernel_inv (task_set ts idle timer) k'" "\<forall>t \<in> task_set ts idle timer. ready k' t"
    "\<forall>t \<in> task_set ts idle timer. uxPriority (tcb k' t) \<le> uxPriority (tcb k' (pxCurrentTCB k'))" by (simp_all add: k')
qed

subsection \<open>Calls and interrupts\<close>

text \<open>
  \<open>Block n\<close> is what \<^verbatim>\<open>vTaskDelay\<close> does between suspending and resuming the scheduler, where ticks may come;
  the two halves of \<^verbatim>\<open>xTaskNotifyWait\<close> are separate, since others run between them.
\<close>

datatype kernel_event = Tick | Switch | Suspend | Resume | Yield | Block u32 | NotifyWait u32 u32 | NotifyFinish u32
  | Notify u32 u32 eNotifyAction | NotifyFromISR u32 u32 eNotifyAction
  | PlaceOnEventList u32 u32 | PlaceRestricted u32 u32 bool | RemoveFromEventList u32

fun kernel_call :: "kernel_event \<Rightarrow> kernel \<Rightarrow> kernel option" where
  "kernel_call Tick k = SysTick_Handler k"
| "kernel_call Switch k = xPortPendSVHandler k"
| "kernel_call Suspend k = Some (vTaskSuspendAll k)"
| "kernel_call Resume k = map_option snd (xTaskResumeAll k)"
| "kernel_call Yield k = Some (portYIELD k)"
| "kernel_call (Block n) k = prvAddCurrentTaskToDelayedList n False k"
| "kernel_call (NotifyWait clear n) k = xTaskNotifyWait_block clear n k"
| "kernel_call (NotifyFinish clear) k = Some (snd (snd (xTaskNotifyWait_finish clear k)))"
| "kernel_call (Notify t v a) k = map_option (snd \<circ> snd) (xTaskGenericNotify t v a k)"
| "kernel_call (NotifyFromISR t v a) k = map_option (snd \<circ> snd \<circ> snd) (xTaskGenericNotifyFromISR t v a k)"
| "kernel_call (PlaceOnEventList q n) k = vTaskPlaceOnEventList q n k"
| "kernel_call (PlaceRestricted q n forever) k = vTaskPlaceOnEventListRestricted q n forever k"
| "kernel_call (RemoveFromEventList q) k = map_option snd (xTaskRemoveFromEventList q k)"

text \<open>
  What the callers keep to: the idle task never waits, a running task is on no event list and does not wait for a
  notification, calls of \<^verbatim>\<open>vTaskSuspendAll\<close> and \<^verbatim>\<open>xTaskResumeAll\<close> match, a queue wakes somebody who waits.
  A wait has a length: \<^verbatim>\<open>vTaskDelay\<close> and the queue functions return before they block when there are no ticks to wait.
  The timer task may pass 0 ticks, when it finds no active timer at tick count 0, but then it asks to wait without a limit.
\<close>

definition may_block :: "u32 \<Rightarrow> kernel \<Rightarrow> bool" where
  "may_block idle k \<longleftrightarrow> pxCurrentTCB k \<noteq> idle \<and> event_container (tcb k (pxCurrentTCB k)) = None"

fun allowed :: "u32 \<Rightarrow> u32 set \<Rightarrow> kernel_event \<Rightarrow> kernel \<Rightarrow> bool" where
  "allowed idle T Tick k = xSchedulerRunning k"
| "allowed idle T Switch k = True"
| "allowed idle T Suspend k = (uxSchedulerSuspended k \<noteq> 0xffffffff)"
| "allowed idle T Resume k = (uxSchedulerSuspended k \<noteq> 0)"
| "allowed idle T Yield k = True"
| "allowed idle T (Block n) k = (may_block idle k \<and> 0 < n)"
| "allowed idle T (NotifyWait clear n) k = may_block idle k"
| "allowed idle T (NotifyFinish clear) k = True"
| "allowed idle T (Notify t v a) k = (t \<in> T)"
| "allowed idle T (NotifyFromISR t v a) k = (t \<in> T)"
| "allowed idle T (PlaceOnEventList q n) k = (may_block idle k \<and> ucNotifyState (tcb k (pxCurrentTCB k)) \<noteq> taskWAITING_NOTIFICATION \<and> 0 < n)"
| "allowed idle T (PlaceRestricted q n forever) k =
    (may_block idle k \<and> ucNotifyState (tcb k (pxCurrentTCB k)) \<noteq> taskWAITING_NOTIFICATION \<and> (forever \<or> 0 < n))"
| "allowed idle T (RemoveFromEventList q) k = (list_items (EventList q) k \<noteq> [])"

text \<open>What each of them promises.\<close>

fun promise :: "kernel_event \<Rightarrow> kernel \<Rightarrow> sched \<Rightarrow> sched" where
  "promise Tick k = sp_tick"
| "promise Suspend k = sp_suspend"
| "promise Resume k = sp_resume"
| "promise (Block n) k = sp_block (pxCurrentTCB k) n False"
| "promise (NotifyWait clear n) k = (if ucNotifyState (tcb k (pxCurrentTCB k)) \<noteq> taskNOTIFICATION_RECEIVED \<and> 0 < n
     then sp_block (pxCurrentTCB k) n True else id)"
| "promise (Notify t v a) k = (if ucNotifyState (tcb k t) = taskWAITING_NOTIFICATION then sp_ready t else id)"
| "promise (NotifyFromISR t v a) k = (if ucNotifyState (tcb k t) = taskWAITING_NOTIFICATION then sp_wake t else id)"
| "promise (PlaceOnEventList q n) k = sp_block (pxCurrentTCB k) n True"
| "promise (PlaceRestricted q n forever) k = sp_block (pxCurrentTCB k) (if forever then portMAX_DELAY else n) forever"
| "promise (RemoveFromEventList q) k = sp_wake (hd (list_items (EventList q) k))"
| "promise _ k = id"

lemma call_does:
  assumes inv: "kernel_inv T k" and idle: "idle \<in> T" "ready k idle" and a: "allowed idle T c k"
  shows "does T (promise c k) k (kernel_call c k)"
proof (cases c)
  case Tick
  then show ?thesis using tick_does [OF _ inv] a by simp
next
  case Switch
  then show ?thesis using switch_does [OF inv idle] by (auto simp: does_def)
next
  case Resume
  then show ?thesis using resume_does [OF inv] a by (auto simp: does_def)
next
  case Yield
  then show ?thesis using inv_yield inv by (auto simp: does_def)
next
  case (NotifyFinish clear)
  obtain v r k' where k': "xTaskNotifyWait_finish clear k = (v, r, k')" using prod_cases3 by blast
  then show ?thesis using notify_finish_does(1,2) [OF inv k'] by (simp add: does_def NotifyFinish)
next
  case (RemoveFromEventList q)
  then obtain t ts where L: "list_items (EventList q) k = t # ts" using a by (cases "list_items (EventList q) k") auto
  show ?thesis using remove_from_event_list_does(2) [OF inv L] L by (simp add: RemoveFromEventList)
qed (use a in \<open>simp_all add: suspend_does [OF inv] block_does [OF inv] notify_wait_does [OF inv] notify_does [OF inv] notify_isr_does [OF inv]
  place_does [OF inv] may_block_def del: if_not_P\<close>)

end
