(* ===== verification/KernelTime.thy ===== *)
theory KernelTime
  imports KernelRun
begin

text \<open>
  The reachable states of the kernel, and what a task can rely on: the running task is never outranked, a delay ends with
  the tick it should, tasks of one priority take turns.
\<close>

subsection \<open>Runs\<close>

inductive kernel_run :: "(kernel_event \<Rightarrow> kernel \<Rightarrow> bool) \<Rightarrow> kernel \<Rightarrow> kernel_event list \<Rightarrow> kernel \<Rightarrow> bool" for A where
  run_nil: "kernel_run A k [] k"
| run_step: "kernel_run A k cs k1 \<Longrightarrow> A c k1 \<Longrightarrow> kernel_call c k1 = Some k2 \<Longrightarrow> kernel_run A k (cs @ [c]) k2"

lemma status_view: "t \<in> T \<Longrightarrow> s_status (view T k) t = status k t"
  by (simp add: view_def)

lemma ready_status: "ready k t \<longleftrightarrow> status k t = TReady"
  by (simp add: status_def)

lemma promise_ready:
  assumes "allowed idle T c k" "s_status s idle = TReady"
  shows "s_status (promise c k s) idle = TReady"
  using assms by (cases c) (auto simp: sp_tick_def sp_suspend_def sp_resume_def sp_block_def sp_ready_def sp_wake_def may_block_def)

text \<open>C9: every call to the kernel that keeps to the conditions of its callers (\<open>allowed\<close>) returns, keeps the kernel well-formed, and does to the
  tasks exactly what the specification promises: a tick shortens every wait by one, a notification or a queue event makes
  the waiting task ready (at once, or when the scheduler is resumed), a wait blocks the running task for its time or for ever, and
  resuming the scheduler works off what came meanwhile. The idle task stays ready.\<close>

theorem kernel_calls_refine:
  assumes "kernel_inv T k" "idle \<in> T" "ready k idle" "allowed idle T c k"
  shows "\<exists>k'. kernel_call c k = Some k' \<and> kernel_inv T k' \<and> ready k' idle \<and> view T k' = promise c k (view T k)"
proof -
  obtain k' where k': "kernel_call c k = Some k'" "kernel_inv T k'" "view T k' = promise c k (view T k)"
    using call_does [OF assms] by (auto simp: does_def split: option.splits)
  then show ?thesis using promise_ready [OF assms(4), of "view T k"] assms(2,3) by (metis ready_status status_view)
qed

lemma call_refines:
  assumes "kernel_inv T k" "idle \<in> T" "ready k idle" "allowed idle T c k" "kernel_call c k = Some k'"
  shows "kernel_inv T k' \<and> ready k' idle \<and> view T k' = promise c k (view T k)"
proof -
  have k': "kernel_inv T k'" "view T k' = promise c k (view T k)"
    using call_does [OF assms(1-4)] assms(5) by (auto simp: does_def)
  then show ?thesis using promise_ready [OF assms(4), of "view T k"] assms(2,3) by (metis ready_status status_view)
qed

lemma kernel_run_inv:
  assumes "kernel_run A k cs k'" "kernel_inv T k" "idle \<in> T" "ready k idle" "\<And>c k. A c k \<Longrightarrow> allowed idle T c k"
  shows "kernel_inv T k' \<and> ready k' idle"
  using assms by (induction rule: kernel_run.induct) (use call_refines in blast)+

text \<open>C5: from start-up on, whatever sequence of ticks, interrupts and calls that keep to the conditions of their callers (\<open>allowed\<close>): the kernel's lists stay well-formed, every further
  call returns, the running task is not outranked by any ready task unless a switch has been asked for, and the switch,
  when the scheduler is not suspended, takes a ready task that no ready task outranks.\<close>

theorem kernel_never_outranked:
  assumes "fresh k0" "distinct (map fst ts @ [idle, timer])" "0 \<notin> task_set ts idle timer" "length ts + 2 < 2 ^ 32"
    "kernel_run (allowed idle (task_set ts idle timer)) (kernel_start ts idle timer k0) cs k"
  shows "kernel_inv (task_set ts idle timer) k \<and>
    (\<forall>c. allowed idle (task_set ts idle timer) c k \<longrightarrow> kernel_call c k \<noteq> None) \<and>
    (\<not> PENDSVSET k \<and> \<not> xYieldPending k \<longrightarrow>
       (\<forall>t \<in> task_set ts idle timer. ready k t \<longrightarrow> uxPriority (tcb k t) \<le> uxPriority (tcb k (pxCurrentTCB k)))) \<and>
    (\<exists>k'. xPortPendSVHandler k = Some k' \<and>
       (uxSchedulerSuspended k = 0 \<longrightarrow> best (task_set ts idle timer) k (pxCurrentTCB k')))"
proof -
  let ?T = "task_set ts idle timer"
  have idle: "idle \<in> ?T" by (simp add: task_set_def)
  note st = kernel_start_ok [OF assms(1-4)]
  have inv: "kernel_inv ?T k" and ri: "ready k idle"
    using kernel_run_inv [OF assms(5) st(1) idle] st(2) idle by blast+
  have "kernel_call c k \<noteq> None" if "allowed idle ?T c k" for c
    using call_does [OF inv idle ri that] by (auto simp: does_def split: option.splits)
  moreover have "\<exists>k'. xPortPendSVHandler k = Some k' \<and> (uxSchedulerSuspended k = 0 \<longrightarrow> best ?T k (pxCurrentTCB k'))"
    using switch_does [OF inv idle ri] by (auto split: if_splits)
  ultimately show ?thesis using inv kernel_invD(4) [OF inv] by (auto simp: preemptive_def)
qed

subsection \<open>Delays\<close>

text \<open>What would end a wait early, or begin another one.\<close>

fun touches :: "u32 \<Rightarrow> kernel_event \<Rightarrow> kernel \<Rightarrow> bool" where
  "touches t (Block n) k = (pxCurrentTCB k = t)"
| "touches t (NotifyWait clear n) k = (pxCurrentTCB k = t)"
| "touches t (Notify u v a) k = (u = t \<and> ucNotifyState (tcb k t) = taskWAITING_NOTIFICATION)"
| "touches t (NotifyFromISR u v a) k = (u = t \<and> ucNotifyState (tcb k t) = taskWAITING_NOTIFICATION)"
| "touches t (PlaceOnEventList q n) k = (pxCurrentTCB k = t)"
| "touches t (PlaceRestricted q n forever) k = (pxCurrentTCB k = t)"
| "touches t (RemoveFromEventList q) k = (hd (list_items (EventList q) k) = t)"
| "touches t _ k = False"

lemma promise_untouched:
  assumes "\<not> touches t c k" "c \<noteq> Tick" "c \<noteq> Resume"
  shows "s_status (promise c k s) t = s_status s t" "t \<in> s_pended (promise c k s) \<longleftrightarrow> t \<in> s_pended s" "s_ticks (promise c k s) = s_ticks s"
  using assms by (cases c; auto simp: sp_suspend_def sp_block_def sp_ready_def sp_wake_def)+

definition ticks :: "kernel_event list \<Rightarrow> nat" where
  "ticks cs = length (filter (\<lambda>c. c = Tick) cs)"

lemma countdown_add: "(countdown ^^ a) ((countdown ^^ b) s) = (countdown ^^ (b + a)) s"
  by (metis add.commute comp_apply funpow_add)

text \<open>While nobody touches a waiting task, the ticks that were worked off since have shortened its wait.\<close>

lemma countdown_run:
  assumes "kernel_run (\<lambda>c k. allowed idle T c k \<and> \<not> touches t c k) k1 cs k2"
    and "kernel_inv T k1" "idle \<in> T" "ready k1 idle" "t \<in> T" "event_container (tcb k1 t) \<noteq> Some PendingReadyList"
    and "unat (xPendedTicks k1) + ticks cs < 2 ^ 32"
  shows "t \<notin> s_pended (view T k2) \<and> unat (xPendedTicks k2) \<le> unat (xPendedTicks k1) + ticks cs \<and>
    status k2 t = (countdown ^^ (unat (xPendedTicks k1) + ticks cs - unat (xPendedTicks k2))) (status k1 t)"
  using assms
proof (induction rule: kernel_run.induct)
  case (run_nil k)
  then show ?case by (simp add: ticks_def view_def)
next
  case (run_step k cs k2 c k3)
  have inv: "kernel_inv T k2" "ready k2 idle"
    using kernel_run_inv [OF run_step.hyps(1) run_step.prems(1-3)] by auto
  let ?p = "unat (xPendedTicks k)"
  have IH: "t \<notin> s_pended (view T k2)" "unat (xPendedTicks k2) \<le> ?p + ticks cs"
    "status k2 t = (countdown ^^ (?p + ticks cs - unat (xPendedTicks k2))) (status k t)"
    using run_step.IH [OF run_step.prems(1-5)] run_step.prems(6) by (auto simp: ticks_def)
  have a: "allowed idle T c k2" "\<not> touches t c k2" using run_step.hyps(2) by auto
  have v: "view T k3 = promise c k2 (view T k2)"
    using call_refines [OF inv(1) run_step.prems(2) inv(2) a(1) run_step.hyps(3)] by blast
  have vt: "s_ticks (view T k') = xPendedTicks k'" "s_depth (view T k') = uxSchedulerSuspended k'" for k' by (simp_all add: view_def)
  note sv = status_view [OF run_step.prems(4), symmetric]
  consider "c = Tick" | "c = Resume" | "c \<noteq> Tick" "c \<noteq> Resume" by blast
  then show ?case
  proof cases
    case 1
    then have n: "ticks (cs @ [c]) = ticks cs + 1" by (simp add: ticks_def)
    show ?thesis
    proof (cases "uxSchedulerSuspended k2 = 0")
      case True
      have "xPendedTicks k2 = 0" using kernel_invD(6) [OF inv(1) True] .
      moreover have "xPendedTicks k3 = 0" using arg_cong [OF v, of s_ticks] True 1 calculation by (simp add: sp_tick_def vt)
      moreover have "status k3 t = countdown (status k2 t)" using True 1 by (simp add: sv v sp_tick_def vt)
      moreover have "t \<notin> s_pended (view T k3)" using IH(1) True 1 by (simp add: v sp_tick_def vt)
      ultimately show ?thesis using IH by (simp add: n)
    next
      case False
      have p3: "xPendedTicks k3 = xPendedTicks k2 + 1" using arg_cong [OF v, of s_ticks] False 1 by (simp add: sp_tick_def vt)
      have "unat (xPendedTicks k2) + 1 < 2 ^ 32" using IH(2) run_step.prems(6) n by simp
      then have "unat (xPendedTicks k3) = unat (xPendedTicks k2) + 1" using unat_word_ariths(1) [of "xPendedTicks k2" 1] by (simp add: p3)
      moreover have "status k3 t = status k2 t" "t \<notin> s_pended (view T k3)" using IH(1) False 1 by (simp_all add: sv v sp_tick_def vt)
      ultimately show ?thesis using IH by (simp add: n)
    qed
  next
    case 2
    then have n: "ticks (cs @ [c]) = ticks cs" by (simp add: ticks_def)
    show ?thesis
    proof (cases "uxSchedulerSuspended k2 = 1")
      case True
      have p3: "xPendedTicks k3 = 0" using arg_cong [OF v, of s_ticks] True 2 by (simp add: sp_resume_def vt)
      have "status k3 t = (countdown ^^ unat (xPendedTicks k2)) (status k2 t)" "t \<notin> s_pended (view T k3)"
        using IH(1) True 2 by (simp_all add: sv v sp_resume_def vt)
      then show ?thesis using IH by (simp add: n p3 countdown_add)
    next
      case False
      have "xPendedTicks k3 = xPendedTicks k2" using arg_cong [OF v, of s_ticks] False 2 by (simp add: sp_resume_def vt)
      moreover have "status k3 t = status k2 t" "t \<notin> s_pended (view T k3)" using IH(1) False 2 by (simp_all add: sv v sp_resume_def vt)
      ultimately show ?thesis using IH by (simp add: n)
    qed
  next
    case 3
    note u = promise_untouched [OF a(2) 3, of "view T k2"]
    have "xPendedTicks k3 = xPendedTicks k2" using arg_cong [OF v, of s_ticks] u(3) by (simp add: vt)
    moreover have "status k3 t = status k2 t" "t \<notin> s_pended (view T k3)" using IH(1) u by (simp_all add: sv v)
    ultimately show ?thesis using IH 3 by (simp add: ticks_def)
  qed
qed


lemma delay_does:
  assumes inv: "kernel_inv T k" and ns: "uxSchedulerSuspended k = 0" and n: "0 < n"
  shows "\<exists>k'. vTaskDelay n k = Some k' \<and> kernel_inv T k' \<and> PENDSVSET k' \<and>
    view T k' = sp_block (pxCurrentTCB k) n False (view T k)"
proof -
  let ?k1 = "vTaskSuspendAll k"
  have inv1: "kernel_inv T ?k1" "view T ?k1 = sp_suspend (view T k)" using suspend_does [OF inv] ns by (simp_all add: does_def)
  obtain k2 where k2: "prvAddCurrentTaskToDelayedList n False ?k1 = Some k2" "kernel_inv T k2"
    "view T k2 = sp_block (pxCurrentTCB ?k1) n False (view T ?k1)"
    using block_does [OF inv1(1) n, of False] by (auto simp: does_def split: option.splits)
  have d: "s_depth (view T k) = 0" "s_ticks (view T k) = 0" "s_pended (view T k) = {}"
    using ns kernel_invD(6) [OF inv ns] pended_none [OF wf_lists [OF kernel_invD(1) [OF inv]]] kernel_invD(5) [OF inv ns]
    by (auto simp: view_def)
  have "uxSchedulerSuspended k2 = s_depth (view T k2)" by (simp add: view_def)
  also have "\<dots> = 1" by (simp add: k2(3) inv1(2) sp_block_def sp_suspend_def d)
  finally obtain y k3 where k3: "xTaskResumeAll k2 = Some (y, k3)" "kernel_inv T k3" "view T k3 = sp_resume (view T k2)" "y \<longrightarrow> PENDSVSET k3"
    using resume_does [OF k2(2)] by auto
  have c: "pxCurrentTCB ?k1 = pxCurrentTCB k" by (simp add: vTaskSuspendAll_def)
  have "view T k3 = sp_block (pxCurrentTCB k) n False (view T k)"
    by (intro sched.equality) (simp_all add: k3(3) k2(3) inv1(2) c sp_resume_def sp_block_def sp_suspend_def d fun_eq_iff)
  moreover have "vTaskDelay n k = Some (if y then k3 else portYIELD k3)"
    using ns n k2(1) k3(1) by (simp add: vTaskDelay_def word_gt_0)
  ultimately show ?thesis using k3(2,4) inv_yield [of T k3] by (cases y) (auto simp: portYIELD_def)
qed

text \<open>C6: a delay is exact. A task that delays itself by \<open>n\<close> ticks gives up the processor; after that, in every run in which
  nobody notifies it and it starts no other wait, as soon as the scheduler is not suspended it is still waiting when fewer
  than \<open>n\<close> tick interrupts came, with what is left of its time, and ready when \<open>n\<close> came: across the wrap-around of the
  tick count, and counting the ticks that came while the scheduler was suspended.\<close>

theorem delay_is_exact:
  assumes "kernel_inv T k" "idle \<in> T" "ready k idle" "uxSchedulerSuspended k = 0" "pxCurrentTCB k \<noteq> idle" "0 < n"
  shows "\<exists>k1. vTaskDelay n k = Some k1 \<and> kernel_inv T k1 \<and> PENDSVSET k1 \<and> status k1 (pxCurrentTCB k) = TBlocked (unat n) \<and>
    (\<forall>cs k2. kernel_run (\<lambda>c k'. allowed idle T c k' \<and> \<not> touches (pxCurrentTCB k) c k') k1 cs k2 \<and> ticks cs < 2 ^ 32 \<and>
        uxSchedulerSuspended k2 = 0 \<longrightarrow>
      status k2 (pxCurrentTCB k) = (if ticks cs < unat n then TBlocked (unat n - ticks cs) else TReady))"
proof -
  let ?t = "pxCurrentTCB k"
  have t: "?t \<in> T" using kernel_invD(3) [OF assms(1)] .
  obtain k1 where k1: "vTaskDelay n k = Some k1" "kernel_inv T k1" "PENDSVSET k1" "view T k1 = sp_block ?t n False (view T k)"
    using delay_does [OF assms(1,4,6)] by blast
  have st: "status k1 ?t = TBlocked (unat n)" using k1(4) status_view [OF t, of k1] by (simp add: sp_block_def)
  have ri: "ready k1 idle" using k1(4) status_view [OF assms(2), of k1] status_view [OF assms(2), of k] assms(3,5)
    by (simp add: sp_block_def ready_status)
  have z: "uxSchedulerSuspended k1 = 0" using arg_cong [OF k1(4), of s_depth] assms(4) by (simp add: view_def sp_block_def)
  have p0: "xPendedTicks k1 = 0" using kernel_invD(6) [OF k1(2) z] .
  have ev: "event_container (tcb k1 ?t) \<noteq> Some PendingReadyList"
    using pended_none [OF wf_lists [OF kernel_invD(1) [OF k1(2)]]] kernel_invD(5) [OF k1(2) z] t by blast
  have "status k2 ?t = (if ticks cs < unat n then TBlocked (unat n - ticks cs) else TReady)"
    if r: "kernel_run (\<lambda>c k'. allowed idle T c k' \<and> \<not> touches ?t c k') k1 cs k2" "ticks cs < 2 ^ 32" "uxSchedulerSuspended k2 = 0" for cs k2
  proof -
    have "kernel_inv T k2" using kernel_run_inv [OF r(1) k1(2) assms(2) ri] by blast
    then have "xPendedTicks k2 = 0" using r(3) by (rule kernel_invD(6))
    moreover have "status k2 ?t = (countdown ^^ (unat (xPendedTicks k1) + ticks cs - unat (xPendedTicks k2))) (status k1 ?t)"
      using countdown_run [OF r(1) k1(2) assms(2) ri t ev] r(2) p0 by simp
    moreover have "0 < unat n" using assms(6) by (simp add: word_less_nat_alt)
    ultimately show ?thesis by (simp add: p0 st countdown_blocked)
  qed
  then show ?thesis using k1(1-3) st by blast
qed


subsection \<open>Taking turns\<close>

text \<open>The order in which a list's items come up, from the one after the index on: moving the index rotates it.\<close>

definition upcoming :: "'a klist \<Rightarrow> 'a list" where
  "upcoming l = (case kl_index l of None \<Rightarrow> kl_items l
     | Some i \<Rightarrow> tl (dropWhile (\<lambda>y. y \<noteq> i) (kl_items l)) @ takeWhile (\<lambda>y. y \<noteq> i) (kl_items l) @ [i])"

lemma upcoming_at: "i \<notin> set ys \<Longrightarrow> kl_items l = ys @ i # zs \<Longrightarrow> kl_index l = Some i \<Longrightarrow> upcoming l = zs @ ys @ [i]"
  by (simp add: upcoming_def takeWhile_item dropWhile_item_eq)

lemma upcoming_advance:
  assumes ok: "kl_ok l" and ne: "kl_items l \<noteq> []"
  shows "kl_next l = hd (upcoming l)" "upcoming (kl_advance l) = rotate1 (upcoming l)"
    "set (upcoming l) = set (kl_items l)" "length (upcoming l) = length (kl_items l)"
proof -
  have "kl_next l = hd (upcoming l) \<and> upcoming (kl_advance l) = rotate1 (upcoming l) \<and>
    set (upcoming l) = set (kl_items l) \<and> length (upcoming l) = length (kl_items l)"
  proof (cases "kl_index l")
    case None
    obtain x xs where "kl_items l = x # xs" using ne by (cases "kl_items l") auto
    then show ?thesis using None by (simp add: upcoming_def kl_next_def kl_advance_def)
  next
    case (Some i)
    then obtain ys zs where xs: "kl_items l = ys @ i # zs" using ok split_list [of i "kl_items l"] by (auto simp: kl_ok_def)
    have d: "distinct (ys @ i # zs)" using ok xs by (simp add: kl_ok_def)
    have u: "upcoming l = zs @ ys @ [i]" using d by (intro upcoming_at [OF _ xs Some]) simp
    have nx: "kl_next l = (case zs of [] \<Rightarrow> hd (kl_items l) | z # _ \<Rightarrow> z)" using d by (intro kl_next_eq [OF _ xs Some]) simp
    have adv: "kl_index (kl_advance l) = Some (kl_next l)" "kl_items (kl_advance l) = ys @ i # zs" by (simp_all add: kl_advance_def xs)
    show ?thesis
    proof (cases zs)
      case (Cons z zs')
      have "upcoming (kl_advance l) = zs' @ (ys @ [i]) @ [z]"
        by (rule upcoming_at [of z "ys @ [i]"]) (use d adv nx Cons in auto)
      then show ?thesis using u nx Cons by (auto simp: xs)
    next
      case Nil
      show ?thesis
      proof (cases ys)
        case ys: Nil
        have "upcoming (kl_advance l) = [] @ [] @ [i]" by (rule upcoming_at) (use adv nx Nil ys in \<open>auto simp: xs\<close>)
        then show ?thesis using u nx Nil ys by (auto simp: xs)
      next
        case (Cons y ys')
        have "upcoming (kl_advance l) = (ys' @ [i]) @ [] @ [y]" by (rule upcoming_at) (use adv nx Nil Cons in \<open>auto simp: xs\<close>)
        then show ?thesis using u nx Nil Cons by (auto simp: xs)
      qed
    qed
  qed
  then show "kl_next l = hd (upcoming l)" "upcoming (kl_advance l) = rotate1 (upcoming l)"
    "set (upcoming l) = set (kl_items l)" "length (upcoming l) = length (kl_items l)" by blast+
qed


text \<open>The tasks that the next switches select.\<close>

fun turns :: "nat \<Rightarrow> kernel \<Rightarrow> u32 list option" where
  "turns 0 k = Some []"
| "turns (Suc n) k = do { k \<leftarrow> xPortPendSVHandler k; ts \<leftarrow> turns n k; Some (pxCurrentTCB k # ts) }"

lemma best_list:
  assumes wf: "kernel_wf {} T k" and b: "best T k t"
  shows "u \<in> set (list_items (ReadyTasksLists (uxPriority (tcb k t))) k) \<longleftrightarrow> best T k u"
  using ready_lists [OF wf, of u "uxPriority (tcb k t)"] b by (auto simp: best_def intro: order_antisym)

lemma best_exists: "kernel_wf {} T k \<Longrightarrow> t \<in> T \<Longrightarrow> ready k t \<Longrightarrow> \<exists>u. best T k u"
  using select_ok by blast

lemma turns_upcoming:
  "kernel_inv T k \<Longrightarrow> uxSchedulerSuspended k = 0 \<Longrightarrow> best T k t \<Longrightarrow>
   n \<le> length (upcoming (klists k (ReadyTasksLists (uxPriority (tcb k t))))) \<Longrightarrow>
   turns n k = Some (take n (upcoming (klists k (ReadyTasksLists (uxPriority (tcb k t))))))"
proof (induction n arbitrary: k)
  case (Suc n)
  note wf = kernel_invD(1) [OF Suc.prems(1)]
  let ?L = "ReadyTasksLists (uxPriority (tcb k t))" let ?u = "upcoming (klists k ?L)"
  have ne: "kl_items (klists k ?L) \<noteq> []" using best_list [OF wf Suc.prems(3), of t] Suc.prems(3) by (auto simp: list_items_def)
  note up = upcoming_advance [OF lists_ok_mem(3) [OF wf_lists [OF wf]] ne]
  obtain k' where k': "xPortPendSVHandler k = Some k'" "kernel_inv T k'" "tcb k' = tcb k" "best T k (pxCurrentTCB k')" "uxSchedulerSuspended k' = 0"
    "pxCurrentTCB k' = kl_next (klists k (ReadyTasksLists (uxPriority (tcb k (pxCurrentTCB k')))))"
    "klists k' = (klists k)(ReadyTasksLists (uxPriority (tcb k (pxCurrentTCB k'))) :=
       kl_advance (klists k (ReadyTasksLists (uxPriority (tcb k (pxCurrentTCB k'))))))"
    using switch_does [OF Suc.prems(1), of t] Suc.prems(2,3) by (auto simp: best_def Let_def)
  have same: "uxPriority (tcb k (pxCurrentTCB k')) = uxPriority (tcb k t)" using k'(4) Suc.prems(3) by (auto simp: best_def intro: order_antisym)
  have b': "best T k' t" using Suc.prems(3) by (simp add: best_def ready_def k'(3))
  have u': "upcoming (klists k' (ReadyTasksLists (uxPriority (tcb k' t)))) = rotate1 ?u" using up(2) by (simp add: k'(3,7) same)
  have n: "n \<le> length (tl ?u)" using Suc.prems(4) by simp
  have nonempty: "?u \<noteq> []" using Suc.prems(4) by auto
  then have "turns n k' = Some (take n (tl ?u))"
    using Suc.IH [OF k'(2,5) b'] n Suc.prems(4) unfolding u' by (cases ?u) auto
  moreover have "pxCurrentTCB k' = hd ?u" using k'(6) up(1) by (simp add: same)
  ultimately show ?case using k'(1) nonempty by (cases ?u) auto
qed simp

text \<open>C31: tasks of the highest ready priority take turns. When nothing else happens, the next switches select each of the ready
  tasks that nobody outranks exactly once, in the order of the ready list from its index on, before any is selected again.\<close>

theorem equal_tasks_take_turns:
  assumes "kernel_inv T k" "uxSchedulerSuspended k = 0" "t \<in> T" "ready k t"
  shows "\<exists>ts. turns (card {u. best T k u}) k = Some ts \<and> distinct ts \<and> set ts = {u. best T k u} \<and> ts \<noteq> []"
proof -
  note wf = kernel_invD(1) [OF assms(1)]
  obtain b where b: "best T k b" using best_exists [OF wf assms(3,4)] by blast
  let ?l = "klists k (ReadyTasksLists (uxPriority (tcb k b)))"
  have items: "set (kl_items ?l) = {u. best T k u}" using best_list [OF wf b] by (auto simp: list_items_def)
  then have ne: "kl_items ?l \<noteq> []" using b by auto
  have ok: "kl_ok ?l" by (rule lists_ok_mem(3) [OF wf_lists [OF wf]])
  note up = upcoming_advance [OF ok ne]
  have len: "length (upcoming ?l) = card {u. best T k u}"
    using up(4) ok items distinct_card [of "kl_items ?l"] by (simp add: kl_ok_def)
  have "distinct (upcoming ?l)" using up(3) len items by (metis card_distinct)
  then show ?thesis using turns_upcoming [OF assms(1,2) b, of "card {u. best T k u}"] len up(3) items ne by auto
qed


subsection \<open>A kernel with two tasks of one priority\<close>

definition cleared_kernel :: kernel where
  "cleared_kernel = \<lparr>tcb = \<lambda>_. \<lparr>uxPriority = 0, state_value = 0, state_container = None, event_value = 0, event_container = None,
       ulNotifiedValue = 0, ucNotifyState = 0\<rparr>, klists = \<lambda>_. kl_empty, pxCurrentTCB = 0, pxDelayedTaskList = DelayedTaskList1,
     pxOverflowDelayedTaskList = DelayedTaskList1, uxCurrentNumberOfTasks = 0, xTickCount = 0, uxTopReadyPriority = 0,
     xSchedulerRunning = False, xPendedTicks = 0, xYieldPending = False, xNumOfOverflows = 0, uxTaskNumber = 0,
     xNextTaskUnblockTime = 0, uxSchedulerSuspended = 0, PENDSVSET = False\<rparr>"

definition boot_kernel :: kernel where
  "boot_kernel = kernel_start [(0x100, 24), (0x180, 24)] 0x200 0x300 cleared_kernel"

definition boot_tasks :: "u32 set" where
  "boot_tasks = task_set [(0x100, 24), (0x180, 24)] 0x200 0x300"

lemma cleared_fresh: "fresh cleared_kernel"
  by (simp add: fresh_def cleared_kernel_def)

lemma boot_tasks: "boot_tasks = {0x100, 0x180, 0x200, 0x300}"
  by (auto simp: boot_tasks_def task_set_def)

lemma boot_inv: "kernel_inv boot_tasks boot_kernel" "ready boot_kernel 0x200"
  using kernel_start_ok [OF cleared_fresh, of "[(0x100, 24), (0x180, 24)]" "0x200" "0x300"]
  by (simp_all add: boot_kernel_def boot_tasks_def task_set_def)

lemma boot_state: "uxSchedulerSuspended boot_kernel = 0" "pxCurrentTCB boot_kernel = 0x180" "event_container (tcb boot_kernel 0x180) = None"
    "ucNotifyState (tcb boot_kernel 0x180) \<noteq> taskWAITING_NOTIFICATION"
  by code_simp+

fun calls :: "(kernel_event \<Rightarrow> kernel \<Rightarrow> bool) \<Rightarrow> kernel_event list \<Rightarrow> kernel \<Rightarrow> kernel option" where
  "calls A [] k = Some k"
| "calls A (c # cs) k = (if A c k then do { k \<leftarrow> kernel_call c k; calls A cs k } else None)"

lemma calls_run: "kernel_run A k0 ds k \<Longrightarrow> calls A cs k = Some k' \<Longrightarrow> kernel_run A k0 (ds @ cs) k'"
proof (induction cs arbitrary: ds k)
  case (Cons c cs)
  then obtain k1 where "A c k" "kernel_call c k = Some k1" "calls A cs k1 = Some k'" by (auto split: if_splits bind_splits)
  then show ?case using Cons.IH [OF run_step [OF Cons.prems(1)], of c k1] by simp
qed simp

theorem kernel_calls_refine_witness:
  "\<exists>k'. kernel_call (PlaceRestricted 0x50 0 True) boot_kernel = Some k' \<and>
     view boot_tasks k' = sp_block 0x180 portMAX_DELAY True (view boot_tasks boot_kernel)"
  using kernel_calls_refine [OF boot_inv(1) _ boot_inv(2), of "PlaceRestricted 0x50 0 True"] boot_state
  by (auto simp: may_block_def boot_tasks)

text \<open>Both application tasks sleep, the timer task finds no timer at tick count 0 and waits for a command.\<close>

theorem kernel_never_outranked_witness:
  "\<exists>k. kernel_run (allowed 0x200 boot_tasks) boot_kernel
       [Block 2, Switch, Block 3, Switch, Suspend, PlaceRestricted 0x50 0 True, Resume, Yield, Switch, Tick, Tick] k \<and>
     kernel_inv boot_tasks k \<and> pxCurrentTCB k = 0x200 \<and> PENDSVSET k"
proof -
  let ?cs = "[Block 2, Switch, Block 3, Switch, Suspend, PlaceRestricted 0x50 0 True, Resume, Yield, Switch, Tick, Tick]"
  have "map_option (\<lambda>k. pxCurrentTCB k = 0x200 \<and> PENDSVSET k) (calls (allowed 0x200 {0x100, 0x180, 0x200, 0x300}) ?cs boot_kernel) = Some True"
    by code_simp
  then obtain k where k: "calls (allowed 0x200 boot_tasks) ?cs boot_kernel = Some k" "pxCurrentTCB k = 0x200" "PENDSVSET k"
    by (auto simp: boot_tasks)
  then have "kernel_run (allowed 0x200 boot_tasks) boot_kernel ?cs k" using calls_run [OF run_nil] by fastforce
  then show ?thesis using k(2,3) kernel_never_outranked [OF cleared_fresh, of "[(0x100, 24), (0x180, 24)]" "0x200" "0x300" ?cs k]
    by (auto simp: boot_kernel_def boot_tasks_def task_set_def)
qed

theorem delay_is_exact_witness:
  "\<exists>k1 k2. vTaskDelay 3 boot_kernel = Some k1 \<and> status k1 0x180 = TBlocked 3 \<and>
     kernel_run (\<lambda>c k'. allowed 0x200 boot_tasks c k' \<and> \<not> touches 0x180 c k') k1 [Switch, Tick, Suspend, Tick, Tick, Resume] k2 \<and>
     status k2 0x180 = TReady"
proof -
  let ?A = "\<lambda>c k'. allowed 0x200 {0x100, 0x180, 0x200, 0x300} c k' \<and> \<not> touches 0x180 c k'"
  let ?cs = "[Switch, Tick, Suspend, Tick, Tick, Resume]"
  note d = delay_is_exact [OF boot_inv(1) _ boot_inv(2) boot_state(1), of 3, unfolded boot_state(2)]
  obtain k1 where k1: "vTaskDelay 3 boot_kernel = Some k1" "status k1 0x180 = TBlocked 3"
    "\<And>cs k2. kernel_run ?A k1 cs k2 \<Longrightarrow> ticks cs < 2 ^ 32 \<Longrightarrow> uxSchedulerSuspended k2 = 0 \<Longrightarrow>
      status k2 0x180 = (if ticks cs < 3 then TBlocked (3 - ticks cs) else TReady)"
    using d by (auto simp: boot_tasks)
  have "map_option uxSchedulerSuspended (Option.bind (vTaskDelay 3 boot_kernel) (calls ?A ?cs)) = Some 0" by code_simp
  then obtain k2 where k2: "calls ?A ?cs k1 = Some k2" "uxSchedulerSuspended k2 = 0" by (auto simp: k1(1))
  have "kernel_run ?A k1 ?cs k2" using calls_run [OF run_nil k2(1)] by simp
  then show ?thesis using k1(1,2) k1(3) [of ?cs k2] k2(2) by (auto simp: boot_tasks ticks_def)
qed

theorem equal_tasks_take_turns_witness:
  "\<exists>ts. turns (card {u. best boot_tasks boot_kernel u}) boot_kernel = Some ts \<and> distinct ts \<and> set ts = {u. best boot_tasks boot_kernel u}"
  using equal_tasks_take_turns [OF boot_inv(1) boot_state(1) _ boot_inv(2)] by (auto simp: boot_tasks)

end
