(* ===== verification/KernelNote.thy ===== *)
theory KernelNote
  imports KernelTime
begin

text \<open>
  Task notifications over whole runs of the kernel: what changes a task's notification value and state, and that no
  notification is lost: the value that a task takes is what was set since it took the last one.
\<close>

subsection \<open>Who changes the notification of a task\<close>

definition notif :: "kernel \<Rightarrow> u32 \<Rightarrow> u32 \<times> u8" where
  "notif k t = (ulNotifiedValue (tcb k t), ucNotifyState (tcb k t))"

lemma notif_eqI: "(\<And>t. ulNotifiedValue (tcb k' t) = ulNotifiedValue (tcb k t) \<and> ucNotifyState (tcb k' t) = ucNotifyState (tcb k t)) \<Longrightarrow> notif k' = notif k"
  by (simp add: notif_def fun_eq_iff)

lemma notif_lists [simp]:
  "notif (upd_list L f k) = notif k" "notif (state_insert_end L t k) = notif k" "notif (state_insert L t k) = notif k"
  "notif (event_insert_end L t k) = notif k" "notif (event_insert L t k) = notif k" "notif (prvAddTaskToReadyList t k) = notif k"
  "notif (prvResetNextTaskUnblockTime k) = notif k" "notif (portYIELD k) = notif k" "notif (vTaskSuspendAll k) = notif k"
  "notif (k\<lparr>xTickCount := x\<rparr>) = notif k" "notif (k\<lparr>xPendedTicks := x\<rparr>) = notif k" "notif (k\<lparr>xYieldPending := b\<rparr>) = notif k"
  "notif (k\<lparr>uxSchedulerSuspended := x\<rparr>) = notif k" "notif (k\<lparr>PENDSVSET := b\<rparr>) = notif k" "notif (k\<lparr>xNextTaskUnblockTime := x\<rparr>) = notif k"
  "notif (upd_tcb t (\<lambda>c. c\<lparr>state_value := x\<rparr>) k) = notif k"
  by (auto simp: notif_def fun_eq_iff upd_list_def upd_tcb_def state_insert_end_def state_insert_def event_insert_end_def event_insert_def
      prvAddTaskToReadyList_def Let_def prvResetNextTaskUnblockTime_def portYIELD_def vTaskSuspendAll_def)

lemma notif_remove: "state_remove t k = Some k' \<Longrightarrow> notif k' = notif k" "event_remove t k = Some k' \<Longrightarrow> notif k' = notif k"
  by (auto simp: notif_def fun_eq_iff state_remove_def event_remove_def upd_tcb_def upd_list_def split: option.splits)

lemma notif_delayed: "prvAddCurrentTaskToDelayedList n b k = Some k' \<Longrightarrow> notif k' = notif k"
  by (auto simp: prvAddCurrentTaskToDelayedList_def Let_def notif_remove split: bind_splits if_splits)

lemma notif_unblock: "unblock_expired n sw k = Some (r, k') \<Longrightarrow> notif k' = notif k"
proof -
  assume run: "unblock_expired n sw k = Some (r, k')"
  have "notif (snd (r, k')) = notif k"
    by (rule unblock_expired.raw_induct [OF _ run, where P = "\<lambda>n sw k y. notif (snd y) = notif k"])
      (auto simp: notif_remove split: list.splits if_splits bind_splits)
  then show ?thesis by simp
qed

lemma notif_tick: "xTaskIncrementTick k = Some (sw, k') \<Longrightarrow> notif k' = notif k"
  by (auto simp: xTaskIncrementTick_def taskSWITCH_DELAYED_LISTS_def Let_def dest!: notif_unblock split: bind_splits if_splits)
    (auto simp: notif_def fun_eq_iff)

lemma notif_select: "taskSELECT_HIGHEST_PRIORITY_TASK k = Some k' \<Longrightarrow> notif k' = notif k"
  by (auto simp: taskSELECT_HIGHEST_PRIORITY_TASK_def Let_def notif_def fun_eq_iff upd_list_def split: bind_splits)

lemma notif_switch: "xPortPendSVHandler k = Some k' \<Longrightarrow> notif k' = notif k"
  by (auto simp: xPortPendSVHandler_def vTaskSwitchContext_def dest!: notif_select split: if_splits)

lemma notif_move: "move_pended b k = Some (r, k') \<Longrightarrow> notif k' = notif k"
proof -
  assume run: "move_pended b k = Some (r, k')"
  have "notif (snd (r, k')) = notif k"
    by (rule move_pended.raw_induct [OF _ run, where P = "\<lambda>b k y. notif (snd y) = notif k"])
      (auto simp: notif_remove Let_def split: list.splits if_splits bind_splits)
  then show ?thesis by simp
qed

lemma notif_pended: "pended_ticks n k = Some k' \<Longrightarrow> notif k' = notif k"
  by (induction n arbitrary: k) (auto dest!: notif_tick split: bind_splits if_splits)

lemma notif_resume: "xTaskResumeAll k = Some (b, k') \<Longrightarrow> notif k' = notif k"
  by (auto simp: xTaskResumeAll_def Let_def dest!: notif_move notif_pended split: bind_splits if_splits)

lemma notif_ready_or_pend: "ready_or_pend t k = Some k' \<Longrightarrow> notif k' = notif k"
  by (auto simp: ready_or_pend_def notif_remove split: bind_splits if_splits)

lemma notif_upd: "notif (upd_tcb t f k) = (notif k)(t := (ulNotifiedValue (f (tcb k t)), ucNotifyState (f (tcb k t))))"
  by (simp add: notif_def upd_tcb_def fun_eq_iff)

text \<open>What a notification and the two halves of a wait do to it.\<close>

definition notified :: "u32 \<Rightarrow> u32 \<Rightarrow> eNotifyAction \<Rightarrow> (u32 \<Rightarrow> u32 \<times> u8) \<Rightarrow> u32 \<Rightarrow> u32 \<times> u8" where
  "notified t v a n = n(t := (snd (notify_value a v (snd (n t)) (fst (n t))), taskNOTIFICATION_RECEIVED))"

lemma notif_notify: "xTaskGenericNotify t v a k = Some (p, b, k') \<Longrightarrow> notif k' = notified t v a (notif k) \<and> p = fst (notif k t)"
  by (auto simp: xTaskGenericNotify_def Let_def notified_def notif_upd notif_remove split: if_splits bind_splits prod.splits)
    (auto simp: notif_def fun_eq_iff upd_tcb_def)

lemma notif_notify_isr: "xTaskGenericNotifyFromISR t v a k = Some (p, b, w, k') \<Longrightarrow> notif k' = notified t v a (notif k) \<and> p = fst (notif k t)"
  by (auto simp: xTaskGenericNotifyFromISR_def Let_def notified_def notif_upd notif_ready_or_pend split: if_splits bind_splits prod.splits)
    (auto simp: notif_def fun_eq_iff upd_tcb_def)

lemma notif_block: "xTaskNotifyWait_block clear n k = Some k' \<Longrightarrow> notif k' =
   (if snd (notif k (pxCurrentTCB k)) \<noteq> taskNOTIFICATION_RECEIVED
    then (notif k)(pxCurrentTCB k := (fst (notif k (pxCurrentTCB k)) AND NOT clear, taskWAITING_NOTIFICATION)) else notif k)"
  by (auto simp: xTaskNotifyWait_block_def Let_def upd_current_def notif_upd dest!: notif_delayed split: if_splits bind_splits)
    (auto simp: notif_def fun_eq_iff upd_tcb_def)

lemma notif_finish: "xTaskNotifyWait_finish clear k = (v, b, k') \<Longrightarrow> v = fst (notif k (pxCurrentTCB k)) \<and>
   (b \<longleftrightarrow> snd (notif k (pxCurrentTCB k)) = taskNOTIFICATION_RECEIVED) \<and>
   notif k' = (notif k)(pxCurrentTCB k := (if b then v AND NOT clear else v, taskNOT_WAITING_NOTIFICATION))"
  by (auto simp: xTaskNotifyWait_finish_def Let_def upd_current_def notif_upd split: if_splits)
    (auto simp: notif_def fun_eq_iff upd_tcb_def)

fun notif_after :: "kernel_event \<Rightarrow> u32 \<Rightarrow> (u32 \<Rightarrow> u32 \<times> u8) \<Rightarrow> u32 \<Rightarrow> u32 \<times> u8" where
  "notif_after (Notify t v a) cur n = notified t v a n"
| "notif_after (NotifyFromISR t v a) cur n = notified t v a n"
| "notif_after (NotifyWait clear m) cur n = (if snd (n cur) \<noteq> taskNOTIFICATION_RECEIVED then n(cur := (fst (n cur) AND NOT clear, taskWAITING_NOTIFICATION)) else n)"
| "notif_after (NotifyFinish clear) cur n =
     n(cur := (if snd (n cur) = taskNOTIFICATION_RECEIVED then fst (n cur) AND NOT clear else fst (n cur), taskNOT_WAITING_NOTIFICATION))"
| "notif_after _ cur n = n"

lemma notif_call: "kernel_call c k = Some k' \<Longrightarrow> notif k' = notif_after c (pxCurrentTCB k) (notif k)"
proof (cases c)
  case Tick
  then show "kernel_call c k = Some k' \<Longrightarrow> ?thesis"
    by (auto simp: SysTick_Handler_def xPortSysTickHandler_def notif_tick split: if_splits bind_splits)
next
  case (NotifyFinish clear)
  then show "kernel_call c k = Some k' \<Longrightarrow> ?thesis"
    using notif_finish [of clear k] by (cases "xTaskNotifyWait_finish clear k") auto
next
  case (RemoveFromEventList q)
  then show "kernel_call c k = Some k' \<Longrightarrow> ?thesis"
    by (auto simp: xTaskRemoveFromEventList_def notif_remove notif_ready_or_pend split: list.splits bind_splits if_splits)
qed (auto simp: notif_switch notif_resume notif_delayed notif_block notif_notify notif_notify_isr vTaskPlaceOnEventList_def
  vTaskPlaceOnEventListRestricted_def Let_def dest!: notif_delayed)

subsection \<open>No notification is lost\<close>

fun notifies :: "u32 \<Rightarrow> kernel_event \<Rightarrow> bool" where
  "notifies t (Notify u f a) = (u = t)"
| "notifies t (NotifyFromISR u f a) = (u = t)"
| "notifies t _ = False"

fun flags_in :: "u32 \<Rightarrow> kernel_event \<Rightarrow> u32" where
  "flags_in t (Notify u f a) = (if u = t \<and> a = eSetBits then f else 0)"
| "flags_in t (NotifyFromISR u f a) = (if u = t \<and> a = eSetBits then f else 0)"
| "flags_in t _ = 0"

text \<open>The flags that a sequence of events sets.\<close>

definition flags_of :: "u32 \<Rightarrow> kernel_event list \<Rightarrow> u32" where
  "flags_of t cs = foldl (\<lambda>f c. f OR flags_in t c) 0 cs"

text \<open>
  How flags are used: others notify task \<open>t\<close> to set flags of its mask \<open>m\<close>, or with no action (a query);
  the task itself clears nothing on entry to a wait, and waits for nothing else.
\<close>

fun flag_call :: "u32 \<Rightarrow> u32 \<Rightarrow> kernel_event \<Rightarrow> kernel \<Rightarrow> bool" where
  "flag_call m t (Notify u f a) k = (u = t \<longrightarrow> a = eNoAction \<or> a = eSetBits \<and> f AND NOT m = 0)"
| "flag_call m t (NotifyFromISR u f a) k = (u = t \<longrightarrow> a = eNoAction \<or> a = eSetBits \<and> f AND NOT m = 0)"
| "flag_call m t (NotifyWait clear n) k = (pxCurrentTCB k = t \<longrightarrow> clear = 0)"
| "flag_call m t (NotifyFinish clear) k = (pxCurrentTCB k \<noteq> t)"
| "flag_call m t (Block n) k = (pxCurrentTCB k \<noteq> t)"
| "flag_call m t (PlaceOnEventList q n) k = (pxCurrentTCB k \<noteq> t)"
| "flag_call m t (PlaceRestricted q n forever) k = (pxCurrentTCB k \<noteq> t)"
| "flag_call m t _ k = True"

lemma flags_of_simps [simp]: "flags_of t [] = 0" "flags_of t (cs @ [c]) = flags_of t cs OR flags_in t c"
  by (simp_all add: flags_of_def)

lemma flags_notified: "flags_of t cs \<noteq> 0 \<Longrightarrow> \<exists>c \<in> set cs. notifies t c"
proof (induction cs rule: rev_induct)
  case (snoc c cs)
  then show ?case by (cases "flags_of t cs = 0"; cases c) (auto split: if_splits)
qed simp

lemma or_inside: "(a :: u32) AND NOT m = 0 \<Longrightarrow> b AND NOT m = 0 \<Longrightarrow> (a OR b) AND NOT m = 0"
  by (simp add: bit.conj_disj_distrib2)

text \<open>Awake: ready, or to be made ready when the scheduler is resumed.\<close>

definition awake :: "u32 \<Rightarrow> sched \<Rightarrow> bool" where
  "awake t s \<longleftrightarrow> s_status s t = TReady \<or> t \<in> s_pended s"

lemma awake_simps [simp]:
  "awake t (sp_suspend s) = awake t s" "awake t (sp_ready u s) \<longleftrightarrow> u = t \<or> awake t s" "awake t (sp_wake u s) \<longleftrightarrow> u = t \<or> awake t s"
  "u \<noteq> t \<Longrightarrow> awake t (sp_block u n b s) = awake t s"
  by (auto simp: awake_def sp_tick_def sp_suspend_def sp_ready_def sp_wake_def sp_block_def)

lemma awake_resume: "awake t s \<Longrightarrow> awake t (sp_resume s)"
  by (auto simp: awake_def sp_resume_def)

lemma awake_tick: "awake t s \<Longrightarrow> awake t (sp_tick s)"
  by (auto simp: awake_def sp_tick_def)

lemma notif_state: "ucNotifyState (tcb k t) = snd (notif k t)"
  by (simp add: notif_def)

lemma awake_promise:
  assumes "flag_call m t c k" "awake t s \<or> snd (notif k t) = taskWAITING_NOTIFICATION"
  shows "awake t (promise c k s) \<or> snd (notif_after c (pxCurrentTCB k) (notif k) t) = taskWAITING_NOTIFICATION"
proof (cases c)
  case (NotifyWait clear n)
  then show ?thesis using assms by (cases "pxCurrentTCB k = t") (auto simp: notif_state)
next
  case (Notify u f a)
  then show ?thesis using assms by (cases "u = t") (auto simp: notif_state notified_def)
next
  case (NotifyFromISR u f a)
  then show ?thesis using assms by (cases "u = t") (auto simp: notif_state notified_def)
qed (use assms awake_resume awake_tick in auto)

lemma flag_step:
  assumes "flag_call m t c k" "notif k t = (F, s)" "F AND NOT m = 0" "s = taskNOTIFICATION_RECEIVED \<longleftrightarrow> N"
  shows "\<exists>s'. notif_after c (pxCurrentTCB k) (notif k) t = (F OR flags_in t c, s') \<and> (F OR flags_in t c) AND NOT m = 0 \<and>
    (s' = taskNOTIFICATION_RECEIVED \<longleftrightarrow> N \<or> notifies t c)"
proof (cases c)
  case (Notify u f a)
  then show ?thesis using assms or_inside [OF assms(3), of f] by (cases "u = t") (auto simp: notified_def notify_value_def)
next
  case (NotifyFromISR u f a)
  then show ?thesis using assms or_inside [OF assms(3), of f] by (cases "u = t") (auto simp: notified_def notify_value_def)
next
  case (NotifyWait clear n)
  then show ?thesis using assms by (cases "pxCurrentTCB k = t") auto
qed (use assms in simp_all)

lemma flags_run:
  assumes "kernel_run (\<lambda>c k. allowed idle T c k \<and> flag_call m t c k) k cs k'"
    and "kernel_inv T k" "idle \<in> T" "ready k idle" "t \<in> T"
    and "notif k t = (F, s)" "F AND NOT m = 0" "awake t (view T k) \<or> s = taskWAITING_NOTIFICATION"
  shows "\<exists>s'. notif k' t = (F OR flags_of t cs, s') \<and> (F OR flags_of t cs) AND NOT m = 0 \<and>
    (s' = taskNOTIFICATION_RECEIVED \<longleftrightarrow> s = taskNOTIFICATION_RECEIVED \<or> (\<exists>c \<in> set cs. notifies t c)) \<and>
    (awake t (view T k') \<or> s' = taskWAITING_NOTIFICATION)"
  using assms
proof (induction rule: kernel_run.induct)
  case (run_step k cs k1 c k2)
  have inv: "kernel_inv T k1" "ready k1 idle" using kernel_run_inv [OF run_step.hyps(1) run_step.prems(1-3)] by auto
  let ?F = "F OR flags_of t cs" and ?N = "s = taskNOTIFICATION_RECEIVED \<or> (\<exists>c \<in> set cs. notifies t c)"
  obtain s1 where s1: "notif k1 t = (?F, s1)" "?F AND NOT m = 0" "s1 = taskNOTIFICATION_RECEIVED \<longleftrightarrow> ?N"
    "awake t (view T k1) \<or> s1 = taskWAITING_NOTIFICATION"
    using run_step.IH [OF run_step.prems] by blast
  have a: "allowed idle T c k1" "flag_call m t c k1" using run_step.hyps(2) by auto
  have v: "view T k2 = promise c k1 (view T k1)" using call_refines [OF inv(1) run_step.prems(2) inv(2) a(1) run_step.hyps(3)] by blast
  obtain s' where s': "notif k2 t = (?F OR flags_in t c, s')" "(?F OR flags_in t c) AND NOT m = 0"
    "s' = taskNOTIFICATION_RECEIVED \<longleftrightarrow> ?N \<or> notifies t c"
    using flag_step [OF a(2) s1(1-3)] by (auto simp: notif_call [OF run_step.hyps(3)])
  have "awake t (view T k2) \<or> s' = taskWAITING_NOTIFICATION"
    using awake_promise [OF a(2), of "view T k1"] s1(1,4) s'(1) by (simp add: v notif_call [OF run_step.hyps(3)])
  then show ?case using s' by (auto simp: or.assoc)
qed simp

lemma awake_ready:
  assumes "kernel_inv T k" "t \<in> T" "uxSchedulerSuspended k = 0" "awake t (view T k)"
  shows "ready k t"
proof -
  have "s_pended (view T k) = {}"
    using pended_none [OF wf_lists [OF kernel_invD(1) [OF assms(1)]]] kernel_invD(5) [OF assms(1,3)] by (auto simp: view_def)
  then show ?thesis using assms(2,4) by (simp add: awake_def status_view ready_status)
qed


text \<open>The second task waits with a timeout; an interrupt sets two flags while the scheduler is suspended; the task takes them.\<close>

definition flag_events :: "kernel_event list" where
  "flag_events = [NotifyWait 0 5, Switch, Suspend, Tick, NotifyFromISR 0x180 2 eSetBits, NotifyFromISR 0x180 8 eSetBits, Resume, Switch]"


end
