(* ===== verification/KernelFlags.thy ===== *)
theory KernelFlags
  imports KernelNote GwSim
begin

text \<open>
  The thread flags of \<^verbatim>\<open>cmsis_os2.c\<close> on the kernel. What others do while a call is in progress is a
  sequence of kernel events: one for the time between the two notifications of setting or clearing, one for each round of a wait,
  from the moment the task gives up the processor to the moment it runs again. The gateway's own model keeps the flags in a
  word per task; it is what the kernel does.
\<close>

definition THREAD_FLAGS_INVALID_BITS :: u32 where "THREAD_FLAGS_INVALID_BITS = NOT (2 ^ 31 - 1)"

definition osThreadFlagsSet_kernel ::
    "(kernel_event \<Rightarrow> kernel \<Rightarrow> bool) \<Rightarrow> kernel_event list \<Rightarrow> bool \<Rightarrow> u32 \<Rightarrow> u32 \<Rightarrow> kernel \<Rightarrow> (u32 \<times> kernel) option" where
  "osThreadFlagsSet_kernel A cs IS_IRQ hTask flags k =
     (if hTask = 0 \<or> flags AND THREAD_FLAGS_INVALID_BITS \<noteq> 0 then Some (osFlagsErrorParameter, k)
      else if IS_IRQ then do {
        (_, _, yield, k) \<leftarrow> xTaskGenericNotifyFromISR hTask flags eSetBits k;
        (rflags, _, _, k) \<leftarrow> xTaskGenericNotifyFromISR hTask 0 eNoAction k;
        Some (rflags, if yield then portYIELD k else k)
      }
      else do {
        (_, _, k) \<leftarrow> xTaskGenericNotify hTask flags eSetBits k;
        k \<leftarrow> calls A cs k;
        (rflags, _, k) \<leftarrow> xTaskGenericNotify hTask 0 eNoAction k;
        Some (rflags, k)
      })"

definition osThreadFlagsClear_kernel ::
    "(kernel_event \<Rightarrow> kernel \<Rightarrow> bool) \<Rightarrow> kernel_event list \<Rightarrow> bool \<Rightarrow> u32 \<Rightarrow> kernel \<Rightarrow> (u32 \<times> kernel) option" where
  "osThreadFlagsClear_kernel A cs IS_IRQ flags k =
     (if IS_IRQ then Some (0xFFFFFFFA, k)
      else if flags AND THREAD_FLAGS_INVALID_BITS \<noteq> 0 then Some (osFlagsErrorParameter, k)
      else
        let hTask = pxCurrentTCB k in do {
          (cflags, r, k) \<leftarrow> xTaskGenericNotify hTask 0 eNoAction k;
          (if r then do {
             k \<leftarrow> calls A cs k;
             (_, r, k) \<leftarrow> xTaskGenericNotify hTask (cflags AND NOT flags) eSetValueWithOverwrite k;
             Some (if r then cflags else 0xFFFFFFFF, k)
           }
           else Some (0xFFFFFFFF, k))
        })"

definition running :: "u32 \<Rightarrow> kernel \<Rightarrow> bool" where
  "running t k \<longleftrightarrow> pxCurrentTCB k = t \<and> state_container (tcb k t) = Some (ReadyTasksLists (uxPriority (tcb k t))) \<and>
     event_container (tcb k t) = None \<and> uxSchedulerSuspended k = 0"

text \<open>The loop of \<^verbatim>\<open>osThreadFlagsWait\<close>; \<open>None\<close> when the sequences end before the call does.\<close>

fun flags_wait_loop :: "(kernel_event \<Rightarrow> kernel \<Rightarrow> bool) \<Rightarrow> kernel_event list list \<Rightarrow> u32 \<Rightarrow> u32 \<Rightarrow> u32 \<Rightarrow> u32 \<Rightarrow> u32 \<Rightarrow> u32 \<Rightarrow> u32 \<Rightarrow>
    kernel \<Rightarrow> (u32 \<times> kernel) option" where
  "flags_wait_loop A [] flags options clear timeout t0 tout rflags k = None"
| "flags_wait_loop A (cs # css) flags options clear timeout t0 tout rflags k =
     (let t = pxCurrentTCB k in do {
        k \<leftarrow> xTaskNotifyWait_block 0 tout k;
        k \<leftarrow> calls A cs k;
        (if \<not> running t k then None
         else
           let (nval, rval, k) = xTaskNotifyWait_finish clear k
           in if rval then
                let rflags = (rflags AND flags) OR nval
                in if (if options AND 1 = 1 then flags AND rflags = flags else flags AND rflags \<noteq> 0) then Some (rflags, k)
                   else if timeout = 0 then Some (osFlagsErrorResource, k)
                   else
                     let td = xTickCount k - t0
                     in flags_wait_loop A css flags options clear timeout t0 (if td > tout then 0 else tout - td) rflags k
              else Some (if timeout = 0 then osFlagsErrorResource else osFlagsErrorTimeout, k))
      })"

definition osThreadFlagsWait_kernel ::
    "(kernel_event \<Rightarrow> kernel \<Rightarrow> bool) \<Rightarrow> kernel_event list list \<Rightarrow> bool \<Rightarrow> u32 \<Rightarrow> u32 \<Rightarrow> u32 \<Rightarrow> kernel \<Rightarrow> (u32 \<times> kernel) option" where
  "osThreadFlagsWait_kernel A css IS_IRQ flags options timeout k =
     (if IS_IRQ then Some (0xFFFFFFFA, k)
      else if flags AND THREAD_FLAGS_INVALID_BITS \<noteq> 0 then Some (osFlagsErrorParameter, k)
      else
        let clear = (if options AND 2 = 2 then 0 else flags)
        in flags_wait_loop A css flags options clear timeout (xTickCount k) timeout 0 k)"

subsection \<open>One round of a wait\<close>

text \<open>A running task that uses its notification for flags of mask \<open>m\<close>: flags it holds are never without a notification.\<close>

definition flag_owner :: "u32 \<Rightarrow> u32 set \<Rightarrow> u32 \<Rightarrow> u32 \<Rightarrow> kernel \<Rightarrow> bool" where
  "flag_owner idle T m t k \<longleftrightarrow> kernel_inv T k \<and> idle \<in> T \<and> ready k idle \<and> t \<in> T \<and> t \<noteq> idle \<and> running t k \<and>
     ulNotifiedValue (tcb k t) AND NOT m = 0 \<and> ucNotifyState (tcb k t) \<noteq> taskWAITING_NOTIFICATION \<and>
     (ulNotifiedValue (tcb k t) \<noteq> 0 \<longrightarrow> ucNotifyState (tcb k t) = taskNOTIFICATION_RECEIVED)"

abbreviation others :: "u32 \<Rightarrow> u32 set \<Rightarrow> u32 \<Rightarrow> u32 \<Rightarrow> kernel_event \<Rightarrow> kernel \<Rightarrow> bool" where
  "others idle T m t \<equiv> \<lambda>c k. allowed idle T c k \<and> flag_call m t c k"

lemma calls_kernel_run: "calls A cs k = Some k' \<Longrightarrow> kernel_run A k cs k'"
  using calls_run [OF run_nil] by fastforce

lemma running_simps:
  "running t k \<Longrightarrow> pxCurrentTCB k = t" "running t k \<Longrightarrow> ready k t" "running t k \<Longrightarrow> event_container (tcb k t) = None"
  "running t k \<Longrightarrow> uxSchedulerSuspended k = 0"
  by (simp_all add: running_def ready_def)

lemma finish_running:
  assumes "running t k" "xTaskNotifyWait_finish m k = (v, b, k')"
  shows "running t k'"
  using assms by (auto simp: running_def xTaskNotifyWait_finish_def Let_def upd_current_def upd_tcb_def split: if_splits)

lemma flags_round:
  assumes own: "flag_owner idle T m t k" and kb: "xTaskNotifyWait_block 0 n k = Some kb" and k1: "calls (others idle T m t) cs kb = Some k1"
    and run: "running t k1" and fin: "xTaskNotifyWait_finish m k1 = (v, b, k2)"
  defines "F \<equiv> ulNotifiedValue (tcb k t) OR flags_of t cs"
  shows "v = F" "b \<longleftrightarrow> ucNotifyState (tcb k t) = taskNOTIFICATION_RECEIVED \<or> (\<exists>c \<in> set cs. notifies t c)" "F \<noteq> 0 \<Longrightarrow> b"
    "F AND NOT m = 0" "flag_owner idle T m t k2" "notif k2 t = (0, taskNOT_WAITING_NOTIFICATION)"
proof -
  obtain G s where g: "notif k t = (G, s)" by fastforce
  have G: "ulNotifiedValue (tcb k t) = G" "ucNotifyState (tcb k t) = s" using g by (simp_all add: notif_def)
  have o: "kernel_inv T k" "idle \<in> T" "ready k idle" "t \<in> T" "t \<noteq> idle" "running t k" "G AND NOT m = 0" "s \<noteq> taskWAITING_NOTIFICATION"
    "G \<noteq> 0 \<longrightarrow> s = taskNOTIFICATION_RECEIVED" using own G by (auto simp: flag_owner_def)
  note r = running_simps [OF o(6)]
  have b: "kernel_call (NotifyWait 0 n) k = Some kb" "allowed idle T (NotifyWait 0 n) k" "flag_call m t (NotifyWait 0 n) k"
    using kb o(5) r by (simp_all add: may_block_def)
  have run1: "kernel_run (others idle T m t) kb cs k1" by (rule calls_kernel_run [OF k1])
  have invb: "kernel_inv T kb \<and> ready kb idle \<and> view T kb = promise (NotifyWait 0 n) k (view T k)"
    by (rule call_refines [OF o(1-3) b(2,1)])
  obtain s1 where s1: "notif kb t = (G, s1)" "s1 = taskNOTIFICATION_RECEIVED \<longleftrightarrow> s = taskNOTIFICATION_RECEIVED"
    using flag_step [OF b(3) g o(7) refl] by (auto simp: notif_call [OF b(1)])
  have "awake t (view T k)" using r(2) o(4) by (simp add: awake_def status_view ready_status)
  then have aw: "awake t (view T kb) \<or> s1 = taskWAITING_NOTIFICATION"
    using awake_promise [OF b(3), of "view T k"] invb s1(1) by (simp add: notif_call [OF b(1)])
  obtain s2 where s2: "notif k1 t = (F, s2)" "F AND NOT m = 0"
    "s2 = taskNOTIFICATION_RECEIVED \<longleftrightarrow> s1 = taskNOTIFICATION_RECEIVED \<or> (\<exists>c \<in> set cs. notifies t c)"
    using flags_run [OF run1 _ o(2) _ o(4) s1(1) o(7) aw] invb by (auto simp: F_def G)
  have inv1: "kernel_inv T k1" "ready k1 idle" using kernel_run_inv [OF run1 _ o(2)] invb by auto
  note f = notif_finish [OF fin] notify_finish_does(1,2) [OF inv1(1) fin]
  show v: "v = F" and bb: "b \<longleftrightarrow> ucNotifyState (tcb k t) = taskNOTIFICATION_RECEIVED \<or> (\<exists>c \<in> set cs. notifies t c)"
    using f(1) s2(1,3) s1(2) running_simps(1) [OF run] by (simp_all add: G)
  show Fb: "b" if "F \<noteq> 0"
  proof (cases "G = 0")
    case True
    then have "flags_of t cs \<noteq> 0" using that by (simp add: F_def G)
    then show ?thesis using bb flags_notified by blast
  qed (use bb o(9) G in simp)
  show "F AND NOT m = 0" by (rule s2(2))
  show nk2: "notif k2 t = (0, taskNOT_WAITING_NOTIFICATION)" using f(1) v Fb s2(2) running_simps(1) [OF run] by (cases "F = 0") auto
  have "ready k2 idle" using f(3) inv1(2) by (metis o(2) ready_status status_view)
  then show "flag_owner idle T m t k2" using nk2 f(2) o finish_running [OF run fin]
    by (auto simp: flag_owner_def notif_def taskNOT_WAITING_NOTIFICATION_def taskWAITING_NOTIFICATION_def)
qed

subsection \<open>The whole wait\<close>

lemma mask_and:
  assumes "(F :: u32) AND NOT m = 0"
  shows "m AND F = F"
proof -
  have "F = F AND (m OR NOT m)" by simp
  also have "\<dots> = (F AND m) OR (F AND NOT m)" by (rule bit.conj_disj_distrib)
  finally show ?thesis using assms by (simp add: and.commute)
qed

lemma flags_of_append [simp]: "flags_of t (as @ bs) = flags_of t as OR flags_of t bs"
proof (induction bs rule: rev_induct)
  case (snoc b bs)
  then show ?case by (simp flip: append_assoc add: or.assoc)
qed simp

definition wait_error :: "u32 \<Rightarrow> u32" where
  "wait_error timeout = (if timeout = 0 then osFlagsErrorResource else osFlagsErrorTimeout)"

text \<open>A flag that is held, or set before the task runs again, ends the wait.\<close>

lemma flags_taken:
  assumes own: "flag_owner idle T m t k" and kb: "xTaskNotifyWait_block 0 n k = Some kb" and k1: "calls (others idle T m t) cs kb = Some k1"
    and run: "running t k1" and F: "ulNotifiedValue (tcb k t) OR flags_of t cs \<noteq> 0"
  shows "\<exists>k'. flags_wait_loop (others idle T m t) (cs # css) m 0 m timeout t0 n 0 k = Some (ulNotifiedValue (tcb k t) OR flags_of t cs, k') \<and>
    flag_owner idle T m t k' \<and> ulNotifiedValue (tcb k' t) = 0"
proof -
  obtain v b k2 where fin: "xTaskNotifyWait_finish m k1 = (v, b, k2)" using prod_cases3 by blast
  note r = flags_round [OF own kb k1 run fin]
  have "pxCurrentTCB k = t" using own by (simp add: flag_owner_def running_def)
  moreover have "m AND v \<noteq> 0" using mask_and [OF r(4)] r(1) F by simp
  ultimately show ?thesis using kb k1 run fin r(1,5,6) r(3) [OF F] by (auto simp: Let_def notif_def)
qed

lemma flags_again:
  assumes own: "flag_owner idle T m t k" and kb: "xTaskNotifyWait_block 0 n k = Some kb" and k1: "calls (others idle T m t) cs kb = Some k1"
    and run: "running t k1" and fin: "xTaskNotifyWait_finish m k1 = (0, b, k2)"
  shows "flags_wait_loop (others idle T m t) (cs # css) m 0 m timeout t0 n 0 k =
    (if b \<and> timeout \<noteq> 0 then flags_wait_loop (others idle T m t) css m 0 m timeout t0
        (if xTickCount k2 - t0 > n then 0 else n - (xTickCount k2 - t0)) 0 k2
     else Some (wait_error timeout, k2))"
proof -
  have "pxCurrentTCB k = t" using own by (simp add: flag_owner_def running_def)
  then show ?thesis by (cases b; cases "timeout = 0") (simp_all add: kb k1 run fin Let_def wait_error_def)
qed

lemma flags_wait_result:
  assumes "flag_owner idle T m t k" "flags_wait_loop (others idle T m t) css m 0 m timeout t0 n 0 k = Some (r, k')"
  shows "\<exists>i \<le> length css. flag_owner idle T m t k' \<and> ulNotifiedValue (tcb k' t) = 0 \<and>
    (ulNotifiedValue (tcb k t) OR flags_of t (concat (take i css))) AND NOT m = 0 \<and>
    r = (if ulNotifiedValue (tcb k t) OR flags_of t (concat (take i css)) = 0 then wait_error timeout
         else ulNotifiedValue (tcb k t) OR flags_of t (concat (take i css)))"
  using assms
proof (induction css arbitrary: k n)
  case (Cons cs css)
  let ?F = "ulNotifiedValue (tcb k t) OR flags_of t cs"
  have cur: "pxCurrentTCB k = t" using Cons.prems(1) by (simp add: flag_owner_def running_def)
  obtain kb k1 where k1: "xTaskNotifyWait_block 0 n k = Some kb" "calls (others idle T m t) cs kb = Some k1" "running t k1"
    using Cons.prems(2) cur by (auto simp: Let_def split: bind_splits if_splits)
  obtain v b k2 where fin: "xTaskNotifyWait_finish m k1 = (v, b, k2)" using prod_cases3 by blast
  note r = flags_round [OF Cons.prems(1) k1 fin]
  show ?case
  proof (cases "?F = 0")
    case False
    then have "r = ?F \<and> flag_owner idle T m t k' \<and> ulNotifiedValue (tcb k' t) = 0"
      using flags_taken [OF Cons.prems(1) k1 False, of css timeout t0] Cons.prems(2) by auto
    then show ?thesis using False r(1,4) by (intro exI [of _ 1]) simp
  next
    case True
    then have z: "v = 0" "ulNotifiedValue (tcb k t) = 0" "flags_of t cs = 0" "ulNotifiedValue (tcb k2 t) = 0" using r(1,6) by (auto simp: notif_def or_eq_0_iff)
    have "(if b \<and> timeout \<noteq> 0 then flags_wait_loop (others idle T m t) css m 0 m timeout t0
        (if xTickCount k2 - t0 > n then 0 else n - (xTickCount k2 - t0)) 0 k2 else Some (wait_error timeout, k2)) = Some (r, k')"
      using Cons.prems(2) unfolding flags_again [OF Cons.prems(1) k1 fin [unfolded z(1)]] .
    then consider "\<not> (b \<and> timeout \<noteq> 0)" "Some (wait_error timeout, k2) = Some (r, k')"
      | t' where "flags_wait_loop (others idle T m t) css m 0 m timeout t0 t' 0 k2 = Some (r, k')"
      by (simp only: split: if_split_asm) blast+
    then show ?thesis
    proof cases
      case 1
      then show ?thesis using r(5) z by (intro exI [of _ 0]) auto
    next
      case 2
      obtain i where "i \<le> length css" "flag_owner idle T m t k'" "ulNotifiedValue (tcb k' t) = 0" "flags_of t (concat (take i css)) AND NOT m = 0"
        "r = (if flags_of t (concat (take i css)) = 0 then wait_error timeout else flags_of t (concat (take i css)))"
        using Cons.IH [OF r(5) 2] z(4) by auto
      then show ?thesis using z by (intro exI [of _ "Suc i"]) simp
    qed
  qed
qed simp

subsection \<open>Setting and clearing\<close>

lemma notify_value_simps [simp]:
  "notify_value eSetBits v s w = (True, w OR v)" "notify_value eNoAction v s w = (True, w)" "notify_value eSetValueWithOverwrite v s w = (True, v)"
  by (simp_all add: notify_value_def)

lemma notify_returns:
  assumes "kernel_inv T k" "t \<in> T" "a \<noteq> eSetValueWithoutOverwrite"
  shows "\<exists>k'. xTaskGenericNotify t v a k = Some (ulNotifiedValue (tcb k t), True, k') \<and> kernel_inv T k' \<and>
    notif k' = notified t v a (notif k)"
proof -
  obtain x where x: "xTaskGenericNotify t v a k = Some x" "kernel_inv T (snd (snd x))"
    using notify_does [OF assms(1,2), of v a] by (cases "xTaskGenericNotify t v a k") (auto simp: does_def)
  obtain p r k' where p: "x = (p, r, k')" using prod_cases3 by blast
  note n = notif_notify [OF x(1) [unfolded p]]
  have set: "q" if "notify_value a v s w = (q, y)" for s w q y using that assms(3) by (cases a) (simp_all add: notify_value_def)
  have r using x(1) by (auto simp: p xTaskGenericNotify_def Let_def dest: set split: if_splits prod.splits bind_splits)
  then show ?thesis using x n by (simp add: p notif_def)
qed

lemma notify_isr_returns:
  assumes "kernel_inv T k" "t \<in> T" "a \<noteq> eSetValueWithoutOverwrite"
  shows "\<exists>w k'. xTaskGenericNotifyFromISR t v a k = Some (ulNotifiedValue (tcb k t), True, w, k') \<and> kernel_inv T k' \<and>
    notif k' = notified t v a (notif k)"
proof -
  obtain x where x: "xTaskGenericNotifyFromISR t v a k = Some x" "kernel_inv T (snd (snd (snd x)))"
    using notify_isr_does [OF assms(1,2), of v a] by (cases "xTaskGenericNotifyFromISR t v a k") (auto simp: does_def)
  obtain p r w k' where p: "x = (p, r, w, k')" using prod_cases4 by blast
  note n = notif_notify_isr [OF x(1) [unfolded p]]
  have set: "q" if "notify_value a v s w = (q, y)" for s w q y using that assms(3) by (cases a) (simp_all add: notify_value_def)
  have r using x(1) by (auto simp: p xTaskGenericNotifyFromISR_def Let_def dest: set split: if_splits prod.splits bind_splits)
  then show ?thesis using x n by (simp add: p notif_def)
qed

text \<open>Setting flags, from an interrupt or from a task that is not preempted meanwhile.\<close>

lemma flags_set:
  assumes "kernel_inv T k" "t \<in> T" "f AND THREAD_FLAGS_INVALID_BITS = 0"
  shows "\<exists>k'. osThreadFlagsSet_kernel A [] irq t f k = Some (ulNotifiedValue (tcb k t) OR f, k') \<and> kernel_inv T k' \<and>
    ulNotifiedValue (tcb k' t) = ulNotifiedValue (tcb k t) OR f"
proof -
  have t0: "t \<noteq> 0" using kernel_invD(1) [OF assms(1)] assms(2) by (auto simp: kernel_wf_def)
  show ?thesis
  proof (cases irq)
    case True
    obtain w k1 where k1: "xTaskGenericNotifyFromISR t f eSetBits k = Some (ulNotifiedValue (tcb k t), True, w, k1)" "kernel_inv T k1"
      "notif k1 = notified t f eSetBits (notif k)" using notify_isr_returns [OF assms(1,2), of eSetBits f] by auto
    obtain w2 k2 where k2: "xTaskGenericNotifyFromISR t 0 eNoAction k1 = Some (ulNotifiedValue (tcb k1 t), True, w2, k2)" "kernel_inv T k2"
      "notif k2 = notified t 0 eNoAction (notif k1)" using notify_isr_returns [OF k1(2) assms(2), of eNoAction 0] by auto
    have "ulNotifiedValue (tcb k1 t) = ulNotifiedValue (tcb k t) OR f" "ulNotifiedValue (tcb k2 t) = ulNotifiedValue (tcb k1 t)"
      using fun_cong [OF k1(3), of t] fun_cong [OF k2(3), of t] by (simp_all add: notif_def notified_def)
    then show ?thesis using True t0 assms(3) k1(1) k2(1,2) inv_yield [of T k2] by (simp add: osThreadFlagsSet_kernel_def) (simp add: portYIELD_def)
  next
    case False
    obtain k1 where k1: "xTaskGenericNotify t f eSetBits k = Some (ulNotifiedValue (tcb k t), True, k1)" "kernel_inv T k1"
      "notif k1 = notified t f eSetBits (notif k)" using notify_returns [OF assms(1,2), of eSetBits f] by auto
    obtain k2 where k2: "xTaskGenericNotify t 0 eNoAction k1 = Some (ulNotifiedValue (tcb k1 t), True, k2)" "kernel_inv T k2"
      "notif k2 = notified t 0 eNoAction (notif k1)" using notify_returns [OF k1(2) assms(2), of eNoAction 0] by auto
    have "ulNotifiedValue (tcb k1 t) = ulNotifiedValue (tcb k t) OR f" "ulNotifiedValue (tcb k2 t) = ulNotifiedValue (tcb k1 t)"
      using fun_cong [OF k1(3), of t] fun_cong [OF k2(3), of t] by (simp_all add: notif_def notified_def)
    then show ?thesis using False t0 assms(3) k1(1) k2(1,2) by (simp add: osThreadFlagsSet_kernel_def)
  qed
qed

text \<open>Notifying a task that does not wait only changes its notification.\<close>

lemma notify_awake:
  assumes "t \<noteq> 0" "ucNotifyState (tcb k t) \<noteq> taskWAITING_NOTIFICATION" "notify_value a v (ucNotifyState (tcb k t)) (ulNotifiedValue (tcb k t)) = (r, w)"
  shows "xTaskGenericNotify t v a k = Some (ulNotifiedValue (tcb k t), r, note_task t taskNOTIFICATION_RECEIVED w k)"
    "xTaskGenericNotifyFromISR t v a k = Some (ulNotifiedValue (tcb k t), r, False, note_task t taskNOTIFICATION_RECEIVED w k)"
  using assms by (simp_all add: xTaskGenericNotify_def xTaskGenericNotifyFromISR_def Let_def note_split)

lemma note_again: "note_task t st w (note_task t st' w' k) = note_task t st w k"
  by (simp add: note_task_def upd_tcb_def fun_eq_iff)

lemma running_note [simp]: "running t (note_task t st w k) = running t k"
  by (simp add: running_def)

lemma owner_note:
  assumes "flag_owner idle T m t k" "w AND NOT m = 0"
  shows "flag_owner idle T m t (note_task t taskNOTIFICATION_RECEIVED w k)"
proof -
  have "ready (note_task t taskNOTIFICATION_RECEIVED w k) u = ready k u" for u by (simp add: ready_def)
  then show ?thesis using assms note_task_inv [of T k taskNOTIFICATION_RECEIVED t w] by (simp add: flag_owner_def)
qed

lemma owner_simps:
  "flag_owner idle T m t k \<Longrightarrow> t \<noteq> 0" "flag_owner idle T m t k \<Longrightarrow> ucNotifyState (tcb k t) \<noteq> taskWAITING_NOTIFICATION"
  "flag_owner idle T m t k \<Longrightarrow> pxCurrentTCB k = t" "flag_owner idle T m t k \<Longrightarrow> ulNotifiedValue (tcb k t) AND NOT m = 0"
  "flag_owner idle T m t k \<Longrightarrow> kernel_inv T k" "flag_owner idle T m t k \<Longrightarrow> t \<in> T"
  using kernel_invD(1) [of T k] by (auto simp: flag_owner_def running_def kernel_wf_def)

lemma flags_clear:
  assumes own: "flag_owner idle T m t k" and f: "f AND THREAD_FLAGS_INVALID_BITS = 0"
  shows "\<exists>k'. osThreadFlagsClear_kernel A [] False f k = Some (ulNotifiedValue (tcb k t), k') \<and> flag_owner idle T m t k' \<and>
    ulNotifiedValue (tcb k' t) = ulNotifiedValue (tcb k t) AND NOT f"
proof -
  let ?F = "ulNotifiedValue (tcb k t)"
  note o = owner_simps [OF own]
  have "(?F AND NOT f) AND NOT m = (?F AND NOT m) AND NOT f" by (simp only: and.assoc and.commute and.left_commute)
  then have "flag_owner idle T m t (note_task t taskNOTIFICATION_RECEIVED (?F AND NOT f) k)" using owner_note [OF own] o(4) by simp
  then show ?thesis using o f notify_awake(1) [OF o(1,2), of eNoAction 0] notify_awake(1) [OF o(1), of "note_task t taskNOTIFICATION_RECEIVED ?F k"]
    by (simp add: osThreadFlagsClear_kernel_def Let_def note_again)
qed

text \<open>Clearing is not atomic: what an interrupt sets between its two notifications is overwritten.\<close>

lemma flags_clear_race:
  assumes own: "flag_owner idle T m t k" and f: "f AND THREAD_FLAGS_INVALID_BITS = 0" and g: "g AND NOT m = 0"
  shows "\<exists>k'. osThreadFlagsClear_kernel (others idle T m t) [NotifyFromISR t g eSetBits, NotifyFromISR t 0 eNoAction] False f k =
      Some (ulNotifiedValue (tcb k t), k') \<and> ulNotifiedValue (tcb k' t) = ulNotifiedValue (tcb k t) AND NOT f"
proof -
  let ?F = "ulNotifiedValue (tcb k t)" and ?n = "\<lambda>w. note_task t taskNOTIFICATION_RECEIVED w k"
  note o = owner_simps [OF own]
  have "xTaskGenericNotifyFromISR t g eSetBits (?n ?F) = Some (?F, True, False, ?n (?F OR g))"
    "xTaskGenericNotifyFromISR t 0 eNoAction (?n (?F OR g)) = Some (?F OR g, True, False, ?n (?F OR g))"
    using notify_awake(2) [OF o(1), of "?n ?F" eSetBits g] notify_awake(2) [OF o(1), of "?n (?F OR g)" eNoAction 0]
    by (simp_all add: note_again)
  then show ?thesis using o f g notify_awake(1) [OF o(1,2), of eNoAction 0] notify_awake(1) [OF o(1), of "?n (?F OR g)" eSetValueWithOverwrite]
    by (simp add: osThreadFlagsClear_kernel_def Let_def note_again)
qed

subsection \<open>The gateway's thread flags\<close>

lemma invalid_bits: "THREAD_FLAGS_INVALID_BITS = osFlagsError"
  by (simp add: THREAD_FLAGS_INVALID_BITS_def)

text \<open>The flags of the gateway's model under its three calls.\<close>

lemma gw_set: "task_exists tk (kn s) \<Longrightarrow> f AND osFlagsError = 0 \<Longrightarrow>
    osThreadFlagsSet tk f s = (task_flags tk (kn s) OR f, s\<lparr>kn := set_task_flags tk (task_flags tk (kn s) OR f) (kn s)\<rparr>)"
  by (simp add: osThreadFlagsSet_def Let_def)

lemma gw_clear: "f AND osFlagsError = 0 \<Longrightarrow>
    osThreadFlagsClear tk f s = (task_flags tk (kn s), s\<lparr>kn := set_task_flags tk (task_flags tk (kn s) AND NOT f) (kn s)\<rparr>)"
  by (simp add: osThreadFlagsClear_def Let_def)

lemma set_task_flags_same [simp]: "task_flags tk (set_task_flags tk v x) = v"
  by (cases tk) simp_all

text \<open>A wait that finds \<open>F\<close>, all of it in the mask: before it is suspended, or after.\<close>

lemma gw_wait:
  assumes F: "F AND NOT m = 0" and su: "task_flags tk (kn (suspend hw n s)) = F"
    and none: "task_flags tk (kn s) \<noteq> 0 \<or> n = 0 \<Longrightarrow> F = task_flags tk (kn s)" and lim: "\<not> (n = osWaitForever \<and> F = 0)"
  shows "\<exists>s'. osThreadFlagsWait hw tk m n s = Some (if F = 0 then wait_error n else F, s') \<and> task_flags tk (kn s') = 0"
proof (cases "F = 0")
  case True
  then have "task_flags tk (kn s) = 0" using none by auto
  then show ?thesis using True su lim by (auto simp: osThreadFlagsWait_def wait_error_def Let_def)
next
  case False
  have m: "F AND m \<noteq> 0" using mask_and [OF F(1)] False by (simp add: and.commute)
  then show ?thesis using none su F False
    by (cases "task_flags tk (kn s) = 0") (auto simp: osThreadFlagsWait_def Let_def)
qed

lemma valid_not_error: "F AND NOT m = 0 \<Longrightarrow> m AND THREAD_FLAGS_INVALID_BITS = 0 \<Longrightarrow> F \<noteq> wait_error n"
proof
  assume a: "F AND NOT m = 0" "m AND THREAD_FLAGS_INVALID_BITS = 0" "F = wait_error n"
  have "F AND THREAD_FLAGS_INVALID_BITS = (m AND F) AND THREAD_FLAGS_INVALID_BITS" by (simp only: mask_and [OF a(1)])
  also have "\<dots> = (m AND THREAD_FLAGS_INVALID_BITS) AND F" by (simp only: and.assoc and.commute and.left_commute)
  finally have "F AND THREAD_FLAGS_INVALID_BITS = 0" by (simp add: a(2))
  then show False by (simp add: a(3) wait_error_def THREAD_FLAGS_INVALID_BITS_def split: if_splits)
qed


subsection \<open>A wait on a kernel with four tasks\<close>

lemma boot_owner: "flag_owner 0x200 boot_tasks 15 0x180 boot_kernel"
proof -
  have "running 0x180 boot_kernel" "ulNotifiedValue (tcb boot_kernel 0x180) = 0" "ucNotifyState (tcb boot_kernel 0x180) = 0" by code_simp+
  then show ?thesis using boot_inv by (simp add: flag_owner_def boot_tasks taskWAITING_NOTIFICATION_def)
qed

text \<open>The RS-422 task waits five ticks; an interrupt sets two flags while the scheduler is suspended.\<close>

definition set_meanwhile :: "sim hw" where
  "set_meanwhile = sim_hw\<lparr>suspend := (\<lambda>n s. s\<lparr>kn := set_task_flags RS422Task 10 (kn s)\<rparr>)\<rparr>"


text \<open>
  The loop takes the whole time since the call from what is left, at every notification without a flag: a wait of ten ticks that is
  disturbed after three and after six ticks ends after seven.
\<close>

lemma flags_wait_shortened:
  "map_option (\<lambda>(r, k). (r, xTickCount k)) (osThreadFlagsWait_kernel (others 0x200 {0x100, 0x180, 0x200, 0x300} 15 0x180)
      [[Switch, Tick, Tick, Tick, NotifyFromISR 0x180 0 eNoAction, Switch], [Switch, Tick, Tick, Tick, NotifyFromISR 0x180 0 eNoAction, Switch],
       [Switch, Tick, Switch]] False 15 0 10 boot_kernel) = Some (osFlagsErrorTimeout, 7)"
  by code_simp

end
