(* ===== verification/Spec2Isabelle.thy ===== *)
theory Spec2Isabelle
  imports Prelude KernelMem Crc16 Protocol StreamParser RemotePort GwStart GwUartLine KernelFlags
begin

text \<open>
  \<^bold>\<open>Verification of the Ethernet/RS-422 gateway\<close>

  \<^bold>\<open>The program.\<close> Two boards and a protocol between them. A PC talks to the gateway (STM32G474 with a
  W5500 Ethernet chip) over TCP and receives telemetry over UDP; the gateway talks to the remote node
  (STM32F429) over an RS-422 line. All of them exchange the frames of Protocol V1: a magic number,
  version, message id, sequence number, length, payload and a CRC-16.

  A request (PING) takes this way: the Ethernet task of the gateway reads bytes from the chip and
  feeds its TCP stream parser; a complete PING goes into the command queue; the RS-422 task takes
  it, sends its frame through the UART and remembers its sequence number; the remote node parses the
  bytes and answers with a PONG; the gateway's UART interrupt puts the bytes into a ring, the RS-422
  task parses them, matches the PONG to the pending request and puts it into the response queue;
  the Ethernet task sends it to the client. Telemetry of the node takes the last part of this way
  through its own queue and the UDP socket. The health task watches the age of the last valid frame.

  \<^bold>\<open>The theories\<close>, in the order in which they build on each other (file names under \<^verbatim>\<open>src/\<close>):

  \<^item> \<^verbatim>\<open>Prelude\<close>: byte and word helpers, partial-correctness (\<open>post\<close>) and total-correctness
    (\<open>returns\<close>) predicates for functions that may not return.
  \<^item> \<^verbatim>\<open>Crc16\<close>: \<^verbatim>\<open>common/crc16.c\<close>. The remainder of a polynomial long division;
    detects every burst of up to 16 bits.
  \<^item> \<^verbatim>\<open>Protocol\<close>: \<^verbatim>\<open>common/protocol.c\<close>. Round trip, exactly the frames are accepted, bursts are rejected.
  \<^item> \<^verbatim>\<open>StreamParser\<close>: \<^verbatim>\<open>common/stream_parser.c\<close>. The state machine refines a specification over the
    list of pending bytes; counters; delivery of frame sequences; resynchronisation after noise.
  \<^item> \<^verbatim>\<open>ParserClient\<close>: the locale of the three loops that drive a parser (remote node, RS-422 receiver,
    TCP receiver), interpreted on each.
  \<^item> \<^verbatim>\<open>Fifo\<close>: the locale \<open>bounded_fifo\<close>, interpreted on the two receive rings and the kernel queue.
  \<^item> \<^verbatim>\<open>UartRxRing\<close>, \<^verbatim>\<open>RemoteNode\<close>, \<^verbatim>\<open>RemotePort\<close> (with \<^verbatim>\<open>Timing\<close>, \<^verbatim>\<open>Hal\<close>): the remote node,
    \<^verbatim>\<open>firmware/f429_remote_node/App\<close> and the default task of its \<^verbatim>\<open>main.c\<close>. The ring is a FIFO, every
    request is answered as prescribed, periodic frames keep their periods across wrap-around, and
    under every interleaving of interrupts and task each byte, drop and error is accounted for.
  \<^item> \<^verbatim>\<open>RtosQueue\<close>: the kernel's message queue as the gateway calls it (\<^verbatim>\<open>queue.c\<close>, \<^verbatim>\<open>cmsis_os2.c\<close>).
  \<^item> \<^verbatim>\<open>GwConfig\<close>, \<^verbatim>\<open>GwState\<close>: the constants and the file-scope objects of
    \<^verbatim>\<open>firmware/g474_gateway/Core/Src/main.c\<close>, grouped into records that form the state \<open>'e gw\<close>; the
    hardware interface \<open>'e hw\<close>; thread flags.
  \<^item> \<^verbatim>\<open>GwDiag\<close>, \<^verbatim>\<open>GwHealth\<close>: time conversion, diagnostics, the health task.
  \<^item> \<^verbatim>\<open>GwW5500\<close>, \<^verbatim>\<open>GwBus\<close>, \<^verbatim>\<open>GwSend\<close>, \<^verbatim>\<open>GwSim\<close>: the driver of the chip; what it puts on the bus and
    how long it takes; the locale \<open>frame_sender\<close> of the two senders; a simulated chip.
  \<^item> \<^verbatim>\<open>GwTcp\<close>, \<^verbatim>\<open>GwUdp\<close>: the two services, each interpreting \<open>frame_sender\<close>.
  \<^item> \<^verbatim>\<open>GwRs422\<close>, \<^verbatim>\<open>GwLink\<close>, \<^verbatim>\<open>GwTransmit\<close>, \<^verbatim>\<open>GwBringup\<close>: the RS-422 task: interrupts and ring, receiver,
    transmitter, link test. The receiver refines the abstract link \<open>link_view\<close>.
  \<^item> \<^verbatim>\<open>GwEthernet\<close>, \<^verbatim>\<open>GwSchedule\<close>: the Ethernet task, its deadlines, and the time of an iteration.
  \<^item> \<^verbatim>\<open>GwInvariant\<close>, \<^verbatim>\<open>GwInterleave\<close>, \<^verbatim>\<open>GwMain\<close>: the well-formedness of the shared state, kept by every
    function of every task and interrupt; tasks that are interleaved with interrupts and other tasks wherever they give
    up the processor (the locale \<open>shared_board\<close> and its board \<open>watched\<close>); start-up; the reachable states of the gateway.
  \<^item> \<^verbatim>\<open>Heap4\<close>, \<^verbatim>\<open>HeapUse\<close>, \<^verbatim>\<open>HeapStats\<close>: the kernel's allocator \<^verbatim>\<open>heap_4.c\<close>. Free list and headers in
    memory refine a list of blocks that tile the array; blocks in use never overlap, every call
    returns, releases restore the whole heap.
  \<^item> \<^verbatim>\<open>GwStart\<close>: the queues and tasks that \<^verbatim>\<open>main\<close> creates, with the memory they take from that heap.
  \<^item> \<^verbatim>\<open>KernelList\<close>: the kernel's linked lists \<^verbatim>\<open>list.c\<close> on memory; they implement sequences with an index.
  \<^item> \<^verbatim>\<open>KernelSched\<close>, \<^verbatim>\<open>KernelTask\<close>: the scheduler \<^verbatim>\<open>tasks.c\<close>: lists of tasks, ticks, task selection, suspending
    the scheduler; creating tasks, delays, notifications, event lists. \<^verbatim>\<open>KernelMem\<close>: its sequences of tasks are
    those linked lists.
  \<^item> \<^verbatim>\<open>KernelInv\<close>, \<^verbatim>\<open>KernelTick\<close>, \<^verbatim>\<open>KernelOps\<close>, \<^verbatim>\<open>KernelServe\<close>: the invariant of the scheduler's lists (the locale
    \<open>item_kind\<close> serves both items of a task), and what a tick, a wait, a wake-up and a resumption do to an abstract scheduler
    that only knows which task is ready, and how long each other one still waits.
  \<^item> \<^verbatim>\<open>KernelRun\<close>, \<^verbatim>\<open>KernelTime\<close>: start-up and runs of calls, interrupts and ticks. Every call returns and refines the
    abstract scheduler; no ready task outranks the running one without a switch being asked for; delays are exact across
    the wrap-around of the tick count; equals take turns.
  \<^item> \<^verbatim>\<open>KernelNote\<close>, \<^verbatim>\<open>KernelFlags\<close>: the kernel's task notifications over whole runs: none is lost; the thread flags
    of \<^verbatim>\<open>cmsis_os2.c\<close> on them, and that the gateway's thread flags are those.
  \<^item> \<^verbatim>\<open>GwUart\<close>, \<^verbatim>\<open>GwUartLine\<close>: the vendor's interrupt-driven UART driver (\<^verbatim>\<open>stm32g4xx_hal_uart.c\<close>) with
    its registers under the gateway's callbacks. It refines an abstract line under every order of
    arriving bytes, departing bytes and interrupts.
  \<^item> This theory: the way of a request and of its answer through both boards.

  \<^bold>\<open>How the code is modelled.\<close> A C function is a HOL function of the same name on the state; loop
  bodies and switch arms are functions of their own where they are long. Integers keep their width
  (\<open>u8\<close>, \<open>u16\<close>, \<open>u32\<close> are words; 64-bit intermediate products are written out); the tick counter wraps.
  Local variables of a task that live across iterations are a record. Status codes are values, and
  every early return is a branch. Calls of the vendor's HAL and of the kernel's clock are fields of
  the record \<open>'e hw\<close> on an arbitrary environment \<open>'e\<close>. A loop that waits for the chip, the UART or an
  event is a \<^verbatim>\<open>partial_function (option)\<close>; no fuel is used, and the theorems on waiting prove that the
  result is \<open>Some\<close>.

  \<^bold>\<open>What the properties assume of code that is not modelled\<close>, each shown satisfiable by a simulated
  board: \<open>clocked\<close> (the tick follows a clock, each call takes at most \<open>B\<close> ticks, a delay takes its time
  and ends, 1000 ticks per second); \<open>bus_ok\<close>/\<open>eth_bus\<close> (chip select frames what is clocked out; while
  the Ethernet task sleeps nobody else writes its variables); \<open>rs422_rely\<close> and \<open>uart_ok\<close> (while the
  RS-422 task waits, the ring invariant holds and nobody else transmits);
  \<open>common_mem\<close> (the chip's configuration registers hold what is written). The well-formedness of the gateway's
  shared data assumes nothing of the board. The bound of an Ethernet
  iteration, 24644 ticks and 818 call durations, is the sum of the timeouts on its longest path:
  every chip access failing as late as it can.

  \<^bold>\<open>Interleaving.\<close> On the remote node, interrupts interleave with the task at every ring and counter
  access (\<open>port_step\<close>); \<open>remote_node_port_process\<close> is a round that no interrupt falls into. On the gateway, other tasks
  and interrupts act where the running task gives up the processor (\<open>sleep\<close>, \<open>suspend\<close>, \<open>HAL_Delay\<close>) and between
  iterations; setting a thread flag does not itself switch tasks. For the well-formedness of the shared data
  (\<open>gw_reach\<close>) what acts there is the model's own tasks and interrupts, themselves suspended anywhere or not; preemption
  between two statements that do not give up the processor is not modelled. The race of the health task with the receiver,
  which needs it, is stated on the functions involved. The scheduler theories treat every critical section of the kernel as
  one step, and any sequence of such steps as a run, of which only the callers' own conditions (\<open>allowed\<close>) are asked; a failed
  \<^verbatim>\<open>configASSERT\<close> or the removal of an item that is on no list is \<open>None\<close>. The thread flags connect the gateway's tasks with the
  kernel (\<open>KernelFlags\<close>); which task the scheduler picks stays a parameter for them. Memory barriers have no
  effect in this sequentially consistent model.

  \<^bold>\<open>Not modelled\<close>: the rest of the vendor HAL, CMSIS headers and the USB host stack; of the scheduler,
  priority inheritance, deleting and suspending tasks, changing priorities and the saving of registers; software timers, event
  groups and the blocking variants of the kernel's queue; clock, pin and peripheral initialisation (generated code that fills
  configuration structures); null checks on pointers that are addresses of static objects; the host
  tools and tests, which run on a PC.

  \<^bold>\<open>Deviations found\<close>: the health task can report a timeout at the moment a frame arrives
  (\<open>GwMain\<close>) and falsely recovers after \<open>2 ^ 32\<close> silent ticks (\<open>GwHealth\<close>); the gateway forwards only
  PING although the protocol document also routes READ_STATUS; the node's status payload differs
  from the documented one; the kernel's heap statistics follow a null pointer when the heap is full
  (\<open>HeapStats\<close>); a wait for thread flags can end before its time, and clearing flags can drop flags that an interrupt sets
  in between (\<open>KernelFlags\<close>); three unreachable exits of the stream parser lose their error code.
\<close>

subsection \<open>The way of a request\<close>

lemma idle_frame:
  "packet_ok m \<Longrightarrow> parser_inv p \<Longrightarrow> packet_wf out \<Longrightarrow> pending p = [] \<Longrightarrow>
    \<exists>p' r. feed_all p out (frame_bytes m) = ([r], p', r) \<and> parser_inv p' \<and> packet_wf r \<and> pending p' = [] \<and> same_message m r"
  by (rule feed_all_frame) (simp_all add: frame_bytes_def)

text \<open>What the handling of TCP bytes leaves alone on the RS-422 side.\<close>

definition tx_ready :: "'e gw \<Rightarrow> bool" where
  "tx_ready s \<longleftrightarrow> g_rs422_tx_busy (rs s) = 0 \<and> rs422_flags (kn s) AND osFlagsError = 0"

lemma command_event_ready: "(f OR RS422_EVENT_CMD_READY :: u32) AND osFlagsError = f AND osFlagsError"
  by (simp add: bit.conj_disj_distrib2)

lemma tcp_feed_tx_ready: "tx_ready (tcp_feed board b s) = tx_ready s"
proof -
  have enqueue: "tx_ready (enqueue_command u) = tx_ready u" for u :: "'a gw"
    using command_event_ready [of "rs422_flags (kn u)"]
    by (simp add: enqueue_command_def tx_ready_def osThreadFlagsSet_def Let_def split: prod.split)
  have "tx_ready (w5500_tcp_handle_valid_frame board u) = tx_ready u" for u
    unfolding w5500_tcp_handle_valid_frame_def Let_def
    by (simp add: enqueue) (simp add: tx_ready_def note_first_ping_def diagnostic_now_ms_def Let_def)
  then show ?thesis
    by (simp add: tcp_feed_def Let_def split: prod.split stream_parser_event_t.split) (simp add: tx_ready_def)
qed

lemma take_command_first:
  assumes "rs422_cmd_queue (qs s) = Some q" "queue_inv q" "queue_items q = m # ms" "take_command s = (b, t)"
  shows "b" "g_rs422_command_packet (ro t) = m" "env t = env s" "tx_ready t = tx_ready s"
proof -
  obtain st mq out where get: "osMessageQueueGet (Some q) (Some (g_rs422_command_packet (ro s))) = (st, mq, out)"
    using prod_cases3 by blast
  from queue_get_outcome [OF assms(2) get] assms(3) have "st = osOK" "out = Some m" by auto
  with assms(1,4) get show "b" "g_rs422_command_packet (ro t) = m" "env t = env s" "tx_ready t = tx_ready s"
    by (auto simp: take_command_def tx_ready_def)
qed

text \<open>A gateway after start-up, for the concrete instances.\<close>

definition sample_gateway :: "sim gw" where
  "sample_gateway = main_create_queues (Some (replicate 8 zero_packet)) (Some (replicate 8 zero_packet))
     (Some (replicate 4 zero_packet)) (boot sim_init)"

lemma create_queues_simps:
  fixes s :: "'e gw"
  defines "t \<equiv> main_create_queues (Some (replicate 8 zero_packet)) (Some (replicate 8 zero_packet)) (Some (replicate 4 zero_packet)) s"
  shows "tob t = tob s" "ro t = ro s" "rs t = rs s" "kn t = kn s" "sv t = sv s" "env t = env s"
    "queue_items (the (rs422_cmd_queue (qs t))) = []" "queue_items (the (tcp_response_queue (qs t))) = []"
proof -
  show "tob t = tob s" "ro t = ro s" "rs t = rs s" "kn t = kn s" "sv t = sv s" "env t = env s"
    by (simp_all add: t_def main_create_queues_def Let_def)
  have "osMessageQueueNew 8 (Some (replicate 8 zero_packet)) = Some (prvInitialiseNewQueue 8 (replicate 8 zero_packet))"
    by (simp add: osMessageQueueNew_def)
  moreover from new_queue_inv [OF this] have "queue_items (prvInitialiseNewQueue 8 (replicate 8 zero_packet)) = []" by simp
  ultimately show "queue_items (the (rs422_cmd_queue (qs t))) = []" "queue_items (the (tcp_response_queue (qs t))) = []"
    by (simp_all add: t_def main_create_queues_def Let_def)
qed

lemma sample_gateway_simps:
  "gw_ok sample_gateway" "tob sample_gateway = boot_tcp_objects" "ro sample_gateway = boot_rs422_objects"
  "rs sample_gateway = boot_rs422_vars" "kn sample_gateway = boot_kernel_vars" "env sample_gateway = sim_init"
  "queue_items (the (rs422_cmd_queue (qs sample_gateway))) = []" "queue_items (the (tcp_response_queue (qs sample_gateway))) = []"
proof -
  show "gw_ok sample_gateway" unfolding sample_gateway_def by (rule boot_gw_ok) simp_all
qed (simp_all add: sample_gateway_def create_queues_simps boot_def)

lemma pending_init [simp]: "pending stream_parser_init = []"
  by (simp add: pending_def stream_parser_init_def)

text \<open>C2: a PING that arrives from the TCP client while the stream parser is between frames and
  no other request waits is taken by the RS-422 task and handed to the UART byte for byte as the
  client sent it, provided the transmission is reported successful.\<close>

theorem request_reaches_rs422:
  assumes clk: "clocked board now G B" "B < 2 ^ 19" and rely: "rs422_rely board" "uart_ok board log"
    and ok: "gw_ok s" and idle: "pending (g_tcp_parser (tob s)) = []" and empty: "queue_items (the (rs422_cmd_queue (qs s))) = []"
    and ready: "g_rs422_tx_busy (rs s) = 0" "rs422_flags (kn s) AND osFlagsError = 0"
    and p: "packet_ok p" "pk_msg_id p = MSG_PING"
  shows "\<exists>s1 r t. take_command (fold (tcp_feed board) (frame_bytes p) s) = (True, s1) \<and>
    rs422_forward_packet board (Some (g_rs422_command_packet (ro s1))) s1 = Some (r, t) \<and>
    (r = RS422_PING_TEST_PASS \<longrightarrow> log (env t) = log (env s1) @ [frame_bytes p])"
proof -
  define s' where "s' = fold (tcp_feed board) (frame_bytes p) s"
  have ok': "gw_ok s'" "tx_ready s'"
  proof -
    have "gw_ok (fold (tcp_feed board) bs u) \<and> tx_ready (fold (tcp_feed board) bs u)" if "gw_ok u" "tx_ready u" for bs u
      using that by (induction bs arbitrary: u) (simp_all add: tcp_feed_gw_ok tcp_feed_tx_ready)
    then show "gw_ok s'" "tx_ready s'" using ok ready by (simp_all add: s'_def tx_ready_def)
  qed
  obtain q where q: "rs422_cmd_queue (qs s) = Some q" "queue_inv q" "uxLength q = RS422_CMD_QUEUE_DEPTH" "queue_items q = []"
    using ok empty by (auto simp: gw_ok_def queues_ok_def queue_holds_def queue_ready_def)
  have "parser_inv (g_tcp_parser (tob s))" "packet_wf (g_tcp_received_packet (tob s))"
    using ok by (simp_all add: gw_ok_def tcp_objects_ok_def)
  then obtain p' m where feed: "feed_all (g_tcp_parser (tob s)) (g_tcp_received_packet (tob s)) (frame_bytes p) = ([m], p', m)"
    "same_message p m"
    using idle_frame [OF p(1) _ _ idle] by blast
  then have "pings [m] = [m]" using p(2) by (simp add: pings_def same_message_def)
  with tcp_feed_all [OF q(1,2) feed(1), of board] q(3,4) obtain q' where
    q': "rs422_cmd_queue (qs s') = Some q'" "queue_inv q'" "queue_items q' = [m]"
    by (auto simp: requests_handled_def queued_def s'_def Let_def)
  obtain b s1 where take: "take_command s' = (b, s1)" by fastforce
  note s1 = take_command_first [OF q' take]
  have "gw_ok s1" "packet_ok m" using take_command_gw_ok [OF ok'(1) take] s1(1,2) by auto
  then have "rx_ring_inv s1" "length (g_rs422_tx_frame (ro s1)) = PROTOCOL_MAX_FRAME_SIZE"
    by (simp_all add: gw_ok_def rs422_objects_ok_def rx_ring_inv_def word_le_nat_alt)
  moreover have "g_rs422_tx_busy (rs s1) = 0" "rs422_flags (kn s1) AND osFlagsError = 0"
    using s1(4) ok'(2) by (simp_all add: tx_ready_def)
  ultimately obtain r t where "rs422_forward_packet board (Some m) s1 = Some (r, t)"
    "log (env t) = log (env s1) @ [frame_bytes m] \<or> r \<noteq> RS422_PING_TEST_PASS"
    using forward_packet_sends [OF clk rely _ \<open>packet_ok m\<close>] by blast
  then show ?thesis using take s1(1,2) feed(2) by (auto simp: s'_def same_message_frame)
qed

theorem request_reaches_rs422_witness:
  "\<exists>s1 r t. take_command (fold (tcp_feed uart_hw) (frame_bytes sample_ping) sample_gateway) = (True, s1) \<and>
    rs422_forward_packet uart_hw (Some (g_rs422_command_packet (ro s1))) s1 = Some (r, t) \<and>
    (r = RS422_PING_TEST_PASS \<longrightarrow> sim_uart (env t) = sim_uart (env s1) @ [frame_bytes sample_ping])"
  by (rule request_reaches_rs422 [OF uart_hw_ok(3) _ uart_hw_ok(1,2) sample_gateway_simps(1) _ _ _ _ sample_ping_ok])
    (simp_all add: sample_gateway_simps boot_tcp_objects_def boot_rs422_vars_def boot_kernel_vars_def sample_ping_def)

subsection \<open>The way of the answer\<close>

definition rx_view :: "'e gw \<Rightarrow> stream_parser_t \<times> protocol_packet_t \<times> link_view \<times> queue_vars \<times> service_vars" where
  "rx_view s = (g_rs422_parser (ro s), g_rs422_received_packet (ro s), link_of s, qs s, sv s)"

text \<open>Storing a received byte is the gateway's receive callback with a driver that restarts reception.\<close>

lemma uart_store_callback:
  "uart_store b s = GwRs422.HAL_UART_RxCpltCallback (undefined\<lparr>HAL_UART_Receive_IT := \<lambda>e. (HAL_OK, e)\<rparr>) True (s\<lparr>ro := (ro s)\<lparr>g_uart4_rx_byte := b\<rparr>\<rparr>)"
  by (simp add: uart_store_def GwRs422.HAL_UART_RxCpltCallback_def)

lemma uart_store_byte:
  assumes "rx_ring_inv s" "length (rx_ring_bytes s) < 512"
  shows "rx_ring_inv (uart_store b s)" "rx_ring_bytes (uart_store b s) = rx_ring_bytes s @ [b]" "rx_view (uart_store b s) = rx_view s"
proof -
  define s1 where "s1 = s\<lparr>ro := (ro s)\<lparr>g_uart4_rx_byte := b\<rparr>\<rparr>"
  define s2 where "s2 = rs422_rx_ring_push_from_isr b s1"
  have s1: "rx_ring_inv s1" "rx_ring_bytes s1 = rx_ring_bytes s" using assms(1) by (simp_all add: s1_def rx_ring_inv_def rx_ring_bytes_def)
  have push: "rx_ring_inv s2" "rx_ring_bytes s2 = rx_ring_bytes s @ [b]"
    using push_room [OF s1(1), of b] s1(2) assms(2) by (simp_all add: s2_def rx_ring_put_def Let_def)
  have ro: "ro (uart_store b s) = ro s2" and keep: "rx_view (uart_store b s) = rx_view s"
    by (simp_all add: s2_def s1_def uart_store_def wake_rs422_def
        osThreadFlagsSet_def rx_view_def link_of_def rs422_rx_ring_push_from_isr_def Let_def)
  show "rx_ring_inv (uart_store b s)" "rx_ring_bytes (uart_store b s) = rx_ring_bytes s @ [b]" "rx_view (uart_store b s) = rx_view s"
    using push ro keep by (simp_all add: rx_ring_inv_def rx_ring_bytes_def)
qed

lemma uart_store_frame:
  "rx_ring_inv s \<Longrightarrow> length (rx_ring_bytes s) + length bs \<le> 512 \<Longrightarrow>
    rx_ring_inv (fold uart_store bs s) \<and> rx_ring_bytes (fold uart_store bs s) = rx_ring_bytes s @ bs \<and>
    rx_view (fold uart_store bs s) = rx_view s"
proof (induction bs arbitrary: s)
  case (Cons b bs)
  show ?case using Cons.IH [of "uart_store b s"] uart_store_byte [OF Cons.prems(1), of b] Cons.prems(2) by simp
qed simp

lemma uart_store_gw_ok: "gw_ok s \<Longrightarrow> gw_ok (fold uart_store bs s)"
proof (induction bs arbitrary: s)
  case (Cons b bs)
  then have "gw_ok (s\<lparr>ro := (ro s)\<lparr>g_uart4_rx_byte := b\<rparr>\<rparr>)" by (simp add: gw_ok_def rs422_objects_ok_def)
  then have "gw_ok (uart_store b s)" unfolding uart_store_callback by (rule uart_callbacks_gw_ok)
  then show ?case using Cons.IH by simp
qed simp

text \<open>A frame that arrives over the line while no other byte waits is in the ring.\<close>

lemma wire_fills_ring:
  fixes s :: "'x uart_env gw" and board :: "'x uart_env hw"
  assumes "gw_ok s" "rx_ring_bytes s = []" "uart_inv (env s)" "\<not> rx_event (view_of (env s))" "length f \<le> 512"
  defines "t \<equiv> fold (line_step board) (wire f) s"
  shows "gw_ok t" "rx_ring_inv t" "rx_ring_bytes t = f" "rx_view t = rx_view s"
proof -
  obtain e where t: "t = (fold uart_store f s)\<lparr>env := e\<rparr>" unfolding t_def by (rule wire_stores [OF assms(3,4)])
  have "rx_ring_inv s" using assms(1) by (simp add: gw_ok_def rs422_objects_ok_def rx_ring_inv_def word_le_nat_alt)
  then have "rx_ring_inv (fold uart_store f s)" "rx_ring_bytes (fold uart_store f s) = f" "rx_view (fold uart_store f s) = rx_view s"
    using uart_store_frame [of s f] assms(2,5) by simp_all
  moreover have "rx_view t = rx_view (fold uart_store f s)" by (simp add: t rx_view_def link_of_def)
  ultimately show "rx_ring_inv t" "rx_ring_bytes t = f" "rx_view t = rx_view s" by (simp_all add: t rx_ring_inv_def rx_ring_bytes_def)
  show "gw_ok t" using uart_store_gw_ok [OF assms(1), of f] by (simp add: t gw_ok_def)
qed

lemma take_response_first:
  assumes "tcp_response_queue (qs s) = Some q" "queue_inv q" "queue_items q = [m]"
  obtains u where "take_response s = (True, u)" "g_tcp_pong_packet (tob u) = m"
    "responses (link_of u) = []" "g_w5500_tcp_tx_frame (tob u) = g_w5500_tcp_tx_frame (tob s)"
proof -
  obtain st mq out where get: "osMessageQueueGet (Some q) (Some (g_tcp_pong_packet (tob s))) = (st, mq, out)"
    using prod_cases3 by blast
  from queue_get_outcome [OF assms(2) get] assms(3) obtain q' where "st = osOK" "out = Some m" "mq = Some q'" "queue_items q' = []"
    by auto
  with assms(1) get show ?thesis by (intro that [of "snd (take_response s)"]) (auto simp: take_response_def link_of_def)
qed

text \<open>The node's side: one PONG with the sequence number of the request.\<close>

lemma node_answers_ping:
  assumes "node_inv n" "pending (parser n) = []" "tx_fn n = Some tx" "\<And>f c. log (snd (tx f c)) = log c @ [f]"
    and p: "packet_ok p" "pk_msg_id p = MSG_PING" "pk_length p = 0"
  obtains n' c' r where "remote_node_process_bytes (Some n) (Some (frame_bytes p)) (length (frame_bytes p)) c = (Some n', c')"
    "log c' = log c @ [frame_bytes r]" "packet_ok r" "pk_msg_id r = MSG_PONG" "pk_seq r = pk_seq p"
proof -
  obtain n' c' where run: "process_bytes n (frame_bytes p) c = (n', c')" by fastforce
  have inv: "parser_inv (parser n)" using assms(1) by (simp add: node_inv_def)
  obtain p' m where feed: "feed_all (parser n) zero_packet (frame_bytes p) = ([m], p', m)" "same_message p m"
    using idle_frame [OF p(1) inv packet_wf_zero assms(2)] by blast
  from process_bytes_answers [of log tx, OF assms(4,1,3) packet_wf_zero run feed(1)] feed(2) p(2)
  obtain r where "log c' = log c @ [frame_bytes r]" "answers m r"
    by (auto simp: same_message_def list_all2_Cons1)
  moreover from this(2) feed(2) p have "packet_ok r \<and> pk_msg_id r = MSG_PONG \<and> pk_seq r = pk_seq p"
    by (simp add: answers_def same_message_def)
  moreover have "remote_node_process_bytes (Some n) (Some (frame_bytes p)) (length (frame_bytes p)) c = (Some n', c')"
    using run by (simp add: remote_node_process_bytes_def)
  ultimately show ?thesis using that by blast
qed

text \<open>The gateway's side: the PONG of the pending request becomes the only response.\<close>

lemma pong_becomes_response:
  fixes s :: "'x uart_env gw" and board :: "'x uart_env hw" and e :: u16 and k :: u32
  assumes gw: "gw_ok s" "rx_ring_bytes s = []" "pending (g_rs422_parser (ro s)) = []" "g_w5500_tcp_session_active (sv s) \<noteq> 0"
    and uart: "uart_inv (env s)" "\<not> rx_event (view_of (env s))"
    and link: "pending_request (link_of s) = Some (pk_seq r)" "responses (link_of s) = []"
    and r: "packet_ok r" "pk_msg_id r = MSG_PONG"
  defines "t \<equiv> snd (rs422_process_rx_buffer (uart_board board) e k (fold (line_step board) (wire (frame_bytes r)) s))"
  shows "gw_ok t \<and> (\<exists>m. link_of t = (link_of s)\<lparr>pending_request := None, responses := [m]\<rparr> \<and> same_message r m)"
proof -
  define s' where "s' = fold (line_step board) (wire (frame_bytes r)) s"
  have "length (frame_bytes r) \<le> 512" using r(1) by (simp add: packet_ok_def)
  note s' = wire_fills_ring [OF gw(1,2) uart this, of board, folded s'_def]
  obtain p' m where feed: "feed_all (g_rs422_parser (ro s')) (g_rs422_received_packet (ro s')) (frame_bytes r) = ([m], p', m)"
    "same_message r m"
    using idle_frame [OF r(1), of "g_rs422_parser (ro s')" "g_rs422_received_packet (ro s')"] gw(1,3) s'(4)
    by (auto simp: rx_view_def gw_ok_def rs422_objects_ok_def)
  have "link_ok s'" using s'(1) by (simp add: gw_ok_def queues_ok_def queue_holds_def link_ok_def)
  from rx_loop_link [OF this s'(2,3) feed(1), of "uart_board board" e k 0] obtain t' where
    t': "snd (rx_loop (uart_board board) e k 0 s') = t'" "link_received [m] s' t'" by auto
  then have t: "t = t'" by (simp add: t_def s'_def rs422_process_rx_buffer_def)
  have "link_of t = link_receive True (g_rs422_telemetry_forwarding_enabled (rs s') \<noteq> 0) m (link_of s)"
    using t'(2) s'(4) gw(4) by (simp add: t link_received_def rx_view_def)
  moreover have "pk_msg_id m = MSG_PONG" "pk_seq m = pk_seq r" using feed(2) r(2) by (simp_all add: same_message_def)
  ultimately have "link_of t = (link_of s)\<lparr>pending_request := None, responses := [m]\<rparr>"
    using link by (simp add: link_receive_def)
  moreover have "gw_ok t" using process_rx_gw_ok [OF s'(1)] by (simp add: t_def s'_def)
  ultimately show ?thesis using feed(2) by blast
qed

text \<open>C1: the remote node answers a PING with one PONG frame, and when the bytes of that frame
  arrive over the line, each handled by the UART's interrupt, while the request is pending and the
  TCP session is active, the gateway completes the request and passes the frame on: the response it
  sends is, if the chip reports success, the node's frame, byte for byte, and exactly once.\<close>

theorem response_reaches_client:
  assumes node: "node_inv n" "pending (parser n) = []" "tx_fn n = Some tx" and uart: "\<And>f c. log (snd (tx f c)) = log c @ [f]"
    and p: "packet_ok p" "pk_msg_id p = MSG_PING" "pk_length p = 0"
    and gw: "gw_ok s" "rx_ring_bytes s = []" "pending (g_rs422_parser (ro s)) = []" "g_w5500_tcp_session_active (sv s) \<noteq> 0"
    and link: "pending_request (link_of s) = Some (pk_seq p)" "responses (link_of s) = []"
    and line: "uart_inv (env s)" "\<not> rx_event (view_of (env s))"
    and bus: "eth_bus (uart_board board) spi" "clocked (uart_board board) now G B"
  shows "\<exists>n' c' f t u v. remote_node_process_bytes (Some n) (Some (frame_bytes p)) (length (frame_bytes p)) c = (Some n', c') \<and>
    log c' = log c @ [f] \<and>
    t = snd (rs422_process_rx_buffer (uart_board board) e k (fold (line_step board) (wire f) s)) \<and> pending_request (link_of t) = None \<and>
    take_response t = (True, u) \<and> w5500_tcp_send_response_packet (uart_board board) u = Some ((), v) \<and>
    responses (link_of u) = [] \<and>
    (g_w5500_tcp_last_tx_status (tcp v) = hal_status_value HAL_OK \<longrightarrow>
      (\<exists>q. wrote spi (transmission 0x0c 0x14 q f) (env u) (env v)))"
proof -
  obtain n' c' r where run: "remote_node_process_bytes (Some n) (Some (frame_bytes p)) (length (frame_bytes p)) c = (Some n', c')"
    "log c' = log c @ [frame_bytes r]" and r: "packet_ok r" "pk_msg_id r = MSG_PONG" "pk_seq r = pk_seq p"
    by (rule node_answers_ping [OF node uart p])
  define t where "t = snd (rs422_process_rx_buffer (uart_board board) e k (fold (line_step board) (wire (frame_bytes r)) s))"
  have "gw_ok t \<and> (\<exists>m. link_of t = (link_of s)\<lparr>pending_request := None, responses := [m]\<rparr> \<and> same_message r m)"
    unfolding t_def using link r(3) by (intro pong_becomes_response gw line r) simp_all
  then obtain m where t: "gw_ok t" "link_of t = (link_of s)\<lparr>pending_request := None, responses := [m]\<rparr>" "same_message r m" by blast
  obtain q where q: "tcp_response_queue (qs t) = Some q" "queue_inv q" "queue_items q = [m]"
    using t(1,2) by (auto simp: gw_ok_def queues_ok_def queue_holds_def queue_ready_def link_of_def)
  obtain u where u: "take_response t = (True, u)" "g_tcp_pong_packet (tob u) = m" "responses (link_of u) = []"
    "g_w5500_tcp_tx_frame (tob u) = g_w5500_tcp_tx_frame (tob t)"
    by (rule take_response_first [OF q])
  have "packet_ok m" using t(1) q by (auto simp: gw_ok_def queues_ok_def queue_holds_def)
  moreover have "length (g_w5500_tcp_tx_frame (tob u)) = PROTOCOL_MAX_FRAME_SIZE" using buffer_sizes [OF t(1)] u(4) by simp
  ultimately obtain v where "w5500_tcp_send_response_packet (uart_board board) u = Some ((), v)"
    "g_w5500_tcp_last_tx_status (tcp v) = hal_status_value HAL_OK \<Longrightarrow> \<exists>q. wrote spi (transmission 0x0c 0x14 q (frame_bytes m)) (env u) (env v)"
    using response_packet_sent [OF bus, of u] u(2) by auto
  then show ?thesis using run u t(2,3) unfolding t_def by (auto simp: same_message_frame)
qed

lemma line_hw_board [simp]: "uart_board line_hw = line_hw"
  by (simp add: line_hw_def uart_board_def)

definition waiting_gateway :: "sim uart_env gw" where
  "waiting_gateway = (main_create_queues (Some (replicate 8 zero_packet)) (Some (replicate 8 zero_packet))
     (Some (replicate 4 zero_packet)) (boot (uart_boot sim_init)))
     \<lparr>sv := boot_service_vars\<lparr>g_w5500_tcp_session_active := 1\<rparr>,
      rs := boot_rs422_vars\<lparr>g_rs422_tcp_ping_pending := 1, g_rs422_tcp_ping_pending_seq := pk_seq sample_ping\<rparr>\<rparr>"

lemma waiting_gateway_simps:
  "gw_ok waiting_gateway" "ro waiting_gateway = boot_rs422_objects" "g_w5500_tcp_session_active (sv waiting_gateway) = 1"
  "rs waiting_gateway = boot_rs422_vars\<lparr>g_rs422_tcp_ping_pending := 1, g_rs422_tcp_ping_pending_seq := pk_seq sample_ping\<rparr>"
  "queue_items (the (tcp_response_queue (qs waiting_gateway))) = []" "env waiting_gateway = uart_boot sim_init"
proof -
  have "gw_ok (main_create_queues (Some (replicate 8 zero_packet)) (Some (replicate 8 zero_packet))
     (Some (replicate 4 zero_packet)) (boot (uart_boot sim_init)))" by (rule boot_gw_ok) simp_all
  then show "gw_ok waiting_gateway" by (simp add: waiting_gateway_def gw_ok_def)
qed (simp_all add: waiting_gateway_def create_queues_simps boot_def)

theorem response_reaches_client_witness:
  "\<exists>n' c' f t u v. remote_node_process_bytes (Some sample_node) (Some (frame_bytes sample_ping)) (length (frame_bytes sample_ping)) [] = (Some n', c') \<and>
    c' = [] @ [f] \<and> t = snd (rs422_process_rx_buffer line_hw 0 0 (fold (line_step line_hw) (wire f) waiting_gateway)) \<and>
    pending_request (link_of t) = None \<and> take_response t = (True, u) \<and> w5500_tcp_send_response_packet line_hw u = Some ((), v) \<and>
    responses (link_of u) = [] \<and>
    (g_w5500_tcp_last_tx_status (tcp v) = hal_status_value HAL_OK \<longrightarrow>
      (\<exists>q. wrote (\<lambda>e. sim_log (rest e)) (transmission 0x0c 0x14 q f) (env u) (env v)))"
  by (rule response_reaches_client [where log = "\<lambda>c. c" and board = line_hw, simplified line_hw_board, OF sample_node_simps(3) _ sample_node_simps(2) _ sample_ping_ok _ _ _ _ _ _ _ _ _ _ line_hw_bus line_hw_clocked])
    (simp_all add: sample_node_simps waiting_gateway_simps uart_boot_inv rx_event_def boot_rs422_objects_def rx_ring_bytes_def ring_slice_def
      link_of_def sample_ping_def zero_packet_def)

end
